(* ===== verification/Prelude.thy ===== *)
theory Prelude
  imports Main "HOL-Library.Word"
begin

text \<open>
  Shared vocabulary of the development: Python's exceptions as one error type and the result
  type \<open>error + 'a\<close> with its sequencing combinators, byte strings as lists of 8-bit words,
  and the two integer/byte conversions every codec of the program is built from,
  \<open>int.to_bytes(k, "big")\<close> and \<open>int.from_bytes(b, "big")\<close>.
\<close>

section \<open>Exceptions as values\<close>

datatype error =
    ValueError
  | OverflowError
  | KeyError
  | IndexError
  | RuntimeError
  | BadDealers "int list"
  | CodecError
  | PreScaleAggregate
  | WriteAuthorizationError
  | ImmutabilityError
  | VotingWindowError
  | QuorumConflictError
  | TallyInfeasible
  | TallyError
  | GatewayRejection string
  | KeyperRefusal string
  | TypeError
  | IncompleteBallotRead
  | EncodingError
  | DatabaseError
  | DKGError
  | DKGComplaint
  | EligibilityError
  | NotEligible
  | HttpStatus int
  | AttributeError
  | RequestException
  | InvalidTag

type_synonym 'a result = "error + 'a"

named_theorems result_simps
  \<open>evaluation of the sequencing combinators\<close>

definition ebind :: "'a result \<Rightarrow> ('a \<Rightarrow> 'b result) \<Rightarrow> 'b result" where
  "ebind m f = (case m of Inl e \<Rightarrow> Inl e | Inr x \<Rightarrow> f x)"

lemma ebind_Inl [simp, result_simps]: "ebind (Inl e) f = Inl e"
  by (simp add: ebind_def)

lemma ebind_Inr [simp, result_simps]: "ebind (Inr x) f = f x"
  by (simp add: ebind_def)

lemma ebind_eq_Inr [simp]: "ebind m f = Inr y \<longleftrightarrow> (\<exists>x. m = Inr x \<and> f x = Inr y)"
  by (cases m) auto

lemma ebind_cong [fundef_cong]:
  "m = m' \<Longrightarrow> (\<And>x. m' = Inr x \<Longrightarrow> f x = f' x) \<Longrightarrow> ebind m f = ebind m' f'"
  by (cases m') auto

lemma ebind_assoc: "ebind (ebind m f) g = ebind m (\<lambda>x. ebind (f x) g)"
  by (cases m) auto

text \<open>A computation that does not raise.\<close>

lemma not_isl_iff: "\<not> isl m \<longleftrightarrow> (\<exists>r. m = Inr r)"
  by (cases m) auto

text \<open>A comprehension whose element expression may raise.\<close>

fun emap :: "('a \<Rightarrow> 'b result) \<Rightarrow> 'a list \<Rightarrow> 'b list result" where
  "emap f [] = Inr []"
| "emap f (x # xs) = ebind (f x) (\<lambda>y. ebind (emap f xs) (\<lambda>ys. Inr (y # ys)))"

text \<open>A \<open>for\<close> loop over a list whose body updates a state and may raise.\<close>

fun efold :: "('a \<Rightarrow> 's \<Rightarrow> 's result) \<Rightarrow> 'a list \<Rightarrow> 's \<Rightarrow> 's result" where
  "efold f [] s = Inr s"
| "efold f (x # xs) s = ebind (f x s) (\<lambda>s'. efold f xs s')"

lemma emap_cong [fundef_cong]:
  "xs = ys \<Longrightarrow> (\<And>x. x \<in> set ys \<Longrightarrow> f x = g x) \<Longrightarrow> emap f xs = emap g ys"
  by (induction ys arbitrary: xs) auto

lemma efold_cong [fundef_cong]:
  "xs = ys \<Longrightarrow> s = s' \<Longrightarrow> (\<And>x st. x \<in> set ys \<Longrightarrow> f x st = g x st) \<Longrightarrow> efold f xs s = efold g ys s'"
proof (induction ys arbitrary: xs s s')
  case Nil
  then show ?case by simp
next
  case (Cons y ys)
  then show ?case by (cases "g y s'") auto
qed

lemma emap_Inr_all: "(\<And>x. x \<in> set xs \<Longrightarrow> f x = Inr (g x)) \<Longrightarrow> emap f xs = Inr (map g xs)"
  by (induction xs) auto

lemma emap_eq_Inr: "emap f xs = Inr ys \<longleftrightarrow> list_all2 (\<lambda>x y. f x = Inr y) xs ys"
  by (induction xs arbitrary: ys) (auto simp: list_all2_Cons1)

lemma emap_length: "emap f xs = Inr ys \<Longrightarrow> length ys = length xs"
  by (simp add: emap_eq_Inr list_all2_lengthD)

lemma emap_map [simp]: "emap f (map g xs) = emap (f \<circ> g) xs"
  by (induction xs) auto

lemma emap_append: "emap f (xs @ ys) = ebind (emap f xs) (\<lambda>a. ebind (emap f ys) (\<lambda>b. Inr (a @ b)))"
proof (induction xs)
  case Nil
  then show ?case by (cases "emap f ys") auto
next
  case (Cons x xs)
  then show ?case by (cases "f x"; cases "emap f xs"; cases "emap f ys") auto
qed

lemma efold_Inr_all:
  "(\<And>x s. x \<in> set xs \<Longrightarrow> P s \<Longrightarrow> f x s = Inr (g x s) \<and> P (g x s)) \<Longrightarrow> P s \<Longrightarrow>
     efold f xs s = Inr (fold g xs s)"
  by (induction xs arbitrary: s) auto

lemma efold_append: "efold f (xs @ ys) s = ebind (efold f xs s) (efold f ys)"
proof (induction xs arbitrary: s)
  case Nil
  then show ?case by simp
next
  case (Cons x xs)
  then show ?case by (cases "f x s") auto
qed

section \<open>Byte strings\<close>

type_synonym byte = "8 word"
type_synonym bytes = "byte list"

text \<open>The \<open>k\<close> big-endian base-256 digits of a non-negative integer.\<close>

fun be :: "nat \<Rightarrow> int \<Rightarrow> bytes" where
  "be 0 n = []"
| "be (Suc k) n = be k (n div 256) @ [word_of_int (n mod 256)]"

text \<open>\<open>n.to_bytes(k, "big")\<close>: raises \<open>OverflowError\<close> for a negative or too large value.\<close>

definition int_to_bytes :: "int \<Rightarrow> nat \<Rightarrow> bytes result" where
  "int_to_bytes n k = (if n < 0 \<or> 256 ^ k \<le> n then Inl OverflowError else Inr (be k n))"

text \<open>\<open>int.from_bytes(b, "big")\<close>.\<close>

definition int_from_bytes :: "bytes \<Rightarrow> int" where
  "int_from_bytes b = foldl (\<lambda>a x. a * 256 + uint x) 0 b"

lemma length_be [simp]: "length (be k n) = k"
  by (induction k arbitrary: n) auto

lemma be_eq_Nil [simp]: "be k n = [] \<longleftrightarrow> k = 0"
  by (metis length_0_conv length_be)

lemma int_from_bytes_Nil [simp]: "int_from_bytes [] = 0"
  by (simp add: int_from_bytes_def)

lemma int_from_bytes_snoc: "int_from_bytes (b @ [x]) = int_from_bytes b * 256 + uint x"
  by (simp add: int_from_bytes_def)

lemma uint_byte_bounds: "0 \<le> uint (x::byte) \<and> uint x < 256"
  using uint_lt2p [of x] by simp

lemma int_from_bytes_nonneg [simp]: "0 \<le> int_from_bytes b"
  by (induction b rule: rev_induct) (use uint_byte_bounds in \<open>auto simp: int_from_bytes_snoc\<close>)

lemma int_from_bytes_bound: "int_from_bytes b < 256 ^ length b"
proof (induction b rule: rev_induct)
  case Nil
  then show ?case by simp
next
  case (snoc x b)
  then show ?case
    using uint_byte_bounds [of x] by (simp add: int_from_bytes_snoc)
qed

lemma int_from_bytes_be: "0 \<le> n \<Longrightarrow> int_from_bytes (be k n) = n mod 256 ^ k"
proof (induction k arbitrary: n)
  case 0
  then show ?case by simp
next
  case (Suc k)
  have m: "uint (word_of_int (n mod 256) :: byte) = n mod 256"
    by (simp add: uint_word_of_int)
  have "n mod (256 * 256 ^ k) = 256 * (n div 256 mod 256 ^ k) + n mod 256"
    by (rule zmod_zmult2_eq) simp
  with Suc show ?case by (simp add: int_from_bytes_snoc m)
qed

lemma be_int_from_bytes: "be (length b) (int_from_bytes b) = b"
proof (induction b rule: rev_induct)
  case Nil
  then show ?case by simp
next
  case (snoc x b)
  have d: "(int_from_bytes b * 256 + uint x) div 256 = int_from_bytes b"
    "(int_from_bytes b * 256 + uint x) mod 256 = uint x"
    using uint_byte_bounds [of x] by auto
  have m: "uint x mod 256 = uint x"
    using uint_byte_bounds [of x] by simp
  show ?case using snoc by (simp add: int_from_bytes_snoc d m)
qed

lemma be_inject: "0 \<le> m \<Longrightarrow> m < 256 ^ k \<Longrightarrow> 0 \<le> n \<Longrightarrow> n < 256 ^ k \<Longrightarrow> be k m = be k n \<longleftrightarrow> m = n"
  by (metis int_from_bytes_be mod_pos_pos_trivial)

lemma int_to_bytes_Inr [simp]: "0 \<le> n \<Longrightarrow> n < 256 ^ k \<Longrightarrow> int_to_bytes n k = Inr (be k n)"
  by (simp add: int_to_bytes_def)

lemma int_to_bytes_eq_Inr:
  "int_to_bytes n k = Inr b \<longleftrightarrow> 0 \<le> n \<and> n < 256 ^ k \<and> b = be k n"
  by (auto simp: int_to_bytes_def)

lemma int_from_bytes_to_bytes: "int_to_bytes n k = Inr b \<Longrightarrow> int_from_bytes b = n \<and> length b = k"
  by (auto simp: int_to_bytes_eq_Inr int_from_bytes_be)

section \<open>Strings\<close>

text \<open>
  \<open>s.encode("utf-8")\<close>: the program encodes ASCII text only (labels, operation names and
  canonical JSON), for which every character is its own byte.
\<close>

definition encode_utf8 :: "string \<Rightarrow> bytes" where
  "encode_utf8 s = map (\<lambda>c. word_of_nat (of_char c)) s"

lemma length_encode_utf8 [simp]: "length (encode_utf8 s) = length s"
  by (simp add: encode_utf8_def)

lemma encode_utf8_append [simp]: "encode_utf8 (s @ t) = encode_utf8 s @ encode_utf8 t"
  by (simp add: encode_utf8_def)

lemma encode_utf8_inject [simp]: "encode_utf8 s = encode_utf8 t \<longleftrightarrow> s = t"
proof
  assume eq: "encode_utf8 s = encode_utf8 t"
  have "inj (\<lambda>c::char. word_of_nat (of_char c) :: byte)"
  proof (rule injI)
    fix c d :: char
    assume "(word_of_nat (of_char c) :: byte) = word_of_nat (of_char d)"
    then have "unat (word_of_nat (of_char c) :: byte) = unat (word_of_nat (of_char d) :: byte)"
      by simp
    then have "(of_char c :: nat) = of_char d"
      by (simp add: unat_of_nat)
    then show "c = d" by simp
  qed
  with eq show "s = t" by (simp add: encode_utf8_def map_injective)
qed simp

text \<open>\<open>str(i)\<close> for a non-negative integer, used in indexed transcript tags.\<close>

fun show_nat :: "nat \<Rightarrow> string" where
  "show_nat n =
     (if n < 10 then [char_of (n + 48)] else show_nat (n div 10) @ [char_of (n mod 10 + 48)])"

declare show_nat.simps [simp del]

section \<open>Lists\<close>

lemma append_eq_append_same_length:
  "length a = length c \<Longrightarrow> a @ b = c @ d \<longleftrightarrow> a = c \<and> b = d"
  by simp

lemma concat_fixed_inject:
  assumes "concat xs @ r = concat ys @ s" and "length xs = length ys"
    and "\<forall>x \<in> set xs. length x = k" and "\<forall>y \<in> set ys. length y = k"
  shows "xs = ys \<and> r = s"
  using assms(2,1,3,4) by (induction xs ys rule: list_induct2) auto

lemma sum_list_update_split:
  fixes xs :: "'a::comm_monoid_add list"
  assumes "k < length xs"
  shows "sum_list (xs[k := v]) = (\<Sum>i \<leftarrow> filter (\<lambda>i. i \<noteq> k) [0..<length xs]. xs ! i) + v"
proof -
  have "sum_list (xs[k := v]) = (\<Sum>i \<in> {0..<length xs}. xs[k := v] ! i)"
    by (simp add: sum_list_sum_nth)
  also have "\<dots> = v + (\<Sum>i \<in> {0..<length xs} - {k}. xs[k := v] ! i)"
    using assms by (subst sum.remove [of _ k]) auto
  also have "(\<Sum>i \<in> {0..<length xs} - {k}. xs[k := v] ! i) = (\<Sum>i \<in> {0..<length xs} - {k}. xs ! i)"
    by (rule sum.cong) auto
  also have "{0..<length xs} - {k} = set (filter (\<lambda>i. i \<noteq> k) [0..<length xs])"
    by auto
  also have "(\<Sum>i \<in> set (filter (\<lambda>i. i \<noteq> k) [0..<length xs]). xs ! i) =
      (\<Sum>i \<leftarrow> filter (\<lambda>i. i \<noteq> k) [0..<length xs]. xs ! i)"
    by (rule sum_list_distinct_conv_sum_set [symmetric]) simp
  finally show ?thesis by (simp add: add.commute)
qed

lemma efold_total:
  assumes "\<And>x s. x \<in> set xs \<Longrightarrow> \<exists>s'. f x s = Inr s'"
  shows "\<exists>s'. efold f xs s = Inr s'"
  using assms
proof (induction xs arbitrary: s)
  case Nil
  then show ?case by simp
next
  case (Cons x xs)
  then obtain s' where "f x s = Inr s'" by fastforce
  with Cons show ?case by simp
qed

lemma in_enumerate_iff: "(i, x) \<in> set (enumerate 0 xs) \<longleftrightarrow> i < length xs \<and> x = xs ! i"
  by (force simp: enumerate_eq_zip in_set_zip)

lemma sum_list_mod_eq:
  fixes xs ys :: "int list"
  assumes "list_all2 (\<lambda>a b. a mod q = b mod q) xs ys"
  shows "sum_list xs mod q = sum_list ys mod q"
  using assms by (induction rule: list_all2_induct) (auto intro: mod_add_cong)

text \<open>The slice \<open>xs[i:j]\<close>, with Python's treatment of negative and large indices.\<close>

definition slice_index :: "nat \<Rightarrow> int \<Rightarrow> nat" where
  "slice_index n i = nat (if i < 0 then max 0 (i + int n) else min i (int n))"

definition py_slice :: "'a list \<Rightarrow> int \<Rightarrow> int \<Rightarrow> 'a list" where
  "py_slice xs i j =
     (let a = slice_index (length xs) i; b = slice_index (length xs) j in take (b - a) (drop a xs))"

lemma py_slice_page:
  "0 \<le> i \<Longrightarrow> 0 \<le> k \<Longrightarrow> py_slice xs i (i + k) = take (nat k) (drop (nat i) xs)"
  by (cases "i \<le> int (length xs)")
    (auto simp: py_slice_def slice_index_def Let_def min_def nat_add_distrib nat_le_iff)

end
