(* ===== verification/Json.thy ===== *)
theory Json
  imports Prelude "HOL-Library.List_Lexorder" "HOL-Library.Char_ord"
begin

text \<open>
  What the program uses of Python's \<open>json\<close>, \<open>bytes.hex\<close>, \<open>bytes.fromhex\<close>, \<open>str\<close> and \<open>int\<close>: JSON
  values as a datatype, hexadecimal and decimal text, and the canonical text
  \<open>json.dumps(d, sort_keys=True, separators=(",", ":"))\<close> the write digests are taken over.
  A character is a code point below 256. A float is \<open>m * 2 ^ e\<close>; its text, and the text of
  containers under \<open>str\<close>, is Python's \<open>repr\<close>, an argument of the functions that need it.
  The canonical text is shown to determine the value up to the order of object keys.
\<close>

section \<open>Values\<close>

datatype json =
    JNull
  | JBool bool
  | JInt int
  | JFloat int int
  | JStr string
  | JArr "json list"
  | JObj "(string \<times> json) list"

text \<open>\<open>bool(v)\<close>.\<close>

fun truthy :: "json \<Rightarrow> bool" where
  "truthy JNull = False"
| "truthy (JBool b) = b"
| "truthy (JInt n) = (n \<noteq> 0)"
| "truthy (JFloat m e) = (m \<noteq> 0)"
| "truthy (JStr s) = (s \<noteq> [])"
| "truthy (JArr xs) = (xs \<noteq> [])"
| "truthy (JObj kvs) = (kvs \<noteq> [])"

section \<open>Hexadecimal text\<close>

definition hex_digit :: "nat \<Rightarrow> char" where
  "hex_digit n = char_of (if n < 10 then n + 48 else n + 87)"

definition hex_val :: "char \<Rightarrow> nat option" where
  "hex_val c =
     (let n = (of_char c :: nat) in
      if 48 \<le> n \<and> n \<le> 57 then Some (n - 48)
      else if 97 \<le> n \<and> n \<le> 102 then Some (n - 87)
      else if 65 \<le> n \<and> n \<le> 70 then Some (n - 55)
      else None)"

definition is_space :: "char \<Rightarrow> bool" where
  "is_space c = (let n = (of_char c :: nat) in (9 \<le> n \<and> n \<le> 13) \<or> n = 32)"

text \<open>\<open>b.hex()\<close>.\<close>

fun tohex :: "bytes \<Rightarrow> string" where
  "tohex [] = []"
| "tohex (b # bs) = hex_digit (unat b div 16) # hex_digit (unat b mod 16) # tohex bs"

text \<open>\<open>bytes.fromhex(s)\<close>: ASCII white space is skipped between pairs of digits.\<close>

fun fromhex :: "string \<Rightarrow> bytes result" where
  "fromhex [] = Inr []"
| "fromhex [c] = (if is_space c then Inr [] else Inl ValueError)"
| "fromhex (c # d # cs) =
     (if is_space c then fromhex (d # cs)
      else
        case (hex_val c, hex_val d) of
          (Some a, Some b) \<Rightarrow> ebind (fromhex cs) (\<lambda>r. Inr (word_of_nat (16 * a + b) # r))
        | _ \<Rightarrow> Inl ValueError)"

lemma hex_val_digit [simp]: "n < 16 \<Longrightarrow> hex_val (hex_digit n) = Some n"
  by (auto simp: hex_val_def hex_digit_def Let_def)

lemma hex_digit_not_space [simp]: "n < 16 \<Longrightarrow> \<not> is_space (hex_digit n)"
  by (auto simp: is_space_def hex_digit_def Let_def)

lemma unat_byte_split: "unat (b::byte) div 16 < 16" "unat b mod 16 < 16"
  "word_of_nat (16 * (unat b div 16) + unat b mod 16) = b"
proof -
  have "unat b < 256" using unsigned_less [of b] by simp
  then show "unat b div 16 < 16" by simp
  show "unat b mod 16 < 16" by simp
  show "word_of_nat (16 * (unat b div 16) + unat b mod 16) = b"
    by (simp add: mult.commute [of 16])
qed

lemma fromhex_tohex [simp]: "fromhex (tohex b) = Inr b"
  by (induction b) (simp_all add: unat_byte_split)

lemma tohex_inject [simp]: "tohex a = tohex b \<longleftrightarrow> a = b"
  by (metis fromhex_tohex sum.inject(2))

lemma length_tohex [simp]: "length (tohex b) = 2 * length b"
  by (induction b) auto

section \<open>Decimal text\<close>

text \<open>\<open>str(n)\<close>.\<close>

definition str_int :: "int \<Rightarrow> string" where
  "str_int n = (if n < 0 then ''-'' @ show_nat (nat (- n)) else show_nat (nat n))"

definition is_digit :: "char \<Rightarrow> bool" where
  "is_digit c = (let n = (of_char c :: nat) in 48 \<le> n \<and> n \<le> 57)"

definition digit_val :: "char \<Rightarrow> nat" where
  "digit_val c = of_char c - 48"

text \<open>The white space \<open>int\<close> strips, among the code points below 256.\<close>

definition is_uspace :: "char \<Rightarrow> bool" where
  "is_uspace c = (let n = (of_char c :: nat) in (9 \<le> n \<and> n \<le> 13) \<or> (28 \<le> n \<and> n \<le> 32) \<or> n = 0x85 \<or> n = 0xA0)"

definition strip :: "string \<Rightarrow> string" where
  "strip s = rev (dropWhile is_uspace (rev (dropWhile is_uspace s)))"

text \<open>Decimal digits with single underscores between them; \<open>ok\<close> tells that the last one was a digit.\<close>

fun digits :: "nat \<Rightarrow> bool \<Rightarrow> string \<Rightarrow> nat option" where
  "digits acc ok [] = (if ok then Some acc else None)"
| "digits acc ok (c # cs) =
     (if is_digit c then digits (acc * 10 + digit_val c) True cs
      else if c = CHR ''_'' \<and> ok then digits acc False cs
      else None)"

text \<open>\<open>int(s)\<close> for a string.\<close>

definition int_of_str :: "string \<Rightarrow> int result" where
  "int_of_str s =
     (case strip s of
        [] \<Rightarrow> Inl ValueError
      | c # cs \<Rightarrow>
          (case (if c = CHR ''-'' \<or> c = CHR ''+'' then digits 0 False cs else digits 0 False (c # cs)) of
             None \<Rightarrow> Inl ValueError
           | Some n \<Rightarrow> Inr (if c = CHR ''-'' then - int n else int n)))"

text \<open>\<open>str(v)\<close> and \<open>int(v)\<close> for a JSON value.\<close>

fun py_str :: "(json \<Rightarrow> string) \<Rightarrow> json \<Rightarrow> string" where
  "py_str repr JNull = ''None''"
| "py_str repr (JBool b) = (if b then ''True'' else ''False'')"
| "py_str repr (JInt n) = str_int n"
| "py_str repr (JStr s) = s"
| "py_str repr v = repr v"

fun py_int :: "json \<Rightarrow> int result" where
  "py_int (JBool b) = Inr (if b then 1 else 0)"
| "py_int (JInt n) = Inr n"
| "py_int (JFloat m e) =
     Inr (if 0 \<le> e then m * 2 ^ nat e else sgn m * (\<bar>m\<bar> div 2 ^ nat (- e)))"
| "py_int (JStr s) = int_of_str s"
| "py_int _ = Inl TypeError"

lemma show_nat_digits: "list_all is_digit (show_nat n)"
proof (induction n rule: show_nat.induct)
  case (1 n)
  have "is_digit (char_of (k + 48))" if "k < 10" for k :: nat
    using that by (simp add: is_digit_def Let_def)
  with 1 show ?case by (subst show_nat.simps) auto
qed

lemma show_nat_not_Nil [simp]: "show_nat n \<noteq> []"
  by (subst show_nat.simps) simp

lemma digits_append_digit:
  "list_all is_digit xs \<Longrightarrow> is_digit c \<Longrightarrow>
     digits a ok (xs @ [c]) = (case digits a (ok \<or> xs = []) xs of None \<Rightarrow> None | Some v \<Rightarrow> Some (v * 10 + digit_val c))"
proof (induction xs arbitrary: a ok)
  case Nil
  then show ?case by simp
next
  case (Cons x xs)
  then show ?case by simp
qed

lemma digits_show_nat: "digits 0 ok (show_nat n) = Some n"
proof (induction n arbitrary: ok rule: show_nat.induct)
  case (1 n)
  show ?case
  proof (cases "n < 10")
    case True
    then show ?thesis
      by (subst show_nat.simps) (simp add: is_digit_def digit_val_def Let_def)
  next
    case False
    have d: "is_digit (char_of (n mod 10 + 48))" "digit_val (char_of (n mod 10 + 48)) = n mod 10"
      by (simp_all add: is_digit_def digit_val_def Let_def)
    have "digits 0 ok (show_nat n) = digits 0 ok (show_nat (n div 10) @ [char_of (n mod 10 + 48)])"
      using False by (subst show_nat.simps) simp
    also have "\<dots> = Some (n div 10 * 10 + n mod 10)"
      using 1 [OF False] by (simp add: digits_append_digit show_nat_digits d)
    finally show ?thesis by simp
  qed
qed

lemma is_digit_not_space: "is_digit c \<Longrightarrow> \<not> is_uspace c"
  by (auto simp: is_digit_def is_uspace_def Let_def)

lemma strip_no_space: "list_all (\<lambda>c. \<not> is_uspace c) s \<Longrightarrow> strip s = s"
proof -
  assume "list_all (\<lambda>c. \<not> is_uspace c) s"
  then have n: "\<forall>c \<in> set s. \<not> is_uspace c" by (simp add: list_all_iff)
  have "dropWhile is_uspace t = t" if "\<forall>c \<in> set t. \<not> is_uspace c" for t
    using that by (cases t) auto
  from this [of s] this [of "rev s"] n show ?thesis by (simp add: strip_def)
qed

lemma show_nat_strip: "strip (show_nat n) = show_nat n"
  using show_nat_digits [of n] by (intro strip_no_space) (auto simp: list_all_iff is_digit_not_space)

lemma int_of_str_int [simp]: "0 \<le> n \<Longrightarrow> int_of_str (str_int n) = Inr n"
proof -
  assume n: "0 \<le> n"
  obtain c cs where s: "show_nat (nat n) = c # cs" by (cases "show_nat (nat n)") auto
  then have "is_digit c" using show_nat_digits [of "nat n"] by simp
  then have "c \<noteq> CHR ''-''" "c \<noteq> CHR ''+''" by (auto simp: is_digit_def Let_def)
  then show ?thesis
    using n digits_show_nat [of False "nat n"] s show_nat_strip [of "nat n"]
    by (simp add: int_of_str_def str_int_def)
qed

section \<open>Canonical text\<close>

fun join :: "string \<Rightarrow> string list \<Rightarrow> string" where
  "join sep [] = []"
| "join sep [x] = x"
| "join sep (x # y # ys) = x @ sep @ join sep (y # ys)"

text \<open>The escapes of \<open>json.dumps\<close> with \<open>ensure_ascii\<close>.\<close>

definition esc :: "char \<Rightarrow> string" where
  "esc c =
     (let n = (of_char c :: nat) in
      if n = 34 \<or> n = 92 then [CHR 0x5C, c]
      else if n = 10 then [CHR 0x5C, CHR ''n'']
      else if n = 13 then [CHR 0x5C, CHR ''r'']
      else if n = 9 then [CHR 0x5C, CHR ''t'']
      else if n = 12 then [CHR 0x5C, CHR ''f'']
      else if n = 8 then [CHR 0x5C, CHR ''b'']
      else if 32 \<le> n \<and> n \<le> 126 then [c]
      else [CHR 0x5C, CHR ''u'', CHR ''0'', CHR ''0'', hex_digit (n div 16), hex_digit (n mod 16)])"

definition dump_str :: "string \<Rightarrow> string" where
  "dump_str s = [CHR 0x22] @ concat (map esc s) @ [CHR 0x22]"

text \<open>\<open>json.dumps(v, separators=(",", ":"))\<close>, and with \<open>sort_keys=True\<close>.\<close>

fun dumps0 :: "(json \<Rightarrow> string) \<Rightarrow> json \<Rightarrow> string" where
  "dumps0 repr JNull = ''null''"
| "dumps0 repr (JBool b) = (if b then ''true'' else ''false'')"
| "dumps0 repr (JInt n) = str_int n"
| "dumps0 repr (JFloat m e) = repr (JFloat m e)"
| "dumps0 repr (JStr s) = dump_str s"
| "dumps0 repr (JArr xs) = ''['' @ join '','' (map (dumps0 repr) xs) @ '']''"
| "dumps0 repr (JObj kvs) = ''{'' @ join '','' (map (\<lambda>(k, v). dump_str k @ '':'' @ dumps0 repr v) kvs) @ ''}''"

fun sort_keys :: "json \<Rightarrow> json" where
  "sort_keys (JArr xs) = JArr (map sort_keys xs)"
| "sort_keys (JObj kvs) = JObj (sort_key fst (map (\<lambda>(k, v). (k, sort_keys v)) kvs))"
| "sort_keys v = v"

definition dumps :: "(json \<Rightarrow> string) \<Rightarrow> json \<Rightarrow> string" where
  "dumps repr v = dumps0 repr (sort_keys v)"

section \<open>The canonical text determines the value\<close>

fun float_free :: "json \<Rightarrow> bool" where
  "float_free (JFloat m e) = False"
| "float_free (JArr xs) = list_all float_free xs"
| "float_free (JObj kvs) = list_all (\<lambda>(k, v). float_free v) kvs"
| "float_free v = True"

text \<open>The reading of one escaped character.\<close>

definition unesc :: "string \<Rightarrow> (char \<times> string) option" where
  "unesc s =
     (case s of
        [] \<Rightarrow> None
      | c # r \<Rightarrow>
          if c \<noteq> CHR 0x5C then Some (c, r)
          else
            (case r of
               [] \<Rightarrow> None
             | d # r' \<Rightarrow>
                 if d = CHR ''n'' then Some (CHR 0x0A, r')
                 else if d = CHR ''r'' then Some (CHR 0x0D, r')
                 else if d = CHR ''t'' then Some (CHR 0x09, r')
                 else if d = CHR ''f'' then Some (CHR 0x0C, r')
                 else if d = CHR ''b'' then Some (CHR 0x08, r')
                 else if d = CHR ''u'' then
                   Some (char_of (16 * the (hex_val (r' ! 2)) + the (hex_val (r' ! 3))), drop 4 r')
                 else Some (d, r')))"

lemma unesc_esc: "unesc (esc c @ r) = Some (c, r)"
proof -
  let ?n = "of_char c :: nat"
  have eq: "c = d" if "?n = of_char d" for d
    using that by simp
  consider "?n = 34" | "?n = 92" | "?n = 10" | "?n = 13" | "?n = 9" | "?n = 12" | "?n = 8"
    | (plain) "?n \<notin> {34, 92, 10, 13, 9, 12, 8}" "32 \<le> ?n" "?n \<le> 126"
    | (coded) "?n \<notin> {34, 92, 10, 13, 9, 12, 8}" "\<not> (32 \<le> ?n \<and> ?n \<le> 126)"
    by blast
  then show ?thesis
  proof cases
    case plain
    then have "c \<noteq> CHR 0x5C" by auto
    with plain show ?thesis by (auto simp: esc_def unesc_def Let_def)
  next
    case coded
    have "?n < 256" by simp
    then have n: "?n div 16 < 16" "?n mod 16 < 16"
      by (simp_all only: div_less_iff_less_mult)
    have "esc c = [CHR 0x5C, CHR ''u'', CHR ''0'', CHR ''0'', hex_digit (?n div 16), hex_digit (?n mod 16)]"
      using coded by (auto simp: esc_def Let_def)
    moreover have "char_of (16 * (?n div 16) + ?n mod 16) = c"
      by simp
    ultimately show ?thesis
      using n by (simp add: unesc_def)
  qed (use eq [of "CHR 0x22"] eq [of "CHR 0x5C"] eq [of "CHR 0x0A"] eq [of "CHR 0x0D"] eq [of "CHR 0x09"]
      eq [of "CHR 0x0C"] eq [of "CHR 0x08"] in \<open>simp_all add: esc_def unesc_def Let_def\<close>)
qed

lemma esc_not_quote: "esc c @ r \<noteq> CHR 0x22 # r'"
  by (auto simp: esc_def Let_def)

lemma esc_inject: "esc c @ r = esc d @ r' \<Longrightarrow> c = d \<and> r = r'"
  by (metis Pair_inject option.inject unesc_esc)

lemma dump_body_inject:
  "concat (map esc s) @ CHR 0x22 # r = concat (map esc t) @ CHR 0x22 # r' \<Longrightarrow> s = t \<and> r = r'"
proof (induction s arbitrary: t)
  case Nil
  then show ?case by (cases t) (auto dest: esc_not_quote [THEN notE, OF sym])
next
  case (Cons c s)
  show ?case
  proof (cases t)
    case Nil
    with Cons.prems show ?thesis by (auto dest: esc_not_quote [THEN notE])
  next
    case (Cons d t')
    with Cons.prems have "esc c @ (concat (map esc s) @ CHR 0x22 # r) = esc d @ (concat (map esc t') @ CHR 0x22 # r')"
      by simp
    from esc_inject [OF this] Cons.IH [of t'] Cons show ?thesis by simp
  qed
qed

lemma dump_str_inject: "dump_str s @ r = dump_str t @ r' \<Longrightarrow> s = t \<and> r = r'"
  using dump_body_inject [of s r t r'] by (simp add: dump_str_def)

text \<open>A text that cannot continue a number.\<close>

definition stops :: "string \<Rightarrow> bool" where
  "stops r \<longleftrightarrow> r = [] \<or> \<not> is_digit (hd r)"

lemma stops_Cons [simp]: "stops (c # r) \<longleftrightarrow> \<not> is_digit c"
  by (simp add: stops_def)

lemma takeWhile_digits: "list_all is_digit xs \<Longrightarrow> stops r \<Longrightarrow> takeWhile is_digit (xs @ r) = xs"
  by (cases r) (auto simp: list_all_iff takeWhile_append2 stops_def)

lemma show_nat_append_inject:
  assumes "show_nat m @ r = show_nat n @ r'" "stops r" "stops r'"
  shows "m = n \<and> r = r'"
proof -
  have "show_nat m = show_nat n"
    using takeWhile_digits [OF show_nat_digits assms(2), of m] takeWhile_digits [OF show_nat_digits assms(3), of n] assms(1)
    by simp
  with assms(1) show ?thesis by (metis append_same_eq digits_show_nat option.inject same_append_eq)
qed

lemma show_nat_hd_digit: "is_digit (hd (show_nat n @ r))"
  using show_nat_digits [of n] by (cases "show_nat n") auto

lemma minus_not_digit [simp]: "\<not> is_digit CHR ''-''"
  by (simp add: is_digit_def)

lemma str_int_inject:
  assumes "str_int m @ r = str_int n @ r'" "stops r" "stops r'"
  shows "m = n \<and> r = r'"
proof (cases "m < 0 \<longleftrightarrow> n < 0")
  case True
  with assms show ?thesis
    by (auto simp: str_int_def split: if_splits dest!: show_nat_append_inject)
next
  case False
  have "hd (str_int k @ q) = CHR ''-'' \<longleftrightarrow> k < 0" for k q
    using show_nat_hd_digit [of "nat k" q] minus_not_digit by (cases "k < 0") (auto simp: str_int_def)
  with assms(1) False show ?thesis by metis
qed

text \<open>A comma separated sequence that ends in a bracket.\<close>

lemma join_inject:
  assumes inj: "\<And>x y a b. x \<in> set xs \<Longrightarrow> y \<in> set ys \<Longrightarrow> stops a \<Longrightarrow> stops b \<Longrightarrow> f x @ a = f y @ b \<Longrightarrow> x = y \<and> a = b"
    and opn: "\<And>x a. x \<in> set xs \<union> set ys \<Longrightarrow> f x \<noteq> [] \<and> hd (f x) \<noteq> c"
    and c: "\<not> is_digit c" "c \<noteq> CHR '',''"
    and eq: "join '','' (map f xs) @ c # r = join '','' (map f ys) @ c # r'"
  shows "xs = ys \<and> r = r'"
  using inj opn eq
proof (induction xs arbitrary: ys)
  case Nil
  show ?case
  proof (cases ys)
    case (Cons y ys')
    have "\<exists>z. join '','' (map f ys) = f y @ z" unfolding Cons by (cases ys') auto
    then have "hd (c # r) = hd (f y)"
      using Nil.prems(2) [of y] Nil.prems(3) Cons by (metis append.assoc append.left_neutral hd_append2 join.simps(1) list.set_intros(1) list.simps(8) UnCI)
    with Nil.prems(2) [of y] Cons show ?thesis by simp
  qed (use Nil in simp)
next
  case (Cons x xs)
  have nd: "\<not> is_digit CHR '',''" by (simp add: is_digit_def)
  have tl: "\<exists>z. join '','' (map f (x # xs)) @ c # r = f x @ z \<and> stops z \<and>
      (xs = [] \<and> z = c # r \<or> xs \<noteq> [] \<and> z = CHR '','' # join '','' (map f xs) @ c # r)"
    by (cases xs) (auto simp: c nd)
  show ?case
  proof (cases ys)
    case Nil
    from tl obtain z where "join '','' (map f (x # xs)) @ c # r = f x @ z" by blast
    then have "hd (f x) = hd (c # r')"
      using Cons.prems(2) [of x] Cons.prems(3) Nil by (metis hd_append2 join.simps(1) list.set_intros(1) list.simps(8) append.left_neutral UnI1)
    with Cons.prems(2) [of x] show ?thesis by simp
  next
    case (Cons y ys')
    have tl': "\<exists>z. join '','' (map f ys) @ c # r' = f y @ z \<and> stops z \<and>
        (ys' = [] \<and> z = c # r' \<or> ys' \<noteq> [] \<and> z = CHR '','' # join '','' (map f ys') @ c # r')"
      unfolding Cons by (cases ys') (auto simp: c nd)
    from tl tl' Cons.prems(1) [of x y] Cons.prems(3) Cons
    have xy: "x = y" and rest: "xs = [] \<and> ys' = [] \<and> r = r' \<or>
        xs \<noteq> [] \<and> ys' \<noteq> [] \<and> join '','' (map f xs) @ c # r = join '','' (map f ys') @ c # r'"
      using c(2) by force+
    from rest show ?thesis
    proof
      assume "xs = [] \<and> ys' = [] \<and> r = r'"
      with xy Cons show ?thesis by simp
    next
      assume a: "xs \<noteq> [] \<and> ys' \<noteq> [] \<and> join '','' (map f xs) @ c # r = join '','' (map f ys') @ c # r'"
      have "xs = ys' \<and> r = r'"
        by (rule Cons.IH) (use Cons.prems(1,2) Cons a in auto)
      with xy Cons show ?thesis by simp
    qed
  qed
qed

text \<open>The first character of a text tells the kind of the value.\<close>

fun kind :: "json \<Rightarrow> nat" where
  "kind JNull = 0"
| "kind (JBool b) = (if b then 1 else 2)"
| "kind (JInt n) = 3"
| "kind (JStr s) = 4"
| "kind (JArr xs) = 5"
| "kind (JObj kvs) = 6"
| "kind (JFloat m e) = 7"

definition char_kind :: "char \<Rightarrow> nat" where
  "char_kind c = (if c = CHR ''n'' then 0 else if c = CHR ''t'' then 1 else if c = CHR ''f'' then 2
     else if c = CHR 0x22 then 4 else if c = CHR ''['' then 5 else if c = CHR ''{'' then 6 else if is_digit c \<or> c = CHR ''-'' then 3 else 8)"

lemma dumps0_head: "float_free j \<Longrightarrow> dumps0 R j \<noteq> [] \<and> char_kind (hd (dumps0 R j)) = kind j"
proof (cases j)
  case (JInt n)
  have d: "char_kind c = 3" if "is_digit c" for c
    using that by (auto simp: char_kind_def is_digit_def Let_def)
  have "char_kind (hd (show_nat (nat n))) = 3"
    using show_nat_hd_digit [of "nat n" "[]"] d by simp
  moreover have "char_kind CHR ''-'' = 3" by (simp add: char_kind_def)
  ultimately show ?thesis using JInt by (simp add: str_int_def)
qed (auto simp: char_kind_def dump_str_def)

lemma dumps0_not_close: "float_free j \<Longrightarrow> dumps0 R j \<noteq> [] \<and> hd (dumps0 R j) \<noteq> CHR '']''"
  using dumps0_head [of j R] by (cases j) (auto simp: char_kind_def is_digit_def)

lemma dumps0_kind:
  "dumps0 R j @ r = dumps0 R k @ r' \<Longrightarrow> float_free j \<Longrightarrow> float_free k \<Longrightarrow> kind j = kind k"
  using dumps0_head [of j R] dumps0_head [of k R] by (metis hd_append2)

lemma dumps0_inject:
  assumes "dumps0 R j @ r = dumps0 R k @ r'" "float_free j" "float_free k" "stops r" "stops r'"
  shows "j = k \<and> r = r'"
  using assms
proof (induction j arbitrary: k r r')
  case (JArr xs)
  from dumps0_kind [OF JArr.prems(1-3)] obtain ys where k: "k = JArr ys"
    by (cases k) (auto split: if_splits)
  have "xs = ys \<and> r = r'"
  proof (rule join_inject [where f = "dumps0 R" and c = "CHR '']''"])
    show "x = y \<and> a = b" if "x \<in> set xs" "y \<in> set ys" "stops a" "stops b" "dumps0 R x @ a = dumps0 R y @ b" for x y a b
      using that JArr.IH [of x a y b] JArr.prems(2,3) k by (simp add: list_all_iff)
    show "dumps0 R x \<noteq> [] \<and> hd (dumps0 R x) \<noteq> CHR '']''" if "x \<in> set xs \<union> set ys" for x
      using that JArr.prems(2,3) k by (intro dumps0_not_close) (auto simp: list_all_iff)
  qed (use JArr.prems(1) k in \<open>auto simp: is_digit_def\<close>)
  with k show ?case by simp
next
  case (JObj kvs)
  let ?f = "\<lambda>(k, v). dump_str k @ '':'' @ dumps0 R v"
  from dumps0_kind [OF JObj.prems(1-3)] obtain lvs where k: "k = JObj lvs"
    by (cases k) (auto split: if_splits)
  have "kvs = lvs \<and> r = r'"
  proof (rule join_inject [where f = ?f and c = "CHR ''}''"])
    fix x y a b
    assume x: "x \<in> set kvs" and y: "y \<in> set lvs" and s: "stops a" "stops b" and e: "?f x @ a = ?f y @ b"
    from e have "fst x = fst y" and v: "dumps0 R (snd x) @ a = dumps0 R (snd y) @ b"
      by (auto simp: case_prod_beta dest!: dump_str_inject)
    moreover have "snd x = snd y \<and> a = b"
    proof (rule JObj.IH [OF x _ v])
      show "snd x \<in> Basic_BNFs.snds x" by (cases x) simp
      show "float_free (snd x)" "float_free (snd y)"
        using x y JObj.prems(2,3) k by (auto simp: list_all_iff)
    qed (use s in simp_all)
    ultimately show "x = y \<and> a = b" by (simp add: prod_eq_iff)
  qed (use JObj.prems(1) k in \<open>auto simp: is_digit_def dump_str_def\<close>)
  with k show ?case by simp
next
  case JNull
  from dumps0_kind [OF JNull(1-3)] JNull show ?case by (cases k) (auto split: if_splits)
next
  case (JBool b)
  from dumps0_kind [OF JBool(1-3)] JBool show ?case by (cases k) (auto split: if_splits)
next
  case (JInt n)
  from dumps0_kind [OF JInt(1-3)] JInt show ?case by (cases k) (auto split: if_splits dest: str_int_inject)
next
  case (JStr s)
  from dumps0_kind [OF JStr(1-3)] JStr show ?case by (cases k) (auto split: if_splits dest: dump_str_inject)
qed simp

lemma float_free_sort_keys [simp]: "float_free (sort_keys j) = float_free j"
  by (induction j) (auto simp: list_all_iff case_prod_beta)

theorem dumps_inject: "dumps R j = dumps R k \<Longrightarrow> float_free j \<Longrightarrow> float_free k \<Longrightarrow> sort_keys j = sort_keys k"
  using dumps0_inject [of R "sort_keys j" "[]" "sort_keys k" "[]"] by (simp add: dumps_def stops_def)

end
