(* ===== verification/Curve_Order_Powers.thy ===== *)
theory Curve_Order_Powers
  imports Prelude
begin

text \<open>
  The computational half of the primality certificate for \<open>CURVE_ORDER\<close>: for each prime power
  \<open>p ^ e\<close> of the partial factorisation of \<open>CURVE_ORDER - 1\<close> used by the certificate, an element
  \<open>root_p\<close> and a square-and-multiply chain for its powers. Each link \<open>x * y = k * q + z\<close> is one
  checked multiplication of literals; \<open>power_step\<close> composes the links.
\<close>

definition CURVE_ORDER :: int where
  "CURVE_ORDER = 52435875175126190479447740508185965837690552500527637822603658699938581184513"

lemma power_step:
  fixes r q x y :: int
  assumes "r ^ m mod q = x mod q" and "r ^ n mod q = y mod q" and "m + n = l"
    and "x * y = k * q + z"
  shows "r ^ l mod q = z mod q"
proof -
  have "r ^ l mod q = (r ^ m mod q) * (r ^ n mod q) mod q"
    by (simp only: assms(3) [symmetric] power_add mod_mult_eq)
  also have "\<dots> = (x mod q) * (y mod q) mod q"
    using assms(1,2) by simp
  also have "\<dots> = z mod q"
    by (simp only: mod_mult_eq assms(4)) simp
  finally show ?thesis .
qed

lemmas literal_arith = numeral_times_numeral numeral_plus_numeral mult_num_simps add_num_simps
  semiring_norm(1,2) one_plus_numeral one_add_one numeral_plus_one nat_1_add_1

lemmas power_step_CURVE_ORDER = power_step [where q = CURVE_ORDER, unfolded CURVE_ORDER_def]

section \<open>Powers of the element for 2\<close>

definition root_2 :: int where
  "root_2 = 937917089079007706106976984802249742464848817460758522850752807661925904159"

lemma root_2_1: "root_2 ^ 1 mod 52435875175126190479447740508185965837690552500527637822603658699938581184513 = 937917089079007706106976984802249742464848817460758522850752807661925904159 mod 52435875175126190479447740508185965837690552500527637822603658699938581184513"
  by (simp only: power_one_right root_2_def)

lemma root_2_2: "root_2 ^ 2 mod 52435875175126190479447740508185965837690552500527637822603658699938581184513 = 43599901455287962219281063402626541872197057165786841304067502694013639882090 mod 52435875175126190479447740508185965837690552500527637822603658699938581184513"
  by (rule power_step [OF root_2_1 root_2_1, of 2 16776461974715619813569037439309893532967837537439729901758046165270917207]) (simp_all only: literal_arith)

lemma root_2_4: "root_2 ^ 4 mod 52435875175126190479447740508185965837690552500527637822603658699938581184513 = 3811138593988695298394477416060533432572377403639180677141944665584601642504 mod 52435875175126190479447740508185965837690552500527637822603658699938581184513"
  by (rule power_step [OF root_2_2 root_2_2, of 4 36252878407426077592578755252064657524956885243352374794234035053573659580892]) (simp_all only: literal_arith)

lemma root_2_8: "root_2 ^ 8 mod 52435875175126190479447740508185965837690552500527637822603658699938581184513 = 50819341139666003587274541409207395600071402220052213520254526953892511091577 mod 52435875175126190479447740508185965837690552500527637822603658699938581184513"
  by (rule power_step [OF root_2_4 root_2_4, of 8 277000762056131246938112220437233868345873954167468863918998217326770607303]) (simp_all only: literal_arith)

lemma root_2_16: "root_2 ^ 16 mod 52435875175126190479447740508185965837690552500527637822603658699938581184513 = 18727201054581607001749469507512963489976863652151448843860599973148080906836 mod 52435875175126190479447740508185965837690552500527637822603658699938581184513"
  by (rule power_step [OF root_2_8 root_2_8, of 16 49252642875594653974532604697416328753930299046720377694623636612014391229661]) (simp_all only: literal_arith)

lemma root_2_32: "root_2 ^ 32 mod 52435875175126190479447740508185965837690552500527637822603658699938581184513 = 24000695595003793337811426892222725080715952703482855734008731462871475089715 mod 52435875175126190479447740508185965837690552500527637822603658699938581184513"
  by (rule power_step [OF root_2_16 root_2_16, of 32 6688322797463033871603117451681983253277520578884863620167734108673180793437]) (simp_all only: literal_arith)

lemma root_2_64: "root_2 ^ 64 mod 52435875175126190479447740508185965837690552500527637822603658699938581184513 = 51191008403851428225654722580004101559877486754971092640244441973868858562750 mod 52435875175126190479447740508185965837690552500527637822603658699938581184513"
  by (rule power_step [OF root_2_32 root_2_32, of 64 10985482498769950705103637904297266064221703239496195814966308674814606260075]) (simp_all only: literal_arith)

lemma root_2_128: "root_2 ^ 128 mod 52435875175126190479447740508185965837690552500527637822603658699938581184513 = 10335750295308996628517187959952958185340736185617535179904464397821611796715 mod 52435875175126190479447740508185965837690552500527637822603658699938581184513"
  by (rule power_step [OF root_2_64 root_2_64, of 128 49975695697862090509428822510287300043787685484555081645875759536726215377945]) (simp_all only: literal_arith)

lemma root_2_256: "root_2 ^ 256 mod 52435875175126190479447740508185965837690552500527637822603658699938581184513 = 13205172441828670567663721566567600707419662718089030114959677511969243860524 mod 52435875175126190479447740508185965837690552500527637822603658699938581184513"
  by (rule power_step [OF root_2_128 root_2_128, of 256 2037302396693008430321823442237346003643186948470262004116502567578880686477]) (simp_all only: literal_arith)

lemma root_2_512: "root_2 ^ 512 mod 52435875175126190479447740508185965837690552500527637822603658699938581184513 = 36760611456605667464829527713580332378026420759024973496498144810075444759800 mod 52435875175126190479447740508185965837690552500527637822603658699938581184513"
  by (rule power_step [OF root_2_256 root_2_256, of 512 3325520526472489165192987219819013997251090441997560870444844796276765657752]) (simp_all only: literal_arith)

lemma root_2_1024: "root_2 ^ 1024 mod 52435875175126190479447740508185965837690552500527637822603658699938581184513 = 1664636601308506509114953536181560970565082534259883289958489163769791010513 mod 52435875175126190479447740508185965837690552500527637822603658699938581184513"
  by (rule power_step [OF root_2_512 root_2_512, of 1024 25771335944146864435162806054301534023147583103397236311308659705208753477999]) (simp_all only: literal_arith)

lemma root_2_2048: "root_2 ^ 2048 mod 52435875175126190479447740508185965837690552500527637822603658699938581184513 = 50175287592170768174834711592572954584642344504509533259061679462536255873767 mod 52435875175126190479447740508185965837690552500527637822603658699938581184513"
  by (rule power_step [OF root_2_1024 root_2_1024, of 2048 52845785545893046487505890908511395862657191379410652481875454595778048954]) (simp_all only: literal_arith)

lemma root_2_4096: "root_2 ^ 4096 mod 52435875175126190479447740508185965837690552500527637822603658699938581184513 = 23615957371642610195417524132420957372617874794160903688435201581369949179370 mod 52435875175126190479447740508185965837690552500527637822603658699938581184513"
  by (rule power_step [OF root_2_2048 root_2_2048, of 4096 48012157259678791389370477164937796933362520621559740883595383323275970928263]) (simp_all only: literal_arith)

lemma root_2_8192: "root_2 ^ 8192 mod 52435875175126190479447740508185965837690552500527637822603658699938581184513 = 26418991338149459552592774439099778547711964145195139895155358980955972635668 mod 52435875175126190479447740508185965837690552500527637822603658699938581184513"
  by (rule power_step [OF root_2_4096 root_2_4096, of 8192 10636104398307084544436323775010127087302777288043401919863971980542645734864]) (simp_all only: literal_arith)

lemma root_2_16384: "root_2 ^ 16384 mod 52435875175126190479447740508185965837690552500527637822603658699938581184513 = 42951892408294048319804799042074961265671975460177021439280319919049700054024 mod 52435875175126190479447740508185965837690552500527637822603658699938581184513"
  by (rule power_step [OF root_2_8192 root_2_8192, of 16384 13310793440447930429504881456743006951320590568877184336464916026184437419400]) (simp_all only: literal_arith)

lemma root_2_32768: "root_2 ^ 32768 mod 52435875175126190479447740508185965837690552500527637822603658699938581184513 = 2655041105015028463885489289298747241391034429256407017976816639065944350782 mod 52435875175126190479447740508185965837690552500527637822603658699938581184513"
  by (rule power_step [OF root_2_16384 root_2_16384, of 32768 35183260607211331998704367436465769292659026470480014790252244451238827483138]) (simp_all only: literal_arith)

lemma root_2_65536: "root_2 ^ 65536 mod 52435875175126190479447740508185965837690552500527637822603658699938581184513 = 46605497109352149548364111935960392432509601054990529243781317021485154656122 mod 52435875175126190479447740508185965837690552500527637822603658699938581184513"
  by (rule power_step [OF root_2_32768 root_2_32768, of 65536 134435503284273330965872436430013928181114231220137805804769064882593410954]) (simp_all only: literal_arith)

lemma root_2_131072: "root_2 ^ 131072 mod 52435875175126190479447740508185965837690552500527637822603658699938581184513 = 30195699792882346185164345110260439085017223719129789169349923251189180189908 mod 52435875175126190479447740508185965837690552500527637822603658699938581184513"
  by (rule power_step [OF root_2_65536 root_2_65536, of 131072 41423402461683130062881916030270239716327447985848995269521657828332709411152]) (simp_all only: literal_arith)

lemma root_2_262144: "root_2 ^ 262144 mod 52435875175126190479447740508185965837690552500527637822603658699938581184513 = 36362449573598723777784795308133589731870287401357111047147227126550012376068 mod 52435875175126190479447740508185965837690552500527637822603658699938581184513"
  by (rule power_step [OF root_2_131072 root_2_131072, of 262144 17388482273571220190652344992498057611872896637974930626174342832255791684492]) (simp_all only: literal_arith)

lemma root_2_524288: "root_2 ^ 524288 mod 52435875175126190479447740508185965837690552500527637822603658699938581184513 = 4862464726302065505506688039068558711848980475932963135959468859464391638674 mod 52435875175126190479447740508185965837690552500527637822603658699938581184513"
  by (rule power_step [OF root_2_262144 root_2_262144, of 524288 25216089834993928433444796500815969002147820071136554540933259739795029025150]) (simp_all only: literal_arith)

lemma root_2_1048576: "root_2 ^ 1048576 mod 52435875175126190479447740508185965837690552500527637822603658699938581184513 = 7712148129911606624315688729500842900222944762233088101895611600385646063109 mod 52435875175126190479447740508185965837690552500527637822603658699938581184513"
  by (rule power_step [OF root_2_524288 root_2_524288, of 1048576 450904330967427606653208871636973936747566933811174041049605227869637975359]) (simp_all only: literal_arith)

lemma root_2_2097152: "root_2 ^ 2097152 mod 52435875175126190479447740508185965837690552500527637822603658699938581184513 = 30450688096165933124094588052280452792793350252342406284806180166247113753719 mod 52435875175126190479447740508185965837690552500527637822603658699938581184513"
  by (rule power_step [OF root_2_1048576 root_2_1048576, of 2097152 1134285040138189231872319530384705723199487254568059110578252774350338541474]) (simp_all only: literal_arith)

lemma root_2_4194304: "root_2 ^ 4194304 mod 52435875175126190479447740508185965837690552500527637822603658699938581184513 = 21328829733576761151404230261968752855781179864716879432436835449516750606329 mod 52435875175126190479447740508185965837690552500527637822603658699938581184513"
  by (rule power_step [OF root_2_2097152 root_2_2097152, of 4194304 17683397148100526281810881353095936311667058923728079779944521464927729016664]) (simp_all only: literal_arith)

lemma root_2_8388608: "root_2 ^ 8388608 mod 52435875175126190479447740508185965837690552500527637822603658699938581184513 = 12531186154666751577774347439625638674013361494693625348921624593362229945844 mod 52435875175126190479447740508185965837690552500527637822603658699938581184513"
  by (rule power_step [OF root_2_4194304 root_2_4194304, of 8388608 8675720130245987427563942071104686958010064558864238223037439715983122283069]) (simp_all only: literal_arith)

lemma root_2_16777216: "root_2 ^ 16777216 mod 52435875175126190479447740508185965837690552500527637822603658699938581184513 = 21071158244812412064791010377580296085971058123779034548857891862303448703672 mod 52435875175126190479447740508185965837690552500527637822603658699938581184513"
  by (rule power_step [OF root_2_8388608 root_2_8388608, of 16777216 2994717374668740487447232620781058741594680265531247628485367376193753927128]) (simp_all only: literal_arith)

lemma root_2_33554432: "root_2 ^ 33554432 mod 52435875175126190479447740508185965837690552500527637822603658699938581184513 = 3535074550574477753284711575859241084625659976293648650204577841347885064712 mod 52435875175126190479447740508185965837690552500527637822603658699938581184513"
  by (rule power_step [OF root_2_16777216 root_2_16777216, of 33554432 8467365297042695712063307938787513277505458094032558359203381088493032473144]) (simp_all only: literal_arith)

lemma root_2_67108864: "root_2 ^ 67108864 mod 52435875175126190479447740508185965837690552500527637822603658699938581184513 = 6460039226971164073848821215333189185736442942708452192605981749202491651199 mod 52435875175126190479447740508185965837690552500527637822603658699938581184513"
  by (rule power_step [OF root_2_33554432 root_2_33554432, of 67108864 238324468436590208809265078937486138137894813525218123405361915932506876865]) (simp_all only: literal_arith)

lemma root_2_134217728: "root_2 ^ 134217728 mod 52435875175126190479447740508185965837690552500527637822603658699938581184513 = 32311457133713125762627935188100354218453688428796477340173861531654182464166 mod 52435875175126190479447740508185965837690552500527637822603658699938581184513"
  by (rule power_step [OF root_2_67108864 root_2_67108864, of 134217728 795869367577610264683857499553917058119381019006084342746829094170432891995]) (simp_all only: literal_arith)

lemma root_2_268435456: "root_2 ^ 268435456 mod 52435875175126190479447740508185965837690552500527637822603658699938581184513 = 35811073542294463015946892559272836998938171743018714161809767624935956676211 mod 52435875175126190479447740508185965837690552500527637822603658699938581184513"
  by (rule power_step [OF root_2_134217728 root_2_134217728, of 268435456 19910610028285244793439707581443337897408870797391250283276757805561446262065]) (simp_all only: literal_arith)

lemma root_2_536870912: "root_2 ^ 536870912 mod 52435875175126190479447740508185965837690552500527637822603658699938581184513 = 28761180743467419819834788392525162889723178799021384024940474588120723734663 mod 52435875175126190479447740508185965837690552500527637822603658699938581184513"
  by (rule power_step [OF root_2_268435456 root_2_268435456, of 536870912 24457167616036385483969981257357750640857012912538963241384617061181668108066]) (simp_all only: literal_arith)

lemma root_2_1073741824: "root_2 ^ 1073741824 mod 52435875175126190479447740508185965837690552500527637822603658699938581184513 = 3465144826073652318776269530687742778270252468765361963008 mod 52435875175126190479447740508185965837690552500527637822603658699938581184513"
  by (rule power_step [OF root_2_536870912 root_2_536870912, of 1073741824 15775564248631049913154859163933222660124302047290014289737102587607709435697]) (simp_all only: literal_arith)

lemma root_2_2147483648: "root_2 ^ 2147483648 mod 52435875175126190479447740508185965837690552500527637822603658699938581184513 = 52435875175126190479447740508185965837690552500527637822603658699938581184512 mod 52435875175126190479447740508185965837690552500527637822603658699938581184513"
  by (rule power_step [OF root_2_1073741824 root_2_1073741824, of 2147483648 228988810152649578064853576960394133504]) (simp_all only: literal_arith)

lemma root_2_4294967296: "root_2 ^ 4294967296 mod 52435875175126190479447740508185965837690552500527637822603658699938581184513 = 1 mod 52435875175126190479447740508185965837690552500527637822603658699938581184513"
  by (rule power_step [OF root_2_2147483648 root_2_2147483648, of 4294967296 52435875175126190479447740508185965837690552500527637822603658699938581184511]) (simp_all only: literal_arith)

lemma root_2_unit: "52435875175126190479447740508185965837690552500527637822603658699938581184511 * 26217937587563095239723870254092982918845276250263818911301829349969290592256 = 26217937587563095239723870254092982918845276250263818911301829349969290592255 * 52435875175126190479447740508185965837690552500527637822603658699938581184513 + (1::int)"
  by (simp only: literal_arith)

section \<open>Powers of the element for 906349\<close>

definition root_906349 :: int where
  "root_906349 = 19833812317526315051481363632290358799209859518340460872430145012981185661353"

lemma root_906349_1: "root_906349 ^ 1 mod 52435875175126190479447740508185965837690552500527637822603658699938581184513 = 19833812317526315051481363632290358799209859518340460872430145012981185661353 mod 52435875175126190479447740508185965837690552500527637822603658699938581184513"
  by (simp only: power_one_right root_906349_def)

lemma root_906349_2: "root_906349 ^ 2 mod 52435875175126190479447740508185965837690552500527637822603658699938581184513 = 16523639996051100311775944584766479670003278347897794183026160873608787774331 mod 52435875175126190479447740508185965837690552500527637822603658699938581184513"
  by (rule power_step [OF root_906349_1 root_906349_1, of 2 7502117772098611312100210161603533165547380861454997746123574706079021008406]) (simp_all only: literal_arith)

lemma root_906349_3: "root_906349 ^ 3 mod 52435875175126190479447740508185965837690552500527637822603658699938581184513 = 30217381334628118057927635351833052133367665091822043352568164925558705818623 mod 52435875175126190479447740508185965837690552500527637822603658699938581184513"
  by (rule power_step [OF root_906349_2 root_906349_1, of 3 6250048719307183538694971612006631449913243468128411551517472329280033413940]) (simp_all only: literal_arith)

lemma root_906349_6: "root_906349 ^ 6 mod 52435875175126190479447740508185965837690552500527637822603658699938581184513 = 16137061404182394261766425666412170922611340727399724983852006910912617783615 mod 52435875175126190479447740508185965837690552500527637822603658699938581184513"
  by (rule power_step [OF root_906349_3 root_906349_3, of 6 17413462284605310245214129961792870159921309355438158485811267773660041168578]) (simp_all only: literal_arith)

lemma root_906349_12: "root_906349 ^ 12 mod 52435875175126190479447740508185965837690552500527637822603658699938581184513 = 10160080170283396597435775108731277004034285345493833085884474170336545441980 mod 52435875175126190479447740508185965837690552500527637822603658699938581184513"
  by (rule power_step [OF root_906349_6 root_906349_6, of 12 4966156279315431190909996425847027452589814452798550166735881073395947783365]) (simp_all only: literal_arith)

lemma root_906349_13: "root_906349 ^ 13 mod 52435875175126190479447740508185965837690552500527637822603658699938581184513 = 7776211206057786533513958255561356512852137796428887908530998262661062177677 mod 52435875175126190479447740508185965837690552500527637822603658699938581184513"
  by (rule power_step [OF root_906349_12 root_906349_1, of 13 3843039189398572615219984124311645454643088731728670183040112422726440004751]) (simp_all only: literal_arith)

lemma root_906349_26: "root_906349 ^ 26 mod 52435875175126190479447740508185965837690552500527637822603658699938581184513 = 24760305566800044365888638511988259773945647357307208615229540992718587177748 mod 52435875175126190479447740508185965837690552500527637822603658699938581184513"
  by (rule power_step [OF root_906349_13 root_906349_13, of 26 1153207808952588368210124134867778612124790805079423030043144291106021593237]) (simp_all only: literal_arith)

lemma root_906349_27: "root_906349 ^ 27 mod 52435875175126190479447740508185965837690552500527637822603658699938581184513 = 40589259385537592636631382719892287224578427668605009363051239519646281477542 mod 52435875175126190479447740508185965837690552500527637822603658699938581184513"
  by (rule power_step [OF root_906349_26 root_906349_1, of 27 9365558444411570048882989054753876395250164822956417637096484671636254848654]) (simp_all only: literal_arith)

lemma root_906349_54: "root_906349 ^ 54 mod 52435875175126190479447740508185965837690552500527637822603658699938581184513 = 31877244411578485187281801627808635861112907151756248420845518126313061530207 mod 52435875175126190479447740508185965837690552500527637822603658699938581184513"
  by (rule power_step [OF root_906349_27 root_906349_27, of 54 31419099461278072602396467430513497408341322516411059019153607802885380312389]) (simp_all only: literal_arith)

lemma root_906349_55: "root_906349 ^ 55 mod 52435875175126190479447740508185965837690552500527637822603658699938581184513 = 22310273508239434519609736321995793197449993864065550846384667740621646451320 mod 52435875175126190479447740508185965837690552500527637822603658699938581184513"
  by (rule power_step [OF root_906349_54 root_906349_1, of 55 12057532762589972440810085567629698818041202919656818927749878799308009131327]) (simp_all only: literal_arith)

lemma root_906349_110: "root_906349 ^ 110 mod 52435875175126190479447740508185965837690552500527637822603658699938581184513 = 27667106362931546211478995943594812766076957591977762049733471359764334438621 mod 52435875175126190479447740508185965837690552500527637822603658699938581184513"
  by (rule power_step [OF root_906349_55 root_906349_55, of 110 9492514473155304980585266994832657867719797498376158662743337005516045168483]) (simp_all only: literal_arith)

lemma root_906349_220: "root_906349 ^ 220 mod 52435875175126190479447740508185965837690552500527637822603658699938581184513 = 24459699041600765298759361760846284462832266411290113033920437213632855027413 mod 52435875175126190479447740508185965837690552500527637822603658699938581184513"
  by (rule power_step [OF root_906349_110 root_906349_110, of 220 14598188204950182733446325407101006906022084116600228881957470168980615405556]) (simp_all only: literal_arith)

lemma root_906349_221: "root_906349 ^ 221 mod 52435875175126190479447740508185965837690552500527637822603658699938581184513 = 3233221988135115042889895370345541467661265900747651665605746111335627537130 mod 52435875175126190479447740508185965837690552500527637822603658699938581184513"
  by (rule power_step [OF root_906349_220 root_906349_1, of 221 9251854355706772391112876617189333678498319163742401762174260504749720792243]) (simp_all only: literal_arith)

lemma root_906349_442: "root_906349 ^ 442 mod 52435875175126190479447740508185965837690552500527637822603658699938581184513 = 6393778952174738301966455490289391896672264579445422119903618310927526240084 mod 52435875175126190479447740508185965837690552500527637822603658699938581184513"
  by (rule power_step [OF root_906349_221 root_906349_221, of 442 199362066326667892874492242302705011628118721748072509331198707595524914832]) (simp_all only: literal_arith)

lemma root_906349_884: "root_906349 ^ 884 mod 52435875175126190479447740508185965837690552500527637822603658699938581184513 = 9983878301866981642698907989777843546519851232990238920618592019019867505770 mod 52435875175126190479447740508185965837690552500527637822603658699938581184513"
  by (rule power_step [OF root_906349_442 root_906349_442, of 884 779626718401087752781803708707749235576047192266655035791509323666961674022]) (simp_all only: literal_arith)

lemma root_906349_885: "root_906349 ^ 885 mod 52435875175126190479447740508185965837690552500527637822603658699938581184513 = 28974989927029103651356315776121370650312870179613375584653480187077274281958 mod 52435875175126190479447740508185965837690552500527637822603658699938581184513"
  by (rule power_step [OF root_906349_884 root_906349_1, of 885 3776391025779737172640410584184153327575835181253617293426576615516428483604]) (simp_all only: literal_arith)

lemma root_906349_1770: "root_906349 ^ 1770 mod 52435875175126190479447740508185965837690552500527637822603658699938581184513 = 33741190583773607706269574109921747158331393196330543362394029750771167714115 mod 52435875175126190479447740508185965837690552500527637822603658699938581184513"
  by (rule power_step [OF root_906349_885 root_906349_885, of 1770 16010985579386157110937999854080761462682752888027586505369632085813619525473]) (simp_all only: literal_arith)

lemma root_906349_3540: "root_906349 ^ 3540 mod 52435875175126190479447740508185965837690552500527637822603658699938581184513 = 711561263183762305026700957880124447012271121457049202906181188608019380482 mod 52435875175126190479447740508185965837690552500527637822603658699938581184513"
  by (rule power_step [OF root_906349_1770 root_906349_1770, of 3540 21711622781316398041957045210703997315442308231209109700116908021557847128711]) (simp_all only: literal_arith)

lemma root_906349_7080: "root_906349 ^ 7080 mod 52435875175126190479447740508185965837690552500527637822603658699938581184513 = 13957322898065982367636771130200790830055987540751973823261890619274277328874 mod 52435875175126190479447740508185965837690552500527637822603658699938581184513"
  by (rule power_step [OF root_906349_3540 root_906349_3540, of 7080 9655973693061430871733086466353950089230796412902017285222525840242330650]) (simp_all only: literal_arith)

lemma root_906349_14160: "root_906349 ^ 14160 mod 52435875175126190479447740508185965837690552500527637822603658699938581184513 = 9870787942964972668258530108558502886908971749278016662894065847429113447369 mod 52435875175126190479447740508185965837690552500527637822603658699938581184513"
  by (rule power_step [OF root_906349_7080 root_906349_7080, of 14160 3715144675858996510731965790751399250822162370204203840119391017418310016539]) (simp_all only: literal_arith)

lemma root_906349_14161: "root_906349 ^ 14161 mod 52435875175126190479447740508185965837690552500527637822603658699938581184513 = 15214473180355043774683209016164285600185481848981975869832838073699085696216 mod 52435875175126190479447740508185965837690552500527637822603658699938581184513"
  by (rule power_step [OF root_906349_14160 root_906349_1, of 14161 3733614721467224296020582844345917047269832829393400960870996371744318493657]) (simp_all only: literal_arith)

lemma root_906349_28322: "root_906349 ^ 28322 mod 52435875175126190479447740508185965837690552500527637822603658699938581184513 = 34905340494348156449831372963939647289175905780807261554435570567648883670631 mod 52435875175126190479447740508185965837690552500527637822603658699938581184513"
  by (rule power_step [OF root_906349_14161 root_906349_14161, of 28322 4414538584178133680495690534031760153966850648424791367107958656757496510425]) (simp_all only: literal_arith)

lemma root_906349_28323: "root_906349 ^ 28323 mod 52435875175126190479447740508185965837690552500527637822603658699938581184513 = 4981025427576777471094508350779622214075795686128029581598138991648606471240 mod 52435875175126190479447740508185965837690552500527637822603658699938581184513"
  by (rule power_step [OF root_906349_28322 root_906349_1, of 28323 13202906787234460595089722567280442764220954127159198813106247430611950210231]) (simp_all only: literal_arith)

lemma root_906349_56646: "root_906349 ^ 56646 mod 52435875175126190479447740508185965837690552500527637822603658699938581184513 = 49185784138261685598895978156459405570303003545680001607397897526845843766286 mod 52435875175126190479447740508185965837690552500527637822603658699938581184513"
  by (rule power_step [OF root_906349_28323 root_906349_28323, of 56646 473161060577391429163409916653938758030560118097352097118935558835124656178]) (simp_all only: literal_arith)

lemma root_906349_113292: "root_906349 ^ 113292 mod 52435875175126190479447740508185965837690552500527637822603658699938581184513 = 10982291069442833320407303381665950155249567059002674761737164047039511979492 mod 52435875175126190479447740508185965837690552500527637822603658699938581184513"
  by (rule power_step [OF root_906349_56646 root_906349_56646, of 113292 46137140902404186064429271755501984082880347299619325052650583141845275421408]) (simp_all only: literal_arith)

lemma root_906349_113293: "root_906349 ^ 113293 mod 52435875175126190479447740508185965837690552500527637822603658699938581184513 = 17675803353544910018007779604058667700723928314642711803845949470631465333912 mod 52435875175126190479447740508185965837690552500527637822603658699938581184513"
  by (rule power_step [OF root_906349_113292 root_906349_1, of 113293 4154039560897827899816967778719925745508308119816132391714350894483923374828]) (simp_all only: literal_arith)

lemma root_906349_226586: "root_906349 ^ 226586 mod 52435875175126190479447740508185965837690552500527637822603658699938581184513 = 6413494462148745994418498887373822316475420644491206160754746203023000537197 mod 52435875175126190479447740508185965837690552500527637822603658699938581184513"
  by (rule power_step [OF root_906349_113293 root_906349_113293, of 226586 5958402012929454145404437395883956911684048587581759861477431619490959921619]) (simp_all only: literal_arith)

lemma root_906349_226587: "root_906349 ^ 226587 mod 52435875175126190479447740508185965837690552500527637822603658699938581184513 = 21922926332713848190953352083708632594619921966098415923409566620057526853638 mod 52435875175126190479447740508185965837690552500527637822603658699938581184513"
  by (rule power_step [OF root_906349_226586 root_906349_1, of 226587 2425897251393525198675755476454538146342389903570334436711430116898392098031]) (simp_all only: literal_arith)

lemma root_906349_453174: "root_906349 ^ 453174 mod 52435875175126190479447740508185965837690552500527637822603658699938581184513 = 8239687631309795685982437454607955077326873385599188860041807384996147042373 mod 52435875175126190479447740508185965837690552500527637822603658699938581184513"
  by (rule power_step [OF root_906349_226587 root_906349_226587, of 453174 9165760986813578534995507334120723201229884420067444772295290422071288883167]) (simp_all only: literal_arith)

lemma root_906349_906348: "root_906349 ^ 906348 mod 52435875175126190479447740508185965837690552500527637822603658699938581184513 = 38487016189092319928609979153917257177741919465375190792799570236686799354533 mod 52435875175126190479447740508185965837690552500527637822603658699938581184513"
  by (rule power_step [OF root_906349_453174 root_906349_453174, of 906348 1294771032900877748104305677018247292607231094787846107924034403536795387892]) (simp_all only: literal_arith)

lemma root_906349_906349: "root_906349 ^ 906349 mod 52435875175126190479447740508185965837690552500527637822603658699938581184513 = 15769418934976494890171147995125343002726346209648636226952077001274280108622 mod 52435875175126190479447740508185965837690552500527637822603658699938581184513"
  by (rule power_step [OF root_906349_906348 root_906349_1, of 906349 14557671693408842057845205077263882561214843503935996401657311619954097906079]) (simp_all only: literal_arith)

lemma root_906349_1812698: "root_906349 ^ 1812698 mod 52435875175126190479447740508185965837690552500527637822603658699938581184513 = 49479968154584654327387031641795463391594612663268501835053479269091578739384 mod 52435875175126190479447740508185965837690552500527637822603658699938581184513"
  by (rule power_step [OF root_906349_906349 root_906349_906349, of 1812698 4742451093192739072077181036864064669670008012822250677415893098392943711500]) (simp_all only: literal_arith)

lemma root_906349_2719047: "root_906349 ^ 2719047 mod 52435875175126190479447740508185965837690552500527637822603658699938581184513 = 51451016344380444864043420794644462563232468486897052394416490921129848090835 mod 52435875175126190479447740508185965837690552500527637822603658699938581184513"
  by (rule power_step [OF root_906349_1812698 root_906349_906349, of 2719047 14880467697220301989015219842652364786646226547322038468470201874391825949501]) (simp_all only: literal_arith)

lemma root_906349_5438094: "root_906349 ^ 5438094 mod 52435875175126190479447740508185965837690552500527637822603658699938581184513 = 9398073174461127470919364764818947594159692509017719674423924978573563437075 mod 52435875175126190479447740508185965837690552500527637822603658699938581184513"
  by (rule power_step [OF root_906349_2719047 root_906349_2719047, of 5438094 50484655286643320401422996038306886363485585593066332797231611811737353006550]) (simp_all only: literal_arith)

lemma root_906349_10876188: "root_906349 ^ 10876188 mod 52435875175126190479447740508185965837690552500527637822603658699938581184513 = 50627805336910591299930607586381470253273159503203119556252423431623079208954 mod 52435875175126190479447740508185965837690552500527637822603658699938581184513"
  by (rule power_step [OF root_906349_5438094 root_906349_5438094, of 10876188 1684415089812855336917214706668349670701796032399325155468226904875502541167]) (simp_all only: literal_arith)

lemma root_906349_11782537: "root_906349 ^ 11782537 mod 52435875175126190479447740508185965837690552500527637822603658699938581184513 = 7006919675587162657074085231090443435092855393347401857020174027149164438248 mod 52435875175126190479447740508185965837690552500527637822603658699938581184513"
  by (rule power_step [OF root_906349_10876188 root_906349_906349, of 11782537 15225665051832723353597248053091835803673448257171310876574250749645149011780]) (simp_all only: literal_arith)

lemma root_906349_23565074: "root_906349 ^ 23565074 mod 52435875175126190479447740508185965837690552500527637822603658699938581184513 = 16704189513061715053853843940612642168504191179377418888015133612027023768034 mod 52435875175126190479447740508185965837690552500527637822603658699938581184513"
  by (rule power_step [OF root_906349_11782537 root_906349_11782537, of 23565074 936323140906026724056316576151060454122831987272451682580473773098539268190]) (simp_all only: literal_arith)

lemma root_906349_24471423: "root_906349 ^ 24471423 mod 52435875175126190479447740508185965837690552500527637822603658699938581184513 = 38336428828231695775817932988280972418308561956648937427023487823413979876380 mod 52435875175126190479447740508185965837690552500527637822603658699938581184513"
  by (rule power_step [OF root_906349_23565074 root_906349_906349, of 24471423 5023571391169734176222209231435143093355476358931316706307075390013919763136]) (simp_all only: literal_arith)

lemma root_906349_48942846: "root_906349 ^ 48942846 mod 52435875175126190479447740508185965837690552500527637822603658699938581184513 = 20890594160558620454581741011391670483069010508352317599706279836408350677601 mod 52435875175126190479447740508185965837690552500527637822603658699938581184513"
  by (rule power_step [OF root_906349_24471423 root_906349_24471423, of 48942846 28028172894866483788924214886231349603039985580048719372670151191300394191023]) (simp_all only: literal_arith)

lemma root_906349_49849195: "root_906349 ^ 49849195 mod 52435875175126190479447740508185965837690552500527637822603658699938581184513 = 31736791319432845950695756452295543985924807058867968570510816721683183844212 mod 52435875175126190479447740508185965837690552500527637822603658699938581184513"
  by (rule power_step [OF root_906349_48942846 root_906349_906349, of 49849195 6282579055239916708430844871358835941535279875031912784737652214129480658970]) (simp_all only: literal_arith)

lemma root_906349_99698390: "root_906349 ^ 99698390 mod 52435875175126190479447740508185965837690552500527637822603658699938581184513 = 40380678324985867759335813181539596744583267250526782969116195226779444996338 mod 52435875175126190479447740508185965837690552500527637822603658699938581184513"
  by (rule power_step [OF root_906349_49849195 root_906349_49849195, of 99698390 19208679551724562028348142177932927763186929662028490796464814306196732789662]) (simp_all only: literal_arith)

lemma root_906349_199396780: "root_906349 ^ 199396780 mod 52435875175126190479447740508185965837690552500527637822603658699938581184513 = 13933036199332900326564207443096473470258423276171110253613552122245906474944 mod 52435875175126190479447740508185965837690552500527637822603658699938581184513"
  by (rule power_step [OF root_906349_99698390 root_906349_99698390, of 199396780 31097014716357488916461201819895875683759369698243956806590421391546143268100]) (simp_all only: literal_arith)

lemma root_906349_200303129: "root_906349 ^ 200303129 mod 52435875175126190479447740508185965837690552500527637822603658699938581184513 = 40887749265211649731181181991243424399504301183819310632181193326934105020990 mod 52435875175126190479447740508185965837690552500527637822603658699938581184513"
  by (rule power_step [OF root_906349_199396780 root_906349_906349, of 200303129 4190182468198775783996230126773389201035299097537978408126827511930346160706]) (simp_all only: literal_arith)

lemma root_906349_400606258: "root_906349 ^ 400606258 mod 52435875175126190479447740508185965837690552500527637822603658699938581184513 = 9715216864892755892161361743144225551626897401708693485980779874976069410518 mod 52435875175126190479447740508185965837690552500527637822603658699938581184513"
  by (rule power_step [OF root_906349_200303129 root_906349_200303129, of 400606258 31882905251248006530603016090610477494216919305130218773428424943272357152814]) (simp_all only: literal_arith)

lemma root_906349_801212516: "root_906349 ^ 801212516 mod 52435875175126190479447740508185965837690552500527637822603658699938581184513 = 4990490969332238511285726155261610364211478801881130389105425645307250724587 mod 52435875175126190479447740508185965837690552500527637822603658699938581184513"
  by (rule power_step [OF root_906349_400606258 root_906349_400606258, of 801212516 1800016466143963501679903691830720987747157399948668096880243873032938720249]) (simp_all only: literal_arith)

lemma root_906349_802118865: "root_906349 ^ 802118865 mod 52435875175126190479447740508185965837690552500527637822603658699938581184513 = 13327305089746477649273409905788535553130797556973465278306757067472458362783 mod 52435875175126190479447740508185965837690552500527637822603658699938581184513"
  by (rule power_step [OF root_906349_801212516 root_906349_906349, of 802118865 1500826343105421702378728736411606004956182603091538751671714097080623124987]) (simp_all only: literal_arith)

lemma root_906349_1604237730: "root_906349 ^ 1604237730 mod 52435875175126190479447740508185965837690552500527637822603658699938581184513 = 37599107113305266357167349921397306315011985908312724462977023443113036133354 mod 52435875175126190479447740508185965837690552500527637822603658699938581184513"
  by (rule power_step [OF root_906349_802118865 root_906349_802118865, of 1604237730 3387319470915170458990099668734660171637690170027995114742412882987212411095]) (simp_all only: literal_arith)

lemma root_906349_3208475460: "root_906349 ^ 3208475460 mod 52435875175126190479447740508185965837690552500527637822603658699938581184513 = 46527984497920852463585668380204086609561141610547786212207161835008910359494 mod 52435875175126190479447740508185965837690552500527637822603658699938581184513"
  by (rule power_step [OF root_906349_1604237730 root_906349_1604237730, of 3208475460 26960413094972254026783114661409124472547881569665004209795557988140054091294]) (simp_all only: literal_arith)

lemma root_906349_6416950920: "root_906349 ^ 6416950920 mod 52435875175126190479447740508185965837690552500527637822603658699938581184513 = 36105672513154290705127188609536636462564487895082693872895892664531650705924 mod 52435875175126190479447740508185965837690552500527637822603658699938581184513"
  by (rule power_step [OF root_906349_3208475460 root_906349_3208475460, of 6416950920 41285729173176774298982827946085475539343000284058564077567266750445084238624]) (simp_all only: literal_arith)

lemma root_906349_12833901840: "root_906349 ^ 12833901840 mod 52435875175126190479447740508185965837690552500527637822603658699938581184513 = 34167755676973194991869955161553360349542753755311837845779547356626015861227 mod 52435875175126190479447740508185965837690552500527637822603658699938581184513"
  by (rule power_step [OF root_906349_6416950920 root_906349_6416950920, of 12833901840 24861215404020536133252040191941110193024682903125609088563891311185894708773]) (simp_all only: literal_arith)

lemma root_906349_12834808189: "root_906349 ^ 12834808189 mod 52435875175126190479447740508185965837690552500527637822603658699938581184513 = 17259959896981935197911261665972248225248628421298797980782414634803552765892 mod 52435875175126190479447740508185965837690552500527637822603658699938581184513"
  by (rule power_step [OF root_906349_12833901840 root_906349_906349, of 12834808189 10275515599550876677102558602613091261867195865909988868322289024126879159254]) (simp_all only: literal_arith)

lemma root_906349_25669616378: "root_906349 ^ 25669616378 mod 52435875175126190479447740508185965837690552500527637822603658699938581184513 = 30267657397258183479447441890356775317068733590642527618451352352203374879634 mod 52435875175126190479447740508185965837690552500527637822603658699938581184513"
  by (rule power_step [OF root_906349_12834808189 root_906349_12834808189, of 25669616378 5681343443786770431008141662823524817268301828752700955022506655416851229310]) (simp_all only: literal_arith)

lemma root_906349_25670522727: "root_906349 ^ 25670522727 mod 52435875175126190479447740508185965837690552500527637822603658699938581184513 = 48713319216212742522732968847756052108593384712821597849900158189161660542784 mod 52435875175126190479447740508185965837690552500527637822603658699938581184513"
  by (rule power_step [OF root_906349_25669616378 root_906349_906349, of 25670522727 9102610914447389276317112663753104113466773079951704962639512933821707930428]) (simp_all only: literal_arith)

lemma root_906349_51341045454: "root_906349 ^ 51341045454 mod 52435875175126190479447740508185965837690552500527637822603658699938581184513 = 9809756818132757762888565186952376068065216980435070054197446462928195735249 mod 52435875175126190479447740508185965837690552500527637822603658699938581184513"
  by (rule power_step [OF root_906349_25670522727 root_906349_25670522727, of 51341045454 45255036959625436225707114939805980628974191836485851130179199479735892033839]) (simp_all only: literal_arith)

lemma root_906349_102682090908: "root_906349 ^ 102682090908 mod 52435875175126190479447740508185965837690552500527637822603658699938581184513 = 14682506490831293628325193094279730446824700164545555915042470588141674105682 mod 52435875175126190479447740508185965837690552500527637822603658699938581184513"
  by (rule power_step [OF root_906349_51341045454 root_906349_51341045454, of 102682090908 1835219275152882783234129685143705784386599473535237006801455832049396874063]) (simp_all only: literal_arith)

lemma root_906349_102682997257: "root_906349 ^ 102682997257 mod 52435875175126190479447740508185965837690552500527637822603658699938581184513 = 21195368756897565953653294421963853224716152784286142261167742416437240290552 mod 52435875175126190479447740508185965837690552500527637822603658699938581184513"
  by (rule power_step [OF root_906349_102682090908 root_906349_906349, of 102682997257 4415576074512864999464473607274537321676190091965792182865524279346217843204]) (simp_all only: literal_arith)

lemma root_906349_205365994514: "root_906349 ^ 205365994514 mod 52435875175126190479447740508185965837690552500527637822603658699938581184513 = 25360728362943243942030599677575550442793757523717721489814850020330951991434 mod 52435875175126190479447740508185965837690552500527637822603658699938581184513"
  by (rule power_step [OF root_906349_102682997257 root_906349_102682997257, of 205365994514 8567486577471591424409884742843311765227786783830769205421815479688468516790]) (simp_all only: literal_arith)

lemma root_906349_205366900863: "root_906349 ^ 205366900863 mod 52435875175126190479447740508185965837690552500527637822603658699938581184513 = 5863486070941079495598972814588427364792457741179752838457288151935757558567 mod 52435875175126190479447740508185965837690552500527637822603658699938581184513"
  by (rule power_step [OF root_906349_205365994514 root_906349_906349, of 205366900863 7626914754749875167210113889090122849154706003335282419208269965415720196837]) (simp_all only: literal_arith)

lemma root_906349_410733801726: "root_906349 ^ 410733801726 mod 52435875175126190479447740508185965837690552500527637822603658699938581184513 = 42995049088636209123550463643806508568745627338537949435348873129536843806053 mod 52435875175126190479447740508185965837690552500527637822603658699938581184513"
  by (rule power_step [OF root_906349_205366900863 root_906349_205366900863, of 410733801726 655666922489528544499840310060046459758648480304464347297314970464623442572]) (simp_all only: literal_arith)

lemma root_906349_821467603452: "root_906349 ^ 821467603452 mod 52435875175126190479447740508185965837690552500527637822603658699938581184513 = 5241899020470220076176145561721909705505271048754998692301617636848812528931 mod 52435875175126190479447740508185965837690552500527637822603658699938581184513"
  by (rule power_step [OF root_906349_410733801726 root_906349_410733801726, of 821467603452 35253998144597356723924643634369437727146888412420711957892705900902707815606]) (simp_all only: literal_arith)

lemma root_906349_821468509801: "root_906349 ^ 821468509801 mod 52435875175126190479447740508185965837690552500527637822603658699938581184513 = 1 mod 52435875175126190479447740508185965837690552500527637822603658699938581184513"
  by (rule power_step [OF root_906349_821467603452 root_906349_906349, of 821468509801 1576434099603810010897459499670561222876606974079779533543160718497353389737]) (simp_all only: literal_arith)

lemma root_906349_unit: "15769418934976494890171147995125343002726346209648636226952077001274280108621 * 26341297231206394725939292351002686488477935223539131591963421836754874985217 = 7921808302852082262628646497605600862894042340950950165383769792779374203212 * 52435875175126190479447740508185965837690552500527637822603658699938581184513 + (1::int)"
  by (simp only: literal_arith)

section \<open>Powers of the element for 2508409\<close>

definition root_2508409 :: int where
  "root_2508409 = 18373012691511662944661031135262503793624804446979480243025351198939613928965"

lemma root_2508409_1: "root_2508409 ^ 1 mod 52435875175126190479447740508185965837690552500527637822603658699938581184513 = 18373012691511662944661031135262503793624804446979480243025351198939613928965 mod 52435875175126190479447740508185965837690552500527637822603658699938581184513"
  by (simp only: power_one_right root_2508409_def)

lemma root_2508409_2: "root_2508409 ^ 2 mod 52435875175126190479447740508185965837690552500527637822603658699938581184513 = 37441222919713219678008874458346504362360953299631558873051145773158784741529 mod 52435875175126190479447740508185965837690552500527637822603658699938581184513"
  by (rule power_step [OF root_2508409_1 root_2508409_1, of 2 6437722155585939675077430024201407099433072764021511014425020316105394846592]) (simp_all only: literal_arith)

lemma root_2508409_4: "root_2508409 ^ 4 mod 52435875175126190479447740508185965837690552500527637822603658699938581184513 = 31763465052566981790995007508893448574299919588608538803375341645460629529905 mod 52435875175126190479447740508185965837690552500527637822603658699938581184513"
  by (rule power_step [OF root_2508409_2 root_2508409_2, of 4 26734466985470408509567280677989930477156109199046686635636222007825125611072]) (simp_all only: literal_arith)

lemma root_2508409_8: "root_2508409 ^ 8 mod 52435875175126190479447740508185965837690552500527637822603658699938581184513 = 21176159395849675837013792318054274793074529162941109485181901267062187496217 mod 52435875175126190479447740508185965837690552500527637822603658699938581184513"
  by (rule power_step [OF root_2508409_4 root_2508409_4, of 8 19240981651894702959182644675958743893025686603940217246928108585306133766216]) (simp_all only: literal_arith)

lemma root_2508409_9: "root_2508409 ^ 9 mod 52435875175126190479447740508185965837690552500527637822603658699938581184513 = 23551037916577889266482831649209469569612989203749114505070155266110231808534 mod 52435875175126190479447740508185965837690552500527637822603658699938581184513"
  by (rule power_step [OF root_2508409_8 root_2508409_1, of 9 7419917070860326687818039684334551022876554540979965584764243212448876446567]) (simp_all only: literal_arith)

lemma root_2508409_18: "root_2508409 ^ 18 mod 52435875175126190479447740508185965837690552500527637822603658699938581184513 = 37345674858984377924999108686446307709893739380927392872853985995379231261156 mod 52435875175126190479447740508185965837690552500527637822603658699938581184513"
  by (rule power_step [OF root_2508409_9 root_2508409_9, of 18 10577708202555133591115243905979936877821766419487976622692882828349985536000]) (simp_all only: literal_arith)

lemma root_2508409_19: "root_2508409 ^ 19 mod 52435875175126190479447740508185965837690552500527637822603658699938581184513 = 49080031787428172018078010061102255397521418542008269887783559396863296977668 mod 52435875175126190479447740508185965837690552500527637822603658699938581184513"
  by (rule power_step [OF root_2508409_18 root_2508409_1, of 19 13085555564116447235878033623025381877736587410689406795548103534738648172144]) (simp_all only: literal_arith)

lemma root_2508409_38: "root_2508409 ^ 38 mod 52435875175126190479447740508185965837690552500527637822603658699938581184513 = 30022803842778764099013601347120768277923857962486274995004173386268455804449 mod 52435875175126190479447740508185965837690552500527637822603658699938581184513"
  by (rule power_step [OF root_2508409_19 root_2508409_19, of 38 45938959008690994859926868027331017867013891764560678145695054636890367048175]) (simp_all only: literal_arith)

lemma root_2508409_76: "root_2508409 ^ 76 mod 52435875175126190479447740508185965837690552500527637822603658699938581184513 = 42361644231506628700592360259996351553431158299831737569115837822635574517599 mod 52435875175126190479447740508185965837690552500527637822603658699938581184513"
  by (rule power_step [OF root_2508409_38 root_2508409_38, of 76 17189924790452438933310568470625923986118645022707739750614478448525769597154]) (simp_all only: literal_arith)

lemma root_2508409_152: "root_2508409 ^ 152 mod 52435875175126190479447740508185965837690552500527637822603658699938581184513 = 3067240121213930954373028946378061111556689634570712085434095689789448658465 mod 52435875175126190479447740508185965837690552500527637822603658699938581184513"
  by (rule power_step [OF root_2508409_76 root_2508409_76, of 152 34222922684200630849546018072885549348081902715091322762298647395934673667872]) (simp_all only: literal_arith)

lemma root_2508409_153: "root_2508409 ^ 153 mod 52435875175126190479447740508185965837690552500527637822603658699938581184513 = 2918175105942852987603059139873952771422106265014856486237895798640460133184 mod 52435875175126190479447740508185965837690552500527637822603658699938581184513"
  by (rule power_step [OF root_2508409_152 root_2508409_1, of 153 1074730639791246777610091570891635614155031116606815043938837256511519949157]) (simp_all only: literal_arith)

lemma root_2508409_306: "root_2508409 ^ 306 mod 52435875175126190479447740508185965837690552500527637822603658699938581184513 = 7734721567744534629803235578333886618494329857278263969448680511757227184422 mod 52435875175126190479447740508185965837690552500527637822603658699938581184513"
  by (rule power_step [OF root_2508409_153 root_2508409_153, of 306 162403047922887796820376990580587109041057569177443988672517352720143859418]) (simp_all only: literal_arith)

lemma root_2508409_612: "root_2508409 ^ 612 mod 52435875175126190479447740508185965837690552500527637822603658699938581184513 = 33778914954778772617412745526710522066334810501619670491049885596227602829446 mod 52435875175126190479447740508185965837690552500527637822603658699938581184513"
  by (rule power_step [OF root_2508409_306 root_2508409_306, of 612 1140934856731672668034182711668783352333144656939952600868177057782499492126]) (simp_all only: literal_arith)

lemma root_2508409_1224: "root_2508409 ^ 1224 mod 52435875175126190479447740508185965837690552500527637822603658699938581184513 = 15101764181632895956174860171365898289706162774578403766574866748652371671784 mod 52435875175126190479447740508185965837690552500527637822603658699938581184513"
  by (rule power_step [OF root_2508409_612 root_2508409_612, of 1224 21760199323676704136468177982973774226648699452218322671167386976896750095164]) (simp_all only: literal_arith)

lemma root_2508409_2448: "root_2508409 ^ 2448 mod 52435875175126190479447740508185965837690552500527637822603658699938581184513 = 35198280633254999596076517359354168321910711842903867723123236614789359776424 mod 52435875175126190479447740508185965837690552500527637822603658699938581184513"
  by (rule power_step [OF root_2508409_1224 root_2508409_1224, of 2448 4349374939122515408937430748315985654850755222763418453771689304733985619864]) (simp_all only: literal_arith)

lemma root_2508409_2449: "root_2508409 ^ 2449 mod 52435875175126190479447740508185965837690552500527637822603658699938581184513 = 32799436753449568914228094450318832890972810679222127779504146207779071611883 mod 52435875175126190479447740508185965837690552500527637822603658699938581184513"
  by (rule power_step [OF root_2508409_2448 root_2508409_1, of 2449 12333129839720024403429151292419748579432026215925200855801180810586629396829]) (simp_all only: literal_arith)

lemma root_2508409_4898: "root_2508409 ^ 4898 mod 52435875175126190479447740508185965837690552500527637822603658699938581184513 = 16123038503704233369002751081219616012702007311332813948337266925875606763428 mod 52435875175126190479447740508185965837690552500527637822603658699938581184513"
  by (rule power_step [OF root_2508409_2449 root_2508409_2449, of 4898 20516546119437385828937051968877086045308091044833818353729653102931372376597]) (simp_all only: literal_arith)

lemma root_2508409_4899: "root_2508409 ^ 4899 mod 52435875175126190479447740508185965837690552500527637822603658699938581184513 = 1424508171215878110288405203633075971057007876651193456797934300512080893602 mod 52435875175126190479447740508185965837690552500527637822603658699938581184513"
  by (rule power_step [OF root_2508409_4898 root_2508409_1, of 4899 5649353425778426457615294490403453548780335790116842722258518565044169783186]) (simp_all only: literal_arith)

lemma root_2508409_9798: "root_2508409 ^ 9798 mod 52435875175126190479447740508185965837690552500527637822603658699938581184513 = 1474177289395272842640876836102517285652362396230937873630527761699805615499 mod 52435875175126190479447740508185965837690552500527637822603658699938581184513"
  by (rule power_step [OF root_2508409_4899 root_2508409_4899, of 9798 38699144871399050535496448923184431736858959771308232572098156918163368185]) (simp_all only: literal_arith)

lemma root_2508409_19596: "root_2508409 ^ 19596 mod 52435875175126190479447740508185965837690552500527637822603658699938581184513 = 31574293472654710848431223283910688933833682049127869938310206308107086640789 mod 52435875175126190479447740508185965837690552500527637822603658699938581184513"
  by (rule power_step [OF root_2508409_9798 root_2508409_9798, of 19596 41444882407525566139916774502078605319444671071465237236275899831981892324]) (simp_all only: literal_arith)

lemma root_2508409_39192: "root_2508409 ^ 39192 mod 52435875175126190479447740508185965837690552500527637822603658699938581184513 = 21269363253685245215921675506315543211406478528260487992214714369589067647638 mod 52435875175126190479447740508185965837690552500527637822603658699938581184513"
  by (rule power_step [OF root_2508409_19596 root_2508409_19596, of 39192 19012479623306424308204794282004099749774214588868140540525428503192453523491]) (simp_all only: literal_arith)

lemma root_2508409_39193: "root_2508409 ^ 39193 mod 52435875175126190479447740508185965837690552500527637822603658699938581184513 = 13953708577280140006982001831388922270365105291015365310829644146968418359349 mod 52435875175126190479447740508185965837690552500527637822603658699938581184513"
  by (rule power_step [OF root_2508409_39192 root_2508409_1, of 39193 7452574781963489253808675258834070748836600474790202265456606091231500972217]) (simp_all only: literal_arith)

lemma root_2508409_78386: "root_2508409 ^ 78386 mod 52435875175126190479447740508185965837690552500527637822603658699938581184513 = 7165870429553851078061543812777829236772261799587284805717461000609812187407 mod 52435875175126190479447740508185965837690552500527637822603658699938581184513"
  by (rule power_step [OF root_2508409_39193 root_2508409_39193, of 78386 3713220813219558814214721859445391486021493080477229435978519763437170127338]) (simp_all only: literal_arith)

lemma root_2508409_78387: "root_2508409 ^ 78387 mod 52435875175126190479447740508185965837690552500527637822603658699938581184513 = 24355670781509235943825597959659873002491870019484595759496808755754504014669 mod 52435875175126190479447740508185965837690552500527637822603658699938581184513"
  by (rule power_step [OF root_2508409_78386 root_2508409_1, of 78387 2510850212916355549280756930201118920571224385970515241565978112376331674622]) (simp_all only: literal_arith)

lemma root_2508409_156774: "root_2508409 ^ 156774 mod 52435875175126190479447740508185965837690552500527637822603658699938581184513 = 37873112775855140913906061782231260024211266051697117539434586845382440928108 mod 52435875175126190479447740508185965837690552500527637822603658699938581184513"
  by (rule power_step [OF root_2508409_78387 root_2508409_78387, of 156774 11312840631267963635612569609344048227879053029824087988216369568515931304381]) (simp_all only: literal_arith)

lemma root_2508409_156775: "root_2508409 ^ 156775 mod 52435875175126190479447740508185965837690552500527637822603658699938581184513 = 31554925949997548504899415539518229521342511394967282535417746289354177324177 mod 52435875175126190479447740508185965837690552500527637822603658699938581184513"
  by (rule power_step [OF root_2508409_156774 root_2508409_1, of 156775 13270364600072957914997425080630731003503587100983407558068216556076263068811]) (simp_all only: literal_arith)

lemma root_2508409_313550: "root_2508409 ^ 313550 mod 52435875175126190479447740508185965837690552500527637822603658699938581184513 = 5799340753345979742372459945531381561941482313776390316959793524043650953759 mod 52435875175126190479447740508185965837690552500527637822603658699938581184513"
  by (rule power_step [OF root_2508409_156775 root_2508409_156775, of 313550 18989162446213189145915115810541981857718290581229610133392770965821236389890]) (simp_all only: literal_arith)

lemma root_2508409_313551: "root_2508409 ^ 313551 mod 52435875175126190479447740508185965837690552500527637822603658699938581184513 = 26060313142782058107725610541950303988617835298529511146868606617369026573627 mod 52435875175126190479447740508185965837690552500527637822603658699938581184513"
  by (rule power_step [OF root_2508409_313550 root_2508409_1, of 313551 2032031713168980615402688117562035817014512097225408733528876655506696677216]) (simp_all only: literal_arith)

lemma root_2508409_627102: "root_2508409 ^ 627102 mod 52435875175126190479447740508185965837690552500527637822603658699938581184513 = 15443840460941370216115824512978354959479944413827271821502163656143745451011 mod 52435875175126190479447740508185965837690552500527637822603658699938581184513"
  by (rule power_step [OF root_2508409_313551 root_2508409_313551, of 627102 12951818174706852776097756016307553334207047638260507324723831835754055432086]) (simp_all only: literal_arith)

lemma root_2508409_1254204: "root_2508409 ^ 1254204 mod 52435875175126190479447740508185965837690552500527637822603658699938581184513 = 48276939486859142176021536031588014106863686619212062691095273095297056276830 mod 52435875175126190479447740508185965837690552500527637822603658699938581184513"
  by (rule power_step [OF root_2508409_627102 root_2508409_627102, of 1254204 4548645510090616289710989078540351914416504332660159002142648502752562484907]) (simp_all only: literal_arith)

lemma root_2508409_2508408: "root_2508409 ^ 2508408 mod 52435875175126190479447740508185965837690552500527637822603658699938581184513 = 29333048345415225783814374108549858026223637026304588576125209634243721685767 mod 52435875175126190479447740508185965837690552500527637822603658699938581184513"
  by (rule power_step [OF root_2508409_1254204 root_2508409_1254204, of 2508408 44447868533401484435877963081463961421915668374961559652972850108743716303741]) (simp_all only: literal_arith)

lemma root_2508409_2508409: "root_2508409 ^ 2508409 mod 52435875175126190479447740508185965837690552500527637822603658699938581184513 = 1 mod 52435875175126190479447740508185965837690552500527637822603658699938581184513"
  by (rule power_step [OF root_2508409_2508408 root_2508409_1, of 2508409 10278010383751397772390799333423736376211937376368097949498303080184561133858]) (simp_all only: literal_arith)

lemma root_2508409_unit: "18373012691511662944661031135262503793624804446979480243025351198939613928964 * 48472240096012237144731384553576740801770162290142878764820801249230352259478 = 16984194113203148173737234830276165475823952112065129715244549757344653048407 * 52435875175126190479447740508185965837690552500527637822603658699938581184513 + (1::int)"
  by (simp only: literal_arith)

section \<open>Powers of the element for 2529403\<close>

definition root_2529403 :: int where
  "root_2529403 = 47059450156245510142419071452461480537773589021230600566513559274632232753225"

lemma root_2529403_1: "root_2529403 ^ 1 mod 52435875175126190479447740508185965837690552500527637822603658699938581184513 = 47059450156245510142419071452461480537773589021230600566513559274632232753225 mod 52435875175126190479447740508185965837690552500527637822603658699938581184513"
  by (simp only: power_one_right root_2529403_def)

lemma root_2529403_2: "root_2529403 ^ 2 mod 52435875175126190479447740508185965837690552500527637822603658699938581184513 = 20419695991560139365872368889920785983702190693300380109645103900393871950731 mod 52435875175126190479447740508185965837690552500527637822603658699938581184513"
  by (rule power_step [OF root_2529403_1 root_2529403_1, of 2 42234287910935511603490098908459548437358499548485927152514481113361816256838]) (simp_all only: literal_arith)

lemma root_2529403_4: "root_2529403 ^ 4 mod 52435875175126190479447740508185965837690552500527637822603658699938581184513 = 18422864680834310620509028354880096796635697137080669759081748771354740012184 mod 52435875175126190479447740508185965837690552500527637822603658699938581184513"
  by (rule power_step [OF root_2529403_2 root_2529403_2, of 4 7951883762694035576077276361218748308003432547329263448376054658525503740129]) (simp_all only: literal_arith)

lemma root_2529403_8: "root_2529403 ^ 8 mod 52435875175126190479447740508185965837690552500527637822603658699938581184513 = 9027278416485490844187172110521245146643539139466335517155177253334978289220 mod 52435875175126190479447740508185965837690552500527637822603658699938581184513"
  by (rule power_step [OF root_2529403_4 root_2529403_4, of 8 6472704840241383307836277143289357517536946475706541183049062658189383678972]) (simp_all only: literal_arith)

lemma root_2529403_9: "root_2529403 ^ 9 mod 52435875175126190479447740508185965837690552500527637822603658699938581184513 = 16588583042670512155301954901457385642096216277702213016350154414948963519410 mod 52435875175126190479447740508185965837690552500527637822603658699938581184513"
  by (rule power_step [OF root_2529403_8 root_2529403_1, of 9 8101681477963955779801121636163143717891515695056947504451206213645796586930]) (simp_all only: literal_arith)

lemma root_2529403_18: "root_2529403 ^ 18 mod 52435875175126190479447740508185965837690552500527637822603658699938581184513 = 43544056548269451789482047195955619358804440647641674987455233987558805179568 mod 52435875175126190479447740508185965837690552500527637822603658699938581184513"
  by (rule power_step [OF root_2529403_9 root_2529403_9, of 18 5247954505279474912608859659425260156527648367614706600082028798344941746964]) (simp_all only: literal_arith)

lemma root_2529403_19: "root_2529403 ^ 19 mod 52435875175126190479447740508185965837690552500527637822603658699938581184513 = 28909276364561820635425438616128035593349424563112507068506469230912101439197 mod 52435875175126190479447740508185965837690552500527637822603658699938581184513"
  by (rule power_step [OF root_2529403_18 root_2529403_1, of 19 39079339324273817491469266517429301291232286302662176411109400969526770222931]) (simp_all only: literal_arith)

lemma root_2529403_38: "root_2529403 ^ 38 mod 52435875175126190479447740508185965837690552500527637822603658699938581184513 = 8716543244053725253999670108215069161482695675081620163637587342396698742733 mod 52435875175126190479447740508185965837690552500527637822603658699938581184513"
  by (rule power_step [OF root_2529403_19 root_2529403_19, of 38 15938443997194167869434877531841793097797360103758265424793022261559676889852]) (simp_all only: literal_arith)

lemma root_2529403_76: "root_2529403 ^ 76 mod 52435875175126190479447740508185965837690552500527637822603658699938581184513 = 42021493368124609249703111636663345509974917706500880182638345197301822692319 mod 52435875175126190479447740508185965837690552500527637822603658699938581184513"
  by (rule power_step [OF root_2529403_38 root_2529403_38, of 76 1448972213617216393436997552855131984004954874486129582508324080167750831690]) (simp_all only: literal_arith)

lemma root_2529403_77: "root_2529403 ^ 77 mod 52435875175126190479447740508185965837690552500527637822603658699938581184513 = 26543230449525195762667555302139365338746331738894901819893466990286137415803 mod 52435875175126190479447740508185965837690552500527637822603658699938581184513"
  by (rule power_step [OF root_2529403_76 root_2529403_1, of 77 37712889620774834400048614925145608448190914044094476895284578597296773218844]) (simp_all only: literal_arith)

lemma root_2529403_154: "root_2529403 ^ 154 mod 52435875175126190479447740508185965837690552500527637822603658699938581184513 = 14470139519234909013618068615906119146078452108068791826716176892890416605355 mod 52435875175126190479447740508185965837690552500527637822603658699938581184513"
  by (rule power_step [OF root_2529403_77 root_2529403_77, of 154 13436279652881868684258710093891479745690455194155798409576122344326387982958]) (simp_all only: literal_arith)

lemma root_2529403_308: "root_2529403 ^ 308 mod 52435875175126190479447740508185965837690552500527637822603658699938581184513 = 31524224713342403301046928816197377279169069610052281404957368000844883176205 mod 52435875175126190479447740508185965837690552500527637822603658699938581184513"
  by (rule power_step [OF root_2529403_154 root_2529403_154, of 308 3993161876421756218966461245805306396718612602654668265770290661147086436140]) (simp_all only: literal_arith)

lemma root_2529403_616: "root_2529403 ^ 616 mod 52435875175126190479447740508185965837690552500527637822603658699938581184513 = 3476443077044392713980640369187214731259297483865123615427941794755417221920 mod 52435875175126190479447740508185965837690552500527637822603658699938581184513"
  by (rule power_step [OF root_2529403_308 root_2529403_308, of 616 18952229565317183411405108988585922994245215324078367484464154965683339080585]) (simp_all only: literal_arith)

lemma root_2529403_617: "root_2529403 ^ 617 mod 52435875175126190479447740508185965837690552500527637822603658699938581184513 = 23935936721566007390375012940624599025662025049779331819918939574001447437026 mod 52435875175126190479447740508185965837690552500527637822603658699938581184513"
  by (rule power_step [OF root_2529403_616 root_2529403_1, of 617 3119991783465100818712329265307731587883421492672360687066001782705983047998]) (simp_all only: literal_arith)

lemma root_2529403_1234: "root_2529403 ^ 1234 mod 52435875175126190479447740508185965837690552500527637822603658699938581184513 = 18215666261935747632684059367129671387264741844318689569221600795872805804190 mod 52435875175126190479447740508185965837690552500527637822603658699938581184513"
  by (rule power_step [OF root_2529403_617 root_2529403_617, of 1234 10926280238964911554156287005438813203352169888769569017364239468911354312422]) (simp_all only: literal_arith)

lemma root_2529403_1235: "root_2529403 ^ 1235 mod 52435875175126190479447740508185965837690552500527637822603658699938581184513 = 3867374054240431582218558694455614207850910108135653977960341348143809698675 mod 52435875175126190479447740508185965837690552500527637822603658699938581184513"
  by (rule power_step [OF root_2529403_1234 root_2529403_1, of 1235 16347953298260275114182260307747579674121147146896904728635313275891171621275]) (simp_all only: literal_arith)

lemma root_2529403_2470: "root_2529403 ^ 2470 mod 52435875175126190479447740508185965837690552500527637822603658699938581184513 = 52150429472817986023764116726975634603772449430181481420536255485615303880789 mod 52435875175126190479447740508185965837690552500527637822603658699938581184513"
  by (rule power_step [OF root_2529403_1235 root_2529403_1235, of 2470 285235671674399179427104125206932004421909202901309644604886949015312172372]) (simp_all only: literal_arith)

lemma root_2529403_4940: "root_2529403 ^ 4940 mod 52435875175126190479447740508185965837690552500527637822603658699938581184513 = 36902159515306271665815111702894912959317344000267347305852616600019648042322 mod 52435875175126190479447740508185965837690552500527637822603658699938581184513"
  by (rule power_step [OF root_2529403_2470 root_2529403_2470, of 4940 51866537654157076446919078318957701963393281537298623903904915542518683182823]) (simp_all only: literal_arith)

lemma root_2529403_9880: "root_2529403 ^ 9880 mod 52435875175126190479447740508185965837690552500527637822603658699938581184513 = 34988215702016168458894515099795953442036199027365476615764993266674993407631 mod 52435875175126190479447740508185965837690552500527637822603658699938581184513"
  by (rule power_step [OF root_2529403_4940 root_2529403_4940, of 9880 25970184961060526761145626733914694142943009390033768717663967224992193734581]) (simp_all only: literal_arith)

lemma root_2529403_19760: "root_2529403 ^ 19760 mod 52435875175126190479447740508185965837690552500527637822603658699938581184513 = 6109564548196770539536994457896521316388942742451571699415106851557708435173 mod 52435875175126190479447740508185965837690552500527637822603658699938581184513"
  by (rule power_step [OF root_2529403_9880 root_2529403_9880, of 19760 23346139144665562518988159162309402283807905405443453250553427264441109198076]) (simp_all only: literal_arith)

lemma root_2529403_39520: "root_2529403 ^ 39520 mod 52435875175126190479447740508185965837690552500527637822603658699938581184513 = 50733687949207605079842556175940254595932173029564468742917849860590816503935 mod 52435875175126190479447740508185965837690552500527637822603658699938581184513"
  by (rule power_step [OF root_2529403_19760 root_2529403_19760, of 39520 711855744638917996493937847147314097741412263239753649701934900147212136538]) (simp_all only: literal_arith)

lemma root_2529403_39521: "root_2529403 ^ 39521 mod 52435875175126190479447740508185965837690552500527637822603658699938581184513 = 26501974875547115711873437963508388586690871409983900112719417045603982974782 mod 52435875175126190479447740508185965837690552500527637822603658699938581184513"
  by (rule power_step [OF root_2529403_39520 root_2529403_1, of 39521 45531793858964672215135950039868613871000630167962909981928358730816619943161]) (simp_all only: literal_arith)

lemma root_2529403_79042: "root_2529403 ^ 79042 mod 52435875175126190479447740508185965837690552500527637822603658699938581184513 = 50681636981639345697439099360800568292589276073098198643481492850095044265002 mod 52435875175126190479447740508185965837690552500527637822603658699938581184513"
  by (rule power_step [OF root_2529403_39521 root_2529403_39521, of 79042 13394544669244004761880632461739260229672132355592369183861404228652756799194]) (simp_all only: literal_arith)

lemma root_2529403_79043: "root_2529403 ^ 79043 mod 52435875175126190479447740508185965837690552500527637822603658699938581184513 = 17674985048228017981268380462526471988116773295976975524203805014556906301623 mod 52435875175126190479447740508185965837690552500527637822603658699938581184513"
  by (rule power_step [OF root_2529403_79042 root_2529403_1, of 79043 45485079850555696344328669309524418115509304249438702597153213995440493754179]) (simp_all only: literal_arith)

lemma root_2529403_158086: "root_2529403 ^ 158086 mod 52435875175126190479447740508185965837690552500527637822603658699938581184513 = 17542558290346975924577189482668150261491948860833300071733052908074811769619 mod 52435875175126190479447740508185965837690552500527637822603658699938581184513"
  by (rule power_step [OF root_2529403_79043 root_2529403_79043, of 158086 5957850334560229205386643824357103186617618947505900426422474895069840142270]) (simp_all only: literal_arith)

lemma root_2529403_158087: "root_2529403 ^ 158087 mod 52435875175126190479447740508185965837690552500527637822603658699938581184513 = 27431014472881326095542509360461252131652119583482960190322541664021376298114 mod 52435875175126190479447740508185965837690552500527637822603658699938581184513"
  by (rule power_step [OF root_2529403_158086 root_2529403_1, of 158087 15743861330061766057719489120249776951892288810989467830967797655279908305897]) (simp_all only: literal_arith)

lemma root_2529403_316174: "root_2529403 ^ 316174 mod 52435875175126190479447740508185965837690552500527637822603658699938581184513 = 2045503204954962314873041002849681625788462196211888596425152464694510475851 mod 52435875175126190479447740508185965837690552500527637822603658699938581184513"
  by (rule power_step [OF root_2529403_158087 root_2529403_158087, of 316174 14350109586201140950799855787419350533424216880633829481479706331610387060665]) (simp_all only: literal_arith)

lemma root_2529403_316175: "root_2529403 ^ 316175 mod 52435875175126190479447740508185965837690552500527637822603658699938581184513 = 31752472010830858826371884482276102210245765257968283369507556331932267950186 mod 52435875175126190479447740508185965837690552500527637822603658699938581184513"
  by (rule power_step [OF root_2529403_316174 root_2529403_1, of 316175 1835770944921333359801170816495463736074709112540245930667285948760606037753]) (simp_all only: literal_arith)

lemma root_2529403_632350: "root_2529403 ^ 632350 mod 52435875175126190479447740508185965837690552500527637822603658699938581184513 = 46480584977030376322202240248062072326790389837894811248582438425253834619279 mod 52435875175126190479447740508185965837690552500527637822603658699938581184513"
  by (rule power_step [OF root_2529403_316175 root_2529403_316175, of 632350 19227665704659819955108203266718671697077300140300879680839662419386891661909]) (simp_all only: literal_arith)

lemma root_2529403_1264700: "root_2529403 ^ 1264700 mod 52435875175126190479447740508185965837690552500527637822603658699938581184513 = 33989877511218243654170335627096932360212402629259771207121407858061404378424 mod 52435875175126190479447740508185965837690552500527637822603658699938581184513"
  by (rule power_step [OF root_2529403_632350 root_2529403_632350, of 1264700 41201653878979862998401695230055603976329119080616958004838024980028762941609]) (simp_all only: literal_arith)

lemma root_2529403_1264701: "root_2529403 ^ 1264701 mod 52435875175126190479447740508185965837690552500527637822603658699938581184513 = 19457938560417759580148060207820251452782175418014939159844801325236143932697 mod 52435875175126190479447740508185965837690552500527637822603658699938581184513"
  by (rule power_step [OF root_2529403_1264700 root_2529403_1, of 1264701 30504782102213014406332945925104091228819944221448868167246037159265531889631]) (simp_all only: literal_arith)

lemma root_2529403_2529402: "root_2529403 ^ 2529402 mod 52435875175126190479447740508185965837690552500527637822603658699938581184513 = 36205508946048026236229554542284441966641112051678173560695788261748315409734 mod 52435875175126190479447740508185965837690552500527637822603658699938581184513"
  by (rule power_step [OF root_2529403_1264701 root_2529403_1264701, of 2529402 7220464457902150390019521275247479241945147932036518635706299301825557311275]) (simp_all only: literal_arith)

lemma root_2529403_2529403: "root_2529403 ^ 2529403 mod 52435875175126190479447740508185965837690552500527637822603658699938581184513 = 1 mod 52435875175126190479447740508185965837690552500527637822603658699938581184513"
  by (rule power_step [OF root_2529403_2529402 root_2529403_1, of 2529403 32493237462665228916711815162912201751489881526676724193085813843220884297973]) (simp_all only: literal_arith)

lemma root_2529403_unit: "47059450156245510142419071452461480537773589021230600566513559274632232753224 * 15945380698461257637451219308760671980468905831393076519767896596644826894057 = 14310447679102572166026172392334811365628987548218346866148408745422218119559 * 52435875175126190479447740508185965837690552500527637822603658699938581184513 + (1::int)"
  by (simp only: literal_arith)

section \<open>Powers of the element for 125527\<close>

definition root_125527 :: int where
  "root_125527 = 29421323965352974178181925065855906521660604320251774658637287992326054649365"

lemma root_125527_1: "root_125527 ^ 1 mod 52435875175126190479447740508185965837690552500527637822603658699938581184513 = 29421323965352974178181925065855906521660604320251774658637287992326054649365 mod 52435875175126190479447740508185965837690552500527637822603658699938581184513"
  by (simp only: power_one_right root_125527_def)

lemma root_125527_2: "root_125527 ^ 2 mod 52435875175126190479447740508185965837690552500527637822603658699938581184513 = 45484688382478962554152623857465744427804302611701013056998308794440902683328 mod 52435875175126190479447740508185965837690552500527637822603658699938581184513"
  by (rule power_step [OF root_125527_1 root_125527_1, of 2 16508054857161447142053730210180823355729252935334765269357293103525583864569]) (simp_all only: literal_arith)

lemma root_125527_3: "root_125527 ^ 3 mod 52435875175126190479447740508185965837690552500527637822603658699938581184513 = 47050574962243551978324901853564263955728856168142747281478698576787070339753 mod 52435875175126190479447740508185965837690552500527637822603658699938581184513"
  by (rule power_step [OF root_125527_2 root_125527_1, of 3 25521072126566633418964821521253347028310859548204364177250092243992092423959]) (simp_all only: literal_arith)

lemma root_125527_6: "root_125527 ^ 6 mod 52435875175126190479447740508185965837690552500527637822603658699938581184513 = 41055831032585139192441756813657210970804848473617846418029950448551900865136 mod 52435875175126190479447740508185965837690552500527637822603658699938581184513"
  by (rule power_step [OF root_125527_3 root_125527_3, of 6 42218359031563017441388741395290318696596726566347408191657892926075169554721]) (simp_all only: literal_arith)

lemma root_125527_7: "root_125527 ^ 7 mod 52435875175126190479447740508185965837690552500527637822603658699938581184513 = 35203219098438041684125246747318185973101795747688226457324253369584566435523 mod 52435875175126190479447740508185965837690552500527637822603658699938581184513"
  by (rule power_step [OF root_125527_6 root_125527_1, of 7 23036077903577635216393661713407100422164993117585671001057015463313198822509]) (simp_all only: literal_arith)

lemma root_125527_14: "root_125527 ^ 14 mod 52435875175126190479447740508185965837690552500527637822603658699938581184513 = 52252403763418391819802327373926970763056205884597032987714032767381523069202 mod 52435875175126190479447740508185965837690552500527637822603658699938581184513"
  by (rule power_step [OF root_125527_7 root_125527_7, of 14 23633945857749298248568738515741768558337189175061832841387542472466232610679]) (simp_all only: literal_arith)

lemma root_125527_15: "root_125527 ^ 15 mod 52435875175126190479447740508185965837690552500527637822603658699938581184513 = 45046754876014754221349192485899301983508958807415224543320844730183494550243 mod 52435875175126190479447740508185965837690552500527637822603658699938581184513"
  by (rule power_step [OF root_125527_14 root_125527_1, of 15 29318379715367490678164689900307469610570747357690406050707260647868725806999]) (simp_all only: literal_arith)

lemma root_125527_30: "root_125527 ^ 30 mod 52435875175126190479447740508185965837690552500527637822603658699938581184513 = 7045771278687303353152862563020872059999277897749711412479248441760083433274 mod 52435875175126190479447740508185965837690552500527637822603658699938581184513"
  by (rule power_step [OF root_125527_15 root_125527_15, of 30 38698889225793790778958023552639782952881940491847971387168368464808978972175]) (simp_all only: literal_arith)

lemma root_125527_60: "root_125527 ^ 60 mod 52435875175126190479447740508185965837690552500527637822603658699938581184513 = 45557566593778248880409651157333128325545099876132694491950518760981824470624 mod 52435875175126190479447740508185965837690552500527637822603658699938581184513"
  by (rule power_step [OF root_125527_30 root_125527_30, of 60 946735278962671547620356001784780096176805966264979667779001343198392580804]) (simp_all only: literal_arith)

lemma root_125527_61: "root_125527 ^ 61 mod 52435875175126190479447740508185965837690552500527637822603658699938581184513 = 10525196627865645408612516624214966680874739246676486000564167984115067282097 mod 52435875175126190479447740508185965837690552500527637822603658699938581184513"
  by (rule power_step [OF root_125527_60 root_125527_1, of 61 25561963471614095776045745708563782840408104515971049102931854960735098485551]) (simp_all only: literal_arith)

lemma root_125527_122: "root_125527 ^ 122 mod 52435875175126190479447740508185965837690552500527637822603658699938581184513 = 51554998226873317567040025720850832361484620851867477579389908042501557495598 mod 52435875175126190479447740508185965837690552500527637822603658699938581184513"
  by (rule power_step [OF root_125527_61 root_125527_61, of 122 2112671213844534719471702870630892267602711050920666652941444529512566576947]) (simp_all only: literal_arith)

lemma root_125527_244: "root_125527 ^ 244 mod 52435875175126190479447740508185965837690552500527637822603658699938581184513 = 30047589949209633526260489008724291053548240209879949913483645161488647178588 mod 52435875175126190479447740508185965837690552500527637822603658699938581184513"
  by (rule power_step [OF root_125527_122 root_125527_122, of 244 50688919242712238363890402077424426446795001382199954218523795018029989184232]) (simp_all only: literal_arith)

lemma root_125527_245: "root_125527 ^ 245 mod 52435875175126190479447740508185965837690552500527637822603658699938581184513 = 12862132460092878413726587560421354722137578064864899277582650029363039222370 mod 52435875175126190479447740508185965837690552500527637822603658699938581184513"
  by (rule power_step [OF root_125527_244 root_125527_1, of 245 16859447378750707488229816129741146342148510765148410460498730547457149342250]) (simp_all only: literal_arith)

lemma root_125527_490: "root_125527 ^ 490 mod 52435875175126190479447740508185965837690552500527637822603658699938581184513 = 47838625075496697476841205520429820610602907869712550606074689756770939890956 mod 52435875175126190479447740508185965837690552500527637822603658699938581184513"
  by (rule power_step [OF root_125527_245 root_125527_245, of 490 3154985987521981916184245842544697864377884455577222154605394779066368237688]) (simp_all only: literal_arith)

lemma root_125527_980: "root_125527 ^ 980 mod 52435875175126190479447740508185965837690552500527637822603658699938581184513 = 46426574837894715035557945475530236550884906975608370179243986072886672653991 mod 52435875175126190479447740508185965837690552500527637822603658699938581184513"
  by (rule power_step [OF root_125527_490 root_125527_490, of 980 43644433157082972105090632686580300400152047388403976102176195169037261388265]) (simp_all only: literal_arith)

lemma root_125527_1960: "root_125527 ^ 1960 mod 52435875175126190479447740508185965837690552500527637822603658699938581184513 = 45349622650841235972494905200928681852955306902284228355469351557358523702686 mod 52435875175126190479447740508185965837690552500527637822603658699938581184513"
  by (rule power_step [OF root_125527_980 root_125527_980, of 1960 41105957399965366463621356576337672300189748415403836146170416473901813592915]) (simp_all only: literal_arith)

lemma root_125527_1961: "root_125527 ^ 1961 mod 52435875175126190479447740508185965837690552500527637822603658699938581184513 = 9213119486929537608942847588426164493411574481213109737322715407032100016861 mod 52435875175126190479447740508185965837690552500527637822603658699938581184513"
  by (rule power_step [OF root_125527_1960 root_125527_1, of 1961 25445287892321297105822697342938839741775111643328075555416104951436581822233]) (simp_all only: literal_arith)

lemma root_125527_3922: "root_125527 ^ 3922 mod 52435875175126190479447740508185965837690552500527637822603658699938581184513 = 2617870449003676066663248420126669448493261267031316553860212626798152169677 mod 52435875175126190479447740508185965837690552500527637822603658699938581184513"
  by (rule power_step [OF root_125527_1961 root_125527_1961, of 3922 1618769027825928969497168831196461233611251587887288282862973529529038510588]) (simp_all only: literal_arith)

lemma root_125527_7844: "root_125527 ^ 7844 mod 52435875175126190479447740508185965837690552500527637822603658699938581184513 = 9899359114850505110549389182810920620424380023114235143938028907911418389531 mod 52435875175126190479447740508185965837690552500527637822603658699938581184513"
  by (rule power_step [OF root_125527_3922 root_125527_3922, of 7844 130697650508895425037447120674538328216153905357056918741046960253358354446]) (simp_all only: literal_arith)

lemma root_125527_7845: "root_125527 ^ 7845 mod 52435875175126190479447740508185965837690552500527637822603658699938581184513 = 49093073213067700656848301818008360136042283084833543740433099051907565112345 mod 52435875175126190479447740508185965837690552500527637822603658699938581184513"
  by (rule power_step [OF root_125527_7844 root_125527_1, of 7845 5554446275468037009089279424544127744992950736964515010106034903508155356190]) (simp_all only: literal_arith)

lemma root_125527_15690: "root_125527 ^ 15690 mod 52435875175126190479447740508185965837690552500527637822603658699938581184513 = 9175321355292118271168814561147066470875004289966488641741153217424453893242 mod 52435875175126190479447740508185965837690552500527637822603658699938581184513"
  by (rule power_step [OF root_125527_7845 root_125527_7845, of 15690 45963375827222002107887474473056552665848127546566689817998726152902652812791]) (simp_all only: literal_arith)

lemma root_125527_31380: "root_125527 ^ 31380 mod 52435875175126190479447740508185965837690552500527637822603658699938581184513 = 16673965604873945384071710564402128132557999795764209290323566838037972647760 mod 52435875175126190479447740508185965837690552500527637822603658699938581184513"
  by (rule power_step [OF root_125527_15690 root_125527_15690, of 31380 1605513814572791546629244028314880057635321456737012397120383250541934045908]) (simp_all only: literal_arith)

lemma root_125527_31381: "root_125527 ^ 31381 mod 52435875175126190479447740508185965837690552500527637822603658699938581184513 = 40964657489470830496943113002194528705593662996683644561552875913177181840975 mod 52435875175126190479447740508185965837690552500527637822603658699938581184513"
  by (rule power_step [OF root_125527_31380 root_125527_1, of 31381 9355620407015899858378053888639351332250267383483347658609472130325942332225]) (simp_all only: literal_arith)

lemma root_125527_62762: "root_125527 ^ 62762 mod 52435875175126190479447740508185965837690552500527637822603658699938581184513 = 39464653368615631369147088979368982626354091456284023479128683049186308301658 mod 52435875175126190479447740508185965837690552500527637822603658699938581184513"
  by (rule power_step [OF root_125527_31381 root_125527_31381, of 62762 32002958997539419565278122057398407878400968212191264765809826612042424477959]) (simp_all only: literal_arith)

lemma root_125527_62763: "root_125527 ^ 62763 mod 52435875175126190479447740508185965837690552500527637822603658699938581184513 = 20462247171358351230091477662288037730878730330397749542478159801172633995858 mod 52435875175126190479447740508185965837690552500527637822603658699938581184513"
  by (rule power_step [OF root_125527_62762 root_125527_1, of 62763 22143281638010817969307741602731835941532302849326554900164400478956208171024]) (simp_all only: literal_arith)

lemma root_125527_125526: "root_125527 ^ 125526 mod 52435875175126190479447740508185965837690552500527637822603658699938581184513 = 34420662749052850014992897557373065735018953330971116722134263828865663588958 mod 52435875175126190479447740508185965837690552500527637822603658699938581184513"
  by (rule power_step [OF root_125527_62763 root_125527_62763, of 125526 7985059044087084939176167141685386042747458902817736465669249773925254309862]) (simp_all only: literal_arith)

lemma root_125527_125527: "root_125527 ^ 125527 mod 52435875175126190479447740508185965837690552500527637822603658699938581184513 = 1 mod 52435875175126190479447740508185965837690552500527637822603658699938581184513"
  by (rule power_step [OF root_125527_125526 root_125527_1, of 125527 19313141364758462196784044002872218919815007284615224768309051991994056601013]) (simp_all only: literal_arith)

lemma root_125527_unit: "29421323965352974178181925065855906521660604320251774658637287992326054649364 * 9767062385748158152053966478107944622141611482111961345414251862829956124370 = 5480215705014564576020804467322189945917252553523205933199300105321767879783 * 52435875175126190479447740508185965837690552500527637822603658699938581184513 + (1::int)"
  by (simp only: literal_arith)

end
