(* ===== verification/Curve_Order.thy ===== *)
theory Curve_Order
  imports Curve_Order_Powers
begin

text \<open>
  \<open>CURVE_ORDER\<close> is prime. The argument is a partial-factorisation certificate that needs no
  theory of primes: modulo any divisor \<open>d > 1\<close> of \<open>CURVE_ORDER\<close> the product of the elements of
  \<^verbatim>\<open>Curve_Order_Powers\<close> has multiplicative order \<open>F\<close>, so \<open>d\<close> has at least \<open>F\<close> residues; as
  \<open>F * F\<close> exceeds \<open>CURVE_ORDER\<close>, there is no room for two such divisors. Every integer that is
  not a multiple of \<open>CURVE_ORDER\<close> is therefore invertible, which Lagrange interpolation and the
  soundness of the sigma proofs rest on.
\<close>

section \<open>The subgroup order\<close>

lemma CURVE_ORDER_lt: "CURVE_ORDER < 256 ^ 32"
  by (simp add: CURVE_ORDER_def)

lemma CURVE_ORDER_gt: "2 ^ 254 < CURVE_ORDER"
  by (simp add: CURVE_ORDER_def)

lemma CURVE_ORDER_bounds [simp]: "0 < CURVE_ORDER" "1 < CURVE_ORDER" "2 < CURVE_ORDER" "CURVE_ORDER \<noteq> 0"
  by (simp_all add: CURVE_ORDER_def)

section \<open>Multiplicative orders\<close>

definition has_order :: "int \<Rightarrow> int \<Rightarrow> nat \<Rightarrow> bool" where
  "has_order d g n \<longleftrightarrow> (\<forall>k. d dvd g ^ k - 1 \<longleftrightarrow> n dvd k)"

definition is_prime :: "nat \<Rightarrow> bool" where
  "is_prime p \<longleftrightarrow> 1 < p \<and> (\<forall>m. m dvd p \<longrightarrow> m = 1 \<or> m = p)"

lemma period_iff: "d dvd g ^ k - 1 \<longleftrightarrow> g ^ k mod d = 1 mod (d::int)"
  by (simp add: mod_eq_dvd_iff)

lemma period_mult: "d dvd g ^ n - 1 \<Longrightarrow> d dvd (g::int) ^ (n * k) - 1"
  by (metis period_iff power_mod power_mult power_one)

lemma period_mod:
  assumes "d dvd (g::int) ^ n - 1" and "d dvd g ^ m - 1"
  shows "d dvd g ^ (m mod n) - 1"
proof -
  have "g ^ m = g ^ (n * (m div n)) * g ^ (m mod n)"
    by (simp add: power_add [symmetric])
  then have "g ^ m mod d = (g ^ (n * (m div n)) mod d) * g ^ (m mod n) mod d"
    by (simp add: mod_mult_left_eq)
  also have "\<dots> = g ^ (m mod n) mod d"
    using period_mult [OF assms(1), of "m div n"] by (simp add: period_iff mod_mult_left_eq)
  finally show ?thesis
    using assms(2) by (simp add: period_iff)
qed

lemma period_gcd: "d dvd (g::int) ^ m - 1 \<Longrightarrow> d dvd g ^ n - 1 \<Longrightarrow> d dvd g ^ gcd m n - 1"
proof (induction m n rule: gcd_nat_induct)
  case (base m)
  then show ?case by simp
next
  case (step m n)
  from step.prems have "d dvd g ^ (m mod n) - 1" by (blast intro: period_mod)
  with step show ?case by (simp add: gcd_red_nat [of m n])
qed

lemma dvd_prime_power:
  assumes p: "is_prime p" and x: "x dvd p ^ Suc e" "x \<noteq> p ^ Suc e"
  shows "x dvd p ^ e"
proof -
  from x(1) obtain y where y: "p ^ Suc e = x * y" by blast
  have "gcd p y = 1 \<or> gcd p y = p"
    using p by (simp add: is_prime_def)
  moreover have "gcd p y \<noteq> 1"
  proof
    assume "gcd p y = 1"
    then have "coprime p y" by (simp add: coprime_iff_gcd_eq_1)
    then have "coprime (p ^ Suc e) y" by (simp del: power_Suc)
    moreover have "y dvd p ^ Suc e" using y by simp
    ultimately have "y = 1"
      by (metis coprime_common_divisor_nat dvd_refl)
    with x(2) y show False by simp
  qed
  ultimately have "p dvd y" by (metis gcd_dvd2)
  then obtain z where "y = p * z" by blast
  with y have "p * p ^ e = p * (x * z)" by (metis mult.left_commute power_Suc)
  moreover have "p \<noteq> 0" using p by (auto simp: is_prime_def)
  ultimately have "p ^ e = x * z" by simp
  then show ?thesis by simp
qed

lemma prime_power_order:
  assumes p: "is_prime p" and one: "d dvd g ^ (p ^ Suc e) - 1" and ne: "\<not> d dvd g ^ (p ^ e) - 1"
  shows "has_order d g (p ^ Suc e)"
  unfolding has_order_def
proof (intro allI iffI)
  fix k
  assume k: "d dvd g ^ k - 1"
  let ?x = "gcd k (p ^ Suc e)"
  have per: "d dvd g ^ ?x - 1" using k one by (rule period_gcd)
  have "?x = p ^ Suc e"
  proof (rule ccontr)
    assume "?x \<noteq> p ^ Suc e"
    then have "?x dvd p ^ e" using dvd_prime_power [OF p gcd_dvd2] by blast
    then have "d dvd g ^ (p ^ e) - 1" using period_mult [OF per] by (metis dvd_def)
    with ne show False by contradiction
  qed
  then show "p ^ Suc e dvd k" by (metis gcd_dvd1)
next
  fix k
  assume "p ^ Suc e dvd k"
  then show "d dvd g ^ k - 1" using period_mult [OF one] by (metis dvd_def)
qed

lemma order_dvd_right:
  assumes g: "has_order d g n" and h: "has_order d h m" and "coprime n m"
    and k: "d dvd (g * h) ^ k - 1"
  shows "n dvd k"
proof -
  have "(h ^ (m * k)) mod d = 1 mod d"
    using h by (simp add: has_order_def period_iff)
  moreover have "((g * h) ^ (k * m)) mod d = 1 mod d"
    using period_mult [OF k, of m] by (simp add: period_iff)
  moreover have "(g * h) ^ (k * m) = g ^ (m * k) * h ^ (m * k)"
    by (simp add: power_mult_distrib mult.commute)
  ultimately have "g ^ (m * k) mod d = 1 mod d"
    by (metis mod_mult_right_eq mult.right_neutral)
  then have "n dvd m * k"
    using g by (simp add: has_order_def period_iff)
  then show ?thesis
    using assms(3) coprime_dvd_mult_right_iff by blast
qed

lemma order_mult:
  assumes g: "has_order d g n" and h: "has_order d h m" and co: "coprime n m"
  shows "has_order d (g * h) (n * m)"
  unfolding has_order_def
proof (intro allI iffI)
  fix k
  assume k: "d dvd (g * h) ^ k - 1"
  have "n dvd k" using order_dvd_right [OF g h co k] .
  moreover have "m dvd k"
    using order_dvd_right [OF h g] co k by (simp add: mult.commute coprime_commute)
  ultimately show "n * m dvd k" using co by (simp add: divides_mult)
next
  fix k
  assume "n * m dvd k"
  then have "n dvd k" "m dvd k" by (auto elim: dvd_mult_left dvd_mult_right)
  then have "g ^ k mod d = 1 mod d" "h ^ k mod d = 1 mod d"
    using g h by (simp_all add: has_order_def period_iff)
  then have "(g ^ k * h ^ k) mod d = 1 mod d"
    by (metis mod_mult_eq mult.right_neutral)
  then show "d dvd (g * h) ^ k - 1" by (metis period_iff power_mult_distrib)
qed

lemma order_le:
  assumes g: "has_order d g n" and d: "1 < d" and n: "0 < n"
  shows "int n \<le> d"
proof -
  have inj: "inj_on (\<lambda>i. g ^ i mod d) {0..<n}"
  proof (rule linorder_inj_onI)
    fix i j :: nat
    assume ij: "i < j" "i \<in> {0..<n}" "j \<in> {0..<n}"
    show "g ^ i mod d \<noteq> g ^ j mod d"
    proof
      assume "g ^ i mod d = g ^ j mod d"
      then have "g ^ (n - i) * g ^ i mod d = g ^ (n - i) * g ^ j mod d"
        by (metis mod_mult_right_eq)
      then have "g ^ n mod d = g ^ (n - i + j) mod d"
        using ij by (simp add: power_add [symmetric])
      moreover have "g ^ n mod d = 1 mod d"
        using g by (metis has_order_def dvd_refl period_iff)
      ultimately have "n dvd n - i + j"
        using g by (metis has_order_def period_iff)
      then have "n dvd j - i"
        using ij by (metis Nat.add_diff_assoc2 Nat.diff_add_assoc2 atLeastLessThan_iff dvd_add_triv_left_iff
            less_imp_le_nat add.commute)
      with ij show False by (auto dest: dvd_imp_le)
    qed
  qed auto
  have "(\<lambda>i. g ^ i mod d) ` {0..<n} \<subseteq> {0..<d}"
    using d by auto
  with inj have "card {0..<n} \<le> card {0..<d}"
    by (meson card_inj_on_le finite_atLeastLessThan_int)
  then show ?thesis using d by simp
qed

section \<open>The certificate\<close>

text \<open>One row of the certificate, transported to a divisor of the modulus.\<close>

lemma certified_order:
  fixes q g x u :: int
  assumes full: "g ^ n mod q = 1 mod q" and part: "g ^ m mod q = y mod q"
    and unit: "x * u = k * q + 1" and y: "y = x + 1" and d: "d dvd q" "1 < d"
    and p: "is_prime p" "n = p ^ Suc e" "m = p ^ e"
  shows "has_order d g n"
  unfolding p(2)
proof (rule prime_power_order [OF p(1)])
  have "q dvd g ^ n - 1" using full by (simp add: period_iff)
  then show "d dvd g ^ p ^ Suc e - 1" using d(1) dvd_trans p(2) by blast
  show "\<not> d dvd g ^ p ^ e - 1"
  proof
    assume "d dvd g ^ p ^ e - 1"
    moreover have "d dvd g ^ m - (x + 1)"
      using part d(1) unfolding y by (meson dvd_trans mod_eq_dvd_iff)
    ultimately have "d dvd (g ^ m - 1) - (g ^ m - (x + 1))"
      using dvd_diff p(3) by blast
    then have "d dvd x * u" by simp
    then have "d dvd k * q + 1" by (simp add: unit)
    moreover have "d dvd k * q" using d(1) by simp
    ultimately have "d dvd 1" using dvd_add_right_iff by blast
    with d(2) show False by simp
  qed
qed

text \<open>Trial division by the odd numbers from \<open>m\<close> up to \<open>s\<close>.\<close>

function trial :: "int \<Rightarrow> int \<Rightarrow> int \<Rightarrow> bool" where
  "trial p m s = (if s \<le> m then True else p mod m \<noteq> 0 \<and> trial p (m + 2) s)"
  by pat_completeness auto
termination
  by (relation "measure (\<lambda>(p, m, s). nat (s - m))") auto

declare trial.simps [simp del]

lemma trial_no_divisor:
  "trial p m s \<Longrightarrow> odd m \<Longrightarrow> m \<le> x \<Longrightarrow> x < s \<Longrightarrow> odd x \<Longrightarrow> \<not> x dvd p"
proof (induction p m s rule: trial.induct)
  case (1 p m s)
  then have t: "p mod m \<noteq> 0" "trial p (m + 2) s" "\<not> s \<le> m"
    by (auto simp: trial.simps [of p m s] split: if_splits)
  show ?case
  proof (cases "x = m")
    case True
    with t(1) show ?thesis by (simp add: dvd_eq_mod_eq_0)
  next
    case False
    with "1.prems" have "m + 2 \<le> x" by presburger
    with "1.IH" t "1.prems" show ?thesis by simp
  qed
qed

lemma is_prime_trial:
  assumes "1 < p" and "odd p" and "int p < s * s" and "0 < s" and "trial (int p) 3 s"
  shows "is_prime p"
  unfolding is_prime_def
proof (intro conjI allI impI)
  fix m
  assume "m dvd p"
  then obtain k where k: "p = m * k" by blast
  have no: "s \<le> int x" if "x \<noteq> 1" "x dvd p" for x
  proof (rule ccontr)
    assume "\<not> s \<le> int x"
    moreover have "odd x" using assms(2) that(2) dvd_trans by blast
    moreover from this that(1) have "3 \<le> int x" by presburger
    ultimately have "\<not> int x dvd int p"
      using trial_no_divisor [OF assms(5), of "int x"] by auto
    with that(2) show False by simp
  qed
  show "m = 1 \<or> m = p"
  proof (rule ccontr)
    assume "\<not> (m = 1 \<or> m = p)"
    with k have "s \<le> int m" "s \<le> int k" by (auto intro!: no)
    then have "s * s \<le> int m * int k" using assms(4) by (intro mult_mono) auto
    with assms(3) k show False by simp
  qed
qed (rule assms(1))

lemma is_prime_2: "is_prime 2"
  unfolding is_prime_def
proof (intro conjI allI impI)
  fix m :: nat
  assume "m dvd 2"
  then have "m \<le> 2" "m \<noteq> 0" by (auto dest: dvd_imp_le intro: Nat.gr0I)
  then show "m = 1 \<or> m = 2" by auto
qed simp

lemma certificate_primes: "is_prime 2" "is_prime 906349" "is_prime 2508409" "is_prime 2529403" "is_prime 125527"
proof -
  show "is_prime 2" by (rule is_prime_2)
  show "is_prime 906349"
    by (rule is_prime_trial [of _ 953]) (simp, simp, simp, simp, simp only: of_nat_numeral, code_simp)
  show "is_prime 2508409"
    by (rule is_prime_trial [of _ 1585]) (simp, simp, simp, simp, simp only: of_nat_numeral, code_simp)
  show "is_prime 2529403"
    by (rule is_prime_trial [of _ 1591]) (simp, simp, simp, simp, simp only: of_nat_numeral, code_simp)
  show "is_prime 125527"
    by (rule is_prime_trial [of _ 355]) (simp, simp, simp, simp, simp only: of_nat_numeral, code_simp)
qed

lemma certificate_orders:
  assumes "d dvd CURVE_ORDER" and "1 < d"
  shows "has_order d root_2 4294967296"
    and "has_order d root_906349 821468509801"
    and "has_order d root_2508409 2508409"
    and "has_order d root_2529403 2529403"
    and "has_order d root_125527 125527"
proof -
  note c = certified_order [where d = d and q = CURVE_ORDER, OF _ _ _ _ assms, unfolded CURVE_ORDER_def]
  show "has_order d root_2 4294967296"
    by (rule c [OF root_2_4294967296 root_2_2147483648 root_2_unit _ certificate_primes(1), where e = 31]) simp_all
  show "has_order d root_906349 821468509801"
    by (rule c [OF root_906349_821468509801 root_906349_906349 root_906349_unit _ certificate_primes(2), where e = 1]) simp_all
  show "has_order d root_2508409 2508409"
    by (rule c [OF root_2508409_2508409 root_2508409_1 root_2508409_unit _ certificate_primes(3), where e = 0]) simp_all
  show "has_order d root_2529403 2529403"
    by (rule c [OF root_2529403_2529403 root_2529403_1 root_2529403_unit _ certificate_primes(4), where e = 0]) simp_all
  show "has_order d root_125527 125527"
    by (rule c [OF root_125527_125527 root_125527_1 root_125527_unit _ certificate_primes(5), where e = 0]) simp_all
qed

text \<open>The order of the product of the five elements.\<close>

definition certificate_order :: nat where
  "certificate_order = 2809986997761381494688544886291729219584"

lemma certificate_order_le:
  assumes "d dvd CURVE_ORDER" and "1 < d"
  shows "int certificate_order \<le> d"
proof -
  note o = certificate_orders [OF assms]
  have "has_order d (((root_2 * root_906349) * root_2508409) * root_2529403 * root_125527)
      (((4294967296 * 821468509801) * 2508409) * 2529403 * 125527)"
    by (intro order_mult o) (simp_all add: coprime_iff_gcd_eq_1 gcd_non_0_nat)
  then have "has_order d (((root_2 * root_906349) * root_2508409) * root_2529403 * root_125527) certificate_order"
    by (simp add: certificate_order_def)
  then show ?thesis
    by (rule order_le [OF _ assms(2)]) (simp add: certificate_order_def)
qed

lemma CURVE_ORDER_prime:
  assumes "d dvd CURVE_ORDER" and "1 < d"
  shows "d = CURVE_ORDER"
proof -
  from assms(1) obtain f where f: "CURVE_ORDER = d * f" by blast
  have "0 < d * f" using CURVE_ORDER_bounds(1) f by simp
  with assms(2) have "0 < f" by (simp add: zero_less_mult_iff)
  have "f = 1"
  proof (rule ccontr)
    assume "f \<noteq> 1"
    with \<open>0 < f\<close> have "1 < f" by simp
    have fd: "f dvd CURVE_ORDER" unfolding f by simp
    have le: "int certificate_order \<le> d" "int certificate_order \<le> f"
      using certificate_order_le [OF assms] certificate_order_le [OF fd \<open>1 < f\<close>] by simp_all
    have "int certificate_order * int certificate_order \<le> d * f"
      by (rule mult_mono [OF le]) (use assms(2) in simp_all)
    moreover have "CURVE_ORDER < int certificate_order * int certificate_order"
      by (simp add: CURVE_ORDER_def certificate_order_def)
    ultimately show False using f by simp
  qed
  with f show ?thesis by simp
qed

lemma coprime_CURVE_ORDER: "x mod CURVE_ORDER \<noteq> 0 \<Longrightarrow> coprime x CURVE_ORDER"
proof (rule ccontr)
  assume x: "x mod CURVE_ORDER \<noteq> 0" and "\<not> coprime x CURVE_ORDER"
  then have "gcd x CURVE_ORDER \<noteq> 1" by (simp add: coprime_iff_gcd_eq_1)
  moreover have "0 < gcd x CURVE_ORDER" by simp
  ultimately have "1 < gcd x CURVE_ORDER" by linarith
  then have "gcd x CURVE_ORDER = CURVE_ORDER" by (simp add: CURVE_ORDER_prime)
  then have "CURVE_ORDER dvd x" by (metis gcd_dvd1)
  with x show False by (simp add: dvd_eq_mod_eq_0)
qed

section \<open>Modular inverses\<close>

text \<open>\<open>pow(a, -1, q)\<close>: Python raises \<open>ValueError\<close> when \<open>a\<close> is not invertible.\<close>

definition pow_inv :: "int \<Rightarrow> int \<Rightarrow> int result" where
  "pow_inv a q =
     (if gcd (nat (a mod q)) (nat q) = 1
      then Inr (fst (bezw (nat (a mod q)) (nat q)) mod q) else Inl ValueError)"

lemma pow_inv_correct: "0 < q \<Longrightarrow> pow_inv a q = Inr i \<Longrightarrow> a * i mod q = 1 mod q"
proof -
  assume q: "0 < q" and inv: "pow_inv a q = Inr i"
  let ?b = "bezw (nat (a mod q)) (nat q)"
  from inv have g: "gcd (nat (a mod q)) (nat q) = 1" and i: "i = fst ?b mod q"
    by (auto simp: pow_inv_def split: if_splits)
  have "fst ?b * (a mod q) + snd ?b * q = 1"
    using bezw_aux [of "nat (a mod q)" "nat q"] g q by simp
  then have "(fst ?b * (a mod q)) mod q = 1 mod q"
    by (metis mod_mult_self1)
  then show ?thesis
    by (metis i mod_mult_left_eq mod_mult_right_eq mult.commute)
qed

lemma pow_inv_coprime: "0 < q \<Longrightarrow> coprime a q \<Longrightarrow> \<exists>i. pow_inv a q = Inr i"
proof -
  assume q: "0 < q" and "coprime a q"
  then have "gcd (a mod q) q = 1"
    by (metis coprime_iff_gcd_eq_1 gcd.commute gcd_red_int)
  then have "int (gcd (nat (a mod q)) (nat q)) = 1"
    using q by (simp add: gcd_int_int_eq [symmetric])
  then show ?thesis by (simp add: pow_inv_def)
qed

lemma CURVE_ORDER_inverse:
  "x mod CURVE_ORDER \<noteq> 0 \<Longrightarrow> \<exists>i. pow_inv x CURVE_ORDER = Inr i \<and> x * i mod CURVE_ORDER = 1"
  using pow_inv_coprime [of CURVE_ORDER x] pow_inv_correct [of CURVE_ORDER x] coprime_CURVE_ORDER
  by force

lemma CURVE_ORDER_no_zero_divisors:
  "a * b mod CURVE_ORDER = 0 \<Longrightarrow> a mod CURVE_ORDER = 0 \<or> b mod CURVE_ORDER = 0"
  by (metis coprime_CURVE_ORDER coprime_commute coprime_dvd_mult_right_iff mod_0_imp_dvd mod_eq_0_iff_dvd)

end
