(* ===== verification/Params.thy ===== *)
theory Params
  imports Curve_Order
begin

text \<open>
  \<^verbatim>\<open>crypto/params.py\<close>: the fixed sizes, labels and tags of the protocol, and the scalar
  codec. Scalars travel as 32 big-endian bytes; encoding reduces modulo \<open>CURVE_ORDER\<close>,
  decoding accepts the canonical representative only.
\<close>

definition G1_BYTES :: nat where "G1_BYTES = 48"
definition G2_BYTES :: nat where "G2_BYTES = 96"
definition SCALAR_BYTES :: nat where "SCALAR_BYTES = 32"
definition SCHNORR_BYTES :: nat where "SCHNORR_BYTES = 80"
definition DLEQ_BYTES :: nat where "DLEQ_BYTES = 64"

lemmas size_defs = G1_BYTES_def G2_BYTES_def SCALAR_BYTES_def SCHNORR_BYTES_def DLEQ_BYTES_def

definition DST_FIAT_SHAMIR :: bytes where "DST_FIAT_SHAMIR = encode_utf8 ''SHUTTER-VOTE-FS-v1''"
definition DST_SCHNORR :: bytes where "DST_SCHNORR = encode_utf8 ''SHUTTER-VOTE-SCHNORR-v1''"

definition BALLOT_MESSAGE_LABEL :: string where
  "BALLOT_MESSAGE_LABEL = ''SHUTTER-VOTE-BALLOT-v2''"
definition BALLOT_PROOF_TRANSCRIPT_LABEL :: string where
  "BALLOT_PROOF_TRANSCRIPT_LABEL = ''SHUTTER-VOTE-BALLOT-PROOF-v1''"
definition ONCHAIN_DECRYPT_LABEL :: string where
  "ONCHAIN_DECRYPT_LABEL = ''SHUTTER-VOTE-DECRYPT-v1''"
definition ATTESTATION_LABEL :: string where
  "ATTESTATION_LABEL = ''SHUTTER-VOTE-ATTEST-v1''"

definition BVP_VERSION :: byte where "BVP_VERSION = 0x01"
definition VARIANT_A_BYTE :: byte where "VARIANT_A_BYTE = 0x41"
definition BUDGET_EXACT_TAG :: byte where "BUDGET_EXACT_TAG = 0x00"

section \<open>Encoding helpers\<close>

definition u16be :: "int \<Rightarrow> bytes result" where
  "u16be n = int_to_bytes n 2"

definition u32be :: "int \<Rightarrow> bytes result" where
  "u32be n = int_to_bytes n 4"

definition scalar_to_bytes :: "int \<Rightarrow> bytes" where
  "scalar_to_bytes s = be SCALAR_BYTES (s mod CURVE_ORDER)"

text \<open>
  The source computes \<open>(int(s) % CURVE_ORDER).to_bytes(32, "big")\<close>. The conversion cannot
  raise, because the order is below \<open>256 ^ 32\<close>.
\<close>

lemma scalar_to_bytes_source: "int_to_bytes (s mod CURVE_ORDER) SCALAR_BYTES = Inr (scalar_to_bytes s)"
proof -
  have "s mod CURVE_ORDER < CURVE_ORDER" by simp
  also note CURVE_ORDER_lt
  finally show ?thesis by (simp add: scalar_to_bytes_def SCALAR_BYTES_def)
qed

definition scalar_from_bytes :: "bytes \<Rightarrow> int result" where
  "scalar_from_bytes b =
     (if length b \<noteq> SCALAR_BYTES then Inl ValueError
      else if CURVE_ORDER \<le> int_from_bytes b then Inl ValueError
      else Inr (int_from_bytes b))"

definition wide_reduce :: "bytes \<Rightarrow> int" where
  "wide_reduce b = int_from_bytes b mod CURVE_ORDER"

lemma length_scalar_to_bytes [simp]: "length (scalar_to_bytes s) = 32"
  by (simp add: scalar_to_bytes_def SCALAR_BYTES_def)

lemma scalar_mod_bounds: "0 \<le> s mod CURVE_ORDER" "s mod CURVE_ORDER < 256 ^ 32"
proof -
  show "0 \<le> s mod CURVE_ORDER" by simp
  have "s mod CURVE_ORDER < CURVE_ORDER" by simp
  also note CURVE_ORDER_lt
  finally show "s mod CURVE_ORDER < 256 ^ 32" .
qed

lemma scalar_roundtrip: "scalar_from_bytes (scalar_to_bytes s) = Inr (s mod CURVE_ORDER)"
  using scalar_mod_bounds [of s]
  by (simp add: scalar_from_bytes_def scalar_to_bytes_def SCALAR_BYTES_def int_from_bytes_be
      not_le)

lemma scalar_canonical:
  "scalar_from_bytes b = Inr s \<Longrightarrow> scalar_to_bytes s = b \<and> 0 \<le> s \<and> s < CURVE_ORDER"
  by (auto simp: scalar_from_bytes_def scalar_to_bytes_def be_int_from_bytes split: if_splits)
    (metis be_int_from_bytes)

lemma scalar_to_bytes_inject:
  "scalar_to_bytes a = scalar_to_bytes b \<longleftrightarrow> a mod CURVE_ORDER = b mod CURVE_ORDER"
  by (metis scalar_roundtrip scalar_to_bytes_def sum.inject(2))

lemma scalar_from_bytes_range:
  "scalar_from_bytes b = Inr s \<Longrightarrow> 0 \<le> s \<and> s < CURVE_ORDER"
  by (simp add: scalar_canonical)

lemma wide_reduce_range [simp]: "0 \<le> wide_reduce b" "wide_reduce b < CURVE_ORDER"
  by (simp_all add: wide_reduce_def)

lemma u32be_Inr: "n < 2 ^ 32 \<Longrightarrow> u32be (int n) = Inr (be 4 (int n))"
  by (simp add: u32be_def)

lemma u16be_Inr: "0 \<le> n \<Longrightarrow> n < 65536 \<Longrightarrow> u16be n = Inr (be 2 n)"
  by (simp add: u16be_def)

section \<open>Properties\<close>

text \<open>
  The scalar codec is canonical. Encoding any integer and decoding it returns its residue,
  and a byte string that decodes at all is the unique encoding of a scalar below the group order.
\<close>

theorem scalar_codec_canonical:
  "scalar_from_bytes (scalar_to_bytes s) = Inr (s mod CURVE_ORDER) \<and>
   (scalar_from_bytes b = Inr x \<longleftrightarrow> 0 \<le> x \<and> x < CURVE_ORDER \<and> b = scalar_to_bytes x)"
  using scalar_roundtrip [of s] scalar_roundtrip [of x] scalar_canonical [of b x] by auto

end
