(* ===== verification/Types.thy ===== *)
theory Types
  imports Params
begin

text \<open>
  \<^verbatim>\<open>envelopes/types.py\<close>: the artifacts the parties exchange. Byte fields are raw byte
  strings; their lengths are enforced where artifacts are decoded, not by the types.
\<close>

definition BYTES32 :: nat where "BYTES32 = 32"

datatype ExclusionReason =
    INVALID_PROOF | INVALID_SIGNATURE | INVALID_ATTESTATION | DUPLICATE_PSEUDONYM | MALFORMED | OUT_OF_WINDOW

datatype AttestationScheme = ATTESTATION_V1

record Ciphertext =
  ct_c1 :: bytes
  ct_c2 :: bytes

record AttestationCredential =
  att_election_id :: bytes
  att_pseudonym :: bytes
  att_vk :: bytes
  att_weight :: int
  att_signature :: bytes
  att_scheme :: AttestationScheme
  att_nonce :: int

record BallotEnvelope =
  be_election_id :: bytes
  be_pseudonym :: bytes
  be_vk :: bytes
  be_ciphertexts :: "Ciphertext list"
  be_zk_proof :: bytes
  be_voter_signature :: bytes
  be_attestation :: AttestationCredential

record StoredBallot =
  sb_sequence_number :: int
  sb_envelope :: BallotEnvelope
  sb_submitted_at :: "int option"

record DKGResultSubmission =
  dkg_election_id :: bytes
  dkg_pk_election :: bytes
  dkg_committee_pks :: "bytes list"
  dkg_keyper_signature :: bytes

record DecryptionShareEntry =
  se_sigma :: bytes
  se_proof :: bytes

record DecryptionShareEnvelope =
  ds_election_id :: bytes
  ds_keyper_index :: int
  ds_entries :: "DecryptionShareEntry list"

record Exclusion =
  ex_sequence_number :: int
  ex_reason :: ExclusionReason

record AggregateArtifact =
  agg_election_id :: bytes
  agg_aggregates :: "Ciphertext list"
  agg_admitted :: "int list"
  agg_exclusions :: "Exclusion list"
  agg_total_admitted_weight :: int
  agg_total_scaled_weight :: int

record ResultArtifact =
  res_election_id :: bytes
  res_totals :: "int list"
  res_keyper_indices :: "int list"
  res_bsgs_bound :: int

text \<open>The pair \<open>(c1, c2)\<close> of a ciphertext, as the ballot functions take it.\<close>

definition ct_pair :: "Ciphertext \<Rightarrow> bytes \<times> bytes" where
  "ct_pair c = (ct_c1 c, ct_c2 c)"

lemma ct_pair_inject [simp]: "ct_pair c = ct_pair d \<longleftrightarrow> c = d"
  by (cases c; cases d) (simp add: ct_pair_def)

end
