(* ===== verification/Config.thy ===== *)
theory Config
  imports Types
begin

text \<open>
  \<^verbatim>\<open>core/config.py\<close> and \<^verbatim>\<open>core/state.py\<close>: the frozen election configuration with the checks its
  constructor makes, and the lifecycle state, a function of the configuration, the stored facts
  and the time.
\<close>

section \<open>Configuration\<close>

datatype Mode = EXACT | AT_MOST
datatype Variant = Variant_A | Variant_B
datatype DuplicatePolicy = FIRST_WINS | LAST_WINS

record Threshold =
  th_t :: int
  th_n :: int

definition Threshold_post_init :: "Threshold \<Rightarrow> unit result" where
  "Threshold_post_init th =
     (if th_n th < 1 then Inl ValueError
      else if \<not> (1 \<le> th_t th \<and> th_t th \<le> th_n th) then Inl ValueError
      else if th_t th * 2 \<le> th_n th then Inl ValueError
      else Inr ())"

definition th_quorum :: "Threshold \<Rightarrow> int" where
  "th_quorum th = th_t th"

definition polynomial_degree :: "Threshold \<Rightarrow> int" where
  "polynomial_degree th = th_t th - 1"

record KeyperIdentity =
  ki_signing_key :: bytes
  ki_url :: string

record ElectionConfig =
  cfg_election_id :: bytes
  cfg_num_candidates :: int
  cfg_budget :: int
  cfg_mode :: Mode
  cfg_variant :: Variant
  cfg_weighted :: bool
  cfg_duplicate_policy :: DuplicatePolicy
  cfg_voting_start :: int
  cfg_voting_end :: int
  cfg_threshold :: Threshold
  cfg_keypers :: "KeyperIdentity list"
  cfg_eligibility_key :: bytes
  cfg_result_publisher_key :: bytes
  cfg_gateway_keys :: "bytes list"
  cfg_admin_key :: bytes
  cfg_protocol_version :: string
  cfg_scale :: int
  cfg_self_submit_fee_wei :: int

definition MAX_NUM_CANDIDATES :: int where "MAX_NUM_CANDIDATES = 0xFFFF"
definition MAX_BUDGET :: int where "MAX_BUDGET = 0xFFFE"
definition MAX_PROOF_BRANCHES :: int where "MAX_PROOF_BRANCHES = 2500"

definition check_ballot_bounds :: "ElectionConfig \<Rightarrow> unit result" where
  "check_ballot_bounds c =
     (if cfg_num_candidates c > MAX_NUM_CANDIDATES then Inl ValueError
      else if cfg_budget c > MAX_BUDGET then Inl ValueError
      else
        let branches = cfg_num_candidates c * (cfg_budget c + 1) in
        if branches > MAX_PROOF_BRANCHES then Inl ValueError else Inr ())"

definition ElectionConfig_post_init :: "ElectionConfig \<Rightarrow> unit result" where
  "ElectionConfig_post_init c =
     (if cfg_num_candidates c < 1 then Inl ValueError
      else if cfg_self_submit_fee_wei c < 0 then Inl ValueError
      else if cfg_budget c < 1 then Inl ValueError
      else if cfg_scale c < 1 then Inl ValueError
      else
        ebind (check_ballot_bounds c) (\<lambda>_.
        if cfg_voting_end c \<le> cfg_voting_start c then Inl ValueError
        else if int (length (cfg_keypers c)) \<noteq> th_n (cfg_threshold c) then Inl ValueError
        else
          let keys = map ki_signing_key (cfg_keypers c) in
          if length (remdups keys) \<noteq> length keys then Inl ValueError else Inr ()))"

text \<open>A configuration object exists only if both constructors accepted it.\<close>

definition config_ok :: "ElectionConfig \<Rightarrow> bool" where
  "config_ok c \<longleftrightarrow> Threshold_post_init (cfg_threshold c) = Inr () \<and> ElectionConfig_post_init c = Inr ()"

lemma config_ok_facts:
  assumes "config_ok c"
  shows "1 \<le> cfg_num_candidates c" "cfg_num_candidates c \<le> 0xFFFF" "1 \<le> cfg_budget c" "cfg_budget c \<le> 0xFFFE"
    "cfg_num_candidates c * (cfg_budget c + 1) \<le> 2500" "1 \<le> cfg_scale c" "cfg_voting_start c < cfg_voting_end c"
    "int (length (cfg_keypers c)) = th_n (cfg_threshold c)" "distinct (map ki_signing_key (cfg_keypers c))"
    "1 \<le> th_t (cfg_threshold c)" "th_t (cfg_threshold c) \<le> th_n (cfg_threshold c)"
    "th_n (cfg_threshold c) < 2 * th_t (cfg_threshold c)"
  using assms
  by (auto simp: config_ok_def Threshold_post_init_def ElectionConfig_post_init_def check_ballot_bounds_def
      MAX_NUM_CANDIDATES_def MAX_BUDGET_def MAX_PROOF_BRANCHES_def Let_def length_remdups_eq
      split: if_splits)

section \<open>Derived state\<close>

datatype ElectionState =
    CANCELLED | COMPLETE | DKG_FAILED | REGISTERED | KEY_READY | VOTING | TALLYING | TALLY_STALLED

record StateFacts =
  sf_cancelled :: bool
  sf_key_finalized :: bool
  sf_result_published :: bool
  sf_tally_stalled :: bool

definition derive_state :: "ElectionConfig \<Rightarrow> StateFacts \<Rightarrow> int \<Rightarrow> ElectionState" where
  "derive_state config facts now =
     (if sf_cancelled facts then CANCELLED
      else if sf_result_published facts then COMPLETE
      else if cfg_voting_start config \<le> now \<and> \<not> sf_key_finalized facts then DKG_FAILED
      else if \<not> sf_key_finalized facts then REGISTERED
      else if now < cfg_voting_start config then KEY_READY
      else if now < cfg_voting_end config then VOTING
      else if sf_tally_stalled facts then TALLY_STALLED
      else TALLYING)"

definition is_voting_open :: "ElectionConfig \<Rightarrow> int \<Rightarrow> bool" where
  "is_voting_open config now \<longleftrightarrow> cfg_voting_start config \<le> now \<and> now < cfg_voting_end config"

lemma derive_state_voting:
  "derive_state c f now = VOTING \<longleftrightarrow>
     \<not> sf_cancelled f \<and> \<not> sf_result_published f \<and> sf_key_finalized f \<and> is_voting_open c now"
  by (auto simp: derive_state_def is_voting_open_def)

end
