(* ===== verification/Codecs.thy ===== *)
theory Codecs
  imports Json Config
begin

text \<open>
  \<^verbatim>\<open>envelopes/codecs.py\<close>: the JSON form of every artifact. Decoders check the shape of the JSON
  value, the hexadecimal text and the fixed byte sizes, and raise \<open>CodecError\<close>. The interface
  of a codec is the locale \<open>codec\<close>: what the encoder writes is read back, and what the decoder
  accepts is well formed.
\<close>

section \<open>Primitive helpers\<close>

definition enc_bytes :: "bytes \<Rightarrow> json" where
  "enc_bytes b = JStr (''0x'' @ tohex b)"

definition dec_bytes :: "json \<Rightarrow> nat option \<Rightarrow> bytes result" where
  "dec_bytes v sz =
     (case v of
        JStr s \<Rightarrow>
          if take 2 s \<noteq> ''0x'' then Inl CodecError
          else
            (case fromhex (drop 2 s) of
               Inl e \<Rightarrow> Inl CodecError
             | Inr raw \<Rightarrow>
                 (case sz of
                    Some k \<Rightarrow> if length raw \<noteq> k then Inl CodecError else Inr raw
                  | None \<Rightarrow> Inr raw))
      | _ \<Rightarrow> Inl CodecError)"

definition req :: "json \<Rightarrow> string \<Rightarrow> json result" where
  "req d key =
     (case d of
        JObj kvs \<Rightarrow> (case map_of kvs key of None \<Rightarrow> Inl CodecError | Some v \<Rightarrow> Inr v)
      | _ \<Rightarrow> Inl CodecError)"

text \<open>\<open>d.get(key, dflt)\<close> on a dictionary.\<close>

definition get_or :: "json \<Rightarrow> string \<Rightarrow> json \<Rightarrow> json" where
  "get_or d key dflt =
     (case d of JObj kvs \<Rightarrow> (case map_of kvs key of None \<Rightarrow> dflt | Some v \<Rightarrow> v) | _ \<Rightarrow> dflt)"

definition int_field :: "json \<Rightarrow> int option \<Rightarrow> int result" where
  "int_field v minimum =
     (case v of
        JInt n \<Rightarrow>
          (case minimum of
             Some lo \<Rightarrow> if n < lo then Inl CodecError else Inr n
           | None \<Rightarrow> Inr n)
      | _ \<Rightarrow> Inl CodecError)"

definition list_field :: "json \<Rightarrow> json list result" where
  "list_field v = (case v of JArr xs \<Rightarrow> Inr xs | _ \<Rightarrow> Inl CodecError)"

text \<open>The lookup \<open>cls(value)\<close> of a string enumeration, and \<open>_enum\<close>.\<close>

definition enum_of :: "(string \<times> 'e) list \<Rightarrow> json \<Rightarrow> 'e result" where
  "enum_of table v =
     (case v of JStr s \<Rightarrow> (case map_of table s of None \<Rightarrow> Inl CodecError | Some e \<Rightarrow> Inr e) | _ \<Rightarrow> Inl CodecError)"

lemma dec_enc_bytes [simp]:
  "dec_bytes (enc_bytes b) None = Inr b"
  "length b = k \<Longrightarrow> dec_bytes (enc_bytes b) (Some k) = Inr b"
  by (simp_all add: dec_bytes_def enc_bytes_def)

lemma enc_bytes_inject [simp]: "enc_bytes a = enc_bytes b \<longleftrightarrow> a = b"
  by (simp add: enc_bytes_def)

lemma dec_bytes_size: "dec_bytes v (Some k) = Inr b \<Longrightarrow> length b = k"
  by (auto simp: dec_bytes_def split: json.splits if_splits sum.splits)

lemma int_field_JInt [simp]:
  "int_field (JInt n) None = Inr n"
  "lo \<le> n \<Longrightarrow> int_field (JInt n) (Some lo) = Inr n"
  by (simp_all add: int_field_def)

lemma int_field_min: "int_field v (Some lo) = Inr n \<Longrightarrow> lo \<le> n"
  by (auto simp: int_field_def split: json.splits if_splits)

lemma list_field_JArr [simp]: "list_field (JArr xs) = Inr xs"
  by (simp add: list_field_def)

section \<open>Ciphertext and attestation\<close>

definition enc_ciphertext :: "Ciphertext \<Rightarrow> json" where
  "enc_ciphertext ct = JObj [(''c1'', enc_bytes (ct_c1 ct)), (''c2'', enc_bytes (ct_c2 ct))]"

definition dec_ciphertext :: "json \<Rightarrow> Ciphertext result" where
  "dec_ciphertext d =
     ebind (req d ''c1'') (\<lambda>v. ebind (dec_bytes v (Some G2_BYTES)) (\<lambda>c1.
     ebind (req d ''c2'') (\<lambda>v. ebind (dec_bytes v (Some G2_BYTES)) (\<lambda>c2.
     Inr \<lparr>ct_c1 = c1, ct_c2 = c2\<rparr>))))"

definition scheme_table :: "(string \<times> AttestationScheme) list" where
  "scheme_table = [(''ATTESTATION_V1'', ATTESTATION_V1)]"

definition scheme_value :: "AttestationScheme \<Rightarrow> json" where
  "scheme_value s = JStr (case s of ATTESTATION_V1 \<Rightarrow> ''ATTESTATION_V1'')"

definition enc_attestation :: "AttestationCredential \<Rightarrow> json" where
  "enc_attestation a =
     JObj [(''scheme'', scheme_value (att_scheme a)),
           (''electionId'', enc_bytes (att_election_id a)),
           (''pseudonym'', enc_bytes (att_pseudonym a)),
           (''vk'', enc_bytes (att_vk a)),
           (''weight'', JInt (att_weight a)),
           (''nonce'', JInt (att_nonce a)),
           (''signature'', enc_bytes (att_signature a))]"

definition dec_attestation :: "json \<Rightarrow> AttestationCredential result" where
  "dec_attestation d =
     (let scheme_raw = (case d of JObj kvs \<Rightarrow> get_or d ''scheme'' (scheme_value ATTESTATION_V1) | _ \<Rightarrow> JNull) in
      ebind (enum_of scheme_table scheme_raw) (\<lambda>scheme.
      ebind (case d of
               JObj kvs \<Rightarrow> (case map_of kvs ''nonce'' of Some v \<Rightarrow> int_field v (Some 1) | None \<Rightarrow> Inr 1)
             | _ \<Rightarrow> Inr 1) (\<lambda>nonce.
      ebind (req d ''electionId'') (\<lambda>v. ebind (dec_bytes v (Some BYTES32)) (\<lambda>eid.
      ebind (req d ''pseudonym'') (\<lambda>v. ebind (dec_bytes v (Some BYTES32)) (\<lambda>pseud.
      ebind (req d ''vk'') (\<lambda>v. ebind (dec_bytes v (Some G1_BYTES)) (\<lambda>vk.
      ebind (req d ''weight'') (\<lambda>v. ebind (int_field v (Some 1)) (\<lambda>weight.
      ebind (req d ''signature'') (\<lambda>v. ebind (dec_bytes v (Some SCHNORR_BYTES)) (\<lambda>sig.
      Inr \<lparr>att_election_id = eid, att_pseudonym = pseud, att_vk = vk, att_weight = weight,
           att_signature = sig, att_scheme = scheme, att_nonce = nonce\<rparr>)))))))))))))"

section \<open>Ballot\<close>

definition enc_ballot :: "BallotEnvelope \<Rightarrow> json" where
  "enc_ballot b =
     JObj [(''electionId'', enc_bytes (be_election_id b)),
           (''pseudonym'', enc_bytes (be_pseudonym b)),
           (''vk'', enc_bytes (be_vk b)),
           (''ciphertexts'', JArr (map enc_ciphertext (be_ciphertexts b))),
           (''zkProof'', enc_bytes (be_zk_proof b)),
           (''voterSignature'', enc_bytes (be_voter_signature b)),
           (''attestation'', enc_attestation (be_attestation b))]"

definition dec_ballot :: "json \<Rightarrow> BallotEnvelope result" where
  "dec_ballot d =
     ebind (req d ''ciphertexts'') (\<lambda>v. ebind (list_field v) (\<lambda>cts.
     ebind (req d ''electionId'') (\<lambda>v. ebind (dec_bytes v (Some BYTES32)) (\<lambda>eid.
     ebind (req d ''pseudonym'') (\<lambda>v. ebind (dec_bytes v (Some BYTES32)) (\<lambda>pseud.
     ebind (req d ''vk'') (\<lambda>v. ebind (dec_bytes v (Some G1_BYTES)) (\<lambda>vk.
     ebind (emap dec_ciphertext cts) (\<lambda>ciphertexts.
     ebind (req d ''zkProof'') (\<lambda>v. ebind (dec_bytes v None) (\<lambda>zk.
     ebind (req d ''voterSignature'') (\<lambda>v. ebind (dec_bytes v (Some SCHNORR_BYTES)) (\<lambda>sig.
     ebind (req d ''attestation'') (\<lambda>v. ebind (dec_attestation v) (\<lambda>att.
     Inr \<lparr>be_election_id = eid, be_pseudonym = pseud, be_vk = vk, be_ciphertexts = ciphertexts,
          be_zk_proof = zk, be_voter_signature = sig, be_attestation = att\<rparr>)))))))))))))))"

section \<open>DKG result and decryption share\<close>

definition enc_dkg_result :: "DKGResultSubmission \<Rightarrow> json" where
  "enc_dkg_result s =
     JObj [(''electionId'', enc_bytes (dkg_election_id s)),
           (''pkElection'', enc_bytes (dkg_pk_election s)),
           (''committeePKs'', JArr (map enc_bytes (dkg_committee_pks s))),
           (''keyperSignature'', enc_bytes (dkg_keyper_signature s))]"

definition dec_dkg_result :: "json \<Rightarrow> DKGResultSubmission result" where
  "dec_dkg_result d =
     ebind (req d ''committeePKs'') (\<lambda>v. ebind (list_field v) (\<lambda>pks.
     ebind (req d ''electionId'') (\<lambda>v. ebind (dec_bytes v (Some BYTES32)) (\<lambda>eid.
     ebind (req d ''pkElection'') (\<lambda>v. ebind (dec_bytes v (Some G2_BYTES)) (\<lambda>pk.
     ebind (emap (\<lambda>p. dec_bytes p (Some G2_BYTES)) pks) (\<lambda>committee.
     ebind (req d ''keyperSignature'') (\<lambda>v. ebind (dec_bytes v None) (\<lambda>sig.
     Inr \<lparr>dkg_election_id = eid, dkg_pk_election = pk, dkg_committee_pks = committee,
          dkg_keyper_signature = sig\<rparr>)))))))))"

definition enc_share_entry :: "DecryptionShareEntry \<Rightarrow> json" where
  "enc_share_entry e = JObj [(''sigma'', enc_bytes (se_sigma e)), (''proof'', enc_bytes (se_proof e))]"

definition dec_share_entry :: "json \<Rightarrow> DecryptionShareEntry result" where
  "dec_share_entry e =
     ebind (req e ''sigma'') (\<lambda>v. ebind (dec_bytes v (Some G2_BYTES)) (\<lambda>sigma.
     ebind (req e ''proof'') (\<lambda>v. ebind (dec_bytes v (Some DLEQ_BYTES)) (\<lambda>proof.
     Inr \<lparr>se_sigma = sigma, se_proof = proof\<rparr>))))"

definition enc_decryption_share :: "DecryptionShareEnvelope \<Rightarrow> json" where
  "enc_decryption_share s =
     JObj [(''electionId'', enc_bytes (ds_election_id s)),
           (''keyperIndex'', JInt (ds_keyper_index s)),
           (''entries'', JArr (map enc_share_entry (ds_entries s)))]"

definition dec_decryption_share :: "json \<Rightarrow> DecryptionShareEnvelope result" where
  "dec_decryption_share d =
     ebind (req d ''entries'') (\<lambda>v. ebind (list_field v) (\<lambda>entries.
     ebind (req d ''electionId'') (\<lambda>v. ebind (dec_bytes v (Some BYTES32)) (\<lambda>eid.
     ebind (req d ''keyperIndex'') (\<lambda>v. ebind (int_field v (Some 0)) (\<lambda>idx.
     ebind (emap dec_share_entry entries) (\<lambda>es.
     Inr \<lparr>ds_election_id = eid, ds_keyper_index = idx, ds_entries = es\<rparr>)))))))"

section \<open>Aggregate and result\<close>

definition reason_table :: "(string \<times> ExclusionReason) list" where
  "reason_table =
     [(''INVALID_PROOF'', INVALID_PROOF), (''INVALID_SIGNATURE'', INVALID_SIGNATURE),
      (''INVALID_ATTESTATION'', INVALID_ATTESTATION), (''DUPLICATE_PSEUDONYM'', DUPLICATE_PSEUDONYM),
      (''MALFORMED'', MALFORMED), (''OUT_OF_WINDOW'', OUT_OF_WINDOW)]"

definition reason_value :: "ExclusionReason \<Rightarrow> string" where
  "reason_value r =
     (case r of
        INVALID_PROOF \<Rightarrow> ''INVALID_PROOF'' | INVALID_SIGNATURE \<Rightarrow> ''INVALID_SIGNATURE''
      | INVALID_ATTESTATION \<Rightarrow> ''INVALID_ATTESTATION'' | DUPLICATE_PSEUDONYM \<Rightarrow> ''DUPLICATE_PSEUDONYM''
      | MALFORMED \<Rightarrow> ''MALFORMED'' | OUT_OF_WINDOW \<Rightarrow> ''OUT_OF_WINDOW'')"

definition enc_exclusion :: "Exclusion \<Rightarrow> json" where
  "enc_exclusion x =
     JObj [(''sequenceNumber'', JInt (ex_sequence_number x)), (''reason'', JStr (reason_value (ex_reason x)))]"

definition dec_exclusion :: "json \<Rightarrow> Exclusion result" where
  "dec_exclusion d =
     ebind (req d ''reason'') (\<lambda>reason_raw. ebind (enum_of reason_table reason_raw) (\<lambda>reason.
     ebind (req d ''sequenceNumber'') (\<lambda>v. ebind (int_field v (Some 0)) (\<lambda>seq.
     Inr \<lparr>ex_sequence_number = seq, ex_reason = reason\<rparr>))))"

definition enc_aggregate :: "AggregateArtifact \<Rightarrow> json" where
  "enc_aggregate a =
     JObj [(''electionId'', enc_bytes (agg_election_id a)),
           (''aggregates'', JArr (map enc_ciphertext (agg_aggregates a))),
           (''admitted'', JArr (map JInt (agg_admitted a))),
           (''exclusions'', JArr (map enc_exclusion (agg_exclusions a))),
           (''totalAdmittedWeight'', JInt (agg_total_admitted_weight a)),
           (''totalScaledWeight'', JInt (agg_total_scaled_weight a))]"

definition dec_aggregate :: "json \<Rightarrow> AggregateArtifact result" where
  "dec_aggregate d =
     ebind (req d ''aggregates'') (\<lambda>v. ebind (list_field v) (\<lambda>aggs.
     ebind (req d ''admitted'') (\<lambda>v. ebind (list_field v) (\<lambda>admitted.
     ebind (req d ''exclusions'') (\<lambda>v. ebind (list_field v) (\<lambda>exclusions.
     ebind (req d ''electionId'') (\<lambda>v. ebind (dec_bytes v (Some BYTES32)) (\<lambda>eid.
     ebind (emap dec_ciphertext aggs) (\<lambda>cts.
     ebind (emap (\<lambda>s. int_field s (Some 0)) admitted) (\<lambda>adm.
     ebind (emap dec_exclusion exclusions) (\<lambda>exs.
     ebind (req d ''totalAdmittedWeight'') (\<lambda>tw. ebind (int_field tw (Some 0)) (\<lambda>total_w.
     ebind (int_field (get_or d ''totalScaledWeight'' tw) (Some 0)) (\<lambda>scaled_w.
     Inr \<lparr>agg_election_id = eid, agg_aggregates = cts, agg_admitted = adm, agg_exclusions = exs,
          agg_total_admitted_weight = total_w, agg_total_scaled_weight = scaled_w\<rparr>))))))))))))))"

definition enc_result :: "ResultArtifact \<Rightarrow> json" where
  "enc_result r =
     JObj [(''electionId'', enc_bytes (res_election_id r)),
           (''totals'', JArr (map JInt (res_totals r))),
           (''keyperIndices'', JArr (map JInt (res_keyper_indices r))),
           (''bsgsBound'', JInt (res_bsgs_bound r))]"

definition dec_result :: "json \<Rightarrow> ResultArtifact result" where
  "dec_result d =
     ebind (req d ''totals'') (\<lambda>v. ebind (list_field v) (\<lambda>totals.
     ebind (req d ''keyperIndices'') (\<lambda>v. ebind (list_field v) (\<lambda>indices.
     ebind (req d ''electionId'') (\<lambda>v. ebind (dec_bytes v (Some BYTES32)) (\<lambda>eid.
     ebind (emap (\<lambda>t. int_field t (Some 0)) totals) (\<lambda>ts.
     ebind (emap (\<lambda>k. int_field k (Some 0)) indices) (\<lambda>ks.
     ebind (req d ''bsgsBound'') (\<lambda>v. ebind (int_field v (Some 0)) (\<lambda>bound.
     Inr \<lparr>res_election_id = eid, res_totals = ts, res_keyper_indices = ks, res_bsgs_bound = bound\<rparr>))))))))))"

section \<open>Election configuration\<close>

definition mode_value :: "Mode \<Rightarrow> string" where
  "mode_value m = (case m of EXACT \<Rightarrow> ''exact'' | AT_MOST \<Rightarrow> ''atMost'')"

definition mode_table :: "(string \<times> Mode) list" where
  "mode_table = [(''exact'', EXACT), (''atMost'', AT_MOST)]"

definition variant_value :: "Variant \<Rightarrow> string" where
  "variant_value v = (case v of Variant_A \<Rightarrow> ''A'' | Variant_B \<Rightarrow> ''B'')"

definition variant_table :: "(string \<times> Variant) list" where
  "variant_table = [(''A'', Variant_A), (''B'', Variant_B)]"

definition policy_value :: "DuplicatePolicy \<Rightarrow> string" where
  "policy_value p = (case p of FIRST_WINS \<Rightarrow> ''first-wins'' | LAST_WINS \<Rightarrow> ''last-wins'')"

definition policy_table :: "(string \<times> DuplicatePolicy) list" where
  "policy_table = [(''first-wins'', FIRST_WINS), (''last-wins'', LAST_WINS)]"

definition enc_keyper :: "KeyperIdentity \<Rightarrow> json" where
  "enc_keyper k = JObj [(''signingKey'', enc_bytes (ki_signing_key k)), (''url'', JStr (ki_url k))]"

definition enc_config :: "ElectionConfig \<Rightarrow> json" where
  "enc_config c =
     JObj [(''electionId'', enc_bytes (cfg_election_id c)),
           (''numCandidates'', JInt (cfg_num_candidates c)),
           (''budget'', JInt (cfg_budget c)),
           (''mode'', JStr (mode_value (cfg_mode c))),
           (''variant'', JStr (variant_value (cfg_variant c))),
           (''weighted'', JBool (cfg_weighted c)),
           (''scale'', JInt (cfg_scale c)),
           (''duplicatePolicy'', JStr (policy_value (cfg_duplicate_policy c))),
           (''votingStart'', JInt (cfg_voting_start c)),
           (''votingEnd'', JInt (cfg_voting_end c)),
           (''threshold'', JObj [(''t'', JInt (th_t (cfg_threshold c))), (''n'', JInt (th_n (cfg_threshold c)))]),
           (''keypers'', JArr (map enc_keyper (cfg_keypers c))),
           (''eligibilityKey'', enc_bytes (cfg_eligibility_key c)),
           (''resultPublisherKey'', enc_bytes (cfg_result_publisher_key c)),
           (''gatewayKeys'', JArr (map enc_bytes (cfg_gateway_keys c))),
           (''adminKey'', enc_bytes (cfg_admin_key c)),
           (''protocolVersion'', JStr (cfg_protocol_version c)),
           (''selfSubmitFee'', JStr (str_int (cfg_self_submit_fee_wei c)))]"

definition dec_keyper :: "(json \<Rightarrow> string) \<Rightarrow> json \<Rightarrow> KeyperIdentity result" where
  "dec_keyper repr k =
     ebind (req k ''signingKey'') (\<lambda>v. ebind (dec_bytes v None) (\<lambda>sk.
     ebind (req k ''url'') (\<lambda>u.
     Inr \<lparr>ki_signing_key = sk, ki_url = py_str repr u\<rparr>)))"

text \<open>\<open>except ValueError\<close>: a \<open>ValueError\<close> of a constructor or of \<open>int\<close> becomes a \<open>CodecError\<close>.\<close>

definition as_codec_error :: "'a result \<Rightarrow> 'a result" where
  "as_codec_error m = (case m of Inl ValueError \<Rightarrow> Inl CodecError | _ \<Rightarrow> m)"

text \<open>\<open>int(d.get("selfSubmitFee", 0) or 0)\<close>.\<close>

definition dec_fee :: "json \<Rightarrow> int result" where
  "dec_fee d = (let v = get_or d ''selfSubmitFee'' (JInt 0) in py_int (if truthy v then v else JInt 0))"

definition dec_config :: "(json \<Rightarrow> string) \<Rightarrow> json \<Rightarrow> ElectionConfig result" where
  "dec_config repr d =
     ebind (req d ''threshold'') (\<lambda>th. ebind (req d ''keypers'') (\<lambda>v. ebind (list_field v) (\<lambda>keypers.
     as_codec_error (
     ebind (req d ''electionId'') (\<lambda>v. ebind (dec_bytes v (Some BYTES32)) (\<lambda>eid.
     ebind (req d ''numCandidates'') (\<lambda>v. ebind (int_field v (Some 1)) (\<lambda>nc.
     ebind (req d ''budget'') (\<lambda>v. ebind (int_field v (Some 1)) (\<lambda>bu.
     ebind (req d ''mode'') (\<lambda>v. ebind (enum_of mode_table v) (\<lambda>mo.
     ebind (req d ''variant'') (\<lambda>v. ebind (enum_of variant_table v) (\<lambda>va.
     ebind (req d ''weighted'') (\<lambda>we.
     ebind (int_field (get_or d ''scale'' (JInt 1)) (Some 1)) (\<lambda>sc.
     ebind (req d ''duplicatePolicy'') (\<lambda>v. ebind (enum_of policy_table v) (\<lambda>po.
     ebind (req d ''votingStart'') (\<lambda>v. ebind (int_field v None) (\<lambda>vs.
     ebind (req d ''votingEnd'') (\<lambda>v. ebind (int_field v None) (\<lambda>ve.
     ebind (req th ''t'') (\<lambda>v. ebind (int_field v None) (\<lambda>t.
     ebind (req th ''n'') (\<lambda>v. ebind (int_field v None) (\<lambda>n.
     ebind (Threshold_post_init \<lparr>th_t = t, th_n = n\<rparr>) (\<lambda>_.
     ebind (emap (dec_keyper repr) keypers) (\<lambda>ks.
     ebind (req d ''eligibilityKey'') (\<lambda>v. ebind (dec_bytes v None) (\<lambda>ek.
     ebind (req d ''resultPublisherKey'') (\<lambda>v. ebind (dec_bytes v None) (\<lambda>rk.
     ebind (req d ''gatewayKeys'') (\<lambda>v. ebind (list_field v) (\<lambda>gs. ebind (emap (\<lambda>g. dec_bytes g None) gs) (\<lambda>gk.
     ebind (req d ''adminKey'') (\<lambda>v. ebind (dec_bytes v None) (\<lambda>ak.
     ebind (req d ''protocolVersion'') (\<lambda>pv.
     ebind (dec_fee d) (\<lambda>fee.
     let c = \<lparr>cfg_election_id = eid, cfg_num_candidates = nc, cfg_budget = bu, cfg_mode = mo, cfg_variant = va,
              cfg_weighted = truthy we, cfg_duplicate_policy = po, cfg_voting_start = vs, cfg_voting_end = ve,
              cfg_threshold = \<lparr>th_t = t, th_n = n\<rparr>, cfg_keypers = ks, cfg_eligibility_key = ek,
              cfg_result_publisher_key = rk, cfg_gateway_keys = gk, cfg_admin_key = ak,
              cfg_protocol_version = py_str repr pv, cfg_scale = sc, cfg_self_submit_fee_wei = fee\<rparr> in
     ebind (ElectionConfig_post_init c) (\<lambda>_. Inr c))))))))))))))))))))))))))))))))))))))))"

section \<open>Well-formed artifacts\<close>

definition ok_ciphertext :: "Ciphertext \<Rightarrow> bool" where
  "ok_ciphertext ct \<longleftrightarrow> length (ct_c1 ct) = 96 \<and> length (ct_c2 ct) = 96"

definition ok_attestation :: "AttestationCredential \<Rightarrow> bool" where
  "ok_attestation a \<longleftrightarrow> length (att_election_id a) = 32 \<and> length (att_pseudonym a) = 32 \<and> length (att_vk a) = 48 \<and>
     1 \<le> att_weight a \<and> length (att_signature a) = 80 \<and> 1 \<le> att_nonce a"

definition ok_ballot :: "BallotEnvelope \<Rightarrow> bool" where
  "ok_ballot b \<longleftrightarrow> length (be_election_id b) = 32 \<and> length (be_pseudonym b) = 32 \<and> length (be_vk b) = 48 \<and>
     list_all ok_ciphertext (be_ciphertexts b) \<and> length (be_voter_signature b) = 80 \<and> ok_attestation (be_attestation b)"

definition ok_dkg_result :: "DKGResultSubmission \<Rightarrow> bool" where
  "ok_dkg_result s \<longleftrightarrow> length (dkg_election_id s) = 32 \<and> length (dkg_pk_election s) = 96 \<and>
     list_all (\<lambda>p. length p = 96) (dkg_committee_pks s)"

definition ok_share_entry :: "DecryptionShareEntry \<Rightarrow> bool" where
  "ok_share_entry e \<longleftrightarrow> length (se_sigma e) = 96 \<and> length (se_proof e) = 64"

definition ok_decryption_share :: "DecryptionShareEnvelope \<Rightarrow> bool" where
  "ok_decryption_share s \<longleftrightarrow> length (ds_election_id s) = 32 \<and> 0 \<le> ds_keyper_index s \<and> list_all ok_share_entry (ds_entries s)"

definition ok_exclusion :: "Exclusion \<Rightarrow> bool" where
  "ok_exclusion x \<longleftrightarrow> 0 \<le> ex_sequence_number x"

definition ok_aggregate :: "AggregateArtifact \<Rightarrow> bool" where
  "ok_aggregate a \<longleftrightarrow> length (agg_election_id a) = 32 \<and> list_all ok_ciphertext (agg_aggregates a) \<and>
     list_all (\<lambda>s. 0 \<le> s) (agg_admitted a) \<and> list_all ok_exclusion (agg_exclusions a) \<and>
     0 \<le> agg_total_admitted_weight a \<and> 0 \<le> agg_total_scaled_weight a"

definition ok_result :: "ResultArtifact \<Rightarrow> bool" where
  "ok_result r \<longleftrightarrow> length (res_election_id r) = 32 \<and> list_all (\<lambda>t. 0 \<le> t) (res_totals r) \<and>
     list_all (\<lambda>k. 0 \<le> k) (res_keyper_indices r) \<and> 0 \<le> res_bsgs_bound r"

definition ok_config :: "ElectionConfig \<Rightarrow> bool" where
  "ok_config c \<longleftrightarrow> length (cfg_election_id c) = 32 \<and> config_ok c"

lemmas codec_sizes = size_defs BYTES32_def

section \<open>The interface of a codec\<close>

locale codec =
  fixes enc :: "'a \<Rightarrow> json" and dec :: "json \<Rightarrow> 'a result" and ok :: "'a \<Rightarrow> bool"
  assumes dec_enc: "ok x \<Longrightarrow> dec (enc x) = Inr x"
    and dec_ok: "dec j = Inr x \<Longrightarrow> ok x"
begin

lemma dec_enc_iff: "dec (enc x) = Inr x \<longleftrightarrow> ok x"
  by (blast intro: dec_enc dec_ok)

lemma enc_inject: "ok x \<Longrightarrow> ok y \<Longrightarrow> enc x = enc y \<longleftrightarrow> x = y"
  by (metis dec_enc sum.inject(2))

lemma dec_all: "list_all ok xs \<Longrightarrow> emap (\<lambda>x. dec (enc x)) xs = Inr xs"
  by (subst emap_Inr_all [where g = id]) (auto simp: dec_enc list_all_iff)

lemma emap_dec_ok: "emap dec js = Inr xs \<Longrightarrow> list_all ok xs"
  by (auto simp: emap_eq_Inr list_all2_conv_all_nth list_all_length dest: dec_ok)

lemma stored_equal: "ok x \<Longrightarrow> ok y \<Longrightarrow> dec (enc x) = Inr y \<longleftrightarrow> x = y"
  by (auto simp: dec_enc)

end

text \<open>Fixed-size byte fields and non-negative integers are the codecs the artifacts are built of.\<close>

interpretation bytes_codec: codec enc_bytes "\<lambda>j. dec_bytes j (Some k)" "\<lambda>b. length b = k" for k
  by unfold_locales (auto dest: dec_bytes_size)

interpretation int_codec: codec JInt "\<lambda>j. int_field j (Some lo)" "\<lambda>n. lo \<le> n" for lo
  by unfold_locales (auto dest: int_field_min)

lemma req_JObj [simp]: "req (JObj kvs) k = (case map_of kvs k of None \<Rightarrow> Inl CodecError | Some v \<Rightarrow> Inr v)"
  by (simp add: req_def)

lemma get_or_JObj [simp]: "get_or (JObj kvs) k v = (case map_of kvs k of None \<Rightarrow> v | Some w \<Rightarrow> w)"
  by (simp add: get_or_def)

lemma enum_roundtrip [simp]:
  "enum_of mode_table (JStr (mode_value m)) = Inr m"
  "enum_of variant_table (JStr (variant_value v)) = Inr v"
  "enum_of policy_table (JStr (policy_value p)) = Inr p"
  "enum_of reason_table (JStr (reason_value r)) = Inr r"
  "enum_of scheme_table (scheme_value s) = Inr s"
  by (simp_all add: enum_of_def mode_table_def mode_value_def variant_table_def variant_value_def
      policy_table_def policy_value_def reason_table_def reason_value_def scheme_table_def scheme_value_def
      split: Mode.split Variant.split DuplicatePolicy.split ExclusionReason.split AttestationScheme.split)

interpretation ciphertext_codec: codec enc_ciphertext dec_ciphertext ok_ciphertext
  by unfold_locales
    (auto simp: enc_ciphertext_def dec_ciphertext_def ok_ciphertext_def codec_sizes dest: dec_bytes_size)

interpretation attestation_codec: codec enc_attestation dec_attestation ok_attestation
proof
  fix x assume "ok_attestation x"
  then show "dec_attestation (enc_attestation x) = Inr x"
    by (simp add: enc_attestation_def dec_attestation_def ok_attestation_def codec_sizes)
next
  fix j x assume "dec_attestation j = Inr x"
  then show "ok_attestation x"
    by (auto simp: dec_attestation_def ok_attestation_def codec_sizes Let_def
        split: json.splits option.splits dest: dec_bytes_size int_field_min)
qed

interpretation ballot_codec: codec enc_ballot dec_ballot ok_ballot
  by unfold_locales
    (auto simp: enc_ballot_def dec_ballot_def ok_ballot_def codec_sizes comp_def ciphertext_codec.dec_all
      attestation_codec.dec_enc dest: dec_bytes_size ciphertext_codec.emap_dec_ok attestation_codec.dec_ok)

interpretation dkg_result_codec: codec enc_dkg_result dec_dkg_result ok_dkg_result
  by unfold_locales
    (auto simp: enc_dkg_result_def dec_dkg_result_def ok_dkg_result_def codec_sizes comp_def bytes_codec.dec_all
      dest: dec_bytes_size bytes_codec.emap_dec_ok)

interpretation share_entry_codec: codec enc_share_entry dec_share_entry ok_share_entry
  by unfold_locales
    (auto simp: enc_share_entry_def dec_share_entry_def ok_share_entry_def codec_sizes dest: dec_bytes_size)

interpretation decryption_share_codec: codec enc_decryption_share dec_decryption_share ok_decryption_share
  by unfold_locales
    (auto simp: enc_decryption_share_def dec_decryption_share_def ok_decryption_share_def codec_sizes comp_def
      share_entry_codec.dec_all dest: dec_bytes_size int_field_min share_entry_codec.emap_dec_ok)

interpretation exclusion_codec: codec enc_exclusion dec_exclusion ok_exclusion
  by unfold_locales (auto simp: enc_exclusion_def dec_exclusion_def ok_exclusion_def dest: int_field_min)

interpretation aggregate_codec: codec enc_aggregate dec_aggregate ok_aggregate
  by unfold_locales
    (auto simp: enc_aggregate_def dec_aggregate_def ok_aggregate_def codec_sizes comp_def
      ciphertext_codec.dec_all int_codec.dec_all exclusion_codec.dec_all
      dest: dec_bytes_size int_field_min ciphertext_codec.emap_dec_ok int_codec.emap_dec_ok exclusion_codec.emap_dec_ok)

interpretation result_codec: codec enc_result dec_result ok_result
  by unfold_locales
    (auto simp: enc_result_def dec_result_def ok_result_def codec_sizes comp_def int_codec.dec_all
      dest: dec_bytes_size int_field_min int_codec.emap_dec_ok)

lemma dec_keyper_enc [simp]: "dec_keyper repr (enc_keyper k) = Inr k"
  by (simp add: dec_keyper_def enc_keyper_def)

lemma dec_fee_str: "0 \<le> n \<Longrightarrow> d = JObj kvs \<Longrightarrow> map_of kvs ''selfSubmitFee'' = Some (JStr (str_int n)) \<Longrightarrow> dec_fee d = Inr n"
  by (auto simp: dec_fee_def Let_def str_int_def) (metis int_of_str_int not_less str_int_def)

lemma config_ok_fee: "config_ok c \<Longrightarrow> 0 \<le> cfg_self_submit_fee_wei c"
  by (auto simp: config_ok_def ElectionConfig_post_init_def split: if_splits)

lemma as_codec_error_Inr [simp]: "as_codec_error m = Inr x \<longleftrightarrow> m = Inr x"
  by (auto simp: as_codec_error_def split: sum.splits error.splits)

lemma dec_enc_config: "ok_config c \<Longrightarrow> dec_config repr (enc_config c) = Inr c"
proof -
  assume ok: "ok_config c"
  then have fee: "dec_fee (enc_config c) = Inr (cfg_self_submit_fee_wei c)"
    by (intro dec_fee_str) (auto simp: enc_config_def ok_config_def config_ok_fee)
  have k: "emap (dec_keyper repr \<circ> enc_keyper) (cfg_keypers c) = Inr (cfg_keypers c)"
    by (subst emap_Inr_all [where g = id]) auto
  have g: "emap ((\<lambda>g. dec_bytes g None) \<circ> enc_bytes) (cfg_gateway_keys c) = Inr (cfg_gateway_keys c)"
    by (subst emap_Inr_all [where g = id]) auto
  have th: "\<lparr>th_t = th_t (cfg_threshold c), th_n = th_n (cfg_threshold c)\<rparr> = cfg_threshold c"
    by simp
  from ok have "config_ok c" and e: "length (cfg_election_id c) = 32" by (auto simp: ok_config_def)
  then have b: "1 \<le> cfg_num_candidates c" "1 \<le> cfg_budget c" "1 \<le> cfg_scale c"
    and p: "Threshold_post_init (cfg_threshold c) = Inr ()" "ElectionConfig_post_init c = Inr ()"
    by (auto simp: config_ok_facts config_ok_def)
  have r: "\<lparr>cfg_election_id = cfg_election_id c, cfg_num_candidates = cfg_num_candidates c, cfg_budget = cfg_budget c,
      cfg_mode = cfg_mode c, cfg_variant = cfg_variant c, cfg_weighted = cfg_weighted c,
      cfg_duplicate_policy = cfg_duplicate_policy c, cfg_voting_start = cfg_voting_start c,
      cfg_voting_end = cfg_voting_end c, cfg_threshold = cfg_threshold c, cfg_keypers = cfg_keypers c,
      cfg_eligibility_key = cfg_eligibility_key c, cfg_result_publisher_key = cfg_result_publisher_key c,
      cfg_gateway_keys = cfg_gateway_keys c, cfg_admin_key = cfg_admin_key c,
      cfg_protocol_version = cfg_protocol_version c, cfg_scale = cfg_scale c,
      cfg_self_submit_fee_wei = cfg_self_submit_fee_wei c\<rparr> = c"
    by simp
  show ?thesis
    unfolding dec_config_def fee
    by (simp add: enc_config_def k g th p b e codec_sizes Let_def r)
qed

lemma dec_config_ok: "dec_config repr j = Inr c \<Longrightarrow> ok_config c"
  by (auto simp: dec_config_def ok_config_def config_ok_def codec_sizes Let_def dest: dec_bytes_size)

interpretation config_codec: codec enc_config "dec_config repr" ok_config for repr
  by unfold_locales (auto intro: dec_enc_config dec_config_ok)

section \<open>The canonical text binds the artifact\<close>

lemma map_of_sort: "distinct (map fst xs) \<Longrightarrow> map_of (sort_key fst xs) = map_of xs"
  by (subst map_of_inject_set) (auto simp: distinct_map)

lemma sort_keys_req:
  assumes "sort_keys (JObj kvs) = sort_keys (JObj lvs)" "distinct (map fst kvs)" "distinct (map fst lvs)"
  shows "map_option sort_keys (map_of kvs k) = map_option sort_keys (map_of lvs k)"
proof -
  have m: "map_of (sort_key fst (map (\<lambda>(k, v). (k, sort_keys v)) xs)) k = map_option sort_keys (map_of xs k)"
    if "distinct (map fst xs)" for xs :: "(string \<times> json) list"
  proof -
    have "map_of (map (\<lambda>(k, v). (k, sort_keys v)) xs) k = map_option sort_keys (map_of xs k)"
      by (induction xs) auto
    with that show ?thesis by (subst map_of_sort) (simp_all add: comp_def case_prod_beta)
  qed
  from assms(1) have "sort_key fst (map (\<lambda>(k, v). (k, sort_keys v)) kvs) = sort_key fst (map (\<lambda>(k, v). (k, sort_keys v)) lvs)"
    by simp
  with m [OF assms(2)] m [OF assms(3)] show ?thesis by simp
qed

lemma sort_keys_enc_bytes [simp]: "sort_keys (enc_bytes b) = enc_bytes b"
  by (simp add: enc_bytes_def)

lemma sort_keys_scheme [simp]: "sort_keys (scheme_value s) = scheme_value s"
  by (simp add: scheme_value_def)

lemma enum_value_inject [simp]:
  "mode_value m = mode_value m' \<longleftrightarrow> m = m'" "variant_value v = variant_value v' \<longleftrightarrow> v = v'"
  "policy_value p = policy_value p' \<longleftrightarrow> p = p'" "scheme_value s = scheme_value s'"
  subgoal by (cases m; cases m'; simp add: mode_value_def)
  subgoal by (cases v; cases v'; simp add: variant_value_def)
  subgoal by (cases p; cases p'; simp add: policy_value_def)
  subgoal by (cases s; cases s'; simp)
  done

lemma str_int_eq [simp]: "str_int m = str_int n \<longleftrightarrow> m = n"
  using str_int_inject [of m "[]" n "[]"] by (auto simp: stops_def)

lemma map_canon_inject:
  assumes "map (sort_keys \<circ> enc) xs = map (sort_keys \<circ> enc) ys" "\<And>x y. sort_keys (enc x) = sort_keys (enc y) \<Longrightarrow> x = y"
  shows "xs = ys"
  using assms by (simp add: map_injective inj_def)

lemma canon_ciphertext:
  assumes "sort_keys (enc_ciphertext a) = sort_keys (enc_ciphertext b)"
  shows "a = b"
proof -
  note f = sort_keys_req [OF assms [unfolded enc_ciphertext_def]]
  from f [of "''c1''"] f [of "''c2''"] show ?thesis by simp
qed

lemma canon_attestation:
  assumes "sort_keys (enc_attestation a) = sort_keys (enc_attestation b)"
  shows "a = b"
proof -
  note f = sort_keys_req [OF assms [unfolded enc_attestation_def]]
  have "att_scheme a = att_scheme b" by (cases "att_scheme a"; cases "att_scheme b") simp
  with f [of "''electionId''"] f [of "''pseudonym''"] f [of "''vk''"] f [of "''weight''"] f [of "''nonce''"]
    f [of "''signature''"]
  show ?thesis by simp
qed

lemma canon_ballot:
  assumes "sort_keys (enc_ballot a) = sort_keys (enc_ballot b)"
  shows "a = b"
proof -
  note f = sort_keys_req [OF assms [unfolded enc_ballot_def]]
  from f [of "''ciphertexts''"] have "be_ciphertexts a = be_ciphertexts b"
    by (auto intro: map_canon_inject [OF _ canon_ciphertext])
  moreover from f [of "''attestation''"] have "be_attestation a = be_attestation b"
    by (auto intro: canon_attestation)
  ultimately show ?thesis
    using f [of "''electionId''"] f [of "''pseudonym''"] f [of "''vk''"] f [of "''zkProof''"] f [of "''voterSignature''"]
    by simp
qed

lemma canon_keyper:
  assumes "sort_keys (enc_keyper a) = sort_keys (enc_keyper b)"
  shows "a = b"
proof -
  note f = sort_keys_req [OF assms [unfolded enc_keyper_def]]
  from f [of "''signingKey''"] f [of "''url''"] show ?thesis by simp
qed

lemma canon_threshold:
  fixes a b :: Threshold
  assumes "sort_keys (JObj [(''t'', JInt (th_t a)), (''n'', JInt (th_n a))]) = sort_keys (JObj [(''t'', JInt (th_t b)), (''n'', JInt (th_n b))])"
  shows "a = b"
proof -
  note f = sort_keys_req [OF assms]
  from f [of "''t''"] f [of "''n''"] show ?thesis by simp
qed

lemma canon_config:
  assumes "sort_keys (enc_config a) = sort_keys (enc_config b)"
  shows "a = b"
proof -
  note f = sort_keys_req [OF assms [unfolded enc_config_def]]
  from f [of "''keypers''"] have "cfg_keypers a = cfg_keypers b"
    by (auto intro: map_canon_inject [OF _ canon_keyper])
  moreover from f [of "''gatewayKeys''"] have "cfg_gateway_keys a = cfg_gateway_keys b"
    by (auto intro: map_canon_inject [of enc_bytes])
  moreover from f [of "''threshold''"] have "cfg_threshold a = cfg_threshold b"
    by (auto intro: canon_threshold simp del: sort_keys.simps)
  moreover note f [of "''electionId''"] f [of "''numCandidates''"] f [of "''budget''"] f [of "''mode''"]
    f [of "''variant''"] f [of "''weighted''"] f [of "''scale''"] f [of "''duplicatePolicy''"] f [of "''votingStart''"]
    f [of "''votingEnd''"] f [of "''eligibilityKey''"] f [of "''resultPublisherKey''"] f [of "''adminKey''"]
    f [of "''protocolVersion''"] f [of "''selfSubmitFee''"]
  ultimately show ?thesis by simp
qed

lemma float_free_encoders [simp]:
  "float_free (enc_bytes b)" "float_free (enc_ciphertext ct)" "float_free (enc_attestation att)"
  "float_free (enc_ballot ba)" "float_free (enc_keyper k)" "float_free (enc_config c)"
  by (simp_all add: enc_bytes_def enc_ciphertext_def enc_attestation_def enc_ballot_def enc_keyper_def
      enc_config_def scheme_value_def list_all_iff)

lemma dumps_ballot_inject: "dumps R (enc_ballot a) = dumps R (enc_ballot b) \<longleftrightarrow> a = b"
  by (auto dest: dumps_inject intro: canon_ballot)

lemma dumps_config_inject: "dumps R (enc_config a) = dumps R (enc_config b) \<longleftrightarrow> a = b"
  by (auto dest: dumps_inject intro: canon_config)

section \<open>Properties\<close>

text \<open>
  C31: the artifact codecs are exact round trips. Decoding the encoding of an artifact gives it back
  exactly when its byte fields have their sizes and its integers are not negative.
\<close>

theorem artifact_codecs_roundtrip:
  "(dec_ballot (enc_ballot b) = Inr b \<longleftrightarrow> ok_ballot b) \<and>
   (dec_dkg_result (enc_dkg_result s) = Inr s \<longleftrightarrow> ok_dkg_result s) \<and>
   (dec_decryption_share (enc_decryption_share sh) = Inr sh \<longleftrightarrow> ok_decryption_share sh) \<and>
   (dec_aggregate (enc_aggregate a) = Inr a \<longleftrightarrow> ok_aggregate a) \<and>
   (dec_result (enc_result r) = Inr r \<longleftrightarrow> ok_result r) \<and>
   (dec_config R (enc_config c) = Inr c \<longleftrightarrow> ok_config c)"
  by (simp add: ballot_codec.dec_enc_iff dkg_result_codec.dec_enc_iff decryption_share_codec.dec_enc_iff
      aggregate_codec.dec_enc_iff result_codec.dec_enc_iff config_codec.dec_enc_iff)

text \<open>
  C32: decoded artifacts are well formed. Whatever JSON value a decoder accepts, every field the
  decoder fixes has its length and range: all byte fields of a ballot and of its credential, with weight
  and nonce at least 1; the id and the points of a key submission; the id, the index and the entries of a
  decryption share; the id, the points, the numbers and the weights of an aggregate; the id, the totals,
  the indices and the bound of a result; and a configuration has a 32-byte id and has passed the
  checks of its constructors.
\<close>

theorem decoded_artifacts_typed:
  "(dec_ballot j = Inr b \<longrightarrow> length (be_election_id b) = 32 \<and> length (be_pseudonym b) = 32 \<and> length (be_vk b) = 48 \<and>
      list_all (\<lambda>ct. length (ct_c1 ct) = 96 \<and> length (ct_c2 ct) = 96) (be_ciphertexts b) \<and> length (be_voter_signature b) = 80 \<and>
      length (att_election_id (be_attestation b)) = 32 \<and> length (att_pseudonym (be_attestation b)) = 32 \<and>
      length (att_vk (be_attestation b)) = 48 \<and> length (att_signature (be_attestation b)) = 80 \<and>
      1 \<le> att_weight (be_attestation b) \<and> 1 \<le> att_nonce (be_attestation b)) \<and>
   (dec_dkg_result j = Inr s \<longrightarrow> length (dkg_election_id s) = 32 \<and> length (dkg_pk_election s) = 96 \<and>
      list_all (\<lambda>pk. length pk = 96) (dkg_committee_pks s)) \<and>
   (dec_decryption_share j = Inr sh \<longrightarrow> length (ds_election_id sh) = 32 \<and> 0 \<le> ds_keyper_index sh \<and>
      list_all (\<lambda>en. length (se_sigma en) = 96 \<and> length (se_proof en) = 64) (ds_entries sh)) \<and>
   (dec_aggregate j = Inr a \<longrightarrow> length (agg_election_id a) = 32 \<and>
      list_all (\<lambda>ct. length (ct_c1 ct) = 96 \<and> length (ct_c2 ct) = 96) (agg_aggregates a) \<and>
      list_all (\<lambda>n. 0 \<le> n) (agg_admitted a) \<and> list_all (\<lambda>x. 0 \<le> ex_sequence_number x) (agg_exclusions a) \<and>
      0 \<le> agg_total_admitted_weight a \<and> 0 \<le> agg_total_scaled_weight a) \<and>
   (dec_result j = Inr r \<longrightarrow> length (res_election_id r) = 32 \<and> list_all (\<lambda>n. 0 \<le> n) (res_totals r) \<and>
      list_all (\<lambda>i. 0 \<le> i) (res_keyper_indices r) \<and> 0 \<le> res_bsgs_bound r) \<and>
   (dec_config R j = Inr c \<longrightarrow> config_ok c \<and> length (cfg_election_id c) = 32)"
proof (intro conjI)
  show "dec_ballot j = Inr b \<longrightarrow> length (be_election_id b) = 32 \<and> length (be_pseudonym b) = 32 \<and> length (be_vk b) = 48 \<and>
      list_all (\<lambda>ct. length (ct_c1 ct) = 96 \<and> length (ct_c2 ct) = 96) (be_ciphertexts b) \<and> length (be_voter_signature b) = 80 \<and>
      length (att_election_id (be_attestation b)) = 32 \<and> length (att_pseudonym (be_attestation b)) = 32 \<and>
      length (att_vk (be_attestation b)) = 48 \<and> length (att_signature (be_attestation b)) = 80 \<and>
      1 \<le> att_weight (be_attestation b) \<and> 1 \<le> att_nonce (be_attestation b)"
    using ballot_codec.dec_ok [of j b] by (auto simp: ok_ballot_def ok_attestation_def ok_ciphertext_def list_all_iff)
  show "dec_aggregate j = Inr a \<longrightarrow> length (agg_election_id a) = 32 \<and>
      list_all (\<lambda>ct. length (ct_c1 ct) = 96 \<and> length (ct_c2 ct) = 96) (agg_aggregates a) \<and>
      list_all (\<lambda>n. 0 \<le> n) (agg_admitted a) \<and> list_all (\<lambda>x. 0 \<le> ex_sequence_number x) (agg_exclusions a) \<and>
      0 \<le> agg_total_admitted_weight a \<and> 0 \<le> agg_total_scaled_weight a"
    using aggregate_codec.dec_ok [of j a] by (auto simp: ok_aggregate_def ok_exclusion_def ok_ciphertext_def list_all_iff)
qed (use dkg_result_codec.dec_ok [of j s] decryption_share_codec.dec_ok [of j sh] result_codec.dec_ok [of j r] config_codec.dec_ok [of R j c]
    in \<open>auto simp: ok_dkg_result_def ok_decryption_share_def ok_share_entry_def ok_result_def ok_config_def list_all_iff\<close>)

definition sample_submission :: json where
  "sample_submission = enc_dkg_result \<lparr>dkg_election_id = be 32 1, dkg_pk_election = replicate 96 7,
     dkg_committee_pks = [replicate 96 8], dkg_keyper_signature = []\<rparr>"

lemma decoded_artifacts_typed_witness:
  "\<exists>s. dec_dkg_result sample_submission = Inr s \<and> length (dkg_election_id s) = 32 \<and> length (dkg_pk_election s) = 96 \<and>
     list_all (\<lambda>pk. length pk = 96) (dkg_committee_pks s) \<and> dkg_committee_pks s = [replicate 96 8]"
proof -
  obtain s where s: "dec_dkg_result sample_submission = Inr s" "dkg_committee_pks s = [replicate 96 8]"
    using dkg_result_codec.dec_enc by (force simp: sample_submission_def ok_dkg_result_def)
  with decoded_artifacts_typed [where j = sample_submission and s = s] show ?thesis by blast
qed

end
