(* ===== verification/Authorization.thy ===== *)
theory Authorization
  imports Codecs
begin

text \<open>
  \<^verbatim>\<open>core/authz.py\<close>, \<^verbatim>\<open>core/write_auth.py\<close> and \<^verbatim>\<open>core/quorum.py\<close>: the digests a write signature is
  taken over, their signatures and recovery, and the quorum rule. \<open>eth_account\<close>, \<open>eth_abi\<close> and
  \<open>keccak\<close> are third-party code, a record of functions every definition takes; so is Python's
  \<open>repr\<close>. The text under a digest is a definition of its own, so that what a signature binds can
  be stated without assumptions on the hash.
\<close>

section \<open>Third-party functions\<close>

record host =
  keccak :: "bytes \<Rightarrow> bytes"
  recover_message :: "bytes \<Rightarrow> bytes \<Rightarrow> bytes option"
  sign_message :: "bytes \<Rightarrow> bytes \<Rightarrow> bytes"
  abi_bytes_array :: "bytes list \<Rightarrow> bytes result"
  abi_pair_array :: "(int \<times> int) list \<Rightarrow> bytes result"
  abi_result :: "int list \<Rightarrow> int list \<Rightarrow> int \<Rightarrow> bytes result"
  abi_tally :: "(bytes \<times> bytes) list \<Rightarrow> int list \<Rightarrow> (int \<times> int) list \<Rightarrow> int \<Rightarrow> int \<Rightarrow> bytes result"
  py_repr :: "json \<Rightarrow> string"

text \<open>
  \<open>recover_message\<close> takes the digest and the signature and returns the 20 address bytes, \<open>None\<close>
  where the library raises; \<open>sign_message\<close> takes the 32 key bytes and the digest; the \<open>abi\<close>
  functions raise for values outside the ABI types.
\<close>

section \<open>Request signatures\<close>

definition REQUEST_DST :: bytes where
  "REQUEST_DST = encode_utf8 ''SHUTTER-GOVERNANCE-PROTOCOL-REQUEST-v1''"

text \<open>\<open>len(b).to_bytes(4, "big") + b\<close>.\<close>

definition frame :: "bytes \<Rightarrow> bytes result" where
  "frame b = ebind (int_to_bytes (int (length b)) 4) (\<lambda>l. Inr (l @ b))"

definition request_text :: "string \<Rightarrow> bytes \<Rightarrow> bytes \<Rightarrow> bytes result" where
  "request_text op_name election_id payload =
     ebind (frame (encode_utf8 op_name)) (\<lambda>f1.
     ebind (frame election_id) (\<lambda>f2.
     ebind (frame payload) (\<lambda>f3.
     Inr (REQUEST_DST @ f1 @ f2 @ f3))))"

definition request_digest :: "host \<Rightarrow> string \<Rightarrow> bytes \<Rightarrow> bytes \<Rightarrow> bytes result" where
  "request_digest H op_name election_id payload =
     ebind (request_text op_name election_id payload) (\<lambda>m. Inr (keccak H m))"

definition request_nonce_payload :: "int \<Rightarrow> bytes result" where
  "request_nonce_payload issued_at =
     (if issued_at < 0 then Inl ValueError else int_to_bytes issued_at 8)"

definition REQUEST_FRESHNESS_S :: int where "REQUEST_FRESHNESS_S = 300"

definition request_is_fresh :: "int \<Rightarrow> int \<Rightarrow> bool" where
  "request_is_fresh issued_at now \<longleftrightarrow> \<bar>now - issued_at\<bar> \<le> REQUEST_FRESHNESS_S"

text \<open>The private key as 32 bytes, \<open>int(private_key).to_bytes(32, "big")\<close>, then the EIP-191 signature.\<close>

definition sign_digest :: "host \<Rightarrow> int \<Rightarrow> bytes \<Rightarrow> bytes result" where
  "sign_digest H private_key digest =
     ebind (int_to_bytes private_key 32) (\<lambda>key. Inr (sign_message H key digest))"

definition recover_digest :: "host \<Rightarrow> bytes \<Rightarrow> bytes \<Rightarrow> bytes option" where
  "recover_digest H digest signature = recover_message H digest signature"

definition sign_request :: "host \<Rightarrow> int \<Rightarrow> string \<Rightarrow> bytes \<Rightarrow> bytes \<Rightarrow> bytes result" where
  "sign_request H private_key op_name election_id payload =
     ebind (int_to_bytes private_key 32) (\<lambda>key.
     ebind (request_digest H op_name election_id payload) (\<lambda>d. Inr (sign_message H key d)))"

definition verify_request :: "host \<Rightarrow> bytes \<Rightarrow> bytes \<Rightarrow> string \<Rightarrow> bytes \<Rightarrow> bytes \<Rightarrow> bool" where
  "verify_request H identity signature op_name election_id payload =
     (case request_digest H op_name election_id payload of
        Inl e \<Rightarrow> False
      | Inr d \<Rightarrow>
          (case recover_message H d signature of None \<Rightarrow> False | Some recovered \<Rightarrow> recovered = identity))"

definition register_text :: "host \<Rightarrow> ElectionConfig \<Rightarrow> bytes" where
  "register_text H config = encode_utf8 (dumps (py_repr H) (enc_config config))"

definition register_digest :: "host \<Rightarrow> ElectionConfig \<Rightarrow> bytes" where
  "register_digest H config = keccak H (register_text H config)"

definition sign_register :: "host \<Rightarrow> int \<Rightarrow> ElectionConfig \<Rightarrow> bytes result" where
  "sign_register H private_key config = sign_digest H private_key (register_digest H config)"

definition verify_register :: "host \<Rightarrow> bytes \<Rightarrow> bytes \<Rightarrow> ElectionConfig \<Rightarrow> bool" where
  "verify_register H admin_key signature config =
     (case recover_message H (register_digest H config) signature of
        None \<Rightarrow> False
      | Some recovered \<Rightarrow> recovered = admin_key)"

section \<open>Content digests\<close>

definition DKG_RESULT_DST :: bytes where "DKG_RESULT_DST = encode_utf8 ''SHUTTER-GOVERNANCE-PROTOCOL-DKG-RESULT-v1''"
definition DECRYPT_SHARE_DST :: bytes where "DECRYPT_SHARE_DST = encode_utf8 ''SHUTTER-GOVERNANCE-PROTOCOL-DECRYPT-SHARE-v1''"
definition AGGREGATE_DST :: bytes where "AGGREGATE_DST = encode_utf8 ''SHUTTER-GOVERNANCE-PROTOCOL-AGGREGATE-v1''"
definition BALLOT_WRITE_DST :: bytes where "BALLOT_WRITE_DST = encode_utf8 ''SHUTTER-GOVERNANCE-PROTOCOL-BALLOT-WRITE-v1''"
definition RESULT_DST :: bytes where "RESULT_DST = encode_utf8 ''SHUTTER-GOVERNANCE-PROTOCOL-RESULT-v1''"
definition DKG_COMMITMENTS_DST :: bytes where "DKG_COMMITMENTS_DST = encode_utf8 ''SHUTTER-GOVERNANCE-PROTOCOL-DKG-COMMITMENTS-v1''"
definition DKG_SHARE_DST :: bytes where "DKG_SHARE_DST = encode_utf8 ''SHUTTER-GOVERNANCE-PROTOCOL-DKG-SHARE-v1''"
definition DKG_ACCUSE_DST :: bytes where "DKG_ACCUSE_DST = encode_utf8 ''SHUTTER-GOVERNANCE-PROTOCOL-DKG-ACCUSE-v1''"
definition DKG_REVEAL_DST :: bytes where "DKG_REVEAL_DST = encode_utf8 ''SHUTTER-GOVERNANCE-PROTOCOL-DKG-REVEAL-v1''"

definition dkg_result_digest :: "host \<Rightarrow> bytes \<Rightarrow> bytes \<Rightarrow> bytes list \<Rightarrow> bytes result" where
  "dkg_result_digest H election_id pk_election committee_pks =
     ebind (abi_bytes_array H committee_pks) (\<lambda>enc.
     Inr (keccak H (DKG_RESULT_DST @ election_id @ pk_election @ enc)))"

definition decryption_share_digest :: "host \<Rightarrow> bytes \<Rightarrow> bytes list \<Rightarrow> (int \<times> int) list \<Rightarrow> bytes result" where
  "decryption_share_digest H election_id shares proofs =
     ebind (abi_bytes_array H shares) (\<lambda>s.
     ebind (abi_pair_array H proofs) (\<lambda>p.
     Inr (keccak H (DECRYPT_SHARE_DST @ election_id @ s @ p))))"

definition ballot_text :: "host \<Rightarrow> bytes \<Rightarrow> BallotEnvelope \<Rightarrow> bytes" where
  "ballot_text H election_id ballot =
     BALLOT_WRITE_DST @ election_id @ encode_utf8 (dumps (py_repr H) (enc_ballot ballot))"

definition ballot_digest :: "host \<Rightarrow> bytes \<Rightarrow> BallotEnvelope \<Rightarrow> bytes" where
  "ballot_digest H election_id ballot = keccak H (ballot_text H election_id ballot)"

definition sign_ballot :: "host \<Rightarrow> int \<Rightarrow> bytes \<Rightarrow> BallotEnvelope \<Rightarrow> bytes result" where
  "sign_ballot H private_key election_id ballot = sign_digest H private_key (ballot_digest H election_id ballot)"

definition result_digest :: "host \<Rightarrow> bytes \<Rightarrow> ResultArtifact \<Rightarrow> bytes result" where
  "result_digest H election_id result =
     ebind (abi_result H (res_totals result) (res_keyper_indices result) (res_bsgs_bound result)) (\<lambda>enc.
     Inr (keccak H (RESULT_DST @ election_id @ enc)))"

section \<open>Keyper to keyper messages\<close>

definition dkg_commitments_text :: "bytes \<Rightarrow> int \<Rightarrow> bytes list \<Rightarrow> bytes result" where
  "dkg_commitments_text election_id dealer_index commitments =
     ebind (int_to_bytes dealer_index 8) (\<lambda>d.
     ebind (int_to_bytes (int (length commitments)) 4) (\<lambda>n.
     Inr (DKG_COMMITMENTS_DST @ election_id @ d @ n @ concat commitments)))"

definition dkg_commitments_digest :: "host \<Rightarrow> bytes \<Rightarrow> int \<Rightarrow> bytes list \<Rightarrow> bytes result" where
  "dkg_commitments_digest H election_id dealer_index commitments =
     ebind (dkg_commitments_text election_id dealer_index commitments) (\<lambda>m. Inr (keccak H m))"

definition dkg_share_text :: "bytes \<Rightarrow> int \<Rightarrow> int \<Rightarrow> int \<Rightarrow> bytes result" where
  "dkg_share_text election_id dealer_index recipient_index share =
     ebind (int_to_bytes dealer_index 8) (\<lambda>d.
     ebind (int_to_bytes recipient_index 8) (\<lambda>r.
     ebind (int_to_bytes (share mod CURVE_ORDER) 32) (\<lambda>s.
     Inr (DKG_SHARE_DST @ election_id @ d @ r @ s))))"

definition dkg_share_digest :: "host \<Rightarrow> bytes \<Rightarrow> int \<Rightarrow> int \<Rightarrow> int \<Rightarrow> bytes result" where
  "dkg_share_digest H election_id dealer_index recipient_index share =
     ebind (dkg_share_text election_id dealer_index recipient_index share) (\<lambda>m. Inr (keccak H m))"

definition dkg_accusation_text :: "bytes \<Rightarrow> int \<Rightarrow> int \<Rightarrow> bytes result" where
  "dkg_accusation_text election_id accused_dealer_index recipient_index =
     ebind (int_to_bytes accused_dealer_index 8) (\<lambda>d.
     ebind (int_to_bytes recipient_index 8) (\<lambda>r.
     Inr (DKG_ACCUSE_DST @ election_id @ d @ r)))"

definition dkg_accusation_digest :: "host \<Rightarrow> bytes \<Rightarrow> int \<Rightarrow> int \<Rightarrow> bytes result" where
  "dkg_accusation_digest H election_id accused_dealer_index recipient_index =
     ebind (dkg_accusation_text election_id accused_dealer_index recipient_index) (\<lambda>m. Inr (keccak H m))"

definition dkg_reveal_text :: "bytes \<Rightarrow> int \<Rightarrow> int \<Rightarrow> int \<Rightarrow> bytes result" where
  "dkg_reveal_text election_id dealer_index recipient_index share =
     ebind (int_to_bytes dealer_index 8) (\<lambda>d.
     ebind (int_to_bytes recipient_index 8) (\<lambda>r.
     ebind (int_to_bytes (share mod CURVE_ORDER) 32) (\<lambda>s.
     Inr (DKG_REVEAL_DST @ election_id @ d @ r @ s))))"

definition dkg_reveal_digest :: "host \<Rightarrow> bytes \<Rightarrow> int \<Rightarrow> int \<Rightarrow> int \<Rightarrow> bytes result" where
  "dkg_reveal_digest H election_id dealer_index recipient_index share =
     ebind (dkg_reveal_text election_id dealer_index recipient_index share) (\<lambda>m. Inr (keccak H m))"

definition sign_dkg_result :: "host \<Rightarrow> int \<Rightarrow> bytes \<Rightarrow> bytes \<Rightarrow> bytes list \<Rightarrow> bytes result" where
  "sign_dkg_result H private_key election_id pk_election committee_pks =
     ebind (dkg_result_digest H election_id pk_election committee_pks) (sign_digest H private_key)"

definition sign_decryption_share :: "host \<Rightarrow> int \<Rightarrow> bytes \<Rightarrow> bytes list \<Rightarrow> (int \<times> int) list \<Rightarrow> bytes result" where
  "sign_decryption_share H private_key election_id shares proofs =
     ebind (decryption_share_digest H election_id shares proofs) (sign_digest H private_key)"

section \<open>Aggregate\<close>

definition EXCLUSION_CODE :: "ExclusionReason \<Rightarrow> int" where
  "EXCLUSION_CODE reason =
     (case reason of
        INVALID_PROOF \<Rightarrow> 0 | INVALID_SIGNATURE \<Rightarrow> 1 | INVALID_ATTESTATION \<Rightarrow> 2
      | DUPLICATE_PSEUDONYM \<Rightarrow> 3 | MALFORMED \<Rightarrow> 4 | OUT_OF_WINDOW \<Rightarrow> 5)"

text \<open>The shape check of the tally tuple, by its number of fields.\<close>

definition assert_aggregate_shape :: "nat \<Rightarrow> unit result" where
  "assert_aggregate_shape len =
     (if len = 4 then Inl PreScaleAggregate else if len \<noteq> 5 then Inl ValueError else Inr ())"

definition aggregate_digest ::
  "host \<Rightarrow> bytes \<Rightarrow> (bytes \<times> bytes) list \<Rightarrow> int list \<Rightarrow> (int \<times> ExclusionReason) list \<Rightarrow> int \<Rightarrow> int \<Rightarrow> bytes result" where
  "aggregate_digest H election_id aggregates admitted exclusions total_admitted_weight total_scaled_weight =
     ebind (assert_aggregate_shape 5) (\<lambda>_.
     ebind (abi_tally H aggregates admitted (map (\<lambda>(seq, reason). (seq, EXCLUSION_CODE reason)) exclusions)
              total_admitted_weight total_scaled_weight) (\<lambda>enc.
     Inr (keccak H (AGGREGATE_DST @ election_id @ enc))))"

definition aggregate_digest_of :: "host \<Rightarrow> bytes \<Rightarrow> AggregateArtifact \<Rightarrow> bytes result" where
  "aggregate_digest_of H election_id a =
     aggregate_digest H election_id (map ct_pair (agg_aggregates a)) (agg_admitted a)
       (map (\<lambda>x. (ex_sequence_number x, ex_reason x)) (agg_exclusions a))
       (agg_total_admitted_weight a) (agg_total_scaled_weight a)"

definition sign_aggregate :: "host \<Rightarrow> int \<Rightarrow> bytes \<Rightarrow> AggregateArtifact \<Rightarrow> bytes result" where
  "sign_aggregate H private_key election_id a =
     ebind (aggregate_digest_of H election_id a) (sign_digest H private_key)"

section \<open>Write identities\<close>

text \<open>
  A \<open>Signer\<close> wraps an account: its private key and its address, which the account library
  derives from the key.
\<close>

record Signer =
  private_key :: int
  identity :: bytes

definition Signer_sign :: "host \<Rightarrow> Signer \<Rightarrow> string \<Rightarrow> bytes \<Rightarrow> bytes \<Rightarrow> bytes result" where
  "Signer_sign H s op_name election_id payload = sign_request H (private_key s) op_name election_id payload"

definition Signer_sign_register :: "host \<Rightarrow> Signer \<Rightarrow> ElectionConfig \<Rightarrow> bytes result" where
  "Signer_sign_register H s config = sign_register H (private_key s) config"

section \<open>Quorum\<close>

definition resolve_unique :: "('a \<times> int set) list \<Rightarrow> int \<Rightarrow> 'a option result" where
  "resolve_unique groups needed =
     (let finalized = filter (\<lambda>(v, keypers). needed \<le> int (card keypers)) groups in
      if length finalized > 1 then Inl QuorumConflictError
      else Inr (case finalized of [] \<Rightarrow> None | (v, _) # _ \<Rightarrow> Some v))"

text \<open>
  \<open>groups.setdefault(key, (v, set()))\<close> on an insertion-ordered dictionary, then \<open>add(idx)\<close> to the
  set: the first artifact of a key represents the group.
\<close>

fun group_add :: "'k \<times> 'v \<times> int \<Rightarrow> ('k \<times> 'v \<times> int set) list \<Rightarrow> ('k \<times> 'v \<times> int set) list" where
  "group_add (key, v, idx) [] = [(key, v, {idx})]"
| "group_add (key, v, idx) ((k, w, s) # gs) =
     (if k = key then (k, w, insert idx s) # gs else (k, w, s) # group_add (key, v, idx) gs)"

definition group_all :: "('k \<times> 'v \<times> int) list \<Rightarrow> ('k \<times> 'v \<times> int set) list" where
  "group_all subs = foldl (\<lambda>gs sub. group_add sub gs) [] subs"

subsection \<open>Groups\<close>

lemma group_add_keys:
  "fst ` set (group_add (key, v, idx) gs) = insert key (fst ` set gs)"
  "distinct (map fst gs) \<Longrightarrow> distinct (map fst (group_add (key, v, idx) gs))"
proof -
  show k: "fst ` set (group_add (key, v, idx) gs) = insert key (fst ` set gs)" for gs
  proof (induction gs)
    case (Cons g gs)
    then show ?case by (cases g) (simp add: insert_commute)
  qed simp
  show "distinct (map fst gs) \<Longrightarrow> distinct (map fst (group_add (key, v, idx) gs))"
  proof (induction gs)
    case (Cons g gs)
    then show ?case using k [of gs] by (cases g) (auto simp: image_iff)
  qed simp
qed

text \<open>The groups collect, for every key, the indices submitted under it.\<close>

definition groups_of :: "('k \<times> 'v \<times> int) list \<Rightarrow> ('k \<times> 'v \<times> int set) list \<Rightarrow> bool" where
  "groups_of subs gs \<longleftrightarrow> distinct (map fst gs) \<and> fst ` set gs = fst ` set subs \<and>
     (\<forall>(k, v, s) \<in> set gs. s = {i. \<exists>w. (k, w, i) \<in> set subs} \<and> (\<exists>i. (k, v, i) \<in> set subs))"

lemma group_add_mem:
  "distinct (map fst gs) \<Longrightarrow> (k, w, s) \<in> set (group_add (key, v, idx) gs) \<longleftrightarrow>
     (k \<noteq> key \<and> (k, w, s) \<in> set gs) \<or>
     (k = key \<and> ((\<exists>s'. (key, w, s') \<in> set gs \<and> s = insert idx s') \<or> key \<notin> fst ` set gs \<and> w = v \<and> s = {idx}))"
proof (induction gs)
  case (Cons g gs)
  then show ?case by (cases g) (auto simp: image_iff)
qed auto

lemma groups_of_add:
  assumes "groups_of subs gs"
  shows "groups_of (subs @ [(key, v, idx)]) (group_add (key, v, idx) gs)"
  unfolding groups_of_def
proof (intro conjI ballI)
  from assms have d: "distinct (map fst gs)" and f: "fst ` set gs = fst ` set subs"
    and g: "\<And>k v s. (k, v, s) \<in> set gs \<Longrightarrow> s = {i. \<exists>w. (k, w, i) \<in> set subs} \<and> (\<exists>i. (k, v, i) \<in> set subs)"
    unfolding groups_of_def by auto
  show "distinct (map fst (group_add (key, v, idx) gs))" using d by (rule group_add_keys)
  show "fst ` set (group_add (key, v, idx) gs) = fst ` set (subs @ [(key, v, idx)])"
    using f by (simp add: group_add_keys)
  fix x assume x: "x \<in> set (group_add (key, v, idx) gs)"
  obtain k w s where kws: "x = (k, w, s)" by (cases x)
  show "case x of (k, v', s) \<Rightarrow> s = {i. \<exists>w. (k, w, i) \<in> set (subs @ [(key, v, idx)])} \<and>
      (\<exists>i. (k, v', i) \<in> set (subs @ [(key, v, idx)]))"
    using x g [of k w] f unfolding kws group_add_mem [OF d]
    by (auto simp: image_iff dest: g)
qed

lemma groups_of_all: "groups_of subs (group_all subs)"
proof (induction subs rule: rev_induct)
  case Nil
  then show ?case by (simp add: groups_of_def group_all_def)
next
  case (snoc sub subs)
  then show ?case using groups_of_add [OF snoc.IH] by (cases sub) (simp add: group_all_def)
qed

text \<open>Two groups share no index when every submitter has one submission.\<close>

lemma groups_card_le:
  assumes "groups_of subs gs" "distinct (map (snd \<circ> snd) subs)"
    and a: "(k1, v1, s1) \<in> set gs" and b: "(k2, v2, s2) \<in> set gs" and "k1 \<noteq> k2"
    and n: "(snd \<circ> snd) ` set subs \<subseteq> {1..n}"
  shows "card s1 + card s2 \<le> nat n"
proof -
  from assms(1) a b have s: "s1 = {i. \<exists>w. (k1, w, i) \<in> set subs}" "s2 = {i. \<exists>w. (k2, w, i) \<in> set subs}"
    unfolding groups_of_def by auto
  have inj: "inj_on (snd \<circ> snd) (set subs)" using assms(2) by (simp add: distinct_map)
  have "(k1, w, i) = (k2, w', i)" if "(k1, w, i) \<in> set subs" "(k2, w', i) \<in> set subs" for w w' i
    using inj_onD [OF inj _ that] by simp
  then have disj: "s1 \<inter> s2 = {}"
    using \<open>k1 \<noteq> k2\<close> unfolding s by auto
  have sub: "s1 \<union> s2 \<subseteq> {1..n}"
    using n unfolding s by force
  then have "finite s1" "finite s2" by (auto intro: finite_subset)
  then have "card s1 + card s2 = card (s1 \<union> s2)" using disj by (simp add: card_Un_disjoint)
  also have "\<dots> \<le> card {1..n}" by (rule card_mono) (use sub in auto)
  finally show ?thesis by simp
qed

definition group_size :: "('k \<times> 'v \<times> int) list \<Rightarrow> 'k \<Rightarrow> nat" where
  "group_size subs k = card {i. \<exists>w. (k, w, i) \<in> set subs}"

lemma resolve_majority:
  assumes gs: "groups_of subs gs" and d: "distinct (map (snd \<circ> snd) subs)"
    and n: "(snd \<circ> snd) ` set subs \<subseteq> {1..n}" and maj: "n < 2 * t" and t: "1 \<le> t"
  shows "\<exists>w. resolve_unique (map snd gs) t = Inr w \<and>
     (case w of
        None \<Rightarrow> \<forall>k. int (group_size subs k) < t
      | Some v \<Rightarrow> \<exists>k i. (k, v, i) \<in> set subs \<and> t \<le> int (group_size subs k))"
proof -
  let ?P = "\<lambda>(v, s). t \<le> int (card (s :: int set))"
  let ?F = "filter ?P (map snd gs)"
  have sz: "card s = group_size subs k" if "(k, v, s) \<in> set gs" for k v s
    using gs that unfolding groups_of_def group_size_def by auto
  have len: "length ?F \<le> 1"
  proof (rule ccontr)
    assume "\<not> length ?F \<le> 1"
    then have l: "1 < length (filter (?P \<circ> snd) gs)" by (simp add: filter_map)
    let ?G = "filter (?P \<circ> snd) gs"
    have dg: "distinct (map fst ?G)" using gs unfolding groups_of_def by (simp add: distinct_map_filter)
    obtain k1 v1 s1 k2 v2 s2 where g: "?G ! 0 = (k1, v1, s1)" "?G ! 1 = (k2, v2, s2)"
      by (cases "?G ! 0"; cases "?G ! 1") auto
    have "?G ! 0 \<in> set ?G" "?G ! 1 \<in> set ?G"
      using l by (auto intro!: nth_mem simp del: set_filter)
    then have m: "(k1, v1, s1) \<in> set ?G" "(k2, v2, s2) \<in> set ?G"
      by (simp_all only: g)
    have "map fst ?G ! 0 \<noteq> map fst ?G ! 1" using dg l by (subst nth_eq_iff_index_eq) auto
    moreover have "map fst ?G ! 0 = fst (?G ! 0)" "map fst ?G ! 1 = fst (?G ! 1)"
      using l by (auto intro!: nth_map)
    ultimately have "k1 \<noteq> k2" using g by simp
    then have "card s1 + card s2 \<le> nat n"
      using m by (intro groups_card_le [OF gs d _ _ _ n]) auto
    moreover have "t \<le> int (card s1)" "t \<le> int (card s2)" using m by auto
    ultimately show False using maj t by linarith
  qed
  show ?thesis
  proof (cases ?F)
    case Nil
    have "int (group_size subs k) < t" for k
    proof (cases "k \<in> fst ` set gs")
      case True
      then obtain v s where kv: "(k, v, s) \<in> set gs" by auto
      then have "(v, s) \<notin> set ?F" using Nil by simp
      with kv have "\<not> ?P (v, s)" by force
      with sz [OF kv] show ?thesis by simp
    next
      case False
      then have "{i. \<exists>w. (k, w, i) \<in> set subs} = {}" using gs unfolding groups_of_def by force
      then show ?thesis using t by (simp add: group_size_def)
    qed
    with Nil show ?thesis by (auto simp: resolve_unique_def Let_def)
  next
    case (Cons vs r)
    obtain v s where vs: "vs = (v, s)" by (cases vs)
    from Cons vs have "(v, s) \<in> set ?F" by simp
    then obtain k where kv: "(k, v, s) \<in> set gs" and q: "t \<le> int (card s)" by auto
    from gs kv have "\<exists>i. (k, v, i) \<in> set subs" unfolding groups_of_def by auto
    with sz [OF kv] q have "\<exists>k i. (k, v, i) \<in> set subs \<and> t \<le> int (group_size subs k)" by auto
    with Cons len vs show ?thesis by (auto simp: resolve_unique_def Let_def)
  qed
qed

section \<open>Properties\<close>

lemma frame_inject:
  assumes "frame a = Inr x" "frame b = Inr y" "x @ r = y @ s"
  shows "a = b \<and> r = s"
proof -
  have x: "x = be 4 (int (length a)) @ a" "int (length a) < 256 ^ 4" and y: "y = be 4 (int (length b)) @ b" "int (length b) < 256 ^ 4"
    using assms(1,2) by (auto simp: frame_def int_to_bytes_eq_Inr)
  from assms(3) have "be 4 (int (length a)) = be 4 (int (length b))" "a @ r = b @ s"
    unfolding x(1) y(1) by (simp_all add: append_eq_append_conv)
  moreover from this(1) have "int (length a) = int (length b)"
    using be_inject [of "int (length a)" 4 "int (length b)"] x(2) y(2) by simp
  ultimately show ?thesis by simp
qed

lemma request_text_inject:
  assumes "request_text op1 e1 p1 = Inr m" "request_text op2 e2 p2 = Inr m"
  shows "op1 = op2 \<and> e1 = e2 \<and> p1 = p2"
proof -
  from assms(1) obtain a b c where f: "frame (encode_utf8 op1) = Inr a" "frame e1 = Inr b" "frame p1 = Inr c"
    and m: "m = REQUEST_DST @ a @ b @ c" by (auto simp: request_text_def ebind_eq_Inr)
  from assms(2) obtain a' b' c' where f': "frame (encode_utf8 op2) = Inr a'" "frame e2 = Inr b'" "frame p2 = Inr c'"
    and m': "m = REQUEST_DST @ a' @ b' @ c'" by (auto simp: request_text_def ebind_eq_Inr)
  from m m' have "a @ b @ c = a' @ b' @ c'" by simp
  from frame_inject [OF f(1) f'(1) this] have 1: "op1 = op2" and "b @ c = b' @ c'" by simp_all
  from frame_inject [OF f(2) f'(2) this(2)] have 2: "e1 = e2" and "c = c'" by simp_all
  then have "c @ [] = c' @ []" by simp
  from frame_inject [OF f(3) f'(3) this] 1 2 show ?thesis by simp
qed

lemma share_text_inject:
  assumes "dkg_share_text e1 d1 r1 s1 = Inr m" "dkg_share_text e2 d2 r2 s2 = Inr m" "length e1 = length e2"
  shows "e1 = e2 \<and> d1 = d2 \<and> r1 = r2 \<and> s1 mod CURVE_ORDER = s2 mod CURVE_ORDER"
  using assms by (auto simp: dkg_share_text_def ebind_eq_Inr int_to_bytes_eq_Inr append_eq_append_conv be_inject)

lemma dst_separate:
  "DKG_SHARE_DST @ x \<noteq> DKG_REVEAL_DST @ y" "DKG_ACCUSE_DST @ x \<noteq> DKG_REVEAL_DST @ y"
  "DKG_SHARE_DST @ x \<noteq> DKG_ACCUSE_DST @ y" "DKG_COMMITMENTS_DST @ x \<noteq> DKG_REVEAL_DST @ y"
  by (simp_all add: DKG_SHARE_DST_def DKG_REVEAL_DST_def DKG_ACCUSE_DST_def DKG_COMMITMENTS_DST_def encode_utf8_def)

text \<open>
  What is signed determines what is meant. The signed text of an administrative request
  determines operation, election and payload; that of a registration the whole configuration; that of
  a ballot write the election and the whole ballot; that of a dealt share the election, both
  parties and the share. A signed share, accusation or commitment list is never the text of a reveal.
\<close>

theorem signed_texts_bind:
  "(request_text op1 e1 p1 = Inr m \<and> request_text op2 e2 p2 = Inr m \<longrightarrow> op1 = op2 \<and> e1 = e2 \<and> p1 = p2) \<and>
   (register_text H c1 = register_text H c2 \<longrightarrow> c1 = c2) \<and>
   (length e1 = length e2 \<and> ballot_text H e1 b1 = ballot_text H e2 b2 \<longrightarrow> e1 = e2 \<and> b1 = b2) \<and>
   (length e1 = length e2 \<and> dkg_share_text e1 d1 r1 s1 = Inr m \<and> dkg_share_text e2 d2 r2 s2 = Inr m \<longrightarrow>
      e1 = e2 \<and> d1 = d2 \<and> r1 = r2 \<and> s1 mod CURVE_ORDER = s2 mod CURVE_ORDER) \<and>
   (dkg_reveal_text e1 d1 r1 s1 = Inr m \<longrightarrow>
      dkg_share_text e2 d2 r2 s2 \<noteq> Inr m \<and> dkg_accusation_text e2 d2 r2 \<noteq> Inr m \<and> dkg_commitments_text e2 d2 coms \<noteq> Inr m)"
proof (intro conjI impI)
  show "c1 = c2" if "register_text H c1 = register_text H c2"
    using that by (simp add: register_text_def dumps_config_inject)
  show "e1 = e2" "b1 = b2" if "length e1 = length e2 \<and> ballot_text H e1 b1 = ballot_text H e2 b2"
    using that by (auto simp: ballot_text_def dumps_ballot_inject)
  show "dkg_share_text e2 d2 r2 s2 \<noteq> Inr m" "dkg_accusation_text e2 d2 r2 \<noteq> Inr m" "dkg_commitments_text e2 d2 coms \<noteq> Inr m"
    if "dkg_reveal_text e1 d1 r1 s1 = Inr m"
    using that dst_separate
    by (auto simp: dkg_reveal_text_def dkg_share_text_def dkg_accusation_text_def dkg_commitments_text_def ebind_eq_Inr)
qed (auto dest: request_text_inject share_text_inject)

lemma signed_texts_bind_witness:
  "\<exists>m. request_text ''cancel'' (be 32 1) [] = Inr m \<and> request_text ''cancel'' (be 32 2) [] \<noteq> Inr m"
proof -
  have "\<exists>m. request_text ''cancel'' (be 32 1) [] = Inr m" by (simp add: request_text_def frame_def)
  then obtain m where m: "request_text ''cancel'' (be 32 1) [] = Inr m" by blast
  have "be 32 1 \<noteq> be 32 2" by (simp add: be_inject)
  with signed_texts_bind [of "''cancel''" "be 32 1" "[]" m "''cancel''" "be 32 2" "[]"] m show ?thesis by blast
qed

end
