(* ===== verification/Data_Layer.thy ===== *)
theory Data_Layer
  imports Authorization "HOL-Library.AList"
begin

text \<open>
  \<^verbatim>\<open>ports/data_layer.py\<close>: the storage port. Its operations are the fields of a record over the
  state of a backend; a write returns the new state with its value or raises and leaves the state
  as it was. The adapters build such a record, the services take one.
\<close>

record FinalizedKey =
  fk_pk_election :: bytes
  fk_committee_pks :: "bytes list"

record ElectionRecord =
  er_config :: ElectionConfig
  er_cancelled :: bool
  er_finalized_key :: "FinalizedKey option"
  er_tally_stalled :: bool

record ElectionFilter =
  ef_admin_key :: "bytes option"

text \<open>The time argument of an operation is the reading of the adapter's clock at the call.\<close>

record 's ElectionDataLayer =
  dl_register_election :: "ElectionConfig \<Rightarrow> bytes \<Rightarrow> 's \<Rightarrow> ('s \<times> bytes) result"
  dl_cancel_election :: "int \<Rightarrow> bytes \<Rightarrow> bytes \<Rightarrow> 's \<Rightarrow> 's result"
  dl_get_election :: "bytes \<Rightarrow> 's \<Rightarrow> ElectionRecord result"
  dl_list_elections :: "ElectionFilter option \<Rightarrow> 's \<Rightarrow> bytes list result"
  dl_submit_dkg_result :: "bytes \<Rightarrow> bytes \<Rightarrow> bytes list \<Rightarrow> bytes \<Rightarrow> 's \<Rightarrow> 's result"
  dl_get_dkg_submissions :: "bytes \<Rightarrow> 's \<Rightarrow> DKGResultSubmission list result"
  dl_get_finalized_key :: "bytes \<Rightarrow> 's \<Rightarrow> FinalizedKey option result"
  dl_submit_ballot :: "int \<Rightarrow> bytes \<Rightarrow> BallotEnvelope \<Rightarrow> bytes \<Rightarrow> 's \<Rightarrow> ('s \<times> int) result"
  dl_list_ballots :: "bytes \<Rightarrow> int \<Rightarrow> int \<Rightarrow> 's \<Rightarrow> StoredBallot list result"
  dl_count_ballots :: "bytes \<Rightarrow> 's \<Rightarrow> int result"
  dl_submit_aggregate :: "int \<Rightarrow> bytes \<Rightarrow> AggregateArtifact \<Rightarrow> bytes \<Rightarrow> 's \<Rightarrow> 's result"
  dl_get_aggregate :: "bytes \<Rightarrow> 's \<Rightarrow> AggregateArtifact option result"
  dl_submit_decryption_share :: "int \<Rightarrow> bytes \<Rightarrow> DecryptionShareEnvelope \<Rightarrow> bytes \<Rightarrow> 's \<Rightarrow> 's result"
  dl_list_decryption_shares :: "bytes \<Rightarrow> 's \<Rightarrow> DecryptionShareEnvelope list result"
  dl_publish_result :: "bytes \<Rightarrow> ResultArtifact \<Rightarrow> bytes \<Rightarrow> 's \<Rightarrow> 's result"
  dl_get_result :: "bytes \<Rightarrow> 's \<Rightarrow> ResultArtifact option result"
  dl_set_tally_stalled :: "int \<Rightarrow> bytes \<Rightarrow> bool \<Rightarrow> bytes \<Rightarrow> int \<Rightarrow> 's \<Rightarrow> 's result"
  dl_verifiability_tier :: int

text \<open>The writes a client can issue, and one write on a backend; returned values are dropped.\<close>

datatype write_request =
    Register ElectionConfig bytes
  | Cancel bytes bytes
  | SubmitDkg bytes bytes "bytes list" bytes
  | SubmitBallot bytes BallotEnvelope bytes
  | SubmitAggregate bytes AggregateArtifact bytes
  | SubmitShare bytes DecryptionShareEnvelope bytes
  | PublishResult bytes ResultArtifact bytes
  | SetStalled bytes bool bytes int

fun do_write :: "'s ElectionDataLayer \<Rightarrow> int \<Rightarrow> write_request \<Rightarrow> 's \<Rightarrow> 's result" where
  "do_write P now (Register c sig) s = ebind (dl_register_election P c sig s) (\<lambda>(s', _). Inr s')"
| "do_write P now (Cancel e sig) s = dl_cancel_election P now e sig s"
| "do_write P now (SubmitDkg e pk com sig) s = dl_submit_dkg_result P e pk com sig s"
| "do_write P now (SubmitBallot e b sig) s = ebind (dl_submit_ballot P now e b sig s) (\<lambda>(s', _). Inr s')"
| "do_write P now (SubmitAggregate e a sig) s = dl_submit_aggregate P now e a sig s"
| "do_write P now (SubmitShare e sh sig) s = dl_submit_decryption_share P now e sh sig s"
| "do_write P now (PublishResult e r sig) s = dl_publish_result P e r sig s"
| "do_write P now (SetStalled e b sig t) s = dl_set_tally_stalled P now e b sig t s"

text \<open>A configuration object passed to \<open>register_election\<close> has been accepted by its constructor.\<close>

fun request_object_ok :: "write_request \<Rightarrow> bool" where
  "request_object_ok (Register c sig) = config_ok c"
| "request_object_ok _ = True"

inductive dl_step :: "'s ElectionDataLayer \<Rightarrow> 's \<Rightarrow> 's \<Rightarrow> bool" for P where
  issue: "request_object_ok w \<Longrightarrow> do_write P now w s = Inr s' \<Longrightarrow> dl_step P s s'"

inductive_cases dl_stepE: "dl_step P s s'"

text \<open>The search for the keyper whose signing key was recovered, numbered from \<open>i\<close>.\<close>

fun keyper_index :: "bytes \<Rightarrow> int \<Rightarrow> KeyperIdentity list \<Rightarrow> int option" where
  "keyper_index recovered i [] = None"
| "keyper_index recovered i (k # ks) = (if ki_signing_key k = recovered then Some i else keyper_index recovered (i + 1) ks)"

definition keyper_index_by_recovery :: "host \<Rightarrow> ElectionConfig \<Rightarrow> bytes \<Rightarrow> bytes \<Rightarrow> int result" where
  "keyper_index_by_recovery H config digest sig =
     (case recover_digest H digest sig of
        None \<Rightarrow> Inl WriteAuthorizationError
      | Some recovered \<Rightarrow>
          (case keyper_index recovered 1 (cfg_keypers config) of
             None \<Rightarrow> Inl WriteAuthorizationError
           | Some i \<Rightarrow> Inr i))"

text \<open>The pair of challenge and response of a share proof, \<open>proof[:32]\<close> and \<open>proof[32:]\<close>.\<close>

definition proof_ints :: "DecryptionShareEntry \<Rightarrow> int \<times> int" where
  "proof_ints e = (int_from_bytes (take 32 (se_proof e)), int_from_bytes (drop 32 (se_proof e)))"

lemma keyper_index_range: "keyper_index r i ks = Some j \<Longrightarrow> i \<le> j \<and> j < i + int (length ks)"
  by (induction ks arbitrary: i) (fastforce split: if_splits)+

lemma keyper_index_by_recovery_range:
  "keyper_index_by_recovery H c d sig = Inr i \<Longrightarrow> i \<in> {1..int (length (cfg_keypers c))}"
  by (auto simp: keyper_index_by_recovery_def split: option.splits dest!: keyper_index_range)

lemma keyper_index_nth:
  "distinct (map ki_signing_key ks) \<Longrightarrow> j < length ks \<Longrightarrow> keyper_index (ki_signing_key (ks ! j)) i ks = Some (i + int j)"
proof (induction ks arbitrary: i j)
  case (Cons k ks)
  then show ?case by (cases j) (auto simp: add.commute)
qed simp

section \<open>A concrete host and election\<close>

text \<open>
  Signatures that are the key itself, an identity hash and encodings that keep the values: enough
  for evaluating runs.
\<close>

definition sample_tally :: "(bytes \<times> bytes) list \<Rightarrow> int list \<Rightarrow> (int \<times> int) list \<Rightarrow> int \<Rightarrow> int \<Rightarrow> json" where
  "sample_tally cs adm exs w sw =
     JArr [JArr (map (\<lambda>(a, b). JArr [JStr (tohex a), JStr (tohex b)]) cs), JArr (map JInt adm),
           JArr (map (\<lambda>(s, c). JArr [JInt s, JInt c]) exs), JInt w, JInt sw]"

definition sample_host :: host where
  "sample_host = \<lparr>keccak = (\<lambda>m. m), recover_message = (\<lambda>d sig. Some sig), sign_message = (\<lambda>key d. key),
     abi_bytes_array = (\<lambda>bs. Inr (concat bs)), abi_pair_array = (\<lambda>ps. Inr []), abi_result = (\<lambda>ts ks b. Inr []),
     abi_tally = (\<lambda>cs adm exs w sw. Inr (encode_utf8 (dumps0 (\<lambda>j. []) (sample_tally cs adm exs w sw)))), py_repr = (\<lambda>j. [])\<rparr>"

definition sample_committee :: "bytes list" where
  "sample_committee = map (be 96) [13, 17, 21]"

definition sample_identity :: "int \<Rightarrow> KeyperIdentity" where
  "sample_identity i = \<lparr>ki_signing_key = be 32 (10 + i), ki_url = ''u''\<rparr>"

definition sample_election :: ElectionConfig where
  "sample_election = \<lparr>cfg_election_id = be 32 1, cfg_num_candidates = 2, cfg_budget = 3, cfg_mode = EXACT,
     cfg_variant = Variant_A, cfg_weighted = True, cfg_duplicate_policy = LAST_WINS, cfg_voting_start = 100, cfg_voting_end = 200,
     cfg_threshold = \<lparr>th_t = 2, th_n = 3\<rparr>, cfg_keypers = map sample_identity [1, 2, 3],
     cfg_eligibility_key = be 48 5, cfg_result_publisher_key = be 32 4, cfg_gateway_keys = [], cfg_admin_key = be 32 5,
     cfg_protocol_version = ''1'', cfg_scale = 1, cfg_self_submit_fee_wei = 0\<rparr>"

lemma sample_keys_inject [simp]: "be 32 (10 + i) = be 32 (10 + j) \<longleftrightarrow> i = j" if "0 \<le> i" "i < 100" "0 \<le> j" "j < 100" for i j :: int
  using that by (subst be_inject) auto

lemma sample_election_ok: "config_ok sample_election"
  using be_inject [of 11 32 12] be_inject [of 11 32 13] be_inject [of 12 32 13]
  by (simp add: config_ok_def sample_election_def Threshold_post_init_def ElectionConfig_post_init_def check_ballot_bounds_def
      MAX_NUM_CANDIDATES_def MAX_BUDGET_def MAX_PROOF_BRANCHES_def sample_identity_def)

text \<open>A sequence of timed requests; a refused one leaves the state as it is.\<close>

fun dl_run :: "'s ElectionDataLayer \<Rightarrow> (int \<times> write_request) list \<Rightarrow> 's \<Rightarrow> 's" where
  "dl_run P [] s = s"
| "dl_run P ((now, w) # ws) s = (case do_write P now w s of Inl e \<Rightarrow> dl_run P ws s | Inr s' \<Rightarrow> dl_run P ws s')"

end
