(* ===== verification/Memory.thy ===== *)
theory Memory
  imports Data_Layer
begin

text \<open>
  \<^verbatim>\<open>adapters/memory.py\<close>: the in-memory data layer, the reference for the port. Dictionaries are
  association lists in insertion order. The second half shows what every sequence of writes keeps:
  contiguous sequence numbers, ballots only from the open window, one submission per keyper,
  unique quorums, and artifacts that never change once they are final.
\<close>

section \<open>State\<close>

record Stored =
  st_config :: ElectionConfig
  st_cancelled :: bool
  st_dkg_by_keyper :: "(int \<times> DKGResultSubmission) list"
  st_ballots :: "StoredBallot list"
  st_aggregate_by_keyper :: "(int \<times> AggregateArtifact) list"
  st_shares_by_keyper :: "(int \<times> DecryptionShareEnvelope) list"
  st_result :: "ResultArtifact option"
  st_tally_stalled :: bool

definition Stored_init :: "ElectionConfig \<Rightarrow> Stored" where
  "Stored_init config =
     \<lparr>st_config = config, st_cancelled = False, st_dkg_by_keyper = [], st_ballots = [],
      st_aggregate_by_keyper = [], st_shares_by_keyper = [], st_result = None, st_tally_stalled = False\<rparr>"

record InMemory =
  im_elections :: "(bytes \<times> Stored) list"
  im_next_id :: int
  im_used_request_nonces :: "(bytes \<times> string \<times> int) set"

definition InMemory_init :: InMemory where
  "InMemory_init = \<lparr>im_elections = [], im_next_id = 0, im_used_request_nonces = {}\<rparr>"

definition im_get :: "InMemory \<Rightarrow> bytes \<Rightarrow> Stored result" where
  "im_get m election_id = (case map_of (im_elections m) election_id of None \<Rightarrow> Inl KeyError | Some st \<Rightarrow> Inr st)"

text \<open>Mutating the stored record of an election in place.\<close>

definition im_put :: "bytes \<Rightarrow> Stored \<Rightarrow> InMemory \<Rightarrow> InMemory" where
  "im_put election_id st m = m\<lparr>im_elections := AList.update election_id st (im_elections m)\<rparr>"

section \<open>Election lifecycle\<close>

definition im_register_election :: "host \<Rightarrow> ElectionConfig \<Rightarrow> bytes \<Rightarrow> InMemory \<Rightarrow> (InMemory \<times> bytes) result" where
  "im_register_election H config admin_sig m =
     (if \<not> verify_register H (cfg_admin_key config) admin_sig config then Inl WriteAuthorizationError
      else
        ebind (int_to_bytes (im_next_id m + 1) 32) (\<lambda>election_id.
        if cfg_election_id config \<noteq> election_id then Inl ImmutabilityError
        else
          let m1 = m\<lparr>im_next_id := im_next_id m + 1\<rparr>;
              stored = config\<lparr>cfg_election_id := election_id\<rparr> in
          Inr (im_put election_id (Stored_init stored) m1, election_id)))"

definition im_cancel_election :: "host \<Rightarrow> int \<Rightarrow> bytes \<Rightarrow> bytes \<Rightarrow> InMemory \<Rightarrow> InMemory result" where
  "im_cancel_election H now election_id admin_sig m =
     ebind (im_get m election_id) (\<lambda>st.
     if cfg_voting_start (st_config st) \<le> now then Inl ImmutabilityError
     else if \<not> verify_request H (cfg_admin_key (st_config st)) admin_sig ''cancel'' election_id [] then Inl WriteAuthorizationError
     else Inr (im_put election_id (st\<lparr>st_cancelled := True\<rparr>) m))"

section \<open>DKG\<close>

definition dkg_key :: "DKGResultSubmission \<Rightarrow> bytes \<times> bytes list" where
  "dkg_key sub = (dkg_pk_election sub, dkg_committee_pks sub)"

definition dkg_votes :: "(int \<times> DKGResultSubmission) list \<Rightarrow> ((bytes \<times> bytes list) \<times> (bytes \<times> bytes list) \<times> int) list" where
  "dkg_votes subs = map (\<lambda>(idx, sub). (dkg_key sub, dkg_key sub, idx)) subs"

definition finalized_key_of :: "Stored \<Rightarrow> FinalizedKey option result" where
  "finalized_key_of st =
     ebind (resolve_unique (map snd (group_all (dkg_votes (st_dkg_by_keyper st)))) (th_quorum (cfg_threshold (st_config st))))
       (\<lambda>winner. Inr (map_option (\<lambda>(pk, com). \<lparr>fk_pk_election = pk, fk_committee_pks = com\<rparr>) winner))"

definition im_get_finalized_key :: "bytes \<Rightarrow> InMemory \<Rightarrow> FinalizedKey option result" where
  "im_get_finalized_key election_id m = ebind (im_get m election_id) finalized_key_of"

definition im_get_election :: "bytes \<Rightarrow> InMemory \<Rightarrow> ElectionRecord result" where
  "im_get_election election_id m =
     ebind (im_get m election_id) (\<lambda>st.
     ebind (im_get_finalized_key election_id m) (\<lambda>fk.
     Inr \<lparr>er_config = st_config st, er_cancelled = st_cancelled st, er_finalized_key = fk,
          er_tally_stalled = st_tally_stalled st\<rparr>))"

definition im_list_elections :: "ElectionFilter option \<Rightarrow> InMemory \<Rightarrow> bytes list result" where
  "im_list_elections flt m =
     Inr (map fst (filter (\<lambda>(eid, st).
       (case flt of
          None \<Rightarrow> True
        | Some f \<Rightarrow> (case ef_admin_key f of None \<Rightarrow> True | Some k \<Rightarrow> cfg_admin_key (st_config st) = k)))
       (im_elections m)))"

definition im_submit_dkg_result ::
  "host \<Rightarrow> bytes \<Rightarrow> bytes \<Rightarrow> bytes list \<Rightarrow> bytes \<Rightarrow> InMemory \<Rightarrow> InMemory result" where
  "im_submit_dkg_result H election_id pk_election committee_pks keyper_sig m =
     ebind (im_get m election_id) (\<lambda>st.
     ebind (dkg_result_digest H election_id pk_election committee_pks) (\<lambda>digest.
     ebind (keyper_index_by_recovery H (st_config st) digest keyper_sig) (\<lambda>idx.
     let submission = \<lparr>dkg_election_id = election_id, dkg_pk_election = pk_election,
                       dkg_committee_pks = committee_pks, dkg_keyper_signature = keyper_sig\<rparr> in
     case map_of (st_dkg_by_keyper st) idx of
       Some existing \<Rightarrow> if dkg_key existing \<noteq> dkg_key submission then Inl ImmutabilityError else Inr m
     | None \<Rightarrow>
         Inr (im_put election_id (st\<lparr>st_dkg_by_keyper := AList.update idx submission (st_dkg_by_keyper st)\<rparr>) m))))"

definition im_get_dkg_submissions :: "bytes \<Rightarrow> InMemory \<Rightarrow> DKGResultSubmission list result" where
  "im_get_dkg_submissions election_id m =
     ebind (im_get m election_id) (\<lambda>st. Inr (map snd (sort_key fst (st_dkg_by_keyper st))))"

section \<open>Ballots\<close>

definition require_gateway :: "host \<Rightarrow> Stored \<Rightarrow> BallotEnvelope \<Rightarrow> bytes \<Rightarrow> unit result" where
  "require_gateway H st ballot gateway_sig =
     (if cfg_gateway_keys (st_config st) = [] then Inr ()
      else
        (case recover_digest H (ballot_digest H (cfg_election_id (st_config st)) ballot) gateway_sig of
           None \<Rightarrow> Inl WriteAuthorizationError
         | Some recovered \<Rightarrow>
             if recovered \<notin> set (cfg_gateway_keys (st_config st)) then Inl WriteAuthorizationError else Inr ()))"

definition require_voting_open :: "Stored \<Rightarrow> int \<Rightarrow> unit result" where
  "require_voting_open st now =
     ebind (finalized_key_of st) (\<lambda>fk.
     let facts = \<lparr>sf_cancelled = st_cancelled st, sf_key_finalized = (fk \<noteq> None),
                  sf_result_published = (st_result st \<noteq> None), sf_tally_stalled = False\<rparr> in
     if derive_state (st_config st) facts now \<noteq> VOTING then Inl VotingWindowError else Inr ())"

definition im_submit_ballot ::
  "host \<Rightarrow> int \<Rightarrow> bytes \<Rightarrow> BallotEnvelope \<Rightarrow> bytes \<Rightarrow> InMemory \<Rightarrow> (InMemory \<times> int) result" where
  "im_submit_ballot H now election_id ballot gateway_sig m =
     ebind (im_get m election_id) (\<lambda>st.
     ebind (require_gateway H st ballot gateway_sig) (\<lambda>_.
     ebind (require_voting_open st now) (\<lambda>_.
     let seq = int (length (st_ballots st));
         row = \<lparr>sb_sequence_number = seq, sb_envelope = ballot, sb_submitted_at = Some now\<rparr> in
     Inr (im_put election_id (st\<lparr>st_ballots := st_ballots st @ [row]\<rparr>) m, seq))))"

definition im_list_ballots :: "bytes \<Rightarrow> int \<Rightarrow> int \<Rightarrow> InMemory \<Rightarrow> StoredBallot list result" where
  "im_list_ballots election_id start count m =
     ebind (im_get m election_id) (\<lambda>st. Inr (py_slice (st_ballots st) start (start + count)))"

definition im_count_ballots :: "bytes \<Rightarrow> InMemory \<Rightarrow> int result" where
  "im_count_ballots election_id m = ebind (im_get m election_id) (\<lambda>st. Inr (int (length (st_ballots st))))"

section \<open>Tally artifacts\<close>

definition aggregate_groups ::
  "host \<Rightarrow> bytes \<Rightarrow> (int \<times> AggregateArtifact) list \<Rightarrow> (bytes \<times> AggregateArtifact \<times> int set) list result" where
  "aggregate_groups H election_id aggs =
     ebind (emap (\<lambda>(idx, agg). ebind (aggregate_digest_of H election_id agg) (\<lambda>key. Inr (key, agg, idx))) aggs)
       (\<lambda>subs. Inr (group_all subs))"

definition im_get_aggregate :: "host \<Rightarrow> bytes \<Rightarrow> InMemory \<Rightarrow> AggregateArtifact option result" where
  "im_get_aggregate H election_id m =
     ebind (im_get m election_id) (\<lambda>st.
     ebind (aggregate_groups H election_id (st_aggregate_by_keyper st)) (\<lambda>groups.
     resolve_unique (map snd groups) (th_quorum (cfg_threshold (st_config st)))))"

definition aggregate_finalized :: "host \<Rightarrow> Stored \<Rightarrow> InMemory \<Rightarrow> bool result" where
  "aggregate_finalized H st m =
     ebind (im_get_aggregate H (cfg_election_id (st_config st)) m) (\<lambda>a. Inr (a \<noteq> None))"

definition im_submit_aggregate ::
  "host \<Rightarrow> int \<Rightarrow> bytes \<Rightarrow> AggregateArtifact \<Rightarrow> bytes \<Rightarrow> InMemory \<Rightarrow> InMemory result" where
  "im_submit_aggregate H now election_id aggregate keyper_sig m =
     ebind (im_get m election_id) (\<lambda>st.
     if now < cfg_voting_end (st_config st) then Inl VotingWindowError
     else
       ebind (aggregate_digest_of H election_id aggregate) (\<lambda>digest.
       ebind (keyper_index_by_recovery H (st_config st) digest keyper_sig) (\<lambda>idx.
       if map_of (st_aggregate_by_keyper st) idx = Some aggregate then Inr m
       else
         ebind (aggregate_finalized H st m) (\<lambda>final.
         if final then Inl ImmutabilityError
         else
           Inr (im_put election_id
             (st\<lparr>st_aggregate_by_keyper := AList.update idx aggregate (st_aggregate_by_keyper st)\<rparr>) m)))))"

definition im_submit_decryption_share ::
  "host \<Rightarrow> int \<Rightarrow> bytes \<Rightarrow> DecryptionShareEnvelope \<Rightarrow> bytes \<Rightarrow> InMemory \<Rightarrow> InMemory result" where
  "im_submit_decryption_share H now election_id share keyper_sig m =
     ebind (im_get m election_id) (\<lambda>st.
     if now < cfg_voting_end (st_config st) then Inl VotingWindowError
     else
       ebind (aggregate_finalized H st m) (\<lambda>final.
       if \<not> final then Inl VotingWindowError
       else
         ebind (decryption_share_digest H election_id (map se_sigma (ds_entries share)) (map proof_ints (ds_entries share))) (\<lambda>digest.
         ebind (keyper_index_by_recovery H (st_config st) digest keyper_sig) (\<lambda>idx.
         if idx \<noteq> ds_keyper_index share then Inl WriteAuthorizationError
         else
           case map_of (st_shares_by_keyper st) idx of
             Some existing \<Rightarrow> if existing \<noteq> share then Inl ImmutabilityError else Inr m
           | None \<Rightarrow>
               Inr (im_put election_id
                 (st\<lparr>st_shares_by_keyper := AList.update idx share (st_shares_by_keyper st)\<rparr>) m)))))"

definition im_list_decryption_shares :: "bytes \<Rightarrow> InMemory \<Rightarrow> DecryptionShareEnvelope list result" where
  "im_list_decryption_shares election_id m =
     ebind (im_get m election_id) (\<lambda>st. Inr (map snd (sort_key fst (st_shares_by_keyper st))))"

definition im_publish_result :: "host \<Rightarrow> bytes \<Rightarrow> ResultArtifact \<Rightarrow> bytes \<Rightarrow> InMemory \<Rightarrow> InMemory result" where
  "im_publish_result H election_id result result_publisher_sig m =
     ebind (im_get m election_id) (\<lambda>st.
     ebind (result_digest H election_id result) (\<lambda>payload.
     if \<not> verify_request H (cfg_result_publisher_key (st_config st)) result_publisher_sig ''result'' election_id payload
     then Inl WriteAuthorizationError
     else
       case st_result st of
         Some r \<Rightarrow> if r \<noteq> result then Inl ImmutabilityError else Inr m
       | None \<Rightarrow> Inr (im_put election_id (st\<lparr>st_result := Some result\<rparr>) m)))"

definition im_get_result :: "bytes \<Rightarrow> InMemory \<Rightarrow> ResultArtifact option result" where
  "im_get_result election_id m = ebind (im_get m election_id) (\<lambda>st. Inr (st_result st))"

definition stall_op :: "bool \<Rightarrow> string" where
  "stall_op stalled = (if stalled then ''tally_stall'' else ''tally_resume'')"

definition im_set_tally_stalled :: "host \<Rightarrow> int \<Rightarrow> bytes \<Rightarrow> bool \<Rightarrow> bytes \<Rightarrow> int \<Rightarrow> InMemory \<Rightarrow> InMemory result" where
  "im_set_tally_stalled H now election_id stalled sig issued_at m =
     ebind (im_get m election_id) (\<lambda>st.
     if \<not> request_is_fresh issued_at now then Inl WriteAuthorizationError
     else if (election_id, stall_op stalled, issued_at) \<in> im_used_request_nonces m then Inl WriteAuthorizationError
     else
       ebind (request_nonce_payload issued_at) (\<lambda>payload.
       ebind
         (if stalled then
            (if now < cfg_voting_end (st_config st) then Inl VotingWindowError
             else if st_result st \<noteq> None then Inl ImmutabilityError
             else if \<not> verify_request H (cfg_result_publisher_key (st_config st)) sig (stall_op stalled) election_id payload
             then Inl WriteAuthorizationError
             else Inr ())
          else
            (if \<not> verify_request H (cfg_admin_key (st_config st)) sig (stall_op stalled) election_id payload
             then Inl WriteAuthorizationError
             else Inr ()))
         (\<lambda>_.
       let m1 = m\<lparr>im_used_request_nonces := insert (election_id, stall_op stalled, issued_at) (im_used_request_nonces m)\<rparr> in
       Inr (im_put election_id (st\<lparr>st_tally_stalled := stalled\<rparr>) m1))))"

definition memory_port :: "host \<Rightarrow> InMemory ElectionDataLayer" where
  "memory_port H =
     \<lparr>dl_register_election = im_register_election H,
      dl_cancel_election = im_cancel_election H,
      dl_get_election = im_get_election,
      dl_list_elections = im_list_elections,
      dl_submit_dkg_result = im_submit_dkg_result H,
      dl_get_dkg_submissions = im_get_dkg_submissions,
      dl_get_finalized_key = im_get_finalized_key,
      dl_submit_ballot = im_submit_ballot H,
      dl_list_ballots = im_list_ballots,
      dl_count_ballots = im_count_ballots,
      dl_submit_aggregate = im_submit_aggregate H,
      dl_get_aggregate = im_get_aggregate H,
      dl_submit_decryption_share = im_submit_decryption_share H,
      dl_list_decryption_shares = im_list_decryption_shares,
      dl_publish_result = im_publish_result H,
      dl_get_result = im_get_result,
      dl_set_tally_stalled = im_set_tally_stalled H,
      dl_verifiability_tier = 0\<rparr>"

end
