(* ===== verification/Store.thy ===== *)
theory Store
  imports Memory
begin

text \<open>
  \<^verbatim>\<open>adapters/db/store.py\<close> with the tables of \<^verbatim>\<open>adapters/db/schema.py\<close>: the relational data layer.
  A table is the list of its rows in whatever order the server keeps them; a statement without
  \<open>ORDER BY\<close> reads them in that order. Artifacts are stored as their JSON form and decoded when
  they are read. Every method is one transaction, so a raised error leaves the tables unchanged;
  row locks and the advisory lock only serialise transactions.
\<close>

section \<open>Tables\<close>

text \<open>
  The ranges of the columns: a \<open>BIGINT\<close> is a signed 64-bit integer, a \<open>JSONB\<close> text has no NUL
  character. A statement with a value outside raises. The value a failed registration has drawn
  from the sequence stays drawn in the server; as the state after an error is the state before,
  the model does not show this. Row counts and keyper numbers are taken to fit their columns.
\<close>

definition bigint :: "int \<Rightarrow> bool" where
  "bigint n \<longleftrightarrow> - (2 ^ 63) \<le> n \<and> n < 2 ^ 63"

fun jsonb_ok :: "json \<Rightarrow> bool" where
  "jsonb_ok (JStr s) = (CHR 0x00 \<notin> set s)"
| "jsonb_ok (JArr xs) = list_all jsonb_ok xs"
| "jsonb_ok (JObj kvs) = list_all (\<lambda>(k, v). CHR 0x00 \<notin> set k \<and> jsonb_ok v) kvs"
| "jsonb_ok _ = True"

record ElectionRow =
  el_election_id :: bytes
  el_config :: json
  el_admin_key :: bytes
  el_voting_start :: int
  el_cancelled :: bool
  el_tally_stalled :: bool

record Postgres =
  pg_seq_last :: int
  pg_seq_called :: bool
  pg_elections :: "ElectionRow list"
  pg_dkg_submissions :: "(bytes \<times> int \<times> json) list"
  pg_ballots :: "(bytes \<times> int \<times> json \<times> int) list"
  pg_decryption_shares :: "(bytes \<times> int \<times> json) list"
  pg_aggregates :: "(bytes \<times> int \<times> json) list"
  pg_results :: "(bytes \<times> json) list"
  pg_request_nonces :: "(bytes \<times> string \<times> int) list"

text \<open>\<open>init_schema\<close> on an empty database, and \<open>truncate_all\<close>.\<close>

definition Postgres_init :: Postgres where
  "Postgres_init = \<lparr>pg_seq_last = 1, pg_seq_called = False, pg_elections = [], pg_dkg_submissions = [], pg_ballots = [],
     pg_decryption_shares = [], pg_aggregates = [], pg_results = [], pg_request_nonces = []\<rparr>"

definition ps_truncate_all :: "Postgres \<Rightarrow> Postgres" where
  "ps_truncate_all pg = Postgres_init"

definition election_row :: "Postgres \<Rightarrow> bytes \<Rightarrow> ElectionRow result" where
  "election_row pg election_id =
     (case find (\<lambda>row. el_election_id row = election_id) (pg_elections pg) of None \<Rightarrow> Inl KeyError | Some row \<Rightarrow> Inr row)"

text \<open>\<open>UPDATE elections SET ... WHERE election_id = ...\<close>.\<close>

definition update_election :: "bytes \<Rightarrow> (ElectionRow \<Rightarrow> ElectionRow) \<Rightarrow> Postgres \<Rightarrow> Postgres" where
  "update_election election_id f pg =
     pg\<lparr>pg_elections := map (\<lambda>row. if el_election_id row = election_id then f row else row) (pg_elections pg)\<rparr>"

definition ps_config :: "host \<Rightarrow> Postgres \<Rightarrow> bytes \<Rightarrow> ElectionConfig result" where
  "ps_config H pg election_id = ebind (election_row pg election_id) (\<lambda>row. dec_config (py_repr H) (el_config row))"

text \<open>The rows of one election in a table keyed by election and keyper.\<close>

definition rows_of :: "bytes \<Rightarrow> (bytes \<times> 'k \<times> 'v) list \<Rightarrow> ('k \<times> 'v) list" where
  "rows_of election_id table = map snd (filter (\<lambda>row. fst row = election_id) table)"

section \<open>Election lifecycle\<close>

definition seq_peek :: "Postgres \<Rightarrow> int" where
  "seq_peek pg = (if pg_seq_called pg then pg_seq_last pg + 1 else pg_seq_last pg)"

definition ps_register_election :: "host \<Rightarrow> ElectionConfig \<Rightarrow> bytes \<Rightarrow> Postgres \<Rightarrow> (Postgres \<times> bytes) result" where
  "ps_register_election H config admin_sig pg =
     (if \<not> verify_register H (cfg_admin_key config) admin_sig config then Inl WriteAuthorizationError
      else
        ebind (int_to_bytes (seq_peek pg) 32) (\<lambda>expected.
        if cfg_election_id config \<noteq> expected then Inl ImmutabilityError
        else
          let next_id = seq_peek pg in
          ebind (int_to_bytes next_id 32) (\<lambda>election_id.
          if election_id \<in> el_election_id ` set (pg_elections pg) then Inl DatabaseError
          else
            let stored = config\<lparr>cfg_election_id := election_id\<rparr>;
                row = \<lparr>el_election_id = election_id, el_config = enc_config stored, el_admin_key = cfg_admin_key stored,
                       el_voting_start = cfg_voting_start stored, el_cancelled = False, el_tally_stalled = False\<rparr> in
            if \<not> (bigint (el_voting_start row) \<and> jsonb_ok (el_config row)) then Inl DatabaseError
            else Inr (pg\<lparr>pg_seq_last := next_id, pg_seq_called := True, pg_elections := pg_elections pg @ [row]\<rparr>, election_id))))"

definition ps_cancel_election :: "host \<Rightarrow> int \<Rightarrow> bytes \<Rightarrow> bytes \<Rightarrow> Postgres \<Rightarrow> Postgres result" where
  "ps_cancel_election H now election_id admin_sig pg =
     ebind (election_row pg election_id) (\<lambda>row.
     if el_voting_start row \<le> now then Inl ImmutabilityError
     else if \<not> verify_request H (el_admin_key row) admin_sig ''cancel'' election_id [] then Inl WriteAuthorizationError
     else Inr (update_election election_id (\<lambda>row. row\<lparr>el_cancelled := True\<rparr>) pg))"

text \<open>\<open>_finalized_key\<close>: the submissions are read without an order.\<close>

definition ps_finalized_key :: "ElectionConfig \<Rightarrow> Postgres \<Rightarrow> FinalizedKey option result" where
  "ps_finalized_key config pg =
     ebind (emap (\<lambda>(idx, sub_json). ebind (dec_dkg_result sub_json) (\<lambda>sub. Inr (idx, sub)))
              (rows_of (cfg_election_id config) (pg_dkg_submissions pg))) (\<lambda>subs.
     ebind (resolve_unique (map snd (group_all (dkg_votes subs))) (th_quorum (cfg_threshold config))) (\<lambda>winner.
     Inr (map_option (\<lambda>(pk, com). \<lparr>fk_pk_election = pk, fk_committee_pks = com\<rparr>) winner)))"

definition ps_get_election :: "host \<Rightarrow> bytes \<Rightarrow> Postgres \<Rightarrow> ElectionRecord result" where
  "ps_get_election H election_id pg =
     ebind (election_row pg election_id) (\<lambda>row.
     ebind (dec_config (py_repr H) (el_config row)) (\<lambda>config.
     ebind (ps_finalized_key config pg) (\<lambda>fk.
     Inr \<lparr>er_config = config, er_cancelled = el_cancelled row, er_finalized_key = fk,
          er_tally_stalled = el_tally_stalled row\<rparr>)))"

text \<open>\<open>ORDER BY election_id\<close> on \<open>BYTEA\<close>, the lexicographic order of the bytes.\<close>

definition bytes_key :: "bytes \<Rightarrow> int list" where
  "bytes_key b = map uint b"

definition ps_list_elections :: "ElectionFilter option \<Rightarrow> Postgres \<Rightarrow> bytes list result" where
  "ps_list_elections flt pg =
     Inr (map el_election_id (sort_key (\<lambda>row. bytes_key (el_election_id row)) (filter (\<lambda>row.
       (case flt of
          None \<Rightarrow> True
        | Some f \<Rightarrow> (case ef_admin_key f of None \<Rightarrow> True | Some k \<Rightarrow> el_admin_key row = k)))
       (pg_elections pg))))"

section \<open>DKG\<close>

definition ps_submit_dkg_result ::
  "host \<Rightarrow> bytes \<Rightarrow> bytes \<Rightarrow> bytes list \<Rightarrow> bytes \<Rightarrow> Postgres \<Rightarrow> Postgres result" where
  "ps_submit_dkg_result H election_id pk_election committee_pks keyper_sig pg =
     ebind (ps_config H pg election_id) (\<lambda>config.
     ebind (dkg_result_digest H election_id pk_election committee_pks) (\<lambda>digest.
     ebind (keyper_index_by_recovery H config digest keyper_sig) (\<lambda>idx.
     let submission = \<lparr>dkg_election_id = election_id, dkg_pk_election = pk_election,
                       dkg_committee_pks = committee_pks, dkg_keyper_signature = keyper_sig\<rparr> in
     case map_of (rows_of election_id (pg_dkg_submissions pg)) idx of
       Some existing \<Rightarrow>
         ebind (dec_dkg_result existing) (\<lambda>prev.
         if dkg_key prev \<noteq> dkg_key submission then Inl ImmutabilityError else Inr pg)
     | None \<Rightarrow>
         Inr (pg\<lparr>pg_dkg_submissions := pg_dkg_submissions pg @ [(election_id, idx, enc_dkg_result submission)]\<rparr>))))"

definition ps_get_dkg_submissions :: "bytes \<Rightarrow> Postgres \<Rightarrow> DKGResultSubmission list result" where
  "ps_get_dkg_submissions election_id pg =
     emap dec_dkg_result (map snd (sort_key fst (rows_of election_id (pg_dkg_submissions pg))))"

definition ps_get_finalized_key :: "host \<Rightarrow> bytes \<Rightarrow> Postgres \<Rightarrow> FinalizedKey option result" where
  "ps_get_finalized_key H election_id pg =
     ebind (ps_config H pg election_id) (\<lambda>config. ps_finalized_key config pg)"

section \<open>Ballots\<close>

definition ps_result_row :: "bytes \<Rightarrow> Postgres \<Rightarrow> json option" where
  "ps_result_row election_id pg = map_of (pg_results pg) election_id"

definition ps_require_voting_open :: "host \<Rightarrow> bytes \<Rightarrow> int \<Rightarrow> Postgres \<Rightarrow> unit result" where
  "ps_require_voting_open H election_id now pg =
     ebind (ps_config H pg election_id) (\<lambda>config.
     ebind (election_row pg election_id) (\<lambda>row.
     ebind (ps_finalized_key config pg) (\<lambda>fk.
     let facts = \<lparr>sf_cancelled = el_cancelled row, sf_key_finalized = (fk \<noteq> None),
                  sf_result_published = (ps_result_row election_id pg \<noteq> None), sf_tally_stalled = False\<rparr> in
     if derive_state config facts now \<noteq> VOTING then Inl VotingWindowError else Inr ())))"

text \<open>\<open>SELECT COALESCE(MAX(seq) + 1, 0)\<close>.\<close>

definition next_seq :: "bytes \<Rightarrow> Postgres \<Rightarrow> int" where
  "next_seq election_id pg =
     (case map fst (rows_of election_id (pg_ballots pg)) of [] \<Rightarrow> 0 | s # ss \<Rightarrow> foldl max s ss + 1)"

definition ps_submit_ballot ::
  "host \<Rightarrow> int \<Rightarrow> bytes \<Rightarrow> BallotEnvelope \<Rightarrow> bytes \<Rightarrow> Postgres \<Rightarrow> (Postgres \<times> int) result" where
  "ps_submit_ballot H now election_id ballot gateway_sig pg =
     ebind (ps_config H pg election_id) (\<lambda>config.
     ebind
       (if cfg_gateway_keys config \<noteq> [] then
          (case recover_digest H (ballot_digest H election_id ballot) gateway_sig of
             None \<Rightarrow> Inl WriteAuthorizationError
           | Some recovered \<Rightarrow>
               if recovered \<notin> set (cfg_gateway_keys config) then Inl WriteAuthorizationError else Inr ())
        else Inr ()) (\<lambda>_.
     ebind (election_row pg election_id) (\<lambda>locked.
     ebind (ps_require_voting_open H election_id now pg) (\<lambda>_.
     let seq = next_seq election_id pg in
     if \<not> bigint now then Inl DatabaseError
     else Inr (pg\<lparr>pg_ballots := pg_ballots pg @ [(election_id, seq, enc_ballot ballot, now)]\<rparr>, seq)))))"

definition ps_list_ballots :: "bytes \<Rightarrow> int \<Rightarrow> int \<Rightarrow> Postgres \<Rightarrow> StoredBallot list result" where
  "ps_list_ballots election_id start count pg =
     (if count < 0 \<or> \<not> bigint count then Inl DatabaseError
      else
        emap (\<lambda>(seq, ballot, submitted_at).
            ebind (dec_ballot ballot) (\<lambda>env.
            Inr \<lparr>sb_sequence_number = seq, sb_envelope = env, sb_submitted_at = Some submitted_at\<rparr>))
          (take (nat count) (sort_key fst (filter (\<lambda>row. start \<le> fst row) (rows_of election_id (pg_ballots pg))))))"

definition ps_count_ballots :: "bytes \<Rightarrow> Postgres \<Rightarrow> int result" where
  "ps_count_ballots election_id pg = Inr (int (length (rows_of election_id (pg_ballots pg))))"

section \<open>Tally artifacts\<close>

definition ps_aggregate_group_counts ::
  "host \<Rightarrow> bytes \<Rightarrow> Postgres \<Rightarrow> (bytes \<times> AggregateArtifact \<times> int set) list result" where
  "ps_aggregate_group_counts H election_id pg =
     ebind (emap (\<lambda>(idx, agg_json).
              ebind (dec_aggregate agg_json) (\<lambda>agg.
              ebind (aggregate_digest_of H election_id agg) (\<lambda>key. Inr (key, agg, idx))))
            (rows_of election_id (pg_aggregates pg)))
       (\<lambda>subs. Inr (group_all subs))"

definition ps_aggregate_finalized :: "host \<Rightarrow> ElectionConfig \<Rightarrow> Postgres \<Rightarrow> bool result" where
  "ps_aggregate_finalized H config pg =
     ebind (ps_aggregate_group_counts H (cfg_election_id config) pg) (\<lambda>groups.
     ebind (resolve_unique (map snd groups) (th_quorum (cfg_threshold config))) (\<lambda>a. Inr (a \<noteq> None)))"

definition ps_get_aggregate :: "host \<Rightarrow> bytes \<Rightarrow> Postgres \<Rightarrow> AggregateArtifact option result" where
  "ps_get_aggregate H election_id pg =
     ebind (ps_config H pg election_id) (\<lambda>config.
     ebind (ps_aggregate_group_counts H election_id pg) (\<lambda>groups.
     resolve_unique (map snd groups) (th_quorum (cfg_threshold config))))"

text \<open>\<open>INSERT ... ON CONFLICT (election_id, keyper_index) DO UPDATE\<close>: the new row version is written last.\<close>

definition upsert :: "bytes \<Rightarrow> int \<Rightarrow> json \<Rightarrow> (bytes \<times> int \<times> json) list \<Rightarrow> (bytes \<times> int \<times> json) list" where
  "upsert election_id idx v table =
     filter (\<lambda>(e, i, _). \<not> (e = election_id \<and> i = idx)) table @ [(election_id, idx, v)]"

definition ps_submit_aggregate ::
  "host \<Rightarrow> int \<Rightarrow> bytes \<Rightarrow> AggregateArtifact \<Rightarrow> bytes \<Rightarrow> Postgres \<Rightarrow> Postgres result" where
  "ps_submit_aggregate H now election_id aggregate keyper_sig pg =
     ebind (ps_config H pg election_id) (\<lambda>config.
     if now < cfg_voting_end config then Inl VotingWindowError
     else
       ebind (aggregate_digest_of H election_id aggregate) (\<lambda>digest.
       ebind (keyper_index_by_recovery H config digest keyper_sig) (\<lambda>idx.
       ebind (election_row pg election_id) (\<lambda>locked.
       ebind (case map_of (rows_of election_id (pg_aggregates pg)) idx of
                None \<Rightarrow> Inr False
              | Some existing \<Rightarrow> ebind (dec_aggregate existing) (\<lambda>a. Inr (a = aggregate))) (\<lambda>same.
       if same then Inr pg
       else
         ebind (ps_aggregate_finalized H config pg) (\<lambda>final.
         if final then Inl ImmutabilityError
         else Inr (pg\<lparr>pg_aggregates := upsert election_id idx (enc_aggregate aggregate) (pg_aggregates pg)\<rparr>)))))))"

definition ps_submit_decryption_share ::
  "host \<Rightarrow> int \<Rightarrow> bytes \<Rightarrow> DecryptionShareEnvelope \<Rightarrow> bytes \<Rightarrow> Postgres \<Rightarrow> Postgres result" where
  "ps_submit_decryption_share H now election_id share keyper_sig pg =
     ebind (ps_config H pg election_id) (\<lambda>config.
     if now < cfg_voting_end config then Inl VotingWindowError
     else
       ebind (ps_aggregate_finalized H config pg) (\<lambda>final.
       if \<not> final then Inl VotingWindowError
       else
         ebind (decryption_share_digest H election_id (map se_sigma (ds_entries share)) (map proof_ints (ds_entries share))) (\<lambda>digest.
         ebind (keyper_index_by_recovery H config digest keyper_sig) (\<lambda>idx.
         if idx \<noteq> ds_keyper_index share then Inl WriteAuthorizationError
         else
           case map_of (rows_of election_id (pg_decryption_shares pg)) idx of
             Some existing \<Rightarrow>
               ebind (dec_decryption_share existing) (\<lambda>s. if s \<noteq> share then Inl ImmutabilityError else Inr pg)
           | None \<Rightarrow>
               Inr (pg\<lparr>pg_decryption_shares := pg_decryption_shares pg @ [(election_id, idx, enc_decryption_share share)]\<rparr>)))))"

definition ps_list_decryption_shares :: "bytes \<Rightarrow> Postgres \<Rightarrow> DecryptionShareEnvelope list result" where
  "ps_list_decryption_shares election_id pg =
     emap dec_decryption_share (map snd (sort_key fst (rows_of election_id (pg_decryption_shares pg))))"

definition ps_publish_result :: "host \<Rightarrow> bytes \<Rightarrow> ResultArtifact \<Rightarrow> bytes \<Rightarrow> Postgres \<Rightarrow> Postgres result" where
  "ps_publish_result H election_id result result_publisher_sig pg =
     ebind (ps_config H pg election_id) (\<lambda>config.
     ebind (result_digest H election_id result) (\<lambda>payload.
     if \<not> verify_request H (cfg_result_publisher_key config) result_publisher_sig ''result'' election_id payload
     then Inl WriteAuthorizationError
     else
       case ps_result_row election_id pg of
         Some existing \<Rightarrow> ebind (dec_result existing) (\<lambda>r. if r \<noteq> result then Inl ImmutabilityError else Inr pg)
       | None \<Rightarrow> Inr (pg\<lparr>pg_results := pg_results pg @ [(election_id, enc_result result)]\<rparr>)))"

definition ps_set_tally_stalled :: "host \<Rightarrow> int \<Rightarrow> bytes \<Rightarrow> bool \<Rightarrow> bytes \<Rightarrow> int \<Rightarrow> Postgres \<Rightarrow> Postgres result" where
  "ps_set_tally_stalled H now election_id stalled sig issued_at pg =
     ebind (ps_config H pg election_id) (\<lambda>config.
     if \<not> request_is_fresh issued_at now then Inl WriteAuthorizationError
     else
       ebind (request_nonce_payload issued_at) (\<lambda>payload.
       ebind
         (if stalled then
            (if now < cfg_voting_end config then Inl VotingWindowError
             else if ps_result_row election_id pg \<noteq> None then Inl ImmutabilityError
             else if \<not> verify_request H (cfg_result_publisher_key config) sig (stall_op stalled) election_id payload
             then Inl WriteAuthorizationError
             else Inr ())
          else
            (if \<not> verify_request H (cfg_admin_key config) sig (stall_op stalled) election_id payload
             then Inl WriteAuthorizationError
             else Inr ()))
         (\<lambda>_.
       if \<not> bigint issued_at then Inl DatabaseError
       else if (election_id, stall_op stalled, issued_at) \<in> set (pg_request_nonces pg) then Inl WriteAuthorizationError
       else
         Inr (update_election election_id (\<lambda>row. row\<lparr>el_tally_stalled := stalled\<rparr>)
           (pg\<lparr>pg_request_nonces := pg_request_nonces pg @ [(election_id, stall_op stalled, issued_at)]\<rparr>)))))"

definition ps_get_result :: "bytes \<Rightarrow> Postgres \<Rightarrow> ResultArtifact option result" where
  "ps_get_result election_id pg =
     (case ps_result_row election_id pg of None \<Rightarrow> Inr None | Some j \<Rightarrow> ebind (dec_result j) (\<lambda>r. Inr (Some r)))"

definition postgres_port :: "host \<Rightarrow> Postgres ElectionDataLayer" where
  "postgres_port H =
     \<lparr>dl_register_election = ps_register_election H,
      dl_cancel_election = ps_cancel_election H,
      dl_get_election = ps_get_election H,
      dl_list_elections = ps_list_elections,
      dl_submit_dkg_result = ps_submit_dkg_result H,
      dl_get_dkg_submissions = ps_get_dkg_submissions,
      dl_get_finalized_key = ps_get_finalized_key H,
      dl_submit_ballot = ps_submit_ballot H,
      dl_list_ballots = ps_list_ballots,
      dl_count_ballots = ps_count_ballots,
      dl_submit_aggregate = ps_submit_aggregate H,
      dl_get_aggregate = ps_get_aggregate H,
      dl_submit_decryption_share = ps_submit_decryption_share H,
      dl_list_decryption_shares = ps_list_decryption_shares,
      dl_publish_result = ps_publish_result H,
      dl_get_result = ps_get_result,
      dl_set_tally_stalled = ps_set_tally_stalled H,
      dl_verifiability_tier = 0\<rparr>"

end
