(* ===== verification/Memory_Steps.thy ===== *)
theory Memory_Steps
  imports Memory "HOL-Library.Sublist"
begin

text \<open>
  The in-memory data layer as a state machine: any sequence of writes, by any party and at any
  time. Invariants hold in every reachable state, and final artifacts stay what they are.
\<close>

section \<open>Invariant\<close>

definition keyed :: "ElectionConfig \<Rightarrow> (int \<times> 'v) list \<Rightarrow> bool" where
  "keyed c kvs \<longleftrightarrow> distinct (map fst kvs) \<and> fst ` set kvs \<subseteq> {1..th_n (cfg_threshold c)}"

definition ballots_inv :: "ElectionConfig \<Rightarrow> StoredBallot list \<Rightarrow> bool" where
  "ballots_inv c rows \<longleftrightarrow>
     (\<forall>k < length rows. sb_sequence_number (rows ! k) = int k \<and>
        (\<exists>ts. sb_submitted_at (rows ! k) = Some ts \<and> is_voting_open c ts))"

definition stored_inv :: "host \<Rightarrow> bytes \<Rightarrow> Stored \<Rightarrow> bool" where
  "stored_inv H eid st \<longleftrightarrow>
     cfg_election_id (st_config st) = eid \<and> config_ok (st_config st) \<and>
     keyed (st_config st) (st_dkg_by_keyper st) \<and>
     keyed (st_config st) (st_aggregate_by_keyper st) \<and>
     keyed (st_config st) (st_shares_by_keyper st) \<and>
     (\<forall>(i, a) \<in> set (st_aggregate_by_keyper st). \<not> isl (aggregate_digest_of H eid a)) \<and>
     (\<forall>(i, s) \<in> set (st_shares_by_keyper st). ds_keyper_index s = i) \<and>
     ballots_inv (st_config st) (st_ballots st)"

definition election_ids :: "int \<Rightarrow> bytes list" where
  "election_ids n = map (\<lambda>k. be 32 (int k + 1)) [0..<nat n]"

definition mem_inv :: "host \<Rightarrow> InMemory \<Rightarrow> bool" where
  "mem_inv H m \<longleftrightarrow>
     0 \<le> im_next_id m \<and> im_next_id m < 256 ^ 32 \<and>
     map fst (im_elections m) = election_ids (im_next_id m) \<and>
     (\<forall>(eid, st) \<in> set (im_elections m). stored_inv H eid st)"

text \<open>What a write may change of an election, given the state before.\<close>

definition canonical_aggregate :: "host \<Rightarrow> bytes \<Rightarrow> Stored \<Rightarrow> AggregateArtifact option result" where
  "canonical_aggregate H eid st =
     ebind (aggregate_groups H eid (st_aggregate_by_keyper st)) (\<lambda>groups.
     resolve_unique (map snd groups) (th_quorum (cfg_threshold (st_config st))))"

definition evolves :: "host \<Rightarrow> bytes \<Rightarrow> Stored \<Rightarrow> Stored \<Rightarrow> bool" where
  "evolves H eid st st' \<longleftrightarrow>
     st_config st' = st_config st \<and>
     (st_cancelled st \<longrightarrow> st_cancelled st') \<and>
     map_of (st_dkg_by_keyper st) \<subseteq>\<^sub>m map_of (st_dkg_by_keyper st') \<and>
     prefix (st_ballots st) (st_ballots st') \<and>
     (canonical_aggregate H eid st \<noteq> Inr None \<longrightarrow> st_aggregate_by_keyper st' = st_aggregate_by_keyper st) \<and>
     map_of (st_shares_by_keyper st) \<subseteq>\<^sub>m map_of (st_shares_by_keyper st') \<and>
     (st_result st \<noteq> None \<longrightarrow> st_result st' = st_result st)"

lemma evolves_refl [simp]: "evolves H eid st st"
  by (simp add: evolves_def)

lemma evolves_canonical: "evolves H eid st st' \<Longrightarrow> canonical_aggregate H eid st \<noteq> Inr None \<Longrightarrow>
    canonical_aggregate H eid st' = canonical_aggregate H eid st"
  by (simp add: evolves_def canonical_aggregate_def)

lemma evolves_trans: "evolves H eid a b \<Longrightarrow> evolves H eid b c \<Longrightarrow> evolves H eid a c"
  using evolves_canonical [of H eid a b]
  by (auto simp: evolves_def intro: map_le_trans prefix_order.trans)

lemma im_get_aggregate_canonical: "im_get_aggregate H eid m = ebind (im_get m eid) (canonical_aggregate H eid)"
  by (simp add: im_get_aggregate_def canonical_aggregate_def [abs_def])

lemma keyed_update: "keyed c kvs \<Longrightarrow> 1 \<le> i \<Longrightarrow> i \<le> th_n (cfg_threshold c) \<Longrightarrow> keyed c (AList.update i v kvs)"
  by (auto simp: keyed_def distinct_update dom_update)

lemma election_ids_distinct: "0 \<le> n \<Longrightarrow> n < 256 ^ 32 \<Longrightarrow> distinct (election_ids n)"
  by (auto simp: election_ids_def distinct_map inj_on_def be_inject)

lemma election_ids_Suc: "0 \<le> n \<Longrightarrow> election_ids (n + 1) = election_ids n @ [be 32 (n + 1)]"
  by (simp add: election_ids_def nat_add_distrib)

lemma next_id_fresh: "0 \<le> n \<Longrightarrow> n + 1 < 256 ^ 32 \<Longrightarrow> be 32 (n + 1) \<notin> set (election_ids n)"
  using election_ids_distinct [of "n + 1"] by (simp add: election_ids_Suc)

section \<open>One write\<close>

text \<open>A write that replaces the record of one election.\<close>

definition touches :: "host \<Rightarrow> bytes \<Rightarrow> InMemory \<Rightarrow> InMemory \<Rightarrow> bool" where
  "touches H eid m m' \<longleftrightarrow>
     (\<exists>st st'. im_get m eid = Inr st \<and> im_elections m' = AList.update eid st' (im_elections m) \<and>
        im_next_id m' = im_next_id m \<and> (stored_inv H eid st \<longrightarrow> stored_inv H eid st' \<and> evolves H eid st st'))"

lemma im_get_Inr: "im_get m eid = Inr st \<longleftrightarrow> map_of (im_elections m) eid = Some st"
  by (auto simp: im_get_def split: option.splits)

lemma im_get_put [simp]: "im_get (im_put eid st m) e = (if e = eid then Inr st else im_get m e)"
  by (simp add: im_get_def im_put_def update_conv)

lemma im_put_sel [simp]:
  "im_elections (im_put eid st m) = AList.update eid st (im_elections m)"
  "im_next_id (im_put eid st m) = im_next_id m"
  "im_used_request_nonces (im_put eid st m) = im_used_request_nonces m"
  by (simp_all add: im_put_def)

lemma update_keys: "k \<in> fst ` set al \<Longrightarrow> map fst (AList.update k v al) = map fst al"
  by (induction al) auto

lemma mem_inv_distinct: "mem_inv H m \<Longrightarrow> distinct (map fst (im_elections m))"
  by (simp add: mem_inv_def election_ids_distinct)

lemma mem_inv_get: "mem_inv H m \<Longrightarrow> im_get m eid = Inr st \<Longrightarrow> stored_inv H eid st"
  by (auto simp: mem_inv_def im_get_Inr dest!: map_of_SomeD)

lemma mem_inv_touches:
  assumes inv: "mem_inv H m" and t: "touches H eid m m'"
  shows "mem_inv H m'"
proof -
  from t obtain st st' where g: "im_get m eid = Inr st" and e: "im_elections m' = AList.update eid st' (im_elections m)"
    and n: "im_next_id m' = im_next_id m" and i: "stored_inv H eid st \<longrightarrow> stored_inv H eid st'"
    by (auto simp: touches_def)
  from i mem_inv_get [OF inv g] have st': "stored_inv H eid st'" by simp
  from g have k: "eid \<in> fst ` set (im_elections m)"
    by (auto simp: im_get_Inr dest!: map_of_SomeD intro: rev_image_eqI)
  have d: "distinct (map fst (im_elections m'))"
    using mem_inv_distinct [OF inv] by (simp add: e distinct_update)
  have "stored_inv H ee ss" if "(ee, ss) \<in> set (im_elections m')" for ee ss
  proof -
    from that d have "map_of (im_elections m') ee = Some ss" by simp
    then have "ee = eid \<and> ss = st' \<or> map_of (im_elections m) ee = Some ss"
      by (auto simp: e update_conv split: if_splits)
    then show ?thesis using st' mem_inv_get [OF inv, of ee ss] by (auto simp: im_get_Inr)
  qed
  then show ?thesis
    using inv k by (auto simp: mem_inv_def e n update_keys)
qed

lemma touches_evolves:
  assumes "mem_inv H m" "touches H eid m m'" "im_get m e = Inr st"
  shows "\<exists>st'. im_get m' e = Inr st' \<and> evolves H e st st'"
proof (cases "e = eid")
  case True
  with assms mem_inv_get [OF assms(1,3)] show ?thesis
    by (auto simp: touches_def im_get_Inr update_conv)
next
  case False
  with assms show ?thesis by (auto simp: touches_def im_get_Inr update_conv)
qed

subsection \<open>Every operation\<close>

lemma touches_putI:
  assumes "im_get m eid = Inr st" "stored_inv H eid st \<Longrightarrow> stored_inv H eid st' \<and> evolves H eid st st'"
  shows "touches H eid m (im_put eid st' m)"
  using assms by (auto simp: touches_def)

lemma touches_same: "im_get m eid = Inr st \<Longrightarrow> touches H eid m m"
  by (auto simp: touches_def im_get_Inr intro!: exI [of _ st] update_triv [symmetric])

lemma cancel_touches: "im_cancel_election H now eid sig m = Inr m' \<Longrightarrow> touches H eid m m'"
  by (auto simp: im_cancel_election_def split: if_splits intro!: touches_putI)
    (auto simp: stored_inv_def evolves_def)

lemma keyper_index_keyed:
  "stored_inv H eid st \<Longrightarrow> keyper_index_by_recovery H' (st_config st) d sig = Inr i \<Longrightarrow>
     1 \<le> i \<and> i \<le> th_n (cfg_threshold (st_config st))"
  using config_ok_facts(8) [of "st_config st"]
  by (auto simp: stored_inv_def dest!: keyper_index_by_recovery_range)

lemma map_le_update: "map_of kvs k = None \<Longrightarrow> map_of kvs \<subseteq>\<^sub>m map_of (AList.update k v kvs)"
  by (auto simp: update_conv map_le_def)

lemma update_fresh: "k \<notin> fst ` set kvs \<Longrightarrow> AList.update k v kvs = kvs @ [(k, v)]"
  by (induction kvs) auto

lemma set_update_subset: "set (AList.update k v kvs) \<subseteq> insert (k, v) (set kvs)"
  by (induction kvs) auto

lemma dkg_touches:
  assumes "im_submit_dkg_result H eid pk com sig m = Inr m'"
  shows "touches H eid m m'"
proof -
  let ?sub = "\<lparr>dkg_election_id = eid, dkg_pk_election = pk, dkg_committee_pks = com, dkg_keyper_signature = sig\<rparr>"
  from assms obtain st d i where g: "im_get m eid = Inr st"
    and i: "keyper_index_by_recovery H (st_config st) d sig = Inr i"
    and c: "(case map_of (st_dkg_by_keyper st) i of
        Some ex \<Rightarrow> if dkg_key ex \<noteq> dkg_key ?sub then Inl ImmutabilityError else Inr m
      | None \<Rightarrow> Inr (im_put eid (st\<lparr>st_dkg_by_keyper := AList.update i ?sub (st_dkg_by_keyper st)\<rparr>) m)) = Inr m'"
    unfolding im_submit_dkg_result_def Let_def ebind_eq_Inr by blast
  show ?thesis
  proof (cases "map_of (st_dkg_by_keyper st) i")
    case None
    with g c keyper_index_keyed [OF _ i] show ?thesis
      by (auto intro!: touches_putI keyed_update simp: stored_inv_def evolves_def map_le_update canonical_aggregate_def)
  next
    case (Some ex)
    with g c show ?thesis by (simp add: touches_same split: if_splits)
  qed
qed

lemma ballot_touches:
  assumes "im_submit_ballot H now eid b sig m = Inr (m', seq)"
  shows "touches H eid m m'"
proof -
  let ?row = "\<lambda>st. \<lparr>sb_sequence_number = int (length (st_ballots st)), sb_envelope = b, sb_submitted_at = Some now\<rparr>"
  from assms obtain st where g: "im_get m eid = Inr st" and w: "require_voting_open st now = Inr ()"
    and m': "m' = im_put eid (st\<lparr>st_ballots := st_ballots st @ [?row st]\<rparr>) m"
    by (auto simp: im_submit_ballot_def Let_def)
  from w have "is_voting_open (st_config st) now"
    by (auto simp: require_voting_open_def Let_def derive_state_voting split: if_splits)
  then have "ballots_inv (st_config st) (st_ballots st) \<Longrightarrow> ballots_inv (st_config st) (st_ballots st @ [?row st])"
    by (auto simp: ballots_inv_def nth_append less_Suc_eq)
  with g show ?thesis
    unfolding m' by (auto intro!: touches_putI simp: stored_inv_def evolves_def canonical_aggregate_def)
qed

lemma aggregate_touches:
  assumes inv: "mem_inv H m" and op: "im_submit_aggregate H now eid a sig m = Inr m'"
  shows "touches H eid m m'"
proof -
  from op obtain st d i where g: "im_get m eid = Inr st" and d: "aggregate_digest_of H eid a = Inr d"
    and i: "keyper_index_by_recovery H (st_config st) d sig = Inr i"
    and c: "m' = m \<or> (aggregate_finalized H st m = Inr False \<and>
        m' = im_put eid (st\<lparr>st_aggregate_by_keyper := AList.update i a (st_aggregate_by_keyper st)\<rparr>) m)"
    by (fastforce simp: im_submit_aggregate_def split: if_splits)
  have st: "stored_inv H eid st" using mem_inv_get [OF inv g] .
  then have e: "cfg_election_id (st_config st) = eid" by (simp add: stored_inv_def)
  from c show ?thesis
  proof
    assume "m' = m"
    with g show ?thesis by (simp add: touches_same)
  next
    assume c: "aggregate_finalized H st m = Inr False \<and>
        m' = im_put eid (st\<lparr>st_aggregate_by_keyper := AList.update i a (st_aggregate_by_keyper st)\<rparr>) m"
    then have none: "canonical_aggregate H eid st = Inr None"
      by (auto simp: aggregate_finalized_def im_get_aggregate_canonical e g)
    have ok: "\<forall>(j, b) \<in> set (AList.update i a (st_aggregate_by_keyper st)). \<not> isl (aggregate_digest_of H eid b)"
      using set_update_subset [of i a "st_aggregate_by_keyper st"] st d by (auto simp: stored_inv_def)
    show ?thesis
      using c g ok none keyper_index_keyed [OF st i]
      by (auto intro!: touches_putI keyed_update simp: stored_inv_def evolves_def)
  qed
qed

lemma share_touches:
  assumes "im_submit_decryption_share H now eid sh sig m = Inr m'"
  shows "touches H eid m m'"
proof -
  from assms obtain st d where g: "im_get m eid = Inr st"
    and i: "keyper_index_by_recovery H (st_config st) d sig = Inr (ds_keyper_index sh)"
    and c: "m' = m \<or> (map_of (st_shares_by_keyper st) (ds_keyper_index sh) = None \<and>
        m' = im_put eid (st\<lparr>st_shares_by_keyper := AList.update (ds_keyper_index sh) sh (st_shares_by_keyper st)\<rparr>) m)"
    by (fastforce simp: im_submit_decryption_share_def split: if_splits option.splits)
  from c show ?thesis
  proof
    assume "m' = m"
    with g show ?thesis by (simp add: touches_same)
  next
    assume c: "map_of (st_shares_by_keyper st) (ds_keyper_index sh) = None \<and>
        m' = im_put eid (st\<lparr>st_shares_by_keyper := AList.update (ds_keyper_index sh) sh (st_shares_by_keyper st)\<rparr>) m"
    have "\<forall>(j, s) \<in> set (AList.update (ds_keyper_index sh) sh (st_shares_by_keyper st)). ds_keyper_index s = j"
      if "stored_inv H eid st"
      using set_update_subset [of "ds_keyper_index sh" sh "st_shares_by_keyper st"] that by (auto simp: stored_inv_def)
    with c g keyper_index_keyed [OF _ i] show ?thesis
      by (auto intro!: touches_putI keyed_update simp: stored_inv_def evolves_def map_le_update canonical_aggregate_def)
  qed
qed

lemma result_touches: "im_publish_result H eid r sig m = Inr m' \<Longrightarrow> touches H eid m m'"
  by (auto simp: im_publish_result_def split: if_splits option.splits intro: touches_same intro!: touches_putI)
    (auto simp: stored_inv_def evolves_def canonical_aggregate_def)

lemma stall_touches:
  assumes "im_set_tally_stalled H now eid b sig t m = Inr m'"
  shows "touches H eid m m'"
proof -
  from assms obtain st N where "im_get m eid = Inr st"
    "m' = im_put eid (st\<lparr>st_tally_stalled := b\<rparr>) (m\<lparr>im_used_request_nonces := N\<rparr>)"
    by (fastforce simp: im_set_tally_stalled_def Let_def split: if_splits)
  then show ?thesis
    unfolding touches_def
    by (intro exI [of _ st] exI [of _ "st\<lparr>st_tally_stalled := b\<rparr>"])
      (auto simp: stored_inv_def evolves_def canonical_aggregate_def)
qed

lemma register_inv:
  assumes inv: "mem_inv H m" and ok: "config_ok c" and op: "im_register_election H c sig m = Inr (m', eid)"
  shows "mem_inv H m'" and "eid \<notin> set (map fst (im_elections m))" and "im_elections m' = im_elections m @ [(eid, Stored_init c)]"
    and "cfg_election_id c = eid"
proof -
  from op have b: "0 \<le> im_next_id m + 1" "im_next_id m + 1 < 256 ^ 32" and eid: "eid = be 32 (im_next_id m + 1)"
    and c: "cfg_election_id c = eid" and m': "m' = im_put eid (Stored_init c) (m\<lparr>im_next_id := im_next_id m + 1\<rparr>)"
    by (auto simp: im_register_election_def int_to_bytes_eq_Inr Let_def split: if_splits)
  from inv have n: "0 \<le> im_next_id m" and k: "map fst (im_elections m) = election_ids (im_next_id m)"
    by (auto simp: mem_inv_def)
  have fresh: "eid \<notin> set (map fst (im_elections m))"
    using next_id_fresh [OF n b(2)] by (simp only: k eid not_False_eq_True)
  then have e: "im_elections m' = im_elections m @ [(eid, Stored_init c)]"
    by (simp add: m' update_fresh)
  have "stored_inv H eid (Stored_init c)"
    using ok c by (simp add: stored_inv_def Stored_init_def keyed_def ballots_inv_def)
  then show "mem_inv H m'"
    using inv b n k by (auto simp: mem_inv_def e eid) (simp_all add: m' election_ids_Suc)
  show "eid \<notin> set (map fst (im_elections m))" by (rule fresh)
  show "im_elections m' = im_elections m @ [(eid, Stored_init c)]" by (rule e)
  show "cfg_election_id c = eid" by (rule c)
qed

section \<open>Reachable states\<close>

lemma step_cases:
  assumes inv: "mem_inv H m" and step: "dl_step (memory_port H) m m'"
  shows "(\<exists>eid. touches H eid m m') \<or>
    (\<exists>c sig eid. config_ok c \<and> im_register_election H c sig m = Inr (m', eid))"
proof -
  from step obtain w now where ok: "request_object_ok w" and w: "do_write (memory_port H) now w m = Inr m'"
    by (auto elim: dl_stepE)
  from w ok show ?thesis
    by (cases w)
      (auto simp: memory_port_def intro: cancel_touches dkg_touches ballot_touches share_touches result_touches stall_touches
        aggregate_touches [OF inv])
qed

lemma step_inv: "mem_inv H m \<Longrightarrow> dl_step (memory_port H) m m' \<Longrightarrow> mem_inv H m'"
  using step_cases mem_inv_touches register_inv(1) by blast

lemma step_evolves:
  assumes "mem_inv H m" "dl_step (memory_port H) m m'" "im_get m e = Inr st"
  shows "\<exists>st'. im_get m' e = Inr st' \<and> evolves H e st st'"
  using step_cases [OF assms(1,2)]
proof
  assume "\<exists>eid. touches H eid m m'"
  with touches_evolves [OF assms(1) _ assms(3)] show ?thesis by blast
next
  assume "\<exists>c sig eid. config_ok c \<and> im_register_election H c sig m = Inr (m', eid)"
  then obtain c sig eid where r: "config_ok c" "im_register_election H c sig m = Inr (m', eid)" by blast
  from register_inv(3) [OF assms(1) r] assms(3) have "im_get m' e = Inr st"
    by (auto simp: im_get_Inr map_of_append map_add_def split: option.splits)
  then show ?thesis by auto
qed

definition mem_reachable :: "host \<Rightarrow> InMemory \<Rightarrow> bool" where
  "mem_reachable H m \<longleftrightarrow> (dl_step (memory_port H))\<^sup>*\<^sup>* InMemory_init m"

lemma init_inv: "mem_inv H InMemory_init"
  by (simp add: mem_inv_def InMemory_init_def election_ids_def)

lemma reachable_inv: "mem_reachable H m \<Longrightarrow> mem_inv H m"
proof -
  assume "mem_reachable H m"
  then have "(dl_step (memory_port H))\<^sup>*\<^sup>* InMemory_init m" by (simp add: mem_reachable_def)
  then show ?thesis
    by (induction rule: rtranclp_induct) (auto intro: init_inv step_inv)
qed

lemma steps_evolve:
  assumes "(dl_step (memory_port H))\<^sup>*\<^sup>* m m'" "mem_inv H m" "im_get m e = Inr st"
  shows "\<exists>st'. im_get m' e = Inr st' \<and> evolves H e st st'"
  using assms
proof (induction rule: rtranclp_induct)
  case base
  then show ?case by auto
next
  case (step y z)
  then obtain st1 where st1: "im_get y e = Inr st1" "evolves H e st st1" by blast
  have "mem_inv H y" using step.hyps(1) step.prems(1)
    by (induction rule: rtranclp_induct) (auto intro: step_inv)
  with step_evolves [OF _ step.hyps(2) st1(1)] st1(2) show ?case by (blast intro: evolves_trans)
qed

section \<open>Quorums\<close>

lemma majority_unique:
  assumes d: "distinct (map (snd \<circ> snd) subs)" and n: "(snd \<circ> snd) ` set subs \<subseteq> {1..n}" and maj: "n < 2 * t" "1 \<le> t"
    and q: "t \<le> int (group_size subs k1)" "t \<le> int (group_size subs k2)"
  shows "k1 = k2"
proof (rule ccontr)
  assume ne: "k1 \<noteq> k2"
  have "\<exists>v s. (k, v, s) \<in> set (group_all subs) \<and> card s = group_size subs k" if "t \<le> int (group_size subs k)" for k
  proof -
    have "group_size subs k \<noteq> 0" using that maj by auto
    then have "{i. \<exists>w. (k, w, i) \<in> set subs} \<noteq> {}" by (metis card.empty group_size_def)
    then have "k \<in> fst ` set subs" by (auto intro: rev_image_eqI)
    then have "k \<in> fst ` set (group_all subs)" using groups_of_all [of subs] unfolding groups_of_def by simp
    then obtain v s where g: "(k, v, s) \<in> set (group_all subs)" by auto
    with groups_of_all [of subs] have "card s = group_size subs k"
      unfolding groups_of_def group_size_def by auto
    with g show ?thesis by blast
  qed
  from this [OF q(1)] this [OF q(2)] obtain v1 s1 v2 s2 where
    g: "(k1, v1, s1) \<in> set (group_all subs)" "(k2, v2, s2) \<in> set (group_all subs)"
    and c: "card s1 = group_size subs k1" "card s2 = group_size subs k2" by blast
  have "card s1 + card s2 \<le> nat n" by (rule groups_card_le [OF groups_of_all d g ne n])
  with c q maj show False by linarith
qed

lemma votes_facts:
  assumes "stored_inv H eid st"
  shows "distinct (map (snd \<circ> snd) (dkg_votes (st_dkg_by_keyper st)))"
    and "(snd \<circ> snd) ` set (dkg_votes (st_dkg_by_keyper st)) \<subseteq> {1..th_n (cfg_threshold (st_config st))}"
proof -
  have m: "map (snd \<circ> snd) (dkg_votes kvs) = map fst kvs" for kvs
    by (induction kvs) (auto simp: dkg_votes_def)
  then have "(snd \<circ> snd) ` set (dkg_votes kvs) = fst ` set kvs" for kvs
    by (metis list.set_map)
  with m assms show "distinct (map (snd \<circ> snd) (dkg_votes (st_dkg_by_keyper st)))"
    and "(snd \<circ> snd) ` set (dkg_votes (st_dkg_by_keyper st)) \<subseteq> {1..th_n (cfg_threshold (st_config st))}"
    by (simp_all add: stored_inv_def keyed_def)
qed

lemma quorum_facts:
  assumes "stored_inv H eid st"
  shows "th_n (cfg_threshold (st_config st)) < 2 * th_quorum (cfg_threshold (st_config st))"
    and "1 \<le> th_quorum (cfg_threshold (st_config st))"
  using assms config_ok_facts(10,12) [of "st_config st"] by (auto simp: stored_inv_def th_quorum_def)

text \<open>The keypers that voted for a key.\<close>

definition key_voters :: "Stored \<Rightarrow> FinalizedKey \<Rightarrow> int set" where
  "key_voters st fk =
     {i. \<exists>sub. map_of (st_dkg_by_keyper st) i = Some sub \<and> dkg_key sub = (fk_pk_election fk, fk_committee_pks fk)}"

lemma key_voters_group:
  assumes "stored_inv H eid st"
  shows "group_size (dkg_votes (st_dkg_by_keyper st)) (pk, com) = card (key_voters st \<lparr>fk_pk_election = pk, fk_committee_pks = com\<rparr>)"
proof -
  have "distinct (map fst (st_dkg_by_keyper st))" using assms by (simp add: stored_inv_def keyed_def)
  then have "{i. \<exists>w. ((pk, com), w, i) \<in> set (dkg_votes (st_dkg_by_keyper st))} =
      key_voters st \<lparr>fk_pk_election = pk, fk_committee_pks = com\<rparr>"
    by (force simp: dkg_votes_def key_voters_def image_iff)
  then show ?thesis by (simp add: group_size_def)
qed

lemma finalized_key_total:
  assumes "stored_inv H eid st"
  shows "\<exists>fk. finalized_key_of st = Inr fk"
  using resolve_majority [OF groups_of_all votes_facts [OF assms] quorum_facts [OF assms]]
  by (auto simp: finalized_key_of_def)

lemma finalized_key_iff:
  assumes inv: "stored_inv H eid st"
  shows "finalized_key_of st = Inr (Some fk) \<longleftrightarrow> th_quorum (cfg_threshold (st_config st)) \<le> int (card (key_voters st fk))"
proof -
  let ?V = "dkg_votes (st_dkg_by_keyper st)" and ?t = "th_quorum (cfg_threshold (st_config st))"
  obtain w where w: "resolve_unique (map snd (group_all ?V)) ?t = Inr w"
    and c: "case w of None \<Rightarrow> \<forall>k. int (group_size ?V k) < ?t
      | Some v \<Rightarrow> \<exists>k i. (k, v, i) \<in> set ?V \<and> ?t \<le> int (group_size ?V k)"
    using resolve_majority [OF groups_of_all votes_facts [OF inv] quorum_facts [OF inv]] by blast
  have fk: "card (key_voters st fk) = group_size ?V (fk_pk_election fk, fk_committee_pks fk)"
    using key_voters_group [OF inv] by (cases fk) simp
  show ?thesis
  proof (cases w)
    case None
    with c have "\<not> ?t \<le> int (card (key_voters st fk))" by (simp add: fk not_le)
    with None w show ?thesis by (simp add: finalized_key_of_def)
  next
    case (Some v)
    with c have q: "?t \<le> int (group_size ?V v)" by (auto simp: dkg_votes_def)
    obtain pk com where v: "v = (pk, com)" by (cases v)
    have "finalized_key_of st = Inr (Some \<lparr>fk_pk_election = pk, fk_committee_pks = com\<rparr>)"
      using w Some v by (simp add: finalized_key_of_def)
    then have "finalized_key_of st = Inr (Some fk) \<longleftrightarrow> v = (fk_pk_election fk, fk_committee_pks fk)"
      using v by (cases fk) auto
    also have "\<dots> \<longleftrightarrow> ?t \<le> int (card (key_voters st fk))"
    proof
      show "?t \<le> int (card (key_voters st fk))" if "v = (fk_pk_election fk, fk_committee_pks fk)"
        using q that by (simp add: fk)
      show "v = (fk_pk_election fk, fk_committee_pks fk)" if "?t \<le> int (card (key_voters st fk))"
        by (rule majority_unique [OF votes_facts [OF inv] quorum_facts [OF inv] q]) (use that fk in simp)
    qed
    finally show ?thesis .
  qed
qed

lemma finalized_key_stable:
  assumes "stored_inv H eid st" "stored_inv H eid st'" "evolves H eid st st'" "finalized_key_of st = Inr (Some fk)"
  shows "finalized_key_of st' = Inr (Some fk)"
proof -
  have "key_voters st fk \<subseteq> key_voters st' fk"
    using assms(3) by (force simp: key_voters_def evolves_def map_le_def dom_def)
  moreover have "finite (key_voters st' fk)"
  proof (rule finite_subset)
    show "key_voters st' fk \<subseteq> dom (map_of (st_dkg_by_keyper st'))" by (auto simp: key_voters_def)
  qed (rule finite_dom_map_of)
  ultimately have "card (key_voters st fk) \<le> card (key_voters st' fk)" by (rule card_mono [rotated])
  then show ?thesis
    using assms(3,4) by (auto simp: finalized_key_iff [OF assms(1)] finalized_key_iff [OF assms(2)] evolves_def)
qed

lemma canonical_total:
  assumes inv: "stored_inv H eid st"
  shows "\<exists>a. canonical_aggregate H eid st = Inr a"
proof -
  let ?f = "\<lambda>(idx, agg). ebind (aggregate_digest_of H eid agg) (\<lambda>key. Inr (key, agg, idx))"
  let ?A = "st_aggregate_by_keyper st"
  have ok: "\<forall>(i, a) \<in> set ?A. \<not> isl (aggregate_digest_of H eid a)" using inv by (simp add: stored_inv_def)
  have e: "emap ?f ?A = Inr (map (\<lambda>(i, a). (projr (aggregate_digest_of H eid a), a, i)) ?A)"
    using ok by (intro emap_Inr_all) (force simp: not_isl_iff)
  let ?S = "map (\<lambda>(i, a). (projr (aggregate_digest_of H eid a), a, i)) ?A"
  have m: "map (snd \<circ> snd) ?S = map fst ?A" by (simp add: case_prod_beta)
  then have i: "(snd \<circ> snd) ` set ?S = fst ` set ?A" by (metis list.set_map)
  have "distinct (map (snd \<circ> snd) ?S)" "(snd \<circ> snd) ` set ?S \<subseteq> {1..th_n (cfg_threshold (st_config st))}"
    unfolding m i using inv by (simp_all add: stored_inv_def keyed_def)
  from resolve_majority [OF groups_of_all this quorum_facts [OF inv]] e show ?thesis
    by (auto simp: canonical_aggregate_def aggregate_groups_def)
qed

section \<open>Properties\<close>

lemma step_next_id: "mem_inv H m \<Longrightarrow> dl_step (memory_port H) m m' \<Longrightarrow> im_next_id m \<le> im_next_id m'"
  using step_cases [of H m m']
  by (auto simp: touches_def im_register_election_def Let_def split: if_splits)

lemma step_nonces: "dl_step (memory_port H) m m' \<Longrightarrow> im_used_request_nonces m \<subseteq> im_used_request_nonces m'"
proof (elim dl_stepE)
  fix w now
  assume "do_write (memory_port H) now w m = Inr m'"
  then show ?thesis
    by (cases w)
      (auto simp: memory_port_def im_register_election_def im_cancel_election_def im_submit_dkg_result_def
        im_submit_ballot_def im_submit_aggregate_def im_submit_decryption_share_def im_publish_result_def
        im_set_tally_stalled_def Let_def split: if_splits option.splits)
qed

lemma steps_mono:
  assumes "(dl_step (memory_port H))\<^sup>*\<^sup>* m m'" "mem_inv H m"
  shows "mem_inv H m' \<and> im_next_id m \<le> im_next_id m' \<and> im_used_request_nonces m \<subseteq> im_used_request_nonces m'"
  using assms
proof (induction rule: rtranclp_induct)
  case (step y z)
  then show ?case using step_inv [of H y z] step_next_id [of H y z] step_nonces [of H y z] by (meson order_trans)
qed simp

text \<open>A run: registration of the sample election and the same key from two of its three keypers.\<close>

definition sample_dkg :: "int \<Rightarrow> DKGResultSubmission" where
  "sample_dkg i = \<lparr>dkg_election_id = be 32 1, dkg_pk_election = be 96 9, dkg_committee_pks = sample_committee,
     dkg_keyper_signature = be 32 (10 + i)\<rparr>"

definition sample_memory :: "(int \<times> DKGResultSubmission) list \<Rightarrow> InMemory" where
  "sample_memory dkg = \<lparr>im_elections = [(be 32 1, (Stored_init sample_election)\<lparr>st_dkg_by_keyper := dkg\<rparr>)], im_next_id = 1,
     im_used_request_nonces = {}\<rparr>"

lemma sample_host_sel [simp]:
  "recover_message sample_host d sig = Some sig" "keccak sample_host x = x" "sign_message sample_host key d = key"
  "abi_bytes_array sample_host bs = Inr (concat bs)"
  "abi_tally sample_host cs adm exs w sw = Inr (encode_utf8 (dumps0 (\<lambda>j. []) (sample_tally cs adm exs w sw)))"
  "abi_pair_array sample_host ps = Inr []" "abi_result sample_host ts ks b = Inr []"
  by (simp_all add: sample_host_def)

text \<open>A host whose signatures recover to themselves; the sample runs are the same on every such host.\<close>

definition plain_host :: "host \<Rightarrow> bool" where
  "plain_host H \<longleftrightarrow> (\<forall>d sig. recover_message H d sig = Some sig) \<and> (\<forall>bs. abi_bytes_array H bs = Inr (concat bs))"

lemma sample_host_plain: "plain_host sample_host"
  by (simp add: plain_host_def)

lemma sample_register: "plain_host H \<Longrightarrow> im_register_election H sample_election (be 32 5) InMemory_init = Inr (sample_memory [], be 32 1)"
proof -
  have "sample_election\<lparr>cfg_election_id := be 32 1\<rparr> = sample_election" "cfg_election_id sample_election = be 32 1"
    "cfg_admin_key sample_election = be 32 5"
    by (simp_all add: sample_election_def)
  moreover assume "plain_host H"
  ultimately show ?thesis
    by (simp add: plain_host_def im_register_election_def verify_register_def InMemory_init_def im_put_def sample_memory_def Stored_init_def Let_def)
qed

lemma sample_keyper_index: "plain_host H \<Longrightarrow> i \<in> {1, 2, 3} \<Longrightarrow> keyper_index_by_recovery H sample_election d (be 32 (10 + i)) = Inr i"
proof -
  assume p: "plain_host H" and i: "i \<in> {1, 2, 3}"
  have k: "cfg_keypers sample_election = map sample_identity [1, 2, 3]" by (simp add: sample_election_def)
  note n = keyper_index_nth [OF config_ok_facts(9) [OF sample_election_ok], where i = 1]
  have "keyper_index (be 32 (10 + i)) 1 (cfg_keypers sample_election) = Some i"
    using i n [of 0] n [of 1] n [of 2] by (auto simp: k sample_identity_def simp del: keyper_index.simps)
  then show ?thesis using p by (simp add: plain_host_def keyper_index_by_recovery_def recover_digest_def)
qed

lemma sample_submit:
  "plain_host H \<Longrightarrow> i \<in> {1, 2, 3} \<Longrightarrow> map_of dkg i = None \<Longrightarrow>
     im_submit_dkg_result H (be 32 1) (be 96 9) sample_committee (be 32 (10 + i)) (sample_memory dkg) =
       Inr (sample_memory (AList.update i (sample_dkg i) dkg))"
  using sample_keyper_index [of H i]
  by (simp add: plain_host_def im_submit_dkg_result_def im_get_def sample_memory_def im_put_def dkg_result_digest_def Stored_init_def
      sample_dkg_def Let_def)

lemma sample_steps: "plain_host H \<Longrightarrow> (dl_step (memory_port H))\<^sup>*\<^sup>* InMemory_init (sample_memory [(1, sample_dkg 1), (2, sample_dkg 2)])"
proof -
  assume p: "plain_host H"
  have "dl_step (memory_port H) InMemory_init (sample_memory [])"
    by (rule dl_step.issue [where w = "Register sample_election (be 32 5)"])
      (simp_all add: memory_port_def sample_register [OF p] sample_election_ok)
  moreover have "dl_step (memory_port H) (sample_memory []) (sample_memory [(1, sample_dkg 1)])"
    by (rule dl_step.issue [where w = "SubmitDkg (be 32 1) (be 96 9) sample_committee (be 32 11)"])
      (use sample_submit [OF p, of 1 "[]"] in \<open>simp_all add: memory_port_def\<close>)
  moreover have "dl_step (memory_port H) (sample_memory [(1, sample_dkg 1)]) (sample_memory [(1, sample_dkg 1), (2, sample_dkg 2)])"
    by (rule dl_step.issue [where w = "SubmitDkg (be 32 1) (be 96 9) sample_committee (be 32 12)"])
      (use sample_submit [OF p, of 2 "[(1, sample_dkg 1)]"] in \<open>simp_all add: memory_port_def\<close>)
  ultimately show ?thesis by (meson converse_rtranclp_into_rtranclp rtranclp.rtrancl_refl)
qed

lemma sample_finalized:
  "im_get_finalized_key (be 32 1) (sample_memory [(1, sample_dkg 1), (2, sample_dkg 2)]) =
     Inr (Some \<lparr>fk_pk_election = be 96 9, fk_committee_pks = sample_committee\<rparr>)"
  by (simp add: im_get_finalized_key_def im_get_def sample_memory_def finalized_key_of_def dkg_votes_def dkg_key_def group_all_def
      sample_dkg_def resolve_unique_def th_quorum_def Stored_init_def sample_election_def)

text \<open>
  C27: final artifacts stay final. In every state the in-memory data layer can reach, and after any
  further sequence of writes by anyone at any time, a finalized key, a canonical aggregate and a
  published result are unchanged, and the ballots stored so far are still the first ones in
  their order.
\<close>

theorem artifacts_final:
  assumes "mem_reachable H m" and "(dl_step (memory_port H))\<^sup>*\<^sup>* m m'"
  shows "(im_get_finalized_key e m = Inr (Some fk) \<longrightarrow> im_get_finalized_key e m' = Inr (Some fk)) \<and>
    (im_get_aggregate H e m = Inr (Some a) \<longrightarrow> im_get_aggregate H e m' = Inr (Some a)) \<and>
    (im_get_result e m = Inr (Some r) \<longrightarrow> im_get_result e m' = Inr (Some r)) \<and>
    (im_count_ballots e m = Inr n \<longrightarrow> im_list_ballots e 0 n m' = im_list_ballots e 0 n m)"
proof (cases "im_get m e")
  case (Inl err)
  then show ?thesis
    by (simp add: im_get_finalized_key_def im_get_aggregate_def im_get_result_def im_count_ballots_def)
next
  case (Inr st)
  note inv = reachable_inv [OF assms(1)]
  from steps_evolve [OF assms(2) inv Inr] obtain st' where st': "im_get m' e = Inr st'" and ev: "evolves H e st st'"
    by blast
  have i: "stored_inv H e st" "stored_inv H e st'"
    using mem_inv_get [OF inv Inr] mem_inv_get [OF _ st'] steps_mono [OF assms(2) inv] by auto
  from ev obtain bs where bs: "st_ballots st' = st_ballots st @ bs" by (auto simp: evolves_def prefix_def)
  show ?thesis
    using Inr st' ev finalized_key_stable [OF i ev] evolves_canonical [OF ev] bs
    by (auto simp: im_get_finalized_key_def im_get_aggregate_canonical im_get_result_def im_count_ballots_def im_list_ballots_def
        evolves_def py_slice_page [where i = 0, simplified])
qed

lemma artifacts_final_witness:
  "im_get_finalized_key (be 32 1) (sample_memory [(1, sample_dkg 1), (2, sample_dkg 2), (3, sample_dkg 3)]) =
     Inr (Some \<lparr>fk_pk_election = be 96 9, fk_committee_pks = sample_committee\<rparr>)"
proof -
  have "dl_step (memory_port sample_host) (sample_memory [(1, sample_dkg 1), (2, sample_dkg 2)])
      (sample_memory [(1, sample_dkg 1), (2, sample_dkg 2), (3, sample_dkg 3)])"
    by (rule dl_step.issue [where w = "SubmitDkg (be 32 1) (be 96 9) sample_committee (be 32 13)"])
      (use sample_submit [OF sample_host_plain, of 3 "[(1, sample_dkg 1), (2, sample_dkg 2)]"] in \<open>simp_all add: memory_port_def\<close>)
  then show ?thesis
    using artifacts_final [OF sample_steps [OF sample_host_plain, folded mem_reachable_def] r_into_rtranclp, of _ "be 32 1"] sample_finalized by blast
qed

text \<open>
  C28: reads never meet a split committee. In every reachable state the finalized key and the
  canonical aggregate of a known election are determined, so \<open>QuorumConflictError\<close> is never raised;
  a key is final exactly when a quorum of keypers stored it.
\<close>

theorem quorum_never_splits:
  assumes "mem_reachable H m" and "im_get m e = Inr st"
  shows "(\<exists>fk. im_get_finalized_key e m = Inr fk) \<and> (\<exists>a. im_get_aggregate H e m = Inr a) \<and>
    (im_get_finalized_key e m = Inr (Some k) \<longleftrightarrow> th_t (cfg_threshold (st_config st)) \<le> int (card (key_voters st k)))"
proof -
  have i: "stored_inv H e st" using mem_inv_get [OF reachable_inv [OF assms(1)] assms(2)] .
  show ?thesis
    using finalized_key_total [OF i] canonical_total [OF i] finalized_key_iff [OF i, of k] assms(2)
    by (simp add: im_get_finalized_key_def im_get_aggregate_canonical th_quorum_def)
qed

lemma quorum_never_splits_witness:
  "\<exists>a. im_get_aggregate sample_host (be 32 1) (sample_memory [(1, sample_dkg 1), (2, sample_dkg 2)]) = Inr a"
  using quorum_never_splits [OF sample_steps [OF sample_host_plain, folded mem_reachable_def], of "be 32 1"]
  by (simp add: im_get_def sample_memory_def)

text \<open>
  Signed requests are single use. A registration that was accepted is refused ever after, by
  whoever replays it; an accepted stall or resume request is refused ever after for its
  timestamp, whatever signature comes with it.
\<close>

theorem requests_single_use:
  assumes "mem_reachable H m" and "(dl_step (memory_port H))\<^sup>*\<^sup>* m1 m2"
  shows "(config_ok c \<and> im_register_election H c sig m = Inr (m1, e) \<longrightarrow> (\<exists>err. im_register_election H c sig' m2 = Inl err)) \<and>
    (im_set_tally_stalled H now e b sig t m = Inr m1 \<longrightarrow> (\<exists>err. im_set_tally_stalled H now' e b sig' t m2 = Inl err))"
proof (rule conjI)
  note inv = reachable_inv [OF assms(1)]
  show "config_ok c \<and> im_register_election H c sig m = Inr (m1, e) \<longrightarrow> (\<exists>err. im_register_election H c sig' m2 = Inl err)"
  proof
    assume r: "config_ok c \<and> im_register_election H c sig m = Inr (m1, e)"
    then have i1: "mem_inv H m1" and ce: "cfg_election_id c = e" using register_inv [OF inv] by blast+
    from r have n1: "im_next_id m1 = im_next_id m + 1" and e: "e = be 32 (im_next_id m + 1)"
      by (auto simp: im_register_election_def int_to_bytes_eq_Inr Let_def split: if_splits)
    from steps_mono [OF assms(2) i1] have i2: "mem_inv H m2" and le: "im_next_id m1 \<le> im_next_id m2" by auto
    show "\<exists>err. im_register_election H c sig' m2 = Inl err"
    proof (rule ccontr)
      assume "\<not> (\<exists>err. im_register_election H c sig' m2 = Inl err)"
      then obtain m3 e3 where r2: "im_register_election H c sig' m2 = Inr (m3, e3)"
        by (cases "im_register_election H c sig' m2") auto
      then have "be 32 (im_next_id m + 1) = be 32 (im_next_id m2 + 1)" "im_next_id m2 + 1 < 256 ^ 32" "0 \<le> im_next_id m2 + 1"
        using ce e by (auto simp: im_register_election_def int_to_bytes_eq_Inr split: if_splits)
      moreover have "0 \<le> im_next_id m" using inv by (simp add: mem_inv_def)
      ultimately show False using n1 le by (simp add: be_inject)
    qed
  qed
  show "im_set_tally_stalled H now e b sig t m = Inr m1 \<longrightarrow> (\<exists>err. im_set_tally_stalled H now' e b sig' t m2 = Inl err)"
  proof
    assume s: "im_set_tally_stalled H now e b sig t m = Inr m1"
    then have "(e, stall_op b, t) \<in> im_used_request_nonces m1"
      by (auto simp: im_set_tally_stalled_def Let_def split: if_splits)
    moreover have "mem_inv H m1" using mem_inv_touches [OF inv stall_touches [OF s]] .
    ultimately have "(e, stall_op b, t) \<in> im_used_request_nonces m2" using steps_mono [OF assms(2)] by blast
    then show "\<exists>err. im_set_tally_stalled H now' e b sig' t m2 = Inl err"
      by (cases "im_get m2 e") (auto simp: im_set_tally_stalled_def)
  qed
qed

lemma requests_single_use_witness:
  "\<forall>sig'. \<exists>err. im_register_election sample_host sample_election sig' (sample_memory []) = Inl err"
proof
  fix sig'
  have "mem_reachable sample_host InMemory_init" by (simp add: mem_reachable_def)
  from requests_single_use [OF this rtranclp.rtrancl_refl, of sample_election "be 32 5" "sample_memory []" "be 32 1" sig']
  show "\<exists>err. im_register_election sample_host sample_election sig' (sample_memory []) = Inl err"
    using sample_register [OF sample_host_plain] sample_election_ok by simp
qed

end
