(* ===== verification/Store_Refinement.thy ===== *)
theory Store_Refinement
  imports Store Memory_Steps
begin

text \<open>
  The relational data layer implements the in-memory reference. The relation between tables and
  memory fixes which rows a table holds but not their order, so nothing depends on the order of an
  unordered \<open>SELECT\<close>. Requests are those the decoders let through: artifacts of the right sizes.
\<close>

section \<open>Related results\<close>

definition rel_result :: "('a \<Rightarrow> 'b \<Rightarrow> bool) \<Rightarrow> 'a result \<Rightarrow> 'b result \<Rightarrow> bool" where
  "rel_result R x y \<longleftrightarrow>
     (case x of
        Inl e \<Rightarrow> (case y of Inl e' \<Rightarrow> e' = e | Inr b \<Rightarrow> False)
      | Inr a \<Rightarrow> (case y of Inl e' \<Rightarrow> False | Inr b \<Rightarrow> R a b))"

lemma rel_result_simps [simp]:
  "rel_result R (Inl e) (Inl e') \<longleftrightarrow> e' = e" "rel_result R (Inr a) (Inr b) \<longleftrightarrow> R a b"
  "\<not> rel_result R (Inl e) (Inr b)" "\<not> rel_result R (Inr a) (Inl e')"
  by (simp_all add: rel_result_def)

lemma rel_result_bind:
  assumes "rel_result S x y" "\<And>a b. x = Inr a \<Longrightarrow> y = Inr b \<Longrightarrow> S a b \<Longrightarrow> rel_result R (f a) (g b)"
  shows "rel_result R (ebind x f) (ebind y g)"
  using assms by (cases x; cases y) auto

lemma rel_result_eq: "x = y \<Longrightarrow> rel_result (=) x y"
  by (cases y) auto

lemma rel_result_if: "(P \<longleftrightarrow> Q) \<Longrightarrow> (P \<Longrightarrow> rel_result R a b) \<Longrightarrow> (\<not> P \<Longrightarrow> rel_result R c d) \<Longrightarrow>
    rel_result R (if P then a else c) (if Q then b else d)"
  by simp

section \<open>Rows\<close>

text \<open>The rows of a table for one election against a dictionary with distinct keys.\<close>

definition rows_rel :: "('v \<Rightarrow> 'w) \<Rightarrow> ('k \<times> 'w) list \<Rightarrow> ('k \<times> 'v) list \<Rightarrow> bool" where
  "rows_rel enc rows kvs \<longleftrightarrow> distinct (map fst rows) \<and> distinct (map fst kvs) \<and>
     set rows = (\<lambda>(k, v). (k, enc v)) ` set kvs"

lemma rows_rel_Nil [simp]: "rows_rel enc [] []"
  by (simp add: rows_rel_def)

lemma rows_rel_keys: "rows_rel enc rows kvs \<Longrightarrow> fst ` set rows = fst ` set kvs"
  by (force simp: rows_rel_def)

lemma rows_rel_map_of:
  assumes "rows_rel enc rows kvs"
  shows "map_of rows k = map_option enc (map_of kvs k)"
proof (cases "map_of kvs k")
  case None
  then have "k \<notin> fst ` set rows" using rows_rel_keys [OF assms] by (simp add: map_of_eq_None_iff)
  then have "map_of rows k = None" by (simp add: map_of_eq_None_iff)
  with None show ?thesis by simp
next
  case (Some v)
  then have "(k, enc v) \<in> set rows" using assms by (force simp: rows_rel_def dest: map_of_SomeD)
  with Some assms show ?thesis by (simp add: rows_rel_def)
qed

lemma rows_rel_append:
  "rows_rel enc rows kvs \<Longrightarrow> map_of kvs k = None \<Longrightarrow> rows_rel enc (rows @ [(k, enc v)]) (AList.update k v kvs)"
  using rows_rel_keys [of enc rows kvs] by (auto simp: rows_rel_def update_fresh map_of_eq_None_iff)

lemma rows_rel_length: "rows_rel enc rows kvs \<Longrightarrow> length rows = length kvs"
proof -
  assume r: "rows_rel enc rows kvs"
  then have "length rows = card (fst ` set rows)" "length kvs = card (fst ` set kvs)"
    by (metis distinct_card length_map list.set_map rows_rel_def)+
  with rows_rel_keys [OF r] show ?thesis by simp
qed

lemma sorted_rows:
  fixes kvs :: "('k::linorder \<times> 'v) list"
  assumes "rows_rel enc rows kvs"
  shows "sort_key fst rows = map (\<lambda>(k, v). (k, enc v)) (sort_key fst kvs)"
proof (rule map_sorted_distinct_set_unique [where f = fst])
  let ?r = "map (\<lambda>(k, v). (k, enc v)) (sort_key fst kvs)"
  have f: "map fst ?r = map fst (sort_key fst kvs)" by (simp add: case_prod_beta)
  have d: "distinct (map fst (sort_key fst xs))" if "distinct (map fst xs)" for xs :: "('k \<times> 'x) list"
    using that by (simp add: distinct_map)
  show e: "set (sort_key fst rows) = set ?r" using assms by (simp add: rows_rel_def)
  show "distinct (map fst (sort_key fst rows))" "distinct (map fst ?r)"
    unfolding f using assms by (auto intro: d simp: rows_rel_def)
  show "sorted (map fst ?r)" unfolding f by simp
  have "inj_on fst (set rows)" using assms unfolding rows_rel_def distinct_map by blast
  then show "inj_on fst (set (sort_key fst rows) \<union> set ?r)"
    by (simp only: e [symmetric] set_sort Un_absorb)
qed simp

text \<open>Decoding all rows gives back the dictionary, in the order of the rows.\<close>

lemma rows_rel_decode:
  assumes "rows_rel enc rows kvs" "\<forall>(k, v) \<in> set kvs. dec (enc v) = Inr v"
  shows "\<exists>kvs'. emap (\<lambda>(k, j). ebind (dec j) (\<lambda>v. Inr (k, v))) rows = Inr kvs' \<and> set kvs' = set kvs \<and> distinct (map fst kvs')"
proof -
  let ?g = "\<lambda>(k, j). (k, projr (dec j))"
  have r: "\<exists>v. row = (fst row, enc v) \<and> (fst row, v) \<in> set kvs" if "row \<in> set rows" for row
    using assms(1) that by (auto simp: rows_rel_def)
  have "emap (\<lambda>(k, j). ebind (dec j) (\<lambda>v. Inr (k, v))) rows = Inr (map ?g rows)"
  proof (rule emap_Inr_all)
    fix row assume "row \<in> set rows"
    from r [OF this] assms(2) show "(\<lambda>(k, j). ebind (dec j) (\<lambda>v. Inr (k, v))) row = Inr (?g row)" by (cases row) auto
  qed
  moreover have "set (map ?g rows) = set kvs"
  proof -
    have "?g ` (\<lambda>(k, v). (k, enc v)) ` set kvs = set kvs" using assms(2) by (force simp: image_image)
    then show ?thesis using assms(1) by (simp add: rows_rel_def)
  qed
  moreover have "distinct (map fst (map ?g rows))"
    using assms(1) by (simp add: rows_rel_def comp_def case_prod_beta)
  ultimately show ?thesis by blast
qed

lemma same_set_map_of:
  "distinct (map fst xs) \<Longrightarrow> distinct (map fst ys) \<Longrightarrow> set xs = set ys \<Longrightarrow> map_of xs = map_of ys"
  by (simp add: map_of_inject_set)

section \<open>Relation\<close>

definition row_of :: "bytes \<Rightarrow> Stored \<Rightarrow> ElectionRow" where
  "row_of e st = \<lparr>el_election_id = e, el_config = enc_config (st_config st), el_admin_key = cfg_admin_key (st_config st),
     el_voting_start = cfg_voting_start (st_config st), el_cancelled = st_cancelled st, el_tally_stalled = st_tally_stalled st\<rparr>"

definition ballot_kvs :: "StoredBallot list \<Rightarrow> (int \<times> BallotEnvelope \<times> int) list" where
  "ballot_kvs rows = map (\<lambda>sb. (sb_sequence_number sb, sb_envelope sb, the (sb_submitted_at sb))) rows"

text \<open>The part of the memory state of an election, empty where it is unknown.\<close>

definition part :: "(Stored \<Rightarrow> 'x list) \<Rightarrow> InMemory \<Rightarrow> bytes \<Rightarrow> 'x list" where
  "part f m e = (case map_of (im_elections m) e of None \<Rightarrow> [] | Some st \<Rightarrow> f st)"

definition sized_stored :: "bytes \<Rightarrow> Stored \<Rightarrow> bool" where
  "sized_stored e st \<longleftrightarrow>
     (\<forall>(i, s) \<in> set (st_dkg_by_keyper st). ok_dkg_result s) \<and>
     (\<forall>sb \<in> set (st_ballots st). ok_ballot (sb_envelope sb)) \<and>
     (\<forall>(i, a) \<in> set (st_aggregate_by_keyper st). ok_aggregate a \<and> agg_election_id a = e) \<and>
     (\<forall>(i, s) \<in> set (st_shares_by_keyper st). ok_decryption_share s) \<and>
     (\<forall>r. st_result st = Some r \<longrightarrow> ok_result r)"

definition sim :: "host \<Rightarrow> Postgres \<Rightarrow> InMemory \<Rightarrow> bool" where
  "sim H pg m \<longleftrightarrow>
     mem_inv H m \<and> (\<forall>(e, st) \<in> set (im_elections m). sized_stored e st) \<and>
     seq_peek pg = im_next_id m + 1 \<and>
     distinct (map el_election_id (pg_elections pg)) \<and>
     set (pg_elections pg) = (\<lambda>(e, st). row_of e st) ` set (im_elections m) \<and>
     (\<forall>e. rows_rel enc_dkg_result (rows_of e (pg_dkg_submissions pg)) (part st_dkg_by_keyper m e)) \<and>
     (\<forall>e. rows_rel (\<lambda>(b, ts). (enc_ballot b, ts)) (rows_of e (pg_ballots pg)) (part (ballot_kvs \<circ> st_ballots) m e)) \<and>
     (\<forall>e. rows_rel enc_aggregate (rows_of e (pg_aggregates pg)) (part st_aggregate_by_keyper m e)) \<and>
     (\<forall>e. rows_rel enc_decryption_share (rows_of e (pg_decryption_shares pg)) (part st_shares_by_keyper m e)) \<and>
     (\<forall>e. map_of (pg_results pg) e = Option.bind (map_of (im_elections m) e) (\<lambda>st. map_option enc_result (st_result st))) \<and>
     set (pg_request_nonces pg) = im_used_request_nonces m"

text \<open>The requests the decoders let through, with integers and texts the columns can hold.\<close>

fun request_sized :: "int \<Rightarrow> write_request \<Rightarrow> bool" where
  "request_sized now (Register c sig) = (config_ok c \<and> bigint (cfg_voting_start c) \<and> jsonb_ok (enc_config c))"
| "request_sized now (SubmitDkg e pk com sig) = (length pk = 96 \<and> list_all (\<lambda>p. length p = 96) com)"
| "request_sized now (SubmitBallot e b sig) = (ok_ballot b \<and> bigint now)"
| "request_sized now (SubmitAggregate e a sig) = (ok_aggregate a \<and> agg_election_id a = e)"
| "request_sized now (SubmitShare e sh sig) = ok_decryption_share sh"
| "request_sized now (PublishResult e r sig) = ok_result r"
| "request_sized now (SetStalled e b sig t) = bigint t"
| "request_sized now _ = True"

text \<open>The digest of an aggregate determines it, up to the election it names.\<close>

definition digest_binds :: "host \<Rightarrow> bool" where
  "digest_binds H \<longleftrightarrow>
     (\<forall>e a b d. aggregate_digest_of H e a = Inr d \<and> aggregate_digest_of H e b = Inr d \<and>
        agg_election_id a = agg_election_id b \<longrightarrow> a = b)"

section \<open>Reads\<close>

lemma simD:
  assumes "sim H pg m"
  shows "mem_inv H m" and "seq_peek pg = im_next_id m + 1" and "distinct (map el_election_id (pg_elections pg))"
    and "set (pg_elections pg) = (\<lambda>(e, st). row_of e st) ` set (im_elections m)"
    and "rows_rel enc_dkg_result (rows_of e (pg_dkg_submissions pg)) (part st_dkg_by_keyper m e)"
    and "rows_rel (\<lambda>(b, ts). (enc_ballot b, ts)) (rows_of e (pg_ballots pg)) (part (ballot_kvs \<circ> st_ballots) m e)"
    and "rows_rel enc_aggregate (rows_of e (pg_aggregates pg)) (part st_aggregate_by_keyper m e)"
    and "rows_rel enc_decryption_share (rows_of e (pg_decryption_shares pg)) (part st_shares_by_keyper m e)"
    and "ps_result_row e pg = Option.bind (map_of (im_elections m) e) (\<lambda>st. map_option enc_result (st_result st))"
    and "set (pg_request_nonces pg) = im_used_request_nonces m"
    and "im_get m e = Inr st \<Longrightarrow> sized_stored e st"
  using assms by (auto simp: sim_def ps_result_row_def im_get_Inr dest: map_of_SomeD)

lemma part_get [simp]: "im_get m e = Inr st \<Longrightarrow> part f m e = f st"
  by (simp add: part_def im_get_Inr)

lemma find_key: "distinct (map f xs) \<Longrightarrow> x \<in> set xs \<Longrightarrow> find (\<lambda>y. f y = f x) xs = Some x"
  by (induction xs) (auto simp: rev_image_eqI)

lemma sim_row:
  assumes "sim H pg m"
  shows "rel_result (\<lambda>st row. row = row_of e st) (im_get m e) (election_row pg e)"
proof (cases "im_get m e")
  case (Inl err)
  then have "e \<notin> fst ` set (im_elections m)" by (auto simp: im_get_def map_of_eq_None_iff split: option.splits)
  then have "find (\<lambda>row. el_election_id row = e) (pg_elections pg) = None"
    unfolding find_None_iff simD(4) [OF assms] by (auto simp: row_of_def rev_image_eqI)
  moreover have "err = KeyError" using Inl by (simp add: im_get_def split: option.splits)
  ultimately show ?thesis using Inl by (simp add: election_row_def)
next
  case (Inr st)
  then have "(e, st) \<in> set (im_elections m)" by (auto simp: im_get_Inr dest: map_of_SomeD)
  then have "row_of e st \<in> set (pg_elections pg)" unfolding simD(4) [OF assms] by (rule rev_image_eqI) simp
  moreover have "el_election_id (row_of e st) = e" by (simp add: row_of_def)
  ultimately have "find (\<lambda>row. el_election_id row = e) (pg_elections pg) = Some (row_of e st)"
    using find_key [OF simD(3) [OF assms], of "row_of e st"] by simp
  with Inr show ?thesis by (simp add: election_row_def)
qed

lemma stored_ok_config: "mem_inv H m \<Longrightarrow> im_get m e = Inr st \<Longrightarrow> ok_config (st_config st)"
proof -
  assume inv: "mem_inv H m" and g: "im_get m e = Inr st"
  have "e \<in> set (map fst (im_elections m))" using g by (force simp: im_get_Inr dest: map_of_SomeD)
  then have "e \<in> set (election_ids (im_next_id m))" using inv unfolding mem_inv_def by (simp only:)
  then have "length e = 32" by (auto simp: election_ids_def)
  with mem_inv_get [OF inv g] show ?thesis by (auto simp: ok_config_def stored_inv_def)
qed

lemma sim_config:
  assumes "sim H pg m"
  shows "rel_result (\<lambda>st c. c = st_config st) (im_get m e) (ps_config H pg e)"
proof (cases "im_get m e")
  case (Inl err)
  with sim_row [OF assms, of e] show ?thesis by (cases "election_row pg e") (auto simp: ps_config_def)
next
  case (Inr st)
  with sim_row [OF assms, of e] have "election_row pg e = Inr (row_of e st)" by (cases "election_row pg e") auto
  with stored_ok_config [OF simD(1) [OF assms] Inr] Inr show ?thesis
    by (simp add: ps_config_def row_of_def config_codec.dec_enc)
qed

lemma finalized_key_cong:
  assumes inv: "stored_inv H e st" and kvs: "set kvs = set (st_dkg_by_keyper st)" "distinct (map fst kvs)"
  shows "finalized_key_of (st\<lparr>st_dkg_by_keyper := kvs\<rparr>) = finalized_key_of st"
proof -
  let ?st = "st\<lparr>st_dkg_by_keyper := kvs\<rparr>"
  have d: "distinct (map fst (st_dkg_by_keyper st))" using inv by (simp add: stored_inv_def keyed_def)
  have inv': "stored_inv H e ?st" using inv kvs by (simp add: stored_inv_def keyed_def)
  have "map_of kvs = map_of (st_dkg_by_keyper st)" by (rule same_set_map_of [OF kvs(2) d kvs(1)])
  then have v: "key_voters ?st k = key_voters st k" for k by (simp add: key_voters_def)
  obtain x y where x: "finalized_key_of ?st = Inr x" and y: "finalized_key_of st = Inr y"
    using finalized_key_total [OF inv'] finalized_key_total [OF inv] by blast
  have "x = Some k \<longleftrightarrow> y = Some k" for k
    using finalized_key_iff [OF inv', of k] finalized_key_iff [OF inv, of k] x y by (simp add: v)
  then have "x = y" by (metis option.exhaust)
  with x y show ?thesis by simp
qed

lemma sim_finalized_key:
  assumes "sim H pg m" "im_get m e = Inr st"
  shows "ps_finalized_key (st_config st) pg = finalized_key_of st"
proof -
  have inv: "stored_inv H e st" using mem_inv_get [OF simD(1) [OF assms(1)] assms(2)] .
  then have c: "cfg_election_id (st_config st) = e" by (simp add: stored_inv_def)
  have "\<forall>(i, s) \<in> set (st_dkg_by_keyper st). dec_dkg_result (enc_dkg_result s) = Inr s"
    using simD(11) [OF assms] by (auto simp: sized_stored_def dkg_result_codec.dec_enc)
  then obtain kvs where kvs: "emap (\<lambda>(k, j). ebind (dec_dkg_result j) (\<lambda>v. Inr (k, v))) (rows_of e (pg_dkg_submissions pg)) = Inr kvs"
    "set kvs = set (st_dkg_by_keyper st)" "distinct (map fst kvs)"
    using rows_rel_decode [OF simD(5) [OF assms(1), of e], of dec_dkg_result] assms(2) by auto
  have "ps_finalized_key (st_config st) pg = finalized_key_of (st\<lparr>st_dkg_by_keyper := kvs\<rparr>)"
    using kvs(1) by (simp add: ps_finalized_key_def c finalized_key_of_def)
  then show ?thesis using finalized_key_cong [OF inv kvs(2,3)] by simp
qed

subsection \<open>Canonical aggregate\<close>

lemma canonical_iff:
  assumes inv: "stored_inv H e st" and b: "digest_binds H" and same: "\<forall>(i, a) \<in> set (st_aggregate_by_keyper st). agg_election_id a = e"
  shows "canonical_aggregate H e st = Inr (Some a) \<longleftrightarrow>
    th_quorum (cfg_threshold (st_config st)) \<le> int (card {i. map_of (st_aggregate_by_keyper st) i = Some a})"
proof -
  let ?A = "st_aggregate_by_keyper st" and ?t = "th_quorum (cfg_threshold (st_config st))"
  let ?d = "\<lambda>a. projr (aggregate_digest_of H e a)"
  let ?S = "map (\<lambda>(i, a). (?d a, a, i)) ?A"
  have d: "distinct (map fst ?A)" using inv by (simp add: stored_inv_def keyed_def)
  have ok: "aggregate_digest_of H e a = Inr (?d a)" if "(i, a) \<in> set ?A" for i a
    using inv that by (force simp: stored_inv_def not_isl_iff)
  have "emap (\<lambda>(idx, agg). ebind (aggregate_digest_of H e agg) (\<lambda>key. Inr (key, agg, idx))) ?A = Inr ?S"
  proof (rule emap_Inr_all)
    fix x assume x: "x \<in> set ?A"
    obtain i a where ia: "x = (i, a)" by (cases x)
    with ok x obtain d where "aggregate_digest_of H e a = Inr d" by blast
    with ia show "(\<lambda>(idx, agg). ebind (aggregate_digest_of H e agg) (\<lambda>key. Inr (key, agg, idx))) x = Inr ((\<lambda>(i, a). (?d a, a, i)) x)"
      by simp
  qed
  then have can: "canonical_aggregate H e st = resolve_unique (map snd (group_all ?S)) ?t"
    by (simp add: canonical_aggregate_def aggregate_groups_def)
  have m: "map (snd \<circ> snd) ?S = map fst ?A" by (simp add: case_prod_beta)
  then have im: "(snd \<circ> snd) ` set ?S = fst ` set ?A" by (metis list.set_map)
  have S: "distinct (map (snd \<circ> snd) ?S)" "(snd \<circ> snd) ` set ?S \<subseteq> {1..th_n (cfg_threshold (st_config st))}"
    unfolding m im using inv by (simp_all add: stored_inv_def keyed_def)
  obtain w where w: "resolve_unique (map snd (group_all ?S)) ?t = Inr w"
    and c: "case w of None \<Rightarrow> \<forall>k. int (group_size ?S k) < ?t
      | Some v \<Rightarrow> \<exists>k i. (k, v, i) \<in> set ?S \<and> ?t \<le> int (group_size ?S k)"
    using resolve_majority [OF groups_of_all S quorum_facts [OF inv]] by blast
  have uniq: "u = v" if "(j, u) \<in> set ?A" "(i, v) \<in> set ?A" "?d u = ?d v" for i j u v
  proof -
    have "agg_election_id u = agg_election_id v" using bspec [OF same that(1)] bspec [OF same that(2)] by simp
    moreover have "aggregate_digest_of H e u = Inr (?d v)" using ok [OF that(1)] that(3) by (rule trans [OF _ arg_cong])
    ultimately show ?thesis using b ok [OF that(2)] unfolding digest_binds_def by blast
  qed
  have sz: "group_size ?S (?d v) = card {i. map_of ?A i = Some v}" if "(i, v) \<in> set ?A" for i v
  proof -
    have "(\<exists>u. (?d v, u, j) \<in> set ?S) \<longleftrightarrow> (j, v) \<in> set ?A" for j
      using uniq [OF _ that] by (force simp: image_iff)
    then have "{j. \<exists>u. (?d v, u, j) \<in> set ?S} = {j. map_of ?A j = Some v}"
      using d by simp
    then show ?thesis by (simp add: group_size_def)
  qed
  have pos: "\<exists>i. (i, a) \<in> set ?A" if "?t \<le> int (card {i. map_of ?A i = Some a})" for a
  proof -
    have "{i. map_of ?A i = Some a} \<noteq> {}"
    proof
      assume "{i. map_of ?A i = Some a} = {}"
      with that have "?t \<le> 0" by (simp only: card.empty of_nat_0)
      with quorum_facts(2) [OF inv] show False by simp
    qed
    then show ?thesis by (auto dest: map_of_SomeD)
  qed
  show ?thesis
  proof (cases w)
    case None
    have "\<not> ?t \<le> int (card {i. map_of ?A i = Some a})"
    proof
      assume q: "?t \<le> int (card {i. map_of ?A i = Some a})"
      then obtain i where a: "(i, a) \<in> set ?A" using pos by blast
      have "int (group_size ?S (?d a)) < ?t" using c unfolding None option.case by blast
      with q show False unfolding sz [OF a] by linarith
    qed
    with None w can show ?thesis by simp
  next
    case (Some v)
    with c obtain i where v: "(i, v) \<in> set ?A" and q: "?t \<le> int (group_size ?S (?d v))" by auto
    have "v = a" if h: "?t \<le> int (card {i. map_of ?A i = Some a})"
    proof -
      obtain j where a: "(j, a) \<in> set ?A" using pos [OF h] by blast
      have "?d v = ?d a"
        by (rule majority_unique [OF S quorum_facts [OF inv] q]) (use h sz [OF a] in simp)
      then show ?thesis by (rule uniq [OF v a])
    qed
    moreover have "?t \<le> int (card {i. map_of ?A i = Some v})" using q sz [OF v] by simp
    ultimately show ?thesis using Some w can by (cases "v = a") auto
  qed
qed

lemma canonical_cong:
  assumes inv: "stored_inv H e st" and b: "digest_binds H" and same: "\<forall>(i, a) \<in> set (st_aggregate_by_keyper st). agg_election_id a = e"
    and kvs: "set kvs = set (st_aggregate_by_keyper st)" "distinct (map fst kvs)"
  shows "canonical_aggregate H e (st\<lparr>st_aggregate_by_keyper := kvs\<rparr>) = canonical_aggregate H e st"
proof -
  let ?st = "st\<lparr>st_aggregate_by_keyper := kvs\<rparr>"
  have d: "distinct (map fst (st_aggregate_by_keyper st))" using inv by (simp add: stored_inv_def keyed_def)
  have inv': "stored_inv H e ?st" using inv kvs by (simp add: stored_inv_def keyed_def)
  have mo: "map_of kvs = map_of (st_aggregate_by_keyper st)" by (rule same_set_map_of [OF kvs(2) d kvs(1)])
  obtain x y where x: "canonical_aggregate H e ?st = Inr x" and y: "canonical_aggregate H e st = Inr y"
    using canonical_total [OF inv'] canonical_total [OF inv] by blast
  have "x = Some k \<longleftrightarrow> y = Some k" for k
    using canonical_iff [OF inv' b, of k] canonical_iff [OF inv b same, of k] same x y kvs(1) by (simp add: mo)
  then have "x = y" by (metis option.exhaust)
  with x y show ?thesis by simp
qed

lemma emap_total: "(\<And>x. x \<in> set xs \<Longrightarrow> \<not> isl (f x)) \<Longrightarrow> emap f xs = Inr (map (\<lambda>x. projr (f x)) xs)"
proof (induction xs)
  case (Cons x xs)
  then obtain y where "f x = Inr y" by (auto simp: not_isl_iff)
  with Cons show ?case by simp
qed simp

lemma emap_ebind_map:
  "emap (\<lambda>(k, j). ebind (dec j) (\<lambda>v. f k v)) rows =
     ebind (emap (\<lambda>(k, j). ebind (dec j) (\<lambda>v. Inr (k, v))) rows) (emap (\<lambda>(k, v). f k v))"
  if "\<And>k j. (k, j) \<in> set rows \<Longrightarrow> \<not> isl (dec j)"
  using that
proof (induction rows)
  case (Cons row rows)
  obtain k j where row: "row = (k, j)" by (cases row)
  with Cons.prems obtain v where v: "dec j = Inr v" by (auto simp: not_isl_iff)
  have IH: "emap (\<lambda>(k, j). ebind (dec j) (\<lambda>v. f k v)) rows =
     ebind (emap (\<lambda>(k, j). ebind (dec j) (\<lambda>v. Inr (k, v))) rows) (emap (\<lambda>(k, v). f k v))"
    by (rule Cons.IH) (use Cons.prems in auto)
  have "\<not> isl ((\<lambda>(k, j). ebind (dec j) (\<lambda>v. Inr (k, v))) x)" if "x \<in> set rows" for x
    using Cons.prems [of "fst x" "snd x"] that by (cases x) (auto simp: not_isl_iff)
  then obtain kvs where kvs: "emap (\<lambda>(k, j). ebind (dec j) (\<lambda>v. Inr (k, v))) rows = Inr kvs"
    using emap_total by blast
  show ?case by (simp add: row v IH kvs)
qed simp

lemma sim_canonical:
  assumes "sim H pg m" "digest_binds H" "im_get m e = Inr st"
  shows "ebind (ps_aggregate_group_counts H e pg) (\<lambda>g. resolve_unique (map snd g) (th_quorum (cfg_threshold (st_config st)))) =
    canonical_aggregate H e st"
proof -
  have inv: "stored_inv H e st" using mem_inv_get [OF simD(1) [OF assms(1)] assms(3)] .
  have sz: "sized_stored e st" using simD(11) [OF assms(1,3)] .
  let ?f = "\<lambda>idx agg. ebind (aggregate_digest_of H e agg) (\<lambda>key. Inr (key, agg, idx))"
  have ok: "\<forall>(i, a) \<in> set (st_aggregate_by_keyper st). dec_aggregate (enc_aggregate a) = Inr a"
    using sz by (auto simp: sized_stored_def aggregate_codec.dec_enc)
  note r = simD(7) [OF assms(1), of e, unfolded part_get [OF assms(3)]]
  obtain kvs where kvs: "emap (\<lambda>(k, j). ebind (dec_aggregate j) (\<lambda>v. Inr (k, v))) (rows_of e (pg_aggregates pg)) = Inr kvs"
    "set kvs = set (st_aggregate_by_keyper st)" "distinct (map fst kvs)"
    using rows_rel_decode [OF r ok] by blast
  have "\<not> isl (dec_aggregate j)" if "(k, j) \<in> set (rows_of e (pg_aggregates pg))" for k j
    using r ok that by (auto simp: rows_rel_def)
  then have "emap (\<lambda>(k, j). ebind (dec_aggregate j) (?f k)) (rows_of e (pg_aggregates pg)) = emap (\<lambda>(k, v). ?f k v) kvs"
    using emap_ebind_map [of "rows_of e (pg_aggregates pg)" dec_aggregate ?f] kvs(1) by simp
  then have "ebind (ps_aggregate_group_counts H e pg) (\<lambda>g. resolve_unique (map snd g) (th_quorum (cfg_threshold (st_config st)))) =
      canonical_aggregate H e (st\<lparr>st_aggregate_by_keyper := kvs\<rparr>)"
    by (simp add: ps_aggregate_group_counts_def canonical_aggregate_def aggregate_groups_def)
  also have "\<dots> = canonical_aggregate H e st"
    using sz by (intro canonical_cong [OF inv assms(2) _ kvs(2,3)]) (auto simp: sized_stored_def)
  finally show ?thesis .
qed

lemma sim_finalized:
  assumes "sim H pg m" "digest_binds H" "im_get m e = Inr st"
  shows "ps_aggregate_finalized H (st_config st) pg = aggregate_finalized H st m"
proof -
  have c: "cfg_election_id (st_config st) = e"
    using mem_inv_get [OF simD(1) [OF assms(1)] assms(3)] by (simp add: stored_inv_def)
  have "ps_aggregate_finalized H (st_config st) pg =
      ebind (ebind (ps_aggregate_group_counts H e pg) (\<lambda>g. resolve_unique (map snd g) (th_quorum (cfg_threshold (st_config st)))))
        (\<lambda>a. Inr (a \<noteq> None))"
    by (simp add: ps_aggregate_finalized_def c ebind_assoc)
  also have "\<dots> = aggregate_finalized H st m"
    by (simp add: sim_canonical [OF assms] aggregate_finalized_def im_get_aggregate_canonical c assms(3))
  finally show ?thesis .
qed

section \<open>Writes\<close>

lemma set_update_distinct: "distinct (map fst al) \<Longrightarrow> set (AList.update k v al) = insert (k, v) {x \<in> set al. fst x \<noteq> k}"
  by (induction al) (auto simp: rev_image_eqI)

lemma part_other: "im_elections m' = AList.update e st' (im_elections m) \<Longrightarrow> e' \<noteq> e \<Longrightarrow> part f m' e' = part f m e'"
  by (simp add: part_def update_conv)

lemma part_same: "im_elections m' = AList.update e st' (im_elections m) \<Longrightarrow> part f m' e = f st'"
  by (simp add: part_def update_conv)

lemma sim_update:
  assumes sim: "sim H pg m" and g: "im_get m e = Inr st" and inv': "mem_inv H m'"
    and el: "im_elections m' = AList.update e st' (im_elections m)" and n: "im_next_id m' = im_next_id m" and sz: "sized_stored e st'"
    and q: "seq_peek pg' = seq_peek pg"
    and E: "pg_elections pg' = map (\<lambda>row. if el_election_id row = e then row_of e st' else row) (pg_elections pg)"
    and D: "\<And>e'. rows_rel enc_dkg_result (rows_of e' (pg_dkg_submissions pg')) (if e' = e then st_dkg_by_keyper st' else part st_dkg_by_keyper m e')"
    and B: "\<And>e'. rows_rel (\<lambda>(b, ts). (enc_ballot b, ts)) (rows_of e' (pg_ballots pg')) (if e' = e then ballot_kvs (st_ballots st') else part (ballot_kvs \<circ> st_ballots) m e')"
    and A: "\<And>e'. rows_rel enc_aggregate (rows_of e' (pg_aggregates pg')) (if e' = e then st_aggregate_by_keyper st' else part st_aggregate_by_keyper m e')"
    and S: "\<And>e'. rows_rel enc_decryption_share (rows_of e' (pg_decryption_shares pg')) (if e' = e then st_shares_by_keyper st' else part st_shares_by_keyper m e')"
    and R: "\<And>e'. map_of (pg_results pg') e' = (if e' = e then map_option enc_result (st_result st') else map_of (pg_results pg) e')"
    and N: "set (pg_request_nonces pg') = im_used_request_nonces m'"
  shows "sim H pg' m'"
proof -
  have d: "distinct (map fst (im_elections m))" using mem_inv_distinct [OF simD(1) [OF sim]] .
  have "set (pg_elections pg') = (\<lambda>row. if el_election_id row = e then row_of e st' else row) ` (\<lambda>(e, st). row_of e st) ` set (im_elections m)"
    by (simp add: E simD(4) [OF sim])
  also have "\<dots> = (\<lambda>(e, st). row_of e st) ` set (im_elections m')"
  proof -
    have "(e, st) \<in> set (im_elections m)" using g by (auto simp: im_get_Inr dest: map_of_SomeD)
    then show ?thesis unfolding el set_update_distinct [OF d] by (force simp: row_of_def image_iff)
  qed
  finally have E': "set (pg_elections pg') = (\<lambda>(e, st). row_of e st) ` set (im_elections m')" .
  have "map el_election_id (pg_elections pg') = map el_election_id (pg_elections pg)"
    by (auto simp: E row_of_def)
  then have dE: "distinct (map el_election_id (pg_elections pg'))" using simD(3) [OF sim] by simp
  have "\<forall>(e', s) \<in> set (im_elections m'). sized_stored e' s"
    using sim sz unfolding el set_update_distinct [OF d] sim_def by auto
  moreover have "rows_rel enc_dkg_result (rows_of e' (pg_dkg_submissions pg')) (part st_dkg_by_keyper m' e')"
 for e'
    using D [of e'] by (cases "e' = e") (simp_all add: part_other [OF el] part_same [OF el])
  moreover have "rows_rel (\<lambda>(b, ts). (enc_ballot b, ts)) (rows_of e' (pg_ballots pg')) (part (ballot_kvs \<circ> st_ballots) m' e')" for e'
    using B [of e'] by (cases "e' = e") (simp_all add: part_other [OF el] part_same [OF el])
  moreover have "rows_rel enc_aggregate (rows_of e' (pg_aggregates pg')) (part st_aggregate_by_keyper m' e')" for e'
    using A [of e'] by (cases "e' = e") (simp_all add: part_other [OF el] part_same [OF el])
  moreover have "rows_rel enc_decryption_share (rows_of e' (pg_decryption_shares pg')) (part st_shares_by_keyper m' e')" for e'
    using S [of e'] by (cases "e' = e") (simp_all add: part_other [OF el] part_same [OF el])
  moreover have "map_of (pg_results pg') e' = Option.bind (map_of (im_elections m') e') (\<lambda>st. map_option enc_result (st_result st))" for e'
    using R [of e'] simD(9) [OF sim, of e'] by (auto simp: el update_conv ps_result_row_def)
  ultimately show ?thesis
    using inv' q n E' dE N simD(2) [OF sim] by (simp add: sim_def)
qed

lemma own_row:
  assumes "sim H pg m" "im_get m e = Inr st" "row \<in> set (pg_elections pg)" "el_election_id row = e"
  shows "row = row_of e st"
proof -
  from assms(3,4) simD(4) [OF assms(1)] obtain s where "(e, s) \<in> set (im_elections m)" "row = row_of e s"
    by (auto simp: row_of_def)
  with assms(2) mem_inv_distinct [OF simD(1) [OF assms(1)]] show ?thesis by (auto simp: im_get_Inr)
qed

lemma elections_same:
  assumes "sim H pg m" "im_get m e = Inr st" "row_of e st' = row_of e st"
  shows "pg_elections pg = map (\<lambda>row. if el_election_id row = e then row_of e st' else row) (pg_elections pg)"
  using own_row [OF assms(1,2)] by (auto simp: assms(3) intro!: map_idI [symmetric])

lemma sim_tables:
  assumes "sim H pg m" "im_get m e = Inr st"
  shows "rows_rel enc_dkg_result (rows_of e' (pg_dkg_submissions pg)) (if e' = e then st_dkg_by_keyper st else part st_dkg_by_keyper m e')"
    and "rows_rel (\<lambda>(b, ts). (enc_ballot b, ts)) (rows_of e' (pg_ballots pg)) (if e' = e then ballot_kvs (st_ballots st) else part (ballot_kvs \<circ> st_ballots) m e')"
    and "rows_rel enc_aggregate (rows_of e' (pg_aggregates pg)) (if e' = e then st_aggregate_by_keyper st else part st_aggregate_by_keyper m e')"
    and "rows_rel enc_decryption_share (rows_of e' (pg_decryption_shares pg)) (if e' = e then st_shares_by_keyper st else part st_shares_by_keyper m e')"
    and "map_of (pg_results pg) e = map_option enc_result (st_result st)"
  using simD(5-8) [OF assms(1), of e'] simD(9) [OF assms(1), of e] assms(2) by (auto simp: ps_result_row_def im_get_Inr)

lemma rows_of_append [simp]: "rows_of e' (tbl @ [(e, x)]) = rows_of e' tbl @ (if e' = e then [x] else [])"
  by (simp add: rows_of_def)

lemma rows_of_upsert:
  "rows_of e' (upsert e i v tbl) =
     (if e' = e then filter (\<lambda>row. fst row \<noteq> i) (rows_of e tbl) @ [(i, v)] else rows_of e' tbl)"
  by (induction tbl) (auto simp: upsert_def rows_of_def)

lemma rows_rel_upsert:
  assumes "rows_rel enc rows kvs"
  shows "rows_rel enc (filter (\<lambda>row. fst row \<noteq> k) rows @ [(k, enc v)]) (AList.update k v kvs)"
  using assms unfolding rows_rel_def set_update_distinct [OF conjunct1 [OF conjunct2 [OF assms [unfolded rows_rel_def]]]]
  by (auto simp: distinct_update distinct_map_filter)

text \<open>A table after a write: unchanged with its dictionary, or changed for the election \<open>e\<close> only.\<close>

definition table_step :: "('v \<Rightarrow> 'w) \<Rightarrow> bytes \<Rightarrow> (bytes \<times> 'k \<times> 'w) list \<Rightarrow> ('k \<times> 'v) list \<Rightarrow> (bytes \<times> 'k \<times> 'w) list \<Rightarrow> ('k \<times> 'v) list \<Rightarrow> bool" where
  "table_step enc e tbl kvs tbl' kvs' \<longleftrightarrow>
     (\<forall>e'. e' \<noteq> e \<longrightarrow> rows_of e' tbl' = rows_of e' tbl) \<and> (rows_rel enc (rows_of e tbl) kvs \<longrightarrow> rows_rel enc (rows_of e tbl') kvs')"

lemma table_step_refl [simp]: "table_step enc e tbl kvs tbl kvs"
  by (simp add: table_step_def)

lemma table_step_append: "map_of kvs k = None \<Longrightarrow> table_step enc e tbl kvs (tbl @ [(e, k, enc v)]) (AList.update k v kvs)"
  by (simp add: table_step_def rows_rel_append)

lemma table_step_upsert: "table_step enc e tbl kvs (upsert e k (enc v) tbl) (AList.update k v kvs)"
  by (simp add: table_step_def rows_of_upsert rows_rel_upsert)

lemma sim_step:
  assumes sim: "sim H pg m" and g: "im_get m e = Inr st" and t: "touches H e m m'"
    and el: "im_elections m' = AList.update e st' (im_elections m)" and n: "im_next_id m' = im_next_id m" and sz: "sized_stored e st'"
    and q: "pg_seq_last pg' = pg_seq_last pg" "pg_seq_called pg' = pg_seq_called pg"
    and E: "pg_elections pg' = map (\<lambda>row. if el_election_id row = e then row_of e st' else row) (pg_elections pg)"
    and D: "table_step enc_dkg_result e (pg_dkg_submissions pg) (st_dkg_by_keyper st) (pg_dkg_submissions pg') (st_dkg_by_keyper st')"
    and B: "table_step (\<lambda>(b, ts). (enc_ballot b, ts)) e (pg_ballots pg) (ballot_kvs (st_ballots st)) (pg_ballots pg') (ballot_kvs (st_ballots st'))"
    and A: "table_step enc_aggregate e (pg_aggregates pg) (st_aggregate_by_keyper st) (pg_aggregates pg') (st_aggregate_by_keyper st')"
    and S: "table_step enc_decryption_share e (pg_decryption_shares pg) (st_shares_by_keyper st) (pg_decryption_shares pg') (st_shares_by_keyper st')"
    and R: "\<And>e'. map_of (pg_results pg') e' = (if e' = e then map_option enc_result (st_result st') else map_of (pg_results pg) e')"
    and N: "set (pg_request_nonces pg') = im_used_request_nonces m'"
  shows "sim H pg' m'"
proof (rule sim_update [OF sim g mem_inv_touches [OF simD(1) [OF sim] t] el n sz _ E _ _ _ _ R N])
  note T = sim_tables [OF sim g]
  show "seq_peek pg' = seq_peek pg" by (simp add: seq_peek_def q)
  show "rows_rel enc_dkg_result (rows_of e' (pg_dkg_submissions pg')) (if e' = e then st_dkg_by_keyper st' else part st_dkg_by_keyper m e')" for e'
    using D T(1) [of e'] by (cases "e' = e") (auto simp: table_step_def)
  show "rows_rel (\<lambda>(b, ts). (enc_ballot b, ts)) (rows_of e' (pg_ballots pg')) (if e' = e then ballot_kvs (st_ballots st') else part (ballot_kvs \<circ> st_ballots) m e')" for e'
    using B T(2) [of e'] by (cases "e' = e") (auto simp: table_step_def)
  show "rows_rel enc_aggregate (rows_of e' (pg_aggregates pg')) (if e' = e then st_aggregate_by_keyper st' else part st_aggregate_by_keyper m e')" for e'
    using A T(3) [of e'] by (cases "e' = e") (auto simp: table_step_def)
  show "rows_rel enc_decryption_share (rows_of e' (pg_decryption_shares pg')) (if e' = e then st_shares_by_keyper st' else part st_shares_by_keyper m e')" for e'
    using S T(4) [of e'] by (cases "e' = e") (auto simp: table_step_def)
qed

lemma update_election_rows:
  assumes "sim H pg m" "im_get m e = Inr st" "f (row_of e st) = row_of e st'" "pg_elections pg1 = pg_elections pg"
  shows "pg_elections (update_election e f pg1) = map (\<lambda>row. if el_election_id row = e then row_of e st' else row) (pg_elections pg)"
  using own_row [OF assms(1,2)] assms(3,4) by (auto simp: update_election_def)

abbreviation sims :: "host \<Rightarrow> InMemory \<Rightarrow> Postgres \<Rightarrow> bool" where
  "sims H m pg \<equiv> sim H pg m"

lemma update_election_sel [simp]:
  "pg_seq_last (update_election e f pg) = pg_seq_last pg" "pg_seq_called (update_election e f pg) = pg_seq_called pg"
  "pg_dkg_submissions (update_election e f pg) = pg_dkg_submissions pg" "pg_ballots (update_election e f pg) = pg_ballots pg"
  "pg_aggregates (update_election e f pg) = pg_aggregates pg" "pg_decryption_shares (update_election e f pg) = pg_decryption_shares pg"
  "pg_results (update_election e f pg) = pg_results pg" "pg_request_nonces (update_election e f pg) = pg_request_nonces pg"
  by (simp_all add: update_election_def)

lemma sim_cancel:
  assumes sim: "sim H pg m"
  shows "rel_result (sims H) (im_cancel_election H now e sig m) (ps_cancel_election H now e sig pg)"
  unfolding im_cancel_election_def ps_cancel_election_def
proof (rule rel_result_bind [OF sim_row [OF sim]], intro rel_result_if)
  fix st row
  assume g: "im_get m e = Inr st" and r: "row = row_of e st"
    and "\<not> cfg_voting_start (st_config st) \<le> now"
    "\<not> \<not> verify_request H (cfg_admin_key (st_config st)) sig ''cancel'' e []"
  then have op: "im_cancel_election H now e sig m = Inr (im_put e (st\<lparr>st_cancelled := True\<rparr>) m)"
    by (simp add: im_cancel_election_def)
  have sz: "sized_stored e (st\<lparr>st_cancelled := True\<rparr>)" using simD(11) [OF sim g] by (simp add: sized_stored_def)
  have "sim H (update_election e (\<lambda>row. row\<lparr>el_cancelled := True\<rparr>) pg) (im_put e (st\<lparr>st_cancelled := True\<rparr>) m)"
    by (rule sim_step [OF sim g cancel_touches [OF op] im_put_sel(1) _ sz _ _ update_election_rows [OF sim g]])
      (use sim_tables(5) [OF sim g] simD(10) [OF sim] in \<open>simp_all add: row_of_def\<close>)
  then show "rel_result (sims H) (Inr (im_put e (st\<lparr>st_cancelled := True\<rparr>) m))
      (Inr (update_election e (\<lambda>row. row\<lparr>el_cancelled := True\<rparr>) pg))" by simp
qed (simp_all add: row_of_def)

lemma rel_result_option:
  assumes "y = map_option enc x" "rel_result R a c" "\<And>v. x = Some v \<Longrightarrow> rel_result R (b v) (d (enc v))"
  shows "rel_result R (case x of None \<Rightarrow> a | Some v \<Rightarrow> b v) (case y of None \<Rightarrow> c | Some w \<Rightarrow> d w)"
  using assms by (cases x) auto

lemma known_id_length: "mem_inv H m \<Longrightarrow> im_get m e = Inr st \<Longrightarrow> length e = 32"
  using stored_ok_config [of H m e st] mem_inv_get [of H m e st] by (auto simp: ok_config_def stored_inv_def)

lemma sim_dkg:
  assumes sim: "sim H pg m" and sized: "length pk = 96" "list_all (\<lambda>p. length p = 96) com"
  shows "rel_result (sims H) (im_submit_dkg_result H e pk com sig m) (ps_submit_dkg_result H e pk com sig pg)"
  unfolding im_submit_dkg_result_def ps_submit_dkg_result_def Let_def
proof (rule rel_result_bind [OF sim_config [OF sim]], rule rel_result_bind [OF rel_result_eq [OF refl]],
    rule rel_result_bind [where S = "(=)"])
  let ?sub = "\<lparr>dkg_election_id = e, dkg_pk_election = pk, dkg_committee_pks = com, dkg_keyper_signature = sig\<rparr>"
  fix st c d d' i i'
  assume g: "im_get m e = Inr st" and c: "c = st_config st" and d: "dkg_result_digest H e pk com = Inr d" "d = d'"
  show "rel_result (=) (keyper_index_by_recovery H (st_config st) d sig) (keyper_index_by_recovery H c d' sig)"
    using c d by (simp add: rel_result_eq)
  assume i: "keyper_index_by_recovery H (st_config st) d sig = Inr i" and "i = i'"
  note rows = rows_rel_map_of [OF simD(5) [OF sim, of e], unfolded part_get [OF g]]
  have ok: "ok_dkg_result ?sub" using sized known_id_length [OF simD(1) [OF sim] g] by (simp add: ok_dkg_result_def)
  have old: "dec_dkg_result (enc_dkg_result s) = Inr s" if "map_of (st_dkg_by_keyper st) k = Some s" for k s
    using simD(11) [OF sim g] that by (auto simp: sized_stored_def dkg_result_codec.dec_enc dest!: map_of_SomeD)
  show "rel_result (sims H)
     (case map_of (st_dkg_by_keyper st) i of
        None \<Rightarrow> Inr (im_put e (st\<lparr>st_dkg_by_keyper := AList.update i ?sub (st_dkg_by_keyper st)\<rparr>) m)
      | Some existing \<Rightarrow> if dkg_key existing \<noteq> dkg_key ?sub then Inl ImmutabilityError else Inr m)
     (case map_of (rows_of e (pg_dkg_submissions pg)) i' of
        None \<Rightarrow> Inr (pg\<lparr>pg_dkg_submissions := pg_dkg_submissions pg @ [(e, i', enc_dkg_result ?sub)]\<rparr>)
      | Some existing \<Rightarrow> ebind (dec_dkg_result existing) (\<lambda>prev. if dkg_key prev \<noteq> dkg_key ?sub then Inl ImmutabilityError else Inr pg))"
  proof (cases "map_of (st_dkg_by_keyper st) i")
    case None
    let ?st = "st\<lparr>st_dkg_by_keyper := AList.update i ?sub (st_dkg_by_keyper st)\<rparr>"
    from g d i None have op: "im_submit_dkg_result H e pk com sig m = Inr (im_put e ?st m)"
      by (simp add: im_submit_dkg_result_def Let_def)
    have sz: "sized_stored e ?st"
      using simD(11) [OF sim g] ok set_update_subset [of i ?sub "st_dkg_by_keyper st"] by (auto simp: sized_stored_def)
    have "sim H (pg\<lparr>pg_dkg_submissions := pg_dkg_submissions pg @ [(e, i, enc_dkg_result ?sub)]\<rparr>) (im_put e ?st m)"
      by (rule sim_step [OF sim g dkg_touches [OF op] im_put_sel(1) _ sz])
        (use sim_tables(5) [OF sim g] simD(10) [OF sim] elections_same [OF sim g, of ?st] None in
          \<open>simp_all add: row_of_def table_step_append\<close>)
    with None \<open>i = i'\<close> show ?thesis by (simp add: rows)
  next
    case (Some s)
    then show ?thesis using \<open>i = i'\<close> sim old [OF Some] by (simp add: rows)
  qed
qed

lemma sim_window:
  assumes sim: "sim H pg m" and g: "im_get m e = Inr st"
  shows "ps_require_voting_open H e now pg = require_voting_open st now"
proof -
  have r: "election_row pg e = Inr (row_of e st)" using sim_row [OF sim, of e] g by (cases "election_row pg e") auto
  have c: "ps_config H pg e = Inr (st_config st)" using sim_config [OF sim, of e] g by (cases "ps_config H pg e") auto
  have res: "ps_result_row e pg \<noteq> None \<longleftrightarrow> st_result st \<noteq> None"
    using sim_tables(5) [OF sim g] by (simp add: ps_result_row_def)
  show ?thesis
    using res by (simp add: ps_require_voting_open_def require_voting_open_def r c sim_finalized_key [OF sim g] row_of_def Let_def)
qed

lemma foldl_max: "foldl max s ss = Max (set (s # ss))" for s :: int
  unfolding Max.set_eq_fold foldl_conv_fold by (rule fold_cong) (auto simp: max.commute fun_eq_iff)

lemma ballot_keys: "ballots_inv c bs \<Longrightarrow> map fst (ballot_kvs bs) = map int [0..<length bs]"
  by (rule nth_equalityI) (auto simp: ballot_kvs_def ballots_inv_def)

lemma sim_next_seq:
  assumes sim: "sim H pg m" and g: "im_get m e = Inr st"
  shows "next_seq e pg = int (length (st_ballots st))"
proof -
  let ?n = "length (st_ballots st)"
  have inv: "ballots_inv (st_config st) (st_ballots st)"
    using mem_inv_get [OF simD(1) [OF sim] g] by (simp add: stored_inv_def)
  have "set (map fst (rows_of e (pg_ballots pg))) = set (map fst (ballot_kvs (st_ballots st)))"
    using rows_rel_keys [OF simD(6) [OF sim, of e]] g by simp
  then have k: "set (map fst (rows_of e (pg_ballots pg))) = int ` {0..<?n}"
    unfolding ballot_keys [OF inv] by auto
  show ?thesis
  proof (cases "map fst (rows_of e (pg_ballots pg))")
    case Nil
    with k show ?thesis by (simp add: next_seq_def)
  next
    case (Cons s ss)
    then have "?n \<noteq> 0" using k by (cases "?n = 0") auto
    then have "Max (int ` {0..<?n}) = int (?n - 1)" by (intro Max_eqI) (auto intro: rev_image_eqI)
    then have "foldl max s ss = int (?n - 1)" unfolding foldl_max using k Cons by simp
    with Cons \<open>?n \<noteq> 0\<close> show ?thesis by (cases "st_ballots st") (simp_all add: next_seq_def)
  qed
qed

lemma ballot_kvs_snoc:
  "ballots_inv c bs \<Longrightarrow>
     ballot_kvs (bs @ [\<lparr>sb_sequence_number = int (length bs), sb_envelope = b, sb_submitted_at = Some now\<rparr>]) =
       AList.update (int (length bs)) (b, now) (ballot_kvs bs) \<and> map_of (ballot_kvs bs) (int (length bs)) = None"
proof -
  assume "ballots_inv c bs"
  from ballot_keys [OF this] have "int (length bs) \<notin> fst ` set (ballot_kvs bs)"
    by (metis (no_types, lifting) atLeastLessThan_iff imageE less_irrefl list.set_map of_nat_eq_iff set_upt)
  then show ?thesis by (simp add: update_fresh map_of_eq_None_iff) (simp add: ballot_kvs_def)
qed

lemma sim_ballot:
  assumes sim: "sim H pg m" and sized: "ok_ballot b" "bigint now"
  shows "rel_result (\<lambda>(m', n) (pg', n'). sim H pg' m' \<and> n = n') (im_submit_ballot H now e b sig m) (ps_submit_ballot H now e b sig pg)"
  unfolding im_submit_ballot_def ps_submit_ballot_def Let_def
proof (rule rel_result_bind [OF sim_config [OF sim]], rule rel_result_bind [where S = "\<lambda>_ _. True"])
  fix st c
  assume g: "im_get m e = Inr st" and c: "c = st_config st"
  have inv: "stored_inv H e st" using mem_inv_get [OF simD(1) [OF sim] g] .
  then have e: "cfg_election_id (st_config st) = e" by (simp add: stored_inv_def)
  show gate: "rel_result (\<lambda>_ _. True) (require_gateway H st b sig)
     (if cfg_gateway_keys c \<noteq> [] then
        (case recover_digest H (ballot_digest H e b) sig of
           None \<Rightarrow> Inl WriteAuthorizationError
         | Some recovered \<Rightarrow> if recovered \<notin> set (cfg_gateway_keys c) then Inl WriteAuthorizationError else Inr ())
      else Inr ())"
    using c e by (auto simp: require_gateway_def split: option.splits)
  let ?row = "\<lparr>sb_sequence_number = int (length (st_ballots st)), sb_envelope = b, sb_submitted_at = Some now\<rparr>"
  let ?st = "st\<lparr>st_ballots := st_ballots st @ [?row]\<rparr>" and ?n = "int (length (st_ballots st))"
  let ?pg = "pg\<lparr>pg_ballots := pg_ballots pg @ [(e, next_seq e pg, enc_ballot b, now)]\<rparr>"
  fix u :: unit
  assume gw: "require_gateway H st b sig = Inr u"
  have row: "election_row pg e = Inr (row_of e st)" using sim_row [OF sim, of e] g by (cases "election_row pg e") auto
  show "rel_result (\<lambda>(m', n) (pg', n'). sim H pg' m' \<and> n = n')
     (ebind (require_voting_open st now) (\<lambda>_. Inr (im_put e ?st m, ?n)))
     (ebind (election_row pg e) (\<lambda>locked. ebind (ps_require_voting_open H e now pg) (\<lambda>_.
        if \<not> bigint now then Inl DatabaseError else Inr (?pg, next_seq e pg))))"
  proof (cases "require_voting_open st now")
    case (Inl err)
    then show ?thesis by (simp add: row sim_window [OF sim g])
  next
    case (Inr v)
    have op: "im_submit_ballot H now e b sig m = Inr (im_put e ?st m, ?n)"
      using g gw Inr by (simp add: im_submit_ballot_def Let_def)
    have sz: "sized_stored e ?st" using simD(11) [OF sim g] sized by (auto simp: sized_stored_def)
    have bi: "ballots_inv (st_config st) (st_ballots st)" using inv by (simp add: stored_inv_def)
    have "sim H ?pg (im_put e ?st m)"
      by (rule sim_step [OF sim g ballot_touches [OF op] im_put_sel(1) _ sz])
        (use sim_tables(5) [OF sim g] simD(10) [OF sim] elections_same [OF sim g, of ?st] ballot_kvs_snoc [OF bi, of b now]
            table_step_append [of "ballot_kvs (st_ballots st)" ?n "\<lambda>(b, ts). (enc_ballot b, ts)" e "pg_ballots pg" "(b, now)"] in
          \<open>simp_all add: row_of_def sim_next_seq [OF sim g]\<close>)
    then show ?thesis using sized by (simp add: row sim_window [OF sim g] Inr sim_next_seq [OF sim g])
  qed
qed

lemma sim_aggregate:
  assumes sim: "sim H pg m" and b: "digest_binds H" and sized: "ok_aggregate a" "agg_election_id a = e"
  shows "rel_result (sims H) (im_submit_aggregate H now e a sig m) (ps_submit_aggregate H now e a sig pg)"
proof (cases "im_get m e")
  case (Inl err)
  with sim_config [OF sim, of e] show ?thesis
    by (cases "ps_config H pg e") (auto simp: im_submit_aggregate_def ps_submit_aggregate_def)
next
  case (Inr st)
  note g = Inr
  have c: "ps_config H pg e = Inr (st_config st)" using sim_config [OF sim, of e] g by (cases "ps_config H pg e") auto
  have row: "election_row pg e = Inr (row_of e st)" using sim_row [OF sim, of e] g by (cases "election_row pg e") auto
  have rows: "map_of (rows_of e (pg_aggregates pg)) i = map_option enc_aggregate (map_of (st_aggregate_by_keyper st) i)" for i
    using rows_rel_map_of [OF simD(7) [OF sim, of e]] g by simp
  have old: "dec_aggregate (enc_aggregate x) = Inr x" if "map_of (st_aggregate_by_keyper st) k = Some x" for k x
    using simD(11) [OF sim g] that by (auto simp: sized_stored_def aggregate_codec.dec_enc dest!: map_of_SomeD)
  have same: "(case map_of (rows_of e (pg_aggregates pg)) i of
        None \<Rightarrow> Inr False | Some existing \<Rightarrow> ebind (dec_aggregate existing) (\<lambda>x. Inr (x = a))) =
      Inr (map_of (st_aggregate_by_keyper st) i = Some a)" for i
    by (cases "map_of (st_aggregate_by_keyper st) i") (auto simp: rows old)
  note fin = sim_finalized [OF sim b g]
  note ops = im_submit_aggregate_def ps_submit_aggregate_def g c row same fin ebind_Inr
  consider (window) "now < cfg_voting_end (st_config st)"
    | (digest) err where "\<not> now < cfg_voting_end (st_config st)" "aggregate_digest_of H e a = Inl err"
    | (index) d err where "\<not> now < cfg_voting_end (st_config st)" "aggregate_digest_of H e a = Inr d"
        "keyper_index_by_recovery H (st_config st) d sig = Inl err"
    | (ok) d i where "\<not> now < cfg_voting_end (st_config st)" "aggregate_digest_of H e a = Inr d"
        "keyper_index_by_recovery H (st_config st) d sig = Inr i"
    by (cases "aggregate_digest_of H e a"; cases "keyper_index_by_recovery H (st_config st) (projr (aggregate_digest_of H e a)) sig") auto
  then show ?thesis
  proof cases
    case ok
    let ?st = "st\<lparr>st_aggregate_by_keyper := AList.update i a (st_aggregate_by_keyper st)\<rparr>"
    show ?thesis
    proof (cases "map_of (st_aggregate_by_keyper st) i = Some a \<or> aggregate_finalized H st m \<noteq> Inr False")
      case True
      then show ?thesis using sim ok by (cases "aggregate_finalized H st m") (auto simp: ops)
    next
      case False
      then have op: "im_submit_aggregate H now e a sig m = Inr (im_put e ?st m)"
        using ok by (simp add: ops)
      have sz: "sized_stored e ?st"
        using simD(11) [OF sim g] sized set_update_subset [of i a "st_aggregate_by_keyper st"] by (auto simp: sized_stored_def)
      have "sim H (pg\<lparr>pg_aggregates := upsert e i (enc_aggregate a) (pg_aggregates pg)\<rparr>) (im_put e ?st m)"
        by (rule sim_step [OF sim g aggregate_touches [OF simD(1) [OF sim] op] im_put_sel(1) _ sz])
          (use sim_tables(5) [OF sim g] simD(10) [OF sim] elections_same [OF sim g, of ?st] in
            \<open>simp_all add: row_of_def table_step_upsert\<close>)
      with False ok show ?thesis by (simp add: ops)
    qed
  qed (simp_all add: ops)
qed

lemma sim_share:
  assumes sim: "sim H pg m" and b: "digest_binds H" and sized: "ok_decryption_share sh"
  shows "rel_result (sims H) (im_submit_decryption_share H now e sh sig m) (ps_submit_decryption_share H now e sh sig pg)"
proof (cases "im_get m e")
  case (Inl err)
  with sim_config [OF sim, of e] show ?thesis
    by (cases "ps_config H pg e") (auto simp: im_submit_decryption_share_def ps_submit_decryption_share_def)
next
  case (Inr st)
  note g = Inr
  have c: "ps_config H pg e = Inr (st_config st)" using sim_config [OF sim, of e] g by (cases "ps_config H pg e") auto
  have rows: "map_of (rows_of e (pg_decryption_shares pg)) i = map_option enc_decryption_share (map_of (st_shares_by_keyper st) i)" for i
    using rows_rel_map_of [OF simD(8) [OF sim, of e]] g by simp
  have old: "dec_decryption_share (enc_decryption_share x) = Inr x" if "map_of (st_shares_by_keyper st) k = Some x" for k x
    using simD(11) [OF sim g] that by (auto simp: sized_stored_def decryption_share_codec.dec_enc dest!: map_of_SomeD)
  note fin = sim_finalized [OF sim b g]
  note ops = im_submit_decryption_share_def ps_submit_decryption_share_def g c fin ebind_Inr
  let ?d = "decryption_share_digest H e (map se_sigma (ds_entries sh)) (map proof_ints (ds_entries sh))"
  let ?ix = "keyper_index_by_recovery H (st_config st) (projr ?d) sig"
  consider (err) "now < cfg_voting_end (st_config st) \<or> aggregate_finalized H st m \<noteq> Inr True \<or> isl ?d \<or>
        isl ?ix \<or> projr ?ix \<noteq> ds_keyper_index sh"
    | (ok) d where "\<not> now < cfg_voting_end (st_config st)" "aggregate_finalized H st m = Inr True" "?d = Inr d"
        "keyper_index_by_recovery H (st_config st) d sig = Inr (ds_keyper_index sh)"
    by (cases ?d; cases ?ix) auto
  then show ?thesis
  proof cases
    case err
    then show ?thesis
      by (cases "aggregate_finalized H st m"; cases ?d; cases ?ix) (auto simp: ops)
  next
    case ok
    let ?i = "ds_keyper_index sh"
    let ?st = "st\<lparr>st_shares_by_keyper := AList.update ?i sh (st_shares_by_keyper st)\<rparr>"
    show ?thesis
    proof (cases "map_of (st_shares_by_keyper st) ?i")
      case (Some x)
      then show ?thesis using sim ok by (simp add: ops rows old)
    next
      case None
      then have op: "im_submit_decryption_share H now e sh sig m = Inr (im_put e ?st m)"
        using ok by (simp add: ops)
      have sz: "sized_stored e ?st"
        using simD(11) [OF sim g] sized set_update_subset [of ?i sh "st_shares_by_keyper st"] by (auto simp: sized_stored_def)
      have "sim H (pg\<lparr>pg_decryption_shares := pg_decryption_shares pg @ [(e, ?i, enc_decryption_share sh)]\<rparr>) (im_put e ?st m)"
        by (rule sim_step [OF sim g share_touches [OF op] im_put_sel(1) _ sz])
          (use sim_tables(5) [OF sim g] simD(10) [OF sim] elections_same [OF sim g, of ?st] None in
            \<open>simp_all add: row_of_def table_step_append\<close>)
      with None ok show ?thesis by (simp add: ops rows)
    qed
  qed
qed

lemma sim_result:
  assumes sim: "sim H pg m" and sized: "ok_result r"
  shows "rel_result (sims H) (im_publish_result H e r sig m) (ps_publish_result H e r sig pg)"
proof (cases "im_get m e")
  case (Inl err)
  with sim_config [OF sim, of e] show ?thesis
    by (cases "ps_config H pg e") (auto simp: im_publish_result_def ps_publish_result_def)
next
  case (Inr st)
  note g = Inr
  have c: "ps_config H pg e = Inr (st_config st)" using sim_config [OF sim, of e] g by (cases "ps_config H pg e") auto
  have res: "ps_result_row e pg = map_option enc_result (st_result st)"
    using sim_tables(5) [OF sim g] by (simp add: ps_result_row_def)
  have old: "dec_result (enc_result x) = Inr x" if "st_result st = Some x" for x
    using simD(11) [OF sim g] that by (auto simp: sized_stored_def result_codec.dec_enc)
  note ops = im_publish_result_def ps_publish_result_def g c res ebind_Inr
  show ?thesis
  proof (cases "isl (result_digest H e r) \<or>
      \<not> verify_request H (cfg_result_publisher_key (st_config st)) sig ''result'' e (projr (result_digest H e r)) \<or> st_result st \<noteq> None")
    case True
    then show ?thesis using sim by (cases "result_digest H e r"; cases "st_result st") (auto simp: ops old)
  next
    case False
    let ?st = "st\<lparr>st_result := Some r\<rparr>"
    from False have op: "im_publish_result H e r sig m = Inr (im_put e ?st m)"
      by (cases "result_digest H e r") (auto simp: ops)
    have sz: "sized_stored e ?st" using simD(11) [OF sim g] sized by (simp add: sized_stored_def)
    have "map_of (pg_results pg) e = None" using res False by (simp add: ps_result_row_def)
    then have "map_of (pg_results pg @ [(e, enc_result r)]) e' = (if e' = e then Some (enc_result r) else map_of (pg_results pg) e')" for e'
      by (simp add: map_add_def split: option.splits)
    then have "sim H (pg\<lparr>pg_results := pg_results pg @ [(e, enc_result r)]\<rparr>) (im_put e ?st m)"
      by (intro sim_step [OF sim g result_touches [OF op] im_put_sel(1) _ sz])
        (use simD(10) [OF sim] elections_same [OF sim g, of ?st] in \<open>simp_all add: row_of_def\<close>)
    with False show ?thesis by (cases "result_digest H e r") (auto simp: ops)
  qed
qed

text \<open>
  The adapters look up a spent request at different points: a repeated stall request is refused by
  both, but not always with the same error.
\<close>

lemma sim_stall_replayed:
  assumes sim: "sim H pg m" and spent: "(e, stall_op b, t) \<in> im_used_request_nonces m"
  shows "isl (im_set_tally_stalled H now e b sig t m) \<and> isl (ps_set_tally_stalled H now e b sig t pg)"
proof -
  have "isl (im_set_tally_stalled H now e b sig t m)"
    using spent by (cases "im_get m e") (simp_all add: im_set_tally_stalled_def)
  moreover have "isl (ps_set_tally_stalled H now e b sig t pg)"
    using spent simD(10) [OF sim]
    by (cases "ps_config H pg e"; cases "request_nonce_payload t"; cases b) (auto simp: ps_set_tally_stalled_def Let_def)
  ultimately show ?thesis ..
qed

lemma sim_stall:
  assumes sim: "sim H pg m" and sized: "bigint t" and new: "(e, stall_op b, t) \<notin> im_used_request_nonces m"
  shows "rel_result (sims H) (im_set_tally_stalled H now e b sig t m) (ps_set_tally_stalled H now e b sig t pg)"
proof (cases "im_get m e")
  case (Inl err)
  with sim_config [OF sim, of e] show ?thesis
    by (cases "ps_config H pg e") (auto simp: im_set_tally_stalled_def ps_set_tally_stalled_def)
next
  case (Inr st)
  note g = Inr
  have c: "ps_config H pg e = Inr (st_config st)" using sim_config [OF sim, of e] g by (cases "ps_config H pg e") auto
  have res: "ps_result_row e pg = None \<longleftrightarrow> st_result st = None"
    using sim_tables(5) [OF sim g] by (simp add: ps_result_row_def)
  let ?A = "if b
      then (if now < cfg_voting_end (st_config st) then Inl VotingWindowError
            else if st_result st \<noteq> None then Inl ImmutabilityError
            else if \<not> verify_request H (cfg_result_publisher_key (st_config st)) sig (stall_op b) e (projr (request_nonce_payload t))
            then Inl WriteAuthorizationError else Inr ())
      else (if \<not> verify_request H (cfg_admin_key (st_config st)) sig (stall_op b) e (projr (request_nonce_payload t))
            then Inl WriteAuthorizationError else Inr ())"
  let ?st = "st\<lparr>st_tally_stalled := b\<rparr>"
  let ?m = "im_put e ?st (m\<lparr>im_used_request_nonces := insert (e, stall_op b, t) (im_used_request_nonces m)\<rparr>)"
  let ?pg = "update_election e (\<lambda>row. row\<lparr>el_tally_stalled := b\<rparr>)
      (pg\<lparr>pg_request_nonces := pg_request_nonces pg @ [(e, stall_op b, t)]\<rparr>)"
  note ops = sized im_set_tally_stalled_def ps_set_tally_stalled_def g c res simD(10) [OF sim] ebind_Inr Let_def
  show ?thesis
  proof (cases "request_is_fresh t now \<and> (e, stall_op b, t) \<notin> im_used_request_nonces m \<and> \<not> isl (request_nonce_payload t) \<and> ?A = Inr ()")
    case False
    then show ?thesis using new by (cases "request_nonce_payload t"; cases b) (auto simp: ops)
  next
    case True
    then obtain p where p: "request_nonce_payload t = Inr p" by (auto simp: not_isl_iff)
    with True have op: "im_set_tally_stalled H now e b sig t m = Inr ?m" by (cases b) (auto simp: ops split: if_splits)
    from p True have op': "ps_set_tally_stalled H now e b sig t pg = Inr ?pg" by (cases b) (auto simp: ops split: if_splits)
    have sz: "sized_stored e ?st" using simD(11) [OF sim g] by (simp add: sized_stored_def)
    have "sim H ?pg ?m"
      by (rule sim_step [OF sim g stall_touches [OF op] _ _ sz _ _ update_election_rows [OF sim g]])
        (use sim_tables(5) [OF sim g] simD(10) [OF sim] in \<open>simp_all add: row_of_def\<close>)
    then show ?thesis by (simp add: op op')
  qed
qed

lemma sim_register:
  assumes sim: "sim H pg m" and ok: "config_ok c" and sized: "bigint (cfg_voting_start c)" "jsonb_ok (enc_config c)"
  shows "rel_result (\<lambda>(m', e) (pg', e'). sim H pg' m' \<and> e = e') (im_register_election H c sig m) (ps_register_election H c sig pg)"
proof (cases "im_register_election H c sig m")
  case (Inl err)
  then have "ps_register_election H c sig pg = Inl err"
    using simD(2) [OF sim]
    by (cases "int_to_bytes (im_next_id m + 1) 32")
      (auto simp: im_register_election_def ps_register_election_def Let_def split: if_splits)
  with Inl show ?thesis by auto
next
  case (Inr me)
  obtain m' e where me: "me = (m', e)" by (cases me)
  note r = register_inv [OF simD(1) [OF sim] ok Inr [unfolded me]]
  let ?row = "row_of e (Stored_init c)"
  let ?pg = "pg\<lparr>pg_seq_last := seq_peek pg, pg_seq_called := True, pg_elections := pg_elections pg @ [?row]\<rparr>"
  have fresh: "e \<notin> el_election_id ` set (pg_elections pg)"
    using r(2) simD(4) [OF sim] by (auto simp: row_of_def image_iff)
  have cc: "c\<lparr>cfg_election_id := e\<rparr> = c" using r(4) by (cases c) auto
  have m': "im_next_id m' = im_next_id m + 1" "im_used_request_nonces m' = im_used_request_nonces m"
    using Inr me by (auto simp: im_register_election_def Let_def split: if_splits)
  have v: "verify_register H (cfg_admin_key c) sig c" "int_to_bytes (seq_peek pg) 32 = Inr e" "cfg_election_id c = e"
    using Inr me simD(2) [OF sim] r(4) by (auto simp: im_register_election_def Let_def split: if_splits)
  have op: "ps_register_election H c sig pg = Inr (?pg, e)"
    using fresh sized by (simp add: ps_register_election_def Let_def v cc row_of_def Stored_init_def)
  have "map_of (im_elections m) e = None" using r(2) by (simp add: map_of_eq_None_iff)
  then have mo: "map_of (im_elections m') e' = (if e' = e then Some (Stored_init c) else map_of (im_elections m) e')" for e'
    by (simp add: r(3) map_add_def split: option.splits)
  then have part: "part f m' e' = part f m e'" if "f (Stored_init c) = []" for f :: "Stored \<Rightarrow> 'x list" and e'
    using that \<open>map_of (im_elections m) e = None\<close> by (simp add: part_def)
  have res: "Option.bind (map_of (im_elections m') e') (\<lambda>st. map_option enc_result (st_result st)) =
      Option.bind (map_of (im_elections m) e') (\<lambda>st. map_option enc_result (st_result st))" for e'
    using \<open>map_of (im_elections m) e = None\<close> by (simp add: mo Stored_init_def)
  have parts: "part st_dkg_by_keyper m' e' = part st_dkg_by_keyper m e'"
    "part (ballot_kvs \<circ> st_ballots) m' e' = part (ballot_kvs \<circ> st_ballots) m e'"
    "part st_aggregate_by_keyper m' e' = part st_aggregate_by_keyper m e'"
    "part st_shares_by_keyper m' e' = part st_shares_by_keyper m e'" for e'
    by (intro part; simp add: Stored_init_def ballot_kvs_def)+
  have sz: "\<forall>(e', st) \<in> set (im_elections m'). sized_stored e' st"
    using sim by (auto simp: r(3) sim_def sized_stored_def Stored_init_def)
  have "sim H ?pg m'"
    using sim r(1) fresh sz unfolding sim_def parts res m'
    by (simp add: r(3) seq_peek_def) (simp add: row_of_def)
  with Inr me op show ?thesis by simp
qed

end
