(* ===== verification/Store_Conformance.thy ===== *)
theory Store_Conformance
  imports Store_Refinement
begin

text \<open>
  The port contract both adapters meet: after the same sequence of requests the relational data
  layer accepts what the in-memory one accepts and answers every read of a known election as it
  does. Where the two adapters differ, on elections that were never registered, is stated too.
\<close>

section \<open>Writes\<close>

text \<open>A stall request the in-memory layer has accepted before.\<close>

fun replayed :: "InMemory \<Rightarrow> write_request \<Rightarrow> bool" where
  "replayed m (SetStalled e b sig t) \<longleftrightarrow> (e, stall_op b, t) \<in> im_used_request_nonces m"
| "replayed m _ \<longleftrightarrow> False"

lemma sim_write:
  assumes "digest_binds H" "sim H pg m" "request_sized now w" "\<not> replayed m w"
  shows "rel_result (sims H) (do_write (memory_port H) now w m) (do_write (postgres_port H) now w pg)"
proof (cases w)
  case (Register c sig)
  with assms show ?thesis
    by (auto simp: memory_port_def postgres_port_def intro!: rel_result_bind [OF sim_register])
next
  case (SubmitBallot e b sig)
  with assms show ?thesis
    by (auto simp: memory_port_def postgres_port_def intro!: rel_result_bind [OF sim_ballot])
qed (use assms in \<open>auto simp: memory_port_def postgres_port_def
      intro: sim_cancel sim_dkg sim_aggregate sim_share sim_result sim_stall\<close>)

lemma sim_replayed:
  "sim H pg m \<Longrightarrow> replayed m w \<Longrightarrow> isl (do_write (memory_port H) now w m) \<and> isl (do_write (postgres_port H) now w pg)"
  by (cases w) (use sim_stall_replayed in \<open>auto simp: memory_port_def postgres_port_def\<close>)

lemma sim_init: "sim H Postgres_init InMemory_init"
  by (simp add: sim_def mem_inv_def election_ids_def InMemory_init_def Postgres_init_def seq_peek_def rows_of_def part_def)

lemma sim_run:
  assumes "digest_binds H" "list_all (\<lambda>(now, w). request_sized now w) ws" "sim H pg m"
  shows "sim H (dl_run (postgres_port H) ws pg) (dl_run (memory_port H) ws m)"
  using assms(2,3)
proof (induction ws arbitrary: pg m)
  case (Cons x ws)
  obtain now w where x: "x = (now, w)" by (cases x)
  show ?case
  proof (cases "replayed m w")
    case True
    then show ?thesis using sim_replayed [OF Cons.prems(2) True, of now] Cons x
      by (cases "do_write (memory_port H) now w m"; cases "do_write (postgres_port H) now w pg") auto
  next
    case False
    have "rel_result (sims H) (do_write (memory_port H) now w m) (do_write (postgres_port H) now w pg)"
      using sim_write [OF assms(1) Cons.prems(2) _ False, of now] Cons.prems(1) x by simp
    then show ?thesis
      using Cons.IH Cons.prems x
      by (cases "do_write (memory_port H) now w m"; cases "do_write (postgres_port H) now w pg") auto
  qed
qed simp

section \<open>Reads\<close>

lemma sim_get_election: "sim H pg m \<Longrightarrow> im_get m e = Inr st \<Longrightarrow> ps_get_election H e pg = im_get_election e m"
  using sim_row [of H pg m e] sim_finalized_key [of H pg m e st] stored_ok_config [OF simD(1), of H pg m e st]
  by (cases "election_row pg e")
    (auto simp: ps_get_election_def im_get_election_def im_get_finalized_key_def row_of_def config_codec.dec_enc)

lemma sim_get_finalized_key: "sim H pg m \<Longrightarrow> im_get m e = Inr st \<Longrightarrow> ps_get_finalized_key H e pg = im_get_finalized_key e m"
  using sim_config [of H pg m e] sim_finalized_key [of H pg m e st]
  by (cases "ps_config H pg e") (auto simp: ps_get_finalized_key_def im_get_finalized_key_def)

lemma sim_get_aggregate:
  "sim H pg m \<Longrightarrow> digest_binds H \<Longrightarrow> im_get m e = Inr st \<Longrightarrow> ps_get_aggregate H e pg = im_get_aggregate H e m"
  using sim_config [of H pg m e] sim_canonical [of H pg m e st]
  by (cases "ps_config H pg e")
    (auto simp: ps_get_aggregate_def im_get_aggregate_canonical)

lemma sim_get_result: "sim H pg m \<Longrightarrow> im_get m e = Inr st \<Longrightarrow> ps_get_result e pg = im_get_result e m"
  using simD(9) [of H pg m e] simD(11) [of H pg m e st]
  by (cases "st_result st")
    (auto simp: ps_get_result_def im_get_result_def im_get_def sized_stored_def result_codec.dec_enc split: option.splits)

lemma decode_sorted:
  fixes kvs :: "(int \<times> 'v) list"
  assumes "rows_rel enc rows kvs" "\<forall>(k, v) \<in> set kvs. dec (enc v) = Inr v"
  shows "emap dec (map snd (sort_key fst rows)) = Inr (map snd (sort_key fst kvs))"
proof -
  have "map snd (sort_key fst rows) = map enc (map snd (sort_key fst kvs))"
    unfolding sorted_rows [OF assms(1)] by (simp add: comp_def case_prod_beta)
  moreover have "emap dec (map enc (map snd (sort_key fst kvs))) = Inr (map snd (sort_key fst kvs))"
    using assms(2) by (subst emap_map, intro emap_Inr_all [where g = "\<lambda>x. x", simplified]) auto
  ultimately show ?thesis by simp
qed

lemma sim_get_dkg_submissions:
  assumes "sim H pg m" "im_get m e = Inr st"
  shows "ps_get_dkg_submissions e pg = im_get_dkg_submissions e m"
  using decode_sorted [OF simD(5) [OF assms(1), of e], of dec_dkg_result] simD(11) [OF assms] assms(2)
  by (simp add: ps_get_dkg_submissions_def im_get_dkg_submissions_def sized_stored_def dkg_result_codec.dec_enc_iff)

lemma sim_list_shares:
  assumes "sim H pg m" "im_get m e = Inr st"
  shows "ps_list_decryption_shares e pg = im_list_decryption_shares e m"
  using decode_sorted [OF simD(8) [OF assms(1), of e], of dec_decryption_share] simD(11) [OF assms] assms(2)
  by (simp add: ps_list_decryption_shares_def im_list_decryption_shares_def sized_stored_def decryption_share_codec.dec_enc_iff)

lemma sim_count_ballots:
  assumes "sim H pg m" "im_get m e = Inr st"
  shows "ps_count_ballots e pg = im_count_ballots e m"
  using rows_rel_length [OF simD(6) [OF assms(1), of e]] assms(2)
  by (simp add: ps_count_ballots_def im_count_ballots_def ballot_kvs_def)


lemma sort_key_sorted: "sorted (map f xs) \<Longrightarrow> sort_key f xs = xs"
  by (induction xs) (auto simp: insort_is_Cons)

lemma filter_from: "map f xs = map int [0..<length xs] \<Longrightarrow> filter (\<lambda>x. i \<le> f x) xs = drop (nat i) xs"
proof (induction xs rule: rev_induct)
  case (snoc x xs)
  then have "map f xs = map int [0..<length xs]" "f x = int (length xs)" by auto
  with snoc.IH show ?case by (cases "nat i \<le> length xs") auto
qed simp

lemma sim_list_ballots:
  assumes sim: "sim H pg m" and g: "im_get m e = Inr st" and "0 \<le> i" "0 \<le> n" "bigint n"
  shows "ps_list_ballots e i n pg = im_list_ballots e i n m"
proof -
  let ?bs = "st_ballots st"
  let ?enc = "\<lambda>(b, ts). (enc_ballot b, ts)"
  let ?row = "\<lambda>sb. (sb_sequence_number sb, ?enc (sb_envelope sb, the (sb_submitted_at sb)))"
  let ?dec = "\<lambda>(seq, ballot, submitted_at). ebind (dec_ballot ballot) (\<lambda>env.
    Inr \<lparr>sb_sequence_number = seq, sb_envelope = env, sb_submitted_at = Some submitted_at\<rparr>)"
  have inv: "ballots_inv (st_config st) ?bs" using mem_inv_get [OF simD(1) [OF sim] g] by (simp add: stored_inv_def)
  note keys = ballot_keys [OF inv]
  have "sorted (map fst (ballot_kvs ?bs))" unfolding keys by (simp add: sorted_map)
  then have sk: "sort_key fst (ballot_kvs ?bs) = ballot_kvs ?bs" by (rule sort_key_sorted)
  have "sort_key fst (rows_of e (pg_ballots pg)) = map (\<lambda>(k, v). (k, ?enc v)) (ballot_kvs ?bs)"
    using sorted_rows [OF simD(6) [OF sim, of e]] g sk by simp
  then have rows: "sort_key fst (rows_of e (pg_ballots pg)) = map ?row ?bs" by (simp add: ballot_kvs_def comp_def)
  have k: "map (fst \<circ> ?row) ?bs = map int [0..<length ?bs]" using keys by (simp add: ballot_kvs_def comp_def)
  have "sort_key fst (filter (\<lambda>row. i \<le> fst row) (rows_of e (pg_ballots pg))) = filter (\<lambda>row. i \<le> fst row) (map ?row ?bs)"
    unfolding filter_sort [symmetric] rows ..
  also have "\<dots> = drop (nat i) (map ?row ?bs)" by (rule filter_from) (use k in simp)
  finally have page: "take (nat n) (sort_key fst (filter (\<lambda>row. i \<le> fst row) (rows_of e (pg_ballots pg)))) =
      map ?row (take (nat n) (drop (nat i) ?bs))"
    by (simp add: take_map drop_map)
  have "emap ?dec (map ?row (take (nat n) (drop (nat i) ?bs))) = Inr (map (\<lambda>sb. sb) (take (nat n) (drop (nat i) ?bs)))"
    unfolding emap_map
  proof (rule emap_Inr_all)
    fix sb assume "sb \<in> set (take (nat n) (drop (nat i) ?bs))"
    then have sb: "sb \<in> set ?bs" by (meson in_set_dropD in_set_takeD)
    then have "\<exists>ts. sb_submitted_at sb = Some ts" using inv by (force simp: ballots_inv_def in_set_conv_nth)
    moreover have "ok_ballot (sb_envelope sb)" using simD(11) [OF sim g] sb by (simp add: sized_stored_def)
    ultimately show "(?dec \<circ> ?row) sb = Inr sb" by (auto simp: ballot_codec.dec_enc)
  qed
  then show ?thesis
    using assms(3-5) g by (simp add: ps_list_ballots_def im_list_ballots_def page py_slice_page)
qed


text \<open>Big-endian byte strings of one length are ordered as their numbers.\<close>

lemma int_from_bytes_Cons: "int_from_bytes (x # xs) = uint x * 256 ^ length xs + int_from_bytes xs"
  using int_from_bytes_snoc [of "[]" x]
proof (induction xs rule: rev_induct)
  case (snoc y ys)
  then show ?case using int_from_bytes_snoc [of "x # ys" y] by (simp add: int_from_bytes_snoc algebra_simps)
qed simp

lemma bytes_key_mono: "length a = length b \<Longrightarrow> int_from_bytes a \<le> int_from_bytes b \<Longrightarrow> bytes_key a \<le> bytes_key b"
proof (induction a b rule: list_induct2)
  case (Cons x xs y ys)
  have "uint x \<le> uint y"
  proof (rule ccontr)
    assume "\<not> uint x \<le> uint y"
    then have "uint y * 256 ^ length ys + 256 ^ length ys \<le> uint x * 256 ^ length ys"
      using mult_right_mono [of "uint y + 1" "uint x" "256 ^ length ys"] by (simp add: algebra_simps)
    moreover have "int_from_bytes ys < 256 ^ length ys" "0 \<le> int_from_bytes xs" by (simp_all add: int_from_bytes_bound)
    ultimately show False
      using Cons.prems unfolding int_from_bytes_Cons Cons.hyps by linarith
  qed
  with Cons show ?case by (cases "uint x = uint y") (auto simp: bytes_key_def int_from_bytes_Cons)
qed (simp add: bytes_key_def)

lemma election_ids_sorted: "n < 256 ^ 32 \<Longrightarrow> sorted (map bytes_key (election_ids n))"
  unfolding election_ids_def map_map
  by (auto simp: sorted_iff_nth_mono int_from_bytes_be intro!: bytes_key_mono)

lemma bytes_key_inject: "bytes_key a = bytes_key b \<longleftrightarrow> a = b"
  by (simp add: bytes_key_def inj_map_eq_map [OF injI [of uint]])

lemma sorted_ids_unique:
  assumes "set xs = set ys" "distinct xs" "distinct ys" "sorted (map bytes_key xs)" "sorted (map bytes_key ys)"
  shows "xs = ys"
  by (rule map_sorted_distinct_set_unique [of bytes_key])
    (use assms in \<open>simp_all add: inj_on_def bytes_key_inject distinct_map\<close>)

lemma sim_list_elections:
  assumes sim: "sim H pg m"
  shows "ps_list_elections flt pg = im_list_elections flt m"
proof -
  let ?P = "\<lambda>k. case flt of None \<Rightarrow> True | Some f \<Rightarrow> (case ef_admin_key f of None \<Rightarrow> True | Some k' \<Rightarrow> k = k')"
  let ?rows = "filter (\<lambda>row. ?P (el_admin_key row)) (pg_elections pg)"
  let ?kvs = "filter (\<lambda>(e, st). ?P (cfg_admin_key (st_config st))) (im_elections m)"
  note inv = simD(1) [OF sim, unfolded mem_inv_def]
  have ids: "map fst (im_elections m) = election_ids (im_next_id m)" using inv by blast
  have d: "distinct (map fst (im_elections m))" unfolding ids using inv by (simp add: election_ids_distinct)
  have "sorted (map (\<lambda>kv. bytes_key (fst kv)) (im_elections m))"
    using election_ids_sorted [of "im_next_id m"] inv unfolding ids [symmetric] by (simp add: comp_def)
  then have srt: "sorted (map (\<lambda>kv. bytes_key (fst kv)) ?kvs)" by (rule sorted_filter)
  let ?f = "\<lambda>row. bytes_key (el_election_id row)"
  have sel: "el_election_id (row_of e st) = e" "el_admin_key (row_of e st) = cfg_admin_key (st_config st)" for e st
    by (simp_all add: row_of_def)
  have "set ?rows = (\<lambda>(e, st). row_of e st) ` set ?kvs"
    by (simp only: set_filter simD(4) [OF sim] set_eq_iff image_iff mem_Collect_eq Bex_def split_paired_Ex case_prod_conv)
      (metis sel(2))
  then have sets: "set (map el_election_id ?rows) = set (map fst ?kvs)"
    by (simp only: set_map image_image case_prod_beta sel(1))
  have "map el_election_id (sort_key ?f ?rows) = map fst ?kvs"
  proof (rule sorted_ids_unique)
    show "set (map el_election_id (sort_key ?f ?rows)) = set (map fst ?kvs)" using sets by simp
    have "inj_on el_election_id (set (pg_elections pg))" "distinct (pg_elections pg)"
      using simD(3) [OF sim] unfolding distinct_map by blast+
    then show "distinct (map el_election_id (sort_key ?f ?rows))"
      unfolding distinct_map by (auto intro: inj_on_subset)
    show "distinct (map fst ?kvs)" using d by (rule distinct_map_filter)
    show "sorted (map bytes_key (map el_election_id (sort_key ?f ?rows)))"
      using sorted_sort_key [of ?f ?rows] by (simp add: comp_def)
    show "sorted (map bytes_key (map fst ?kvs))" using srt by (simp add: comp_def)
  qed
  then show ?thesis by (simp add: ps_list_elections_def im_list_elections_def case_prod_beta)
qed


section \<open>Properties\<close>

lemma sample_tally_inject:
  "sample_tally cs adm exs w sw = sample_tally cs' adm' exs' w' sw' \<longleftrightarrow>
     cs = cs' \<and> adm = adm' \<and> exs = exs' \<and> w = w' \<and> sw = sw'"
proof -
  have "inj (\<lambda>(a, b). JArr [JStr (tohex a), JStr (tohex b)])" "inj (\<lambda>(s, c). JArr [JInt s, JInt c])" "inj JInt"
    by (auto simp: inj_def)
  then show ?thesis by (simp add: sample_tally_def inj_map_eq_map)
qed

lemma sample_tally_dumps:
  "dumps0 R (sample_tally cs adm exs w sw) = dumps0 R (sample_tally cs' adm' exs' w' sw') \<longleftrightarrow>
     sample_tally cs adm exs w sw = sample_tally cs' adm' exs' w' sw'"
proof -
  have ff: "float_free (sample_tally cs adm exs w sw)" for cs adm exs w sw by (auto simp: sample_tally_def list_all_iff)
  show ?thesis
    using dumps0_inject [of R "sample_tally cs adm exs w sw" "[]" "sample_tally cs' adm' exs' w' sw'" "[]"] ff
    by (auto simp: stops_def)
qed

lemma EXCLUSION_CODE_inject: "EXCLUSION_CODE a = EXCLUSION_CODE b \<longleftrightarrow> a = b"
  by (cases a; cases b) (simp_all add: EXCLUSION_CODE_def)

lemma sample_digest_binds: "digest_binds sample_host"
  unfolding digest_binds_def
proof (intro allI impI)
  fix e and a b :: AggregateArtifact and d
  assume "aggregate_digest_of sample_host e a = Inr d \<and> aggregate_digest_of sample_host e b = Inr d \<and>
    agg_election_id a = agg_election_id b"
  then have eq: "agg_election_id a = agg_election_id b" "map ct_pair (agg_aggregates a) = map ct_pair (agg_aggregates b)"
      "agg_admitted a = agg_admitted b"
      "map (\<lambda>x. (ex_sequence_number x, EXCLUSION_CODE (ex_reason x))) (agg_exclusions a) =
       map (\<lambda>x. (ex_sequence_number x, EXCLUSION_CODE (ex_reason x))) (agg_exclusions b)"
      "agg_total_admitted_weight a = agg_total_admitted_weight b" "agg_total_scaled_weight a = agg_total_scaled_weight b"
    by (auto simp: aggregate_digest_of_def aggregate_digest_def assert_aggregate_shape_def sample_tally_dumps sample_tally_inject comp_def)
  have "inj ct_pair" by (auto simp: inj_def ct_pair_def)
  moreover have "inj (\<lambda>x :: Exclusion. (ex_sequence_number x, EXCLUSION_CODE (ex_reason x)))"
    by (auto simp: inj_def EXCLUSION_CODE_inject intro: Exclusion.equality)
  ultimately show "a = b" using eq by (cases a; cases b) (auto simp: inj_map_eq_map)
qed

lemma tohex_printable: "CHR 0x00 \<notin> set (tohex b)"
proof (induction b)
  case (Cons x xs)
  have "hex_digit n \<noteq> CHR 0x00" if "n < 16" for n
    using that by (auto simp: hex_digit_def char_of_eq_iff take_bit_eq_mod)
  moreover have "unat x div 16 < 16" "unat x mod 16 < 16" by (rule unat_byte_split)+
  ultimately show ?case using Cons by (metis (no_types, lifting) set_ConsD tohex.simps(2))
qed simp

lemma sample_election_columns: "bigint (cfg_voting_start sample_election)" "jsonb_ok (enc_config sample_election)"
  by (simp_all add: bigint_def sample_election_def enc_config_def enc_bytes_def enc_keyper_def sample_identity_def
      tohex_printable str_int_def show_nat.simps [of 0] eq_commute [of "CHR 0x00" "char_of 48"] char_of_eq_iff mode_value_def variant_value_def policy_value_def)

definition sample_requests :: "(int \<times> write_request) list" where
  "sample_requests = [(0, Register sample_election (be 32 5)),
     (0, SubmitDkg (be 32 1) (be 96 9) sample_committee (be 32 11)), (0, SubmitDkg (be 32 1) (be 96 9) sample_committee (be 32 12))]"

lemma sample_requests_run:
  "dl_run (memory_port sample_host) sample_requests InMemory_init = sample_memory [(1, sample_dkg 1), (2, sample_dkg 2)]"
  using sample_submit [OF sample_host_plain, of 1 "[]"] sample_submit [OF sample_host_plain, of 2 "[(1, sample_dkg 1)]"]
  by (simp add: sample_requests_def memory_port_def sample_register [OF sample_host_plain])

text \<open>The error of a result, and its value without the new state.\<close>

definition answer_of :: "('s \<times> 'v) result \<Rightarrow> 'v result" where
  "answer_of r = (case r of Inl e \<Rightarrow> Inl e | Inr (s, v) \<Rightarrow> Inr v)"

lemma rel_result_answer: "rel_result (\<lambda>(a, v) (b, v'). R a b \<and> v = v') x y \<Longrightarrow> answer_of y = answer_of x"
  by (cases x; cases y) (auto simp: answer_of_def)

lemma rel_result_error: "rel_result R x y \<Longrightarrow> isl x = isl y \<and> (isl x \<longrightarrow> projl y = projl x)"
  by (cases x; cases y) auto

text \<open>The writes that return a value.\<close>

definition write_answers :: "'s ElectionDataLayer \<Rightarrow> int \<Rightarrow> write_request \<Rightarrow> 's \<Rightarrow> bytes result \<times> int result" where
  "write_answers P now w s =
     (case w of
        Register c sig \<Rightarrow> (answer_of (dl_register_election P c sig s), Inr 0)
      | SubmitBallot e b sig \<Rightarrow> (Inr [], answer_of (dl_submit_ballot P now e b sig s))
      | _ \<Rightarrow> (Inr [], Inr 0))"

lemma sim_answers:
  assumes "sim H pg m" "request_sized now w"
  shows "write_answers (postgres_port H) now w pg = write_answers (memory_port H) now w m"
proof (cases w)
  case (Register c sig)
  with assms sim_register [OF assms(1), of c sig] show ?thesis
    by (auto simp: write_answers_def memory_port_def postgres_port_def dest: rel_result_answer)
next
  case (SubmitBallot e b sig)
  with assms sim_ballot [OF assms(1), of b now e sig] show ?thesis
    by (auto simp: write_answers_def memory_port_def postgres_port_def dest: rel_result_answer)
qed (simp_all add: write_answers_def)

text \<open>
  C5: the relational store implements the in-memory reference. After any sequence of requests made
  of well-formed artifacts, accepted or not, the relational data layer accepts exactly the requests
  the in-memory one accepts, with the same new election id or sequence number, and refuses the others
  with the same error; only a stall request that was accepted once before is refused by both with
  errors that may differ. It lists the same elections in the same order, and answers every read of
  a known election alike: record, key submissions and finalized key, pages and number of ballots,
  canonical aggregate, decryption shares and result. The hash is assumed to determine the aggregate it covers.
\<close>

theorem store_refines_memory:
  assumes "digest_binds H" and "list_all (\<lambda>(now, w). request_sized now w) ws"
    and "m = dl_run (memory_port H) ws InMemory_init" and "pg = dl_run (postgres_port H) ws Postgres_init"
  shows "(request_sized now w \<longrightarrow>
       (isl (do_write (memory_port H) now w m) \<longleftrightarrow> isl (do_write (postgres_port H) now w pg)) \<and>
       (isl (do_write (memory_port H) now w m) \<and> \<not> replayed m w \<longrightarrow>
          projl (do_write (postgres_port H) now w pg) = projl (do_write (memory_port H) now w m)) \<and>
       write_answers (postgres_port H) now w pg = write_answers (memory_port H) now w m) \<and>
    dl_list_elections (postgres_port H) flt pg = dl_list_elections (memory_port H) flt m \<and>
    (\<not> isl (dl_get_election (memory_port H) e m) \<longrightarrow>
       dl_get_election (postgres_port H) e pg = dl_get_election (memory_port H) e m \<and>
       dl_get_dkg_submissions (postgres_port H) e pg = dl_get_dkg_submissions (memory_port H) e m \<and>
       dl_get_finalized_key (postgres_port H) e pg = dl_get_finalized_key (memory_port H) e m \<and>
       (0 \<le> i \<and> 0 \<le> n \<and> bigint n \<longrightarrow> dl_list_ballots (postgres_port H) e i n pg = dl_list_ballots (memory_port H) e i n m) \<and>
       dl_count_ballots (postgres_port H) e pg = dl_count_ballots (memory_port H) e m \<and>
       dl_get_aggregate (postgres_port H) e pg = dl_get_aggregate (memory_port H) e m \<and>
       dl_list_decryption_shares (postgres_port H) e pg = dl_list_decryption_shares (memory_port H) e m \<and>
       dl_get_result (postgres_port H) e pg = dl_get_result (memory_port H) e m)"
proof (intro conjI)
  have sim: "sim H pg m" using sim_run [OF assms(1,2) sim_init] assms(3,4) by simp
  show "request_sized now w \<longrightarrow>
       (isl (do_write (memory_port H) now w m) \<longleftrightarrow> isl (do_write (postgres_port H) now w pg)) \<and>
       (isl (do_write (memory_port H) now w m) \<and> \<not> replayed m w \<longrightarrow>
          projl (do_write (postgres_port H) now w pg) = projl (do_write (memory_port H) now w m)) \<and>
       write_answers (postgres_port H) now w pg = write_answers (memory_port H) now w m"
    using rel_result_error [OF sim_write [OF assms(1) sim, of now w]] sim_replayed [OF sim, of w now] sim_answers [OF sim, of now w] by blast
  show "dl_list_elections (postgres_port H) flt pg = dl_list_elections (memory_port H) flt m"
    using sim_list_elections [OF sim] by (simp add: memory_port_def postgres_port_def)
  have known: "\<exists>st. im_get m e = Inr st" if "\<not> isl (dl_get_election (memory_port H) e m)"
    using that by (cases "im_get m e") (auto simp: memory_port_def im_get_election_def)
  then show "\<not> isl (dl_get_election (memory_port H) e m) \<longrightarrow>
       dl_get_election (postgres_port H) e pg = dl_get_election (memory_port H) e m \<and>
       dl_get_dkg_submissions (postgres_port H) e pg = dl_get_dkg_submissions (memory_port H) e m \<and>
       dl_get_finalized_key (postgres_port H) e pg = dl_get_finalized_key (memory_port H) e m \<and>
       (0 \<le> i \<and> 0 \<le> n \<and> bigint n \<longrightarrow> dl_list_ballots (postgres_port H) e i n pg = dl_list_ballots (memory_port H) e i n m) \<and>
       dl_count_ballots (postgres_port H) e pg = dl_count_ballots (memory_port H) e m \<and>
       dl_get_aggregate (postgres_port H) e pg = dl_get_aggregate (memory_port H) e m \<and>
       dl_list_decryption_shares (postgres_port H) e pg = dl_list_decryption_shares (memory_port H) e m \<and>
       dl_get_result (postgres_port H) e pg = dl_get_result (memory_port H) e m"
    using sim_get_election [OF sim] sim_get_dkg_submissions [OF sim] sim_get_finalized_key [OF sim] sim_list_ballots [OF sim]
      sim_count_ballots [OF sim] sim_get_aggregate [OF sim assms(1)] sim_list_shares [OF sim] sim_get_result [OF sim]
    by (auto simp: memory_port_def postgres_port_def)
qed

lemma store_refines_memory_witness:
  "dl_get_finalized_key (postgres_port sample_host) (be 32 1) (dl_run (postgres_port sample_host) sample_requests Postgres_init) =
     Inr (Some \<lparr>fk_pk_election = be 96 9, fk_committee_pks = sample_committee\<rparr>) \<and>
   do_write (postgres_port sample_host) 0 (Cancel [] []) (dl_run (postgres_port sample_host) sample_requests Postgres_init) = Inl KeyError"
proof -
  have "list_all (\<lambda>(now, w). request_sized now w) sample_requests"
    by (simp add: sample_requests_def sample_election_ok sample_election_columns sample_committee_def)
  note r = store_refines_memory [OF sample_digest_binds this sample_requests_run [symmetric] refl, of 0 "Cancel [] []" None "be 32 1" 0 0]
  have p: "dl_get_election (memory_port sample_host) = im_get_election"
    "dl_get_finalized_key (memory_port sample_host) = im_get_finalized_key"
    by (simp_all add: memory_port_def)
  have "\<not> isl (im_get_election (be 32 1) (sample_memory [(1, sample_dkg 1), (2, sample_dkg 2)]))"
    unfolding im_get_election_def sample_finalized by (simp add: im_get_def sample_memory_def)
  then have key: "dl_get_finalized_key (postgres_port sample_host) (be 32 1) (dl_run (postgres_port sample_host) sample_requests Postgres_init) =
     Inr (Some \<lparr>fk_pk_election = be 96 9, fk_committee_pks = sample_committee\<rparr>)" using r unfolding p sample_finalized by blast
  have "be 32 1 \<noteq> []" by (rule notI, drule arg_cong [of _ _ length]) simp
  then have "do_write (memory_port sample_host) 0 (Cancel [] []) (sample_memory [(1, sample_dkg 1), (2, sample_dkg 2)]) = Inl KeyError"
    by (simp add: memory_port_def im_cancel_election_def im_get_def sample_memory_def im_put_def InMemory_init_def eq_commute [of "[]"])
  moreover have "request_sized 0 (Cancel [] [])" "\<not> replayed m (Cancel [] [])" for m by simp_all
  ultimately have "isl (do_write (postgres_port sample_host) 0 (Cancel [] []) (dl_run (postgres_port sample_host) sample_requests Postgres_init))"
    "projl (do_write (postgres_port sample_host) 0 (Cancel [] []) (dl_run (postgres_port sample_host) sample_requests Postgres_init)) = KeyError"
    using r by auto
  then show ?thesis using key by (metis sum.collapse(1))
qed

text \<open>
  The adapters part on an election that was never registered. The in-memory reads raise
  \<open>KeyError\<close>; the relational store answers with no ballots, no shares, no submissions and no result.
\<close>

theorem unknown_election_reads_differ:
  assumes "sim H pg m" and "e \<notin> fst ` set (im_elections m)" and "0 \<le> n" "bigint n"
  shows "im_count_ballots e m = Inl KeyError \<and> ps_count_ballots e pg = Inr 0 \<and>
    im_list_ballots e i n m = Inl KeyError \<and> ps_list_ballots e i n pg = Inr [] \<and>
    im_list_decryption_shares e m = Inl KeyError \<and> ps_list_decryption_shares e pg = Inr [] \<and>
    im_get_dkg_submissions e m = Inl KeyError \<and> ps_get_dkg_submissions e pg = Inr [] \<and>
    im_get_result e m = Inl KeyError \<and> ps_get_result e pg = Inr None"
proof -
  have n: "map_of (im_elections m) e = None" using assms(2) by (simp add: map_of_eq_None_iff)
  then have g: "im_get m e = Inl KeyError"
    by (simp add: im_get_def)
  have "rows_of e (pg_dkg_submissions pg) = []" "rows_of e (pg_ballots pg) = []" "rows_of e (pg_decryption_shares pg) = []"
    using simD(5) [OF assms(1), of e] simD(6) [OF assms(1), of e] simD(8) [OF assms(1), of e] n
    by (simp_all add: part_def rows_rel_def)
  then show ?thesis
    using g n simD(9) [OF assms(1), of e] assms(3,4)
    by (simp add: im_count_ballots_def ps_count_ballots_def im_list_ballots_def ps_list_ballots_def
        im_list_decryption_shares_def ps_list_decryption_shares_def im_get_dkg_submissions_def ps_get_dkg_submissions_def
        im_get_result_def ps_get_result_def)
qed

lemma unknown_election_reads_differ_witness: "ps_count_ballots (be 32 9) Postgres_init = Inr 0 \<and> im_count_ballots (be 32 9) InMemory_init = Inl KeyError"
  using unknown_election_reads_differ [OF sim_init, of "be 32 9" 0] by (simp add: InMemory_init_def bigint_def)

end
