(* ===== verification/Points.thy ===== *)
theory Points
  imports Params
begin

text \<open>
  \<^verbatim>\<open>crypto/points.py\<close>: the arithmetic surface over \<^verbatim>\<open>py_arkworks_bls12381\<close>. The curve
  library is not part of the repository, so a group is a parameter: a record of the library's
  operations, one instance for G1 and one for G2, carried with the hash function in a
  \<open>suite\<close>. What the protocol relies on of that library is the locale \<open>prime_group\<close>: the points
  of the subgroup form a cyclic group of order \<open>CURVE_ORDER\<close>, and decompression inverts
  compression there. The lemmas of the locale turn every equation between subgroup points into
  a congruence between exponents.
\<close>

section \<open>The curve library as a parameter\<close>

record 'g group_ops =
  gadd :: "'g \<Rightarrow> 'g \<Rightarrow> 'g"
  gneg :: "'g \<Rightarrow> 'g"
  gscale :: "'g \<Rightarrow> int \<Rightarrow> 'g"
  ggen :: 'g
  gid :: 'g
  gcompress :: "'g \<Rightarrow> bytes"
  gdecompress :: "bytes \<Rightarrow> 'g option"
  gsub :: "'g \<Rightarrow> bool"

record ('a, 'b) suite =
  g1 :: "'a group_ops"
  g2 :: "'b group_ops"
  keccak :: "bytes \<Rightarrow> bytes"

section \<open>Wrappers\<close>

definition mul :: "'g group_ops \<Rightarrow> 'g \<Rightarrow> int \<Rightarrow> 'g" where
  "mul G P scalar = gscale G P (scalar mod CURVE_ORDER)"

definition add :: "'g group_ops \<Rightarrow> 'g \<Rightarrow> 'g \<Rightarrow> 'g" where
  "add G P Q = gadd G P Q"

definition neg :: "'g group_ops \<Rightarrow> 'g \<Rightarrow> 'g" where
  "neg G P = gneg G P"

definition is_identity :: "'g group_ops \<Rightarrow> 'g \<Rightarrow> bool" where
  "is_identity G P \<longleftrightarrow> P = gid G"

text \<open>
  \<open>random_scalar\<close>: \<open>d\<close> is what \<open>secrets.randbelow(CURVE_ORDER - 1)\<close> returned.
\<close>

definition random_scalar :: "int \<Rightarrow> int" where
  "random_scalar d = d + 1"

lemma random_scalar_range: "0 \<le> d \<Longrightarrow> d < CURVE_ORDER - 1 \<Longrightarrow> 1 \<le> random_scalar d \<and> random_scalar d < CURVE_ORDER"
  by (simp add: random_scalar_def)

definition to_compressed :: "nat \<Rightarrow> 'g group_ops \<Rightarrow> 'g \<Rightarrow> bytes result" where
  "to_compressed n G P = (if length (gcompress G P) \<noteq> n then Inl ValueError else Inr (gcompress G P))"

definition from_compressed :: "nat \<Rightarrow> 'g group_ops \<Rightarrow> bytes \<Rightarrow> 'g result" where
  "from_compressed n G b =
     (if length b \<noteq> n then Inl ValueError
      else case gdecompress G b of
        None \<Rightarrow> Inl ValueError
      | Some P \<Rightarrow> if \<not> gsub G P then Inl ValueError else Inr P)"

definition g1_to_compressed :: "('a, 'b) suite \<Rightarrow> 'a \<Rightarrow> bytes result" where
  "g1_to_compressed S P = to_compressed G1_BYTES (g1 S) P"

definition g1_from_compressed :: "('a, 'b) suite \<Rightarrow> bytes \<Rightarrow> 'a result" where
  "g1_from_compressed S b = from_compressed G1_BYTES (g1 S) b"

definition g2_to_compressed :: "('a, 'b) suite \<Rightarrow> 'b \<Rightarrow> bytes result" where
  "g2_to_compressed S P = to_compressed G2_BYTES (g2 S) P"

definition g2_from_compressed :: "('a, 'b) suite \<Rightarrow> bytes \<Rightarrow> 'b result" where
  "g2_from_compressed S b = from_compressed G2_BYTES (g2 S) b"

text \<open>The point with discrete logarithm \<open>a\<close>.\<close>

abbreviation gx :: "'g group_ops \<Rightarrow> int \<Rightarrow> 'g" where
  "gx G a \<equiv> mul G (ggen G) a"

section \<open>What the protocol relies on\<close>

locale prime_group =
  fixes G :: "'g group_ops" and size :: nat
  assumes gen_sub: "gsub G (ggen G)"
    and id_sub: "gsub G (gid G)"
    and add_sub: "gsub G P \<Longrightarrow> gsub G Q \<Longrightarrow> gsub G (gadd G P Q)"
    and neg_sub: "gsub G P \<Longrightarrow> gsub G (gneg G P)"
    and scale_sub: "gsub G P \<Longrightarrow> gsub G (gscale G P n)"
    and gadd_assoc: "gsub G P \<Longrightarrow> gsub G Q \<Longrightarrow> gsub G R \<Longrightarrow>
      gadd G (gadd G P Q) R = gadd G P (gadd G Q R)"
    and gadd_comm: "gsub G P \<Longrightarrow> gsub G Q \<Longrightarrow> gadd G P Q = gadd G Q P"
    and gadd_id: "gsub G P \<Longrightarrow> gadd G P (gid G) = P"
    and gadd_neg: "gsub G P \<Longrightarrow> gadd G P (gneg G P) = gid G"
    and gscale_one: "gsub G P \<Longrightarrow> gscale G P 1 = P"
    and gscale_add: "gsub G P \<Longrightarrow> 0 \<le> a \<Longrightarrow> a < CURVE_ORDER \<Longrightarrow> 0 \<le> b \<Longrightarrow> b < CURVE_ORDER \<Longrightarrow>
      gscale G P ((a + b) mod CURVE_ORDER) = gadd G (gscale G P a) (gscale G P b)"
    and gen_order: "0 \<le> a \<Longrightarrow> a < CURVE_ORDER \<Longrightarrow> gscale G (ggen G) a = gid G \<Longrightarrow> a = 0"
    and gen_cyclic: "gsub G P \<Longrightarrow> \<exists>a. 0 \<le> a \<and> a < CURVE_ORDER \<and> P = gscale G (ggen G) a"
    and compress_size: "gsub G P \<Longrightarrow> length (gcompress G P) = size"
    and decompress_compress: "gsub G P \<Longrightarrow> gdecompress G (gcompress G P) = Some P"
begin

lemma add_mul: "gsub G P \<Longrightarrow> mul G P (a + b) = add G (mul G P a) (mul G P b)"
  using gscale_add [of P "a mod CURVE_ORDER" "b mod CURVE_ORDER"]
  by (simp add: mul_def add_def mod_add_eq)

lemma mul_mod: "mul G P (a mod CURVE_ORDER) = mul G P a"
  by (simp add: mul_def)

lemma mul_one: "gsub G P \<Longrightarrow> mul G P 1 = P"
  by (simp add: mul_def gscale_one)

lemma mul_sub [simp]: "gsub G P \<Longrightarrow> gsub G (mul G P a)"
  by (simp add: mul_def scale_sub)

lemma wrapper_sub [simp]:
  "gsub G P \<Longrightarrow> gsub G Q \<Longrightarrow> gsub G (add G P Q)"
  "gsub G P \<Longrightarrow> gsub G (neg G P)"
  "gsub G (gid G)" "gsub G (ggen G)"
  by (simp_all add: add_def neg_def add_sub neg_sub id_sub gen_sub)

lemma add_cancel_id: "gsub G P \<Longrightarrow> add G P P = P \<Longrightarrow> P = gid G"
  by (metis add_def gadd_assoc gadd_id gadd_neg neg_sub)

lemma mul_zero: "gsub G P \<Longrightarrow> mul G P 0 = gid G"
  by (metis add.right_neutral add_cancel_id add_mul mul_sub)

lemma mul_minus: "gsub G P \<Longrightarrow> mul G P (- a) = neg G (mul G P a)"
proof -
  assume P: "gsub G P"
  let ?x = "mul G P a" and ?y = "mul G P (- a)"
  have "add G ?x ?y = gid G"
    using add_mul [OF P, of a "- a"] mul_zero [OF P] by simp
  then have "gadd G (gneg G ?x) (gadd G ?x ?y) = gneg G ?x"
    using P by (simp add: add_def gadd_id neg_sub)
  moreover have "gadd G (gneg G ?x) (gadd G ?x ?y) = gadd G ?y (gadd G ?x (gneg G ?x))"
    using P by (metis gadd_assoc gadd_comm mul_sub neg_sub)
  ultimately show ?thesis
    using P by (simp add: neg_def gadd_neg gadd_id)
qed

lemma add_distrib:
  "gsub G P \<Longrightarrow> gsub G Q \<Longrightarrow> gsub G R \<Longrightarrow> gsub G T \<Longrightarrow>
     add G (add G P Q) (add G R T) = add G (add G P R) (add G Q T)"
  by (metis add_def add_sub gadd_assoc gadd_comm)

lemma mul_mul_nat: "gsub G P \<Longrightarrow> mul G (mul G P a) (int n) = mul G P (a * int n)"
proof (induction n)
  case 0
  then show ?case by (simp add: mul_zero)
next
  case (Suc n)
  have "mul G (mul G P a) (int n + 1) = add G (mul G P (a * int n)) (mul G P a)"
    using Suc by (simp add: add_mul mul_one)
  also have "\<dots> = mul G P (a * int n + a)"
    using Suc.prems by (simp add: add_mul)
  finally show ?case by (simp add: algebra_simps)
qed

lemma mul_mul: "gsub G P \<Longrightarrow> mul G (mul G P a) b = mul G P (a * b)"
proof -
  assume P: "gsub G P"
  have "mul G (mul G P a) b = mul G (mul G P a) (int (nat (b mod CURVE_ORDER)))"
    by (simp add: mul_def)
  also have "\<dots> = mul G P (a * (b mod CURVE_ORDER))"
    using mul_mul_nat [OF P, of a "nat (b mod CURVE_ORDER)"] by simp
  also have "\<dots> = mul G P (a * b)"
    by (simp add: mul_def mod_mult_right_eq)
  finally show ?thesis .
qed

text \<open>Exponent arithmetic: the operations on points \<open>gx G a\<close> are those on \<open>a\<close>.\<close>

lemma gx_add: "add G (gx G a) (gx G b) = gx G (a + b)"
  by (simp add: add_mul)

lemma gx_neg: "neg G (gx G a) = gx G (- a)"
  by (simp add: mul_minus)

lemma gx_mul: "mul G (gx G a) b = gx G (a * b)"
  by (simp add: mul_mul)

lemma gx_id: "gid G = gx G 0"
  by (simp add: mul_zero)

lemma gx_gen: "ggen G = gx G 1"
  by (simp add: mul_one)

lemma gx_eq_id_iff: "gx G a = gid G \<longleftrightarrow> a mod CURVE_ORDER = 0"
proof
  assume "gx G a = gid G"
  then show "a mod CURVE_ORDER = 0"
    using gen_order [of "a mod CURVE_ORDER"] by (simp add: mul_def)
next
  assume "a mod CURVE_ORDER = 0"
  then have "gx G a = gx G 0" by (simp add: mul_def)
  then show "gx G a = gid G" by (simp add: mul_zero)
qed

lemma gx_eq_iff: "gx G a = gx G b \<longleftrightarrow> a mod CURVE_ORDER = b mod CURVE_ORDER"
proof
  assume eq: "gx G a = gx G b"
  have "gx G (a - b) = add G (gx G a) (neg G (gx G b))"
    by (simp add: gx_neg gx_add)
  also have "\<dots> = gid G"
    by (simp add: eq add_def neg_def gadd_neg)
  finally have "(a - b) mod CURVE_ORDER = 0" by (simp add: gx_eq_id_iff)
  then show "a mod CURVE_ORDER = b mod CURVE_ORDER"
    by (simp add: mod_eq_dvd_iff dvd_eq_mod_eq_0)
next
  assume "a mod CURVE_ORDER = b mod CURVE_ORDER"
  then show "gx G a = gx G b" by (simp add: mul_def)
qed

lemma gx_exists: "gsub G P \<Longrightarrow> \<exists>a. 0 \<le> a \<and> a < CURVE_ORDER \<and> P = gx G a"
  using gen_cyclic by (fastforce simp: mul_def)

lemma gx_cases:
  assumes "gsub G P"
  obtains a where "P = gx G a" "0 \<le> a" "a < CURVE_ORDER"
  using gx_exists [OF assms] by blast

lemma gx_sub: "gsub G (gx G a)"
  by simp

lemmas exponent_simps = gx_add gx_neg gx_mul gx_id gx_eq_iff

text \<open>The codec.\<close>

lemma to_compressed_Inr: "gsub G P \<Longrightarrow> to_compressed size G P = Inr (gcompress G P)"
  by (simp add: to_compressed_def compress_size)

lemma from_compressed_Inr: "gsub G P \<Longrightarrow> from_compressed size G (gcompress G P) = Inr P"
  by (simp add: from_compressed_def compress_size decompress_compress)

lemma from_compressed_sub: "from_compressed size G b = Inr P \<Longrightarrow> gsub G P \<and> length b = size"
  by (auto simp: from_compressed_def split: if_splits option.splits)

lemma compress_inject: "gsub G P \<Longrightarrow> gsub G Q \<Longrightarrow> gcompress G P = gcompress G Q \<longleftrightarrow> P = Q"
  by (metis decompress_compress option.inject)

end

text \<open>The whole suite: both groups and a 32-byte hash.\<close>

locale crypto_suite =
  fixes S :: "('a, 'b) suite"
  assumes g1_group: "prime_group (g1 S) G1_BYTES"
    and g2_group: "prime_group (g2 S) G2_BYTES"
    and keccak_length: "length (keccak S m) = 32"

sublocale crypto_suite \<subseteq> V: prime_group "g1 S" G1_BYTES
  by (rule g1_group)

sublocale crypto_suite \<subseteq> W: prime_group "g2 S" G2_BYTES
  by (rule g2_group)

section \<open>The exponent group\<close>

text \<open>
  The group of residues modulo \<open>CURVE_ORDER\<close> satisfies what is asked of the library, so the
  hypotheses of the development are satisfiable: a point is its discrete logarithm and its
  compressed form is the big-endian encoding of that number.
\<close>

definition zq_group :: "nat \<Rightarrow> int group_ops" where
  "zq_group n =
     \<lparr>gadd = (\<lambda>a b. (a + b) mod CURVE_ORDER), gneg = (\<lambda>a. (- a) mod CURVE_ORDER),
      gscale = (\<lambda>a k. (a * k) mod CURVE_ORDER), ggen = 1, gid = 0, gcompress = be n,
      gdecompress = (\<lambda>b. Some (int_from_bytes b)), gsub = (\<lambda>a. 0 \<le> a \<and> a < CURVE_ORDER)\<rparr>"

definition zq_suite :: "(int, int) suite" where
  "zq_suite = \<lparr>g1 = zq_group 48, g2 = zq_group 96, keccak = (\<lambda>m. be 32 (int (length m)))\<rparr>"

lemma zq_group_prime_group:
  assumes "32 \<le> n"
  shows "prime_group (zq_group n) n"
proof unfold_locales
  have "CURVE_ORDER < 256 ^ n"
    using CURVE_ORDER_lt assms power_increasing [of 32 n "256::int"] by linarith
  then show "gsub (zq_group n) P \<Longrightarrow> gdecompress (zq_group n) (gcompress (zq_group n) P) = Some P" for P
    by (simp add: zq_group_def int_from_bytes_be)
  show "gsub (zq_group n) P \<Longrightarrow>
      \<exists>a. 0 \<le> a \<and> a < CURVE_ORDER \<and> P = gscale (zq_group n) (ggen (zq_group n)) a" for P
    by (auto simp: zq_group_def)
qed (auto simp: zq_group_def mod_simps algebra_simps)

interpretation zq: crypto_suite zq_suite
proof (rule crypto_suite.intro)
  show "prime_group (g1 zq_suite) G1_BYTES" "prime_group (g2 zq_suite) G2_BYTES"
    using zq_group_prime_group [of 48] zq_group_prime_group [of 96]
    by (simp_all add: zq_suite_def size_defs)
  show "length (keccak zq_suite m) = 32" for m
    by (simp add: zq_suite_def)
qed

end
