(* ===== verification/Transcript.thy ===== *)
theory Transcript
  imports Points
begin

text \<open>
  \<^verbatim>\<open>crypto/transcript.py\<close>: the length-prefixed Fiat-Shamir transcript. A transcript is the
  Python attribute \<open>parts\<close>, a list of byte strings; every method that mutates it returns the
  new list. The framing lemmas show that the concatenated preimage determines the sequence of
  appended (tag, value) pairs.
\<close>

type_synonym transcript = "bytes list"

definition Transcript_init :: "string \<Rightarrow> transcript" where
  "Transcript_init label = [encode_utf8 label]"

definition tr_append :: "transcript \<Rightarrow> string \<Rightarrow> bytes \<Rightarrow> transcript result" where
  "tr_append t tag value =
     ebind (u32be (int (length (encode_utf8 tag)))) (\<lambda>lt.
     ebind (u32be (int (length value))) (\<lambda>lv.
     Inr (t @ [lt, encode_utf8 tag, lv, value])))"

definition append_point :: "('a, 'b) suite \<Rightarrow> transcript \<Rightarrow> string \<Rightarrow> 'b \<Rightarrow> transcript result" where
  "append_point S t tag P = ebind (g2_to_compressed S P) (\<lambda>b. tr_append t tag b)"

definition append_scalar :: "transcript \<Rightarrow> string \<Rightarrow> int \<Rightarrow> transcript result" where
  "append_scalar t tag s = tr_append t tag (scalar_to_bytes s)"

definition preimage :: "transcript \<Rightarrow> bytes" where
  "preimage t = concat t"

definition challenge_scalar :: "('a, 'b) suite \<Rightarrow> bytes \<Rightarrow> int" where
  "challenge_scalar S pre = wide_reduce (keccak S (0 # pre) @ keccak S (1 # pre))"

definition challenge :: "('a, 'b) suite \<Rightarrow> transcript \<Rightarrow> string \<Rightarrow> (int \<times> transcript) result" where
  "challenge S t tag =
     ebind (u32be (int (length (encode_utf8 tag)))) (\<lambda>lt.
     let e = challenge_scalar S (DST_FIAT_SHAMIR @ lt @ encode_utf8 tag @ concat t)
     in ebind (append_scalar t (tag @ '':chal'') e) (\<lambda>t'. Inr (e, t')))"

definition hash_to_scalar :: "('a, 'b) suite \<Rightarrow> bytes \<Rightarrow> bytes list \<Rightarrow> int" where
  "hash_to_scalar S domain_sep parts = challenge_scalar S (domain_sep @ concat parts)"

section \<open>Successful appends\<close>

definition frame :: "string \<Rightarrow> bytes \<Rightarrow> bytes list" where
  "frame tag v = [be 4 (int (length tag)), encode_utf8 tag, be 4 (int (length v)), v]"

lemma tr_append_Inr:
  "length tag < 2 ^ 32 \<Longrightarrow> length v < 2 ^ 32 \<Longrightarrow> tr_append t tag v = Inr (t @ frame tag v)"
  by (simp add: tr_append_def frame_def u32be_Inr)

lemma tr_append_eq_Inr:
  "tr_append t tag v = Inr t' \<longleftrightarrow> length tag < 2 ^ 32 \<and> length v < 2 ^ 32 \<and> t' = t @ frame tag v"
  by (auto simp: tr_append_def frame_def u32be_def int_to_bytes_def split: if_splits)

lemma append_scalar_Inr:
  "length tag < 2 ^ 32 \<Longrightarrow> append_scalar t tag s = Inr (t @ frame tag (scalar_to_bytes s))"
  by (simp add: append_scalar_def tr_append_Inr)

lemma challenge_scalar_range [simp]:
  "0 \<le> challenge_scalar S p" "challenge_scalar S p < CURVE_ORDER"
  "challenge_scalar S p mod CURVE_ORDER = challenge_scalar S p"
  by (simp_all add: challenge_scalar_def)

lemma challenge_Inr:
  "length tag < 2 ^ 31 \<Longrightarrow>
     \<exists>e t'. challenge S t tag = Inr (e, t') \<and> 0 \<le> e \<and> e < CURVE_ORDER"
  by (simp add: challenge_def u32be_Inr append_scalar_Inr Let_def)

lemma challenge_range: "challenge S t tag = Inr (e, t') \<Longrightarrow> 0 \<le> e \<and> e < CURVE_ORDER"
  by (auto simp: challenge_def Let_def)

lemma length_show_nat: "length (show_nat n) \<le> Suc n"
proof (induction n rule: show_nat.induct)
  case (1 n)
  show ?case
  proof (cases "n < 10")
    case True
    then show ?thesis by (simp add: show_nat.simps [of n])
  next
    case False
    with 1 have "length (show_nat (n div 10)) \<le> Suc (n div 10)" by simp
    with False show ?thesis by (simp add: show_nat.simps [of n])
  qed
qed

context crypto_suite
begin

lemma append_point_Inr:
  "gsub (g2 S) P \<Longrightarrow> length tag < 2 ^ 32 \<Longrightarrow>
     append_point S t tag P = Inr (t @ frame tag (gcompress (g2 S) P))"
  using W.compress_size [of P] W.to_compressed_Inr [of P]
  by (simp add: append_point_def g2_to_compressed_def tr_append_Inr G2_BYTES_def)

end

section \<open>The preimage is unambiguous\<close>

definition append_all :: "(string \<times> bytes) list \<Rightarrow> transcript \<Rightarrow> transcript result" where
  "append_all fs t = efold (\<lambda>(tag, v) t. tr_append t tag v) fs t"

definition framed :: "(string \<times> bytes) list \<Rightarrow> bool" where
  "framed fs \<longleftrightarrow> (\<forall>(tag, v) \<in> set fs. length tag < 2 ^ 32 \<and> length v < 2 ^ 32)"

lemma append_all_eq_Inr:
  "append_all fs t = Inr t' \<longleftrightarrow> framed fs \<and> t' = t @ concat (map (\<lambda>(tag, v). frame tag v) fs)"
proof (induction fs arbitrary: t)
  case Nil
  then show ?case by (auto simp: append_all_def framed_def)
next
  case (Cons f fs)
  obtain tag v where f: "f = (tag, v)" by (cases f)
  have "append_all (f # fs) t = ebind (tr_append t tag v) (append_all fs)"
    by (simp add: append_all_def [abs_def] f)
  then show ?case
    by (auto simp: f tr_append_eq_Inr Cons.IH framed_def)
qed

lemma frame_prefix_inject:
  assumes "concat (frame a v) @ r = concat (frame b w) @ s"
    and "length a < 2 ^ 32" "length v < 2 ^ 32" "length b < 2 ^ 32" "length w < 2 ^ 32"
  shows "a = b \<and> v = w \<and> r = s"
proof -
  from assms(1) have la: "be 4 (int (length a)) = be 4 (int (length b))"
    and r1: "encode_utf8 a @ be 4 (int (length v)) @ v @ r =
             encode_utf8 b @ be 4 (int (length w)) @ w @ s"
    by (simp_all add: frame_def)
  from la assms(2,4) have "length a = length b"
    by (simp add: be_inject)
  with r1 have ab: "a = b" and r2: "be 4 (int (length v)) @ v @ r = be 4 (int (length w)) @ w @ s"
    by simp_all
  from r2 have "be 4 (int (length v)) = be 4 (int (length w))" and r3: "v @ r = w @ s"
    by simp_all
  with assms(3,5) have "length v = length w"
    by (simp add: be_inject)
  with ab r3 show ?thesis by simp
qed

lemma frames_inject:
  "concat (concat (map (\<lambda>(tag, v). frame tag v) fs)) =
     concat (concat (map (\<lambda>(tag, v). frame tag v) gs)) \<Longrightarrow> framed fs \<Longrightarrow> framed gs \<Longrightarrow> fs = gs"
proof (induction fs arbitrary: gs)
  case Nil
  then show ?case by (cases gs) (auto simp: frame_def)
next
  case (Cons f fs)
  obtain a v where f: "f = (a, v)" by (cases f)
  from Cons.prems(1) f obtain g gs' where gs: "gs = g # gs'"
    by (cases gs) (auto simp: frame_def)
  obtain b w where g: "g = (b, w)" by (cases g)
  have "a = b \<and> v = w \<and>
      concat (concat (map (\<lambda>(tag, v). frame tag v) fs)) = concat (concat (map (\<lambda>(tag, v). frame tag v) gs'))"
    by (rule frame_prefix_inject) (use Cons.prems f gs g in \<open>auto simp: framed_def\<close>)
  with Cons f g gs show ?case by (auto simp: framed_def)
qed

lemma append_all_preimage_inject:
  assumes "append_all fs (Transcript_init l) = Inr t" and "append_all gs (Transcript_init l) = Inr u"
    and "preimage t = preimage u"
  shows "fs = gs"
  using assms by (auto simp: append_all_eq_Inr preimage_def Transcript_init_def dest: frames_inject)

section \<open>Properties\<close>

text \<open>
  The Fiat-Shamir framing is unambiguous. Two sequences of (tag, value) appends to
  transcripts with the same label that hash the same preimage are the same sequence.
\<close>

theorem transcript_framing_injective:
  assumes "append_all fs (Transcript_init label) = Inr t" and "append_all gs (Transcript_init label) = Inr u"
    and "preimage t = preimage u"
  shows "fs = gs"
  by (rule append_all_preimage_inject [OF assms])

lemma transcript_framing_injective_witness:
  "\<exists>t. append_all [(''a'', [1]), (''b'', [])] (Transcript_init ''l'') = Inr t \<and>
     (\<forall>gs. append_all gs (Transcript_init ''l'') = Inr t \<longrightarrow> gs = [(''a'', [1]), (''b'', [])])"
proof -
  obtain t where t: "append_all [(''a'', [1]), (''b'', [])] (Transcript_init ''l'') = Inr t"
    by (simp add: append_all_eq_Inr framed_def)
  then show ?thesis using transcript_framing_injective [OF _ t refl] by blast
qed

end
