(* ===== verification/Schnorr.thy ===== *)
theory Schnorr
  imports Transcript
begin

text \<open>
  \<^verbatim>\<open>crypto/schnorr.py\<close>: single-point Schnorr signatures over G1, with the 80-byte wire form.
\<close>

definition schnorr_challenge :: "('a, 'b) suite \<Rightarrow> 'a \<Rightarrow> 'a \<Rightarrow> bytes \<Rightarrow> int result" where
  "schnorr_challenge S R vk msg =
     ebind (g1_to_compressed S R) (\<lambda>rb.
     ebind (g1_to_compressed S vk) (\<lambda>vb.
     Inr (hash_to_scalar S DST_SCHNORR [rb, vb, msg])))"

definition keygen :: "('a, 'b) suite \<Rightarrow> int option \<Rightarrow> int \<Rightarrow> (int \<times> 'a) result" where
  "keygen S sk d =
     (let sk = (case sk of None \<Rightarrow> random_scalar d | Some s \<Rightarrow> s) mod CURVE_ORDER
      in if sk = 0 then Inl ValueError else Inr (sk, mul (g1 S) (ggen (g1 S)) sk))"

definition schnorr_sign ::
    "('a, 'b) suite \<Rightarrow> int \<Rightarrow> 'a \<Rightarrow> bytes \<Rightarrow> int option \<Rightarrow> int \<Rightarrow> ('a \<times> int) result" where
  "schnorr_sign S sk vk msg k d =
     (let k = (case k of None \<Rightarrow> random_scalar d | Some k \<Rightarrow> k) mod CURVE_ORDER;
          R = mul (g1 S) (ggen (g1 S)) k
      in ebind (schnorr_challenge S R vk msg) (\<lambda>e.
         Inr (R, (k + e * (sk mod CURVE_ORDER)) mod CURVE_ORDER)))"

definition schnorr_verify :: "('a, 'b) suite \<Rightarrow> 'a \<Rightarrow> bytes \<Rightarrow> 'a \<Rightarrow> int \<Rightarrow> bool result" where
  "schnorr_verify S vk msg R s =
     (if vk = gid (g1 S) then Inr False
      else ebind (schnorr_challenge S R vk msg) (\<lambda>e.
        Inr (mul (g1 S) (ggen (g1 S)) s = gadd (g1 S) R (mul (g1 S) vk e))))"

definition schnorr_encode :: "('a, 'b) suite \<Rightarrow> 'a \<Rightarrow> int \<Rightarrow> bytes result" where
  "schnorr_encode S R s = ebind (g1_to_compressed S R) (\<lambda>rb. Inr (rb @ scalar_to_bytes s))"

definition schnorr_decode :: "('a, 'b) suite \<Rightarrow> bytes \<Rightarrow> ('a \<times> int) result" where
  "schnorr_decode S b =
     (if length b \<noteq> SCHNORR_BYTES then Inl ValueError
      else ebind (g1_from_compressed S (take 48 b)) (\<lambda>R.
           ebind (scalar_from_bytes (drop 48 b)) (\<lambda>s. Inr (R, s))))"

context crypto_suite
begin

lemma g1_codec:
  "gsub (g1 S) P \<Longrightarrow> g1_to_compressed S P = Inr (gcompress (g1 S) P)"
  "gsub (g1 S) P \<Longrightarrow> g1_from_compressed S (gcompress (g1 S) P) = Inr P"
  "gsub (g1 S) P \<Longrightarrow> length (gcompress (g1 S) P) = 48"
  using V.to_compressed_Inr V.from_compressed_Inr V.compress_size
  by (simp_all add: g1_to_compressed_def g1_from_compressed_def G1_BYTES_def)

lemma g2_codec:
  "gsub (g2 S) P \<Longrightarrow> g2_to_compressed S P = Inr (gcompress (g2 S) P)"
  "gsub (g2 S) P \<Longrightarrow> g2_from_compressed S (gcompress (g2 S) P) = Inr P"
  "gsub (g2 S) P \<Longrightarrow> length (gcompress (g2 S) P) = 96"
  using W.to_compressed_Inr W.from_compressed_Inr W.compress_size
  by (simp_all add: g2_to_compressed_def g2_from_compressed_def G2_BYTES_def)

lemma g1_from_compressed_sub: "g1_from_compressed S b = Inr P \<Longrightarrow> gsub (g1 S) P \<and> length b = 48"
  using V.from_compressed_sub by (simp add: g1_from_compressed_def G1_BYTES_def)

lemma g2_from_compressed_sub: "g2_from_compressed S b = Inr P \<Longrightarrow> gsub (g2 S) P \<and> length b = 96"
  using W.from_compressed_sub by (simp add: g2_from_compressed_def G2_BYTES_def)

lemma schnorr_challenge_Inr:
  "gsub (g1 S) R \<Longrightarrow> gsub (g1 S) vk \<Longrightarrow>
     schnorr_challenge S R vk msg =
       Inr (hash_to_scalar S DST_SCHNORR [gcompress (g1 S) R, gcompress (g1 S) vk, msg])"
  by (simp add: schnorr_challenge_def g1_codec)

lemma schnorr_sign_verify:
  assumes "sk mod CURVE_ORDER \<noteq> 0"
  shows "\<exists>R s. schnorr_sign S sk (gx (g1 S) sk) msg k d = Inr (R, s) \<and> gsub (g1 S) R \<and>
    0 \<le> s \<and> s < CURVE_ORDER \<and> schnorr_verify S (gx (g1 S) sk) msg R s = Inr True"
proof -
  define k' where "k' = (case k of None \<Rightarrow> random_scalar d | Some k \<Rightarrow> k) mod CURVE_ORDER"
  define e where "e = hash_to_scalar S DST_SCHNORR
    [gcompress (g1 S) (gx (g1 S) k'), gcompress (g1 S) (gx (g1 S) sk), msg]"
  have ch: "schnorr_challenge S (gx (g1 S) k') (gx (g1 S) sk) msg = Inr e"
    by (simp add: schnorr_challenge_Inr e_def)
  have vk: "gx (g1 S) sk \<noteq> gid (g1 S)"
    using assms by (simp add: V.gx_eq_id_iff)
  have "(k' + e * (sk mod CURVE_ORDER)) mod CURVE_ORDER mod CURVE_ORDER = (k' + sk * e) mod CURVE_ORDER"
    by (metis mod_add_right_eq mod_mod_trivial mod_mult_right_eq mult.commute)
  then have eq: "gx (g1 S) ((k' + e * (sk mod CURVE_ORDER)) mod CURVE_ORDER) =
      gadd (g1 S) (gx (g1 S) k') (mul (g1 S) (gx (g1 S) sk) e)"
    by (simp add: V.gx_mul V.gx_add [unfolded add_def] V.gx_eq_iff)
  show ?thesis
    using ch vk eq by (simp add: schnorr_sign_def schnorr_verify_def k'_def [symmetric] Let_def)
qed

lemma schnorr_decode_encode:
  assumes "gsub (g1 S) R" and "0 \<le> s" "s < CURVE_ORDER"
  shows "\<exists>b. schnorr_encode S R s = Inr b \<and> length b = 80 \<and> schnorr_decode S b = Inr (R, s)"
  using assms scalar_roundtrip [of s]
  by (simp add: schnorr_encode_def schnorr_decode_def g1_codec SCHNORR_BYTES_def)

lemma schnorr_verify_total:
  "gsub (g1 S) vk \<Longrightarrow> gsub (g1 S) R \<Longrightarrow> \<exists>b. schnorr_verify S vk msg R s = Inr b"
  by (auto simp: schnorr_verify_def schnorr_challenge_Inr)

end

end
