(* ===== verification/Attestation.thy ===== *)
theory Attestation
  imports Schnorr
begin

text \<open>
  \<^verbatim>\<open>crypto/attestation.py\<close>: the weighted eligibility credential \<open>ATTESTATION_V1\<close>, a Schnorr
  signature of the eligibility key over a transcript of election, pseudonym, voter key, weight
  and re-vote nonce. Verification never raises: every exception is a \<open>False\<close>.
\<close>

definition attestation_transcript ::
    "bytes \<Rightarrow> bytes \<Rightarrow> bytes \<Rightarrow> int \<Rightarrow> int \<Rightarrow> transcript result" where
  "attestation_transcript election_id pseudonym vk_bytes weight nonce =
     (if length election_id \<noteq> 32 then Inl ValueError
      else if length pseudonym \<noteq> 32 then Inl ValueError
      else if length vk_bytes \<noteq> 48 then Inl ValueError
      else if weight < 1 then Inl ValueError
      else if nonce < 1 then Inl ValueError
      else
        ebind (tr_append (Transcript_init ATTESTATION_LABEL) ''attest:electionId'' election_id) (\<lambda>t.
        ebind (tr_append t ''attest:pseudonym'' pseudonym) (\<lambda>t.
        ebind (tr_append t ''attest:vk'' vk_bytes) (\<lambda>t.
        ebind (append_scalar t ''attest:weight'' weight) (\<lambda>t.
        append_scalar t ''attest:nonce'' nonce)))))"

definition attestation_message ::
    "('a, 'b) suite \<Rightarrow> bytes \<Rightarrow> bytes \<Rightarrow> bytes \<Rightarrow> int \<Rightarrow> int \<Rightarrow> bytes result" where
  "attestation_message S election_id pseudonym vk_bytes weight nonce =
     ebind (attestation_transcript election_id pseudonym vk_bytes weight nonce) (\<lambda>t.
     Inr (keccak S (preimage t)))"

definition sign_attestation ::
    "('a, 'b) suite \<Rightarrow> int \<Rightarrow> 'a \<Rightarrow> bytes \<Rightarrow> bytes \<Rightarrow> bytes \<Rightarrow> int \<Rightarrow> int \<Rightarrow> int option \<Rightarrow> int \<Rightarrow> bytes result" where
  "sign_attestation S elig_sk elig_vk election_id pseudonym vk_bytes weight nonce k d =
     ebind (attestation_message S election_id pseudonym vk_bytes weight nonce) (\<lambda>msg.
     ebind (schnorr_sign S elig_sk elig_vk msg k d) (\<lambda>(R, s).
     schnorr_encode S R s))"

definition verify_attestation_sig ::
    "('a, 'b) suite \<Rightarrow> bytes \<Rightarrow> bytes \<Rightarrow> bytes \<Rightarrow> bytes \<Rightarrow> int \<Rightarrow> int \<Rightarrow> bytes \<Rightarrow> bool" where
  "verify_attestation_sig S elig_vk_bytes election_id pseudonym vk_bytes weight nonce signature =
     (if length election_id \<noteq> 32 \<or> length pseudonym \<noteq> 32 \<or> length vk_bytes \<noteq> 48 then False
      else if weight < 1 \<or> nonce < 1 then False
      else case
          ebind (g1_from_compressed S elig_vk_bytes) (\<lambda>elig_vk.
          ebind (schnorr_decode S signature) (\<lambda>(R, s).
          ebind (attestation_message S election_id pseudonym vk_bytes weight nonce) (\<lambda>msg.
          schnorr_verify S elig_vk msg R s)))
        of Inl _ \<Rightarrow> False | Inr ok \<Rightarrow> ok)"

section \<open>The signed transcript\<close>

definition attestation_fields :: "bytes \<Rightarrow> bytes \<Rightarrow> bytes \<Rightarrow> int \<Rightarrow> int \<Rightarrow> (string \<times> bytes) list" where
  "attestation_fields eid ps vk w n =
     [(''attest:electionId'', eid), (''attest:pseudonym'', ps), (''attest:vk'', vk),
      (''attest:weight'', scalar_to_bytes w), (''attest:nonce'', scalar_to_bytes n)]"

lemma attestation_transcript_fields:
  "length eid = 32 \<Longrightarrow> length ps = 32 \<Longrightarrow> length vk = 48 \<Longrightarrow> 1 \<le> w \<Longrightarrow> 1 \<le> n \<Longrightarrow>
     attestation_transcript eid ps vk w n =
       append_all (attestation_fields eid ps vk w n) (Transcript_init ATTESTATION_LABEL)"
  by (simp add: attestation_transcript_def append_all_def attestation_fields_def append_scalar_def
      tr_append_Inr)

lemma attestation_transcript_guard:
  "attestation_transcript eid ps vk w n = Inr t \<Longrightarrow>
     length eid = 32 \<and> length ps = 32 \<and> length vk = 48 \<and> 1 \<le> w \<and> 1 \<le> n"
  by (auto simp: attestation_transcript_def split: if_splits)

lemma attestation_transcript_Inr:
  "length eid = 32 \<Longrightarrow> length ps = 32 \<Longrightarrow> length vk = 48 \<Longrightarrow> 1 \<le> w \<Longrightarrow> 1 \<le> n \<Longrightarrow>
     \<exists>t. attestation_transcript eid ps vk w n = Inr t"
  by (simp add: attestation_transcript_fields append_all_eq_Inr framed_def attestation_fields_def)

lemma attestation_transcript_inject:
  assumes t: "attestation_transcript eid ps vk w n = Inr t"
    and u: "attestation_transcript eid' ps' vk' w' n' = Inr u" and eq: "preimage t = preimage u"
  shows "eid = eid' \<and> ps = ps' \<and> vk = vk' \<and> w mod CURVE_ORDER = w' mod CURVE_ORDER \<and>
    n mod CURVE_ORDER = n' mod CURVE_ORDER"
proof -
  note g = attestation_transcript_guard [OF t] attestation_transcript_guard [OF u]
  have "attestation_fields eid ps vk w n = attestation_fields eid' ps' vk' w' n'"
    by (rule append_all_preimage_inject [OF _ _ eq])
      (use t u g in \<open>auto simp: attestation_transcript_fields\<close>)
  then show ?thesis by (simp add: attestation_fields_def scalar_to_bytes_inject)
qed

lemma attestation_transcript_reduced:
  assumes "1 \<le> w" and "1 \<le> n" and "1 \<le> w'" and "1 \<le> n'"
    and "w mod CURVE_ORDER = w' mod CURVE_ORDER" and "n mod CURVE_ORDER = n' mod CURVE_ORDER"
  shows "attestation_transcript eid ps vk w n = attestation_transcript eid ps vk w' n'"
proof -
  have "scalar_to_bytes w = scalar_to_bytes w'" "scalar_to_bytes n = scalar_to_bytes n'"
    using assms(5,6) by (simp_all add: scalar_to_bytes_inject)
  then show ?thesis
    using assms(1-4) by (simp add: attestation_transcript_def append_scalar_def)
qed

lemma verify_attestation_sig_guard:
  "verify_attestation_sig S ek eid ps vk w n sig \<Longrightarrow>
     length eid = 32 \<and> length ps = 32 \<and> length vk = 48 \<and> 1 \<le> w \<and> 1 \<le> n"
  by (auto simp: verify_attestation_sig_def split: if_splits)

context crypto_suite
begin

lemma sign_verify_attestation:
  assumes "elig_sk mod CURVE_ORDER \<noteq> 0"
    and "length eid = 32" "length ps = 32" "length vk = 48" "1 \<le> w" "1 \<le> n"
  shows "\<exists>sig. sign_attestation S elig_sk (gx (g1 S) elig_sk) eid ps vk w n k d = Inr sig \<and>
    length sig = 80 \<and>
    verify_attestation_sig S (gcompress (g1 S) (gx (g1 S) elig_sk)) eid ps vk w n sig"
proof -
  obtain t where t: "attestation_transcript eid ps vk w n = Inr t"
    using attestation_transcript_Inr assms by blast
  let ?m = "keccak S (preimage t)"
  obtain R s where sig: "schnorr_sign S elig_sk (gx (g1 S) elig_sk) ?m k d = Inr (R, s)"
    "gsub (g1 S) R" "0 \<le> s" "s < CURVE_ORDER" "schnorr_verify S (gx (g1 S) elig_sk) ?m R s = Inr True"
    using schnorr_sign_verify [OF assms(1)] by blast
  obtain b where b: "schnorr_encode S R s = Inr b" "length b = 80" "schnorr_decode S b = Inr (R, s)"
    using schnorr_decode_encode [OF sig(2-4)] by blast
  have "sign_attestation S elig_sk (gx (g1 S) elig_sk) eid ps vk w n k d = Inr b"
    by (simp add: sign_attestation_def attestation_message_def t sig(1) b(1))
  moreover have "verify_attestation_sig S (gcompress (g1 S) (gx (g1 S) elig_sk)) eid ps vk w n b"
    using assms(2-6) by (simp add: verify_attestation_sig_def g1_codec b attestation_message_def t sig(5))
  ultimately show ?thesis using b(2) by blast
qed

end

section \<open>Properties\<close>

text \<open>
  A credential issued by the eligibility key for well-formed fields verifies under that key,
  for every weight and every re-vote nonce from 1 upwards.
\<close>

theorem attestation_issue_verifies:
  assumes "crypto_suite S" and "elig_sk mod CURVE_ORDER \<noteq> 0"
    and "length eid = 32" "length ps = 32" "length vk = 48" "1 \<le> w" "1 \<le> n"
  shows "\<exists>sig. sign_attestation S elig_sk (mul (g1 S) (ggen (g1 S)) elig_sk) eid ps vk w n k d = Inr sig \<and>
    length sig = 80 \<and>
    verify_attestation_sig S (gcompress (g1 S) (mul (g1 S) (ggen (g1 S)) elig_sk)) eid ps vk w n sig"
  using assms by (rule crypto_suite.sign_verify_attestation)

lemma attestation_issue_verifies_witness:
  "\<exists>sig. sign_attestation zq_suite 5 (mul (g1 zq_suite) (ggen (g1 zq_suite)) 5)
      (replicate 32 1) (replicate 32 2) (replicate 48 3) 7 1 None 9 = Inr sig \<and> length sig = 80 \<and>
    verify_attestation_sig zq_suite (gcompress (g1 zq_suite) (mul (g1 zq_suite) (ggen (g1 zq_suite)) 5))
      (replicate 32 1) (replicate 32 2) (replicate 48 3) 7 1 sig"
  by (rule attestation_issue_verifies [OF zq.crypto_suite_axioms]) (simp_all add: CURVE_ORDER_def)

text \<open>
  A credential does not pin its weight and nonce. The transcript appends them as scalars,
  reduced modulo the group order, so one signature verifies for every weight and nonce in the
  same residue classes.
\<close>

theorem attestation_weight_malleable:
  assumes "verify_attestation_sig S ek eid ps vk w n sig"
    and "1 \<le> w'" "1 \<le> n'" "w' mod CURVE_ORDER = w mod CURVE_ORDER" "n' mod CURVE_ORDER = n mod CURVE_ORDER"
  shows "verify_attestation_sig S ek eid ps vk w' n' sig"
proof -
  have "1 \<le> w" "1 \<le> n" using verify_attestation_sig_guard [OF assms(1)] by simp_all
  then have "attestation_transcript eid ps vk w' n' = attestation_transcript eid ps vk w n"
    using assms(2-5) by (intro attestation_transcript_reduced) auto
  then show ?thesis
    using assms(1-3) \<open>1 \<le> w\<close> \<open>1 \<le> n\<close> by (simp add: verify_attestation_sig_def attestation_message_def split: if_split_asm)
qed

lemma attestation_weight_malleable_witness:
  "\<exists>sig. sign_attestation zq_suite 5 (gx (g1 zq_suite) 5) (replicate 32 1) (replicate 32 2) (replicate 48 3) 7 1 None 9 = Inr sig \<and>
    verify_attestation_sig zq_suite (gcompress (g1 zq_suite) (gx (g1 zq_suite) 5))
      (replicate 32 1) (replicate 32 2) (replicate 48 3) (7 + CURVE_ORDER) 1 sig"
proof -
  obtain sig where "sign_attestation zq_suite 5 (gx (g1 zq_suite) 5) (replicate 32 1) (replicate 32 2) (replicate 48 3) 7 1 None 9 = Inr sig"
    "verify_attestation_sig zq_suite (gcompress (g1 zq_suite) (gx (g1 zq_suite) 5))
      (replicate 32 1) (replicate 32 2) (replicate 48 3) 7 1 sig"
    using zq.sign_verify_attestation [of 5 "replicate 32 1" "replicate 32 2" "replicate 48 3" 7 1 None 9]
    by (auto simp: CURVE_ORDER_def)
  then show ?thesis
    using attestation_weight_malleable [of zq_suite _ _ _ _ 7 1 sig "7 + CURVE_ORDER" 1] CURVE_ORDER_bounds
    by (auto intro: order.trans)
qed

end
