(* ===== verification/Elgamal.thy ===== *)
theory Elgamal
  imports Points
begin

text \<open>
  \<^verbatim>\<open>crypto/elgamal.py\<close>: exponential ElGamal in G2. Ciphertexts are pairs of points, added and
  scaled componentwise.
\<close>

type_synonym 'b ct = "'b \<times> 'b"

text \<open>\<open>d\<close> is the value drawn when no randomness \<open>r\<close> is given.\<close>

definition encrypt :: "('a, 'b) suite \<Rightarrow> 'b \<Rightarrow> int \<Rightarrow> int option \<Rightarrow> int \<Rightarrow> 'b \<times> 'b \<times> int" where
  "encrypt S mpk m r d =
     (let r = (case r of None \<Rightarrow> random_scalar d | Some r \<Rightarrow> r);
          c1 = mul (g2 S) (ggen (g2 S)) r;
          c2 = add (g2 S) (mul (g2 S) mpk r) (mul (g2 S) (ggen (g2 S)) m)
      in (c1, c2, r))"

definition add_ct :: "('a, 'b) suite \<Rightarrow> 'b ct \<Rightarrow> 'b ct \<Rightarrow> 'b ct" where
  "add_ct S a b = (add (g2 S) (fst a) (fst b), add (g2 S) (snd a) (snd b))"

definition scalar_mul_ct :: "('a, 'b) suite \<Rightarrow> int \<Rightarrow> 'b ct \<Rightarrow> 'b ct" where
  "scalar_mul_ct S k a = (mul (g2 S) (fst a) k, mul (g2 S) (snd a) k)"

definition sum_cts :: "('a, 'b) suite \<Rightarrow> 'b ct list \<Rightarrow> 'b ct" where
  "sum_cts S cts =
     foldl (\<lambda>(c1_sum, c2_sum) (c1, c2). (add (g2 S) c1_sum c1, add (g2 S) c2_sum c2))
       (gid (g2 S), gid (g2 S)) cts"

text \<open>
  The ciphertexts of \<open>m\<close> under \<open>mpk\<close> with randomness \<open>r\<close>, the value \<open>encrypt\<close> computes.
\<close>

definition Enc :: "('a, 'b) suite \<Rightarrow> 'b \<Rightarrow> int \<Rightarrow> int \<Rightarrow> 'b ct" where
  "Enc S mpk m r = (gx (g2 S) r, add (g2 S) (mul (g2 S) mpk r) (gx (g2 S) m))"

lemma encrypt_Enc: "encrypt S mpk m (Some r) d = (fst (Enc S mpk m r), snd (Enc S mpk m r), r)"
  by (simp add: encrypt_def Enc_def Let_def)

text \<open>Decryption with the joint secret key: \<open>C2 - x C1\<close>.\<close>

definition decrypt_point :: "('a, 'b) suite \<Rightarrow> int \<Rightarrow> 'b ct \<Rightarrow> 'b" where
  "decrypt_point S x c = add (g2 S) (snd c) (neg (g2 S) (mul (g2 S) (fst c) x))"

lemma sum_cts_add_ct: "sum_cts S cts = foldl (add_ct S) (gid (g2 S), gid (g2 S)) cts"
proof -
  have "(\<lambda>(c1_sum, c2_sum) (c1, c2). (add (g2 S) c1_sum c1, add (g2 S) c2_sum c2)) = add_ct S"
    by (auto simp: fun_eq_iff add_ct_def)
  then show ?thesis by (simp add: sum_cts_def)
qed

context crypto_suite
begin

lemma Enc_exponents: "Enc S (gx (g2 S) x) m r = (gx (g2 S) r, gx (g2 S) (x * r + m))"
  by (simp add: Enc_def W.exponent_simps)

lemma add_ct_Enc:
  "add_ct S (Enc S (gx (g2 S) x) m r) (Enc S (gx (g2 S) x) m' r') = Enc S (gx (g2 S) x) (m + m') (r + r')"
  by (simp add: add_ct_def Enc_exponents W.gx_add algebra_simps)

lemma scalar_mul_ct_Enc:
  "scalar_mul_ct S k (Enc S (gx (g2 S) x) m r) = Enc S (gx (g2 S) x) (k * m) (k * r)"
  by (simp add: scalar_mul_ct_def Enc_exponents W.gx_mul algebra_simps)

lemma Enc_zero: "Enc S (gx (g2 S) x) 0 0 = (gid (g2 S), gid (g2 S))"
  by (simp add: Enc_exponents W.mul_zero)

lemma sum_cts_acc:
  "foldl (add_ct S) (Enc S (gx (g2 S) x) m r) (map (\<lambda>(m, r). Enc S (gx (g2 S) x) m r) mrs) =
    Enc S (gx (g2 S) x) (m + sum_list (map fst mrs)) (r + sum_list (map snd mrs))"
  by (induction mrs arbitrary: m r) (auto simp: add_ct_Enc add.assoc)

lemma sum_cts_Enc:
  "sum_cts S (map (\<lambda>(m, r). Enc S (gx (g2 S) x) m r) mrs) =
     Enc S (gx (g2 S) x) (sum_list (map fst mrs)) (sum_list (map snd mrs))"
  using sum_cts_acc [of x 0 0 mrs] by (simp add: sum_cts_add_ct Enc_zero)

lemma decrypt_Enc: "decrypt_point S x (Enc S (gx (g2 S) x) m r) = gx (g2 S) m"
  by (simp add: decrypt_point_def Enc_exponents W.exponent_simps algebra_simps)

end

text \<open>
  A weighted homomorphic sum of encryptions decrypts to the weighted sum of the plaintexts.
\<close>

lemma weighted_sum_decrypts:
  assumes "crypto_suite S"
  shows "decrypt_point S x
      (sum_cts S (map (\<lambda>(w, m, r). scalar_mul_ct S w (Enc S (gx (g2 S) x) m r)) ballots)) =
    gx (g2 S) (\<Sum>(w, m, r) \<leftarrow> ballots. w * m)"
proof -
  note sc = crypto_suite.scalar_mul_ct_Enc [OF assms]
  have "map (\<lambda>(w, m, r). scalar_mul_ct S w (Enc S (gx (g2 S) x) m r)) ballots =
      map (\<lambda>(m, r). Enc S (gx (g2 S) x) m r) (map (\<lambda>(w, m, r). (w * m, w * r)) ballots)"
    by (simp add: sc split_def)
  then show ?thesis
    by (simp only: crypto_suite.sum_cts_Enc [OF assms] crypto_suite.decrypt_Enc [OF assms])
      (simp add: split_def comp_def)
qed

end
