(* ===== verification/Proofs.thy ===== *)
theory Proofs
  imports Schnorr Elgamal
begin

text \<open>
  \<^verbatim>\<open>crypto/proofs.py\<close>: the Fiat-Shamir sigma proofs. Prover and verifier take the shared
  transcript and return it extended, so that consecutive proofs over one transcript compose.
  Completeness (an honest proof is accepted and leaves prover and verifier with the same
  transcript) and special soundness (two accepting answers to different challenges for the same
  commitments determine a witness) are proved for the DLEQ and the OR proof.
\<close>

section \<open>Decryption transcript and the DLEQ wire form\<close>

definition make_decrypt_transcript :: "bytes \<Rightarrow> int \<Rightarrow> transcript result" where
  "make_decrypt_transcript election_id candidate_index =
     (if length election_id \<noteq> 32 then Inl ValueError
      else if \<not> (0 \<le> candidate_index \<and> candidate_index < 2 ^ 16) then Inl ValueError
      else
        ebind (tr_append (Transcript_init ONCHAIN_DECRYPT_LABEL) ''electionId'' election_id) (\<lambda>t.
        ebind (u16be candidate_index) (\<lambda>c.
        tr_append t ''candidate'' c)))"

definition encode_dleq :: "int \<Rightarrow> int \<Rightarrow> bytes" where
  "encode_dleq e z = scalar_to_bytes e @ scalar_to_bytes z"

definition decode_dleq :: "bytes \<Rightarrow> (int \<times> int) result" where
  "decode_dleq b =
     (if length b \<noteq> DLEQ_BYTES then Inl ValueError
      else ebind (scalar_from_bytes (take 32 b)) (\<lambda>e.
           ebind (scalar_from_bytes (drop 32 b)) (\<lambda>z. Inr (e, z))))"

section \<open>DLEQ on G2\<close>

definition bind_statement_dleq ::
    "('a, 'b) suite \<Rightarrow> transcript \<Rightarrow> 'b \<Rightarrow> 'b \<Rightarrow> 'b \<Rightarrow> 'b \<Rightarrow> transcript result" where
  "bind_statement_dleq S t base1 point1 base2 point2 =
     ebind (append_point S t ''dleq:base1'' base1) (\<lambda>t.
     ebind (append_point S t ''dleq:base2'' base2) (\<lambda>t.
     ebind (append_point S t ''dleq:point1'' point1) (\<lambda>t.
     append_point S t ''dleq:point2'' point2)))"

text \<open>The part prover and verifier share once the two commitments are known.\<close>

definition dleq_challenge ::
    "('a, 'b) suite \<Rightarrow> transcript \<Rightarrow> 'b \<Rightarrow> 'b \<Rightarrow> 'b \<Rightarrow> 'b \<Rightarrow> 'b \<Rightarrow> 'b \<Rightarrow> (int \<times> transcript) result" where
  "dleq_challenge S t base1 point1 base2 point2 a1 a2 =
     ebind (bind_statement_dleq S t base1 point1 base2 point2) (\<lambda>t.
     ebind (append_point S t ''dleq:a1'' a1) (\<lambda>t.
     ebind (append_point S t ''dleq:a2'' a2) (\<lambda>t.
     challenge S t ''dleq:e'')))"

definition prove_dleq ::
    "('a, 'b) suite \<Rightarrow> 'b \<Rightarrow> 'b \<Rightarrow> 'b \<Rightarrow> 'b \<Rightarrow> int \<Rightarrow> transcript \<Rightarrow> int option \<Rightarrow> int \<Rightarrow>
     ((int \<times> int) \<times> transcript) result" where
  "prove_dleq S base1 point1 base2 point2 x t w d =
     (let w = (case w of None \<Rightarrow> random_scalar d | Some w \<Rightarrow> w);
          a1 = mul (g2 S) base1 w;
          a2 = mul (g2 S) base2 w
      in ebind (dleq_challenge S t base1 point1 base2 point2 a1 a2) (\<lambda>(e, t).
         Inr ((e, (w + x * e) mod CURVE_ORDER), t)))"

text \<open>The commitment the verifier recomputes from the answer: \<open>z base - e point\<close>.\<close>

definition dleq_commitment :: "('a, 'b) suite \<Rightarrow> 'b \<Rightarrow> 'b \<Rightarrow> int \<Rightarrow> int \<Rightarrow> 'b" where
  "dleq_commitment S base point e z =
     add (g2 S) (mul (g2 S) base z) (mul (g2 S) point ((- e) mod CURVE_ORDER))"

definition verify_dleq ::
    "('a, 'b) suite \<Rightarrow> 'b \<Rightarrow> 'b \<Rightarrow> 'b \<Rightarrow> 'b \<Rightarrow> int \<Rightarrow> int \<Rightarrow> transcript \<Rightarrow> (bool \<times> transcript) result" where
  "verify_dleq S base1 point1 base2 point2 e z t =
     ebind (dleq_challenge S t base1 point1 base2 point2
              (dleq_commitment S base1 point1 e z) (dleq_commitment S base2 point2 e z)) (\<lambda>(e', t).
     Inr (e = e', t))"

section \<open>Decryption-share DLEQ\<close>

definition bind_decryption_share ::
    "('a, 'b) suite \<Rightarrow> transcript \<Rightarrow> 'b \<Rightarrow> 'b \<Rightarrow> 'b \<Rightarrow> int \<Rightarrow> transcript result" where
  "bind_decryption_share S t C1 C2 mpk_k keyper_index =
     ebind (append_point S t ''dec:C1'' C1) (\<lambda>t.
     ebind (append_point S t ''dec:C2'' C2) (\<lambda>t.
     ebind (append_point S t ''dec:mpk_k'' mpk_k) (\<lambda>t.
     ebind (u16be keyper_index) (\<lambda>k.
     tr_append t ''dec:keyperIndex'' k))))"

definition prove_decryption_share ::
    "('a, 'b) suite \<Rightarrow> transcript \<Rightarrow> 'b \<Rightarrow> 'b \<Rightarrow> 'b \<Rightarrow> 'b \<Rightarrow> int \<Rightarrow> int \<Rightarrow> int \<Rightarrow>
     ((int \<times> int) \<times> transcript) result" where
  "prove_decryption_share S t C1 C2 mpk_k sigma msk_k keyper_index d =
     ebind (bind_decryption_share S t C1 C2 mpk_k keyper_index) (\<lambda>t.
     prove_dleq S (ggen (g2 S)) mpk_k C1 sigma msk_k t None d)"

definition verify_decryption_share ::
    "('a, 'b) suite \<Rightarrow> transcript \<Rightarrow> 'b \<Rightarrow> 'b \<Rightarrow> 'b \<Rightarrow> 'b \<Rightarrow> int \<Rightarrow> int \<Rightarrow> int \<Rightarrow> (bool \<times> transcript) result" where
  "verify_decryption_share S t C1 C2 mpk_k sigma e z keyper_index =
     ebind (bind_decryption_share S t C1 C2 mpk_k keyper_index) (\<lambda>t.
     verify_dleq S (ggen (g2 S)) mpk_k C1 sigma e z t)"

section \<open>The OR proof\<close>

record 'b ORBranch =
  br_a1 :: 'b
  br_a2 :: 'b
  br_e :: int
  br_z :: int

definition idx_tag :: "string \<Rightarrow> nat \<Rightarrow> string" where
  "idx_tag s i = s @ ''['' @ show_nat i @ '']''"

definition bind_statement_or ::
    "('a, 'b) suite \<Rightarrow> transcript \<Rightarrow> 'b \<Rightarrow> 'b \<Rightarrow> 'b \<Rightarrow> int list \<Rightarrow> transcript result" where
  "bind_statement_or S t c1 c2 mpk candidates =
     ebind (append_point S t ''or:P2'' (ggen (g2 S))) (\<lambda>t.
     ebind (append_point S t ''or:mpk'' mpk) (\<lambda>t.
     ebind (append_point S t ''or:C1'' c1) (\<lambda>t.
     ebind (append_point S t ''or:C2'' c2) (\<lambda>t.
     ebind (int_to_bytes (int (length candidates)) 4) (\<lambda>n.
     ebind (tr_append t ''or:|M|'' n) (\<lambda>t.
     efold (\<lambda>(i, m) t. append_scalar t (idx_tag ''or:m'' i) (m mod CURVE_ORDER))
       (enumerate 0 candidates) t))))))"

definition or_challenge ::
    "('a, 'b) suite \<Rightarrow> transcript \<Rightarrow> 'b \<Rightarrow> 'b \<Rightarrow> 'b \<Rightarrow> int list \<Rightarrow> ('b \<times> 'b) list \<Rightarrow>
     (int \<times> transcript) result" where
  "or_challenge S t c1 c2 mpk candidates commitments =
     ebind (bind_statement_or S t c1 c2 mpk candidates) (\<lambda>t.
     ebind (efold (\<lambda>(i, (a1, a2)) t.
              ebind (append_point S t (idx_tag ''or:a1'' i) a1) (\<lambda>t.
              append_point S t (idx_tag ''or:a2'' i) a2)) (enumerate 0 commitments) t) (\<lambda>t.
     challenge S t ''or:e''))"

text \<open>\<open>D\<^sub>i = C2 - m\<^sub>i P2\<close>, shared by prover and verifier.\<close>

definition or_target :: "('a, 'b) suite \<Rightarrow> 'b \<Rightarrow> int \<Rightarrow> 'b" where
  "or_target S c2 m =
     add (g2 S) c2 (mul (g2 S) (ggen (g2 S)) ((- (m mod CURVE_ORDER)) mod CURVE_ORDER))"

definition or_branch ::
    "('a, 'b) suite \<Rightarrow> 'b \<Rightarrow> 'b \<Rightarrow> 'b \<Rightarrow> nat \<Rightarrow> int \<Rightarrow> (int \<times> int) \<Rightarrow> nat \<Rightarrow> int \<Rightarrow> 'b ORBranch" where
  "or_branch S c1 c2 mpk true_index real_w sim i m =
     (if i = true_index
      then \<lparr>br_a1 = mul (g2 S) (ggen (g2 S)) real_w, br_a2 = mul (g2 S) mpk real_w, br_e = 0, br_z = 0\<rparr>
      else
        let ei = fst sim mod CURVE_ORDER; zi = snd sim mod CURVE_ORDER; Di = or_target S c2 m
        in \<lparr>br_a1 = add (g2 S) (mul (g2 S) (ggen (g2 S)) zi) (mul (g2 S) c1 ((- ei) mod CURVE_ORDER)),
            br_a2 = add (g2 S) (mul (g2 S) mpk zi) (mul (g2 S) Di ((- ei) mod CURVE_ORDER)),
            br_e = ei, br_z = zi\<rparr>)"

text \<open>
  \<open>rnd\<close> gives the values drawn by \<open>random_scalar\<close>: draw 0 for the real commitment, draws
  \<open>2i + 1\<close> and \<open>2i + 2\<close> for a simulated branch that is not pinned.
\<close>

definition or_sim :: "(int \<times> int) option list \<Rightarrow> (nat \<Rightarrow> int) \<Rightarrow> nat \<Rightarrow> int \<times> int" where
  "or_sim simulated rnd i =
     (case simulated ! i of
        Some s \<Rightarrow> s
      | None \<Rightarrow> (random_scalar (rnd (2 * i + 1)), random_scalar (rnd (2 * i + 2))))"

definition prove_or ::
    "('a, 'b) suite \<Rightarrow> 'b \<Rightarrow> 'b \<Rightarrow> 'b \<Rightarrow> int list \<Rightarrow> int \<Rightarrow> int \<Rightarrow> transcript \<Rightarrow>
     int option \<Rightarrow> (int \<times> int) option list option \<Rightarrow> (nat \<Rightarrow> int) \<Rightarrow>
     ('b ORBranch list \<times> transcript) result" where
  "prove_or S c1 c2 mpk candidates r true_index t w simulated rnd =
     (let n = length candidates in
      if n = 0 then Inl ValueError
      else if \<not> (0 \<le> true_index \<and> true_index < int n) then Inl ValueError
      else let sims = (case simulated of None \<Rightarrow> replicate n None | Some s \<Rightarrow> s) in
      if length sims \<noteq> n then Inl ValueError
      else
        let k = nat true_index;
            real_w = (case w of Some w \<Rightarrow> w | None \<Rightarrow> random_scalar (rnd 0));
            branches = map (\<lambda>(i, m). or_branch S c1 c2 mpk k real_w (or_sim sims rnd i) i m)
                         (enumerate 0 candidates)
        in ebind (or_challenge S t c1 c2 mpk candidates (map (\<lambda>b. (br_a1 b, br_a2 b)) branches))
             (\<lambda>(e_total, t).
             let sim_sum = (\<Sum>i \<leftarrow> filter (\<lambda>i. i \<noteq> k) [0..<n]. br_e (branches ! i));
                 e_real = (e_total - sim_sum) mod CURVE_ORDER;
                 z_real = (real_w + r * e_real) mod CURVE_ORDER
             in Inr (branches[k := (branches ! k)\<lparr>br_e := e_real, br_z := z_real\<rparr>], t)))"

definition or_branch_ok :: "('a, 'b) suite \<Rightarrow> 'b \<Rightarrow> 'b \<Rightarrow> 'b \<Rightarrow> int \<Rightarrow> 'b ORBranch \<Rightarrow> bool" where
  "or_branch_ok S c1 c2 mpk m br \<longleftrightarrow>
     mul (g2 S) (ggen (g2 S)) (br_z br) = add (g2 S) (br_a1 br) (mul (g2 S) c1 (br_e br)) \<and>
     mul (g2 S) mpk (br_z br) = add (g2 S) (br_a2 br) (mul (g2 S) (or_target S c2 m) (br_e br))"

definition verify_or ::
    "('a, 'b) suite \<Rightarrow> 'b \<Rightarrow> 'b \<Rightarrow> 'b \<Rightarrow> int list \<Rightarrow> 'b ORBranch list \<Rightarrow> transcript \<Rightarrow>
     (bool \<times> transcript) result" where
  "verify_or S c1 c2 mpk candidates branches t =
     (if length branches \<noteq> length candidates then Inr (False, t)
      else if \<not> list_all2 (or_branch_ok S c1 c2 mpk) candidates branches then Inr (False, t)
      else ebind (or_challenge S t c1 c2 mpk candidates (map (\<lambda>b. (br_a1 b, br_a2 b)) branches))
             (\<lambda>(e, t). Inr (sum_list (map br_e branches) mod CURVE_ORDER = e, t)))"

section \<open>Budget proofs\<close>

datatype budget_mode = Exact | AtMost | OtherMode string

definition bind_budget :: "transcript \<Rightarrow> int \<Rightarrow> budget_mode \<Rightarrow> transcript result" where
  "bind_budget t B mode =
     (case mode of
        OtherMode _ \<Rightarrow> Inl ValueError
      | _ \<Rightarrow> ebind (tr_append t ''budget:mode'' (if mode = Exact then [0] else [1])) (\<lambda>t.
             append_scalar t ''budget:B'' (B mod CURVE_ORDER)))"

definition budget_dleq_point2 :: "('a, 'b) suite \<Rightarrow> 'b \<Rightarrow> int \<Rightarrow> 'b" where
  "budget_dleq_point2 S c2_sum B =
     add (g2 S) c2_sum (mul (g2 S) (ggen (g2 S)) ((- (B mod CURVE_ORDER)) mod CURVE_ORDER))"

definition prove_budget_exact ::
    "('a, 'b) suite \<Rightarrow> 'b \<Rightarrow> 'b \<Rightarrow> 'b \<Rightarrow> int \<Rightarrow> int \<Rightarrow> transcript \<Rightarrow> int option \<Rightarrow> int \<Rightarrow>
     ((int \<times> int) \<times> transcript) result" where
  "prove_budget_exact S c1_sum c2_sum mpk B r_sum t w d =
     ebind (bind_budget t B Exact) (\<lambda>t.
     prove_dleq S (ggen (g2 S)) c1_sum mpk (budget_dleq_point2 S c2_sum B) r_sum t w d)"

definition verify_budget_exact ::
    "('a, 'b) suite \<Rightarrow> 'b \<Rightarrow> 'b \<Rightarrow> 'b \<Rightarrow> int \<Rightarrow> int \<Rightarrow> int \<Rightarrow> transcript \<Rightarrow> (bool \<times> transcript) result" where
  "verify_budget_exact S c1_sum c2_sum mpk B e z t =
     ebind (bind_budget t B Exact) (\<lambda>t.
     verify_dleq S (ggen (g2 S)) c1_sum mpk (budget_dleq_point2 S c2_sum B) e z t)"

text \<open>\<open>[0..B]\<close> is \<open>list(range(B + 1))\<close>, empty for a negative bound.\<close>

definition prove_budget_at_most ::
    "('a, 'b) suite \<Rightarrow> 'b \<Rightarrow> 'b \<Rightarrow> 'b \<Rightarrow> int \<Rightarrow> int \<Rightarrow> int \<Rightarrow> transcript \<Rightarrow>
     int option \<Rightarrow> (int \<times> int) option list option \<Rightarrow> (nat \<Rightarrow> int) \<Rightarrow>
     ('b ORBranch list \<times> transcript) result" where
  "prove_budget_at_most S c1_sum c2_sum mpk B r_sum v_sum t w simulated rnd =
     ebind (bind_budget t B AtMost) (\<lambda>t.
     prove_or S c1_sum c2_sum mpk [0..B] r_sum v_sum t w simulated rnd)"

definition verify_budget_at_most ::
    "('a, 'b) suite \<Rightarrow> 'b \<Rightarrow> 'b \<Rightarrow> 'b \<Rightarrow> int \<Rightarrow> 'b ORBranch list \<Rightarrow> transcript \<Rightarrow> (bool \<times> transcript) result" where
  "verify_budget_at_most S c1_sum c2_sum mpk B branches t =
     ebind (bind_budget t B AtMost) (\<lambda>t.
     verify_or S c1_sum c2_sum mpk [0..B] branches t)"

section \<open>Completeness and special soundness of DLEQ\<close>

lemma dleq_roundtrip: "decode_dleq (encode_dleq e z) = Inr (e mod CURVE_ORDER, z mod CURVE_ORDER)"
  by (simp add: decode_dleq_def encode_dleq_def DLEQ_BYTES_def scalar_roundtrip)

lemma decode_dleq_canonical: "decode_dleq b = Inr (e, z) \<Longrightarrow> encode_dleq e z = b"
  by (auto simp: decode_dleq_def encode_dleq_def dest!: scalar_canonical split: if_splits)

lemma mod_eq_mult_inverse:
  fixes a b d u i q :: int
  assumes "a * d mod q = b * u mod q" and "d * i mod q = 1 mod q"
  shows "a mod q = b * (u * i) mod q"
proof -
  have "a mod q = a * (d * i) mod q"
    using assms(2) by (metis mod_mult_right_eq mult.right_neutral)
  also have "\<dots> = (a * d mod q) * i mod q"
    by (simp add: mod_mult_left_eq mult.assoc)
  also have "\<dots> = b * (u * i) mod q"
    unfolding assms(1) by (simp add: mod_mult_left_eq mult.assoc)
  finally show ?thesis .
qed

context crypto_suite
begin

lemma dleq_challenge_Inr:
  assumes "gsub (g2 S) b1" "gsub (g2 S) p1" "gsub (g2 S) b2" "gsub (g2 S) p2" "gsub (g2 S) a1" "gsub (g2 S) a2"
  shows "\<exists>e t'. dleq_challenge S t b1 p1 b2 p2 a1 a2 = Inr (e, t') \<and> 0 \<le> e \<and> e < CURVE_ORDER"
  using assms challenge_Inr [of "''dleq:e''" S]
  by (simp add: dleq_challenge_def bind_statement_dleq_def append_point_Inr)

lemma dleq_commitment_gx:
  "dleq_commitment S (gx (g2 S) b) (gx (g2 S) p) e z = gx (g2 S) (b * z - p * e)"
  by (simp add: dleq_commitment_def W.mul_mod W.gx_mul W.gx_add)

lemma dleq_commitment_honest:
  assumes "gsub (g2 S) base"
  shows "dleq_commitment S base (mul (g2 S) base x) e ((w + x * e) mod CURVE_ORDER) = mul (g2 S) base w"
proof -
  obtain b where b: "base = gx (g2 S) b" using W.gx_cases [OF assms] by blast
  have "dleq_commitment S base (mul (g2 S) base x) e ((w + x * e) mod CURVE_ORDER) =
      gx (g2 S) (b * ((w + x * e) mod CURVE_ORDER) - b * x * e)"
    by (simp add: b W.gx_mul dleq_commitment_gx)
  also have "\<dots> = gx (g2 S) (b * w)"
    unfolding W.gx_eq_iff by (metis (no_types) add_diff_cancel_right' distrib_left mod_diff_left_eq mod_mult_right_eq mult.assoc)
  finally show ?thesis by (simp add: b W.gx_mul)
qed

lemma dleq_complete:
  assumes "gsub (g2 S) base1" "gsub (g2 S) base2"
  shows "\<exists>e z t'. prove_dleq S base1 (mul (g2 S) base1 x) base2 (mul (g2 S) base2 x) x t w d = Inr ((e, z), t') \<and>
    0 \<le> e \<and> e < CURVE_ORDER \<and> 0 \<le> z \<and> z < CURVE_ORDER \<and>
    verify_dleq S base1 (mul (g2 S) base1 x) base2 (mul (g2 S) base2 x) e z t = Inr (True, t')"
proof -
  define w' where "w' = (case w of None \<Rightarrow> random_scalar d | Some w \<Rightarrow> w)"
  obtain e t' where e: "dleq_challenge S t base1 (mul (g2 S) base1 x) base2 (mul (g2 S) base2 x)
      (mul (g2 S) base1 w') (mul (g2 S) base2 w') = Inr (e, t')" "0 \<le> e" "e < CURVE_ORDER"
    using dleq_challenge_Inr assms by (metis W.mul_sub)
  then have "prove_dleq S base1 (mul (g2 S) base1 x) base2 (mul (g2 S) base2 x) x t w d =
      Inr ((e, (w' + x * e) mod CURVE_ORDER), t')"
    by (simp add: prove_dleq_def w'_def Let_def)
  moreover have "verify_dleq S base1 (mul (g2 S) base1 x) base2 (mul (g2 S) base2 x) e
      ((w' + x * e) mod CURVE_ORDER) t = Inr (True, t')"
    by (simp add: verify_dleq_def dleq_commitment_honest assms e)
  ultimately show ?thesis using e by auto
qed

lemma dleq_special_sound:
  assumes sub: "gsub (g2 S) base1" "gsub (g2 S) point1" "gsub (g2 S) base2" "gsub (g2 S) point2"
    and same1: "dleq_commitment S base1 point1 e z = dleq_commitment S base1 point1 e' z'"
    and same2: "dleq_commitment S base2 point2 e z = dleq_commitment S base2 point2 e' z'"
    and diff: "(e - e') mod CURVE_ORDER \<noteq> 0"
  shows "\<exists>x. point1 = mul (g2 S) base1 x \<and> point2 = mul (g2 S) base2 x"
proof -
  obtain i where i: "(e - e') * i mod CURVE_ORDER = 1 mod CURVE_ORDER"
    using CURVE_ORDER_inverse [OF diff] by auto
  have witness: "point = mul (g2 S) base ((z - z') * i)"
    if s: "gsub (g2 S) base" "gsub (g2 S) point"
      and c: "dleq_commitment S base point e z = dleq_commitment S base point e' z'" for base point
  proof -
    obtain b p where bp: "base = gx (g2 S) b" "point = gx (g2 S) p"
      using W.gx_cases [OF s(1)] W.gx_cases [OF s(2)] by metis
    from c have "CURVE_ORDER dvd (b * z - p * e) - (b * z' - p * e')"
      by (simp add: bp dleq_commitment_gx W.gx_eq_iff mod_eq_dvd_iff)
    then have "CURVE_ORDER dvd p * (e - e') - b * (z - z')"
      by (subst dvd_minus_iff [symmetric]) (simp add: algebra_simps)
    then have "p mod CURVE_ORDER = b * ((z - z') * i) mod CURVE_ORDER"
      using mod_eq_mult_inverse [OF _ i] by (simp add: mod_eq_dvd_iff)
    then show ?thesis by (simp add: bp W.gx_mul W.gx_eq_iff)
  qed
  show ?thesis using witness sub same1 same2 by blast
qed

end

section \<open>Completeness and special soundness of the OR proof\<close>

lemma length_idx_tag: "length (idx_tag s i) \<le> length s + i + 3"
  using length_show_nat [of i] by (simp add: idx_tag_def)

context crypto_suite
begin

lemma or_target_gx: "or_target S (gx (g2 S) c) m = gx (g2 S) (c - m)"
  by (simp add: or_target_def W.mul_mod W.gx_add W.gx_eq_iff mod_diff_right_eq mod_add_right_eq)

lemma or_branch_ok_gx:
  "or_branch_ok S (gx (g2 S) r) (gx (g2 S) c) (gx (g2 S) x) m
      \<lparr>br_a1 = gx (g2 S) \<alpha>, br_a2 = gx (g2 S) \<beta>, br_e = e, br_z = z\<rparr> \<longleftrightarrow>
    z mod CURVE_ORDER = (\<alpha> + r * e) mod CURVE_ORDER \<and>
    x * z mod CURVE_ORDER = (\<beta> + (c - m) * e) mod CURVE_ORDER"
  by (simp add: or_branch_ok_def or_target_gx W.gx_mul W.gx_add W.gx_eq_iff)

lemma or_challenge_Inr:
  assumes sub: "gsub (g2 S) c1" "gsub (g2 S) c2" "gsub (g2 S) mpk"
    and com: "\<forall>(a1, a2) \<in> set cs. gsub (g2 S) a1 \<and> gsub (g2 S) a2"
    and len: "length ms < 2 ^ 31" "length cs < 2 ^ 31"
  shows "\<exists>e t'. or_challenge S t c1 c2 mpk ms cs = Inr (e, t') \<and> 0 \<le> e \<and> e < CURVE_ORDER"
proof -
  have "\<exists>t'. bind_statement_or S t c1 c2 mpk ms = Inr t'"
  proof -
    have "append_scalar t (idx_tag ''or:m'' i) s = Inr (t @ frame (idx_tag ''or:m'' i) (scalar_to_bytes s))"
      if "i < length ms" for t i s
      using length_idx_tag [of "''or:m''" i] that len by (intro append_scalar_Inr) auto
    then have "\<exists>t'. efold (\<lambda>(i, m) t. append_scalar t (idx_tag ''or:m'' i) (m mod CURVE_ORDER))
        (enumerate 0 ms) t = Inr t'" for t
      by (intro efold_total) (auto simp: in_enumerate_iff)
    then show ?thesis
      using sub len by (simp add: bind_statement_or_def append_point_Inr tr_append_Inr)
  qed
  then obtain u where u: "bind_statement_or S t c1 c2 mpk ms = Inr u" by blast
  have "\<exists>t'. efold (\<lambda>(i, (a1, a2)) t. ebind (append_point S t (idx_tag ''or:a1'' i) a1)
      (\<lambda>t. append_point S t (idx_tag ''or:a2'' i) a2)) (enumerate 0 cs) u = Inr t'"
  proof (rule efold_total)
    fix x t
    assume x: "x \<in> set (enumerate 0 cs)"
    obtain i a1 a2 where ia: "x = (i, (a1, a2))" by (cases x) auto
    with x have i: "i < length cs" and "(a1, a2) \<in> set cs" by (auto simp: in_enumerate_iff)
    with com have "gsub (g2 S) a1" "gsub (g2 S) a2" by auto
    then show "\<exists>s'. (case x of (i, (a1, a2)) \<Rightarrow> \<lambda>t. ebind (append_point S t (idx_tag ''or:a1'' i) a1)
      (\<lambda>t. append_point S t (idx_tag ''or:a2'' i) a2)) t = Inr s'"
      using length_idx_tag [of "''or:a1''" i] length_idx_tag [of "''or:a2''" i] i len
      by (simp add: ia append_point_Inr)
  qed
  then show ?thesis
    using u challenge_Inr [of "''or:e''" S] by (auto simp: or_challenge_def)
qed

lemma or_branch_gx:
  "or_branch S (gx (g2 S) r) (gx (g2 S) c) (gx (g2 S) x) k w sim i m =
     (if i = k then \<lparr>br_a1 = gx (g2 S) w, br_a2 = gx (g2 S) (x * w), br_e = 0, br_z = 0\<rparr>
      else \<lparr>br_a1 = gx (g2 S) (snd sim mod CURVE_ORDER - r * (fst sim mod CURVE_ORDER)),
            br_a2 = gx (g2 S) (x * (snd sim mod CURVE_ORDER) - (c - m) * (fst sim mod CURVE_ORDER)),
            br_e = fst sim mod CURVE_ORDER, br_z = snd sim mod CURVE_ORDER\<rparr>)"
  by (simp only: or_branch_def or_target_gx Let_def W.mul_mod W.gx_mul W.gx_add) simp

lemma or_simulated_ok:
  "i \<noteq> k \<Longrightarrow> or_branch_ok S (gx (g2 S) r) (gx (g2 S) c) (gx (g2 S) x) m
     (or_branch S (gx (g2 S) r) (gx (g2 S) c) (gx (g2 S) x) k w sim i m)"
  by (simp add: or_branch_gx or_branch_ok_gx)

lemma or_real_ok:
  "or_branch_ok S (gx (g2 S) r) (gx (g2 S) (x * r + m)) (gx (g2 S) x) m
     ((or_branch S (gx (g2 S) r) (gx (g2 S) (x * r + m)) (gx (g2 S) x) k w sim k m)
        \<lparr>br_e := e, br_z := (w + r * e) mod CURVE_ORDER\<rparr>)"
proof -
  have "x * ((w + r * e) mod CURVE_ORDER) mod CURVE_ORDER = (x * w + x * r * e) mod CURVE_ORDER"
    by (metis distrib_left mod_mult_right_eq mult.assoc)
  then show ?thesis by (simp add: or_branch_gx or_branch_ok_gx)
qed

text \<open>An honest OR proof over a ciphertext of one of the candidates is accepted.\<close>

lemma or_complete:
  assumes mpk: "gsub (g2 S) mpk" and k: "0 \<le> k" "k < int (length ms)" and len: "length ms < 2 ^ 31"
    and ct: "(c1, c2) = Enc S mpk (ms ! nat k) r"
    and sims: "case simulated of None \<Rightarrow> True | Some s \<Rightarrow> length s = length ms"
  shows "\<exists>bs t'. prove_or S c1 c2 mpk ms r k t w simulated rnd = Inr (bs, t') \<and>
    length bs = length ms \<and>
    (\<forall>b \<in> set bs. gsub (g2 S) (br_a1 b) \<and> gsub (g2 S) (br_a2 b) \<and>
       0 \<le> br_e b \<and> br_e b < CURVE_ORDER \<and> 0 \<le> br_z b \<and> br_z b < CURVE_ORDER) \<and>
    verify_or S c1 c2 mpk ms bs t = Inr (True, t')"
proof -
  obtain x where x: "mpk = gx (g2 S) x" using W.gx_cases [OF mpk] by blast
  have c: "c1 = gx (g2 S) r" "c2 = gx (g2 S) (x * r + ms ! nat k)"
    using ct by (auto simp: x Enc_exponents)
  define n where "n = length ms"
  define sm where "sm = (case simulated of None \<Rightarrow> replicate n None | Some s \<Rightarrow> s)"
  define w' where "w' = (case w of Some w \<Rightarrow> w | None \<Rightarrow> random_scalar (rnd 0))"
  define bs where "bs = map (\<lambda>(i, m). or_branch S c1 c2 mpk (nat k) w' (or_sim sm rnd i) i m) (enumerate 0 ms)"
  have bs_len: "length bs = n" by (simp add: bs_def n_def)
  have kn: "nat k < n" using k by (simp add: n_def)
  have bs_nth: "bs ! i = or_branch S c1 c2 mpk (nat k) w' (or_sim sm rnd i) i (ms ! i)" if "i < n" for i
    using that by (simp add: bs_def n_def nth_enumerate_eq)
  have bs_ok: "gsub (g2 S) (br_a1 b) \<and> gsub (g2 S) (br_a2 b) \<and> 0 \<le> br_e b \<and> br_e b < CURVE_ORDER \<and>
      0 \<le> br_z b \<and> br_z b < CURVE_ORDER" if "b \<in> set bs" for b
    using that by (auto simp: bs_def x c or_branch_gx)
  obtain e t' where e: "or_challenge S t c1 c2 mpk ms (map (\<lambda>b. (br_a1 b, br_a2 b)) bs) = Inr (e, t')"
    "0 \<le> e" "e < CURVE_ORDER"
    using or_challenge_Inr [of c1 c2 mpk "map (\<lambda>b. (br_a1 b, br_a2 b)) bs" ms t] bs_ok len bs_len
    by (force simp: x c n_def)
  define er where "er = (e - (\<Sum>i \<leftarrow> filter (\<lambda>i. i \<noteq> nat k) [0..<n]. br_e (bs ! i))) mod CURVE_ORDER"
  define b' where "b' = (bs ! nat k)\<lparr>br_e := er, br_z := (w' + r * er) mod CURVE_ORDER\<rparr>"
  have sm_len: "length sm = n" using sims by (auto simp: sm_def n_def split: option.splits)
  have pr: "prove_or S c1 c2 mpk ms r k t w simulated rnd = Inr (bs[nat k := b'], t')"
    using k kn sm_len e(1)
    by (simp add: prove_or_def Let_def n_def [symmetric] sm_def [symmetric] w'_def [symmetric]
        bs_def [symmetric] b'_def er_def del: map_map)
  have com: "map (\<lambda>b. (br_a1 b, br_a2 b)) (bs[nat k := b']) = map (\<lambda>b. (br_a1 b, br_a2 b)) bs"
    using kn bs_len by (simp add: map_update b'_def list_update_same_conv)
  have all: "list_all2 (or_branch_ok S c1 c2 mpk) ms (bs[nat k := b'])"
  proof (rule list_all2_all_nthI)
    fix i
    assume i: "i < length ms"
    show "or_branch_ok S c1 c2 mpk (ms ! i) (bs[nat k := b'] ! i)"
    proof (cases "i = nat k")
      case True
      then show ?thesis
        using kn bs_len or_real_ok by (simp add: b'_def bs_nth x c)
    next
      case False
      then show ?thesis
        using i or_simulated_ok by (simp add: bs_nth n_def x c)
    qed
  qed (simp add: bs_len n_def)
  have "map br_e (bs[nat k := b']) = (map br_e bs)[nat k := er]"
    by (simp add: map_update b'_def)
  then have "sum_list (map br_e (bs[nat k := b'])) =
      (\<Sum>i \<leftarrow> filter (\<lambda>i. i \<noteq> nat k) [0..<n]. map br_e bs ! i) + er"
    using sum_list_update_split [of "nat k" "map br_e bs" er] kn bs_len by simp
  also have "(\<Sum>i \<leftarrow> filter (\<lambda>i. i \<noteq> nat k) [0..<n]. map br_e bs ! i) =
      (\<Sum>i \<leftarrow> filter (\<lambda>i. i \<noteq> nat k) [0..<n]. br_e (bs ! i))"
    by (rule arg_cong [where f = sum_list]) (use bs_len in auto)
  finally have "sum_list (map br_e (bs[nat k := b'])) mod CURVE_ORDER = e"
    using e by (simp add: er_def mod_add_right_eq)
  then have "verify_or S c1 c2 mpk ms (bs[nat k := b']) t = Inr (True, t')"
    using all by (simp add: verify_or_def bs_len n_def com e)
  moreover have "\<forall>b \<in> set (bs[nat k := b']). gsub (g2 S) (br_a1 b) \<and> gsub (g2 S) (br_a2 b) \<and>
       0 \<le> br_e b \<and> br_e b < CURVE_ORDER \<and> 0 \<le> br_z b \<and> br_z b < CURVE_ORDER"
  proof
    fix b
    assume "b \<in> set (bs[nat k := b'])"
    then have "b \<in> set bs \<or> b = b'" using set_update_subset_insert by fastforce
    then show "gsub (g2 S) (br_a1 b) \<and> gsub (g2 S) (br_a2 b) \<and>
       0 \<le> br_e b \<and> br_e b < CURVE_ORDER \<and> 0 \<le> br_z b \<and> br_z b < CURVE_ORDER"
      using bs_ok [of b] bs_ok [of "bs ! nat k"] kn bs_len by (auto simp: b'_def er_def)
  qed
  ultimately show ?thesis using pr bs_len by (simp add: n_def)
qed

lemma or_branch_extract:
  assumes sub: "gsub (g2 S) c1" "gsub (g2 S) c2" "gsub (g2 S) mpk" "gsub (g2 S) (br_a1 b)" "gsub (g2 S) (br_a2 b)"
    and ok: "or_branch_ok S c1 c2 mpk m b" "or_branch_ok S c1 c2 mpk m b'"
    and same: "br_a1 b = br_a1 b'" "br_a2 b = br_a2 b'"
    and diff: "(br_e b - br_e b') mod CURVE_ORDER \<noteq> 0"
  shows "\<exists>r. (c1, c2) = Enc S mpk m r"
proof -
  obtain \<rho> c x \<alpha> \<beta> where g: "c1 = gx (g2 S) \<rho>" "c2 = gx (g2 S) c" "mpk = gx (g2 S) x"
    "br_a1 b = gx (g2 S) \<alpha>" "br_a2 b = gx (g2 S) \<beta>"
    using W.gx_cases sub by metis
  let ?e = "br_e b - br_e b'" and ?z = "br_z b - br_z b'"
  have eqs: "br_z b mod CURVE_ORDER = (\<alpha> + \<rho> * br_e b) mod CURVE_ORDER"
      "x * br_z b mod CURVE_ORDER = (\<beta> + (c - m) * br_e b) mod CURVE_ORDER"
      "br_z b' mod CURVE_ORDER = (\<alpha> + \<rho> * br_e b') mod CURVE_ORDER"
      "x * br_z b' mod CURVE_ORDER = (\<beta> + (c - m) * br_e b') mod CURVE_ORDER"
    using ok unfolding or_branch_ok_def same [symmetric] g or_target_gx W.gx_mul W.gx_add W.gx_eq_iff
    by simp_all
  obtain i where i: "?e * i mod CURVE_ORDER = 1 mod CURVE_ORDER"
    using CURVE_ORDER_inverse [OF diff] by auto
  have d1: "CURVE_ORDER dvd (br_z b - (\<alpha> + \<rho> * br_e b)) - (br_z b' - (\<alpha> + \<rho> * br_e b'))"
    by (rule dvd_diff) (use eqs in \<open>simp_all add: mod_eq_dvd_iff\<close>)
  have d2: "CURVE_ORDER dvd (x * br_z b - (\<beta> + (c - m) * br_e b)) - (x * br_z b' - (\<beta> + (c - m) * br_e b'))"
    by (rule dvd_diff) (use eqs in \<open>simp_all add: mod_eq_dvd_iff\<close>)
  from d1 have "CURVE_ORDER dvd \<rho> * ?e - 1 * ?z"
    by (subst dvd_minus_iff [symmetric]) (simp add: algebra_simps)
  then have r: "\<rho> mod CURVE_ORDER = 1 * (?z * i) mod CURVE_ORDER"
    by (intro mod_eq_mult_inverse [OF _ i]) (simp add: mod_eq_dvd_iff)
  from d2 have "CURVE_ORDER dvd (c - m) * ?e - x * ?z"
    by (subst dvd_minus_iff [symmetric]) (simp add: algebra_simps)
  then have "(c - m) mod CURVE_ORDER = x * (?z * i) mod CURVE_ORDER"
    using mod_eq_mult_inverse [OF _ i] by (simp add: mod_eq_dvd_iff)
  then have "c mod CURVE_ORDER = (x * (?z * i) + m) mod CURVE_ORDER"
    by (metis diff_add_cancel mod_add_left_eq)
  with r have "(c1, c2) = Enc S mpk m (?z * i)"
    by (simp add: g Enc_exponents W.gx_eq_iff)
  then show ?thesis by blast
qed

lemma or_special_sound:
  assumes sub: "gsub (g2 S) c1" "gsub (g2 S) c2" "gsub (g2 S) mpk"
      "\<forall>b \<in> set bs. gsub (g2 S) (br_a1 b) \<and> gsub (g2 S) (br_a2 b)"
    and ok: "list_all2 (or_branch_ok S c1 c2 mpk) ms bs" "list_all2 (or_branch_ok S c1 c2 mpk) ms bs'"
    and same: "map br_a1 bs = map br_a1 bs'" "map br_a2 bs = map br_a2 bs'"
    and diff: "sum_list (map br_e bs) mod CURVE_ORDER \<noteq> sum_list (map br_e bs') mod CURVE_ORDER"
  shows "\<exists>m \<in> set ms. \<exists>r. (c1, c2) = Enc S mpk m r"
proof -
  have len: "length bs = length ms" "length bs' = length ms"
    using ok by (auto dest: list_all2_lengthD)
  have "\<not> list_all2 (\<lambda>a b. a mod CURVE_ORDER = b mod CURVE_ORDER) (map br_e bs) (map br_e bs')"
    using diff sum_list_mod_eq by blast
  then obtain i where i: "i < length ms" "br_e (bs ! i) mod CURVE_ORDER \<noteq> br_e (bs' ! i) mod CURVE_ORDER"
    using len by (auto simp: list_all2_conv_all_nth)
  then have "(br_e (bs ! i) - br_e (bs' ! i)) mod CURVE_ORDER \<noteq> 0"
    by (simp add: mod_eq_dvd_iff dvd_eq_mod_eq_0)
  moreover have "br_a1 (bs ! i) = br_a1 (bs' ! i)" "br_a2 (bs ! i) = br_a2 (bs' ! i)"
    using same i len by (metis nth_map)+
  moreover have "or_branch_ok S c1 c2 mpk (ms ! i) (bs ! i)" "or_branch_ok S c1 c2 mpk (ms ! i) (bs' ! i)"
    using ok i by (auto simp: list_all2_conv_all_nth)
  ultimately have "\<exists>r. (c1, c2) = Enc S mpk (ms ! i) r"
    using or_branch_extract [of c1 c2 mpk "bs ! i" "ms ! i" "bs' ! i"] sub i(1) len nth_mem [of i bs]
    by fastforce
  then show ?thesis using i(1) nth_mem by blast
qed

end

section \<open>Completeness of the derived proofs\<close>

lemma make_decrypt_transcript_Inr:
  "length election_id = 32 \<Longrightarrow> 0 \<le> i \<Longrightarrow> i < 65536 \<Longrightarrow> \<exists>t. make_decrypt_transcript election_id i = Inr t"
  by (simp add: make_decrypt_transcript_def tr_append_Inr u16be_Inr)

lemma bind_budget_Inr: "\<exists>t'. bind_budget t B Exact = Inr t'" "\<exists>t'. bind_budget t B AtMost = Inr t'"
  by (simp_all add: bind_budget_def tr_append_Inr append_scalar_Inr)

context crypto_suite
begin

lemma decryption_share_complete:
  assumes C: "gsub (g2 S) C1" "gsub (g2 S) C2" and k: "0 \<le> k" "k < 65536"
  shows "\<exists>e z t'. prove_decryption_share S t C1 C2 (gx (g2 S) msk) (mul (g2 S) C1 msk) msk k d = Inr ((e, z), t') \<and>
    0 \<le> e \<and> e < CURVE_ORDER \<and> 0 \<le> z \<and> z < CURVE_ORDER \<and>
    verify_decryption_share S t C1 C2 (gx (g2 S) msk) (mul (g2 S) C1 msk) e z k = Inr (True, t')"
proof -
  obtain u where "bind_decryption_share S t C1 C2 (gx (g2 S) msk) k = Inr u"
    using C k by (auto simp: bind_decryption_share_def append_point_Inr u16be_Inr tr_append_Inr)
  then show ?thesis
    using dleq_complete [of "ggen (g2 S)" C1 msk u None d] C
    by (simp add: prove_decryption_share_def verify_decryption_share_def)
qed

lemma budget_exact_complete:
  assumes mpk: "gsub (g2 S) mpk" and ct: "(c1, c2) = Enc S mpk B r"
  shows "\<exists>e z t'. prove_budget_exact S c1 c2 mpk B (r mod CURVE_ORDER) t w d = Inr ((e, z), t') \<and>
    0 \<le> e \<and> e < CURVE_ORDER \<and> 0 \<le> z \<and> z < CURVE_ORDER \<and>
    verify_budget_exact S c1 c2 mpk B e z t = Inr (True, t')"
proof -
  obtain u where u: "bind_budget t B Exact = Inr u" using bind_budget_Inr by blast
  obtain x where x: "mpk = gx (g2 S) x" using W.gx_cases [OF mpk] by blast
  have c: "c1 = gx (g2 S) (r mod CURVE_ORDER)" "c2 = gx (g2 S) (x * r + B)"
    using ct by (simp_all add: x Enc_exponents W.mul_mod)
  have "budget_dleq_point2 S c2 B = or_target S c2 B"
    by (simp add: budget_dleq_point2_def or_target_def)
  then have p: "budget_dleq_point2 S c2 B = mul (g2 S) mpk (r mod CURVE_ORDER)"
    by (simp add: c x or_target_gx W.mul_mod W.gx_mul)
  show ?thesis
    using dleq_complete [of "ggen (g2 S)" mpk "r mod CURVE_ORDER" u w d] mpk
    by (simp add: prove_budget_exact_def verify_budget_exact_def u p c(1))
qed

end

section \<open>Properties\<close>

text \<open>
  An honest DLEQ proof is accepted, for any transcript and any nonce, and prover and
  verifier leave the same transcript behind.
\<close>

theorem dleq_completeness:
  assumes "crypto_suite S" and "gsub (g2 S) base1" "gsub (g2 S) base2"
  shows "\<exists>e z t'. prove_dleq S base1 (mul (g2 S) base1 x) base2 (mul (g2 S) base2 x) x t w d = Inr ((e, z), t') \<and>
    0 \<le> e \<and> e < CURVE_ORDER \<and> 0 \<le> z \<and> z < CURVE_ORDER \<and>
    verify_dleq S base1 (mul (g2 S) base1 x) base2 (mul (g2 S) base2 x) e z t = Inr (True, t')"
  using assms by (rule crypto_suite.dleq_complete)

lemma dleq_completeness_witness:
  "\<exists>e z t'. prove_dleq zq_suite 1 (mul (g2 zq_suite) 1 5) 7 (mul (g2 zq_suite) 7 5) 5 [] (Some 11) 0 = Inr ((e, z), t') \<and>
    0 \<le> e \<and> e < CURVE_ORDER \<and> 0 \<le> z \<and> z < CURVE_ORDER \<and>
    verify_dleq zq_suite 1 (mul (g2 zq_suite) 1 5) 7 (mul (g2 zq_suite) 7 5) e z [] = Inr (True, t')"
  by (rule dleq_completeness [OF zq.crypto_suite_axioms]) (simp_all add: zq_suite_def zq_group_def CURVE_ORDER_def)

text \<open>
  DLEQ is specially sound. Two answers that make the verifier recompute the same commitments
  under different challenges exhibit a common discrete logarithm of both points.
\<close>

theorem dleq_special_soundness:
  assumes "crypto_suite S" and "gsub (g2 S) base1" "gsub (g2 S) point1" "gsub (g2 S) base2" "gsub (g2 S) point2"
    and "dleq_commitment S base1 point1 e z = dleq_commitment S base1 point1 e' z'"
    and "dleq_commitment S base2 point2 e z = dleq_commitment S base2 point2 e' z'"
    and "(e - e') mod CURVE_ORDER \<noteq> 0"
  shows "\<exists>x. point1 = mul (g2 S) base1 x \<and> point2 = mul (g2 S) base2 x"
  using assms by (rule crypto_suite.dleq_special_sound)

lemma dleq_special_soundness_witness:
  "\<exists>x. (15::int) = mul (g2 zq_suite) 3 x \<and> (25::int) = mul (g2 zq_suite) 5 x"
  by (rule dleq_special_soundness [OF zq.crypto_suite_axioms, of 3 15 5 25 0 1 1 6])
    (simp_all add: zq_suite_def zq_group_def dleq_commitment_def mul_def add_def CURVE_ORDER_def)

text \<open>
  An honest OR proof over an encryption of one of the candidate values is accepted, whichever
  branches are pinned, and its commitments and scalars are canonical.
\<close>

theorem or_completeness:
  assumes "crypto_suite S" and "gsub (g2 S) mpk" and "0 \<le> k" "k < int (length ms)" and "length ms < 2 ^ 31"
    and "(c1, c2) = Enc S mpk (ms ! nat k) r"
    and "case simulated of None \<Rightarrow> True | Some s \<Rightarrow> length s = length ms"
  shows "\<exists>bs t'. prove_or S c1 c2 mpk ms r k t w simulated rnd = Inr (bs, t') \<and> length bs = length ms \<and>
    (\<forall>b \<in> set bs. gsub (g2 S) (br_a1 b) \<and> gsub (g2 S) (br_a2 b) \<and>
       0 \<le> br_e b \<and> br_e b < CURVE_ORDER \<and> 0 \<le> br_z b \<and> br_z b < CURVE_ORDER) \<and>
    verify_or S c1 c2 mpk ms bs t = Inr (True, t')"
  using assms by (rule crypto_suite.or_complete)

lemma or_completeness_witness:
  "\<exists>bs t'. prove_or zq_suite (fst (Enc zq_suite 9 1 4)) (snd (Enc zq_suite 9 1 4)) 9 [0, 1] 4 1 [] None None (\<lambda>_. 0) = Inr (bs, t') \<and>
    length bs = 2 \<and> verify_or zq_suite (fst (Enc zq_suite 9 1 4)) (snd (Enc zq_suite 9 1 4)) 9 [0, 1] bs [] = Inr (True, t')"
proof -
  have "gsub (g2 zq_suite) 9" by (simp add: zq_suite_def zq_group_def CURVE_ORDER_def)
  then show ?thesis
    using or_completeness [OF zq.crypto_suite_axioms, of 9 1 "[0, 1]" "fst (Enc zq_suite 9 1 4)" "snd (Enc zq_suite 9 1 4)" 4 None
        "[]" None "\<lambda>_. 0"]
    by (simp only: prod.collapse) fastforce
qed

text \<open>
  C35: the OR proof is specially sound. Two accepting branch lists with the same commitments and
  different total challenges show that the ciphertext encrypts one of the candidate values.
\<close>

theorem or_special_soundness:
  assumes "crypto_suite S" and "gsub (g2 S) c1" "gsub (g2 S) c2" "gsub (g2 S) mpk"
      "\<forall>b \<in> set bs. gsub (g2 S) (br_a1 b) \<and> gsub (g2 S) (br_a2 b)"
    and "list_all2 (or_branch_ok S c1 c2 mpk) ms bs" "list_all2 (or_branch_ok S c1 c2 mpk) ms bs'"
    and "map br_a1 bs = map br_a1 bs'" "map br_a2 bs = map br_a2 bs'"
    and "sum_list (map br_e bs) mod CURVE_ORDER \<noteq> sum_list (map br_e bs') mod CURVE_ORDER"
  shows "\<exists>m \<in> set ms. \<exists>r. (c1, c2) = Enc S mpk m r"
  using assms by (rule crypto_suite.or_special_sound)

lemma or_special_soundness_witness:
  "\<exists>m \<in> set [3]. \<exists>r. (5::int, 13::int) = Enc zq_suite 2 m r"
  by (rule or_special_soundness [OF zq.crypto_suite_axioms, of 5 13 2
        "[\<lparr>br_a1 = 1, br_a2 = 2, br_e = 0, br_z = 1\<rparr>]" "[3]" "[\<lparr>br_a1 = 1, br_a2 = 2, br_e = 1, br_z = 6\<rparr>]"])
    (simp_all add: zq_suite_def zq_group_def or_branch_ok_def or_target_def mul_def add_def CURVE_ORDER_def)

end
