(* ===== verification/Ballot.thy ===== *)
theory Ballot
  imports Proofs Types
begin

text \<open>
  \<^verbatim>\<open>crypto/ballot.py\<close>: the validity-proof codec, the message the voter signs, ballot
  construction and ballot verification.
\<close>

section \<open>The \<open>BallotValidityProof\<close> codec\<close>

definition encode_branch :: "('a, 'b) suite \<Rightarrow> 'b ORBranch \<Rightarrow> bytes result" where
  "encode_branch S br =
     ebind (g2_to_compressed S (br_a1 br)) (\<lambda>a1.
     ebind (g2_to_compressed S (br_a2 br)) (\<lambda>a2.
     ebind (int_to_bytes (br_e br mod CURVE_ORDER) 32) (\<lambda>e.
     ebind (int_to_bytes (br_z br mod CURVE_ORDER) 32) (\<lambda>z.
     Inr (a1 @ a2 @ e @ z)))))"

definition encode_ballot_validity_proof ::
    "('a, 'b) suite \<Rightarrow> 'b ORBranch list list \<Rightarrow> int \<Rightarrow> int \<Rightarrow> bytes result" where
  "encode_ballot_validity_proof S range_proofs e_b z_b =
     (case range_proofs of
        [] \<Rightarrow> Inl ValueError
      | first # _ \<Rightarrow>
          let n_outer = length range_proofs; branch_count = length first in
          if \<exists>p \<in> set range_proofs. length p \<noteq> branch_count then Inl ValueError
          else
            ebind (int_to_bytes (int n_outer) 2) (\<lambda>n.
            ebind (emap (\<lambda>_. int_to_bytes (int branch_count) 2) [0..<n_outer]) (\<lambda>counts.
            ebind (emap (\<lambda>proof. emap (encode_branch S) proof) range_proofs) (\<lambda>brs.
            ebind (int_to_bytes (e_b mod CURVE_ORDER) 32) (\<lambda>e.
            ebind (int_to_bytes (z_b mod CURVE_ORDER) 32) (\<lambda>z.
            Inr ([BVP_VERSION, VARIANT_A_BYTE] @ n @ concat counts @ concat (concat brs) @
                 [BUDGET_EXACT_TAG] @ e @ z)))))))"

text \<open>
  The decoder keeps the unread suffix \<open>buf[o:]\<close> instead of the offset \<open>o\<close>. A slice
  past the end is short, as in the source, and is refused by the reader that gets it.
\<close>

fun read_counts :: "int \<Rightarrow> nat \<Rightarrow> bytes \<Rightarrow> (int list \<times> bytes) result" where
  "read_counts expected 0 rest = Inr ([], rest)"
| "read_counts expected (Suc k) rest =
     (let bc = int_from_bytes (take 2 rest) in
      if bc \<noteq> expected then Inl ValueError
      else ebind (read_counts expected k (drop 2 rest)) (\<lambda>(bcs, rest). Inr (bc # bcs, rest)))"

fun read_branches :: "('a, 'b) suite \<Rightarrow> nat \<Rightarrow> bytes \<Rightarrow> ('b ORBranch list \<times> bytes) result" where
  "read_branches S 0 rest = Inr ([], rest)"
| "read_branches S (Suc k) rest =
     ebind (g2_from_compressed S (take 96 rest)) (\<lambda>a1.
     ebind (g2_from_compressed S (take 96 (drop 96 rest))) (\<lambda>a2.
     ebind (scalar_from_bytes (take 32 (drop 192 rest))) (\<lambda>e.
     ebind (scalar_from_bytes (take 32 (drop 224 rest))) (\<lambda>z.
     ebind (read_branches S k (drop 256 rest)) (\<lambda>(brs, rest).
     Inr (\<lparr>br_a1 = a1, br_a2 = a2, br_e = e, br_z = z\<rparr> # brs, rest))))))"

fun read_proofs :: "('a, 'b) suite \<Rightarrow> int list \<Rightarrow> bytes \<Rightarrow> ('b ORBranch list list \<times> bytes) result" where
  "read_proofs S [] rest = Inr ([], rest)"
| "read_proofs S (bc # bcs) rest =
     ebind (read_branches S (nat bc) rest) (\<lambda>(p, rest).
     ebind (read_proofs S bcs rest) (\<lambda>(ps, rest). Inr (p # ps, rest)))"

definition decode_ballot_validity_proof ::
    "('a, 'b) suite \<Rightarrow> bytes \<Rightarrow> int \<Rightarrow> int \<Rightarrow> ('b ORBranch list list \<times> int \<times> int) result" where
  "decode_ballot_validity_proof S buf num_candidates budget =
     (if length buf < 4 then Inl ValueError
      else if buf ! 0 \<noteq> BVP_VERSION then Inl ValueError
      else if buf ! 1 \<noteq> VARIANT_A_BYTE then Inl ValueError
      else
        let n_outer = int_from_bytes (take 2 (drop 2 buf)) in
        if n_outer \<noteq> num_candidates then Inl ValueError
        else
          ebind (read_counts (budget + 1) (nat n_outer) (drop 4 buf)) (\<lambda>(branch_counts, rest).
          ebind (read_proofs S branch_counts rest) (\<lambda>(range_proofs, rest).
          case rest of
            [] \<Rightarrow> Inl ValueError
          | tag # rest \<Rightarrow>
              if tag \<noteq> BUDGET_EXACT_TAG then Inl ValueError
              else
                ebind (scalar_from_bytes (take 32 rest)) (\<lambda>e_b.
                ebind (scalar_from_bytes (take 32 (drop 32 rest))) (\<lambda>z_b.
                if drop 64 rest \<noteq> [] then Inl ValueError
                else Inr (range_proofs, e_b, z_b))))))"

section \<open>The signed message and the transcript seed\<close>

definition canonical_ballot_message ::
    "bytes \<Rightarrow> bytes \<Rightarrow> (bytes \<times> bytes) list \<Rightarrow> bytes \<Rightarrow> AttestationCredential \<Rightarrow> bytes result" where
  "canonical_ballot_message election_id pseudonym ciphertexts zk_proof attestation =
     (if length election_id \<noteq> 32 then Inl ValueError
      else if length pseudonym \<noteq> 32 then Inl ValueError
      else if \<exists>(c1, c2) \<in> set ciphertexts. length c1 \<noteq> 96 \<or> length c2 \<noteq> 96 then Inl ValueError
      else if length (att_pseudonym attestation) \<noteq> 32 then Inl ValueError
      else if length (att_vk attestation) \<noteq> 48 then Inl ValueError
      else if att_weight attestation < 0 \<or> att_nonce attestation < 0 then Inl ValueError
      else
        ebind (int_to_bytes (int (length ciphertexts)) 2) (\<lambda>n_cts.
        ebind (int_to_bytes (int (length zk_proof)) 4) (\<lambda>n_zk.
        ebind (int_to_bytes (att_weight attestation) 32) (\<lambda>weight.
        ebind (int_to_bytes (att_nonce attestation) 32) (\<lambda>nonce.
        let sig = att_signature attestation in
        if length sig > 0xFFFF then Inl ValueError
        else
          ebind (int_to_bytes (int (length sig)) 2) (\<lambda>n_sig.
          Inr (encode_utf8 BALLOT_MESSAGE_LABEL @ election_id @ pseudonym @ n_cts @
               concat (map (\<lambda>(c1, c2). c1 @ c2) ciphertexts) @ n_zk @ zk_proof @
               att_pseudonym attestation @ att_vk attestation @ weight @ nonce @ n_sig @ sig)))))))"

definition pre_v1_ballot_message ::
    "bytes \<Rightarrow> bytes \<Rightarrow> (bytes \<times> bytes) list \<Rightarrow> bytes \<Rightarrow> bytes result" where
  "pre_v1_ballot_message election_id pseudonym ciphertexts zk_proof =
     ebind (int_to_bytes (int (length ciphertexts)) 2) (\<lambda>n_cts.
     ebind (int_to_bytes (int (length zk_proof)) 4) (\<lambda>n_zk.
     Inr (encode_utf8 ''SHUTTER-VOTE-BALLOT-v1'' @ election_id @ pseudonym @ n_cts @
          concat (map (\<lambda>(c1, c2). c1 @ c2) ciphertexts) @ n_zk @ zk_proof)))"

definition seed_ballot_transcript ::
    "('a, 'b) suite \<Rightarrow> bytes \<Rightarrow> 'b \<Rightarrow> 'a \<Rightarrow> 'b ct list \<Rightarrow> int \<Rightarrow> int \<Rightarrow> transcript result" where
  "seed_ballot_transcript S election_id mpk vk ciphertexts_pts num_candidates budget =
     ebind (tr_append (Transcript_init BALLOT_PROOF_TRANSCRIPT_LABEL) ''electionId'' election_id) (\<lambda>t.
     ebind (append_point S t ''mpk'' mpk) (\<lambda>t.
     ebind (g1_to_compressed S vk) (\<lambda>vkb.
     ebind (tr_append t ''vk'' vkb) (\<lambda>t.
     ebind (tr_append t ''variant'' [0x41]) (\<lambda>t.
     ebind (tr_append t ''mode'' [0x00]) (\<lambda>t.
     ebind (int_to_bytes num_candidates 2) (\<lambda>nc.
     ebind (tr_append t ''numCandidates'' nc) (\<lambda>t.
     ebind (int_to_bytes budget 2) (\<lambda>b.
     ebind (tr_append t ''budget'' b) (\<lambda>t.
     ebind (int_to_bytes (int (length ciphertexts_pts)) 2) (\<lambda>l.
     ebind (tr_append t ''|cts|'' l) (\<lambda>t.
     efold (\<lambda>(i, (c1, c2)) t.
              ebind (append_point S t (idx_tag ''ct.c1'' i) c1) (\<lambda>t.
              append_point S t (idx_tag ''ct.c2'' i) c2)) (enumerate 0 ciphertexts_pts) t))))))))))))"

section \<open>Building a ballot\<close>

record BuiltBallot =
  bb_election_id :: bytes
  bb_pseudonym :: bytes
  bb_vk :: bytes
  bb_ciphertexts :: "(bytes \<times> bytes) list"
  bb_zk_proof :: bytes
  bb_voter_signature :: bytes
  bb_canonical_preimage :: bytes

text \<open>
  The optional pinned randomness of \<open>build_ballot\<close>, and the values the calls of
  \<open>random_scalar\<close> draw where it is absent.
\<close>

record ballot_randomness =
  pin_rs :: "int list option"
  pin_range_w :: "int option list option"
  pin_range_sims :: "(int \<times> int) option list option list option"
  pin_budget_w :: "int option"
  pin_schnorr_k :: "int option"
  draw_rs :: "nat \<Rightarrow> int"
  draw_range :: "nat \<Rightarrow> nat \<Rightarrow> int"
  draw_budget :: int
  draw_schnorr :: int

text \<open>\<open>xs[j]\<close> on a Python list.\<close>

definition py_nth :: "'a list \<Rightarrow> nat \<Rightarrow> 'a result" where
  "py_nth xs j = (if j < length xs then Inr (xs ! j) else Inl IndexError)"

text \<open>\<open>pinned[j] if pinned is not None else default\<close>.\<close>

definition pinned :: "'a list option \<Rightarrow> nat \<Rightarrow> 'a \<Rightarrow> 'a result" where
  "pinned p j dflt = (case p of None \<Rightarrow> Inr dflt | Some xs \<Rightarrow> py_nth xs j)"

definition encrypt_vote ::
    "('a, 'b) suite \<Rightarrow> ballot_randomness \<Rightarrow> 'b \<Rightarrow> nat \<Rightarrow> int \<Rightarrow> ('b ct \<times> int) result" where
  "encrypt_vote S rnd mpk j v =
     ebind (pinned (pin_rs rnd) j (random_scalar (draw_rs rnd j))) (\<lambda>r.
     let r = r mod CURVE_ORDER in
     Inr ((mul (g2 S) (ggen (g2 S)) r,
           add (g2 S) (mul (g2 S) mpk r) (mul (g2 S) (ggen (g2 S)) v)), r))"

text \<open>The loop over candidates: ciphertext, randomness and vote of each, from index \<open>j\<close> on.\<close>

fun prove_ranges ::
    "('a, 'b) suite \<Rightarrow> ballot_randomness \<Rightarrow> 'b \<Rightarrow> int list \<Rightarrow> nat \<Rightarrow> (('b ct \<times> int) \<times> int) list \<Rightarrow> transcript \<Rightarrow>
     ('b ORBranch list list \<times> transcript) result" where
  "prove_ranges S rnd mpk candidates j [] t = Inr ([], t)"
| "prove_ranges S rnd mpk candidates j ((((c1, c2), r), v) # xs) t =
     ebind (int_to_bytes (int j) 2) (\<lambda>jb.
     ebind (tr_append t ''ballot:range'' jb) (\<lambda>t.
     ebind (pinned (pin_range_w rnd) j None) (\<lambda>w.
     ebind (pinned (pin_range_sims rnd) j None) (\<lambda>sims.
     ebind (prove_or S c1 c2 mpk candidates r v t w sims (draw_range rnd j)) (\<lambda>(proof, t).
     ebind (prove_ranges S rnd mpk candidates (Suc j) xs t) (\<lambda>(proofs, t).
     Inr (proof # proofs, t)))))))"

definition compress_ct :: "('a, 'b) suite \<Rightarrow> 'b ct \<Rightarrow> (bytes \<times> bytes) result" where
  "compress_ct S c =
     ebind (g2_to_compressed S (fst c)) (\<lambda>c1. ebind (g2_to_compressed S (snd c)) (\<lambda>c2. Inr (c1, c2)))"

definition build_ballot ::
    "('a, 'b) suite \<Rightarrow> 'b \<Rightarrow> bytes \<Rightarrow> bytes \<Rightarrow> int \<Rightarrow> 'a \<Rightarrow> AttestationCredential \<Rightarrow> int list \<Rightarrow> int \<Rightarrow> int \<Rightarrow>
     ballot_randomness \<Rightarrow> BuiltBallot result" where
  "build_ballot S mpk election_id pseudonym sk vk attestation votes num_candidates budget rnd =
     (if int (length votes) \<noteq> num_candidates then Inl ValueError
      else if \<exists>v \<in> set votes. v < 0 \<or> v > budget then Inl ValueError
      else if sum_list votes \<noteq> budget then Inl ValueError
      else
        ebind (keygen S (Some sk) 0) (\<lambda>(_, expected_vk).
        if expected_vk \<noteq> vk then Inl ValueError
        else
          ebind (emap (\<lambda>(j, v). encrypt_vote S rnd mpk j v) (enumerate 0 votes)) (\<lambda>cts_rs.
          let cts_pts = map fst cts_rs; rs_used = map snd cts_rs in
          ebind (seed_ballot_transcript S election_id mpk vk cts_pts num_candidates budget) (\<lambda>t.
          ebind (prove_ranges S rnd mpk [0..budget] 0 (zip cts_rs votes) t) (\<lambda>(range_proofs, t).
          let (c1_sum, c2_sum) = sum_cts S cts_pts; r_sum = sum_list rs_used mod CURVE_ORDER in
          ebind (tr_append t ''ballot:budget'' [0x00]) (\<lambda>t.
          ebind (prove_budget_exact S c1_sum c2_sum mpk budget r_sum t (pin_budget_w rnd) (draw_budget rnd))
            (\<lambda>((e_b, z_b), t).
          ebind (encode_ballot_validity_proof S range_proofs e_b z_b) (\<lambda>zk_proof.
          ebind (emap (compress_ct S) cts_pts) (\<lambda>ct_bytes.
          ebind (canonical_ballot_message election_id pseudonym ct_bytes zk_proof attestation) (\<lambda>preimage.
          ebind (schnorr_sign S sk vk (keccak S preimage) (pin_schnorr_k rnd) (draw_schnorr rnd)) (\<lambda>(R, s).
          ebind (g1_to_compressed S vk) (\<lambda>vkb.
          ebind (schnorr_encode S R s) (\<lambda>sig.
          Inr \<lparr>bb_election_id = election_id, bb_pseudonym = pseudonym, bb_vk = vkb,
               bb_ciphertexts = ct_bytes, bb_zk_proof = zk_proof, bb_voter_signature = sig,
               bb_canonical_preimage = preimage\<rparr>)))))))))))))"

section \<open>Verifying a ballot\<close>

fun verify_ranges ::
    "('a, 'b) suite \<Rightarrow> 'b \<Rightarrow> int list \<Rightarrow> nat \<Rightarrow> 'b ct list \<Rightarrow> 'b ORBranch list list \<Rightarrow> transcript \<Rightarrow>
     (bool \<times> transcript) result" where
  "verify_ranges S mpk candidates j ((c1, c2) # cts) (p # ps) t =
     ebind (int_to_bytes (int j) 2) (\<lambda>jb.
     ebind (tr_append t ''ballot:range'' jb) (\<lambda>t.
     ebind (verify_or S c1 c2 mpk candidates p t) (\<lambda>(ok, t).
     if \<not> ok then Inr (False, t) else verify_ranges S mpk candidates (Suc j) cts ps t)))"
| "verify_ranges S mpk candidates j [] ps t = Inr (True, t)"
| "verify_ranges S mpk candidates j (c # cts) [] t = Inl IndexError"

definition decompress_ct :: "('a, 'b) suite \<Rightarrow> bytes \<times> bytes \<Rightarrow> 'b ct result" where
  "decompress_ct S c =
     ebind (g2_from_compressed S (fst c)) (\<lambda>c1. ebind (g2_from_compressed S (snd c)) (\<lambda>c2. Inr (c1, c2)))"

text \<open>
  The verdict \<open>(ok, reason)\<close>. The \<open>try\<close> blocks turn a raised exception into
  \<open>MALFORMED\<close>; \<open>seed_ballot_transcript\<close>, the proof checks and
  \<open>canonical_ballot_message\<close> stand outside them, so what they raise propagates.
\<close>

definition verify_ballot_crypto ::
    "('a, 'b) suite \<Rightarrow> 'b \<Rightarrow> bytes \<Rightarrow> bytes \<Rightarrow> bytes \<Rightarrow> (bytes \<times> bytes) list \<Rightarrow> bytes \<Rightarrow> bytes \<Rightarrow>
     AttestationCredential \<Rightarrow> int \<Rightarrow> int \<Rightarrow> (bool \<times> string option) result" where
  "verify_ballot_crypto S mpk election_id pseudonym vk_bytes ciphertext_bytes zk_proof voter_signature
       attestation num_candidates budget =
     (if \<not> (1 \<le> num_candidates \<and> num_candidates \<le> 0xFFFF) then Inr (False, Some ''MALFORMED'')
      else if \<not> (1 \<le> budget \<and> budget \<le> 0xFFFE) then Inr (False, Some ''MALFORMED'')
      else if length election_id \<noteq> 32 \<or> length pseudonym \<noteq> 32 then Inr (False, Some ''MALFORMED'')
      else if mpk = gid (g2 S) then Inr (False, Some ''MALFORMED'')
      else case g1_from_compressed S vk_bytes of
        Inl _ \<Rightarrow> Inr (False, Some ''MALFORMED'')
      | Inr vk \<Rightarrow>
        if vk = gid (g1 S) then Inr (False, Some ''MALFORMED'')
        else if int (length ciphertext_bytes) \<noteq> num_candidates then Inr (False, Some ''MALFORMED'')
        else case emap (decompress_ct S) ciphertext_bytes of
          Inl _ \<Rightarrow> Inr (False, Some ''MALFORMED'')
        | Inr cts_pts \<Rightarrow>
          case decode_ballot_validity_proof S zk_proof num_candidates budget of
            Inl _ \<Rightarrow> Inr (False, Some ''MALFORMED'')
          | Inr (range_proofs, e_b, z_b) \<Rightarrow>
            ebind (seed_ballot_transcript S election_id mpk vk cts_pts num_candidates budget) (\<lambda>t.
            ebind (verify_ranges S mpk [0..budget] 0 cts_pts range_proofs t) (\<lambda>(ok, t).
            if \<not> ok then Inr (False, Some ''INVALID_PROOF'')
            else
              let (c1_sum, c2_sum) = sum_cts S cts_pts in
              ebind (tr_append t ''ballot:budget'' [0x00]) (\<lambda>t.
              ebind (verify_budget_exact S c1_sum c2_sum mpk budget e_b z_b t) (\<lambda>(ok, t).
              if \<not> ok then Inr (False, Some ''INVALID_PROOF'')
              else case schnorr_decode S voter_signature of
                Inl _ \<Rightarrow> Inr (False, Some ''MALFORMED'')
              | Inr (R, s) \<Rightarrow>
                ebind (canonical_ballot_message election_id pseudonym ciphertext_bytes zk_proof attestation)
                  (\<lambda>preimage.
                ebind (schnorr_verify S vk (keccak S preimage) R s) (\<lambda>ok.
                if ok then Inr (True, None)
                else
                  ebind (pre_v1_ballot_message election_id pseudonym ciphertext_bytes zk_proof) (\<lambda>pre.
                  ebind (schnorr_verify S vk (keccak S pre) R s) (\<lambda>ok.
                  Inr (False, Some (if ok then ''INVALID_SIGNATURE_PRE_V2'' else ''INVALID_SIGNATURE'')))))))))))"

section \<open>The codec is a round trip\<close>

text \<open>What an encodable proof is: subgroup commitments and canonical scalars.\<close>

definition wf_branch :: "('a, 'b) suite \<Rightarrow> 'b ORBranch \<Rightarrow> bool" where
  "wf_branch S b \<longleftrightarrow> gsub (g2 S) (br_a1 b) \<and> gsub (g2 S) (br_a2 b) \<and>
     0 \<le> br_e b \<and> br_e b < CURVE_ORDER \<and> 0 \<le> br_z b \<and> br_z b < CURVE_ORDER"

definition branch_bytes :: "('a, 'b) suite \<Rightarrow> 'b ORBranch \<Rightarrow> bytes" where
  "branch_bytes S b = gcompress (g2 S) (br_a1 b) @ gcompress (g2 S) (br_a2 b) @
     scalar_to_bytes (br_e b) @ scalar_to_bytes (br_z b)"

lemma int_to_bytes_scalar: "int_to_bytes (s mod CURVE_ORDER) 32 = Inr (scalar_to_bytes s)"
  using scalar_to_bytes_source [of s] by (simp add: SCALAR_BYTES_def)

lemma read_counts_replicate:
  assumes "0 \<le> bc" "bc < 65536"
  shows "read_counts bc n (concat (replicate n (be 2 bc)) @ rest) = Inr (replicate n bc, rest)"
  using assms by (induction n) (simp_all add: int_from_bytes_be)

context crypto_suite
begin

lemma length_branch_bytes: "wf_branch S b \<Longrightarrow> length (branch_bytes S b) = 256"
  by (simp add: wf_branch_def branch_bytes_def g2_codec)

lemma encode_branch_Inr: "wf_branch S b \<Longrightarrow> encode_branch S b = Inr (branch_bytes S b)"
proof -
  assume "wf_branch S b"
  then have "gsub (g2 S) (br_a1 b)" "gsub (g2 S) (br_a2 b)" by (simp_all add: wf_branch_def)
  then show ?thesis by (simp add: encode_branch_def branch_bytes_def g2_codec int_to_bytes_scalar)
qed

lemma read_branches_bytes:
  "\<forall>b \<in> set bs. wf_branch S b \<Longrightarrow>
     read_branches S (length bs) (concat (map (branch_bytes S) bs) @ rest) = Inr (bs, rest)"
proof (induction bs)
  case Nil
  then show ?case by simp
next
  case (Cons b bs)
  then have "gsub (g2 S) (br_a1 b)" "gsub (g2 S) (br_a2 b)"
    "br_e b mod CURVE_ORDER = br_e b" "br_z b mod CURVE_ORDER = br_z b"
    by (simp_all add: wf_branch_def)
  with Cons show ?case by (simp add: branch_bytes_def g2_codec scalar_roundtrip)
qed

lemma read_proofs_bytes:
  "\<forall>p \<in> set ps. length p = n \<and> (\<forall>b \<in> set p. wf_branch S b) \<Longrightarrow>
     read_proofs S (replicate (length ps) (int n)) (concat (concat (map (map (branch_bytes S)) ps)) @ rest) = Inr (ps, rest)"
proof (induction ps)
  case Nil
  then show ?case by simp
next
  case (Cons p ps)
  then show ?case
    using read_branches_bytes [of p "concat (concat (map (map (branch_bytes S)) ps)) @ rest"] by simp
qed

end

definition bvp_bytes :: "('a, 'b) suite \<Rightarrow> nat \<Rightarrow> 'b ORBranch list list \<Rightarrow> int \<Rightarrow> int \<Rightarrow> bytes" where
  "bvp_bytes S n ps e z =
     [BVP_VERSION, VARIANT_A_BYTE] @ be 2 (int (length ps)) @ concat (replicate (length ps) (be 2 (int n))) @
     concat (concat (map (map (branch_bytes S)) ps)) @ [BUDGET_EXACT_TAG] @ scalar_to_bytes e @ scalar_to_bytes z"

text \<open>The shape every proof of a ballot with \<open>n\<close> branches per candidate has.\<close>

definition wf_proofs :: "('a, 'b) suite \<Rightarrow> nat \<Rightarrow> 'b ORBranch list list \<Rightarrow> bool" where
  "wf_proofs S n ps \<longleftrightarrow> ps \<noteq> [] \<and> length ps < 65536 \<and> n < 65536 \<and>
     (\<forall>p \<in> set ps. length p = n \<and> (\<forall>b \<in> set p. wf_branch S b))"

context crypto_suite
begin

lemma encode_bvp:
  assumes "wf_proofs S n ps"
  shows "encode_ballot_validity_proof S ps e z = Inr (bvp_bytes S n ps e z)"
proof -
  note wf = assms [unfolded wf_proofs_def]
  then obtain p ps' where ps: "ps = p # ps'" by (cases ps) auto
  have "emap (encode_branch S) q = Inr (map (branch_bytes S) q)" if "q \<in> set ps" for q
    using wf that by (intro emap_Inr_all) (auto simp: encode_branch_Inr)
  then have brs: "emap (\<lambda>q. emap (encode_branch S) q) ps = Inr (map (map (branch_bytes S)) ps)"
    by (rule emap_Inr_all)
  have counts: "emap (\<lambda>_. int_to_bytes (int n) 2) [0..<length ps] = Inr (replicate (length ps) (be 2 (int n)))"
    using wf emap_Inr_all [of "[0..<length ps]" "\<lambda>_. int_to_bytes (int n) 2" "\<lambda>_. be 2 (int n)"]
    by (simp add: map_replicate_const)
  have "length p = n" "\<not> (\<exists>q \<in> set ps. length q \<noteq> n)" using wf ps by auto
  moreover have "int_to_bytes (int (length ps)) 2 = Inr (be 2 (int (length ps)))"
    using wf by simp
  moreover have "(case ps of [] \<Rightarrow> A | q # _ \<Rightarrow> g q) = g p" for A :: "bytes result" and g
    by (simp add: ps)
  ultimately show ?thesis
    by (simp only: encode_ballot_validity_proof_def Let_def brs counts int_to_bytes_scalar bvp_bytes_def
        if_False ebind_Inr)
qed

lemma concat_lengths: "(\<And>x. x \<in> set xs \<Longrightarrow> length x = k) \<Longrightarrow> length (concat xs) = k * length xs"
  by (induction xs) (simp_all)

lemma length_bvp:
  assumes "wf_proofs S n ps"
  shows "length (bvp_bytes S n ps e z) = 69 + 2 * length ps + 256 * n * length ps"
proof -
  have "length (concat (map (branch_bytes S) p)) = 256 * n" if "p \<in> set ps" for p
    using concat_lengths [of "map (branch_bytes S) p" 256] length_branch_bytes assms that
    by (auto simp: wf_proofs_def)
  then have "length (concat (map (\<lambda>p. concat (map (branch_bytes S) p)) ps)) = 256 * n * length ps"
    using concat_lengths [of "map (\<lambda>p. concat (map (branch_bytes S) p)) ps" "256 * n"] by auto
  moreover have "concat (concat (map (map (branch_bytes S)) ps)) = concat (map (\<lambda>p. concat (map (branch_bytes S) p)) ps)"
    by (induction ps) auto
  moreover have "length (concat (replicate (length ps) (be 2 (int n)))) = 2 * length ps"
    using concat_lengths [of "replicate (length ps) (be 2 (int n))" 2] by auto
  ultimately show ?thesis by (simp add: bvp_bytes_def del: length_concat)
qed

lemma decode_bvp:
  assumes wf: "wf_proofs S n ps"
  shows "decode_ballot_validity_proof S (bvp_bytes S n ps e z) (int (length ps)) (int n - 1) =
    Inr (ps, e mod CURVE_ORDER, z mod CURVE_ORDER)"
proof -
  let ?rest = "[BUDGET_EXACT_TAG] @ scalar_to_bytes e @ scalar_to_bytes z"
  let ?brs = "concat (concat (map (map (branch_bytes S)) ps))"
  have n: "int_from_bytes (be 2 (int (length ps))) = int (length ps)"
    using wf by (simp add: wf_proofs_def int_from_bytes_be)
  have c: "read_counts (int n) (length ps) (concat (replicate (length ps) (be 2 (int n))) @ ?brs @ ?rest) =
      Inr (replicate (length ps) (int n), ?brs @ ?rest)"
    using wf by (intro read_counts_replicate) (auto simp: wf_proofs_def)
  have p: "read_proofs S (replicate (length ps) (int n)) (?brs @ ?rest) = Inr (ps, ?rest)"
    using wf by (intro read_proofs_bytes) (auto simp: wf_proofs_def)
  show ?thesis
    using c p n
    by (simp add: decode_ballot_validity_proof_def bvp_bytes_def scalar_roundtrip Let_def)
qed

end

section \<open>The signed message determines the ballot\<close>

definition wf_credential :: "AttestationCredential \<Rightarrow> bool" where
  "wf_credential a \<longleftrightarrow> length (att_pseudonym a) = 32 \<and> length (att_vk a) = 48 \<and>
     0 \<le> att_weight a \<and> att_weight a < 256 ^ 32 \<and> 0 \<le> att_nonce a \<and> att_nonce a < 256 ^ 32 \<and>
     length (att_signature a) < 65536"

lemma canonical_eq_Inr:
  "canonical_ballot_message eid ps cts zk a = Inr m \<longleftrightarrow>
     length eid = 32 \<and> length ps = 32 \<and> (\<forall>c \<in> set cts. length (fst c) = 96 \<and> length (snd c) = 96) \<and>
     length cts < 65536 \<and> length zk < 2 ^ 32 \<and> wf_credential a \<and>
     m = encode_utf8 BALLOT_MESSAGE_LABEL @ eid @ ps @ be 2 (int (length cts)) @
         concat (map (\<lambda>(c1, c2). c1 @ c2) cts) @ be 4 (int (length zk)) @ zk @
         att_pseudonym a @ att_vk a @ be 32 (att_weight a) @ be 32 (att_nonce a) @
         be 2 (int (length (att_signature a))) @ att_signature a"
  unfolding canonical_ballot_message_def wf_credential_def
  by (auto simp: Let_def split_def int_to_bytes_eq_Inr split: if_splits)

lemma concat_pairs_inject:
  assumes "concat (map (\<lambda>(c1, c2). c1 @ c2) cs) @ r = concat (map (\<lambda>(c1, c2). c1 @ c2) ds) @ s"
    and "length cs = length ds"
    and "\<forall>c \<in> set cs. length (fst c) = k \<and> length (snd c) = k"
    and "\<forall>d \<in> set ds. length (fst d) = k \<and> length (snd d) = k"
  shows "cs = ds \<and> r = s"
  using assms(2,1,3,4)
  by (induction cs ds rule: list_induct2) (simp_all add: split_def prod_eq_iff)

lemma canonical_inject:
  assumes a: "canonical_ballot_message eid ps cts zk a = Inr m"
    and b: "canonical_ballot_message eid' ps' cts' zk' b = Inr m"
  shows "eid = eid' \<and> ps = ps' \<and> cts = cts' \<and> zk = zk' \<and> att_pseudonym a = att_pseudonym b \<and>
    att_vk a = att_vk b \<and> att_weight a = att_weight b \<and> att_nonce a = att_nonce b \<and>
    att_signature a = att_signature b"
proof -
  note ga = a [unfolded canonical_eq_Inr wf_credential_def]
  note gb = b [unfolded canonical_eq_Inr wf_credential_def]
  let ?t = "\<lambda>zk a. be 4 (int (length zk)) @ zk @ att_pseudonym a @ att_vk a @ be 32 (att_weight a) @
    be 32 (att_nonce a) @ be 2 (int (length (att_signature a))) @ att_signature a"
  have e: "eid = eid'" "ps = ps'" and n: "be 2 (int (length cts)) = be 2 (int (length cts'))"
    and r: "concat (map (\<lambda>(c1, c2). c1 @ c2) cts) @ ?t zk a = concat (map (\<lambda>(c1, c2). c1 @ c2) cts') @ ?t zk' b"
    using ga gb by (auto simp: append_eq_append_conv)
  have "length cts = length cts'" using n ga gb by (simp add: be_inject)
  then have c: "cts = cts' \<and> ?t zk a = ?t zk' b"
    using concat_pairs_inject [OF r, of 96] ga gb by blast
  then have "be 4 (int (length zk)) = be 4 (int (length zk'))" by simp
  then have "length zk = length zk'" using ga gb by (simp add: be_inject)
  with c ga gb have z: "zk = zk'" "att_pseudonym a = att_pseudonym b" "att_vk a = att_vk b"
    "be 32 (att_weight a) = be 32 (att_weight b)" "be 32 (att_nonce a) = be 32 (att_nonce b)"
    "att_signature a = att_signature b" by auto
  then have "att_weight a = att_weight b" "att_nonce a = att_nonce b" using ga gb by (auto simp: be_inject)
  with e c z show ?thesis by simp
qed

section \<open>An honest ballot is accepted\<close>

lemma member_le_sum_list_int: "\<forall>v \<in> set vs. 0 \<le> v \<Longrightarrow> v \<in> set vs \<Longrightarrow> v \<le> sum_list (vs :: int list)"
  by (induction vs) (auto simp: sum_list_nonneg add_increasing)

text \<open>Pinned randomness, where given, covers \<open>n\<close> candidates with \<open>k\<close> branches each.\<close>

definition covers :: "'a list option \<Rightarrow> nat \<Rightarrow> bool" where
  "covers p n \<longleftrightarrow> (case p of None \<Rightarrow> True | Some xs \<Rightarrow> n \<le> length xs)"

definition wf_pins :: "nat \<Rightarrow> nat \<Rightarrow> ballot_randomness \<Rightarrow> bool" where
  "wf_pins n k rnd \<longleftrightarrow> covers (pin_rs rnd) n \<and> covers (pin_range_w rnd) n \<and> covers (pin_range_sims rnd) n \<and>
     (case pin_range_sims rnd of None \<Rightarrow> True
      | Some ss \<Rightarrow> \<forall>s \<in> set ss. case s of None \<Rightarrow> True | Some xs \<Rightarrow> length xs = k)"

lemma pinned_Inr: "covers p n \<Longrightarrow> j < n \<Longrightarrow> \<exists>v. pinned p j d = Inr v"
  by (auto simp: covers_def pinned_def py_nth_def split: option.splits)

lemma pinned_sims:
  assumes "wf_pins n k rnd" and "j < n"
  shows "\<exists>s. pinned (pin_range_sims rnd) j None = Inr s \<and> (case s of None \<Rightarrow> True | Some xs \<Rightarrow> length xs = k)"
proof (cases "pin_range_sims rnd")
  case (Some ss)
  with assms have "j < length ss" "ss ! j \<in> set ss" by (auto simp: wf_pins_def covers_def)
  with Some assms show ?thesis by (auto simp: pinned_def py_nth_def wf_pins_def)
qed (simp add: pinned_def)

context crypto_suite
begin

lemma encrypt_votes:
  assumes "covers (pin_rs rnd) (length votes)"
  shows "\<exists>rs. length rs = length votes \<and>
    emap (\<lambda>(j, v). encrypt_vote S rnd mpk j v) (enumerate 0 votes) =
      Inr (map (\<lambda>(v, r). (Enc S mpk v r, r)) (zip votes rs))"
proof -
  define R where "R j = (case pinned (pin_rs rnd) j (random_scalar (draw_rs rnd j)) of Inr r \<Rightarrow> r mod CURVE_ORDER | Inl _ \<Rightarrow> 0)" for j
  have "encrypt_vote S rnd mpk j v = Inr (Enc S mpk v (R j), R j)" if "j < length votes" for j v
    using pinned_Inr [OF assms that, of "random_scalar (draw_rs rnd j)"]
    by (auto simp: encrypt_vote_def R_def Enc_def Let_def)
  then have "emap (\<lambda>(j, v). encrypt_vote S rnd mpk j v) (enumerate 0 votes) =
      Inr (map (\<lambda>(j, v). (Enc S mpk v (R j), R j)) (enumerate 0 votes))"
    by (intro emap_Inr_all) (auto simp: in_enumerate_iff)
  moreover have "map (\<lambda>(j, v). (Enc S mpk v (R j), R j)) (enumerate 0 votes) =
      map (\<lambda>(v, r). (Enc S mpk v r, r)) (zip votes (map R [0..<length votes]))"
    by (rule nth_equalityI) (auto simp: nth_enumerate_eq)
  ultimately show ?thesis by (intro exI [of _ "map R [0..<length votes]"]) simp
qed

lemma ranges_complete:
  assumes mpk: "gsub (g2 S) mpk" and b: "0 \<le> budget" "budget < 2 ^ 30"
    and pins: "wf_pins n (nat (budget + 1)) rnd" "n \<le> 65536"
    and xs: "\<forall>((ct, r), v) \<in> set xs. ct = Enc S mpk v r \<and> 0 \<le> v \<and> v \<le> budget" "j + length xs \<le> n"
  shows "\<exists>ps t'. prove_ranges S rnd mpk [0..budget] j xs t = Inr (ps, t') \<and> length ps = length xs \<and>
    (\<forall>p \<in> set ps. length p = nat (budget + 1) \<and> (\<forall>b \<in> set p. wf_branch S b)) \<and>
    verify_ranges S mpk [0..budget] j (map (\<lambda>x. fst (fst x)) xs) ps t = Inr (True, t')"
  using xs
proof (induction xs arbitrary: j t)
  case Nil
  then show ?case by simp
next
  case (Cons x xs)
  obtain c1 c2 r v where x: "x = (((c1, c2), r), v)" by (metis prod.exhaust)
  have v: "0 \<le> v" "v \<le> budget" and ct: "(c1, c2) = Enc S mpk v r" and j: "j < n" "Suc j + length xs \<le> n"
    using Cons.prems by (auto simp: x)
  obtain u where u: "int_to_bytes (int j) 2 = Inr (be 2 (int j))" "tr_append t ''ballot:range'' (be 2 (int j)) = Inr u"
    using j pins(2) by (simp add: tr_append_Inr)
  obtain w where w: "pinned (pin_range_w rnd) j None = Inr w"
    using pinned_Inr pins(1) j(1) by (metis wf_pins_def)
  obtain s where s: "pinned (pin_range_sims rnd) j None = Inr s"
      "case s of None \<Rightarrow> True | Some xs \<Rightarrow> length xs = nat (budget + 1)"
    using pinned_sims [OF pins(1) j(1)] by blast
  have "\<exists>bs t'. prove_or S c1 c2 mpk [0..budget] r v u w s (draw_range rnd j) = Inr (bs, t') \<and>
    length bs = length [0..budget] \<and>
    (\<forall>b \<in> set bs. gsub (g2 S) (br_a1 b) \<and> gsub (g2 S) (br_a2 b) \<and>
       0 \<le> br_e b \<and> br_e b < CURVE_ORDER \<and> 0 \<le> br_z b \<and> br_z b < CURVE_ORDER) \<and>
    verify_or S c1 c2 mpk [0..budget] bs u = Inr (True, t')"
    by (rule or_complete [OF mpk v(1)]) (use v b ct s(2) in \<open>auto simp: nth_upto split: option.splits\<close>)
  then obtain bs u' where bs: "prove_or S c1 c2 mpk [0..budget] r v u w s (draw_range rnd j) = Inr (bs, u')"
    "length bs = nat (budget + 1)" "\<forall>b \<in> set bs. wf_branch S b" "verify_or S c1 c2 mpk [0..budget] bs u = Inr (True, u')"
    by (auto simp: wf_branch_def)
  obtain ps t' where ps: "prove_ranges S rnd mpk [0..budget] (Suc j) xs u' = Inr (ps, t')" "length ps = length xs"
    "\<forall>p \<in> set ps. length p = nat (budget + 1) \<and> (\<forall>b \<in> set p. wf_branch S b)"
    "verify_ranges S mpk [0..budget] (Suc j) (map (\<lambda>x. fst (fst x)) xs) ps u' = Inr (True, t')"
    using Cons.IH [of "Suc j" u'] Cons.prems j by auto
  show ?case
    by (rule exI [of _ "bs # ps"], rule exI [of _ t']) (simp add: x u w s(1) bs ps)
qed

lemma seed_Inr:
  assumes "gsub (g2 S) mpk" "gsub (g1 S) vk" "length eid = 32"
    and "0 \<le> nc" "nc < 65536" "0 \<le> b" "b < 65536" "length cts < 65536"
    and cts: "\<forall>(c1, c2) \<in> set cts. gsub (g2 S) c1 \<and> gsub (g2 S) c2"
  shows "\<exists>t. seed_ballot_transcript S eid mpk vk cts nc b = Inr t"
proof -
  have "\<exists>t'. efold (\<lambda>(i, (c1, c2)) t. ebind (append_point S t (idx_tag ''ct.c1'' i) c1)
      (\<lambda>t. append_point S t (idx_tag ''ct.c2'' i) c2)) (enumerate 0 cts) t = Inr t'" for t
  proof (rule efold_total)
    fix x t
    assume x: "x \<in> set (enumerate 0 cts)"
    obtain i c1 c2 where ic: "x = (i, (c1, c2))" by (cases x) auto
    with x have i: "i < length cts" and "(c1, c2) \<in> set cts" by (auto simp: in_enumerate_iff)
    with cts have "gsub (g2 S) c1" "gsub (g2 S) c2" by auto
    then show "\<exists>s'. (case x of (i, (c1, c2)) \<Rightarrow> \<lambda>t. ebind (append_point S t (idx_tag ''ct.c1'' i) c1)
      (\<lambda>t. append_point S t (idx_tag ''ct.c2'' i) c2)) t = Inr s'"
      using length_idx_tag [of "''ct.c1''" i] length_idx_tag [of "''ct.c2''" i] i assms(8)
      by (simp add: ic append_point_Inr)
  qed
  then show ?thesis
    using assms by (simp add: seed_ballot_transcript_def tr_append_Inr append_point_Inr g1_codec)
qed

lemma compress_cts:
  assumes "\<forall>(c1, c2) \<in> set cts. gsub (g2 S) c1 \<and> gsub (g2 S) c2"
  shows "\<exists>cb. emap (compress_ct S) cts = Inr cb \<and> emap (decompress_ct S) cb = Inr cts \<and>
    (\<forall>c \<in> set cb. length (fst c) = 96 \<and> length (snd c) = 96)"
proof -
  let ?c = "\<lambda>c. (gcompress (g2 S) (fst c), gcompress (g2 S) (snd c))"
  have "emap (compress_ct S) cts = Inr (map ?c cts)"
    by (rule emap_Inr_all) (use assms in \<open>auto simp: compress_ct_def g2_codec\<close>)
  moreover have "emap (decompress_ct S \<circ> ?c) cts = Inr (map (\<lambda>x. x) cts)"
    by (rule emap_Inr_all) (use assms in \<open>auto simp: decompress_ct_def g2_codec\<close>)
  moreover have "\<forall>c \<in> set (map ?c cts). length (fst c) = 96 \<and> length (snd c) = 96"
    using assms by (auto simp: g2_codec)
  ultimately show ?thesis by (intro exI [of _ "map ?c cts"]) simp
qed

lemma Enc_sub: "gsub (g2 S) mpk \<Longrightarrow> gsub (g2 S) (fst (Enc S mpk m r)) \<and> gsub (g2 S) (snd (Enc S mpk m r))"
  by (simp add: Enc_def)

lemma proofs_complete:
  assumes mpk: "gsub (g2 S) mpk" and nb: "votes \<noteq> []" "length votes \<le> 0xFFFF" "1 \<le> budget" "budget \<le> 0xFFFE"
    and votes: "\<forall>v \<in> set votes. 0 \<le> v" "sum_list votes = budget"
    and pins: "wf_pins (length votes) (nat (budget + 1)) rnd" and rs: "length rs = length votes"
    and cts: "cts = map (\<lambda>(v, r). Enc S mpk v r) (zip votes rs)"
  shows "\<exists>prs t1 t2 t3 e z. wf_proofs S (nat (budget + 1)) prs \<and> length prs = length votes \<and>
    0 \<le> e \<and> e < CURVE_ORDER \<and> 0 \<le> z \<and> z < CURVE_ORDER \<and>
    prove_ranges S rnd mpk [0..budget] 0 (zip (zip cts rs) votes) t = Inr (prs, t1) \<and>
    verify_ranges S mpk [0..budget] 0 cts prs t = Inr (True, t1) \<and>
    tr_append t1 ''ballot:budget'' [0] = Inr t2 \<and>
    prove_budget_exact S (fst (sum_cts S cts)) (snd (sum_cts S cts)) mpk budget (sum_list rs mod CURVE_ORDER) t2
      (pin_budget_w rnd) (draw_budget rnd) = Inr ((e, z), t3) \<and>
    verify_budget_exact S (fst (sum_cts S cts)) (snd (sum_cts S cts)) mpk budget e z t2 = Inr (True, t3)"
proof -
  have le: "\<forall>v \<in> set votes. v \<le> budget"
    using votes member_le_sum_list_int by blast
  have zipped: "\<forall>((ct, r), v) \<in> set (zip (zip cts rs) votes). ct = Enc S mpk v r \<and> 0 \<le> v \<and> v \<le> budget"
    using votes le rs by (auto simp: cts in_set_zip)
  have cz: "map (\<lambda>x. fst (fst x)) (zip (zip cts rs) votes) = cts"
    using rs by (intro nth_equalityI) (auto simp: cts)
  obtain prs t1 where prs: "prove_ranges S rnd mpk [0..budget] 0 (zip (zip cts rs) votes) t = Inr (prs, t1)"
    "length prs = length votes" "\<forall>p \<in> set prs. length p = nat (budget + 1) \<and> (\<forall>b \<in> set p. wf_branch S b)"
    "verify_ranges S mpk [0..budget] 0 cts prs t = Inr (True, t1)"
    using ranges_complete [OF mpk _ _ pins _ zipped, of 0 t] nb rs unfolding cz by (auto simp: cts)
  have wf: "wf_proofs S (nat (budget + 1)) prs" using prs nb by (auto simp: wf_proofs_def)
  obtain x where "mpk = gx (g2 S) x" using W.gx_cases [OF mpk] by blast
  then have ct: "(fst (sum_cts S cts), snd (sum_cts S cts)) = Enc S mpk budget (sum_list rs)"
    using sum_cts_Enc [of x "zip votes rs"] rs votes(2) by (simp add: cts)
  obtain t2 where t2: "tr_append t1 ''ballot:budget'' [0] = Inr t2" by (simp add: tr_append_Inr)
  show ?thesis using budget_exact_complete [OF mpk ct] prs wf t2 by blast
qed

lemma signature_complete:
  assumes sk: "sk mod CURVE_ORDER \<noteq> 0"
  shows "\<exists>R s sb. schnorr_sign S sk (gx (g1 S) sk) msg k d = Inr (R, s) \<and> schnorr_encode S R s = Inr sb \<and>
    schnorr_decode S sb = Inr (R, s) \<and> schnorr_verify S (gx (g1 S) sk) msg R s = Inr True"
  using schnorr_sign_verify [OF sk] schnorr_decode_encode by meson

lemma build_verify:
  assumes mpk: "gsub (g2 S) mpk" "mpk \<noteq> gid (g2 S)" and sk: "sk mod CURVE_ORDER \<noteq> 0"
    and lens: "length eid = 32" "length ps = 32" and att: "wf_credential att"
    and nb: "votes \<noteq> []" "length votes \<le> 0xFFFF" "1 \<le> budget" "budget \<le> 0xFFFE"
    and size: "69 + 2 * length votes + 256 * nat (budget + 1) * length votes < 2 ^ 32"
    and votes: "\<forall>v \<in> set votes. 0 \<le> v" "sum_list votes = budget"
    and pins: "wf_pins (length votes) (nat (budget + 1)) rnd"
  shows "\<exists>b. build_ballot S mpk eid ps sk (gx (g1 S) sk) att votes (int (length votes)) budget rnd = Inr b \<and>
    verify_ballot_crypto S mpk (bb_election_id b) (bb_pseudonym b) (bb_vk b) (bb_ciphertexts b)
      (bb_zk_proof b) (bb_voter_signature b) att (int (length votes)) budget = Inr (True, None)"
proof -
  let ?n = "length votes" and ?k = "nat (budget + 1)" and ?vk = "gx (g1 S) sk"
  have le: "\<forall>v \<in> set votes. v \<le> budget" using votes member_le_sum_list_int by blast
  have "covers (pin_rs rnd) ?n" using pins by (simp add: wf_pins_def)
  then obtain rs where rs: "length rs = ?n"
    "emap (\<lambda>(j, v). encrypt_vote S rnd mpk j v) (enumerate 0 votes) =
      Inr (map (\<lambda>(v, r). (Enc S mpk v r, r)) (zip votes rs))"
    using encrypt_votes by blast
  define cts where "cts = map (\<lambda>(v, r). Enc S mpk v r) (zip votes rs)"
  have xs: "map (\<lambda>(v, r). (Enc S mpk v r, r)) (zip votes rs) = zip cts rs"
    using rs(1) by (intro nth_equalityI) (auto simp: cts_def)
  have cl: "length cts = ?n" "map fst (zip cts rs) = cts" "map snd (zip cts rs) = rs"
    using rs(1) by (simp_all add: cts_def)
  have cts_sub: "\<forall>(c1, c2) \<in> set cts. gsub (g2 S) c1 \<and> gsub (g2 S) c2"
    using mpk(1) by (auto simp: cts_def Enc_def)
  obtain t where t: "seed_ballot_transcript S eid mpk ?vk cts (int ?n) budget = Inr t"
    using seed_Inr [of mpk ?vk eid "int ?n" budget cts] mpk lens nb cts_sub cl(1) by auto
  obtain c1 c2 where sum: "sum_cts S cts = (c1, c2)" by fastforce
  obtain prs t1 t2 t3 e z where wf: "wf_proofs S ?k prs" "length prs = ?n"
    and ez: "0 \<le> e" "e < CURVE_ORDER" "0 \<le> z" "z < CURVE_ORDER"
    and pr: "prove_ranges S rnd mpk [0..budget] 0 (zip (zip cts rs) votes) t = Inr (prs, t1)"
      "verify_ranges S mpk [0..budget] 0 cts prs t = Inr (True, t1)" "tr_append t1 ''ballot:budget'' [0] = Inr t2"
      "prove_budget_exact S c1 c2 mpk budget (sum_list rs mod CURVE_ORDER) t2 (pin_budget_w rnd)
        (draw_budget rnd) = Inr ((e, z), t3)" "verify_budget_exact S c1 c2 mpk budget e z t2 = Inr (True, t3)"
    using proofs_complete [OF mpk(1) nb votes pins rs(1) cts_def, of t] unfolding sum fst_conv snd_conv by blast
  let ?zk = "bvp_bytes S ?k prs e z"
  have dec: "decode_ballot_validity_proof S ?zk (int ?n) budget = Inr (prs, e, z)"
    using decode_bvp [OF wf(1), of e z] wf(2) ez nb by simp
  obtain cb where cb: "emap (compress_ct S) cts = Inr cb" "emap (decompress_ct S) cb = Inr cts"
    "\<forall>c \<in> set cb. length (fst c) = 96 \<and> length (snd c) = 96"
    using compress_cts [OF cts_sub] by blast
  have cb_len: "length cb = ?n" using emap_length [OF cb(1)] cl(1) by simp
  obtain m where m: "canonical_ballot_message eid ps cb ?zk att = Inr m"
    using lens att cb(3) cb_len nb size length_bvp [OF wf(1), of e z] wf(2) by (simp add: canonical_eq_Inr)
  obtain R s sb where sig: "schnorr_sign S sk ?vk (keccak S m) (pin_schnorr_k rnd) (draw_schnorr rnd) = Inr (R, s)"
    "schnorr_encode S R s = Inr sb" "schnorr_decode S sb = Inr (R, s)" "schnorr_verify S ?vk (keccak S m) R s = Inr True"
    using signature_complete [OF sk] by blast
  have key: "keygen S (Some sk) 0 = Inr (sk mod CURVE_ORDER, ?vk)"
    using sk by (simp add: keygen_def Let_def V.mul_mod)
  have range: "\<not> (\<exists>v \<in> set votes. v < 0 \<or> budget < v)" using votes le by (meson leD)
  have "build_ballot S mpk eid ps sk ?vk att votes (int ?n) budget rnd =
      Inr \<lparr>bb_election_id = eid, bb_pseudonym = ps, bb_vk = gcompress (g1 S) ?vk, bb_ciphertexts = cb,
        bb_zk_proof = ?zk, bb_voter_signature = sb, bb_canonical_preimage = m\<rparr>"
    unfolding build_ballot_def rs(2) xs cl sum key
    by (simp add: range votes(2) cl t pr sum encode_bvp [OF wf(1)] cb m sig g1_codec Let_def del: emap_map)
  moreover have "verify_ballot_crypto S mpk eid ps (gcompress (g1 S) ?vk) cb ?zk sb att (int ?n) budget = Inr (True, None)"
    using nb lens mpk(2) sk
    by (simp add: verify_ballot_crypto_def g1_codec V.gx_eq_id_iff cb_len cb(2) dec t pr sum sig m Suc_le_eq)
  ultimately show ?thesis by auto
qed

end

section \<open>Which ballots make the verifier raise\<close>

text \<open>The stages of an accepting run of the verifier.\<close>

lemma verify_accepts_stages:
  assumes "verify_ballot_crypto S mpk eid ps vkb cb zk sig a nc b = Inr (True, None)"
  shows "\<exists>vk cts prs e z t t1 t2 t3 R s m.
    1 \<le> nc \<and> nc \<le> 0xFFFF \<and> 1 \<le> b \<and> b \<le> 0xFFFE \<and> length eid = 32 \<and> length ps = 32 \<and> mpk \<noteq> gid (g2 S) \<and>
    g1_from_compressed S vkb = Inr vk \<and> vk \<noteq> gid (g1 S) \<and> int (length cb) = nc \<and>
    emap (decompress_ct S) cb = Inr cts \<and> decode_ballot_validity_proof S zk nc b = Inr (prs, e, z) \<and>
    seed_ballot_transcript S eid mpk vk cts nc b = Inr t \<and>
    verify_ranges S mpk [0..b] 0 cts prs t = Inr (True, t1) \<and> tr_append t1 ''ballot:budget'' [0] = Inr t2 \<and>
    verify_budget_exact S (fst (sum_cts S cts)) (snd (sum_cts S cts)) mpk b e z t2 = Inr (True, t3) \<and>
    schnorr_decode S sig = Inr (R, s) \<and> canonical_ballot_message eid ps cb zk a = Inr m \<and>
    schnorr_verify S vk (keccak S m) R s = Inr True"
proof -
  note v = assms [unfolded verify_ballot_crypto_def]
  have g: "1 \<le> nc \<and> nc \<le> 0xFFFF" by (rule ccontr) (use v in simp)
  note v = v [simplified g, simplified]
  have g2: "1 \<le> b \<and> b \<le> 0xFFFE" by (rule ccontr) (use v in simp)
  have g3: "length eid = 32" "length ps = 32" "mpk \<noteq> gid (g2 S)" using v g2 by (simp_all split: if_split_asm)
  obtain vk where vk: "g1_from_compressed S vkb = Inr vk"
    using v g2 g3 by (cases "g1_from_compressed S vkb") simp_all
  have vk0: "vk \<noteq> gid (g1 S)" "int (length cb) = nc" using v g2 g3 vk by (simp_all split: if_split_asm)
  obtain cts where cts: "emap (decompress_ct S) cb = Inr cts"
    using v g2 g3 vk vk0 by (cases "emap (decompress_ct S) cb") simp_all
  obtain prs e z where dec: "decode_ballot_validity_proof S zk nc b = Inr (prs, e, z)"
    using v g2 g3 vk vk0 cts by (cases "decode_ballot_validity_proof S zk nc b") auto
  note facts = g2 g3 vk vk0 cts dec
  obtain t where t: "seed_ballot_transcript S eid mpk vk cts nc b = Inr t"
    using v facts by (cases "seed_ballot_transcript S eid mpk vk cts nc b") simp_all
  obtain ok t1 where r: "verify_ranges S mpk [0..b] 0 cts prs t = Inr (ok, t1)"
    using v facts t by (cases "verify_ranges S mpk [0..b] 0 cts prs t") auto
  have ok: ok by (rule ccontr) (use v facts t r in simp)
  obtain c1 c2 where sum: "sum_cts S cts = (c1, c2)" by fastforce
  obtain t2 where t2: "tr_append t1 ''ballot:budget'' [0] = Inr t2" by (simp add: tr_append_Inr)
  obtain ok2 t3 where r2: "verify_budget_exact S c1 c2 mpk b e z t2 = Inr (ok2, t3)"
    using v facts t r ok sum t2 by (cases "verify_budget_exact S c1 c2 mpk b e z t2") auto
  have ok2: ok2 by (rule ccontr) (use v facts t r ok sum t2 r2 in simp)
  obtain R s where sg: "schnorr_decode S sig = Inr (R, s)"
    using v facts t r ok sum t2 r2 ok2 by (cases "schnorr_decode S sig") auto
  obtain m where m: "canonical_ballot_message eid ps cb zk a = Inr m"
    using v facts t r ok sum t2 r2 ok2 sg by (cases "canonical_ballot_message eid ps cb zk a") simp_all
  have "schnorr_verify S vk (keccak S m) R s = Inr True"
    using v facts t r ok sum t2 r2 ok2 sg m by (auto split: if_split_asm)
  then show ?thesis using g g2 g3 vk vk0 cts dec t r ok sum t2 r2 ok2 sg m by simp
qed

text \<open>The reasons a verdict can carry.\<close>

lemma verify_reasons:
  assumes "verify_ballot_crypto S mpk eid ps vkb cb zk sig a nc b = Inr (ok, why)"
  shows "ok \<and> why = None \<or> \<not> ok \<and> why \<in> {Some ''MALFORMED'', Some ''INVALID_PROOF'', Some ''INVALID_SIGNATURE'', Some ''INVALID_SIGNATURE_PRE_V2''}"
  using assms unfolding verify_ballot_crypto_def
  by (simp only: Let_def split_def ebind_eq_Inr split: if_split_asm sum.split_asm) (auto split: if_split_asm sum.split_asm)

lemma canonical_overflow:
  assumes "canonical_ballot_message eid ps cts zk a = Inr m" and "256 ^ 32 \<le> w"
  shows "canonical_ballot_message eid ps cts zk (a\<lparr>att_weight := w\<rparr>) = Inl OverflowError"
  using assms unfolding canonical_ballot_message_def
  by (simp add: int_to_bytes_eq_Inr split: if_splits) (simp add: int_to_bytes_def)

lemma verify_weight_overflow:
  assumes "verify_ballot_crypto S mpk eid ps vkb cb zk sig a nc b = Inr (True, None)" and "256 ^ 32 \<le> w"
  shows "verify_ballot_crypto S mpk eid ps vkb cb zk sig (a\<lparr>att_weight := w\<rparr>) nc b = Inl OverflowError"
proof -
  obtain vk cts prs e z t t1 t2 t3 R s m where st:
    "1 \<le> nc" "nc \<le> 0xFFFF" "1 \<le> b" "b \<le> 0xFFFE" "length eid = 32" "length ps = 32" "mpk \<noteq> gid (g2 S)"
    "g1_from_compressed S vkb = Inr vk" "vk \<noteq> gid (g1 S)" "int (length cb) = nc"
    "emap (decompress_ct S) cb = Inr cts" "decode_ballot_validity_proof S zk nc b = Inr (prs, e, z)"
    "seed_ballot_transcript S eid mpk vk cts nc b = Inr t"
    "verify_ranges S mpk [0..b] 0 cts prs t = Inr (True, t1)" "tr_append t1 ''ballot:budget'' [0] = Inr t2"
    "verify_budget_exact S (fst (sum_cts S cts)) (snd (sum_cts S cts)) mpk b e z t2 = Inr (True, t3)"
    "schnorr_decode S sig = Inr (R, s)" "canonical_ballot_message eid ps cb zk a = Inr m"
    using verify_accepts_stages [OF assms(1)] by blast
  have "\<not> \<not> (1 \<le> nc \<and> nc \<le> 0xFFFF)" "\<not> \<not> (1 \<le> b \<and> b \<le> 0xFFFE)" "\<not> (length eid \<noteq> 32 \<or> length ps \<noteq> 32)"
    "\<not> int (length cb) \<noteq> nc" using st by simp_all
  then show ?thesis
    unfolding verify_ballot_crypto_def
    by (simp only: st if_False sum.case prod.case ebind_Inr split_def fst_conv snd_conv Let_def
        canonical_overflow [OF st(18) assms(2)] ebind_Inl if_True not_True_eq_False)
qed

lemma read_counts_length: "read_counts bc k rest = Inr (bcs, rest') \<Longrightarrow> bcs = replicate k bc"
  by (induction k arbitrary: rest bcs rest') (auto simp: Let_def split: if_splits)

context crypto_suite
begin

lemma read_branches_sub:
  "read_branches S k rest = Inr (bs, rest') \<Longrightarrow>
     length bs = k \<and> (\<forall>b \<in> set bs. gsub (g2 S) (br_a1 b) \<and> gsub (g2 S) (br_a2 b))"
  by (induction k arbitrary: rest bs rest') (auto dest!: g2_from_compressed_sub)

lemma read_proofs_sub:
  "read_proofs S bcs rest = Inr (ps, rest') \<Longrightarrow> list_all2 (\<lambda>bc p. length p = nat bc \<and>
     (\<forall>b \<in> set p. gsub (g2 S) (br_a1 b) \<and> gsub (g2 S) (br_a2 b))) bcs ps"
  by (induction bcs arbitrary: rest ps rest') (auto dest: read_branches_sub)

lemma decode_bvp_shape:
  assumes "decode_ballot_validity_proof S zk nc b = Inr (prs, e, z)"
  shows "0 \<le> nc \<and> length prs = nat nc \<and> (\<forall>p \<in> set prs. length p = nat (b + 1) \<and>
    (\<forall>br \<in> set p. gsub (g2 S) (br_a1 br) \<and> gsub (g2 S) (br_a2 br)))"
proof -
  note a = assms [unfolded decode_ballot_validity_proof_def Let_def]
  have nc: "int_from_bytes (take 2 (drop 2 zk)) = nc" and a': "length zk \<ge> 4" "zk ! 0 = BVP_VERSION" "zk ! 1 = VARIANT_A_BYTE"
    using a by (simp_all split: if_split_asm)
  obtain bcs rest where c: "read_counts (b + 1) (nat nc) (drop 4 zk) = Inr (bcs, rest)"
    using a a' nc by (cases "read_counts (b + 1) (nat nc) (drop 4 zk)") auto
  obtain prs' rest' where p: "read_proofs S bcs rest = Inr (prs', rest')"
    using a a' nc c by (cases "read_proofs S bcs rest") auto
  have "prs' = prs" using a a' nc c p by (cases rest') (auto split: if_split_asm)
  note p = p [unfolded this]
  have "list_all2 (\<lambda>bc p. length p = nat bc \<and>
     (\<forall>b \<in> set p. gsub (g2 S) (br_a1 b) \<and> gsub (g2 S) (br_a2 b))) (replicate (nat nc) (b + 1)) prs"
    using read_proofs_sub [OF p] read_counts_length [OF c] by simp
  moreover have "0 \<le> nc" using nc int_from_bytes_nonneg by blast
  ultimately show ?thesis by (auto simp: list_all2_conv_all_nth in_set_conv_nth [of _ prs])
qed

lemma verify_or_total:
  assumes "gsub (g2 S) c1" "gsub (g2 S) c2" "gsub (g2 S) mpk" "length ms < 2 ^ 31"
    and "\<forall>br \<in> set bs. gsub (g2 S) (br_a1 br) \<and> gsub (g2 S) (br_a2 br)"
  shows "\<not> isl (verify_or S c1 c2 mpk ms bs t)"
proof (cases "length bs = length ms")
  case True
  then obtain e t' where "or_challenge S t c1 c2 mpk ms (map (\<lambda>b. (br_a1 b, br_a2 b)) bs) = Inr (e, t')"
    using or_challenge_Inr [of c1 c2 mpk "map (\<lambda>b. (br_a1 b, br_a2 b)) bs" ms t] assms by force
  then show ?thesis by (simp add: verify_or_def)
qed (simp add: verify_or_def)

lemma verify_ranges_total:
  assumes "gsub (g2 S) mpk" "length ms < 2 ^ 31"
    and "\<forall>(c1, c2) \<in> set cts. gsub (g2 S) c1 \<and> gsub (g2 S) c2" "length ps = length cts" "j + length cts \<le> 65536"
    and "\<forall>p \<in> set ps. \<forall>br \<in> set p. gsub (g2 S) (br_a1 br) \<and> gsub (g2 S) (br_a2 br)"
  shows "\<not> isl (verify_ranges S mpk ms j cts ps t)"
  using assms(4,3,5,6)
proof (induction ps cts arbitrary: j t rule: list_induct2)
  case Nil
  then show ?case by simp
next
  case (Cons p ps c cts)
  obtain c1 c2 where c: "c = (c1, c2)" by fastforce
  obtain u where u: "tr_append t ''ballot:range'' (be 2 (int j)) = Inr u" by (simp add: tr_append_Inr)
  obtain ok u' where "verify_or S c1 c2 mpk ms p u = Inr (ok, u')"
    using verify_or_total [of c1 c2 mpk ms p u] Cons.prems assms(1,2) by (auto simp: c not_isl_iff)
  moreover have "\<not> isl (verify_ranges S mpk ms (Suc j) cts ps u')"
    by (rule Cons.IH) (use Cons.prems in auto)
  ultimately show ?case using u Cons.prems by (simp add: c)
qed

lemma verify_dleq_total:
  assumes "gsub (g2 S) b1" "gsub (g2 S) p1" "gsub (g2 S) b2" "gsub (g2 S) p2"
  shows "\<not> isl (verify_dleq S b1 p1 b2 p2 e z t)"
  using dleq_challenge_Inr [of b1 p1 b2 p2 "dleq_commitment S b1 p1 e z" "dleq_commitment S b2 p2 e z" t] assms
  by (auto simp: verify_dleq_def dleq_commitment_def)

lemma verify_budget_exact_total:
  assumes "gsub (g2 S) c1" "gsub (g2 S) c2" "gsub (g2 S) mpk"
  shows "\<not> isl (verify_budget_exact S c1 c2 mpk B e z t)"
proof -
  obtain u where "bind_budget t B Exact = Inr u" using bind_budget_Inr by blast
  then show ?thesis
    using verify_dleq_total [of "ggen (g2 S)" c1 mpk "budget_dleq_point2 S c2 B" e z u] assms
    by (simp add: verify_budget_exact_def budget_dleq_point2_def)
qed

lemma sum_cts_sub:
  assumes "\<forall>(c1, c2) \<in> set cts. gsub (g2 S) c1 \<and> gsub (g2 S) c2"
  shows "gsub (g2 S) (fst (sum_cts S cts)) \<and> gsub (g2 S) (snd (sum_cts S cts))"
proof -
  have "gsub (g2 S) (fst (foldl (add_ct S) a cts)) \<and> gsub (g2 S) (snd (foldl (add_ct S) a cts))"
    if "gsub (g2 S) (fst a) \<and> gsub (g2 S) (snd a)" for a
    using assms that by (induction cts arbitrary: a) (auto simp: add_ct_def)
  then show ?thesis by (simp add: sum_cts_add_ct)
qed

lemma decompressed_cts:
  assumes "emap (decompress_ct S) cb = Inr cts"
  shows "length cb = length cts \<and> (\<forall>(c1, c2) \<in> set cts. gsub (g2 S) c1 \<and> gsub (g2 S) c2) \<and>
    (\<forall>c \<in> set cb. length (fst c) = 96 \<and> length (snd c) = 96)"
  using assms
proof (induction cb arbitrary: cts)
  case Nil
  then show ?case by simp
next
  case (Cons c cb)
  then show ?case by (auto simp: decompress_ct_def dest!: g2_from_compressed_sub)
qed

lemma schnorr_decode_sub: "schnorr_decode S b = Inr (R, s) \<Longrightarrow> gsub (g1 S) R"
  by (auto simp: schnorr_decode_def dest: g1_from_compressed_sub split: if_splits)

text \<open>
  With a credential whose integers fit 32 bytes and a proof shorter than 4 GiB the verifier
  always returns a verdict.
\<close>

lemma verify_total:
  assumes mpk: "gsub (g2 S) mpk" and a: "wf_credential a" and zk: "length zk < 2 ^ 32"
  shows "\<not> isl (verify_ballot_crypto S mpk eid ps vkb cb zk sig a nc b)"
proof
  assume "isl (verify_ballot_crypto S mpk eid ps vkb cb zk sig a nc b)"
  note n = this [unfolded verify_ballot_crypto_def]
  have g: "1 \<le> nc" "nc \<le> 0xFFFF" "1 \<le> b" "b \<le> 0xFFFE" "length eid = 32" "length ps = 32" "mpk \<noteq> gid (g2 S)"
    using n by (simp_all split: if_split_asm)
  obtain vk where vk: "g1_from_compressed S vkb = Inr vk"
    using n g by (cases "g1_from_compressed S vkb") simp_all
  have vk0: "vk \<noteq> gid (g1 S)" "int (length cb) = nc" using n g vk by (simp_all split: if_split_asm)
  obtain cts where cts: "emap (decompress_ct S) cb = Inr cts"
    using n g vk vk0 by (cases "emap (decompress_ct S) cb") simp_all
  obtain prs e z where dec: "decode_ballot_validity_proof S zk nc b = Inr (prs, e, z)"
    using n g vk vk0 cts by (cases "decode_ballot_validity_proof S zk nc b") auto
  note facts = g vk vk0 cts dec and c = decompressed_cts [OF cts] and d = decode_bvp_shape [OF dec]
  have vs: "gsub (g1 S) vk" using g1_from_compressed_sub [OF vk] by simp
  obtain t where t: "seed_ballot_transcript S eid mpk vk cts nc b = Inr t"
    using seed_Inr [OF mpk vs g(5), of nc b cts] g c vk0 by auto
  have "\<not> isl (verify_ranges S mpk [0..b] 0 cts prs t)"
    by (rule verify_ranges_total [OF mpk]) (use g c d vk0 in auto)
  then obtain ok t1 where r: "verify_ranges S mpk [0..b] 0 cts prs t = Inr (ok, t1)"
    by (auto simp: not_isl_iff)
  obtain c1 c2 where sum: "sum_cts S cts = (c1, c2)" by fastforce
  obtain t2 where t2: "tr_append t1 ''ballot:budget'' [0] = Inr t2" by (simp add: tr_append_Inr)
  obtain ok2 t3 where r2: "verify_budget_exact S c1 c2 mpk b e z t2 = Inr (ok2, t3)"
    using verify_budget_exact_total [of c1 c2 mpk b e z t2] sum_cts_sub [of cts] c mpk sum by (auto simp: not_isl_iff)
  have oks: ok ok2 using n facts t r sum t2 r2 by (simp_all split: if_split_asm)
  obtain R s where sg: "schnorr_decode S sig = Inr (R, s)"
    using n facts t r oks sum t2 r2 by (cases "schnorr_decode S sig") auto
  obtain m where m: "canonical_ballot_message eid ps cb zk a = Inr m"
    using g c a zk vk0 by (simp add: canonical_eq_Inr)
  obtain m1 where m1: "pre_v1_ballot_message eid ps cb zk = Inr m1"
    using g c zk vk0 by (simp add: pre_v1_ballot_message_def)
  obtain v1 v2 where v: "schnorr_verify S vk (keccak S m) R s = Inr v1" "schnorr_verify S vk (keccak S m1) R s = Inr v2"
    using schnorr_verify_total vs schnorr_decode_sub [OF sg] by metis
  show False using n facts t r oks sum t2 r2 sg m m1 v by (simp split: if_split_asm)
qed

end

section \<open>Properties\<close>

text \<open>
  An honest ballot is accepted. Building a ballot for a vote vector that spends the budget
  exactly returns, whatever randomness is drawn or pinned, and verifying what it returned
  succeeds.
\<close>

theorem honest_ballot_accepted:
  assumes "crypto_suite S" and "gsub (g2 S) mpk" "mpk \<noteq> gid (g2 S)" and "sk mod CURVE_ORDER \<noteq> 0"
    and "length eid = 32" "length ps = 32" and "wf_credential att"
    and "votes \<noteq> []" "length votes \<le> 0xFFFF" "1 \<le> budget" "budget \<le> 0xFFFE"
    and "69 + 2 * length votes + 256 * nat (budget + 1) * length votes < 2 ^ 32"
    and "\<forall>v \<in> set votes. 0 \<le> v" "sum_list votes = budget"
    and "wf_pins (length votes) (nat (budget + 1)) rnd"
  shows "\<exists>b. build_ballot S mpk eid ps sk (mul (g1 S) (ggen (g1 S)) sk) att votes (int (length votes)) budget rnd = Inr b \<and>
    verify_ballot_crypto S mpk (bb_election_id b) (bb_pseudonym b) (bb_vk b) (bb_ciphertexts b)
      (bb_zk_proof b) (bb_voter_signature b) att (int (length votes)) budget = Inr (True, None)"
  using assms by (rule crypto_suite.build_verify)

text \<open>A credential and randomness for the witnesses.\<close>

definition sample_credential :: AttestationCredential where
  "sample_credential = \<lparr>att_election_id = replicate 32 1, att_pseudonym = replicate 32 2, att_vk = replicate 48 3,
     att_weight = 7, att_signature = replicate 80 4, att_scheme = ATTESTATION_V1, att_nonce = 1\<rparr>"

definition sample_randomness :: ballot_randomness where
  "sample_randomness = \<lparr>pin_rs = None, pin_range_w = None, pin_range_sims = None, pin_budget_w = None, pin_schnorr_k = None,
     draw_rs = (\<lambda>_. 3), draw_range = (\<lambda>_ _. 4), draw_budget = 5, draw_schnorr = 6\<rparr>"

lemma sample_wf: "wf_credential sample_credential" "wf_pins n k sample_randomness"
  by (simp_all add: wf_credential_def sample_credential_def wf_pins_def covers_def sample_randomness_def)

lemma zq_points: "gsub (g2 zq_suite) 9" "9 \<noteq> gid (g2 zq_suite)" "5 mod CURVE_ORDER \<noteq> 0"
  by (simp_all add: zq_suite_def zq_group_def CURVE_ORDER_def)

lemma honest_ballot_accepted_witness:
  "\<exists>b. build_ballot zq_suite 9 (replicate 32 1) (replicate 32 2) 5 (mul (g1 zq_suite) (ggen (g1 zq_suite)) 5)
      sample_credential [1, 2] (int (length [1::int, 2])) 3 sample_randomness = Inr b \<and>
    verify_ballot_crypto zq_suite 9 (bb_election_id b) (bb_pseudonym b) (bb_vk b) (bb_ciphertexts b)
      (bb_zk_proof b) (bb_voter_signature b) sample_credential (int (length [1::int, 2])) 3 = Inr (True, None)"
  by (rule honest_ballot_accepted [OF zq.crypto_suite_axioms zq_points]) (simp_all add: sample_wf)

text \<open>
  The signed message determines what it is built from. Two ballots with the same canonical message agree
  in election, pseudonym, ciphertexts, proof and every field of the credential it covers,
  signature bytes included.
\<close>

theorem ballot_message_injective:
  assumes "canonical_ballot_message eid ps cts zk a = Inr m" and "canonical_ballot_message eid' ps' cts' zk' b = Inr m"
  shows "eid = eid' \<and> ps = ps' \<and> cts = cts' \<and> zk = zk' \<and> att_pseudonym a = att_pseudonym b \<and>
    att_vk a = att_vk b \<and> att_weight a = att_weight b \<and> att_nonce a = att_nonce b \<and>
    att_signature a = att_signature b"
  by (rule canonical_inject [OF assms])

lemma ballot_message_injective_witness:
  "\<exists>m. canonical_ballot_message (replicate 32 1) (replicate 32 2) [] [] sample_credential = Inr m \<and>
     canonical_ballot_message (replicate 32 1) (replicate 32 2) [] [] (sample_credential\<lparr>att_weight := 8\<rparr>) \<noteq> Inr m"
proof -
  obtain m where m: "canonical_ballot_message (replicate 32 1) (replicate 32 2) [] [] sample_credential = Inr m"
    using sample_wf(1) by (simp add: canonical_eq_Inr)
  then show ?thesis
    using ballot_message_injective [OF m, of "replicate 32 1" "replicate 32 2" "[]" "[]" "sample_credential\<lparr>att_weight := 8\<rparr>"]
    by (auto simp: sample_credential_def)
qed

text \<open>
  The validity-proof codec is a round trip. Encoding proofs with canonical scalars and
  subgroup points and decoding the bytes for the same number of candidates and branches returns
  them.
\<close>

theorem validity_proof_roundtrip:
  assumes "crypto_suite S" and "wf_proofs S n ps" and "0 \<le> e" "e < CURVE_ORDER" "0 \<le> z" "z < CURVE_ORDER"
  shows "\<exists>buf. encode_ballot_validity_proof S ps e z = Inr buf \<and> length buf = 69 + 2 * length ps + 256 * n * length ps \<and>
    decode_ballot_validity_proof S buf (int (length ps)) (int n - 1) = Inr (ps, e, z)"
  using crypto_suite.encode_bvp [OF assms(1,2)] crypto_suite.decode_bvp [OF assms(1,2), of e z]
    crypto_suite.length_bvp [OF assms(1,2), of e z] assms(3-6) by simp

lemma validity_proof_roundtrip_witness:
  "\<exists>buf. encode_ballot_validity_proof zq_suite [[\<lparr>br_a1 = 1, br_a2 = 2, br_e = 3, br_z = 4\<rparr>]] 5 6 = Inr buf \<and>
    length buf = 69 + 2 * length [[\<lparr>br_a1 = 1::int, br_a2 = 2, br_e = 3, br_z = 4\<rparr>]] + 256 * 1 * length [[\<lparr>br_a1 = 1::int, br_a2 = 2, br_e = 3, br_z = 4\<rparr>]] \<and>
    decode_ballot_validity_proof zq_suite buf (int (length [[\<lparr>br_a1 = 1::int, br_a2 = 2, br_e = 3, br_z = 4\<rparr>]])) (int 1 - 1) =
      Inr ([[\<lparr>br_a1 = 1, br_a2 = 2, br_e = 3, br_z = 4\<rparr>]], 5, 6)"
  by (rule validity_proof_roundtrip [OF zq.crypto_suite_axioms])
    (simp_all add: wf_proofs_def wf_branch_def zq_suite_def zq_group_def CURVE_ORDER_def)

text \<open>
  The verifier returns a verdict. With a subgroup key, a credential whose integers fit 32
  bytes and a proof shorter than 4 GiB, verification never raises, whatever else the ballot
  contains.
\<close>

theorem ballot_verification_total:
  assumes "crypto_suite S" and "gsub (g2 S) mpk" and "wf_credential a" and "length zk < 2 ^ 32"
  shows "\<exists>r. verify_ballot_crypto S mpk eid ps vkb cb zk sig a nc b = Inr r"
  using crypto_suite.verify_total [OF assms] unfolding not_isl_iff .

lemma ballot_verification_total_witness:
  "\<exists>r. verify_ballot_crypto zq_suite 9 (replicate 32 1) (replicate 32 2) (replicate 48 0) [([], [])] [1, 2, 3] [] sample_credential 1 1 = Inr r"
  by (rule ballot_verification_total [OF zq.crypto_suite_axioms zq_points(1)]) (simp_all add: sample_wf)

end
