(* ===== verification/Admission.thy ===== *)
theory Admission
  imports Attestation Ballot Config
begin

text \<open>
  \<^verbatim>\<open>core/admission.py\<close> and the verification half of \<^verbatim>\<open>ports/eligibility.py\<close>: which stored ballots
  the tally counts. Every ballot is validated on its own, then the duplicate policy keeps one
  ballot per pseudonym.
\<close>

section \<open>Validating one ballot\<close>

definition verify_attestation :: "('a, 'b) suite \<Rightarrow> bytes \<Rightarrow> AttestationCredential \<Rightarrow> bytes \<Rightarrow> bool" where
  "verify_attestation S eligibility_key attestation election_id =
     (if att_election_id attestation \<noteq> election_id then False
      else if att_weight attestation < 1 then False
      else if att_scheme attestation \<noteq> ATTESTATION_V1 then False
      else verify_attestation_sig S eligibility_key (att_election_id attestation) (att_pseudonym attestation)
             (att_vk attestation) (att_weight attestation) (att_nonce attestation) (att_signature attestation))"

text \<open>\<open>ExclusionReason(reason)\<close>: the enum member with that value.\<close>

definition exclusion_reason :: "string option \<Rightarrow> ExclusionReason result" where
  "exclusion_reason r =
     (if r = Some ''INVALID_PROOF'' then Inr INVALID_PROOF
      else if r = Some ''INVALID_SIGNATURE'' then Inr INVALID_SIGNATURE
      else if r = Some ''INVALID_ATTESTATION'' then Inr INVALID_ATTESTATION
      else if r = Some ''DUPLICATE_PSEUDONYM'' then Inr DUPLICATE_PSEUDONYM
      else if r = Some ''MALFORMED'' then Inr MALFORMED
      else if r = Some ''OUT_OF_WINDOW'' then Inr OUT_OF_WINDOW
      else Inl ValueError)"

definition validate_ballot ::
    "('a, 'b) suite \<Rightarrow> StoredBallot \<Rightarrow> ElectionConfig \<Rightarrow> 'b \<Rightarrow> ExclusionReason option result" where
  "validate_ballot S sb config mpk =
     (let env = sb_envelope sb; att = be_attestation env in
      if be_election_id env \<noteq> cfg_election_id config then Inr (Some MALFORMED)
      else if (case sb_submitted_at sb of None \<Rightarrow> False | Some ts \<Rightarrow> \<not> is_voting_open config ts)
        then Inr (Some OUT_OF_WINDOW)
      else if att_election_id att \<noteq> cfg_election_id config \<or> att_pseudonym att \<noteq> be_pseudonym env \<or>
              att_vk att \<noteq> be_vk env
        then Inr (Some INVALID_ATTESTATION)
      else if \<not> verify_attestation S (cfg_eligibility_key config) att (cfg_election_id config)
        then Inr (Some INVALID_ATTESTATION)
      else
        ebind (verify_ballot_crypto S mpk (be_election_id env) (be_pseudonym env) (be_vk env)
                 (map (\<lambda>ct. (ct_c1 ct, ct_c2 ct)) (be_ciphertexts env)) (be_zk_proof env)
                 (be_voter_signature env) att (cfg_num_candidates config) (cfg_budget config))
          (\<lambda>(ok, reason).
          if \<not> ok then
            (if reason = Some ''INVALID_SIGNATURE_PRE_V2'' then Inr (Some INVALID_SIGNATURE)
             else ebind (exclusion_reason reason) (\<lambda>r. Inr (Some r)))
          else Inr None))"

section \<open>Duplicates and admission\<close>

definition rank :: "StoredBallot \<Rightarrow> int \<times> int" where
  "rank sb = (att_nonce (be_attestation (sb_envelope sb)), sb_sequence_number sb)"

text \<open>Python's order on pairs of integers.\<close>

definition pair_less :: "int \<times> int \<Rightarrow> int \<times> int \<Rightarrow> bool" where
  "pair_less a b \<longleftrightarrow> fst a < fst b \<or> fst a = fst b \<and> snd a < snd b"

definition beats :: "DuplicatePolicy \<Rightarrow> int \<times> int \<Rightarrow> int \<times> int \<Rightarrow> bool" where
  "beats policy r cur = (if policy = LAST_WINS then pair_less cur r else pair_less r cur)"

text \<open>
  One pass over the valid ballots with the two dictionaries \<open>winner_rank\<close> and
  \<open>winner_seq\<close>.
\<close>

definition winner_step ::
    "DuplicatePolicy \<Rightarrow> (bytes \<rightharpoonup> int \<times> int) \<times> (bytes \<rightharpoonup> int) \<Rightarrow> StoredBallot \<Rightarrow>
     (bytes \<rightharpoonup> int \<times> int) \<times> (bytes \<rightharpoonup> int)" where
  "winner_step policy w sb =
     (let pseud = be_pseudonym (sb_envelope sb); r = rank sb in
      if (case fst w pseud of None \<Rightarrow> True | Some cur \<Rightarrow> beats policy r cur)
      then ((fst w)(pseud \<mapsto> r), (snd w)(pseud \<mapsto> sb_sequence_number sb))
      else w)"

definition winners :: "StoredBallot list \<Rightarrow> DuplicatePolicy \<Rightarrow> (bytes \<rightharpoonup> int \<times> int) \<times> (bytes \<rightharpoonup> int)" where
  "winners valid policy = foldl (winner_step policy) (Map.empty, Map.empty) valid"

text \<open>
  \<open>set(winner_seq.values())\<close> is read off the pseudonyms of the list, the keys of the
  dictionary.
\<close>

definition winner_seqs :: "StoredBallot list \<Rightarrow> DuplicatePolicy \<Rightarrow> int list" where
  "winner_seqs valid policy =
     List.map_filter (\<lambda>sb. snd (winners valid policy) (be_pseudonym (sb_envelope sb))) valid"

definition duplicate_losers :: "StoredBallot list \<Rightarrow> DuplicatePolicy \<Rightarrow> int list" where
  "duplicate_losers valid policy =
     filter (\<lambda>s. s \<notin> set (winner_seqs valid policy)) (map sb_sequence_number valid)"

record AdmittedBallot =
  ab_sequence_number :: int
  ab_envelope :: BallotEnvelope
  ab_weight :: int

record AdmissionResult =
  ar_admitted :: "AdmittedBallot list"
  ar_exclusions :: "Exclusion list"
  ar_total_admitted_weight :: int

text \<open>The first loop: the valid ballots in order, and the exclusions in order.\<close>

definition validate_all ::
    "('a, 'b) suite \<Rightarrow> ElectionConfig \<Rightarrow> 'b \<Rightarrow> StoredBallot list \<Rightarrow> (StoredBallot list \<times> Exclusion list) result" where
  "validate_all S config mpk ballots =
     efold (\<lambda>sb (valid, exclusions).
              ebind (validate_ballot S sb config mpk) (\<lambda>reason.
              Inr (case reason of
                     None \<Rightarrow> (valid @ [sb], exclusions)
                   | Some r \<Rightarrow> (valid, exclusions @ [\<lparr>ex_sequence_number = sb_sequence_number sb, ex_reason = r\<rparr>]))))
       ballots ([], [])"

definition admitted_of :: "StoredBallot \<Rightarrow> AdmittedBallot" where
  "admitted_of sb =
     \<lparr>ab_sequence_number = sb_sequence_number sb, ab_envelope = sb_envelope sb,
      ab_weight = att_weight (be_attestation (sb_envelope sb))\<rparr>"

definition duplicate_exclusion :: "StoredBallot \<Rightarrow> Exclusion" where
  "duplicate_exclusion sb = \<lparr>ex_sequence_number = sb_sequence_number sb, ex_reason = DUPLICATE_PSEUDONYM\<rparr>"

definition admit ::
    "('a, 'b) suite \<Rightarrow> StoredBallot list \<Rightarrow> ElectionConfig \<Rightarrow> bytes \<Rightarrow> AdmissionResult result" where
  "admit S ballots config mpk_bytes =
     ebind (g2_from_compressed S mpk_bytes) (\<lambda>mpk.
     ebind (validate_all S config mpk ballots) (\<lambda>(valid, exclusions).
     let losers = duplicate_losers valid (cfg_duplicate_policy config);
         admitted = map admitted_of (filter (\<lambda>sb. sb_sequence_number sb \<notin> set losers) valid);
         exclusions = exclusions @
           map duplicate_exclusion (filter (\<lambda>sb. sb_sequence_number sb \<in> set losers) valid)
     in Inr \<lparr>ar_admitted = admitted, ar_exclusions = sort_key ex_sequence_number exclusions,
             ar_total_admitted_weight = sum_list (map ab_weight admitted)\<rparr>))"

section \<open>The validation loop\<close>

definition excluded_as :: "('a, 'b) suite \<Rightarrow> ElectionConfig \<Rightarrow> 'b \<Rightarrow> StoredBallot \<Rightarrow> Exclusion option" where
  "excluded_as S config mpk sb =
     (case validate_ballot S sb config mpk of
        Inr (Some r) \<Rightarrow> Some \<lparr>ex_sequence_number = sb_sequence_number sb, ex_reason = r\<rparr>
      | _ \<Rightarrow> None)"

lemma validate_all_acc:
  "efold (\<lambda>sb (valid, exclusions).
      ebind (validate_ballot S sb config mpk) (\<lambda>reason.
      Inr (case reason of
             None \<Rightarrow> (valid @ [sb], exclusions)
           | Some r \<Rightarrow> (valid, exclusions @ [\<lparr>ex_sequence_number = sb_sequence_number sb, ex_reason = r\<rparr>]))))
    bs (v, x) = Inr (v', x') \<longleftrightarrow>
   (\<forall>sb \<in> set bs. \<not> isl (validate_ballot S sb config mpk)) \<and>
   v' = v @ filter (\<lambda>sb. validate_ballot S sb config mpk = Inr None) bs \<and>
   x' = x @ List.map_filter (excluded_as S config mpk) bs"
proof (induction bs arbitrary: v x)
  case Nil
  then show ?case by (auto simp: map_filter_simps)
next
  case (Cons sb bs)
  show ?case
  proof (cases "validate_ballot S sb config mpk")
    case (Inr r)
    then show ?thesis by (cases r) (auto simp: Cons.IH map_filter_simps excluded_as_def)
  qed simp
qed

lemma validate_all_eq:
  "validate_all S config mpk bs = Inr (v, x) \<longleftrightarrow>
     (\<forall>sb \<in> set bs. \<not> isl (validate_ballot S sb config mpk)) \<and>
     v = filter (\<lambda>sb. validate_ballot S sb config mpk = Inr None) bs \<and>
     x = List.map_filter (excluded_as S config mpk) bs"
  unfolding validate_all_def validate_all_acc by simp

section \<open>One winner per pseudonym\<close>

definition pseud :: "StoredBallot \<Rightarrow> bytes" where
  "pseud sb = be_pseudonym (sb_envelope sb)"

text \<open>The winner by specification: the ballot that beats every other one of its pseudonym.\<close>

definition is_winner :: "DuplicatePolicy \<Rightarrow> StoredBallot list \<Rightarrow> StoredBallot \<Rightarrow> bool" where
  "is_winner policy valid sb \<longleftrightarrow>
     (\<forall>sb' \<in> set valid. pseud sb' = pseud sb \<longrightarrow> sb' = sb \<or> beats policy (rank sb) (rank sb'))"

lemma pair_less_linear: "pair_less a b \<or> a = b \<or> pair_less b a"
  by (cases a; cases b) (auto simp: pair_less_def)

lemma beats_linear: "a \<noteq> b \<Longrightarrow> beats policy a b \<or> beats policy b a"
  using pair_less_linear [of a b] by (auto simp: beats_def)

lemma beats_asym: "beats policy a b \<Longrightarrow> \<not> beats policy b a"
  by (auto simp: beats_def pair_less_def split: if_splits)

lemma beats_trans: "beats policy a b \<Longrightarrow> beats policy b c \<Longrightarrow> beats policy a c"
  by (auto simp: beats_def pair_less_def split: if_splits)

lemma winners_snoc: "winners (bs @ [sb]) policy = winner_step policy (winners bs policy) sb"
  by (simp add: winners_def)

text \<open>The two dictionaries describe an unbeaten ballot of the pseudonym.\<close>

lemma winners_inv:
  "case fst (winners bs policy) p of
     None \<Rightarrow> snd (winners bs policy) p = None \<and> (\<forall>sb \<in> set bs. pseud sb \<noteq> p)
   | Some r \<Rightarrow> \<exists>sb \<in> set bs. pseud sb = p \<and> rank sb = r \<and>
        snd (winners bs policy) p = Some (sb_sequence_number sb) \<and>
        (\<forall>sb' \<in> set bs. pseud sb' = p \<longrightarrow> \<not> beats policy (rank sb') r)"
proof (induction bs rule: rev_induct)
  case Nil
  then show ?case by (simp add: winners_def)
next
  case (snoc b bs)
  show ?case
  proof (cases "pseud b = p")
    case False
    then show ?thesis
      using snoc by (auto simp: winners_snoc winner_step_def Let_def pseud_def split: option.splits)
  next
    case True
    have irr: "\<not> beats policy (rank b) (rank b)" using beats_asym by blast
    show ?thesis
    proof (cases "fst (winners bs policy) p")
      case None
      with snoc True irr show ?thesis
        by (auto simp: winners_snoc winner_step_def Let_def pseud_def)
    next
      case (Some r)
      then obtain sb where sb: "sb \<in> set bs" "pseud sb = p" "rank sb = r"
        "snd (winners bs policy) p = Some (sb_sequence_number sb)"
        "\<forall>sb' \<in> set bs. pseud sb' = p \<longrightarrow> \<not> beats policy (rank sb') r"
        using snoc by auto
      show ?thesis
      proof (cases "beats policy (rank b) r")
        case True
        have "\<not> beats policy (rank sb') (rank b)" if "sb' \<in> set bs" "pseud sb' = p" for sb'
          using that sb(5) True beats_trans by blast
        with True Some \<open>pseud b = p\<close> irr show ?thesis
          by (auto simp: winners_snoc winner_step_def Let_def pseud_def)
      next
        case False
        with Some \<open>pseud b = p\<close> sb show ?thesis
          by (auto simp: winners_snoc winner_step_def Let_def pseud_def)
      qed
    qed
  qed
qed

lemma distinct_seq_inject:
  "distinct (map sb_sequence_number bs) \<Longrightarrow> a \<in> set bs \<Longrightarrow> b \<in> set bs \<Longrightarrow>
     sb_sequence_number a = sb_sequence_number b \<Longrightarrow> a = b"
  by (meson distinct_map inj_onD)

lemma loser_iff:
  assumes d: "distinct (map sb_sequence_number bs)" and sb: "sb \<in> set bs"
  shows "sb_sequence_number sb \<in> set (duplicate_losers bs policy) \<longleftrightarrow> \<not> is_winner policy bs sb"
proof -
  obtain r w where w: "w \<in> set bs" "pseud w = pseud sb" "rank w = r"
      "snd (winners bs policy) (pseud sb) = Some (sb_sequence_number w)"
      "\<forall>sb' \<in> set bs. pseud sb' = pseud sb \<longrightarrow> \<not> beats policy (rank sb') r"
    using winners_inv [of bs policy "pseud sb"] sb by (auto split: option.splits)
  have winner: "is_winner policy bs sb \<longleftrightarrow> sb = w"
  proof
    assume "is_winner policy bs sb"
    then show "sb = w" using w sb by (auto simp: is_winner_def)
  next
    assume "sb = w"
    have "beats policy (rank w) (rank b)" if "b \<in> set bs" "pseud b = pseud sb" "b \<noteq> w" for b
    proof -
      have "rank b \<noteq> rank w" using that w(1) d distinct_seq_inject by (auto simp: rank_def)
      then show ?thesis using that w beats_linear by blast
    qed
    with \<open>sb = w\<close> show "is_winner policy bs sb" by (auto simp: is_winner_def)
  qed
  have "sb_sequence_number sb \<in> set (winner_seqs bs policy) \<longleftrightarrow> sb = w"
  proof
    assume "sb_sequence_number sb \<in> set (winner_seqs bs policy)"
    then obtain b where b: "b \<in> set bs" "snd (winners bs policy) (pseud b) = Some (sb_sequence_number sb)"
      by (auto simp: winner_seqs_def map_filter_def pseud_def)
    obtain w' where "w' \<in> set bs" "pseud w' = pseud b" "snd (winners bs policy) (pseud b) = Some (sb_sequence_number w')"
      using winners_inv [of bs policy "pseud b"] b by (auto split: option.splits)
    then have "w' = sb" using b sb d distinct_seq_inject by auto
    then have "pseud b = pseud sb" using \<open>pseud w' = pseud b\<close> by simp
    then have "sb_sequence_number sb = sb_sequence_number w" using b(2) w(4) by simp
    then show "sb = w" using sb w(1) d distinct_seq_inject by blast
  next
    assume "sb = w"
    then show "sb_sequence_number sb \<in> set (winner_seqs bs policy)"
      using w(4) sb by (force simp: winner_seqs_def map_filter_def pseud_def)
  qed
  then show ?thesis using winner sb by (auto simp: duplicate_losers_def)
qed

section \<open>Admission by specification\<close>

definition valid_ballots :: "('a, 'b) suite \<Rightarrow> ElectionConfig \<Rightarrow> 'b \<Rightarrow> StoredBallot list \<Rightarrow> StoredBallot list" where
  "valid_ballots S config mpk bs = filter (\<lambda>sb. validate_ballot S sb config mpk = Inr None) bs"

definition winning_ballots :: "DuplicatePolicy \<Rightarrow> StoredBallot list \<Rightarrow> StoredBallot list" where
  "winning_ballots policy valid = filter (is_winner policy valid) valid"

lemma admit_spec:
  assumes d: "distinct (map sb_sequence_number bs)" and mpk: "g2_from_compressed S mpkb = Inr mpk"
    and total: "\<forall>sb \<in> set bs. \<not> isl (validate_ballot S sb config mpk)"
  shows "\<exists>r. admit S bs config mpkb = Inr r \<and>
    ar_admitted r = map admitted_of (winning_ballots (cfg_duplicate_policy config) (valid_ballots S config mpk bs)) \<and>
    ar_exclusions r = sort_key ex_sequence_number (List.map_filter (excluded_as S config mpk) bs @
      map duplicate_exclusion (filter (\<lambda>sb. \<not> is_winner (cfg_duplicate_policy config) (valid_ballots S config mpk bs) sb)
        (valid_ballots S config mpk bs))) \<and>
    ar_total_admitted_weight r = (\<Sum>a \<leftarrow> ar_admitted r. ab_weight a)"
proof -
  let ?v = "valid_ballots S config mpk bs" and ?p = "cfg_duplicate_policy config"
  have dv: "distinct (map sb_sequence_number ?v)"
    using d by (simp add: valid_ballots_def distinct_map_filter)
  have a: "filter (\<lambda>sb. sb_sequence_number sb \<notin> set (duplicate_losers ?v ?p)) ?v = winning_ballots ?p ?v"
    unfolding winning_ballots_def by (rule filter_cong) (simp_all add: loser_iff [OF dv])
  have x: "filter (\<lambda>sb. sb_sequence_number sb \<in> set (duplicate_losers ?v ?p)) ?v = filter (\<lambda>sb. \<not> is_winner ?p ?v sb) ?v"
    by (rule filter_cong) (simp_all add: loser_iff [OF dv])
  have "validate_all S config mpk bs = Inr (?v, List.map_filter (excluded_as S config mpk) bs)"
    using total by (simp add: validate_all_eq valid_ballots_def)
  then show ?thesis by (simp add: admit_def mpk a x)
qed

lemma admit_Inr_total:
  assumes "admit S bs config mpkb = Inr r"
  shows "\<exists>mpk. g2_from_compressed S mpkb = Inr mpk \<and> (\<forall>sb \<in> set bs. \<not> isl (validate_ballot S sb config mpk))"
  using assms by (auto simp: admit_def validate_all_eq)

text \<open>A ballot on which validation raises takes the whole admission down.\<close>

lemma admit_raises:
  assumes "g2_from_compressed S mpkb = Inr mpk" and "sb \<in> set bs" and "isl (validate_ballot S sb config mpk)"
  shows "isl (admit S bs config mpkb)"
  using assms admit_Inr_total [of S bs config mpkb] by (metis not_isl_iff sum.inject(2))

lemma distinct_pseud_winners:
  assumes "distinct (map sb_sequence_number v)"
  shows "distinct (map pseud (winning_ballots policy v))"
proof -
  have "distinct v" using assms by (simp add: distinct_map)
  moreover have "inj_on pseud (set (winning_ballots policy v))"
  proof (rule inj_onI)
    fix a b
    assume "a \<in> set (winning_ballots policy v)" "b \<in> set (winning_ballots policy v)" "pseud a = pseud b"
    then show "a = b"
      using beats_asym [of policy "rank a" "rank b"] by (auto simp: winning_ballots_def is_winner_def)
  qed
  ultimately show ?thesis by (simp add: distinct_map winning_ballots_def)
qed

text \<open>Every pseudonym with a valid ballot has a winner.\<close>

lemma winner_exists:
  assumes d: "distinct (map sb_sequence_number v)" and sb: "sb \<in> set v"
  shows "\<exists>w \<in> set (winning_ballots policy v). pseud w = pseud sb \<and> (w = sb \<or> beats policy (rank w) (rank sb))"
proof -
  obtain w where w: "w \<in> set v" "pseud w = pseud sb" "\<forall>sb' \<in> set v. pseud sb' = pseud sb \<longrightarrow> \<not> beats policy (rank sb') (rank w)"
    using winners_inv [of v policy "pseud sb"] sb by (auto split: option.splits)
  have "b = w \<or> beats policy (rank w) (rank b)" if "b \<in> set v" "pseud b = pseud sb" for b
  proof (cases "b = w")
    case False
    then have "rank b \<noteq> rank w" using that w(1) d distinct_seq_inject by (auto simp: rank_def)
    then show ?thesis using that w(3) beats_linear by blast
  qed simp
  then show ?thesis using w(1,2) sb by (intro bexI [of _ w]) (auto simp: winning_ballots_def is_winner_def)
qed

lemma admitted_winners:
  assumes "admit S bs config mpkb = Inr adm" and "g2_from_compressed S mpkb = Inr mpk" and "distinct (map sb_sequence_number bs)"
  shows "ar_admitted adm = map admitted_of (winning_ballots (cfg_duplicate_policy config) (valid_ballots S config mpk bs))"
proof -
  have "\<forall>sb \<in> set bs. \<not> isl (validate_ballot S sb config mpk)" using admit_Inr_total [OF assms(1)] assms(2) by auto
  from admit_spec [OF assms(3,2) this] assms(1) show ?thesis by auto
qed

text \<open>A valid ballot decides its pseudonym against every ballot it beats.\<close>

lemma beaten_not_admitted:
  assumes adm: "admit S bs config mpkb = Inr adm" "g2_from_compressed S mpkb = Inr mpk" "distinct (map sb_sequence_number bs)"
    and w: "w \<in> set bs" "validate_ballot S w config mpk = Inr None"
    and l: "l \<in> set bs" "validate_ballot S l config mpk = Inr None \<Longrightarrow> pseud l = pseud w" "beats (cfg_duplicate_policy config) (rank w) (rank l)"
  shows "admitted_of l \<notin> set (ar_admitted adm)"
proof
  let ?v = "valid_ballots S config mpk bs" and ?p = "cfg_duplicate_policy config"
  assume "admitted_of l \<in> set (ar_admitted adm)"
  then obtain sb where sb: "sb \<in> set bs" "is_winner ?p ?v sb" "admitted_of l = admitted_of sb" "validate_ballot S sb config mpk = Inr None"
    by (auto simp: admitted_winners [OF adm] winning_ballots_def valid_ballots_def)
  then have "sb = l" using distinct_seq_inject [OF adm(3) sb(1) l(1)] by (simp add: admitted_of_def)
  moreover have "w \<in> set ?v" using w by (simp add: valid_ballots_def)
  ultimately have "w = l \<or> beats ?p (rank l) (rank w)" using sb(2,4) l(2) by (auto simp: is_winner_def)
  then show False using l(3) beats_asym by blast
qed

lemma pseudonym_counted:
  assumes adm: "admit S bs config mpkb = Inr adm" "g2_from_compressed S mpkb = Inr mpk" "distinct (map sb_sequence_number bs)"
    and w: "w \<in> set bs" "validate_ballot S w config mpk = Inr None"
  shows "\<exists>sb. admitted_of sb \<in> set (ar_admitted adm) \<and> pseud sb = pseud w \<and> (sb = w \<or> beats (cfg_duplicate_policy config) (rank sb) (rank w))"
proof -
  have "w \<in> set (valid_ballots S config mpk bs)" using w by (simp add: valid_ballots_def)
  moreover have "distinct (map sb_sequence_number (valid_ballots S config mpk bs))" using adm(3) by (simp add: valid_ballots_def distinct_map_filter)
  ultimately show ?thesis using winner_exists [of "valid_ballots S config mpk bs" w "cfg_duplicate_policy config"]
    by (auto simp: admitted_winners [OF adm])
qed

text \<open>Every ballot is admitted or excluded, never both, and exclusions are unique.\<close>

lemma admit_partition_seqs:
  assumes d: "distinct (map sb_sequence_number bs)" and total: "\<forall>sb \<in> set bs. \<not> isl (validate_ballot S sb config mpk)"
  shows "distinct (map sb_sequence_number (winning_ballots p (valid_ballots S config mpk bs)) @
      map ex_sequence_number (List.map_filter (excluded_as S config mpk) bs @
        map duplicate_exclusion (filter (\<lambda>sb. \<not> is_winner p (valid_ballots S config mpk bs) sb) (valid_ballots S config mpk bs))))
    \<and> set (map sb_sequence_number (winning_ballots p (valid_ballots S config mpk bs)) @
      map ex_sequence_number (List.map_filter (excluded_as S config mpk) bs @
        map duplicate_exclusion (filter (\<lambda>sb. \<not> is_winner p (valid_ballots S config mpk bs) sb) (valid_ballots S config mpk bs))))
      = set (map sb_sequence_number bs)"
proof -
  let ?v = "valid_ballots S config mpk bs"
  let ?inv = "filter (\<lambda>sb. validate_ballot S sb config mpk \<noteq> Inr None) bs"
  let ?l = "filter (\<lambda>sb. \<not> is_winner p ?v sb) ?v"
  have x: "map ex_sequence_number (List.map_filter (excluded_as S config mpk) bs) = map sb_sequence_number ?inv"
    using total by (induction bs) (auto simp: map_filter_simps excluded_as_def not_isl_iff split: sum.splits option.splits)
  have l: "map ex_sequence_number (map duplicate_exclusion ?l) = map sb_sequence_number ?l"
    by (simp add: duplicate_exclusion_def)
  have parts: "set (winning_ballots p ?v @ ?inv @ ?l) = set bs" by (auto simp: winning_ballots_def valid_ballots_def)
  have db: "distinct bs" using d by (simp add: distinct_map)
  have "distinct (winning_ballots p ?v @ ?inv @ ?l)" using db by (auto simp: winning_ballots_def valid_ballots_def)
  moreover have "inj_on sb_sequence_number (set bs)" using d by (simp add: distinct_map)
  ultimately have "distinct (map sb_sequence_number (winning_ballots p ?v @ ?inv @ ?l))"
    unfolding distinct_map parts by blast
  moreover have "set (map sb_sequence_number (winning_ballots p ?v @ ?inv @ ?l)) = set (map sb_sequence_number bs)"
    unfolding set_map parts ..
  ultimately show ?thesis unfolding map_append x l by (simp only: map_append)
qed

text \<open>A ballot beaten by another valid one never changes who wins.\<close>

lemma winning_insert_beaten:
  assumes d: "distinct (map sb_sequence_number (xs @ b # ys))"
    and w: "w \<in> set (xs @ ys)" "pseud w = pseud b" "beats policy (rank w) (rank b)"
  shows "winning_ballots policy (xs @ b # ys) = winning_ballots policy (xs @ ys)"
proof -
  have nb: "\<not> is_winner policy (xs @ b # ys) b"
  proof
    assume "is_winner policy (xs @ b # ys) b"
    moreover have "w \<noteq> b" using d w(1) by auto
    ultimately have "beats policy (rank b) (rank w)" using w(1,2) by (auto simp: is_winner_def)
    then show False using w(3) beats_asym by blast
  qed
  have same: "is_winner policy (xs @ b # ys) sb \<longleftrightarrow> is_winner policy (xs @ ys) sb" if "sb \<in> set (xs @ ys)" for sb
  proof
    assume "is_winner policy (xs @ ys) sb"
    then have "beats policy (rank sb) (rank b) \<or> sb = b" if "pseud b = pseud sb"
      using that w beats_trans unfolding is_winner_def by metis
    with \<open>is_winner policy (xs @ ys) sb\<close> show "is_winner policy (xs @ b # ys) sb"
      by (auto simp: is_winner_def)
  qed (auto simp: is_winner_def)
  have "filter (is_winner policy (xs @ b # ys)) zs = filter (is_winner policy (xs @ ys)) zs"
    if "set zs \<subseteq> set (xs @ ys)" for zs
    by (rule filter_cong) (use that same in auto)
  from this [of xs] this [of ys] nb show ?thesis by (simp add: winning_ballots_def)
qed

section \<open>Which ballots validation accepts\<close>

definition to_envelope :: "BuiltBallot \<Rightarrow> AttestationCredential \<Rightarrow> BallotEnvelope" where
  "to_envelope b att =
     \<lparr>be_election_id = bb_election_id b, be_pseudonym = bb_pseudonym b, be_vk = bb_vk b,
      be_ciphertexts = map (\<lambda>(c1, c2). \<lparr>ct_c1 = c1, ct_c2 = c2\<rparr>) (bb_ciphertexts b),
      be_zk_proof = bb_zk_proof b, be_voter_signature = bb_voter_signature b, be_attestation = att\<rparr>"

lemma built_fields:
  "build_ballot S mpk eid ps sk vk att votes nc budget rnd = Inr b \<Longrightarrow>
     bb_election_id b = eid \<and> bb_pseudonym b = ps \<and> g1_to_compressed S vk = Inr (bb_vk b)"
  by (auto simp: build_ballot_def Let_def split_def split: if_split_asm)

lemma validate_accepts_stages:
  assumes "validate_ballot S sb config mpk = Inr None"
  shows "be_election_id (sb_envelope sb) = cfg_election_id config"
    "case sb_submitted_at sb of None \<Rightarrow> True | Some ts \<Rightarrow> is_voting_open config ts"
    "att_election_id (be_attestation (sb_envelope sb)) = cfg_election_id config"
    "att_pseudonym (be_attestation (sb_envelope sb)) = be_pseudonym (sb_envelope sb)"
    "att_vk (be_attestation (sb_envelope sb)) = be_vk (sb_envelope sb)"
    "verify_attestation S (cfg_eligibility_key config) (be_attestation (sb_envelope sb)) (cfg_election_id config)"
    "\<exists>why. verify_ballot_crypto S mpk (be_election_id (sb_envelope sb)) (be_pseudonym (sb_envelope sb))
       (be_vk (sb_envelope sb)) (map (\<lambda>ct. (ct_c1 ct, ct_c2 ct)) (be_ciphertexts (sb_envelope sb)))
       (be_zk_proof (sb_envelope sb)) (be_voter_signature (sb_envelope sb)) (be_attestation (sb_envelope sb))
       (cfg_num_candidates config) (cfg_budget config) = Inr (True, why)"
  using assms
  by (auto simp: validate_ballot_def Let_def split: if_split_asm option.split_asm option.split)

lemma verify_attestation_guard:
  assumes "verify_attestation S ek a eid"
  shows "att_election_id a = eid \<and> length (att_pseudonym a) = 32 \<and> length (att_vk a) = 48 \<and>
    1 \<le> att_weight a \<and> 1 \<le> att_nonce a \<and> length (att_signature a) = 80"
proof -
  have v: "verify_attestation_sig S ek eid (att_pseudonym a) (att_vk a) (att_weight a) (att_nonce a) (att_signature a)"
    and e: "att_election_id a = eid"
    using assms by (simp_all add: verify_attestation_def split: if_split_asm)
  have "length (att_signature a) = 80"
    by (rule ccontr) (use v in \<open>auto simp: verify_attestation_sig_def schnorr_decode_def SCHNORR_BYTES_def
      split: if_split_asm sum.split_asm\<close>)
  then show ?thesis using verify_attestation_sig_guard [OF v] e by simp
qed

context crypto_suite
begin

lemma honest_ballot_valid:
  assumes cfg: "config_ok config" and lens: "length (cfg_election_id config) = 32" "length ps = 32"
    and mpk: "gsub (g2 S) mpk" "mpk \<noteq> gid (g2 S)"
    and keys: "elig_sk mod CURVE_ORDER \<noteq> 0" "sk mod CURVE_ORDER \<noteq> 0"
      "cfg_eligibility_key config = gcompress (g1 S) (gx (g1 S) elig_sk)"
    and wn: "1 \<le> w" "w < 256 ^ 32" "1 \<le> n" "n < 256 ^ 32"
    and votes: "int (length votes) = cfg_num_candidates config" "\<forall>v \<in> set votes. 0 \<le> v" "sum_list votes = cfg_budget config"
    and pins: "wf_pins (length votes) (nat (cfg_budget config + 1)) rnd"
    and time: "case ts of None \<Rightarrow> True | Some ts \<Rightarrow> is_voting_open config ts"
  shows "\<exists>sig att b. sign_attestation S elig_sk (gx (g1 S) elig_sk) (cfg_election_id config) ps
      (gcompress (g1 S) (gx (g1 S) sk)) w n k d = Inr sig \<and>
    att = \<lparr>att_election_id = cfg_election_id config, att_pseudonym = ps, att_vk = gcompress (g1 S) (gx (g1 S) sk),
      att_weight = w, att_signature = sig, att_scheme = ATTESTATION_V1, att_nonce = n\<rparr> \<and>
    build_ballot S mpk (cfg_election_id config) ps sk (gx (g1 S) sk) att votes (cfg_num_candidates config)
      (cfg_budget config) rnd = Inr b \<and>
    validate_ballot S \<lparr>sb_sequence_number = seq, sb_envelope = to_envelope b att, sb_submitted_at = ts\<rparr> config mpk = Inr None"
proof -
  note c = config_ok_facts [OF cfg]
  have vk48: "length (gcompress (g1 S) (gx (g1 S) sk)) = 48" by (simp add: g1_codec)
  obtain sig where sig: "sign_attestation S elig_sk (gx (g1 S) elig_sk) (cfg_election_id config) ps
      (gcompress (g1 S) (gx (g1 S) sk)) w n k d = Inr sig" "length sig = 80"
    "verify_attestation_sig S (cfg_eligibility_key config) (cfg_election_id config) ps
      (gcompress (g1 S) (gx (g1 S) sk)) w n sig"
    using sign_verify_attestation [OF keys(1) lens vk48 wn(1,3)] keys(3) by metis
  define att where "att = \<lparr>att_election_id = cfg_election_id config, att_pseudonym = ps,
    att_vk = gcompress (g1 S) (gx (g1 S) sk), att_weight = w, att_signature = sig, att_scheme = ATTESTATION_V1, att_nonce = n\<rparr>"
  have att: "wf_credential att" using lens vk48 wn sig(2) by (simp add: wf_credential_def att_def)
  have nc: "votes \<noteq> []" "length votes \<le> 0xFFFF" using c votes(1) by auto
  have "int (length votes) * (cfg_budget config + 1) \<le> 2500" using c votes(1) by simp
  then have "nat (int (length votes) * (cfg_budget config + 1)) \<le> 2500" by simp
  then have "length votes * nat (cfg_budget config + 1) \<le> 2500" by (simp add: nat_mult_distrib)
  then have size: "69 + 2 * length votes + 256 * nat (cfg_budget config + 1) * length votes < 2 ^ 32"
    using nc(2) by (simp add: mult.commute)
  obtain b where b: "build_ballot S mpk (cfg_election_id config) ps sk (gx (g1 S) sk) att votes
      (cfg_num_candidates config) (cfg_budget config) rnd = Inr b"
    "verify_ballot_crypto S mpk (bb_election_id b) (bb_pseudonym b) (bb_vk b) (bb_ciphertexts b)
      (bb_zk_proof b) (bb_voter_signature b) att (cfg_num_candidates config) (cfg_budget config) = Inr (True, None)"
    using build_verify [OF mpk keys(2) lens att nc c(3,4) size votes(2,3) pins] votes(1) by metis
  have f: "bb_election_id b = cfg_election_id config" "bb_pseudonym b = ps" "bb_vk b = gcompress (g1 S) (gx (g1 S) sk)"
    using built_fields [OF b(1)] by (auto simp: g1_codec)
  have cts: "map (\<lambda>ct. (ct_c1 ct, ct_c2 ct)) (map (\<lambda>(c1, c2). \<lparr>ct_c1 = c1, ct_c2 = c2\<rparr>) (bb_ciphertexts b)) = bb_ciphertexts b"
    by (simp add: split_def comp_def)
  have va: "verify_attestation S (cfg_eligibility_key config) att (cfg_election_id config)"
    using sig(3) wn(1) by (simp add: verify_attestation_def att_def)
  have "validate_ballot S \<lparr>sb_sequence_number = seq, sb_envelope = to_envelope b att, sb_submitted_at = ts\<rparr> config mpk = Inr None"
    using va b(2) time
    by (auto simp: validate_ballot_def to_envelope_def f cts Let_def att_def simp del: map_map split: option.split)
  then show ?thesis using sig(1) b(1) att_def by blast
qed

text \<open>
  Once the credential has verified its lengths are fixed, so only the two integers and the size
  of the proof can make the verifier raise.
\<close>

lemma validate_total:
  assumes mpk: "gsub (g2 S) mpk" and zk: "length (be_zk_proof (sb_envelope sb)) < 2 ^ 32"
    and wn: "att_weight (be_attestation (sb_envelope sb)) < 256 ^ 32" "att_nonce (be_attestation (sb_envelope sb)) < 256 ^ 32"
  shows "\<not> isl (validate_ballot S sb config mpk)"
proof -
  let ?e = "sb_envelope sb" and ?a = "be_attestation (sb_envelope sb)"
  let ?v = "verify_ballot_crypto S mpk (be_election_id ?e) (be_pseudonym ?e) (be_vk ?e)
    (map (\<lambda>ct. (ct_c1 ct, ct_c2 ct)) (be_ciphertexts ?e)) (be_zk_proof ?e) (be_voter_signature ?e) ?a
    (cfg_num_candidates config) (cfg_budget config)"
  show ?thesis
  proof (cases "verify_attestation S (cfg_eligibility_key config) ?a (cfg_election_id config)")
    case True
    then have "wf_credential ?a" using verify_attestation_guard [OF True] wn by (auto simp: wf_credential_def)
    then have "\<not> isl ?v" using verify_total [OF mpk _ zk] by blast
    then obtain ok why where v: "?v = Inr (ok, why)" by (auto simp: not_isl_iff)
    then have "ok \<and> why = None \<or> \<not> ok \<and> why \<in> {Some ''MALFORMED'', Some ''INVALID_PROOF'', Some ''INVALID_SIGNATURE'', Some ''INVALID_SIGNATURE_PRE_V2''}"
      by (rule verify_reasons)
    then show ?thesis unfolding validate_ballot_def Let_def v ebind_Inr by (auto simp: exclusion_reason_def)
  qed (simp add: validate_ballot_def Let_def)
qed

end

section \<open>Credentials are malleable modulo the group order\<close>

lemma sign_attestation_reduced:
  assumes "1 \<le> w" "1 \<le> w'" "1 \<le> n" and "w mod CURVE_ORDER = w' mod CURVE_ORDER"
  shows "sign_attestation S elig_sk elig_vk eid ps vk w n k d = sign_attestation S elig_sk elig_vk eid ps vk w' n k d"
  using attestation_transcript_reduced [of w n w' n eid ps vk] assms
  by (simp add: sign_attestation_def attestation_message_def)

text \<open>Replacing the weight of a credential within its residue class.\<close>

definition reweight :: "StoredBallot \<Rightarrow> int \<Rightarrow> StoredBallot" where
  "reweight sb w = sb\<lparr>sb_envelope := (sb_envelope sb)\<lparr>be_attestation := (be_attestation (sb_envelope sb))\<lparr>att_weight := w\<rparr>\<rparr>\<rparr>"

lemma verify_attestation_reweight:
  assumes v: "verify_attestation S ek a eid" and w: "1 \<le> w" "w mod CURVE_ORDER = att_weight a mod CURVE_ORDER"
  shows "verify_attestation S ek (a\<lparr>att_weight := w\<rparr>) eid"
proof -
  note g = verify_attestation_guard [OF v]
  have "attestation_transcript (att_election_id a) (att_pseudonym a) (att_vk a) w (att_nonce a) =
      attestation_transcript (att_election_id a) (att_pseudonym a) (att_vk a) (att_weight a) (att_nonce a)"
    using g w by (intro attestation_transcript_reduced) auto
  then show ?thesis
    using v g w(1) by (simp add: verify_attestation_def verify_attestation_sig_def attestation_message_def split: if_split_asm)
qed

lemma validate_reweight_overflow:
  assumes v: "validate_ballot S sb config mpk = Inr None" and w: "256 ^ 32 \<le> w"
    and m: "w mod CURVE_ORDER = att_weight (be_attestation (sb_envelope sb)) mod CURVE_ORDER"
  shows "validate_ballot S (reweight sb w) config mpk = Inl OverflowError"
proof -
  note s = validate_accepts_stages [OF v]
  obtain why where vb: "verify_ballot_crypto S mpk (be_election_id (sb_envelope sb)) (be_pseudonym (sb_envelope sb))
       (be_vk (sb_envelope sb)) (map (\<lambda>ct. (ct_c1 ct, ct_c2 ct)) (be_ciphertexts (sb_envelope sb)))
       (be_zk_proof (sb_envelope sb)) (be_voter_signature (sb_envelope sb)) (be_attestation (sb_envelope sb))
       (cfg_num_candidates config) (cfg_budget config) = Inr (True, why)"
    using s(7) by blast
  have "why = None" using verify_reasons [OF vb] by simp
  note over = verify_weight_overflow [OF vb [unfolded this] w]
  have "1 \<le> w" using w by simp
  then have va: "verify_attestation S (cfg_eligibility_key config)
      ((be_attestation (sb_envelope sb))\<lparr>att_weight := w\<rparr>) (cfg_election_id config)"
    using verify_attestation_reweight [OF s(6)] m by simp
  show ?thesis
    using s(1-5) va over by (auto simp: validate_ballot_def reweight_def Let_def split: option.split_asm)
qed

section \<open>Properties\<close>

text \<open>An election, its key pair and ballots for the witnesses.\<close>

definition sample_config :: ElectionConfig where
  "sample_config = \<lparr>cfg_election_id = replicate 32 1, cfg_num_candidates = 2, cfg_budget = 3, cfg_mode = EXACT,
     cfg_variant = Variant_A, cfg_weighted = True, cfg_duplicate_policy = LAST_WINS, cfg_voting_start = 100, cfg_voting_end = 200,
     cfg_threshold = \<lparr>th_t = 2, th_n = 3\<rparr>,
     cfg_keypers = [\<lparr>ki_signing_key = [1], ki_url = []\<rparr>, \<lparr>ki_signing_key = [2], ki_url = []\<rparr>, \<lparr>ki_signing_key = [3], ki_url = []\<rparr>],
     cfg_eligibility_key = gcompress (g1 zq_suite) (mul (g1 zq_suite) (ggen (g1 zq_suite)) 5), cfg_result_publisher_key = [4],
     cfg_gateway_keys = [], cfg_admin_key = [5], cfg_protocol_version = ''1'', cfg_scale = 1, cfg_self_submit_fee_wei = 0\<rparr>"

lemma sample_config_ok: "config_ok sample_config"
  by (simp add: config_ok_def sample_config_def Threshold_post_init_def ElectionConfig_post_init_def check_ballot_bounds_def
      MAX_NUM_CANDIDATES_def MAX_BUDGET_def MAX_PROOF_BRANCHES_def)

definition foreign_ballot :: "int \<Rightarrow> StoredBallot" where
  "foreign_ballot seq = \<lparr>sb_sequence_number = seq,
     sb_envelope = \<lparr>be_election_id = [], be_pseudonym = [], be_vk = [], be_ciphertexts = [], be_zk_proof = [],
       be_voter_signature = [], be_attestation = sample_credential\<rparr>, sb_submitted_at = None\<rparr>"

lemma foreign_ballot_malformed: "validate_ballot S (foreign_ballot seq) sample_config mpk = Inr (Some MALFORMED)"
  by (simp add: validate_ballot_def foreign_ballot_def sample_config_def)

text \<open>
  C34: eligible voters are admissible. A ballot built with a credential the eligibility key issued,
  for a vote vector that spends the budget and submitted inside the window, passes validation
  under every accepted configuration.
\<close>

theorem eligible_ballot_valid:
  assumes "crypto_suite S" and "config_ok config" and "length (cfg_election_id config) = 32" "length ps = 32"
    and "gsub (g2 S) mpk" "mpk \<noteq> gid (g2 S)"
    and "elig_sk mod CURVE_ORDER \<noteq> 0" "sk mod CURVE_ORDER \<noteq> 0"
      "cfg_eligibility_key config = gcompress (g1 S) (mul (g1 S) (ggen (g1 S)) elig_sk)"
    and "1 \<le> w" "w < 256 ^ 32" "1 \<le> n" "n < 256 ^ 32"
    and "int (length votes) = cfg_num_candidates config" "\<forall>v \<in> set votes. 0 \<le> v" "sum_list votes = cfg_budget config"
    and "wf_pins (length votes) (nat (cfg_budget config + 1)) rnd"
    and "case ts of None \<Rightarrow> True | Some ts \<Rightarrow> is_voting_open config ts"
  shows "\<exists>sig att b. sign_attestation S elig_sk (mul (g1 S) (ggen (g1 S)) elig_sk) (cfg_election_id config) ps
      (gcompress (g1 S) (mul (g1 S) (ggen (g1 S)) sk)) w n k d = Inr sig \<and>
    att = \<lparr>att_election_id = cfg_election_id config, att_pseudonym = ps, att_vk = gcompress (g1 S) (mul (g1 S) (ggen (g1 S)) sk),
      att_weight = w, att_signature = sig, att_scheme = ATTESTATION_V1, att_nonce = n\<rparr> \<and>
    build_ballot S mpk (cfg_election_id config) ps sk (mul (g1 S) (ggen (g1 S)) sk) att votes (cfg_num_candidates config)
      (cfg_budget config) rnd = Inr b \<and>
    validate_ballot S \<lparr>sb_sequence_number = seq, sb_envelope = to_envelope b att, sb_submitted_at = ts\<rparr> config mpk = Inr None"
  using assms by (rule crypto_suite.honest_ballot_valid)

lemma eligible_ballot_valid_witness:
  "\<exists>sb. sb_sequence_number sb = 4 \<and> validate_ballot zq_suite sb sample_config 9 = Inr None"
proof -
  have "\<exists>sig att b. sign_attestation zq_suite 5 (gx (g1 zq_suite) 5) (cfg_election_id sample_config) (replicate 32 2)
      (gcompress (g1 zq_suite) (gx (g1 zq_suite) 5)) 7 1 None 8 = Inr sig \<and>
    att = \<lparr>att_election_id = cfg_election_id sample_config, att_pseudonym = replicate 32 2, att_vk = gcompress (g1 zq_suite) (gx (g1 zq_suite) 5),
      att_weight = 7, att_signature = sig, att_scheme = ATTESTATION_V1, att_nonce = 1\<rparr> \<and>
    build_ballot zq_suite 9 (cfg_election_id sample_config) (replicate 32 2) 5 (gx (g1 zq_suite) 5) att [1, 2] (cfg_num_candidates sample_config)
      (cfg_budget sample_config) sample_randomness = Inr b \<and>
    validate_ballot zq_suite \<lparr>sb_sequence_number = 4, sb_envelope = to_envelope b att, sb_submitted_at = Some 150\<rparr> sample_config 9 = Inr None"
    by (rule eligible_ballot_valid [OF zq.crypto_suite_axioms sample_config_ok])
      (simp_all add: sample_config_def zq_points sample_wf is_voting_open_def)
  then show ?thesis by force
qed

text \<open>A valid ballot of any sequence number and nonce, for the witnesses below.\<close>

lemma sample_valid_ballot:
  assumes "1 \<le> n" "n < 256 ^ 32"
  obtains sb where "sb_sequence_number sb = seq" "pseud sb = replicate 32 2" "att_nonce (be_attestation (sb_envelope sb)) = n"
    "att_weight (be_attestation (sb_envelope sb)) = 7" "validate_ballot zq_suite sb sample_config 9 = Inr None"
proof -
  have "\<exists>sig att b. sign_attestation zq_suite 5 (gx (g1 zq_suite) 5) (cfg_election_id sample_config) (replicate 32 2)
      (gcompress (g1 zq_suite) (gx (g1 zq_suite) 5)) 7 n None 8 = Inr sig \<and>
    att = \<lparr>att_election_id = cfg_election_id sample_config, att_pseudonym = replicate 32 2, att_vk = gcompress (g1 zq_suite) (gx (g1 zq_suite) 5),
      att_weight = 7, att_signature = sig, att_scheme = ATTESTATION_V1, att_nonce = n\<rparr> \<and>
    build_ballot zq_suite 9 (cfg_election_id sample_config) (replicate 32 2) 5 (gx (g1 zq_suite) 5) att [1, 2] (cfg_num_candidates sample_config)
      (cfg_budget sample_config) sample_randomness = Inr b \<and>
    validate_ballot zq_suite \<lparr>sb_sequence_number = seq, sb_envelope = to_envelope b att, sb_submitted_at = None\<rparr> sample_config 9 = Inr None"
    by (rule zq.honest_ballot_valid [OF sample_config_ok])
      (use assms in \<open>simp_all add: sample_config_def zq_points sample_wf\<close>)
  then obtain sig att b where s: "att = \<lparr>att_election_id = cfg_election_id sample_config, att_pseudonym = replicate 32 2,
      att_vk = gcompress (g1 zq_suite) (gx (g1 zq_suite) 5), att_weight = 7, att_signature = sig, att_scheme = ATTESTATION_V1, att_nonce = n\<rparr>"
    "build_ballot zq_suite 9 (cfg_election_id sample_config) (replicate 32 2) 5 (gx (g1 zq_suite) 5) att [1, 2] (cfg_num_candidates sample_config)
      (cfg_budget sample_config) sample_randomness = Inr b"
    "validate_ballot zq_suite \<lparr>sb_sequence_number = seq, sb_envelope = to_envelope b att, sb_submitted_at = None\<rparr> sample_config 9 = Inr None"
    by blast
  show ?thesis
    by (rule that [OF _ _ _ _ s(3)]) (use built_fields [OF s(2)] in \<open>simp_all add: pseud_def to_envelope_def s(1)\<close>)
qed

lemma zq_decompress: "g2_from_compressed zq_suite (be 96 9) = Inr 9"
  by (simp add: g2_from_compressed_def from_compressed_def zq_suite_def zq_group_def G2_BYTES_def CURVE_ORDER_def int_from_bytes_be)

text \<open>
  Admission partitions the stored ballots. When sequence numbers are unique, every stored
  ballot is either admitted or excluded, no ballot is both, and none is listed twice.
\<close>

theorem admission_partition:
  assumes "admit S bs config mpkb = Inr r" and "distinct (map sb_sequence_number bs)"
  shows "distinct (map ab_sequence_number (ar_admitted r) @ map ex_sequence_number (ar_exclusions r)) \<and>
    set (map ab_sequence_number (ar_admitted r)) \<union> set (map ex_sequence_number (ar_exclusions r)) = set (map sb_sequence_number bs)"
proof -
  obtain mpk where mpk: "g2_from_compressed S mpkb = Inr mpk" and total: "\<forall>sb \<in> set bs. \<not> isl (validate_ballot S sb config mpk)"
    using admit_Inr_total [OF assms(1)] by blast
  let ?v = "valid_ballots S config mpk bs" and ?p = "cfg_duplicate_policy config"
  let ?x = "List.map_filter (excluded_as S config mpk) bs @ map duplicate_exclusion (filter (\<lambda>sb. \<not> is_winner ?p ?v sb) ?v)"
  have r: "ar_admitted r = map admitted_of (winning_ballots ?p ?v)" "ar_exclusions r = sort_key ex_sequence_number ?x"
    using admit_spec [OF assms(2) mpk total] assms(1) by auto
  have a: "map ab_sequence_number (ar_admitted r) = map sb_sequence_number (winning_ballots ?p ?v)"
    by (simp add: r admitted_of_def)
  have "distinct (map ex_sequence_number (sort_key ex_sequence_number ?x)) = distinct (map ex_sequence_number ?x)"
    "set (map ex_sequence_number (sort_key ex_sequence_number ?x)) = set (map ex_sequence_number ?x)"
    by (simp_all add: distinct_map del: map_append)
  with admit_partition_seqs [OF assms(2) total, of ?p] show ?thesis
    unfolding a r(2) by (simp only: distinct_append set_append)
qed

lemma admission_partition_witness:
  "\<exists>r. admit zq_suite [foreign_ballot 0, foreign_ballot 1] sample_config (be 96 9) = Inr r \<and>
     set (map ab_sequence_number (ar_admitted r)) \<union> set (map ex_sequence_number (ar_exclusions r)) = {0, 1}"
proof -
  have t: "\<forall>sb \<in> set [foreign_ballot 0, foreign_ballot 1]. \<not> isl (validate_ballot zq_suite sb sample_config 9)"
    by (simp add: foreign_ballot_malformed)
  have d: "distinct (map sb_sequence_number [foreign_ballot 0, foreign_ballot 1])" by (simp add: foreign_ballot_def)
  obtain r where r: "admit zq_suite [foreign_ballot 0, foreign_ballot 1] sample_config (be 96 9) = Inr r"
    using admit_spec [OF d zq_decompress t] by blast
  have "set (map sb_sequence_number [foreign_ballot 0, foreign_ballot 1]) = {0, 1}" by (simp add: foreign_ballot_def)
  then show ?thesis using admission_partition [OF r d] r by metis
qed

text \<open>
  C33: one ballot per pseudonym. The admitted ballots are exactly the valid ones that beat every
  other valid ballot of their pseudonym under the configured policy, no two share a pseudonym, and
  the published weight is the sum of their attested weights.
\<close>

theorem admission_one_per_pseudonym:
  assumes "admit S bs config mpkb = Inr r" and "distinct (map sb_sequence_number bs)" and "g2_from_compressed S mpkb = Inr mpk"
  shows "ar_admitted r = map admitted_of (winning_ballots (cfg_duplicate_policy config) (valid_ballots S config mpk bs)) \<and>
    distinct (map (\<lambda>a. be_pseudonym (ab_envelope a)) (ar_admitted r)) \<and>
    ar_total_admitted_weight r = (\<Sum>a \<leftarrow> ar_admitted r. ab_weight a)"
proof -
  have total: "\<forall>sb \<in> set bs. \<not> isl (validate_ballot S sb config mpk)"
    using admit_Inr_total [OF assms(1)] assms(3) by auto
  let ?v = "valid_ballots S config mpk bs" and ?p = "cfg_duplicate_policy config"
  have r: "ar_admitted r = map admitted_of (winning_ballots ?p ?v)" "ar_total_admitted_weight r = (\<Sum>a \<leftarrow> ar_admitted r. ab_weight a)"
    using admit_spec [OF assms(2,3) total] assms(1) by auto
  have "distinct (map sb_sequence_number ?v)" using assms(2) by (simp add: valid_ballots_def distinct_map_filter)
  then have "distinct (map pseud (winning_ballots ?p ?v))" by (rule distinct_pseud_winners)
  then have "distinct (map (\<lambda>a. be_pseudonym (ab_envelope a)) (ar_admitted r))"
    by (simp add: r(1) comp_def admitted_of_def pseud_def [abs_def])
  with r show ?thesis by blast
qed

lemma admission_one_per_pseudonym_witness:
  "\<exists>bs r. length bs = 2 \<and> admit zq_suite bs sample_config (be 96 9) = Inr r \<and> length (ar_admitted r) = 1 \<and> ar_total_admitted_weight r = 7"
proof -
  obtain a where a: "sb_sequence_number a = 0" "pseud a = replicate 32 2" "att_nonce (be_attestation (sb_envelope a)) = 1"
    "att_weight (be_attestation (sb_envelope a)) = 7" "validate_ballot zq_suite a sample_config 9 = Inr None"
    by (rule sample_valid_ballot [of 1 0]) simp_all
  obtain b where b: "sb_sequence_number b = 1" "pseud b = replicate 32 2" "att_nonce (be_attestation (sb_envelope b)) = 2"
    "att_weight (be_attestation (sb_envelope b)) = 7" "validate_ballot zq_suite b sample_config 9 = Inr None"
    by (rule sample_valid_ballot [of 2 1]) simp_all
  have t: "\<forall>sb \<in> set [a, b]. \<not> isl (validate_ballot zq_suite sb sample_config 9)" using a(5) b(5) by simp
  have d: "distinct (map sb_sequence_number [a, b])" using a(1) b(1) by simp
  obtain r where r: "admit zq_suite [a, b] sample_config (be 96 9) = Inr r" using admit_spec [OF d zq_decompress t] by blast
  have v: "valid_ballots zq_suite sample_config 9 [a, b] = [a, b]" using a(5) b(5) by (simp add: valid_ballots_def)
  have "a \<noteq> b" using d by auto
  then have "winning_ballots LAST_WINS [a, b] = [b]"
    using a b by (auto simp: winning_ballots_def is_winner_def beats_def pair_less_def rank_def)
  then have "ar_admitted r = [admitted_of b]" "ar_total_admitted_weight r = 7"
    using admission_one_per_pseudonym [OF r d zq_decompress] v b(4)
    by (simp_all add: sample_config_def admitted_of_def)
  then show ?thesis using r by (intro exI [of _ "[a, b]"] exI [of _ r]) simp
qed

text \<open>The message the voter of an envelope signs, and that its signature verifies over it.\<close>

definition signed_message :: "BallotEnvelope \<Rightarrow> bytes result" where
  "signed_message env = canonical_ballot_message (be_election_id env) (be_pseudonym env)
     (map (\<lambda>ct. (ct_c1 ct, ct_c2 ct)) (be_ciphertexts env)) (be_zk_proof env) (be_attestation env)"

definition voter_signed :: "('a, 'b) suite \<Rightarrow> BallotEnvelope \<Rightarrow> bytes \<Rightarrow> bool" where
  "voter_signed S env m \<longleftrightarrow> (\<exists>vk R s. g1_from_compressed S (be_vk env) = Inr vk \<and> schnorr_decode S (be_voter_signature env) = Inr (R, s) \<and>
     schnorr_verify S vk (keccak S m) R s = Inr True)"

lemma valid_signed:
  assumes "validate_ballot S sb config mpk = Inr None"
  shows "\<exists>m. signed_message (sb_envelope sb) = Inr m \<and> voter_signed S (sb_envelope sb) m"
proof -
  obtain why where v: "verify_ballot_crypto S mpk (be_election_id (sb_envelope sb)) (be_pseudonym (sb_envelope sb))
       (be_vk (sb_envelope sb)) (map (\<lambda>ct. (ct_c1 ct, ct_c2 ct)) (be_ciphertexts (sb_envelope sb)))
       (be_zk_proof (sb_envelope sb)) (be_voter_signature (sb_envelope sb)) (be_attestation (sb_envelope sb))
       (cfg_num_candidates config) (cfg_budget config) = Inr (True, why)"
    using validate_accepts_stages(7) [OF assms] by blast
  have "why = None" using verify_reasons [OF v] by simp
  from verify_accepts_stages [OF v [unfolded this]] show ?thesis unfolding signed_message_def voter_signed_def by blast
qed

lemma scheme_single: "(x :: AttestationScheme) = y"
  by (cases x; cases y) simp

lemma map_ct_inject: "map (\<lambda>ct. (ct_c1 ct, ct_c2 ct)) xs = map (\<lambda>ct. (ct_c1 ct, ct_c2 ct)) ys \<longleftrightarrow> xs = (ys :: Ciphertext list)"
  by (rule inj_map_eq_map) (rule injI, simp)

text \<open>
  C36: the voter signature binds the whole of a valid ballot. The envelope of a ballot that passes
  validation has a canonical message, its voter signature verifies over that message under its voter
  key, and two valid ballots of an election have the same message exactly when their envelopes differ
  in the voter signature at most: the message leaves out the envelope's voter key and the election of
  the credential, which validation ties to the credential's key and to the election.
\<close>

theorem signed_message_binds_ballot:
  assumes a: "validate_ballot S a config mpk = Inr None" and b: "validate_ballot S b config mpk = Inr None"
  shows "\<exists>ma mb. signed_message (sb_envelope a) = Inr ma \<and> voter_signed S (sb_envelope a) ma \<and>
    signed_message (sb_envelope b) = Inr mb \<and> voter_signed S (sb_envelope b) mb \<and>
    (ma = mb \<longleftrightarrow> sb_envelope a = (sb_envelope b)\<lparr>be_voter_signature := be_voter_signature (sb_envelope a)\<rparr>)"
proof -
  obtain ma where ma: "signed_message (sb_envelope a) = Inr ma" "voter_signed S (sb_envelope a) ma" using valid_signed [OF a] by blast
  obtain mb where mb: "signed_message (sb_envelope b) = Inr mb" "voter_signed S (sb_envelope b) mb" using valid_signed [OF b] by blast
  note sa = validate_accepts_stages(1-5) [OF a] and sb = validate_accepts_stages(1-5) [OF b]
  have "sb_envelope a = (sb_envelope b)\<lparr>be_voter_signature := be_voter_signature (sb_envelope a)\<rparr>" if "ma = mb"
  proof -
    note c = canonical_inject [OF ma(1) [unfolded signed_message_def that] mb(1) [unfolded signed_message_def], unfolded map_ct_inject]
    have "be_attestation (sb_envelope a) = be_attestation (sb_envelope b)"
      using c sa sb by (intro AttestationCredential.equality) (auto intro: scheme_single)
    then show ?thesis using c sa sb by (intro BallotEnvelope.equality) auto
  qed
  moreover have "ma = mb" if e: "sb_envelope a = (sb_envelope b)\<lparr>be_voter_signature := be_voter_signature (sb_envelope a)\<rparr>"
  proof -
    have "signed_message (sb_envelope a) = signed_message (sb_envelope b)" by (subst e) (simp add: signed_message_def)
    then show ?thesis using ma mb by simp
  qed
  ultimately show ?thesis using ma mb by blast
qed

lemma signed_message_binds_ballot_witness:
  "\<exists>a b ma mb. validate_ballot zq_suite a sample_config 9 = Inr None \<and> validate_ballot zq_suite b sample_config 9 = Inr None \<and>
     signed_message (sb_envelope a) = Inr ma \<and> signed_message (sb_envelope b) = Inr mb \<and> ma \<noteq> mb \<and> voter_signed zq_suite (sb_envelope a) ma"
proof -
  obtain a where a: "att_nonce (be_attestation (sb_envelope a)) = 1" "validate_ballot zq_suite a sample_config 9 = Inr None"
    by (rule sample_valid_ballot [of 1 0]) simp_all
  obtain b where b: "att_nonce (be_attestation (sb_envelope b)) = 2" "validate_ballot zq_suite b sample_config 9 = Inr None"
    by (rule sample_valid_ballot [of 2 1]) simp_all
  have "sb_envelope a \<noteq> (sb_envelope b)\<lparr>be_voter_signature := be_voter_signature (sb_envelope a)\<rparr>"
    using a(1) b(1) by (auto dest!: arg_cong [of _ _ "\<lambda>e. att_nonce (be_attestation e)"])
  then show ?thesis using signed_message_binds_ballot [OF a(2) b(2)] a b by blast
qed

text \<open>
  A replayed ballot never overrides a re-vote. Under last-wins, inserting any further ballot
  of a pseudonym whose nonce is below that of a valid ballot already there, at any position,
  leaves the admitted set and its weight unchanged.
\<close>

theorem replay_never_overrides:
  assumes "admit S (xs @ ys) config mpkb = Inr r" and "admit S (xs @ old # ys) config mpkb = Inr r'"
    and "distinct (map sb_sequence_number (xs @ old # ys))" and "cfg_duplicate_policy config = LAST_WINS"
    and "g2_from_compressed S mpkb = Inr mpk" and "new \<in> set (xs @ ys)" "validate_ballot S new config mpk = Inr None"
    and "be_pseudonym (sb_envelope new) = be_pseudonym (sb_envelope old)"
    and "att_nonce (be_attestation (sb_envelope old)) < att_nonce (be_attestation (sb_envelope new))"
  shows "ar_admitted r' = ar_admitted r \<and> ar_total_admitted_weight r' = ar_total_admitted_weight r"
proof -
  let ?v = "\<lambda>bs. valid_ballots S config mpk bs"
  have d: "distinct (map sb_sequence_number (xs @ ys))" using assms(3) by auto
  have t: "\<forall>sb \<in> set (xs @ ys). \<not> isl (validate_ballot S sb config mpk)"
    "\<forall>sb \<in> set (xs @ old # ys). \<not> isl (validate_ballot S sb config mpk)"
    using admit_Inr_total [OF assms(1)] admit_Inr_total [OF assms(2)] assms(5) by auto
  have "winning_ballots LAST_WINS (?v (xs @ old # ys)) = winning_ballots LAST_WINS (?v (xs @ ys))"
  proof (cases "validate_ballot S old config mpk = Inr None")
    case True
    have "beats LAST_WINS (rank new) (rank old)" using assms(9) by (simp add: beats_def pair_less_def rank_def)
    moreover have "distinct (map sb_sequence_number (?v xs @ old # ?v ys))"
      using assms(3) True by (auto simp: valid_ballots_def distinct_map_filter)
    ultimately have "winning_ballots LAST_WINS (?v xs @ old # ?v ys) = winning_ballots LAST_WINS (?v xs @ ?v ys)"
      using assms(6-8) by (intro winning_insert_beaten [where w = new]) (auto simp: valid_ballots_def pseud_def)
    with True show ?thesis by (simp add: valid_ballots_def)
  qed (simp add: valid_ballots_def)
  then show ?thesis
    using admit_spec [OF d assms(5) t(1)] admit_spec [OF assms(3,5) t(2)] assms(1,2,4) by auto
qed

lemma replay_never_overrides_witness:
  "\<exists>old new r r'. admit zq_suite [new] sample_config (be 96 9) = Inr r \<and> admit zq_suite [new, old] sample_config (be 96 9) = Inr r' \<and>
     validate_ballot zq_suite old sample_config 9 = Inr None \<and> ar_admitted r' = ar_admitted r"
proof -
  obtain new where a: "sb_sequence_number new = 0" "pseud new = replicate 32 2" "att_nonce (be_attestation (sb_envelope new)) = 2"
    "validate_ballot zq_suite new sample_config 9 = Inr None"
    by (rule sample_valid_ballot [of 2 0]) simp_all
  obtain old where b: "sb_sequence_number old = 1" "pseud old = replicate 32 2" "att_nonce (be_attestation (sb_envelope old)) = 1"
    "validate_ballot zq_suite old sample_config 9 = Inr None"
    by (rule sample_valid_ballot [of 1 1]) simp_all
  have t: "\<forall>sb \<in> set [new]. \<not> isl (validate_ballot zq_suite sb sample_config 9)"
    "\<forall>sb \<in> set [new, old]. \<not> isl (validate_ballot zq_suite sb sample_config 9)" using a(4) b(4) by simp_all
  have d: "distinct (map sb_sequence_number [new])" "distinct (map sb_sequence_number [new, old])" using a(1) b(1) by simp_all
  obtain r r' where r: "admit zq_suite [new] sample_config (be 96 9) = Inr r" "admit zq_suite [new, old] sample_config (be 96 9) = Inr r'"
    using admit_spec [OF d(1) zq_decompress t(1)] admit_spec [OF d(2) zq_decompress t(2)] by blast
  have "ar_admitted r' = ar_admitted r"
    using replay_never_overrides [of zq_suite "[new]" "[]" sample_config "be 96 9" r old r' 9 new] r d a b zq_decompress
    by (simp add: pseud_def sample_config_def)
  then show ?thesis using r b(4) by blast
qed

text \<open>
  C37: an eligible voter can claim a weight the issuer never attested. With a credential issued for
  weight \<open>w\<close>, the voter signs a ballot that states \<open>w\<close> plus the group order, reusing the issuer's
  signature, and the ballot passes validation.
\<close>

theorem voter_inflates_weight:
  assumes "crypto_suite S" and "config_ok config" and "length (cfg_election_id config) = 32" "length ps = 32"
    and "gsub (g2 S) mpk" "mpk \<noteq> gid (g2 S)"
    and "elig_sk mod CURVE_ORDER \<noteq> 0" "sk mod CURVE_ORDER \<noteq> 0"
      "cfg_eligibility_key config = gcompress (g1 S) (mul (g1 S) (ggen (g1 S)) elig_sk)"
    and "1 \<le> w" "w + CURVE_ORDER < 256 ^ 32" "1 \<le> n" "n < 256 ^ 32"
    and "int (length votes) = cfg_num_candidates config" "\<forall>v \<in> set votes. 0 \<le> v" "sum_list votes = cfg_budget config"
    and "wf_pins (length votes) (nat (cfg_budget config + 1)) rnd"
    and "case ts of None \<Rightarrow> True | Some ts \<Rightarrow> is_voting_open config ts"
  shows "\<exists>sig att b. sign_attestation S elig_sk (mul (g1 S) (ggen (g1 S)) elig_sk) (cfg_election_id config) ps
      (gcompress (g1 S) (mul (g1 S) (ggen (g1 S)) sk)) w n k d = Inr sig \<and>
    att_signature att = sig \<and> att_weight att = w + CURVE_ORDER \<and>
    build_ballot S mpk (cfg_election_id config) ps sk (mul (g1 S) (ggen (g1 S)) sk) att votes (cfg_num_candidates config)
      (cfg_budget config) rnd = Inr b \<and>
    validate_ballot S \<lparr>sb_sequence_number = seq, sb_envelope = to_envelope b att, sb_submitted_at = ts\<rparr> config mpk = Inr None"
proof -
  have w: "1 \<le> w + CURVE_ORDER" "(w + CURVE_ORDER) mod CURVE_ORDER = w mod CURVE_ORDER"
    using assms(10) CURVE_ORDER_bounds(1) by (linarith, simp)
  note same = sign_attestation_reduced [OF w(1) assms(10,12) w(2), of S]
  from crypto_suite.honest_ballot_valid [OF assms(1-9) w(1) assms(11-18), of k d seq]
  obtain sig att b where "sign_attestation S elig_sk (mul (g1 S) (ggen (g1 S)) elig_sk) (cfg_election_id config) ps
      (gcompress (g1 S) (mul (g1 S) (ggen (g1 S)) sk)) (w + CURVE_ORDER) n k d = Inr sig"
    "att_signature att = sig" "att_weight att = w + CURVE_ORDER"
    "build_ballot S mpk (cfg_election_id config) ps sk (mul (g1 S) (ggen (g1 S)) sk) att votes (cfg_num_candidates config)
      (cfg_budget config) rnd = Inr b"
    "validate_ballot S \<lparr>sb_sequence_number = seq, sb_envelope = to_envelope b att, sb_submitted_at = ts\<rparr> config mpk = Inr None"
    by (elim exE conjE) (metis AttestationCredential.select_convs(4,5))
  then show ?thesis unfolding same by blast
qed

lemma voter_inflates_weight_witness:
  "\<exists>sb. att_weight (be_attestation (sb_envelope sb)) = 7 + CURVE_ORDER \<and> validate_ballot zq_suite sb sample_config 9 = Inr None"
proof -
  have "\<exists>sig att b. sign_attestation zq_suite 5 (gx (g1 zq_suite) 5) (cfg_election_id sample_config) (replicate 32 2)
      (gcompress (g1 zq_suite) (gx (g1 zq_suite) 5)) 7 1 None 8 = Inr sig \<and>
    att_signature att = sig \<and> att_weight att = 7 + CURVE_ORDER \<and>
    build_ballot zq_suite 9 (cfg_election_id sample_config) (replicate 32 2) 5 (gx (g1 zq_suite) 5) att [1, 2] (cfg_num_candidates sample_config)
      (cfg_budget sample_config) sample_randomness = Inr b \<and>
    validate_ballot zq_suite \<lparr>sb_sequence_number = 4, sb_envelope = to_envelope b att, sb_submitted_at = Some 150\<rparr> sample_config 9 = Inr None"
    by (rule voter_inflates_weight [OF zq.crypto_suite_axioms sample_config_ok])
      (simp_all add: sample_config_def zq_points sample_wf is_voting_open_def, simp_all add: CURVE_ORDER_def)
  then obtain att b where "att_weight att = 7 + CURVE_ORDER"
    "validate_ballot zq_suite \<lparr>sb_sequence_number = 4, sb_envelope = to_envelope b att, sb_submitted_at = Some 150\<rparr> sample_config 9 = Inr None"
    by blast
  then show ?thesis
    by (intro exI [of _ "\<lparr>sb_sequence_number = 4, sb_envelope = to_envelope b att, sb_submitted_at = Some 150\<rparr>"]) (simp add: to_envelope_def)
qed

text \<open>
  One ballot can take the whole admission down. A valid ballot whose stated weight is moved to
  another member of its residue class that needs more than 32 bytes makes validation raise, and
  with it the admission of every ballot list that contains it.
\<close>

theorem oversized_weight_aborts_admission:
  assumes "validate_ballot S sb config mpk = Inr None" and "256 ^ 32 \<le> w"
    and "w mod CURVE_ORDER = att_weight (be_attestation (sb_envelope sb)) mod CURVE_ORDER"
    and "g2_from_compressed S mpkb = Inr mpk"
  shows "validate_ballot S (reweight sb w) config mpk = Inl OverflowError \<and>
    (\<forall>xs ys. \<exists>e. admit S (xs @ reweight sb w # ys) config mpkb = Inl e)"
proof -
  have v: "validate_ballot S (reweight sb w) config mpk = Inl OverflowError"
    by (rule validate_reweight_overflow [OF assms(1-3)])
  moreover have "isl (admit S (xs @ reweight sb w # ys) config mpkb)" for xs ys
    by (rule admit_raises [OF assms(4)]) (use v in auto)
  ultimately show ?thesis by (meson isl_def)
qed

lemma oversized_weight_aborts_admission_witness:
  "\<exists>sb w. validate_ballot zq_suite sb sample_config 9 = Inr None \<and> (\<exists>e. admit zq_suite [sb, reweight sb w] sample_config (be 96 9) = Inl e)"
proof -
  obtain sb where sb: "att_weight (be_attestation (sb_envelope sb)) = 7" "validate_ballot zq_suite sb sample_config 9 = Inr None"
    by (rule sample_valid_ballot [of 1 0]) simp_all
  have w: "256 ^ 32 \<le> 7 + 3 * CURVE_ORDER"
    "(7 + 3 * CURVE_ORDER) mod CURVE_ORDER = att_weight (be_attestation (sb_envelope sb)) mod CURVE_ORDER"
    by (simp_all add: sb(1) CURVE_ORDER_def)
  have "\<exists>e. admit zq_suite ([sb] @ reweight sb (7 + 3 * CURVE_ORDER) # []) sample_config (be 96 9) = Inl e"
    using oversized_weight_aborts_admission [OF sb(2) w zq_decompress] by blast
  then show ?thesis using sb(2) by auto
qed

text \<open>
  Admission returns. With the election key in the subgroup, every list of ballots whose stated
  weight and nonce fit 32 bytes and whose proofs are shorter than 4 GiB is admitted or excluded
  without an exception, however malformed its ballots are.
\<close>

theorem admission_total:
  assumes "crypto_suite S" and "g2_from_compressed S mpkb = Inr mpk" and "distinct (map sb_sequence_number bs)"
    and "\<forall>sb \<in> set bs. length (be_zk_proof (sb_envelope sb)) < 2 ^ 32 \<and>
      att_weight (be_attestation (sb_envelope sb)) < 256 ^ 32 \<and> att_nonce (be_attestation (sb_envelope sb)) < 256 ^ 32"
  shows "\<exists>r. admit S bs config mpkb = Inr r"
proof -
  have "gsub (g2 S) mpk" using crypto_suite.g2_from_compressed_sub [OF assms(1,2)] by simp
  then have "\<forall>sb \<in> set bs. \<not> isl (validate_ballot S sb config mpk)"
    using crypto_suite.validate_total [OF assms(1)] assms(4) by blast
  then show ?thesis using admit_spec [OF assms(3,2)] by blast
qed

lemma admission_total_witness:
  "\<exists>r. admit zq_suite [foreign_ballot 0, foreign_ballot 1] sample_config (be 96 9) = Inr r"
  by (rule admission_total [OF zq.crypto_suite_axioms zq_decompress])
    (simp_all add: foreign_ballot_def sample_credential_def)

end
