(* ===== verification/Reads.thy ===== *)
theory Reads
  imports Store_Conformance Admission
begin

text \<open>
  \<^verbatim>\<open>services/common/reads.py\<close>: reading the whole ballot list through the paged port. What a
  backend must promise about its ballots is a locale, which both data layers satisfy; the paged
  read and the scan of the gateway are verified once against it.
\<close>

definition BALLOT_PAGE :: int where "BALLOT_PAGE = 1000"

text \<open>
  The loop of \<open>read_all_ballots\<close>: \<open>page start count\<close> is the call of \<open>list_ballots\<close>. Every page that is
  not empty moves the offset, so the loop ends whatever the backend returns.
\<close>

function read_pages :: "(int \<Rightarrow> int \<Rightarrow> StoredBallot list result) \<Rightarrow> int \<Rightarrow> int \<Rightarrow> StoredBallot list \<Rightarrow> StoredBallot list result" where
  "read_pages page tot start out =
     (if start < tot then
        ebind (page start (min BALLOT_PAGE (tot - start))) (\<lambda>rows.
        if rows = [] then Inl IncompleteBallotRead
        else read_pages page tot (start + int (length rows)) (out @ rows))
      else Inr out)"
  by auto

termination by (relation "measure (\<lambda>(page, tot, start, out). nat (tot - start))") auto

declare read_pages.simps [simp del]

definition read_all_ballots :: "'s ElectionDataLayer \<Rightarrow> bytes \<Rightarrow> 's \<Rightarrow> StoredBallot list result" where
  "read_all_ballots P election_id s =
     ebind (dl_count_ballots P election_id s) (\<lambda>tot.
     ebind (read_pages (\<lambda>start count. dl_list_ballots P election_id start count s) tot 0 []) (\<lambda>out.
     if map sb_sequence_number out \<noteq> map int [0..<nat tot] then Inl IncompleteBallotRead else Inr out))"

section \<open>What a backend promises about its ballots\<close>

text \<open>
  \<open>holds s e bs\<close>: in the state \<open>s\<close> the ballots of the election \<open>e\<close> are \<open>bs\<close>, numbered from 0. Pages of
  non-negative offset and of at most \<open>BALLOT_PAGE\<close> rows are the slices of that list.
\<close>

locale ballot_store =
  fixes P :: "'s ElectionDataLayer" and holds :: "'s \<Rightarrow> bytes \<Rightarrow> StoredBallot list \<Rightarrow> bool"
  assumes count_ballots: "holds s e bs \<Longrightarrow> dl_count_ballots P e s = Inr (int (length bs))"
    and list_ballots: "holds s e bs \<Longrightarrow> 0 \<le> i \<Longrightarrow> 0 \<le> n \<Longrightarrow> n \<le> BALLOT_PAGE \<Longrightarrow>
      dl_list_ballots P e i n s = Inr (take (nat n) (drop (nat i) bs))"
    and numbered: "holds s e bs \<Longrightarrow> map sb_sequence_number bs = map int [0..<length bs]"
begin

lemma read_pages_from:
  assumes h: "holds s e bs"
  shows "k \<le> length bs \<Longrightarrow>
    read_pages (\<lambda>start count. dl_list_ballots P e start count s) (int (length bs)) (int k) (take k bs) = Inr bs"
proof (induction "length bs - k" arbitrary: k rule: less_induct)
  case less
  show ?case
  proof (cases "k < length bs")
    case True
    let ?c = "min BALLOT_PAGE (int (length bs) - int k)"
    have c: "0 < ?c" "?c \<le> int (length bs) - int k" "?c \<le> BALLOT_PAGE" using True by (auto simp: BALLOT_PAGE_def)
    let ?rows = "take (nat ?c) (drop k bs)"
    have l: "length ?rows = nat ?c" using c by auto
    then have ne: "?rows \<noteq> []" using c(1) by auto
    have page: "dl_list_ballots P e (int k) ?c s = Inr ?rows" using list_ballots [OF h, of "int k" ?c] c by simp
    have next_page: "int k + int (length ?rows) = int (k + nat ?c)" using l c(1) by simp
    have app: "take k bs @ ?rows = take (k + nat ?c) bs" by (simp add: take_add)
    have "read_pages (\<lambda>start count. dl_list_ballots P e start count s) (int (length bs)) (int (k + nat ?c)) (take (k + nat ?c) bs) = Inr bs"
      by (rule less.hyps) (use c True in auto)
    with True ne page next_page app show ?thesis by (subst read_pages.simps) simp
  qed (use less.prems in \<open>simp add: read_pages.simps\<close>)
qed

lemma read_all_complete: "holds s e bs \<Longrightarrow> read_all_ballots P e s = Inr bs"
  using read_pages_from [of s e bs 0] numbered [of s e bs] count_ballots [of s e bs] by (simp add: read_all_ballots_def)

end

definition memory_holds :: "host \<Rightarrow> InMemory \<Rightarrow> bytes \<Rightarrow> StoredBallot list \<Rightarrow> bool" where
  "memory_holds H m e bs \<longleftrightarrow> mem_inv H m \<and> (\<exists>st. im_get m e = Inr st \<and> st_ballots st = bs)"

definition postgres_holds :: "host \<Rightarrow> Postgres \<Rightarrow> bytes \<Rightarrow> StoredBallot list \<Rightarrow> bool" where
  "postgres_holds H pg e bs \<longleftrightarrow> (\<exists>m. sim H pg m \<and> memory_holds H m e bs)"

interpretation memory_ballots: ballot_store "memory_port H" "memory_holds H" for H
proof unfold_locales
  fix m e bs
  assume "memory_holds H m e bs"
  then obtain st where st: "mem_inv H m" "im_get m e = Inr st" "st_ballots st = bs" by (auto simp: memory_holds_def)
  show "dl_count_ballots (memory_port H) e m = Inr (int (length bs))"
    using st by (simp add: memory_port_def im_count_ballots_def)
  show "dl_list_ballots (memory_port H) e i n m = Inr (take (nat n) (drop (nat i) bs))" if "0 \<le> i" "0 \<le> n" for i n
    using st that by (simp add: memory_port_def im_list_ballots_def py_slice_page)
  have "ballots_inv (st_config st) bs" using mem_inv_get [OF st(1,2)] st(3) by (simp add: stored_inv_def)
  then show "map sb_sequence_number bs = map int [0..<length bs]" by (auto simp: ballots_inv_def intro: nth_equalityI)
qed

interpretation postgres_ballots: ballot_store "postgres_port H" "postgres_holds H" for H
proof unfold_locales
  fix pg e bs
  assume "postgres_holds H pg e bs"
  then obtain m st where m: "sim H pg m" "memory_holds H m e bs" and g: "im_get m e = Inr st"
    by (auto simp: postgres_holds_def memory_holds_def)
  show "dl_count_ballots (postgres_port H) e pg = Inr (int (length bs))"
    using memory_ballots.count_ballots [OF m(2)] sim_count_ballots [OF m(1) g] by (simp add: memory_port_def postgres_port_def)
  show "dl_list_ballots (postgres_port H) e i n pg = Inr (take (nat n) (drop (nat i) bs))" if "0 \<le> i" "0 \<le> n" "n \<le> BALLOT_PAGE" for i n
    using memory_ballots.list_ballots [OF m(2) that] sim_list_ballots [OF m(1) g that(1,2)] that(2,3) by (simp add: memory_port_def postgres_port_def bigint_def BALLOT_PAGE_def)
  show "map sb_sequence_number bs = map int [0..<length bs]" by (rule memory_ballots.numbered [OF m(2)])
qed

section \<open>Properties\<close>

text \<open>
  C30: the whole ballot list is read, or the read fails. Whatever a backend answers, the paged read
  ends, and what it returns carries the sequence numbers from 0 to the reported count, each once and
  in order. On the in-memory and the relational data layer it returns every stored ballot.
\<close>

theorem read_all_ballots_complete:
  "(read_all_ballots P e s = Inr out \<longrightarrow>
      (\<exists>tot. dl_count_ballots P e s = Inr tot \<and> map sb_sequence_number out = map int [0..<nat tot])) \<and>
   (memory_holds H m e bs \<longrightarrow> read_all_ballots (memory_port H) e m = Inr bs) \<and>
   (postgres_holds H pg e bs \<longrightarrow> read_all_ballots (postgres_port H) e pg = Inr bs)"
  using memory_ballots.read_all_complete postgres_ballots.read_all_complete
  by (auto simp: read_all_ballots_def split: if_splits)

text \<open>
  A stored ballot is never late. A ballot any writer got stored, at whatever time and through
  whichever ingress, is never excluded as out of window at tally time.
\<close>

theorem stored_never_out_of_window:
  assumes "mem_reachable H m" and "im_get m e = Inr st" and "sb \<in> set (st_ballots st)"
  shows "validate_ballot S sb (st_config st) mpk \<noteq> Inr (Some OUT_OF_WINDOW)"
proof -
  have "ballots_inv (st_config st) (st_ballots st)"
    using mem_inv_get [OF reachable_inv [OF assms(1)] assms(2)] by (simp add: stored_inv_def)
  then obtain ts where "sb_submitted_at sb = Some ts" "is_voting_open (st_config st) ts"
    using assms(3) by (force simp: ballots_inv_def in_set_conv_nth)
  then show ?thesis
    by (auto simp: validate_ballot_def Let_def exclusion_reason_def split: if_splits dest!: verify_reasons)
qed

text \<open>The sample election with its key and one ballot, stored while voting is open.\<close>

definition sample_envelope_ballot :: BallotEnvelope where
  "sample_envelope_ballot = \<lparr>be_election_id = be 32 1, be_pseudonym = be 32 2, be_vk = [], be_ciphertexts = [], be_zk_proof = [],
     be_voter_signature = [], be_attestation = sample_credential\<rparr>"

lemma sample_ballot_step:
  assumes "plain_host H"
  shows "\<exists>m st. dl_step (memory_port H) (sample_memory [(1, sample_dkg 1), (2, sample_dkg 2)]) m \<and> im_get m (be 32 1) = Inr st \<and>
     st_config st = sample_election \<and> finalized_key_of st = Inr (Some \<lparr>fk_pk_election = be 96 9, fk_committee_pks = sample_committee\<rparr>) \<and>
     \<not> st_cancelled st \<and> st_result st = None \<and> st_aggregate_by_keyper st = [] \<and> st_shares_by_keyper st = [] \<and>
     st_ballots st = [\<lparr>sb_sequence_number = 0, sb_envelope = b, sb_submitted_at = Some 150\<rparr>]"
proof -
  let ?m = "sample_memory [(1, sample_dkg 1), (2, sample_dkg 2)]"
  obtain st where st: "im_get ?m (be 32 1) = Inr st" "st_config st = sample_election" "st_ballots st = []" "st_result st = None" "\<not> st_cancelled st"
    "st_aggregate_by_keyper st = []" "st_shares_by_keyper st = []"
    by (simp add: im_get_def sample_memory_def Stored_init_def)
  have fk: "finalized_key_of st = Inr (Some \<lparr>fk_pk_election = be 96 9, fk_committee_pks = sample_committee\<rparr>)"
    using sample_finalized st(1) by (simp add: im_get_finalized_key_def)
  have "require_voting_open st 150 = Inr ()"
    unfolding require_voting_open_def fk using st by (simp add: derive_state_def sample_election_def Let_def)
  moreover have "require_gateway H st b [] = Inr ()"
    using st by (simp add: require_gateway_def sample_election_def)
  ultimately have "dl_step (memory_port H) ?m (im_put (be 32 1)
      (st\<lparr>st_ballots := [\<lparr>sb_sequence_number = 0, sb_envelope = b, sb_submitted_at = Some 150\<rparr>]\<rparr>) ?m)"
    using st by (intro dl_step.issue [where w = "SubmitBallot (be 32 1) b []" and now = 150])
      (simp_all add: memory_port_def im_submit_ballot_def Let_def)
  moreover have "im_get (im_put (be 32 1) st' ?m) (be 32 1) = Inr st'" for st' by (simp add: im_get_def im_put_def update_conv')
  moreover have "finalized_key_of (st\<lparr>st_ballots := bs\<rparr>) = finalized_key_of st" for bs by (simp add: finalized_key_of_def)
  ultimately show ?thesis using st fk by force
qed

lemma stored_never_out_of_window_witness:
  "\<exists>m st sb. mem_reachable sample_host m \<and> im_get m (be 32 1) = Inr st \<and> sb \<in> set (st_ballots st) \<and>
     validate_ballot zq_suite sb (st_config st) 0 \<noteq> Inr (Some OUT_OF_WINDOW)"
proof -
  obtain m st where m: "dl_step (memory_port sample_host) (sample_memory [(1, sample_dkg 1), (2, sample_dkg 2)]) m"
    "im_get m (be 32 1) = Inr st" "st_ballots st = [\<lparr>sb_sequence_number = 0, sb_envelope = sample_envelope_ballot, sb_submitted_at = Some 150\<rparr>]"
    using sample_ballot_step [OF sample_host_plain, of sample_envelope_ballot] by blast
  have r: "mem_reachable sample_host m" unfolding mem_reachable_def by (rule rtranclp.rtrancl_into_rtrancl [OF sample_steps [OF sample_host_plain] m(1)])
  from stored_never_out_of_window [OF r m(2)] m(3) r m(2) show ?thesis by (metis list.set_intros(1))
qed

lemma read_all_ballots_complete_witness:
  "\<exists>m. mem_reachable sample_host m \<and> read_all_ballots (memory_port sample_host) (be 32 1) m =
     Inr [\<lparr>sb_sequence_number = 0, sb_envelope = sample_envelope_ballot, sb_submitted_at = Some 150\<rparr>]"
proof -
  let ?sb = "\<lparr>sb_sequence_number = 0, sb_envelope = sample_envelope_ballot, sb_submitted_at = Some 150\<rparr>"
  obtain m st where m: "dl_step (memory_port sample_host) (sample_memory [(1, sample_dkg 1), (2, sample_dkg 2)]) m"
    "im_get m (be 32 1) = Inr st" "st_ballots st = [?sb]"
    using sample_ballot_step [OF sample_host_plain, of sample_envelope_ballot] by blast
  have r: "mem_reachable sample_host m"
    unfolding mem_reachable_def by (rule rtranclp.rtrancl_into_rtrancl [OF sample_steps [OF sample_host_plain] m(1)])
  have "memory_holds sample_host m (be 32 1) [?sb]" using reachable_inv [OF r] m(2,3) by (auto simp: memory_holds_def)
  then have "read_all_ballots (memory_port sample_host) (be 32 1) m = Inr [?sb]"
    by (rule mp [OF conjunct1 [OF conjunct2 [OF read_all_ballots_complete [where P = "memory_port sample_host" and pg = Postgres_init]]]])
  with r show ?thesis by blast
qed

end
