(* ===== verification/Interpolation.thy ===== *)
theory Interpolation
  imports Curve_Order
begin

text \<open>
  Lagrange interpolation at zero modulo \<open>CURVE_ORDER\<close>, for polynomials given by their
  coefficient lists. The uniqueness half is the root bound: over a prime modulus a polynomial with
  no more coefficients than it has distinct roots vanishes everywhere.
\<close>

section \<open>Polynomials as coefficient lists\<close>

fun peval :: "int list \<Rightarrow> int \<Rightarrow> int" where
  "peval [] x = 0"
| "peval (c # cs) x = c + x * peval cs x"

fun padd :: "int list \<Rightarrow> int list \<Rightarrow> int list" where
  "padd [] ys = ys"
| "padd xs [] = xs"
| "padd (x # xs) (y # ys) = (x + y) # padd xs ys"

definition pscale :: "int \<Rightarrow> int list \<Rightarrow> int list" where
  "pscale a cs = map ((*) a) cs"

text \<open>Multiplication by \<open>X - a\<close>.\<close>

definition pmul_linear :: "int \<Rightarrow> int list \<Rightarrow> int list" where
  "pmul_linear a cs = padd (0 # cs) (pscale (- a) cs)"

definition psum :: "int list list \<Rightarrow> int list" where
  "psum ps = foldr padd ps []"

lemma peval_padd [simp]: "peval (padd p r) x = peval p x + peval r x"
  by (induction p r rule: padd.induct) (auto simp: algebra_simps)

lemma peval_pscale [simp]: "peval (pscale a p) x = a * peval p x"
  by (induction p) (auto simp: pscale_def algebra_simps)

lemma peval_pmul_linear [simp]: "peval (pmul_linear a p) x = (x - a) * peval p x"
  by (simp add: pmul_linear_def algebra_simps)

lemma peval_psum: "peval (psum ps) x = (\<Sum>p \<leftarrow> ps. peval p x)"
  by (induction ps) (auto simp: psum_def)

lemma length_padd [simp]: "length (padd p r) = max (length p) (length r)"
  by (induction p r rule: padd.induct) auto

lemma length_pscale [simp]: "length (pscale a p) = length p"
  by (simp add: pscale_def)

lemma length_pmul_linear [simp]: "length (pmul_linear a p) = Suc (length p)"
  by (simp add: pmul_linear_def)

lemma length_psum: "(\<And>p. p \<in> set ps \<Longrightarrow> length p \<le> n) \<Longrightarrow> length (psum ps) \<le> n"
  by (induction ps) (auto simp: psum_def)

lemma peval_zero: "peval cs 0 = (if cs = [] then 0 else hd cs)"
  by (cases cs) auto

lemma peval_cong:
  "list_all2 (\<lambda>a b. a mod q = b mod q) p r \<Longrightarrow> peval p x mod q = peval r x mod q"
  by (induction rule: list_all2_induct) (auto intro: mod_add_cong mod_mult_cong)

section \<open>Roots\<close>

fun synthetic :: "int \<Rightarrow> int list \<Rightarrow> int list" where
  "synthetic r [] = []"
| "synthetic r [c] = []"
| "synthetic r (c # d # cs) = peval (d # cs) r # synthetic r (d # cs)"

lemma synthetic_div: "peval cs x = (x - r) * peval (synthetic r cs) x + peval cs r"
proof (induction r cs rule: synthetic.induct)
  case (3 r c d cs)
  let ?P = "peval (d # cs)" and ?E = "peval (synthetic r (d # cs)) x"
  have "peval (c # d # cs) x = c + x * ((x - r) * ?E + ?P r)"
    using 3 by (simp only: peval.simps(2) [of c])
  also have "\<dots> = (x - r) * (?P r + x * ?E) + (c + r * ?P r)"
    by (simp only: algebra_simps)
  finally show ?case
    by (simp only: synthetic.simps peval.simps(2) [of c] peval.simps(2) [of "?P r"])
qed auto

lemma length_synthetic: "length (synthetic r cs) = length cs - 1"
  by (induction r cs rule: synthetic.induct) auto

definition distinct_mod :: "int list \<Rightarrow> bool" where
  "distinct_mod ids \<longleftrightarrow> distinct (map (\<lambda>i. i mod CURVE_ORDER) ids)"

lemma distinct_mod_Cons:
  "distinct_mod (r # rs) \<longleftrightarrow> (\<forall>s \<in> set rs. (s - r) mod CURVE_ORDER \<noteq> 0) \<and> distinct_mod rs"
proof -
  have "(s - r) mod CURVE_ORDER = 0 \<longleftrightarrow> r mod CURVE_ORDER = s mod CURVE_ORDER" for s
    by (metis mod_eq_0_iff_dvd mod_eq_dvd_iff)
  then show ?thesis by (auto simp: distinct_mod_def)
qed

lemma poly_many_roots:
  "distinct_mod rs \<Longrightarrow> length cs \<le> length rs \<Longrightarrow> \<forall>r \<in> set rs. peval cs r mod CURVE_ORDER = 0 \<Longrightarrow>
     peval cs x mod CURVE_ORDER = 0"
proof (induction rs arbitrary: cs)
  case Nil
  then show ?case by simp
next
  case (Cons r rs)
  let ?ds = "synthetic r cs"
  have r: "peval cs r mod CURVE_ORDER = 0" using Cons.prems by simp
  have red: "peval cs y mod CURVE_ORDER = (y - r) * peval ?ds y mod CURVE_ORDER" for y
    using synthetic_div [of cs y r] r by (metis add.right_neutral mod_add_right_eq)
  have "\<forall>s \<in> set rs. peval ?ds s mod CURVE_ORDER = 0"
  proof
    fix s
    assume s: "s \<in> set rs"
    with Cons.prems have "(s - r) * peval ?ds s mod CURVE_ORDER = 0" by (simp add: red [symmetric])
    moreover have "(s - r) mod CURVE_ORDER \<noteq> 0"
      using Cons.prems(1) s by (simp add: distinct_mod_Cons)
    ultimately show "peval ?ds s mod CURVE_ORDER = 0"
      using CURVE_ORDER_no_zero_divisors [of "s - r" "peval ?ds s"] by auto
  qed
  then have "peval ?ds x mod CURVE_ORDER = 0"
    using Cons by (simp add: distinct_mod_Cons length_synthetic)
  then show ?case
    unfolding red by (metis mod_mult_right_eq mod_0 mult_zero_right)
qed

section \<open>Interpolation at zero\<close>

text \<open>\<open>\<Prod>\<^sub>k (X - k)\<close> over the identifiers other than \<open>j\<close>.\<close>

definition others :: "int \<Rightarrow> int list \<Rightarrow> int list" where
  "others j ids = filter (\<lambda>k. k \<noteq> j) ids"

definition basis_poly :: "int list \<Rightarrow> int list" where
  "basis_poly ks = foldr pmul_linear ks [1]"

lemma peval_basis: "peval (basis_poly ks) x = (\<Prod>k \<leftarrow> ks. x - k)"
  by (induction ks) (auto simp: basis_poly_def)

lemma length_basis: "length (basis_poly ks) = Suc (length ks)"
  by (induction ks) (auto simp: basis_poly_def)

lemma length_others: "distinct ids \<Longrightarrow> j \<in> set ids \<Longrightarrow> Suc (length (others j ids)) = length ids"
proof (induction ids)
  case Nil
  then show ?case by simp
next
  case (Cons k ids)
  have "j \<notin> set ids \<Longrightarrow> filter (\<lambda>k. k \<noteq> j) ids = ids"
    by (rule filter_True) auto
  with Cons show ?case by (auto simp: others_def)
qed

lemma distinct_mod_distinct: "distinct_mod ids \<Longrightarrow> distinct ids"
  by (simp add: distinct_mod_def distinct_map)

lemma distinct_mod_diff:
  "distinct_mod ids \<Longrightarrow> i \<in> set ids \<Longrightarrow> j \<in> set ids \<Longrightarrow> i \<noteq> j \<Longrightarrow> (i - j) mod CURVE_ORDER \<noteq> 0"
  by (metis distinct_map distinct_mod_def inj_on_def mod_eq_0_iff_dvd mod_eq_dvd_iff)

lemma prod_list_mod_nonzero:
  "\<forall>x \<in> set xs. x mod CURVE_ORDER \<noteq> 0 \<Longrightarrow> prod_list xs mod CURVE_ORDER \<noteq> 0"
proof (induction xs)
  case Nil
  then show ?case by simp
next
  case (Cons x xs)
  then show ?case using CURVE_ORDER_no_zero_divisors [of x "prod_list xs"] by auto
qed

lemma basis_nonzero:
  "distinct_mod ids \<Longrightarrow> j \<in> set ids \<Longrightarrow> (\<Prod>k \<leftarrow> others j ids. j - k) mod CURVE_ORDER \<noteq> 0"
  using distinct_mod_diff [of ids j] by (intro prod_list_mod_nonzero) (auto simp: others_def)

text \<open>
  The weights \<open>w j\<close> interpolate at zero as soon as each of them is the value at zero of the
  basis polynomial divided by its value at \<open>j\<close>.
\<close>

theorem interpolation_at_zero:
  assumes ids: "distinct_mod ids" and len: "length cs \<le> length ids"
    and w: "\<And>j. j \<in> set ids \<Longrightarrow>
      \<exists>i. (\<Prod>k \<leftarrow> others j ids. j - k) * i mod CURVE_ORDER = 1 \<and>
          w j mod CURVE_ORDER = (\<Prod>k \<leftarrow> others j ids. 0 - k) * i mod CURVE_ORDER"
  shows "(\<Sum>j \<leftarrow> ids. peval cs j * w j) mod CURVE_ORDER = peval cs 0 mod CURVE_ORDER"
proof -
  from w have "\<forall>j \<in> set ids. \<exists>i. (\<Prod>k \<leftarrow> others j ids. j - k) * i mod CURVE_ORDER = 1 \<and>
          w j mod CURVE_ORDER = (\<Prod>k \<leftarrow> others j ids. 0 - k) * i mod CURVE_ORDER"
    by blast
  then obtain c where c: "\<forall>j \<in> set ids. (\<Prod>k \<leftarrow> others j ids. j - k) * c j mod CURVE_ORDER = 1 \<and>
          w j mod CURVE_ORDER = (\<Prod>k \<leftarrow> others j ids. 0 - k) * c j mod CURVE_ORDER"
    by (auto simp: bchoice_iff)
  define L where "L j = pscale (peval cs j * c j) (basis_poly (others j ids))" for j
  define h where "h = padd cs (pscale (- 1) (psum (map L ids)))"
  have d: "distinct ids" using ids by (rule distinct_mod_distinct)
  have h_eval: "peval h x = peval cs x - (\<Sum>j \<leftarrow> ids. peval (L j) x)" for x
    by (simp add: h_def peval_psum comp_def)
  have at: "(\<Sum>j \<leftarrow> ids. peval (L j) i) mod CURVE_ORDER = peval cs i mod CURVE_ORDER"
    if i: "i \<in> set ids" for i
  proof -
    have zero: "peval (L j) i = 0" if "j \<in> set ids" "j \<noteq> i" for j
    proof -
      have "(0::int) \<in> set (map (\<lambda>k. i - k) (others j ids))"
        using i that by (auto simp: others_def)
      then have "(\<Prod>k \<leftarrow> others j ids. i - k) = 0" by (simp add: prod_list_zero_iff)
      then show ?thesis by (simp add: L_def peval_basis)
    qed
    have "(\<Sum>j \<leftarrow> ids. peval (L j) i) = (\<Sum>j \<in> set ids. peval (L j) i)"
      using d by (simp add: sum_list_distinct_conv_sum_set)
    also have "\<dots> = peval (L i) i"
      using i zero by (subst sum.remove [of _ i]) (auto intro: sum.neutral)
    also have "\<dots> = peval cs i * ((\<Prod>k \<leftarrow> others i ids. i - k) * c i)"
      by (simp add: L_def peval_basis mult.assoc mult.left_commute)
    finally show ?thesis
      using c i by (metis mod_mult_right_eq mult.right_neutral)
  qed
  have "\<forall>i \<in> set ids. peval h i mod CURVE_ORDER = 0"
    using at by (metis h_eval mod_eq_dvd_iff mod_0_imp_dvd dvd_imp_mod_0)
  moreover have "length h \<le> length ids"
    using len d by (auto simp: h_def L_def length_basis length_others intro!: length_psum)
  ultimately have "peval h 0 mod CURVE_ORDER = 0"
    using poly_many_roots [OF ids] by blast
  then have "peval cs 0 mod CURVE_ORDER = (\<Sum>j \<leftarrow> ids. peval (L j) 0) mod CURVE_ORDER"
    by (simp add: h_eval mod_eq_dvd_iff dvd_eq_mod_eq_0)
  also have "\<dots> = (\<Sum>j \<leftarrow> ids. peval cs j * w j) mod CURVE_ORDER"
  proof (rule sum_list_mod_eq)
    have "peval (L j) 0 mod CURVE_ORDER = peval cs j * w j mod CURVE_ORDER" if "j \<in> set ids" for j
    proof -
      have "peval (L j) 0 = peval cs j * ((\<Prod>k \<leftarrow> others j ids. 0 - k) * c j)"
        by (simp add: L_def peval_basis mult.assoc mult.left_commute)
      with c that show ?thesis by (metis mod_mult_right_eq)
    qed
    then show "list_all2 (\<lambda>a b. a mod CURVE_ORDER = b mod CURVE_ORDER)
        (map (\<lambda>j. peval (L j) 0) ids) (map (\<lambda>j. peval cs j * w j) ids)"
      by (simp add: list_all2_map1 list_all2_map2 list.rel_refl_strong)
  qed
  finally show ?thesis by simp
qed

end
