(* ===== verification/Recovery.thy ===== *)
theory Recovery
  imports Interpolation Elgamal
begin

text \<open>
  \<^verbatim>\<open>crypto/recovery.py\<close>: Lagrange combination of decryption shares and the baby-step
  giant-step recovery of small discrete logarithms. The loops of the source are bounded
  \<open>for\<close> loops and become structural recursions; the search is proved to return exactly the
  logarithms up to the bound.
\<close>

section \<open>Lagrange combination\<close>

definition lagrange_products :: "int \<Rightarrow> int list \<Rightarrow> int \<Rightarrow> int \<times> int" where
  "lagrange_products j_id all_ids q =
     foldl (\<lambda>(num, den) k_id.
              if k_id = j_id then (num, den)
              else ((num * (0 - k_id)) mod q, (den * (j_id - k_id)) mod q)) (1, 1) all_ids"

definition lagrange_coefficient :: "int \<Rightarrow> int list \<Rightarrow> int \<Rightarrow> int result" where
  "lagrange_coefficient j_id all_ids q =
     (let (num, den) = lagrange_products j_id all_ids q
      in ebind (pow_inv den q) (\<lambda>i. Inr ((num * i) mod q)))"

definition combine_shares :: "('a, 'b) suite \<Rightarrow> (int \<times> 'b) list \<Rightarrow> 'b result" where
  "combine_shares S shares =
     efold (\<lambda>(j_id, sigma_j) result.
              ebind (lagrange_coefficient j_id (map fst shares) CURVE_ORDER) (\<lambda>lam.
              Inr (add (g2 S) result (mul (g2 S) sigma_j lam)))) shares (gid (g2 S))"

section \<open>Baby-step giant-step\<close>

text \<open>\<open>math.isqrt\<close>.\<close>

fun isqrt :: "nat \<Rightarrow> nat" where
  "isqrt n = (if n = 0 then 0 else
     let r = 2 * isqrt (n div 4) in if Suc r * Suc r \<le> n then Suc r else r)"

declare isqrt.simps [simp del]

definition point_key :: "('a, 'b) suite \<Rightarrow> 'b \<Rightarrow> bytes" where
  "point_key S P = (if is_identity (g2 S) P then [0] else gcompress (g2 S) P)"

record 'b BabyStepTable =
  bst_max_val :: int
  bst_n :: int
  bst_neg_step :: 'b
  bst_table :: "bytes \<rightharpoonup> int"

fun baby_steps :: "('a, 'b) suite \<Rightarrow> int \<Rightarrow> nat \<Rightarrow> 'b \<Rightarrow> (bytes \<rightharpoonup> int) \<Rightarrow> (bytes \<rightharpoonup> int)" where
  "baby_steps S j 0 P table = table"
| "baby_steps S j (Suc k) P table =
     baby_steps S (j + 1) k (add (g2 S) P (ggen (g2 S))) (table(point_key S P \<mapsto> j))"

definition build_baby_step_table :: "('a, 'b) suite \<Rightarrow> int \<Rightarrow> 'b BabyStepTable" where
  "build_baby_step_table S max_val =
     (let n = (if max_val > 0 then int (isqrt (nat max_val)) + 2 else 1)
      in \<lparr>bst_max_val = max_val, bst_n = n,
          bst_neg_step = neg (g2 S) (mul (g2 S) (ggen (g2 S)) n),
          bst_table = baby_steps S 0 (nat n) (gid (g2 S)) Map.empty\<rparr>)"

fun giant_steps :: "('a, 'b) suite \<Rightarrow> 'b BabyStepTable \<Rightarrow> 'b \<Rightarrow> int \<Rightarrow> nat \<Rightarrow> int option" where
  "giant_steps S T gamma i 0 = None"
| "giant_steps S T gamma i (Suc k) =
     (let rest = giant_steps S T (add (g2 S) gamma (bst_neg_step T)) (i + 1) k
      in case bst_table T (point_key S gamma) of
           None \<Rightarrow> rest
         | Some j \<Rightarrow> if i * bst_n T + j \<le> bst_max_val T then Some (i * bst_n T + j) else rest)"

definition baby_step_giant_step_with_table ::
    "('a, 'b) suite \<Rightarrow> 'b \<Rightarrow> 'b BabyStepTable \<Rightarrow> int option" where
  "baby_step_giant_step_with_table S target T =
     (if bst_max_val T = 0 then (if is_identity (g2 S) target then Some 0 else None)
      else if is_identity (g2 S) target then Some 0
      else giant_steps S T target 0 (nat (bst_n T + 1)))"

definition baby_step_giant_step :: "('a, 'b) suite \<Rightarrow> 'b \<Rightarrow> int \<Rightarrow> int option" where
  "baby_step_giant_step S target max_val =
     (if max_val = 0 then (if is_identity (g2 S) target then Some 0 else None)
      else if is_identity (g2 S) target then Some 0
      else baby_step_giant_step_with_table S target (build_baby_step_table S max_val))"

definition threshold_decrypt ::
    "('a, 'b) suite \<Rightarrow> 'b \<Rightarrow> 'b \<Rightarrow> (int \<times> 'b) list \<Rightarrow> int \<Rightarrow> int option result" where
  "threshold_decrypt S C1 C2 shares max_val =
     ebind (combine_shares S shares) (\<lambda>sigma.
     Inr (baby_step_giant_step S (add (g2 S) C2 (neg (g2 S) sigma)) max_val))"

section \<open>Correctness of the combination\<close>

lemma lagrange_products_prod:
  "foldl (\<lambda>(num, den) k_id.
            if k_id = j then (num, den)
            else ((num * (0 - k_id)) mod q, (den * (j - k_id)) mod q)) (a, b) ids = (x, y) \<Longrightarrow>
     x mod q = a * (\<Prod>k \<leftarrow> others j ids. 0 - k) mod q \<and>
     y mod q = b * (\<Prod>k \<leftarrow> others j ids. j - k) mod q"
proof (induction ids arbitrary: a b)
  case Nil
  then show ?case by (simp add: others_def)
next
  case (Cons k ids)
  show ?case
  proof (cases "k = j")
    case True
    with Cons show ?thesis by (simp add: others_def)
  next
    case False
    with Cons.IH [of "(a * (0 - k)) mod q" "(b * (j - k)) mod q"] Cons.prems
    have "x mod q = (a * (0 - k)) mod q * (\<Prod>k \<leftarrow> others j ids. 0 - k) mod q"
      "y mod q = (b * (j - k)) mod q * (\<Prod>k \<leftarrow> others j ids. j - k) mod q"
      by simp_all
    with False show ?thesis
      by (simp only: others_def mod_mult_left_eq filter.simps not_False_eq_True if_True list.map
          prod_list.Cons mult.assoc simp_thms)
  qed
qed

lemma lagrange_coefficient_spec:
  assumes ids: "distinct_mod ids" and j: "j \<in> set ids"
  shows "\<exists>lam i. lagrange_coefficient j ids CURVE_ORDER = Inr lam \<and>
    (\<Prod>k \<leftarrow> others j ids. j - k) * i mod CURVE_ORDER = 1 \<and>
    lam mod CURVE_ORDER = (\<Prod>k \<leftarrow> others j ids. 0 - k) * i mod CURVE_ORDER"
proof -
  obtain num den where nd: "lagrange_products j ids CURVE_ORDER = (num, den)"
    by (cases "lagrange_products j ids CURVE_ORDER")
  then have m: "num mod CURVE_ORDER = (\<Prod>k \<leftarrow> others j ids. 0 - k) mod CURVE_ORDER"
    "den mod CURVE_ORDER = (\<Prod>k \<leftarrow> others j ids. j - k) mod CURVE_ORDER"
    using lagrange_products_prod [of j CURVE_ORDER 1 1 ids num den]
    by (simp_all add: lagrange_products_def)
  have "den mod CURVE_ORDER \<noteq> 0"
    using basis_nonzero [OF ids j] m(2) by simp
  then obtain i where i: "pow_inv den CURVE_ORDER = Inr i" "den * i mod CURVE_ORDER = 1"
    using CURVE_ORDER_inverse by blast
  have "lagrange_coefficient j ids CURVE_ORDER = Inr ((num * i) mod CURVE_ORDER)"
    by (simp add: lagrange_coefficient_def nd i)
  moreover have "(\<Prod>k \<leftarrow> others j ids. j - k) * i mod CURVE_ORDER = 1"
    using i(2) m(2) by (metis mod_mult_left_eq)
  moreover have "num * i mod CURVE_ORDER mod CURVE_ORDER = (\<Prod>k \<leftarrow> others j ids. 0 - k) * i mod CURVE_ORDER"
    using m(1) by (metis mod_mod_trivial mod_mult_left_eq)
  ultimately show ?thesis by blast
qed

context crypto_suite
begin

lemma combine_loop:
  assumes "\<And>j. j \<in> set js \<Longrightarrow> lagrange_coefficient j ids CURVE_ORDER = Inr (w j)"
  shows "efold (\<lambda>(j_id, sigma_j) result.
      ebind (lagrange_coefficient j_id ids CURVE_ORDER) (\<lambda>lam.
      Inr (add (g2 S) result (mul (g2 S) sigma_j lam))))
    (map (\<lambda>j. (j, gx (g2 S) (f j))) js) (gx (g2 S) a) = Inr (gx (g2 S) (a + (\<Sum>j \<leftarrow> js. f j * w j)))"
  using assms
  by (induction js arbitrary: a) (simp_all add: W.gx_mul W.gx_add add.assoc)

text \<open>
  Shares \<open>f(j) C\<close> of a polynomial with at most as many coefficients as there are shares
  combine to \<open>f(0) C\<close>, whichever identifiers are used.
\<close>

lemma combine_shares_poly:
  assumes C: "gsub (g2 S) C" and ids: "distinct_mod ids" and len: "length cs \<le> length ids"
  shows "combine_shares S (map (\<lambda>j. (j, mul (g2 S) C (peval cs j))) ids) = Inr (mul (g2 S) C (peval cs 0))"
proof -
  obtain c where c: "C = gx (g2 S) c" using W.gx_cases [OF C] by blast
  have "\<forall>j \<in> set ids. \<exists>lam. lagrange_coefficient j ids CURVE_ORDER = Inr lam \<and>
      (\<exists>i. (\<Prod>k \<leftarrow> others j ids. j - k) * i mod CURVE_ORDER = 1 \<and>
        lam mod CURVE_ORDER = (\<Prod>k \<leftarrow> others j ids. 0 - k) * i mod CURVE_ORDER)"
    using lagrange_coefficient_spec [OF ids] by blast
  then obtain w where w: "\<forall>j \<in> set ids. lagrange_coefficient j ids CURVE_ORDER = Inr (w j) \<and>
      (\<exists>i. (\<Prod>k \<leftarrow> others j ids. j - k) * i mod CURVE_ORDER = 1 \<and>
        w j mod CURVE_ORDER = (\<Prod>k \<leftarrow> others j ids. 0 - k) * i mod CURVE_ORDER)"
    by (auto simp: bchoice_iff)
  have sum: "(\<Sum>j \<leftarrow> ids. peval cs j * w j) mod CURVE_ORDER = peval cs 0 mod CURVE_ORDER"
    by (rule interpolation_at_zero [OF ids len]) (use w in blast)
  have "combine_shares S (map (\<lambda>j. (j, mul (g2 S) C (peval cs j))) ids) =
      Inr (gx (g2 S) (\<Sum>j \<leftarrow> ids. c * peval cs j * w j))"
    using combine_loop [of ids ids w "\<lambda>j. c * peval cs j" 0] w
    by (simp add: combine_shares_def c W.gx_mul W.mul_zero comp_def)
  also have "(\<Sum>j \<leftarrow> ids. c * peval cs j * w j) = c * (\<Sum>j \<leftarrow> ids. peval cs j * w j)"
    by (simp add: sum_list_const_mult mult.assoc)
  also have "gx (g2 S) (c * (\<Sum>j \<leftarrow> ids. peval cs j * w j)) = gx (g2 S) (c * peval cs 0)"
    unfolding W.gx_eq_iff using sum by (metis mod_mult_right_eq)
  finally show ?thesis by (simp add: c W.gx_mul)
qed

end

section \<open>Correctness of the search\<close>

lemma isqrt_spec: "isqrt n * isqrt n \<le> n \<and> n < Suc (isqrt n) * Suc (isqrt n)"
proof (induction n rule: isqrt.induct)
  case (1 n)
  show ?case
  proof (cases "n = 0")
    case True
    then show ?thesis by (simp add: isqrt.simps [of 0])
  next
    case False
    define r where "r = isqrt (n div 4)"
    have ih: "r * r \<le> n div 4" "n div 4 < Suc r * Suc r"
      using 1 False by (auto simp: r_def)
    have lo: "2 * r * (2 * r) \<le> n"
      using ih(1) by (simp add: less_eq_div_iff_mult_less_eq)
    have hi: "n < Suc (Suc (2 * r)) * Suc (Suc (2 * r))"
      using ih(2) by (simp add: div_less_iff_less_mult)
    show ?thesis
      using lo hi False by (simp add: isqrt.simps [of n] r_def [symmetric] Let_def)
  qed
qed

lemma bsgs_step_size:
  assumes "0 < max_val" "m \<le> max_val" "0 \<le> m" and n: "n = int (isqrt (nat max_val)) + 2"
  shows "m div n < n"
proof -
  let ?s = "isqrt (nat max_val)"
  have "nat max_val < Suc ?s * Suc ?s" using isqrt_spec by blast
  then have "max_val < int (Suc ?s * Suc ?s)" by (simp only: nat_less_iff)
  then have "m < (int ?s + 1) * (int ?s + 1)" using assms by (simp add: algebra_simps)
  also have "\<dots> \<le> n * n" unfolding n by (intro mult_mono) auto
  finally have lt: "m < n * n" .
  have "0 < n" using n by simp
  show ?thesis
  proof (rule ccontr)
    assume "\<not> m div n < n"
    then have "n * n \<le> m div n * n" using \<open>0 < n\<close> by (intro mult_right_mono) auto
    also have "\<dots> \<le> m"
      using \<open>0 < n\<close> div_mult_mod_eq [of m n] pos_mod_sign [of n m] by linarith
    finally show False using lt by simp
  qed
qed

context crypto_suite
begin

lemma point_key_inject:
  "gsub (g2 S) P \<Longrightarrow> gsub (g2 S) Q \<Longrightarrow> point_key S P = point_key S Q \<longleftrightarrow> P = Q"
proof -
  assume sub: "gsub (g2 S) P" "gsub (g2 S) Q"
  have "gcompress (g2 S) R \<noteq> [0]" if "gsub (g2 S) R" for R
    using W.compress_size [OF that] by (auto simp: G2_BYTES_def)
  then have "gcompress (g2 S) P \<noteq> [0]" "gcompress (g2 S) Q \<noteq> [0]"
    using sub by blast+
  then show ?thesis
    using W.compress_inject [OF sub] by (auto simp: point_key_def is_identity_def)
qed

lemma baby_steps_lookup:
  assumes "0 \<le> j" "j + int k \<le> CURVE_ORDER"
    and "\<And>i. j \<le> i \<Longrightarrow> i < CURVE_ORDER \<Longrightarrow> T (point_key S (gx (g2 S) i)) = None"
    and "0 \<le> i" "i < CURVE_ORDER"
  shows "baby_steps S j k (gx (g2 S) j) T (point_key S (gx (g2 S) i)) =
    (if j \<le> i \<and> i < j + int k then Some i else T (point_key S (gx (g2 S) i)))"
  using assms(1-3)
proof (induction k arbitrary: j T)
  case 0
  then show ?case by simp
next
  case (Suc k)
  let ?T = "T(point_key S (gx (g2 S) j) \<mapsto> j)"
  have key: "point_key S (gx (g2 S) a) = point_key S (gx (g2 S) j) \<longleftrightarrow> a = j"
    if "0 \<le> a" "a < CURVE_ORDER" for a
    using that Suc.prems by (simp add: point_key_inject W.gx_eq_iff)
  have step: "add (g2 S) (gx (g2 S) j) (ggen (g2 S)) = gx (g2 S) (j + 1)"
    using W.gx_add [of j 1] by (simp add: W.mul_one)
  have "baby_steps S (j + 1) k (gx (g2 S) (j + 1)) ?T (point_key S (gx (g2 S) i)) =
      (if j + 1 \<le> i \<and> i < j + 1 + int k then Some i else ?T (point_key S (gx (g2 S) i)))"
    by (rule Suc.IH) (use Suc.prems key in auto)
  then show ?case
    using key [OF assms(4,5)] by (auto simp: step)
qed

lemma table_lookup:
  assumes "bst_n (build_baby_step_table S max_val) \<le> CURVE_ORDER" and "0 \<le> i" "i < CURVE_ORDER"
  shows "bst_table (build_baby_step_table S max_val) (point_key S (gx (g2 S) i)) =
    (if i < bst_n (build_baby_step_table S max_val) then Some i else None)"
proof -
  let ?n = "bst_n (build_baby_step_table S max_val)"
  have "0 \<le> ?n" by (simp add: build_baby_step_table_def Let_def)
  then show ?thesis
    using baby_steps_lookup [of 0 "nat ?n" Map.empty i] assms
    by (simp add: build_baby_step_table_def Let_def W.mul_zero split: if_splits)
qed

lemma table_neg_step:
  "add (g2 S) (gx (g2 S) a) (bst_neg_step (build_baby_step_table S max_val)) =
     gx (g2 S) (a - bst_n (build_baby_step_table S max_val))"
  by (simp add: build_baby_step_table_def Let_def W.gx_neg W.gx_add)

text \<open>The walk finds the logarithm \<open>m\<close>: a hit before the step \<open>m div n\<close> is also a hit at \<open>m\<close>.\<close>

lemma giant_steps_complete:
  assumes T: "T = build_baby_step_table S max_val" and n: "n = bst_n T" "0 < n" "n \<le> CURVE_ORDER"
    and m: "0 \<le> m" "m \<le> max_val" "m < CURVE_ORDER"
    and i: "0 \<le> i" "i \<le> m div n" "m div n < i + int k"
  shows "giant_steps S T (gx (g2 S) (m - i * n)) i k = Some m"
  using i
proof (induction k arbitrary: i)
  case 0
  then show ?case by simp
next
  case (Suc k)
  have "i * n \<le> m div n * n" using Suc.prems n(2) by (intro mult_right_mono) auto
  also have "\<dots> \<le> m" using n(2) div_mult_mod_eq [of m n] pos_mod_sign [of n m] by linarith
  finally have r: "0 \<le> m - i * n" "m - i * n < CURVE_ORDER"
    using m Suc.prems n(2) by (auto simp: zero_le_mult_iff intro: le_less_trans [of _ m])
  have look: "bst_table T (point_key S (gx (g2 S) (m - i * n))) = (if m - i * n < n then Some (m - i * n) else None)"
    using table_lookup [of max_val "m - i * n"] n r by (simp add: T)
  show ?case
  proof (cases "m - i * n < n")
    case True
    then show ?thesis using look m n T by (simp add: build_baby_step_table_def Let_def)
  next
    case False
    then have "(i + 1) * n \<le> m" by (simp add: algebra_simps)
    then have "i + 1 \<le> m div n" using n(2) by (metis nonzero_mult_div_cancel_right zdiv_mono1 less_irrefl)
    then have "giant_steps S T (gx (g2 S) (m - (i + 1) * n)) (i + 1) k = Some m"
      using Suc.prems by (intro Suc.IH) auto
    moreover have "add (g2 S) (gx (g2 S) (m - i * n)) (bst_neg_step T) = gx (g2 S) (m - (i + 1) * n)"
      using n(1) T by (simp add: table_neg_step algebra_simps)
    ultimately show ?thesis using look False by simp
  qed
qed

lemma giant_steps_sound:
  assumes T: "T = build_baby_step_table S max_val" and n: "n = bst_n T" "0 < n" "n \<le> CURVE_ORDER"
    and i: "0 \<le> i"
  shows "giant_steps S T (gx (g2 S) (a - i * n)) i k = Some m \<Longrightarrow>
    0 \<le> m \<and> m \<le> max_val \<and> gx (g2 S) a = gx (g2 S) m"
  using i
proof (induction k arbitrary: i)
  case 0
  then show ?case by simp
next
  case (Suc k)
  let ?P = "gx (g2 S) (a - i * n)"
  have nxt: "add (g2 S) ?P (bst_neg_step T) = gx (g2 S) (a - (i + 1) * n)"
    using n(1) T by (simp add: table_neg_step algebra_simps)
  define b where "b = (a - i * n) mod CURVE_ORDER"
  have P: "?P = gx (g2 S) b" by (simp add: b_def W.mul_mod)
  have look: "bst_table T (point_key S ?P) = (if b < n then Some b else None)"
    unfolding P using table_lookup [of max_val b] n by (simp add: T b_def)
  show ?case
  proof (cases "b < n \<and> i * n + b \<le> max_val")
    case True
    have "bst_max_val T = max_val" by (simp add: T build_baby_step_table_def Let_def)
    with True look Suc.prems n have m: "m = i * n + b" by simp
    have "0 \<le> m" using m Suc.prems n(2) by (simp add: b_def)
    moreover have "gx (g2 S) a = gx (g2 S) m"
      unfolding W.gx_eq_iff m b_def by (simp add: mod_add_right_eq)
    ultimately show ?thesis using m True by simp
  next
    case False
    have "bst_max_val T = max_val" by (simp add: T build_baby_step_table_def Let_def)
    with False look Suc.prems n nxt have "giant_steps S T (gx (g2 S) (a - (i + 1) * n)) (i + 1) k = Some m"
      by (auto simp: Let_def split: if_splits)
    then show ?thesis using Suc.IH [of "i + 1"] Suc.prems by simp
  qed
qed

lemma bsgs_table_bounds:
  assumes "0 < max_val" "max_val < CURVE_ORDER"
  shows "0 < bst_n (build_baby_step_table S max_val)" "bst_n (build_baby_step_table S max_val) \<le> CURVE_ORDER"
proof -
  let ?s = "isqrt (nat max_val)"
  have n: "bst_n (build_baby_step_table S max_val) = int ?s + 2"
    using assms by (simp add: build_baby_step_table_def Let_def)
  show "0 < bst_n (build_baby_step_table S max_val)" by (simp add: n)
  have "2 * ?s \<le> ?s * ?s \<or> ?s < 2" by (cases "?s < 2") auto
  moreover have "?s * ?s \<le> nat max_val" using isqrt_spec by blast
  ultimately have "2 * int ?s \<le> max_val + 2" using assms by linarith
  moreover have "4 \<le> CURVE_ORDER" by (simp add: CURVE_ORDER_def)
  ultimately show "bst_n (build_baby_step_table S max_val) \<le> CURVE_ORDER" using assms n by linarith
qed

text \<open>
  The search is exact: below the group order it returns \<open>m\<close> if and only if \<open>m\<close> is the
  logarithm of the target and lies within the bound.
\<close>

lemma bsgs_table_iff:
  assumes P: "gsub (g2 S) P" and mv: "0 \<le> max_val" "max_val < CURVE_ORDER"
  shows "baby_step_giant_step_with_table S P (build_baby_step_table S max_val) = Some m \<longleftrightarrow>
    0 \<le> m \<and> m \<le> max_val \<and> P = gx (g2 S) m"
proof -
  let ?T = "build_baby_step_table S max_val"
  obtain a where a: "P = gx (g2 S) a" "0 \<le> a" "a < CURVE_ORDER" using W.gx_cases [OF P] by blast
  have mvT: "bst_max_val ?T = max_val" by (simp add: build_baby_step_table_def Let_def)
  have id: "is_identity (g2 S) (gx (g2 S) c) \<longleftrightarrow> c mod CURVE_ORDER = 0" for c
    by (simp add: is_identity_def W.gx_eq_id_iff)
  have inj: "gx (g2 S) a = gx (g2 S) m \<longleftrightarrow> a = m" if "0 \<le> m" "m \<le> max_val" for m
    using that a mv by (simp add: W.gx_eq_iff)
  show ?thesis
  proof (cases "max_val = 0 \<or> a = 0")
    case True
    then show ?thesis
      using a mv inj [of m] by (auto simp: baby_step_giant_step_with_table_def mvT id)
  next
    case False
    then have pos: "0 < max_val" "a \<noteq> 0" using mv by auto
    note nb = bsgs_table_bounds [OF pos(1) mv(2)]
    have run: "baby_step_giant_step_with_table S P ?T = giant_steps S ?T (gx (g2 S) (a - 0 * bst_n ?T)) 0 (nat (bst_n ?T + 1))"
      using False a by (simp add: baby_step_giant_step_with_table_def mvT id)
    show ?thesis
    proof
      assume "baby_step_giant_step_with_table S P ?T = Some m"
      then have "0 \<le> m \<and> m \<le> max_val \<and> gx (g2 S) a = gx (g2 S) m"
        unfolding run by (rule giant_steps_sound [OF refl refl nb order_refl])
      then show "0 \<le> m \<and> m \<le> max_val \<and> P = gx (g2 S) m" by (simp add: a(1))
    next
      assume m: "0 \<le> m \<and> m \<le> max_val \<and> P = gx (g2 S) m"
      then have am: "a = m" using inj [of m] a(1) by metis
      have "m div bst_n ?T < bst_n ?T"
        using bsgs_step_size [of max_val m] pos m by (simp add: build_baby_step_table_def Let_def)
      then show "baby_step_giant_step_with_table S P ?T = Some m"
        unfolding run am using m mv nb
        by (intro giant_steps_complete [OF refl refl nb]) (auto simp: pos_imp_zdiv_nonneg_iff)
    qed
  qed
qed

lemma bsgs_iff:
  assumes P: "gsub (g2 S) P" and mv: "0 \<le> max_val" "max_val < CURVE_ORDER"
  shows "baby_step_giant_step S P max_val = Some m \<longleftrightarrow> 0 \<le> m \<and> m \<le> max_val \<and> P = gx (g2 S) m"
proof -
  have "baby_step_giant_step S P max_val =
      baby_step_giant_step_with_table S P (build_baby_step_table S max_val)"
    by (simp add: baby_step_giant_step_def baby_step_giant_step_with_table_def
        build_baby_step_table_def Let_def)
  then show ?thesis using bsgs_table_iff [OF assms] by simp
qed

end

section \<open>Properties\<close>

text \<open>
  Lagrange combination interpolates. Shares \<open>f(j) C\<close> of a polynomial with at most as many
  coefficients as there are shares combine to \<open>f(0) C\<close>, whichever distinct identifiers are used.
\<close>

theorem combine_shares_interpolates:
  assumes "crypto_suite S" and "gsub (g2 S) C" and "distinct_mod ids" and "length cs \<le> length ids"
  shows "combine_shares S (map (\<lambda>j. (j, mul (g2 S) C (peval cs j))) ids) = Inr (mul (g2 S) C (peval cs 0))"
  using assms by (rule crypto_suite.combine_shares_poly)

lemma combine_shares_interpolates_witness:
  "combine_shares zq_suite (map (\<lambda>j. (j, mul (g2 zq_suite) 7 (peval [5, 3] j))) [1, 3]) = Inr (mul (g2 zq_suite) 7 (peval [5, 3] 0))"
  by (rule combine_shares_interpolates [OF zq.crypto_suite_axioms])
    (simp_all add: zq_suite_def zq_group_def distinct_mod_def CURVE_ORDER_def)

text \<open>
  Baby-step giant-step is exact. For every bound below the group order it returns a number if
  and only if the number is within the bound and is the discrete logarithm of the point.
\<close>

theorem bsgs_exact:
  assumes "crypto_suite S" and "gsub (g2 S) P" and "0 \<le> max_val" "max_val < CURVE_ORDER"
  shows "baby_step_giant_step S P max_val = Some m \<longleftrightarrow> 0 \<le> m \<and> m \<le> max_val \<and> P = mul (g2 S) (ggen (g2 S)) m"
  using assms by (rule crypto_suite.bsgs_iff)

lemma bsgs_exact_witness:
  "baby_step_giant_step zq_suite 83 100 = Some 83 \<and> baby_step_giant_step zq_suite 83 80 \<noteq> Some 83"
proof -
  have "mul (g2 zq_suite) (ggen (g2 zq_suite)) 83 = 83" "gsub (g2 zq_suite) 83"
    by (simp_all add: zq_suite_def zq_group_def mul_def CURVE_ORDER_def)
  then show ?thesis
    using bsgs_exact [OF zq.crypto_suite_axioms, of 83 100 83] bsgs_exact [OF zq.crypto_suite_axioms, of 83 80 83]
    by (simp add: CURVE_ORDER_def)
qed

end
