(* ===== verification/Dkg.thy ===== *)
theory Dkg
  imports Recovery
begin

text \<open>
  \<^verbatim>\<open>crypto/dkg.py\<close>: Feldman VSS distributed key generation. The class
  \<open>KeyperDKGState\<close> is a record; its methods take and return it. The dictionaries keyed by
  dealer are association lists, as the source iterates over them.
\<close>

record 'b KeyperDKGState =
  ks_keyper_id :: "int option"
  ks_n :: "int option"
  ks_quorum :: "int option"
  ks_coefficients :: "int list option"
  ks_commitments :: "'b list option"
  ks_shares_for_others :: "(int \<times> int) list"
  ks_combined_share :: "int option"
  ks_public_key_share :: "'b option"

definition KeyperDKGState_init :: "'b KeyperDKGState" where
  "KeyperDKGState_init =
     \<lparr>ks_keyper_id = None, ks_n = None, ks_quorum = None, ks_coefficients = None,
      ks_commitments = None, ks_shares_for_others = [], ks_combined_share = None,
      ks_public_key_share = None\<rparr>"

text \<open>The inner loop of \<open>round1\<close>: the polynomial at \<open>i\<close>, powers kept reduced.\<close>

definition eval_share :: "int list \<Rightarrow> int \<Rightarrow> int" where
  "eval_share coefficients i =
     fst (foldl (\<lambda>(val, x_power) c. ((val + c * x_power) mod CURVE_ORDER, (x_power * i) mod CURVE_ORDER))
            (0, 1) coefficients)"

text \<open>\<open>rnd j\<close> is the value drawn for coefficient \<open>j\<close>.\<close>

definition round1 ::
    "('a, 'b) suite \<Rightarrow> 'b KeyperDKGState \<Rightarrow> int \<Rightarrow> int \<Rightarrow> int \<Rightarrow> (nat \<Rightarrow> int) \<Rightarrow>
     ('b list \<times> (int \<times> int) list) \<times> 'b KeyperDKGState" where
  "round1 S st keyper_id n quorum rnd =
     (let coefficients = map (\<lambda>j. random_scalar (rnd j)) [0..<nat quorum];
          commitments = map (\<lambda>c. mul (g2 S) (ggen (g2 S)) c) coefficients;
          shares = map (\<lambda>i. (i, eval_share coefficients i)) [1..n]
      in ((commitments, shares),
          st\<lparr>ks_keyper_id := Some keyper_id, ks_n := Some n, ks_quorum := Some quorum,
             ks_coefficients := Some coefficients, ks_commitments := Some commitments,
             ks_shares_for_others := shares\<rparr>))"

definition verify_share :: "('a, 'b) suite \<Rightarrow> 'b list \<Rightarrow> int \<Rightarrow> int \<Rightarrow> bool" where
  "verify_share S commitments recipient_index share =
     (fst (foldl (\<lambda>(expected, x_power) c.
              (add (g2 S) expected (mul (g2 S) c x_power), (x_power * recipient_index) mod CURVE_ORDER))
            (gid (g2 S), 1) commitments)
      = mul (g2 S) (ggen (g2 S)) share)"

text \<open>
  The verdict of \<open>round2\<close> on one dealer. A state whose \<open>round1\<close> never ran has no quorum, so
  every length comparison fails there.
\<close>

definition bad_dealing ::
    "('a, 'b) suite \<Rightarrow> 'b KeyperDKGState \<Rightarrow> (int \<times> 'b list) list \<Rightarrow> int \<Rightarrow> int \<Rightarrow> bool" where
  "bad_dealing S st all_commitments dealer_id share =
     (case map_of all_commitments dealer_id of
        None \<Rightarrow> True
      | Some comms \<Rightarrow>
          if ks_quorum st \<noteq> Some (int (length comms)) then True
          else case ks_keyper_id st of
            None \<Rightarrow> True
          | Some my_id \<Rightarrow> \<not> verify_share S comms my_id share)"

definition round2 ::
    "('a, 'b) suite \<Rightarrow> 'b KeyperDKGState \<Rightarrow> (int \<times> 'b list) list \<Rightarrow> (int \<times> int) list \<Rightarrow>
     ((int \<times> 'b) \<times> 'b KeyperDKGState) result" where
  "round2 S st all_commitments received_shares =
     (let bad_dealers = map fst (filter (\<lambda>(d, s). bad_dealing S st all_commitments d s) received_shares)
      in if bad_dealers \<noteq> [] then Inl (BadDealers bad_dealers)
         else
           let combined = sum_list (map snd received_shares) mod CURVE_ORDER;
               pks = mul (g2 S) (ggen (g2 S)) combined
           in Inr ((combined, pks), st\<lparr>ks_combined_share := Some combined, ks_public_key_share := Some pks\<rparr>))"

definition zeroize_dealing :: "'b KeyperDKGState \<Rightarrow> 'b KeyperDKGState" where
  "zeroize_dealing st = st\<lparr>ks_coefficients := None, ks_shares_for_others := []\<rparr>"

definition partial_decrypt :: "('a, 'b) suite \<Rightarrow> 'b KeyperDKGState \<Rightarrow> 'b \<Rightarrow> 'b result" where
  "partial_decrypt S st C1 =
     (case ks_combined_share st of None \<Rightarrow> Inl RuntimeError | Some msk \<Rightarrow> Inr (mul (g2 S) C1 msk))"

definition check_commitment_lengths :: "(int \<times> 'b list) list \<Rightarrow> int \<Rightarrow> unit result" where
  "check_commitment_lengths all_commitments quorum =
     (let bad_dealers = sort (map fst (filter (\<lambda>(d, c). int (length c) \<noteq> quorum) all_commitments))
      in if bad_dealers \<noteq> [] then Inl (BadDealers bad_dealers) else Inr ())"

definition dealer_commitments :: "(int \<times> 'b list) list \<Rightarrow> int \<Rightarrow> 'b list result" where
  "dealer_commitments all_commitments d =
     (case map_of all_commitments d of None \<Rightarrow> Inl KeyError | Some c \<Rightarrow> Inr c)"

definition derive_joint_mpk :: "('a, 'b) suite \<Rightarrow> (int \<times> 'b list) list \<Rightarrow> int \<Rightarrow> 'b result" where
  "derive_joint_mpk S all_commitments quorum =
     ebind (check_commitment_lengths all_commitments quorum) (\<lambda>_.
     efold (\<lambda>dealer_id mpk.
              ebind (dealer_commitments all_commitments dealer_id) (\<lambda>comms.
              case comms of [] \<Rightarrow> Inl IndexError | c0 # _ \<Rightarrow> Inr (add (g2 S) mpk c0)))
       (sort (map fst all_commitments)) (gid (g2 S)))"

definition derive_mpk_share :: "('a, 'b) suite \<Rightarrow> int \<Rightarrow> (int \<times> 'b list) list \<Rightarrow> int \<Rightarrow> 'b result" where
  "derive_mpk_share S target_keyper_id all_commitments quorum =
     ebind (check_commitment_lengths all_commitments quorum) (\<lambda>_.
     efold (\<lambda>dealer_id mpk_share.
              ebind (dealer_commitments all_commitments dealer_id) (\<lambda>comms.
              Inr (fst (foldl (\<lambda>(acc, x_power) c.
                 (add (g2 S) acc (mul (g2 S) c x_power), (x_power * target_keyper_id) mod CURVE_ORDER))
                 (mpk_share, 1) comms))))
       (sort (map fst all_commitments)) (gid (g2 S)))"

section \<open>Shares and commitments as polynomial evaluations\<close>

lemma eval_share_loop:
  "fst (foldl (\<lambda>(val, x_power) c. ((val + c * x_power) mod CURVE_ORDER, (x_power * i) mod CURVE_ORDER))
      (v, x) cs) mod CURVE_ORDER = (v + x * peval cs i) mod CURVE_ORDER"
proof (induction cs arbitrary: v x)
  case Nil
  then show ?case by simp
next
  case (Cons c cs)
  have "((v + c * x) mod CURVE_ORDER + (x * i) mod CURVE_ORDER * peval cs i) mod CURVE_ORDER =
      (v + c * x + x * i * peval cs i) mod CURVE_ORDER"
    by (metis mod_add_eq mod_add_left_eq mod_mult_left_eq)
  also have "v + c * x + x * i * peval cs i = v + x * peval (c # cs) i"
    by (simp add: algebra_simps)
  finally show ?case
    using Cons [of "(v + c * x) mod CURVE_ORDER" "(x * i) mod CURVE_ORDER"] by simp
qed

lemma eval_share_peval: "eval_share cs i mod CURVE_ORDER = peval cs i mod CURVE_ORDER"
  using eval_share_loop [of i 0 1 cs] by (simp add: eval_share_def)

context crypto_suite
begin

lemma commitment_loop:
  "fst (foldl (\<lambda>(acc, x_power) c. (add (g2 S) acc (mul (g2 S) c x_power), (x_power * i) mod CURVE_ORDER))
      (gx (g2 S) a, x) (map (gx (g2 S)) cs)) = gx (g2 S) (a + x * peval cs i)"
proof (induction cs arbitrary: a x)
  case Nil
  then show ?case by simp
next
  case (Cons c cs)
  have "(a + c * x + x * i mod CURVE_ORDER * peval cs i) mod CURVE_ORDER = (a + c * x + x * i * peval cs i) mod CURVE_ORDER"
    by (metis mod_add_right_eq mod_mult_left_eq)
  then have "gx (g2 S) (a + c * x + x * i mod CURVE_ORDER * peval cs i) = gx (g2 S) (a + x * (c + i * peval cs i))"
    by (simp add: W.gx_eq_iff algebra_simps)
  then show ?case by (simp add: W.gx_mul W.gx_add Cons)
qed

text \<open>Feldman's check accepts a share exactly when it is the committed polynomial's value.\<close>

lemma verify_share_iff:
  "verify_share S (map (gx (g2 S)) cs) i s \<longleftrightarrow> s mod CURVE_ORDER = peval cs i mod CURVE_ORDER"
  using commitment_loop [of i 0 1 cs]
  by (auto simp: verify_share_def W.mul_zero W.gx_eq_iff)

end

section \<open>A complete dealing\<close>

text \<open>
  \<open>dealing\<close> lists the dealers with their polynomials; \<open>deal_commitments\<close> and
  \<open>deal_shares\<close> are what they broadcast and what keyper \<open>i\<close> receives.
\<close>

definition deal_commitments :: "('a, 'b) suite \<Rightarrow> (int \<times> int list) list \<Rightarrow> (int \<times> 'b list) list" where
  "deal_commitments S dealing = map (\<lambda>(d, cs). (d, map (\<lambda>c. mul (g2 S) (ggen (g2 S)) c) cs)) dealing"

definition deal_shares :: "(int \<times> int list) list \<Rightarrow> int \<Rightarrow> (int \<times> int) list" where
  "deal_shares dealing i = map (\<lambda>(d, cs). (d, eval_share cs i)) dealing"

definition well_dealt :: "int \<Rightarrow> (int \<times> int list) list \<Rightarrow> bool" where
  "well_dealt quorum dealing \<longleftrightarrow>
     distinct (map fst dealing) \<and> (\<forall>(d, cs) \<in> set dealing. int (length cs) = quorum)"

definition joint_poly :: "(int \<times> int list) list \<Rightarrow> int list" where
  "joint_poly dealing = psum (map snd dealing)"

lemma length_joint_poly: "well_dealt quorum dealing \<Longrightarrow> int (length (joint_poly dealing)) \<le> max 0 quorum"
proof -
  assume w: "well_dealt quorum dealing"
  have "length (psum (map snd dealing)) \<le> nat quorum"
    by (rule length_psum) (use w in \<open>auto simp: well_dealt_def\<close>)
  then show ?thesis by (auto simp: joint_poly_def)
qed

lemma sum_shares: "sum_list (map snd (deal_shares dealing i)) mod CURVE_ORDER = peval (joint_poly dealing) i mod CURVE_ORDER"
proof -
  have "sum_list (map snd (deal_shares dealing i)) = sum_list (map (\<lambda>x. eval_share (snd x) i) dealing)"
    by (simp add: deal_shares_def split_def comp_def)
  also have "\<dots> mod CURVE_ORDER = sum_list (map (\<lambda>x. peval (snd x) i) dealing) mod CURVE_ORDER"
    by (rule sum_list_mod_eq)
      (simp add: list_all2_map1 list_all2_map2 list.rel_refl_strong eval_share_peval)
  finally show ?thesis by (simp add: joint_poly_def peval_psum comp_def)
qed

lemma lookup_deal_commitments:
  "well_dealt quorum dealing \<Longrightarrow> (d, cs) \<in> set dealing \<Longrightarrow>
     map_of (deal_commitments S dealing) d = Some (map (\<lambda>c. mul (g2 S) (ggen (g2 S)) c) cs)"
  by (rule map_of_is_SomeI) (force simp: deal_commitments_def well_dealt_def comp_def split_def)+

lemma check_lengths_ok: "well_dealt quorum dealing \<Longrightarrow> check_commitment_lengths (deal_commitments S dealing) quorum = Inr ()"
proof -
  assume "well_dealt quorum dealing"
  then have none: "filter (\<lambda>(d, c). int (length c) \<noteq> quorum) (deal_commitments S dealing) = []"
    by (auto simp: well_dealt_def deal_commitments_def filter_empty_conv)
  show ?thesis by (simp add: check_commitment_lengths_def none)
qed

context crypto_suite
begin

lemma round2_complete:
  assumes w: "well_dealt quorum dealing" and st: "ks_keyper_id st = Some i" "ks_quorum st = Some quorum"
  shows "\<exists>msk st'. round2 S st (deal_commitments S dealing) (deal_shares dealing i) =
      Inr ((msk, gx (g2 S) msk), st') \<and>
    msk mod CURVE_ORDER = peval (joint_poly dealing) i mod CURVE_ORDER \<and>
    ks_combined_share st' = Some msk \<and> ks_public_key_share st' = Some (gx (g2 S) msk)"
proof -
  have "\<not> bad_dealing S st (deal_commitments S dealing) d s" if "(d, s) \<in> set (deal_shares dealing i)" for d s
  proof -
    from that obtain cs where cs: "(d, cs) \<in> set dealing" "s = eval_share cs i"
      by (auto simp: deal_shares_def)
    then have "int (length cs) = quorum" using w by (auto simp: well_dealt_def)
    then show ?thesis
      using st cs verify_share_iff [of cs i s] eval_share_peval [of cs i]
      by (simp add: bad_dealing_def lookup_deal_commitments [OF w cs(1)])
  qed
  then have "filter (\<lambda>(d, s). bad_dealing S st (deal_commitments S dealing) d s) (deal_shares dealing i) = []"
    by (auto simp: filter_empty_conv)
  then show ?thesis by (simp add: round2_def Let_def sum_shares)
qed

lemma derive_loop:
  assumes "\<And>d. d \<in> set ds \<Longrightarrow> map_of comms d = Some (map (gx (g2 S)) (p d))"
  shows "efold (\<lambda>dealer_id mpk_share.
      ebind (dealer_commitments comms dealer_id) (\<lambda>comms.
      Inr (fst (foldl (\<lambda>(acc, x_power) c.
         (add (g2 S) acc (mul (g2 S) c x_power), (x_power * i) mod CURVE_ORDER)) (mpk_share, 1) comms))))
    ds (gx (g2 S) a) = Inr (gx (g2 S) (a + (\<Sum>d \<leftarrow> ds. peval (p d) i)))"
  using assms
  by (induction ds arbitrary: a) (simp_all add: dealer_commitments_def commitment_loop add.assoc)

lemma joint_loop:
  assumes "\<And>d. d \<in> set ds \<Longrightarrow> map_of comms d = Some (map (gx (g2 S)) (p d)) \<and> p d \<noteq> []"
  shows "efold (\<lambda>dealer_id mpk.
      ebind (dealer_commitments comms dealer_id) (\<lambda>comms.
      case comms of [] \<Rightarrow> Inl IndexError | c0 # _ \<Rightarrow> Inr (add (g2 S) mpk c0)))
    ds (gx (g2 S) a) = Inr (gx (g2 S) (a + (\<Sum>d \<leftarrow> ds. peval (p d) 0)))"
  using assms
proof (induction ds arbitrary: a)
  case Nil
  then show ?case by simp
next
  case (Cons d ds)
  then obtain c cs where "p d = c # cs" by (meson list.exhaust list.set_intros(1))
  with Cons show ?case by (simp add: dealer_commitments_def W.gx_add add.assoc)
qed

lemma dealers_sorted_sum:
  assumes w: "well_dealt quorum dealing"
  shows "(\<Sum>d \<leftarrow> sort (map fst dealing). peval (the (map_of dealing d)) i) = peval (joint_poly dealing) i"
proof -
  have d: "distinct (map fst dealing)" using w by (simp add: well_dealt_def)
  have "(\<Sum>d \<leftarrow> sort (map fst dealing). peval (the (map_of dealing d)) i) =
      (\<Sum>d \<leftarrow> map fst dealing. peval (the (map_of dealing d)) i)"
    using d by (simp add: sum_list_distinct_conv_sum_set del: set_map map_map)
  also have "\<dots> = (\<Sum>x \<leftarrow> dealing. peval (snd x) i)"
    using d by (intro arg_cong [where f = sum_list]) (auto simp: map_of_is_SomeI)
  finally show ?thesis by (simp add: joint_poly_def peval_psum comp_def)
qed

lemma dealing_lookup:
  assumes w: "well_dealt quorum dealing" and d: "d \<in> set (sort (map fst dealing))"
  shows "map_of (deal_commitments S dealing) d = Some (map (gx (g2 S)) (the (map_of dealing d))) \<and>
    int (length (the (map_of dealing d))) = quorum"
proof -
  from d obtain cs where cs: "(d, cs) \<in> set dealing" by auto
  then have "map_of dealing d = Some cs" using w by (simp add: well_dealt_def)
  then show ?thesis
    using lookup_deal_commitments [OF w cs] w cs by (auto simp: well_dealt_def)
qed

lemma fst_deal_commitments: "map fst (deal_commitments S dealing) = map fst dealing"
  by (simp add: deal_commitments_def split_def comp_def)

lemma derive_mpk_share_dealt:
  assumes w: "well_dealt quorum dealing"
  shows "derive_mpk_share S i (deal_commitments S dealing) quorum = Inr (gx (g2 S) (peval (joint_poly dealing) i))"
  using derive_loop [of "sort (map fst dealing)" "deal_commitments S dealing" "\<lambda>d. the (map_of dealing d)" i 0]
    dealing_lookup [OF w] dealers_sorted_sum [OF w, of i]
  by (simp add: derive_mpk_share_def check_lengths_ok [OF w] fst_deal_commitments W.mul_zero)

lemma derive_joint_mpk_dealt:
  assumes w: "well_dealt quorum dealing" and q: "1 \<le> quorum"
  shows "derive_joint_mpk S (deal_commitments S dealing) quorum = Inr (gx (g2 S) (peval (joint_poly dealing) 0))"
proof -
  have "map_of (deal_commitments S dealing) d = Some (map (gx (g2 S)) (the (map_of dealing d))) \<and>
      the (map_of dealing d) \<noteq> []" if "d \<in> set (sort (map fst dealing))" for d
    using dealing_lookup [OF w that] q by auto
  then show ?thesis
    using joint_loop [of "sort (map fst dealing)" "deal_commitments S dealing" "\<lambda>d. the (map_of dealing d)" 0]
      dealers_sorted_sum [OF w, of 0]
    by (simp add: derive_joint_mpk_def check_lengths_ok [OF w] fst_deal_commitments W.mul_zero)
qed

text \<open>Any quorum of keypers decrypts under the joint key.\<close>

lemma threshold_decrypt_dealt:
  assumes w: "well_dealt quorum dealing"
    and ids: "distinct_mod ids" "quorum \<le> int (length ids)"
    and m: "0 \<le> m" "m \<le> max_val" "max_val < CURVE_ORDER"
    and ct: "(C1, C2) = Enc S (gx (g2 S) (peval (joint_poly dealing) 0)) m r"
    and msk: "\<And>i. i \<in> set ids \<Longrightarrow> msk i mod CURVE_ORDER = peval (joint_poly dealing) i mod CURVE_ORDER"
  shows "threshold_decrypt S C1 C2 (map (\<lambda>i. (i, mul (g2 S) C1 (msk i))) ids) max_val = Inr (Some m)"
proof -
  let ?f = "joint_poly dealing"
  have len: "length ?f \<le> length ids" using length_joint_poly [OF w] ids(2) by linarith
  have C: "C1 = gx (g2 S) r" "C2 = gx (g2 S) (peval ?f 0 * r + m)"
    using ct by (auto simp: Enc_exponents)
  have "map (\<lambda>i. (i, mul (g2 S) C1 (msk i))) ids = map (\<lambda>i. (i, mul (g2 S) C1 (peval ?f i))) ids"
    using msk by (auto simp: mul_def)
  then have sh: "combine_shares S (map (\<lambda>i. (i, mul (g2 S) C1 (msk i))) ids) = Inr (mul (g2 S) C1 (peval ?f 0))"
    using combine_shares_poly [OF _ ids(1) len, of C1] W.gx_sub [of r] by (simp only: C(1))
  have tau: "add (g2 S) C2 (neg (g2 S) (mul (g2 S) C1 (peval ?f 0))) = gx (g2 S) m"
    by (simp add: C W.exponent_simps algebra_simps)
  have "baby_step_giant_step S (gx (g2 S) m) max_val = Some m"
    using bsgs_iff [of "gx (g2 S) m" max_val m] m by simp
  then show ?thesis by (simp add: threshold_decrypt_def sh tau)
qed

end

section \<open>Properties\<close>

text \<open>
  Feldman's check is exact. A share is accepted if and only if it is the value of the
  committed polynomial at the recipient's index, modulo the group order.
\<close>

theorem feldman_check_exact:
  assumes "crypto_suite S"
  shows "verify_share S (map (\<lambda>c. mul (g2 S) (ggen (g2 S)) c) cs) i s \<longleftrightarrow> s mod CURVE_ORDER = peval cs i mod CURVE_ORDER"
  using crypto_suite.verify_share_iff [OF assms] .

lemma feldman_check_exact_witness:
  "verify_share zq_suite (map (\<lambda>c. mul (g2 zq_suite) (ggen (g2 zq_suite)) c) [5, 3]) 2 11 \<and>
   \<not> verify_share zq_suite (map (\<lambda>c. mul (g2 zq_suite) (ggen (g2 zq_suite)) c) [5, 3]) 2 12"
  unfolding feldman_check_exact [OF zq.crypto_suite_axioms] by (simp add: CURVE_ORDER_def)

text \<open>
  What round 1 deals, every recipient accepts. The commitments number exactly the quorum, and
  the share for each keyper \<open>1..n\<close> passes Feldman's check against them.
\<close>

theorem round1_shares_verify:
  assumes "crypto_suite S" and "round1 S st keyper_id n quorum rnd = ((commitments, shares), st')"
  shows "length commitments = nat quorum \<and> map fst shares = [1..n] \<and>
    (\<forall>(i, s) \<in> set shares. verify_share S commitments i s) \<and> ks_quorum st' = Some quorum"
proof -
  let ?cs = "map (\<lambda>j. random_scalar (rnd j)) [0..<nat quorum]"
  have r: "commitments = map (\<lambda>c. mul (g2 S) (ggen (g2 S)) c) ?cs" "shares = map (\<lambda>i. (i, eval_share ?cs i)) [1..n]"
    "ks_quorum st' = Some quorum"
    using assms(2) by (auto simp: round1_def Let_def)
  have "verify_share S commitments i (eval_share ?cs i)" for i
    unfolding r(1) crypto_suite.verify_share_iff [OF assms(1)] by (rule eval_share_peval)
  with r show ?thesis by (auto simp: comp_def)
qed

lemma round1_shares_verify_witness:
  "\<exists>c s st'. round1 zq_suite KeyperDKGState_init 1 3 2 (\<lambda>j. int j) = ((c, s), st') \<and>
     length c = 2 \<and> map fst s = [1..3] \<and> (\<forall>(i, x) \<in> set s. verify_share zq_suite c i x)"
proof -
  obtain c s st' where r: "round1 zq_suite KeyperDKGState_init 1 3 2 (\<lambda>j. int j) = ((c, s), st')"
    by (metis prod.collapse)
  show ?thesis using round1_shares_verify [OF zq.crypto_suite_axioms r] r by auto
qed

text \<open>
  Round 2 accepts nothing unchecked. When it returns, every received share came from a dealer
  with exactly \<open>quorum\<close> commitments and passed Feldman's check, and the combined share is the sum;
  when it refuses, it names exactly the dealers that failed.
\<close>

theorem round2_verdict:
  assumes "ks_keyper_id st = Some i" and "ks_quorum st = Some quorum"
  shows "case round2 S st comms shares of
      Inr ((msk, pks), st') \<Rightarrow>
        (\<forall>(d, s) \<in> set shares. \<exists>cs. map_of comms d = Some cs \<and> int (length cs) = quorum \<and> verify_share S cs i s) \<and>
        msk = sum_list (map snd shares) mod CURVE_ORDER \<and> pks = mul (g2 S) (ggen (g2 S)) msk \<and>
        st' = st\<lparr>ks_combined_share := Some msk, ks_public_key_share := Some pks\<rparr>
    | Inl e \<Rightarrow> \<exists>bad. e = BadDealers bad \<and> bad \<noteq> [] \<and>
        (\<forall>d. d \<in> set bad \<longleftrightarrow> (\<exists>s. (d, s) \<in> set shares \<and>
           \<not> (\<exists>cs. map_of comms d = Some cs \<and> int (length cs) = quorum \<and> verify_share S cs i s)))"
proof -
  let ?bad = "map fst (filter (\<lambda>(d, s). bad_dealing S st comms d s) shares)"
  have b: "bad_dealing S st comms d s \<longleftrightarrow>
      \<not> (\<exists>cs. map_of comms d = Some cs \<and> int (length cs) = quorum \<and> verify_share S cs i s)" for d s
    using assms by (auto simp: bad_dealing_def split: option.splits)
  show ?thesis
  proof (cases "?bad = []")
    case True
    then have "\<forall>(d, s) \<in> set shares. \<not> bad_dealing S st comms d s" by (auto simp: filter_empty_conv)
    with True show ?thesis by (auto simp: round2_def Let_def b)
  next
    case False
    then have r: "round2 S st comms shares = Inl (BadDealers ?bad)" by (simp add: round2_def Let_def)
    have "\<forall>d. d \<in> set ?bad \<longleftrightarrow> (\<exists>s. (d, s) \<in> set shares \<and> bad_dealing S st comms d s)" by force
    with False show ?thesis unfolding r sum.case b [symmetric] by blast
  qed
qed

lemma round2_verdict_witness:
  "\<exists>bad. round2 zq_suite (KeyperDKGState_init\<lparr>ks_keyper_id := Some 1, ks_quorum := Some 2\<rparr>) [] [(2, 9)] = Inl (BadDealers bad) \<and> 2 \<in> set bad"
proof -
  have "round2 zq_suite (KeyperDKGState_init\<lparr>ks_keyper_id := Some 1, ks_quorum := Some 2\<rparr>) [] [(2, 9)] = Inl (BadDealers [2])"
    by (simp add: round2_def bad_dealing_def)
  then show ?thesis
    using round2_verdict [of "KeyperDKGState_init\<lparr>ks_keyper_id := Some 1, ks_quorum := Some 2\<rparr>" 1 2 "[(2, 9)]" "[]" zq_suite] by simp
qed

text \<open>
  Any quorum decrypts. After a complete dealing every keyper of any set of distinct indices
  at least as large as the quorum finishes round 2, and their partial decryptions of an
  encryption under the derived joint key recover the plaintext, whatever the set.
\<close>

theorem any_quorum_decrypts:
  assumes "crypto_suite S" and w: "well_dealt quorum dealing" and q: "1 \<le> quorum" "quorum \<le> int (length ids)"
    and ids: "distinct_mod ids"
    and st: "\<And>i. i \<in> set ids \<Longrightarrow> ks_keyper_id (st i) = Some i \<and> ks_quorum (st i) = Some quorum"
    and m: "0 \<le> m" "m \<le> max_val" "max_val < CURVE_ORDER"
  shows "\<exists>mpk. derive_joint_mpk S (deal_commitments S dealing) quorum = Inr mpk \<and>
    (\<forall>C1 C2 r. (C1, C2) = Enc S mpk m r \<longrightarrow>
      (\<exists>sigma. (\<forall>i \<in> set ids. \<exists>out st'. round2 S (st i) (deal_commitments S dealing) (deal_shares dealing i) = Inr (out, st') \<and>
           partial_decrypt S st' C1 = Inr (sigma i)) \<and>
         threshold_decrypt S C1 C2 (map (\<lambda>i. (i, sigma i)) ids) max_val = Inr (Some m)))"
proof -
  let ?f = "joint_poly dealing"
  have r2: "\<forall>i \<in> set ids. \<exists>msk st'. round2 S (st i) (deal_commitments S dealing) (deal_shares dealing i) =
      Inr ((msk, mul (g2 S) (ggen (g2 S)) msk), st') \<and> msk mod CURVE_ORDER = peval ?f i mod CURVE_ORDER \<and>
      ks_combined_share st' = Some msk"
    using crypto_suite.round2_complete [OF assms(1) w] st by metis
  then obtain msk where k: "\<And>i. i \<in> set ids \<Longrightarrow> \<exists>st'. round2 S (st i) (deal_commitments S dealing) (deal_shares dealing i) =
      Inr ((msk i, mul (g2 S) (ggen (g2 S)) (msk i)), st') \<and> msk i mod CURVE_ORDER = peval ?f i mod CURVE_ORDER \<and>
      ks_combined_share st' = Some (msk i)"
    by metis
  note td = crypto_suite.threshold_decrypt_dealt [OF assms(1) w ids q(2) m]
  show ?thesis
  proof (intro exI conjI allI impI)
    show "derive_joint_mpk S (deal_commitments S dealing) quorum = Inr (mul (g2 S) (ggen (g2 S)) (peval ?f 0))"
      by (rule crypto_suite.derive_joint_mpk_dealt [OF assms(1) w q(1)])
    fix C1 C2 r
    assume ct: "(C1, C2) = Enc S (mul (g2 S) (ggen (g2 S)) (peval ?f 0)) m r"
    show "\<forall>i \<in> set ids. \<exists>out st'. round2 S (st i) (deal_commitments S dealing) (deal_shares dealing i) = Inr (out, st') \<and>
        partial_decrypt S st' C1 = Inr (mul (g2 S) C1 (msk i))"
      using k by (fastforce simp: partial_decrypt_def)
    show "threshold_decrypt S C1 C2 (map (\<lambda>i. (i, mul (g2 S) C1 (msk i))) ids) max_val = Inr (Some m)"
      by (rule td [OF ct]) (use k in blast)
  qed
qed

lemma any_quorum_decrypts_witness:
  "\<exists>mpk. derive_joint_mpk zq_suite (deal_commitments zq_suite [(1, [5, 1]), (2, [7, 2])]) 2 = Inr mpk \<and>
    (\<forall>C1 C2 r. (C1, C2) = Enc zq_suite mpk 4 r \<longrightarrow>
      (\<exists>sigma. threshold_decrypt zq_suite C1 C2 (map (\<lambda>i. (i, sigma i)) [1, 3]) 10 = Inr (Some 4)))"
  using any_quorum_decrypts [OF zq.crypto_suite_axioms, of 2 "[(1, [5, 1]), (2, [7, 2])]" "[1, 3]"
      "\<lambda>i. KeyperDKGState_init\<lparr>ks_keyper_id := Some i, ks_quorum := Some 2\<rparr>" 4 10]
  by (simp add: well_dealt_def distinct_mod_def CURVE_ORDER_def) blast

end
