(* ===== verification/Aggregation.thy ===== *)
theory Aggregation
  imports Admission Dkg
begin

text \<open>
  \<^verbatim>\<open>core/aggregation.py\<close>: the weighted homomorphic aggregate of the admitted ballots, and the
  two ways of establishing a result, solving the discrete logarithm (\<open>recover_result\<close>) and
  checking published totals (\<open>check_result\<close>).
\<close>

section \<open>The aggregate\<close>

definition scaled_weight :: "int \<Rightarrow> int \<Rightarrow> int" where
  "scaled_weight weight scale = (weight + scale div 2) div scale"

definition bsgs_bound :: "ElectionConfig \<Rightarrow> int \<Rightarrow> int" where
  "bsgs_bound config total_scaled_weight = cfg_budget config * total_scaled_weight"

text \<open>The inner loop over the candidates for one admitted ballot of scaled weight \<open>w\<close>.\<close>

definition add_ballot ::
    "('a, 'b) suite \<Rightarrow> int \<Rightarrow> Ciphertext list \<Rightarrow> 'b ct list \<Rightarrow> 'b ct list result" where
  "add_ballot S w cts acc =
     emap (\<lambda>(j, a).
             ebind (py_nth cts j) (\<lambda>c.
             ebind (g2_from_compressed S (ct_c1 c)) (\<lambda>c1.
             ebind (g2_from_compressed S (ct_c2 c)) (\<lambda>c2.
             Inr (add_ct S a (scalar_mul_ct S w (c1, c2))))))) (enumerate 0 acc)"

definition aggregate_points ::
    "('a, 'b) suite \<Rightarrow> AdmittedBallot list \<Rightarrow> int \<Rightarrow> int \<Rightarrow> 'b ct list result" where
  "aggregate_points S admitted num_candidates scale =
     efold (\<lambda>ab acc.
              let w = scaled_weight (ab_weight ab) scale in
              if w = 0 then Inr acc
              else add_ballot S w (be_ciphertexts (ab_envelope ab)) acc)
       admitted (replicate (nat num_candidates) (gid (g2 S), gid (g2 S)))"

definition build_aggregate_artifact ::
    "('a, 'b) suite \<Rightarrow> ElectionConfig \<Rightarrow> AdmissionResult \<Rightarrow> AggregateArtifact result" where
  "build_aggregate_artifact S config admission =
     ebind (aggregate_points S (ar_admitted admission) (cfg_num_candidates config) (cfg_scale config)) (\<lambda>agg_pts.
     ebind (emap (compress_ct S) agg_pts) (\<lambda>cts.
     let total_scaled = sum_list (map (\<lambda>a. scaled_weight (ab_weight a) (cfg_scale config)) (ar_admitted admission))
     in Inr \<lparr>agg_election_id = cfg_election_id config,
             agg_aggregates = map (\<lambda>(c1, c2). \<lparr>ct_c1 = c1, ct_c2 = c2\<rparr>) cts,
             agg_admitted = map ab_sequence_number (ar_admitted admission),
             agg_exclusions = ar_exclusions admission,
             agg_total_admitted_weight = ar_total_admitted_weight admission,
             agg_total_scaled_weight = total_scaled\<rparr>))"

section \<open>Deriving the decrypted points\<close>

text \<open>\<open>try: ... except ValueError: continue\<close>.\<close>

definition except_ValueError :: "'a result \<Rightarrow> 'a option result" where
  "except_ValueError m = (case m of Inr x \<Rightarrow> Inr (Some x) | Inl ValueError \<Rightarrow> Inr None | Inl e \<Rightarrow> Inl e)"

text \<open>What the loop appends to \<open>valid\<close> for one share envelope.\<close>

definition check_share ::
    "('a, 'b) suite \<Rightarrow> ElectionConfig \<Rightarrow> bytes list \<Rightarrow> nat \<Rightarrow> 'b \<Rightarrow> 'b \<Rightarrow> DecryptionShareEnvelope \<Rightarrow>
     (int \<times> 'b) option result" where
  "check_share S config committee_pks j c1 c2 share =
     (if length (ds_entries share) \<le> j then Inr None
      else
        let entry = ds_entries share ! j; idx = ds_keyper_index share in
        if \<not> (1 \<le> idx \<and> idx \<le> int (length committee_pks)) then Inr None
        else
          ebind (except_ValueError
                  (ebind (g2_from_compressed S (se_sigma entry)) (\<lambda>sigma.
                   ebind (decode_dleq (se_proof entry)) (\<lambda>(e, z).
                   ebind (g2_from_compressed S (committee_pks ! nat (idx - 1))) (\<lambda>mpk_k.
                   Inr (sigma, e, z, mpk_k)))))) (\<lambda>parsed.
          case parsed of
            None \<Rightarrow> Inr None
          | Some (sigma, e, z, mpk_k) \<Rightarrow>
              ebind (make_decrypt_transcript (cfg_election_id config) (int j)) (\<lambda>t.
              ebind (verify_decryption_share S t c1 c2 mpk_k sigma e z idx) (\<lambda>(ok, _).
              Inr (if ok then Some (idx, sigma) else None)))))"

definition valid_shares ::
    "('a, 'b) suite \<Rightarrow> ElectionConfig \<Rightarrow> bytes list \<Rightarrow> nat \<Rightarrow> 'b \<Rightarrow> 'b \<Rightarrow> DecryptionShareEnvelope list \<Rightarrow>
     (int \<times> 'b) list result" where
  "valid_shares S config committee_pks j c1 c2 shares =
     ebind (emap (check_share S config committee_pks j c1 c2) shares) (\<lambda>rs. Inr (List.map_filter (\<lambda>r. r) rs))"

fun derive_taus_from ::
    "('a, 'b) suite \<Rightarrow> ElectionConfig \<Rightarrow> DecryptionShareEnvelope list \<Rightarrow> bytes list \<Rightarrow> int \<Rightarrow> nat \<Rightarrow>
     Ciphertext list \<Rightarrow> ('b list \<times> int list option) \<Rightarrow> ('b list \<times> int list) option result" where
  "derive_taus_from S config shares committee_pks quorum j [] (taus, indices_used) =
     Inr (Some (taus, case indices_used of None \<Rightarrow> [] | Some is \<Rightarrow> is))"
| "derive_taus_from S config shares committee_pks quorum j (ct # cts) (taus, indices_used) =
     ebind (g2_from_compressed S (ct_c1 ct)) (\<lambda>c1.
     ebind (g2_from_compressed S (ct_c2 ct)) (\<lambda>c2.
     ebind (valid_shares S config committee_pks j c1 c2 shares) (\<lambda>valid.
     if int (length valid) < quorum then Inr None
     else
       let chosen = take (nat quorum) valid in
       ebind (combine_shares S chosen) (\<lambda>sigma.
       derive_taus_from S config shares committee_pks quorum (Suc j) cts
         (taus @ [add (g2 S) c2 (neg (g2 S) sigma)],
          case indices_used of None \<Rightarrow> Some (map fst chosen) | Some is \<Rightarrow> Some is)))))"

definition derive_taus ::
    "('a, 'b) suite \<Rightarrow> ElectionConfig \<Rightarrow> AggregateArtifact \<Rightarrow> DecryptionShareEnvelope list \<Rightarrow> bytes list \<Rightarrow> int \<Rightarrow>
     ('b list \<times> int list) option result" where
  "derive_taus S config aggregate shares committee_pks quorum =
     derive_taus_from S config shares committee_pks quorum 0 (agg_aggregates aggregate) ([], None)"

section \<open>Solving and checking\<close>

fun solve_all :: "('a, 'b) suite \<Rightarrow> 'b BabyStepTable \<Rightarrow> 'b list \<Rightarrow> int list option" where
  "solve_all S table [] = Some []"
| "solve_all S table (tau # taus) =
     (case baby_step_giant_step_with_table S tau table of
        None \<Rightarrow> None
      | Some m \<Rightarrow> (case solve_all S table taus of None \<Rightarrow> None | Some ms \<Rightarrow> Some (m # ms)))"

definition recover_result ::
    "('a, 'b) suite \<Rightarrow> ElectionConfig \<Rightarrow> AggregateArtifact \<Rightarrow> DecryptionShareEnvelope list \<Rightarrow> bytes list \<Rightarrow> int \<Rightarrow>
     int option \<Rightarrow> ResultArtifact option result" where
  "recover_result S config aggregate shares committee_pks quorum solver_ceiling =
     (let bound = bsgs_bound config (agg_total_scaled_weight aggregate) in
      if (case solver_ceiling of None \<Rightarrow> False | Some c \<Rightarrow> bound > c) then Inl TallyInfeasible
      else
        ebind (derive_taus S config aggregate shares committee_pks quorum) (\<lambda>derived.
        case derived of
          None \<Rightarrow> Inr None
        | Some (taus, indices_used) \<Rightarrow>
            (case solve_all S (build_baby_step_table S bound) taus of
               None \<Rightarrow> Inr None
             | Some totals \<Rightarrow>
                 Inr (Some \<lparr>res_election_id = cfg_election_id config, res_totals = totals,
                            res_keyper_indices = indices_used, res_bsgs_bound = bound\<rparr>))))"

text \<open>The reasons of \<open>check_result\<close>, one constructor per message.\<close>

datatype check_reason =
    TotalsCount int int
  | SharesMissing int
  | TotalOutside nat int int
  | TotalWrong nat int
  | SumExact int int
  | SumOver int int

fun check_totals :: "('a, 'b) suite \<Rightarrow> int \<Rightarrow> nat \<Rightarrow> ('b \<times> int) list \<Rightarrow> check_reason option" where
  "check_totals S bound j [] = None"
| "check_totals S bound j ((tau, tot) # xs) =
     (if \<not> (0 \<le> tot \<and> tot \<le> bound) then Some (TotalOutside j tot bound)
      else if mul (g2 S) (ggen (g2 S)) tot \<noteq> tau then Some (TotalWrong j tot)
      else check_totals S bound (Suc j) xs)"

definition check_result ::
    "('a, 'b) suite \<Rightarrow> ElectionConfig \<Rightarrow> AggregateArtifact \<Rightarrow> DecryptionShareEnvelope list \<Rightarrow> bytes list \<Rightarrow> int \<Rightarrow>
     int list \<Rightarrow> (bool \<times> check_reason option) result" where
  "check_result S config aggregate shares committee_pks quorum claimed_totals =
     (if length claimed_totals \<noteq> length (agg_aggregates aggregate)
      then Inr (False, Some (TotalsCount (int (length claimed_totals)) (int (length (agg_aggregates aggregate)))))
      else
        ebind (derive_taus S config aggregate shares committee_pks quorum) (\<lambda>derived.
        case derived of
          None \<Rightarrow> Inr (False, Some (SharesMissing quorum))
        | Some (taus, _) \<Rightarrow>
            let bound = bsgs_bound config (agg_total_scaled_weight aggregate) in
            (case check_totals S bound 0 (zip taus claimed_totals) of
               Some why \<Rightarrow> Inr (False, Some why)
             | None \<Rightarrow>
                 let summed = sum_list claimed_totals in
                 if cfg_mode config = EXACT then
                   (if summed \<noteq> bound then Inr (False, Some (SumExact summed bound)) else Inr (True, None))
                 else if summed > bound then Inr (False, Some (SumOver summed bound))
                 else Inr (True, None))))"

section \<open>Scaling\<close>

text \<open>Half-up rounding: the scaled weight is within half a unit of the exact quotient.\<close>

lemma scaled_weight_bounds:
  assumes "1 \<le> scale"
  shows "2 * weight \<le> 2 * scale * scaled_weight weight scale + scale"
    and "2 * scale * scaled_weight weight scale \<le> 2 * weight + scale"
proof -
  have e: "scale * scaled_weight weight scale + (weight + scale div 2) mod scale = weight + scale div 2"
    by (simp add: scaled_weight_def)
  have m: "0 \<le> (weight + scale div 2) mod scale" "(weight + scale div 2) mod scale < scale"
    using assms by simp_all
  have h: "2 * (scale div 2) \<le> scale" "scale \<le> 2 * (scale div 2) + 1" by presburger+
  show "2 * weight \<le> 2 * scale * scaled_weight weight scale + scale"
    and "2 * scale * scaled_weight weight scale \<le> 2 * weight + scale"
    using e m h by linarith+
qed

lemma scaled_weight_one: "scaled_weight w 1 = w"
  by (simp add: scaled_weight_def)

lemma scaled_weight_nonneg: "0 \<le> w \<Longrightarrow> 1 \<le> s \<Longrightarrow> 0 \<le> scaled_weight w s"
  by (simp add: scaled_weight_def pos_imp_zdiv_nonneg_iff)

lemma scaled_weight_mono: "1 \<le> s \<Longrightarrow> w \<le> w' \<Longrightarrow> scaled_weight w s \<le> scaled_weight w' s"
  by (simp add: scaled_weight_def zdiv_mono1)

section \<open>The checker and the solver agree\<close>

lemma check_totals_None:
  "length taus = length totals \<Longrightarrow> check_totals S bound j (zip taus totals) = None \<longleftrightarrow>
     list_all2 (\<lambda>tau total. 0 \<le> total \<and> total \<le> bound \<and> mul (g2 S) (ggen (g2 S)) total = tau) taus totals"
  by (induction taus totals arbitrary: j rule: list_induct2) auto

lemma solve_all_Some:
  "solve_all S table taus = Some totals \<longleftrightarrow>
     list_all2 (\<lambda>tau m. baby_step_giant_step_with_table S tau table = Some m) taus totals"
proof (induction taus arbitrary: totals)
  case Nil
  then show ?case by auto
next
  case (Cons tau taus)
  show ?case by (auto simp: list_all2_Cons1 Cons.IH [symmetric] split: option.splits)
qed

lemma except_ValueError_Inr: "except_ValueError m = Inr (Some x) \<longleftrightarrow> m = Inr x"
  by (auto simp: except_ValueError_def split: sum.splits error.splits)

context crypto_suite
begin

lemma combine_loop_sub:
  assumes "efold (\<lambda>(j_id, sigma_j) result.
      ebind (lagrange_coefficient j_id ids CURVE_ORDER) (\<lambda>lam.
      Inr (add (g2 S) result (mul (g2 S) sigma_j lam)))) xs a = Inr P"
    and "gsub (g2 S) a" and "\<forall>x \<in> set xs. gsub (g2 S) (snd x)"
  shows "gsub (g2 S) P"
  using assms
proof (induction xs arbitrary: a)
  case Nil
  then show ?case by simp
next
  case (Cons x xs)
  obtain i s where x: "x = (i, s)" by fastforce
  obtain lam where "efold (\<lambda>(j_id, sigma_j) result.
      ebind (lagrange_coefficient j_id ids CURVE_ORDER) (\<lambda>lam.
      Inr (add (g2 S) result (mul (g2 S) sigma_j lam)))) xs (add (g2 S) a (mul (g2 S) s lam)) = Inr P"
    using Cons.prems(1) by (auto simp: x)
  from Cons.IH [OF this] Cons.prems(2,3) show ?case by (simp add: x)
qed

lemma combine_shares_sub:
  "combine_shares S sh = Inr P \<Longrightarrow> \<forall>x \<in> set sh. gsub (g2 S) (snd x) \<Longrightarrow> gsub (g2 S) P"
  unfolding combine_shares_def by (rule combine_loop_sub) auto

lemma check_share_sub:
  "check_share S config pks j c1 c2 share = Inr (Some (i, s)) \<Longrightarrow> gsub (g2 S) s \<and> i = ds_keyper_index share"
  by (auto simp: check_share_def Let_def except_ValueError_Inr dest!: g2_from_compressed_sub
      split: if_split_asm option.split_asm)

lemma valid_shares_sub:
  assumes "valid_shares S config pks j c1 c2 shares = Inr v"
  shows "\<forall>x \<in> set v. gsub (g2 S) (snd x)"
proof -
  obtain rs where rs: "emap (check_share S config pks j c1 c2) shares = Inr rs" "v = List.map_filter (\<lambda>r. r) rs"
    using assms by (auto simp: valid_shares_def)
  have "\<forall>r \<in> set rs. \<forall>i s. r = Some (i, s) \<longrightarrow> gsub (g2 S) s"
    using rs(1) check_share_sub by (fastforce simp: emap_eq_Inr list_all2_conv_all_nth in_set_conv_nth)
  then show ?thesis using rs(2) by (auto simp: map_filter_def)
qed

lemma derive_taus_from_sub:
  assumes "derive_taus_from S config shares pks quorum j cts (taus, used) = Inr (Some (taus', used'))"
    and "\<forall>t \<in> set taus. gsub (g2 S) t"
  shows "length taus' = length taus + length cts \<and> (\<forall>t \<in> set taus'. gsub (g2 S) t)"
  using assms
proof (induction cts arbitrary: j taus used)
  case Nil
  then show ?case by simp
next
  case (Cons ct cts)
  note d = Cons.prems(1) [unfolded derive_taus_from.simps Let_def]
  obtain c1 where c1: "g2_from_compressed S (ct_c1 ct) = Inr c1"
    using d by (cases "g2_from_compressed S (ct_c1 ct)") simp_all
  obtain c2 where c2: "g2_from_compressed S (ct_c2 ct) = Inr c2"
    using d c1 by (cases "g2_from_compressed S (ct_c2 ct)") simp_all
  obtain v where v: "valid_shares S config pks j c1 c2 shares = Inr v"
    using d c1 c2 by (cases "valid_shares S config pks j c1 c2 shares") simp_all
  have q: "\<not> int (length v) < quorum" by (rule notI) (use d c1 c2 v in simp)
  obtain P where P: "combine_shares S (take (nat quorum) v) = Inr P"
    using d c1 c2 v q by (cases "combine_shares S (take (nat quorum) v)") simp_all
  have rest: "derive_taus_from S config shares pks quorum (Suc j) cts (taus @ [add (g2 S) c2 (neg (g2 S) P)],
      case used of None \<Rightarrow> Some (map fst (take (nat quorum) v)) | Some is \<Rightarrow> Some is) = Inr (Some (taus', used'))"
    using d q by (simp only: c1 c2 v P ebind_Inr if_False)
  have "gsub (g2 S) P"
    using combine_shares_sub [OF P] valid_shares_sub [OF v] in_set_takeD by metis
  then have "\<forall>t \<in> set (taus @ [add (g2 S) c2 (neg (g2 S) P)]). gsub (g2 S) t"
    using Cons.prems(2) g2_from_compressed_sub [OF c2] by auto
  from Cons.IH [OF rest this] show ?case by simp
qed

lemma derive_taus_sub:
  "derive_taus S config agg shares pks quorum = Inr (Some (taus, used)) \<Longrightarrow>
     length taus = length (agg_aggregates agg) \<and> (\<forall>t \<in> set taus. gsub (g2 S) t)"
  using derive_taus_from_sub [of config shares pks quorum 0 "agg_aggregates agg" "[]" None taus used]
  by (simp add: derive_taus_def)

lemma solve_iff_check:
  assumes "\<forall>t \<in> set taus. gsub (g2 S) t" and "0 \<le> bound" "bound < CURVE_ORDER" and "length taus = length totals"
  shows "solve_all S (build_baby_step_table S bound) taus = Some totals \<longleftrightarrow> check_totals S bound j (zip taus totals) = None"
proof -
  have "list_all2 (\<lambda>tau m. baby_step_giant_step_with_table S tau (build_baby_step_table S bound) = Some m) taus totals \<longleftrightarrow>
      list_all2 (\<lambda>tau total. 0 \<le> total \<and> total \<le> bound \<and> mul (g2 S) (ggen (g2 S)) total = tau) taus totals"
  proof (rule list.rel_cong)
    fix t m
    assume "t \<in> set taus"
    then show "baby_step_giant_step_with_table S t (build_baby_step_table S bound) = Some m \<longleftrightarrow>
        0 \<le> m \<and> m \<le> bound \<and> mul (g2 S) (ggen (g2 S)) m = t"
      using bsgs_table_iff [of t bound m] assms(1-3) by auto
  qed simp_all
  then show ?thesis by (simp add: solve_all_Some check_totals_None [OF assms(4)])
qed

text \<open>Publishing totals that pass the check is the same as publishing the solved ones.\<close>

lemma check_iff_recover:
  assumes b: "0 \<le> bsgs_bound config (agg_total_scaled_weight agg)" "bsgs_bound config (agg_total_scaled_weight agg) < CURVE_ORDER"
  shows "check_result S config agg shares pks quorum totals = Inr (True, None) \<longleftrightarrow>
    (\<exists>used. recover_result S config agg shares pks quorum None =
       Inr (Some \<lparr>res_election_id = cfg_election_id config, res_totals = totals, res_keyper_indices = used,
         res_bsgs_bound = bsgs_bound config (agg_total_scaled_weight agg)\<rparr>)) \<and>
    (if cfg_mode config = EXACT then sum_list totals = bsgs_bound config (agg_total_scaled_weight agg)
     else sum_list totals \<le> bsgs_bound config (agg_total_scaled_weight agg))"
proof (cases "derive_taus S config agg shares pks quorum")
  case (Inl e)
  then show ?thesis by (simp add: check_result_def recover_result_def)
next
  case (Inr d)
  show ?thesis
  proof (cases d)
    case None
    with Inr show ?thesis by (simp add: check_result_def recover_result_def)
  next
    case (Some tu)
    obtain taus used where d: "derive_taus S config agg shares pks quorum = Inr (Some (taus, used))"
      using Inr Some by (metis prod.collapse)
    note sub = derive_taus_sub [OF d]
    let ?b = "bsgs_bound config (agg_total_scaled_weight agg)"
    show ?thesis
    proof (cases "length totals = length (agg_aggregates agg)")
      case True
      then have "solve_all S (build_baby_step_table S ?b) taus = Some totals \<longleftrightarrow> check_totals S ?b 0 (zip taus totals) = None"
        using solve_iff_check [OF _ b] sub by metis
      with True show ?thesis
        by (auto simp: check_result_def recover_result_def d Let_def split: option.splits)
    next
      case False
      then have "solve_all S (build_baby_step_table S ?b) taus \<noteq> Some totals"
        using sub by (auto simp: solve_all_Some dest: list_all2_lengthD)
      with False show ?thesis
        by (auto simp: check_result_def recover_result_def d Let_def split: option.splits)
    qed
  qed
qed

end

section \<open>The aggregate encrypts the weighted tally\<close>

text \<open>
  \<open>encrypts S x ab n v r\<close>: the ciphertexts of an admitted ballot decode to encryptions of
  the votes \<open>v\<close> under the key with secret \<open>x\<close>.
\<close>

definition encrypts :: "('a, 'b) suite \<Rightarrow> int \<Rightarrow> AdmittedBallot \<Rightarrow> nat \<Rightarrow> (nat \<Rightarrow> int) \<Rightarrow> (nat \<Rightarrow> int) \<Rightarrow> bool" where
  "encrypts S x ab n v r \<longleftrightarrow>
     emap (decompress_ct S) (map (\<lambda>ct. (ct_c1 ct, ct_c2 ct)) (be_ciphertexts (ab_envelope ab))) =
       Inr (map (\<lambda>j. Enc S (mul (g2 S) (ggen (g2 S)) x) (v j) (r j)) [0..<n])"

lemma encrypts_nth:
  assumes "encrypts S x ab n v r" and "j < n"
  shows "\<exists>c. py_nth (be_ciphertexts (ab_envelope ab)) j = Inr c \<and>
    g2_from_compressed S (ct_c1 c) = Inr (fst (Enc S (mul (g2 S) (ggen (g2 S)) x) (v j) (r j))) \<and>
    g2_from_compressed S (ct_c2 c) = Inr (snd (Enc S (mul (g2 S) (ggen (g2 S)) x) (v j) (r j)))"
proof -
  let ?cts = "be_ciphertexts (ab_envelope ab)"
  have l: "list_all2 (\<lambda>c p. decompress_ct S (ct_c1 c, ct_c2 c) = Inr p) ?cts
      (map (\<lambda>j. Enc S (mul (g2 S) (ggen (g2 S)) x) (v j) (r j)) [0..<n])"
    using assms(1) by (simp add: encrypts_def emap_eq_Inr list_all2_map1 comp_def)
  then have len: "length ?cts = n" using list_all2_lengthD by fastforce
  with l assms(2) have "decompress_ct S (ct_c1 (?cts ! j), ct_c2 (?cts ! j)) =
      Inr (Enc S (mul (g2 S) (ggen (g2 S)) x) (v j) (r j))"
    using list_all2_nthD [OF l, of j] by simp
  then show ?thesis using len assms(2) by (auto simp: py_nth_def decompress_ct_def Enc_def)
qed

context crypto_suite
begin

lemma add_ballot_Enc:
  assumes "encrypts S x ab n v r"
  shows "add_ballot S w (be_ciphertexts (ab_envelope ab)) (map (\<lambda>j. Enc S (gx (g2 S) x) (m j) (s j)) [0..<n]) =
    Inr (map (\<lambda>j. Enc S (gx (g2 S) x) (m j + w * v j) (s j + w * r j)) [0..<n])"
proof -
  let ?acc = "map (\<lambda>j. Enc S (gx (g2 S) x) (m j) (s j)) [0..<n]"
  have "add_ballot S w (be_ciphertexts (ab_envelope ab)) ?acc =
      Inr (map (\<lambda>(j, a). Enc S (gx (g2 S) x) (m j + w * v j) (s j + w * r j)) (enumerate 0 ?acc))"
    unfolding add_ballot_def
  proof (rule emap_Inr_all)
    fix ja
    assume ja: "ja \<in> set (enumerate 0 ?acc)"
    obtain j a where ja_eq: "ja = (j, a)" by (cases ja)
    with ja have j: "j < n" and a: "a = Enc S (gx (g2 S) x) (m j) (s j)" by (auto simp: in_enumerate_iff)
    obtain c where c: "py_nth (be_ciphertexts (ab_envelope ab)) j = Inr c"
      "g2_from_compressed S (ct_c1 c) = Inr (fst (Enc S (gx (g2 S) x) (v j) (r j)))"
      "g2_from_compressed S (ct_c2 c) = Inr (snd (Enc S (gx (g2 S) x) (v j) (r j)))"
      using encrypts_nth [OF assms j] by blast
    have "scalar_mul_ct S w (fst (Enc S (gx (g2 S) x) (v j) (r j)), snd (Enc S (gx (g2 S) x) (v j) (r j))) =
        Enc S (gx (g2 S) x) (w * v j) (w * r j)"
      using scalar_mul_ct_Enc [of w x "v j" "r j"] by simp
    then show "(case ja of (j, a) \<Rightarrow> ebind (py_nth (be_ciphertexts (ab_envelope ab)) j) (\<lambda>c.
        ebind (g2_from_compressed S (ct_c1 c)) (\<lambda>c1. ebind (g2_from_compressed S (ct_c2 c)) (\<lambda>c2.
        Inr (add_ct S a (scalar_mul_ct S w (c1, c2))))))) =
        Inr (case ja of (j, a) \<Rightarrow> Enc S (gx (g2 S) x) (m j + w * v j) (s j + w * r j))"
      by (simp add: ja_eq c a add_ct_Enc)
  qed
  moreover have "map (\<lambda>(j, a). Enc S (gx (g2 S) x) (m j + w * v j) (s j + w * r j)) (enumerate 0 ?acc) =
      map (\<lambda>j. Enc S (gx (g2 S) x) (m j + w * v j) (s j + w * r j)) [0..<n]"
    by (rule nth_equalityI) (auto simp: nth_enumerate_eq)
  ultimately show ?thesis by simp
qed

lemma aggregate_loop_Enc:
  assumes "\<And>ab. ab \<in> set admitted \<Longrightarrow> encrypts S x ab n (v ab) (r ab)"
  shows "efold (\<lambda>ab acc.
      let w = scaled_weight (ab_weight ab) scale in
      if w = 0 then Inr acc
      else add_ballot S w (be_ciphertexts (ab_envelope ab)) acc) admitted
      (map (\<lambda>j. Enc S (gx (g2 S) x) (m j) (s j)) [0..<n]) =
    Inr (map (\<lambda>j. Enc S (gx (g2 S) x) (m j + (\<Sum>ab \<leftarrow> admitted. scaled_weight (ab_weight ab) scale * v ab j))
      (s j + (\<Sum>ab \<leftarrow> admitted. scaled_weight (ab_weight ab) scale * r ab j))) [0..<n])"
  using assms
proof (induction admitted arbitrary: m s)
  case Nil
  then show ?case by simp
next
  case (Cons ab admitted)
  let ?w = "scaled_weight (ab_weight ab) scale"
  have step: "(let w = ?w in if w = 0 then Inr (map (\<lambda>j. Enc S (gx (g2 S) x) (m j) (s j)) [0..<n])
      else add_ballot S w (be_ciphertexts (ab_envelope ab)) (map (\<lambda>j. Enc S (gx (g2 S) x) (m j) (s j)) [0..<n])) =
    Inr (map (\<lambda>j. Enc S (gx (g2 S) x) (m j + ?w * v ab j) (s j + ?w * r ab j)) [0..<n])"
    using add_ballot_Enc [of x ab n "v ab" "r ab" ?w m s] Cons.prems by (simp add: Let_def)
  have rest: "\<And>ab. ab \<in> set admitted \<Longrightarrow> encrypts S x ab n (v ab) (r ab)" using Cons.prems by simp
  show ?case
    using Cons.IH [OF rest, of "\<lambda>j. m j + ?w * v ab j" "\<lambda>j. s j + ?w * r ab j"]
    by (simp only: efold.simps step ebind_Inr) (simp add: add.assoc)
qed

lemma aggregate_points_Enc:
  assumes "\<And>ab. ab \<in> set admitted \<Longrightarrow> encrypts S x ab (nat nc) (v ab) (r ab)"
  shows "aggregate_points S admitted nc scale =
    Inr (map (\<lambda>j. Enc S (gx (g2 S) x) (\<Sum>ab \<leftarrow> admitted. scaled_weight (ab_weight ab) scale * v ab j)
      (\<Sum>ab \<leftarrow> admitted. scaled_weight (ab_weight ab) scale * r ab j)) [0..<nat nc])"
proof -
  have "replicate (nat nc) (gid (g2 S), gid (g2 S)) = map (\<lambda>j. Enc S (gx (g2 S) x) 0 0) [0..<nat nc]"
    by (rule nth_equalityI) (simp_all add: Enc_zero)
  then show ?thesis
    using aggregate_loop_Enc [OF assms, where m = "\<lambda>_. 0" and s = "\<lambda>_. 0" and scale = scale]
    by (simp add: aggregate_points_def)
qed

text \<open>The published artifact carries those ciphertexts in compressed form.\<close>

lemma build_aggregate_Enc:
  assumes enc: "\<And>ab. ab \<in> set (ar_admitted adm) \<Longrightarrow> encrypts S x ab (nat (cfg_num_candidates config)) (v ab) (r ab)"
  shows "\<exists>art. build_aggregate_artifact S config adm = Inr art \<and>
    emap (decompress_ct S) (map (\<lambda>ct. (ct_c1 ct, ct_c2 ct)) (agg_aggregates art)) =
      Inr (map (\<lambda>j. Enc S (gx (g2 S) x)
        (\<Sum>ab \<leftarrow> ar_admitted adm. scaled_weight (ab_weight ab) (cfg_scale config) * v ab j)
        (\<Sum>ab \<leftarrow> ar_admitted adm. scaled_weight (ab_weight ab) (cfg_scale config) * r ab j))
        [0..<nat (cfg_num_candidates config)]) \<and>
    agg_total_scaled_weight art = (\<Sum>ab \<leftarrow> ar_admitted adm. scaled_weight (ab_weight ab) (cfg_scale config)) \<and>
    agg_admitted art = map ab_sequence_number (ar_admitted adm) \<and> agg_exclusions art = ar_exclusions adm"
proof -
  let ?pts = "map (\<lambda>j. Enc S (gx (g2 S) x)
        (\<Sum>ab \<leftarrow> ar_admitted adm. scaled_weight (ab_weight ab) (cfg_scale config) * v ab j)
        (\<Sum>ab \<leftarrow> ar_admitted adm. scaled_weight (ab_weight ab) (cfg_scale config) * r ab j))
        [0..<nat (cfg_num_candidates config)]"
  have sub: "\<forall>(c1, c2) \<in> set ?pts. gsub (g2 S) c1 \<and> gsub (g2 S) c2" by (auto simp: Enc_exponents)
  obtain cb where cb: "emap (compress_ct S) ?pts = Inr cb" "emap (decompress_ct S) cb = Inr ?pts"
    using compress_cts [OF sub] by blast
  have rt: "map (\<lambda>ct. (ct_c1 ct, ct_c2 ct)) (map (\<lambda>(c1, c2). \<lparr>ct_c1 = c1, ct_c2 = c2\<rparr>) cb) = cb"
    by (simp add: split_def comp_def)
  have "aggregate_points S (ar_admitted adm) (cfg_num_candidates config) (cfg_scale config) = Inr ?pts"
    by (rule aggregate_points_Enc [OF enc])
  then have "build_aggregate_artifact S config adm = Inr \<lparr>agg_election_id = cfg_election_id config,
      agg_aggregates = map (\<lambda>(c1, c2). \<lparr>ct_c1 = c1, ct_c2 = c2\<rparr>) cb,
      agg_admitted = map ab_sequence_number (ar_admitted adm), agg_exclusions = ar_exclusions adm,
      agg_total_admitted_weight = ar_total_admitted_weight adm,
      agg_total_scaled_weight = (\<Sum>a \<leftarrow> ar_admitted adm. scaled_weight (ab_weight a) (cfg_scale config))\<rparr>"
    by (simp only: build_aggregate_artifact_def ebind_Inr cb Let_def)
  then show ?thesis using cb(2) rt by (simp del: map_map emap_map)
qed

end

section \<open>Built ballots encrypt their votes\<close>

context crypto_suite
begin

lemma encrypt_vote_Enc: "encrypt_vote S rnd mpk j v = Inr (c, r) \<Longrightarrow> c = Enc S mpk v r"
  by (auto simp: encrypt_vote_def Enc_def Let_def)

lemma build_ballot_encrypts:
  assumes mpk: "gsub (g2 S) mpk" and b: "build_ballot S mpk eid ps sk vk att votes nc budget rnd = Inr b"
  shows "\<exists>r. emap (decompress_ct S) (bb_ciphertexts b) = Inr (map (\<lambda>j. Enc S mpk (votes ! j) (r j)) [0..<length votes])"
proof -
  from b obtain crs where crs: "emap (\<lambda>(j, v). encrypt_vote S rnd mpk j v) (enumerate 0 votes) = Inr crs"
    and cb: "emap (compress_ct S) (map fst crs) = Inr (bb_ciphertexts b)"
    by (auto simp: build_ballot_def Let_def case_prod_beta split: if_splits)
  have l: "length crs = length votes" using emap_length [OF crs] by simp
  have "fst (crs ! j) = Enc S mpk (votes ! j) (snd (crs ! j))" if "j < length votes" for j
  proof -
    have "encrypt_vote S rnd mpk j (votes ! j) = Inr (crs ! j)"
      using crs that by (auto simp: emap_eq_Inr list_all2_conv_all_nth nth_enumerate_eq dest!: spec [of _ j])
    then show ?thesis by (cases "crs ! j") (auto dest: encrypt_vote_Enc)
  qed
  then have cts: "map fst crs = map (\<lambda>j. Enc S mpk (votes ! j) (snd (crs ! j))) [0..<length votes]"
    using l by (intro nth_equalityI) auto
  have "\<forall>(c1, c2) \<in> set (map fst crs). gsub (g2 S) c1 \<and> gsub (g2 S) c2" unfolding cts using mpk by (auto simp: Enc_def)
  from compress_cts [OF this] cb have "emap (decompress_ct S) (bb_ciphertexts b) = Inr (map fst crs)" by auto
  then show ?thesis unfolding cts by (intro exI [of _ "\<lambda>j. snd (crs ! j)"])
qed

end

section \<open>Properties\<close>

text \<open>
  Scaling rounds half up. The scaled weight differs from the exact quotient by at most one
  half, grows with the weight, and is the weight itself at scale 1.
\<close>

theorem scaled_weight_half_up:
  assumes "1 \<le> scale"
  shows "\<bar>2 * (scale * scaled_weight weight scale - weight)\<bar> \<le> scale \<and>
    (2 * (scale * x - weight) = scale \<longrightarrow> scaled_weight weight scale = x) \<and>
    (weight \<le> weight' \<longrightarrow> scaled_weight weight scale \<le> scaled_weight weight' scale) \<and> scaled_weight weight 1 = weight"
proof -
  have "scaled_weight weight scale = x" if h: "2 * (scale * x - weight) = scale"
  proof -
    have "scale div 2 = scale * x - weight" using h by presburger
    then have "weight + scale div 2 = scale * x" by simp
    then show ?thesis using assms by (simp add: scaled_weight_def)
  qed
  moreover have "\<bar>2 * (scale * scaled_weight weight scale - weight)\<bar> \<le> scale"
    using scaled_weight_bounds [OF assms, of weight] by (simp add: abs_le_iff algebra_simps)
  ultimately show ?thesis using scaled_weight_mono [OF assms] scaled_weight_one by blast
qed

lemma scaled_weight_half_up_witness: "scaled_weight 15 10 = 2 \<and> scaled_weight 14 10 = 1"
  using scaled_weight_half_up [of 10 15 2 15] by (simp add: scaled_weight_def)

text \<open>
  Checking a result is as conclusive as solving it. For a bound below the group order, totals
  pass the auditor's check exactly when the solver returns those totals and they add up as the
  mode requires.
\<close>

theorem check_equals_recover:
  assumes "crypto_suite S" and "0 \<le> bsgs_bound config (agg_total_scaled_weight agg)"
    and "bsgs_bound config (agg_total_scaled_weight agg) < CURVE_ORDER"
  shows "check_result S config agg shares pks quorum totals = Inr (True, None) \<longleftrightarrow>
    (\<exists>used. recover_result S config agg shares pks quorum None =
       Inr (Some \<lparr>res_election_id = cfg_election_id config, res_totals = totals, res_keyper_indices = used,
         res_bsgs_bound = bsgs_bound config (agg_total_scaled_weight agg)\<rparr>)) \<and>
    (if cfg_mode config = EXACT then sum_list totals = bsgs_bound config (agg_total_scaled_weight agg)
     else sum_list totals \<le> bsgs_bound config (agg_total_scaled_weight agg))"
  by (rule crypto_suite.check_iff_recover [OF assms])

definition empty_aggregate :: AggregateArtifact where
  "empty_aggregate = \<lparr>agg_election_id = replicate 32 1, agg_aggregates = [], agg_admitted = [], agg_exclusions = [],
     agg_total_admitted_weight = 0, agg_total_scaled_weight = 0\<rparr>"

lemma check_equals_recover_witness:
  "check_result zq_suite sample_config empty_aggregate [] [] 2 [] = Inr (True, None) \<and>
   (\<exists>used. recover_result zq_suite sample_config empty_aggregate [] [] 2 None =
      Inr (Some \<lparr>res_election_id = cfg_election_id sample_config, res_totals = [], res_keyper_indices = used, res_bsgs_bound = 0\<rparr>))"
proof -
  have c: "check_result zq_suite sample_config empty_aggregate [] [] 2 [] = Inr (True, None)"
    by (simp add: check_result_def derive_taus_def empty_aggregate_def sample_config_def bsgs_bound_def)
  have b: "bsgs_bound sample_config (agg_total_scaled_weight empty_aggregate) = 0"
    by (simp add: bsgs_bound_def empty_aggregate_def)
  show ?thesis using check_equals_recover [OF zq.crypto_suite_axioms, of sample_config empty_aggregate] c b by simp
qed

end
