(* ===== verification/Gateway.thy ===== *)
theory Gateway
  imports Reads Aggregation
begin

text \<open>
  \<^verbatim>\<open>services/gateway/gateway.py\<close>: the admission filter in front of the ballot write, with the bounded
  backwards scan for the highest nonce of a pseudonym.
\<close>

definition NONCE_SCAN_PAGE :: int where "NONCE_SCAN_PAGE = 200"
definition NONCE_SCAN_LIMIT :: int where "NONCE_SCAN_LIMIT = 1000"

definition page_best :: "bytes \<Rightarrow> int \<Rightarrow> StoredBallot list \<Rightarrow> int" where
  "page_best pseudonym best rows =
     foldl (\<lambda>best sb.
        let env = sb_envelope sb in
        if be_pseudonym env = pseudonym \<and> att_nonce (be_attestation env) > best
        then att_nonce (be_attestation env) else best) best rows"

function nonce_scan ::
  "(int \<Rightarrow> int \<Rightarrow> StoredBallot list result) \<Rightarrow> bytes \<Rightarrow> int \<Rightarrow> int \<Rightarrow> int \<Rightarrow> int \<Rightarrow> int result" where
  "nonce_scan page pseudonym tot low off best =
     (if off \<ge> low \<and> tot \<noteq> 0 then
        ebind (page off (min NONCE_SCAN_PAGE (tot - off))) (\<lambda>rows.
        let best = page_best pseudonym best rows in
        if off = low then Inr best
        else nonce_scan page pseudonym tot low (max low (off - NONCE_SCAN_PAGE)) best)
      else Inr best)"
  by auto

termination
  by (relation "measure (\<lambda>(page, pseudonym, tot, low, off, best). nat (off - low))") (auto simp: NONCE_SCAN_PAGE_def)

declare nonce_scan.simps [simp del]

definition max_stored_nonce :: "'s ElectionDataLayer \<Rightarrow> bytes \<Rightarrow> bytes \<Rightarrow> 's \<Rightarrow> int result" where
  "max_stored_nonce P election_id pseudonym s =
     ebind (dl_count_ballots P election_id s) (\<lambda>tot.
     let low = max 0 (tot - NONCE_SCAN_LIMIT);
         off = (if tot \<noteq> 0 then max low ((tot - 1) div NONCE_SCAN_PAGE * NONCE_SCAN_PAGE) else 0) in
     nonce_scan (\<lambda>start count. dl_list_ballots P election_id start count s) pseudonym tot low off 0)"

text \<open>
  \<open>submit_ballot\<close>: \<open>now\<close> is the reading of the gateway's clock, \<open>now_dl\<close> that of the data layer's when
  it stores the ballot. The gateway signs if it has a signer.
\<close>

definition gateway_submit_ballot ::
  "('a, 'b) suite \<Rightarrow> host \<Rightarrow> 's ElectionDataLayer \<Rightarrow> int \<Rightarrow> int \<Rightarrow> bool \<Rightarrow> Signer option \<Rightarrow> bytes \<Rightarrow> BallotEnvelope \<Rightarrow> 's \<Rightarrow>
     ('s \<times> int) result" where
  "gateway_submit_ballot S H P now now_dl filter_on gateway_signer election_id ballot s =
     ebind (dl_get_election P election_id s) (\<lambda>rec.
     ebind (dl_get_result P election_id s) (\<lambda>res.
     let cfg = er_config rec;
         facts = \<lparr>sf_cancelled = er_cancelled rec, sf_key_finalized = (er_finalized_key rec \<noteq> None),
                  sf_result_published = (res \<noteq> None), sf_tally_stalled = False\<rparr> in
     if derive_state cfg facts now \<noteq> VOTING then Inl (GatewayRejection ''voting is not open'')
     else
       ebind
         (if filter_on then
            (case er_finalized_key rec of
               None \<Rightarrow> Inl (GatewayRejection ''no finalized key'')
             | Some fk \<Rightarrow>
                 ebind (g2_from_compressed S (fk_pk_election fk)) (\<lambda>mpk.
                 ebind (validate_ballot S \<lparr>sb_sequence_number = -1, sb_envelope = ballot, sb_submitted_at = Some now\<rparr> cfg mpk) (\<lambda>reason.
                 case reason of
                   Some r \<Rightarrow> Inl (GatewayRejection (reason_value r))
                 | None \<Rightarrow>
                     let att = be_attestation ballot in
                     if att_scheme att = ATTESTATION_V1 then
                       ebind (max_stored_nonce P election_id (be_pseudonym ballot) s) (\<lambda>best.
                       if att_nonce att \<le> best then Inl (GatewayRejection ''STALE_OR_REPLAYED'') else Inr ())
                     else Inr ())))
          else Inr ())
         (\<lambda>_.
       ebind
         (case gateway_signer of
            Some g \<Rightarrow> sign_ballot H (private_key g) election_id ballot
          | None \<Rightarrow> Inr [])
         (\<lambda>gateway_sig. dl_submit_ballot P now_dl election_id ballot gateway_sig s))))"

section \<open>The scan\<close>

text \<open>The nonces of a pseudonym among the ballots numbered from \<open>i\<close> below \<open>j\<close>.\<close>

definition nonces_between :: "bytes \<Rightarrow> StoredBallot list \<Rightarrow> nat \<Rightarrow> nat \<Rightarrow> int set" where
  "nonces_between pseudonym bs i j =
     {att_nonce (be_attestation (sb_envelope (bs ! k))) | k. i \<le> k \<and> k < j \<and> k < length bs \<and> be_pseudonym (sb_envelope (bs ! k)) = pseudonym}"

lemma finite_nonces [simp]: "finite (nonces_between ps bs i j)"
  by (rule finite_subset [of _ "(\<lambda>k. att_nonce (be_attestation (sb_envelope (bs ! k)))) ` {..<length bs}"])
    (auto simp: nonces_between_def)

lemma Max_insert_max: "finite N \<Longrightarrow> Max (insert (max a b) N) = Max (insert a (insert b N))" for a b :: int
  by (cases "N = {}") (simp_all add: max.assoc)

lemma Max_insert_Max: "finite A \<Longrightarrow> finite B \<Longrightarrow> Max (insert (Max (insert a A)) B) = Max (insert a (B \<union> A))" for a :: int
proof (cases "B = {}")
  case False
  assume fin: "finite A" "finite B"
  have "Max (insert a (B \<union> A)) = Max (insert a A \<union> B)" by (simp add: Un_commute)
  also have "\<dots> = max (Max (insert a A)) (Max B)" using fin False by (intro Max_Un) auto
  finally show ?thesis using fin False by simp
qed simp

lemma page_best_Max:
  "page_best ps best rows = Max (insert best {att_nonce (be_attestation (sb_envelope sb)) | sb. sb \<in> set rows \<and> be_pseudonym (sb_envelope sb) = ps})"
proof (induction rows arbitrary: best)
  case Nil
  then show ?case by (simp add: page_best_def)
next
  case (Cons sb rows)
  let ?N = "\<lambda>rows. {att_nonce (be_attestation (sb_envelope sb)) | sb. sb \<in> set rows \<and> be_pseudonym (sb_envelope sb) = ps}"
  have fin: "finite (?N rows)" by simp
  have step: "page_best ps best (sb # rows) =
      page_best ps (if be_pseudonym (sb_envelope sb) = ps then max best (att_nonce (be_attestation (sb_envelope sb))) else best) rows"
    by (simp add: page_best_def Let_def max_def)
  have N: "?N (sb # rows) = (if be_pseudonym (sb_envelope sb) = ps then insert (att_nonce (be_attestation (sb_envelope sb))) (?N rows) else ?N rows)"
    by auto
  show ?case unfolding step Cons.IH N by (simp add: Max_insert_max [OF fin])
qed

lemma page_best_slice:
  "page_best ps best (take n (drop i bs)) = Max (insert best (nonces_between ps bs i (i + n)))"
proof -
  have "set (take n (drop i bs)) = {bs ! k | k. i \<le> k \<and> k < i + n \<and> k < length bs}"
  proof (intro equalityI subsetI)
    fix x assume "x \<in> set (take n (drop i bs))"
    then obtain k where "k < n" "k < length bs - i" "x = bs ! (i + k)"
      by (auto simp: in_set_conv_nth)
    then show "x \<in> {bs ! k | k. i \<le> k \<and> k < i + n \<and> k < length bs}" by (intro CollectI exI [of _ "i + k"]) auto
  next
    fix x assume "x \<in> {bs ! k | k. i \<le> k \<and> k < i + n \<and> k < length bs}"
    then obtain k where k: "i \<le> k" "k < i + n" "k < length bs" "x = bs ! k" by blast
    then show "x \<in> set (take n (drop i bs))" by (auto simp: in_set_conv_nth intro!: exI [of _ "k - i"])
  qed
  then have "{att_nonce (be_attestation (sb_envelope sb)) | sb. sb \<in> set (take n (drop i bs)) \<and> be_pseudonym (sb_envelope sb) = ps} =
      nonces_between ps bs i (i + n)"
    by (auto simp: nonces_between_def)
  then show ?thesis by (simp only: page_best_Max)
qed

lemma nonces_union: "i \<le> i' \<Longrightarrow> i' \<le> j \<Longrightarrow> j \<le> j' \<Longrightarrow> nonces_between ps bs i j \<union> nonces_between ps bs i' j' = nonces_between ps bs i j'"
  by (auto simp: nonces_between_def) (metis not_le_imp_less order_trans)+


context ballot_store
begin

lemma nonce_scan_Max:
  assumes h: "holds s e bs"
  shows "0 \<le> low \<Longrightarrow> low \<le> off \<Longrightarrow> off < int (length bs) \<Longrightarrow>
    nonce_scan (\<lambda>start count. dl_list_ballots P e start count s) ps (int (length bs)) low off best =
      Inr (Max (insert best (nonces_between ps bs (nat low) (nat (off + NONCE_SCAN_PAGE)))))"
proof (induction "nat (off - low)" arbitrary: off best rule: less_induct)
  case less
  let ?page = "\<lambda>start count. dl_list_ballots P e start count s"
  let ?n = "min NONCE_SCAN_PAGE (int (length bs) - off)"
  let ?N = "nonces_between ps bs"
  have n: "0 \<le> ?n" "?n \<le> BALLOT_PAGE" using less.prems by (auto simp: NONCE_SCAN_PAGE_def BALLOT_PAGE_def)
  have page: "?page off ?n = Inr (take (nat ?n) (drop (nat off) bs))" using list_ballots [OF h _ n] less.prems by simp
  have cut: "?N i (nat off + nat ?n) = ?N i (nat (off + NONCE_SCAN_PAGE))" for i
    using less.prems by (auto simp: nonces_between_def NONCE_SCAN_PAGE_def min_def)
  have best: "page_best ps best (take (nat ?n) (drop (nat off) bs)) = Max (insert best (?N (nat off) (nat (off + NONCE_SCAN_PAGE))))"
    by (simp only: page_best_slice cut)
  let ?b = "Max (insert best (?N (nat off) (nat (off + NONCE_SCAN_PAGE))))" and ?off = "max low (off - NONCE_SCAN_PAGE)"
  have step: "nonce_scan ?page ps (int (length bs)) low off best =
      (if off = low then Inr ?b else nonce_scan ?page ps (int (length bs)) low ?off ?b)"
    using less.prems unfolding nonce_scan.simps [of _ _ _ _ off] page ebind_Inr best Let_def by auto
  show ?case
  proof (cases "off = low")
    case True
    then show ?thesis unfolding step by simp
  next
    case False
    have "nonce_scan ?page ps (int (length bs)) low ?off ?b = Inr (Max (insert ?b (?N (nat low) (nat (?off + NONCE_SCAN_PAGE)))))"
      by (rule less.hyps) (use False less.prems in \<open>auto simp: NONCE_SCAN_PAGE_def\<close>)
    moreover have "?N (nat low) (nat (?off + NONCE_SCAN_PAGE)) \<union> ?N (nat off) (nat (off + NONCE_SCAN_PAGE)) = ?N (nat low) (nat (off + NONCE_SCAN_PAGE))"
      by (rule nonces_union) (use less.prems in \<open>auto simp: NONCE_SCAN_PAGE_def\<close>)
    ultimately show ?thesis using False by (simp add: step Max_insert_Max)
  qed
qed

lemma max_stored_nonce_Max:
  assumes h: "holds s e bs"
  shows "max_stored_nonce P e ps s = Inr (Max (insert 0 (nonces_between ps bs (length bs - nat NONCE_SCAN_LIMIT) (length bs))))"
proof (cases "bs = []")
  case True
  then show ?thesis
    using count_ballots [OF h]
    by (simp add: max_stored_nonce_def Let_def nonce_scan.simps nonces_between_def)
next
  case False
  let ?n = "int (length bs)"
  let ?low = "max 0 (?n - NONCE_SCAN_LIMIT)"
  let ?off = "max ?low ((?n - 1) div NONCE_SCAN_PAGE * NONCE_SCAN_PAGE)"
  have lt: "?off < ?n" and ge: "?n \<le> ?off + NONCE_SCAN_PAGE"
    using False by (auto simp: NONCE_SCAN_LIMIT_def NONCE_SCAN_PAGE_def)
  have low: "nat ?low = length bs - nat NONCE_SCAN_LIMIT" by (simp add: NONCE_SCAN_LIMIT_def)
  have cut: "nonces_between ps bs i (nat (?off + NONCE_SCAN_PAGE)) = nonces_between ps bs i (length bs)" for i
    using ge by (auto simp: nonces_between_def)
  have "max_stored_nonce P e ps s = Inr (Max (insert 0 (nonces_between ps bs (nat ?low) (nat (?off + NONCE_SCAN_PAGE)))))"
    using nonce_scan_Max [OF h, of ?low ?off ps 0] lt count_ballots [OF h] False
    by (simp add: max_stored_nonce_def Let_def)
  then show ?thesis by (simp only: cut low)
qed

text \<open>A ballot that passes the filter is valid now and newer than the recent ones of its pseudonym.\<close>

lemma gateway_accepts:
  assumes h: "holds s e bs" and acc: "gateway_submit_ballot S H P now now_dl True signer e b s = Inr (s', seq)"
  shows "\<exists>rec fk mpk sig. dl_get_election P e s = Inr rec \<and> er_finalized_key rec = Some fk \<and> g2_from_compressed S (fk_pk_election fk) = Inr mpk \<and>
      validate_ballot S \<lparr>sb_sequence_number = -1, sb_envelope = b, sb_submitted_at = Some now\<rparr> (er_config rec) mpk = Inr None \<and>
      dl_submit_ballot P now_dl e b sig s = Inr (s', seq)"
    and "\<forall>k < length bs. length bs \<le> k + nat NONCE_SCAN_LIMIT \<longrightarrow> be_pseudonym (sb_envelope (bs ! k)) = be_pseudonym b \<longrightarrow>
       att_nonce (be_attestation (sb_envelope (bs ! k))) < att_nonce (be_attestation b)"
proof -
  let ?N = "nonces_between (be_pseudonym b) bs (length bs - nat NONCE_SCAN_LIMIT) (length bs)"
  obtain M where M: "Max (insert 0 ?N) = M" by blast
  note m = max_stored_nonce_Max [OF h, of "be_pseudonym b", unfolded M]
  have v1: "att_scheme (be_attestation b) = ATTESTATION_V1" by (cases "att_scheme (be_attestation b)")
  note stages = acc [unfolded gateway_submit_ballot_def m Let_def v1]
  from stages show "\<exists>rec fk mpk sig. dl_get_election P e s = Inr rec \<and> er_finalized_key rec = Some fk \<and>
      g2_from_compressed S (fk_pk_election fk) = Inr mpk \<and>
      validate_ballot S \<lparr>sb_sequence_number = -1, sb_envelope = b, sb_submitted_at = Some now\<rparr> (er_config rec) mpk = Inr None \<and>
      dl_submit_ballot P now_dl e b sig s = Inr (s', seq)"
    by (auto split: if_splits option.splits)
  from stages have "M < att_nonce (be_attestation b)" by (auto split: if_splits option.splits)
  then have "Max (insert 0 ?N) < att_nonce (be_attestation b)" by (simp only: M)
  moreover have "att_nonce (be_attestation (sb_envelope (bs ! k))) \<in> ?N"
    if "k < length bs" "length bs \<le> k + nat NONCE_SCAN_LIMIT" "be_pseudonym (sb_envelope (bs ! k)) = be_pseudonym b" for k
    using that by (auto simp: nonces_between_def)
  ultimately show "\<forall>k < length bs. length bs \<le> k + nat NONCE_SCAN_LIMIT \<longrightarrow> be_pseudonym (sb_envelope (bs ! k)) = be_pseudonym b \<longrightarrow>
       att_nonce (be_attestation (sb_envelope (bs ! k))) < att_nonce (be_attestation b)"
    by (force simp: Max_less_iff)
qed

end

section \<open>Properties\<close>

lemma validate_same_envelope:
  "validate_ballot S \<lparr>sb_sequence_number = k, sb_envelope = b, sb_submitted_at = Some now\<rparr> c mpk = Inr None \<Longrightarrow> is_voting_open c now' \<Longrightarrow>
     validate_ballot S \<lparr>sb_sequence_number = k', sb_envelope = b, sb_submitted_at = Some now'\<rparr> c mpk = Inr None"
  by (auto simp: validate_ballot_def Let_def split: if_splits)

lemma submit_ballot_appends:
  assumes "im_submit_ballot H now e b sig m = Inr (m', seq)" "im_get m e = Inr st"
  shows "im_get m' e = Inr (st\<lparr>st_ballots := st_ballots st @ [\<lparr>sb_sequence_number = seq, sb_envelope = b, sb_submitted_at = Some now\<rparr>]\<rparr>) \<and>
    is_voting_open (st_config st) now"
  using assms by (auto simp: im_submit_ballot_def require_voting_open_def Let_def derive_state_voting split: if_splits)

lemma gateway_stores_valid:
  assumes "mem_reachable H m" and "im_get m e = Inr st"
    and "gateway_submit_ballot S H (memory_port H) now now_dl True signer e b m = Inr (m', seq)"
  shows "\<exists>sb fk mpk. im_get m' e = Inr (st\<lparr>st_ballots := st_ballots st @ [sb]\<rparr>) \<and> sb_envelope sb = b \<and> sb_sequence_number sb = seq \<and>
      im_get_finalized_key e m = Inr (Some fk) \<and> g2_from_compressed S (fk_pk_election fk) = Inr mpk \<and>
      validate_ballot S sb (st_config st) mpk = Inr None \<and>
      (\<forall>old \<in> set (drop (length (st_ballots st) - 1000) (st_ballots st)).
         be_pseudonym (sb_envelope old) = be_pseudonym b \<longrightarrow>
         att_nonce (be_attestation (sb_envelope old)) < att_nonce (be_attestation b))"
proof -
  have h: "memory_holds H m e (st_ballots st)" using reachable_inv [OF assms(1)] assms(2) by (auto simp: memory_holds_def)
  obtain rec fk mpk sig where a: "im_get_election e m = Inr rec" "er_finalized_key rec = Some fk"
    "g2_from_compressed S (fk_pk_election fk) = Inr mpk"
    "validate_ballot S \<lparr>sb_sequence_number = -1, sb_envelope = b, sb_submitted_at = Some now\<rparr> (er_config rec) mpk = Inr None"
    "im_submit_ballot H now_dl e b sig m = Inr (m', seq)"
    using memory_ballots.gateway_accepts(1) [OF h assms(3)] by (auto simp: memory_port_def)
  have c: "er_config rec = st_config st" "im_get_finalized_key e m = Inr (Some fk)"
    using a(1,2) assms(2) by (auto simp: im_get_election_def)
  note s = submit_ballot_appends [OF a(5) assms(2)]
  let ?sb = "\<lparr>sb_sequence_number = seq, sb_envelope = b, sb_submitted_at = Some now_dl\<rparr>"
  have v: "validate_ballot S ?sb (st_config st) mpk = Inr None"
    using validate_same_envelope [OF a(4) [unfolded c(1)]] s by blast
  have n: "att_nonce (be_attestation (sb_envelope old)) < att_nonce (be_attestation b)"
    if "old \<in> set (drop (length (st_ballots st) - 1000) (st_ballots st))" "be_pseudonym (sb_envelope old) = be_pseudonym b" for old
    using that memory_ballots.gateway_accepts(2) [OF h assms(3)]
    by (force simp: in_set_conv_nth NONCE_SCAN_LIMIT_def)
  show ?thesis
    by (rule exI [of _ ?sb], rule exI [of _ fk], rule exI [of _ mpk]) (use s c(2) a(3) v n in auto)
qed

text \<open>
  C29: what the gateway accepts counts. A ballot the filtering gateway has accepted is stored as the
  last ballot, passes the validation of the tally under the election's configuration and finalized key,
  and carries a nonce above those of the same pseudonym among the latest thousand stored ballots,
  so a replay of one of them is refused.
\<close>

theorem gateway_accepted_is_valid:
  assumes "mem_reachable H m" and "im_get m e = Inr st"
    and "gateway_submit_ballot S H (memory_port H) now now_dl True signer e b m = Inr (m', seq)"
  shows "\<exists>sb fk mpk. im_get m' e = Inr (st\<lparr>st_ballots := st_ballots st @ [sb]\<rparr>) \<and> sb_envelope sb = b \<and> sb_sequence_number sb = seq \<and>
      im_get_finalized_key e m = Inr (Some fk) \<and> g2_from_compressed S (fk_pk_election fk) = Inr mpk \<and>
      validate_ballot S sb (st_config st) mpk = Inr None \<and>
      (\<forall>old \<in> set (drop (length (st_ballots st) - 1000) (st_ballots st)).
         be_pseudonym (sb_envelope old) = be_pseudonym b \<longrightarrow>
         att_nonce (be_attestation (sb_envelope old)) < att_nonce (be_attestation b))"
  by (rule gateway_stores_valid [OF assms])


text \<open>A ballot of an eligible voter of the sample election, with any nonce.\<close>

lemma sample_eligibility: "be 48 5 = gcompress (g1 zq_suite) (mul (g1 zq_suite) (ggen (g1 zq_suite)) 5)"
  by (simp add: zq_suite_def zq_group_def mul_def CURVE_ORDER_def)

lemma sample_election_ballot:
  assumes "1 \<le> n" "n < 256 ^ 32"
  obtains b where "be_pseudonym b = be 32 2" "att_nonce (be_attestation b) = n" "att_weight (be_attestation b) = 7"
    "\<And>seq ts. is_voting_open sample_election ts \<Longrightarrow>
       validate_ballot zq_suite \<lparr>sb_sequence_number = seq, sb_envelope = b, sb_submitted_at = Some ts\<rparr> sample_election 9 = Inr None"
    "\<exists>r. emap (decompress_ct zq_suite) (map (\<lambda>ct. (ct_c1 ct, ct_c2 ct)) (be_ciphertexts b)) =
       Inr (map (\<lambda>j. Enc zq_suite 9 ([1, 2] ! j) (r j)) [0..<2])"
proof -
  have "\<exists>sig att b. sign_attestation zq_suite 5 (gx (g1 zq_suite) 5) (cfg_election_id sample_election) (be 32 2)
      (gcompress (g1 zq_suite) (gx (g1 zq_suite) 5)) 7 n None 8 = Inr sig \<and>
    att = \<lparr>att_election_id = cfg_election_id sample_election, att_pseudonym = be 32 2, att_vk = gcompress (g1 zq_suite) (gx (g1 zq_suite) 5),
      att_weight = 7, att_signature = sig, att_scheme = ATTESTATION_V1, att_nonce = n\<rparr> \<and>
    build_ballot zq_suite 9 (cfg_election_id sample_election) (be 32 2) 5 (gx (g1 zq_suite) 5) att [1, 2] (cfg_num_candidates sample_election)
      (cfg_budget sample_election) sample_randomness = Inr b \<and>
    validate_ballot zq_suite \<lparr>sb_sequence_number = 0, sb_envelope = to_envelope b att, sb_submitted_at = Some 150\<rparr> sample_election 9 = Inr None"
    by (rule zq.honest_ballot_valid [OF sample_election_ok])
      (use assms in \<open>simp_all add: sample_election_def zq_points sample_wf is_voting_open_def sample_eligibility\<close>)
  then obtain sig att b where s: "att = \<lparr>att_election_id = cfg_election_id sample_election, att_pseudonym = be 32 2,
      att_vk = gcompress (g1 zq_suite) (gx (g1 zq_suite) 5), att_weight = 7, att_signature = sig, att_scheme = ATTESTATION_V1, att_nonce = n\<rparr>"
    "build_ballot zq_suite 9 (cfg_election_id sample_election) (be 32 2) 5 (gx (g1 zq_suite) 5) att [1, 2] (cfg_num_candidates sample_election)
      (cfg_budget sample_election) sample_randomness = Inr b"
    "validate_ballot zq_suite \<lparr>sb_sequence_number = 0, sb_envelope = to_envelope b att, sb_submitted_at = Some 150\<rparr> sample_election 9 = Inr None"
    by blast
  show ?thesis
    by (rule that [of "to_envelope b att"])
      (use built_fields [OF s(2)] validate_same_envelope [OF s(3)] zq.build_ballot_encrypts [OF _ s(2)] in
        \<open>simp_all add: to_envelope_def s(1) comp_def case_prod_beta zq_points numeral_2_eq_2\<close>)
qed


text \<open>The gateway accepts the first ballot of the sample election.\<close>

lemma sample_reachable: "mem_reachable sample_host (sample_memory [(1, sample_dkg 1), (2, sample_dkg 2)])"
  using sample_steps [OF sample_host_plain] by (simp add: mem_reachable_def)

lemma sample_gateway_accepts:
  obtains b m' where "gateway_submit_ballot zq_suite sample_host (memory_port sample_host) 150 151 True None (be 32 1) b
       (sample_memory [(1, sample_dkg 1), (2, sample_dkg 2)]) = Inr (m', 0)"
    "\<And>seq ts. is_voting_open sample_election ts \<Longrightarrow>
       validate_ballot zq_suite \<lparr>sb_sequence_number = seq, sb_envelope = b, sb_submitted_at = Some ts\<rparr> sample_election 9 = Inr None"
proof -
  let ?m = "sample_memory [(1, sample_dkg 1), (2, sample_dkg 2)]" and ?P = "memory_port sample_host"
  obtain b where b: "be_pseudonym b = be 32 2" "att_nonce (be_attestation b) = 1"
    "\<And>seq ts. is_voting_open sample_election ts \<Longrightarrow>
       validate_ballot zq_suite \<lparr>sb_sequence_number = seq, sb_envelope = b, sb_submitted_at = Some ts\<rparr> sample_election 9 = Inr None"
    by (rule sample_election_ballot [of 1]) auto
  obtain st where st: "im_get ?m (be 32 1) = Inr st" "st_config st = sample_election" "st_ballots st = []" "st_result st = None"
    "\<not> st_cancelled st" "\<not> st_tally_stalled st"
    by (simp add: im_get_def sample_memory_def Stored_init_def)
  let ?fk = "\<lparr>fk_pk_election = be 96 9, fk_committee_pks = sample_committee\<rparr>"
  have fk: "finalized_key_of st = Inr (Some ?fk)" using sample_finalized st(1) by (simp add: im_get_finalized_key_def)
  have rec: "dl_get_election ?P (be 32 1) ?m = Inr \<lparr>er_config = sample_election, er_cancelled = False, er_finalized_key = Some ?fk, er_tally_stalled = False\<rparr>"
    using st sample_finalized by (simp add: memory_port_def im_get_election_def)
  have res: "dl_get_result ?P (be 32 1) ?m = Inr None" using st by (simp add: memory_port_def im_get_result_def)
  have win: "is_voting_open sample_election 150" "is_voting_open sample_election 151" by (simp_all add: is_voting_open_def sample_election_def)
  have "memory_holds sample_host ?m (be 32 1) []" using reachable_inv [OF sample_reachable] st by (auto simp: memory_holds_def)
  from memory_ballots.max_stored_nonce_Max [OF this] have nonce: "max_stored_nonce ?P (be 32 1) ps ?m = Inr 0" for ps
    by (simp add: nonces_between_def)
  have "require_voting_open st 151 = Inr ()"
    unfolding require_voting_open_def fk using st win by (simp add: derive_state_def is_voting_open_def Let_def)
  then have "\<exists>m'. dl_submit_ballot ?P 151 (be 32 1) b [] ?m = Inr (m', 0)"
    using st by (simp add: memory_port_def im_submit_ballot_def require_gateway_def Let_def sample_election_def)
  then have "\<exists>m'. gateway_submit_ballot zq_suite sample_host ?P 150 151 True None (be 32 1) b ?m = Inr (m', 0)"
    using win(1) b(2) unfolding gateway_submit_ballot_def rec res
    by (simp add: Let_def derive_state_def is_voting_open_def zq_decompress b(3) win nonce split: AttestationScheme.splits)
  with that b(3) show thesis by blast
qed

lemma gateway_accepted_is_valid_witness:
  "\<exists>b m' sb st. gateway_submit_ballot zq_suite sample_host (memory_port sample_host) 150 151 True None (be 32 1) b
       (sample_memory [(1, sample_dkg 1), (2, sample_dkg 2)]) = Inr (m', 0) \<and>
     im_get m' (be 32 1) = Inr st \<and> st_ballots st = [sb] \<and> validate_ballot zq_suite sb sample_election 9 = Inr None"
proof -
  let ?m = "sample_memory [(1, sample_dkg 1), (2, sample_dkg 2)]"
  obtain b m' where m': "gateway_submit_ballot zq_suite sample_host (memory_port sample_host) 150 151 True None (be 32 1) b ?m = Inr (m', 0)"
    by (rule sample_gateway_accepts)
  obtain st where st: "im_get ?m (be 32 1) = Inr st" "st_config st = sample_election" "st_ballots st = []"
    by (simp add: im_get_def sample_memory_def Stored_init_def)
  from gateway_accepted_is_valid [OF sample_reachable st(1) m'] obtain sb fk mpk where sb: "im_get m' (be 32 1) = Inr (st\<lparr>st_ballots := st_ballots st @ [sb]\<rparr>)"
    "im_get_finalized_key (be 32 1) ?m = Inr (Some fk)" "g2_from_compressed zq_suite (fk_pk_election fk) = Inr mpk"
    "validate_ballot zq_suite sb (st_config st) mpk = Inr None" by blast
  have "mpk = 9" using sb(2,3) sample_finalized zq_decompress by auto
  with m' sb st(2,3) show ?thesis by (intro exI [of _ b] exI [of _ m'] exI [of _ sb] exI conjI) auto
qed

end
