(* ===== verification/Decryption.thy ===== *)
theory Decryption
  imports Aggregation
begin

text \<open>
  The share production loop of \<^verbatim>\<open>services/keyper/keyper.py\<close> (\<open>produce_decryption_share\<close>) and
  the correctness of the tally built on it: a quorum of honest keypers recovers exactly the
  plaintexts of the aggregate.
\<close>

text \<open>The loop over the aggregate's ciphertexts; \<open>rnd j\<close> is the nonce drawn for candidate \<open>j\<close>.\<close>

definition decryption_entry ::
    "('a, 'b) suite \<Rightarrow> 'b KeyperDKGState \<Rightarrow> int \<Rightarrow> bytes \<Rightarrow> (nat \<Rightarrow> int) \<Rightarrow> nat \<Rightarrow> Ciphertext \<Rightarrow>
     DecryptionShareEntry result" where
  "decryption_entry S st index election_id rnd j ct =
     ebind (g2_from_compressed S (ct_c1 ct)) (\<lambda>c1.
     ebind (g2_from_compressed S (ct_c2 ct)) (\<lambda>c2.
     ebind (partial_decrypt S st c1) (\<lambda>sigma.
     ebind (make_decrypt_transcript election_id (int j)) (\<lambda>t.
     case (ks_public_key_share st, ks_combined_share st) of
       (Some pks, Some msk) \<Rightarrow>
         ebind (prove_decryption_share S t c1 c2 pks sigma msk index (rnd j)) (\<lambda>((e, z), _).
         ebind (g2_to_compressed S sigma) (\<lambda>sb.
         Inr \<lparr>se_sigma = sb, se_proof = encode_dleq e z\<rparr>))
     | _ \<Rightarrow> Inl RuntimeError))))"

definition decryption_entries ::
    "('a, 'b) suite \<Rightarrow> 'b KeyperDKGState \<Rightarrow> int \<Rightarrow> bytes \<Rightarrow> (nat \<Rightarrow> int) \<Rightarrow> Ciphertext list \<Rightarrow>
     DecryptionShareEntry list result" where
  "decryption_entries S st index election_id rnd cts =
     emap (\<lambda>(j, ct). decryption_entry S st index election_id rnd j ct) (enumerate 0 cts)"

section \<open>An honest share is accepted\<close>

text \<open>A keyper that completed the key generation with secret share \<open>msk\<close>.\<close>

definition holds_share :: "('a, 'b) suite \<Rightarrow> 'b KeyperDKGState \<Rightarrow> int \<Rightarrow> bool" where
  "holds_share S st msk \<longleftrightarrow> ks_combined_share st = Some msk \<and>
     ks_public_key_share st = Some (mul (g2 S) (ggen (g2 S)) msk)"

text \<open>The ciphertexts of an artifact decode to the given points.\<close>

definition decodes :: "('a, 'b) suite \<Rightarrow> Ciphertext list \<Rightarrow> 'b ct list \<Rightarrow> bool" where
  "decodes S cts pts \<longleftrightarrow> list_all2 (\<lambda>ct p. decompress_ct S (ct_c1 ct, ct_c2 ct) = Inr p) cts pts"

lemma decodes_emap: "decodes S cts pts \<longleftrightarrow> emap (decompress_ct S) (map (\<lambda>ct. (ct_c1 ct, ct_c2 ct)) cts) = Inr pts"
  by (simp add: decodes_def emap_eq_Inr list_all2_map1 comp_def)

lemma decodes_nth:
  assumes "decodes S cts pts" and "j < length cts"
  shows "g2_from_compressed S (ct_c1 (cts ! j)) = Inr (fst (pts ! j)) \<and>
    g2_from_compressed S (ct_c2 (cts ! j)) = Inr (snd (pts ! j))"
  using list_all2_nthD [OF assms(1) [unfolded decodes_def] assms(2)]
  by (cases "pts ! j") (auto simp: decompress_ct_def)

context crypto_suite
begin

lemma decryption_entry_honest:
  assumes h: "holds_share S st msk" and eid: "length eid = 32" and j: "j < 65536" and i: "0 \<le> i" "i < 65536"
    and c: "g2_from_compressed S (ct_c1 ct) = Inr c1" "g2_from_compressed S (ct_c2 ct) = Inr c2"
  shows "\<exists>e z t u. make_decrypt_transcript eid (int j) = Inr t \<and> 0 \<le> e \<and> e < CURVE_ORDER \<and> 0 \<le> z \<and> z < CURVE_ORDER \<and>
    decryption_entry S st i eid rnd j ct = Inr \<lparr>se_sigma = gcompress (g2 S) (mul (g2 S) c1 msk), se_proof = encode_dleq e z\<rparr> \<and>
    verify_decryption_share S t c1 c2 (gx (g2 S) msk) (mul (g2 S) c1 msk) e z i = Inr (True, u)"
proof -
  have sub: "gsub (g2 S) c1" "gsub (g2 S) c2" using g2_from_compressed_sub c by blast+
  obtain t where t: "make_decrypt_transcript eid (int j) = Inr t"
    using make_decrypt_transcript_Inr [OF eid, of "int j"] j by auto
  obtain e z u where p: "prove_decryption_share S t c1 c2 (gx (g2 S) msk) (mul (g2 S) c1 msk) msk i (rnd j) = Inr ((e, z), u)"
    "0 \<le> e" "e < CURVE_ORDER" "0 \<le> z" "z < CURVE_ORDER"
    "verify_decryption_share S t c1 c2 (gx (g2 S) msk) (mul (g2 S) c1 msk) e z i = Inr (True, u)"
    using decryption_share_complete [OF sub i] by blast
  have "decryption_entry S st i eid rnd j ct = Inr \<lparr>se_sigma = gcompress (g2 S) (mul (g2 S) c1 msk), se_proof = encode_dleq e z\<rparr>"
    using h by (simp add: decryption_entry_def c partial_decrypt_def holds_share_def t p(1) g2_codec sub)
  then show ?thesis using t p by blast
qed

lemma decryption_entries_total:
  assumes h: "holds_share S st msk" and dec: "decodes S cts pts" and "length eid = 32" and "0 \<le> i" "i < 65536" and "length cts < 65536"
  shows "\<exists>es. decryption_entries S st i eid rnd cts = Inr es"
proof -
  have "\<exists>e. decryption_entry S st i eid rnd j (cts ! j) = Inr e" if "j < length cts" for j
  proof -
    have j: "j < 65536" using that assms(6) by simp
    note c = decodes_nth [OF dec that]
    show ?thesis
      using decryption_entry_honest [OF h assms(3) j assms(4,5) c [THEN conjunct1] c [THEN conjunct2], of rnd] by auto
  qed
  then obtain g where "\<And>j. j < length cts \<Longrightarrow> decryption_entry S st i eid rnd j (cts ! j) = Inr (g j)" by metis
  then have "emap (\<lambda>(j, ct). decryption_entry S st i eid rnd j ct) (enumerate 0 cts) = Inr (map (\<lambda>(j, ct). g j) (enumerate 0 cts))"
    by (intro emap_Inr_all) (auto simp: in_enumerate_iff)
  then show ?thesis by (simp add: decryption_entries_def)
qed

lemma check_share_honest:
  assumes h: "holds_share S st msk" and eid: "length (cfg_election_id config) = 32" and j: "j < length cts" "length cts < 65536"
    and idx: "ds_keyper_index share = i" "1 \<le> i" "i \<le> int (length pks)" "length pks < 65536"
    and pk: "pks ! nat (i - 1) = gcompress (g2 S) (gx (g2 S) msk)"
    and entries: "decryption_entries S st i (cfg_election_id config) rnd cts = Inr (ds_entries share)"
    and c: "g2_from_compressed S (ct_c1 (cts ! j)) = Inr c1" "g2_from_compressed S (ct_c2 (cts ! j)) = Inr c2"
  shows "check_share S config pks j c1 c2 share = Inr (Some (i, mul (g2 S) c1 msk))"
proof -
  have sub: "gsub (g2 S) c1" using g2_from_compressed_sub c by blast
  have all: "list_all2 (\<lambda>x y. (\<lambda>(j, ct). decryption_entry S st i (cfg_election_id config) rnd j ct) x = Inr y)
      (enumerate 0 cts) (ds_entries share)"
    using entries by (simp add: decryption_entries_def emap_eq_Inr)
  then have len: "length (ds_entries share) = length cts" by (auto dest: list_all2_lengthD)
  have entry: "decryption_entry S st i (cfg_election_id config) rnd j (cts ! j) = Inr (ds_entries share ! j)"
    using list_all2_nthD [OF all, of j] j by (simp add: nth_enumerate_eq)
  have b: "j < 65536" "0 \<le> i" "i < 65536" using j idx by auto
  obtain e z t u where e: "make_decrypt_transcript (cfg_election_id config) (int j) = Inr t"
    "0 \<le> e" "e < CURVE_ORDER" "0 \<le> z" "z < CURVE_ORDER"
    "ds_entries share ! j = \<lparr>se_sigma = gcompress (g2 S) (mul (g2 S) c1 msk), se_proof = encode_dleq e z\<rparr>"
    "verify_decryption_share S t c1 c2 (gx (g2 S) msk) (mul (g2 S) c1 msk) e z i = Inr (True, u)"
    using decryption_entry_honest [OF h eid b c, of rnd] entry by auto
  have dz: "decode_dleq (encode_dleq e z) = Inr (e, z)" using dleq_roundtrip [of e z] e by simp
  show ?thesis
    using idx j
    by (simp add: check_share_def Let_def len e(1,6,7) pk g2_codec sub dz except_ValueError_def)
qed

end

section \<open>A quorum recovers the tally\<close>

text \<open>
  Share envelopes of distinct keypers that hold evaluations of one polynomial \<open>f\<close>, produced
  honestly for the given ciphertexts.
\<close>

definition honest_envelope ::
    "('a, 'b) suite \<Rightarrow> ElectionConfig \<Rightarrow> bytes list \<Rightarrow> int list \<Rightarrow> Ciphertext list \<Rightarrow> DecryptionShareEnvelope \<Rightarrow> bool" where
  "honest_envelope S config pks f cts share \<longleftrightarrow>
     (\<exists>st msk rnd. holds_share S st msk \<and> msk mod CURVE_ORDER = peval f (ds_keyper_index share) mod CURVE_ORDER \<and>
        1 \<le> ds_keyper_index share \<and> ds_keyper_index share \<le> int (length pks) \<and>
        pks ! nat (ds_keyper_index share - 1) = gcompress (g2 S) (mul (g2 S) (ggen (g2 S)) msk) \<and>
        decryption_entries S st (ds_keyper_index share) (cfg_election_id config) rnd cts = Inr (ds_entries share))"

lemma map_filter_Some: "List.map_filter (\<lambda>r. r) (map (\<lambda>x. Some (g x)) xs) = map g xs"
  by (induction xs) (simp_all add: map_filter_simps)

context crypto_suite
begin

lemma valid_shares_honest:
  assumes hs: "\<forall>share \<in> set shares. honest_envelope S config pks f cts share"
    and eid: "length (cfg_election_id config) = 32" and j: "j < length cts" "length cts < 65536" "length pks < 65536"
    and c: "g2_from_compressed S (ct_c1 (cts ! j)) = Inr c1" "g2_from_compressed S (ct_c2 (cts ! j)) = Inr c2"
  shows "valid_shares S config pks j c1 c2 shares =
    Inr (map (\<lambda>i. (i, mul (g2 S) c1 (peval f i))) (map ds_keyper_index shares))"
proof -
  have "check_share S config pks j c1 c2 share =
      Inr (Some (ds_keyper_index share, mul (g2 S) c1 (peval f (ds_keyper_index share))))" if sh: "share \<in> set shares" for share
  proof -
    obtain st msk rnd where h: "holds_share S st msk"
      "msk mod CURVE_ORDER = peval f (ds_keyper_index share) mod CURVE_ORDER"
      "1 \<le> ds_keyper_index share" "ds_keyper_index share \<le> int (length pks)"
      "pks ! nat (ds_keyper_index share - 1) = gcompress (g2 S) (gx (g2 S) msk)"
      "decryption_entries S st (ds_keyper_index share) (cfg_election_id config) rnd cts = Inr (ds_entries share)"
      using hs sh by (auto simp: honest_envelope_def)
    have "mul (g2 S) c1 msk = mul (g2 S) c1 (peval f (ds_keyper_index share))"
      using h(2) by (simp add: mul_def)
    then show ?thesis
      using check_share_honest [OF h(1) eid j(1,2) refl h(3,4) j(3) h(5,6) c] by simp
  qed
  then have "emap (check_share S config pks j c1 c2) shares =
      Inr (map (\<lambda>share. Some (ds_keyper_index share, mul (g2 S) c1 (peval f (ds_keyper_index share)))) shares)"
    by (rule emap_Inr_all)
  then show ?thesis by (simp add: valid_shares_def map_filter_Some comp_def)
qed

lemma distinct_mod_small:
  assumes "distinct ids" and "\<forall>i \<in> set ids. 0 \<le> i \<and> i < CURVE_ORDER"
  shows "distinct_mod ids"
  using assms by (auto simp: distinct_mod_def distinct_map inj_on_def)

text \<open>What an honest quorum derives for one candidate: the point of its plaintext.\<close>

lemma tau_honest:
  assumes ids: "distinct_mod (take q ids)" "length f \<le> q" "q \<le> length ids"
    and ct: "(c1, c2) = Enc S (gx (g2 S) (peval f 0)) m r"
  shows "\<exists>P. combine_shares S (take q (map (\<lambda>i. (i, mul (g2 S) c1 (peval f i))) ids)) = Inr P \<and>
    add (g2 S) c2 (neg (g2 S) P) = gx (g2 S) m"
proof -
  have c: "c1 = gx (g2 S) r" "c2 = gx (g2 S) (peval f 0 * r + m)" using ct by (auto simp: Enc_exponents)
  have "combine_shares S (map (\<lambda>i. (i, mul (g2 S) c1 (peval f i))) (take q ids)) = Inr (mul (g2 S) c1 (peval f 0))"
    by (rule combine_shares_poly) (use ids c in auto)
  moreover have "add (g2 S) c2 (neg (g2 S) (mul (g2 S) c1 (peval f 0))) = gx (g2 S) m"
    by (simp add: c W.exponent_simps algebra_simps)
  ultimately show ?thesis by (simp add: take_map)
qed

lemma derive_taus_honest:
  assumes hs: "\<forall>share \<in> set shares. honest_envelope S config pks f cts share"
    and eid: "length (cfg_election_id config) = 32" and l: "length cts < 65536" "length pks < 65536"
    and ids: "distinct_mod (take (nat quorum) (map ds_keyper_index shares))" "length f \<le> nat quorum"
      "quorum \<le> int (length shares)"
    and dec: "decodes S cts (map (\<lambda>j. Enc S (gx (g2 S) (peval f 0)) (m j) (r j)) [0..<length cts])"
    and rest: "drop k cts = cs" "k \<le> length cts"
  shows "\<exists>used'. derive_taus_from S config shares pks quorum k cs (taus, used) =
    Inr (Some (taus @ map (\<lambda>j. gx (g2 S) (m j)) [k..<length cts], used'))"
  using rest
proof (induction cs arbitrary: k taus used)
  case Nil
  then have "k = length cts" by simp
  then show ?case by simp
next
  case (Cons ct cs)
  then have k: "k < length cts" "cts ! k = ct" "drop (Suc k) cts = cs"
    by (metis Cons.prems(1) drop_eq_Nil list.discI not_le, metis Cons.prems(1) nth_via_drop,
        metis Cons.prems(1) drop_Suc list.sel(3) tl_drop)
  obtain c1 c2 where e: "Enc S (gx (g2 S) (peval f 0)) (m k) (r k) = (c1, c2)" by fastforce
  have c: "g2_from_compressed S (ct_c1 (cts ! k)) = Inr c1" "g2_from_compressed S (ct_c2 (cts ! k)) = Inr c2"
    using decodes_nth [OF dec k(1)] k(1) e by auto
  note v = valid_shares_honest [OF hs eid k(1) l c]
  have ql: "nat quorum \<le> length (map ds_keyper_index shares)" using ids(3) by simp
  obtain P where P: "combine_shares S (take (nat quorum) (map (\<lambda>i. (i, mul (g2 S) c1 (peval f i))) (map ds_keyper_index shares))) = Inr P"
    "add (g2 S) c2 (neg (g2 S) P) = gx (g2 S) (m k)"
    using tau_honest [OF ids(1,2) ql e [symmetric]] by blast
  have q: "\<not> int (length (map (\<lambda>i. (i, mul (g2 S) c1 (peval f i))) (map ds_keyper_index shares))) < quorum"
    using ids(3) by simp
  have up: "[k..<length cts] = k # [Suc k..<length cts]" using k(1) by (rule upt_conv_Cons)
  show ?case
    using Cons.IH [of "Suc k" "taus @ [gx (g2 S) (m k)]"] k c v P q
    by (simp add: Let_def up del: map_map upt_Suc)
qed

text \<open>The tally: solving the derived points returns the plaintexts.\<close>

lemma recover_honest:
  assumes hs: "\<forall>share \<in> set shares. honest_envelope S config pks f (agg_aggregates agg) share"
    and eid: "length (cfg_election_id config) = 32" and l: "length (agg_aggregates agg) < 65536" "length pks < 65536"
    and ids: "distinct (map ds_keyper_index shares)" "length f \<le> nat quorum" "quorum \<le> int (length shares)"
    and dec: "decodes S (agg_aggregates agg)
      (map (\<lambda>j. Enc S (gx (g2 S) (peval f 0)) (m j) (r j)) [0..<length (agg_aggregates agg)])"
    and m: "\<forall>j < length (agg_aggregates agg). 0 \<le> m j \<and> m j \<le> bsgs_bound config (agg_total_scaled_weight agg)"
    and b: "0 \<le> bsgs_bound config (agg_total_scaled_weight agg)" "bsgs_bound config (agg_total_scaled_weight agg) < CURVE_ORDER"
  shows "\<exists>res. recover_result S config agg shares pks quorum None = Inr (Some res) \<and>
    res_totals res = map m [0..<length (agg_aggregates agg)]"
proof -
  let ?n = "length (agg_aggregates agg)" and ?b = "bsgs_bound config (agg_total_scaled_weight agg)"
  have "\<forall>i \<in> set (map ds_keyper_index shares). 0 \<le> i \<and> i < CURVE_ORDER"
    using hs l(2) by (auto simp: honest_envelope_def CURVE_ORDER_def)
  then have dm: "distinct_mod (take (nat quorum) (map ds_keyper_index shares))"
    using ids(1) distinct_mod_small [of "take (nat quorum) (map ds_keyper_index shares)"]
    by (metis distinct_take in_set_takeD)
  obtain used where d: "derive_taus S config agg shares pks quorum =
      Inr (Some (map (\<lambda>j. gx (g2 S) (m j)) [0..<?n], used))"
    using derive_taus_honest [OF hs eid l dm ids(2,3) dec, of 0 "agg_aggregates agg" "[]" None]
    by (auto simp: derive_taus_def)
  have "solve_all S (build_baby_step_table S ?b) (map (\<lambda>j. gx (g2 S) (m j)) [0..<?n]) = Some (map m [0..<?n])"
    using bsgs_table_iff [OF W.gx_sub b] m
    by (auto simp: solve_all_Some list_all2_conv_all_nth)
  then show ?thesis by (simp add: recover_result_def d)
qed

end

section \<open>The whole tally\<close>

lemma recover_fields:
  "recover_result S config agg shares pks quorum c = Inr (Some res) \<Longrightarrow>
     res_election_id res = cfg_election_id config \<and> res_bsgs_bound res = bsgs_bound config (agg_total_scaled_weight agg)"
  by (auto simp: recover_result_def Let_def split: if_split_asm option.split_asm)

text \<open>The keypers named in a result are members of the committee.\<close>

lemma check_share_index: "check_share S config pks j c1 c2 share = Inr (Some (i, P)) \<Longrightarrow> 1 \<le> i \<and> i \<le> int (length pks)"
  by (auto simp: check_share_def Let_def split: if_splits option.splits)

lemma valid_shares_index:
  "valid_shares S config pks j c1 c2 shares = Inr valid \<Longrightarrow> x \<in> set valid \<Longrightarrow> 1 \<le> fst x \<and> fst x \<le> int (length pks)"
proof -
  assume v: "valid_shares S config pks j c1 c2 shares = Inr valid" and x: "x \<in> set valid"
  from v obtain rs where rs: "list_all2 (\<lambda>share r. check_share S config pks j c1 c2 share = Inr r) shares rs"
    and "valid = List.map_filter (\<lambda>r. r) rs"
    by (auto simp: valid_shares_def emap_eq_Inr)
  with x have "Some x \<in> set rs" by (auto simp: map_filter_def)
  with rs obtain share where "check_share S config pks j c1 c2 share = Inr (Some x)"
    by (auto simp: list_all2_conv_all_nth in_set_conv_nth)
  then show ?thesis using check_share_index [of S config pks j c1 c2 share "fst x" "snd x"] by simp
qed

lemma derive_taus_index:
  assumes "derive_taus_from S config shares pks quorum j cts (taus, used) = Inr (Some (taus', is))"
    and "\<And>js. used = Some js \<Longrightarrow> \<forall>i \<in> set js. 1 \<le> i \<and> i \<le> int (length pks)"
  shows "\<forall>i \<in> set is. 1 \<le> i \<and> i \<le> int (length pks)"
  using assms
proof (induction cts arbitrary: j taus used)
  case Nil
  then show ?case by (auto split: option.splits)
next
  case (Cons ct cts)
  from Cons.prems(1) obtain c1 c2 valid sigma where v: "valid_shares S config pks j c1 c2 shares = Inr valid"
    and r: "derive_taus_from S config shares pks quorum (Suc j) cts (taus @ [add (g2 S) c2 (neg (g2 S) sigma)],
        case used of None \<Rightarrow> Some (map fst (take (nat quorum) valid)) | Some js \<Rightarrow> Some js) = Inr (Some (taus', is))"
    by (auto simp: Let_def split: if_splits)
  show ?case
    by (rule Cons.IH [OF r])
      (use Cons.prems(2) valid_shares_index [OF v] in \<open>auto split: option.splits dest!: in_set_takeD\<close>)
qed

lemma recover_indices:
  assumes "recover_result S config agg shares pks quorum c = Inr (Some res)"
  shows "\<forall>i \<in> set (res_keyper_indices res). 1 \<le> i \<and> i \<le> int (length pks)"
  using assms derive_taus_index [of S config shares pks quorum 0 "agg_aggregates agg" "[]" None]
  by (auto simp: recover_result_def derive_taus_def Let_def split: if_splits option.splits)

lemma sum_list_mult_swap:
  fixes g :: "'a \<Rightarrow> int" and v :: "'a \<Rightarrow> nat \<Rightarrow> int"
  assumes "\<And>a. a \<in> set as \<Longrightarrow> (\<Sum>j \<leftarrow> js. v a j) = b"
  shows "(\<Sum>j \<leftarrow> js. \<Sum>a \<leftarrow> as. g a * v a j) = b * (\<Sum>a \<leftarrow> as. g a)"
proof -
  have "(\<Sum>j \<leftarrow> js. \<Sum>a \<leftarrow> as. g a * v a j) = (\<Sum>a \<leftarrow> as. \<Sum>j \<leftarrow> js. g a * v a j)"
    by (induction js) (simp_all add: sum_list_addf)
  also have "\<dots> = (\<Sum>a \<leftarrow> as. g a * b)"
    using assms by (intro arg_cong [where f = sum_list] map_cong) (simp_all add: sum_list_const_mult)
  also have "\<dots> = b * (\<Sum>a \<leftarrow> as. g a)"
    by (induction as) (simp_all add: algebra_simps)
  finally show ?thesis .
qed

lemma tally_recovers:
  assumes "crypto_suite S" and "config_ok config" and "length (cfg_election_id config) = 32" "cfg_mode config = EXACT"
    and enc: "\<And>ab. ab \<in> set (ar_admitted adm) \<Longrightarrow>
      encrypts S (peval f 0) ab (nat (cfg_num_candidates config)) (v ab) (r ab) \<and> 0 \<le> ab_weight ab \<and>
      (\<forall>j. 0 \<le> v ab j) \<and> (\<Sum>j \<leftarrow> [0..<nat (cfg_num_candidates config)]. v ab j) = cfg_budget config"
    and art: "build_aggregate_artifact S config adm = Inr art"
    and bound: "cfg_budget config * (\<Sum>ab \<leftarrow> ar_admitted adm. scaled_weight (ab_weight ab) (cfg_scale config)) < CURVE_ORDER"
    and shares: "\<forall>share \<in> set shares. honest_envelope S config pks f (agg_aggregates art) share" "length pks < 65536"
      "distinct (map ds_keyper_index shares)" "length f \<le> nat quorum" "quorum \<le> int (length shares)"
  shows "\<exists>res. recover_result S config art shares pks quorum None = Inr (Some res) \<and>
    res_totals res = map (\<lambda>j. \<Sum>ab \<leftarrow> ar_admitted adm. scaled_weight (ab_weight ab) (cfg_scale config) * v ab j)
      [0..<nat (cfg_num_candidates config)] \<and>
    check_result S config art shares pks quorum (res_totals res) = Inr (True, None) \<and>
    (\<forall>x \<in> set (res_totals res). 0 \<le> x \<and> x \<le> res_bsgs_bound res) \<and> 0 \<le> res_bsgs_bound res \<and> res_bsgs_bound res < CURVE_ORDER"
proof -
  note c = config_ok_facts [OF assms(2)]
  let ?n = "nat (cfg_num_candidates config)" and ?sw = "\<lambda>ab. scaled_weight (ab_weight ab) (cfg_scale config)"
  let ?m = "\<lambda>j. \<Sum>ab \<leftarrow> ar_admitted adm. ?sw ab * v ab j" and ?r = "\<lambda>j. \<Sum>ab \<leftarrow> ar_admitted adm. ?sw ab * r ab j"
  let ?b = "bsgs_bound config (agg_total_scaled_weight art)"
  have a: "decodes S (agg_aggregates art) (map (\<lambda>j. Enc S (mul (g2 S) (ggen (g2 S)) (peval f 0)) (?m j) (?r j)) [0..<?n])"
    "agg_total_scaled_weight art = (\<Sum>ab \<leftarrow> ar_admitted adm. ?sw ab)"
    using crypto_suite.build_aggregate_Enc [OF assms(1), of adm "peval f 0" config v r] enc art by (auto simp: decodes_emap)
  then have n: "length (agg_aggregates art) = ?n" by (auto simp: decodes_def dest: list_all2_lengthD)
  have l: "length (agg_aggregates art) < 65536" using n c(2) by simp
  have sw: "0 \<le> ?sw ab" if "ab \<in> set (ar_admitted adm)" for ab
    using scaled_weight_nonneg enc [OF that] c(6) by blast
  have b: "?b = cfg_budget config * (\<Sum>ab \<leftarrow> ar_admitted adm. ?sw ab)" by (simp add: bsgs_bound_def a(2))
  have m0: "0 \<le> ?m j" for j using sw enc by (intro sum_list_nonneg) auto
  have sum: "(\<Sum>j \<leftarrow> [0..<?n]. ?m j) = ?b" unfolding b by (rule sum_list_mult_swap) (use enc in blast)
  have m: "\<forall>j < length (agg_aggregates art). 0 \<le> ?m j \<and> ?m j \<le> ?b"
    using m0 member_le_sum_list_int [of "map ?m [0..<?n]"] sum n by auto
  have b0: "0 \<le> ?b" "?b < CURVE_ORDER" using bound sw c(3) by (auto simp: b intro!: mult_nonneg_nonneg sum_list_nonneg)
  obtain res where res: "recover_result S config art shares pks quorum None = Inr (Some res)" "res_totals res = map ?m [0..<?n]"
    using crypto_suite.recover_honest [OF assms(1) shares(1) assms(3) l shares(2-5) a(1) [folded n] m b0] n by auto
  have "check_result S config art shares pks quorum (map ?m [0..<?n]) = Inr (True, None)"
    unfolding crypto_suite.check_iff_recover [OF assms(1) b0]
    using res recover_fields [OF res(1)] sum assms(4) by (cases res) auto
  moreover have "res_bsgs_bound res = ?b" using recover_fields [OF res(1)] by simp
  ultimately show ?thesis using res m b0 n by auto
qed

text \<open>A committee of three with the joint polynomial \<open>9 + 4 x\<close> and one admitted ballot of weight 7.\<close>

definition sample_keyper :: "int \<Rightarrow> int KeyperDKGState" where
  "sample_keyper i = KeyperDKGState_init\<lparr>ks_combined_share := Some (9 + 4 * i),
     ks_public_key_share := Some (mul (g2 zq_suite) (ggen (g2 zq_suite)) (9 + 4 * i))\<rparr>"

definition sample_pks :: "bytes list" where
  "sample_pks = map (\<lambda>i. gcompress (g2 zq_suite) (mul (g2 zq_suite) (ggen (g2 zq_suite)) (9 + 4 * i))) [1, 2, 3]"

lemma sample_envelope:
  assumes "decodes zq_suite cts pts" and "length cts < 65536" and "i \<in> {1, 2, 3}"
  obtains share where "ds_keyper_index share = i" "honest_envelope zq_suite sample_config sample_pks [9, 4] cts share"
proof -
  have h: "holds_share zq_suite (sample_keyper i) (9 + 4 * i)" by (simp add: holds_share_def sample_keyper_def)
  have "length (cfg_election_id sample_config) = 32" by (simp add: sample_config_def)
  then obtain es where es: "decryption_entries zq_suite (sample_keyper i) i (cfg_election_id sample_config) (\<lambda>_. 0) cts = Inr es"
    using zq.decryption_entries_total [OF h assms(1), of "cfg_election_id sample_config" i "\<lambda>_. 0"] assms(2,3) by auto
  have "honest_envelope zq_suite sample_config sample_pks [9, 4] cts
      \<lparr>ds_election_id = cfg_election_id sample_config, ds_keyper_index = i, ds_entries = es\<rparr>"
    unfolding honest_envelope_def
    by (rule exI [of _ "sample_keyper i"], rule exI [of _ "9 + 4 * i"], rule exI [of _ "\<lambda>_. 0"])
      (use h es assms(3) in \<open>auto simp: sample_pks_def algebra_simps\<close>)
  then show ?thesis by (intro that) simp_all
qed

definition sample_admitted :: AdmittedBallot where
  "sample_admitted = \<lparr>ab_sequence_number = 0,
     ab_envelope = \<lparr>be_election_id = replicate 32 1, be_pseudonym = replicate 32 2, be_vk = [],
       be_ciphertexts = map (\<lambda>(m, r). let c = Enc zq_suite (mul (g2 zq_suite) (ggen (g2 zq_suite)) 9) m r
         in \<lparr>ct_c1 = gcompress (g2 zq_suite) (fst c), ct_c2 = gcompress (g2 zq_suite) (snd c)\<rparr>) [(1, 5), (2, 6)],
       be_zk_proof = [], be_voter_signature = [], be_attestation = sample_credential\<rparr>, ab_weight = 7\<rparr>"

lemma sample_admitted_encrypts:
  "encrypts zq_suite 9 sample_admitted 2 (\<lambda>j. if j = 0 then 1 else if j = 1 then 2 else 0) (\<lambda>j. if j = 0 then 5 else 6)"
  by (simp add: encrypts_def sample_admitted_def Let_def decompress_ct_def zq.g2_codec zq.Enc_exponents upt_rec)

end
