(* ===== verification/Keyper_Service.thy ===== *)
theory Keyper_Service
  imports Gateway Decryption
begin

text \<open>
  \<^verbatim>\<open>services/keyper/keyper.py\<close>: a committee member over the data-layer port. Its clock reading is \<open>now\<close>,
  the data layer's at a write is \<open>now_dl\<close>; the random values of a call are its argument \<open>rnd\<close>.
\<close>

record 'b KeyperService =
  kp_index :: int
  kp_signer :: Signer
  kp_dkg :: "'b KeyperDKGState"

definition KeyperService_init :: "int \<Rightarrow> Signer \<Rightarrow> 'b KeyperService" where
  "KeyperService_init index signer = \<lparr>kp_index = index, kp_signer = signer, kp_dkg = KeyperDKGState_init\<rparr>"

section \<open>Key generation\<close>

definition dkg_round1 ::
  "('a, 'b) suite \<Rightarrow> int \<Rightarrow> int \<Rightarrow> (nat \<Rightarrow> int) \<Rightarrow> 'b KeyperService \<Rightarrow> ('b list \<times> (int \<times> int) list) \<times> 'b KeyperService" where
  "dkg_round1 S n t rnd k =
     (let (out, st) = round1 S (kp_dkg k) (kp_index k) n t rnd in (out, k\<lparr>kp_dkg := st\<rparr>))"

definition dkg_round2 ::
  "('a, 'b) suite \<Rightarrow> (int \<times> 'b list) list \<Rightarrow> (int \<times> int) list \<Rightarrow> 'b KeyperService \<Rightarrow> ((int \<times> 'b) \<times> 'b KeyperService) result" where
  "dkg_round2 S all_commitments received_shares k =
     ebind (round2 S (kp_dkg k) all_commitments received_shares) (\<lambda>(out, st). Inr (out, k\<lparr>kp_dkg := st\<rparr>))"

text \<open>
  The quorum of a keyper that has not run round 1 is \<open>None\<close>; no list length equals it, so the length
  check names every dealer, and with no dealer at all the joint key is the identity.
\<close>

definition submit_dkg_result ::
  "('a, 'b) suite \<Rightarrow> host \<Rightarrow> 's ElectionDataLayer \<Rightarrow> bytes \<Rightarrow> (int \<times> 'b list) list \<Rightarrow> 'b KeyperService \<Rightarrow> 's \<Rightarrow> 's result" where
  "submit_dkg_result S H P election_id all_commitments k s =
     (let quorum = (case ks_quorum (kp_dkg k) of Some q \<Rightarrow> q | None \<Rightarrow> -1) in
      ebind (derive_joint_mpk S all_commitments quorum) (\<lambda>pk.
      ebind (emap (\<lambda>i. derive_mpk_share S i all_commitments quorum) (sort (map fst all_commitments))) (\<lambda>committee.
      ebind (g2_to_compressed S pk) (\<lambda>pk_b.
      ebind (emap (g2_to_compressed S) committee) (\<lambda>committee_b.
      ebind (sign_dkg_result H (private_key (kp_signer k)) election_id pk_b committee_b) (\<lambda>sig.
      dl_submit_dkg_result P election_id pk_b committee_b sig s))))))"

section \<open>Aggregation\<close>

definition state_value :: "ElectionState \<Rightarrow> string" where
  "state_value st =
     (case st of
        CANCELLED \<Rightarrow> ''Cancelled'' | COMPLETE \<Rightarrow> ''Complete'' | DKG_FAILED \<Rightarrow> ''DKGFailed'' | REGISTERED \<Rightarrow> ''Registered''
      | KEY_READY \<Rightarrow> ''KeyReady'' | VOTING \<Rightarrow> ''Voting'' | TALLYING \<Rightarrow> ''Tallying'' | TALLY_STALLED \<Rightarrow> ''TallyStalled'')"

definition check_can_aggregate :: "'s ElectionDataLayer \<Rightarrow> int \<Rightarrow> bytes \<Rightarrow> 's \<Rightarrow> (ElectionRecord \<times> FinalizedKey) result" where
  "check_can_aggregate P now election_id s =
     ebind (dl_get_election P election_id s) (\<lambda>rec.
     ebind (dl_get_result P election_id s) (\<lambda>res.
     let facts = \<lparr>sf_cancelled = er_cancelled rec, sf_key_finalized = (er_finalized_key rec \<noteq> None),
                  sf_result_published = (res \<noteq> None), sf_tally_stalled = False\<rparr>;
         state = derive_state (er_config rec) facts now in
     if state \<notin> {TALLYING, COMPLETE} then Inl (KeyperRefusal (''refuse: state is '' @ state_value state @ '', not tallying''))
     else (case er_finalized_key rec of None \<Rightarrow> Inl (KeyperRefusal ''refuse: no finalized key'') | Some fk \<Rightarrow> Inr (rec, fk))))"

definition produce_aggregate ::
  "('a, 'b) suite \<Rightarrow> host \<Rightarrow> 's ElectionDataLayer \<Rightarrow> int \<Rightarrow> bytes \<Rightarrow> 'b KeyperService \<Rightarrow> 's \<Rightarrow> (AggregateArtifact \<times> bytes) result" where
  "produce_aggregate S H P now election_id k s =
     ebind (check_can_aggregate P now election_id s) (\<lambda>(rec, fk).
     ebind (read_all_ballots P election_id s) (\<lambda>stored.
     ebind (admit S stored (er_config rec) (fk_pk_election fk)) (\<lambda>admission.
     ebind (build_aggregate_artifact S (er_config rec) admission) (\<lambda>artifact.
     ebind (sign_aggregate H (private_key (kp_signer k)) election_id artifact) (\<lambda>sig.
     Inr (artifact, sig))))))"

definition aggregate_and_submit ::
  "('a, 'b) suite \<Rightarrow> host \<Rightarrow> 's ElectionDataLayer \<Rightarrow> int \<Rightarrow> int \<Rightarrow> bytes \<Rightarrow> 'b KeyperService \<Rightarrow> 's \<Rightarrow> 's result" where
  "aggregate_and_submit S H P now now_dl election_id k s =
     ebind (produce_aggregate S H P now election_id k s) (\<lambda>(artifact, sig).
     dl_submit_aggregate P now_dl election_id artifact sig s)"

section \<open>Partial decryption\<close>

definition produce_decryption_share ::
  "('a, 'b) suite \<Rightarrow> host \<Rightarrow> 's ElectionDataLayer \<Rightarrow> int \<Rightarrow> (nat \<Rightarrow> int) \<Rightarrow> bytes \<Rightarrow> 'b KeyperService \<Rightarrow> 's \<Rightarrow>
     (DecryptionShareEnvelope \<times> bytes) option result" where
  "produce_decryption_share S H P now rnd election_id k s =
     ebind (check_can_aggregate P now election_id s) (\<lambda>_.
     ebind (dl_get_aggregate P election_id s) (\<lambda>published.
     case published of
       None \<Rightarrow> Inl (KeyperRefusal ''refuse: no aggregate published'')
     | Some agg \<Rightarrow>
         ebind (dl_list_decryption_shares P election_id s) (\<lambda>shares.
         if filter (\<lambda>sh. ds_keyper_index sh = kp_index k) shares \<noteq> [] then Inr None
         else
           ebind (decryption_entries S (kp_dkg k) (kp_index k) election_id rnd (agg_aggregates agg)) (\<lambda>entries.
           let share = \<lparr>ds_election_id = election_id, ds_keyper_index = kp_index k, ds_entries = entries\<rparr> in
           ebind (sign_decryption_share H (private_key (kp_signer k)) election_id (map se_sigma entries) (map proof_ints entries)) (\<lambda>sig.
           Inr (Some (share, sig)))))))"

definition decrypt_and_submit ::
  "('a, 'b) suite \<Rightarrow> host \<Rightarrow> 's ElectionDataLayer \<Rightarrow> int \<Rightarrow> int \<Rightarrow> (nat \<Rightarrow> int) \<Rightarrow> bytes \<Rightarrow> 'b KeyperService \<Rightarrow> 's \<Rightarrow> 's result" where
  "decrypt_and_submit S H P now now_dl rnd election_id k s =
     ebind (produce_decryption_share S H P now rnd election_id k s) (\<lambda>produced.
     case produced of None \<Rightarrow> Inr s | Some (share, sig) \<Rightarrow> dl_submit_decryption_share P now_dl election_id share sig s)"

end
