(* ===== verification/Tally.thy ===== *)
theory Tally
  imports Keyper_Service
begin

text \<open>
  \<^verbatim>\<open>services/tally_aggregator/tally_aggregator.py\<close>: driving the committee and publishing the result. The
  second half shows that an honest quorum finishes: the run publishes, and publishes the weighted tally.
\<close>

definition tally_state :: "'s ElectionDataLayer \<Rightarrow> bytes \<Rightarrow> int \<Rightarrow> 's \<Rightarrow> (ElectionRecord \<times> ElectionState) result" where
  "tally_state P election_id now s =
     ebind (dl_get_election P election_id s) (\<lambda>rec.
     ebind (dl_get_result P election_id s) (\<lambda>res.
     let facts = \<lparr>sf_cancelled = er_cancelled rec, sf_key_finalized = (er_finalized_key rec \<noteq> None),
                  sf_result_published = (res \<noteq> None), sf_tally_stalled = False\<rparr> in
     Inr (rec, derive_state (er_config rec) facts now)))"

text \<open>\<open>for k in keypers: try: ... except Exception: pass\<close>: an operation that raises leaves the state as it was.\<close>

definition for_each_swallowing :: "('k \<Rightarrow> 's \<Rightarrow> 's result) \<Rightarrow> 'k list \<Rightarrow> 's \<Rightarrow> 's" where
  "for_each_swallowing act ks s = foldl (\<lambda>s k. case act k s of Inl e \<Rightarrow> s | Inr s' \<Rightarrow> s') s ks"

definition trigger_aggregate ::
  "('a, 'b) suite \<Rightarrow> host \<Rightarrow> 's ElectionDataLayer \<Rightarrow> int \<Rightarrow> int \<Rightarrow> 'b KeyperService list \<Rightarrow> bytes \<Rightarrow> 's \<Rightarrow> 's" where
  "trigger_aggregate S H P now now_dl keypers election_id s =
     for_each_swallowing (\<lambda>k. aggregate_and_submit S H P now now_dl election_id k) keypers s"

definition trigger_keypers ::
  "('a, 'b) suite \<Rightarrow> host \<Rightarrow> 's ElectionDataLayer \<Rightarrow> int \<Rightarrow> int \<Rightarrow> (int \<Rightarrow> nat \<Rightarrow> int) \<Rightarrow> 'b KeyperService list \<Rightarrow> bytes \<Rightarrow> 's \<Rightarrow> 's" where
  "trigger_keypers S H P now now_dl rnd keypers election_id s =
     for_each_swallowing (\<lambda>k. decrypt_and_submit S H P now now_dl (rnd (kp_index k)) election_id k) keypers s"

definition finalize ::
  "('a, 'b) suite \<Rightarrow> host \<Rightarrow> 's ElectionDataLayer \<Rightarrow> int \<Rightarrow> bytes \<Rightarrow> Signer \<Rightarrow> 's \<Rightarrow> ('s \<times> ResultArtifact option) result" where
  "finalize S H P now election_id result_publisher s =
     ebind (tally_state P election_id now s) (\<lambda>(rec, state).
     if state = COMPLETE then ebind (dl_get_result P election_id s) (\<lambda>res. Inr (s, res))
     else if state \<noteq> TALLYING then Inl TallyError
     else
       ebind (dl_get_aggregate P election_id s) (\<lambda>published.
       case (published, er_finalized_key rec) of
         (Some agg, Some fk) \<Rightarrow>
           ebind (dl_list_decryption_shares P election_id s) (\<lambda>shares.
           ebind (recover_result S (er_config rec) agg shares (fk_committee_pks fk) (th_t (cfg_threshold (er_config rec))) None) (\<lambda>result.
           case result of
             None \<Rightarrow> Inr (s, None)
           | Some res \<Rightarrow>
               ebind (result_digest H election_id res) (\<lambda>payload.
               ebind (Signer_sign H result_publisher ''result'' election_id payload) (\<lambda>sig.
               ebind (dl_publish_result P election_id res sig s) (\<lambda>s'. Inr (s', Some res))))))
       | _ \<Rightarrow> Inl TallyError))"

definition run_tally ::
  "('a, 'b) suite \<Rightarrow> host \<Rightarrow> 's ElectionDataLayer \<Rightarrow> int \<Rightarrow> int \<Rightarrow> (int \<Rightarrow> nat \<Rightarrow> int) \<Rightarrow> bytes \<Rightarrow> Signer \<Rightarrow> 'b KeyperService list \<Rightarrow> 's \<Rightarrow>
     ('s \<times> ResultArtifact option) result" where
  "run_tally S H P now now_dl rnd election_id result_publisher keypers s =
     (let s1 = trigger_aggregate S H P now now_dl keypers election_id s in
      ebind (dl_get_aggregate P election_id s1) (\<lambda>published.
      if published = None then Inl TallyError
      else finalize S H P now election_id result_publisher (trigger_keypers S H P now now_dl rnd keypers election_id s1)))"

section \<open>Documented behaviour of the signing and encoding libraries\<close>

text \<open>A signature made by a signer recovers to its identity; the digest has 32 bytes.\<close>

definition signs :: "host \<Rightarrow> Signer \<Rightarrow> bool" where
  "signs H s \<longleftrightarrow> 0 \<le> private_key s \<and> private_key s < 256 ^ 32 \<and>
     (\<forall>d. recover_message H d (sign_message H (be 32 (private_key s)) d) = Some (identity s))"

definition u256 :: "int \<Rightarrow> bool" where
  "u256 n \<longleftrightarrow> 0 \<le> n \<and> n < 2 ^ 256"

text \<open>The encoder accepts every value of the ABI types.\<close>

definition abi_total :: "host \<Rightarrow> bool" where
  "abi_total H \<longleftrightarrow> (\<forall>m. length (host.keccak H m) = 32) \<and> (\<forall>bs. \<not> isl (abi_bytes_array H bs)) \<and>
     (\<forall>ps. list_all (\<lambda>(a, b). u256 a \<and> u256 b) ps \<longrightarrow> \<not> isl (abi_pair_array H ps)) \<and>
     (\<forall>ts ks b. list_all u256 (b # ts @ ks) \<longrightarrow> \<not> isl (abi_result H ts ks b)) \<and>
     (\<forall>cs adm exs w sw. list_all u256 (w # sw # adm @ map fst exs) \<and> list_all (\<lambda>(s, c). 0 \<le> c \<and> c < 256) exs \<longrightarrow>
        \<not> isl (abi_tally H cs adm exs w sw))"

lemma sign_digest_recovers: "signs H s \<Longrightarrow> \<exists>sig. sign_digest H (private_key s) d = Inr sig \<and> recover_digest H d sig = Some (identity s)"
  by (simp add: signs_def sign_digest_def recover_digest_def)

lemma Signer_sign_verifies:
  assumes "signs H s" "abi_total H" "length e = 32" "length p = 32" "length op < 256"
  shows "\<exists>sig. Signer_sign H s op e p = Inr sig \<and> verify_request H (identity s) sig op e p"
proof -
  have "\<exists>d. request_digest H op e p = Inr d"
    using assms(3-5) by (simp add: request_digest_def request_text_def Authorization.frame_def)
  then obtain d where "request_digest H op e p = Inr d" by blast
  with assms(1) show ?thesis by (simp add: Signer_sign_def sign_request_def verify_request_def signs_def)
qed

section \<open>Equal submissions\<close>

lemma group_all_same: "group_all (map (\<lambda>i. (d, a, i)) is) = (if is = [] then [] else [(d, a, set is)])"
  by (induction "is" rule: rev_induct) (auto simp: group_all_def)

lemma canonical_same:
  assumes "aggregate_digest_of H e art = Inr d" "st_aggregate_by_keyper st = map (\<lambda>i. (i, art)) is" "distinct is"
    and "1 \<le> th_t (cfg_threshold (st_config st))"
  shows "canonical_aggregate H e st = Inr (if th_t (cfg_threshold (st_config st)) \<le> int (length is) then Some art else None)"
proof -
  have "emap (\<lambda>(idx, agg). ebind (aggregate_digest_of H e agg) (\<lambda>key. Inr (key, agg, idx))) (map (\<lambda>i. (i, art)) is) =
      Inr (map (\<lambda>i. (d, art, i)) is)"
    unfolding emap_map by (rule emap_Inr_all) (simp add: assms(1))
  then have "canonical_aggregate H e st = resolve_unique (if is = [] then [] else [(art, set is)]) (th_quorum (cfg_threshold (st_config st)))"
    by (simp add: canonical_aggregate_def aggregate_groups_def assms(2) group_all_same)
  then show ?thesis using assms(3,4) by (auto simp: resolve_unique_def th_quorum_def distinct_card)
qed


section \<open>An honest committee aggregates\<close>

text \<open>A keyper that holds its share of \<open>f\<close> and signs with its registered key.\<close>

definition honest_keyper :: "('a, 'b) suite \<Rightarrow> host \<Rightarrow> ElectionConfig \<Rightarrow> bytes list \<Rightarrow> int list \<Rightarrow> 'b KeyperService \<Rightarrow> bool" where
  "honest_keyper S H config pks f k \<longleftrightarrow>
     1 \<le> kp_index k \<and> kp_index k \<le> int (length pks) \<and> kp_index k \<le> int (length (cfg_keypers config)) \<and>
     signs H (kp_signer k) \<and> ki_signing_key (cfg_keypers config ! nat (kp_index k - 1)) = identity (kp_signer k) \<and>
     (\<exists>msk. holds_share S (kp_dkg k) msk \<and> msk mod CURVE_ORDER = peval f (kp_index k) mod CURVE_ORDER \<and>
        pks ! nat (kp_index k - 1) = gcompress (g2 S) (mul (g2 S) (ggen (g2 S)) msk))"

text \<open>An election after its voting window, with its key and the aggregate every keyper derives.\<close>

definition tally_ready :: "('a, 'b) suite \<Rightarrow> host \<Rightarrow> bytes \<Rightarrow> int \<Rightarrow> FinalizedKey \<Rightarrow> AggregateArtifact \<Rightarrow> Stored \<Rightarrow> bool" where
  "tally_ready S H e now fk art st \<longleftrightarrow>
     \<not> st_cancelled st \<and> st_result st = None \<and> finalized_key_of st = Inr (Some fk) \<and> cfg_voting_end (st_config st) \<le> now \<and>
     cfg_election_id (st_config st) = e \<and> config_ok (st_config st) \<and> \<not> isl (aggregate_digest_of H e art) \<and>
     (\<exists>adm. admit S (st_ballots st) (st_config st) (fk_pk_election fk) = Inr adm \<and> build_aggregate_artifact S (st_config st) adm = Inr art)"

lemma tally_ready_update [simp]:
  "tally_ready S H e now fk art (st\<lparr>st_aggregate_by_keyper := A\<rparr>) = tally_ready S H e now fk art st"
  "tally_ready S H e now fk art (st\<lparr>st_shares_by_keyper := B\<rparr>) = tally_ready S H e now fk art st"
  by (simp_all add: tally_ready_def finalized_key_of_def)

lemma ready_state:
  assumes "im_get m e = Inr st" "tally_ready S H e now fk art st"
  shows "\<exists>rec. tally_state (memory_port H) e now m = Inr (rec, TALLYING) \<and> check_can_aggregate (memory_port H) now e m = Inr (rec, fk) \<and>
    er_config rec = st_config st \<and> er_finalized_key rec = Some fk"
proof -
  have d: "cfg_voting_start (st_config st) < cfg_voting_end (st_config st)"
    using assms(2) config_ok_facts(7) by (auto simp: tally_ready_def)
  show ?thesis
    using assms d
    by (auto simp: tally_state_def check_can_aggregate_def memory_port_def im_get_election_def im_get_finalized_key_def im_get_result_def
        tally_ready_def derive_state_def Let_def)
qed

lemma honest_index:
  assumes "config_ok c" "honest_keyper S H c pks f k" "recover_digest H d sig = Some (identity (kp_signer k))"
  shows "keyper_index_by_recovery H c d sig = Inr (kp_index k)"
proof -
  have k: "1 \<le> kp_index k" "nat (kp_index k - 1) < length (cfg_keypers c)"
    "ki_signing_key (cfg_keypers c ! nat (kp_index k - 1)) = identity (kp_signer k)"
    using assms(2) by (auto simp: honest_keyper_def)
  from keyper_index_nth [OF config_ok_facts(9) [OF assms(1)] k(2), of 1] k show ?thesis
    by (simp add: keyper_index_by_recovery_def assms(3))
qed

lemma produce_honest:
  assumes inv: "mem_inv H m" and g: "im_get m e = Inr st" and r: "tally_ready S H e now fk art st" and h: "honest_keyper S H (st_config st) pks f k"
  shows "\<exists>sig d. produce_aggregate S H (memory_port H) now e k m = Inr (art, sig) \<and> aggregate_digest_of H e art = Inr d \<and>
    keyper_index_by_recovery H (st_config st) d sig = Inr (kp_index k)"
proof -
  obtain rec where rec: "check_can_aggregate (memory_port H) now e m = Inr (rec, fk)" "er_config rec = st_config st"
    using ready_state [OF g r] by blast
  have "memory_holds H m e (st_ballots st)" using inv g by (auto simp: memory_holds_def)
  then have bs: "read_all_ballots (memory_port H) e m = Inr (st_ballots st)" by (rule memory_ballots.read_all_complete)
  obtain d where d: "aggregate_digest_of H e art = Inr d" using r by (auto simp: tally_ready_def not_isl_iff)
  obtain sig where sig: "sign_digest H (private_key (kp_signer k)) d = Inr sig" "recover_digest H d sig = Some (identity (kp_signer k))"
    using sign_digest_recovers [of H "kp_signer k" d] h by (auto simp: honest_keyper_def)
  have "config_ok (st_config st)" using r by (simp add: tally_ready_def)
  note idx = honest_index [OF this h sig(2)]
  have "produce_aggregate S H (memory_port H) now e k m = Inr (art, sig)"
    using r d sig(1) by (auto simp: produce_aggregate_def rec bs sign_aggregate_def tally_ready_def)
  with d idx show ?thesis by blast
qed

lemma aggregate_step:
  assumes inv: "mem_inv H m" and g: "im_get m e = Inr st" and r: "tally_ready S H e now fk art st"
    and h: "honest_keyper S H (st_config st) pks f k"
    and a: "st_aggregate_by_keyper st = map (\<lambda>i. (i, art)) is" "distinct is" "kp_index k \<notin> set is"
  shows "\<exists>m'. (case aggregate_and_submit S H (memory_port H) now now e k m of Inl err \<Rightarrow> m | Inr m' \<Rightarrow> m') = m' \<and> mem_inv H m' \<and>
    im_get m' e = Inr (st\<lparr>st_aggregate_by_keyper :=
      map (\<lambda>i. (i, art)) (if th_t (cfg_threshold (st_config st)) \<le> int (length is) then is else is @ [kp_index k])\<rparr>)"
proof -
  obtain sig d where p: "produce_aggregate S H (memory_port H) now e k m = Inr (art, sig)" "aggregate_digest_of H e art = Inr d"
    "keyper_index_by_recovery H (st_config st) d sig = Inr (kp_index k)"
    using produce_honest [OF inv g r h] by blast
  have c: "config_ok (st_config st)" "cfg_election_id (st_config st) = e" "\<not> now < cfg_voting_end (st_config st)"
    using r by (auto simp: tally_ready_def)
  have new: "kp_index k \<notin> fst ` set (st_aggregate_by_keyper st)" using a by auto
  then have fresh: "map_of (st_aggregate_by_keyper st) (kp_index k) = None" by (simp add: map_of_eq_None_iff)
  let ?t = "th_t (cfg_threshold (st_config st))"
  have fin: "aggregate_finalized H st m = Inr (?t \<le> int (length is))"
    using canonical_same [OF p(2) a(1,2)] config_ok_facts(10) [OF c(1)] g c(2)
    by (simp add: aggregate_finalized_def im_get_aggregate_canonical)
  have sub: "im_submit_aggregate H now e art sig m = (if ?t \<le> int (length is) then Inl ImmutabilityError
      else Inr (im_put e (st\<lparr>st_aggregate_by_keyper := st_aggregate_by_keyper st @ [(kp_index k, art)]\<rparr>) m))"
    using g c p fresh by (simp add: im_submit_aggregate_def fin update_fresh [OF new])
  have act: "aggregate_and_submit S H (memory_port H) now now e k m = im_submit_aggregate H now e art sig m"
    by (simp add: aggregate_and_submit_def p(1)) (simp add: memory_port_def)
  show ?thesis
  proof (cases "?t \<le> int (length is)")
    case True
    then show ?thesis using inv g a(1) by (simp add: act sub)
  next
    case False
    with sub have op: "im_submit_aggregate H now e art sig m = Inr (im_put e (st\<lparr>st_aggregate_by_keyper := st_aggregate_by_keyper st @ [(kp_index k, art)]\<rparr>) m)"
      by simp
    have "mem_inv H (im_put e (st\<lparr>st_aggregate_by_keyper := st_aggregate_by_keyper st @ [(kp_index k, art)]\<rparr>) m)"
      using mem_inv_touches [OF inv aggregate_touches [OF inv op]] .
    then show ?thesis using False by (simp add: act op a(1))
  qed
qed

lemma trigger_aggregate_honest:
  assumes "mem_inv H m" "im_get m e = Inr st" "tally_ready S H e now fk art st"
    and "\<forall>k \<in> set ks. honest_keyper S H (st_config st) pks f k" "distinct (is @ map kp_index ks)"
    and "st_aggregate_by_keyper st = map (\<lambda>i. (i, art)) is" "int (length is) \<le> th_t (cfg_threshold (st_config st))"
  shows "\<exists>m'. trigger_aggregate S H (memory_port H) now now ks e m = m' \<and> mem_inv H m' \<and>
    im_get m' e = Inr (st\<lparr>st_aggregate_by_keyper :=
      map (\<lambda>i. (i, art)) (is @ take (nat (th_t (cfg_threshold (st_config st))) - length is) (map kp_index ks))\<rparr>)"
  using assms
proof (induction ks arbitrary: m st "is")
  case Nil
  then show ?case by (simp add: trigger_aggregate_def for_each_swallowing_def)
next
  case (Cons k ks)
  let ?t = "th_t (cfg_threshold (st_config st))"
  let ?is = "if ?t \<le> int (length is) then is else is @ [kp_index k]"
  have h: "honest_keyper S H (st_config st) pks f k" and d: "distinct is" "kp_index k \<notin> set is" using Cons.prems by auto
  obtain m1 where m1: "(case aggregate_and_submit S H (memory_port H) now now e k m of Inl err \<Rightarrow> m | Inr m' \<Rightarrow> m') = m1" "mem_inv H m1"
    "im_get m1 e = Inr (st\<lparr>st_aggregate_by_keyper := map (\<lambda>i. (i, art)) ?is\<rparr>)"
    using aggregate_step [OF Cons.prems(1-3) h Cons.prems(6) d] by blast
  have "\<exists>m'. trigger_aggregate S H (memory_port H) now now ks e m1 = m' \<and> mem_inv H m' \<and>
    im_get m' e = Inr ((st\<lparr>st_aggregate_by_keyper := map (\<lambda>i. (i, art)) ?is\<rparr>)\<lparr>st_aggregate_by_keyper :=
      map (\<lambda>i. (i, art)) (?is @ take (nat (th_t (cfg_threshold (st_config (st\<lparr>st_aggregate_by_keyper := map (\<lambda>i. (i, art)) ?is\<rparr>)))) - length ?is) (map kp_index ks))\<rparr>)"
    by (rule Cons.IH [OF m1(2,3)]) (use Cons.prems in auto)
  moreover have "?is @ take (nat ?t - length ?is) (map kp_index ks) = is @ take (nat ?t - length is) (map kp_index (k # ks))"
  proof (cases "?t \<le> int (length is)")
    case False
    then have "nat ?t - length is = Suc (nat ?t - Suc (length is))" by simp
    with False show ?thesis by simp
  qed simp
  ultimately show ?case using m1(1) by (simp add: trigger_aggregate_def for_each_swallowing_def)
qed


section \<open>An honest committee decrypts\<close>

lemma u256_bytes: "length b \<le> 32 \<Longrightarrow> u256 (int_from_bytes b)"
proof -
  assume "length b \<le> 32"
  then have "(256::int) ^ length b \<le> 256 ^ 32" by (intro power_increasing) auto
  with int_from_bytes_bound [of b] show ?thesis by (simp add: u256_def)
qed

lemma decryption_entry_proof: "decryption_entry S st i e rnd j ct = Inr en \<Longrightarrow> length (se_proof en) = 64"
  by (cases "ks_public_key_share st"; cases "ks_combined_share st") (auto simp: decryption_entry_def encode_dleq_def)

lemma decryption_entries_proofs:
  assumes "decryption_entries S st i e rnd cts = Inr es"
  shows "list_all (\<lambda>(a, b). u256 a \<and> u256 b) (map proof_ints es)"
proof -
  have "length (se_proof en) = 64" if "en \<in> set es" for en
  proof -
    from that obtain j where j: "j < length es" "en = es ! j" by (auto simp: in_set_conv_nth)
    then have "(\<lambda>(j, ct). decryption_entry S st i e rnd j ct) (enumerate 0 cts ! j) = Inr en"
      using assms by (auto simp: decryption_entries_def emap_eq_Inr list_all2_conv_all_nth)
    then show ?thesis by (auto simp: case_prod_beta dest: decryption_entry_proof)
  qed
  then show ?thesis by (auto simp: list_all_iff proof_ints_def intro!: u256_bytes)
qed

lemma share_digest_total:
  assumes "abi_total H" "decryption_entries S st i e rnd cts = Inr es"
  shows "\<exists>d. decryption_share_digest H e (map se_sigma es) (map proof_ints es) = Inr d"
proof -
  have "\<not> isl (abi_bytes_array H (map se_sigma es))" "\<not> isl (abi_pair_array H (map proof_ints es))"
    using assms(1) decryption_entries_proofs [OF assms(2)] by (simp_all add: abi_total_def)
  then show ?thesis by (auto simp: decryption_share_digest_def not_isl_iff)
qed

text \<open>The envelope an honest keyper produces.\<close>

definition share_of :: "('a, 'b) suite \<Rightarrow> bytes \<Rightarrow> (int \<Rightarrow> nat \<Rightarrow> int) \<Rightarrow> AggregateArtifact \<Rightarrow> 'b KeyperService \<Rightarrow> DecryptionShareEnvelope" where
  "share_of S e rnd art k = \<lparr>ds_election_id = e, ds_keyper_index = kp_index k,
     ds_entries = projr (decryption_entries S (kp_dkg k) (kp_index k) e (rnd (kp_index k)) (agg_aggregates art))\<rparr>"

lemma decrypt_step:
  assumes S: "crypto_suite S" and inv: "mem_inv H m" and g: "im_get m e = Inr st" and r: "tally_ready S H e now fk art st"
    and h: "honest_keyper S H (st_config st) pks f k" and abi: "abi_total H" and can: "canonical_aggregate H e st = Inr (Some art)"
    and dec: "decodes S (agg_aggregates art) pts" and len: "length e = 32" "length (agg_aggregates art) < 65536" "length pks < 65536"
    and b: "st_shares_by_keyper st = map (\<lambda>k. (kp_index k, share_of S e rnd art k)) done" "kp_index k \<notin> kp_index ` set done"
  shows "\<exists>m'. decrypt_and_submit S H (memory_port H) now now (rnd (kp_index k)) e k m = Inr m' \<and> mem_inv H m' \<and>
    im_get m' e = Inr (st\<lparr>st_shares_by_keyper := map (\<lambda>k. (kp_index k, share_of S e rnd art k)) (done @ [k])\<rparr>)"
proof -
  obtain rec where rec: "check_can_aggregate (memory_port H) now e m = Inr (rec, fk)" using ready_state [OF g r] by blast
  have k: "1 \<le> kp_index k" "kp_index k < 65536" using h len(3) by (auto simp: honest_keyper_def)
  obtain msk where "holds_share S (kp_dkg k) msk" using h by (auto simp: honest_keyper_def)
  then obtain es where es: "decryption_entries S (kp_dkg k) (kp_index k) e (rnd (kp_index k)) (agg_aggregates art) = Inr es"
    using crypto_suite.decryption_entries_total [OF S _ dec len(1) _ k(2) len(2)] k(1) by fastforce
  then have sh: "share_of S e rnd art k = \<lparr>ds_election_id = e, ds_keyper_index = kp_index k, ds_entries = es\<rparr>" by (simp add: share_of_def)
  obtain d where d: "decryption_share_digest H e (map se_sigma es) (map proof_ints es) = Inr d" using share_digest_total [OF abi es] by blast
  obtain sig where sig: "sign_digest H (private_key (kp_signer k)) d = Inr sig" "recover_digest H d sig = Some (identity (kp_signer k))"
    using sign_digest_recovers [of H "kp_signer k" d] h by (auto simp: honest_keyper_def)
  have c: "config_ok (st_config st)" "cfg_election_id (st_config st) = e" "\<not> now < cfg_voting_end (st_config st)"
    using r by (auto simp: tally_ready_def)
  note idx = honest_index [OF c(1) h sig(2)]
  have agg: "im_get_aggregate H e m = Inr (Some art)" using can g by (simp add: im_get_aggregate_canonical)
  have none: "filter (\<lambda>s. ds_keyper_index s = kp_index k) (map snd (sort_key fst (st_shares_by_keyper st))) = []"
    using b by (auto simp: filter_empty_conv share_of_def image_iff)
  have prod: "produce_decryption_share S H (memory_port H) now (rnd (kp_index k)) e k m = Inr (Some (share_of S e rnd art k, sig))"
    using es d sig(1) none
    unfolding produce_decryption_share_def rec ebind_Inr
    by (simp add: memory_port_def agg im_list_decryption_shares_def g Let_def sh sign_decryption_share_def)
  have new: "kp_index k \<notin> fst ` set (st_shares_by_keyper st)" using b by auto
  let ?m = "im_put e (st\<lparr>st_shares_by_keyper := st_shares_by_keyper st @ [(kp_index k, share_of S e rnd art k)]\<rparr>) m"
  have op: "im_submit_decryption_share H now e (share_of S e rnd art k) sig m = Inr ?m"
    using new c d idx
    by (simp add: im_submit_decryption_share_def g aggregate_finalized_def agg sh map_of_eq_None_iff [THEN iffD2] update_fresh)
  have "mem_inv H ?m" using mem_inv_touches [OF inv share_touches [OF op]] .
  with op prod show ?thesis
    by (simp add: decrypt_and_submit_def b(1)) (simp add: memory_port_def b(1))
qed

lemma trigger_keypers_honest:
  assumes "crypto_suite S" "abi_total H" "decodes S (agg_aggregates art) pts" "length e = 32" "length (agg_aggregates art) < 65536" "length pks < 65536"
    and "mem_inv H m" "im_get m e = Inr st" "tally_ready S H e now fk art st" "canonical_aggregate H e st = Inr (Some art)"
    and "\<forall>k \<in> set ks. honest_keyper S H (st_config st) pks f k" "distinct (map kp_index (done @ ks))"
    and "st_shares_by_keyper st = map (\<lambda>k. (kp_index k, share_of S e rnd art k)) done"
  shows "\<exists>m'. trigger_keypers S H (memory_port H) now now rnd ks e m = m' \<and> mem_inv H m' \<and>
    im_get m' e = Inr (st\<lparr>st_shares_by_keyper := map (\<lambda>k. (kp_index k, share_of S e rnd art k)) (done @ ks)\<rparr>)"
  using assms(7-)
proof (induction ks arbitrary: m st "done")
  case Nil
  then show ?case by (simp add: trigger_keypers_def for_each_swallowing_def)
next
  case (Cons k ks)
  let ?B = "\<lambda>ks. map (\<lambda>k. (kp_index k, share_of S e rnd art k)) ks"
  have h: "honest_keyper S H (st_config st) pks f k" and n: "kp_index k \<notin> kp_index ` set done" using Cons.prems by auto
  obtain m1 where m1: "decrypt_and_submit S H (memory_port H) now now (rnd (kp_index k)) e k m = Inr m1" "mem_inv H m1"
    "im_get m1 e = Inr (st\<lparr>st_shares_by_keyper := ?B (done @ [k])\<rparr>)"
    using decrypt_step [OF assms(1) Cons.prems(1-3) h assms(2) Cons.prems(4) assms(3-6) Cons.prems(7) n] by blast
  have "\<exists>m'. trigger_keypers S H (memory_port H) now now rnd ks e m1 = m' \<and> mem_inv H m' \<and>
      im_get m' e = Inr ((st\<lparr>st_shares_by_keyper := ?B (done @ [k])\<rparr>)\<lparr>st_shares_by_keyper := ?B ((done @ [k]) @ ks)\<rparr>)"
    by (rule Cons.IH [OF m1(2,3)]) (use Cons.prems in \<open>auto simp: canonical_aggregate_def\<close>)
  then show ?case using m1(1) by (simp add: trigger_keypers_def for_each_swallowing_def)
qed


section \<open>The aggregate can be signed\<close>

lemma admitted_seqs:
  assumes "admit S bs c pkb = Inr adm" "distinct (map sb_sequence_number bs)"
  shows "set (map ab_sequence_number (ar_admitted adm)) \<union> set (map ex_sequence_number (ar_exclusions adm)) \<subseteq> set (map sb_sequence_number bs)"
proof -
  obtain mpk where mpk: "g2_from_compressed S pkb = Inr mpk" and total: "\<forall>sb \<in> set bs. \<not> isl (validate_ballot S sb c mpk)"
    using admit_Inr_total [OF assms(1)] by blast
  from admit_spec [OF assms(2) mpk total] assms(1)
  have adm: "ar_admitted adm = map admitted_of (winning_ballots (cfg_duplicate_policy c) (valid_ballots S c mpk bs))"
    "ar_exclusions adm = sort_key ex_sequence_number (List.map_filter (excluded_as S c mpk) bs @
      map duplicate_exclusion (filter (\<lambda>sb. \<not> is_winner (cfg_duplicate_policy c) (valid_ballots S c mpk bs) sb) (valid_ballots S c mpk bs)))"
    by auto
  have seq: "ab_sequence_number (admitted_of sb) = sb_sequence_number sb" for sb by (simp add: admitted_of_def)
  note part = admit_partition_seqs [OF assms(2) total, of "cfg_duplicate_policy c", THEN conjunct2]
  show ?thesis unfolding adm part [symmetric] by (auto simp: seq)
qed

lemma aggregate_encodable:
  assumes abi: "abi_total H" and adm: "admit S bs c pkb = Inr adm" and seq: "map sb_sequence_number bs = map int [0..<length bs]"
    and n: "int (length bs) < 2 ^ 256" and art: "build_aggregate_artifact S c adm = Inr art"
    and w: "u256 (ar_total_admitted_weight adm)" "u256 (agg_total_scaled_weight art)"
  shows "\<not> isl (aggregate_digest_of H e art)"
proof -
  have d: "distinct (map sb_sequence_number bs)" unfolding seq by (simp add: distinct_map)
  have s: "u256 i" if "i \<in> set (map sb_sequence_number bs)" for i using that n unfolding seq by (auto simp: u256_def)
  have f: "agg_admitted art = map ab_sequence_number (ar_admitted adm)" "agg_exclusions art = ar_exclusions adm"
    "agg_total_admitted_weight art = ar_total_admitted_weight adm"
    using art by (auto simp: build_aggregate_artifact_def Let_def)
  have law: "\<not> isl (abi_tally H cs as exs w sw)" if "list_all u256 (w # sw # as @ map fst exs)" "list_all (\<lambda>(s, c). 0 \<le> c \<and> c < 256) exs"
    for cs as exs w sw
    using abi that by (simp add: abi_total_def)
  have "list_all u256 (map ab_sequence_number (ar_admitted adm))" "list_all u256 (map ex_sequence_number (ar_exclusions adm))"
    using admitted_seqs [OF adm d] s unfolding list_all_iff by blast+
  moreover have "0 \<le> EXCLUSION_CODE x \<and> EXCLUSION_CODE x < 256" for x by (cases x) (simp_all add: EXCLUSION_CODE_def)
  ultimately have "\<not> isl (abi_tally H (map ct_pair (agg_aggregates art)) (agg_admitted art)
      (map (\<lambda>(seq, reason). (seq, EXCLUSION_CODE reason)) (map (\<lambda>x. (ex_sequence_number x, ex_reason x)) (agg_exclusions art)))
      (agg_total_admitted_weight art) (agg_total_scaled_weight art))"
    by (intro law) (use w in \<open>auto simp: f list_all_iff\<close>)
  then show ?thesis
    by (auto simp: aggregate_digest_of_def aggregate_digest_def assert_aggregate_shape_def not_isl_iff)
qed

section \<open>The result is published\<close>

lemma finalize_honest:
  assumes inv: "mem_inv H m" and g: "im_get m e = Inr st" and r: "tally_ready S H e now fk art st" and can: "canonical_aggregate H e st = Inr (Some art)"
    and rec: "recover_result S (st_config st) art (map snd (sort_key fst (st_shares_by_keyper st))) (fk_committee_pks fk)
      (th_t (cfg_threshold (st_config st))) None = Inr (Some res)"
    and abi: "abi_total H" and pub: "signs H pub" "identity pub = cfg_result_publisher_key (st_config st)" and len: "length e = 32"
    and u: "list_all u256 (res_bsgs_bound res # res_totals res @ res_keyper_indices res)"
  shows "\<exists>m'. finalize S H (memory_port H) now e pub m = Inr (m', Some res) \<and> im_get m' e = Inr (st\<lparr>st_result := Some res\<rparr>) \<and> mem_inv H m'"
proof -
  obtain er where er: "tally_state (memory_port H) e now m = Inr (er, TALLYING)" "er_config er = st_config st" "er_finalized_key er = Some fk"
    using ready_state [OF g r] by blast
  have ports: "dl_get_aggregate (memory_port H) e m = Inr (Some art)"
    "dl_list_decryption_shares (memory_port H) e m = Inr (map snd (sort_key fst (st_shares_by_keyper st)))"
    using can g by (simp_all add: memory_port_def im_get_aggregate_canonical im_list_decryption_shares_def)
  have "\<not> isl (abi_result H (res_totals res) (res_keyper_indices res) (res_bsgs_bound res))" using abi u by (simp add: abi_total_def)
  then obtain enc where "abi_result H (res_totals res) (res_keyper_indices res) (res_bsgs_bound res) = Inr enc" by (auto simp: not_isl_iff)
  then obtain p where p: "result_digest H e res = Inr p" "length p = 32" using abi by (simp add: result_digest_def abi_total_def)
  obtain sig where sig: "Signer_sign H pub ''result'' e p = Inr sig" "verify_request H (identity pub) sig ''result'' e p"
    using Signer_sign_verifies [OF pub(1) abi len p(2), of "''result''"] by auto
  have none: "st_result st = None" using r by (simp add: tally_ready_def)
  have op: "im_publish_result H e res sig m = Inr (im_put e (st\<lparr>st_result := Some res\<rparr>) m)"
    using sig(2) pub(2) none g p(1) by (simp add: im_publish_result_def)
  have inv': "mem_inv H (im_put e (st\<lparr>st_result := Some res\<rparr>) m)" using mem_inv_touches [OF inv result_touches [OF op]] .
  have "dl_publish_result (memory_port H) e res sig m = Inr (im_put e (st\<lparr>st_result := Some res\<rparr>) m)"
    using op by (simp add: memory_port_def)
  then have "finalize S H (memory_port H) now e pub m = Inr (im_put e (st\<lparr>st_result := Some res\<rparr>) m, Some res)"
    unfolding finalize_def er(1) ebind_Inr case_prod_conv ports er(2,3) by (simp add: rec p(1) sig(1))
  with inv' show ?thesis by simp
qed

lemma share_of_honest:
  assumes "crypto_suite S" "honest_keyper S H c pks f k" "decodes S (agg_aggregates art) pts" "cfg_election_id c = e" "length e = 32"
    "length (agg_aggregates art) < 65536" "length pks < 65536"
  shows "honest_envelope S c pks f (agg_aggregates art) (share_of S e rnd art k)"
proof -
  have k: "1 \<le> kp_index k" "kp_index k < 65536" "kp_index k \<le> int (length pks)" using assms(2,7) by (auto simp: honest_keyper_def)
  obtain msk where msk: "holds_share S (kp_dkg k) msk" "msk mod CURVE_ORDER = peval f (kp_index k) mod CURVE_ORDER"
    "pks ! nat (kp_index k - 1) = gcompress (g2 S) (mul (g2 S) (ggen (g2 S)) msk)"
    using assms(2) by (auto simp: honest_keyper_def)
  obtain es where "decryption_entries S (kp_dkg k) (kp_index k) e (rnd (kp_index k)) (agg_aggregates art) = Inr es"
    using crypto_suite.decryption_entries_total [OF assms(1) msk(1) assms(3,5) _ k(2) assms(6)] k(1) by fastforce
  with msk k assms(4) show ?thesis unfolding honest_envelope_def share_of_def by fastforce
qed


lemma distinct_shares:
  assumes "distinct (map kp_index ks)"
  shows "distinct (map ds_keyper_index (map snd (sort_key fst (map (\<lambda>k. (kp_index k, share_of S e rnd art k)) ks))))"
proof -
  let ?L = "map (\<lambda>k. (kp_index k, share_of S e rnd art k)) ks"
  have eq: "map ds_keyper_index (map snd (sort_key fst ?L)) = map fst (sort_key fst ?L)"
    by (auto simp: share_of_def)
  have d: "distinct (map fst (sort_key fst xs))" if "distinct (map fst xs)" for xs :: "(int \<times> 'x) list"
    using that by (simp add: distinct_map)
  show ?thesis unfolding eq by (rule d) (use assms in \<open>simp add: comp_def\<close>)
qed

lemma run_tally_honest:
  assumes S: "crypto_suite S" and abi: "abi_total H" and m: "mem_reachable H m" "im_get m e = Inr st"
    and fresh: "\<not> st_cancelled st" "st_result st = None" "st_aggregate_by_keyper st = []" "st_shares_by_keyper st = []"
    and now: "cfg_voting_end (st_config st) \<le> now" and exact: "cfg_mode (st_config st) = EXACT"
    and key: "finalized_key_of st = Inr (Some fk)" "length (fk_committee_pks fk) < 65536"
    and adm: "admit S (st_ballots st) (st_config st) (fk_pk_election fk) = Inr adm"
    and enc: "\<And>ab. ab \<in> set (ar_admitted adm) \<Longrightarrow>
      encrypts S (peval f 0) ab (nat (cfg_num_candidates (st_config st))) (v ab) (r ab) \<and> 0 \<le> ab_weight ab \<and>
      (\<forall>j. 0 \<le> v ab j) \<and> (\<Sum>j \<leftarrow> [0..<nat (cfg_num_candidates (st_config st))]. v ab j) = cfg_budget (st_config st)"
    and bound: "cfg_budget (st_config st) * (\<Sum>ab \<leftarrow> ar_admitted adm. scaled_weight (ab_weight ab) (cfg_scale (st_config st))) < CURVE_ORDER"
      "u256 (ar_total_admitted_weight adm)" "int (length (st_ballots st)) < 2 ^ 256"
    and ks: "\<forall>k \<in> set ks. honest_keyper S H (st_config st) (fk_committee_pks fk) f k" "distinct (map kp_index ks)"
      "th_t (cfg_threshold (st_config st)) \<le> int (length ks)" "length f \<le> nat (th_t (cfg_threshold (st_config st)))"
    and pub: "signs H pub" "identity pub = cfg_result_publisher_key (st_config st)"
  shows "\<exists>m' res art st'. run_tally S H (memory_port H) now now rnd e pub ks m = Inr (m', Some res) \<and> im_get m' e = Inr st' \<and> mem_inv H m' \<and>
    res_totals res = map (\<lambda>j. \<Sum>ab \<leftarrow> ar_admitted adm. scaled_weight (ab_weight ab) (cfg_scale (st_config st)) * v ab j)
      [0..<nat (cfg_num_candidates (st_config st))] \<and>
    st_result st' = Some res \<and> st_config st' = st_config st \<and> st_ballots st' = st_ballots st \<and> st_dkg_by_keyper st' = st_dkg_by_keyper st \<and>
    st_cancelled st' = st_cancelled st \<and> finalized_key_of st' = finalized_key_of st \<and>
    build_aggregate_artifact S (st_config st) adm = Inr art \<and> canonical_aggregate H e st' = Inr (Some art) \<and>
    check_result S (st_config st) art (map snd (sort_key fst (st_shares_by_keyper st'))) (fk_committee_pks fk)
      (th_t (cfg_threshold (st_config st))) (res_totals res) = Inr (True, None) \<and>
    res_bsgs_bound res = bsgs_bound (st_config st) (agg_total_scaled_weight art)"
proof -
  let ?c = "st_config st" and ?t = "th_t (cfg_threshold (st_config st))" and ?pks = "fk_committee_pks fk"
  let ?sw = "\<lambda>ab. scaled_weight (ab_weight ab) (cfg_scale ?c)"
  have inv: "mem_inv H m" using reachable_inv [OF m(1)] .
  have si: "stored_inv H e st" using mem_inv_get [OF inv m(2)] .
  then have c: "config_ok ?c" "cfg_election_id ?c = e" and seq: "ballots_inv ?c (st_ballots st)" by (simp_all add: stored_inv_def)
  note cf = config_ok_facts [OF c(1)]
  have len: "length e = 32" using known_id_length [OF inv m(2)] .
  obtain art where art: "build_aggregate_artifact S ?c adm = Inr art"
    "decodes S (agg_aggregates art) (map (\<lambda>j. Enc S (mul (g2 S) (ggen (g2 S)) (peval f 0)) (\<Sum>ab \<leftarrow> ar_admitted adm. ?sw ab * v ab j)
      (\<Sum>ab \<leftarrow> ar_admitted adm. ?sw ab * r ab j)) [0..<nat (cfg_num_candidates ?c)])"
    "agg_total_scaled_weight art = (\<Sum>ab \<leftarrow> ar_admitted adm. ?sw ab)"
    using crypto_suite.build_aggregate_Enc [OF S, of adm "peval f 0" ?c v r] enc by (auto simp: decodes_emap)
  have la: "length (agg_aggregates art) < 65536" using art(2) cf(1,2) by (auto simp: decodes_def dest!: list_all2_lengthD)
  have "0 \<le> ?sw ab" if "ab \<in> set (ar_admitted adm)" for ab using scaled_weight_nonneg enc [OF that] cf(6) by blast
  then have sw0: "0 \<le> (\<Sum>ab \<leftarrow> ar_admitted adm. ?sw ab)" by (intro sum_list_nonneg) auto
  then have sw: "(\<Sum>ab \<leftarrow> ar_admitted adm. ?sw ab) \<le> cfg_budget ?c * (\<Sum>ab \<leftarrow> ar_admitted adm. ?sw ab)"
    using cf(3) mult_right_mono [of 1 "cfg_budget ?c"] by fastforce
  have q: "CURVE_ORDER < 2 ^ 256" by (simp add: CURVE_ORDER_def)
  have "map sb_sequence_number (st_ballots st) = map int [0..<length (st_ballots st)]"
    using seq by (auto simp: ballots_inv_def intro: nth_equalityI)
  then have "\<not> isl (aggregate_digest_of H e art)"
    by (rule aggregate_encodable [OF abi adm _ bound(3) art(1) bound(2)]) (use sw0 sw bound(1) q art(3) in \<open>simp add: u256_def\<close>)
  then have ready: "tally_ready S H e now fk art st" using fresh now key(1) c adm art(1) by (auto simp: tally_ready_def)
  obtain m1 where m1: "trigger_aggregate S H (memory_port H) now now ks e m = m1" "mem_inv H m1"
    "im_get m1 e = Inr (st\<lparr>st_aggregate_by_keyper := map (\<lambda>i. (i, art)) (take (nat ?t) (map kp_index ks))\<rparr>)"
    using trigger_aggregate_honest [OF inv m(2) ready ks(1), of "[]"] ks(2) fresh(3) cf(10) by auto
  let ?st1 = "st\<lparr>st_aggregate_by_keyper := map (\<lambda>i. (i, art)) (take (nat ?t) (map kp_index ks))\<rparr>"
  obtain d where d: "aggregate_digest_of H e art = Inr d" using ready by (auto simp: tally_ready_def not_isl_iff)
  have can: "canonical_aggregate H e ?st1 = Inr (Some art)"
    using canonical_same [OF d, of ?st1 "take (nat ?t) (map kp_index ks)"] ks(2,3) cf(10) by simp
  obtain m2 where m2: "trigger_keypers S H (memory_port H) now now rnd ks e m1 = m2" "mem_inv H m2"
    "im_get m2 e = Inr (?st1\<lparr>st_shares_by_keyper := map (\<lambda>k. (kp_index k, share_of S e rnd art k)) ks\<rparr>)"
    using trigger_keypers_honest [OF S abi art(2) len la key(2) m1(2,3) _ can, of now fk ks f "[]" rnd] ready ks fresh(4) by auto
  let ?st2 = "?st1\<lparr>st_shares_by_keyper := map (\<lambda>k. (kp_index k, share_of S e rnd art k)) ks\<rparr>"
  let ?shares = "map snd (sort_key fst (st_shares_by_keyper ?st2))"
  have can2: "canonical_aggregate H e ?st2 = Inr (Some art)" using can by (simp add: canonical_aggregate_def)
  have hs: "\<forall>share \<in> set ?shares. honest_envelope S ?c ?pks f (agg_aggregates art) share"
    using share_of_honest [OF S _ art(2) c(2) len la key(2)] ks(1) by auto
  have "distinct (map ds_keyper_index ?shares)" using distinct_shares [OF ks(2)] by simp
  moreover have "length ?shares = length ks" by simp
  ultimately obtain res where res: "recover_result S ?c art ?shares ?pks ?t None = Inr (Some res)"
    "res_totals res = map (\<lambda>j. \<Sum>ab \<leftarrow> ar_admitted adm. ?sw ab * v ab j) [0..<nat (cfg_num_candidates ?c)]"
    "check_result S ?c art ?shares ?pks ?t (res_totals res) = Inr (True, None)"
    "\<forall>x \<in> set (res_totals res). 0 \<le> x \<and> x \<le> res_bsgs_bound res" "0 \<le> res_bsgs_bound res" "res_bsgs_bound res < CURVE_ORDER"
    using tally_recovers [OF S c(1) len [folded c(2)] exact enc art(1) bound(1) hs key(2) _ ks(4)] ks(3) by (auto simp del: set_map)
  have "list_all u256 (res_bsgs_bound res # res_totals res @ res_keyper_indices res)"
    using res(4-6) recover_indices [OF res(1)] key(2) q by (fastforce simp: list_all_iff u256_def)
  then obtain m3 where "finalize S H (memory_port H) now e pub m2 = Inr (m3, Some res)" "im_get m3 e = Inr (?st2\<lparr>st_result := Some res\<rparr>)" "mem_inv H m3"
    using finalize_honest [OF m2(2,3) _ can2 _ abi pub(1) _ len, where S = S and now = now and fk = fk and res = res] res(1) ready pub(2) by auto
  moreover have "dl_get_aggregate (memory_port H) e m1 = Inr (Some art)"
    using can m1(3) by (simp add: memory_port_def im_get_aggregate_canonical)
  ultimately have run: "run_tally S H (memory_port H) now now rnd e pub ks m = Inr (m3, Some res)" "im_get m3 e = Inr (?st2\<lparr>st_result := Some res\<rparr>)" "mem_inv H m3"
    using m1(1) m2(1) by (simp_all add: run_tally_def Let_def)
  have "canonical_aggregate H e (?st2\<lparr>st_result := Some res\<rparr>) = Inr (Some art)" using can2 by (simp add: canonical_aggregate_def)
  moreover have "res_bsgs_bound res = bsgs_bound ?c (agg_total_scaled_weight art)" using recover_fields [OF res(1)] by simp
  ultimately show ?thesis using run res(2,3) art(1)
    by (intro exI [of _ m3] exI [of _ res] exI [of _ art] exI [of _ "?st2\<lparr>st_result := Some res\<rparr>"])
      (simp add: finalized_key_of_def)
qed

section \<open>Properties\<close>

text \<open>
  C2: an honest quorum finishes the tally. In any state of the data layer in which voting is over,
  the key is final and the tally has not begun, driving the keypers of a set at least as large as
  the threshold, each holding its share and its registered key, ends with a published result: it
  is stored, and its totals are the votes of the admitted ballots, weighted. The signing library
  recovers what it signed, the encoder accepts what fits its types, the admitted ballots encrypt
  vote vectors that spend the budget, and the bound stays below the group order.
\<close>

theorem run_tally_publishes:
  assumes S: "crypto_suite S" and abi: "abi_total H" and m: "mem_reachable H m" "im_get m e = Inr st"
    and fresh: "\<not> st_cancelled st" "st_result st = None" "st_aggregate_by_keyper st = []" "st_shares_by_keyper st = []"
    and now: "cfg_voting_end (st_config st) \<le> now" and exact: "cfg_mode (st_config st) = EXACT"
    and key: "finalized_key_of st = Inr (Some fk)" "length (fk_committee_pks fk) < 65536"
    and adm: "admit S (st_ballots st) (st_config st) (fk_pk_election fk) = Inr adm"
    and enc: "\<And>ab. ab \<in> set (ar_admitted adm) \<Longrightarrow>
      encrypts S (peval f 0) ab (nat (cfg_num_candidates (st_config st))) (v ab) (r ab) \<and> 0 \<le> ab_weight ab \<and>
      (\<forall>j. 0 \<le> v ab j) \<and> (\<Sum>j \<leftarrow> [0..<nat (cfg_num_candidates (st_config st))]. v ab j) = cfg_budget (st_config st)"
    and bound: "cfg_budget (st_config st) * (\<Sum>ab \<leftarrow> ar_admitted adm. scaled_weight (ab_weight ab) (cfg_scale (st_config st))) < CURVE_ORDER"
      "u256 (ar_total_admitted_weight adm)" "int (length (st_ballots st)) < 2 ^ 256"
    and ks: "\<forall>k \<in> set ks. honest_keyper S H (st_config st) (fk_committee_pks fk) f k" "distinct (map kp_index ks)"
      "th_t (cfg_threshold (st_config st)) \<le> int (length ks)" "length f \<le> nat (th_t (cfg_threshold (st_config st)))"
    and pub: "signs H pub" "identity pub = cfg_result_publisher_key (st_config st)"
  shows "\<exists>m' res. run_tally S H (memory_port H) now now rnd e pub ks m = Inr (m', Some res) \<and> im_get_result e m' = Inr (Some res) \<and>
    res_totals res = map (\<lambda>j. \<Sum>ab \<leftarrow> ar_admitted adm. scaled_weight (ab_weight ab) (cfg_scale (st_config st)) * v ab j)
      [0..<nat (cfg_num_candidates (st_config st))]"
  using run_tally_honest [OF S abi m fresh now exact key adm enc bound ks pub, of rnd] by (fastforce simp: im_get_result_def)

text \<open>The sample election after one ballot, tallied by two of its three keypers.\<close>

definition tally_host :: host where
  "tally_host = sample_host\<lparr>host.keccak := (\<lambda>m. be 32 (int_from_bytes m))\<rparr>"

definition sample_signer :: "int \<Rightarrow> Signer" where
  "sample_signer i = \<lparr>private_key = i, identity = be 32 i\<rparr>"

definition sample_service :: "int \<Rightarrow> int KeyperService" where
  "sample_service i = \<lparr>kp_index = i, kp_signer = sample_signer (10 + i), kp_dkg = sample_keyper i\<rparr>"

lemma tally_host_laws: "plain_host tally_host" "abi_total tally_host"
  by (simp_all add: plain_host_def abi_total_def tally_host_def sample_host_def)

lemma sample_signs: "0 \<le> i \<Longrightarrow> i < 100 \<Longrightarrow> signs tally_host (sample_signer i)"
  by (simp add: signs_def sample_signer_def tally_host_def sample_host_def)

lemma sample_service_honest: "i \<in> {1, 2, 3} \<Longrightarrow> honest_keyper zq_suite tally_host sample_election sample_committee [9, 4] (sample_service i)"
  by (auto simp: honest_keyper_def sample_service_def sample_signs sample_committee_def sample_election_def sample_identity_def
      holds_share_def sample_keyper_def) (auto simp: sample_signer_def zq_suite_def zq_group_def mul_def CURVE_ORDER_def)

lemma sample_admission:
  assumes "validate_ballot zq_suite sb sample_election 9 = Inr None"
  shows "admit zq_suite [sb] sample_election (be 96 9) =
    Inr \<lparr>ar_admitted = [admitted_of sb], ar_exclusions = [], ar_total_admitted_weight = ab_weight (admitted_of sb)\<rparr>"
proof -
  have v: "valid_ballots zq_suite sample_election 9 [sb] = [sb]" using assms by (simp add: valid_ballots_def)
  have w: "is_winner p [sb] sb" for p by (simp add: is_winner_def)
  obtain r where r: "admit zq_suite [sb] sample_election (be 96 9) = Inr r" "ar_admitted r = [admitted_of sb]" "ar_exclusions r = []"
    "ar_total_admitted_weight r = (\<Sum>a \<leftarrow> ar_admitted r. ab_weight a)"
    using admit_spec [of "[sb]" zq_suite "be 96 9" 9 sample_election] assms
    by (auto simp: zq_decompress v winning_ballots_def w excluded_as_def map_filter_simps)
  then show ?thesis by (cases r) simp
qed

lemma sample_tally_state:
  obtains m st adm a r where "mem_reachable tally_host m" "im_get m (be 32 1) = Inr st" "st_config st = sample_election"
    "\<not> st_cancelled st" "st_result st = None" "st_aggregate_by_keyper st = []" "st_shares_by_keyper st = []"
    "finalized_key_of st = Inr (Some \<lparr>fk_pk_election = be 96 9, fk_committee_pks = sample_committee\<rparr>)"
    "admit zq_suite (st_ballots st) (st_config st) (be 96 9) = Inr adm" "ar_admitted adm = [a]" "ab_weight a = 7" "ar_total_admitted_weight adm = 7"
    "encrypts zq_suite (peval [9, 4] 0) a 2 (\<lambda>j. if j = 0 then 1 else if j = 1 then 2 else 0) r" "length (st_ballots st) = 1"
proof -
  obtain b where b: "att_weight (be_attestation b) = 7" "\<And>seq ts. is_voting_open sample_election ts \<Longrightarrow>
       validate_ballot zq_suite \<lparr>sb_sequence_number = seq, sb_envelope = b, sb_submitted_at = Some ts\<rparr> sample_election 9 = Inr None"
    "\<exists>r. emap (decompress_ct zq_suite) (map (\<lambda>ct. (ct_c1 ct, ct_c2 ct)) (be_ciphertexts b)) =
       Inr (map (\<lambda>j. Enc zq_suite 9 ([1, 2] ! j) (r j)) [0..<2])"
    by (rule sample_election_ballot [of 1]) auto
  let ?sb = "\<lparr>sb_sequence_number = 0, sb_envelope = b, sb_submitted_at = Some 150\<rparr>"
  obtain m st where m: "dl_step (memory_port tally_host) (sample_memory [(1, sample_dkg 1), (2, sample_dkg 2)]) m" "im_get m (be 32 1) = Inr st"
    "st_config st = sample_election" "finalized_key_of st = Inr (Some \<lparr>fk_pk_election = be 96 9, fk_committee_pks = sample_committee\<rparr>)"
    "\<not> st_cancelled st" "st_result st = None" "st_aggregate_by_keyper st = []" "st_shares_by_keyper st = []" "st_ballots st = [?sb]"
    using sample_ballot_step [OF tally_host_laws(1), of b] by blast
  have r: "mem_reachable tally_host m"
    unfolding mem_reachable_def by (rule rtranclp.rtrancl_into_rtrancl [OF sample_steps [OF tally_host_laws(1)] m(1)])
  have v: "validate_ballot zq_suite ?sb sample_election 9 = Inr None" by (rule b(2)) (simp add: is_voting_open_def sample_election_def)
  obtain rr where rr: "emap (decompress_ct zq_suite) (map (\<lambda>ct. (ct_c1 ct, ct_c2 ct)) (be_ciphertexts b)) =
       Inr (map (\<lambda>j. Enc zq_suite 9 ([1, 2] ! j) (rr j)) [0..<2])" using b(3) by blast
  have e: "encrypts zq_suite (peval [9, 4] 0) (admitted_of ?sb) 2 (\<lambda>j. if j = 0 then 1 else if j = 1 then 2 else 0) rr"
    using rr by (simp add: encrypts_def admitted_of_def zq_points upt_rec) (simp add: zq_suite_def zq_group_def mul_def CURVE_ORDER_def)
  have w: "ab_weight (admitted_of ?sb) = 7" using b(1) by (simp add: admitted_of_def)
  let ?adm = "\<lparr>ar_admitted = [admitted_of ?sb], ar_exclusions = [], ar_total_admitted_weight = ab_weight (admitted_of ?sb)\<rparr>"
  have "admit zq_suite (st_ballots st) (st_config st) (be 96 9) = Inr ?adm" using sample_admission [OF v] m(3,9) by simp
  then show thesis
    by (rule that [OF r m(2,3,5-8,4) _ _ w _ e]) (simp_all add: w m(9))
qed

lemma sample_election_sel:
  "nat (cfg_num_candidates sample_election) = 2" "cfg_scale sample_election = 1" "cfg_budget sample_election = 3"
  "cfg_voting_end sample_election = 200" "cfg_mode sample_election = EXACT" "th_t (cfg_threshold sample_election) = 2"
  "cfg_result_publisher_key sample_election = be 32 4"
  by (simp_all add: sample_election_def)

lemma sample_quorum:
  "\<forall>k \<in> set [sample_service 3, sample_service 1]. honest_keyper zq_suite tally_host sample_election sample_committee [9, 4] k"
  "distinct (map kp_index [sample_service 3, sample_service 1])" "length sample_committee < 65536"
  "signs tally_host (sample_signer 4)" "identity (sample_signer 4) = be 32 4"
  using sample_service_honest [of 3] sample_service_honest [of 1] sample_signs [of 4]
  by (simp_all add: sample_service_def sample_signer_def sample_committee_def)

lemma run_tally_publishes_witness:
  "\<exists>m m' res. mem_reachable tally_host m \<and>
     run_tally zq_suite tally_host (memory_port tally_host) 200 200 (\<lambda>i j. 0) (be 32 1) (sample_signer 4) [sample_service 3, sample_service 1] m =
       Inr (m', Some res) \<and> im_get_result (be 32 1) m' = Inr (Some res) \<and> res_totals res = [7, 14]"
proof -
  obtain m st adm a rr where m: "mem_reachable tally_host m" "im_get m (be 32 1) = Inr st" "st_config st = sample_election"
    "\<not> st_cancelled st" "st_result st = None" "st_aggregate_by_keyper st = []" "st_shares_by_keyper st = []"
    "finalized_key_of st = Inr (Some \<lparr>fk_pk_election = be 96 9, fk_committee_pks = sample_committee\<rparr>)"
    "admit zq_suite (st_ballots st) (st_config st) (be 96 9) = Inr adm" "ar_admitted adm = [a]" "ab_weight a = 7" "ar_total_admitted_weight adm = 7"
    "encrypts zq_suite (peval [9, 4] 0) a 2 (\<lambda>j. if j = 0 then 1 else if j = 1 then 2 else 0) rr" "length (st_ballots st) = 1"
    by (rule sample_tally_state)
  have "\<exists>m' res. run_tally zq_suite tally_host (memory_port tally_host) 200 200 (\<lambda>i j. 0) (be 32 1) (sample_signer 4) [sample_service 3, sample_service 1] m =
       Inr (m', Some res) \<and> im_get_result (be 32 1) m' = Inr (Some res) \<and>
     res_totals res = map (\<lambda>j. \<Sum>ab \<leftarrow> ar_admitted adm. scaled_weight (ab_weight ab) (cfg_scale (st_config st)) *
       (if j = 0 then 1 else if j = 1 then 2 else 0)) [0..<nat (cfg_num_candidates (st_config st))]"
    by (rule run_tally_publishes [where r = "\<lambda>_. rr" and f = "[9, 4]", OF zq.crypto_suite_axioms tally_host_laws(2) m(1,2,4-7) _ _ m(8)])
      (use m sample_quorum in \<open>simp_all add: sample_election_sel scaled_weight_one u256_def CURVE_ORDER_def upt_rec\<close>)
  then show ?thesis using m(1,3,10,11) by (auto simp: sample_election_sel scaled_weight_one upt_rec)
qed

end
