(* ===== verification/Auditor.thy ===== *)
theory Auditor
  imports Tally
begin

text \<open>
  \<^verbatim>\<open>services/auditor/auditor.py\<close>: the public audit over any data layer, honest or not. A discrepancy
  text of the source is a constructor.
\<close>

datatype discrepancy =
    DkgUnknownSigner
  | DkgNoQuorum
  | DkgKeyDiffers
  | AggregateMissing
  | AggregateAdmitted
  | AggregateCiphertexts
  | AggregateExclusions
  | AggregateWeight
  | ResultMissing
  | ResultCheck "check_reason option"
  | ResultBound int int

record AuditReport =
  au_dkg_ok :: bool
  au_aggregate_ok :: bool
  au_shares_ok :: bool
  au_result_ok :: bool
  au_discrepancies :: "discrepancy list"

definition AuditReport_init :: AuditReport where
  "AuditReport_init = \<lparr>au_dkg_ok = False, au_aggregate_ok = False, au_shares_ok = False, au_result_ok = False, au_discrepancies = []\<rparr>"

definition report_ok :: "AuditReport \<Rightarrow> bool" where
  "report_ok r \<longleftrightarrow> au_dkg_ok r \<and> au_aggregate_ok r \<and> au_shares_ok r \<and> au_result_ok r \<and> au_discrepancies r = []"

definition note_discrepancy :: "discrepancy list \<Rightarrow> AuditReport \<Rightarrow> AuditReport" where
  "note_discrepancy ds r = r\<lparr>au_discrepancies := au_discrepancies r @ ds\<rparr>"

definition submitter_index :: "host \<Rightarrow> ElectionConfig \<Rightarrow> bytes \<Rightarrow> DKGResultSubmission \<Rightarrow> int option" where
  "submitter_index H cfg election_id submission =
     (case dkg_result_digest H election_id (dkg_pk_election submission) (dkg_committee_pks submission) of
        Inl e \<Rightarrow> None
      | Inr d \<Rightarrow>
          (case recover_digest H d (dkg_keyper_signature submission) of
             None \<Rightarrow> None
           | Some recovered \<Rightarrow> keyper_index recovered 1 (cfg_keypers cfg)))"

text \<open>Step 1: the recomputed votes, the discrepancies met on the way, and the first key with a quorum.\<close>

definition dkg_recount ::
  "host \<Rightarrow> ElectionConfig \<Rightarrow> bytes \<Rightarrow> DKGResultSubmission list \<Rightarrow> discrepancy list \<times> (bytes \<times> bytes list) option" where
  "dkg_recount H cfg election_id submissions =
     (let indexed = map (\<lambda>sub. (submitter_index H cfg election_id sub, sub)) submissions;
          unknown = map (\<lambda>_. DkgUnknownSigner) (filter (\<lambda>x. fst x = None) indexed);
          groups = group_all (List.map_filter (\<lambda>(i, sub). map_option (\<lambda>i. (dkg_key sub, dkg_key sub, i)) i) indexed) in
      (unknown, map_option fst (find (\<lambda>(k, v, keypers). th_quorum (cfg_threshold cfg) \<le> int (card keypers)) groups)))"

definition aggregate_differences :: "AggregateArtifact \<Rightarrow> AggregateArtifact \<Rightarrow> discrepancy list" where
  "aggregate_differences recomputed published =
     (if agg_admitted recomputed \<noteq> agg_admitted published then [AggregateAdmitted] else []) @
     (if agg_aggregates recomputed \<noteq> agg_aggregates published then [AggregateCiphertexts] else []) @
     (if agg_exclusions recomputed \<noteq> agg_exclusions published then [AggregateExclusions] else []) @
     (if agg_total_admitted_weight recomputed \<noteq> agg_total_admitted_weight published then [AggregateWeight] else [])"

definition audit :: "('a, 'b) suite \<Rightarrow> host \<Rightarrow> 's ElectionDataLayer \<Rightarrow> bytes \<Rightarrow> 's \<Rightarrow> AuditReport result" where
  "audit S H P election_id s =
     ebind (dl_get_election P election_id s) (\<lambda>rec.
     let cfg = er_config rec in
     ebind (dl_get_dkg_submissions P election_id s) (\<lambda>submissions.
     ebind (dl_get_finalized_key P election_id s) (\<lambda>published_key.
     let (unknown, finalized) = dkg_recount H cfg election_id submissions;
         r = note_discrepancy unknown AuditReport_init;
         r = (case finalized of
                None \<Rightarrow> note_discrepancy [DkgNoQuorum] r
              | Some k \<Rightarrow>
                  if map_option (\<lambda>fk. (fk_pk_election fk, fk_committee_pks fk)) published_key \<noteq> Some k
                  then note_discrepancy [DkgKeyDiffers] r else r\<lparr>au_dkg_ok := True\<rparr>) in
     case published_key of
       None \<Rightarrow> Inr r
     | Some fk \<Rightarrow>
         ebind (read_all_ballots P election_id s) (\<lambda>stored.
         ebind (admit S stored cfg (fk_pk_election fk)) (\<lambda>admission.
         ebind (build_aggregate_artifact S cfg admission) (\<lambda>recomputed_agg.
         ebind (dl_get_aggregate P election_id s) (\<lambda>published.
         case published of
           None \<Rightarrow> Inr (note_discrepancy [AggregateMissing] r)
         | Some published_agg \<Rightarrow>
             let r = (if recomputed_agg = published_agg then r\<lparr>au_aggregate_ok := True\<rparr>
                      else note_discrepancy (aggregate_differences recomputed_agg published_agg) r) in
             ebind (dl_list_decryption_shares P election_id s) (\<lambda>shares.
             ebind (dl_get_result P election_id s) (\<lambda>published_result.
             case published_result of
               None \<Rightarrow> Inr (note_discrepancy [ResultMissing] r)
             | Some res \<Rightarrow>
                 ebind (check_result S cfg published_agg shares (fk_committee_pks fk) (th_t (cfg_threshold cfg)) (res_totals res)) (\<lambda>(ok, reason).
                 let r = r\<lparr>au_shares_ok := (ok \<or> (case reason of Some (SharesMissing q) \<Rightarrow> False | _ \<Rightarrow> True))\<rparr> in
                 if \<not> ok then Inr (note_discrepancy [ResultCheck reason] r)
                 else
                   let expected_bound = bsgs_bound cfg (agg_total_admitted_weight published_agg) in
                   if res_bsgs_bound res \<noteq> expected_bound
                   then Inr (note_discrepancy [ResultBound (res_bsgs_bound res) expected_bound] r)
                   else Inr (r\<lparr>au_result_ok := True\<rparr>)))))))))))"


section \<open>Properties\<close>

lemma note_discrepancy_sel [simp]:
  "au_dkg_ok (note_discrepancy ds r) = au_dkg_ok r" "au_aggregate_ok (note_discrepancy ds r) = au_aggregate_ok r"
  "au_shares_ok (note_discrepancy ds r) = au_shares_ok r" "au_result_ok (note_discrepancy ds r) = au_result_ok r"
  "au_discrepancies (note_discrepancy ds r) = au_discrepancies r @ ds"
  by (simp_all add: note_discrepancy_def)

lemma AuditReport_init_sel [simp]:
  "\<not> au_dkg_ok AuditReport_init" "\<not> au_aggregate_ok AuditReport_init" "\<not> au_shares_ok AuditReport_init"
  "\<not> au_result_ok AuditReport_init" "au_discrepancies AuditReport_init = []"
  by (simp_all add: AuditReport_init_def)

lemma groups_of_voters: "groups_of subs gs \<Longrightarrow> (k, v, s) \<in> set gs \<Longrightarrow> s = {i. \<exists>w. (k, w, i) \<in> set subs}"
  unfolding groups_of_def by blast

lemma in_map_filter: "y \<in> set (List.map_filter f xs) \<longleftrightarrow> (\<exists>x \<in> set xs. f x = Some y)"
  by (induction xs) (auto simp: map_filter_simps split: option.splits)

lemma dkg_recount_quorum:
  assumes "dkg_recount H cfg e subs = (unknown, Some k)"
  shows "th_quorum (cfg_threshold cfg) \<le> int (card {i. \<exists>sub \<in> set subs. submitter_index H cfg e sub = Some i \<and> dkg_key sub = k})"
proof -
  let ?votes = "List.map_filter (\<lambda>(i, sub). map_option (\<lambda>i. (dkg_key sub, dkg_key sub, i)) i) (map (\<lambda>sub. (submitter_index H cfg e sub, sub)) subs)"
  obtain v kps where f: "find (\<lambda>(k, v, keypers). th_quorum (cfg_threshold cfg) \<le> int (card keypers)) (group_all ?votes) = Some (k, v, kps)"
    using assms by (auto simp: dkg_recount_def Let_def)
  then have g: "(k, v, kps) \<in> set (group_all ?votes)" and q: "th_quorum (cfg_threshold cfg) \<le> int (card kps)"
    by (auto simp: find_Some_iff dest: nth_mem)
  have "kps = {i. \<exists>w. (k, w, i) \<in> set ?votes}" by (rule groups_of_voters [OF groups_of_all g])
  also have "\<dots> = {i. \<exists>sub \<in> set subs. submitter_index H cfg e sub = Some i \<and> dkg_key sub = k}"
    by (auto simp: in_map_filter) (metis surj_pair)
  finally show ?thesis using q by simp
qed

lemma check_result_True: "check_result S c a sh pks q t = Inr (True, why) \<Longrightarrow> why = None"
  by (auto simp: check_result_def Let_def split: if_splits option.splits)

lemma audit_stages:
  assumes "audit S H P e s = Inr rep" and ok: "report_ok rep"
  shows "\<exists>rec fk subs bs adm agg shares res. dl_get_election P e s = Inr rec \<and> dl_get_finalized_key P e s = Inr (Some fk) \<and>
    dl_get_dkg_submissions P e s = Inr subs \<and> dkg_recount H (er_config rec) e subs = ([], Some (fk_pk_election fk, fk_committee_pks fk)) \<and>
    read_all_ballots P e s = Inr bs \<and> admit S bs (er_config rec) (fk_pk_election fk) = Inr adm \<and>
    build_aggregate_artifact S (er_config rec) adm = Inr agg \<and> dl_get_aggregate P e s = Inr (Some agg) \<and>
    dl_list_decryption_shares P e s = Inr shares \<and> dl_get_result P e s = Inr (Some res) \<and>
    check_result S (er_config rec) agg shares (fk_committee_pks fk) (th_t (cfg_threshold (er_config rec))) (res_totals res) = Inr (True, None) \<and>
    res_bsgs_bound res = bsgs_bound (er_config rec) (agg_total_admitted_weight agg)"
proof -
  obtain rec subs key where a: "dl_get_election P e s = Inr rec" "dl_get_dkg_submissions P e s = Inr subs" "dl_get_finalized_key P e s = Inr key"
    using assms(1) by (auto simp: audit_def Let_def)
  obtain unknown fin where fin: "dkg_recount H (er_config rec) e subs = (unknown, fin)" by fastforce
  note b = assms(1) [unfolded audit_def Let_def a ebind_Inr fin case_prod_conv]
  define R where "R = (case fin of
      None \<Rightarrow> note_discrepancy [DkgNoQuorum] (note_discrepancy unknown AuditReport_init)
    | Some k \<Rightarrow> if map_option (\<lambda>fk. (fk_pk_election fk, fk_committee_pks fk)) key \<noteq> Some k
        then note_discrepancy [DkgKeyDiffers] (note_discrepancy unknown AuditReport_init)
        else (note_discrepancy unknown AuditReport_init)\<lparr>au_dkg_ok := True\<rparr>)"
  have R: "\<not> au_aggregate_ok R" "\<not> au_result_ok R" by (auto simp: R_def split: option.splits)
  note b = b [folded R_def]
  obtain fk where fk: "key = Some fk" using b ok R by (cases key) (auto simp: report_ok_def)
  obtain bs adm agg pub where c: "read_all_ballots P e s = Inr bs" "admit S bs (er_config rec) (fk_pk_election fk) = Inr adm"
    "build_aggregate_artifact S (er_config rec) adm = Inr agg" "dl_get_aggregate P e s = Inr pub"
    using b by (auto simp: fk)
  note d = b [unfolded fk option.case c ebind_Inr]
  obtain p where p: "pub = Some p" using d ok R by (cases pub) (auto simp: report_ok_def)
  define R2 where "R2 = (if agg = p then R\<lparr>au_aggregate_ok := True\<rparr> else note_discrepancy (aggregate_differences agg p) R)"
  have R2: "\<not> au_result_ok R2" "au_aggregate_ok R2 \<longrightarrow> agg = p" "au_dkg_ok R2 = au_dkg_ok R" "au_discrepancies R2 = [] \<longrightarrow> au_discrepancies R = []"
    using R by (auto simp: R2_def)
  obtain shares pres where q: "dl_list_decryption_shares P e s = Inr shares" "dl_get_result P e s = Inr pres"
    using d by (auto simp: p)
  note f = d [unfolded p option.case q ebind_Inr R2_def [symmetric]]
  obtain res where res: "pres = Some res" using f ok R2(1) by (cases pres) (auto simp: report_ok_def)
  obtain okay why where w: "check_result S (er_config rec) p shares (fk_committee_pks fk) (th_t (cfg_threshold (er_config rec))) (res_totals res) = Inr (okay, why)"
    using f by (auto simp: res)
  note g = f [unfolded res option.case w ebind_Inr case_prod_conv]
  have fin_ok: "okay" "res_bsgs_bound res = bsgs_bound (er_config rec) (agg_total_admitted_weight p)"
    "au_aggregate_ok R2" "au_dkg_ok R2" "au_discrepancies R2 = []"
    using g ok by (auto simp: report_ok_def split: if_splits)
  then have "agg = p" "au_dkg_ok R" "au_discrepancies R = []" using R2 by auto
  then have "unknown = [] \<and> fin = Some (fk_pk_election fk, fk_committee_pks fk)"
    unfolding R_def by (auto simp: fk split: option.splits if_splits)
  with a c q p res w fin fk fin_ok(1,2) check_result_True [of S _ p] \<open>agg = p\<close> show ?thesis by fastforce
qed


section \<open>Stored key submissions are signed\<close>

definition dkg_signed :: "host \<Rightarrow> bytes \<Rightarrow> Stored \<Rightarrow> bool" where
  "dkg_signed H e st \<longleftrightarrow> (\<forall>(i, sub) \<in> set (st_dkg_by_keyper st). submitter_index H (st_config st) e sub = Some i)"

definition mem_signed :: "host \<Rightarrow> InMemory \<Rightarrow> bool" where
  "mem_signed H m \<longleftrightarrow> (\<forall>e st. im_get m e = Inr st \<longrightarrow> dkg_signed H e st)"

lemma mem_signed_put:
  "mem_signed H m \<Longrightarrow> im_get m e = Inr st \<Longrightarrow> st_config st' = st_config st \<Longrightarrow> st_dkg_by_keyper st' = st_dkg_by_keyper st \<Longrightarrow>
     im_elections m' = im_elections m \<Longrightarrow> mem_signed H (im_put e st' m')"
  by (auto simp: mem_signed_def dkg_signed_def im_get_def im_put_def update_conv split: if_splits option.splits)

lemma mem_signed_new:
  "mem_signed H m \<Longrightarrow> st_dkg_by_keyper st' = [] \<Longrightarrow> im_elections m' = im_elections m \<Longrightarrow> mem_signed H (im_put e st' m')"
  unfolding mem_signed_def im_get_put by (auto simp: dkg_signed_def im_get_def)

lemma dkg_submission_signed:
  assumes s: "mem_signed H m" and op: "im_submit_dkg_result H e pk com sig m = Inr m'"
  shows "mem_signed H m'"
proof -
  let ?sub = "\<lparr>dkg_election_id = e, dkg_pk_election = pk, dkg_committee_pks = com, dkg_keyper_signature = sig\<rparr>"
  obtain st d i where g: "im_get m e = Inr st" and d: "dkg_result_digest H e pk com = Inr d"
    and i: "keyper_index_by_recovery H (st_config st) d sig = Inr i"
    using op by (auto simp: im_submit_dkg_result_def)
  have m': "m' = m \<or> map_of (st_dkg_by_keyper st) i = None \<and> m' = im_put e (st\<lparr>st_dkg_by_keyper := AList.update i ?sub (st_dkg_by_keyper st)\<rparr>) m"
    using op g d i by (auto simp: im_submit_dkg_result_def Let_def split: option.splits if_splits)
  have "submitter_index H (st_config st) e ?sub = Some i"
    using d i by (auto simp: submitter_index_def keyper_index_by_recovery_def split: option.splits)
  moreover have "dkg_signed H e st" using s g by (simp add: mem_signed_def)
  ultimately have "dkg_signed H e (st\<lparr>st_dkg_by_keyper := AList.update i ?sub (st_dkg_by_keyper st)\<rparr>)"
    using set_update_subset [of i ?sub "st_dkg_by_keyper st"] by (auto simp: dkg_signed_def)
  with s m' show ?thesis by (auto simp: mem_signed_def split: if_splits)
qed

lemma step_signed:
  assumes "dl_step (memory_port H) m m'" "mem_signed H m"
  shows "mem_signed H m'"
  using assms(1)
proof (cases rule: dl_step.cases)
  case (issue w now)
  then show ?thesis
  proof (cases w)
    case (Register c sig)
    then show ?thesis
      using issue assms(2)
      by (auto simp: memory_port_def im_register_election_def Let_def Stored_init_def intro: mem_signed_new split: if_splits)
  next
    case (SubmitDkg e pk com sig)
    then show ?thesis using issue dkg_submission_signed [OF assms(2)] by (simp add: memory_port_def)
  qed (use issue assms(2) in \<open>auto simp: memory_port_def im_cancel_election_def im_submit_ballot_def im_submit_aggregate_def
        im_submit_decryption_share_def im_publish_result_def im_set_tally_stalled_def Let_def intro: mem_signed_put split: if_splits option.splits\<close>)
qed

lemma reachable_signed: "mem_reachable H m \<Longrightarrow> mem_signed H m"
  unfolding mem_reachable_def
proof (induction rule: rtranclp_induct)
  case base
  show ?case by (simp add: mem_signed_def InMemory_init_def im_get_def)
qed (rule step_signed)

text \<open>The recount over signed submissions finds the finalized key.\<close>

lemma recount_finds:
  assumes inv: "stored_inv H e st" and sg: "dkg_signed H e st" and fk: "finalized_key_of st = Inr (Some fk)"
    and subs: "set subs = snd ` set (st_dkg_by_keyper st)"
  shows "dkg_recount H (st_config st) e subs = ([], Some (fk_pk_election fk, fk_committee_pks fk))"
proof -
  let ?c = "st_config st" and ?k = "(fk_pk_election fk, fk_committee_pks fk)" and ?t = "th_quorum (cfg_threshold (st_config st))"
  let ?V = "\<lambda>k. {i. \<exists>sub \<in> set subs. submitter_index H ?c e sub = Some i \<and> dkg_key sub = k}"
  have d: "distinct (map fst (st_dkg_by_keyper st))" using inv by (simp add: stored_inv_def keyed_def)
  have V: "?V (fk_pk_election x, fk_committee_pks x) = key_voters st x" for x
    using sg subs d by (auto simp: key_voters_def dkg_signed_def) (force dest: map_of_SomeD)+
  have known: "submitter_index H ?c e sub \<noteq> None" if "sub \<in> set subs" for sub using that sg subs by (auto simp: dkg_signed_def)
  obtain unknown fin where r: "dkg_recount H ?c e subs = (unknown, fin)" by fastforce
  then have u: "unknown = []" using known by (auto simp: dkg_recount_def Let_def filter_empty_conv)
  have q: "?t \<le> int (card (?V ?k))" unfolding V using finalized_key_iff [OF inv, of fk] fk by blast
  have "fin \<noteq> None"
  proof
    assume n: "fin = None"
    let ?votes = "List.map_filter (\<lambda>(i, sub). map_option (\<lambda>i. (dkg_key sub, dkg_key sub, i)) i) (map (\<lambda>sub. (submitter_index H ?c e sub, sub)) subs)"
    have "map_option fst (find (\<lambda>(k, v, keypers). ?t \<le> int (card keypers)) (group_all ?votes)) = None"
      using arg_cong [OF r, of snd] unfolding dkg_recount_def Let_def snd_conv n .
    then have "find (\<lambda>(k, v, keypers). ?t \<le> int (card keypers)) (group_all ?votes) = None"
      by (simp only: option.map_disc_iff)
    then have "\<not> (\<exists>x. x \<in> set (group_all ?votes) \<and> (case x of (k, v, keypers) \<Rightarrow> ?t \<le> int (card keypers)))"
      by (simp only: find_None_iff not_False_eq_True)
    then have none: "\<not> ?t \<le> int (card ks)" if "(k, v, ks) \<in> set (group_all ?votes)" for k v ks using that by blast
    have votes: "(k, w, i) \<in> set ?votes \<longleftrightarrow> i \<in> ?V k \<and> w = k" for k w i by (auto simp: in_map_filter)
    have "?V ?k \<noteq> {}"
    proof
      assume "?V ?k = {}"
      with q have "?t \<le> 0" by (simp only: card.empty of_nat_0)
      with quorum_facts(2) [OF inv] show False by (simp add: th_quorum_def)
    qed
    then obtain i where "(?k, ?k, i) \<in> set ?votes" using votes by blast
    then have "?k \<in> fst ` set (group_all ?votes)" using groups_of_all [of ?votes] unfolding groups_of_def by force
    then obtain v ks where g: "(?k, v, ks) \<in> set (group_all ?votes)" by auto
    have "ks = ?V ?k" using groups_of_voters [OF groups_of_all g] votes by auto
    with none [OF g] q show False by simp
  qed
  then obtain k where k: "fin = Some k" by blast
  let ?x = "\<lparr>fk_pk_election = fst k, fk_committee_pks = snd k\<rparr>"
  have "?t \<le> int (card (key_voters st ?x))" using dkg_recount_quorum [OF r [unfolded k]] V [of ?x] by simp
  then have "finalized_key_of st = Inr (Some ?x)" using finalized_key_iff [OF inv, of ?x] by simp
  with fk have "fk = ?x" by simp
  with r u k show ?thesis by simp
qed

section \<open>Soundness and completeness\<close>

text \<open>
  C4: a clean audit means a correct result, whatever the data layer. If the audit of a possibly
  dishonest backend ends without a discrepancy, then a quorum of registered keypers signed the
  published key, the published aggregate is the one recomputed from the complete ballot list, and
  the published totals are those the decryption of this aggregate with the published shares yields.
\<close>

theorem audit_sound:
  assumes "crypto_suite S" and "audit S H P e s = Inr rep" and "report_ok rep"
  shows "\<exists>rec fk subs bs adm agg shares res. dl_get_election P e s = Inr rec \<and> dl_get_finalized_key P e s = Inr (Some fk) \<and>
    dl_get_dkg_submissions P e s = Inr subs \<and>
    th_t (cfg_threshold (er_config rec)) \<le> int (card {i. \<exists>sub \<in> set subs. submitter_index H (er_config rec) e sub = Some i \<and>
      dkg_pk_election sub = fk_pk_election fk \<and> dkg_committee_pks sub = fk_committee_pks fk}) \<and>
    read_all_ballots P e s = Inr bs \<and> admit S bs (er_config rec) (fk_pk_election fk) = Inr adm \<and>
    build_aggregate_artifact S (er_config rec) adm = Inr agg \<and> dl_get_aggregate P e s = Inr (Some agg) \<and>
    dl_list_decryption_shares P e s = Inr shares \<and> dl_get_result P e s = Inr (Some res) \<and>
    (0 \<le> bsgs_bound (er_config rec) (agg_total_scaled_weight agg) \<and> bsgs_bound (er_config rec) (agg_total_scaled_weight agg) < CURVE_ORDER \<longrightarrow>
       (\<exists>res'. recover_result S (er_config rec) agg shares (fk_committee_pks fk) (th_t (cfg_threshold (er_config rec))) None = Inr (Some res') \<and>
         res_totals res' = res_totals res))"
proof -
  obtain rec fk subs bs adm agg shares res where a: "dl_get_election P e s = Inr rec" "dl_get_finalized_key P e s = Inr (Some fk)"
    "dl_get_dkg_submissions P e s = Inr subs" "dkg_recount H (er_config rec) e subs = ([], Some (fk_pk_election fk, fk_committee_pks fk))"
    "read_all_ballots P e s = Inr bs" "admit S bs (er_config rec) (fk_pk_election fk) = Inr adm"
    "build_aggregate_artifact S (er_config rec) adm = Inr agg" "dl_get_aggregate P e s = Inr (Some agg)"
    "dl_list_decryption_shares P e s = Inr shares" "dl_get_result P e s = Inr (Some res)"
    and c: "check_result S (er_config rec) agg shares (fk_committee_pks fk) (th_t (cfg_threshold (er_config rec))) (res_totals res) = Inr (True, None)"
    using audit_stages [OF assms(2,3)] by blast
  have q: "th_t (cfg_threshold (er_config rec)) \<le> int (card {i. \<exists>sub \<in> set subs. submitter_index H (er_config rec) e sub = Some i \<and>
      dkg_pk_election sub = fk_pk_election fk \<and> dkg_committee_pks sub = fk_committee_pks fk})"
    using dkg_recount_quorum [OF a(4)] by (simp add: th_quorum_def dkg_key_def)
  have r: "0 \<le> bsgs_bound (er_config rec) (agg_total_scaled_weight agg) \<and> bsgs_bound (er_config rec) (agg_total_scaled_weight agg) < CURVE_ORDER \<longrightarrow>
       (\<exists>res'. recover_result S (er_config rec) agg shares (fk_committee_pks fk) (th_t (cfg_threshold (er_config rec))) None = Inr (Some res') \<and>
         res_totals res' = res_totals res)"
    using crypto_suite.check_iff_recover [OF assms(1), of "er_config rec" agg] c by fastforce
  show ?thesis using a(1-3,5-10) q r by blast
qed

lemma audit_honest_state:
  assumes inv: "mem_inv H m" and g: "im_get m e = Inr st" and sg: "dkg_signed H e st" and fk: "finalized_key_of st = Inr (Some fk)"
    and adm: "admit S (st_ballots st) (st_config st) (fk_pk_election fk) = Inr adm" "build_aggregate_artifact S (st_config st) adm = Inr art"
    and can: "canonical_aggregate H e st = Inr (Some art)" and res: "st_result st = Some res"
    and chk: "check_result S (st_config st) art (map snd (sort_key fst (st_shares_by_keyper st))) (fk_committee_pks fk)
      (th_t (cfg_threshold (st_config st))) (res_totals res) = Inr (True, None)"
    and b: "res_bsgs_bound res = bsgs_bound (st_config st) (agg_total_admitted_weight art)"
  shows "\<exists>rep. audit S H (memory_port H) e m = Inr rep \<and> report_ok rep"
proof -
  have si: "stored_inv H e st" using mem_inv_get [OF inv g] .
  have rc: "dkg_recount H (st_config st) e (map snd (sort_key fst (st_dkg_by_keyper st))) = ([], Some (fk_pk_election fk, fk_committee_pks fk))"
    by (rule recount_finds [OF si sg fk]) simp
  have "memory_holds H m e (st_ballots st)" using inv g by (auto simp: memory_holds_def)
  then have bs: "read_all_ballots (memory_port H) e m = Inr (st_ballots st)" by (rule memory_ballots.read_all_complete)
  have ports: "\<exists>rec. dl_get_election (memory_port H) e m = Inr rec \<and> er_config rec = st_config st"
    "dl_get_dkg_submissions (memory_port H) e m = Inr (map snd (sort_key fst (st_dkg_by_keyper st)))"
    "dl_get_finalized_key (memory_port H) e m = Inr (Some fk)" "dl_get_aggregate (memory_port H) e m = Inr (Some art)"
    "dl_list_decryption_shares (memory_port H) e m = Inr (map snd (sort_key fst (st_shares_by_keyper st)))"
    "dl_get_result (memory_port H) e m = Inr (Some res)"
    using g fk can res
    by (auto simp: memory_port_def im_get_election_def im_get_finalized_key_def im_get_dkg_submissions_def im_get_aggregate_canonical
        im_list_decryption_shares_def im_get_result_def)
  then obtain rec where rec: "dl_get_election (memory_port H) e m = Inr rec" "er_config rec = st_config st" by blast
  show ?thesis
    unfolding audit_def rec ports(2-6) ebind_Inr Let_def bs
    by (simp add: rc adm chk b report_ok_def)
qed

lemma art_weight_unscaled:
  assumes "admit S bs cfg pk = Inr adm" "build_aggregate_artifact S cfg adm = Inr art" "cfg_scale cfg = 1"
  shows "agg_total_admitted_weight art = agg_total_scaled_weight art"
proof -
  have "ar_total_admitted_weight adm = (\<Sum>ab \<leftarrow> ar_admitted adm. ab_weight ab)"
    using assms(1) by (auto simp: admit_def Let_def split: prod.splits)
  with assms(2,3) show ?thesis by (auto simp: build_aggregate_artifact_def Let_def scaled_weight_one)
qed

lemma audit_after_tally:
  assumes m: "mem_reachable H m" "im_get m e = Inr st" and key: "finalized_key_of st = Inr (Some fk)"
    and adm: "admit S (st_ballots st) (st_config st) (fk_pk_election fk) = Inr adm" and scale: "cfg_scale (st_config st) = 1"
    and m': "im_get m' e = Inr st'" "mem_inv H m'"
    and same: "st_result st' = Some res" "st_config st' = st_config st" "st_ballots st' = st_ballots st" "st_dkg_by_keyper st' = st_dkg_by_keyper st"
      "finalized_key_of st' = finalized_key_of st"
    and art: "build_aggregate_artifact S (st_config st) adm = Inr art" "canonical_aggregate H e st' = Inr (Some art)"
    and chk: "check_result S (st_config st) art (map snd (sort_key fst (st_shares_by_keyper st'))) (fk_committee_pks fk)
        (th_t (cfg_threshold (st_config st))) (res_totals res) = Inr (True, None)"
    and b: "res_bsgs_bound res = bsgs_bound (st_config st) (agg_total_scaled_weight art)"
  shows "\<exists>rep. audit S H (memory_port H) e m' = Inr rep \<and> report_ok rep"
proof -
  have sg: "dkg_signed H e st'" using reachable_signed [OF m(1)] m(2) same by (simp add: mem_signed_def dkg_signed_def)
  show ?thesis
    by (rule audit_honest_state [where fk = fk and adm = adm and art = art and res = res, OF m'(2,1) sg])
      (unfold same, use key adm art chk b art_weight_unscaled [OF adm art(1) scale] in \<open>simp_all only:\<close>)
qed

lemma art_scaled_weight:
  "build_aggregate_artifact S cfg adm = Inr art \<Longrightarrow>
     agg_total_scaled_weight art = (\<Sum>ab \<leftarrow> ar_admitted adm. scaled_weight (ab_weight ab) (cfg_scale cfg))"
  by (auto simp: build_aggregate_artifact_def Let_def)

lemma sample_audit:
  "\<exists>m rec agg rep. dl_get_election (memory_port tally_host) (be 32 1) m = Inr rec \<and>
     dl_get_aggregate (memory_port tally_host) (be 32 1) m = Inr (Some agg) \<and> er_config rec = sample_election \<and> agg_total_scaled_weight agg = 7 \<and>
     audit zq_suite tally_host (memory_port tally_host) (be 32 1) m = Inr rep \<and> report_ok rep"
proof -
  obtain m st adm a rr where m: "mem_reachable tally_host m" "im_get m (be 32 1) = Inr st" "st_config st = sample_election"
    "\<not> st_cancelled st" "st_result st = None" "st_aggregate_by_keyper st = []" "st_shares_by_keyper st = []"
    "finalized_key_of st = Inr (Some \<lparr>fk_pk_election = be 96 9, fk_committee_pks = sample_committee\<rparr>)"
    "admit zq_suite (st_ballots st) (st_config st) (be 96 9) = Inr adm" "ar_admitted adm = [a]" "ab_weight a = 7" "ar_total_admitted_weight adm = 7"
    "encrypts zq_suite (peval [9, 4] 0) a 2 (\<lambda>j. if j = 0 then 1 else if j = 1 then 2 else 0) rr" "length (st_ballots st) = 1"
    by (rule sample_tally_state)
  let ?v = "\<lambda>_ j. if j = 0 then 1 else if j = 1 then 2 else (0::int)"
  note tally = run_tally_honest [where r = "\<lambda>_. rr" and adm = adm and f = "[9, 4]" and v = ?v and now = 200 and rnd = "\<lambda>i j. 0"
      and pub = "sample_signer 4" and ks = "[sample_service 3, sample_service 1]",
      OF zq.crypto_suite_axioms tally_host_laws(2) m(1,2,4-7) _ _ m(8)]
  have "\<exists>m' st' art. im_get m' (be 32 1) = Inr st' \<and> st_config st' = sample_election \<and>
      build_aggregate_artifact zq_suite sample_election adm = Inr art \<and> canonical_aggregate tally_host (be 32 1) st' = Inr (Some art) \<and>
      (\<exists>rep. audit zq_suite tally_host (memory_port tally_host) (be 32 1) m' = Inr rep \<and> report_ok rep)"
    by (rule tally [THEN exE]) (use m sample_quorum in
      \<open>simp_all add: sample_election_sel scaled_weight_one u256_def CURVE_ORDER_def upt_rec\<close>,
      use audit_after_tally [OF m(1,2,8)] m(3,9) in \<open>force simp: sample_election_sel\<close>)
  then obtain m' st' art rep where r: "im_get m' (be 32 1) = Inr st'" "st_config st' = sample_election"
    "build_aggregate_artifact zq_suite sample_election adm = Inr art" "canonical_aggregate tally_host (be 32 1) st' = Inr (Some art)"
    "audit zq_suite tally_host (memory_port tally_host) (be 32 1) m' = Inr rep" "report_ok rep" by blast
  have "agg_total_scaled_weight art = 7" using art_scaled_weight [OF r(3)] m(10,11) by (simp add: sample_election_sel scaled_weight_one)
  moreover obtain rec where "dl_get_election (memory_port tally_host) (be 32 1) m' = Inr rec" using r(5) by (auto simp: audit_def)
  moreover from this have "er_config rec = sample_election" using r(1,2) by (auto simp: memory_port_def im_get_election_def)
  moreover have "dl_get_aggregate (memory_port tally_host) (be 32 1) m' = Inr (Some art)"
    using r(1,4) by (simp add: memory_port_def im_get_aggregate_canonical)
  ultimately show ?thesis using r(5,6) by blast
qed

text \<open>
  C26: honest elections audit clean. When an honest quorum has run the tally of an election of
  scale 1 on the data layer, under the conditions of the run, the audit of what is then
  stored returns a report without discrepancy.
\<close>

theorem honest_election_audits_clean:
  assumes S: "crypto_suite S" and abi: "abi_total H" and m: "mem_reachable H m" "im_get m e = Inr st"
    and fresh: "\<not> st_cancelled st" "st_result st = None" "st_aggregate_by_keyper st = []" "st_shares_by_keyper st = []"
    and now: "cfg_voting_end (st_config st) \<le> now" and exact: "cfg_mode (st_config st) = EXACT"
    and key: "finalized_key_of st = Inr (Some fk)" "length (fk_committee_pks fk) < 65536"
    and adm: "admit S (st_ballots st) (st_config st) (fk_pk_election fk) = Inr adm"
    and enc: "\<And>ab. ab \<in> set (ar_admitted adm) \<Longrightarrow>
      encrypts S (peval f 0) ab (nat (cfg_num_candidates (st_config st))) (v ab) (r ab) \<and> 0 \<le> ab_weight ab \<and>
      (\<forall>j. 0 \<le> v ab j) \<and> (\<Sum>j \<leftarrow> [0..<nat (cfg_num_candidates (st_config st))]. v ab j) = cfg_budget (st_config st)"
    and bound: "cfg_budget (st_config st) * (\<Sum>ab \<leftarrow> ar_admitted adm. scaled_weight (ab_weight ab) (cfg_scale (st_config st))) < CURVE_ORDER"
      "u256 (ar_total_admitted_weight adm)" "int (length (st_ballots st)) < 2 ^ 256"
    and ks: "\<forall>k \<in> set ks. honest_keyper S H (st_config st) (fk_committee_pks fk) f k" "distinct (map kp_index ks)"
      "th_t (cfg_threshold (st_config st)) \<le> int (length ks)" "length f \<le> nat (th_t (cfg_threshold (st_config st)))"
    and pub: "signs H pub" "identity pub = cfg_result_publisher_key (st_config st)"
    and scale: "cfg_scale (st_config st) = 1"
  shows "\<exists>m' res rep. run_tally S H (memory_port H) now now rnd e pub ks m = Inr (m', Some res) \<and>
    audit S H (memory_port H) e m' = Inr rep \<and> report_ok rep"
proof -
  obtain m' res art st' where r: "run_tally S H (memory_port H) now now rnd e pub ks m = Inr (m', Some res)" "im_get m' e = Inr st'" "mem_inv H m'"
    and same: "st_result st' = Some res" "st_config st' = st_config st" "st_ballots st' = st_ballots st" "st_dkg_by_keyper st' = st_dkg_by_keyper st"
      "finalized_key_of st' = finalized_key_of st"
    and art: "build_aggregate_artifact S (st_config st) adm = Inr art" "canonical_aggregate H e st' = Inr (Some art)"
    and chk: "check_result S (st_config st) art (map snd (sort_key fst (st_shares_by_keyper st'))) (fk_committee_pks fk)
        (th_t (cfg_threshold (st_config st))) (res_totals res) = Inr (True, None)"
    and b: "res_bsgs_bound res = bsgs_bound (st_config st) (agg_total_scaled_weight art)"
    using run_tally_honest [OF S abi m fresh now exact key adm enc bound ks pub, of rnd] by blast
  have "\<exists>rep. audit S H (memory_port H) e m' = Inr rep \<and> report_ok rep"
    by (rule audit_after_tally [OF m key(1) adm scale r(2,3) same art chk b])
  with r(1) show ?thesis by blast
qed

lemma honest_election_audits_clean_witness:
  "\<exists>m m' res rep. mem_reachable tally_host m \<and>
     run_tally zq_suite tally_host (memory_port tally_host) 200 200 (\<lambda>i j. 0) (be 32 1) (sample_signer 4) [sample_service 3, sample_service 1] m =
       Inr (m', Some res) \<and> audit zq_suite tally_host (memory_port tally_host) (be 32 1) m' = Inr rep \<and> report_ok rep"
proof -
  obtain m st adm a rr where m: "mem_reachable tally_host m" "im_get m (be 32 1) = Inr st" "st_config st = sample_election"
    "\<not> st_cancelled st" "st_result st = None" "st_aggregate_by_keyper st = []" "st_shares_by_keyper st = []"
    "finalized_key_of st = Inr (Some \<lparr>fk_pk_election = be 96 9, fk_committee_pks = sample_committee\<rparr>)"
    "admit zq_suite (st_ballots st) (st_config st) (be 96 9) = Inr adm" "ar_admitted adm = [a]" "ab_weight a = 7" "ar_total_admitted_weight adm = 7"
    "encrypts zq_suite (peval [9, 4] 0) a 2 (\<lambda>j. if j = 0 then 1 else if j = 1 then 2 else 0) rr" "length (st_ballots st) = 1"
    by (rule sample_tally_state)
  have "\<exists>m' res rep. run_tally zq_suite tally_host (memory_port tally_host) 200 200 (\<lambda>i j. 0) (be 32 1) (sample_signer 4) [sample_service 3, sample_service 1] m =
       Inr (m', Some res) \<and> audit zq_suite tally_host (memory_port tally_host) (be 32 1) m' = Inr rep \<and> report_ok rep"
    by (rule honest_election_audits_clean [where r = "\<lambda>_. rr" and adm = adm and f = "[9, 4]" and v = "\<lambda>_ j. if j = 0 then 1 else if j = 1 then 2 else 0",
          OF zq.crypto_suite_axioms tally_host_laws(2) m(1,2,4-7) _ _ m(8)])
      (use m sample_quorum in \<open>simp_all add: sample_election_sel scaled_weight_one u256_def CURVE_ORDER_def upt_rec\<close>)
  with m(1) show ?thesis by blast
qed

lemma audit_sound_witness:
  "\<exists>m fk agg shares res res'. dl_get_finalized_key (memory_port tally_host) (be 32 1) m = Inr (Some fk) \<and>
     dl_get_result (memory_port tally_host) (be 32 1) m = Inr (Some res) \<and>
     recover_result zq_suite sample_election agg shares (fk_committee_pks fk) 2 None = Inr (Some res') \<and> res_totals res' = res_totals res"
proof -
  obtain m rec agg rep where a: "dl_get_election (memory_port tally_host) (be 32 1) m = Inr rec"
    "dl_get_aggregate (memory_port tally_host) (be 32 1) m = Inr (Some agg)" "er_config rec = sample_election" "agg_total_scaled_weight agg = 7"
    "audit zq_suite tally_host (memory_port tally_host) (be 32 1) m = Inr rep" "report_ok rep"
    using sample_audit by blast
  have "\<exists>rec' fk agg' shares res. dl_get_election (memory_port tally_host) (be 32 1) m = Inr rec' \<and>
     dl_get_finalized_key (memory_port tally_host) (be 32 1) m = Inr (Some fk) \<and>
     dl_get_aggregate (memory_port tally_host) (be 32 1) m = Inr (Some agg') \<and> dl_get_result (memory_port tally_host) (be 32 1) m = Inr (Some res) \<and>
     (0 \<le> bsgs_bound (er_config rec') (agg_total_scaled_weight agg') \<and> bsgs_bound (er_config rec') (agg_total_scaled_weight agg') < CURVE_ORDER \<longrightarrow>
       (\<exists>res'. recover_result zq_suite (er_config rec') agg' shares (fk_committee_pks fk) (th_t (cfg_threshold (er_config rec'))) None = Inr (Some res') \<and>
         res_totals res' = res_totals res))"
    using audit_sound [OF zq.crypto_suite_axioms a(5,6)] by blast
  then show ?thesis unfolding a(1,2) sum.inject option.inject
    by (simp add: a(3,4) bsgs_bound_def sample_election_sel CURVE_ORDER_def) blast
qed

text \<open>
  The bound is derived from the unscaled weight, so an honest result of an election with a scale
  above 1 never passes: whatever its totals, no report of it is clean.
\<close>

lemma audit_rejects_scaled_result:
  assumes "dl_get_election P e s = Inr rec" "dl_get_aggregate P e s = Inr (Some agg)" "dl_get_result P e s = Inr (Some res)"
    and "res_bsgs_bound res = bsgs_bound (er_config rec) (agg_total_scaled_weight agg)" "1 \<le> cfg_budget (er_config rec)"
    and "agg_total_scaled_weight agg \<noteq> agg_total_admitted_weight agg"
  shows "\<not> (\<exists>rep. audit S H P e s = Inr rep \<and> report_ok rep)"
proof
  assume "\<exists>rep. audit S H P e s = Inr rep \<and> report_ok rep"
  then obtain rep where "audit S H P e s = Inr rep" "report_ok rep" by blast
  from audit_stages [OF this] assms have "bsgs_bound (er_config rec) (agg_total_scaled_weight agg) = bsgs_bound (er_config rec) (agg_total_admitted_weight agg)"
    by auto
  with assms(5,6) show False by (simp add: bsgs_bound_def)
qed

end
