(* ===== verification/Wire.thy ===== *)
theory Wire
  imports Auditor
begin

text \<open>
  The storage port over HTTP: \<^verbatim>\<open>services/data_layer/data_layer.py\<close>, the service that wraps a backend,
  and \<^verbatim>\<open>adapters/db/client.py\<close>, the client that is itself an \<open>ElectionDataLayer\<close>. A handler is a
  function of the path segment with the election id, the decoded JSON body and the state of the
  backend; it answers with a status and a JSON value. Transport is faithful: the client sees the
  status and the JSON value the handler returned. Routing to the handler is Flask's.
\<close>

section \<open>Responses\<close>

record response =
  rs_status :: int
  rs_json :: "json option"

text \<open>\<open>v[key]\<close>, \<open>v.get(key)\<close> and \<open>for x in v\<close> on a JSON value.\<close>

definition get_item :: "json \<Rightarrow> string \<Rightarrow> json result" where
  "get_item v key =
     (case v of
        JObj kvs \<Rightarrow> (case map_of kvs key of None \<Rightarrow> Inl KeyError | Some w \<Rightarrow> Inr w)
      | _ \<Rightarrow> Inl TypeError)"

definition get_opt :: "json \<Rightarrow> string \<Rightarrow> json result" where
  "get_opt v key =
     (case v of
        JObj kvs \<Rightarrow> Inr (case map_of kvs key of None \<Rightarrow> JNull | Some w \<Rightarrow> w)
      | _ \<Rightarrow> Inl AttributeError)"

definition json_iter :: "json \<Rightarrow> json list result" where
  "json_iter v =
     (case v of
        JArr xs \<Rightarrow> Inr xs
      | JStr s \<Rightarrow> Inr (map (\<lambda>c. JStr [c]) s)
      | JObj kvs \<Rightarrow> Inr (map (\<lambda>(k, _). JStr k) kvs)
      | _ \<Rightarrow> Inl TypeError)"

text \<open>The exceptions of the port and of the decoders that are \<open>ValueError\<close>s.\<close>

definition is_value_error :: "error \<Rightarrow> bool" where
  "is_value_error e =
     (case e of
        ValueError \<Rightarrow> True | CodecError \<Rightarrow> True | PreScaleAggregate \<Rightarrow> True | EligibilityError \<Rightarrow> True
      | NotEligible \<Rightarrow> True | GatewayRejection _ \<Rightarrow> True | _ \<Rightarrow> False)"

text \<open>
  The handlers of the read blueprint, and those the application has for its write routes. The text
  of an error body is not modelled: the client takes nothing but the message from it.
\<close>

definition read_status :: "error \<Rightarrow> int" where
  "read_status e =
     (if e = KeyError then 404
      else if e = WriteAuthorizationError then 403
      else if e = ImmutabilityError then 409
      else if e = VotingWindowError then 422
      else if e = QuorumConflictError then 409
      else if is_value_error e then 400
      else 500)"

definition write_status :: "error \<Rightarrow> int" where
  "write_status e =
     (if e = KeyError then 404
      else if e = WriteAuthorizationError then 403
      else if e = ImmutabilityError then 409
      else if e = VotingWindowError then 422
      else if is_value_error e then 400
      else 500)"

definition answer_read :: "json result \<Rightarrow> response" where
  "answer_read r =
     (case r of
        Inl e \<Rightarrow> \<lparr>rs_status = read_status e, rs_json = None\<rparr>
      | Inr j \<Rightarrow> \<lparr>rs_status = 200, rs_json = Some j\<rparr>)"

text \<open>A write route keeps the backend as it was when it raises.\<close>

definition answer_write :: "'s \<Rightarrow> ('s \<times> response) result \<Rightarrow> 's \<times> response" where
  "answer_write s r =
     (case r of
        Inl e \<Rightarrow> (s, \<lparr>rs_status = write_status e, rs_json = None\<rparr>)
      | Inr (s', a) \<Rightarrow> (s', a))"

definition no_content :: response where
  "no_content = \<lparr>rs_status = 204, rs_json = None\<rparr>"

section \<open>The service\<close>

definition MAX_BALLOT_PAGE :: int where "MAX_BALLOT_PAGE = 1000"

definition finalized_key_json :: "FinalizedKey option \<Rightarrow> json" where
  "finalized_key_json fk =
     (case fk of
        None \<Rightarrow> JNull
      | Some k \<Rightarrow> JObj [(''pkElection'', enc_bytes (fk_pk_election k)),
                       (''committeePKs'', JArr (map enc_bytes (fk_committee_pks k)))])"

definition srv_get_election :: "'s ElectionDataLayer \<Rightarrow> string \<Rightarrow> 's \<Rightarrow> response" where
  "srv_get_election P eid s = answer_read (
     ebind (fromhex eid) (\<lambda>e. ebind (dl_get_election P e s) (\<lambda>rec.
     Inr (JObj [(''config'', enc_config (er_config rec)), (''cancelled'', JBool (er_cancelled rec)),
                (''tallyStalled'', JBool (er_tally_stalled rec)),
                (''finalizedKey'', finalized_key_json (er_finalized_key rec))]))))"

text \<open>The query argument \<open>adminKey\<close> is text; an absent or an empty one is no filter.\<close>

definition srv_list_elections :: "'s ElectionDataLayer \<Rightarrow> string option \<Rightarrow> 's \<Rightarrow> response" where
  "srv_list_elections P admin_key s = answer_read (
     ebind
       (case admin_key of
          None \<Rightarrow> Inr None
        | Some k \<Rightarrow>
            if k = [] then Inr None
            else ebind (dec_bytes (JStr k) None) (\<lambda>b. Inr (Some \<lparr>ef_admin_key = Some b\<rparr>)))
     (\<lambda>filt. ebind (dl_list_elections P filt s) (\<lambda>ids.
     Inr (JObj [(''electionIds'', JArr (map enc_bytes ids))]))))"

definition srv_get_dkg :: "'s ElectionDataLayer \<Rightarrow> string \<Rightarrow> 's \<Rightarrow> response" where
  "srv_get_dkg P eid s = answer_read (
     ebind (fromhex eid) (\<lambda>e. ebind (dl_get_dkg_submissions P e s) (\<lambda>subs.
     Inr (JObj [(''submissions'', JArr (map enc_dkg_result subs))]))))"

definition srv_get_finalized :: "'s ElectionDataLayer \<Rightarrow> string \<Rightarrow> 's \<Rightarrow> response" where
  "srv_get_finalized P eid s = answer_read (
     ebind (fromhex eid) (\<lambda>e. ebind (dl_get_finalized_key P e s) (\<lambda>fk.
     Inr (JObj [(''finalizedKey'', finalized_key_json fk)]))))"

definition enc_stored_ballot :: "StoredBallot \<Rightarrow> json" where
  "enc_stored_ballot sb =
     JObj [(''ballot'', enc_ballot (sb_envelope sb)), (''sequenceNumber'', JInt (sb_sequence_number sb)),
           (''submittedAt'', case sb_submitted_at sb of None \<Rightarrow> JNull | Some t \<Rightarrow> JInt t)]"

text \<open>The query arguments \<open>start\<close> and \<open>count\<close> are text, \<open>0\<close> when absent.\<close>

definition srv_list_ballots :: "'s ElectionDataLayer \<Rightarrow> string \<Rightarrow> string option \<Rightarrow> string option \<Rightarrow> 's \<Rightarrow> response" where
  "srv_list_ballots P eid start count s = answer_read (
     ebind (case start of None \<Rightarrow> Inr 0 | Some t \<Rightarrow> int_of_str t) (\<lambda>st.
     ebind (case count of None \<Rightarrow> Inr 0 | Some t \<Rightarrow> int_of_str t) (\<lambda>ct.
     ebind (fromhex eid) (\<lambda>e. ebind (dl_list_ballots P e st (min ct MAX_BALLOT_PAGE) s) (\<lambda>bs.
     Inr (JObj [(''ballots'', JArr (map enc_stored_ballot bs))]))))))"

definition srv_count_ballots :: "'s ElectionDataLayer \<Rightarrow> string \<Rightarrow> 's \<Rightarrow> response" where
  "srv_count_ballots P eid s = answer_read (
     ebind (fromhex eid) (\<lambda>e. ebind (dl_count_ballots P e s) (\<lambda>n. Inr (JObj [(''count'', JInt n)]))))"

definition srv_get_aggregate :: "'s ElectionDataLayer \<Rightarrow> string \<Rightarrow> 's \<Rightarrow> response" where
  "srv_get_aggregate P eid s = answer_read (
     ebind (fromhex eid) (\<lambda>e. ebind (dl_get_aggregate P e s) (\<lambda>agg.
     Inr (JObj [(''aggregate'', case agg of None \<Rightarrow> JNull | Some a \<Rightarrow> enc_aggregate a)]))))"

definition srv_list_shares :: "'s ElectionDataLayer \<Rightarrow> string \<Rightarrow> 's \<Rightarrow> response" where
  "srv_list_shares P eid s = answer_read (
     ebind (fromhex eid) (\<lambda>e. ebind (dl_list_decryption_shares P e s) (\<lambda>shs.
     Inr (JObj [(''shares'', JArr (map enc_decryption_share shs))]))))"

definition srv_get_result :: "'s ElectionDataLayer \<Rightarrow> string \<Rightarrow> 's \<Rightarrow> response" where
  "srv_get_result P eid s = answer_read (
     ebind (fromhex eid) (\<lambda>e. ebind (dl_get_result P e s) (\<lambda>res.
     Inr (JObj [(''result'', case res of None \<Rightarrow> JNull | Some r \<Rightarrow> enc_result r)]))))"

definition srv_capability :: "'s ElectionDataLayer \<Rightarrow> response" where
  "srv_capability P = answer_read (Inr (JObj [(''verifiabilityTier'', JInt (dl_verifiability_tier P))]))"

text \<open>The write routes. \<open>repr\<close> renders a JSON value the way \<open>str\<close> does in \<open>dec_config\<close>.\<close>

definition body_bytes :: "json \<Rightarrow> string \<Rightarrow> bytes result" where
  "body_bytes body key = ebind (get_item body key) (\<lambda>v. dec_bytes v None)"

definition srv_register :: "(json \<Rightarrow> string) \<Rightarrow> 's ElectionDataLayer \<Rightarrow> json \<Rightarrow> 's \<Rightarrow> 's \<times> response" where
  "srv_register repr P body s = answer_write s (
     ebind (get_item body ''config'') (\<lambda>v. ebind (dec_config repr v) (\<lambda>config.
     ebind (body_bytes body ''adminSig'') (\<lambda>sig.
     ebind (dl_register_election P config sig s) (\<lambda>(s', eid).
     Inr (s', \<lparr>rs_status = 200, rs_json = Some (JObj [(''electionId'', enc_bytes eid)])\<rparr>))))))"

definition srv_cancel :: "'s ElectionDataLayer \<Rightarrow> int \<Rightarrow> string \<Rightarrow> json \<Rightarrow> 's \<Rightarrow> 's \<times> response" where
  "srv_cancel P now eid body s = answer_write s (
     ebind (fromhex eid) (\<lambda>e. ebind (body_bytes body ''adminSig'') (\<lambda>sig.
     ebind (dl_cancel_election P now e sig s) (\<lambda>s'. Inr (s', no_content)))))"

definition srv_submit_dkg :: "'s ElectionDataLayer \<Rightarrow> string \<Rightarrow> json \<Rightarrow> 's \<Rightarrow> 's \<times> response" where
  "srv_submit_dkg P eid body s = answer_write s (
     ebind (fromhex eid) (\<lambda>e. ebind (body_bytes body ''pkElection'') (\<lambda>pk.
     ebind (get_item body ''committeePKs'') (\<lambda>v. ebind (json_iter v) (\<lambda>ps.
     ebind (emap (\<lambda>p. dec_bytes p None) ps) (\<lambda>com.
     ebind (body_bytes body ''keyperSig'') (\<lambda>sig.
     ebind (dl_submit_dkg_result P e pk com sig s) (\<lambda>s'. Inr (s', no_content)))))))))"

definition srv_submit_ballot :: "'s ElectionDataLayer \<Rightarrow> int \<Rightarrow> string \<Rightarrow> json \<Rightarrow> 's \<Rightarrow> 's \<times> response" where
  "srv_submit_ballot P now eid body s = answer_write s (
     ebind (get_opt body ''gatewaySig'') (\<lambda>g.
     ebind (if truthy g then body_bytes body ''gatewaySig'' else Inr []) (\<lambda>gateway_sig.
     ebind (fromhex eid) (\<lambda>e. ebind (get_item body ''ballot'') (\<lambda>v. ebind (dec_ballot v) (\<lambda>b.
     ebind (dl_submit_ballot P now e b gateway_sig s) (\<lambda>(s', sq).
     Inr (s', \<lparr>rs_status = 200, rs_json = Some (JObj [(''sequenceNumber'', JInt sq)])\<rparr>))))))))"

definition srv_submit_aggregate :: "'s ElectionDataLayer \<Rightarrow> int \<Rightarrow> string \<Rightarrow> json \<Rightarrow> 's \<Rightarrow> 's \<times> response" where
  "srv_submit_aggregate P now eid body s = answer_write s (
     ebind (fromhex eid) (\<lambda>e. ebind (get_item body ''aggregate'') (\<lambda>v. ebind (dec_aggregate v) (\<lambda>a.
     ebind (body_bytes body ''keyperSig'') (\<lambda>sig.
     ebind (dl_submit_aggregate P now e a sig s) (\<lambda>s'. Inr (s', no_content)))))))"

definition srv_submit_share :: "'s ElectionDataLayer \<Rightarrow> int \<Rightarrow> string \<Rightarrow> json \<Rightarrow> 's \<Rightarrow> 's \<times> response" where
  "srv_submit_share P now eid body s = answer_write s (
     ebind (fromhex eid) (\<lambda>e. ebind (get_item body ''share'') (\<lambda>v. ebind (dec_decryption_share v) (\<lambda>sh.
     ebind (body_bytes body ''keyperSig'') (\<lambda>sig.
     ebind (dl_submit_decryption_share P now e sh sig s) (\<lambda>s'. Inr (s', no_content)))))))"

definition srv_publish_result :: "'s ElectionDataLayer \<Rightarrow> string \<Rightarrow> json \<Rightarrow> 's \<Rightarrow> 's \<times> response" where
  "srv_publish_result P eid body s = answer_write s (
     ebind (fromhex eid) (\<lambda>e. ebind (get_item body ''result'') (\<lambda>v. ebind (dec_result v) (\<lambda>r.
     ebind (body_bytes body ''resultPublisherSig'') (\<lambda>sig.
     ebind (dl_publish_result P e r sig s) (\<lambda>s'. Inr (s', no_content)))))))"

definition srv_set_tally_stalled :: "'s ElectionDataLayer \<Rightarrow> int \<Rightarrow> string \<Rightarrow> json \<Rightarrow> 's \<Rightarrow> 's \<times> response" where
  "srv_set_tally_stalled P now eid body s = answer_write s (
     ebind (fromhex eid) (\<lambda>e. ebind (get_item body ''stalled'') (\<lambda>b.
     ebind (body_bytes body ''resultPublisherSig'') (\<lambda>sig.
     ebind (get_item body ''issuedAt'') (\<lambda>v. ebind (py_int v) (\<lambda>issued_at.
     ebind (dl_set_tally_stalled P now e (truthy b) sig issued_at s) (\<lambda>s'. Inr (s', no_content))))))))"

section \<open>The client\<close>

definition raise_for_status :: "response \<Rightarrow> unit result" where
  "raise_for_status r =
     (if rs_status r < 400 then Inr ()
      else if rs_status r = 404 then Inl KeyError
      else if rs_status r = 403 then Inl WriteAuthorizationError
      else if rs_status r = 409 then Inl ImmutabilityError
      else if rs_status r = 422 then Inl VotingWindowError
      else Inl ValueError)"

text \<open>\<open>_get\<close> and \<open>_post\<close>: \<open>r.json()\<close> raises on a body that is no JSON; \<open>_post\<close> returns \<open>None\<close> for it.\<close>

definition cl_get :: "response \<Rightarrow> json result" where
  "cl_get r = ebind (raise_for_status r) (\<lambda>_. case rs_json r of None \<Rightarrow> Inl ValueError | Some j \<Rightarrow> Inr j)"

definition cl_post :: "'s \<times> response \<Rightarrow> ('s \<times> json) result" where
  "cl_post sr = ebind (raise_for_status (snd sr)) (\<lambda>_. Inr (fst sr, case rs_json (snd sr) of None \<Rightarrow> JNull | Some j \<Rightarrow> j))"

definition cl_finalized_key :: "json \<Rightarrow> FinalizedKey option result" where
  "cl_finalized_key d =
     (case d of
        JNull \<Rightarrow> Inr None
      | _ \<Rightarrow> ebind (body_bytes d ''pkElection'') (\<lambda>pk.
            ebind (get_item d ''committeePKs'') (\<lambda>v. ebind (json_iter v) (\<lambda>ps.
            ebind (emap (\<lambda>p. dec_bytes p None) ps) (\<lambda>com.
            Inr (Some \<lparr>fk_pk_election = pk, fk_committee_pks = com\<rparr>))))))"

definition cl_register_election where
  "cl_register_election repr P config admin_sig s =
     ebind (cl_post (srv_register repr P (JObj [(''config'', enc_config config), (''adminSig'', enc_bytes admin_sig)]) s)) (\<lambda>(s', out).
     ebind (body_bytes out ''electionId'') (\<lambda>e. Inr (s', e)))"

definition cl_cancel_election where
  "cl_cancel_election P now e admin_sig s =
     ebind (cl_post (srv_cancel P now (tohex e) (JObj [(''adminSig'', enc_bytes admin_sig)]) s)) (\<lambda>(s', _). Inr s')"

definition cl_get_election where
  "cl_get_election repr P e s =
     ebind (cl_get (srv_get_election P (tohex e) s)) (\<lambda>d.
     ebind (get_item d ''config'') (\<lambda>v. ebind (dec_config repr v) (\<lambda>config.
     ebind (get_item d ''cancelled'') (\<lambda>c.
     ebind (get_opt d ''tallyStalled'') (\<lambda>t.
     ebind (get_item d ''finalizedKey'') (\<lambda>k. ebind (cl_finalized_key k) (\<lambda>fk.
     Inr \<lparr>er_config = config, er_cancelled = truthy c, er_finalized_key = fk, er_tally_stalled = truthy t\<rparr>)))))))"

definition cl_list_elections where
  "cl_list_elections P flt s =
     ebind (cl_get (srv_list_elections P
         (case flt of
            None \<Rightarrow> None
          | Some f \<Rightarrow> (case ef_admin_key f of None \<Rightarrow> None | Some k \<Rightarrow> Some (''0x'' @ tohex k))) s)) (\<lambda>d.
     ebind (get_item d ''electionIds'') (\<lambda>v. ebind (json_iter v) (\<lambda>es. emap (\<lambda>e. dec_bytes e None) es)))"

definition cl_submit_dkg_result where
  "cl_submit_dkg_result P e pk com sig s =
     ebind (cl_post (srv_submit_dkg P (tohex e)
       (JObj [(''pkElection'', enc_bytes pk), (''committeePKs'', JArr (map enc_bytes com)), (''keyperSig'', enc_bytes sig)]) s))
       (\<lambda>(s', _). Inr s')"

definition cl_get_dkg_submissions where
  "cl_get_dkg_submissions P e s =
     ebind (cl_get (srv_get_dkg P (tohex e) s)) (\<lambda>d.
     ebind (get_item d ''submissions'') (\<lambda>v. ebind (json_iter v) (emap dec_dkg_result)))"

definition cl_get_finalized_key where
  "cl_get_finalized_key P e s =
     ebind (cl_get (srv_get_finalized P (tohex e) s)) (\<lambda>d. ebind (get_item d ''finalizedKey'') cl_finalized_key)"

definition cl_submit_ballot where
  "cl_submit_ballot P now e b gateway_sig s =
     ebind (cl_post (srv_submit_ballot P now (tohex e)
       (JObj ((''ballot'', enc_ballot b) # (if gateway_sig = [] then [] else [(''gatewaySig'', enc_bytes gateway_sig)]))) s)) (\<lambda>(s', out).
     ebind (get_item out ''sequenceNumber'') (\<lambda>v. ebind (py_int v) (\<lambda>n. Inr (s', n))))"

definition cl_stored_ballot :: "json \<Rightarrow> StoredBallot result" where
  "cl_stored_ballot row =
     ebind (get_item row ''sequenceNumber'') (\<lambda>v. ebind (py_int v) (\<lambda>sq.
     ebind (get_item row ''ballot'') (\<lambda>v. ebind (dec_ballot v) (\<lambda>b.
     ebind (get_opt row ''submittedAt'') (\<lambda>t.
     ebind (if t = JNull then Inr None else ebind (py_int t) (\<lambda>n. Inr (Some n))) (\<lambda>ts.
     Inr \<lparr>sb_sequence_number = sq, sb_envelope = b, sb_submitted_at = ts\<rparr>))))))"

definition cl_list_ballots where
  "cl_list_ballots P e start count s =
     ebind (cl_get (srv_list_ballots P (tohex e) (Some (str_int start)) (Some (str_int count)) s)) (\<lambda>d.
     ebind (get_item d ''ballots'') (\<lambda>v. ebind (json_iter v) (emap cl_stored_ballot)))"

definition cl_count_ballots where
  "cl_count_ballots P e s = ebind (cl_get (srv_count_ballots P (tohex e) s)) (\<lambda>d. ebind (get_item d ''count'') py_int)"

definition cl_submit_aggregate where
  "cl_submit_aggregate P now e a sig s =
     ebind (cl_post (srv_submit_aggregate P now (tohex e) (JObj [(''aggregate'', enc_aggregate a), (''keyperSig'', enc_bytes sig)]) s))
       (\<lambda>(s', _). Inr s')"

definition cl_get_aggregate where
  "cl_get_aggregate P e s =
     ebind (cl_get (srv_get_aggregate P (tohex e) s)) (\<lambda>d. ebind (get_item d ''aggregate'') (\<lambda>v.
     if truthy v then ebind (dec_aggregate v) (\<lambda>a. Inr (Some a)) else Inr None))"

definition cl_submit_decryption_share where
  "cl_submit_decryption_share P now e sh sig s =
     ebind (cl_post (srv_submit_share P now (tohex e) (JObj [(''share'', enc_decryption_share sh), (''keyperSig'', enc_bytes sig)]) s))
       (\<lambda>(s', _). Inr s')"

definition cl_list_decryption_shares where
  "cl_list_decryption_shares P e s =
     ebind (cl_get (srv_list_shares P (tohex e) s)) (\<lambda>d.
     ebind (get_item d ''shares'') (\<lambda>v. ebind (json_iter v) (emap dec_decryption_share)))"

definition cl_publish_result where
  "cl_publish_result P e r sig s =
     ebind (cl_post (srv_publish_result P (tohex e) (JObj [(''result'', enc_result r), (''resultPublisherSig'', enc_bytes sig)]) s))
       (\<lambda>(s', _). Inr s')"

definition cl_get_result where
  "cl_get_result P e s =
     ebind (cl_get (srv_get_result P (tohex e) s)) (\<lambda>d. ebind (get_item d ''result'') (\<lambda>v.
     if truthy v then ebind (dec_result v) (\<lambda>r. Inr (Some r)) else Inr None))"

definition cl_set_tally_stalled where
  "cl_set_tally_stalled P now e stalled sig issued_at s =
     ebind (cl_post (srv_set_tally_stalled P now (tohex e)
       (JObj [(''stalled'', JBool stalled), (''resultPublisherSig'', enc_bytes sig), (''issuedAt'', JInt issued_at)]) s))
       (\<lambda>(s', _). Inr s')"

definition http_port :: "(json \<Rightarrow> string) \<Rightarrow> 's ElectionDataLayer \<Rightarrow> 's ElectionDataLayer" where
  "http_port repr P =
     \<lparr>dl_register_election = cl_register_election repr P,
      dl_cancel_election = cl_cancel_election P,
      dl_get_election = cl_get_election repr P,
      dl_list_elections = cl_list_elections P,
      dl_submit_dkg_result = cl_submit_dkg_result P,
      dl_get_dkg_submissions = cl_get_dkg_submissions P,
      dl_get_finalized_key = cl_get_finalized_key P,
      dl_submit_ballot = cl_submit_ballot P,
      dl_list_ballots = cl_list_ballots P,
      dl_count_ballots = cl_count_ballots P,
      dl_submit_aggregate = cl_submit_aggregate P,
      dl_get_aggregate = cl_get_aggregate P,
      dl_submit_decryption_share = cl_submit_decryption_share P,
      dl_list_decryption_shares = cl_list_decryption_shares P,
      dl_publish_result = cl_publish_result P,
      dl_get_result = cl_get_result P,
      dl_set_tally_stalled = cl_set_tally_stalled P,
      dl_verifiability_tier =
        (case ebind (cl_get (srv_capability P)) (\<lambda>d. ebind (get_item d ''verifiabilityTier'') py_int) of Inl _ \<Rightarrow> 0 | Inr n \<Rightarrow> n)\<rparr>"

section \<open>What arrives at the client\<close>

text \<open>The client's view of a result of the backend: values pass, errors take the round trip through a status.\<close>

definition on_wire :: "(error \<Rightarrow> int) \<Rightarrow> 'a result \<Rightarrow> 'a result" where
  "on_wire status m =
     (case m of
        Inl e \<Rightarrow> (case raise_for_status \<lparr>rs_status = status e, rs_json = None\<rparr> of Inl e' \<Rightarrow> Inl e' | Inr _ \<Rightarrow> Inl e)
      | Inr x \<Rightarrow> Inr x)"

lemma statuses: "400 \<le> read_status e" "400 \<le> write_status e"
  by (auto simp: read_status_def write_status_def)

lemma statuses_fail [simp]: "\<not> read_status e < 400" "\<not> write_status e < 400"
  using statuses [of e] by simp_all

lemma on_wire_Inr [simp]: "on_wire st (Inr x) = Inr x" "on_wire st m = Inr x \<longleftrightarrow> m = Inr x"
  by (auto simp: on_wire_def split: sum.splits)

lemma on_wire_port_errors [simp]:
  "status \<in> {read_status, write_status} \<Longrightarrow> e \<in> {KeyError, WriteAuthorizationError, ImmutabilityError, VotingWindowError, ValueError} \<Longrightarrow>
   on_wire status (Inl e) = Inl e"
  by (auto simp: on_wire_def read_status_def write_status_def raise_for_status_def is_value_error_def)

lemma on_wire_Inl:
  "\<exists>e'. raise_for_status \<lparr>rs_status = read_status e, rs_json = j\<rparr> = Inl e' \<and> on_wire read_status (Inl e) = Inl e'"
  "\<exists>e'. raise_for_status \<lparr>rs_status = write_status e, rs_json = j\<rparr> = Inl e' \<and> on_wire write_status (Inl e) = Inl e'"
  using statuses [of e] by (auto simp: on_wire_def raise_for_status_def)

lemma ebind_on_wire_Inl [simp]: "ebind (on_wire st (Inl e)) f = on_wire st (Inl e)"
  by (auto simp: on_wire_def split: sum.splits)

lemma cl_get_answer [simp]: "cl_get (answer_read (Inl e)) = on_wire read_status (Inl e)" "cl_get (answer_read (Inr j)) = Inr j"
  subgoal using on_wire_Inl(1) [of e None] by (auto simp: cl_get_def answer_read_def on_wire_def)
  subgoal by (simp add: cl_get_def answer_read_def raise_for_status_def)
  done

lemma cl_post_answer [simp]:
  "cl_post (answer_write s (Inl e)) = on_wire write_status (Inl e)"
  "rs_status a < 400 \<Longrightarrow> cl_post (answer_write s (Inr (s', a))) = Inr (s', case rs_json a of None \<Rightarrow> JNull | Some j \<Rightarrow> j)"
  subgoal using on_wire_Inl(2) [of e None] by (auto simp: cl_post_def answer_write_def on_wire_def)
  subgoal by (simp add: cl_post_def answer_write_def raise_for_status_def)
  done

lemma get_item_JObj [simp]: "get_item (JObj kvs) k = (case map_of kvs k of None \<Rightarrow> Inl KeyError | Some v \<Rightarrow> Inr v)"
  "get_opt (JObj kvs) k = Inr (case map_of kvs k of None \<Rightarrow> JNull | Some v \<Rightarrow> v)" "json_iter (JArr xs) = Inr xs"
  by (simp_all add: get_item_def get_opt_def json_iter_def)

lemma emap_dec_bytes [simp]: "emap (\<lambda>p. dec_bytes p None) (map enc_bytes bs) = Inr bs" "emap ((\<lambda>p. dec_bytes p None) \<circ> enc_bytes) bs = Inr bs"
  by (induction bs) auto

lemma truthy_enc_bytes [simp]: "truthy (enc_bytes b)"
  by (simp add: enc_bytes_def)

lemma no_content_sel [simp]: "rs_status no_content = 204" "rs_json no_content = None"
  by (simp_all add: no_content_def)

text \<open>The requests whose artifacts the codecs carry.\<close>

fun artifact_ok :: "write_request \<Rightarrow> bool" where
  "artifact_ok (Register c sig) = ok_config c"
| "artifact_ok (SubmitBallot e b sig) = ok_ballot b"
| "artifact_ok (SubmitAggregate e a sig) = ok_aggregate a"
| "artifact_ok (SubmitShare e sh sig) = ok_decryption_share sh"
| "artifact_ok (PublishResult e r sig) = ok_result r"
| "artifact_ok _ = True"

lemmas client_write_defs = cl_register_election_def cl_cancel_election_def cl_submit_dkg_result_def cl_submit_ballot_def
  cl_submit_aggregate_def cl_submit_decryption_share_def cl_publish_result_def cl_set_tally_stalled_def

lemmas service_write_defs = srv_register_def srv_cancel_def srv_submit_dkg_def srv_submit_ballot_def srv_submit_aggregate_def
  srv_submit_share_def srv_publish_result_def srv_set_tally_stalled_def

lemmas http_write_simps = http_port_def client_write_defs service_write_defs body_bytes_def

lemma http_write:
  assumes "artifact_ok w"
  shows "do_write (http_port repr P) now w s = on_wire write_status (do_write P now w s)"
proof (cases w)
  case (Register c sig)
  then show ?thesis using assms
    by (cases "dl_register_election P c sig s") (auto simp: http_write_simps config_codec.dec_enc)
next
  case (Cancel e sig)
  then show ?thesis by (cases "dl_cancel_election P now e sig s") (auto simp: http_write_simps)
next
  case (SubmitDkg e pk com sig)
  then show ?thesis by (cases "dl_submit_dkg_result P e pk com sig s") (auto simp: http_write_simps)
next
  case (SubmitBallot e b sig)
  then show ?thesis using assms
    by (cases "dl_submit_ballot P now e b sig s") (auto simp: http_write_simps ballot_codec.dec_enc)
next
  case (SubmitAggregate e a sig)
  then show ?thesis using assms
    by (cases "dl_submit_aggregate P now e a sig s") (auto simp: http_write_simps aggregate_codec.dec_enc)
next
  case (SubmitShare e sh sig)
  then show ?thesis using assms
    by (cases "dl_submit_decryption_share P now e sh sig s")
      (auto simp: http_write_simps decryption_share_codec.dec_enc)
next
  case (PublishResult e r sig)
  then show ?thesis using assms
    by (cases "dl_publish_result P e r sig s") (auto simp: http_write_simps result_codec.dec_enc)
next
  case (SetStalled e b sig t)
  then show ?thesis by (cases "dl_set_tally_stalled P now e b sig t s") (auto simp: http_write_simps)
qed

text \<open>A write the service accepts is a write of the backend, with artifacts its decoders have checked.\<close>

lemma cl_post_Inr: "cl_post (answer_write s r) = Inr (s', j) \<Longrightarrow> \<exists>a. r = Inr (s', a)"
  by (cases r) (auto simp: cl_post_def answer_write_def raise_for_status_def split: if_splits)

lemma http_write_accepted:
  assumes "do_write (http_port repr P) now w s = Inr s'"
  shows "\<exists>w'. artifact_ok w' \<and> do_write P now w' s = Inr s'"
proof (cases w)
  case (Register c sig)
  with assms obtain c' sig' e where "dec_config repr (enc_config c) = Inr c'" "dl_register_election P c' sig' s = Inr (s', e)"
    by (auto simp: http_write_simps dest!: cl_post_Inr)
  then show ?thesis by (intro exI [of _ "Register c' sig'"]) (auto dest: config_codec.dec_ok)
next
  case (Cancel e sig)
  with assms show ?thesis by (intro exI [of _ w]) (auto simp: http_write_simps dest!: cl_post_Inr)
next
  case (SubmitDkg e pk com sig)
  with assms show ?thesis by (intro exI [of _ w]) (auto simp: http_write_simps dest!: cl_post_Inr)
next
  case (SubmitBallot e b sig)
  with assms obtain b' sig' n where "dec_ballot (enc_ballot b) = Inr b'" "dl_submit_ballot P now e b' sig' s = Inr (s', n)"
    by (auto simp: http_write_simps split: if_splits dest!: cl_post_Inr)
  then show ?thesis by (intro exI [of _ "SubmitBallot e b' sig'"]) (auto dest: ballot_codec.dec_ok)
next
  case (SubmitAggregate e a sig)
  with assms obtain a' where "dec_aggregate (enc_aggregate a) = Inr a'" "dl_submit_aggregate P now e a' sig s = Inr s'"
    by (auto simp: http_write_simps dest!: cl_post_Inr)
  then show ?thesis by (intro exI [of _ "SubmitAggregate e a' sig"]) (auto dest: aggregate_codec.dec_ok)
next
  case (SubmitShare e sh sig)
  with assms obtain sh' where "dec_decryption_share (enc_decryption_share sh) = Inr sh'" "dl_submit_decryption_share P now e sh' sig s = Inr s'"
    by (auto simp: http_write_simps dest!: cl_post_Inr)
  then show ?thesis by (intro exI [of _ "SubmitShare e sh' sig"]) (auto dest: decryption_share_codec.dec_ok)
next
  case (PublishResult e r sig)
  with assms obtain r' where "dec_result (enc_result r) = Inr r'" "dl_publish_result P e r' sig s = Inr s'"
    by (auto simp: http_write_simps dest!: cl_post_Inr)
  then show ?thesis by (intro exI [of _ "PublishResult e r' sig"]) (auto dest: result_codec.dec_ok)
next
  case (SetStalled e b sig t)
  with assms show ?thesis by (intro exI [of _ w]) (auto simp: http_write_simps dest!: cl_post_Inr)
qed

lemma artifact_object_ok: "artifact_ok w \<Longrightarrow> request_object_ok w"
  by (cases w) (auto simp: ok_config_def)

section \<open>Reads over the wire\<close>

lemma cl_finalized_key_json [simp]: "cl_finalized_key (finalized_key_json fk) = Inr fk"
  by (cases fk) (auto simp: finalized_key_json_def cl_finalized_key_def body_bytes_def)

lemma cl_stored_ballot_enc: "ok_ballot (sb_envelope sb) \<Longrightarrow> cl_stored_ballot (enc_stored_ballot sb) = Inr sb"
  by (cases "sb_submitted_at sb") (auto simp: cl_stored_ballot_def enc_stored_ballot_def ballot_codec.dec_enc)

lemma int_of_str_neg: "n < 0 \<Longrightarrow> int_of_str (str_int n) = Inr n"
proof -
  assume n: "n < 0"
  have minus: "\<not> is_uspace CHR ''-''" by (simp add: is_uspace_def)
  have "strip (CHR ''-'' # show_nat (nat (- n))) = CHR ''-'' # show_nat (nat (- n))"
    using show_nat_digits [of "nat (- n)"] minus by (intro strip_no_space) (auto simp: list_all_iff is_digit_not_space)
  then show ?thesis using n digits_show_nat [of False "nat (- n)"] by (simp add: int_of_str_def str_int_def)
qed

lemma int_of_str_all [simp]: "int_of_str (str_int n) = Inr n"
  using int_of_str_neg [of n] int_of_str_int [of n] by (cases "n < 0") auto

lemma http_get_election:
  assumes "\<And>r. dl_get_election P e s = Inr r \<Longrightarrow> ok_config (er_config r)"
  shows "dl_get_election (http_port repr P) e s = on_wire read_status (dl_get_election P e s)"
  using assms by (cases "dl_get_election P e s") (auto simp: http_port_def cl_get_election_def srv_get_election_def config_codec.dec_enc)

lemma http_list_elections:
  "dl_list_elections (http_port repr P) flt s =
     on_wire read_status (dl_list_elections P (case flt of None \<Rightarrow> None | Some f \<Rightarrow> if ef_admin_key f = None then None else Some f) s)"
proof -
  have k: "dec_bytes (JStr (CHR ''0'' # CHR ''x'' # tohex k)) None = Inr k" for k using dec_enc_bytes(1) [of k] by (simp add: enc_bytes_def)
  have eta: "f = \<lparr>ef_admin_key = Some k\<rparr>" if "ef_admin_key f = Some k" for f :: ElectionFilter and k using that by (cases f) simp
  show ?thesis
    by (cases "dl_list_elections P (case flt of None \<Rightarrow> None | Some f \<Rightarrow> if ef_admin_key f = None then None else Some f) s")
      (auto simp: http_port_def cl_list_elections_def srv_list_elections_def k split: option.splits dest!: eta)
qed

lemma http_get_dkg:
  assumes "\<And>r. dl_get_dkg_submissions P e s = Inr r \<Longrightarrow> list_all ok_dkg_result r"
  shows "dl_get_dkg_submissions (http_port repr P) e s = on_wire read_status (dl_get_dkg_submissions P e s)"
  using assms
  by (cases "dl_get_dkg_submissions P e s")
    (auto simp: http_port_def cl_get_dkg_submissions_def srv_get_dkg_def comp_def dkg_result_codec.dec_all)

lemma http_get_finalized_key: "dl_get_finalized_key (http_port repr P) e s = on_wire read_status (dl_get_finalized_key P e s)"
  by (cases "dl_get_finalized_key P e s") (auto simp: http_port_def cl_get_finalized_key_def srv_get_finalized_def)

lemma http_list_ballots:
  assumes "\<And>r. dl_list_ballots P e i (min n MAX_BALLOT_PAGE) s = Inr r \<Longrightarrow> \<forall>sb \<in> set r. ok_ballot (sb_envelope sb)"
  shows "dl_list_ballots (http_port repr P) e i n s = on_wire read_status (dl_list_ballots P e i (min n MAX_BALLOT_PAGE) s)"
proof (cases "dl_list_ballots P e i (min n MAX_BALLOT_PAGE) s")
  case (Inr r)
  with assms have "emap (cl_stored_ballot \<circ> enc_stored_ballot) r = Inr r"
    by (subst emap_Inr_all [where g = id]) (auto simp: cl_stored_ballot_enc)
  with Inr show ?thesis by (simp add: http_port_def cl_list_ballots_def srv_list_ballots_def)
qed (simp add: http_port_def cl_list_ballots_def srv_list_ballots_def)

lemma http_count_ballots: "dl_count_ballots (http_port repr P) e s = on_wire read_status (dl_count_ballots P e s)"
  by (cases "dl_count_ballots P e s") (auto simp: http_port_def cl_count_ballots_def srv_count_ballots_def)

lemma http_get_aggregate:
  assumes "\<And>a. dl_get_aggregate P e s = Inr (Some a) \<Longrightarrow> ok_aggregate a"
  shows "dl_get_aggregate (http_port repr P) e s = on_wire read_status (dl_get_aggregate P e s)"
proof -
  have "truthy (enc_aggregate a)" for a by (simp add: enc_aggregate_def)
  with assms show ?thesis
    by (cases "dl_get_aggregate P e s") (auto simp: http_port_def cl_get_aggregate_def srv_get_aggregate_def aggregate_codec.dec_enc split: option.splits)
qed

lemma http_list_shares:
  assumes "\<And>r. dl_list_decryption_shares P e s = Inr r \<Longrightarrow> list_all ok_decryption_share r"
  shows "dl_list_decryption_shares (http_port repr P) e s = on_wire read_status (dl_list_decryption_shares P e s)"
  using assms
  by (cases "dl_list_decryption_shares P e s")
    (auto simp: http_port_def cl_list_decryption_shares_def srv_list_shares_def comp_def decryption_share_codec.dec_all)

lemma http_get_result:
  assumes "\<And>r. dl_get_result P e s = Inr (Some r) \<Longrightarrow> ok_result r"
  shows "dl_get_result (http_port repr P) e s = on_wire read_status (dl_get_result P e s)"
proof -
  have "truthy (enc_result r)" for r by (simp add: enc_result_def)
  with assms show ?thesis
    by (cases "dl_get_result P e s") (auto simp: http_port_def cl_get_result_def srv_get_result_def result_codec.dec_enc split: option.splits)
qed

section \<open>A backend behind the service\<close>

text \<open>What a backend that is written to through the service alone holds.\<close>

definition carried :: "Stored \<Rightarrow> bool" where
  "carried st \<longleftrightarrow> ok_config (st_config st) \<and> (\<forall>sb \<in> set (st_ballots st). ok_ballot (sb_envelope sb)) \<and>
     (\<forall>p \<in> set (st_aggregate_by_keyper st). ok_aggregate (snd p)) \<and> (\<forall>p \<in> set (st_shares_by_keyper st). ok_decryption_share (snd p)) \<and>
     (\<forall>r. st_result st = Some r \<longrightarrow> ok_result r)"

definition mem_carried :: "InMemory \<Rightarrow> bool" where
  "mem_carried m \<longleftrightarrow> (\<forall>e st. im_get m e = Inr st \<longrightarrow> carried st)"

lemma mem_carried_put: "mem_carried m \<Longrightarrow> carried st \<Longrightarrow> mem_carried (im_put e st m)"
  by (auto simp: mem_carried_def)

lemma im_get_more [simp]: "im_get (m\<lparr>im_next_id := n\<rparr>) e = im_get m e" "im_get (m\<lparr>im_used_request_nonces := u\<rparr>) e = im_get m e"
  by (simp_all add: im_get_def)

lemma mem_carried_more [simp]:
  "mem_carried (m\<lparr>im_next_id := n\<rparr>) = mem_carried m" "mem_carried (m\<lparr>im_used_request_nonces := u\<rparr>) = mem_carried m"
  by (simp_all add: mem_carried_def)

lemma carried_update:
  "carried st \<Longrightarrow> ok_aggregate a \<Longrightarrow> carried (st\<lparr>st_aggregate_by_keyper := AList.update i a (st_aggregate_by_keyper st)\<rparr>)"
  "carried st \<Longrightarrow> ok_decryption_share sh \<Longrightarrow> carried (st\<lparr>st_shares_by_keyper := AList.update i sh (st_shares_by_keyper st)\<rparr>)"
  using set_update_subset [of i a "st_aggregate_by_keyper st"] set_update_subset [of i sh "st_shares_by_keyper st"]
  by (auto simp: carried_def)

lemma carried_fields:
  "ok_config c \<Longrightarrow> carried (Stored_init c)"
  "carried st \<Longrightarrow> carried (st\<lparr>st_cancelled := b\<rparr>)" "carried st \<Longrightarrow> carried (st\<lparr>st_tally_stalled := b\<rparr>)"
  "carried st \<Longrightarrow> carried (st\<lparr>st_dkg_by_keyper := d\<rparr>)" "carried st \<Longrightarrow> ok_result r \<Longrightarrow> carried (st\<lparr>st_result := Some r\<rparr>)"
  "carried st \<Longrightarrow> ok_ballot (sb_envelope sb) \<Longrightarrow> carried (st\<lparr>st_ballots := st_ballots st @ [sb]\<rparr>)"
  by (auto simp: carried_def Stored_init_def)

lemma mem_carried_write:
  assumes "mem_carried m" "artifact_ok w" "do_write (memory_port H) now w m = Inr m'"
  shows "mem_carried m'"
proof -
  have g: "im_get m e = Inr st \<Longrightarrow> carried st" for e st using assms(1) by (simp add: mem_carried_def)
  note put = mem_carried_put [OF assms(1)] carried_update carried_fields
  show ?thesis
  proof (cases w)
    case (Register c sig)
    then show ?thesis using assms put by (auto simp: memory_port_def im_register_election_def Let_def mem_carried_put split: if_splits)
  next
    case (Cancel e sig)
    then show ?thesis using assms put g by (auto simp: memory_port_def im_cancel_election_def split: if_splits)
  next
    case (SubmitDkg e pk com sig)
    then show ?thesis using assms put g by (auto simp: memory_port_def im_submit_dkg_result_def Let_def split: if_splits option.splits)
  next
    case (SubmitBallot e b sig)
    then show ?thesis using assms put g by (auto simp: memory_port_def im_submit_ballot_def Let_def)
  next
    case (SubmitAggregate e a sig)
    then show ?thesis using assms put g by (auto simp: memory_port_def im_submit_aggregate_def split: if_splits)
  next
    case (SubmitShare e sh sig)
    then show ?thesis using assms put g by (auto simp: memory_port_def im_submit_decryption_share_def split: if_splits option.splits)
  next
    case (PublishResult e r sig)
    then show ?thesis using assms put g by (auto simp: memory_port_def im_publish_result_def split: if_splits option.splits)
  next
    case (SetStalled e b sig t)
    then show ?thesis using assms put g by (auto simp: memory_port_def im_set_tally_stalled_def Let_def mem_carried_put split: if_splits)
  qed
qed

definition wire_reachable :: "(json \<Rightarrow> string) \<Rightarrow> host \<Rightarrow> InMemory \<Rightarrow> bool" where
  "wire_reachable repr H m \<longleftrightarrow> (dl_step (http_port repr (memory_port H)))\<^sup>*\<^sup>* InMemory_init m"

lemma http_step: "dl_step (http_port repr P) s s' \<Longrightarrow> dl_step P s s'"
  by (elim dl_stepE) (metis artifact_object_ok dl_step.issue http_write_accepted)

lemma http_steps: "(dl_step (http_port repr P))\<^sup>*\<^sup>* s s' \<Longrightarrow> (dl_step P)\<^sup>*\<^sup>* s s'"
  by (induction rule: rtranclp_induct) (auto dest: http_step intro: rtranclp.rtrancl_into_rtrancl)

lemma wire_reachable_mem: "wire_reachable repr H m \<Longrightarrow> mem_reachable H m"
  unfolding wire_reachable_def mem_reachable_def by (rule http_steps)

lemma wire_reachable_carried: "wire_reachable repr H m \<Longrightarrow> mem_carried m"
  unfolding wire_reachable_def
proof (induction rule: rtranclp_induct)
  case base
  show ?case by (simp add: mem_carried_def im_get_def InMemory_init_def)
next
  case (step m m')
  from step(2) obtain w now where "do_write (http_port repr (memory_port H)) now w m = Inr m'" by (auto elim: dl_stepE)
  with step(3) show ?case by (blast dest: http_write_accepted intro: mem_carried_write)
qed

text \<open>What the ballot reads of the services need holds over the wire too.\<close>

definition wire_holds :: "host \<Rightarrow> InMemory \<Rightarrow> bytes \<Rightarrow> StoredBallot list \<Rightarrow> bool" where
  "wire_holds H m e bs \<longleftrightarrow> memory_holds H m e bs \<and> (\<forall>sb \<in> set bs. ok_ballot (sb_envelope sb))"

interpretation wire_ballots: ballot_store "http_port repr (memory_port H)" "wire_holds H" for repr H
proof unfold_locales
  fix m e bs
  assume h: "wire_holds H m e bs"
  then have m: "memory_holds H m e bs" by (simp add: wire_holds_def)
  show "dl_count_ballots (http_port repr (memory_port H)) e m = Inr (int (length bs))"
    by (simp add: http_count_ballots memory_ballots.count_ballots [OF m])
  show "dl_list_ballots (http_port repr (memory_port H)) e i n m = Inr (take (nat n) (drop (nat i) bs))"
    if "0 \<le> i" "0 \<le> n" "n \<le> BALLOT_PAGE" for i n
  proof -
    have n: "min n MAX_BALLOT_PAGE = n" using that by (simp add: BALLOT_PAGE_def MAX_BALLOT_PAGE_def)
    have p: "dl_list_ballots (memory_port H) e i n m = Inr (take (nat n) (drop (nat i) bs))" by (rule memory_ballots.list_ballots [OF m that])
    show ?thesis
      by (subst http_list_ballots) (use h p n in \<open>auto simp: wire_holds_def dest!: in_set_takeD in_set_dropD\<close>)
  qed
  show "map sb_sequence_number bs = map int [0..<length bs]" by (rule memory_ballots.numbered [OF m])
qed

lemma resolve_unique_member: "resolve_unique gs t = Inr (Some a) \<Longrightarrow> \<exists>ks. (a, ks) \<in> set gs"
  by (auto simp: resolve_unique_def Let_def split: if_splits list.splits dest!: filter_eq_ConsD)

lemma py_slice_subset: "set (py_slice xs i j) \<subseteq> set xs"
  by (auto simp: py_slice_def Let_def dest!: in_set_takeD in_set_dropD)

lemma emap_member: "emap f xs = Inr ys \<Longrightarrow> y \<in> set ys \<Longrightarrow> \<exists>x \<in> set xs. f x = Inr y"
  by (induction xs arbitrary: ys) auto

lemma canonical_stored: "canonical_aggregate H e st = Inr (Some a) \<Longrightarrow> \<exists>i. (i, a) \<in> set (st_aggregate_by_keyper st)"
proof -
  assume c: "canonical_aggregate H e st = Inr (Some a)"
  let ?f = "\<lambda>(idx, agg). ebind (aggregate_digest_of H e agg) (\<lambda>key. Inr (key, agg, idx))"
  obtain subs where subs: "emap ?f (st_aggregate_by_keyper st) = Inr subs"
    and r: "resolve_unique (map snd (group_all subs)) (th_quorum (cfg_threshold (st_config st))) = Inr (Some a)"
    using c by (auto simp: canonical_aggregate_def aggregate_groups_def)
  obtain ks where "(a, ks) \<in> set (map snd (group_all subs))" using resolve_unique_member [OF r] by blast
  then obtain k where "(k, a, ks) \<in> set (group_all subs)" by auto
  then obtain i where "(k, a, i) \<in> set subs" using groups_of_all [of subs] unfolding groups_of_def by blast
  then obtain p where "p \<in> set (st_aggregate_by_keyper st)" "?f p = Inr (k, a, i)"
    using emap_member [OF subs] by blast
  then show ?thesis by (auto split: prod.splits)
qed

lemma wire_reads:
  assumes "wire_reachable repr H m" and "im_get m e = Inr st"
  shows "dl_get_election (http_port repr (memory_port H)) e m = im_get_election e m"
    "dl_get_finalized_key (http_port repr (memory_port H)) e m = im_get_finalized_key e m"
    "dl_list_ballots (http_port repr (memory_port H)) e i n m = im_list_ballots e i (min n 1000) m"
    "read_all_ballots (http_port repr (memory_port H)) e m = Inr (st_ballots st)"
    "dl_get_aggregate (http_port repr (memory_port H)) e m = im_get_aggregate H e m"
    "dl_list_decryption_shares (http_port repr (memory_port H)) e m = im_list_decryption_shares e m"
    "dl_get_result (http_port repr (memory_port H)) e m = im_get_result e m"
proof -
  have mi: "mem_inv H m" using reachable_inv [OF wire_reachable_mem [OF assms(1)]] .
  have inv: "stored_inv H e st" using mem_inv_get [OF mi assms(2)] .
  have c: "carried st" using wire_reachable_carried [OF assms(1)] assms(2) by (simp add: mem_carried_def)
  obtain fk a where fk: "finalized_key_of st = Inr fk" and a: "canonical_aggregate H e st = Inr a"
    using finalized_key_total [OF inv] canonical_total [OF inv] by blast
  have el: "im_get_election e m = Inr \<lparr>er_config = st_config st, er_cancelled = st_cancelled st, er_finalized_key = fk, er_tally_stalled = st_tally_stalled st\<rparr>"
    "im_get_finalized_key e m = Inr fk" "im_get_aggregate H e m = Inr a"
    using fk a assms(2) by (simp_all add: im_get_election_def im_get_finalized_key_def im_get_aggregate_canonical)
  have oa: "ok_aggregate x" if "a = Some x" for x
    using canonical_stored [of H e st x] a c that by (auto simp: carried_def)
  have bs: "ok_ballot (sb_envelope sb)" if "sb \<in> set (py_slice (st_ballots st) i j)" for sb i j
    using c that py_slice_subset by (fastforce simp: carried_def)
  have sh: "list_all ok_decryption_share (map snd (sort_key fst (st_shares_by_keyper st)))"
    using c by (auto simp: carried_def list_all_iff)
  have "wire_holds H m e (st_ballots st)" using mi assms(2) c by (auto simp: wire_holds_def memory_holds_def carried_def)
  then show "read_all_ballots (http_port repr (memory_port H)) e m = Inr (st_ballots st)" by (rule wire_ballots.read_all_complete)
  show "dl_list_ballots (http_port repr (memory_port H)) e i n m = im_list_ballots e i (min n 1000) m"
    by (subst http_list_ballots) (use bs assms(2) in \<open>auto simp: memory_port_def im_list_ballots_def MAX_BALLOT_PAGE_def\<close>)
  show "dl_get_election (http_port repr (memory_port H)) e m = im_get_election e m"
    by (subst http_get_election) (use el c in \<open>auto simp: memory_port_def carried_def\<close>)
  show "dl_get_finalized_key (http_port repr (memory_port H)) e m = im_get_finalized_key e m"
    using el by (simp add: http_get_finalized_key) (simp add: memory_port_def)
  show "dl_get_aggregate (http_port repr (memory_port H)) e m = im_get_aggregate H e m"
    by (subst http_get_aggregate) (use el oa in \<open>auto simp: memory_port_def\<close>)
  show "dl_list_decryption_shares (http_port repr (memory_port H)) e m = im_list_decryption_shares e m"
    by (subst http_list_shares) (use sh assms(2) in \<open>auto simp: memory_port_def im_list_decryption_shares_def\<close>)
  show "dl_get_result (http_port repr (memory_port H)) e m = im_get_result e m"
    by (subst http_get_result) (use c assms(2) in \<open>auto simp: memory_port_def im_get_result_def carried_def\<close>)
qed

section \<open>Properties\<close>

text \<open>
  C6: the data layer over HTTP is the data layer. A write whose artifacts fit their codecs does over
  the wire what it does on the backend, its errors taking the round trip through a status; and
  whatever a client sends, every sequence of accepted writes is one of the backend itself, so that
  what is proved of the backend holds behind the service.
\<close>

theorem http_port_refines:
  "(artifact_ok w \<longrightarrow> do_write (http_port repr P) now w s = on_wire write_status (do_write P now w s)) \<and>
   ((dl_step (http_port repr P))\<^sup>*\<^sup>* s s' \<longrightarrow> (dl_step P)\<^sup>*\<^sup>* s s')"
  by (simp add: http_write http_steps)

lemma emap_partial: "emap (\<lambda>x. if Q x then Inr x else Inl err) xs = (if list_all Q xs then Inr xs else Inl err)"
  by (induction xs) auto

lemma dec_enc_size: "dec_bytes (enc_bytes b) (Some k) = (if length b = k then Inr b else Inl CodecError)"
  by (simp add: dec_bytes_def enc_bytes_def)

lemma dec_enc_dkg: "dec_dkg_result (enc_dkg_result s) = (if ok_dkg_result s then Inr s else Inl CodecError)"
  by (auto simp: dec_dkg_result_def enc_dkg_result_def ok_dkg_result_def dec_enc_size codec_sizes comp_def emap_partial)

lemma http_get_dkg_all:
  "dl_get_dkg_submissions P e s = Inr subs \<Longrightarrow>
   dl_get_dkg_submissions (http_port repr P) e s = (if list_all ok_dkg_result subs then Inr subs else Inl CodecError)"
  by (simp add: http_port_def cl_get_dkg_submissions_def srv_get_dkg_def comp_def dec_enc_dkg emap_partial)

text \<open>The reads of an election that was never registered.\<close>

lemma wire_unknown:
  assumes "im_get m e = Inl err"
  shows "err = KeyError" "im_get_election e m = Inl KeyError" "im_get_dkg_submissions e m = Inl KeyError" "im_get_finalized_key e m = Inl KeyError"
    "im_list_ballots e i n m = Inl KeyError" "im_count_ballots e m = Inl KeyError" "im_get_aggregate H e m = Inl KeyError"
    "im_list_decryption_shares e m = Inl KeyError" "im_get_result e m = Inl KeyError"
proof -
  show k: "err = KeyError" using assms by (auto simp: im_get_def split: option.splits)
  show "im_get_election e m = Inl KeyError" "im_get_dkg_submissions e m = Inl KeyError" "im_get_finalized_key e m = Inl KeyError"
    "im_list_ballots e i n m = Inl KeyError" "im_count_ballots e m = Inl KeyError" "im_get_aggregate H e m = Inl KeyError"
    "im_list_decryption_shares e m = Inl KeyError" "im_get_result e m = Inl KeyError"
    using assms by (simp_all add: k im_get_election_def im_get_dkg_submissions_def im_get_finalized_key_def im_list_ballots_def
        im_count_ballots_def im_get_aggregate_def im_list_decryption_shares_def im_get_result_def)
qed

lemma wire_reads_unknown:
  assumes "im_get m e = Inl err"
  shows "dl_get_election (http_port repr (memory_port H)) e m = Inl KeyError" "dl_get_finalized_key (http_port repr (memory_port H)) e m = Inl KeyError"
    "dl_get_dkg_submissions (http_port repr (memory_port H)) e m = Inl KeyError"
    "dl_list_ballots (http_port repr (memory_port H)) e i n m = Inl KeyError" "dl_count_ballots (http_port repr (memory_port H)) e m = Inl KeyError"
    "dl_get_aggregate (http_port repr (memory_port H)) e m = Inl KeyError"
    "dl_list_decryption_shares (http_port repr (memory_port H)) e m = Inl KeyError" "dl_get_result (http_port repr (memory_port H)) e m = Inl KeyError"
proof -
  note u = wire_unknown [OF assms]
  have w: "on_wire read_status (Inl KeyError) = Inl KeyError" by simp
  show "dl_get_election (http_port repr (memory_port H)) e m = Inl KeyError" by (subst http_get_election) (simp_all add: memory_port_def u w)
  show "dl_get_finalized_key (http_port repr (memory_port H)) e m = Inl KeyError" by (subst http_get_finalized_key) (simp add: memory_port_def u w)
  show "dl_get_dkg_submissions (http_port repr (memory_port H)) e m = Inl KeyError" by (subst http_get_dkg) (simp_all add: memory_port_def u w)
  show "dl_list_ballots (http_port repr (memory_port H)) e i n m = Inl KeyError" by (subst http_list_ballots) (simp_all add: memory_port_def u w)
  show "dl_count_ballots (http_port repr (memory_port H)) e m = Inl KeyError" by (subst http_count_ballots) (simp add: memory_port_def u w)
  show "dl_get_aggregate (http_port repr (memory_port H)) e m = Inl KeyError" by (subst http_get_aggregate) (simp_all add: memory_port_def u w)
  show "dl_list_decryption_shares (http_port repr (memory_port H)) e m = Inl KeyError" by (subst http_list_shares) (simp_all add: memory_port_def u w)
  show "dl_get_result (http_port repr (memory_port H)) e m = Inl KeyError" by (subst http_get_result) (simp_all add: memory_port_def u w)
qed

lemma wire_list_elections: "dl_list_elections (http_port repr (memory_port H)) flt m = im_list_elections flt m"
proof -
  have "im_list_elections (case flt of None \<Rightarrow> None | Some f \<Rightarrow> if ef_admin_key f = None then None else Some f) m = im_list_elections flt m"
    by (simp add: im_list_elections_def split: option.splits)
  then show ?thesis by (simp add: http_list_elections memory_port_def) (simp add: im_list_elections_def)
qed

lemma wire_count_ballots: "im_get m e = Inr st \<Longrightarrow> dl_count_ballots (http_port repr (memory_port H)) e m = im_count_ballots e m"
  by (subst http_count_ballots) (simp add: memory_port_def im_count_ballots_def)

lemma wire_dkg_submissions:
  "dl_get_dkg_submissions (http_port repr (memory_port H)) e m =
     ebind (im_get_dkg_submissions e m) (\<lambda>subs. if list_all ok_dkg_result subs then Inr subs else Inl CodecError)"
proof (cases "im_get m e")
  case (Inl err)
  then show ?thesis by (simp add: wire_reads_unknown wire_unknown)
next
  case (Inr st)
  then obtain subs where s: "im_get_dkg_submissions e m = Inr subs" by (simp add: im_get_dkg_submissions_def)
  then have "dl_get_dkg_submissions (memory_port H) e m = Inr subs" by (simp add: memory_port_def)
  from http_get_dkg_all [OF this] s show ?thesis by simp
qed

text \<open>
  C7: reads over HTTP are faithful. In every state an in-memory data layer gets into behind the
  service, for every election id, known or not, each of the nine reads through the client gives what
  the backend gives, errors included, with two differences: a page of ballots is cut at a
  thousand, and the key submissions are refused with a codec error when one of them has a field of
  another size, which the write route lets in. The paged read returns every stored ballot.
\<close>

theorem http_reads_faithful:
  assumes "wire_reachable repr H m"
  shows "dl_get_election (http_port repr (memory_port H)) e m = im_get_election e m \<and>
    dl_list_elections (http_port repr (memory_port H)) flt m = im_list_elections flt m \<and>
    dl_get_dkg_submissions (http_port repr (memory_port H)) e m =
      ebind (im_get_dkg_submissions e m) (\<lambda>subs. if list_all ok_dkg_result subs then Inr subs else Inl CodecError) \<and>
    dl_get_finalized_key (http_port repr (memory_port H)) e m = im_get_finalized_key e m \<and>
    dl_list_ballots (http_port repr (memory_port H)) e i n m = im_list_ballots e i (min n 1000) m \<and>
    dl_count_ballots (http_port repr (memory_port H)) e m = im_count_ballots e m \<and>
    read_all_ballots (http_port repr (memory_port H)) e m = ebind (im_get m e) (\<lambda>st. Inr (st_ballots st)) \<and>
    dl_get_aggregate (http_port repr (memory_port H)) e m = im_get_aggregate H e m \<and>
    dl_list_decryption_shares (http_port repr (memory_port H)) e m = im_list_decryption_shares e m \<and>
    dl_get_result (http_port repr (memory_port H)) e m = im_get_result e m"
proof (cases "im_get m e")
  case (Inl err)
  then show ?thesis
    using wire_unknown(1) [OF Inl] by (simp add: wire_reads_unknown wire_unknown wire_list_elections read_all_ballots_def)
next
  case (Inr st)
  note r = wire_reads [OF assms Inr] wire_list_elections wire_dkg_submissions wire_count_ballots [OF Inr]
  show ?thesis by (simp only: r Inr ebind_Inr simp_thms)
qed

text \<open>
  The audit through the service. Over HTTP the auditor reports what it reports at the backend,
  unless one stored key submission has a field of another size: the write route takes keys of any
  length, the client refuses to read them, and the audit of that election then always fails.
\<close>

theorem remote_audit:
  assumes "wire_reachable repr H m" and "im_get m e = Inr st"
  shows "audit S H (http_port repr (memory_port H)) e m =
    (if \<forall>p \<in> set (st_dkg_by_keyper st). ok_dkg_result (snd p) then audit S H (memory_port H) e m else Inl CodecError)"
proof -
  note r = wire_reads [OF assms]
  let ?subs = "map snd (sort_key fst (st_dkg_by_keyper st))"
  have subs: "dl_get_dkg_submissions (memory_port H) e m = Inr ?subs" using assms(2) by (simp add: memory_port_def im_get_dkg_submissions_def)
  have all: "list_all ok_dkg_result ?subs \<longleftrightarrow> (\<forall>p \<in> set (st_dkg_by_keyper st). ok_dkg_result (snd p))" by (auto simp: list_all_iff)
  have el: "\<exists>rec. im_get_election e m = Inr rec"
    using finalized_key_total [OF mem_inv_get [OF reachable_inv [OF wire_reachable_mem [OF assms(1)]] assms(2)]] assms(2)
    by (auto simp: im_get_election_def im_get_finalized_key_def)
  have bs: "read_all_ballots (memory_port H) e m = Inr (st_ballots st)"
    by (rule memory_ballots.read_all_complete) (use assms reachable_inv [OF wire_reachable_mem] in \<open>auto simp: memory_holds_def\<close>)
  have mem: "dl_get_election (memory_port H) = im_get_election" "dl_get_finalized_key (memory_port H) = im_get_finalized_key"
    "dl_get_aggregate (memory_port H) = im_get_aggregate H" "dl_list_decryption_shares (memory_port H) = im_list_decryption_shares"
    "dl_get_result (memory_port H) = im_get_result" by (simp_all add: memory_port_def)
  show ?thesis
    unfolding audit_def r http_get_dkg_all [OF subs] subs all bs mem using el by auto
qed

text \<open>The sample election behind the service, with the key submissions of two keypers.\<close>

lemma http_issue: "artifact_ok w \<Longrightarrow> do_write P now w s = Inr s' \<Longrightarrow> dl_step (http_port repr P) s s'"
  by (rule dl_step.issue [where w = w and now = now]) (simp_all add: artifact_object_ok http_write)

lemma sample_election_carried: "ok_config sample_election"
  using sample_election_ok by (simp add: ok_config_def sample_election_def)

lemma sample_wire: "wire_reachable repr sample_host (sample_memory [(1, sample_dkg 1), (2, sample_dkg 2)])"
proof -
  let ?P = "http_port repr (memory_port sample_host)"
  note p = sample_host_plain
  have "dl_step ?P InMemory_init (sample_memory [])"
    by (rule http_issue [where w = "Register sample_election (be 32 5)"]) (simp_all add: memory_port_def sample_register [OF p] sample_election_carried)
  moreover have "dl_step ?P (sample_memory []) (sample_memory [(1, sample_dkg 1)])"
    by (rule http_issue [where w = "SubmitDkg (be 32 1) (be 96 9) sample_committee (be 32 11)"])
      (use sample_submit [OF p, of 1 "[]"] in \<open>simp_all add: memory_port_def\<close>)
  moreover have "dl_step ?P (sample_memory [(1, sample_dkg 1)]) (sample_memory [(1, sample_dkg 1), (2, sample_dkg 2)])"
    by (rule http_issue [where w = "SubmitDkg (be 32 1) (be 96 9) sample_committee (be 32 12)"])
      (use sample_submit [OF p, of 2 "[(1, sample_dkg 1)]"] in \<open>simp_all add: memory_port_def\<close>)
  ultimately show ?thesis unfolding wire_reachable_def by (meson converse_rtranclp_into_rtranclp rtranclp.rtrancl_refl)
qed

lemma sample_memory_get: "im_get (sample_memory d) (be 32 1) = Inr ((Stored_init sample_election)\<lparr>st_dkg_by_keyper := d\<rparr>)"
  by (simp add: im_get_def sample_memory_def)

lemma http_port_refines_witness:
  "do_write (http_port (\<lambda>j. []) (memory_port sample_host)) 50 (Register sample_election (be 32 5)) InMemory_init = Inr (sample_memory []) \<and>
   (dl_step (memory_port sample_host))\<^sup>*\<^sup>* InMemory_init (sample_memory [(1, sample_dkg 1), (2, sample_dkg 2)])"
  using http_port_refines [of "Register sample_election (be 32 5)" "\<lambda>j. []" "memory_port sample_host" 50 InMemory_init
      "sample_memory [(1, sample_dkg 1), (2, sample_dkg 2)]"] sample_wire [of "\<lambda>j. []"] sample_election_carried
  by (simp add: wire_reachable_def memory_port_def sample_register [OF sample_host_plain])

lemma http_reads_faithful_witness:
  "dl_get_finalized_key (http_port (\<lambda>j. []) (memory_port sample_host)) (be 32 1) (sample_memory [(1, sample_dkg 1), (2, sample_dkg 2)]) =
     Inr (Some \<lparr>fk_pk_election = be 96 9, fk_committee_pks = sample_committee\<rparr>) \<and>
   dl_get_dkg_submissions (http_port (\<lambda>j. []) (memory_port sample_host)) (be 32 1) (sample_memory [(1, sample_dkg 1), (2, sample_dkg 2)]) =
     Inr [sample_dkg 1, sample_dkg 2] \<and>
   dl_get_result (http_port (\<lambda>j. []) (memory_port sample_host)) (be 32 2) (sample_memory [(1, sample_dkg 1), (2, sample_dkg 2)]) = Inl KeyError"
proof -
  let ?m = "sample_memory [(1, sample_dkg 1), (2, sample_dkg 2)]"
  have "im_get ?m (be 32 2) = Inl KeyError" by (simp add: im_get_def sample_memory_def im_put_def InMemory_init_def be_inject)
  then have "im_get_result (be 32 2) ?m = Inl KeyError" by (rule wire_unknown)
  moreover have "im_get_dkg_submissions (be 32 1) ?m = Inr [sample_dkg 1, sample_dkg 2]" by (simp add: im_get_dkg_submissions_def sample_memory_get)
  moreover have "list_all ok_dkg_result [sample_dkg 1, sample_dkg 2]" by (simp add: ok_dkg_result_def sample_dkg_def sample_committee_def)
  ultimately show ?thesis
    using http_reads_faithful [OF sample_wire, of "\<lambda>j. []" "be 32 1"] http_reads_faithful [OF sample_wire, of "\<lambda>j. []" "be 32 2"] sample_finalized
    by simp
qed

text \<open>A third keyper stores a key of 95 bytes; the memory layer takes it, the remote audit fails.\<close>

definition short_dkg :: DKGResultSubmission where
  "short_dkg = \<lparr>dkg_election_id = be 32 1, dkg_pk_election = be 95 9, dkg_committee_pks = [], dkg_keyper_signature = be 32 13\<rparr>"

lemma sample_short_wire: "wire_reachable repr sample_host (sample_memory [(1, sample_dkg 1), (2, sample_dkg 2), (3, short_dkg)])"
proof -
  let ?m = "sample_memory [(1, sample_dkg 1), (2, sample_dkg 2)]"
  have "dl_step (http_port repr (memory_port sample_host)) ?m (sample_memory [(1, sample_dkg 1), (2, sample_dkg 2), (3, short_dkg)])"
    by (rule http_issue [where w = "SubmitDkg (be 32 1) (be 95 9) [] (be 32 13)"])
      (use sample_keyper_index [OF sample_host_plain, of 3] in
        \<open>simp_all add: memory_port_def im_submit_dkg_result_def im_get_def sample_memory_def im_put_def dkg_result_digest_def Stored_init_def
          short_dkg_def Let_def\<close>)
  with sample_wire show ?thesis unfolding wire_reachable_def by (rule rtranclp.rtrancl_into_rtrancl)
qed

lemma remote_audit_witness:
  "audit zq_suite sample_host (http_port (\<lambda>j. []) (memory_port sample_host)) (be 32 1)
     (sample_memory [(1, sample_dkg 1), (2, sample_dkg 2), (3, short_dkg)]) = Inl CodecError"
  using remote_audit [OF sample_short_wire sample_memory_get, of zq_suite "\<lambda>j. []"] by (simp add: ok_dkg_result_def short_dkg_def)

end
