(* ===== verification/Keyper_Bootstrap.thy ===== *)
theory Keyper_Bootstrap
  imports Wire
begin

text \<open>
  \<^verbatim>\<open>services/keyper/keyper_bootstrap.py\<close>, \<^verbatim>\<open>services/keyper/keyper_persistence.py\<close> and
  \<^verbatim>\<open>services/common/auth.py\<close>: sealed envelopes between keypers, the signed token bundle and its replay
  guard, the retention of secrets, and the comparison of bearer tokens. The X25519, HKDF and AES-GCM
  primitives of the \<^verbatim>\<open>cryptography\<close> package are the operations of a record; the laws the envelopes
  need are a locale. The base64 text of a sealed share is taken as the bytes it stands for; clock
  readings are whole seconds.
\<close>

section \<open>Sealed envelopes\<close>

record box_ops =
  bx_public :: "bytes \<Rightarrow> bytes"
  bx_exchange :: "bytes \<Rightarrow> bytes \<Rightarrow> bytes"
  bx_derive :: "bytes \<Rightarrow> bytes \<Rightarrow> bytes"
  bx_encrypt :: "bytes \<Rightarrow> bytes \<Rightarrow> bytes \<Rightarrow> bytes"
  bx_decrypt :: "bytes \<Rightarrow> bytes \<Rightarrow> bytes \<Rightarrow> bytes option"

text \<open>
  \<open>bx_public\<close> maps a private key to its public key, \<open>bx_exchange\<close> takes a private and a public key,
  \<open>bx_derive\<close> the info text and the shared secret; \<open>bx_encrypt\<close> and \<open>bx_decrypt\<close> take key, nonce and
  text, and a decryption that does not authenticate raises \<open>InvalidTag\<close>.
\<close>

definition HKDF_INFO :: bytes where
  "HKDF_INFO = encode_utf8 ''shutter-governance-protocol-keyper-token-bootstrap-v1''"

definition SHARE_SEAL_DST :: bytes where
  "SHARE_SEAL_DST = encode_utf8 ''SHUTTER-GOVERNANCE-PROTOCOL-DKG-SHARE-SEAL-v1''"

definition x25519_seal :: "box_ops \<Rightarrow> bytes \<Rightarrow> bytes \<Rightarrow> bytes \<Rightarrow> bytes \<Rightarrow> bytes" where
  "x25519_seal B eph nonce plaintext recipient_pub =
     (let eph_pub = bx_public B eph;
          shared = bx_exchange B eph recipient_pub;
          key = bx_derive B (HKDF_INFO @ eph_pub @ recipient_pub) shared in
      eph_pub @ nonce @ bx_encrypt B key nonce plaintext)"

definition x25519_unseal :: "box_ops \<Rightarrow> bytes \<Rightarrow> bytes \<Rightarrow> bytes result" where
  "x25519_unseal B sealed recipient_priv =
     (if length sealed < 44 then Inl ValueError
      else
        let eph_pub = take 32 sealed; nonce = take 12 (drop 32 sealed); ct = drop 44 sealed;
            shared = bx_exchange B recipient_priv eph_pub;
            recipient_pub = bx_public B recipient_priv;
            key = bx_derive B (HKDF_INFO @ eph_pub @ recipient_pub) shared in
        case bx_decrypt B key nonce ct of None \<Rightarrow> Inl InvalidTag | Some p \<Rightarrow> Inr p)"

definition seal_share :: "box_ops \<Rightarrow> bytes \<Rightarrow> bytes \<Rightarrow> int \<Rightarrow> bytes \<Rightarrow> bytes" where
  "seal_share B eph nonce share recipient_pub =
     x25519_seal B eph nonce (SHARE_SEAL_DST @ be 32 (share mod CURVE_ORDER)) recipient_pub"

definition unseal_share :: "box_ops \<Rightarrow> bytes \<Rightarrow> bytes \<Rightarrow> int result" where
  "unseal_share B sealed recipient_priv =
     ebind (x25519_unseal B sealed recipient_priv) (\<lambda>plaintext.
     if take (length SHARE_SEAL_DST) plaintext \<noteq> SHARE_SEAL_DST then Inl ValueError
     else
       let body = drop (length SHARE_SEAL_DST) plaintext in
       if length body \<noteq> 32 then Inl ValueError else Inr (int_from_bytes body))"

section \<open>The encryption key of a keyper\<close>

definition ENC_PUBKEY_DST :: bytes where
  "ENC_PUBKEY_DST = encode_utf8 ''SHUTTER-GOVERNANCE-PROTOCOL-ENC-PUBKEY-v1''"

definition enc_pubkey_hash :: "host \<Rightarrow> bytes \<Rightarrow> bytes" where
  "enc_pubkey_hash H pubkey = host.keccak H (ENC_PUBKEY_DST @ pubkey)"

definition sign_encryption_pubkey :: "host \<Rightarrow> Signer \<Rightarrow> bytes \<Rightarrow> bytes result" where
  "sign_encryption_pubkey H signer pubkey =
     ebind (int_to_bytes (private_key signer) 32) (\<lambda>key. Inr (sign_message H key (enc_pubkey_hash H pubkey)))"

text \<open>\<open>s.removeprefix("0x")\<close>.\<close>

definition remove_0x :: "string \<Rightarrow> string" where
  "remove_0x s = (if take 2 s = ''0x'' then drop 2 s else s)"

definition verify_encryption_pubkey :: "host \<Rightarrow> bytes \<Rightarrow> string \<Rightarrow> string \<Rightarrow> bytes result" where
  "verify_encryption_pubkey H address pubkey_hex sig_hex =
     ebind (fromhex (remove_0x pubkey_hex)) (\<lambda>pubkey.
     ebind (fromhex (remove_0x sig_hex)) (\<lambda>sig.
     case recover_message H (enc_pubkey_hash H pubkey) sig of
       None \<Rightarrow> Inl ValueError
     | Some recovered \<Rightarrow>
         if recovered \<noteq> address then Inl ValueError
         else if length pubkey \<noteq> 32 then Inl ValueError
         else Inr pubkey))"

section \<open>The token bundle\<close>

definition BOOTSTRAP_DST :: bytes where
  "BOOTSTRAP_DST = encode_utf8 ''SHUTTER-GOVERNANCE-PROTOCOL-KEYPER-TOKEN-BOOTSTRAP-v1''"

definition NONCE_WINDOW_S :: int where "NONCE_WINDOW_S = 300"

definition payload_digest :: "host \<Rightarrow> json \<Rightarrow> bytes" where
  "payload_digest H payload = host.keccak H (BOOTSTRAP_DST @ encode_utf8 (dumps (py_repr H) payload))"

definition sign_payload :: "host \<Rightarrow> Signer \<Rightarrow> json \<Rightarrow> bytes result" where
  "sign_payload H signer payload =
     ebind (int_to_bytes (private_key signer) 32) (\<lambda>key. Inr (sign_message H key (payload_digest H payload)))"

definition verify_payload :: "host \<Rightarrow> bytes set \<Rightarrow> json \<Rightarrow> bytes \<Rightarrow> bool" where
  "verify_payload H trusted_identities payload signature =
     (case recover_message H (payload_digest H payload) signature of
        None \<Rightarrow> False
      | Some recovered \<Rightarrow> recovered \<in> trusted_identities)"

text \<open>\<open>NonceTracker\<close>: the nonces seen, each with the time it was recorded.\<close>

definition nonce_prune :: "int \<Rightarrow> (json \<times> int) list \<Rightarrow> (json \<times> int) list" where
  "nonce_prune now seen = filter (\<lambda>(n, at). \<not> now - at > NONCE_WINDOW_S) seen"

definition check_and_record :: "int \<Rightarrow> json \<Rightarrow> int \<Rightarrow> (json \<times> int) list \<Rightarrow> (json \<times> int) list \<times> bool" where
  "check_and_record now nonce timestamp seen =
     (let seen1 = nonce_prune now seen in
      if \<not> truthy nonce \<or> \<bar>now - timestamp\<bar> > NONCE_WINDOW_S then (seen1, False)
      else if map_of seen1 nonce \<noteq> None then (seen1, False)
      else (seen1 @ [(nonce, now)], True))"

definition tokens_equal :: "string \<Rightarrow> string option \<Rightarrow> bool" where
  "tokens_equal presented expected =
     (case expected of
        None \<Rightarrow> False
      | Some e \<Rightarrow> if presented = [] \<or> e = [] then False else presented = e)"

section \<open>Stored secrets\<close>

record DkgEntry =
  de_combined_share :: int
  de_expires_at :: "int option"

definition prune_expired :: "int \<Rightarrow> (string \<times> DkgEntry) list \<Rightarrow> (string \<times> DkgEntry) list" where
  "prune_expired now completed =
     filter (\<lambda>(e, v). \<not> (case de_expires_at v of None \<Rightarrow> False | Some t \<Rightarrow> t \<le> now)) completed"

section \<open>Round trip of a sealed share\<close>

text \<open>What the envelopes rely on: both sides of an exchange agree, and decryption inverts encryption.\<close>

locale sealed_box =
  fixes B :: box_ops
  assumes exchange: "bx_exchange B a (bx_public B b) = bx_exchange B b (bx_public B a)"
    and decrypt: "bx_decrypt B key nonce (bx_encrypt B key nonce p) = Some p"
    and public_length: "length (bx_public B a) = 32"
begin

lemma unseal_seal: "length nonce = 12 \<Longrightarrow> x25519_unseal B (x25519_seal B eph nonce p (bx_public B priv)) priv = Inr p"
  by (simp add: x25519_unseal_def x25519_seal_def Let_def public_length decrypt exchange [of priv eph])

lemma unseal_seal_share:
  "length nonce = 12 \<Longrightarrow> unseal_share B (seal_share B eph nonce share (bx_public B priv)) priv = Inr (share mod CURVE_ORDER)"
  by (simp add: unseal_share_def seal_share_def unseal_seal int_from_bytes_be Let_def)
    (smt (verit) CURVE_ORDER_def mod_pos_pos_trivial pos_mod_bound pos_mod_sign)

end

lemma verify_encryption_pubkey_bound:
  "verify_encryption_pubkey H a p s = Inr k \<Longrightarrow> length k = 32 \<and> (\<exists>sig. recover_message H (enc_pubkey_hash H k) sig = Some a)"
  by (auto simp: verify_encryption_pubkey_def split: option.splits if_splits)

lemma remove_0x_tohex [simp]: "remove_0x (tohex b) = tohex b"
proof (cases b)
  case (Cons x xs)
  have "hex_digit (unat x mod 16) \<noteq> CHR ''x''"
    using hex_val_digit [of "unat x mod 16"] by (auto simp: hex_val_def)
  with Cons show ?thesis by (simp add: remove_0x_def)
qed (simp add: remove_0x_def)

text \<open>The key a keyper publishes with its own signature passes the check of every peer.\<close>

lemma verify_own_pubkey:
  assumes "signs H s" and "length pub = 32"
  shows "\<exists>sig. sign_encryption_pubkey H s pub = Inr sig \<and> verify_encryption_pubkey H (identity s) (tohex pub) (tohex sig) = Inr pub"
  using assms by (simp add: signs_def sign_encryption_pubkey_def verify_encryption_pubkey_def)

section \<open>The replay guard\<close>

text \<open>A sequence of calls, each with its clock reading, nonce and timestamp.\<close>

definition nonce_calls :: "(int \<times> json \<times> int) list \<Rightarrow> (json \<times> int) list \<Rightarrow> (json \<times> int) list" where
  "nonce_calls calls seen = fold (\<lambda>(now, n, ts) seen. fst (check_and_record now n ts seen)) calls seen"

lemma nonce_kept: "(n, t) \<in> set seen \<Longrightarrow> now - t \<le> NONCE_WINDOW_S \<Longrightarrow> (n, t) \<in> set (fst (check_and_record now m ts seen))"
  by (auto simp: check_and_record_def nonce_prune_def Let_def)

lemma nonce_calls_kept:
  "(n, t) \<in> set seen \<Longrightarrow> \<forall>(now, m, ts) \<in> set calls. now - t \<le> NONCE_WINDOW_S \<Longrightarrow> (n, t) \<in> set (nonce_calls calls seen)"
  by (induction calls arbitrary: seen) (auto simp: nonce_calls_def intro!: nonce_kept)

lemma nonce_refused:
  assumes "(n, t) \<in> set seen" "now - t \<le> NONCE_WINDOW_S"
  shows "\<not> snd (check_and_record now n ts seen)"
proof -
  have "(n, t) \<in> set (nonce_prune now seen)" using assms by (auto simp: nonce_prune_def)
  then have "map_of (nonce_prune now seen) n \<noteq> None" by (auto simp: map_of_eq_None_iff intro: rev_image_eqI)
  then show ?thesis by (simp add: check_and_record_def Let_def)
qed

lemma nonce_recorded: "snd (check_and_record now n ts seen) \<Longrightarrow> (n, now) \<in> set (fst (check_and_record now n ts seen))"
  by (auto simp: check_and_record_def Let_def split: if_splits)

section \<open>Properties\<close>

text \<open>
  C39: a token bundle is installed once, unless it is dated ahead. On a clock that does not run
  backwards, a bundle whose timestamp was not in the future when it was accepted is refused ever
  after. One dated up to five minutes ahead is forgotten while it is still fresh, and is accepted
  again.
\<close>

theorem bootstrap_replay_guard:
  "(snd (check_and_record t0 n ts seen) \<and> ts \<le> t0 \<and> (\<forall>(now, m, u) \<in> set calls. t0 \<le> now \<and> now \<le> t1) \<longrightarrow>
      \<not> snd (check_and_record t1 n ts (nonce_calls calls (fst (check_and_record t0 n ts seen))))) \<and>
   (truthy n \<and> map_of seen n = None \<and> 0 < d \<and> d \<le> 300 \<longrightarrow>
      snd (check_and_record t0 n (t0 + d) seen) \<and>
      snd (check_and_record (t0 + 301) n (t0 + d) (fst (check_and_record t0 n (t0 + d) seen))))"
proof (intro conjI impI; (elim conjE)?)
  assume ok: "snd (check_and_record t0 n ts seen)" and ts: "ts \<le> t0" and calls: "\<forall>(now, m, u) \<in> set calls. t0 \<le> now \<and> now \<le> t1"
  show "\<not> snd (check_and_record t1 n ts (nonce_calls calls (fst (check_and_record t0 n ts seen))))"
  proof (cases "t1 - t0 \<le> NONCE_WINDOW_S")
    case True
    have "(n, t0) \<in> set (nonce_calls calls (fst (check_and_record t0 n ts seen)))"
      by (rule nonce_calls_kept [OF nonce_recorded [OF ok]]) (use calls True in fastforce)
    then show ?thesis using True by (rule nonce_refused)
  next
    case False
    then show ?thesis using ts by (auto simp: check_and_record_def Let_def)
  qed
next
  assume n: "truthy n" "map_of seen n = None" and d: "0 < d" "d \<le> 300"
  have none: "map_of (nonce_prune t seen) n = None" for t using n(2) by (auto simp: map_of_eq_None_iff nonce_prune_def)
  then show first: "snd (check_and_record t0 n (t0 + d) seen)" using n d by (simp add: check_and_record_def NONCE_WINDOW_S_def Let_def)
  have rec: "fst (check_and_record t0 n (t0 + d) seen) = nonce_prune t0 seen @ [(n, t0)]"
    using none n d by (simp add: check_and_record_def NONCE_WINDOW_S_def Let_def)
  have "map_of (nonce_prune (t0 + 301) (nonce_prune t0 seen @ [(n, t0)])) n = None"
    using n(2) by (auto simp: map_of_eq_None_iff nonce_prune_def NONCE_WINDOW_S_def)
  then show "snd (check_and_record (t0 + 301) n (t0 + d) (fst (check_and_record t0 n (t0 + d) seen)))"
    unfolding rec using n d by (simp add: check_and_record_def NONCE_WINDOW_S_def Let_def)
qed

lemma bootstrap_replay_guard_witness:
  "\<not> snd (check_and_record 1100 (JStr ''a'') 1000 (nonce_calls [(1050, JStr ''b'', 1050)] (fst (check_and_record 1000 (JStr ''a'') 1000 [])))) \<and>
   snd (check_and_record 1301 (JStr ''a'') 1300 (fst (check_and_record 1000 (JStr ''a'') 1300 [])))"
proof -
  have ok: "snd (check_and_record 1000 (JStr ''a'') 1000 [])" by (simp add: check_and_record_def nonce_prune_def NONCE_WINDOW_S_def)
  show ?thesis
    using ok bootstrap_replay_guard [of 1000 "JStr ''a''" 1000 "[]" "[(1050, JStr ''b'', 1050)]" 1100 300] by simp
qed

end
