(* ===== verification/Ceremony.thy ===== *)
theory Ceremony
  imports Auditor
begin

text \<open>
  \<^verbatim>\<open>services/coordinator/dkg_coordinator.py\<close>, the in-process driver: one key ceremony over live
  keypers and the retry loop around it. An attempt that raises may have changed keypers and data
  layer before, so an attempt returns both next to its outcome. \<open>rnd i j\<close> is the value keyper \<open>i\<close> draws
  for coefficient \<open>j\<close>.
\<close>

text \<open>A dictionary filled by successive assignments.\<close>

definition dict_of :: "('k \<times> 'v) list \<Rightarrow> ('k \<times> 'v) list" where
  "dict_of kvs = foldl (\<lambda>d (k, v). AList.update k v d) [] kvs"

definition ceremony_round1 ::
  "('a, 'b) suite \<Rightarrow> int \<Rightarrow> int \<Rightarrow> (int \<Rightarrow> nat \<Rightarrow> int) \<Rightarrow> 'b KeyperService list \<Rightarrow>
     'b KeyperService list \<times> (int \<times> 'b list) list \<times> (int \<times> (int \<times> int) list) list" where
  "ceremony_round1 S n t rnd keypers =
     (let outs = map (\<lambda>k. dkg_round1 S n t (rnd (kp_index k)) k) keypers in
      (map snd outs,
       dict_of (map (\<lambda>((comms, shares), k). (kp_index k, comms)) outs),
       dict_of (map (\<lambda>((comms, shares), k). (kp_index k, shares)) outs)))"

definition received_for :: "(int \<times> 'b list) list \<Rightarrow> (int \<times> (int \<times> int) list) list \<Rightarrow> int \<Rightarrow> (int \<times> int) list result" where
  "received_for all_commitments all_shares i =
     emap (\<lambda>(dealer, comms).
       case map_of all_shares dealer of
         None \<Rightarrow> Inl KeyError
       | Some shares \<Rightarrow> (case map_of shares i of None \<Rightarrow> Inl KeyError | Some v \<Rightarrow> Inr (dealer, v))) all_commitments"

fun ceremony_round2 ::
  "('a, 'b) suite \<Rightarrow> (int \<times> 'b list) list \<Rightarrow> (int \<times> (int \<times> int) list) list \<Rightarrow> 'b KeyperService list \<Rightarrow>
     'b KeyperService list \<times> unit result" where
  "ceremony_round2 S all_commitments all_shares [] = ([], Inr ())"
| "ceremony_round2 S all_commitments all_shares (k # ks) =
     (case ebind (received_for all_commitments all_shares (kp_index k)) (\<lambda>received. dkg_round2 S all_commitments received k) of
        Inl e \<Rightarrow> (k # ks, Inl e)
      | Inr (out, k') \<Rightarrow> (let (ks', r) = ceremony_round2 S all_commitments all_shares ks in (k' # ks', r)))"

fun ceremony_submit ::
  "('a, 'b) suite \<Rightarrow> host \<Rightarrow> 's ElectionDataLayer \<Rightarrow> bytes \<Rightarrow> (int \<times> 'b list) list \<Rightarrow> 'b KeyperService list \<Rightarrow> 's \<Rightarrow> 's \<times> unit result" where
  "ceremony_submit S H P election_id all_commitments [] s = (s, Inr ())"
| "ceremony_submit S H P election_id all_commitments (k # ks) s =
     (case submit_dkg_result S H P election_id all_commitments k s of
        Inl e \<Rightarrow> (s, Inl e)
      | Inr s' \<Rightarrow> ceremony_submit S H P election_id all_commitments ks s')"

definition run_dkg_once ::
  "('a, 'b) suite \<Rightarrow> host \<Rightarrow> 's ElectionDataLayer \<Rightarrow> (int \<Rightarrow> nat \<Rightarrow> int) \<Rightarrow> bytes \<Rightarrow> int \<Rightarrow> int \<Rightarrow> 'b KeyperService list \<Rightarrow> 's \<Rightarrow>
     ('s \<times> 'b KeyperService list) \<times> bool result" where
  "run_dkg_once S H P rnd election_id n t keypers s =
     (if int (length keypers) \<noteq> n then ((s, keypers), Inl DKGError)
      else
        let (ks1, all_commitments, all_shares) = ceremony_round1 S n t rnd keypers;
            (ks2, verified) = ceremony_round2 S all_commitments all_shares ks1 in
        case verified of
          Inl e \<Rightarrow> ((s, ks2), Inl e)
        | Inr _ \<Rightarrow>
            let (s', submitted) = ceremony_submit S H P election_id all_commitments ks2 s in
            ((s', ks2),
             ebind submitted (\<lambda>_.
             if ks2 = [] then Inl IndexError
             else ebind (dl_get_finalized_key P election_id s') (\<lambda>fk. Inr (fk \<noteq> None)))))"

text \<open>
  \<open>ensure_dkg\<close>: \<open>clock a\<close> is the clock reading before attempt \<open>a\<close> and \<open>rnd a\<close> the randomness of that attempt;
  the delays asked of \<open>sleep\<close> are returned in order.
\<close>

fun ensure_attempts ::
  "('a, 'b) suite \<Rightarrow> host \<Rightarrow> 's ElectionDataLayer \<Rightarrow> (nat \<Rightarrow> int) \<Rightarrow> (nat \<Rightarrow> int \<Rightarrow> nat \<Rightarrow> int) \<Rightarrow> bytes \<Rightarrow> int \<Rightarrow> int \<Rightarrow> int \<Rightarrow> int \<Rightarrow>
     nat \<Rightarrow> nat list \<Rightarrow> 'b KeyperService list \<Rightarrow> 's \<Rightarrow> ('s \<times> 'b KeyperService list) \<times> int list \<times> bool result" where
  "ensure_attempts S H P clock rnd election_id n t deadline backoff_base max_attempts [] keypers s =
     ((s, keypers), [], ebind (dl_get_finalized_key P election_id s) (\<lambda>fk. Inr (fk \<noteq> None)))"
| "ensure_attempts S H P clock rnd election_id n t deadline backoff_base max_attempts (a # as) keypers s =
     (if deadline \<le> clock a then ((s, keypers), [], Inr False)
      else
        let ((s', ks'), outcome) = run_dkg_once S H P (rnd a) election_id n t keypers s in
        if outcome = Inr True then ((s', ks'), [], Inr True)
        else
          let (rest, delays, r) = ensure_attempts S H P clock rnd election_id n t deadline backoff_base max_attempts as ks' s' in
          (rest, (if a < max_attempts - 1 then [backoff_base * 2 ^ a] else []) @ delays, r))"

definition ensure_dkg ::
  "('a, 'b) suite \<Rightarrow> host \<Rightarrow> 's ElectionDataLayer \<Rightarrow> (nat \<Rightarrow> int) \<Rightarrow> (nat \<Rightarrow> int \<Rightarrow> nat \<Rightarrow> int) \<Rightarrow> bytes \<Rightarrow> int \<Rightarrow> int \<Rightarrow> int \<Rightarrow> int \<Rightarrow>
     nat \<Rightarrow> 'b KeyperService list \<Rightarrow> 's \<Rightarrow> ('s \<times> 'b KeyperService list) \<times> int list \<times> bool result" where
  "ensure_dkg S H P clock rnd election_id n t deadline backoff_base max_attempts keypers s =
     (case dl_get_finalized_key P election_id s of
        Inl e \<Rightarrow> ((s, keypers), [], Inl e)
      | Inr (Some fk) \<Rightarrow> ((s, keypers), [], Inr True)
      | Inr None \<Rightarrow> ensure_attempts S H P clock rnd election_id n t deadline backoff_base max_attempts [0..<max_attempts] keypers s)"

section \<open>An honest committee\<close>

text \<open>The keypers of an election in any order, each with its registered key.\<close>

definition committee :: "host \<Rightarrow> ElectionConfig \<Rightarrow> 'b KeyperService list \<Rightarrow> bool" where
  "committee H config ks \<longleftrightarrow>
     length ks = length (cfg_keypers config) \<and> distinct (map kp_index ks) \<and>
     (\<forall>k \<in> set ks. 1 \<le> kp_index k \<and> kp_index k \<le> int (length (cfg_keypers config)) \<and> signs H (kp_signer k) \<and>
        ki_signing_key (cfg_keypers config ! nat (kp_index k - 1)) = identity (kp_signer k))"

lemma dict_of_distinct: "distinct (map fst kvs) \<Longrightarrow> dict_of kvs = kvs"
proof (induction kvs rule: rev_induct)
  case (snoc x xs)
  then have "foldl (\<lambda>d (k, v). AList.update k v d) [] xs = xs" "fst x \<notin> fst ` set xs" by (auto simp: dict_of_def)
  then show ?case by (cases x) (simp add: dict_of_def update_fresh)
qed (simp add: dict_of_def)

lemma committee_indices:
  assumes "committee H c ks"
  shows "sort (map kp_index ks) = [1..int (length ks)]"
proof -
  have sub: "set (map kp_index ks) \<subseteq> {1..int (length ks)}" using assms by (auto simp: committee_def)
  have "card (set (map kp_index ks)) = length ks" using assms by (simp add: committee_def distinct_card del: set_map)
  then have "set (map kp_index ks) = {1..int (length ks)}" using sub by (intro card_subset_eq) auto
  with assms show ?thesis
    by (intro sorted_distinct_set_unique) (auto simp: committee_def)
qed

text \<open>The polynomials of an attempt.\<close>

definition dealing_of :: "(int \<Rightarrow> nat \<Rightarrow> int) \<Rightarrow> int \<Rightarrow> 'b KeyperService list \<Rightarrow> (int \<times> int list) list" where
  "dealing_of rnd t ks = map (\<lambda>k. (kp_index k, map (\<lambda>j. random_scalar (rnd (kp_index k) j)) [0..<nat t])) ks"

lemma fst_dealing_of: "map fst (dealing_of rnd t ks) = map kp_index ks"
  by (simp add: dealing_of_def)

lemma dealing_well_dealt: "distinct (map kp_index ks) \<Longrightarrow> 0 \<le> t \<Longrightarrow> well_dealt t (dealing_of rnd t ks)"
  unfolding well_dealt_def fst_dealing_of by (auto simp: dealing_of_def)

lemma ceremony_round1_deals:
  assumes "distinct (map kp_index ks)" and "ceremony_round1 S n t rnd ks = (ks1, comms, shares)"
  shows "comms = deal_commitments S (dealing_of rnd t ks)"
    and "shares = map (\<lambda>(d, cs). (d, map (\<lambda>i. (i, eval_share cs i)) [1..n])) (dealing_of rnd t ks)"
    and "list_all2 (\<lambda>k k'. kp_index k' = kp_index k \<and> kp_signer k' = kp_signer k \<and>
           ks_keyper_id (kp_dkg k') = Some (kp_index k) \<and> ks_quorum (kp_dkg k') = Some t) ks ks1"
  using assms
  by (auto simp: ceremony_round1_def Let_def dkg_round1_def round1_def split_def comp_def dict_of_distinct deal_commitments_def dealing_of_def
      list_all2_map2 intro!: list.rel_refl_strong)

lemma received_for_dealt:
  assumes "distinct (map fst dealing)" "1 \<le> i" "i \<le> n"
  shows "received_for (deal_commitments S dealing) (map (\<lambda>(d, cs). (d, map (\<lambda>i. (i, eval_share cs i)) [1..n])) dealing) i =
    Inr (deal_shares dealing i)"
proof -
  let ?sh = "map (\<lambda>(d, cs). (d, map (\<lambda>i. (i, eval_share cs i)) [1..n])) dealing"
  have own: "map_of (map (\<lambda>i. (i, eval_share cs i)) [1..n]) i = Some (eval_share cs i)" for cs
    using assms(2,3) by (simp add: map_of_map_restrict)
  have look: "map_of ?sh d = Some (map (\<lambda>i. (i, eval_share cs i)) [1..n])" if "(d, cs) \<in> set dealing" for d cs
    using assms(1) that by (intro map_of_is_SomeI) (auto simp: comp_def split_def image_iff intro: bexI [of _ "(d, cs)"])
  show ?thesis
    unfolding received_for_def deal_commitments_def deal_shares_def emap_map
    by (rule emap_Inr_all) (auto simp: own look)
qed

lemma ceremony_round2_verifies:
  assumes S: "crypto_suite S" and w: "well_dealt t dealing"
    and "\<forall>k \<in> set ks. ks_keyper_id (kp_dkg k) = Some (kp_index k) \<and> ks_quorum (kp_dkg k) = Some t \<and> 1 \<le> kp_index k \<and> kp_index k \<le> n"
  shows "\<exists>ks'. ceremony_round2 S (deal_commitments S dealing) (map (\<lambda>(d, cs). (d, map (\<lambda>i. (i, eval_share cs i)) [1..n])) dealing) ks = (ks', Inr ()) \<and>
    list_all2 (\<lambda>k k'. kp_index k' = kp_index k \<and> kp_signer k' = kp_signer k \<and> ks_quorum (kp_dkg k') = Some t \<and>
      (\<exists>msk. holds_share S (kp_dkg k') msk \<and> msk mod CURVE_ORDER = peval (joint_poly dealing) (kp_index k) mod CURVE_ORDER)) ks ks'"
  using assms(3)
proof (induction ks)
  case (Cons k ks)
  have d: "distinct (map fst dealing)" using w by (simp add: well_dealt_def)
  have k: "ks_keyper_id (kp_dkg k) = Some (kp_index k)" "ks_quorum (kp_dkg k) = Some t" "1 \<le> kp_index k" "kp_index k \<le> n"
    using Cons.prems by auto
  obtain msk st' where r: "round2 S (kp_dkg k) (deal_commitments S dealing) (deal_shares dealing (kp_index k)) =
      Inr ((msk, mul (g2 S) (ggen (g2 S)) msk), st')" "msk mod CURVE_ORDER = peval (joint_poly dealing) (kp_index k) mod CURVE_ORDER"
    "ks_combined_share st' = Some msk" "ks_public_key_share st' = Some (mul (g2 S) (ggen (g2 S)) msk)"
    using crypto_suite.round2_complete [OF S w k(1,2)] by blast
  have q: "ks_quorum st' = Some t" using r(1) k(2) by (auto simp: round2_def Let_def split: if_splits)
  have "holds_share S st' msk" using r(3,4) by (simp add: holds_share_def)
  with Cons r q show ?case
    by (auto simp: received_for_dealt [OF d k(3,4)] dkg_round2_def)
qed simp

text \<open>The key and the committee keys every keyper derives from the dealing.\<close>

definition joint_key :: "('a, 'b) suite \<Rightarrow> int list \<Rightarrow> nat \<Rightarrow> FinalizedKey" where
  "joint_key S f n = \<lparr>fk_pk_election = gcompress (g2 S) (mul (g2 S) (ggen (g2 S)) (peval f 0)),
     fk_committee_pks = map (\<lambda>i. gcompress (g2 S) (mul (g2 S) (ggen (g2 S)) (peval f i))) [1..int n]\<rparr>"

context crypto_suite
begin

lemma g2_power_codec: "g2_to_compressed S (mul (g2 S) (ggen (g2 S)) a) = Inr (gcompress (g2 S) (mul (g2 S) (ggen (g2 S)) a))"
  by (rule g2_codec(1)) (rule W.gx_sub)

lemma g2_power_cong: "a mod CURVE_ORDER = b mod CURVE_ORDER \<Longrightarrow> mul (g2 S) (ggen (g2 S)) a = mul (g2 S) (ggen (g2 S)) b"
  by (simp add: mul_def)

end

lemma submit_dkg_result_signed:
  assumes S: "crypto_suite S" and w: "well_dealt t dealing" "1 \<le> t" "sort (map fst dealing) = [1..int n]"
    and q: "ks_quorum (kp_dkg k) = Some t" and sg: "signs H (kp_signer k)" and abi: "abi_total H"
  shows "\<exists>d sig. dkg_result_digest H e (fk_pk_election (joint_key S (joint_poly dealing) n)) (fk_committee_pks (joint_key S (joint_poly dealing) n)) = Inr d \<and>
    recover_digest H d sig = Some (identity (kp_signer k)) \<and>
    submit_dkg_result S H P e (deal_commitments S dealing) k s =
      dl_submit_dkg_result P e (fk_pk_election (joint_key S (joint_poly dealing) n)) (fk_committee_pks (joint_key S (joint_poly dealing) n)) sig s"
proof -
  let ?k = "joint_key S (joint_poly dealing) n" and ?p = "\<lambda>i. mul (g2 S) (ggen (g2 S)) (peval (joint_poly dealing) i)"
  have c: "g2_to_compressed S (?p i) = Inr (gcompress (g2 S) (?p i))" for i
    by (rule crypto_suite.g2_power_codec [OF S])
  have keys: "emap (\<lambda>i. derive_mpk_share S i (deal_commitments S dealing) t) (sort (map fst (deal_commitments S dealing))) = Inr (map ?p [1..int n])"
    using w(3) by (simp add: crypto_suite.fst_deal_commitments [OF S] crypto_suite.derive_mpk_share_dealt [OF S w(1)] emap_Inr_all)
  have enc: "emap (g2_to_compressed S) (map ?p [1..int n]) = Inr (fk_committee_pks ?k)"
    by (simp add: joint_key_def c emap_Inr_all)
  obtain x where "abi_bytes_array H (fk_committee_pks ?k) = Inr x" using abi by (fastforce simp: abi_total_def not_isl_iff)
  then obtain d where d: "dkg_result_digest H e (fk_pk_election ?k) (fk_committee_pks ?k) = Inr d" by (simp add: dkg_result_digest_def)
  obtain sig where sig: "sign_digest H (private_key (kp_signer k)) d = Inr sig" "recover_digest H d sig = Some (identity (kp_signer k))"
    using sign_digest_recovers [OF sg] by blast
  have "submit_dkg_result S H P e (deal_commitments S dealing) k s = dl_submit_dkg_result P e (fk_pk_election ?k) (fk_committee_pks ?k) sig s"
    using d sig(1) unfolding submit_dkg_result_def q option.case Let_def crypto_suite.derive_joint_mpk_dealt [OF S w(1,2)] keys ebind_Inr c enc
    by (simp add: sign_dkg_result_def joint_key_def)
  with d sig(2) show ?thesis by blast
qed

lemma ceremony_submit_collects:
  assumes S: "crypto_suite S" and w: "well_dealt t dealing" "1 \<le> t" "sort (map fst dealing) = [1..int n]" and abi: "abi_total H"
    and "mem_reachable H m" "im_get m e = Inr st" "\<forall>k \<in> set ks. ks_quorum (kp_dkg k) = Some t \<and> signs H (kp_signer k) \<and>
      1 \<le> kp_index k \<and> kp_index k \<le> int (length (cfg_keypers (st_config st))) \<and>
      ki_signing_key (cfg_keypers (st_config st) ! nat (kp_index k - 1)) = identity (kp_signer k)"
    and "distinct (map kp_index ks)" "\<forall>k \<in> set ks. map_of (st_dkg_by_keyper st) (kp_index k) = None"
  shows "\<exists>m' st'. ceremony_submit S H (memory_port H) e (deal_commitments S dealing) ks m = (m', Inr ()) \<and> mem_reachable H m' \<and>
    im_get m' e = Inr st' \<and> (\<exists>D. st' = st\<lparr>st_dkg_by_keyper := D\<rparr>) \<and>
    (\<forall>k \<in> set ks. \<exists>sub. map_of (st_dkg_by_keyper st') (kp_index k) = Some sub \<and>
       dkg_key sub = (fk_pk_election (joint_key S (joint_poly dealing) n), fk_committee_pks (joint_key S (joint_poly dealing) n))) \<and>
    (\<forall>i. i \<notin> kp_index ` set ks \<longrightarrow> map_of (st_dkg_by_keyper st') i = map_of (st_dkg_by_keyper st) i)"
  using assms(6-10)
proof (induction ks arbitrary: m st)
  case Nil
  have "st = st\<lparr>st_dkg_by_keyper := st_dkg_by_keyper st\<rparr>" by simp
  then have "\<exists>D. st = st\<lparr>st_dkg_by_keyper := D\<rparr>" by (rule exI)
  with Nil show ?case by auto
next
  case (Cons k ks)
  let ?fk = "joint_key S (joint_poly dealing) n"
  have k: "ks_quorum (kp_dkg k) = Some t" "signs H (kp_signer k)" "1 \<le> kp_index k" "nat (kp_index k - 1) < length (cfg_keypers (st_config st))"
    "ki_signing_key (cfg_keypers (st_config st) ! nat (kp_index k - 1)) = identity (kp_signer k)"
    "map_of (st_dkg_by_keyper st) (kp_index k) = None"
    using Cons.prems(3,5) by (simp_all, linarith)
  obtain d sig where d: "dkg_result_digest H e (fk_pk_election ?fk) (fk_committee_pks ?fk) = Inr d"
      "recover_digest H d sig = Some (identity (kp_signer k))"
      "submit_dkg_result S H (memory_port H) e (deal_commitments S dealing) k m = dl_submit_dkg_result (memory_port H) e (fk_pk_election ?fk) (fk_committee_pks ?fk) sig m"
    using submit_dkg_result_signed [OF S w k(1,2) abi, of e "memory_port H" m] by (elim exE conjE)
  let ?sub = "\<lparr>dkg_election_id = e, dkg_pk_election = fk_pk_election ?fk, dkg_committee_pks = fk_committee_pks ?fk, dkg_keyper_signature = sig\<rparr>"
  let ?st = "st\<lparr>st_dkg_by_keyper := AList.update (kp_index k) ?sub (st_dkg_by_keyper st)\<rparr>"
  have c: "config_ok (st_config st)"
    using mem_inv_get [OF reachable_inv [OF Cons.prems(1)] Cons.prems(2)] by (simp add: stored_inv_def)
  have "keyper_index_by_recovery H (st_config st) d sig = Inr (kp_index k)"
    using keyper_index_nth [OF config_ok_facts(9) [OF c] k(4), of 1] k(3,5) by (simp add: keyper_index_by_recovery_def d(2))
  then have op: "im_submit_dkg_result H e (fk_pk_election ?fk) (fk_committee_pks ?fk) sig m = Inr (im_put e ?st m)"
    using Cons.prems(2) d(1) k(6) by (simp add: im_submit_dkg_result_def Let_def)
  have "dl_step (memory_port H) m (im_put e ?st m)"
    by (rule dl_step.issue [where w = "SubmitDkg e (fk_pk_election ?fk) (fk_committee_pks ?fk) sig"]) (simp_all add: memory_port_def op)
  then have r: "mem_reachable H (im_put e ?st m)"
    using Cons.prems(1) unfolding mem_reachable_def by (rule rtranclp.rtrancl_into_rtrancl [rotated])
  have keep: "map_of (AList.update (kp_index k) ?sub (st_dkg_by_keyper st)) i = (if i = kp_index k then Some ?sub else map_of (st_dkg_by_keyper st) i)" for i
    by (simp add: update_conv)
  have g: "im_get (im_put e ?st m) e = Inr ?st" by (simp add: im_get_put)
  have new: "kp_index k \<notin> kp_index ` set ks" using Cons.prems(4) by auto
  have p3: "\<forall>k \<in> set ks. ks_quorum (kp_dkg k) = Some t \<and> signs H (kp_signer k) \<and>
      1 \<le> kp_index k \<and> kp_index k \<le> int (length (cfg_keypers (st_config ?st))) \<and>
      ki_signing_key (cfg_keypers (st_config ?st) ! nat (kp_index k - 1)) = identity (kp_signer k)"
    using Cons.prems(3) by simp
  have p4: "distinct (map kp_index ks)" using Cons.prems(4) by simp
  have p5: "\<forall>k \<in> set ks. map_of (st_dkg_by_keyper ?st) (kp_index k) = None"
    using Cons.prems(5) new by (auto simp: keep image_iff)
  obtain m' st' D where IH: "ceremony_submit S H (memory_port H) e (deal_commitments S dealing) ks (im_put e ?st m) = (m', Inr ())" "mem_reachable H m'"
    "im_get m' e = Inr st'" "st' = ?st\<lparr>st_dkg_by_keyper := D\<rparr>"
    "\<forall>k \<in> set ks. \<exists>sub. map_of (st_dkg_by_keyper st') (kp_index k) = Some sub \<and> dkg_key sub = (fk_pk_election ?fk, fk_committee_pks ?fk)"
    "\<forall>i. i \<notin> kp_index ` set ks \<longrightarrow> map_of (st_dkg_by_keyper st') i = map_of (st_dkg_by_keyper ?st) i"
    using Cons.IH [OF r g p3 p4 p5] by (elim exE conjE)
  have first: "map_of (st_dkg_by_keyper st') (kp_index k) = Some ?sub" using IH(6) new by (simp add: keep)
  have "ceremony_submit S H (memory_port H) e (deal_commitments S dealing) (k # ks) m = (m', Inr ())"
    using IH(1) op by (simp add: d(3)) (simp add: memory_port_def)
  moreover have "\<forall>k' \<in> set (k # ks). \<exists>sub. map_of (st_dkg_by_keyper st') (kp_index k') = Some sub \<and> dkg_key sub = (fk_pk_election ?fk, fk_committee_pks ?fk)"
    using IH(5) first by (auto simp: dkg_key_def)
  moreover have "\<forall>i. i \<notin> kp_index ` set (k # ks) \<longrightarrow> map_of (st_dkg_by_keyper st') i = map_of (st_dkg_by_keyper st) i"
    using IH(6) by (simp add: keep)
  moreover have "\<exists>D. st' = st\<lparr>st_dkg_by_keyper := D\<rparr>" using IH(4) by auto
  ultimately show ?case using IH(2,3) by blast
qed

lemma memory_port_key: "dl_get_finalized_key (memory_port H) = im_get_finalized_key"
  by (simp add: memory_port_def)

text \<open>The secret of a ceremony: the sum of the constant coefficients its keypers draw.\<close>

definition joint_secret :: "(int \<Rightarrow> nat \<Rightarrow> int) \<Rightarrow> 'b KeyperService list \<Rightarrow> int" where
  "joint_secret rnd ks = (\<Sum>k \<leftarrow> ks. random_scalar (rnd (kp_index k) 0))"

lemma joint_poly_secret: "1 \<le> t \<Longrightarrow> peval (joint_poly (dealing_of rnd t ks)) 0 = joint_secret rnd ks"
  unfolding joint_poly_def peval_psum by (simp add: dealing_of_def joint_secret_def comp_def peval_zero hd_map)

lemma run_dkg_once_honest:
  assumes S: "crypto_suite S" and abi: "abi_total H" and m: "mem_reachable H m" "im_get m e = Inr st"
    and fresh: "st_dkg_by_keyper st = []" and ks: "committee H (st_config st) ks"
    and n: "n = th_n (cfg_threshold (st_config st))" and t: "t = th_t (cfg_threshold (st_config st))"
  shows "\<exists>m' ks' f. run_dkg_once S H (memory_port H) rnd e n t ks m = ((m', ks'), Inr True) \<and> mem_reachable H m' \<and>
    (\<exists>D. im_get m' e = Inr (st\<lparr>st_dkg_by_keyper := D\<rparr>) \<and> finalized_key_of (st\<lparr>st_dkg_by_keyper := D\<rparr>) = Inr (Some (joint_key S f (length ks)))) \<and>
    length f \<le> nat t \<and> map kp_index ks' = map kp_index ks \<and>
    (\<forall>k \<in> set ks'. honest_keyper S H (st_config st) (fk_committee_pks (joint_key S f (length ks))) f k) \<and> peval f 0 = joint_secret rnd ks"
proof -
  let ?D = "dealing_of rnd t ks" and ?c = "st_config st"
  let ?f = "joint_poly ?D" and ?fk = "joint_key S (joint_poly ?D) (length ks)"
  have inv: "mem_inv H m" using reachable_inv [OF m(1)] .
  have c: "config_ok ?c" using mem_inv_get [OF inv m(2)] by (simp add: stored_inv_def)
  have len: "int (length ks) = n" using ks config_ok_facts(8) [OF c] n by (simp add: committee_def)
  have t1: "1 \<le> t" "t \<le> n" using config_ok_facts(10,11) [OF c] t n by simp_all
  have dist: "distinct (map kp_index ks)" using ks by (simp add: committee_def)
  have w: "well_dealt t ?D" using dealing_well_dealt [OF dist] t1 by simp
  have srt: "sort (map fst ?D) = [1..int (length ks)]" using committee_indices [OF ks] by (simp add: fst_dealing_of)
  obtain ks1 comms shares where r1: "ceremony_round1 S n t rnd ks = (ks1, comms, shares)" by (metis prod_cases3)
  note deals = ceremony_round1_deals [OF dist r1]
  have k1: "\<forall>k \<in> set ks1. ks_keyper_id (kp_dkg k) = Some (kp_index k) \<and> ks_quorum (kp_dkg k) = Some t \<and> 1 \<le> kp_index k \<and> kp_index k \<le> n"
    using deals(3) ks len by (fastforce simp: list_all2_conv_all_nth in_set_conv_nth committee_def)
  obtain ks2 where r2: "ceremony_round2 S comms shares ks1 = (ks2, Inr ())"
    and k2: "list_all2 (\<lambda>k k'. kp_index k' = kp_index k \<and> kp_signer k' = kp_signer k \<and> ks_quorum (kp_dkg k') = Some t \<and>
      (\<exists>msk. holds_share S (kp_dkg k') msk \<and> msk mod CURVE_ORDER = peval ?f (kp_index k) mod CURVE_ORDER)) ks1 ks2"
    using ceremony_round2_verifies [OF S w k1] deals(1,2) by auto
  have same: "list_all2 (\<lambda>k k'. kp_index k' = kp_index k \<and> kp_signer k' = kp_signer k \<and> ks_quorum (kp_dkg k') = Some t \<and>
      (\<exists>msk. holds_share S (kp_dkg k') msk \<and> msk mod CURVE_ORDER = peval ?f (kp_index k) mod CURVE_ORDER)) ks ks2"
    by (rule list_all2_trans [OF _ deals(3) k2]) auto
  then have idx: "map kp_index ks2 = map kp_index ks" by (induction rule: list_all2_induct) auto
  have mem: "\<forall>k \<in> set ks2. ks_quorum (kp_dkg k) = Some t \<and> signs H (kp_signer k) \<and> 1 \<le> kp_index k \<and>
      kp_index k \<le> int (length (cfg_keypers ?c)) \<and> ki_signing_key (cfg_keypers ?c ! nat (kp_index k - 1)) = identity (kp_signer k)"
    using same ks by (fastforce simp: list_all2_conv_all_nth in_set_conv_nth committee_def)
  obtain m' st' where sub: "ceremony_submit S H (memory_port H) e (deal_commitments S ?D) ks2 m = (m', Inr ())" "mem_reachable H m'"
    "im_get m' e = Inr st'" "\<exists>D. st' = st\<lparr>st_dkg_by_keyper := D\<rparr>"
    "\<forall>k \<in> set ks2. \<exists>x. map_of (st_dkg_by_keyper st') (kp_index k) = Some x \<and> dkg_key x = (fk_pk_election ?fk, fk_committee_pks ?fk)"
    using ceremony_submit_collects [OF S w t1(1) srt abi m mem] dist idx fresh by auto
  have cfg: "st_config st' = ?c" using sub(4) by auto
  have voters: "set (map kp_index ks) \<subseteq> key_voters st' ?fk" using sub(5) unfolding idx [symmetric] by (auto simp: key_voters_def)
  have fin: "finite (key_voters st' ?fk)"
    by (rule finite_subset [of _ "fst ` set (st_dkg_by_keyper st')"]) (auto simp: key_voters_def dest!: map_of_SomeD intro: rev_image_eqI)
  have "t \<le> int (card (key_voters st' ?fk))"
    using card_mono [OF fin voters] distinct_card [OF dist] t1(2) len by simp
  then have final: "finalized_key_of st' = Inr (Some ?fk)"
    using finalized_key_iff [OF mem_inv_get [OF reachable_inv [OF sub(2)] sub(3)], of ?fk] cfg t by (simp add: th_quorum_def)
  then have key: "im_get_finalized_key e m' = Inr (Some ?fk)" using sub(3) by (simp add: im_get_finalized_key_def)
  have ne: "ks2 \<noteq> []" using idx len t1 by auto
  have run: "run_dkg_once S H (memory_port H) rnd e n t ks m = ((m', ks2), Inr True)"
    using len ne key sub(1) r2 by (simp add: run_dkg_once_def r1 deals(1) memory_port_key)
  have "honest_keyper S H ?c (fk_committee_pks ?fk) ?f k" if k: "k \<in> set ks2" for k
  proof -
    from same k obtain msk where msk: "holds_share S (kp_dkg k) msk" "msk mod CURVE_ORDER = peval ?f (kp_index k) mod CURVE_ORDER"
      by (fastforce simp: list_all2_conv_all_nth in_set_conv_nth)
    have i: "1 \<le> kp_index k" "kp_index k \<le> int (length ks)" using mem k ks by (auto simp: committee_def)
    then have "[1..int (length ks)] ! nat (kp_index k - 1) = kp_index k" using nth_upto [of 1 "nat (kp_index k - 1)" "int (length ks)"] by simp
    with i have "fk_committee_pks ?fk ! nat (kp_index k - 1) = gcompress (g2 S) (mul (g2 S) (ggen (g2 S)) msk)"
      using crypto_suite.g2_power_cong [OF S msk(2)] by (simp add: joint_key_def)
    with msk i mem k show ?thesis by (auto simp: honest_keyper_def joint_key_def)
  qed
  moreover have "length ?f \<le> nat t" using length_joint_poly [OF w] t1 by linarith
  moreover have "\<exists>D. im_get m' e = Inr (st\<lparr>st_dkg_by_keyper := D\<rparr>) \<and> finalized_key_of (st\<lparr>st_dkg_by_keyper := D\<rparr>) = Inr (Some ?fk)"
    using sub(3,4) final by auto
  ultimately show ?thesis using run sub(2) idx joint_poly_secret [OF t1(1)] by blast
qed

section \<open>Properties\<close>

text \<open>
  An honest committee gets its key. When the keypers registered for an election, in any order,
  run the ceremony before its deadline, the first attempt finalizes the joint key on the data layer,
  and every keyper then holds the share of the joint polynomial that belongs to its published
  committee key. Nobody has to wait for a retry.
\<close>

theorem ceremony_finalizes:
  assumes "crypto_suite S" "abi_total H" and "mem_reachable H m" "im_get m e = Inr st"
    and "st_dkg_by_keyper st = []" "committee H (st_config st) ks"
    and "clock 0 < deadline" "1 \<le> max_attempts"
  shows "\<exists>m' ks' fk f. ensure_dkg S H (memory_port H) clock rnd e (th_n (cfg_threshold (st_config st))) (th_t (cfg_threshold (st_config st)))
      deadline backoff_base max_attempts ks m = ((m', ks'), [], Inr True) \<and> mem_reachable H m' \<and>
    im_get_finalized_key e m' = Inr (Some fk) \<and> fk_pk_election fk = gcompress (g2 S) (mul (g2 S) (ggen (g2 S)) (peval f 0)) \<and>
    length f \<le> nat (th_t (cfg_threshold (st_config st))) \<and> map kp_index ks' = map kp_index ks \<and>
    (\<forall>k \<in> set ks'. honest_keyper S H (st_config st) (fk_committee_pks fk) f k)"
proof -
  obtain m' ks' f where r: "run_dkg_once S H (memory_port H) (rnd 0) e (th_n (cfg_threshold (st_config st))) (th_t (cfg_threshold (st_config st))) ks m =
      ((m', ks'), Inr True)" "mem_reachable H m'"
    "\<exists>D. im_get m' e = Inr (st\<lparr>st_dkg_by_keyper := D\<rparr>) \<and> finalized_key_of (st\<lparr>st_dkg_by_keyper := D\<rparr>) = Inr (Some (joint_key S f (length ks)))"
    "length f \<le> nat (th_t (cfg_threshold (st_config st)))" "map kp_index ks' = map kp_index ks"
    "\<forall>k \<in> set ks'. honest_keyper S H (st_config st) (fk_committee_pks (joint_key S f (length ks))) f k"
    using run_dkg_once_honest [OF assms(1-6) refl refl, of "rnd 0"] by blast
  have inv: "stored_inv H e st" using mem_inv_get [OF reachable_inv [OF assms(3)] assms(4)] .
  have "finalized_key_of st \<noteq> Inr (Some k)" for k
    using finalized_key_iff [OF inv, of k] quorum_facts(2) [OF inv] assms(5) by (auto simp: key_voters_def)
  then have "finalized_key_of st = Inr None" using finalized_key_total [OF inv] by (metis not_None_eq)
  then have none: "im_get_finalized_key e m = Inr None" using assms(4) by (simp add: im_get_finalized_key_def)
  have "[0..<max_attempts] = 0 # [1..<max_attempts]" using assms(8) by (simp add: upt_rec)
  then have "ensure_dkg S H (memory_port H) clock rnd e (th_n (cfg_threshold (st_config st))) (th_t (cfg_threshold (st_config st)))
      deadline backoff_base max_attempts ks m = ((m', ks'), [], Inr True)"
    using none assms(7) by (simp add: ensure_dkg_def r(1) memory_port_key)
  then show ?thesis using r by (intro exI [of _ m'] exI [of _ ks'] exI [of _ "joint_key S f (length ks)"] exI [of _ f]) (auto simp: joint_key_def im_get_finalized_key_def)
qed

lemma sample_fresh: "mem_reachable tally_host (sample_memory [])" "im_get (sample_memory []) (be 32 1) = Inr (Stored_init sample_election)"
proof -
  have "dl_step (memory_port tally_host) InMemory_init (sample_memory [])"
    by (rule dl_step.issue [where w = "Register sample_election (be 32 5)"])
      (simp_all add: memory_port_def sample_register [OF tally_host_laws(1)] sample_election_ok)
  then show "mem_reachable tally_host (sample_memory [])" unfolding mem_reachable_def by (rule r_into_rtranclp)
  show "im_get (sample_memory []) (be 32 1) = Inr (Stored_init sample_election)"
    by (simp add: im_get_def sample_memory_def Stored_init_def)
qed

lemma sample_fresh_sel: "st_config (Stored_init c) = c" "st_dkg_by_keyper (Stored_init c) = []"
  by (simp_all add: Stored_init_def)

definition sample_novice :: "int \<Rightarrow> int KeyperService" where
  "sample_novice i = KeyperService_init i (sample_signer (10 + i))"

lemma sample_committee_members: "committee tally_host sample_election [sample_novice 2, sample_novice 1, sample_novice 3]"
  by (auto simp: committee_def sample_novice_def KeyperService_init_def sample_signs sample_election_def sample_identity_def)
    (simp_all add: sample_signer_def)

lemma sample_sizes: "th_n (cfg_threshold sample_election) = 3" "th_t (cfg_threshold sample_election) = 2"
    "map kp_index [sample_novice 2, sample_novice 1, sample_novice 3] = [2, 1, 3]"
  by (simp_all add: sample_election_def sample_novice_def KeyperService_init_def)

lemma ceremony_finalizes_witness:
  "\<exists>m' ks' fk. ensure_dkg zq_suite tally_host (memory_port tally_host) (\<lambda>a. 50) (\<lambda>a i j. 7 * i + int j) (be 32 1) 3 2 90 10 5
       [sample_novice 2, sample_novice 1, sample_novice 3] (sample_memory []) = ((m', ks'), [], Inr True) \<and>
     im_get_finalized_key (be 32 1) m' = Inr (Some fk) \<and> map kp_index ks' = [2, 1, 3]"
  using ceremony_finalizes [OF zq.crypto_suite_axioms tally_host_laws(2) sample_fresh, unfolded sample_fresh_sel, OF refl sample_committee_members,
      where clock = "\<lambda>a. 50" and deadline = 90 and max_attempts = 5 and rnd = "\<lambda>a i j. 7 * i + int j" and backoff_base = 10]
  unfolding sample_sizes by simp (elim exE conjE, intro exI conjI, assumption+)

text \<open>
  C3: an election runs through. From the registration of an election, the ceremony of its honest
  committee finalizes the key that belongs to the sum of the secrets of all its keypers, and leads to
  a state from which, whatever was written since, any quorum of that committee finishes the tally once
  voting has ended: the published totals are the weighted votes of the admitted ballots, encrypted to that
  key.
\<close>

theorem election_runs_through:
  assumes S: "crypto_suite S" and abi: "abi_total H" and m: "mem_reachable H m" "im_get m e = Inr st"
    and start: "st_dkg_by_keyper st = []" "committee H (st_config st) ks" "cfg_mode (st_config st) = EXACT" "length ks < 65536"
  shows "\<exists>m1 ks1 fk. run_dkg_once S H (memory_port H) rnd e (th_n (cfg_threshold (st_config st))) (th_t (cfg_threshold (st_config st))) ks m =
      ((m1, ks1), Inr True) \<and> im_get_finalized_key e m1 = Inr (Some fk) \<and> map kp_index ks1 = map kp_index ks \<and>
    fk_pk_election fk = gcompress (g2 S) (mul (g2 S) (ggen (g2 S)) (joint_secret rnd ks)) \<and>
    (\<forall>m2 st2 adm v r now rnd2 pub quorum.
       (dl_step (memory_port H))\<^sup>*\<^sup>* m1 m2 \<and> im_get m2 e = Inr st2 \<and> \<not> st_cancelled st2 \<and> st_result st2 = None \<and>
       st_aggregate_by_keyper st2 = [] \<and> st_shares_by_keyper st2 = [] \<and> cfg_voting_end (st_config st) \<le> now \<and>
       admit S (st_ballots st2) (st_config st) (fk_pk_election fk) = Inr adm \<and>
       (\<forall>ab \<in> set (ar_admitted adm). encrypts S (joint_secret rnd ks) ab (nat (cfg_num_candidates (st_config st))) (v ab) (r ab) \<and> 0 \<le> ab_weight ab \<and>
          (\<forall>j. 0 \<le> v ab j) \<and> (\<Sum>j \<leftarrow> [0..<nat (cfg_num_candidates (st_config st))]. v ab j) = cfg_budget (st_config st)) \<and>
       cfg_budget (st_config st) * (\<Sum>ab \<leftarrow> ar_admitted adm. scaled_weight (ab_weight ab) (cfg_scale (st_config st))) < CURVE_ORDER \<and>
       u256 (ar_total_admitted_weight adm) \<and> int (length (st_ballots st2)) < 2 ^ 256 \<and>
       set quorum \<subseteq> set ks1 \<and> distinct (map kp_index quorum) \<and> th_t (cfg_threshold (st_config st)) \<le> int (length quorum) \<and>
       signs H pub \<and> identity pub = cfg_result_publisher_key (st_config st) \<longrightarrow>
       (\<exists>m3 res. run_tally S H (memory_port H) now now rnd2 e pub quorum m2 = Inr (m3, Some res) \<and> im_get_result e m3 = Inr (Some res) \<and>
          res_totals res = map (\<lambda>j. \<Sum>ab \<leftarrow> ar_admitted adm. scaled_weight (ab_weight ab) (cfg_scale (st_config st)) * v ab j)
            [0..<nat (cfg_num_candidates (st_config st))]))"
proof -
  obtain m1 ks1 f where c: "run_dkg_once S H (memory_port H) rnd e (th_n (cfg_threshold (st_config st))) (th_t (cfg_threshold (st_config st))) ks m =
      ((m1, ks1), Inr True)" "mem_reachable H m1"
    "\<exists>D. im_get m1 e = Inr (st\<lparr>st_dkg_by_keyper := D\<rparr>) \<and> finalized_key_of (st\<lparr>st_dkg_by_keyper := D\<rparr>) = Inr (Some (joint_key S f (length ks)))"
    "length f \<le> nat (th_t (cfg_threshold (st_config st)))" "map kp_index ks1 = map kp_index ks"
    "\<forall>k \<in> set ks1. honest_keyper S H (st_config st) (fk_committee_pks (joint_key S f (length ks))) f k" "peval f 0 = joint_secret rnd ks"
    using run_dkg_once_honest [OF S abi m start(1,2) refl refl, of rnd] by blast
  let ?fk = "joint_key S f (length ks)"
  have len: "length (fk_committee_pks ?fk) < 65536" using start(4) by (simp add: joint_key_def)
  obtain st1 where st1: "im_get m1 e = Inr st1" "finalized_key_of st1 = Inr (Some ?fk)" "st_config st1 = st_config st" using c(3) by auto
  have run: "\<exists>m3 res. run_tally S H (memory_port H) now now rnd2 e pub quorum m2 = Inr (m3, Some res) \<and> im_get_result e m3 = Inr (Some res) \<and>
          res_totals res = map (\<lambda>j. \<Sum>ab \<leftarrow> ar_admitted adm. scaled_weight (ab_weight ab) (cfg_scale (st_config st)) * v ab j)
            [0..<nat (cfg_num_candidates (st_config st))]"
    if steps: "(dl_step (memory_port H))\<^sup>*\<^sup>* m1 m2" and g: "im_get m2 e = Inr st2"
      and fresh: "\<not> st_cancelled st2" "st_result st2 = None" "st_aggregate_by_keyper st2 = []" "st_shares_by_keyper st2 = []"
      and now: "cfg_voting_end (st_config st) \<le> now" and adm: "admit S (st_ballots st2) (st_config st) (fk_pk_election ?fk) = Inr adm"
      and enc: "\<forall>ab \<in> set (ar_admitted adm). encrypts S (joint_secret rnd ks) ab (nat (cfg_num_candidates (st_config st))) (v ab) (r ab) \<and> 0 \<le> ab_weight ab \<and>
          (\<forall>j. 0 \<le> v ab j) \<and> (\<Sum>j \<leftarrow> [0..<nat (cfg_num_candidates (st_config st))]. v ab j) = cfg_budget (st_config st)"
      and bound: "cfg_budget (st_config st) * (\<Sum>ab \<leftarrow> ar_admitted adm. scaled_weight (ab_weight ab) (cfg_scale (st_config st))) < CURVE_ORDER"
        "u256 (ar_total_admitted_weight adm)" "int (length (st_ballots st2)) < 2 ^ 256"
      and q: "set quorum \<subseteq> set ks1" "distinct (map kp_index quorum)" "th_t (cfg_threshold (st_config st)) \<le> int (length quorum)"
      and pub: "signs H pub" "identity pub = cfg_result_publisher_key (st_config st)"
    for m2 st2 adm v r now rnd2 pub quorum
  proof -
    have reach: "mem_reachable H m2" using c(2) steps unfolding mem_reachable_def by (rule rtranclp_trans)
    have inv: "mem_inv H m1" using reachable_inv [OF c(2)] .
    have ev: "evolves H e st1 st2" using steps_evolve [OF steps inv st1(1)] g by auto
    have cfg: "st_config st2 = st_config st" using ev st1(3) by (simp add: evolves_def)
    have key: "finalized_key_of st2 = Inr (Some ?fk)"
      using finalized_key_stable [OF mem_inv_get [OF inv st1(1)] _ ev] mem_inv_get [OF reachable_inv [OF reach] g] ev st1(2) by blast
    note tally = run_tally_honest [where f = f and r = r and v = v and rnd = rnd2 and now = now and adm = adm and ks = quorum and pub = pub,
        OF S abi reach g fresh _ _ key len, unfolded cfg]
    have "\<exists>m3 res. run_tally S H (memory_port H) now now rnd2 e pub quorum m2 = Inr (m3, Some res) \<and> im_get_result e m3 = Inr (Some res) \<and>
          res_totals res = map (\<lambda>j. \<Sum>ab \<leftarrow> ar_admitted adm. scaled_weight (ab_weight ab) (cfg_scale (st_config st)) * v ab j)
            [0..<nat (cfg_num_candidates (st_config st))]"
      by (rule tally [THEN exE]) (use now start(3) adm enc bound q c(4,6,7) pub in \<open>auto simp: im_get_result_def\<close>)
    then show ?thesis .
  qed
  have key1: "im_get_finalized_key e m1 = Inr (Some ?fk)" using st1 by (simp add: im_get_finalized_key_def)
  have pk: "fk_pk_election ?fk = gcompress (g2 S) (mul (g2 S) (ggen (g2 S)) (joint_secret rnd ks))" by (simp add: joint_key_def c(7))
  show ?thesis
    by (rule exI [of _ m1], rule exI [of _ ks1], rule exI [of _ ?fk], intro conjI allI impI c(1,5) key1 pk) (elim conjE, rule run)
qed

text \<open>A ballot cast in the sample election once its key is final.\<close>

lemma cast_ballot_step:
  assumes m: "im_get m (be 32 1) = Inr st" "st_config st = sample_election" "finalized_key_of st = Inr (Some fk)" "\<not> st_cancelled st" "st_result st = None"
  shows "\<exists>m2. dl_step (memory_port H) m m2 \<and> im_get m2 (be 32 1) = Inr (st\<lparr>st_ballots := st_ballots st @
    [\<lparr>sb_sequence_number = int (length (st_ballots st)), sb_envelope = b, sb_submitted_at = Some 150\<rparr>]\<rparr>)"
proof -
  have "require_voting_open st 150 = Inr ()"
    unfolding require_voting_open_def m(3) using m by (simp add: derive_state_def sample_election_def Let_def)
  moreover have "require_gateway H st b [] = Inr ()" using m by (simp add: require_gateway_def sample_election_def)
  ultimately have "dl_step (memory_port H) m (im_put (be 32 1) (st\<lparr>st_ballots := st_ballots st @
      [\<lparr>sb_sequence_number = int (length (st_ballots st)), sb_envelope = b, sb_submitted_at = Some 150\<rparr>]\<rparr>) m)"
    using m by (intro dl_step.issue [where w = "SubmitBallot (be 32 1) b []" and now = 150]) (simp_all add: memory_port_def im_submit_ballot_def Let_def)
  then show ?thesis by (intro exI conjI) (assumption, simp)
qed

lemma length_three: "length [a, b, c] = 3"
  by simp

lemma sample_joint_secret: "joint_secret (\<lambda>i j. 2) [sample_novice 2, sample_novice 1, sample_novice 3] = 9"
    "gcompress (g2 zq_suite) (mul (g2 zq_suite) (ggen (g2 zq_suite)) 9) = be 96 9"
  by (simp_all add: joint_secret_def random_scalar_def zq_suite_def zq_group_def mul_def CURVE_ORDER_def)

text \<open>One voter of weight 7 casts the votes 1 and 2.\<close>

lemma election_runs_through_witness:
  "\<exists>m1 ks1 m2 m3 res. run_dkg_once zq_suite tally_host (memory_port tally_host) (\<lambda>i j. 2) (be 32 1) 3 2
       [sample_novice 2, sample_novice 1, sample_novice 3] (sample_memory []) = ((m1, ks1), Inr True) \<and>
     dl_step (memory_port tally_host) m1 m2 \<and>
     run_tally zq_suite tally_host (memory_port tally_host) 200 200 (\<lambda>i j. 0) (be 32 1) (sample_signer 4) ks1 m2 = Inr (m3, Some res) \<and>
     im_get_result (be 32 1) m3 = Inr (Some res) \<and> res_totals res = [7, 14]"
proof -
  let ?ks = "[sample_novice 2, sample_novice 1, sample_novice 3]" and ?rnd = "\<lambda>i j. 2" and ?P = "memory_port tally_host"
  obtain m1 ks1 f D where r: "run_dkg_once zq_suite tally_host ?P ?rnd (be 32 1) 3 2 ?ks (sample_memory []) = ((m1, ks1), Inr True)"
    "im_get m1 (be 32 1) = Inr ((Stored_init sample_election)\<lparr>st_dkg_by_keyper := D\<rparr>)" "map kp_index ks1 = [2, 1, 3]"
    "finalized_key_of ((Stored_init sample_election)\<lparr>st_dkg_by_keyper := D\<rparr>) = Inr (Some (joint_key zq_suite f 3))"
    using run_dkg_once_honest [OF zq.crypto_suite_axioms tally_host_laws(2) sample_fresh, unfolded sample_fresh_sel, OF refl sample_committee_members
        refl refl, of ?rnd] unfolding sample_sizes length_three by (elim exE conjE) (rule that)
  have len: "length ks1 = 3" using r(3) by (metis length_map length_Cons list.size(3) numeral_3_eq_3)
  have "length ?ks < 65536" by simp
  from election_runs_through [OF zq.crypto_suite_axioms tally_host_laws(2) sample_fresh, unfolded sample_fresh_sel, OF refl sample_committee_members
      sample_election_sel(5) this, of ?rnd, unfolded sample_sizes sample_joint_secret]
  obtain n1 l1 and fk :: FinalizedKey where n1: "run_dkg_once zq_suite tally_host ?P ?rnd (be 32 1) 3 2 ?ks (sample_memory []) = ((n1, l1), Inr True)"
    and pk: "fk_pk_election fk = be 96 9"
    and all: "\<forall>m2 st2 adm v r now rnd2 pub quorum.
       (dl_step ?P)\<^sup>*\<^sup>* n1 m2 \<and> im_get m2 (be 32 1) = Inr st2 \<and> \<not> st_cancelled st2 \<and> st_result st2 = None \<and>
       st_aggregate_by_keyper st2 = [] \<and> st_shares_by_keyper st2 = [] \<and> cfg_voting_end sample_election \<le> now \<and>
       admit zq_suite (st_ballots st2) sample_election (fk_pk_election fk) = Inr adm \<and>
       (\<forall>ab \<in> set (ar_admitted adm). encrypts zq_suite 9 ab (nat (cfg_num_candidates sample_election)) (v ab) (r ab) \<and> 0 \<le> ab_weight ab \<and>
          (\<forall>j. 0 \<le> v ab j) \<and> (\<Sum>j \<leftarrow> [0..<nat (cfg_num_candidates sample_election)]. v ab j) = cfg_budget sample_election) \<and>
       cfg_budget sample_election * (\<Sum>ab \<leftarrow> ar_admitted adm. scaled_weight (ab_weight ab) (cfg_scale sample_election)) < CURVE_ORDER \<and>
       u256 (ar_total_admitted_weight adm) \<and> int (length (st_ballots st2)) < 2 ^ 256 \<and>
       set quorum \<subseteq> set l1 \<and> distinct (map kp_index quorum) \<and> 2 \<le> int (length quorum) \<and>
       signs tally_host pub \<and> identity pub = cfg_result_publisher_key sample_election \<longrightarrow>
       (\<exists>m3 res. run_tally zq_suite tally_host ?P now now rnd2 (be 32 1) pub quorum m2 = Inr (m3, Some res) \<and> im_get_result (be 32 1) m3 = Inr (Some res) \<and>
          res_totals res = map (\<lambda>j. \<Sum>ab \<leftarrow> ar_admitted adm. scaled_weight (ab_weight ab) (cfg_scale sample_election) * v ab j)
            [0..<nat (cfg_num_candidates sample_election)])"
    by (elim exE conjE) (rule that)
  have eq: "n1 = m1" "l1 = ks1" using n1 r(1) by simp_all
  obtain b where b: "att_weight (be_attestation b) = 7" "\<And>seq ts. is_voting_open sample_election ts \<Longrightarrow>
       validate_ballot zq_suite \<lparr>sb_sequence_number = seq, sb_envelope = b, sb_submitted_at = Some ts\<rparr> sample_election 9 = Inr None"
    "\<exists>r. emap (decompress_ct zq_suite) (map (\<lambda>ct. (ct_c1 ct, ct_c2 ct)) (be_ciphertexts b)) =
       Inr (map (\<lambda>j. Enc zq_suite 9 ([1, 2] ! j) (r j)) [0..<2])"
    by (rule sample_election_ballot [of 1]) auto
  let ?sb = "\<lparr>sb_sequence_number = 0, sb_envelope = b, sb_submitted_at = Some 150\<rparr>"
  let ?st2 = "(Stored_init sample_election)\<lparr>st_dkg_by_keyper := D, st_ballots := [?sb]\<rparr>"
  obtain m2 where m2: "dl_step ?P m1 m2" "im_get m2 (be 32 1) = Inr ?st2"
    using cast_ballot_step [OF r(2) _ r(4), of tally_host b] by (auto simp: Stored_init_def)
  obtain rr where "emap (decompress_ct zq_suite) (map (\<lambda>ct. (ct_c1 ct, ct_c2 ct)) (be_ciphertexts b)) =
       Inr (map (\<lambda>j. Enc zq_suite 9 ([1, 2] ! j) (rr j)) [0..<2])" using b(3) by blast
  then have e: "encrypts zq_suite 9 (admitted_of ?sb) 2 (\<lambda>j. if j = 0 then 1 else if j = 1 then 2 else 0) rr"
    by (simp add: encrypts_def admitted_of_def zq_points upt_rec) (simp add: zq_suite_def zq_group_def mul_def CURVE_ORDER_def)
  have v: "validate_ballot zq_suite ?sb sample_election 9 = Inr None" by (rule b(2)) (simp add: is_voting_open_def sample_election_def)
  have w: "ab_weight (admitted_of ?sb) = 7" using b(1) by (simp add: admitted_of_def)
  let ?adm = "\<lparr>ar_admitted = [admitted_of ?sb], ar_exclusions = [], ar_total_admitted_weight = ab_weight (admitted_of ?sb)\<rparr>"
  have "\<exists>m3 res. run_tally zq_suite tally_host ?P 200 200 (\<lambda>i j. 0) (be 32 1) (sample_signer 4) ks1 m2 = Inr (m3, Some res) \<and>
      im_get_result (be 32 1) m3 = Inr (Some res) \<and>
      res_totals res = map (\<lambda>j. \<Sum>ab \<leftarrow> ar_admitted ?adm. scaled_weight (ab_weight ab) (cfg_scale sample_election) *
        (if j = 0 then 1 else if j = 1 then 2 else 0)) [0..<nat (cfg_num_candidates sample_election)]"
    by (rule all [unfolded eq, THEN spec, of m2, THEN spec, of ?st2, THEN spec, of ?adm, THEN spec, of "\<lambda>_ j. if j = 0 then 1 else if j = 1 then 2 else 0",
          THEN spec, of "\<lambda>_. rr", THEN spec, THEN spec, THEN spec, THEN spec, THEN mp])
      (use r_into_rtranclp [of "dl_step ?P", OF m2(1)] m2(2) r len e w sample_quorum(4,5) sample_admission [OF v] in
        \<open>simp_all add: pk sample_election_sel Stored_init_def u256_def CURVE_ORDER_def scaled_weight_one upt_rec\<close>)
  then show ?thesis using r(1) m2(1) by (auto simp: sample_election_sel scaled_weight_one upt_rec w)
qed

end
