(* ===== verification/Keyper_Server.thy ===== *)
theory Keyper_Server
  imports Keyper_Bootstrap Ceremony
begin

text \<open>
  \<^verbatim>\<open>services/keyper/keyper_server.py\<close>: the HTTP service of one committee member. A handler takes the
  fields of the request it reads, the data layer (reads through \<open>P\<close>, writes through \<open>Q\<close>, both in the state
  \<open>s\<close>) and the state of the process, and returns the new state with the HTTP status; an exception no
  handler catches is status 500. Posts to peers are returned as messages. Aggregation runs on worker
  threads, which the state counts; handlers that hold the lock are single steps.
\<close>

section \<open>State\<close>

record 'b Inbox =
  ib_commitments :: "(int \<times> 'b list) list"
  ib_shares :: "(int \<times> int) list"
  ib_complained :: "int set"
  ib_share_sigs :: "(int \<times> string) list"

definition Inbox_init :: "'b Inbox" where
  "Inbox_init = \<lparr>ib_commitments = [], ib_shares = [], ib_complained = {}, ib_share_sigs = []\<rparr>"

datatype aggregate_status = Running | Submitted

record Installed =
  in_api_token :: "string option"
  in_peer_token :: "string option"
  in_relay_token :: "string option"
  in_peers :: json

definition Installed_init :: Installed where
  "Installed_init = \<lparr>in_api_token = None, in_peer_token = None, in_relay_token = None, in_peers = JObj []\<rparr>"

record 'b KeyperServer =
  sv_signer :: Signer
  sv_completed :: "(string \<times> DkgEntry) list"
  sv_dkg_states :: "(string \<times> 'b KeyperDKGState) list"
  sv_inbox :: "(string \<times> 'b Inbox) list"
  sv_aggregate_state :: "(string \<times> aggregate_status) list"
  sv_workers :: "string list"
  sv_installed :: Installed
  sv_seen :: "(json \<times> int) list"

definition KeyperServer_init :: "Signer \<Rightarrow> 'b KeyperServer" where
  "KeyperServer_init signer =
     \<lparr>sv_signer = signer, sv_completed = [], sv_dkg_states = [], sv_inbox = [], sv_aggregate_state = [], sv_workers = [],
      sv_installed = Installed_init, sv_seen = []\<rparr>"

text \<open>
  A restart reloads the secrets and the tokens, which are saved at every change; everything else is
  gone, the ceremony in progress and the recorded nonces included.
\<close>

definition restart :: "'b KeyperServer \<Rightarrow> 'b KeyperServer" where
  "restart sv = (KeyperServer_init (sv_signer sv))\<lparr>sv_completed := sv_completed sv, sv_installed := sv_installed sv\<rparr>"

definition sv_prune :: "int \<Rightarrow> 'b KeyperServer \<Rightarrow> 'b KeyperServer" where
  "sv_prune now sv = sv\<lparr>sv_completed := prune_expired now (sv_completed sv)\<rparr>"

section \<open>Helpers\<close>

definition server_config :: "'s ElectionDataLayer \<Rightarrow> 's \<Rightarrow> bytes \<Rightarrow> ElectionConfig result" where
  "server_config P s election_id = ebind (dl_get_election P election_id s) (\<lambda>rec. Inr (er_config rec))"

text \<open>\<open>_my_index\<close>; \<open>None\<close> is the \<open>abort(403)\<close>.\<close>

definition my_index :: "ElectionConfig \<Rightarrow> 'b KeyperServer \<Rightarrow> int option" where
  "my_index config sv = keyper_index (identity (sv_signer sv)) 1 (cfg_keypers config)"

definition members_addr :: "ElectionConfig \<Rightarrow> int \<Rightarrow> bytes option" where
  "members_addr config index =
     (if 1 \<le> index \<and> index \<le> int (length (cfg_keypers config)) then Some (ki_signing_key (cfg_keypers config ! nat (index - 1))) else None)"

definition inbox_of :: "'b KeyperServer \<Rightarrow> string \<Rightarrow> 'b Inbox" where
  "inbox_of sv eid_hex = (case map_of (sv_inbox sv) eid_hex of None \<Rightarrow> Inbox_init | Some box \<Rightarrow> box)"

definition put_inbox :: "string \<Rightarrow> 'b Inbox \<Rightarrow> 'b KeyperServer \<Rightarrow> 'b KeyperServer" where
  "put_inbox eid_hex box sv = sv\<lparr>sv_inbox := AList.update eid_hex box (sv_inbox sv)\<rparr>"

text \<open>
  \<open>ok = addr is not None and recover_digest(digest, sig) == addr\<close> in a \<open>try\<close>: a signature that is absent or
  no hexadecimal text, and a \<open>ValueError\<close>, \<open>KeyError\<close> or \<open>TypeError\<close> of the digest are \<open>False\<close>.
\<close>

definition signed_by :: "host \<Rightarrow> bytes option \<Rightarrow> bytes result \<Rightarrow> string option \<Rightarrow> bool result" where
  "signed_by H addr digest sig_hex =
     (case sig_hex of
        None \<Rightarrow> Inr False
      | Some t \<Rightarrow>
          (case fromhex (remove_0x t) of
             Inl e \<Rightarrow> Inr False
           | Inr sig \<Rightarrow>
               (case addr of
                  None \<Rightarrow> Inr False
                | Some a \<Rightarrow>
                    (case digest of
                       Inl e \<Rightarrow> if e \<in> {ValueError, KeyError, TypeError} then Inr False else Inl e
                     | Inr d \<Rightarrow> Inr (recover_digest H d sig = Some a)))))"

section \<open>Access\<close>

definition OPEN_PATHS :: "string list" where "OPEN_PATHS = [''/status'', ''/health'', ''/auth/bootstrap'']"

definition PEER_PATHS :: "string list" where "PEER_PATHS = [''/dkg/receive_commitments'', ''/dkg/receive_share'']"

definition bearer_of :: "string \<Rightarrow> string" where
  "bearer_of header = strip (if take 7 header = ''Bearer '' then drop 7 header else header)"

text \<open>\<open>_require_bearer\<close>: \<open>None\<close> lets the request pass to its handler.\<close>

definition require_bearer :: "string \<Rightarrow> string \<Rightarrow> 'b KeyperServer \<Rightarrow> int option" where
  "require_bearer path header sv =
     (if path \<in> set OPEN_PATHS then None
      else if in_api_token (sv_installed sv) = None then Some 503
      else
        let expected = (if path \<in> set PEER_PATHS then in_peer_token (sv_installed sv) else in_api_token (sv_installed sv)) in
        if \<not> tokens_equal (bearer_of header) expected then Some 401 else None)"

text \<open>
  \<open>/auth/bootstrap\<close> after the payload is unsealed; \<open>None\<close> is a body that cannot be unsealed. The tokens are
  assigned one after the other. \<open>peers\<close> is an object (a list of pairs, which \<open>dict\<close> would take too, is not
  modelled).
\<close>

definition install_tokens :: "host \<Rightarrow> json \<Rightarrow> 'b KeyperServer \<Rightarrow> 'b KeyperServer \<times> int" where
  "install_tokens H payload sv =
     (case get_item payload ''api_token'' of
        Inl e \<Rightarrow> (sv, 500)
      | Inr api \<Rightarrow>
          let i1 = (sv_installed sv)\<lparr>in_api_token := Some (py_str (py_repr H) api)\<rparr> in
          (case get_item payload ''peer_token'' of
             Inl e \<Rightarrow> (sv\<lparr>sv_installed := i1\<rparr>, 500)
           | Inr peer \<Rightarrow>
               let i2 = i1\<lparr>in_peer_token := Some (py_str (py_repr H) peer)\<rparr> in
               (case get_item payload ''peers'' of
                  Inr (JObj peers) \<Rightarrow>
                    let relay = get_or payload ''relay_token'' JNull;
                        i3 = i2\<lparr>in_peers := JObj peers\<rparr> in
                    (sv\<lparr>sv_installed := (if truthy relay then i3\<lparr>in_relay_token := Some (py_str (py_repr H) relay)\<rparr> else i3)\<rparr>, 200)
                | _ \<Rightarrow> (sv\<lparr>sv_installed := i2\<rparr>, 500))))"

definition sv_bootstrap :: "host \<Rightarrow> bytes set \<Rightarrow> int \<Rightarrow> json option \<Rightarrow> string \<Rightarrow> 'b KeyperServer \<Rightarrow> 'b KeyperServer \<times> int" where
  "sv_bootstrap H trusted now unsealed signature sv =
     (case unsealed of
        None \<Rightarrow> (sv, 400)
      | Some payload \<Rightarrow>
          (case fromhex signature of
             Inl e \<Rightarrow> (sv, 500)
           | Inr sig \<Rightarrow>
               if \<not> verify_payload H trusted payload sig then (sv, 401)
               else
                 (case ebind (get_opt payload ''timestamp'') (\<lambda>_. py_int (get_or payload ''timestamp'' (JInt 0))) of
                    Inl e \<Rightarrow> (sv, 500)
                  | Inr timestamp \<Rightarrow>
                      let (seen, fresh) = check_and_record now (get_or payload ''nonce'' (JStr [])) timestamp (sv_seen sv);
                          sv1 = sv\<lparr>sv_seen := seen\<rparr> in
                      if \<not> fresh then (sv1, 401) else install_tokens H payload sv1)))"

section \<open>Dealing\<close>

definition sv_round1 :: "('a, 'b) suite \<Rightarrow> 's ElectionDataLayer \<Rightarrow> 's \<Rightarrow> (nat \<Rightarrow> int) \<Rightarrow> bytes \<Rightarrow> 'b KeyperServer \<Rightarrow> 'b KeyperServer \<times> int" where
  "sv_round1 S P s rnd eid sv =
     (case server_config P s eid of
        Inl e \<Rightarrow> (sv, 500)
      | Inr config \<Rightarrow>
          (case my_index config sv of
             None \<Rightarrow> (sv, 403)
           | Some idx \<Rightarrow>
               let ((comms, shares), st) = round1 S KeyperDKGState_init idx (th_n (cfg_threshold config)) (th_quorum (cfg_threshold config)) rnd;
                   sv1 = put_inbox (tohex eid) (inbox_of sv (tohex eid)) (sv\<lparr>sv_dkg_states := AList.update (tohex eid) st (sv_dkg_states sv)\<rparr>) in
               (case map_of shares idx of
                  None \<Rightarrow> (sv1, 500)
                | Some own \<Rightarrow>
                    (put_inbox (tohex eid) (Inbox_init\<lparr>ib_commitments := [(idx, comms)], ib_shares := [(idx, own)]\<rparr>) sv1, 200))))"

record commitments_msg =
  cm_election :: string
  cm_dealer :: int
  cm_commitments :: "bytes list"
  cm_signature :: "string option"

record share_msg =
  sm_election :: string
  sm_dealer :: int
  sm_recipient :: int
  sm_sealed :: "bytes option"
  sm_signature :: string

text \<open>The posts of \<open>/dkg/distribute_commitments\<close>, in order, to every other member.\<close>

definition sv_distribute_commitments ::
  "('a, 'b) suite \<Rightarrow> host \<Rightarrow> 's ElectionDataLayer \<Rightarrow> 's \<Rightarrow> bytes \<Rightarrow> 'b KeyperServer \<Rightarrow> (int \<times> commitments_msg) list result" where
  "sv_distribute_commitments S H P s eid sv =
     ebind (server_config P s eid) (\<lambda>config.
     case my_index config sv of
       None \<Rightarrow> Inl (HttpStatus 403)
     | Some idx \<Rightarrow>
         (case map_of (sv_dkg_states sv) (tohex eid) of
            None \<Rightarrow> Inl KeyError
          | Some st \<Rightarrow>
              ebind (case ks_commitments st of None \<Rightarrow> Inl TypeError | Some cs \<Rightarrow> emap (g2_to_compressed S) cs) (\<lambda>cs.
              ebind (dkg_commitments_digest H eid idx cs) (\<lambda>d. ebind (sign_digest H (private_key (sv_signer sv)) d) (\<lambda>sig.
              Inr (map (\<lambda>peer. (peer, \<lparr>cm_election = tohex eid, cm_dealer = idx, cm_commitments = cs,
                                         cm_signature = Some (''0x'' @ tohex sig)\<rparr>))
                     (filter (\<lambda>peer. peer \<noteq> idx) [1..th_n (cfg_threshold config)])))))))"

text \<open>\<open>_verified_peer_enc_key\<close>; every failure is status 500.\<close>

definition verified_peer_enc_key :: "host \<Rightarrow> ElectionConfig \<Rightarrow> int \<Rightarrow> 'b KeyperServer \<Rightarrow> bytes result" where
  "verified_peer_enc_key H config recipient sv =
     ebind (get_item (in_peers (sv_installed sv)) (str_int recipient)) (\<lambda>peer.
     ebind (get_opt peer ''enc_pubkey'') (\<lambda>enc_hex. ebind (get_opt peer ''enc_pubkey_sig'') (\<lambda>enc_sig.
     case members_addr config recipient of
       None \<Rightarrow> Inl (HttpStatus 500)
     | Some member \<Rightarrow>
         if \<not> truthy enc_hex \<or> \<not> truthy enc_sig then Inl (HttpStatus 500)
         else
           (case (enc_hex, enc_sig) of
              (JStr p, JStr g) \<Rightarrow>
                (case verify_encryption_pubkey H member p g of Inl e \<Rightarrow> Inl (HttpStatus 500) | Inr key \<Rightarrow> Inr key)
            | _ \<Rightarrow> Inl (HttpStatus 500)))))"

text \<open>\<open>_seal_and_send_share\<close>: the post to the recipient. \<open>eph\<close> and \<open>nonce\<close> are the values drawn for the envelope.\<close>

definition seal_and_send_share ::
  "host \<Rightarrow> box_ops \<Rightarrow> bytes \<Rightarrow> bytes \<Rightarrow> bytes \<Rightarrow> int \<Rightarrow> int \<Rightarrow> 'b KeyperDKGState \<Rightarrow> bytes \<Rightarrow> 'b KeyperServer \<Rightarrow> (int \<times> share_msg) result" where
  "seal_and_send_share H B eph nonce eid idx recipient st enc_pub sv =
     (case map_of (ks_shares_for_others st) recipient of
        None \<Rightarrow> Inl KeyError
      | Some share_val \<Rightarrow>
          ebind (dkg_share_digest H eid idx recipient share_val) (\<lambda>d. ebind (sign_digest H (private_key (sv_signer sv)) d) (\<lambda>sig.
          Inr (recipient, \<lparr>sm_election = tohex eid, sm_dealer = idx, sm_recipient = recipient,
                           sm_sealed = Some (seal_share B eph nonce share_val enc_pub), sm_signature = ''0x'' @ tohex sig\<rparr>))))"

definition sv_distribute_shares ::
  "host \<Rightarrow> box_ops \<Rightarrow> (int \<Rightarrow> bytes \<times> bytes) \<Rightarrow> 's ElectionDataLayer \<Rightarrow> 's \<Rightarrow> bytes \<Rightarrow> 'b KeyperServer \<Rightarrow> (int \<times> share_msg) list result" where
  "sv_distribute_shares H B draw P s eid sv =
     ebind (server_config P s eid) (\<lambda>config.
     case my_index config sv of
       None \<Rightarrow> Inl (HttpStatus 403)
     | Some idx \<Rightarrow>
         (case map_of (sv_dkg_states sv) (tohex eid) of
            None \<Rightarrow> Inl KeyError
          | Some st \<Rightarrow>
              emap (\<lambda>recipient.
                ebind (verified_peer_enc_key H config recipient sv) (\<lambda>enc_pub.
                seal_and_send_share H B (fst (draw recipient)) (snd (draw recipient)) eid idx recipient st enc_pub sv))
                (filter (\<lambda>recipient. recipient \<noteq> idx) [1..th_n (cfg_threshold config)])))"

section \<open>Receiving\<close>

definition sv_receive_commitments ::
  "('a, 'b) suite \<Rightarrow> host \<Rightarrow> 's ElectionDataLayer \<Rightarrow> 's \<Rightarrow> commitments_msg \<Rightarrow> 'b KeyperServer \<Rightarrow> 'b KeyperServer \<times> int" where
  "sv_receive_commitments S H P s msg sv =
     (case ebind (fromhex (cm_election msg)) (\<lambda>eid. ebind (server_config P s eid) (\<lambda>config.
             ebind (signed_by H (members_addr config (cm_dealer msg)) (dkg_commitments_digest H eid (cm_dealer msg) (cm_commitments msg))
               (cm_signature msg)) (\<lambda>ok. Inr (config, ok)))) of
        Inl e \<Rightarrow> (sv, 500)
      | Inr (config, ok) \<Rightarrow>
          if \<not> ok then (sv, 401)
          else if int (length (cm_commitments msg)) \<noteq> th_quorum (cfg_threshold config) then (sv, 400)
          else
            let box = inbox_of sv (cm_election msg); sv1 = put_inbox (cm_election msg) box sv in
            (case map_of (ib_commitments box) (cm_dealer msg) of
               Some cs \<Rightarrow>
                 (case emap (g2_to_compressed S) cs of
                    Inl e \<Rightarrow> (sv1, 500)
                  | Inr bs \<Rightarrow> (sv1, if bs \<noteq> cm_commitments msg then 409 else 200))
             | None \<Rightarrow>
                 (case emap (g2_from_compressed S) (cm_commitments msg) of
                    Inl e \<Rightarrow> (sv1, 500)
                  | Inr cs \<Rightarrow>
                      (put_inbox (cm_election msg) (box\<lparr>ib_commitments := AList.update (cm_dealer msg) cs (ib_commitments box)\<rparr>) sv1, 200))))"

text \<open>
  \<open>priv\<close> is the X25519 key of this keyper. An envelope that does not authenticate raises an exception the
  \<open>except\<close> clause does not name.
\<close>

definition sv_receive_share ::
  "('a, 'b) suite \<Rightarrow> host \<Rightarrow> box_ops \<Rightarrow> bytes \<Rightarrow> 's ElectionDataLayer \<Rightarrow> 's \<Rightarrow> share_msg \<Rightarrow> 'b KeyperServer \<Rightarrow> 'b KeyperServer \<times> int" where
  "sv_receive_share S H B priv P s msg sv =
     (case ebind (fromhex (sm_election msg)) (\<lambda>eid. ebind (server_config P s eid) (\<lambda>config. Inr (eid, config))) of
        Inl e \<Rightarrow> (sv, 500)
      | Inr (eid, config) \<Rightarrow>
          (case sm_sealed msg of
             None \<Rightarrow> (sv, 400)
           | Some sealed \<Rightarrow>
               (case unseal_share B sealed priv of
                  Inl e \<Rightarrow> (sv, if e \<in> {KeyError, ValueError, TypeError} then 400 else 500)
                | Inr share \<Rightarrow>
                    (case my_index config sv of
                       None \<Rightarrow> (sv, 403)
                     | Some me \<Rightarrow>
                         if sm_recipient msg \<noteq> me then (sv, 400)
                         else
                           (case signed_by H (members_addr config (sm_dealer msg))
                                   (dkg_share_digest H eid (sm_dealer msg) (sm_recipient msg) share) (Some (sm_signature msg)) of
                              Inl e \<Rightarrow> (sv, 500)
                            | Inr ok \<Rightarrow>
                                if \<not> ok then (sv, 401)
                                else
                                  let box = inbox_of sv (sm_election msg);
                                      replaced = (case map_of (ib_shares box) (sm_dealer msg) of None \<Rightarrow> False | Some old \<Rightarrow> old \<noteq> share);
                                      repair = (sm_dealer msg \<in> ib_complained box \<and>
                                        (case map_of (ib_commitments box) (sm_dealer msg) of
                                           None \<Rightarrow> False
                                         | Some comms \<Rightarrow> comms \<noteq> [] \<and> verify_share S comms (sm_recipient msg) share)) in
                                  if replaced \<and> \<not> repair then (put_inbox (sm_election msg) box sv, 409)
                                  else
                                    (put_inbox (sm_election msg)
                                       (box\<lparr>ib_shares := AList.update (sm_dealer msg) share (ib_shares box),
                                            ib_share_sigs := AList.update (sm_dealer msg) (sm_signature msg) (ib_share_sigs box)\<rparr>) sv, 200))))))"

section \<open>Verification and complaints\<close>

record Accusation =
  ac_election :: string
  ac_dealer :: int
  ac_recipient :: int
  ac_signature :: string

datatype round2_reply = Verified | Complaints "int list" "Accusation list" | Failed int

text \<open>\<open>retention\<close> is \<open>_SECRET_RETENTION_S\<close>, \<open>None\<close> for \<open>never\<close>.\<close>

definition sv_round2 ::
  "('a, 'b) suite \<Rightarrow> host \<Rightarrow> 's ElectionDataLayer \<Rightarrow> 's \<Rightarrow> int option \<Rightarrow> bytes \<Rightarrow> 'b KeyperServer \<Rightarrow> 'b KeyperServer \<times> round2_reply" where
  "sv_round2 S H P s retention eid sv =
     (case server_config P s eid of
        Inl e \<Rightarrow> (sv, Failed 500)
      | Inr config \<Rightarrow>
          (case map_of (sv_dkg_states sv) (tohex eid) of
             None \<Rightarrow> (sv, Failed 500)
           | Some st \<Rightarrow>
               let box = inbox_of sv (tohex eid); sv1 = put_inbox (tohex eid) box sv in
               (case my_index config sv of
                  None \<Rightarrow> (sv1, Failed 403)
                | Some my_idx \<Rightarrow>
                    (case round2 S st (ib_commitments box) (ib_shares box) of
                       Inl err \<Rightarrow>
                         let bad = (case err of BadDealers ds \<Rightarrow> ds | _ \<Rightarrow> []);
                             sv2 = put_inbox (tohex eid) (box\<lparr>ib_complained := ib_complained box \<union> set bad\<rparr>) sv1 in
                         (case emap (\<lambda>d. ebind (dkg_accusation_digest H eid d my_idx) (\<lambda>digest.
                                 ebind (sign_digest H (private_key (sv_signer sv)) digest) (\<lambda>sig.
                                 Inr \<lparr>ac_election = tohex eid, ac_dealer = d, ac_recipient = my_idx, ac_signature = ''0x'' @ tohex sig\<rparr>))) bad of
                            Inl e \<Rightarrow> (sv2, Failed 500)
                          | Inr accusations \<Rightarrow> (sv2, Complaints bad accusations))
                     | Inr ((combined, pks), st') \<Rightarrow>
                         let entry = \<lparr>de_combined_share = combined,
                                      de_expires_at = map_option (\<lambda>r. cfg_voting_end config + r) retention\<rparr> in
                         (sv1\<lparr>sv_dkg_states := AList.update (tohex eid) st' (sv_dkg_states sv),
                              sv_completed := AList.update (tohex eid) entry (sv_completed sv)\<rparr>, Verified)))))"

text \<open>
  \<open>_gate_accusation\<close>: \<open>None\<close> is a body without an accusation or with fields of the wrong type; \<open>Inl\<close> carries the
  status of the refusal.
\<close>

definition gate_accusation ::
  "host \<Rightarrow> 's ElectionDataLayer \<Rightarrow> 's \<Rightarrow> Accusation option \<Rightarrow> 'b KeyperServer \<Rightarrow> int + (bytes \<times> ElectionConfig \<times> int \<times> int \<times> 'b KeyperDKGState)" where
  "gate_accusation H P s acc sv =
     (case acc of
        None \<Rightarrow> Inl 400
      | Some a \<Rightarrow>
          (case fromhex (remove_0x (ac_signature a)) of
             Inl e \<Rightarrow> Inl 400
           | Inr sig \<Rightarrow>
               (case map_of (sv_dkg_states sv) (ac_election a) of
                  None \<Rightarrow> Inl 401
                | Some st \<Rightarrow>
                    (case ebind (fromhex (ac_election a)) (\<lambda>eid. ebind (server_config P s eid) (\<lambda>config. Inr (eid, config))) of
                       Inl e \<Rightarrow> Inl 401
                     | Inr (eid, config) \<Rightarrow>
                         (case my_index config sv of
                            None \<Rightarrow> Inl 401
                          | Some my_idx \<Rightarrow>
                              if ac_dealer a \<noteq> my_idx \<or> map_of (ks_shares_for_others st) (ac_recipient a) = None then Inl 401
                              else
                                (case (members_addr config (ac_recipient a), dkg_accusation_digest H eid (ac_dealer a) (ac_recipient a)) of
                                   (Some expected, Inr d) \<Rightarrow>
                                     if recover_digest H d sig \<noteq> Some expected then Inl 401
                                     else Inr (eid, config, my_idx, ac_recipient a, st)
                                 | _ \<Rightarrow> Inl 401))))))"

text \<open>\<open>/dkg/reveal_share\<close>: the status, and the post to the recipient.\<close>

definition sv_reveal_share ::
  "host \<Rightarrow> box_ops \<Rightarrow> bytes \<Rightarrow> bytes \<Rightarrow> 's ElectionDataLayer \<Rightarrow> 's \<Rightarrow> Accusation option \<Rightarrow> 'b KeyperServer \<Rightarrow> int \<times> (int \<times> share_msg) option" where
  "sv_reveal_share H B eph nonce P s acc sv =
     (case gate_accusation H P s acc sv of
        Inl status \<Rightarrow> (status, None)
      | Inr (eid, config, my_idx, recipient, st) \<Rightarrow>
          (case ebind (verified_peer_enc_key H config recipient sv) (\<lambda>enc_pub. seal_and_send_share H B eph nonce eid my_idx recipient st enc_pub sv) of
             Inl e \<Rightarrow> (500, None)
           | Inr post \<Rightarrow> (200, Some post)))"

section \<open>Publication\<close>

definition sv_publish ::
  "('a, 'b) suite \<Rightarrow> host \<Rightarrow> 's ElectionDataLayer \<Rightarrow> 's ElectionDataLayer \<Rightarrow> bytes \<Rightarrow> 'b KeyperServer \<Rightarrow> 's \<Rightarrow> 'b KeyperServer \<times> 's \<times> int" where
  "sv_publish S H P Q eid sv s =
     (if map_of (sv_completed sv) (tohex eid) = None then (sv, s, 409)
      else
        let box = inbox_of sv (tohex eid); commitments = ib_commitments box; sv1 = put_inbox (tohex eid) box sv in
        case ebind (server_config P s eid) (\<lambda>config.
             ebind (derive_joint_mpk S commitments (th_quorum (cfg_threshold config))) (\<lambda>pk.
             ebind (emap (\<lambda>i. derive_mpk_share S i commitments (th_quorum (cfg_threshold config))) (sort (map fst commitments))) (\<lambda>committee.
             ebind (g2_to_compressed S pk) (\<lambda>pk_b.
             ebind (emap (g2_to_compressed S) committee) (\<lambda>committee_b.
             ebind (sign_dkg_result H (private_key (sv_signer sv)) eid pk_b committee_b) (\<lambda>sig.
             dl_submit_dkg_result Q eid pk_b committee_b sig s)))))) of
          Inl e \<Rightarrow> (sv1, s, 500)
        | Inr s' \<Rightarrow>
            ((case map_of (sv_dkg_states sv) (tohex eid) of
                None \<Rightarrow> sv1
              | Some st \<Rightarrow> sv1\<lparr>sv_dkg_states := AList.update (tohex eid) (zeroize_dealing st) (sv_dkg_states sv)\<rparr>), s', 200))"

section \<open>Aggregation\<close>

text \<open>\<open>_is_benign_write_conflict\<close>: the port's own error, or the relay's answer 409.\<close>

definition benign_write_conflict :: "error \<Rightarrow> bool" where
  "benign_write_conflict e \<longleftrightarrow> e = ImmutabilityError \<or> e = HttpStatus 409"

text \<open>The keyper object a request builds.\<close>

definition request_keyper :: "int \<Rightarrow> 'b KeyperServer \<Rightarrow> 'b KeyperService" where
  "request_keyper idx sv = KeyperService_init idx (sv_signer sv)"

definition sv_aggregate ::
  "'s ElectionDataLayer \<Rightarrow> int \<Rightarrow> bool \<Rightarrow> bytes \<Rightarrow> 'b KeyperServer \<Rightarrow> 's \<Rightarrow> 'b KeyperServer \<times> int" where
  "sv_aggregate P now recompute eid sv s =
     (case server_config P s eid of
        Inl e \<Rightarrow> (sv, 500)
      | Inr config \<Rightarrow>
          (case my_index config sv of
             None \<Rightarrow> (sv, 403)
           | Some idx \<Rightarrow>
               (case check_can_aggregate P now eid s of
                  Inl e \<Rightarrow> (sv, 409)
                | Inr _ \<Rightarrow>
                    let state = map_of (sv_aggregate_state sv) (tohex eid) in
                    if state = Some Submitted \<and> \<not> recompute then (sv, 200)
                    else if state = Some Running then (sv, 202)
                    else
                      (sv\<lparr>sv_aggregate_state := AList.update (tohex eid) Running (sv_aggregate_state sv),
                          sv_workers := tohex eid # sv_workers sv\<rparr>, 202))))"

text \<open>The body of a worker thread, which ends with it. \<open>idx\<close> is the index of the keyper object it was given.\<close>

definition run_aggregate ::
  "('a, 'b) suite \<Rightarrow> host \<Rightarrow> 's ElectionDataLayer \<Rightarrow> 's ElectionDataLayer \<Rightarrow> int \<Rightarrow> int \<Rightarrow> int \<Rightarrow> bytes \<Rightarrow> 'b KeyperServer \<Rightarrow> 's \<Rightarrow> 'b KeyperServer \<times> 's" where
  "run_aggregate S H P Q now now_dl idx eid sv s =
     (let done = sv\<lparr>sv_aggregate_state := AList.update (tohex eid) Submitted (sv_aggregate_state sv), sv_workers := remove1 (tohex eid) (sv_workers sv)\<rparr>;
          dropped = sv\<lparr>sv_aggregate_state := AList.delete (tohex eid) (sv_aggregate_state sv), sv_workers := remove1 (tohex eid) (sv_workers sv)\<rparr> in
      case produce_aggregate S H P now eid (request_keyper idx sv) s of
        Inl e \<Rightarrow> (dropped, s)
      | Inr (artifact, sig) \<Rightarrow>
          (case dl_submit_aggregate Q now_dl eid artifact sig s of
             Inr s' \<Rightarrow> (done, s')
           | Inl e \<Rightarrow> if benign_write_conflict e then (done, s) else (dropped, s)))"

section \<open>Partial decryption\<close>

definition sv_publish_decr_share ::
  "('a, 'b) suite \<Rightarrow> host \<Rightarrow> 's ElectionDataLayer \<Rightarrow> 's ElectionDataLayer \<Rightarrow> int \<Rightarrow> int \<Rightarrow> (nat \<Rightarrow> int) \<Rightarrow> bytes \<Rightarrow> 'b KeyperServer \<Rightarrow> 's \<Rightarrow> 's \<times> int" where
  "sv_publish_decr_share S H P Q now now_dl rnd eid sv s =
     (case map_of (sv_completed sv) (tohex eid) of
        None \<Rightarrow> (s, 409)
      | Some entry \<Rightarrow>
          (case server_config P s eid of
             Inl e \<Rightarrow> (s, 500)
           | Inr config \<Rightarrow>
               (case my_index config sv of
                  None \<Rightarrow> (s, 403)
                | Some idx \<Rightarrow>
                    let ks = request_keyper idx sv;
                        ks = ks\<lparr>kp_dkg := (kp_dkg ks)\<lparr>ks_combined_share := Some (de_combined_share entry),
                               ks_public_key_share := Some (mul (g2 S) (ggen (g2 S)) (de_combined_share entry))\<rparr>\<rparr> in
                    (case produce_decryption_share S H P now rnd eid ks s of
                       Inl e \<Rightarrow> (s, 409)
                     | Inr None \<Rightarrow> (s, 200)
                     | Inr (Some (share, sig)) \<Rightarrow>
                         (case dl_submit_decryption_share Q now_dl eid share sig s of
                            Inr s' \<Rightarrow> (s', 200)
                          | Inl e \<Rightarrow> (s, if benign_write_conflict e then 200 else 500))))))"

section \<open>Runs of a keyper process\<close>

text \<open>
  The requests a keyper serves, in any order and with any arguments; its workers, its prune loop and
  restarts; and the data layer, which changes at any time. The label tells the two events that begin a
  ceremony afresh.
\<close>

datatype sv_event = Deal string | Restart | Serve

inductive sv_step ::
  "('a, 'b) suite \<Rightarrow> host \<Rightarrow> box_ops \<Rightarrow> bytes \<Rightarrow> bytes set \<Rightarrow> 's ElectionDataLayer \<Rightarrow> 's ElectionDataLayer \<Rightarrow>
     sv_event \<Rightarrow> 'b KeyperServer \<times> 's \<Rightarrow> 'b KeyperServer \<times> 's \<Rightarrow> bool"
  for S H B priv trusted P Q where
  deal: "sv_step S H B priv trusted P Q (Deal (tohex eid)) (sv, s) (fst (sv_round1 S P s rnd eid sv), s)"
| restarted: "sv_step S H B priv trusted P Q Restart (sv, s) (restart sv, s)"
| bootstrapped: "sv_step S H B priv trusted P Q Serve (sv, s) (fst (sv_bootstrap H trusted now unsealed sig sv), s)"
| commitments: "sv_step S H B priv trusted P Q Serve (sv, s) (fst (sv_receive_commitments S H P s cmsg sv), s)"
| share: "sv_step S H B priv trusted P Q Serve (sv, s) (fst (sv_receive_share S H B priv P s smsg sv), s)"
| verified: "sv_step S H B priv trusted P Q Serve (sv, s) (fst (sv_round2 S H P s retention eid sv), s)"
| published: "sv_publish S H P Q eid sv s = (sv', s', status) \<Longrightarrow> sv_step S H B priv trusted P Q Serve (sv, s) (sv', s')"
| triggered: "sv_step S H B priv trusted P Q Serve (sv, s) (fst (sv_aggregate P now recompute eid sv s), s)"
| worker: "tohex eid \<in> set (sv_workers sv) \<Longrightarrow> run_aggregate S H P Q now now_dl idx eid sv s = (sv', s') \<Longrightarrow>
    sv_step S H B priv trusted P Q Serve (sv, s) (sv', s')"
| decrypted: "sv_publish_decr_share S H P Q now now_dl rnd eid sv s = (s', status) \<Longrightarrow> sv_step S H B priv trusted P Q Serve (sv, s) (sv, s')"
| pruned: "sv_step S H B priv trusted P Q Serve (sv, s) (sv_prune now sv, s)"
| elsewhere: "sv_step S H B priv trusted P Q Serve (sv, s) (sv, s')"

inductive_cases sv_stepE: "sv_step S H B priv trusted P Q l x y"

definition sv_reachable ::
  "('a, 'b) suite \<Rightarrow> host \<Rightarrow> box_ops \<Rightarrow> bytes \<Rightarrow> bytes set \<Rightarrow> 's ElectionDataLayer \<Rightarrow> 's ElectionDataLayer \<Rightarrow> Signer \<Rightarrow> 'b KeyperServer \<Rightarrow> bool" where
  "sv_reachable S H B priv trusted P Q signer sv \<longleftrightarrow>
     (\<exists>s0 s. (\<lambda>x y. \<exists>l. sv_step S H B priv trusted P Q l x y)\<^sup>*\<^sup>* (KeyperServer_init signer, s0) (sv, s))"

text \<open>What the handlers leave alone.\<close>

lemma put_inbox_sel [simp]:
  "sv_signer (put_inbox e b sv) = sv_signer sv" "sv_completed (put_inbox e b sv) = sv_completed sv"
  "sv_dkg_states (put_inbox e b sv) = sv_dkg_states sv" "sv_aggregate_state (put_inbox e b sv) = sv_aggregate_state sv"
  "sv_workers (put_inbox e b sv) = sv_workers sv" "sv_installed (put_inbox e b sv) = sv_installed sv" "sv_seen (put_inbox e b sv) = sv_seen sv"
  by (simp_all add: put_inbox_def)

lemma inbox_of_put [simp]: "inbox_of (put_inbox e b sv) e' = (if e' = e then b else inbox_of sv e')"
  by (auto simp: inbox_of_def put_inbox_def update_conv')

lemma inbox_of_more [simp]:
  "inbox_of (sv\<lparr>sv_dkg_states := d\<rparr>) e = inbox_of sv e" "inbox_of (sv\<lparr>sv_completed := c\<rparr>) e = inbox_of sv e"
  "inbox_of (sv\<lparr>sv_aggregate_state := a\<rparr>) e = inbox_of sv e" "inbox_of (sv\<lparr>sv_workers := w\<rparr>) e = inbox_of sv e"
  "inbox_of (sv\<lparr>sv_installed := i\<rparr>) e = inbox_of sv e" "inbox_of (sv\<lparr>sv_seen := n\<rparr>) e = inbox_of sv e"
  by (simp_all add: inbox_of_def)

definition same_work :: "'b KeyperServer \<Rightarrow> 'b KeyperServer \<Rightarrow> bool" where
  "same_work sv sv' \<longleftrightarrow> sv_aggregate_state sv' = sv_aggregate_state sv \<and> sv_workers sv' = sv_workers sv \<and> sv_signer sv' = sv_signer sv"

definition same_boxes :: "'b KeyperServer \<Rightarrow> 'b KeyperServer \<Rightarrow> bool" where
  "same_boxes sv sv' \<longleftrightarrow> (\<forall>e. inbox_of sv' e = inbox_of sv e) \<and> sv_signer sv' = sv_signer sv"

lemma round1_work: "same_work sv (fst (sv_round1 S P s rnd eid sv))"
  by (auto simp: sv_round1_def same_work_def Let_def split: sum.splits option.splits prod.splits)

lemma bootstrap_frame: "same_work sv (fst (sv_bootstrap H trusted now u sig sv))" "same_boxes sv (fst (sv_bootstrap H trusted now u sig sv))"
  by (auto simp: sv_bootstrap_def install_tokens_def same_work_def same_boxes_def Let_def split: option.splits sum.splits prod.splits json.splits)

lemma receive_commitments_work: "same_work sv (fst (sv_receive_commitments S H P s msg sv))"
  by (auto simp: sv_receive_commitments_def same_work_def Let_def split: sum.splits option.splits prod.splits)

lemma receive_share_work: "same_work sv (fst (sv_receive_share S H B priv P s msg sv))"
  by (auto simp: sv_receive_share_def same_work_def Let_def split: sum.splits option.splits prod.splits)

lemma round2_work: "same_work sv (fst (sv_round2 S H P s r eid sv))"
  by (auto simp: sv_round2_def same_work_def Let_def split: sum.splits option.splits prod.splits)

lemma publish_frame: "sv_publish S H P Q eid sv s = (sv', s', st) \<Longrightarrow> same_work sv sv' \<and> same_boxes sv sv'"
  by (auto simp: sv_publish_def same_work_def same_boxes_def Let_def split: sum.splits option.splits prod.splits if_splits)

lemma prune_frame: "same_work sv (sv_prune now sv)" "same_boxes sv (sv_prune now sv)"
  by (auto simp: sv_prune_def same_work_def same_boxes_def)

lemma aggregate_boxes: "same_boxes sv (fst (sv_aggregate P now rec eid sv s))"
  by (auto simp: sv_aggregate_def same_boxes_def Let_def split: sum.splits option.splits)

lemma worker_boxes: "run_aggregate S H P Q now now_dl idx eid sv s = (sv', s') \<Longrightarrow> same_boxes sv sv'"
  by (auto simp: run_aggregate_def same_boxes_def Let_def split: sum.splits prod.splits if_splits)

section \<open>One worker per election\<close>

definition work_inv :: "'b KeyperServer \<Rightarrow> bool" where
  "work_inv sv \<longleftrightarrow> distinct (sv_workers sv) \<and> (\<forall>e. map_of (sv_aggregate_state sv) e = Some Running \<longleftrightarrow> e \<in> set (sv_workers sv))"

lemma work_inv_same: "same_work sv sv' \<Longrightarrow> work_inv sv \<Longrightarrow> work_inv sv'"
  by (simp add: same_work_def work_inv_def)

lemma work_inv_trigger: "work_inv sv \<Longrightarrow> work_inv (fst (sv_aggregate P now rec eid sv s))"
  by (auto simp: sv_aggregate_def work_inv_def Let_def update_conv' split: sum.splits option.splits if_splits)

lemma work_inv_drop:
  assumes "work_inv sv" "sv_workers sv' = remove1 k (sv_workers sv)"
    and "\<And>e. map_of (sv_aggregate_state sv') e = (if e = k then v else map_of (sv_aggregate_state sv) e)" and "v \<noteq> Some Running"
  shows "work_inv sv'"
proof -
  have d: "distinct (sv_workers sv)" and r: "map_of (sv_aggregate_state sv) e = Some Running \<longleftrightarrow> e \<in> set (sv_workers sv)" for e
    using assms(1) by (simp_all add: work_inv_def)
  then show ?thesis unfolding work_inv_def assms(2,3) using assms(4) by simp
qed

lemma work_inv_worker:
  assumes inv: "work_inv sv" and run: "run_aggregate S H P Q now now_dl idx eid sv s = (sv', s')"
  shows "work_inv sv'"
proof -
  have w: "sv_workers sv' = remove1 (tohex eid) (sv_workers sv)"
    and st: "sv_aggregate_state sv' = AList.update (tohex eid) Submitted (sv_aggregate_state sv) \<or>
      sv_aggregate_state sv' = AList.delete (tohex eid) (sv_aggregate_state sv)"
    using run by (auto simp: run_aggregate_def Let_def split: sum.splits prod.splits if_splits)
  from st show ?thesis
  proof
    assume "sv_aggregate_state sv' = AList.update (tohex eid) Submitted (sv_aggregate_state sv)"
    then show ?thesis by (intro work_inv_drop [OF inv w, of "Some Submitted"]) (simp_all add: update_conv')
  next
    assume "sv_aggregate_state sv' = AList.delete (tohex eid) (sv_aggregate_state sv)"
    then show ?thesis by (intro work_inv_drop [OF inv w, of None]) (simp_all add: delete_conv')
  qed
qed

lemma work_inv_restart: "work_inv (restart sv)"
  by (simp add: work_inv_def restart_def KeyperServer_init_def)

lemma work_inv_publish: "sv_publish S H P Q eid sv s = (sv', s', st) \<Longrightarrow> work_inv sv \<Longrightarrow> work_inv sv'"
  by (drule publish_frame) (auto intro: work_inv_same)

lemma work_inv_init: "work_inv (KeyperServer_init signer)"
  by (simp add: work_inv_def KeyperServer_init_def)

lemmas work_inv_frames = work_inv_same [OF round1_work] work_inv_same [OF bootstrap_frame(1)] work_inv_same [OF receive_commitments_work]
  work_inv_same [OF receive_share_work] work_inv_same [OF round2_work] work_inv_same [OF prune_frame(1)]

lemma work_inv_step: "sv_step S H B priv trusted P Q l (sv, s) (sv', s') \<Longrightarrow> work_inv sv \<Longrightarrow> work_inv sv'"
  by (erule sv_stepE) (auto simp: work_inv_frames work_inv_trigger work_inv_restart intro: work_inv_publish work_inv_worker)

text \<open>
  One aggregation at a time. In every run of a keyper process at most one worker computes the
  aggregate of an election, and an election is marked as running exactly while its worker is alive, so
  that a failed or finished worker never blocks a later trigger.
\<close>

theorem one_worker_per_election:
  assumes "sv_reachable S H B priv trusted P Q signer sv"
  shows "distinct (sv_workers sv) \<and> (map_of (sv_aggregate_state sv) e = Some Running \<longleftrightarrow> e \<in> set (sv_workers sv))"
proof -
  obtain s0 s where "(\<lambda>x y. \<exists>l. sv_step S H B priv trusted P Q l x y)\<^sup>*\<^sup>* (KeyperServer_init signer, s0) (sv, s)"
    using assms by (auto simp: sv_reachable_def)
  then have "work_inv (fst (sv, s))"
    by (induction rule: rtranclp_induct) (auto simp: work_inv_init intro: work_inv_step)
  then show ?thesis by (simp add: work_inv_def)
qed

section \<open>What is dealt stays dealt\<close>

text \<open>The index of a member in a configuration of the election with the hexadecimal id \<open>e\<close>.\<close>

definition own_index :: "'s ElectionDataLayer \<Rightarrow> Signer \<Rightarrow> string \<Rightarrow> int \<Rightarrow> bool" where
  "own_index P signer e r \<longleftrightarrow>
     (\<exists>s eid config. fromhex e = Inr eid \<and> server_config P s eid = Inr config \<and> keyper_index (identity signer) 1 (cfg_keypers config) = Some r)"

text \<open>
  How an inbox may change during a ceremony: commitments are kept, complaints too, and a share gives way
  only to one that was complained about and verifies against the kept commitments.
\<close>

definition box_grows :: "('a, 'b) suite \<Rightarrow> (int \<Rightarrow> bool) \<Rightarrow> 'b Inbox \<Rightarrow> 'b Inbox \<Rightarrow> bool" where
  "box_grows S own b b' \<longleftrightarrow>
     map_of (ib_commitments b) \<subseteq>\<^sub>m map_of (ib_commitments b') \<and> ib_complained b \<subseteq> ib_complained b' \<and>
     (\<forall>d v. map_of (ib_shares b) d = Some v \<longrightarrow>
        (\<exists>v'. map_of (ib_shares b') d = Some v' \<and>
           (v' = v \<or> d \<in> ib_complained b' \<and> (\<exists>comms r. map_of (ib_commitments b') d = Some comms \<and> own r \<and> verify_share S comms r v'))))"

lemma box_grows_refl [simp]: "box_grows S own b b"
  by (simp add: box_grows_def)

lemma box_grows_trans: "box_grows S own a b \<Longrightarrow> box_grows S own b c \<Longrightarrow> box_grows S own a c"
proof -
  assume ab: "box_grows S own a b" and bc: "box_grows S own b c"
  have keep: "map_of (ib_commitments c) d = Some cs" if "map_of (ib_commitments b) d = Some cs" for d cs
    using bc that by (auto simp: box_grows_def map_le_def dom_def)
  have "\<exists>v'. map_of (ib_shares c) d = Some v' \<and>
      (v' = v \<or> d \<in> ib_complained c \<and> (\<exists>comms r. map_of (ib_commitments c) d = Some comms \<and> own r \<and> verify_share S comms r v'))"
    if "map_of (ib_shares a) d = Some v" for d v
  proof -
    obtain u where u: "map_of (ib_shares b) d = Some u"
      "u = v \<or> d \<in> ib_complained b \<and> (\<exists>comms r. map_of (ib_commitments b) d = Some comms \<and> own r \<and> verify_share S comms r u)"
      using ab \<open>map_of (ib_shares a) d = Some v\<close> unfolding box_grows_def by blast
    obtain w where w: "map_of (ib_shares c) d = Some w"
      "w = u \<or> d \<in> ib_complained c \<and> (\<exists>comms r. map_of (ib_commitments c) d = Some comms \<and> own r \<and> verify_share S comms r w)"
      using bc u(1) unfolding box_grows_def by blast
    have "ib_complained b \<subseteq> ib_complained c" using bc by (simp add: box_grows_def)
    with u(2) w keep show ?thesis by blast
  qed
  then show ?thesis using ab bc map_le_trans unfolding box_grows_def by blast
qed

lemma commitments_grow: "map_of (ib_commitments b) d = None \<Longrightarrow> box_grows S own b (b\<lparr>ib_commitments := AList.update d cs (ib_commitments b)\<rparr>)"
  by (auto simp: box_grows_def map_le_update)

lemma complaints_grow: "box_grows S own b (b\<lparr>ib_complained := ib_complained b \<union> ds\<rparr>)"
  by (auto simp: box_grows_def)

lemma shares_grow:
  assumes "\<And>old. map_of (ib_shares b) d = Some old \<Longrightarrow> old = v \<or> d \<in> ib_complained b \<and>
      (\<exists>comms r. map_of (ib_commitments b) d = Some comms \<and> own r \<and> verify_share S comms r v)"
  shows "box_grows S own b (b\<lparr>ib_shares := AList.update d v (ib_shares b), ib_share_sigs := g\<rparr>)"
  using assms by (auto simp: box_grows_def update_conv')

lemma same_boxes_grow: "same_boxes sv sv' \<Longrightarrow> box_grows S own (inbox_of sv e) (inbox_of sv' e)"
  by (simp add: same_boxes_def)

lemma receive_commitments_grow: "box_grows S own (inbox_of sv e) (inbox_of (fst (sv_receive_commitments S H P s msg sv)) e)"
  by (auto simp: sv_receive_commitments_def Let_def split: sum.splits option.splits prod.splits intro: commitments_grow)

lemma receive_share_grow: "box_grows S (own_index P (sv_signer sv) e) (inbox_of sv e) (inbox_of (fst (sv_receive_share S H B priv P s msg sv)) e)"
proof -
  have own: "own_index P (sv_signer sv) (sm_election msg) (sm_recipient msg)"
    if "my_index config sv = Some (sm_recipient msg)" "fromhex (sm_election msg) = Inr eid" "server_config P s eid = Inr config" for eid config
    using that by (auto simp: own_index_def my_index_def)
  show ?thesis
    by (auto simp: sv_receive_share_def Let_def split: sum.splits option.splits prod.splits if_splits intro!: shares_grow intro: exI [of _ "sm_recipient msg"] own)
qed

lemma round2_grow: "box_grows S own (inbox_of sv e) (inbox_of (fst (sv_round2 S H P s r eid sv)) e)"
  by (auto simp: sv_round2_def Let_def split: sum.splits option.splits prod.splits intro: complaints_grow)

lemma round1_other: "e \<noteq> tohex eid \<Longrightarrow> inbox_of (fst (sv_round1 S P s rnd eid sv)) e = inbox_of sv e"
  by (auto simp: sv_round1_def Let_def split: sum.splits option.splits prod.splits)

lemma work_signer: "same_work sv sv' \<Longrightarrow> sv_signer sv' = sv_signer sv" "same_boxes sv sv' \<Longrightarrow> sv_signer sv' = sv_signer sv"
  by (simp_all add: same_work_def same_boxes_def)

lemmas signer_frames = work_signer(1) [OF round1_work] work_signer(1) [OF bootstrap_frame(1)] work_signer(1) [OF receive_commitments_work]
  work_signer(1) [OF receive_share_work] work_signer(1) [OF round2_work] work_signer(1) [OF prune_frame(1)] work_signer(2) [OF aggregate_boxes]

lemmas grow_frames = same_boxes_grow [OF bootstrap_frame(2)] receive_commitments_grow receive_share_grow round2_grow
  same_boxes_grow [OF prune_frame(2)] same_boxes_grow [OF aggregate_boxes]

lemma step_signer: "sv_step S H B priv trusted P Q l (sv, s) (sv', s') \<Longrightarrow> sv_signer sv' = sv_signer sv"
  by (erule sv_stepE) (auto simp: signer_frames restart_def KeyperServer_init_def work_signer dest: publish_frame worker_boxes)

lemma step_grows:
  "sv_step S H B priv trusted P Q l (sv, s) (sv', s') \<Longrightarrow> l \<notin> {Deal e, Restart} \<Longrightarrow>
   box_grows S (own_index P (sv_signer sv) e) (inbox_of sv e) (inbox_of sv' e)"
  by (erule sv_stepE) (auto simp: grow_frames round1_other same_boxes_grow dest: publish_frame worker_boxes)

text \<open>
  C8: what is dealt stays dealt. Once a ceremony has begun for an election, and whatever requests a keyper
  serves until the next one begins, the commitments it took from a dealer never change, and a share
  it holds is replaced only after its own complaint, by one that verifies for its own index against
  the commitments of that dealer.
\<close>

theorem dealings_final:
  assumes "(\<lambda>x y. \<exists>l. l \<notin> {Deal e, Restart} \<and> sv_step S H B priv trusted P Q l x y)\<^sup>*\<^sup>* (sv, s) (sv', s')"
  shows "(map_of (ib_commitments (inbox_of sv e)) d = Some cs \<longrightarrow> map_of (ib_commitments (inbox_of sv' e)) d = Some cs) \<and>
    (map_of (ib_shares (inbox_of sv e)) d = Some v \<longrightarrow>
      (\<exists>v'. map_of (ib_shares (inbox_of sv' e)) d = Some v' \<and>
        (v' = v \<or> d \<in> ib_complained (inbox_of sv' e) \<and>
          (\<exists>comms r. map_of (ib_commitments (inbox_of sv' e)) d = Some comms \<and> own_index P (sv_signer sv) e r \<and> verify_share S comms r v'))))"
proof -
  let ?own = "own_index P (sv_signer sv) e"
  have "sv_signer (fst y) = sv_signer sv \<and> box_grows S ?own (inbox_of sv e) (inbox_of (fst y) e)"
    if "(\<lambda>x y. \<exists>l. l \<notin> {Deal e, Restart} \<and> sv_step S H B priv trusted P Q l x y)\<^sup>*\<^sup>* (sv, s) y" for y
    using that
  proof (induction rule: rtranclp_induct)
    case (step y z)
    from step(2) obtain l where l: "l \<notin> {Deal e, Restart}" "sv_step S H B priv trusted P Q l (fst y, snd y) (fst z, snd z)" by auto
    show ?case using step(3) step_signer [OF l(2)] step_grows [OF l(2,1)] by (auto intro: box_grows_trans)
  qed simp
  from this [OF assms] have "box_grows S ?own (inbox_of sv e) (inbox_of sv' e)" by simp
  then show ?thesis by (auto simp: box_grows_def map_le_def dom_def)
qed

section \<open>To whom a share goes\<close>

text \<open>
  The encryption key a share for member \<open>j\<close> is sealed to: the one installed for \<open>j\<close>, with a signature of
  \<open>j\<close> over it. An accusation that opens the gate of a dealer. The post of the share that the dealing
  \<open>st\<close> holds for \<open>j\<close>.
\<close>

definition peer_key :: "host \<Rightarrow> ElectionConfig \<Rightarrow> int \<Rightarrow> 'b KeyperServer \<Rightarrow> bytes \<Rightarrow> bool" where
  "peer_key H config j sv pub \<longleftrightarrow>
     (\<exists>addr peer p g sig. members_addr config j = Some addr \<and> get_item (in_peers (sv_installed sv)) (str_int j) = Inr peer \<and>
        get_opt peer ''enc_pubkey'' = Inr (JStr p) \<and> get_opt peer ''enc_pubkey_sig'' = Inr (JStr g) \<and> p \<noteq> [] \<and> g \<noteq> [] \<and>
        fromhex (remove_0x p) = Inr pub \<and> length pub = 32 \<and> fromhex (remove_0x g) = Inr sig \<and>
        recover_message H (enc_pubkey_hash H pub) sig = Some addr)"

definition accused :: "host \<Rightarrow> 's ElectionDataLayer \<Rightarrow> 's \<Rightarrow> Accusation \<Rightarrow> 'b KeyperServer \<Rightarrow> bytes \<Rightarrow> ElectionConfig \<Rightarrow> 'b KeyperDKGState \<Rightarrow> bool" where
  "accused H P s a sv eid config st \<longleftrightarrow>
     fromhex (ac_election a) = Inr eid \<and> server_config P s eid = Inr config \<and> my_index config sv = Some (ac_dealer a) \<and>
     map_of (sv_dkg_states sv) (ac_election a) = Some st \<and> map_of (ks_shares_for_others st) (ac_recipient a) \<noteq> None \<and>
     (\<exists>addr d sig. members_addr config (ac_recipient a) = Some addr \<and> dkg_accusation_digest H eid (ac_dealer a) (ac_recipient a) = Inr d \<and>
        fromhex (remove_0x (ac_signature a)) = Inr sig \<and> recover_digest H d sig = Some addr)"

definition sealed_post ::
  "host \<Rightarrow> box_ops \<Rightarrow> bytes \<times> bytes \<Rightarrow> ElectionConfig \<Rightarrow> bytes \<Rightarrow> int \<Rightarrow> 'b KeyperDKGState \<Rightarrow> 'b KeyperServer \<Rightarrow> int \<Rightarrow> share_msg \<Rightarrow> bool" where
  "sealed_post H B drawn config eid idx st sv j msg \<longleftrightarrow>
     (\<exists>v pub d sig. map_of (ks_shares_for_others st) j = Some v \<and> peer_key H config j sv pub \<and>
        dkg_share_digest H eid idx j v = Inr d \<and> sign_digest H (private_key (sv_signer sv)) d = Inr sig \<and>
        msg = \<lparr>sm_election = tohex eid, sm_dealer = idx, sm_recipient = j,
               sm_sealed = Some (seal_share B (fst drawn) (snd drawn) v pub), sm_signature = ''0x'' @ tohex sig\<rparr>)"

lemma verify_encryption_pubkey_iff:
  "verify_encryption_pubkey H addr p g = Inr pub \<longleftrightarrow>
     fromhex (remove_0x p) = Inr pub \<and> length pub = 32 \<and> (\<exists>sig. fromhex (remove_0x g) = Inr sig \<and> recover_message H (enc_pubkey_hash H pub) sig = Some addr)"
  by (cases "fromhex (remove_0x p)"; cases "fromhex (remove_0x g)") (auto simp: verify_encryption_pubkey_def split: option.splits if_splits)

lemma verified_peer_enc_key_iff: "verified_peer_enc_key H config j sv = Inr pub \<longleftrightarrow> peer_key H config j sv pub"
proof
  assume v: "verified_peer_enc_key H config j sv = Inr pub"
  then obtain peer a b where peer: "get_opt peer ''enc_pubkey'' = Inr a" "get_opt peer ''enc_pubkey_sig'' = Inr b"
    "get_item (in_peers (sv_installed sv)) (str_int j) = Inr peer"
    by (auto simp: verified_peer_enc_key_def)
  obtain addr where addr: "members_addr config j = Some addr" using v by (cases "members_addr config j") (auto simp: verified_peer_enc_key_def)
  obtain p g where "a = JStr p" "b = JStr g" "p \<noteq> []" "g \<noteq> []" "verify_encryption_pubkey H addr p g = Inr pub"
    using v peer addr by (cases a; cases b) (auto simp: verified_peer_enc_key_def split: if_splits sum.splits)
  with peer addr show "peer_key H config j sv pub" by (auto simp: peer_key_def verify_encryption_pubkey_iff)
next
  assume "peer_key H config j sv pub"
  then obtain addr peer p g where p: "members_addr config j = Some addr" "get_item (in_peers (sv_installed sv)) (str_int j) = Inr peer"
    "get_opt peer ''enc_pubkey'' = Inr (JStr p)" "get_opt peer ''enc_pubkey_sig'' = Inr (JStr g)" "p \<noteq> []" "g \<noteq> []"
    "verify_encryption_pubkey H addr p g = Inr pub"
    by (auto simp: peer_key_def verify_encryption_pubkey_iff)
  then show "verified_peer_enc_key H config j sv = Inr pub" by (simp add: verified_peer_enc_key_def)
qed

lemma seal_and_send_iff:
  "ebind (verified_peer_enc_key H config j sv) (\<lambda>pub. seal_and_send_share H B (fst drawn) (snd drawn) eid idx j st pub sv) = Inr (k, msg) \<longleftrightarrow>
     k = j \<and> sealed_post H B drawn config eid idx st sv j msg"
  by (auto simp: sealed_post_def seal_and_send_share_def verified_peer_enc_key_iff split: option.splits) blast

lemma gate_accusation_iff:
  "gate_accusation H P s acc sv = Inr (eid, config, idx, j, st) \<longleftrightarrow>
     (\<exists>a. acc = Some a \<and> j = ac_recipient a \<and> idx = ac_dealer a \<and> accused H P s a sv eid config st)"
  by (auto simp: gate_accusation_def accused_def split: option.splits sum.splits prod.splits if_splits)

lemma emap_posts:
  assumes "emap f xs = Inr posts" and "\<And>x k msg. f x = Inr (k, msg) \<Longrightarrow> k = x \<and> Q x msg"
  shows "map fst posts = xs \<and> (\<forall>(k, msg) \<in> set posts. Q k msg)"
  using assms(1) by (induction xs arbitrary: posts) (auto dest: assms(2))

text \<open>
  C10: a share leaves a keyper only for its recipient. A dealt share is sent again exactly on an
  accusation that names this dealer and carries the signature of the member it names as recipient, over the
  election and the two indices it states; the message then holds the share the dealing of that
  election has for that recipient, signed by the dealer and sealed to the encryption key installed
  for the recipient, over which that member has signed. A distribution has one such message for
  each other index of the committee, and no other.
\<close>

theorem share_disclosure:
  "(sv_reveal_share H B eph nonce P s acc sv = (status, Some (j, msg)) \<longleftrightarrow>
      status = 200 \<and> (\<exists>a eid config st. acc = Some a \<and> accused H P s a sv eid config st \<and> j = ac_recipient a \<and>
        sealed_post H B (eph, nonce) config eid (ac_dealer a) st sv j msg)) \<and>
   (sv_distribute_shares H B draw P s eid sv = Inr posts \<longrightarrow>
      (\<exists>config idx st. server_config P s eid = Inr config \<and> my_index config sv = Some idx \<and> map_of (sv_dkg_states sv) (tohex eid) = Some st \<and>
         map fst posts = filter (\<lambda>r. r \<noteq> idx) [1..th_n (cfg_threshold config)] \<and>
         (\<forall>(k, m) \<in> set posts. sealed_post H B (draw k) config eid idx st sv k m)))"
proof (intro conjI impI)
  note send = seal_and_send_iff [where drawn = "(eph, nonce)", unfolded fst_conv snd_conv]
  have "sv_reveal_share H B eph nonce P s acc sv = (status, Some (j, msg)) \<longleftrightarrow> status = 200 \<and>
      (\<exists>eid config idx k st. gate_accusation H P s acc sv = Inr (eid, config, idx, k, st) \<and>
         ebind (verified_peer_enc_key H config k sv) (\<lambda>pub. seal_and_send_share H B eph nonce eid idx k st pub sv) = Inr (j, msg))"
    by (cases "gate_accusation H P s acc sv") (auto simp: sv_reveal_share_def split: sum.splits prod.splits)
  then show "sv_reveal_share H B eph nonce P s acc sv = (status, Some (j, msg)) \<longleftrightarrow>
      status = 200 \<and> (\<exists>a eid config st. acc = Some a \<and> accused H P s a sv eid config st \<and> j = ac_recipient a \<and>
        sealed_post H B (eph, nonce) config eid (ac_dealer a) st sv j msg)"
    unfolding send gate_accusation_iff by blast
next
  assume a: "sv_distribute_shares H B draw P s eid sv = Inr posts"
  then obtain config idx st where c: "server_config P s eid = Inr config" "my_index config sv = Some idx" "map_of (sv_dkg_states sv) (tohex eid) = Some st"
    by (auto simp: sv_distribute_shares_def split: option.splits)
  with a have e: "emap (\<lambda>r. ebind (verified_peer_enc_key H config r sv) (\<lambda>pub. seal_and_send_share H B (fst (draw r)) (snd (draw r)) eid idx r st pub sv))
      (filter (\<lambda>r. r \<noteq> idx) [1..th_n (cfg_threshold config)]) = Inr posts" by (simp add: sv_distribute_shares_def)
  show "\<exists>config idx st. server_config P s eid = Inr config \<and> my_index config sv = Some idx \<and> map_of (sv_dkg_states sv) (tohex eid) = Some st \<and>
      map fst posts = filter (\<lambda>r. r \<noteq> idx) [1..th_n (cfg_threshold config)] \<and>
      (\<forall>(k, m) \<in> set posts. sealed_post H B (draw k) config eid idx st sv k m)"
    using c emap_posts [OF e, where Q = "\<lambda>k m. sealed_post H B (draw k) config eid idx st sv k m"] seal_and_send_iff by blast
qed

section \<open>Repair of a complaint\<close>

lemma keyper_index_member: "keyper_index r i ks = Some k \<Longrightarrow> ki_signing_key (ks ! nat (k - i)) = r"
proof (induction ks arbitrary: i)
  case (Cons x xs)
  show ?case
  proof (cases "ki_signing_key x = r")
    case False
    with Cons.prems have k: "keyper_index r (i + 1) xs = Some k" by simp
    then have "i + 1 \<le> k" using keyper_index_range by blast
    then have "nat (k - i) = Suc (nat (k - (i + 1)))" by simp
    with Cons.IH [OF k] show ?thesis by simp
  qed (use Cons.prems in simp)
qed simp

lemma my_index_member:
  assumes "my_index config sv = Some i"
  shows "members_addr config i = Some (identity (sv_signer sv))" "1 \<le> i" "i \<le> int (length (cfg_keypers config))"
  using keyper_index_member [of "identity (sv_signer sv)" 1 "cfg_keypers config" i]
    keyper_index_range [of "identity (sv_signer sv)" 1 "cfg_keypers config" i] assms
  by (auto simp: members_addr_def my_index_def)

lemma signs_digest: "signs H sg \<Longrightarrow> \<exists>sig. sign_digest H (private_key sg) d = Inr sig \<and> recover_digest H d sig = Some (identity sg)"
  by (auto simp: signs_def sign_digest_def recover_digest_def)

lemma remove_0x_prefixed [simp]: "remove_0x (CHR ''0'' # CHR ''x'' # s) = s"
  by (simp add: remove_0x_def)

lemma emap_image: "emap f xs = Inr ys \<Longrightarrow> x \<in> set xs \<Longrightarrow> \<exists>y \<in> set ys. f x = Inr y"
  by (induction xs arbitrary: ys) auto

text \<open>A complaint of round 2 carries an accusation that opens the gate of the accused dealer.\<close>

lemma round2_accuses:
  assumes "sv_round2 S H P s ret eid rc = (rc1, Complaints bad accs)" "i \<in> set bad" "server_config P s eid = Inr config"
    and "my_index config rc = Some j" "signs H (sv_signer rc)"
  shows "\<exists>a \<in> set accs. \<exists>d sig. a = \<lparr>ac_election = tohex eid, ac_dealer = i, ac_recipient = j, ac_signature = ''0x'' @ tohex sig\<rparr> \<and>
    dkg_accusation_digest H eid i j = Inr d \<and> recover_digest H d sig = Some (identity (sv_signer rc))"
proof -
  let ?f = "\<lambda>d. ebind (dkg_accusation_digest H eid d j) (\<lambda>digest. ebind (sign_digest H (private_key (sv_signer rc)) digest) (\<lambda>sig.
      Inr \<lparr>ac_election = tohex eid, ac_dealer = d, ac_recipient = j, ac_signature = ''0x'' @ tohex sig\<rparr>))"
  have e: "emap ?f bad = Inr accs"
    using assms(1,3,4) by (auto simp: sv_round2_def Let_def split: option.splits sum.splits prod.splits)
  have "\<exists>a \<in> set accs. ?f i = Inr a" by (rule emap_image [OF e assms(2)])
  then obtain a digest sig where a: "a \<in> set accs" "dkg_accusation_digest H eid i j = Inr digest"
    "sign_digest H (private_key (sv_signer rc)) digest = Inr sig"
    "a = \<lparr>ac_election = tohex eid, ac_dealer = i, ac_recipient = j, ac_signature = ''0x'' @ tohex sig\<rparr>" by auto
  moreover have "recover_digest H digest sig = Some (identity (sv_signer rc))" using signs_digest [OF assms(5), of digest] a(3) by auto
  ultimately show ?thesis by blast
qed

lemma round2_complains:
  "sv_round2 S H P s ret eid rc = (rc1, Complaints bad accs) \<Longrightarrow>
     \<exists>st. map_of (sv_dkg_states rc) (tohex eid) = Some st \<and> sv_dkg_states rc1 = sv_dkg_states rc \<and> sv_signer rc1 = sv_signer rc \<and>
       inbox_of rc1 (tohex eid) = (inbox_of rc (tohex eid))\<lparr>ib_complained := ib_complained (inbox_of rc (tohex eid)) \<union> set bad\<rparr> \<and>
       bad = map fst (filter (\<lambda>(d, v). bad_dealing S st (ib_commitments (inbox_of rc (tohex eid))) d v) (ib_shares (inbox_of rc (tohex eid))))"
  by (auto simp: sv_round2_def round2_def Let_def split: option.splits sum.splits prod.splits if_splits)

text \<open>The share a dealer posts is the one its recipient unseals and accepts.\<close>

lemma post_received:
  assumes box: "sealed_box B" "length nonce = 12" and cfg: "server_config P s eid = Inr config" "my_index config dl = Some i" "my_index config rc = Some j"
    and sgn: "signs H (sv_signer dl)"
    and post: "seal_and_send_share H B eph nonce eid i j st (bx_public B priv) dl = Inr (j, msg)" "map_of (ks_shares_for_others st) j = Some v"
    and v: "0 \<le> v" "v < CURVE_ORDER"
    and accept: "\<And>old. map_of (ib_shares (inbox_of rc (tohex eid))) i = Some old \<Longrightarrow> old = v \<or> i \<in> ib_complained (inbox_of rc (tohex eid)) \<and>
      (\<exists>comms. map_of (ib_commitments (inbox_of rc (tohex eid))) i = Some comms \<and> comms \<noteq> [] \<and> verify_share S comms j v)"
  shows "sv_receive_share S H B priv P s msg rc = (put_inbox (tohex eid) ((inbox_of rc (tohex eid))
      \<lparr>ib_shares := AList.update i v (ib_shares (inbox_of rc (tohex eid))),
       ib_share_sigs := AList.update i (sm_signature msg) (ib_share_sigs (inbox_of rc (tohex eid)))\<rparr>) rc, 200)"
proof -
  obtain d sig where d: "dkg_share_digest H eid i j v = Inr d" "sign_digest H (private_key (sv_signer dl)) d = Inr sig"
    and m: "msg = \<lparr>sm_election = tohex eid, sm_dealer = i, sm_recipient = j, sm_sealed = Some (seal_share B eph nonce v (bx_public B priv)),
      sm_signature = ''0x'' @ tohex sig\<rparr>"
    using post by (auto simp: seal_and_send_share_def)
  have r: "recover_digest H d sig = Some (identity (sv_signer dl))" using signs_digest [OF sgn, of d] d(2) by auto
  have u: "unseal_share B (seal_share B eph nonce v (bx_public B priv)) priv = Inr v"
    using sealed_box.unseal_seal_share [OF box, of eph v priv] v by simp
  have "signed_by H (members_addr config i) (dkg_share_digest H eid i j v) (Some (''0x'' @ tohex sig)) = Inr True"
    using my_index_member(1) [OF cfg(2)] d r by (simp add: signed_by_def)
  then show ?thesis
    using accept cfg u by (fastforce simp: sv_receive_share_def m Let_def split: option.splits)
qed

text \<open>
  C9: a complaint is repaired. When round 2 of a keyper complains about a dealer that has published proper
  commitments and still holds its share, the accusation it answers with makes that dealer post the
  share again, the keyper accepts it in place of the bad one, and if that dealer was the only one
  complained about, round 2 then completes. No member can end a ceremony by one bad share.
\<close>

theorem complaint_repaired:
  assumes box: "sealed_box B" "length nonce = 12" and cfg: "server_config P s eid = Inr config" "my_index config dl = Some i" "my_index config rc = Some j"
    and sgn: "signs H (sv_signer dl)" "signs H (sv_signer rc)" and key: "verified_peer_enc_key H config j dl = Inr (bx_public B priv)"
    and r2: "sv_round2 S H P s ret eid rc = (rc1, Complaints bad accs)" "i \<in> set bad"
    and dealt: "map_of (sv_dkg_states dl) (tohex eid) = Some st" "map_of (ks_shares_for_others st) j = Some v" "0 \<le> v" "v < CURVE_ORDER"
    and proper: "map_of (sv_dkg_states rc) (tohex eid) = Some str" "ks_keyper_id str = Some j" "ks_quorum str = Some (int (length comms))" "comms \<noteq> []"
      "map_of (ib_commitments (inbox_of rc (tohex eid))) i = Some comms" "verify_share S comms j v"
    and dict: "distinct (map fst (ib_shares (inbox_of rc (tohex eid))))" and digest: "dkg_share_digest H eid i j v = Inr d"
  shows "\<exists>a \<in> set accs. \<exists>msg rc2. sv_reveal_share H B eph nonce P s (Some a) dl = (200, Some (j, msg)) \<and>
    sv_receive_share S H B priv P s msg rc1 = (rc2, 200) \<and> map_of (ib_shares (inbox_of rc2 (tohex eid))) i = Some v \<and>
    (set bad = {i} \<longrightarrow> snd (sv_round2 S H P s ret eid rc2) = Verified)"
proof -
  let ?e = "tohex eid" and ?box = "inbox_of rc (tohex eid)"
  obtain a da sa where a: "a \<in> set accs" "a = \<lparr>ac_election = ?e, ac_dealer = i, ac_recipient = j, ac_signature = ''0x'' @ tohex sa\<rparr>"
    "dkg_accusation_digest H eid i j = Inr da" "recover_digest H da sa = Some (identity (sv_signer rc))"
    using round2_accuses [OF r2 cfg(1,3) sgn(2)] by blast
  obtain sig where sig: "sign_digest H (private_key (sv_signer dl)) d = Inr sig" using signs_digest [OF sgn(1), of d] by blast
  define msg where "msg = \<lparr>sm_election = ?e, sm_dealer = i, sm_recipient = j, sm_sealed = Some (seal_share B eph nonce v (bx_public B priv)),
      sm_signature = ''0x'' @ tohex sig\<rparr>"
  have post: "seal_and_send_share H B eph nonce eid i j st (bx_public B priv) dl = Inr (j, msg)"
    by (simp add: seal_and_send_share_def dealt(2) digest sig msg_def)
  have "gate_accusation H P s (Some a) dl = Inr (eid, config, i, j, st)"
    using a dealt(1,2) cfg my_index_member(1) [OF cfg(3)] by (simp add: gate_accusation_def)
  then have rev: "sv_reveal_share H B eph nonce P s (Some a) dl = (200, Some (j, msg))" using key post by (simp add: sv_reveal_share_def)
  obtain str' where c: "map_of (sv_dkg_states rc) ?e = Some str'" "sv_dkg_states rc1 = sv_dkg_states rc" "sv_signer rc1 = sv_signer rc"
    "inbox_of rc1 ?e = ?box\<lparr>ib_complained := ib_complained ?box \<union> set bad\<rparr>"
    "bad = map fst (filter (\<lambda>(d, v). bad_dealing S str' (ib_commitments ?box) d v) (ib_shares ?box))"
    using round2_complains [OF r2(1)] by blast
  have str': "str' = str" using c(1) proper(1) by simp
  have j1: "my_index config rc1 = Some j" using cfg(3) c(3) by (simp add: my_index_def)
  define rc2 where "rc2 = put_inbox ?e ((inbox_of rc1 ?e)\<lparr>ib_shares := AList.update i v (ib_shares (inbox_of rc1 ?e)),
       ib_share_sigs := AList.update i (sm_signature msg) (ib_share_sigs (inbox_of rc1 ?e))\<rparr>) rc1"
  have rcv: "sv_receive_share S H B priv P s msg rc1 = (rc2, 200)"
    unfolding rc2_def by (rule post_received [OF box cfg(1,2) j1 sgn(1) post dealt(2-4)]) (use c(4) r2(2) proper in auto)
  have "snd (sv_round2 S H P s ret eid rc2) = Verified" if only: "set bad = {i}"
  proof -
    have good: "\<not> bad_dealing S str (ib_commitments ?box) i v" using proper by (simp add: bad_dealing_def)
    have "\<not> bad_dealing S str (ib_commitments ?box) k w" if "(k, w) \<in> set (AList.update i v (ib_shares ?box))" for k w
    proof (cases "k = i")
      case True
      then show ?thesis using that good dict by (metis distinct_update map_of_eq_Some_iff map_of_is_SomeI option.inject update_Some_unfold)
    next
      case False
      then have "(k, w) \<in> set (ib_shares ?box)" using that set_update_subset by fastforce
      then show ?thesis using only False c(5) str' by (auto simp: image_iff)
    qed
    then have "round2 S str (ib_commitments ?box) (AList.update i v (ib_shares ?box)) =
        Inr ((sum_list (map snd (AList.update i v (ib_shares ?box))) mod CURVE_ORDER, mul (g2 S) (ggen (g2 S)) (sum_list (map snd (AList.update i v (ib_shares ?box))) mod CURVE_ORDER)),
          str\<lparr>ks_combined_share := Some (sum_list (map snd (AList.update i v (ib_shares ?box))) mod CURVE_ORDER),
              ks_public_key_share := Some (mul (g2 S) (ggen (g2 S)) (sum_list (map snd (AList.update i v (ib_shares ?box))) mod CURVE_ORDER))\<rparr>)"
      by (auto simp: round2_def Let_def filter_empty_conv)
    moreover have "my_index config rc2 = Some j" "map_of (sv_dkg_states rc2) ?e = Some str"
      using j1 c(2) proper(1) by (simp_all add: rc2_def my_index_def)
    ultimately show ?thesis using cfg(1) c(4) by (simp add: sv_round2_def rc2_def Let_def)
  qed
  moreover have "map_of (ib_shares (inbox_of rc2 ?e)) i = Some v" by (simp add: rc2_def update_conv')
  ultimately show ?thesis using a(1) rev rcv by blast
qed

section \<open>A ceremony of the sample election\<close>

definition sample_box :: box_ops where
  "sample_box = \<lparr>bx_public = (\<lambda>a. take 32 (a @ replicate 32 0)), bx_exchange = (\<lambda>a p. map2 (+) (take 32 (a @ replicate 32 0)) p),
     bx_derive = (\<lambda>info shared. shared), bx_encrypt = (\<lambda>key nonce p. p), bx_decrypt = (\<lambda>key nonce c. Some c)\<rparr>"

lemma map2_plus_commute: "map2 (+) xs ys = map2 (+) ys (xs :: byte list)"
  by (induction xs ys rule: list_induct2') (auto simp: add.commute)

interpretation sample_sealed: sealed_box sample_box
  by unfold_locales (simp_all add: sample_box_def map2_plus_commute)

text \<open>Keyper 1 dealt with the coefficients 2 and 5; keyper 2 holds its commitments and a wrong share.\<close>

definition sample_dealer :: "int KeyperServer" where
  "sample_dealer = (KeyperServer_init (sample_signer 11))
     \<lparr>sv_dkg_states := [(tohex (be 32 1), KeyperDKGState_init\<lparr>ks_shares_for_others := [(2, 12), (3, 17)]\<rparr>)],
      sv_installed := Installed_init\<lparr>in_peers := JObj
        [(''2'', JObj [(''enc_pubkey'', JStr (tohex (bx_public sample_box []))), (''enc_pubkey_sig'', JStr (tohex (be 32 12)))]),
         (''3'', JObj [(''enc_pubkey'', JStr (tohex (bx_public sample_box [3]))), (''enc_pubkey_sig'', JStr (tohex (be 32 13)))])]\<rparr>\<rparr>"

definition sample_recipient :: "int KeyperServer" where
  "sample_recipient = (KeyperServer_init (sample_signer 12))
     \<lparr>sv_dkg_states := [(tohex (be 32 1), KeyperDKGState_init\<lparr>ks_keyper_id := Some 2, ks_quorum := Some 2\<rparr>)],
      sv_inbox := [(tohex (be 32 1), Inbox_init\<lparr>ib_commitments := [(1, [2, 5])], ib_shares := [(1, 13)]\<rparr>)]\<rparr>"

lemma sample_config_read: "server_config (memory_port tally_host) (sample_memory []) (be 32 1) = Inr sample_election"
proof -
  have "finalized_key_of (Stored_init sample_election) = Inr None"
    by (simp add: finalized_key_of_def Stored_init_def dkg_votes_def group_all_def resolve_unique_def)
  then show ?thesis using sample_fresh(2) by (simp add: server_config_def memory_port_def im_get_election_def im_get_finalized_key_def Stored_init_def)
qed

lemma sample_indices: "my_index sample_election sample_dealer = Some 1" "my_index sample_election sample_recipient = Some 2"
    "members_addr sample_election 2 = Some (be 32 12)" "members_addr sample_election 3 = Some (be 32 13)"
proof -
  have k: "cfg_keypers sample_election = map sample_identity [1, 2, 3]" by (simp add: sample_election_def)
  show "my_index sample_election sample_dealer = Some 1" "my_index sample_election sample_recipient = Some 2"
    "members_addr sample_election 2 = Some (be 32 12)" "members_addr sample_election 3 = Some (be 32 13)"
    using be_inject [of 11 32 12]
    by (simp_all add: my_index_def k sample_identity_def sample_dealer_def sample_recipient_def KeyperServer_init_def sample_signer_def members_addr_def)
qed

lemma sample_plain: "recover_message tally_host d g = Some g" "sign_message tally_host key d = key"
  by (simp_all add: tally_host_def sample_host_def)

lemma sample_peer_key: "verified_peer_enc_key tally_host sample_election 2 sample_dealer = Inr (bx_public sample_box [])"
  "verified_peer_enc_key tally_host sample_election 3 sample_dealer = Inr (bx_public sample_box [3])"
proof -
  have t: "str_int 2 = ''2''" "str_int 3 = ''3''" by code_simp+
  have ne: "tohex b \<noteq> []" if "length b = 32" for b using length_tohex [of b] that by (auto simp del: length_tohex)
  have n: "tohex (be 32 12) \<noteq> []" "tohex (be 32 13) \<noteq> []" "tohex (bx_public sample_box x) \<noteq> []" for x
    by (auto intro!: ne simp: sample_sealed.public_length)
  show "verified_peer_enc_key tally_host sample_election 2 sample_dealer = Inr (bx_public sample_box [])"
    "verified_peer_enc_key tally_host sample_election 3 sample_dealer = Inr (bx_public sample_box [3])"
    using n by (simp_all add: verified_peer_enc_key_def sample_dealer_def KeyperServer_init_def Installed_init_def t sample_indices
        verify_encryption_pubkey_def sample_plain sample_sealed.public_length)
qed

lemma sample_verify: "verify_share zq_suite [2, 5] 2 12" "\<not> verify_share zq_suite [2, 5] 2 13"
  by (simp_all add: verify_share_def zq_suite_def zq_group_def add_def mul_def CURVE_ORDER_def)

definition sample_accusation :: Accusation where
  "sample_accusation = \<lparr>ac_election = tohex (be 32 1), ac_dealer = 1, ac_recipient = 2, ac_signature = ''0x'' @ tohex (be 32 12)\<rparr>"

definition sample_complainer :: "int KeyperServer" where
  "sample_complainer = put_inbox (tohex (be 32 1)) (Inbox_init\<lparr>ib_commitments := [(1, [2, 5])], ib_shares := [(1, 13)], ib_complained := {1}\<rparr>)
     (put_inbox (tohex (be 32 1)) (Inbox_init\<lparr>ib_commitments := [(1, [2, 5])], ib_shares := [(1, 13)]\<rparr>) sample_recipient)"

lemma sample_complains:
  "sv_round2 zq_suite tally_host (memory_port tally_host) (sample_memory []) None (be 32 1) sample_recipient = (sample_complainer, Complaints [1] [sample_accusation])"
proof -
  have st: "map_of (sv_dkg_states sample_recipient) (tohex (be 32 1)) = Some (KeyperDKGState_init\<lparr>ks_keyper_id := Some 2, ks_quorum := Some 2\<rparr>)"
    "inbox_of sample_recipient (tohex (be 32 1)) = Inbox_init\<lparr>ib_commitments := [(1, [2, 5])], ib_shares := [(1, 13)]\<rparr>"
    "private_key (sv_signer sample_recipient) = 12"
    by (simp_all add: sample_recipient_def inbox_of_def KeyperServer_init_def sample_signer_def)
  have "round2 zq_suite (KeyperDKGState_init\<lparr>ks_keyper_id := Some 2, ks_quorum := Some 2\<rparr>) [(1, [2, 5])] [(1, 13)] = Inl (BadDealers [1])"
    using sample_verify by (simp add: round2_def bad_dealing_def)
  then show ?thesis
    by (simp add: sv_round2_def sample_config_read st sample_indices Inbox_init_def Let_def dkg_accusation_digest_def dkg_accusation_text_def
        sign_digest_def sample_plain sample_complainer_def sample_accusation_def)
qed

lemma sample_share_digest: "\<exists>d. dkg_share_digest tally_host (be 32 1) 1 2 12 = Inr d" "\<exists>d. dkg_share_digest tally_host (be 32 1) 1 3 17 = Inr d"
  by (simp_all add: dkg_share_digest_def dkg_share_text_def CURVE_ORDER_def)

lemma sample_dealing:
  "map_of (sv_dkg_states sample_dealer) (tohex (be 32 1)) = Some (KeyperDKGState_init\<lparr>ks_shares_for_others := [(2, 12), (3, 17)]\<rparr>)"
  "signs tally_host (sv_signer sample_dealer)" "signs tally_host (sv_signer sample_recipient)"
  using sample_signs [of 11] sample_signs [of 12] by (simp_all add: sample_dealer_def sample_recipient_def KeyperServer_init_def)

lemma complaint_repaired_witness:
  "\<exists>msg rc2. sv_reveal_share tally_host sample_box [] (replicate 12 0) (memory_port tally_host) (sample_memory []) (Some sample_accusation) sample_dealer =
       (200, Some (2, msg)) \<and>
     sv_receive_share zq_suite tally_host sample_box [] (memory_port tally_host) (sample_memory []) msg sample_complainer = (rc2, 200) \<and>
     snd (sv_round2 zq_suite tally_host (memory_port tally_host) (sample_memory []) None (be 32 1) rc2) = Verified"
proof -
  obtain d where d: "dkg_share_digest tally_host (be 32 1) 1 2 12 = Inr d" using sample_share_digest by blast
  let ?str = "KeyperDKGState_init\<lparr>ks_keyper_id := Some 2, ks_quorum := Some 2\<rparr> :: int KeyperDKGState"
  have r: "map_of (sv_dkg_states sample_recipient) (tohex (be 32 1)) = Some ?str"
    "map_of (ib_commitments (inbox_of sample_recipient (tohex (be 32 1)))) 1 = Some [2, 5]" "distinct (map fst (ib_shares (inbox_of sample_recipient (tohex (be 32 1)))))"
    by (simp_all add: sample_recipient_def inbox_of_def Inbox_init_def)
  show ?thesis
    using complaint_repaired [OF sample_sealed.sealed_box_axioms _ sample_config_read sample_indices(1,2) sample_dealing(2,3) sample_peer_key(1) sample_complains
        _ sample_dealing(1) _ _ _ r(1) _ _ _ r(2) sample_verify(1) r(3) d, of "replicate 12 0" "[]"]
    by (auto simp: CURVE_ORDER_def)
qed

lemma share_disclosure_witness:
  "\<exists>msg posts. sv_reveal_share tally_host sample_box [] (replicate 12 0) (memory_port tally_host) (sample_memory []) (Some sample_accusation) sample_dealer =
       (200, Some (2, msg)) \<and> sm_election msg = tohex (be 32 1) \<and>
     sm_sealed msg = Some (seal_share sample_box [] (replicate 12 0) 12 (bx_public sample_box [])) \<and>
     sv_distribute_shares tally_host sample_box (\<lambda>_. ([], replicate 12 0)) (memory_port tally_host) (sample_memory []) (be 32 1) sample_dealer = Inr posts \<and>
     map fst posts = [2, 3]"
proof -
  let ?P = "memory_port tally_host" and ?m = "sample_memory []" and ?st = "KeyperDKGState_init\<lparr>ks_shares_for_others := [(2, 12), (3, 17)]\<rparr> :: int KeyperDKGState"
  obtain d e where d: "dkg_share_digest tally_host (be 32 1) 1 2 12 = Inr d" "dkg_share_digest tally_host (be 32 1) 1 3 17 = Inr e"
    using sample_share_digest by blast
  have pk: "private_key (sv_signer sample_dealer) = 11" by (simp add: sample_dealer_def KeyperServer_init_def sample_signer_def)
  have key: "peer_key tally_host sample_election 2 sample_dealer (bx_public sample_box [])"
    using sample_peer_key(1) by (simp add: verified_peer_enc_key_iff)
  have a: "accused tally_host ?P ?m sample_accusation sample_dealer (be 32 1) sample_election ?st"
    by (simp add: accused_def sample_accusation_def sample_dealing sample_config_read sample_indices dkg_accusation_digest_def
        dkg_accusation_text_def recover_digest_def sample_plain)
  define msg where "msg = \<lparr>sm_election = tohex (be 32 1), sm_dealer = 1, sm_recipient = 2,
    sm_sealed = Some (seal_share sample_box [] (replicate 12 0) 12 (bx_public sample_box [])), sm_signature = ''0x'' @ tohex (be 32 11)\<rparr>"
  have "sealed_post tally_host sample_box ([], replicate 12 0) sample_election (be 32 1) 1 ?st sample_dealer 2 msg"
    using key d(1) by (auto simp: sealed_post_def msg_def sign_digest_def sample_plain pk)
  then have r: "sv_reveal_share tally_host sample_box [] (replicate 12 0) ?P ?m (Some sample_accusation) sample_dealer = (200, Some (2, msg))"
    using conjunct1 [OF share_disclosure [where draw = "\<lambda>_. ([], [])" and posts = "[]" and eid = "[]"],
        of tally_host sample_box "[]" "replicate 12 0" ?P ?m "Some sample_accusation" sample_dealer 200 2 msg] a
    by (auto simp: sample_accusation_def)
  have n: "filter (\<lambda>r. r \<noteq> 1) [1..th_n (cfg_threshold sample_election)] = [2, 3]" by (simp add: sample_election_def upto_rec1)
  obtain posts where p: "sv_distribute_shares tally_host sample_box (\<lambda>_. ([], replicate 12 0)) ?P ?m (be 32 1) sample_dealer = Inr posts"
    using d by (simp add: sv_distribute_shares_def sample_config_read sample_indices sample_dealing sample_peer_key seal_and_send_share_def
        sign_digest_def sample_plain pk n)
  have "map fst posts = [2, 3]"
    using conjunct2 [OF share_disclosure [where acc = None and status = 0 and j = 0 and eph = "[]" and nonce = "[]" and msg = msg], THEN mp, OF p]
    by (auto simp: sample_config_read sample_indices n)
  with r p show ?thesis by (auto simp: msg_def)
qed

lemma dealings_final_witness:
  "map_of (ib_commitments (inbox_of (sv_prune 0 sample_recipient) (tohex (be 32 1)))) 1 = Some [2, 5] \<and>
   map_of (ib_commitments (inbox_of sample_complainer (tohex (be 32 1)))) 1 = Some [2, 5]"
proof -
  let ?P = "memory_port tally_host" and ?s = "sample_memory []"
  let ?step = "\<lambda>x y. \<exists>l. l \<notin> {Deal (tohex (be 32 1)), Restart} \<and> sv_step zq_suite tally_host sample_box [] {} ?P ?P l x y"
  have "?step (sample_recipient, ?s) (sample_complainer, ?s)"
    using sv_step.verified [of zq_suite tally_host sample_box "[]" "{}" ?P ?P sample_recipient ?s None "be 32 1"] by (auto simp: sample_complains)
  then have run: "?step\<^sup>*\<^sup>* (sample_recipient, ?s) (sample_complainer, ?s)" by (rule r_into_rtranclp)
  have "?step (sample_recipient, ?s) (sv_prune 0 sample_recipient, ?s)" by (blast intro: sv_step.pruned)
  then have run2: "?step\<^sup>*\<^sup>* (sample_recipient, ?s) (sv_prune 0 sample_recipient, ?s)" by (rule r_into_rtranclp)
  have start: "map_of (ib_commitments (inbox_of sample_recipient (tohex (be 32 1)))) 1 = Some [2, 5]"
    by (simp add: sample_recipient_def inbox_of_def)
  show ?thesis using dealings_final [OF run, of 1 "[2, 5]"] dealings_final [OF run2, of 1 "[2, 5]"] start by simp
qed

text \<open>The sample election after voting: keyper 1 is triggered once.\<close>

lemma sample_trigger:
  "sv_aggregate (memory_port sample_host) 250 False (be 32 1) (KeyperServer_init (sample_signer 11) :: int KeyperServer) (sample_memory [(1, sample_dkg 1), (2, sample_dkg 2)]) =
     ((KeyperServer_init (sample_signer 11))\<lparr>sv_aggregate_state := [(tohex (be 32 1), Running)], sv_workers := [tohex (be 32 1)]\<rparr>, 202)"
proof -
  let ?m = "sample_memory [(1, sample_dkg 1), (2, sample_dkg 2)]"
  have st: "im_get ?m (be 32 1) = Inr ((Stored_init sample_election)\<lparr>st_dkg_by_keyper := [(1, sample_dkg 1), (2, sample_dkg 2)]\<rparr>)" by (rule sample_memory_get)
  have el: "im_get_election (be 32 1) ?m = Inr \<lparr>er_config = sample_election, er_cancelled = False,
      er_finalized_key = Some \<lparr>fk_pk_election = be 96 9, fk_committee_pks = sample_committee\<rparr>, er_tally_stalled = False\<rparr>"
    using sample_finalized st by (simp add: im_get_election_def Stored_init_def)
  have idx: "my_index sample_election (KeyperServer_init (sample_signer 11) :: int KeyperServer) = Some 1"
    by (simp add: my_index_def KeyperServer_init_def sample_signer_def sample_election_def sample_identity_def)
  have "check_can_aggregate (memory_port sample_host) 250 (be 32 1) ?m = Inr (\<lparr>er_config = sample_election, er_cancelled = False,
      er_finalized_key = Some \<lparr>fk_pk_election = be 96 9, fk_committee_pks = sample_committee\<rparr>, er_tally_stalled = False\<rparr>,
      \<lparr>fk_pk_election = be 96 9, fk_committee_pks = sample_committee\<rparr>)"
    using el st by (simp add: check_can_aggregate_def memory_port_def im_get_result_def Stored_init_def derive_state_def sample_election_def)
  then show ?thesis using el idx by (simp add: sv_aggregate_def server_config_def memory_port_def Let_def KeyperServer_init_def)
qed

lemma one_worker_per_election_witness:
  "\<exists>sv. sv_reachable zq_suite sample_host sample_box [] {} (memory_port sample_host) (memory_port sample_host) (sample_signer 11) sv \<and>
     sv_workers sv = [tohex (be 32 1)] \<and> map_of (sv_aggregate_state sv) (tohex (be 32 1)) = Some Running"
proof -
  let ?P = "memory_port sample_host" and ?m = "sample_memory [(1, sample_dkg 1), (2, sample_dkg 2)]"
  let ?sv = "fst (sv_aggregate ?P 250 False (be 32 1) (KeyperServer_init (sample_signer 11)) ?m)"
  have "\<exists>l. sv_step zq_suite sample_host sample_box [] {} ?P ?P l (KeyperServer_init (sample_signer 11), ?m) (?sv, ?m)"
    by (blast intro: sv_step.triggered)
  then have r: "sv_reachable zq_suite sample_host sample_box [] {} ?P ?P (sample_signer 11) ?sv"
    unfolding sv_reachable_def by (blast intro: r_into_rtranclp)
  show ?thesis using one_worker_per_election [OF r, of "tohex (be 32 1)"] r by (intro exI [of _ ?sv]) (simp add: sample_trigger)
qed

section \<open>Publication after a restart\<close>

lemma restart_sel [simp]:
  "sv_signer (restart sv) = sv_signer sv" "sv_completed (restart sv) = sv_completed sv" "sv_dkg_states (restart sv) = []"
  "inbox_of (restart sv) e = Inbox_init"
  by (simp_all add: restart_def KeyperServer_init_def inbox_of_def)

context crypto_suite
begin

lemma identity_codec: "\<exists>b. g2_to_compressed S (gid (g2 S)) = Inr b \<and> g2_from_compressed S b = Inr (gid (g2 S))"
  using g2_codec [OF W.id_sub] by blast

end

lemma joint_of_none: "derive_joint_mpk S [] q = Inr (gid (g2 S))"
  by (simp add: derive_joint_mpk_def check_commitment_lengths_def)

text \<open>
  C38: the guard of \<open>/dkg/publish\<close> does not know which ceremony was completed. A keyper that finished
  round 2 and is restarted before it is asked to publish has lost the commitments but not the
  completion mark; it then signs and stores the identity as election key, with an empty committee.
  Beginning a new ceremony keeps the mark as well.
\<close>

theorem restarted_keyper_publishes_identity:
  assumes S: "crypto_suite S" and abi: "abi_total H" and sgn: "signs H (sv_signer sv)" and m: "im_get m e = Inr st" "finalized_key_of st = Inr fk"
    and idx: "my_index (st_config st) sv = Some idx" and fin: "map_of (sv_completed sv) (tohex e) = Some entry" "map_of (st_dkg_by_keyper st) idx = None"
  shows "(\<exists>sv' m' st' sub. sv_publish S H (memory_port H) (memory_port H) e (restart sv) m = (sv', m', 200) \<and> im_get m' e = Inr st' \<and>
      map_of (st_dkg_by_keyper st') idx = Some sub \<and> g2_from_compressed S (dkg_pk_election sub) = Inr (gid (g2 S)) \<and> dkg_committee_pks sub = []) \<and>
    map_of (sv_completed (fst (sv_round1 S (memory_port H) m rnd e sv))) (tohex e) = Some entry"
proof
  obtain pk where pk: "g2_to_compressed S (gid (g2 S)) = Inr pk" "g2_from_compressed S pk = Inr (gid (g2 S))"
    using crypto_suite.identity_codec [OF S] by blast
  have "\<not> isl (abi_bytes_array H [])" using abi unfolding abi_total_def by blast
  then obtain d where d: "dkg_result_digest H e pk [] = Inr d" unfolding not_isl_iff by (auto simp: dkg_result_digest_def)
  obtain sig where sig: "sign_digest H (private_key (sv_signer sv)) d = Inr sig" "recover_digest H d sig = Some (identity (sv_signer sv))"
    using signs_digest [OF sgn, of d] by blast
  let ?sub = "\<lparr>dkg_election_id = e, dkg_pk_election = pk, dkg_committee_pks = [], dkg_keyper_signature = sig\<rparr>"
  have "keyper_index_by_recovery H (st_config st) d sig = Inr idx" using sig(2) idx by (simp add: keyper_index_by_recovery_def my_index_def)
  then have w: "im_submit_dkg_result H e pk [] sig m = Inr (im_put e (st\<lparr>st_dkg_by_keyper := AList.update idx ?sub (st_dkg_by_keyper st)\<rparr>) m)"
    using m fin(2) d by (simp add: im_submit_dkg_result_def Let_def)
  have cfg: "server_config (memory_port H) m e = Inr (st_config st)"
    using m by (simp add: server_config_def memory_port_def im_get_election_def im_get_finalized_key_def)
  have "\<exists>sv'. sv_publish S H (memory_port H) (memory_port H) e (restart sv) m =
      (sv', im_put e (st\<lparr>st_dkg_by_keyper := AList.update idx ?sub (st_dkg_by_keyper st)\<rparr>) m, 200)"
    using fin(1) pk(1) d sig(1) w cfg
    by (simp add: sv_publish_def Inbox_init_def joint_of_none sign_dkg_result_def Let_def memory_port_def)
  then show "\<exists>sv' m' st' sub. sv_publish S H (memory_port H) (memory_port H) e (restart sv) m = (sv', m', 200) \<and> im_get m' e = Inr st' \<and>
      map_of (st_dkg_by_keyper st') idx = Some sub \<and> g2_from_compressed S (dkg_pk_election sub) = Inr (gid (g2 S)) \<and> dkg_committee_pks sub = []"
    using pk(2) by (elim exE) (rule exI, rule exI, rule exI [of _ "st\<lparr>st_dkg_by_keyper := AList.update idx ?sub (st_dkg_by_keyper st)\<rparr>"],
      rule exI [of _ ?sub], intro conjI, assumption, simp_all add: update_conv')
  show "map_of (sv_completed (fst (sv_round1 S (memory_port H) m rnd e sv))) (tohex e) = Some entry"
    using fin(1) by (auto simp: sv_round1_def Let_def split: sum.splits option.splits prod.splits)
qed

lemma restarted_keyper_publishes_identity_witness:
  "\<exists>sv' m' st' sub. sv_publish zq_suite tally_host (memory_port tally_host) (memory_port tally_host) (be 32 1)
      (restart (sample_dealer\<lparr>sv_completed := [(tohex (be 32 1), \<lparr>de_combined_share = 7, de_expires_at = None\<rparr>)]\<rparr>)) (sample_memory []) = (sv', m', 200) \<and>
    im_get m' (be 32 1) = Inr st' \<and> map_of (st_dkg_by_keyper st') 1 = Some sub \<and> g2_from_compressed zq_suite (dkg_pk_election sub) = Inr 0"
proof -
  let ?sv = "sample_dealer\<lparr>sv_completed := [(tohex (be 32 1), \<lparr>de_combined_share = 7, de_expires_at = None\<rparr>)]\<rparr>"
  have f: "finalized_key_of (Stored_init sample_election) = Inr None"
    by (simp add: finalized_key_of_def Stored_init_def dkg_votes_def group_all_def resolve_unique_def)
  have i: "my_index (st_config (Stored_init sample_election)) ?sv = Some 1"
    using sample_indices(1) by (simp add: my_index_def Stored_init_def)
  have z: "gid (g2 zq_suite) = 0" by (simp add: zq_suite_def zq_group_def)
  have "signs tally_host (sv_signer ?sv)" using sample_dealing(2) by simp
  note r = restarted_keyper_publishes_identity [OF zq.crypto_suite_axioms tally_host_laws(2) this sample_fresh(2) f i]
  show ?thesis using conjunct1 [OF r] unfolding z by (simp add: Stored_init_def) blast
qed

end
