(* ===== verification/Ceremony_Http.thy ===== *)
theory Ceremony_Http
  imports Keyper_Bootstrap
begin

text \<open>
  \<^verbatim>\<open>services/coordinator/dkg_coordinator.py\<close>, the HTTP driver: installing the channel credentials of a
  committee, the key ceremony over the wire with its bounded repair loop, and the triggers of the
  tally. Everything outside the driver (keypers, data layer, clocks, connections) is a world of
  arbitrary type \<open>'w\<close>; the network is a record of operations on it, so what is proved holds for every
  behaviour of the keypers. A call returns the changed state next to its outcome, because an
  exception does not undo what was sent before it. \<open>'c\<close> is the state of the caller, which its
  callback \<open>rebootstrap\<close> changes.
\<close>

section \<open>Calls that change state and may raise\<close>

definition sbind :: "'s \<times> 'a result \<Rightarrow> ('a \<Rightarrow> 's \<Rightarrow> 's \<times> 'b result) \<Rightarrow> 's \<times> 'b result" where
  "sbind m f = (case m of (s, Inl e) \<Rightarrow> (s, Inl e) | (s, Inr x) \<Rightarrow> f x s)"

lemma sbind_simps [simp]: "sbind (s, Inl e) f = (s, Inl e)" "sbind (s, Inr x) f = f x s"
  by (simp_all add: sbind_def)

text \<open>A \<open>for\<close> loop that collects a value per round and stops at an exception.\<close>

fun sfor :: "('a \<Rightarrow> 's \<Rightarrow> 's \<times> 'b result) \<Rightarrow> 'a list \<Rightarrow> 's \<Rightarrow> 's \<times> 'b list result" where
  "sfor f [] s = (s, Inr [])"
| "sfor f (x # xs) s = sbind (f x s) (\<lambda>y s. sbind (sfor f xs s) (\<lambda>ys s. (s, Inr (y # ys))))"

section \<open>The network\<close>

text \<open>
  \<open>nw_post\<close> takes URL, JSON body and bearer token; an exception of \<^verbatim>\<open>requests\<close> is an \<open>Inl\<close>. \<open>nw_clock\<close> and
  \<open>nw_dl_clock\<close> are the clock readings of the coordinator and of the data layer.
\<close>

record 'w network =
  nw_post :: "string \<Rightarrow> json \<Rightarrow> string option \<Rightarrow> 'w \<Rightarrow> 'w \<times> response result"
  nw_get :: "string \<Rightarrow> 'w \<Rightarrow> 'w \<times> response result"
  nw_clock :: "'w \<Rightarrow> int"
  nw_dl_clock :: "'w \<Rightarrow> int"

record ('c, 'w) drive =
  dv_tokens :: "(int \<times> string) list"
  dv_caller :: 'c
  dv_world :: 'w

type_synonym ('c, 'w) rebootstrap = "int \<Rightarrow> 'c \<times> 'w \<Rightarrow> ('c \<times> 'w) \<times> string option"

definition rstrip_slash :: "string \<Rightarrow> string" where
  "rstrip_slash s = rev (dropWhile (\<lambda>c. c = CHR ''/'') (rev s))"

text \<open>\<open>r.raise_for_status()\<close> and \<open>r.json()\<close>.\<close>

definition check_status :: "response \<Rightarrow> unit result" where
  "check_status r = (if 400 \<le> rs_status r \<and> rs_status r < 600 then Inl (HttpStatus (rs_status r)) else Inr ())"

definition response_json :: "response \<Rightarrow> json result" where
  "response_json r = (case rs_json r of None \<Rightarrow> Inl ValueError | Some j \<Rightarrow> Inr j)"

definition keyper_urls_from :: "ElectionConfig \<Rightarrow> (string \<times> string) list \<Rightarrow> (int \<times> string) list" where
  "keyper_urls_from config overrides =
     map (\<lambda>(i, k). (i, if ki_url k \<noteq> [] then ki_url k
                      else (case map_of overrides (tohex (ki_signing_key k)) of None \<Rightarrow> [] | Some u \<Rightarrow> u)))
       (zip [1..int (length (cfg_keypers config))] (cfg_keypers config))"

section \<open>Installing credentials\<close>

text \<open>
  The token store is \<open>None\<close> when the coordinator has none, otherwise a map from URL to the pair of
  tokens. \<open>draws\<close> are the values one call draws: a token pair, a nonce, an ephemeral key and an
  AES-GCM nonce per keyper, and the wall-clock reading of each payload.
\<close>

type_synonym token_store = "(string \<rightharpoonup> string \<times> string) option"

record draws =
  dr_tokens :: "int \<Rightarrow> string \<times> string"
  dr_nonce :: "int \<Rightarrow> string"
  dr_eph :: "int \<Rightarrow> bytes"
  dr_iv :: "int \<Rightarrow> bytes"
  dr_time :: "int \<Rightarrow> int"

definition store_get :: "token_store \<Rightarrow> string \<Rightarrow> (string \<times> string) option" where
  "store_get st url = (case st of None \<Rightarrow> None | Some m \<Rightarrow> m url)"

definition store_put :: "token_store \<Rightarrow> string \<Rightarrow> string \<times> string \<Rightarrow> token_store" where
  "store_put st url cred = (case st of None \<Rightarrow> None | Some m \<Rightarrow> Some (m(url \<mapsto> cred)))"

text \<open>The first loop: every member's credential, reused or minted and recorded.\<close>

fun assign_tokens :: "draws \<Rightarrow> (int \<times> string) list \<Rightarrow> token_store \<Rightarrow> token_store \<times> (int \<times> string \<times> string) list" where
  "assign_tokens dr [] st = (st, [])"
| "assign_tokens dr ((i, url) # us) st =
     (let (st1, cred) = (case store_get st url of Some c \<Rightarrow> (st, c) | None \<Rightarrow> (store_put st url (dr_tokens dr i), dr_tokens dr i));
          (st2, rest) = assign_tokens dr us st1
      in (st2, (i, cred) # rest))"

definition str_value :: "json \<Rightarrow> string result" where
  "str_value v = (case v of JStr s \<Rightarrow> Inr s | _ \<Rightarrow> Inl AttributeError)"

text \<open>The second loop: the encryption key of a member, verified against its registered address.\<close>

definition fetch_enc_key ::
    "host \<Rightarrow> 'w network \<Rightarrow> (int \<times> bytes) list \<Rightarrow> int \<times> string \<Rightarrow> 'w \<Rightarrow> 'w \<times> (int \<times> bytes \<times> string \<times> string) result" where
  "fetch_enc_key H N member_addrs member w =
     (case member of (i, url) \<Rightarrow>
        sbind (nw_get N (rstrip_slash url @ ''/status'') w) (\<lambda>r w.
        (w, ebind (response_json r) (\<lambda>st.
            ebind (get_item st ''encryptionPubkey'') (\<lambda>enc. ebind (get_item st ''encryptionPubkeySig'') (\<lambda>sig.
            case map_of member_addrs i of
              None \<Rightarrow> Inl KeyError
            | Some addr \<Rightarrow>
                ebind (str_value enc) (\<lambda>enc_hex. ebind (str_value sig) (\<lambda>enc_sig.
                ebind (verify_encryption_pubkey H addr enc_hex enc_sig) (\<lambda>pub.
                Inr (i, pub, enc_hex, enc_sig))))))))))"

text \<open>The token bundle of one member; the peer map has every other member.\<close>

definition bundle_payload ::
    "draws \<Rightarrow> (int \<times> string) list \<Rightarrow> (int \<times> string \<times> string) list \<Rightarrow> (int \<times> bytes \<times> string \<times> string) list \<Rightarrow>
     string option \<Rightarrow> int \<Rightarrow> json result" where
  "bundle_payload dr urls creds keys relay_token i =
     (case map_of creds i of
        None \<Rightarrow> Inl KeyError
      | Some (api, peer) \<Rightarrow>
          ebind (emap (\<lambda>(j, url).
              case (map_of creds j, map_of keys j) of
                (Some (_, tok), Some (_, enc_hex, enc_sig)) \<Rightarrow>
                  Inr (str_int j, JObj [(''url'', JStr url), (''token'', JStr tok),
                                        (''enc_pubkey'', JStr enc_hex), (''enc_pubkey_sig'', JStr enc_sig)])
              | _ \<Rightarrow> Inl KeyError)
            (filter (\<lambda>(j, url). j \<noteq> i) urls)) (\<lambda>peers.
          Inr (JObj [(''api_token'', JStr api), (''peer_token'', JStr peer),
                     (''relay_token'', case relay_token of None \<Rightarrow> JNull | Some t \<Rightarrow> JStr t),
                     (''peers'', JObj peers), (''nonce'', JStr (dr_nonce dr i)), (''timestamp'', JInt (dr_time dr i))])))"

definition install_bundle ::
    "host \<Rightarrow> box_ops \<Rightarrow> 'w network \<Rightarrow> Signer \<Rightarrow> draws \<Rightarrow> (int \<times> string) list \<Rightarrow> (int \<times> string \<times> string) list \<Rightarrow>
     (int \<times> bytes \<times> string \<times> string) list \<Rightarrow> string option \<Rightarrow> int \<times> string \<Rightarrow> 'w \<Rightarrow> 'w \<times> unit result" where
  "install_bundle H B N coordinator dr urls creds keys relay_token member w =
     (case member of (i, url) \<Rightarrow>
        sbind (w, ebind (bundle_payload dr urls creds keys relay_token i) (\<lambda>payload.
                  ebind (sign_payload H coordinator payload) (\<lambda>sig.
                  case map_of keys i of
                    None \<Rightarrow> Inl KeyError
                  | Some (pub, _) \<Rightarrow>
                      Inr (sig, x25519_seal B (dr_eph dr i) (dr_iv dr i) (encode_utf8 (dumps (py_repr H) payload)) pub))))
          (\<lambda>(sig, sealed) w.
        sbind (nw_post N (rstrip_slash url @ ''/auth/bootstrap'')
                 (JObj [(''sealed'', JStr (tohex sealed)), (''signature'', JStr (tohex sig))]) None w) (\<lambda>r w.
        (w, check_status r))))"

text \<open>\<open>install\<close> is \<open>None\<close> for every member.\<close>

definition install_targets :: "(int \<times> string) list \<Rightarrow> int list option \<Rightarrow> (int \<times> string) list result" where
  "install_targets urls install =
     (case install of
        None \<Rightarrow> Inr urls
      | Some is \<Rightarrow> emap (\<lambda>i. case map_of urls i of None \<Rightarrow> Inl KeyError | Some u \<Rightarrow> Inr (i, u)) is)"

definition bootstrap_keypers ::
    "host \<Rightarrow> box_ops \<Rightarrow> 'w network \<Rightarrow> Signer \<Rightarrow> draws \<Rightarrow> (int \<times> string) list \<Rightarrow> (int \<times> bytes) list \<Rightarrow> string option \<Rightarrow>
     int list option \<Rightarrow> token_store \<times> 'w \<Rightarrow>
     (token_store \<times> 'w) \<times> ((int \<times> string) list \<times> (int \<times> string) list) result" where
  "bootstrap_keypers H B N coordinator dr urls member_addrs relay_token install stw =
     (let (st, creds) = assign_tokens dr urls (fst stw);
          (w, out) = sbind (sfor (fetch_enc_key H N member_addrs) urls (snd stw)) (\<lambda>keys w.
                     sbind (w, install_targets urls install) (\<lambda>targets w.
                     sbind (sfor (install_bundle H B N coordinator dr urls creds keys relay_token) targets w) (\<lambda>_ w.
                     (w, Inr (map (\<lambda>(i, c). (i, fst c)) creds, map (\<lambda>(i, c). (i, snd c)) creds)))))
      in ((st, w), out))"

section \<open>Calling a keyper\<close>

text \<open>
  One authenticated call with the 401 recovery both callers have: after a 401 the callback may
  re-install the credential, and the call is repeated once with the token it returns.
\<close>

definition drive_post ::
    "'w network \<Rightarrow> string \<Rightarrow> json \<Rightarrow> string \<Rightarrow> ('c, 'w) drive \<Rightarrow> ('c, 'w) drive \<times> response result" where
  "drive_post N target body token s =
     (let (w, r) = nw_post N target body (Some token) (dv_world s) in (s\<lparr>dv_world := w\<rparr>, r))"

definition post_reauth ::
    "'w network \<Rightarrow> ('c, 'w) rebootstrap \<Rightarrow> string \<Rightarrow> json \<Rightarrow> int \<Rightarrow> ('c, 'w) drive \<Rightarrow> ('c, 'w) drive \<times> response result" where
  "post_reauth N rebootstrap target body i s =
     (case map_of (dv_tokens s) i of
        None \<Rightarrow> (s, Inl KeyError)
      | Some token \<Rightarrow>
          sbind (drive_post N target body token s) (\<lambda>r s.
          if rs_status r \<noteq> 401 then (s, Inr r)
          else
            let ((c, w), fresh) = rebootstrap i (dv_caller s, dv_world s); s = s\<lparr>dv_caller := c, dv_world := w\<rparr> in
            case fresh of
              None \<Rightarrow> (s, Inr r)
            | Some token \<Rightarrow>
                if token = [] then (s, Inr r)
                else drive_post N target body token (s\<lparr>dv_tokens := AList.update i token (dv_tokens s)\<rparr>)))"

definition election_body :: "bytes \<Rightarrow> (string \<times> json) list \<Rightarrow> json" where
  "election_body election_id extra = JObj ((''electionId'', JStr (tohex election_id)) # extra)"

definition post_keyper ::
    "'w network \<Rightarrow> ('c, 'w) rebootstrap \<Rightarrow> string \<Rightarrow> string \<Rightarrow> bytes \<Rightarrow> (string \<times> json) list \<Rightarrow> int \<Rightarrow> ('c, 'w) drive \<Rightarrow>
     ('c, 'w) drive \<times> response option" where
  "post_keyper N rebootstrap url path election_id extra i s =
     (let (s', r) = post_reauth N rebootstrap (rstrip_slash url @ path) (election_body election_id extra) i s
      in (s', case r of Inl _ \<Rightarrow> None | Inr resp \<Rightarrow> Some resp))"

definition dkg_call ::
    "'w network \<Rightarrow> ('c, 'w) rebootstrap \<Rightarrow> (int \<times> string) list \<Rightarrow> bytes \<Rightarrow> string \<Rightarrow> int \<Rightarrow> ('c, 'w) drive \<Rightarrow>
     ('c, 'w) drive \<times> json result" where
  "dkg_call N rebootstrap urls election_id phase i s =
     (case map_of urls i of
        None \<Rightarrow> (s, Inl KeyError)
      | Some url \<Rightarrow>
          sbind (post_reauth N rebootstrap (rstrip_slash url @ ''/dkg/'' @ phase) (election_body election_id []) i s) (\<lambda>r s.
          (s, ebind (check_status r) (\<lambda>_. response_json r))))"

section \<open>The ceremony\<close>

text \<open>The accusations of an answer \<open>verified: false\<close>, and \<open>None\<close> for every other answer.\<close>

definition complaint_of :: "json \<Rightarrow> json option" where
  "complaint_of resp =
     (case resp of
        JObj kvs \<Rightarrow>
          if map_of kvs ''verified'' = Some (JBool False)
          then Some (case map_of kvs ''accusations'' of None \<Rightarrow> JArr [] | Some a \<Rightarrow> a)
          else None
      | _ \<Rightarrow> None)"

definition round2_complaints ::
    "'w network \<Rightarrow> ('c, 'w) rebootstrap \<Rightarrow> (int \<times> string) list \<Rightarrow> bytes \<Rightarrow> int list \<Rightarrow> ('c, 'w) drive \<Rightarrow>
     ('c, 'w) drive \<times> (int \<times> json) list result" where
  "round2_complaints N rebootstrap urls election_id targets s =
     sbind (sfor (\<lambda>i s. sbind (dkg_call N rebootstrap urls election_id ''round2'' i s) (\<lambda>resp s. (s, Inr (i, complaint_of resp)))) targets s)
       (\<lambda>outs s. (s, Inr (List.map_filter (\<lambda>(i, c). map_option (Pair i) c) outs)))"

text \<open>
  A JSON value as a key of a dictionary with integer keys: numbers compare by value, booleans as 0
  and 1; a list or an object is not hashable.
\<close>

definition hashable :: "json \<Rightarrow> bool" where
  "hashable v = (case v of JArr _ \<Rightarrow> False | JObj _ \<Rightarrow> False | _ \<Rightarrow> True)"

definition int_key :: "json \<Rightarrow> int option" where
  "int_key v =
     (case v of
        JInt n \<Rightarrow> Some n
      | JBool b \<Rightarrow> Some (if b then 1 else 0)
      | JFloat m e \<Rightarrow> if 0 \<le> e then Some (m * 2 ^ nat e) else if m mod 2 ^ nat (- e) = 0 then Some (m div 2 ^ nat (- e)) else None
      | _ \<Rightarrow> None)"

text \<open>Asking one accused dealer to deal again; its answer does not matter.\<close>

definition repair_one ::
    "'w network \<Rightarrow> ('c, 'w) rebootstrap \<Rightarrow> (int \<times> string) list \<Rightarrow> bytes \<Rightarrow> json \<Rightarrow> ('c, 'w) drive \<Rightarrow> ('c, 'w) drive \<times> unit result" where
  "repair_one N rebootstrap urls election_id acc s =
     sbind (s, get_opt acc ''accusedDealerIndex'') (\<lambda>dealer s.
     if \<not> hashable dealer then (s, Inl TypeError)
     else
       case int_key dealer of
         None \<Rightarrow> (s, Inr ())
       | Some j \<Rightarrow>
           (case map_of urls j of
              None \<Rightarrow> (s, Inr ())
            | Some url \<Rightarrow>
                (let (s', r) = post_keyper N rebootstrap url ''/dkg/reveal_share'' election_id [(''accusation'', acc)] j s
                 in (s', Inr ()))))"

definition repair_accuser ::
    "'w network \<Rightarrow> ('c, 'w) rebootstrap \<Rightarrow> (int \<times> string) list \<Rightarrow> bytes \<Rightarrow> int \<times> json \<Rightarrow> ('c, 'w) drive \<Rightarrow>
     ('c, 'w) drive \<times> unit list result" where
  "repair_accuser N rebootstrap urls election_id complaint s =
     sbind (s, json_iter (snd complaint)) (\<lambda>accs s. sfor (repair_one N rebootstrap urls election_id) accs s)"

definition repair_round ::
    "'w network \<Rightarrow> ('c, 'w) rebootstrap \<Rightarrow> (int \<times> string) list \<Rightarrow> bytes \<Rightarrow> (int \<times> json) list \<Rightarrow> ('c, 'w) drive \<Rightarrow>
     ('c, 'w) drive \<times> (int \<times> json) list result" where
  "repair_round N rebootstrap urls election_id complaints s =
     sbind (sfor (repair_accuser N rebootstrap urls election_id) (sort_key fst complaints) s) (\<lambda>_ s.
     round2_complaints N rebootstrap urls election_id (sort (map fst complaints)) s)"

definition MAX_REPAIR_ROUNDS :: nat where "MAX_REPAIR_ROUNDS = 2"

fun repair_loop ::
    "nat \<Rightarrow> 'w network \<Rightarrow> ('c, 'w) rebootstrap \<Rightarrow> (int \<times> string) list \<Rightarrow> bytes \<Rightarrow> (int \<times> json) list \<Rightarrow> ('c, 'w) drive \<Rightarrow>
     ('c, 'w) drive \<times> (int \<times> json) list result" where
  "repair_loop 0 N rebootstrap urls election_id complaints s = (s, Inr complaints)"
| "repair_loop (Suc n) N rebootstrap urls election_id complaints s =
     (if complaints = [] then (s, Inr complaints)
      else sbind (repair_round N rebootstrap urls election_id complaints s) (\<lambda>complaints s.
           repair_loop n N rebootstrap urls election_id complaints s))"

text \<open>Publishing: a keyper that still complains is skipped, and one that fails does not end the loop.\<close>

fun publish_loop ::
    "'w network \<Rightarrow> ('c, 'w) rebootstrap \<Rightarrow> (int \<times> string) list \<Rightarrow> bytes \<Rightarrow> (int \<times> json) list \<Rightarrow> int list \<Rightarrow> ('c, 'w) drive \<Rightarrow>
     ('c, 'w) drive \<times> int list" where
  "publish_loop N rebootstrap urls election_id complaints [] s = (s, [])"
| "publish_loop N rebootstrap urls election_id complaints (i # is) s =
     (if i \<in> fst ` set complaints then publish_loop N rebootstrap urls election_id complaints is s
      else
        let (s1, r) = dkg_call N rebootstrap urls election_id ''publish'' i s;
            (s2, publishers) = publish_loop N rebootstrap urls election_id complaints is s1
        in (s2, case r of Inl _ \<Rightarrow> publishers | Inr _ \<Rightarrow> i # publishers))"

text \<open>
  The list of accused dealers the exception names: each accusation needs a \<open>get\<close>, its value a hash,
  and the values an order, which Python has among numbers and among strings only.
\<close>

definition json_class :: "json \<Rightarrow> nat" where
  "json_class v = (case v of JStr _ \<Rightarrow> 1 | JNull \<Rightarrow> 2 | _ \<Rightarrow> 0)"

definition accused_dealers :: "(int \<times> json) list \<Rightarrow> json list result" where
  "accused_dealers complaints =
     ebind (emap (\<lambda>(i, a). json_iter a) complaints) (\<lambda>accs.
     ebind (emap (\<lambda>acc. ebind (get_opt acc ''accusedDealerIndex'') (\<lambda>v. if hashable v then Inr v else Inl TypeError)) (concat accs)) (\<lambda>vs.
     if \<exists>v \<in> set vs. json_class v \<noteq> json_class (hd vs) then Inl TypeError else Inr vs))"

definition DEAL_PHASES :: "string list" where
  "DEAL_PHASES = [''round1'', ''distribute_commitments'', ''distribute_shares'']"

definition run_dkg_http ::
    "'w ElectionDataLayer \<Rightarrow> 'w network \<Rightarrow> ('c, 'w) rebootstrap \<Rightarrow> bytes \<Rightarrow> (int \<times> string) list \<Rightarrow> ('c, 'w) drive \<Rightarrow>
     ('c, 'w) drive \<times> bool result" where
  "run_dkg_http P N rebootstrap election_id urls s =
     (let idxs = sort (map fst urls) in
      sbind (sfor (\<lambda>phase s. sfor (dkg_call N rebootstrap urls election_id phase) idxs s) DEAL_PHASES s) (\<lambda>_ s.
      sbind (round2_complaints N rebootstrap urls election_id idxs s) (\<lambda>complaints s.
      sbind (repair_loop MAX_REPAIR_ROUNDS N rebootstrap urls election_id complaints s) (\<lambda>complaints s.
      let (s, publishers) = publish_loop N rebootstrap urls election_id complaints idxs s in
      sbind (s, dl_get_finalized_key P election_id (dv_world s)) (\<lambda>fk s.
      if fk = None \<and> complaints \<noteq> []
      then (s, ebind (accused_dealers complaints) (\<lambda>_. Inl DKGComplaint))
      else (s, Inr (fk \<noteq> None)))))))"

section \<open>The triggers of the tally\<close>

fun trigger_decrypt_http ::
    "'w network \<Rightarrow> ('c, 'w) rebootstrap \<Rightarrow> bytes \<Rightarrow> (int \<times> string) list \<Rightarrow> ('c, 'w) drive \<Rightarrow> ('c, 'w) drive" where
  "trigger_decrypt_http N rebootstrap election_id [] s = s"
| "trigger_decrypt_http N rebootstrap election_id ((i, url) # us) s =
     trigger_decrypt_http N rebootstrap election_id us
       (fst (post_keyper N rebootstrap url ''/publish_decr_share'' election_id [] i s))"

text \<open>What a keyper said.\<close>

definition aggregate_reply :: "host \<Rightarrow> response option \<Rightarrow> string" where
  "aggregate_reply H r =
     (case r of
        None \<Rightarrow> ''failed''
      | Some resp \<Rightarrow>
          if 500 \<le> rs_status resp then ''failed''
          else if rs_status resp = 409 then ''refused''
          else
            (case ebind (response_json resp) (\<lambda>j.
                  case j of
                    JObj kvs \<Rightarrow> Inr (py_str (py_repr H) (get_or j ''status'' (JStr ''started'')))
                  | _ \<Rightarrow> Inl AttributeError) of
               Inl _ \<Rightarrow> ''started''
             | Inr st \<Rightarrow> st))"

fun trigger_aggregate_http ::
    "host \<Rightarrow> 'w network \<Rightarrow> ('c, 'w) rebootstrap \<Rightarrow> bytes \<Rightarrow> bool \<Rightarrow> (int \<times> string) list \<Rightarrow> ('c, 'w) drive \<Rightarrow>
     ('c, 'w) drive \<times> (int \<times> string) list" where
  "trigger_aggregate_http H N rebootstrap election_id recompute [] s = (s, [])"
| "trigger_aggregate_http H N rebootstrap election_id recompute ((i, url) # us) s =
     (let (s1, r) = post_keyper N rebootstrap url ''/aggregate'' election_id (if recompute then [(''recompute'', JBool True)] else []) i s;
          (s2, rest) = trigger_aggregate_http H N rebootstrap election_id recompute us s1
      in (s2, (i, aggregate_reply H r) # rest))"

section \<open>Loops under an invariant\<close>

lemma sfor_inv:
  assumes "I s" and "\<And>x s. I s \<Longrightarrow> x \<in> set xs \<Longrightarrow> \<exists>s' y. f x s = (s', Inr y) \<and> I s' \<and> Q x y"
  shows "\<exists>s' ys. sfor f xs s = (s', Inr ys) \<and> I s' \<and> list_all2 Q xs ys"
  using assms
proof (induction xs arbitrary: s)
  case (Cons x xs)
  obtain s1 y where a: "f x s = (s1, Inr y)" "I s1" "Q x y" using Cons.prems by (metis list.set_intros(1))
  obtain s2 ys where b: "sfor f xs s1 = (s2, Inr ys)" "I s2" "list_all2 Q xs ys"
    using Cons.IH [OF a(2)] Cons.prems(2) by (meson list.set_intros(2))
  show ?case using a b by simp
qed simp

text \<open>Only exceptions of the body leave the loop.\<close>

lemma sfor_raises: "sfor f xs s = (s', Inl e) \<Longrightarrow> \<exists>x \<in> set xs. \<exists>t. f x t = (s', Inl e)"
proof (induction xs arbitrary: s)
  case (Cons x xs)
  show ?case
  proof (cases "f x s")
    case (Pair t r)
    with Cons show ?thesis
      by (cases r; cases "sfor f xs t"; cases "snd (sfor f xs t)") fastforce+
  qed
qed simp

text \<open>A well-formed accusation list: what the repair loop can work through.\<close>

definition proper_accusations :: "json \<Rightarrow> bool" where
  "proper_accusations a \<longleftrightarrow> (\<exists>accs. json_iter a = Inr accs \<and>
     (\<forall>acc \<in> set accs. \<exists>v. get_opt acc ''accusedDealerIndex'' = Inr v \<and> hashable v))"

lemma round2_inv:
  assumes "I s" and "\<And>s i. I s \<Longrightarrow> i \<in> set targets \<Longrightarrow>
      \<exists>s' j. dkg_call N rb urls eid ''round2'' i s = (s', Inr j) \<and> I s' \<and> Q i (complaint_of j)"
  shows "\<exists>s' cs. round2_complaints N rb urls eid targets s = (s', Inr cs) \<and> I s' \<and>
    (\<forall>(i, a) \<in> set cs. i \<in> set targets \<and> Q i (Some a))"
proof -
  have "\<exists>s' outs. sfor (\<lambda>i s. sbind (dkg_call N rb urls eid ''round2'' i s) (\<lambda>resp s. (s, Inr (i, complaint_of resp)))) targets s
      = (s', Inr outs) \<and> I s' \<and> list_all2 (\<lambda>i y. fst y = i \<and> Q i (snd y)) targets outs"
    using assms by (intro sfor_inv) fastforce+
  then obtain s' outs where o: "sfor (\<lambda>i s. sbind (dkg_call N rb urls eid ''round2'' i s) (\<lambda>resp s. (s, Inr (i, complaint_of resp)))) targets s
      = (s', Inr outs)" "I s'" "list_all2 (\<lambda>i y. fst y = i \<and> Q i (snd y)) targets outs" by blast
  have "\<forall>y \<in> set outs. fst y \<in> set targets \<and> Q (fst y) (snd y)"
    using o(3) by (fastforce simp: list_all2_conv_all_nth in_set_conv_nth)
  with o(1,2) show ?thesis by (force simp: round2_complaints_def map_filter_def)
qed

lemma repair_one_inv:
  assumes I: "I s" and acc: "get_opt acc ''accusedDealerIndex'' = Inr v" "hashable v"
    and post: "\<And>s url ex j. I s \<Longrightarrow> I (fst (post_keyper N rb url ''/dkg/reveal_share'' eid ex j s))"
  shows "\<exists>s'. repair_one N rb urls eid acc s = (s', Inr ()) \<and> I s'"
  using I acc post by (auto simp: repair_one_def split: option.split prod.split) (metis fst_conv)

lemma repair_round_inv:
  assumes I: "I s" and cs: "\<forall>(i, a) \<in> set cs. i \<in> keys \<and> proper_accusations a"
    and post: "\<And>s url ex j. I s \<Longrightarrow> I (fst (post_keyper N rb url ''/dkg/reveal_share'' eid ex j s))"
    and r2: "\<And>s i. I s \<Longrightarrow> i \<in> keys \<Longrightarrow>
      \<exists>s' j. dkg_call N rb urls eid ''round2'' i s = (s', Inr j) \<and> I s' \<and> Q i (complaint_of j)"
  shows "\<exists>s' cs'. repair_round N rb urls eid cs s = (s', Inr cs') \<and> I s' \<and> (\<forall>(i, a) \<in> set cs'. i \<in> keys \<and> Q i (Some a))"
proof -
  have one: "\<exists>s' y. repair_accuser N rb urls eid x s = (s', Inr y) \<and> I s' \<and> True" if "I s" "x \<in> set (sort_key fst cs)" for x s
  proof -
    have "proper_accusations (snd x)" using that(2) cs by auto
    then obtain accs where accs: "json_iter (snd x) = Inr accs"
      "\<forall>acc \<in> set accs. \<exists>v. get_opt acc ''accusedDealerIndex'' = Inr v \<and> hashable v"
      by (auto simp: proper_accusations_def)
    have "\<exists>s' ys. sfor (repair_one N rb urls eid) accs s = (s', Inr ys) \<and> I s' \<and> list_all2 (\<lambda>_ _. True) accs ys"
    proof (rule sfor_inv [where I = I, OF that(1)])
      fix acc t assume "I t" "acc \<in> set accs"
      then obtain v where "get_opt acc ''accusedDealerIndex'' = Inr v" "hashable v" using accs(2) by blast
      from repair_one_inv [where I = I, OF \<open>I t\<close> this post] show "\<exists>s' y. repair_one N rb urls eid acc t = (s', Inr y) \<and> I s' \<and> True"
        by blast
    qed
    then show ?thesis by (auto simp: repair_accuser_def accs(1))
  qed
  obtain s1 ys where s1: "sfor (repair_accuser N rb urls eid) (sort_key fst cs) s = (s1, Inr ys)" "I s1"
    using sfor_inv [where I = I and f = "repair_accuser N rb urls eid" and xs = "sort_key fst cs" and Q = "\<lambda>_ _. True", OF I] one by blast
  have "\<forall>i \<in> set (sort (map fst cs)). i \<in> keys" using cs by auto
  then have "\<exists>s' cs'. round2_complaints N rb urls eid (sort (map fst cs)) s1 = (s', Inr cs') \<and> I s' \<and>
      (\<forall>(i, a) \<in> set cs'. i \<in> set (sort (map fst cs)) \<and> Q i (Some a))"
    using s1(2) r2 by (intro round2_inv) auto
  then obtain s' cs' where "round2_complaints N rb urls eid (sort (map fst cs)) s1 = (s', Inr cs')" "I s'"
    "\<forall>(i, a) \<in> set cs'. i \<in> set (sort (map fst cs)) \<and> Q i (Some a)" by blast
  then show ?thesis
    using s1(1) \<open>\<forall>i \<in> set (sort (map fst cs)). i \<in> keys\<close> by (fastforce simp: repair_round_def)
qed

lemma repair_loop_inv:
  assumes I: "I s" and cs: "\<forall>(i, a) \<in> set cs. i \<in> keys \<and> Q i (Some a)"
    and Q: "\<And>i a. Q i (Some a) \<Longrightarrow> proper_accusations a"
    and post: "\<And>s url ex j. I s \<Longrightarrow> I (fst (post_keyper N rb url ''/dkg/reveal_share'' eid ex j s))"
    and r2: "\<And>s i. I s \<Longrightarrow> i \<in> keys \<Longrightarrow>
      \<exists>s' j. dkg_call N rb urls eid ''round2'' i s = (s', Inr j) \<and> I s' \<and> Q i (complaint_of j)"
  shows "\<exists>s' cs'. repair_loop n N rb urls eid cs s = (s', Inr cs') \<and> I s' \<and> (\<forall>(i, a) \<in> set cs'. i \<in> keys \<and> Q i (Some a))"
  using I cs
proof (induction n arbitrary: s cs)
  case (Suc n)
  have p: "\<forall>(i, a) \<in> set cs. i \<in> keys \<and> proper_accusations a" using Suc.prems(2) Q by blast
  obtain s1 cs1 where "repair_round N rb urls eid cs s = (s1, Inr cs1)" "I s1" "\<forall>(i, a) \<in> set cs1. i \<in> keys \<and> Q i (Some a)"
    using repair_round_inv [where Q = Q, OF Suc.prems(1) p post r2] by blast
  with Suc show ?case by auto
qed auto

text \<open>Publishing asks every keyper without a complaint and keeps what the others stored.\<close>

lemma publish_loop_inv:
  assumes I: "I s"
    and step: "\<And>s i. I s \<Longrightarrow> i \<in> set is \<Longrightarrow> \<exists>s' r. dkg_call N rb urls eid ''publish'' i s = (s', r) \<and> I s' \<and>
      pub (dv_world s) \<subseteq> pub (dv_world s') \<and> (i \<in> G \<longrightarrow> i \<in> pub (dv_world s'))"
    and good: "\<forall>i \<in> G. i \<notin> fst ` set cs"
  shows "\<exists>s' ps. publish_loop N rb urls eid cs is s = (s', ps) \<and> I s' \<and> pub (dv_world s) \<union> (G \<inter> set is) \<subseteq> pub (dv_world s')"
  using I step
proof (induction "is" arbitrary: s)
  case (Cons i "is")
  show ?case
  proof (cases "i \<in> fst ` set cs")
    case True
    obtain s2 ps where "publish_loop N rb urls eid cs is s = (s2, ps)" "I s2" "pub (dv_world s) \<union> (G \<inter> set is) \<subseteq> pub (dv_world s2)"
      using Cons.IH [OF Cons.prems(1)] Cons.prems(2) by (metis list.set_intros(2))
    with True good show ?thesis by auto
  next
    case False
    obtain s1 r where a: "dkg_call N rb urls eid ''publish'' i s = (s1, r)" "I s1" "pub (dv_world s) \<subseteq> pub (dv_world s1)"
      "i \<in> G \<longrightarrow> i \<in> pub (dv_world s1)" using Cons.prems by (metis list.set_intros(1))
    obtain s2 ps where "publish_loop N rb urls eid cs is s1 = (s2, ps)" "I s2" "pub (dv_world s1) \<union> (G \<inter> set is) \<subseteq> pub (dv_world s2)"
      using Cons.IH [OF a(2)] Cons.prems(2) by (metis list.set_intros(2))
    with a False show ?thesis by (auto split: sum.split)
  qed
qed auto

lemma sfor_returns: "sfor f xs s = (s', Inr ys) \<Longrightarrow> x \<in> set xs \<Longrightarrow> \<exists>t t' y. f x t = (t', Inr y)"
proof (induction xs arbitrary: s ys)
  case (Cons z xs)
  obtain t r where f: "f z s = (t, r)" by force
  then obtain y where r: "r = Inr y" using Cons.prems(1) by (cases r) auto
  obtain t' r' where g: "sfor f xs t = (t', r')" by force
  then obtain ys' where ys': "r' = Inr ys'" "t' = s'" using Cons.prems(1) f r by (cases r') auto
  show ?case
  proof (cases "x = z")
    case True
    then show ?thesis using f r by blast
  next
    case False
    then show ?thesis using Cons.IH [of t ys'] Cons.prems(2) g ys' by simp
  qed
qed simp

lemma repair_accuser_raises:
  "repair_accuser N rb urls eid c s = (s', Inl e) \<Longrightarrow> e = TypeError \<or> e = AttributeError"
proof -
  have one: "e = TypeError \<or> e = AttributeError" if "repair_one N rb urls eid acc t = (t', Inl e)" for acc t t'
    using that by (auto simp: repair_one_def get_opt_def Let_def split: json.splits if_splits option.splits prod.splits)
  assume r: "repair_accuser N rb urls eid c s = (s', Inl e)"
  show ?thesis
  proof (cases "json_iter (snd c)")
    case (Inl e')
    then show ?thesis using r by (auto simp: repair_accuser_def json_iter_def split: json.splits)
  next
    case (Inr accs)
    then show ?thesis using r sfor_raises [of "repair_one N rb urls eid" accs] one by (fastforce simp: repair_accuser_def)
  qed
qed

lemma run_dkg_http_unfold:
  assumes "sfor (\<lambda>phase s. sfor (dkg_call N rb urls eid phase) (sort (map fst urls)) s) DEAL_PHASES s = (s1, Inr out)"
    and "round2_complaints N rb urls eid (sort (map fst urls)) s1 = (s2, Inr cs)"
  shows "run_dkg_http P N rb eid urls s =
    sbind (repair_loop MAX_REPAIR_ROUNDS N rb urls eid cs s2) (\<lambda>complaints s.
      let (s, publishers) = publish_loop N rb urls eid complaints (sort (map fst urls)) s in
      sbind (s, dl_get_finalized_key P eid (dv_world s)) (\<lambda>fk s.
      if fk = None \<and> complaints \<noteq> []
      then (s, ebind (accused_dealers complaints) (\<lambda>_. Inl DKGComplaint))
      else (s, Inr (fk \<noteq> None))))"
  using assms by (simp add: run_dkg_http_def)

section \<open>Credentials\<close>

lemma assign_tokens_store:
  assumes "assign_tokens dr us (Some m) = (st, creds)"
  shows "\<exists>m'. st = Some m' \<and> m \<subseteq>\<^sub>m m' \<and> (\<forall>u \<in> snd ` set us. m' u \<noteq> None) \<and>
    creds = map (\<lambda>(i, u). (i, the (m' u))) us"
  using assms
proof (induction us arbitrary: m st creds)
  case (Cons x us)
  obtain i u where x: "x = (i, u)" by force
  let ?m = "if m u = None then m(u \<mapsto> dr_tokens dr i) else m"
  obtain st2 rest where r: "assign_tokens dr us (Some ?m) = (st2, rest)" by force
  obtain m' where m': "st2 = Some m'" "?m \<subseteq>\<^sub>m m'" "\<forall>u \<in> snd ` set us. m' u \<noteq> None" "rest = map (\<lambda>(i, u). (i, the (m' u))) us"
    using Cons.IH [OF r] by blast
  obtain c where c: "?m u = Some c" by (cases "m u") auto
  have le: "m \<subseteq>\<^sub>m ?m" by (auto simp: map_le_def)
  have mu: "m' u = Some c" using m'(2) c by (force simp: map_le_def dom_def)
  have "st = st2" "creds = (i, c) # rest"
    using Cons.prems r c by (auto simp: x store_get_def store_put_def Let_def split: option.splits if_splits)
  then show ?case using m' mu map_le_trans [OF le m'(2)] by (auto simp: x)
qed auto

lemma bootstrap_tokens:
  assumes "bootstrap_keypers H B N co dr us ms rt inst (Some m, w) = ((st, w'), out)"
  shows "\<exists>m'. st = Some m' \<and> m \<subseteq>\<^sub>m m' \<and> (\<forall>u \<in> snd ` set us. m' u \<noteq> None) \<and>
    (\<forall>api peer. out = Inr (api, peer) \<longrightarrow> api = map (\<lambda>(i, u). (i, fst (the (m' u)))) us \<and>
       peer = map (\<lambda>(i, u). (i, snd (the (m' u)))) us)"
proof -
  obtain st1 creds where a: "assign_tokens dr us (Some m) = (st1, creds)" by force
  obtain m' where m': "st1 = Some m'" "m \<subseteq>\<^sub>m m'" "\<forall>u \<in> snd ` set us. m' u \<noteq> None" "creds = map (\<lambda>(i, u). (i, the (m' u))) us"
    using assign_tokens_store [OF a] by blast
  have st: "st = st1" using assms by (simp add: bootstrap_keypers_def a split: prod.splits)
  have "out = Inr (api, peer) \<Longrightarrow> api = map (\<lambda>(i, c). (i, fst c)) creds \<and> peer = map (\<lambda>(i, c). (i, snd c)) creds" for api peer
    using assms by (auto simp: bootstrap_keypers_def a sbind_def split: prod.splits sum.splits)
  with m' st show ?thesis by (auto simp: split_def comp_def)
qed

section \<open>Properties\<close>

text \<open>
  C13: a complaining keyper has no veto. Let the dealing phases of a ceremony over HTTP have been
  answered, and let \<open>G\<close> be keypers whose round 2 never complains and who publish when asked, such
  that the key is final once they have published. Then whatever the other keypers answer in round 2,
  as long as a complaint carries a well-formed list of accusations, and whatever the accused dealers
  do about the reveals, the driver ends after at most two repair rounds with the key final.
\<close>

theorem complaint_no_veto:
  fixes I :: "('c, 'w) drive \<Rightarrow> bool" and pub :: "'w \<Rightarrow> int set"
  assumes "sfor (\<lambda>phase s. sfor (dkg_call N rb urls eid phase) (sort (map fst urls)) s) DEAL_PHASES s = (s1, Inr out)" and "I s1"
    and r2: "\<And>s i. I s \<Longrightarrow> i \<in> fst ` set urls \<Longrightarrow> \<exists>s' j. dkg_call N rb urls eid ''round2'' i s = (s', Inr j) \<and> I s' \<and>
      (case complaint_of j of None \<Rightarrow> True | Some a \<Rightarrow> i \<notin> G \<and> proper_accusations a)"
    and reveal: "\<And>s url ex j. I s \<Longrightarrow> I (fst (post_keyper N rb url ''/dkg/reveal_share'' eid ex j s))"
    and publish: "\<And>s i. I s \<Longrightarrow> i \<in> fst ` set urls \<Longrightarrow> \<exists>s' r. dkg_call N rb urls eid ''publish'' i s = (s', r) \<and> I s' \<and>
      pub (dv_world s) \<subseteq> pub (dv_world s') \<and> (i \<in> G \<longrightarrow> i \<in> pub (dv_world s'))"
    and final: "\<And>s. I s \<Longrightarrow> G \<subseteq> pub (dv_world s) \<Longrightarrow> \<exists>k. dl_get_finalized_key P eid (dv_world s) = Inr (Some k)"
    and "G \<subseteq> fst ` set urls"
  shows "\<exists>s'. run_dkg_http P N rb eid urls s = (s', Inr True)"
proof -
  let ?Q = "\<lambda>i c. case c of None \<Rightarrow> True | Some a \<Rightarrow> i \<notin> G \<and> proper_accusations a"
  have "\<exists>s' cs. round2_complaints N rb urls eid (sort (map fst urls)) s1 = (s', Inr cs) \<and> I s' \<and>
      (\<forall>(i, a) \<in> set cs. i \<in> set (sort (map fst urls)) \<and> ?Q i (Some a))"
    by (rule round2_inv [where I = I, OF assms(2)]) (use r2 in auto)
  then obtain s2 cs where s2: "round2_complaints N rb urls eid (sort (map fst urls)) s1 = (s2, Inr cs)" "I s2"
    "\<forall>(i, a) \<in> set cs. i \<in> fst ` set urls \<and> ?Q i (Some a)" by fastforce
  have "\<exists>s' cs'. repair_loop MAX_REPAIR_ROUNDS N rb urls eid cs s2 = (s', Inr cs') \<and> I s' \<and>
      (\<forall>(i, a) \<in> set cs'. i \<in> fst ` set urls \<and> ?Q i (Some a))"
    by (rule repair_loop_inv [where I = I, OF s2(2,3) _ reveal r2]) auto
  then obtain s3 cs' where s3: "repair_loop MAX_REPAIR_ROUNDS N rb urls eid cs s2 = (s3, Inr cs')" "I s3"
    "\<forall>(i, a) \<in> set cs'. i \<in> fst ` set urls \<and> ?Q i (Some a)" by blast
  have "\<exists>s' ps. publish_loop N rb urls eid cs' (sort (map fst urls)) s3 = (s', ps) \<and> I s' \<and>
      pub (dv_world s3) \<union> (G \<inter> set (sort (map fst urls))) \<subseteq> pub (dv_world s')"
    using s3(3) publish by (intro publish_loop_inv [where I = I, OF s3(2)]) auto
  then obtain s4 ps where s4: "publish_loop N rb urls eid cs' (sort (map fst urls)) s3 = (s4, ps)" "I s4" "G \<subseteq> pub (dv_world s4)"
    using assms(7) by (auto simp: Int_absorb2)
  obtain k where "dl_get_finalized_key P eid (dv_world s4) = Inr (Some k)" using final [OF s4(2,3)] by blast
  then show ?thesis by (simp add: run_dkg_http_unfold [OF assms(1) s2(1)] s3(1) s4(1))
qed

text \<open>
  A malformed complaint still stops the ceremony. When a keyper answers round 2 with
  \<open>verified: false\<close> and a value for its accusations that Python cannot iterate, the driver raises
  \<open>TypeError\<close> or \<open>AttributeError\<close>, not the complaint exception, whatever the other keypers answer and
  even when all of them could publish.
\<close>

theorem malformed_complaint_aborts:
  assumes "sfor (\<lambda>phase s. sfor (dkg_call N rb urls eid phase) (sort (map fst urls)) s) DEAL_PHASES s = (s1, Inr out)"
    and "round2_complaints N rb urls eid (sort (map fst urls)) s1 = (s2, Inr cs)"
    and "(i, a) \<in> set cs" and "json_iter a = Inl e"
  shows "\<exists>s' err. run_dkg_http P N rb eid urls s = (s', Inl err) \<and> err \<in> {TypeError, AttributeError}"
proof -
  obtain s3 r where r: "sfor (repair_accuser N rb urls eid) (sort_key fst cs) s2 = (s3, r)" by force
  have "\<exists>err. r = Inl err"
  proof (cases r)
    case (Inr ys)
    then obtain t t' y where "repair_accuser N rb urls eid (i, a) t = (t', Inr y)"
      using sfor_returns [of "repair_accuser N rb urls eid" "sort_key fst cs" s2 s3 ys "(i, a)"] r assms(3) by auto
    then show ?thesis using assms(4) by (simp add: repair_accuser_def)
  qed simp
  then obtain err where err: "r = Inl err" by blast
  then have "err \<in> {TypeError, AttributeError}"
    using sfor_raises [of "repair_accuser N rb urls eid"] r repair_accuser_raises by (metis insertCI)
  moreover have "cs \<noteq> []" using assms(3) by auto
  ultimately show ?thesis
    by (simp add: run_dkg_http_unfold [OF assms(1,2)] MAX_REPAIR_ROUNDS_def numeral_2_eq_2 repair_round_def r err)
qed

text \<open>
  Channel credentials are stable. With a token store, installing a committee never changes a
  credential that is already stored, stores one for every member and returns exactly the stored
  tokens, also when the installation fails on the way; so a later installation of any other committee
  gives a shared keyper the same token.
\<close>

theorem credentials_stable:
  assumes "bootstrap_keypers H B N co dr us ms rt inst (Some m, w) = ((st, w'), out)"
    and "bootstrap_keypers H B N' co dr' us' ms' rt' inst' (st, v) = ((st', v'), Inr (api, peer))"
    and "(i, u) \<in> set us" "(j, u) \<in> set us'" "distinct (map fst us')"
  shows "\<exists>m' m''. st = Some m' \<and> st' = Some m'' \<and> m \<subseteq>\<^sub>m m' \<and> m' \<subseteq>\<^sub>m m'' \<and>
    (\<exists>tok. m' u = Some tok \<and> map_of api j = Some (fst tok) \<and> map_of peer j = Some (snd tok))"
proof -
  obtain m' where m': "st = Some m'" "m \<subseteq>\<^sub>m m'" "\<forall>u \<in> snd ` set us. m' u \<noteq> None" using bootstrap_tokens [OF assms(1)] by blast
  obtain m'' where m'': "st' = Some m''" "m' \<subseteq>\<^sub>m m''" "api = map (\<lambda>(i, u). (i, fst (the (m'' u)))) us'"
    "peer = map (\<lambda>(i, u). (i, snd (the (m'' u)))) us'"
    using bootstrap_tokens [OF assms(2) [unfolded m'(1)]] by blast
  obtain tok where tok: "m' u = Some tok" using m'(3) assms(3) by force
  then have "m'' u = Some tok" using m''(2) by (force simp: map_le_def dom_def)
  moreover have "map_of us' j = Some u" using assms(4,5) by simp
  ultimately have "map_of api j = Some (fst tok)" "map_of peer j = Some (snd tok)"
    unfolding m''(3,4) using map_of_map [of "\<lambda>u. fst (the (m'' u))" us'] map_of_map [of "\<lambda>u. snd (the (m'' u))" us'] by simp_all
  with m' m'' tok show ?thesis by blast
qed

section \<open>Witnesses\<close>

text \<open>
  A committee of three behind the URLs \<open>a\<close>, \<open>b\<close>, \<open>c\<close>; the world is the set of keypers that have published.
  The third one answers round 2 with \<open>verified: false\<close> and the given accusations, and the key is
  final when the first two have published.
\<close>

definition witness_urls :: "(int \<times> string) list" where
  "witness_urls = [(1, ''a''), (2, ''b''), (3, ''c'')]"

definition witness_net :: "json \<Rightarrow> int set network" where
  "witness_net accusations =
     \<lparr>nw_post = (\<lambda>url body token w.
        (if url = ''a/dkg/publish'' then insert 1 w else if url = ''b/dkg/publish'' then insert 2 w else w,
         Inr \<lparr>rs_status = 200,
              rs_json = Some (if url = ''c/dkg/round2'' then JObj [(''verified'', JBool False), (''accusations'', accusations)]
                              else JObj [(''ok'', JBool True)])\<rparr>)),
      nw_get = (\<lambda>url w. (w, Inr \<lparr>rs_status = 404, rs_json = None\<rparr>)), nw_clock = (\<lambda>w. 0), nw_dl_clock = (\<lambda>w. 0)\<rparr>"

definition witness_port :: "int set ElectionDataLayer" where
  "witness_port =
     \<lparr>dl_register_election = (\<lambda>_ _ _. Inl ValueError), dl_cancel_election = (\<lambda>_ _ _ _. Inl ValueError), dl_get_election = (\<lambda>_ _. Inl KeyError),
      dl_list_elections = (\<lambda>_ _. Inr []), dl_submit_dkg_result = (\<lambda>_ _ _ _ _. Inl ValueError), dl_get_dkg_submissions = (\<lambda>_ _. Inr []),
      dl_get_finalized_key = (\<lambda>_ w. Inr (if {1, 2} \<subseteq> w then Some \<lparr>fk_pk_election = [], fk_committee_pks = []\<rparr> else None)),
      dl_submit_ballot = (\<lambda>_ _ _ _ _. Inl ValueError), dl_list_ballots = (\<lambda>_ _ _ _. Inr []), dl_count_ballots = (\<lambda>_ _. Inr 0),
      dl_submit_aggregate = (\<lambda>_ _ _ _ _. Inl ValueError), dl_get_aggregate = (\<lambda>_ _. Inr None),
      dl_submit_decryption_share = (\<lambda>_ _ _ _ _. Inl ValueError), dl_list_decryption_shares = (\<lambda>_ _. Inr []),
      dl_publish_result = (\<lambda>_ _ _ _. Inl ValueError), dl_get_result = (\<lambda>_ _. Inr None),
      dl_set_tally_stalled = (\<lambda>_ _ _ _ _ _. Inl ValueError), dl_verifiability_tier = 0\<rparr>"

abbreviation no_rebootstrap :: "(unit, 'w) rebootstrap" where
  "no_rebootstrap \<equiv> \<lambda>i cw. (cw, None)"

definition witness_start :: "(unit, int set) drive" where
  "witness_start = \<lparr>dv_tokens = [(1, ''t''), (2, ''t''), (3, ''t'')], dv_caller = (), dv_world = {}\<rparr>"

definition witness_tokens :: "(unit, int set) drive \<Rightarrow> bool" where
  "witness_tokens s \<longleftrightarrow> dv_tokens s = [(1, ''t''), (2, ''t''), (3, ''t'')]"

lemma witness_call:
  assumes "witness_tokens s" and "i \<in> {1, 2, 3}"
  shows "\<exists>s' j. dkg_call (witness_net accs) no_rebootstrap witness_urls eid phase i s = (s', Inr j) \<and> witness_tokens s' \<and>
    complaint_of j = (if i = 3 \<and> phase = ''round2'' then Some accs else None) \<and>
    dv_world s' = dv_world s \<union> (if phase = ''publish'' \<and> i \<noteq> 3 then {i} else {})"
  using assms
  by (auto simp: dkg_call_def witness_urls_def witness_tokens_def post_reauth_def drive_post_def witness_net_def rstrip_slash_def
      check_status_def response_json_def complaint_of_def Let_def)

lemma witness_deal:
  "\<exists>s1 out. sfor (\<lambda>phase s. sfor (dkg_call (witness_net accs) no_rebootstrap witness_urls eid phase) (sort (map fst witness_urls)) s)
     DEAL_PHASES witness_start = (s1, Inr out) \<and> witness_tokens s1"
proof -
  have i: "witness_tokens witness_start" by (simp add: witness_tokens_def witness_start_def)
  have inner: "\<exists>s' y. sfor (dkg_call (witness_net accs) no_rebootstrap witness_urls eid phase) (sort (map fst witness_urls)) s = (s', Inr y) \<and>
      witness_tokens s' \<and> True" if "witness_tokens s" for phase s
    using sfor_inv [where I = witness_tokens and Q = "\<lambda>_ _. True" and f = "dkg_call (witness_net accs) no_rebootstrap witness_urls eid phase"
        and xs = "sort (map fst witness_urls)", OF that] witness_call by (fastforce simp: witness_urls_def)
  show ?thesis
    using sfor_inv [where I = witness_tokens and Q = "\<lambda>_ _. True" and xs = DEAL_PHASES
        and f = "\<lambda>phase s. sfor (dkg_call (witness_net accs) no_rebootstrap witness_urls eid phase) (sort (map fst witness_urls)) s", OF i] inner
    by blast
qed

lemma complaint_no_veto_witness:
  "\<exists>s'. run_dkg_http witness_port (witness_net (JArr [])) no_rebootstrap [1] witness_urls witness_start = (s', Inr True)"
proof -
  obtain s1 out where s1: "sfor (\<lambda>phase s. sfor (dkg_call (witness_net (JArr [])) no_rebootstrap witness_urls [1] phase) (sort (map fst witness_urls)) s)
     DEAL_PHASES witness_start = (s1, Inr out)" "witness_tokens s1" using witness_deal by blast
  have k: "fst ` set witness_urls = {1, 2, 3}" by (simp add: witness_urls_def)
  show ?thesis
  proof (rule complaint_no_veto [where I = witness_tokens and G = "{1, 2}" and pub = "\<lambda>w. w", OF s1])
    show "\<exists>s' j. dkg_call (witness_net (JArr [])) no_rebootstrap witness_urls [1] ''round2'' i s = (s', Inr j) \<and> witness_tokens s' \<and>
        (case complaint_of j of None \<Rightarrow> True | Some a \<Rightarrow> i \<notin> {1, 2} \<and> proper_accusations a)"
      if "witness_tokens s" "i \<in> fst ` set witness_urls" for s i
      using witness_call [OF that(1), of i "JArr []" "[1]" "''round2''"] that(2) unfolding k
      by (fastforce simp: proper_accusations_def json_iter_def)
    show "witness_tokens (fst (post_keyper (witness_net (JArr [])) no_rebootstrap url ''/dkg/reveal_share'' [1] ex j s))"
      if "witness_tokens s" for s url ex j
      using that by (auto simp: witness_tokens_def post_keyper_def post_reauth_def drive_post_def witness_net_def Let_def split: option.split)
    show "\<exists>s' r. dkg_call (witness_net (JArr [])) no_rebootstrap witness_urls [1] ''publish'' i s = (s', r) \<and> witness_tokens s' \<and>
        dv_world s \<subseteq> dv_world s' \<and> (i \<in> {1, 2} \<longrightarrow> i \<in> dv_world s')"
      if "witness_tokens s" "i \<in> fst ` set witness_urls" for s i
      using witness_call [OF that(1), of i "JArr []" "[1]" "''publish''"] that(2) unfolding k by fastforce
  qed (simp_all add: witness_port_def k)
qed

lemma malformed_complaint_aborts_witness:
  "\<exists>s' err. run_dkg_http witness_port (witness_net (JInt 5)) no_rebootstrap [1] witness_urls witness_start = (s', Inl err) \<and>
     err \<in> {TypeError, AttributeError}"
proof -
  obtain s1 out where s1: "sfor (\<lambda>phase s. sfor (dkg_call (witness_net (JInt 5)) no_rebootstrap witness_urls [1] phase) (sort (map fst witness_urls)) s)
     DEAL_PHASES witness_start = (s1, Inr out)" "witness_tokens s1" using witness_deal by blast
  obtain t1 j1 where c1: "dkg_call (witness_net (JInt 5)) no_rebootstrap witness_urls [1] ''round2'' 1 s1 = (t1, Inr j1)" "witness_tokens t1"
    using witness_call [OF s1(2), of 1] by blast
  obtain t2 j2 where c2: "dkg_call (witness_net (JInt 5)) no_rebootstrap witness_urls [1] ''round2'' 2 t1 = (t2, Inr j2)" "witness_tokens t2"
    using witness_call [OF c1(2), of 2] by blast
  obtain t3 j3 where c3: "dkg_call (witness_net (JInt 5)) no_rebootstrap witness_urls [1] ''round2'' 3 t2 = (t3, Inr j3)" "complaint_of j3 = Some (JInt 5)"
    using witness_call [OF c2(2), of 3 "JInt 5" "[1]" "''round2''"] by auto
  have "sort (map fst witness_urls) = [1, 2, 3]" by (simp add: witness_urls_def)
  then obtain cs where "round2_complaints (witness_net (JInt 5)) no_rebootstrap witness_urls [1] (sort (map fst witness_urls)) s1 = (t3, Inr cs)"
    "(3, JInt 5) \<in> set cs"
    using c1(1) c2(1) c3 by (auto simp: round2_complaints_def map_filter_def)
  from malformed_complaint_aborts [OF s1(1) this] show ?thesis by (simp add: json_iter_def)
qed

definition install_net :: "unit network" where
  "install_net =
     \<lparr>nw_post = (\<lambda>url body token w. (w, Inr \<lparr>rs_status = 200, rs_json = None\<rparr>)),
      nw_get = (\<lambda>url w. (w, Inr \<lparr>rs_status = 200, rs_json = Some (JObj [(''encryptionPubkey'', JStr (tohex (replicate 32 0))),
         (''encryptionPubkeySig'', JStr (tohex [7]))])\<rparr>)), nw_clock = (\<lambda>w. 0), nw_dl_clock = (\<lambda>w. 0)\<rparr>"

definition witness_draws :: "string \<Rightarrow> draws" where
  "witness_draws t = \<lparr>dr_tokens = (\<lambda>i. (t, t)), dr_nonce = (\<lambda>i. ''n''), dr_eph = (\<lambda>i. []), dr_iv = (\<lambda>i. []), dr_time = (\<lambda>i. 0)\<rparr>"

definition witness_bootstrap :: "box_ops \<Rightarrow> string \<Rightarrow> (int \<times> string) list \<Rightarrow> token_store \<Rightarrow>
    (token_store \<times> unit) \<times> ((int \<times> string) list \<times> (int \<times> string) list) result" where
  "witness_bootstrap B t us st = bootstrap_keypers sample_host B install_net \<lparr>private_key = 3, identity = []\<rparr> (witness_draws t) us
     [(1, [7]), (2, [7])] None None (st, ())"

lemma witness_fetch: "i = 1 \<or> i = 2 \<Longrightarrow> fetch_enc_key sample_host install_net [(1, [7]), (2, [7])] (i, u) w =
    (w, Inr (i, replicate 32 0, tohex (replicate 32 0), tohex [7]))"
  by (auto simp: fetch_enc_key_def install_net_def response_json_def get_item_def str_value_def verify_encryption_pubkey_def
      sample_host_def simp del: tohex.simps)

lemma install_post: "nw_post install_net url body token w = (w, Inr \<lparr>rs_status = 200, rs_json = None\<rparr>)"
  by (simp add: install_net_def)

lemma witness_bootstraps:
  "witness_bootstrap B t [(1, u), (2, v)] (Some m) = ((st, w), out) \<Longrightarrow> \<exists>r. out = Inr r"
  by (auto simp: witness_bootstrap_def bootstrap_keypers_def witness_fetch install_targets_def install_bundle_def bundle_payload_def
      sign_payload_def int_to_bytes_def check_status_def install_post Let_def simp del: assign_tokens.simps tohex.simps
      dest!: assign_tokens_store split: prod.splits)

lemma credentials_stable_witness:
  "\<exists>B st w api peer st' v tok. witness_bootstrap B ''x'' [(1, ''a''), (2, ''b'')] (Some Map.empty) = ((st, w), Inr (api, peer)) \<and>
     witness_bootstrap B ''y'' [(1, ''b''), (2, ''c'')] st = ((st', v), Inr tok) \<and> map_of (fst tok) 1 = map_of api 2"
proof -
  fix B :: box_ops
  obtain st w out where a: "witness_bootstrap B ''x'' [(1, ''a''), (2, ''b'')] (Some Map.empty) = ((st, w), out)" by (metis surj_pair)
  obtain api peer where out: "out = Inr (api, peer)" using witness_bootstraps [OF a] by auto
  obtain m' where m': "st = Some m'" "api = [(1, fst (the (m' ''a''))), (2, fst (the (m' ''b'')))]"
    using bootstrap_tokens [OF a [unfolded witness_bootstrap_def]] out by auto
  obtain st' v out' where b: "witness_bootstrap B ''y'' [(1, ''b''), (2, ''c'')] (Some m') = ((st', v), out')" by (metis surj_pair)
  obtain api' peer' where out': "out' = Inr (api', peer')" using witness_bootstraps [OF b] by auto
  obtain tok where "m' ''b'' = Some tok" "map_of api' 1 = Some (fst tok)"
    using credentials_stable [OF a [unfolded witness_bootstrap_def m'(1)] b [unfolded witness_bootstrap_def out'], of 2 "''b''" 1] by auto
  then have "map_of api' 1 = map_of api 2" by (simp add: m'(2))
  with a b out out' m'(1) show ?thesis by fastforce
qed

end
