(* ===== verification/Coordinator.thy ===== *)
theory Coordinator
  imports Ceremony_Http "HOL-Library.Sublist"
begin

text \<open>
  \<^verbatim>\<open>services/coordinator/coordinator.py\<close>, the lifecycle driver \<open>AutoDKG\<close>: one pass over the data layer
  drives every election through key ceremony and tally, with back-off, attempt budgets and the
  persisted stall flag. Clock readings and the float parameters are whole seconds. Log lines and the
  memory of the last logged phase are not modelled. A cached token dictionary is never changed
  through another name: a token is assigned only after a re-installation, which has replaced the
  cache entry by a new dictionary.
\<close>

section \<open>State\<close>

record AutoDKG_params =
  au_coordinator :: Signer
  au_backoff_base :: int
  au_backoff_cap :: int
  au_max_tally_attempts :: int
  au_max_tally_phase :: int
  au_url_overrides :: "(string \<times> string) list"
  au_relay_token :: "string option"

text \<open>
  \<open>ad_boots\<close> counts the installations done so far; it only selects the values the next one draws.
  An entry of \<open>ad_attempts\<close> is the pair of \<open>attempts\<close> and \<open>next_at\<close>, one of \<open>ad_tally_attempts\<close> the
  pair of \<open>agg\<close> and \<open>dec\<close>.
\<close>

record AutoDKG =
  ad_done :: "string set"
  ad_failed :: "string set"
  ad_attempts :: "string \<rightharpoonup> int \<times> int"
  ad_tally_attempts :: "string \<rightharpoonup> int \<times> int"
  ad_tokens :: "(int \<times> string) list \<rightharpoonup> (int \<times> string) list"
  ad_store :: token_store
  ad_boots :: nat

definition AutoDKG_init :: "token_store \<Rightarrow> AutoDKG" where
  "AutoDKG_init store = \<lparr>ad_done = {}, ad_failed = {}, ad_attempts = Map.empty, ad_tally_attempts = Map.empty,
     ad_tokens = Map.empty, ad_store = store, ad_boots = 0\<rparr>"

record ('a, 'b, 'w) coordinator_env =
  en_suite :: "('a, 'b) suite"
  en_host :: host
  en_box :: box_ops
  en_port :: "'w ElectionDataLayer"
  en_net :: "'w network"
  en_draws :: "nat \<Rightarrow> draws"
  en_params :: AutoDKG_params

section \<open>Tokens\<close>

definition keyper_urls :: "('a, 'b, 'w) coordinator_env \<Rightarrow> ElectionConfig \<Rightarrow> (int \<times> string) list" where
  "keyper_urls E config = keyper_urls_from config (au_url_overrides (en_params E))"

definition member_addrs :: "ElectionConfig \<Rightarrow> (int \<times> bytes) list" where
  "member_addrs config = zip [1..int (length (cfg_keypers config))] (map ki_signing_key (cfg_keypers config))"

definition committee_key :: "(int \<times> string) list \<Rightarrow> (int \<times> string) list" where
  "committee_key urls = sort_key fst urls"

text \<open>\<open>bootstrap_keypers\<close> as both callers use it; the result is cached.\<close>

definition install_committee ::
    "('a, 'b, 'w) coordinator_env \<Rightarrow> (int \<times> string) list \<Rightarrow> (int \<times> bytes) list \<Rightarrow> int list option \<Rightarrow> AutoDKG \<times> 'w \<Rightarrow>
     (AutoDKG \<times> 'w) \<times> (int \<times> string) list result" where
  "install_committee E urls members install cw =
     (let ((st, w), out) = bootstrap_keypers (en_host E) (en_box E) (en_net E) (au_coordinator (en_params E))
            (en_draws E (ad_boots (fst cw))) urls members (au_relay_token (en_params E)) install (ad_store (fst cw), snd cw);
          c = (fst cw)\<lparr>ad_store := st, ad_boots := ad_boots (fst cw) + 1\<rparr>
      in case out of
           Inl e \<Rightarrow> ((c, w), Inl e)
         | Inr (api_tokens, _) \<Rightarrow> ((c\<lparr>ad_tokens := (ad_tokens c)(committee_key urls \<mapsto> api_tokens)\<rparr>, w), Inr api_tokens))"

definition auto_bootstrap ::
    "('a, 'b, 'w) coordinator_env \<Rightarrow> (int \<times> string) list \<Rightarrow> (int \<times> bytes) list \<Rightarrow> AutoDKG \<times> 'w \<Rightarrow>
     (AutoDKG \<times> 'w) \<times> (int \<times> string) list result" where
  "auto_bootstrap E urls members cw = install_committee E urls members None cw"

definition committee_tokens ::
    "('a, 'b, 'w) coordinator_env \<Rightarrow> (int \<times> string) list \<Rightarrow> (int \<times> bytes) list \<Rightarrow> AutoDKG \<times> 'w \<Rightarrow>
     (AutoDKG \<times> 'w) \<times> (int \<times> string) list result" where
  "committee_tokens E urls members cw =
     (case ad_tokens (fst cw) (committee_key urls) of
        Some tokens \<Rightarrow> (cw, Inr tokens)
      | None \<Rightarrow>
          if ad_store (fst cw) \<noteq> None \<and> list_all (\<lambda>(i, url). store_get (ad_store (fst cw)) url \<noteq> None) urls
          then
            let assembled = map (\<lambda>(i, url). (i, fst (the (store_get (ad_store (fst cw)) url)))) urls in
            (((fst cw)\<lparr>ad_tokens := (ad_tokens (fst cw))(committee_key urls \<mapsto> assembled)\<rparr>, snd cw), Inr assembled)
          else auto_bootstrap E urls members cw)"

definition rebootstrap_one ::
    "('a, 'b, 'w) coordinator_env \<Rightarrow> (int \<times> string) list \<Rightarrow> (int \<times> bytes) list \<Rightarrow> (AutoDKG, 'w) rebootstrap" where
  "rebootstrap_one E urls members i cw =
     (let (cw', out) = install_committee E urls members (Some [i]) cw
      in (cw', case out of Inl _ \<Rightarrow> None | Inr api_tokens \<Rightarrow> map_of api_tokens i))"

section \<open>Driving the key ceremony\<close>

text \<open>
  \<open>min(cap, base * 2 ** (attempts - 1))\<close>: the power is an integer that Python converts to a float for
  the product, which raises \<open>OverflowError\<close> from \<open>2 ** 1024\<close> on.
\<close>

definition backoff_delay :: "AutoDKG_params \<Rightarrow> int \<Rightarrow> int result" where
  "backoff_delay A attempts =
     (if 1024 \<le> attempts - 1 then Inl OverflowError
      else Inr (min (au_backoff_cap A) (au_backoff_base A * 2 ^ nat (attempts - 1))))"

text \<open>The ceremony of one attempt: full installation of the peer map, then the driver.\<close>

definition ceremony_attempt ::
    "('a, 'b, 'w) coordinator_env \<Rightarrow> bytes \<Rightarrow> (int \<times> string) list \<Rightarrow> (int \<times> bytes) list \<Rightarrow> AutoDKG \<times> 'w \<Rightarrow>
     (AutoDKG \<times> 'w) \<times> bool result" where
  "ceremony_attempt E election_id urls members cw =
     (case auto_bootstrap E urls members cw of
        (cw, Inl e) \<Rightarrow> (cw, Inl e)
      | ((c, w), Inr api_tokens) \<Rightarrow>
          let (s, r) = run_dkg_http (en_port E) (en_net E) (rebootstrap_one E urls members) election_id urls
                         \<lparr>dv_tokens = api_tokens, dv_caller = c, dv_world = w\<rparr>
          in ((dv_caller s, dv_world s), r))"

definition drive_dkg ::
    "('a, 'b, 'w) coordinator_env \<Rightarrow> bytes \<Rightarrow> ElectionRecord \<Rightarrow> int \<Rightarrow> AutoDKG \<times> 'w \<Rightarrow> (AutoDKG \<times> 'w) \<times> string result" where
  "drive_dkg E election_id rec now cw =
     (let eid_hex = tohex election_id;
          (attempts, next_at) = (case ad_attempts (fst cw) eid_hex of None \<Rightarrow> (0, 0) | Some a \<Rightarrow> a);
          c = (fst cw)\<lparr>ad_attempts := (ad_attempts (fst cw))(eid_hex \<mapsto> (attempts, next_at))\<rparr>;
          urls = keyper_urls E (er_config rec);
          members = member_addrs (er_config rec)
      in if now < next_at then ((c, snd cw), Inr ''backing_off'')
         else if list_ex (\<lambda>(i, u). u = []) urls then ((c, snd cw), Inr ''no_urls'')
         else
           let ((c, w), out) = ceremony_attempt E election_id urls members (c, snd cw)
           in if out = Inr True then ((c, w), Inr ''finalized'')
              else if out = Inl DKGComplaint then ((c\<lparr>ad_failed := insert eid_hex (ad_failed c)\<rparr>, w), Inr ''dkg_complaint'')
              else
                (case backoff_delay (en_params E) (attempts + 1) of
                   Inl e \<Rightarrow> ((c\<lparr>ad_attempts := (ad_attempts c)(eid_hex \<mapsto> (attempts + 1, next_at))\<rparr>, w), Inl e)
                 | Inr delay \<Rightarrow>
                     ((c\<lparr>ad_attempts := (ad_attempts c)(eid_hex \<mapsto> (attempts + 1, now + delay))\<rparr>, w), Inr ''registered_retry'')))"

section \<open>Driving the tally\<close>

definition mark_tally_stalled :: "('a, 'b, 'w) coordinator_env \<Rightarrow> bytes \<Rightarrow> 'w \<Rightarrow> 'w \<times> unit result" where
  "mark_tally_stalled E election_id w =
     (let issued_at = nw_clock (en_net E) w in
      case request_nonce_payload issued_at of
        Inl e \<Rightarrow> (w, Inl e)
      | Inr payload \<Rightarrow>
          (case ebind (Signer_sign (en_host E) (au_coordinator (en_params E)) ''tally_stall'' election_id payload) (\<lambda>sig.
                dl_set_tally_stalled (en_port E) (nw_dl_clock (en_net E) w) election_id True sig issued_at w) of
             Inl _ \<Rightarrow> (w, Inr ())
           | Inr w' \<Rightarrow> (w', Inr ())))"

definition past_tally_deadline :: "('a, 'b, 'w) coordinator_env \<Rightarrow> ElectionRecord \<Rightarrow> 'w \<Rightarrow> bool" where
  "past_tally_deadline E rec w \<longleftrightarrow>
     nw_clock (en_net E) w - cfg_voting_end (er_config rec) > au_max_tally_phase (en_params E)"

definition abandon :: "('a, 'b, 'w) coordinator_env \<Rightarrow> bytes \<Rightarrow> AutoDKG \<times> 'w \<Rightarrow> (AutoDKG \<times> 'w) \<times> string result" where
  "abandon E election_id cw =
     (case mark_tally_stalled E election_id (snd cw) of
        (w, Inl e) \<Rightarrow> ((fst cw, w), Inl e)
      | (w, Inr _) \<Rightarrow> ((fst cw, w), Inr ''tally_abandoned''))"

definition put_tally :: "string \<Rightarrow> int \<times> int \<Rightarrow> AutoDKG \<Rightarrow> AutoDKG" where
  "put_tally eid_hex att c = c\<lparr>ad_tally_attempts := (ad_tally_attempts c)(eid_hex \<mapsto> att)\<rparr>"

text \<open>A poll without a canonical aggregate after the trigger: three failures with a detector each.\<close>

definition aggregate_missing ::
    "('a, 'b, 'w) coordinator_env \<Rightarrow> bytes \<Rightarrow> ElectionRecord \<Rightarrow> (int \<times> string) list \<Rightarrow> (int \<times> bytes) list \<Rightarrow> (int \<times> string) list \<Rightarrow>
     int \<times> int \<Rightarrow> (AutoDKG, 'w) drive \<Rightarrow> (AutoDKG \<times> 'w) \<times> string result" where
  "aggregate_missing E election_id rec urls members statuses att s =
     (let eid_hex = tohex election_id; (agg, decr) = att; limit = au_max_tally_attempts (en_params E);
          cw = (dv_caller s, dv_world s); counted = (put_tally eid_hex (agg + 1, decr) (dv_caller s), dv_world s)
      in if past_tally_deadline E rec (dv_world s) then abandon E election_id cw
         else if list_ex (\<lambda>(i, st). st = ''started'' \<or> st = ''in_progress'') statuses then (cw, Inr ''collecting_aggregate'')
         else if statuses \<noteq> [] \<and> list_all (\<lambda>(i, st). st = ''submitted'') statuses then
           (if limit \<le> agg + 1 then abandon E election_id counted
            else
              let (s', _) = trigger_aggregate_http (en_host E) (en_net E) (rebootstrap_one E urls members) election_id True urls
                              (s\<lparr>dv_caller := fst counted\<rparr>)
              in ((dv_caller s', dv_world s'), Inr ''collecting_aggregate''))
         else if limit \<le> agg + 1 then abandon E election_id counted
         else (counted, Inr ''collecting_aggregate''))"

text \<open>The second phase: a canonical aggregate exists.\<close>

definition decrypt_phase ::
    "('a, 'b, 'w) coordinator_env \<Rightarrow> bytes \<Rightarrow> ElectionRecord \<Rightarrow> (int \<times> string) list \<Rightarrow> (int \<times> bytes) list \<Rightarrow>
     int \<times> int \<Rightarrow> (AutoDKG, 'w) drive \<Rightarrow> (AutoDKG \<times> 'w) \<times> string result" where
  "decrypt_phase E election_id rec urls members att s =
     (let eid_hex = tohex election_id; (agg, decr) = att; limit = au_max_tally_attempts (en_params E);
          s = trigger_decrypt_http (en_net E) (rebootstrap_one E urls members) election_id urls s;
          c = dv_caller s
      in case finalize (en_suite E) (en_host E) (en_port E) (nw_clock (en_net E) (dv_world s)) election_id
                (au_coordinator (en_params E)) (dv_world s) of
           Inl e \<Rightarrow> ((c, dv_world s), Inl e)
         | Inr (w, Some res) \<Rightarrow> ((c\<lparr>ad_done := insert eid_hex (ad_done c)\<rparr>, w), Inr ''tallied'')
         | Inr (w, None) \<Rightarrow>
             if past_tally_deadline E rec w then abandon E election_id (c, w)
             else
               let counted = (put_tally eid_hex (agg, decr + 1) c, w) in
               if limit \<le> decr + 1 then abandon E election_id counted else (counted, Inr ''collecting_shares''))"

definition drive_tally ::
    "('a, 'b, 'w) coordinator_env \<Rightarrow> bytes \<Rightarrow> ElectionRecord \<Rightarrow> AutoDKG \<times> 'w \<Rightarrow> (AutoDKG \<times> 'w) \<times> string result" where
  "drive_tally E election_id rec cw =
     (let eid_hex = tohex election_id; urls = keyper_urls E (er_config rec); members = member_addrs (er_config rec);
          limit = au_max_tally_attempts (en_params E)
      in if list_ex (\<lambda>(i, u). u = []) urls then (cw, Inr ''no_urls'')
         else
           case committee_tokens E urls members cw of
             (cw, Inl _) \<Rightarrow> (cw, Inr ''error'')
           | ((c, w), Inr api_tokens) \<Rightarrow>
               let att0 = (case ad_tally_attempts c eid_hex of None \<Rightarrow> (0, 0) | Some a \<Rightarrow> a);
                   att = (if limit \<le> fst att0 \<or> limit \<le> snd att0 then (0, 0) else att0);
                   s = \<lparr>dv_tokens = api_tokens, dv_caller = put_tally eid_hex att c, dv_world = w\<rparr>
               in case dl_get_aggregate (en_port E) election_id w of
                    Inl e \<Rightarrow> ((dv_caller s, w), Inl e)
                  | Inr (Some _) \<Rightarrow> decrypt_phase E election_id rec urls members att s
                  | Inr None \<Rightarrow>
                      let (s, statuses) = trigger_aggregate_http (en_host E) (en_net E) (rebootstrap_one E urls members) election_id False urls s
                      in case dl_get_aggregate (en_port E) election_id (dv_world s) of
                           Inl e \<Rightarrow> ((dv_caller s, dv_world s), Inl e)
                         | Inr None \<Rightarrow> aggregate_missing E election_id rec urls members statuses att s
                         | Inr (Some _) \<Rightarrow> decrypt_phase E election_id rec urls members att s)"

section \<open>One pass\<close>

definition process ::
    "('a, 'b, 'w) coordinator_env \<Rightarrow> bytes \<Rightarrow> ElectionRecord \<Rightarrow> int \<Rightarrow> AutoDKG \<times> 'w \<Rightarrow> (AutoDKG \<times> 'w) \<times> string result" where
  "process E election_id rec now cw =
     (case dl_get_result (en_port E) election_id (snd cw) of
        Inl e \<Rightarrow> (cw, Inl e)
      | Inr res \<Rightarrow>
          let eid_hex = tohex election_id; c = fst cw;
              state = derive_state (er_config rec)
                \<lparr>sf_cancelled = er_cancelled rec, sf_key_finalized = er_finalized_key rec \<noteq> None,
                 sf_result_published = res \<noteq> None, sf_tally_stalled = er_tally_stalled rec\<rparr> now
          in if state = COMPLETE then ((c\<lparr>ad_done := insert eid_hex (ad_done c)\<rparr>, snd cw), Inr ''complete'')
             else if state = DKG_FAILED then ((c\<lparr>ad_failed := insert eid_hex (ad_failed c)\<rparr>, snd cw), Inr ''dkg_failed'')
             else if state = REGISTERED then drive_dkg E election_id rec now cw
             else if state = TALLYING then drive_tally E election_id rec cw
             else if state = TALLY_STALLED then (cw, Inr ''tally_stalled'')
             else (cw, Inr ''not_ready''))"

text \<open>The first loop reads every election that still needs attention.\<close>

fun collect_pending ::
    "'w ElectionDataLayer \<Rightarrow> AutoDKG \<Rightarrow> 'w \<Rightarrow> bytes list \<Rightarrow> (string \<times> string) list \<times> (bytes \<times> ElectionRecord) list" where
  "collect_pending P c w [] = ([], [])"
| "collect_pending P c w (e # es) =
     (let (outcomes, pending) = collect_pending P c w es in
      if tohex e \<in> ad_done c then ((tohex e, ''complete'') # outcomes, pending)
      else if tohex e \<in> ad_failed c then ((tohex e, ''already_failed'') # outcomes, pending)
      else
        case dl_get_election P e w of
          Inl _ \<Rightarrow> ((tohex e, ''error'') # outcomes, pending)
        | Inr rec \<Rightarrow> (outcomes, (e, rec) # pending))"

fun process_all ::
    "('a, 'b, 'w) coordinator_env \<Rightarrow> int \<Rightarrow> (bytes \<times> ElectionRecord) list \<Rightarrow> AutoDKG \<times> 'w \<Rightarrow>
     (AutoDKG \<times> 'w) \<times> (string \<times> string) list" where
  "process_all E now [] cw = (cw, [])"
| "process_all E now ((e, rec) # pending) cw =
     (let (cw1, out) = process E e rec now cw; (cw2, rest) = process_all E now pending cw1
      in (cw2, (tohex e, case out of Inl _ \<Rightarrow> ''error'' | Inr outcome \<Rightarrow> outcome) # rest))"

definition scan_once ::
    "('a, 'b, 'w) coordinator_env \<Rightarrow> AutoDKG \<times> 'w \<Rightarrow> (AutoDKG \<times> 'w) \<times> (string \<times> string) list result" where
  "scan_once E cw =
     (let now = nw_clock (en_net E) (snd cw) in
      case dl_list_elections (en_port E) None (snd cw) of
        Inl e \<Rightarrow> (cw, Inl e)
      | Inr ids \<Rightarrow>
          let (outcomes, pending) = collect_pending (en_port E) (fst cw) (snd cw) ids;
              (cw', driven) = process_all E now (sort_key (\<lambda>(e, rec). cfg_voting_start (er_config rec)) pending) cw
          in (cw', Inr (outcomes @ driven)))"

text \<open>
  \<open>run_forever\<close> for a number of polls; \<open>pause\<close> is what happens to the world while the loop sleeps.
  A pass that raises is followed by the next one.
\<close>

fun run_polls :: "('a, 'b, 'w) coordinator_env \<Rightarrow> ('w \<Rightarrow> 'w) \<Rightarrow> nat \<Rightarrow> AutoDKG \<times> 'w \<Rightarrow> AutoDKG \<times> 'w" where
  "run_polls E pause 0 cw = cw"
| "run_polls E pause (Suc n) cw =
     (let ((c, w), _) = scan_once E cw in run_polls E pause n (c, pause w))"

section \<open>What a pass keeps\<close>

text \<open>
  A property of the world that is kept by reads and by calls to the URLs in \<open>ok\<close>. The lemmas follow
  the code from a single call to a whole pass.
\<close>

definition DKG_PATHS :: "string list" where
  "DKG_PATHS = DEAL_PHASES @ [''round2'', ''publish'', ''reveal_share'']"

lemma dkg_paths: "''round2'' \<in> set DKG_PATHS" "''publish'' \<in> set DKG_PATHS" "''reveal_share'' \<in> set DKG_PATHS"
    "p \<in> set DEAL_PHASES \<Longrightarrow> p \<in> set DKG_PATHS"
  by (simp_all add: DKG_PATHS_def)

definition keeps :: "'w network \<Rightarrow> (string \<Rightarrow> bool) \<Rightarrow> ('w \<Rightarrow> bool) \<Rightarrow> bool" where
  "keeps N ok Inv \<longleftrightarrow> (\<forall>u w. Inv w \<longrightarrow> Inv (fst (nw_get N u w))) \<and>
     (\<forall>u b t w. ok u \<longrightarrow> Inv w \<longrightarrow> Inv (fst (nw_post N u b t w)))"

lemma sbind_keeps: "J (fst m) \<Longrightarrow> (\<And>x s. J s \<Longrightarrow> J (fst (f x s))) \<Longrightarrow> J (fst (sbind m f))"
  by (cases m; cases "snd m") auto

lemma sfor_keeps: "J s \<Longrightarrow> (\<And>x s. J s \<Longrightarrow> x \<in> set xs \<Longrightarrow> J (fst (f x s))) \<Longrightarrow> J (fst (sfor f xs s))"
proof (induction xs arbitrary: s)
  case (Cons x xs)
  have "J (fst (f x s))" using Cons.prems by simp
  moreover have "J (fst (sfor f xs t))" if "J t" for t using Cons.IH [OF that] Cons.prems(2) by simp
  ultimately show ?case unfolding sfor.simps by (intro sbind_keeps [where J = J]) simp_all
qed simp

lemma bootstrap_keeps:
  assumes k: "keeps N ok Inv" "\<And>u. ok (u @ ''/auth/bootstrap'')" and w: "Inv w"
  shows "Inv (snd (fst (bootstrap_keypers H B N co dr us ms rt inst (st, w))))"
proof -
  have fetch: "Inv (fst (fetch_enc_key H N ms x v))" if "Inv v" for x v
    unfolding fetch_enc_key_def split_def
    by (rule sbind_keeps [where J = Inv]) (use k(1) that in \<open>simp_all add: keeps_def\<close>)
  have inst: "Inv (fst (install_bundle H B N co dr us cr keys rt x v))" if "Inv v" for cr keys x v
    unfolding install_bundle_def split_def
    by (intro sbind_keeps [where J = Inv]) (use k that in \<open>simp_all add: keeps_def\<close>)
  show ?thesis
    using w by (auto simp: bootstrap_keypers_def split_def Let_def intro!: sbind_keeps [where J = Inv] sfor_keeps [where J = Inv] fetch inst)
qed

lemma install_keeps:
  assumes "keeps (en_net E) ok Inv" "\<And>u. ok (u @ ''/auth/bootstrap'')" and "Inv (snd cw)"
  shows "Inv (snd (fst (install_committee E urls ms inst cw)))"
proof -
  obtain st w out where b: "bootstrap_keypers (en_host E) (en_box E) (en_net E) (au_coordinator (en_params E))
      (en_draws E (ad_boots (fst cw))) urls ms (au_relay_token (en_params E)) inst (ad_store (fst cw), snd cw) = ((st, w), out)"
    by (metis surj_pair)
  have "Inv w" using bootstrap_keeps [OF assms(1,2), where st = "ad_store (fst cw)"] assms(3) b by (metis fst_conv snd_conv)
  then show ?thesis by (simp add: install_committee_def b Let_def split: sum.split prod.split)
qed

lemma rebootstrap_keeps:
  assumes "keeps (en_net E) ok Inv" "\<And>u. ok (u @ ''/auth/bootstrap'')" and "Inv (snd cw)"
  shows "Inv (snd (fst (rebootstrap_one E urls ms i cw)))"
  using install_keeps [OF assms, of urls ms "Some [i]"] by (simp add: rebootstrap_one_def split_def Let_def)

lemma committee_tokens_keeps:
  assumes "keeps (en_net E) ok Inv" "\<And>u. ok (u @ ''/auth/bootstrap'')" and "Inv (snd cw)"
  shows "Inv (snd (fst (committee_tokens E urls ms cw)))"
  using install_keeps [OF assms, of urls ms None] assms(3)
  by (simp add: committee_tokens_def auto_bootstrap_def Let_def split: option.split)

text \<open>The same for the calls of a driver, which carries the state of its caller along.\<close>

abbreviation dv_at :: "('c, 'w) drive \<Rightarrow> 'c \<times> 'w" where
  "dv_at s \<equiv> (dv_caller s, dv_world s)"

definition posts_keep :: "'w network \<Rightarrow> (string \<Rightarrow> bool) \<Rightarrow> ('c \<times> 'w \<Rightarrow> bool) \<Rightarrow> bool" where
  "posts_keep N ok G \<longleftrightarrow> (\<forall>u b t c w. ok u \<longrightarrow> G (c, w) \<longrightarrow> G (c, fst (nw_post N u b t w)))"

lemma keeps_posts: "keeps N ok Inv \<Longrightarrow> posts_keep N ok (\<lambda>cw. Inv (snd cw))"
  by (simp add: keeps_def posts_keep_def)

lemma post_reauth_keeps:
  assumes k: "posts_keep N ok G" and rb: "\<And>i cw. G cw \<Longrightarrow> G (fst (rb i cw))" and u: "ok u" and w: "G (dv_at s)"
  shows "G (dv_at (fst (post_reauth N rb u b i s)))"
proof -
  have post: "G (dv_at (fst (drive_post N u b t v)))" if "G (dv_at v)" for t v
    using k u that by (auto simp: drive_post_def posts_keep_def split_def Let_def)
  show ?thesis
    unfolding post_reauth_def
    using rb [of "(dv_caller v, dv_world v)" for v] w
    by (auto simp: Let_def split_def split: option.split intro!: sbind_keeps [where J = "\<lambda>s. G (dv_at s)"] post)
qed

lemma post_keyper_keeps:
  assumes "posts_keep N ok G" "\<And>i cw. G cw \<Longrightarrow> G (fst (rb i cw))" "ok (rstrip_slash url @ path)" "G (dv_at s)"
  shows "G (dv_at (fst (post_keyper N rb url path eid ex i s)))"
  using post_reauth_keeps [where N = N and rb = rb and ok = ok and G = G, OF assms] by (simp add: post_keyper_def split_def Let_def)

lemma dkg_call_keeps:
  assumes "posts_keep N ok G" "\<And>i cw. G cw \<Longrightarrow> G (fst (rb i cw))" "\<And>x. ok (x @ ''/dkg/'' @ phase)" "G (dv_at s)"
  shows "G (dv_at (fst (dkg_call N rb urls eid phase i s)))"
  using post_reauth_keeps [where N = N and rb = rb and ok = ok and G = G, OF assms(1,2) _ assms(4)] assms(3,4)
  by (auto simp: dkg_call_def split: option.split intro!: sbind_keeps [where J = "\<lambda>s. G (dv_at s)"])

lemma round2_keeps:
  assumes "posts_keep N ok G" "\<And>i cw. G cw \<Longrightarrow> G (fst (rb i cw))" "\<And>x p. p \<in> set DKG_PATHS \<Longrightarrow> ok (x @ ''/dkg/'' @ p)" "G (dv_at s)"
  shows "G (dv_at (fst (round2_complaints N rb urls eid targets s)))"
proof -
  have call: "G (dv_at (fst (dkg_call N rb urls eid ph i v)))" if "ph \<in> set DKG_PATHS" "G (dv_at v)" for ph i v
    by (rule dkg_call_keeps [where ok = ok, OF assms(1)]) (use assms(2,3) that in auto)
  show ?thesis
    unfolding round2_complaints_def
    by (intro sbind_keeps [where J = "\<lambda>s. G (dv_at s)"] sfor_keeps [where J = "\<lambda>s. G (dv_at s)"] call dkg_paths assms(4)) simp_all
qed

lemma repair_loop_keeps:
  assumes "posts_keep N ok G" "\<And>i cw. G cw \<Longrightarrow> G (fst (rb i cw))" "\<And>x p. p \<in> set DKG_PATHS \<Longrightarrow> ok (x @ ''/dkg/'' @ p)" "G (dv_at s)"
  shows "G (dv_at (fst (repair_loop n N rb urls eid cs s)))"
proof -
  have "ok (x @ ''/dkg/reveal_share'')" for x using assms(3) [of "''reveal_share''" x] by (simp add: dkg_paths)
  then have post: "G (dv_at (fst (post_keyper N rb url ''/dkg/reveal_share'' eid ex j v)))" if "G (dv_at v)" for url ex j v
    using that by (intro post_keyper_keeps [where ok = ok and G = G, OF assms(1,2)])
  have one: "G (dv_at (fst (repair_one N rb urls eid acc v)))" if "G (dv_at v)" for acc v
    unfolding repair_one_def
    by (intro sbind_keeps [where J = "\<lambda>s. G (dv_at s)"]) (use that post in \<open>auto simp: split_def Let_def split: option.split\<close>)
  have accuser: "G (dv_at (fst (repair_accuser N rb urls eid c v)))" if "G (dv_at v)" for c v
    unfolding repair_accuser_def
    by (intro sbind_keeps [where J = "\<lambda>s. G (dv_at s)"] sfor_keeps [where J = "\<lambda>s. G (dv_at s)"] one) (use that in simp_all)
  have round: "G (dv_at (fst (repair_round N rb urls eid cs v)))" if "G (dv_at v)" for cs v
    unfolding repair_round_def
    by (intro sbind_keeps [where J = "\<lambda>s. G (dv_at s)"] sfor_keeps [where J = "\<lambda>s. G (dv_at s)"] accuser that
        round2_keeps [where ok = ok and G = G, OF assms(1,2,3)])
  show ?thesis
    using assms(4)
  proof (induction n arbitrary: cs s)
    case (Suc n)
    then show ?case by (auto intro!: sbind_keeps [where J = "\<lambda>s. G (dv_at s)"] round)
  qed simp
qed

lemma run_dkg_http_keeps:
  assumes "posts_keep N ok G" "\<And>i cw. G cw \<Longrightarrow> G (fst (rb i cw))" "\<And>x p. p \<in> set DKG_PATHS \<Longrightarrow> ok (x @ ''/dkg/'' @ p)" "G (dv_at s)"
  shows "G (dv_at (fst (run_dkg_http P N rb eid urls s)))"
proof -
  have call: "G (dv_at (fst (dkg_call N rb urls eid ph i v)))" if "ph \<in> set DKG_PATHS" "G (dv_at v)" for ph i v
    by (rule dkg_call_keeps [where ok = ok, OF assms(1)]) (use assms(2,3) that in auto)
  have pub: "G (dv_at (fst (publish_loop N rb urls eid cs is v)))" if "G (dv_at v)" for cs "is" v
    using that
  proof (induction "is" arbitrary: v)
    case (Cons i "is")
    show ?case
      using Cons.IH [OF Cons.prems] Cons.IH [OF call [OF dkg_paths(2) Cons.prems]] by (simp add: split_def Let_def)
  qed simp
  show ?thesis
    unfolding run_dkg_http_def Let_def split_def
    by (intro sbind_keeps [where J = "\<lambda>s. G (dv_at s)"] sfor_keeps [where J = "\<lambda>s. G (dv_at s)"] call assms(4)
        round2_keeps [where ok = ok and G = G, OF assms(1,2,3)] repair_loop_keeps [where ok = ok and G = G, OF assms(1,2,3)])
      (use pub in \<open>auto simp: assms(3) dkg_paths\<close>)
qed

lemma trigger_aggregate_keeps:
  assumes "posts_keep N ok G" "\<And>i cw. G cw \<Longrightarrow> G (fst (rb i cw))" "\<And>x. ok (x @ ''/aggregate'')" "G (dv_at s)"
  shows "G (dv_at (fst (trigger_aggregate_http H N rb eid rc us s)))"
  using assms(4)
proof (induction us arbitrary: s)
  case (Cons x us)
  then show ?case
    using post_keyper_keeps [where N = N and rb = rb and ok = ok and G = G, OF assms(1,2)] assms(3)
    by (cases x) (auto simp: split_def Let_def)
qed simp

lemma drive_dkg_keeps:
  assumes k: "keeps (en_net E) ok Inv" "\<And>u. ok (u @ ''/auth/bootstrap'')" "\<And>x p. p \<in> set DKG_PATHS \<Longrightarrow> ok (x @ ''/dkg/'' @ p)" and w: "Inv (snd cw)"
  shows "Inv (snd (fst (drive_dkg E eid rec now cw)))"
proof -
  let ?urls = "keyper_urls E (er_config rec)" and ?ms = "member_addrs (er_config rec)"
  have at: "Inv (snd (fst (ceremony_attempt E eid ?urls ?ms (c, snd cw))))" for c
  proof -
    obtain c1 w1 out where b: "auto_bootstrap E ?urls ?ms (c, snd cw) = ((c1, w1), out)" by (metis surj_pair)
    have "Inv w1" using install_keeps [OF k(1,2), of "(c, snd cw)" ?urls ?ms None] w b by (simp add: auto_bootstrap_def)
    moreover have "Inv (dv_world (fst (run_dkg_http (en_port E) (en_net E) (rebootstrap_one E ?urls ?ms) eid ?urls
        \<lparr>dv_tokens = t, dv_caller = c1, dv_world = w1\<rparr>)))" for t
      using run_dkg_http_keeps [where ok = ok and G = "\<lambda>cw. Inv (snd cw)", OF keeps_posts [OF k(1)] rebootstrap_keeps [where ok = ok, OF k(1,2)] k(3)]
        \<open>Inv w1\<close> by simp
    ultimately show ?thesis by (simp add: ceremony_attempt_def b split_def Let_def split: sum.split)
  qed
  show ?thesis using at w by (simp add: drive_dkg_def split_def Let_def split: option.split sum.split)
qed

definition stall_keeps :: "('a, 'b, 'w) coordinator_env \<Rightarrow> ('w \<Rightarrow> bool) \<Rightarrow> bool" where
  "stall_keeps E Inv \<longleftrightarrow> (\<forall>now e sig at w w'. Inv w \<longrightarrow> dl_set_tally_stalled (en_port E) now e True sig at w = Inr w' \<longrightarrow> Inv w')"

lemma abandon_keeps:
  assumes "stall_keeps E Inv" "Inv (snd cw)"
  shows "Inv (snd (fst (abandon E eid cw)))"
  using assms by (auto simp: abandon_def mark_tally_stalled_def stall_keeps_def Let_def split: sum.splits prod.splits)

text \<open>Without a canonical aggregate the tally stays in its first phase.\<close>

lemma drive_tally_keeps:
  assumes k: "keeps (en_net E) ok Inv" "\<And>u. ok (u @ ''/auth/bootstrap'')" "\<And>u. ok (u @ ''/aggregate'')" "stall_keeps E Inv"
    and none: "\<And>w a. Inv w \<Longrightarrow> dl_get_aggregate (en_port E) eid w \<noteq> Inr (Some a)" and w: "Inv (snd cw)"
  shows "Inv (snd (fst (drive_tally E eid rec cw)))"
proof -
  let ?urls = "keyper_urls E (er_config rec)" and ?ms = "member_addrs (er_config rec)"
  obtain c1 w1 out where t: "committee_tokens E ?urls ?ms cw = ((c1, w1), out)" by (metis surj_pair)
  have w1: "Inv w1" using committee_tokens_keeps [OF k(1,2) w, of ?urls ?ms] t by simp
  have trig: "Inv (dv_world (fst (trigger_aggregate_http (en_host E) (en_net E) (rebootstrap_one E ?urls ?ms) eid rc ?urls s)))"
    if "Inv (dv_world s)" for rc s
    using trigger_aggregate_keeps [where ok = ok and G = "\<lambda>cw. Inv (snd cw)", OF keeps_posts [OF k(1)] rebootstrap_keeps [where ok = ok, OF k(1,2)] k(3)]
      that by simp
  have missing: "Inv (snd (fst (aggregate_missing E eid rec ?urls ?ms sts att s)))" if "Inv (dv_world s)" for sts att s
    using that trig [of "s\<lparr>dv_caller := c\<rparr>" True for c] abandon_keeps [OF k(4)]
    by (simp add: aggregate_missing_def Let_def split_def)
  show ?thesis
    using w w1 missing trig none [OF w1] none [OF trig]
    by (simp add: drive_tally_def t Let_def split_def split: sum.split option.split)
qed

lemma process_all_keeps:
  assumes "\<And>e rec cw. Inv (snd cw) \<Longrightarrow> Inv (snd (fst (process E e rec now cw)))" "Inv (snd cw)"
  shows "Inv (snd (fst (process_all E now pending cw)))"
  using assms(2)
proof (induction pending arbitrary: cw)
  case (Cons x pending)
  show ?case using Cons.IH [OF assms(1) [OF Cons.prems]] by (cases x) (simp add: split_def Let_def)
qed simp

lemma scan_once_keeps:
  assumes "\<And>e rec now cw. Inv (snd cw) \<Longrightarrow> Inv (snd (fst (process E e rec now cw)))" "Inv (snd cw)"
  shows "Inv (snd (fst (scan_once E cw)))"
  using process_all_keeps [where Inv = Inv, OF assms(1) assms(2)] assms(2)
  by (simp add: scan_once_def Let_def split_def split: sum.split)

lemma run_polls_keeps:
  assumes "\<And>cw. Inv (snd cw) \<Longrightarrow> Inv (snd (fst (scan_once E cw)))" "\<And>w. Inv w \<Longrightarrow> Inv (pause w)" "Inv (snd cw)"
  shows "Inv (snd (run_polls E pause n cw))"
  using assms(3)
proof (induction n arbitrary: cw)
  case (Suc n)
  then show ?case using assms(1,2) by (simp add: split_def Let_def)
qed simp

section \<open>Properties\<close>

definition decrypt_url :: "string \<Rightarrow> bool" where
  "decrypt_url u \<longleftrightarrow> suffix ''/publish_decr_share'' u"

lemma not_decrypt_url:
  "\<not> decrypt_url (u @ ''/auth/bootstrap'')" "\<not> decrypt_url (u @ ''/aggregate'')"
  "p \<in> set DKG_PATHS \<Longrightarrow> \<not> decrypt_url (u @ ''/dkg/'' @ p)"
  by (auto simp: decrypt_url_def suffix_to_prefix DKG_PATHS_def DEAL_PHASES_def)

lemma dkg_keeps_decrypt:
  assumes "keeps (en_net E) (\<lambda>u. \<not> decrypt_url u) Inv" "stall_keeps E Inv"
    and "\<And>e w a. Inv w \<Longrightarrow> dl_get_aggregate (en_port E) e w \<noteq> Inr (Some a)" and "Inv (snd cw)"
  shows "Inv (snd (fst (process E e rec now cw)))"
proof -
  have d: "Inv (snd (fst (drive_dkg E e rec now cw)))"
    by (rule drive_dkg_keeps [where ok = "\<lambda>u. \<not> decrypt_url u", OF assms(1)]) (assumption | rule not_decrypt_url assms(4))+
  have t: "Inv (snd (fst (drive_tally E e rec cw)))"
    by (rule drive_tally_keeps [where ok = "\<lambda>u. \<not> decrypt_url u", OF assms(1) _ _ assms(2,3,4)]) (assumption | rule not_decrypt_url)+
  show ?thesis using d t assms(4) by (simp add: process_def Let_def split: sum.split)
qed

text \<open>
  C11: no keyper is asked to decrypt before an aggregate is canonical. Any property of the world that
  rules out a canonical aggregate and is kept by reads, by the stall flag, by what happens between two
  polls and by every call except those to \<open>/publish_decr_share\<close> is kept by the coordinator over any
  number of polls: the calls that could break it are never made.
\<close>

theorem no_decrypt_before_aggregate:
  fixes Inv :: "'w \<Rightarrow> bool"
  assumes "\<And>e w a. Inv w \<Longrightarrow> dl_get_aggregate (en_port E) e w \<noteq> Inr (Some a)"
    and "\<And>u w. Inv w \<Longrightarrow> Inv (fst (nw_get (en_net E) u w))"
    and "\<And>u b t w. \<not> decrypt_url u \<Longrightarrow> Inv w \<Longrightarrow> Inv (fst (nw_post (en_net E) u b t w))"
    and "\<And>now e sig at w w'. Inv w \<Longrightarrow> dl_set_tally_stalled (en_port E) now e True sig at w = Inr w' \<Longrightarrow> Inv w'"
    and "\<And>w. Inv w \<Longrightarrow> Inv (pause w)" and "Inv w"
  shows "Inv (snd (run_polls E pause n (c, w)))"
proof (rule run_polls_keeps)
  have k: "keeps (en_net E) (\<lambda>u. \<not> decrypt_url u) Inv" "stall_keeps E Inv"
    using assms(2-4) by (auto simp: keeps_def stall_keeps_def)
  show "Inv (snd (fst (scan_once E cw)))" if "Inv (snd cw)" for cw
    by (rule scan_once_keeps [OF dkg_keeps_decrypt [OF k assms(1)] that])
qed (use assms(5,6) in simp_all)

text \<open>An election the pass has nothing to do for, from its record and result.\<close>

definition election_state :: "'w ElectionDataLayer \<Rightarrow> bytes \<Rightarrow> int \<Rightarrow> 'w \<Rightarrow> ElectionState result" where
  "election_state P e now w =
     ebind (dl_get_election P e w) (\<lambda>rec. ebind (dl_get_result P e w) (\<lambda>res.
     Inr (derive_state (er_config rec)
       \<lparr>sf_cancelled = er_cancelled rec, sf_key_finalized = er_finalized_key rec \<noteq> None,
        sf_result_published = res \<noteq> None, sf_tally_stalled = er_tally_stalled rec\<rparr> now)))"

lemma process_idle:
  assumes "dl_get_election (en_port E) e w = Inr rec" "election_state (en_port E) e now w \<notin> {Inr REGISTERED, Inr TALLYING}"
  shows "\<exists>c' out. process E e rec now (c, w) = ((c', w), out) \<and> ad_attempts c' = ad_attempts c \<and>
    ad_tally_attempts c' = ad_tally_attempts c \<and> ad_tokens c' = ad_tokens c \<and> ad_store c' = ad_store c"
  using assms by (auto simp: process_def election_state_def Let_def split: sum.splits)

lemma process_all_idle:
  assumes "\<forall>(e, rec) \<in> set pending. dl_get_election (en_port E) e w = Inr rec \<and>
      election_state (en_port E) e now w \<notin> {Inr REGISTERED, Inr TALLYING}"
  shows "\<exists>c' outs. process_all E now pending (c, w) = ((c', w), outs) \<and> ad_attempts c' = ad_attempts c \<and>
    ad_tally_attempts c' = ad_tally_attempts c \<and> ad_tokens c' = ad_tokens c \<and> ad_store c' = ad_store c"
  using assms
proof (induction pending arbitrary: c)
  case (Cons x pending)
  obtain e rec where x: "x = (e, rec)" by force
  have e: "dl_get_election (en_port E) e w = Inr rec" "election_state (en_port E) e now w \<notin> {Inr REGISTERED, Inr TALLYING}"
    using Cons.prems by (auto simp: x)
  from process_idle [OF e, of c] obtain c1 out where p: "process E e rec now (c, w) = ((c1, w), out)" "ad_attempts c1 = ad_attempts c"
    "ad_tally_attempts c1 = ad_tally_attempts c" "ad_tokens c1 = ad_tokens c" "ad_store c1 = ad_store c" by blast
  have "\<forall>(e, rec) \<in> set pending. dl_get_election (en_port E) e w = Inr rec \<and>
      election_state (en_port E) e now w \<notin> {Inr REGISTERED, Inr TALLYING}" using Cons.prems by simp
  from Cons.IH [OF this, of c1] p show ?case by (auto simp: x)
qed auto

lemma collect_pending_set:
  "set (snd (collect_pending P c w es)) =
     {(e, rec). e \<in> set es \<and> tohex e \<notin> ad_done c \<and> tohex e \<notin> ad_failed c \<and> dl_get_election P e w = Inr rec}"
proof (induction es)
  case (Cons e es)
  obtain outs pending where p: "collect_pending P c w es = (outs, pending)" by force
  with Cons.IH have "set pending = {(e, rec). e \<in> set es \<and> tohex e \<notin> ad_done c \<and> tohex e \<notin> ad_failed c \<and> dl_get_election P e w = Inr rec}"
    by simp
  then show ?case by (cases "dl_get_election P e w") (auto simp: p)
qed simp

text \<open>
  The coordinator leaves alone what is not its turn. When every listed election is one it has
  finished or given up, or is in no state to be driven (cancelled, key ready, voting, complete, failed
  or with a stalled tally), a pass changes nothing outside the coordinator, spends no attempt and
  issues no credential; in particular a stalled tally is not resumed, not even after a restart with
  an empty memory.
\<close>

theorem idle_elections_untouched:
  assumes "dl_list_elections (en_port E) None w = Inr ids"
    and "\<forall>e \<in> set ids. tohex e \<in> ad_done c \<or> tohex e \<in> ad_failed c \<or>
      election_state (en_port E) e (nw_clock (en_net E) w) w \<notin> {Inr REGISTERED, Inr TALLYING}"
  shows "\<exists>c' outs. scan_once E (c, w) = ((c', w), Inr outs) \<and> ad_attempts c' = ad_attempts c \<and>
    ad_tally_attempts c' = ad_tally_attempts c \<and> ad_tokens c' = ad_tokens c \<and> ad_store c' = ad_store c"
proof -
  obtain outs pending where cp: "collect_pending (en_port E) c w ids = (outs, pending)" by force
  let ?sorted = "sort_key (\<lambda>(e, rec). cfg_voting_start (er_config rec)) pending"
  have "\<forall>(e, rec) \<in> set ?sorted. dl_get_election (en_port E) e w = Inr rec \<and>
      election_state (en_port E) e (nw_clock (en_net E) w) w \<notin> {Inr REGISTERED, Inr TALLYING}"
    using assms(2) collect_pending_set [of "en_port E" c w ids] cp by auto
  from process_all_idle [OF this, of c] show ?thesis by (auto simp: scan_once_def assms(1) cp Let_def)
qed

section \<open>The attempt budget\<close>

text \<open>The polls of one election in its tally: the state and the outcome after each of them.\<close>

fun tally_trace ::
    "('a, 'b, 'w) coordinator_env \<Rightarrow> bytes \<Rightarrow> ElectionRecord \<Rightarrow> ('w \<Rightarrow> 'w) \<Rightarrow> nat \<Rightarrow> AutoDKG \<times> 'w \<Rightarrow> ((AutoDKG \<times> 'w) \<times> string result) list" where
  "tally_trace E e rec pause 0 cw = []"
| "tally_trace E e rec pause (Suc n) cw =
     (let r = drive_tally E e rec cw in r # tally_trace E e rec pause n (fst (fst r), pause (snd (fst r))))"

definition tally_polls ::
    "('a, 'b, 'w) coordinator_env \<Rightarrow> bytes \<Rightarrow> ElectionRecord \<Rightarrow> ('w \<Rightarrow> 'w) \<Rightarrow> nat \<Rightarrow> AutoDKG \<times> 'w \<Rightarrow> string result list" where
  "tally_polls E e rec pause n cw = map snd (tally_trace E e rec pause n cw)"

lemma tally_polls_simps [simp]:
  "tally_polls E e rec pause 0 cw = []"
  "tally_polls E e rec pause (Suc n) cw =
     (let ((c, w), out) = drive_tally E e rec cw in out # tally_polls E e rec pause n (c, pause w))"
  by (simp_all add: tally_polls_def Let_def split_def)

text \<open>Every answer of the network in this world passes a test.\<close>

definition answers :: "'w network \<Rightarrow> ('w \<Rightarrow> bool) \<Rightarrow> (response \<Rightarrow> bool) \<Rightarrow> bool" where
  "answers N Inv T \<longleftrightarrow> (\<forall>u b t w. Inv w \<longrightarrow> Inv (fst (nw_post N u b t w)) \<and>
     (case snd (nw_post N u b t w) of Inl _ \<Rightarrow> True | Inr r \<Rightarrow> rs_status r \<noteq> 401 \<and> T r))"

lemma post_keyper_answers:
  assumes "answers N Inv T" and "Inv (dv_world s)"
  shows "\<exists>w r. post_keyper N rb url path eid ex i s = (s\<lparr>dv_world := w\<rparr>, r) \<and> Inv w \<and> (case r of None \<Rightarrow> True | Some x \<Rightarrow> T x)"
proof (cases "map_of (dv_tokens s) i")
  case None
  then show ?thesis using assms(2) by (intro exI [of _ "dv_world s"]) (simp add: post_keyper_def post_reauth_def)
next
  case (Some tok)
  obtain w r where p: "nw_post N (rstrip_slash url @ path) (election_body eid ex) (Some tok) (dv_world s) = (w, r)" by force
  then have "Inv w" "case r of Inl _ \<Rightarrow> True | Inr x \<Rightarrow> rs_status x \<noteq> 401 \<and> T x"
    using assms unfolding answers_def by (metis fst_conv, metis snd_conv)
  then show ?thesis using Some p by (auto simp: post_keyper_def post_reauth_def drive_post_def split: sum.splits)
qed

lemma trigger_aggregate_answers:
  assumes "answers N Inv T" and "Inv (dv_world s)"
  shows "\<exists>w sts. trigger_aggregate_http H N rb eid rc us s = (s\<lparr>dv_world := w\<rparr>, sts) \<and> Inv w \<and> length sts = length us \<and>
    (\<forall>(i, st) \<in> set sts. st = ''failed'' \<or> (\<exists>r. T r \<and> st = aggregate_reply H (Some r)))"
  using assms(2)
proof (induction us arbitrary: s)
  case (Cons x us)
  obtain i url where x: "x = (i, url)" by force
  let ?ex = "if rc then [(''recompute'', JBool True)] else []"
  obtain w r where p: "post_keyper N rb url ''/aggregate'' eid ?ex i s = (s\<lparr>dv_world := w\<rparr>, r)" "Inv w"
    "case r of None \<Rightarrow> True | Some x \<Rightarrow> T x" using post_keyper_answers [OF assms(1) Cons.prems] by blast
  obtain w' sts where t: "trigger_aggregate_http H N rb eid rc us (s\<lparr>dv_world := w\<rparr>) = (s\<lparr>dv_world := w'\<rparr>, sts)" "Inv w'"
    "length sts = length us" "\<forall>(i, st) \<in> set sts. st = ''failed'' \<or> (\<exists>r. T r \<and> st = aggregate_reply H (Some r))"
    using Cons.IH [of "s\<lparr>dv_world := w\<rparr>"] p(2) by auto
  have "aggregate_reply H r = ''failed'' \<or> (\<exists>r'. T r' \<and> aggregate_reply H r = aggregate_reply H (Some r'))"
    using p(3) by (cases r) (auto simp: aggregate_reply_def)
  with p t show ?case by (auto simp: x)
next
  case Nil
  then show ?case by (intro exI [of _ "dv_world s"] exI [of _ "[]"]) simp
qed

definition tally_counter :: "AutoDKG \<Rightarrow> bytes \<Rightarrow> int \<times> int" where
  "tally_counter c e = (case ad_tally_attempts c (tohex e) of None \<Rightarrow> (0, 0) | Some a \<Rightarrow> a)"

text \<open>A poll with known tokens and no aggregate before or after the trigger.\<close>

lemma drive_tally_waiting:
  assumes "answers (en_net E) Inv T" and "Inv w" and urls: "\<forall>(i, u) \<in> set (keyper_urls E (er_config rec)). u \<noteq> []"
    and tok: "ad_tokens c (committee_key (keyper_urls E (er_config rec))) = Some tokens"
    and none: "\<And>w. Inv w \<Longrightarrow> dl_get_aggregate (en_port E) e w = Inr None"
    and att: "tally_counter c e = (k, d)" "k < au_max_tally_attempts (en_params E)" "d < au_max_tally_attempts (en_params E)"
  shows "\<exists>w' sts. Inv w' \<and> length sts = length (keyper_urls E (er_config rec)) \<and>
    (\<forall>(i, st) \<in> set sts. st = ''failed'' \<or> (\<exists>r. T r \<and> st = aggregate_reply (en_host E) (Some r))) \<and>
    drive_tally E e rec (c, w) = aggregate_missing E e rec (keyper_urls E (er_config rec)) (member_addrs (er_config rec)) sts (k, d)
      \<lparr>dv_tokens = tokens, dv_caller = put_tally (tohex e) (k, d) c, dv_world = w'\<rparr>"
proof -
  let ?urls = "keyper_urls E (er_config rec)" and ?ms = "member_addrs (er_config rec)"
  let ?s = "\<lparr>dv_tokens = tokens, dv_caller = put_tally (tohex e) (k, d) c, dv_world = w\<rparr>"
  obtain w' sts where t: "trigger_aggregate_http (en_host E) (en_net E) (rebootstrap_one E ?urls ?ms) e False ?urls ?s = (?s\<lparr>dv_world := w'\<rparr>, sts)"
    "Inv w'" "length sts = length ?urls" "\<forall>(i, st) \<in> set sts. st = ''failed'' \<or> (\<exists>r. T r \<and> st = aggregate_reply (en_host E) (Some r))"
    using trigger_aggregate_answers [OF assms(1), of ?s "en_host E" "rebootstrap_one E ?urls ?ms" e False ?urls] assms(2)
    unfolding drive.simps by blast
  have u: "\<not> list_ex (\<lambda>(i, u). u = []) ?urls" using urls by (auto simp: list_ex_iff)
  have c: "committee_tokens E ?urls ?ms (c, w) = ((c, w), Inr tokens)" by (simp add: committee_tokens_def tok)
  have a: "(case ad_tally_attempts c (tohex e) of None \<Rightarrow> (0, 0) | Some a \<Rightarrow> a) = (k, d)" using att(1) by (simp add: tally_counter_def)
  have "drive_tally E e rec (c, w) = aggregate_missing E e rec ?urls ?ms sts (k, d) (?s\<lparr>dv_world := w'\<rparr>)"
    unfolding drive_tally_def Let_def using u c a att(2,3) none [OF assms(2)] none [OF t(2)] t(1) by simp
  with t(2-4) show ?thesis by auto
qed

text \<open>What a reader of the election sees of an accepted stall mark.\<close>

locale stall_flag =
  fixes P :: "'w ElectionDataLayer"
  assumes stall_read: "dl_get_election P e w = Inr rec \<Longrightarrow> dl_set_tally_stalled P now e True sig t w = Inr w' \<Longrightarrow>
    dl_get_election P e w' = Inr (rec\<lparr>er_tally_stalled := True\<rparr>)"
begin

lemma mark_read:
  assumes "dl_get_election P e w = Inr rec" "en_port E = P" "request_nonce_payload (nw_clock (en_net E) w) = Inr p"
    and "Signer_sign (en_host E) (au_coordinator (en_params E)) ''tally_stall'' e p = Inr sig"
    and "dl_set_tally_stalled P (nw_dl_clock (en_net E) w) e True sig (nw_clock (en_net E) w) w = Inr w'"
  shows "mark_tally_stalled E e w = (w', Inr ()) \<and> dl_get_election P e w' = Inr (rec\<lparr>er_tally_stalled := True\<rparr>)"
  using assms stall_read [OF assms(1,5)] by (simp add: mark_tally_stalled_def Let_def)

end

interpretation memory_stall: stall_flag "memory_port H" for H
proof
  fix e m rec now sig t m'
  assume r: "dl_get_election (memory_port H) e m = Inr rec" and s: "dl_set_tally_stalled (memory_port H) now e True sig t m = Inr m'"
  obtain st fk where st: "im_get m e = Inr st" "finalized_key_of st = Inr fk"
    "rec = \<lparr>er_config = st_config st, er_cancelled = st_cancelled st, er_finalized_key = fk, er_tally_stalled = st_tally_stalled st\<rparr>"
    using r by (auto simp: memory_port_def im_get_election_def im_get_finalized_key_def)
  have m': "im_get m' e = Inr (st\<lparr>st_tally_stalled := True\<rparr>)"
    using s st(1) by (auto simp: memory_port_def im_set_tally_stalled_def Let_def split: if_splits)
  have "finalized_key_of (st\<lparr>st_tally_stalled := True\<rparr>) = Inr fk" using st(2) by (simp add: finalized_key_of_def)
  then show "dl_get_election (memory_port H) e m' = Inr (rec\<lparr>er_tally_stalled := True\<rparr>)"
    using m' st(3) by (simp add: memory_port_def im_get_election_def im_get_finalized_key_def)
qed


text \<open>An answer with a client error other than 401 and 409, and no status of its own.\<close>

definition rejects :: "response \<Rightarrow> bool" where
  "rejects r \<longleftrightarrow> 400 \<le> rs_status r \<and> rs_status r < 500 \<and> rs_status r \<noteq> 401 \<and> rs_status r \<noteq> 409 \<and>
     (\<exists>kvs. rs_json r = Some (JObj kvs) \<and> map_of kvs ''status'' = None)"

lemma rejects_started: "rejects r \<Longrightarrow> aggregate_reply H (Some r) = ''started''"
  by (auto simp: rejects_def aggregate_reply_def response_json_def get_or_def)

lemma trigger_aggregate_rejected:
  assumes "\<And>u b t w. Inv w \<Longrightarrow> \<exists>w' r. nw_post N u b t w = (w', Inr r) \<and> Inv w' \<and> rejects r"
    and "Inv (dv_world s)" and "\<forall>(i, u) \<in> set us. map_of (dv_tokens s) i \<noteq> None"
  shows "\<exists>w sts. trigger_aggregate_http H N rb eid rc us s = (s\<lparr>dv_world := w\<rparr>, sts) \<and> Inv w \<and> length sts = length us \<and>
    (\<forall>(i, st) \<in> set sts. st = ''started'')"
  using assms(2,3)
proof (induction us arbitrary: s)
  case (Cons x us)
  obtain i url where x: "x = (i, url)" by force
  let ?ex = "if rc then [(''recompute'', JBool True)] else []"
  obtain tok where tok: "map_of (dv_tokens s) i = Some tok" using Cons.prems(2) by (auto simp: x)
  obtain w r where p: "nw_post N (rstrip_slash url @ ''/aggregate'') (election_body eid ?ex) (Some tok) (dv_world s) = (w, Inr r)" "Inv w" "rejects r"
    using assms(1) [OF Cons.prems(1)] by blast
  have k: "post_keyper N rb url ''/aggregate'' eid ?ex i s = (s\<lparr>dv_world := w\<rparr>, Some r)"
    using tok p(1,3) by (simp add: post_keyper_def post_reauth_def drive_post_def rejects_def)
  have "Inv (dv_world (s\<lparr>dv_world := w\<rparr>))" "\<forall>(i, u) \<in> set us. map_of (dv_tokens (s\<lparr>dv_world := w\<rparr>)) i \<noteq> None"
    using p(2) Cons.prems(2) by auto
  from Cons.IH [OF this] obtain w' sts where t: "trigger_aggregate_http H N rb eid rc us (s\<lparr>dv_world := w\<rparr>) = (s\<lparr>dv_world := w'\<rparr>, sts)" "Inv w'"
    "length sts = length us" "\<forall>(i, st) \<in> set sts. st = ''started''" by auto
  with k rejects_started [OF p(3)] show ?case by (auto simp: x)
next
  case Nil
  then show ?case by (intro exI [of _ "dv_world s"] exI [of _ "[]"]) simp
qed

text \<open>
  A rejected trigger counts as work in progress. When every keyper answers the aggregation
  trigger with a client error such as 403 or 404, the coordinator takes it for a started computation:
  however many polls pass before the deadline, none of them is counted and the tally is not given up.
\<close>

theorem rejected_tally_waits:
  fixes Inv :: "'w \<Rightarrow> bool"
  assumes "\<And>u b t w. Inv w \<Longrightarrow> \<exists>w' r. nw_post (en_net E) u b t w = (w', Inr r) \<and> Inv w' \<and> rejects r"
    and "\<forall>(i, u) \<in> set (keyper_urls E (er_config rec)). u \<noteq> [] \<and> map_of tokens i \<noteq> None" "keyper_urls E (er_config rec) \<noteq> []"
    and "ad_tokens c (committee_key (keyper_urls E (er_config rec))) = Some tokens"
    and "\<And>w. Inv w \<Longrightarrow> dl_get_aggregate (en_port E) e w = Inr None"
    and "\<And>w. Inv w \<Longrightarrow> \<not> past_tally_deadline E rec w" and "\<And>w. Inv w \<Longrightarrow> Inv (pause w)" and "Inv w"
  shows "tally_polls E e rec pause n (c, w) = replicate n (Inr ''collecting_aggregate'')"
  using assms(4,8)
proof (induction n arbitrary: c w)
  case (Suc n)
  let ?urls = "keyper_urls E (er_config rec)" and ?ms = "member_addrs (er_config rec)" and ?limit = "au_max_tally_attempts (en_params E)"
  define att where "att = (let a = tally_counter c e in if ?limit \<le> fst a \<or> ?limit \<le> snd a then (0, 0) else a)"
  let ?s = "\<lparr>dv_tokens = tokens, dv_caller = put_tally (tohex e) att c, dv_world = w\<rparr>"
  have "Inv (dv_world ?s)" "\<forall>(i, u) \<in> set ?urls. map_of (dv_tokens ?s) i \<noteq> None" using Suc.prems(2) assms(2) by auto
  from trigger_aggregate_rejected [OF assms(1) this, of "en_host E" "rebootstrap_one E ?urls ?ms" e False]
  obtain w' sts where t: "trigger_aggregate_http (en_host E) (en_net E) (rebootstrap_one E ?urls ?ms) e False ?urls ?s = (?s\<lparr>dv_world := w'\<rparr>, sts)"
    "Inv w'" "length sts = length ?urls" "\<forall>(i, st) \<in> set sts. st = ''started''" by blast
  have u: "\<not> list_ex (\<lambda>(i, u). u = []) ?urls" using assms(2) by (auto simp: list_ex_iff)
  have st: "list_ex (\<lambda>(i, st). st = ''started'' \<or> st = ''in_progress'') sts"
    using t(3,4) assms(3) by (cases sts) (auto simp: list_ex_iff)
  let ?a = "case ad_tally_attempts c (tohex e) of None \<Rightarrow> (0, 0) | Some a \<Rightarrow> a"
  have at: "(if ?limit \<le> fst ?a \<or> ?limit \<le> snd ?a then (0, 0) else ?a) = att" by (simp add: att_def tally_counter_def Let_def)
  have c: "committee_tokens E ?urls ?ms (c, w) = ((c, w), Inr tokens)" by (simp add: committee_tokens_def Suc.prems(1))
  have "drive_tally E e rec (c, w) = aggregate_missing E e rec ?urls ?ms sts att (?s\<lparr>dv_world := w'\<rparr>)"
    unfolding drive_tally_def Let_def using u c assms(5) [OF Suc.prems(2)] assms(5) [OF t(2)] t(1) by (simp add: at split del: if_split)
  also have "\<dots> = ((put_tally (tohex e) att c, w'), Inr ''collecting_aggregate'')"
    using st assms(6) [OF t(2)] by (simp add: aggregate_missing_def split_def Let_def)
  finally have p: "drive_tally E e rec (c, w) = ((put_tally (tohex e) att c, w'), Inr ''collecting_aggregate'')" .
  have "ad_tokens (put_tally (tohex e) att c) (committee_key ?urls) = Some tokens" using Suc.prems(1) by (simp add: put_tally_def)
  from Suc.IH [OF this assms(7) [OF t(2)]] p show ?case by simp
qed simp

text \<open>An installation without stored tokens ends at the first status page that does not answer.\<close>

lemma install_unanswered:
  assumes "\<And>u. \<exists>w' err. nw_get (en_net E) u w = (w', Inl err) \<and> Q w' err" "urls \<noteq> []" "ad_store c = None"
  shows "\<exists>w' err. install_committee E urls ms None (c, w) = ((c\<lparr>ad_store := None, ad_boots := ad_boots c + 1\<rparr>, w'), Inl err) \<and> Q w' err"
proof -
  obtain x xs where x: "urls = x # xs" using assms(2) by (cases urls) auto
  obtain i url where xi: "x = (i, url)" by force
  have none: "fst (assign_tokens dr us None) = None" for dr us
    by (induction us) (auto simp: store_get_def store_put_def split_def Let_def)
  obtain w' err where g: "nw_get (en_net E) (rstrip_slash url @ ''/status'') w = (w', Inl err)" "Q w' err" using assms(1) by blast
  have f: "fetch_enc_key H (en_net E) ms (i, url) w = (w', Inl err)" for H ms by (simp add: fetch_enc_key_def g)
  have "bootstrap_keypers (en_host E) (en_box E) (en_net E) (au_coordinator (en_params E))
      (en_draws E (ad_boots c)) urls ms (au_relay_token (en_params E)) None (None, w) = ((None, w'), Inl err)"
    using none [of "en_draws E (ad_boots c)" "x # xs"] by (simp add: bootstrap_keypers_def x split_def Let_def) (simp add: xi f)
  then show ?thesis using assms(3) g(2) by (simp add: install_committee_def Let_def)
qed

text \<open>
  A tally whose committee cannot be installed is never given up. When the coordinator holds no
  credential for the committee, as after a restart without a token store, and a keyper does not
  answer its status page, every poll ends in an error before the budget and the deadline are looked
  at, so no number of polls marks the tally as stalled.
\<close>

theorem uninstalled_tally_never_stalls:
  fixes Inv :: "'w \<Rightarrow> bool"
  assumes "keeps (en_net E) (\<lambda>_. True) Inv"
    and "\<And>u w. Inv w \<Longrightarrow> \<exists>w' err. nw_get (en_net E) u w = (w', Inl err)"
    and "\<forall>(i, u) \<in> set (keyper_urls E (er_config rec)). u \<noteq> []" "keyper_urls E (er_config rec) \<noteq> []"
    and "ad_tokens c (committee_key (keyper_urls E (er_config rec))) = None" "ad_store c = None"
    and "\<And>w. Inv w \<Longrightarrow> Inv (pause w)" and "Inv w"
  shows "tally_polls E e rec pause n (c, w) = replicate n (Inr ''error'')"
  using assms(5,6,8)
proof (induction n arbitrary: c w)
  case (Suc n)
  let ?urls = "keyper_urls E (er_config rec)" and ?ms = "member_addrs (er_config rec)"
  have u: "\<not> list_ex (\<lambda>(i, u). u = []) ?urls" using assms(3) by (auto simp: list_ex_iff)
  have get: "\<exists>w' err. nw_get (en_net E) u w = (w', Inl err) \<and> Inv w'" for u
    using assms(1) assms(2) [OF Suc.prems(3), of u] Suc.prems(3) unfolding keeps_def by (metis fst_conv)
  obtain w' err where "install_committee E ?urls ?ms None (c, w) = ((c\<lparr>ad_store := None, ad_boots := ad_boots c + 1\<rparr>, w'), Inl err)" and w': "Inv w'"
    using install_unanswered [of E w "\<lambda>w' _. Inv w'" ?urls c ?ms, OF get assms(4) Suc.prems(2)] by blast
  then have "committee_tokens E ?urls ?ms (c, w) = ((c\<lparr>ad_store := None, ad_boots := ad_boots c + 1\<rparr>, w'), Inl err)"
    using Suc.prems(1,2) by (simp add: committee_tokens_def auto_bootstrap_def)
  then have p: "drive_tally E e rec (c, w) = ((c\<lparr>ad_store := None, ad_boots := ad_boots c + 1\<rparr>, w'), Inr ''error'')"
    using u by (simp add: drive_tally_def Let_def)
  show ?case using Suc.IH [of "c\<lparr>ad_store := None, ad_boots := ad_boots c + 1\<rparr>" "pause w'"] Suc.prems(1) assms(7) [OF w'] p by simp
qed simp

section \<open>The back-off of the key ceremony\<close>

definition dkg_counter :: "AutoDKG \<Rightarrow> bytes \<Rightarrow> int \<times> int" where
  "dkg_counter c e = (case ad_attempts c (tohex e) of None \<Rightarrow> (0, 0) | Some a \<Rightarrow> a)"

lemma install_attempts: "ad_attempts (fst (fst (install_committee E urls ms inst cw))) = ad_attempts (fst cw)"
  by (simp add: install_committee_def split_def Let_def split: sum.split)

lemma ceremony_attempts: "ad_attempts (fst (fst (ceremony_attempt E e urls ms cw))) = ad_attempts (fst cw)"
proof -
  let ?G = "\<lambda>x. ad_attempts (fst x) = ad_attempts (fst cw)"
  obtain c1 w1 out where b: "auto_bootstrap E urls ms cw = ((c1, w1), out)" by (metis surj_pair)
  have c1: "?G (c1, w1)" using install_attempts [of E urls ms None cw] b by (simp add: auto_bootstrap_def)
  have rb: "?G x \<Longrightarrow> ?G (fst (rebootstrap_one E urls ms i x))" for i x
    using install_attempts [of E urls ms "Some [i]" x] by (simp add: rebootstrap_one_def split_def Let_def)
  have post: "posts_keep (en_net E) (\<lambda>_. True) ?G" by (simp add: posts_keep_def)
  have "?G (dv_at (fst (run_dkg_http (en_port E) (en_net E) (rebootstrap_one E urls ms) e urls \<lparr>dv_tokens = t, dv_caller = c1, dv_world = w1\<rparr>)))" for t
    by (rule run_dkg_http_keeps [where ok = "\<lambda>_. True" and G = ?G, OF post rb]) (use c1 in simp_all)
  then show ?thesis using c1 by (simp add: ceremony_attempt_def b split_def Let_def split: sum.split)
qed

text \<open>The four ways a poll can end, with what becomes of the counter.\<close>

lemma drive_dkg_cases:
  assumes "drive_dkg E e rec t (c, w) = ((c', w'), out)" "dkg_counter c e = (k, n)"
  obtains
    (wait) "out = Inr ''backing_off''" "t < n" "w' = w" "dkg_counter c' e = (k, n)"
  | (over) "out \<in> {Inr ''no_urls'', Inr ''finalized'', Inr ''dkg_complaint''}" "n \<le> t" "dkg_counter c' e = (k, n)"
  | (retry) "out = Inr ''registered_retry''" "n \<le> t" "k < 1024"
      "dkg_counter c' e = (k + 1, t + min (au_backoff_cap (en_params E)) (au_backoff_base (en_params E) * 2 ^ nat k))"
  | (broken) "out = Inl OverflowError" "n \<le> t" "1024 \<le> k" "dkg_counter c' e = (k + 1, n)"
proof -
  let ?urls = "keyper_urls E (er_config rec)" and ?ms = "member_addrs (er_config rec)" and ?h = "tohex e"
  let ?c = "c\<lparr>ad_attempts := (ad_attempts c)(?h \<mapsto> (k, n))\<rparr>"
  obtain c1 w1 o1 where r: "ceremony_attempt E e ?urls ?ms (?c, w) = ((c1, w1), o1)" by (metis surj_pair)
  have a: "ad_attempts c1 ?h = Some (k, n)" using ceremony_attempts [of E e ?urls ?ms "(?c, w)"] r by simp
  have k: "(case ad_attempts c ?h of None \<Rightarrow> (0, 0) | Some a \<Rightarrow> a) = (k, n)" using assms(2) by (simp add: dkg_counter_def)
  consider "t < n" | "n \<le> t" "list_ex (\<lambda>(i, u). u = []) ?urls \<or> o1 = Inr True \<or> o1 = Inl DKGComplaint"
    | "n \<le> t" "\<not> list_ex (\<lambda>(i, u). u = []) ?urls" "o1 \<noteq> Inr True" "o1 \<noteq> Inl DKGComplaint" "k < 1024"
    | "n \<le> t" "\<not> list_ex (\<lambda>(i, u). u = []) ?urls" "o1 \<noteq> Inr True" "o1 \<noteq> Inl DKGComplaint" "1024 \<le> k" by linarith
  then show thesis
  proof cases
    case 1
    then show ?thesis using wait assms(1) by (auto simp: drive_dkg_def k dkg_counter_def Let_def)
  next
    case 2
    then show ?thesis using over assms(1) a by (auto simp: drive_dkg_def k r dkg_counter_def Let_def split: if_splits)
  next
    case 3
    then show ?thesis using retry assms(1) by (auto simp: drive_dkg_def k r dkg_counter_def backoff_delay_def Let_def)
  next
    case 4
    then show ?thesis using broken assms(1) by (auto simp: drive_dkg_def k r dkg_counter_def backoff_delay_def Let_def)
  qed
qed

text \<open>The polls of one registered election at given times, and the failed attempts among them.\<close>

fun dkg_trace ::
    "('a, 'b, 'w) coordinator_env \<Rightarrow> bytes \<Rightarrow> ElectionRecord \<Rightarrow> ('w \<Rightarrow> 'w) \<Rightarrow> int list \<Rightarrow> AutoDKG \<times> 'w \<Rightarrow> string result list" where
  "dkg_trace E e rec pause [] cw = []"
| "dkg_trace E e rec pause (t # ts) cw =
     (let ((c, w), out) = drive_dkg E e rec t cw in out # dkg_trace E e rec pause ts (c, pause w))"

lemma dkg_trace_take: "take m (dkg_trace E e rec pause ts cw) = dkg_trace E e rec pause (take m ts) cw"
  by (induction ts arbitrary: m cw) (auto simp: take_Cons' split_def Let_def)

lemma length_dkg_trace [simp]: "length (dkg_trace E e rec pause ts cw) = length ts"
  by (induction ts arbitrary: cw) (auto simp: split_def Let_def)

definition failures :: "string result list \<Rightarrow> nat" where
  "failures outs = length (filter (\<lambda>out. isl out \<or> out = Inr ''registered_retry'') outs)"

lemma failures_simps [simp]:
  "failures [] = 0" "failures (out # outs) = (if isl out \<or> out = Inr ''registered_retry'' then 1 else 0) + failures outs"
  by (simp_all add: failures_def)

text \<open>No ceremony before the time the counter names; once the delay cannot be computed, that time stays.\<close>

lemma dkg_trace_gate:
  assumes "0 < au_backoff_base (en_params E)" "au_backoff_base (en_params E) \<le> au_backoff_cap (en_params E)"
    and "dkg_counter c e = (k, n)" "j < length ts" "dkg_trace E e rec pause ts (c, w) ! j \<noteq> Inr ''backing_off''"
  shows "n \<le> ts ! j"
  using assms(3-5)
proof (induction ts arbitrary: c w j k n)
  case (Cons t ts)
  have d: "0 \<le> min (au_backoff_cap (en_params E)) (au_backoff_base (en_params E) * 2 ^ nat k)" using assms(1,2) by simp
  obtain c' w' out where r: "drive_dkg E e rec t (c, w) = ((c', w'), out)" by (metis surj_pair)
  have IH: "n' \<le> ts ! i" if "dkg_counter c' e = (k', n')" "j = Suc i" for k' n' i
    using Cons.IH [OF that(1), of i] Cons.prems(2,3) that(2) by (simp add: r)
  from r Cons.prems(1) show ?case
  proof (cases rule: drive_dkg_cases)
    case retry
    then show ?thesis using IH [OF retry(4)] d by (cases j) auto
  next
    case wait
    then show ?thesis using IH [OF wait(4)] Cons.prems(3) by (cases j) (auto simp: r)
  next
    case over
    then show ?thesis using IH [OF over(3)] by (cases j) auto
  next
    case broken
    then show ?thesis using IH [OF broken(4)] by (cases j) auto
  qed
qed simp

lemma dkg_trace_broken:
  assumes "dkg_counter c e = (k, n)" "1024 \<le> k" "j < length ts" "dkg_trace E e rec pause ts (c, w) ! j = Inr ''backing_off''"
  shows "ts ! j < n"
  using assms
proof (induction ts arbitrary: c w j k)
  case (Cons t ts)
  obtain c' w' out where r: "drive_dkg E e rec t (c, w) = ((c', w'), out)" by (metis surj_pair)
  have IH: "ts ! i < n" if "dkg_counter c' e = (k', n)" "1024 \<le> k'" "j = Suc i" for k' i
    using Cons.IH [OF that(1,2), of i] Cons.prems(3,4) that(3) by (simp add: r)
  from r Cons.prems(1) show ?case
  proof (cases rule: drive_dkg_cases)
    case wait
    then show ?thesis using IH [OF wait(4)] Cons.prems(2) by (cases j) auto
  next
    case over
    then show ?thesis using IH [OF over(3)] Cons.prems(2,4) by (cases j) (auto simp: r)
  next
    case broken
    then show ?thesis using IH [OF broken(4)] Cons.prems(2,4) by (cases j) (auto simp: r)
  qed (use Cons.prems(2) in simp)
qed simp

text \<open>What an outcome at position \<open>i\<close> says about the attempts before and the polls after it.\<close>

lemma dkg_trace_backoff:
  assumes outs_def: "outs = (\<lambda>c w ts. dkg_trace E e rec pause ts (c, w))" and b: "0 < au_backoff_base (en_params E)" "au_backoff_base (en_params E) \<le> au_backoff_cap (en_params E)"
    and "dkg_counter c e = (int k, n)" "i < j" "j < length ts"
  shows "(outs c w ts ! i = Inr ''registered_retry'' \<longrightarrow> k + failures (take i (outs c w ts)) < 1024 \<and>
      (outs c w ts ! j \<noteq> Inr ''backing_off'' \<longrightarrow>
       ts ! i + min (au_backoff_cap (en_params E)) (au_backoff_base (en_params E) * 2 ^ (k + failures (take i (outs c w ts)))) \<le> ts ! j)) \<and>
    (isl (outs c w ts ! i) \<longrightarrow> outs c w ts ! i = Inl OverflowError \<and> 1024 \<le> k + failures (take i (outs c w ts)) \<and>
      (ts ! i \<le> ts ! j \<longrightarrow> outs c w ts ! j \<noteq> Inr ''backing_off''))"
  using assms(4-6)
proof (induction ts arbitrary: c w i j k n)
  case (Cons t ts)
  obtain c' w' out where r: "drive_dkg E e rec t (c, w) = ((c', w'), out)" by (metis surj_pair)
  have o: "outs c w (t # ts) = out # outs c' (pause w') ts" by (simp add: outs_def r)
  obtain j' where j: "j = Suc j'" "j' < length ts" using Cons.prems(2,3) by (cases j) auto
  have gate: "n' \<le> ts ! j'" if "dkg_counter c' e = (k', n')" "outs c' (pause w') ts ! j' \<noteq> Inr ''backing_off''" for k' n'
    using dkg_trace_gate [OF b that(1) j(2)] that(2) by (simp add: outs_def)
  have stays: "ts ! j' < n'" if "dkg_counter c' e = (k', n')" "1024 \<le> k'" "outs c' (pause w') ts ! j' = Inr ''backing_off''" for k' n'
    using dkg_trace_broken [OF that(1,2) j(2)] that(3) by (simp add: outs_def)
  show ?case
  proof (cases i)
    case 0
    from r Cons.prems(1) show ?thesis
    proof (cases rule: drive_dkg_cases)
      case retry
      then show ?thesis using gate [OF retry(4)] by (auto simp: 0 o j(1))
    next
      case broken
      then have "ts ! j' < n" if "outs c' (pause w') ts ! j' = Inr ''backing_off''" using stays [OF broken(4) _ that] by simp
      then show ?thesis using broken by (auto simp: 0 o j(1))
    qed (auto simp: 0 o)
  next
    case (Suc i')
    have "i' < j'" using Cons.prems(2) Suc j(1) by simp
    note IH = Cons.IH [OF _ this j(2)]
    have counted: "\<exists>n'. dkg_counter c' e = (int (k + failures [out]), n')"
      using r Cons.prems(1) by (cases rule: drive_dkg_cases) auto
    then obtain n' where "dkg_counter c' e = (int (k + failures [out]), n')" ..
    from IH [OF this, of "pause w'"] show ?thesis by (simp add: Suc o j(1) add.assoc split del: if_split)
  qed
qed simp

text \<open>
  C40: the back-off grows to its cap and then breaks. With a positive base and a cap at least as large,
  a poll that runs a ceremony and fails after \<open>k\<close> earlier failures is followed by no other ceremony
  for \<open>min cap (base * 2 ^ k)\<close> seconds, whatever the network and the data layer do and however often
  the election is polled; polls in between leave the world alone. After 1024 failures the delay
  cannot be computed: the poll ends with \<open>OverflowError\<close>, and no later poll is put off any more.
\<close>

theorem backoff_schedule:
  assumes "0 < au_backoff_base (en_params E)" "au_backoff_base (en_params E) \<le> au_backoff_cap (en_params E)"
    and "ad_attempts c (tohex e) = None" and "outs = dkg_trace E e rec pause ts (c, w)" and "i < j" "j < length ts"
  shows "(outs ! i = Inr ''registered_retry'' \<longrightarrow> failures (take i outs) < 1024 \<and>
      (outs ! j \<noteq> Inr ''backing_off'' \<longrightarrow>
       ts ! i + min (au_backoff_cap (en_params E)) (au_backoff_base (en_params E) * 2 ^ failures (take i outs)) \<le> ts ! j)) \<and>
    (isl (outs ! i) \<longrightarrow> outs ! i = Inl OverflowError \<and> 1024 \<le> failures (take i outs) \<and>
      (ts ! i \<le> ts ! j \<longrightarrow> outs ! j \<noteq> Inr ''backing_off'')) \<and>
    (\<forall>t c1 w1. snd (drive_dkg E e rec t (c1, w1)) = Inr ''backing_off'' \<longrightarrow> snd (fst (drive_dkg E e rec t (c1, w1))) = w1)"
proof -
  have z: "dkg_counter c e = (int 0, 0)" using assms(3) by (simp add: dkg_counter_def)
  have idle: "snd (fst (drive_dkg E e rec t (c1, w1))) = w1" if "snd (drive_dkg E e rec t (c1, w1)) = Inr ''backing_off''" for t c1 w1
  proof -
    obtain c' w' out k n where r: "drive_dkg E e rec t (c1, w1) = ((c', w'), out)" "dkg_counter c1 e = (k, n)" by (metis surj_pair)
    then show ?thesis by (cases rule: drive_dkg_cases) (use that r(1) in auto)
  qed
  show ?thesis using dkg_trace_backoff [OF refl assms(1,2) z assms(5,6), of rec pause w] idle by (simp add: assms(4))
qed

section \<open>Witnesses\<close>

text \<open>
  An election whose voting is over. The network gives every call the same answer and counts the
  decryption triggers; no keyper answers its status page.
\<close>

definition tally_record :: "bool \<Rightarrow> ElectionRecord" where
  "tally_record stalled = \<lparr>er_config = sample_config, er_cancelled = False,
     er_finalized_key = Some \<lparr>fk_pk_election = [], fk_committee_pks = []\<rparr>, er_tally_stalled = stalled\<rparr>"

definition tally_port :: "bool \<Rightarrow> nat ElectionDataLayer" where
  "tally_port stalled =
     \<lparr>dl_register_election = (\<lambda>_ _ _. Inl ValueError), dl_cancel_election = (\<lambda>_ _ _ _. Inl ValueError),
      dl_get_election = (\<lambda>_ _. Inr (tally_record stalled)), dl_list_elections = (\<lambda>_ _. Inr [be 32 1]),
      dl_submit_dkg_result = (\<lambda>_ _ _ _ _. Inl ValueError), dl_get_dkg_submissions = (\<lambda>_ _. Inr []),
      dl_get_finalized_key = (\<lambda>_ _. Inr None),
      dl_submit_ballot = (\<lambda>_ _ _ _ _. Inl ValueError), dl_list_ballots = (\<lambda>_ _ _ _. Inr []), dl_count_ballots = (\<lambda>_ _. Inr 0),
      dl_submit_aggregate = (\<lambda>_ _ _ _ _. Inl ValueError), dl_get_aggregate = (\<lambda>_ _. Inr None),
      dl_submit_decryption_share = (\<lambda>_ _ _ _ _. Inl ValueError), dl_list_decryption_shares = (\<lambda>_ _. Inr []),
      dl_publish_result = (\<lambda>_ _ _ _. Inl ValueError), dl_get_result = (\<lambda>_ _. Inr None),
      dl_set_tally_stalled = (\<lambda>_ _ _ _ _ w. Inr w), dl_verifiability_tier = 0\<rparr>"

definition tally_net :: "response result \<Rightarrow> nat network" where
  "tally_net answer =
     \<lparr>nw_post = (\<lambda>url body token w. (if decrypt_url url then Suc w else w, answer)),
      nw_get = (\<lambda>url w. (w, Inl RequestException)), nw_clock = (\<lambda>w. 250), nw_dl_clock = (\<lambda>w. 250)\<rparr>"

definition tally_env :: "bool \<Rightarrow> response result \<Rightarrow> (int, int, nat) coordinator_env" where
  "tally_env stalled answer =
     \<lparr>en_suite = zq_suite, en_host = sample_host,
      en_box = \<lparr>bx_public = (\<lambda>a. a), bx_exchange = (\<lambda>a b. []), bx_derive = (\<lambda>a b. []), bx_encrypt = (\<lambda>k n p. p), bx_decrypt = (\<lambda>k n p. Some p)\<rparr>,
      en_port = tally_port stalled, en_net = tally_net answer, en_draws = (\<lambda>n. witness_draws ''t''),
      en_params = \<lparr>au_coordinator = \<lparr>private_key = 3, identity = []\<rparr>, au_backoff_base = 10, au_backoff_cap = 300, au_max_tally_attempts = 5,
        au_max_tally_phase = 21600, au_url_overrides = [(tohex [1], ''a''), (tohex [2], ''b''), (tohex [3], ''c'')], au_relay_token = None\<rparr>\<rparr>"

abbreviation tally_tokens :: "(int \<times> string) list" where
  "tally_tokens \<equiv> [(1, ''t''), (2, ''t''), (3, ''t'')]"

definition tally_auto :: AutoDKG where
  "tally_auto = (AutoDKG_init None)\<lparr>ad_tokens := [witness_urls \<mapsto> tally_tokens]\<rparr>"

lemma tally_urls: "keyper_urls (tally_env st r) (er_config (tally_record b)) = witness_urls" "committee_key witness_urls = witness_urls"
  by (simp_all add: keyper_urls_def keyper_urls_from_def tally_env_def tally_record_def sample_config_def witness_urls_def committee_key_def
      upto.simps del: tohex.simps)

lemma tally_env_fields:
  "en_port (tally_env st r) = tally_port st" "en_net (tally_env st r) = tally_net r"
  "au_max_tally_attempts (en_params (tally_env st r)) = 5" "\<not> past_tally_deadline (tally_env st r) (tally_record b) w"
  by (simp_all add: tally_env_def past_tally_deadline_def tally_net_def tally_record_def sample_config_def)

lemma no_decrypt_before_aggregate_witness:
  "snd (run_polls (tally_env False (Inl RequestException)) (\<lambda>w. w) 7 (tally_auto, 0)) = 0"
  by (rule no_decrypt_before_aggregate [where Inv = "\<lambda>w. w = 0"])
    (auto simp: tally_env_fields tally_port_def tally_net_def)

lemma idle_elections_untouched_witness:
  "\<exists>c' outs. scan_once (tally_env True (Inl RequestException)) (AutoDKG_init None, 0) = ((c', 0), Inr outs) \<and> ad_tally_attempts c' = Map.empty"
proof -
  have l: "dl_list_elections (en_port (tally_env True (Inl RequestException))) None 0 = Inr [be 32 1]"
    by (simp add: tally_env_fields tally_port_def)
  have s: "election_state (en_port (tally_env True (Inl RequestException))) e 250 0 = Inr TALLY_STALLED" for e
    by (simp add: election_state_def tally_env_fields tally_port_def tally_record_def sample_config_def derive_state_def)
  show ?thesis
    using idle_elections_untouched [OF l, of "AutoDKG_init None"] s by (auto simp: tally_env_fields tally_net_def AutoDKG_init_def)
qed

text \<open>The sample election on the in-memory data layer after voting, with its key and no keyper that answers.\<close>

definition quiet_env :: "(int, int, InMemory) coordinator_env" where
  "quiet_env =
     \<lparr>en_suite = zq_suite, en_host = tally_host,
      en_box = \<lparr>bx_public = (\<lambda>a. a), bx_exchange = (\<lambda>a b. []), bx_derive = (\<lambda>a b. []), bx_encrypt = (\<lambda>k n p. p), bx_decrypt = (\<lambda>k n p. Some p)\<rparr>,
      en_port = memory_port tally_host,
      en_net = \<lparr>nw_post = (\<lambda>url body token w. (w, Inl RequestException)), nw_get = (\<lambda>url w. (w, Inl RequestException)),
        nw_clock = (\<lambda>w. 250), nw_dl_clock = (\<lambda>w. 250)\<rparr>,
      en_draws = (\<lambda>n. witness_draws ''t''),
      en_params = \<lparr>au_coordinator = sample_signer 4, au_backoff_base = 10, au_backoff_cap = 300, au_max_tally_attempts = 5,
        au_max_tally_phase = 21600, au_url_overrides = [], au_relay_token = None\<rparr>\<rparr>"

definition quiet_memory :: InMemory where
  "quiet_memory = sample_memory [(1, sample_dkg 1), (2, sample_dkg 2)]"

definition quiet_record :: ElectionRecord where
  "quiet_record = \<lparr>er_config = sample_election, er_cancelled = False,
     er_finalized_key = Some \<lparr>fk_pk_election = be 96 9, fk_committee_pks = sample_committee\<rparr>, er_tally_stalled = False\<rparr>"

lemma quiet_get: "im_get quiet_memory (be 32 1) = Inr ((Stored_init sample_election)\<lparr>st_dkg_by_keyper := [(1, sample_dkg 1), (2, sample_dkg 2)]\<rparr>)"
  by (simp add: im_get_def quiet_memory_def sample_memory_def)

lemma quiet_reads:
  "dl_get_election (memory_port H) (be 32 1) quiet_memory = Inr quiet_record"
  "dl_get_aggregate (memory_port H) (be 32 1) quiet_memory = Inr None"
proof -
  show "dl_get_election (memory_port H) (be 32 1) quiet_memory = Inr quiet_record"
    using sample_finalized [folded quiet_memory_def] quiet_get by (simp add: memory_port_def im_get_election_def quiet_record_def Stored_init_def)
  show "dl_get_aggregate (memory_port H) (be 32 1) quiet_memory = Inr None"
    using quiet_get by (simp add: memory_port_def im_get_aggregate_def aggregate_groups_def group_all_def resolve_unique_def Stored_init_def)
qed

lemma quiet_urls: "keyper_urls quiet_env (er_config quiet_record) = [(1, ''u''), (2, ''u''), (3, ''u'')]"
  by (simp add: keyper_urls_def keyper_urls_from_def quiet_env_def quiet_record_def sample_election_def sample_identity_def upto.simps del: tohex.simps)

lemma quiet_mark:
  "request_nonce_payload 250 = Inr (be 8 250)" "Signer_sign tally_host (sample_signer 4) ''tally_stall'' (be 32 1) (be 8 250) = Inr (be 32 4)"
  "\<exists>m'. dl_set_tally_stalled (memory_port tally_host) 250 (be 32 1) True (be 32 4) 250 quiet_memory = Inr m'"
proof -
  show p: "request_nonce_payload 250 = Inr (be 8 250)" by (simp add: request_nonce_payload_def int_to_bytes_def)
  show "Signer_sign tally_host (sample_signer 4) ''tally_stall'' (be 32 1) (be 8 250) = Inr (be 32 4)"
    by (simp add: Signer_sign_def sign_request_def request_digest_def request_text_def Authorization.frame_def int_to_bytes_def encode_utf8_def
        sign_digest_def sample_signer_def tally_host_def)
  have v: "verify_request tally_host (be 32 4) (be 32 4) ''tally_stall'' (be 32 1) (be 8 250)"
    by (simp add: verify_request_def request_digest_def request_text_def Authorization.frame_def int_to_bytes_def encode_utf8_def
        recover_digest_def tally_host_def)
  have n: "im_used_request_nonces quiet_memory = {}" by (simp add: quiet_memory_def sample_memory_def)
  show "\<exists>m'. dl_set_tally_stalled (memory_port tally_host) 250 (be 32 1) True (be 32 4) 250 quiet_memory = Inr m'"
    using v n by (simp add: memory_port_def im_set_tally_stalled_def quiet_get request_is_fresh_def REQUEST_FRESHNESS_S_def p stall_op_def
        Stored_init_def sample_election_sel Let_def)
qed

definition quiet_auto :: AutoDKG where
  "quiet_auto = (AutoDKG_init None)\<lparr>ad_tokens := [[(1, ''u''), (2, ''u''), (3, ''u'')] \<mapsto> tally_tokens]\<rparr>"


definition not_found :: response where
  "not_found = \<lparr>rs_status = 404, rs_json = Some (JObj [(''error'', JStr ''unknown election'')])\<rparr>"

lemma rejected_tally_waits_witness:
  "tally_polls (tally_env False (Inr not_found)) (be 32 1) (tally_record False) (\<lambda>w. w) 1000 (tally_auto, 0) =
     replicate 1000 (Inr ''collecting_aggregate'')"
  by (rule rejected_tally_waits [where Inv = "\<lambda>w. True" and tokens = tally_tokens])
    (simp_all add: tally_urls tally_env_fields tally_auto_def AutoDKG_init_def tally_port_def tally_net_def rejects_def not_found_def,
     simp_all add: witness_urls_def)

lemma uninstalled_tally_never_stalls_witness:
  "tally_polls (tally_env False (Inl RequestException)) (be 32 1) (tally_record False) (\<lambda>w. w) 1000 (AutoDKG_init None, 0) =
     replicate 1000 (Inr ''error'')"
  by (rule uninstalled_tally_never_stalls [where Inv = "\<lambda>w. True"])
    (simp_all add: keeps_def tally_urls tally_env_fields AutoDKG_init_def tally_net_def, simp_all add: witness_urls_def)

text \<open>A ceremony no keyper takes part in, polled every 300 seconds.\<close>

lemma unanswered_poll:
  fixes E defines "E \<equiv> tally_env False (Inl RequestException)"
  assumes "ad_store c = None" "snd (dkg_counter c e) \<le> t"
  shows "\<exists>c' out. drive_dkg E e (tally_record False) t (c, w) = ((c', w), out) \<and> ad_store c' = None \<and> snd (dkg_counter c' e) \<le> t + 300 \<and>
    failures [out] = 1"
proof -
  let ?urls = "keyper_urls E (er_config (tally_record False))" and ?ms = "member_addrs (er_config (tally_record False))"
  obtain k n where k: "dkg_counter c e = (k, n)" by force
  let ?c = "c\<lparr>ad_attempts := (ad_attempts c)(tohex e \<mapsto> (k, n))\<rparr>"
  have u: "?urls = witness_urls" unfolding E_def by (rule tally_urls)
  have get: "\<exists>w' err. nw_get (en_net E) v w = (w', Inl err) \<and> w' = w \<and> err = RequestException" for v by (simp add: E_def tally_env_fields tally_net_def)
  have "?urls \<noteq> []" "ad_store ?c = None" using assms(2) by (simp_all add: u witness_urls_def)
  from install_unanswered [of E w "\<lambda>w' err. w' = w \<and> err = RequestException" ?urls ?c ?ms, OF get this]
  have r: "ceremony_attempt E e ?urls ?ms (?c, w) = ((?c\<lparr>ad_store := None, ad_boots := ad_boots ?c + 1\<rparr>, w), Inl RequestException)"
    by (auto simp: ceremony_attempt_def auto_bootstrap_def)
  have "\<not> list_ex (\<lambda>(i, u). u = []) ?urls" unfolding u by (simp add: witness_urls_def)
  moreover have "au_backoff_cap (en_params E) = 300" by (simp add: E_def tally_env_def)
  ultimately show ?thesis using r k assms(2,3)
    by (auto simp: drive_dkg_def dkg_counter_def Let_def backoff_delay_def min_def)
qed

lemma unanswered_trace:
  assumes "ad_store c = None" "snd (dkg_counter c e) \<le> 300 * int m"
  shows "failures (dkg_trace (tally_env False (Inl RequestException)) e (tally_record False) (\<lambda>w. w) (map (\<lambda>i. 300 * int i) [m..<m + n]) (c, w)) = n"
  using assms
proof (induction n arbitrary: c m)
  case (Suc n)
  obtain c' out where p: "drive_dkg (tally_env False (Inl RequestException)) e (tally_record False) (300 * int m) (c, w) = ((c', w), out)"
    "ad_store c' = None" "snd (dkg_counter c' e) \<le> 300 * int m + 300" "failures [out] = 1"
    using unanswered_poll [OF Suc.prems(1), of e "300 * int m" w] Suc.prems(2) by auto
  have "[m..<m + Suc n] = m # [Suc m..<Suc m + n]" by (simp add: upt_rec)
  then show ?case using Suc.IH [OF p(2), of "Suc m"] p(1,3,4) by (simp split del: if_split)
qed simp

lemma backoff_schedule_witness:
  "\<exists>outs. outs = dkg_trace (tally_env False (Inl RequestException)) (be 32 1) (tally_record False) (\<lambda>w. w) (map (\<lambda>i. 300 * int i) [0..<1026]) (AutoDKG_init None, 0) \<and>
     outs ! 1024 = Inl OverflowError \<and> outs ! 1025 \<noteq> Inr ''backing_off''"
proof -
  let ?E = "tally_env False (Inl RequestException)" and ?c = "AutoDKG_init None" and ?ts = "map (\<lambda>i. 300 * int i) [0..<1026]"
  define outs where "outs = dkg_trace ?E (be 32 1) (tally_record False) (\<lambda>w. w) ?ts (?c, 0)"
  have c: "ad_store ?c = None" "snd (dkg_counter ?c (be 32 1)) \<le> 300 * int 0" "ad_attempts ?c (tohex (be 32 1)) = None"
    by (simp_all add: AutoDKG_init_def dkg_counter_def)
  have f: "failures (take m outs) = m" if "m \<le> 1026" for m
    using unanswered_trace [OF c(1,2), of m] that unfolding outs_def dkg_trace_take by (simp add: take_map)
  have "take 1025 outs = take 1024 outs @ [outs ! 1024]" unfolding outs_def using take_Suc_conv_app_nth [of 1024 outs] by (simp add: outs_def)
  then have "isl (outs ! 1024) \<or> outs ! 1024 = Inr ''registered_retry''" using f [of 1025] f [of 1024] by (auto simp: failures_def split: if_splits)
  moreover have "0 < au_backoff_base (en_params ?E)" "au_backoff_base (en_params ?E) \<le> au_backoff_cap (en_params ?E)" by (simp_all add: tally_env_def)
  from backoff_schedule [OF this c(3) outs_def, of 1024 1025] f [of 1024]
  have "outs ! 1024 \<noteq> Inr ''registered_retry''" "isl (outs ! 1024) \<longrightarrow> outs ! 1024 = Inl OverflowError \<and> outs ! 1025 \<noteq> Inr ''backing_off''"
    by auto
  ultimately show ?thesis using outs_def by blast
qed

end
