(* ===== verification/Sha256.thy ===== *)
theory Sha256
  imports Prelude
begin

text \<open>
  What the program uses of Python's \<open>hashlib\<close> and \<open>hmac\<close>: SHA-256 (FIPS 180-4) on 32-bit words and
  \<open>hmac.new(key, msg, hashlib.sha256).digest()\<close> (RFC 2104), as executable definitions.
\<close>

unbundle bit_operations_syntax

type_synonym word32 = "32 word"

section \<open>The compression function\<close>

definition sha_K :: "word32 list" where
  "sha_K =
    [0x428a2f98, 0x71374491, 0xb5c0fbcf, 0xe9b5dba5, 0x3956c25b, 0x59f111f1, 0x923f82a4, 0xab1c5ed5,
     0xd807aa98, 0x12835b01, 0x243185be, 0x550c7dc3, 0x72be5d74, 0x80deb1fe, 0x9bdc06a7, 0xc19bf174,
     0xe49b69c1, 0xefbe4786, 0x0fc19dc6, 0x240ca1cc, 0x2de92c6f, 0x4a7484aa, 0x5cb0a9dc, 0x76f988da,
     0x983e5152, 0xa831c66d, 0xb00327c8, 0xbf597fc7, 0xc6e00bf3, 0xd5a79147, 0x06ca6351, 0x14292967,
     0x27b70a85, 0x2e1b2138, 0x4d2c6dfc, 0x53380d13, 0x650a7354, 0x766a0abb, 0x81c2c92e, 0x92722c85,
     0xa2bfe8a1, 0xa81a664b, 0xc24b8b70, 0xc76c51a3, 0xd192e819, 0xd6990624, 0xf40e3585, 0x106aa070,
     0x19a4c116, 0x1e376c08, 0x2748774c, 0x34b0bcb5, 0x391c0cb3, 0x4ed8aa4a, 0x5b9cca4f, 0x682e6ff3,
     0x748f82ee, 0x78a5636f, 0x84c87814, 0x8cc70208, 0x90befffa, 0xa4506ceb, 0xbef9a3f7, 0xc67178f2]"

definition sha_H0 :: "word32 list" where
  "sha_H0 = [0x6a09e667, 0xbb67ae85, 0x3c6ef372, 0xa54ff53a, 0x510e527f, 0x9b05688c, 0x1f83d9ab, 0x5be0cd19]"

definition rotr3 :: "nat \<Rightarrow> nat \<Rightarrow> nat \<Rightarrow> word32 \<Rightarrow> word32" where
  "rotr3 i j k x = word_rotr i x XOR word_rotr j x XOR word_rotr k x"

definition small_sigma :: "nat \<Rightarrow> nat \<Rightarrow> nat \<Rightarrow> word32 \<Rightarrow> word32" where
  "small_sigma i j k x = word_rotr i x XOR word_rotr j x XOR drop_bit k x"

text \<open>The message schedule, most recent word first.\<close>

fun sha_schedule :: "nat \<Rightarrow> word32 list \<Rightarrow> word32 list" where
  "sha_schedule 0 ws = ws"
| "sha_schedule (Suc n) ws =
     sha_schedule n ((small_sigma 17 19 10 (ws ! 1) + ws ! 6 + small_sigma 7 18 3 (ws ! 14) + ws ! 15) # ws)"

fun sha_round :: "word32 \<times> word32 \<Rightarrow> word32 list \<Rightarrow> word32 list" where
  "sha_round (k, w) [a, b, c, d, e, f, g, h] =
     (let t1 = h + rotr3 6 11 25 e + ((e AND f) XOR (NOT e AND g)) + k + w;
          t2 = rotr3 2 13 22 a + ((a AND b) XOR (a AND c) XOR (b AND c))
      in [t1 + t2, a, b, c, d + t1, e, f, g])"
| "sha_round _ hs = hs"

definition sha_compress :: "word32 list \<Rightarrow> word32 list \<Rightarrow> word32 list" where
  "sha_compress block hs = map2 (+) hs (fold sha_round (zip sha_K (rev (sha_schedule 48 (rev block)))) hs)"

section \<open>Padding and the digest\<close>

definition sha_pad :: "bytes \<Rightarrow> bytes" where
  "sha_pad m = m @ [0x80] @ replicate ((119 - length m mod 64) mod 64) 0 @ be 8 (8 * int (length m))"

fun words_of :: "bytes \<Rightarrow> word32 list" where
  "words_of (a # b # c # d # r) =
     (push_bit 24 (ucast a) OR push_bit 16 (ucast b) OR push_bit 8 (ucast c) OR ucast d) # words_of r"
| "words_of _ = []"

function blocks_of :: "word32 list \<Rightarrow> word32 list list" where
  "blocks_of ws = (if length ws < 16 then [] else take 16 ws # blocks_of (drop 16 ws))"
  by auto
termination by (relation "measure length") auto

declare blocks_of.simps [simp del]

definition sha256 :: "bytes \<Rightarrow> bytes" where
  "sha256 m = concat (map (\<lambda>w. be 4 (uint w)) (fold sha_compress (blocks_of (words_of (sha_pad m))) sha_H0))"

definition hmac_sha256 :: "bytes \<Rightarrow> bytes \<Rightarrow> bytes" where
  "hmac_sha256 key msg =
     (let k0 = (if 64 < length key then sha256 key else key);
          k = k0 @ replicate (64 - length k0) 0
      in sha256 (map (\<lambda>b. b XOR 0x5c) k @ sha256 (map (\<lambda>b. b XOR 0x36) k @ msg)))"

section \<open>A digest has 32 bytes\<close>

lemma sha_round_length [simp]: "length (sha_round kw hs) = length hs"
  by (induction kw hs rule: sha_round.induct) (auto simp: Let_def)

lemma fold_sha_round_length [simp]: "length (fold sha_round kws hs) = length hs"
  by (induction kws arbitrary: hs) auto

lemma sha_compress_length [simp]: "length (sha_compress block hs) = length hs"
  by (simp add: sha_compress_def)

lemma fold_sha_compress_length [simp]: "length (fold sha_compress bs hs) = length hs"
  by (induction bs arbitrary: hs) auto

lemma sha256_length [simp]: "length (sha256 m) = 32"
proof -
  have "length (concat (map (\<lambda>w. be 4 (uint (w::word32))) ws)) = 4 * length ws" for ws by (induction ws) auto
  then show ?thesis by (simp add: sha256_def sha_H0_def)
qed

lemma hmac_sha256_length [simp]: "length (hmac_sha256 key msg) = 32"
  by (simp add: hmac_sha256_def Let_def)

text \<open>The digest of \<open>b"abc"\<close> of FIPS 180-4, Appendix B.1.\<close>

lemma sha256_abc: "sha256 [0x61, 0x62, 0x63] = be 32 0xba7816bf8f01cfea414140de5dae2223b00361a396177a9cb410ff61f20015ad"
  by code_simp

end
