(* ===== verification/Eligibility.thy ===== *)
theory Eligibility
  imports Wire Sha256
begin

text \<open>
  The issuing side of the credential: \<^verbatim>\<open>ports/eligibility.py\<close> (\<open>AttestationRequest\<close>),
  \<^verbatim>\<open>adapters/eligibility_stub.py\<close>, \<^verbatim>\<open>adapters/eligibility_wallet.py\<close> and the HTTP service
  \<^verbatim>\<open>services/eligibility/eligibility.py\<close>. The recovery of an address from a wallet signature
  (\<^verbatim>\<open>eth_account\<close>), the scalar each signature draws and the content of the allowlist file are
  arguments. The locale \<open>nonce_allocator\<close> states what the service needs of the re-vote counter; the
  SQLite store and the in-memory counter are its two interpretations.
\<close>

section \<open>The stub issuer\<close>

record AttestationRequest =
  rq_election_id :: bytes
  rq_pseudonym :: bytes
  rq_vk :: bytes
  rq_weight :: int
  rq_nonce :: int

record 'a StubEligibilityService =
  st_sk :: int
  st_vk :: 'a
  st_eligibility_key :: bytes
  st_scheme :: AttestationScheme
  st_fixed_weight :: "int option"

definition StubEligibilityService_init ::
    "('a, 'b) suite \<Rightarrow> int \<Rightarrow> AttestationScheme \<Rightarrow> int option \<Rightarrow> 'a StubEligibilityService result" where
  "StubEligibilityService_init S elig_sk scheme fixed_weight =
     ebind (keygen S (Some elig_sk) 0) (\<lambda>(sk, vk).
     ebind (g1_to_compressed S vk) (\<lambda>key.
     Inr \<lparr>st_sk = sk, st_vk = vk, st_eligibility_key = key, st_scheme = scheme,
          st_fixed_weight = fixed_weight\<rparr>))"

definition stub_issue_attestation ::
    "('a, 'b) suite \<Rightarrow> 'a StubEligibilityService \<Rightarrow> AttestationRequest \<Rightarrow> int \<Rightarrow> AttestationCredential result" where
  "stub_issue_attestation S service request d =
     (let weight = (case st_fixed_weight service of Some w \<Rightarrow> w | None \<Rightarrow> rq_weight request) in
      ebind (sign_attestation S (st_sk service) (st_vk service) (rq_election_id request) (rq_pseudonym request)
               (rq_vk request) weight (rq_nonce request) None d) (\<lambda>sig.
      Inr \<lparr>att_election_id = rq_election_id request, att_pseudonym = rq_pseudonym request, att_vk = rq_vk request,
           att_weight = weight, att_signature = sig, att_scheme = ATTESTATION_V1, att_nonce = rq_nonce request\<rparr>))"

section \<open>Challenge, pseudonym and allowlist\<close>

definition hex0x :: "bytes \<Rightarrow> string" where
  "hex0x b = ''0x'' @ tohex b"

definition challenge_message :: "bytes \<Rightarrow> bytes \<Rightarrow> string" where
  "challenge_message election_id vk =
     ''Shutter Governance Protocol eligibility attestation'' @ [CHR 0x0A] @
     ''electionId: '' @ hex0x election_id @ [CHR 0x0A] @
     ''vk: '' @ hex0x vk"

definition derive_pseudonym :: "bytes \<Rightarrow> bytes \<Rightarrow> bytes \<Rightarrow> bytes" where
  "derive_pseudonym secret election_id address = take 32 (hmac_sha256 secret (election_id @ address))"

text \<open>\<open>s.lower()\<close> on code points below 256, and \<open>s.removeprefix(p)\<close>.\<close>

definition lower_char :: "char \<Rightarrow> char" where
  "lower_char c =
     (let n = (of_char c :: nat) in
      if 65 \<le> n \<and> n \<le> 90 \<or> 192 \<le> n \<and> n \<le> 222 \<and> n \<noteq> 215 then char_of (n + 32) else c)"

definition lower :: "string \<Rightarrow> string" where
  "lower s = map lower_char s"

definition removeprefix :: "string \<Rightarrow> string \<Rightarrow> string" where
  "removeprefix p s = (if take (length p) s = p then drop (length p) s else s)"

definition norm_addr :: "json \<Rightarrow> string result" where
  "norm_addr a =
     (case a of
        JStr t \<Rightarrow>
          (let h = removeprefix ''0x'' (lower (strip t)) in
           if length h \<noteq> 40 then Inl ValueError else ebind (fromhex h) (\<lambda>_. Inr h))
      | _ \<Rightarrow> Inl AttributeError)"

text \<open>
  \<open>load_allowlist\<close>: the file as \<open>json.load\<close> returns it, or the exception of opening or parsing it.
  A dictionary comprehension keeps the last entry of a key.
\<close>

definition load_allowlist :: "json result \<Rightarrow> int \<Rightarrow> (string \<rightharpoonup> int) result" where
  "load_allowlist file default_weight =
     ebind file (\<lambda>data.
     case data of
       JArr xs \<Rightarrow>
         ebind (emap (\<lambda>a. ebind (norm_addr a) (\<lambda>h. Inr (h, default_weight))) xs) (\<lambda>kvs. Inr (map_of (rev kvs)))
     | JObj items \<Rightarrow>
         ebind (emap (\<lambda>(a, w). ebind (norm_addr (JStr a)) (\<lambda>h. ebind (py_int w) (\<lambda>n. Inr (h, n)))) items)
           (\<lambda>kvs. Inr (map_of (rev kvs)))
     | _ \<Rightarrow> Inl ValueError)"

section \<open>The re-vote counter\<close>

text \<open>
  The table \<open>revote_nonce\<close>, keyed by the hexadecimal text of election and pseudonym. The binding of a
  Python integer of 64 bits or more raises \<open>OverflowError\<close>, and the transaction is rolled back.
\<close>

type_synonym nonce_table = "string \<times> string \<rightharpoonup> int"

definition SqliteNonceStore_init :: nonce_table where
  "SqliteNonceStore_init = Map.empty"

definition sqlite_next :: "nonce_table \<Rightarrow> bytes \<Rightarrow> bytes \<Rightarrow> (int \<times> nonce_table) result" where
  "sqlite_next db election_id pseudonym =
     (let key = (tohex election_id, tohex pseudonym);
          n = (case db key of Some v \<Rightarrow> v | None \<Rightarrow> 0) + 1
      in if 2 ^ 63 \<le> n then Inl OverflowError else Inr (n, db(key \<mapsto> n)))"

type_synonym nonce_counts = "bytes \<times> bytes \<rightharpoonup> int"

definition in_memory_alloc :: "nonce_counts \<Rightarrow> bytes \<Rightarrow> bytes \<Rightarrow> (int \<times> nonce_counts) result" where
  "in_memory_alloc counts election_id pseudonym =
     (let key = (election_id, pseudonym);
          n = (case counts key of Some v \<Rightarrow> v | None \<Rightarrow> 0) + 1
      in Inr (n, counts(key \<mapsto> n)))"

section \<open>The attestation service\<close>

text \<open>
  What \<open>build_eligibility_app\<close> closes over. \<open>allowlist\<close> is \<open>None\<close> when no path is configured, and
  otherwise what reading the file gives at this request. \<open>recover\<close> is \<open>Account.recover_message\<close> on the
  EIP-191 message of a text: the checksummed address, or an exception.
\<close>

record ('a, 's) eligibility_app =
  ap_service :: "'a StubEligibilityService"
  ap_pseudonym_secret :: bytes
  ap_weight :: int
  ap_recover :: "string \<Rightarrow> bytes \<Rightarrow> string result"
  ap_next_nonce :: "'s \<Rightarrow> bytes \<Rightarrow> bytes \<Rightarrow> (int \<times> 's) result"

text \<open>The answer to an exception: the handler of \<open>ValueError\<close>, or Flask's.\<close>

definition elig_error :: "error \<Rightarrow> response" where
  "elig_error e = \<lparr>rs_status = (if is_value_error e then 400 else 500), rs_json = None\<rparr>"

definition elig_refusal :: "int \<Rightarrow> response" where
  "elig_refusal status = \<lparr>rs_status = status, rs_json = None\<rparr>"

text \<open>The wallet that signed the challenge for these two values.\<close>

definition recovered_wallet :: "('a, 's) eligibility_app \<Rightarrow> json \<Rightarrow> bytes \<Rightarrow> bytes \<Rightarrow> string result" where
  "recovered_wallet app signature election_id vk =
     ebind (dec_bytes signature None) (\<lambda>sig. ap_recover app (challenge_message election_id vk) sig)"

text \<open>
  The policy: the weight of the wallet, or the status of the refusal; an exception of
  \<open>load_allowlist\<close> that is no \<open>OSError\<close> and no \<open>ValueError\<close> is Flask's to answer, with 500 as well.
\<close>

definition voter_weight :: "('a, 's) eligibility_app \<Rightarrow> json result option \<Rightarrow> string \<Rightarrow> int + int" where
  "voter_weight app allowlist addr_hex =
     (case allowlist of
        None \<Rightarrow> Inr (ap_weight app)
      | Some file \<Rightarrow>
          (case load_allowlist file (ap_weight app) of
             Inl _ \<Rightarrow> Inl 500
           | Inr allow \<Rightarrow> (case allow addr_hex of None \<Rightarrow> Inl 403 | Some w \<Rightarrow> Inr w)))"

text \<open>Allocation and issuance, after the policy: the nonce is taken before the credential is signed.\<close>

definition issue_to ::
    "('a, 'b) suite \<Rightarrow> ('a, 's) eligibility_app \<Rightarrow> bytes \<Rightarrow> bytes \<Rightarrow> bytes \<Rightarrow> int \<Rightarrow> int \<Rightarrow> 's \<Rightarrow> 's \<times> response" where
  "issue_to S app election_id vk address weight d st =
     (let pseudonym = derive_pseudonym (ap_pseudonym_secret app) election_id address in
      case ap_next_nonce app st election_id pseudonym of
        Inl e \<Rightarrow> (st, elig_error e)
      | Inr (nonce, st') \<Rightarrow>
          (case stub_issue_attestation S (ap_service app)
                  \<lparr>rq_election_id = election_id, rq_pseudonym = pseudonym, rq_vk = vk, rq_weight = weight, rq_nonce = nonce\<rparr> d of
             Inl e \<Rightarrow> (st', elig_error e)
           | Inr att \<Rightarrow>
               (st', \<lparr>rs_status = 200,
                      rs_json = Some (JObj [(''attestation'', enc_attestation att), (''pseudonym'', enc_bytes pseudonym)])\<rparr>)))"

definition attest ::
    "('a, 'b) suite \<Rightarrow> ('a, 's) eligibility_app \<Rightarrow> json \<Rightarrow> json result option \<Rightarrow> int \<Rightarrow> 's \<Rightarrow> 's \<times> response" where
  "attest S app body allowlist d st =
     (case get_opt body ''signature'' of
        Inl e \<Rightarrow> (st, elig_error e)
      | Inr signature \<Rightarrow>
          if \<not> truthy signature then (st, elig_refusal 401)
          else
            (case ebind (get_item body ''electionId'') (\<lambda>v. ebind (dec_bytes v None) (\<lambda>election_id.
                  ebind (get_item body ''vk'') (\<lambda>v. ebind (dec_bytes v None) (\<lambda>vk. Inr (election_id, vk))))) of
               Inl e \<Rightarrow> (st, elig_error e)
             | Inr (election_id, vk) \<Rightarrow>
                 (case recovered_wallet app signature election_id vk of
                    Inl _ \<Rightarrow> (st, elig_refusal 401)
                  | Inr recovered \<Rightarrow>
                      (case fromhex (drop 2 recovered) of
                         Inl e \<Rightarrow> (st, elig_error e)
                       | Inr address \<Rightarrow>
                           (case voter_weight app allowlist (lower (drop 2 recovered)) of
                              Inl status \<Rightarrow> (st, elig_refusal status)
                            | Inr weight \<Rightarrow> issue_to S app election_id vk address weight d st)))))"

definition health :: "('a, 's) eligibility_app \<Rightarrow> response" where
  "health app = \<lparr>rs_status = 200,
     rs_json = Some (JObj [(''ok'', JBool True), (''eligibilityKey'', enc_bytes (st_eligibility_key (ap_service app)))])\<rparr>"

section \<open>The wallet issuer\<close>

text \<open>
  \<open>WalletEligibilityService\<close>. \<open>recover712\<close> is the recovery of an address from a signature over the
  typed data of the domain, \<open>power\<close> the injected reader of voting power; both may raise.
\<close>

record typed_data =
  td_domain_name :: string
  td_domain_version :: string
  td_chain_id :: int
  td_verifying_contract :: "string option"
  td_election_id :: bytes
  td_vk :: bytes

record 'a WalletEligibilityService =
  we_sk :: int
  we_vk :: 'a
  we_eligibility_key :: bytes
  we_voting_power :: "bytes \<Rightarrow> int result"
  we_chain_id :: int
  we_domain_name :: string
  we_domain_version :: string
  we_verifying_contract :: "string option"
  we_prevent_reissue :: bool
  we_issued :: "(bytes \<times> bytes) list"

definition WalletEligibilityService_init ::
    "('a, 'b) suite \<Rightarrow> int \<Rightarrow> (bytes \<Rightarrow> int result) \<Rightarrow> int \<Rightarrow> string \<Rightarrow> string \<Rightarrow> string option \<Rightarrow> bool \<Rightarrow>
     'a WalletEligibilityService result" where
  "WalletEligibilityService_init S elig_sk voting_power chain_id domain_name domain_version verifying_contract prevent_reissue =
     ebind (keygen S (Some elig_sk) 0) (\<lambda>(sk, vk).
     ebind (g1_to_compressed S vk) (\<lambda>key.
     Inr \<lparr>we_sk = sk, we_vk = vk, we_eligibility_key = key, we_voting_power = voting_power,
          we_chain_id = chain_id, we_domain_name = domain_name, we_domain_version = domain_version,
          we_verifying_contract = verifying_contract, we_prevent_reissue = prevent_reissue, we_issued = []\<rparr>))"

definition typed_data_of :: "'a WalletEligibilityService \<Rightarrow> bytes \<Rightarrow> bytes \<Rightarrow> typed_data" where
  "typed_data_of w election_id vk =
     \<lparr>td_domain_name = we_domain_name w, td_domain_version = we_domain_version w, td_chain_id = we_chain_id w,
      td_verifying_contract = we_verifying_contract w, td_election_id = election_id, td_vk = vk\<rparr>"

definition recover_address ::
    "(typed_data \<Rightarrow> bytes \<Rightarrow> string result) \<Rightarrow> 'a WalletEligibilityService \<Rightarrow> bytes \<Rightarrow> bytes \<Rightarrow> bytes \<Rightarrow> bytes result" where
  "recover_address recover712 w election_id vk signature =
     (case recover712 (typed_data_of w election_id vk) signature of
        Inl _ \<Rightarrow> Inl EligibilityError
      | Inr addr \<Rightarrow> fromhex (drop 2 addr))"

definition pseudonym_for :: "('a, 'b) suite \<Rightarrow> bytes \<Rightarrow> bytes \<Rightarrow> bytes" where
  "pseudonym_for S address election_id = suite.keccak S (address @ election_id)"

definition issue_for_wallet ::
    "('a, 'b) suite \<Rightarrow> (typed_data \<Rightarrow> bytes \<Rightarrow> string result) \<Rightarrow> bytes \<Rightarrow> bytes \<Rightarrow> bytes \<Rightarrow> int \<Rightarrow>
     'a WalletEligibilityService \<Rightarrow> (AttestationCredential \<times> 'a WalletEligibilityService) result" where
  "issue_for_wallet S recover712 election_id vk signature d w =
     (if length election_id \<noteq> 32 then Inl EligibilityError
      else if length vk \<noteq> 48 then Inl EligibilityError
      else
        ebind (recover_address recover712 w election_id vk signature) (\<lambda>address.
        ebind (we_voting_power w address) (\<lambda>vp.
        if vp \<le> 0 then Inl NotEligible
        else if we_prevent_reissue w \<and> (election_id, address) \<in> set (we_issued w) then Inl EligibilityError
        else
          (let pseudonym = pseudonym_for S address election_id in
           ebind (sign_attestation S (we_sk w) (we_vk w) election_id pseudonym vk vp 1 None d) (\<lambda>sig.
           Inr (\<lparr>att_election_id = election_id, att_pseudonym = pseudonym, att_vk = vk, att_weight = vp,
                 att_signature = sig, att_scheme = ATTESTATION_V1, att_nonce = 1\<rparr>,
                w\<lparr>we_issued := List.insert (election_id, address) (we_issued w)\<rparr>))))))"

section \<open>What an issuer signs\<close>

text \<open>The credential is bound to its fields under the key of a service.\<close>

definition issues :: "('a, 'b) suite \<Rightarrow> bytes \<Rightarrow> AttestationCredential \<Rightarrow> bool" where
  "issues S key att \<longleftrightarrow> ok_attestation att \<and> verify_attestation S key att (att_election_id att)"

definition stub_weight :: "'a StubEligibilityService \<Rightarrow> int \<Rightarrow> int" where
  "stub_weight service w = (case st_fixed_weight service of Some f \<Rightarrow> f | None \<Rightarrow> w)"

lemma derive_pseudonym_length [simp]: "length (derive_pseudonym secret eid a) = 32"
  by (simp add: derive_pseudonym_def)

lemma sign_attestation_guard:
  "sign_attestation S sk vk eid ps v w n k d = Inr sig \<Longrightarrow>
     length eid = 32 \<and> length ps = 32 \<and> length v = 48 \<and> 1 \<le> w \<and> 1 \<le> n"
  by (auto simp: sign_attestation_def attestation_message_def dest: attestation_transcript_guard)

context crypto_suite
begin

lemma keygen_service:
  assumes "keygen S (Some elig_sk) d = Inr (sk, vk)" and "g1_to_compressed S vk = Inr key"
  shows "sk mod CURVE_ORDER \<noteq> 0" "vk = gx (g1 S) sk" "key = gcompress (g1 S) (gx (g1 S) sk)"
  using assms by (auto simp: keygen_def Let_def g1_codec dvd_eq_mod_eq_0 split: if_splits)

lemma signed_credential:
  assumes key: "sk mod CURVE_ORDER \<noteq> 0" "key = gcompress (g1 S) (gx (g1 S) sk)"
    and lens: "length eid = 32" "length ps = 32" "length v = 48" "1 \<le> w" "1 \<le> n"
  shows "\<exists>sig. sign_attestation S sk (gx (g1 S) sk) eid ps v w n k d = Inr sig \<and>
    issues S key \<lparr>att_election_id = eid, att_pseudonym = ps, att_vk = v, att_weight = w, att_signature = sig,
      att_scheme = ATTESTATION_V1, att_nonce = n\<rparr>"
proof -
  obtain sig where sig: "sign_attestation S sk (gx (g1 S) sk) eid ps v w n k d = Inr sig" "length sig = 80"
    "verify_attestation_sig S key eid ps v w n sig"
    using sign_verify_attestation [OF key(1) lens] unfolding key(2) by blast
  then show ?thesis using lens by (auto simp: issues_def ok_attestation_def verify_attestation_def codec_sizes)
qed

lemma stub_issues:
  assumes init: "StubEligibilityService_init S elig_sk scheme fw = Inr service"
  shows "(\<exists>att. stub_issue_attestation S service rq d = Inr att) \<longleftrightarrow>
    length (rq_election_id rq) = 32 \<and> length (rq_pseudonym rq) = 32 \<and> length (rq_vk rq) = 48 \<and>
    1 \<le> stub_weight service (rq_weight rq) \<and> 1 \<le> rq_nonce rq"
    and "stub_issue_attestation S service rq d = Inr att \<Longrightarrow> issues S (st_eligibility_key service) att \<and>
      att_election_id att = rq_election_id rq \<and> att_pseudonym att = rq_pseudonym rq \<and> att_vk att = rq_vk rq \<and>
      att_weight att = stub_weight service (rq_weight rq) \<and> att_nonce att = rq_nonce rq"
proof -
  obtain sk vk key where k: "keygen S (Some elig_sk) 0 = Inr (sk, vk)" "g1_to_compressed S vk = Inr key"
    and sv: "st_sk service = sk" "st_vk service = vk" "st_eligibility_key service = key"
    using init by (auto simp: StubEligibilityService_init_def)
  note key = keygen_service [OF k]
  have sgn: "\<exists>sig. sign_attestation S sk vk (rq_election_id rq) (rq_pseudonym rq) (rq_vk rq) w (rq_nonce rq) None d = Inr sig \<and>
      issues S key \<lparr>att_election_id = rq_election_id rq, att_pseudonym = rq_pseudonym rq, att_vk = rq_vk rq, att_weight = w,
        att_signature = sig, att_scheme = ATTESTATION_V1, att_nonce = rq_nonce rq\<rparr>"
    if "length (rq_election_id rq) = 32" "length (rq_pseudonym rq) = 32" "length (rq_vk rq) = 48" "1 \<le> w" "1 \<le> rq_nonce rq" for w
    using signed_credential [OF key(1) key(3) that] unfolding key(2) by blast
  let ?w = "stub_weight service (rq_weight rq)"
  have eq: "stub_issue_attestation S service rq d =
      ebind (sign_attestation S sk vk (rq_election_id rq) (rq_pseudonym rq) (rq_vk rq) ?w (rq_nonce rq) None d) (\<lambda>sig.
        Inr \<lparr>att_election_id = rq_election_id rq, att_pseudonym = rq_pseudonym rq, att_vk = rq_vk rq,
           att_weight = ?w, att_signature = sig, att_scheme = ATTESTATION_V1, att_nonce = rq_nonce rq\<rparr>)"
    by (simp add: stub_issue_attestation_def sv stub_weight_def Let_def)
  show "(\<exists>att. stub_issue_attestation S service rq d = Inr att) \<longleftrightarrow>
    length (rq_election_id rq) = 32 \<and> length (rq_pseudonym rq) = 32 \<and> length (rq_vk rq) = 48 \<and> 1 \<le> ?w \<and> 1 \<le> rq_nonce rq"
    using sgn [of ?w] by (auto simp: eq dest: sign_attestation_guard)
  assume "stub_issue_attestation S service rq d = Inr att"
  then obtain sig where sig: "sign_attestation S sk vk (rq_election_id rq) (rq_pseudonym rq) (rq_vk rq) ?w (rq_nonce rq) None d = Inr sig"
    and att: "att = \<lparr>att_election_id = rq_election_id rq, att_pseudonym = rq_pseudonym rq, att_vk = rq_vk rq,
           att_weight = ?w, att_signature = sig, att_scheme = ATTESTATION_V1, att_nonce = rq_nonce rq\<rparr>"
    by (auto simp: eq)
  then show "issues S (st_eligibility_key service) att \<and>
      att_election_id att = rq_election_id rq \<and> att_pseudonym att = rq_pseudonym rq \<and> att_vk att = rq_vk rq \<and>
      att_weight att = ?w \<and> att_nonce att = rq_nonce rq"
    using sgn [of ?w] sign_attestation_guard [OF sig] sig sv by auto
qed

end

section \<open>Who is served\<close>

text \<open>
  The wallet a request authenticates: a signature is there, the two fields decode, and the
  signature over exactly their challenge recovers an address.
\<close>

definition authenticated :: "('a, 's) eligibility_app \<Rightarrow> json \<Rightarrow> bytes \<Rightarrow> bytes \<Rightarrow> string \<Rightarrow> bytes \<Rightarrow> bool" where
  "authenticated app body election_id vk recovered address \<longleftrightarrow>
     (\<exists>signature. get_opt body ''signature'' = Inr signature \<and> truthy signature \<and>
        ebind (get_item body ''electionId'') (\<lambda>v. dec_bytes v None) = Inr election_id \<and>
        ebind (get_item body ''vk'') (\<lambda>v. dec_bytes v None) = Inr vk \<and>
        recovered_wallet app signature election_id vk = Inr recovered \<and>
        fromhex (drop 2 recovered) = Inr address)"

text \<open>The credential inside an answer, as the client reads it.\<close>

definition response_credential :: "response \<Rightarrow> AttestationCredential result" where
  "response_credential r =
     (case rs_json r of None \<Rightarrow> Inl TypeError | Some j \<Rightarrow> ebind (get_item j ''attestation'') dec_attestation)"

lemma authenticated_unique:
  "authenticated app body e v r a \<Longrightarrow> authenticated app body e' v' r' a' \<Longrightarrow> e' = e \<and> v' = v \<and> r' = r \<and> a' = a"
  by (auto simp: authenticated_def)

lemma refusal_status [simp]:
  "rs_status (elig_error e) \<noteq> 200" "rs_status (elig_refusal st) = st"
  by (simp_all add: elig_error_def elig_refusal_def)

lemma voter_weight_refusal: "voter_weight app al h = Inl st \<Longrightarrow> st = 403 \<or> st = 500"
  by (auto simp: voter_weight_def split: option.splits sum.splits)

text \<open>Every request is either refused with the counter untouched, or reaches the issuance.\<close>

lemma attest_cases:
  obtains (issue) eid vk rec a w where "authenticated app body eid vk rec a"
      "voter_weight app al (lower (drop 2 rec)) = Inr w" "attest S app body al d st = issue_to S app eid vk a w d st"
  | (refuse) r where "attest S app body al d st = (st, r)" "rs_status r \<noteq> 200"
      "\<And>eid vk rec a. authenticated app body eid vk rec a \<Longrightarrow> \<exists>s. voter_weight app al (lower (drop 2 rec)) = Inl s"
proof (cases "\<exists>eid vk rec a w. authenticated app body eid vk rec a \<and> voter_weight app al (lower (drop 2 rec)) = Inr w")
  case True
  then show ?thesis
    by (elim exE conjE) (rule issue, assumption+, auto simp: authenticated_def attest_def)
next
  case False
  have "\<exists>r. attest S app body al d st = (st, r) \<and> rs_status r \<noteq> 200"
    using False by (force simp: attest_def authenticated_def split: sum.splits dest: voter_weight_refusal)
  with False show ?thesis using refuse by (metis sum.exhaust)
qed

lemma issue_to_state:
  "issue_to S app eid vk a w d st = (st', r) \<Longrightarrow>
     st' = st \<or> (\<exists>n. ap_next_nonce app st eid (derive_pseudonym (ap_pseudonym_secret app) eid a) = Inr (n, st'))"
  by (auto simp: issue_to_def Let_def split: sum.splits prod.splits)

section \<open>The counter as an interface\<close>

text \<open>A sequence of requests to the service, with the answers.\<close>

type_synonym attest_request = "json \<times> json result option \<times> int"

fun attest_run :: "('a, 'b) suite \<Rightarrow> ('a, 's) eligibility_app \<Rightarrow> attest_request list \<Rightarrow> 's \<Rightarrow> 's \<times> response list" where
  "attest_run S app [] st = (st, [])"
| "attest_run S app ((body, al, d) # rqs) st =
     (let (st', r) = attest S app body al d st; (st'', rs) = attest_run S app rqs st' in (st'', r # rs))"

lemma attest_run_append:
  "attest_run S app (xs @ ys) st =
     (let (st', rs) = attest_run S app xs st; (st'', rs') = attest_run S app ys st' in (st'', rs @ rs'))"
  by (induction S app xs st rule: attest_run.induct) (auto simp: Let_def split: prod.splits)

lemma attest_run_length: "length (snd (attest_run S app rqs st)) = length rqs"
  by (induction S app rqs st rule: attest_run.induct) (auto simp: Let_def split: prod.splits)

text \<open>The run around one of its requests.\<close>

lemma attest_run_split:
  assumes "attest_run S app rqs st = (st', rs)" and "i < length rqs" and "rqs ! i = (body, al, d)"
  obtains s t where "attest_run S app (take i rqs) st = (s, take i rs)" "attest S app body al d s = (t, rs ! i)"
    "attest_run S app (drop (Suc i) rqs) t = (st', drop (Suc i) rs)"
proof -
  have "rqs = take i rqs @ (body, al, d) # drop (Suc i) rqs" using assms(2,3) id_take_nth_drop by metis
  then have run: "attest_run S app (take i rqs @ (body, al, d) # drop (Suc i) rqs) st = (st', rs)" using assms(1) by simp
  obtain s r1 where a: "attest_run S app (take i rqs) st = (s, r1)" by force
  obtain t r where b: "attest S app body al d s = (t, r)" by force
  obtain u r2 where c: "attest_run S app (drop (Suc i) rqs) t = (u, r2)" by force
  have l: "length r1 = i" using attest_run_length [of S app "take i rqs" st] a assms(2) by simp
  have "u = st'" "rs = r1 @ r # r2" using run by (auto simp: attest_run_append a b c)
  with l have "r1 = take i rs" "r = rs ! i" "r2 = drop (Suc i) rs" by (auto simp: nth_append)
  with a b c \<open>u = st'\<close> show thesis by (intro that) simp_all
qed

locale nonce_allocator =
  fixes alloc :: "'s \<Rightarrow> bytes \<Rightarrow> bytes \<Rightarrow> (int \<times> 's) result"
    and last_nonce :: "'s \<Rightarrow> bytes \<times> bytes \<Rightarrow> int"
    and fresh :: 's
  assumes fresh_last: "last_nonce fresh k = 0"
    and alloc_last: "alloc s e p = Inr (n, s') \<Longrightarrow>
      n = last_nonce s (e, p) + 1 \<and> last_nonce s' = (last_nonce s)((e, p) := n)"
begin

lemma attest_last_mono:
  assumes "ap_next_nonce app = alloc" and "attest S app body al d st = (st', r)"
  shows "last_nonce st k \<le> last_nonce st' k"
proof (cases rule: attest_cases [of app body al S d st])
  case (issue eid vk rec a w)
  then have "issue_to S app eid vk a w d st = (st', r)" using assms(2) by simp
  from issue_to_state [OF this] show ?thesis unfolding assms(1) by (auto dest!: alloc_last)
qed (use assms in auto)

lemma run_last_mono:
  assumes "ap_next_nonce app = alloc" and "attest_run S app rqs st = (st', rs)"
  shows "last_nonce st k \<le> last_nonce st' k"
  using assms(2)
proof (induction rqs arbitrary: st rs)
  case (Cons q rqs)
  obtain body al d where q: "q = (body, al, d)" by (metis prod_cases3)
  obtain t r where t: "attest S app body al d st = (t, r)" by force
  obtain rs2 where "attest_run S app rqs t = (st', rs2)" using Cons.prems by (auto simp: q t split: prod.splits)
  from Cons.IH [OF this] attest_last_mono [OF assms(1) t, of k] show ?case by simp
qed simp

lemma run_last_nonneg:
  assumes "ap_next_nonce app = alloc" and "attest_run S app rqs fresh = (st', rs)"
  shows "0 \<le> last_nonce st' k"
  using run_last_mono [OF assms, of k] fresh_last [of k] by simp

text \<open>The answer of an issuance.\<close>

lemma attest_granted:
  assumes C: "crypto_suite S" and init: "StubEligibilityService_init S elig_sk scheme fw = Inr (ap_service app)"
    and alloc: "ap_next_nonce app = alloc" and at: "attest S app body al d st = (st', r)" and ok: "rs_status r = 200"
  obtains eid vk rec a w att where "authenticated app body eid vk rec a" "voter_weight app al (lower (drop 2 rec)) = Inr w"
    "response_credential r = Inr att" "issues S (st_eligibility_key (ap_service app)) att"
    "att_election_id att = eid" "att_pseudonym att = derive_pseudonym (ap_pseudonym_secret app) eid a" "att_vk att = vk"
    "att_weight att = stub_weight (ap_service app) w" "att_nonce att = last_nonce st (eid, att_pseudonym att) + 1"
    "last_nonce st' (eid, att_pseudonym att) = att_nonce att"
    "\<exists>s. alloc st eid (att_pseudonym att) = Inr (att_nonce att, s)"
proof (cases rule: attest_cases [of app body al S d st])
  case (issue eid vk rec a w)
  let ?p = "derive_pseudonym (ap_pseudonym_secret app) eid a"
  let ?rq = "\<lambda>n. \<lparr>rq_election_id = eid, rq_pseudonym = ?p, rq_vk = vk, rq_weight = w, rq_nonce = n\<rparr>"
  obtain n att where n: "alloc st eid ?p = Inr (n, st')" and att: "stub_issue_attestation S (ap_service app) (?rq n) d = Inr att"
    and r: "r = \<lparr>rs_status = 200, rs_json = Some (JObj [(''attestation'', enc_attestation att), (''pseudonym'', enc_bytes ?p)])\<rparr>"
    using at ok issue(3) alloc by (auto simp: issue_to_def Let_def split: sum.splits prod.splits)
  note f = crypto_suite.stub_issues(2) [OF C init att]
  have "response_credential r = Inr att"
    using f attestation_codec.dec_enc [of att] by (simp add: response_credential_def r get_item_def issues_def)
  with f alloc_last [OF n] n show thesis using that [OF issue(1,2)] by auto
qed (use at ok in auto)

text \<open>Exactly the entitled requests are granted.\<close>

lemma attest_granted_iff:
  assumes C: "crypto_suite S" and init: "StubEligibilityService_init S elig_sk scheme fw = Inr (ap_service app)"
    and alloc: "ap_next_nonce app = alloc" and run: "attest_run S app rqs fresh = (st, rs)"
  shows "rs_status (snd (attest S app body al d st)) = 200 \<longleftrightarrow>
    (\<exists>eid vk rec a w. authenticated app body eid vk rec a \<and> voter_weight app al (lower (drop 2 rec)) = Inr w \<and>
       length eid = 32 \<and> length vk = 48 \<and> 1 \<le> stub_weight (ap_service app) w \<and>
       \<not> isl (alloc st eid (derive_pseudonym (ap_pseudonym_secret app) eid a)))" (is "?l \<longleftrightarrow> ?r")
proof
  assume ?l
  moreover obtain st' r where at: "attest S app body al d st = (st', r)" by force
  ultimately have ok: "rs_status r = 200" by simp
  obtain eid vk rec a w att s where g: "authenticated app body eid vk rec a" "voter_weight app al (lower (drop 2 rec)) = Inr w"
      "issues S (st_eligibility_key (ap_service app)) att" "att_election_id att = eid" "att_vk att = vk"
      "att_weight att = stub_weight (ap_service app) w"
      "alloc st eid (derive_pseudonym (ap_pseudonym_secret app) eid a) = Inr s"
    by (rule attest_granted [OF C init alloc at ok]) auto
  then have "length eid = 32" "length vk = 48" "1 \<le> stub_weight (ap_service app) w"
    by (auto simp: issues_def ok_attestation_def codec_sizes)
  with g show ?r by (intro exI conjI) (assumption | simp)+
next
  assume ?r
  then obtain eid vk rec a w n s where a: "authenticated app body eid vk rec a" "voter_weight app al (lower (drop 2 rec)) = Inr w"
    and g: "length eid = 32" "length vk = 48" "1 \<le> stub_weight (ap_service app) w"
    and n: "alloc st eid (derive_pseudonym (ap_pseudonym_secret app) eid a) = Inr (n, s)"
    by (auto simp: not_isl_iff)
  have "1 \<le> n" using alloc_last [OF n] run_last_nonneg [OF alloc run] by (simp add: add_increasing)
  with g have "\<exists>att. stub_issue_attestation S (ap_service app)
      \<lparr>rq_election_id = eid, rq_pseudonym = derive_pseudonym (ap_pseudonym_secret app) eid a, rq_vk = vk, rq_weight = w, rq_nonce = n\<rparr> d = Inr att"
    by (subst crypto_suite.stub_issues(1) [OF C init]) simp
  then have "rs_status (snd (issue_to S app eid vk a w d st)) = 200" by (auto simp: issue_to_def Let_def alloc n)
  moreover have "attest S app body al d st = issue_to S app eid vk a w d st"
  proof (cases rule: attest_cases [of app body al S d st])
    case (issue eid' vk' rec' a' w')
    then show ?thesis using a(2) authenticated_unique [OF a(1) issue(1)] by simp
  next
    case (refuse r)
    then show ?thesis using a by force
  qed
  ultimately show ?l by simp
qed

text \<open>A later credential of the same wallet has the same pseudonym and a higher nonce.\<close>

lemma revote_ordered:
  assumes C: "crypto_suite S" and init: "StubEligibilityService_init S elig_sk scheme fw = Inr (ap_service app)"
    and alloc: "ap_next_nonce app = alloc" and run: "attest_run S app rqs fresh = (st, rs)"
    and ij: "i < j" "j < length rqs" and ok: "rs_status (rs ! i) = 200" "rs_status (rs ! j) = 200"
    and auth: "authenticated app (fst (rqs ! i)) eid vk rec a" "authenticated app (fst (rqs ! j)) eid vk' rec' a"
    and cred: "response_credential (rs ! i) = Inr old" "response_credential (rs ! j) = Inr new"
  shows "att_pseudonym old = att_pseudonym new \<and> att_nonce old < att_nonce new"
proof -
  obtain b1 l1 d1 b2 l2 d2 where q: "rqs ! i = (b1, l1, d1)" "rqs ! j = (b2, l2, d2)" by (metis prod_cases3)
  obtain s2 t2 where j: "attest_run S app (take j rqs) fresh = (s2, take j rs)" "attest S app b2 l2 d2 s2 = (t2, rs ! j)"
    by (rule attest_run_split [OF run ij(2) q(2)])
  have "take j rqs ! i = (b1, l1, d1)" "i < length (take j rqs)" using ij q(1) by simp_all
  from attest_run_split [OF j(1) this(2,1)] ij
  obtain s1 t1 where i: "attest S app b1 l1 d1 s1 = (t1, rs ! i)" "attest_run S app (drop (Suc i) (take j rqs)) t1 = (s2, drop (Suc i) (take j rs))"
    by (metis nth_take)
  obtain e1 v1 r1 a1 where o: "authenticated app b1 e1 v1 r1 a1" "att_pseudonym old = derive_pseudonym (ap_pseudonym_secret app) e1 a1"
    "last_nonce t1 (e1, att_pseudonym old) = att_nonce old"
    by (rule attest_granted [OF C init alloc i(1) ok(1)]) (use cred(1) in auto)
  obtain e2 v2 r2 a2 where n: "authenticated app b2 e2 v2 r2 a2" "att_pseudonym new = derive_pseudonym (ap_pseudonym_secret app) e2 a2"
    "att_nonce new = last_nonce s2 (e2, att_pseudonym new) + 1"
    by (rule attest_granted [OF C init alloc j(2) ok(2)]) (use cred(2) in auto)
  have "e1 = eid" "a1 = a" "e2 = eid" "a2 = a"
    using authenticated_unique [OF o(1)] authenticated_unique [OF n(1)] auth q by auto
  with o n run_last_mono [OF alloc i(2), of "(eid, att_pseudonym old)"] show ?thesis by simp
qed

end

definition table_last :: "nonce_table \<Rightarrow> bytes \<times> bytes \<Rightarrow> int" where
  "table_last db k = (case db (tohex (fst k), tohex (snd k)) of Some v \<Rightarrow> v | None \<Rightarrow> 0)"

definition counts_last :: "nonce_counts \<Rightarrow> bytes \<times> bytes \<Rightarrow> int" where
  "counts_last counts k = (case counts k of Some v \<Rightarrow> v | None \<Rightarrow> 0)"

interpretation sqlite: nonce_allocator sqlite_next table_last SqliteNonceStore_init
proof unfold_locales
  show "table_last SqliteNonceStore_init k = 0" for k by (simp add: table_last_def SqliteNonceStore_init_def)
  show "n = table_last s (e, p) + 1 \<and> table_last s' = (table_last s)((e, p) := n)"
    if "sqlite_next s e p = Inr (n, s')" for s e p n s'
  proof -
    have n: "n = table_last s (e, p) + 1" and s': "s' = s((tohex e, tohex p) \<mapsto> n)"
      using that by (auto simp: sqlite_next_def table_last_def Let_def split: if_splits)
    show ?thesis using n by (auto simp: s' table_last_def fun_eq_iff)
  qed
qed

interpretation in_memory: nonce_allocator in_memory_alloc counts_last Map.empty
proof unfold_locales
  show "counts_last Map.empty k = 0" for k by (simp add: counts_last_def)
  show "n = counts_last s (e, p) + 1 \<and> counts_last s' = (counts_last s)((e, p) := n)"
    if "in_memory_alloc s e p = Inr (n, s')" for s e p n s'
  proof -
    have n: "n = counts_last s (e, p) + 1" and s': "s' = s((e, p) \<mapsto> n)"
      using that by (auto simp: in_memory_alloc_def counts_last_def Let_def)
    show ?thesis using n by (auto simp: s' counts_last_def fun_eq_iff)
  qed
qed

section \<open>The two counters agree\<close>

text \<open>The same application over another counter.\<close>

definition with_counter ::
    "('a, 's) eligibility_app \<Rightarrow> ('t \<Rightarrow> bytes \<Rightarrow> bytes \<Rightarrow> (int \<times> 't) result) \<Rightarrow> ('a, 't) eligibility_app" where
  "with_counter app alloc = \<lparr>ap_service = ap_service app, ap_pseudonym_secret = ap_pseudonym_secret app, ap_weight = ap_weight app,
     ap_recover = ap_recover app, ap_next_nonce = alloc\<rparr>"

definition counters_agree :: "int \<Rightarrow> nonce_table \<Rightarrow> nonce_counts \<Rightarrow> bool" where
  "counters_agree n db counts \<longleftrightarrow>
     (\<forall>e p. db (tohex e, tohex p) = counts (e, p)) \<and> (\<forall>k v. counts k = Some v \<longrightarrow> v \<le> n) \<and> 0 \<le> n"

lemma next_agree:
  assumes "counters_agree n db counts" and "n + 1 < 2 ^ 63"
  shows "\<exists>m db' counts'. sqlite_next db e p = Inr (m, db') \<and> in_memory_alloc counts e p = Inr (m, counts') \<and>
    counters_agree (n + 1) db' counts'"
proof -
  let ?m = "(case counts (e, p) of Some v \<Rightarrow> v | None \<Rightarrow> 0) + 1"
  have "?m \<le> n + 1" using assms(1) by (auto simp: counters_agree_def split: option.split)
  with assms show ?thesis
    by (auto simp: sqlite_next_def in_memory_alloc_def counters_agree_def Let_def intro: order_trans) force+
qed

lemma with_counter_gates [simp]:
  "recovered_wallet (with_counter app f) = recovered_wallet app" "voter_weight (with_counter app f) = voter_weight app"
  by (simp_all add: with_counter_def fun_eq_iff recovered_wallet_def voter_weight_def split: option.split)

lemma issue_agree:
  assumes "counters_agree n db counts" and "n + 1 < 2 ^ 63"
  shows "\<exists>db' counts' r. issue_to S (with_counter app sqlite_next) e v a w d db = (db', r) \<and>
    issue_to S (with_counter app in_memory_alloc) e v a w d counts = (counts', r) \<and> counters_agree (n + 1) db' counts'"
proof -
  obtain m db' counts' where "sqlite_next db e (derive_pseudonym (ap_pseudonym_secret app) e a) = Inr (m, db')"
    "in_memory_alloc counts e (derive_pseudonym (ap_pseudonym_secret app) e a) = Inr (m, counts')" "counters_agree (n + 1) db' counts'"
    using next_agree [OF assms] by blast
  then show ?thesis by (simp add: issue_to_def with_counter_def Let_def split: sum.split)
qed

lemma counters_agree_mono: "counters_agree n db counts \<Longrightarrow> n \<le> m \<Longrightarrow> counters_agree m db counts"
  by (force simp: counters_agree_def)

lemma attest_agree:
  assumes "counters_agree n db counts" and "n + 1 < 2 ^ 63"
  shows "\<exists>db' counts' r. attest S (with_counter app sqlite_next) body al d db = (db', r) \<and>
    attest S (with_counter app in_memory_alloc) body al d counts = (counts', r) \<and> counters_agree (n + 1) db' counts'"
  unfolding attest_def with_counter_gates
  using issue_agree [OF assms] counters_agree_mono [OF assms(1), of "n + 1"]
  by (auto split: sum.split prod.split if_split)

lemma attest_run_agree:
  assumes "counters_agree n db counts" and "n + int (length rqs) < 2 ^ 63"
  shows "snd (attest_run S (with_counter app sqlite_next) rqs db) = snd (attest_run S (with_counter app in_memory_alloc) rqs counts)"
  using assms
proof (induction rqs arbitrary: n db counts)
  case (Cons q rqs)
  obtain body al d where q: "q = (body, al, d)" by (metis prod_cases3)
  obtain db' counts' r where s: "attest S (with_counter app sqlite_next) body al d db = (db', r)"
    "attest S (with_counter app in_memory_alloc) body al d counts = (counts', r)" "counters_agree (n + 1) db' counts'"
    using attest_agree [OF Cons.prems(1)] Cons.prems(2) by fastforce
  then show ?case using Cons.IH [OF s(3)] Cons.prems(2) by (auto simp: q s(1,2) split: prod.split)
qed simp

section \<open>The wallet issuer issues once\<close>

type_synonym wallet_request = "bytes \<times> bytes \<times> bytes \<times> int"

text \<open>A sequence of requests; one that raises leaves the service as it was.\<close>

fun wallet_run :: "('a, 'b) suite \<Rightarrow> (typed_data \<Rightarrow> bytes \<Rightarrow> string result) \<Rightarrow> wallet_request list \<Rightarrow>
    'a WalletEligibilityService \<Rightarrow> 'a WalletEligibilityService \<times> AttestationCredential result list" where
  "wallet_run S recover712 [] w = (w, [])"
| "wallet_run S recover712 ((e, v, sig, d) # rqs) w =
     (case issue_for_wallet S recover712 e v sig d w of
        Inl err \<Rightarrow> (let (w', rs) = wallet_run S recover712 rqs w in (w', Inl err # rs))
      | Inr (att, w1) \<Rightarrow> (let (w', rs) = wallet_run S recover712 rqs w1 in (w', Inr att # rs)))"

text \<open>Everything but the set of issued pairs is fixed.\<close>

definition same_service :: "'a WalletEligibilityService \<Rightarrow> 'a WalletEligibilityService \<Rightarrow> bool" where
  "same_service w w' \<longleftrightarrow> w' = w\<lparr>we_issued := we_issued w'\<rparr>"

lemma same_service_fields:
  "same_service w w' \<Longrightarrow> recover_address rec w' = recover_address rec w \<and> we_voting_power w' = we_voting_power w \<and>
     we_eligibility_key w' = we_eligibility_key w \<and> we_prevent_reissue w' = we_prevent_reissue w \<and>
     we_sk w' = we_sk w \<and> we_vk w' = we_vk w"
  by (cases w; cases w') (auto simp: same_service_def recover_address_def typed_data_of_def fun_eq_iff)

definition wallet_keyed :: "('a, 'b) suite \<Rightarrow> 'a WalletEligibilityService \<Rightarrow> bool" where
  "wallet_keyed S w \<longleftrightarrow> we_sk w mod CURVE_ORDER \<noteq> 0 \<and> we_vk w = mul (g1 S) (ggen (g1 S)) (we_sk w) \<and>
     we_eligibility_key w = gcompress (g1 S) (we_vk w)"

lemma issue_for_wallet_step:
  assumes C: "crypto_suite S" and key: "wallet_keyed S w" and i: "issue_for_wallet S rec e v sig d w = Inr (att, w')"
  obtains a vp where "recover_address rec w e v sig = Inr a" "we_voting_power w a = Inr vp" "0 < vp"
    "issues S (we_eligibility_key w) att" "att_election_id att = e" "att_vk att = v" "att_weight att = vp"
    "att_nonce att = 1" "att_pseudonym att = pseudonym_for S a e"
    "we_prevent_reissue w \<longrightarrow> (e, a) \<notin> set (we_issued w)" "w' = w\<lparr>we_issued := List.insert (e, a) (we_issued w)\<rparr>"
proof -
  let ?p = "\<lambda>a. pseudonym_for S a e"
  obtain a vp sg where g: "length e = 32" "length v = 48" "recover_address rec w e v sig = Inr a" "we_voting_power w a = Inr vp"
    "\<not> vp \<le> 0" "\<not> (we_prevent_reissue w \<and> (e, a) \<in> set (we_issued w))"
    and sg: "sign_attestation S (we_sk w) (we_vk w) e (?p a) v vp 1 None d = Inr sg"
    and out: "att = \<lparr>att_election_id = e, att_pseudonym = ?p a, att_vk = v, att_weight = vp, att_signature = sg,
        att_scheme = ATTESTATION_V1, att_nonce = 1\<rparr>" "w' = w\<lparr>we_issued := List.insert (e, a) (we_issued w)\<rparr>"
    using i by (auto simp: issue_for_wallet_def Let_def split: if_splits)
  have p: "length (?p a) = 32" using crypto_suite.keccak_length [OF C] by (simp add: pseudonym_for_def)
  have "issues S (we_eligibility_key w) att"
    using crypto_suite.signed_credential [OF C, of "we_sk w" "we_eligibility_key w" e "?p a" v vp 1 None d] key g p sg
    by (auto simp: wallet_keyed_def out(1))
  with g out show thesis by (intro that) auto
qed

lemma wallet_run_issued:
  assumes C: "crypto_suite S" and run: "wallet_run S rec rqs w = (w', rs)" and key: "wallet_keyed S w" and pr: "we_prevent_reissue w"
    and i: "i < length rqs" "rqs ! i = (e, v, sig, d)" "rs ! i = Inr att"
  shows "\<exists>a vp. recover_address rec w e v sig = Inr a \<and> we_voting_power w a = Inr vp \<and> 0 < vp \<and>
    issues S (we_eligibility_key w) att \<and> att_election_id att = e \<and> att_vk att = v \<and> att_weight att = vp \<and>
    att_nonce att = 1 \<and> att_pseudonym att = pseudonym_for S a e \<and> (e, a) \<notin> set (we_issued w) \<and>
    (\<forall>j e' v' sig' d' att'. j < i \<longrightarrow> rqs ! j = (e', v', sig', d') \<longrightarrow> rs ! j = Inr att' \<longrightarrow>
       e' = e \<longrightarrow> recover_address rec w e' v' sig' \<noteq> Inr a)"
  using run key pr i
proof (induction rqs arbitrary: w rs i)
  case (Cons q rqs)
  obtain e0 v0 s0 d0 where q: "q = (e0, v0, s0, d0)" by (metis prod_cases4)
  show ?case
  proof (cases "issue_for_wallet S rec e0 v0 s0 d0 w")
    case (Inl err)
    then obtain rs2 where r: "wallet_run S rec rqs w = (w', rs2)" "rs = Inl err # rs2"
      using Cons.prems(1) by (auto simp: q split: prod.splits)
    obtain k where k: "i = Suc k" using Cons.prems r(2) by (cases i) auto
    from Cons.IH [OF r(1) Cons.prems(2,3), of k] Cons.prems(4-6) show ?thesis
      by (auto simp: k r(2) nth_Cons split: nat.splits)
  next
    case (Inr out)
    obtain a0 w1 where out: "out = (a0, w1)" by (cases out)
    obtain rs2 where r: "wallet_run S rec rqs w1 = (w', rs2)" "rs = Inr a0 # rs2"
      using Cons.prems(1) Inr by (auto simp: q out split: prod.splits)
    obtain a1 vp where st: "recover_address rec w e0 v0 s0 = Inr a1" "we_voting_power w a1 = Inr vp" "0 < vp"
      "issues S (we_eligibility_key w) a0" "att_election_id a0 = e0" "att_vk a0 = v0" "att_weight a0 = vp"
      "att_nonce a0 = 1" "att_pseudonym a0 = pseudonym_for S a1 e0" "(e0, a1) \<notin> set (we_issued w)"
      "w1 = w\<lparr>we_issued := List.insert (e0, a1) (we_issued w)\<rparr>"
      by (rule issue_for_wallet_step [OF C Cons.prems(2) Inr [unfolded out]]) (use Cons.prems(3) in blast)
    show ?thesis
    proof (cases i)
      case 0
      then show ?thesis using st Cons.prems(4-6) by (auto simp: q r(2))
    next
      case (Suc k)
      have same: "same_service w w1" by (simp add: same_service_def st(11))
      note f = same_service_fields [OF same]
      have k: "wallet_keyed S w1" "we_prevent_reissue w1" using Cons.prems(2,3) f by (simp_all add: wallet_keyed_def)
      have "k < length rqs" "rqs ! k = (e, v, sig, d)" "rs2 ! k = Inr att" using Cons.prems(4-6) by (auto simp: Suc r(2))
      from Cons.IH [OF r(1) k this] obtain a vp where a: "recover_address rec w e v sig = Inr a" "we_voting_power w a = Inr vp" "0 < vp"
        "issues S (we_eligibility_key w) att" "att_election_id att = e" "att_vk att = v" "att_weight att = vp"
        "att_nonce att = 1" "att_pseudonym att = pseudonym_for S a e" "(e, a) \<notin> set (we_issued w1)"
        "\<forall>j e' v' sig' d' att'. j < k \<longrightarrow> rqs ! j = (e', v', sig', d') \<longrightarrow> rs2 ! j = Inr att' \<longrightarrow>
           e' = e \<longrightarrow> recover_address rec w e' v' sig' \<noteq> Inr a"
        using f by metis
      have n: "(e, a) \<notin> set (we_issued w)" "e0 = e \<longrightarrow> a1 \<noteq> a" using a(10) by (auto simp: st(11))
      have "\<forall>j e' v' sig' d' att'. j < i \<longrightarrow> (q # rqs) ! j = (e', v', sig', d') \<longrightarrow> rs ! j = Inr att' \<longrightarrow>
           e' = e \<longrightarrow> recover_address rec w e' v' sig' \<noteq> Inr a"
        using a(11) n(2) st(1) by (auto simp: Suc q r(2) nth_Cons split: nat.splits)
      with a n show ?thesis by blast
    qed
  qed
qed simp

lemma wallet_init_keyed:
  assumes "crypto_suite S" and "WalletEligibilityService_init S elig_sk vpow chain name version contract prevent = Inr w"
  shows "wallet_keyed S w \<and> we_prevent_reissue w = prevent \<and> we_voting_power w = vpow \<and> we_issued w = []"
  using assms(2) crypto_suite.keygen_service [OF assms(1)]
  by (auto simp: WalletEligibilityService_init_def wallet_keyed_def dvd_eq_mod_eq_0)

section \<open>Properties\<close>

text \<open>
  C14: the attestation service issues exactly to the entitled. After any sequence of requests to a
  service over the SQLite counter, a request is answered with 200 exactly when it carries a wallet
  signature over the challenge for its own election id and voter key, the policy gives the wallet a
  weight, the fields have their lengths, the weight is at least 1 and the counter is below \<open>2 ^ 63\<close>;
  the credential in the answer decodes, verifies under the key of the service for that election, and
  binds that voter key, the pseudonym of that wallet, that weight and the next number of its counter.
\<close>

theorem attest_exact:
  assumes "crypto_suite S" and "StubEligibilityService_init S elig_sk scheme fw = Inr (ap_service app)"
    and "ap_next_nonce app = sqlite_next" and "attest_run S app rqs SqliteNonceStore_init = (db, rs)"
    and "attest S app body al d db = (db', r)"
  shows "(rs_status r = 200 \<longleftrightarrow>
      (\<exists>eid vk rec a w. authenticated app body eid vk rec a \<and> voter_weight app al (lower (drop 2 rec)) = Inr w \<and>
         length eid = 32 \<and> length vk = 48 \<and> 1 \<le> stub_weight (ap_service app) w \<and>
         table_last db (eid, derive_pseudonym (ap_pseudonym_secret app) eid a) + 1 < 2 ^ 63)) \<and>
    (rs_status r = 200 \<longrightarrow>
      (\<exists>eid vk rec a w att. authenticated app body eid vk rec a \<and> voter_weight app al (lower (drop 2 rec)) = Inr w \<and>
         response_credential r = Inr att \<and> verify_attestation S (st_eligibility_key (ap_service app)) att eid \<and>
         att_vk att = vk \<and> att_pseudonym att = derive_pseudonym (ap_pseudonym_secret app) eid a \<and>
         att_weight att = stub_weight (ap_service app) w \<and>
         att_nonce att = table_last db (eid, att_pseudonym att) + 1 \<and> table_last db' (eid, att_pseudonym att) = att_nonce att))"
    (is "?iff \<and> (?ok \<longrightarrow> ?cred)")
proof
  have alloc: "\<not> isl (sqlite_next db e p) \<longleftrightarrow> table_last db (e, p) + 1 < 2 ^ 63" for e p
    by (simp add: sqlite_next_def table_last_def Let_def)
  show ?iff using sqlite.attest_granted_iff [OF assms(1-4), of body al d] unfolding alloc by (simp add: assms(5))
  show "?ok \<longrightarrow> ?cred"
  proof
    assume ok: ?ok
    show ?cred
      by (rule sqlite.attest_granted [OF assms(1-3,5) ok], intro exI conjI, assumption+) (auto simp: issues_def)
  qed
qed

text \<open>
  C15: a re-vote is decided by the configured policy. When the service has issued a credential to a
  wallet and later another one for the same election, both carry one pseudonym and the later one the
  higher nonce. Under last-wins a valid ballot with the later credential keeps every ballot with the
  earlier one out of the tally, and the pseudonym is counted with a ballot at least as recent as it;
  under first-wins a valid ballot with the earlier credential keeps every ballot with the later one
  out, and the pseudonym is counted with a ballot at least as early. Neither depends on the order in
  which the two ballots were stored.
\<close>

theorem revote_counts:
  assumes "crypto_suite S" and "StubEligibilityService_init S elig_sk scheme fw = Inr (ap_service app)"
    and "ap_next_nonce app = sqlite_next" and "attest_run S app rqs SqliteNonceStore_init = (db, rs)"
    and "i < j" "j < length rqs" and "rs_status (rs ! i) = 200" "rs_status (rs ! j) = 200"
    and "authenticated app (fst (rqs ! i)) eid vk rec a" "authenticated app (fst (rqs ! j)) eid vk' rec' a"
    and "response_credential (rs ! i) = Inr old" "response_credential (rs ! j) = Inr new"
    and adm: "admit S bs config mpkb = Inr adm" "g2_from_compressed S mpkb = Inr mpk" "distinct (map sb_sequence_number bs)"
    and old: "old_sb \<in> set bs" "be_attestation (sb_envelope old_sb) = old"
    and new: "new_sb \<in> set bs" "be_attestation (sb_envelope new_sb) = new"
  shows "att_pseudonym old = att_pseudonym new \<and> att_nonce old < att_nonce new \<and>
    (cfg_duplicate_policy config = LAST_WINS \<and> validate_ballot S new_sb config mpk = Inr None \<longrightarrow>
       admitted_of old_sb \<notin> set (ar_admitted adm) \<and>
       (\<exists>ab \<in> set (ar_admitted adm). be_pseudonym (ab_envelope ab) = att_pseudonym new \<and> att_nonce new \<le> att_nonce (be_attestation (ab_envelope ab)))) \<and>
    (cfg_duplicate_policy config = FIRST_WINS \<and> validate_ballot S old_sb config mpk = Inr None \<longrightarrow>
       admitted_of new_sb \<notin> set (ar_admitted adm) \<and>
       (\<exists>ab \<in> set (ar_admitted adm). be_pseudonym (ab_envelope ab) = att_pseudonym old \<and> att_nonce (be_attestation (ab_envelope ab)) \<le> att_nonce old))"
proof -
  note o = sqlite.revote_ordered [OF assms(1-12)]
  have p: "validate_ballot S sb config mpk = Inr None \<Longrightarrow> pseud sb = att_pseudonym (be_attestation (sb_envelope sb))" for sb
    using validate_accepts_stages [of S sb config mpk] by (simp add: pseud_def)
  have b: "beats LAST_WINS (rank new_sb) (rank old_sb)" "beats FIRST_WINS (rank old_sb) (rank new_sb)"
    using o old(2) new(2) by (simp_all add: beats_def pair_less_def rank_def)
  have r: "ab_envelope (admitted_of sb) = sb_envelope sb" for sb by (simp add: admitted_of_def)
  show ?thesis
  proof (intro conjI impI; (elim conjE)?)
    assume c: "cfg_duplicate_policy config = LAST_WINS" "validate_ballot S new_sb config mpk = Inr None"
    show "admitted_of old_sb \<notin> set (ar_admitted adm)" by (rule beaten_not_admitted [OF adm new(1) c(2) old(1)]) (simp_all add: p b c o old new)
    from pseudonym_counted [OF adm new(1) c(2)] c(1)
    show "\<exists>ab \<in> set (ar_admitted adm). be_pseudonym (ab_envelope ab) = att_pseudonym new \<and> att_nonce new \<le> att_nonce (be_attestation (ab_envelope ab))"
      by (force simp: r p [OF c(2)] new(2) pseud_def [symmetric] beats_def pair_less_def rank_def)
  next
    assume c: "cfg_duplicate_policy config = FIRST_WINS" "validate_ballot S old_sb config mpk = Inr None"
    show "admitted_of new_sb \<notin> set (ar_admitted adm)" by (rule beaten_not_admitted [OF adm old(1) c(2) new(1)]) (simp_all add: p b c o old new)
    from pseudonym_counted [OF adm old(1) c(2)] c(1)
    show "\<exists>ab \<in> set (ar_admitted adm). be_pseudonym (ab_envelope ab) = att_pseudonym old \<and> att_nonce (be_attestation (ab_envelope ab)) \<le> att_nonce old"
      by (force simp: r p [OF c(2)] old(2) pseud_def [symmetric] beats_def pair_less_def rank_def)
  qed (use o in simp_all)
qed

text \<open>
  The durable and the in-memory counter are interchangeable. Over every sequence of fewer than
  \<open>2 ^ 63\<close> requests a service that starts with the SQLite store and one that starts with the in-memory
  counter give the same answers.
\<close>

theorem nonce_stores_agree:
  assumes "int (length rqs) < 2 ^ 63"
  shows "snd (attest_run S (with_counter app sqlite_next) rqs SqliteNonceStore_init) =
    snd (attest_run S (with_counter app in_memory_alloc) rqs Map.empty)"
  using assms by (intro attest_run_agree [of 0]) (simp_all add: counters_agree_def SqliteNonceStore_init_def)

text \<open>
  The wallet issuer issues once per wallet and election. In every sequence of requests to a
  service that prevents re-issuance, a credential is issued only to the address that signed the
  typed-data challenge for its election and voter key, has positive voting power, verifies under the
  key of the service with that power as weight and nonce 1, and no earlier request of the sequence
  was granted for the same election and address.
\<close>

theorem wallet_issues_once:
  assumes "crypto_suite S" and "WalletEligibilityService_init S elig_sk vpow chain name version contract True = Inr w"
    and "wallet_run S recover712 rqs w = (w', rs)"
    and "i < length rqs" "rqs ! i = (e, v, sig, d)" "rs ! i = Inr att"
  shows "\<exists>a vp. recover_address recover712 w e v sig = Inr a \<and> vpow a = Inr vp \<and> 0 < vp \<and>
    verify_attestation S (we_eligibility_key w) att e \<and> att_vk att = v \<and> att_weight att = vp \<and> att_nonce att = 1 \<and>
    att_pseudonym att = pseudonym_for S a e \<and>
    (\<forall>j v' sig' d' att'. j < i \<longrightarrow> rqs ! j = (e, v', sig', d') \<longrightarrow> rs ! j = Inr att' \<longrightarrow>
       recover_address recover712 w e v' sig' \<noteq> Inr a)"
proof -
  note k = wallet_init_keyed [OF assms(1,2)]
  from wallet_run_issued [OF assms(1,3) _ _ assms(4-6)] k show ?thesis by (fastforce simp: issues_def)
qed

section \<open>Witnesses\<close>

text \<open>A service with key 5, a wallet that signs, and its request.\<close>

definition sample_address :: string where
  "sample_address = ''0x'' @ replicate 40 (CHR ''1'')"

definition sample_app :: "(int, nonce_table) eligibility_app" where
  "sample_app = \<lparr>ap_service = \<lparr>st_sk = 5, st_vk = mul (g1 zq_suite) (ggen (g1 zq_suite)) 5,
       st_eligibility_key = gcompress (g1 zq_suite) (mul (g1 zq_suite) (ggen (g1 zq_suite)) 5), st_scheme = ATTESTATION_V1, st_fixed_weight = None\<rparr>,
     ap_pseudonym_secret = [9], ap_weight = 7,
     ap_recover = (\<lambda>text sig. if sig = [1] then Inr sample_address else Inl ValueError), ap_next_nonce = sqlite_next\<rparr>"

definition sample_vk :: bytes where
  "sample_vk = gcompress (g1 zq_suite) (mul (g1 zq_suite) (ggen (g1 zq_suite)) 5)"

definition sample_body :: json where
  "sample_body = JObj [(''signature'', JStr ''0x01''), (''electionId'', enc_bytes (replicate 32 1)), (''vk'', enc_bytes sample_vk)]"

abbreviation sample_ps :: bytes where
  "sample_ps \<equiv> derive_pseudonym [9] (replicate 32 1) (replicate 20 0x11)"

lemma sample_service: "StubEligibilityService_init zq_suite 5 ATTESTATION_V1 None = Inr (ap_service sample_app)"
  by (simp add: StubEligibilityService_init_def keygen_def sample_app_def zq.g1_codec CURVE_ORDER_def Let_def)

lemma sample_authenticated: "authenticated sample_app sample_body (replicate 32 1) sample_vk sample_address (replicate 20 0x11)"
proof -
  have "dec_bytes (JStr ''0x01'') None = Inr [1]" by code_simp
  moreover have "fromhex (replicate 40 (CHR ''1'')) = Inr (replicate 20 0x11)" by code_simp
  ultimately show ?thesis
    by (auto simp: authenticated_def sample_body_def get_opt_def get_item_def recovered_wallet_def sample_app_def sample_address_def)
qed

lemma sample_attest:
  assumes "table_last db (replicate 32 1, sample_ps) = n - 1" and "1 \<le> n" "n < 2 ^ 63"
  obtains r att sb db' where "attest zq_suite sample_app sample_body None 8 db = (db', r)" "rs_status r = 200"
    "response_credential r = Inr att" "table_last db' (replicate 32 1, sample_ps) = n"
    "sb_sequence_number sb = n" "be_attestation (sb_envelope sb) = att" "validate_ballot zq_suite sb sample_config 9 = Inr None"
proof -
  have "\<exists>sig att b. sign_attestation zq_suite 5 (gx (g1 zq_suite) 5) (cfg_election_id sample_config) sample_ps
      (gcompress (g1 zq_suite) (gx (g1 zq_suite) 5)) 7 n None 8 = Inr sig \<and>
    att = \<lparr>att_election_id = cfg_election_id sample_config, att_pseudonym = sample_ps, att_vk = gcompress (g1 zq_suite) (gx (g1 zq_suite) 5),
      att_weight = 7, att_signature = sig, att_scheme = ATTESTATION_V1, att_nonce = n\<rparr> \<and>
    build_ballot zq_suite 9 (cfg_election_id sample_config) sample_ps 5 (gx (g1 zq_suite) 5) att [1, 2] (cfg_num_candidates sample_config)
      (cfg_budget sample_config) sample_randomness = Inr b \<and>
    validate_ballot zq_suite \<lparr>sb_sequence_number = n, sb_envelope = to_envelope b att, sb_submitted_at = None\<rparr> sample_config 9 = Inr None"
    by (rule zq.honest_ballot_valid [OF sample_config_ok])
      (use assms in \<open>simp_all add: sample_config_def zq_points sample_wf\<close>)
  then obtain sig att b where sig: "sign_attestation zq_suite 5 (gx (g1 zq_suite) 5) (replicate 32 1) sample_ps sample_vk 7 n None 8 = Inr sig"
    and att: "att = \<lparr>att_election_id = replicate 32 1, att_pseudonym = sample_ps, att_vk = sample_vk,
      att_weight = 7, att_signature = sig, att_scheme = ATTESTATION_V1, att_nonce = n\<rparr>"
    and sb: "validate_ballot zq_suite \<lparr>sb_sequence_number = n, sb_envelope = to_envelope b att, sb_submitted_at = None\<rparr> sample_config 9 = Inr None"
    by (auto simp: sample_config_def sample_vk_def)
  obtain db' r where at: "attest zq_suite sample_app sample_body None 8 db = (db', r)" by force
  have nx: "sqlite_next db (replicate 32 1) sample_ps = Inr (n, db((tohex (replicate 32 1), tohex sample_ps) \<mapsto> n))"
    using assms by (simp add: sqlite_next_def table_last_def Let_def)
  have "attest zq_suite sample_app sample_body None 8 db = issue_to zq_suite sample_app (replicate 32 1) sample_vk (replicate 20 0x11) 7 8 db"
    using sample_authenticated by (auto simp: authenticated_def attest_def voter_weight_def sample_app_def)
  also have "\<dots> = (db((tohex (replicate 32 1), tohex sample_ps) \<mapsto> n), \<lparr>rs_status = 200,
      rs_json = Some (JObj [(''attestation'', enc_attestation att), (''pseudonym'', enc_bytes sample_ps)])\<rparr>)"
    by (simp add: issue_to_def sample_app_def nx stub_issue_attestation_def sig att Let_def)
  finally have e: "r = \<lparr>rs_status = 200, rs_json = Some (JObj [(''attestation'', enc_attestation att), (''pseudonym'', enc_bytes sample_ps)])\<rparr>"
    "db' = db((tohex (replicate 32 1), tohex sample_ps) \<mapsto> n)" using at by auto
  have "verify_attestation zq_suite (cfg_eligibility_key sample_config) att (replicate 32 1)"
    using validate_accepts_stages(6) [OF sb] by (simp add: to_envelope_def sample_config_def)
  from verify_attestation_guard [OF this] have "ok_attestation att" by (simp add: ok_attestation_def codec_sizes)
  then have "response_credential r = Inr att"
    using attestation_codec.dec_enc [of att] by (simp add: response_credential_def e(1) get_item_def)
  with at e show thesis by (intro that [OF at _ _ _ _ _ sb]) (simp_all add: table_last_def to_envelope_def)
qed

lemma attest_exact_witness:
  "\<exists>db' r att. attest zq_suite sample_app sample_body None 8 SqliteNonceStore_init = (db', r) \<and> rs_status r = 200 \<and>
     response_credential r = Inr att \<and> att_weight att = 7 \<and> att_nonce att = 1"
proof -
  have t: "table_last SqliteNonceStore_init k = 0" for k by (rule sqlite.fresh_last)
  obtain r db' where r: "attest zq_suite sample_app sample_body None 8 SqliteNonceStore_init = (db', r)" "rs_status r = 200"
    by (rule sample_attest [of SqliteNonceStore_init 1]) (simp_all add: t)
  have n: "ap_next_nonce sample_app = sqlite_next" "attest_run zq_suite sample_app [] SqliteNonceStore_init = (SqliteNonceStore_init, [])"
    by (simp_all add: sample_app_def)
  from attest_exact [OF zq.crypto_suite_axioms sample_service n r(1)] r(2)
  obtain eid vk rec a w att where "voter_weight sample_app None (lower (drop 2 rec)) = Inr w" "response_credential r = Inr att"
    "att_weight att = stub_weight (ap_service sample_app) w" "att_nonce att = 1" by (auto simp: t)
  then show ?thesis using r by (auto simp: voter_weight_def stub_weight_def sample_app_def)
qed

lemma revote_counts_witness:
  "\<exists>old new adm. sb_sequence_number old = 1 \<and> sb_sequence_number new = 2 \<and> admit zq_suite [new, old] sample_config (be 96 9) = Inr adm \<and>
     validate_ballot zq_suite old sample_config 9 = Inr None \<and> admitted_of old \<notin> set (ar_admitted adm)"
proof -
  have t: "table_last SqliteNonceStore_init k = 0" for k by (rule sqlite.fresh_last)
  obtain r1 c1 old db1 where o: "attest zq_suite sample_app sample_body None 8 SqliteNonceStore_init = (db1, r1)" "rs_status r1 = 200"
    "response_credential r1 = Inr c1" "table_last db1 (replicate 32 1, sample_ps) = 1"
    "sb_sequence_number old = 1" "be_attestation (sb_envelope old) = c1" "validate_ballot zq_suite old sample_config 9 = Inr None"
    by (rule sample_attest [of SqliteNonceStore_init 1]) (simp_all add: t)
  obtain r2 c2 new db2 where n: "attest zq_suite sample_app sample_body None 8 db1 = (db2, r2)" "rs_status r2 = 200"
    "response_credential r2 = Inr c2" "sb_sequence_number new = 2" "be_attestation (sb_envelope new) = c2"
    "validate_ballot zq_suite new sample_config 9 = Inr None"
    by (rule sample_attest [of db1 2]) (simp_all add: o(4))
  let ?q = "(sample_body, None, 8) :: attest_request"
  have run: "attest_run zq_suite sample_app [?q, ?q] SqliteNonceStore_init = (db2, [r1, r2])" by (simp add: o(1) n(1))
  have d: "distinct (map sb_sequence_number [new, old])" using o(5) n(4) by simp
  have v: "\<forall>sb \<in> set [new, old]. \<not> isl (validate_ballot zq_suite sb sample_config 9)" using o(7) n(6) by simp
  obtain adm where adm: "admit zq_suite [new, old] sample_config (be 96 9) = Inr adm"
    using admit_spec [OF d zq_decompress v] by blast
  have "admitted_of old \<notin> set (ar_admitted adm)"
    using revote_counts [OF zq.crypto_suite_axioms sample_service _ run, where i = 0 and j = 1 and bs = "[new, old]"
        and old_sb = old and new_sb = new, OF _ _ _ _ _ _ _ _ _ adm zq_decompress d]
      sample_authenticated o n by (simp add: sample_app_def sample_config_def)
  then show ?thesis using o n adm by blast
qed

lemma nonce_stores_agree_witness:
  "snd (attest_run zq_suite (with_counter sample_app sqlite_next) [(sample_body, None, 8)] SqliteNonceStore_init) =
     snd (attest_run zq_suite (with_counter sample_app in_memory_alloc) [(sample_body, None, 8)] Map.empty)"
  using nonce_stores_agree [of "[(sample_body, None, 8)]" zq_suite sample_app] by simp

lemma wallet_issues_once_witness:
  "\<exists>w w' att. WalletEligibilityService_init zq_suite 5 (\<lambda>a. Inr 7) 1 [] [] None True = Inr w \<and>
     wallet_run zq_suite (\<lambda>td sig. Inr sample_address) [(replicate 32 1, sample_vk, [], 8), (replicate 32 1, sample_vk, [], 8)] w =
       (w', [Inr att, Inl EligibilityError]) \<and> att_weight att = 7"
proof -
  let ?rec = "\<lambda>td sig. Inr sample_address"
  define w where "w = \<lparr>we_sk = 5, we_vk = mul (g1 zq_suite) (ggen (g1 zq_suite)) 5, we_eligibility_key = sample_vk,
    we_voting_power = (\<lambda>a. Inr 7), we_chain_id = 1, we_domain_name = [], we_domain_version = [], we_verifying_contract = None,
    we_prevent_reissue = True, we_issued = []\<rparr>"
  have init: "WalletEligibilityService_init zq_suite 5 (\<lambda>a. Inr 7) 1 [] [] None True = Inr w"
    by (simp add: WalletEligibilityService_init_def keygen_def w_def zq.g1_codec CURVE_ORDER_def Let_def sample_vk_def)
  have "fromhex (replicate 40 (CHR ''1'')) = Inr (replicate 20 0x11)" by code_simp
  then have a: "recover_address ?rec u e v s = Inr (replicate 20 0x11)" for u :: "int WalletEligibilityService" and e v s
    by (simp add: recover_address_def sample_address_def)
  have len: "length sample_vk = 48" "length (pseudonym_for zq_suite b e) = 32" for b e
    by (simp_all add: sample_vk_def zq.g1_codec pseudonym_for_def zq.keccak_length)
  have k: "we_sk w mod CURVE_ORDER \<noteq> 0" by (simp add: w_def CURVE_ORDER_def)
  obtain sig where sig: "sign_attestation zq_suite 5 (mul (g1 zq_suite) (ggen (g1 zq_suite)) 5) (replicate 32 1)
      (pseudonym_for zq_suite (replicate 20 0x11) (replicate 32 1)) sample_vk 7 1 None 8 = Inr sig"
    using zq.sign_verify_attestation [of 5 "replicate 32 1" "pseudonym_for zq_suite (replicate 20 0x11) (replicate 32 1)" sample_vk 7 1 None 8]
      k len by (auto simp: w_def)
  obtain att w' where run: "wallet_run zq_suite ?rec [(replicate 32 1, sample_vk, [], 8), (replicate 32 1, sample_vk, [], 8)] w =
       (w', [Inr att, Inl EligibilityError])"
    using len sig by (auto simp: issue_for_wallet_def a w_def Let_def)
  have "att_weight att = 7"
    using wallet_issues_once [OF zq.crypto_suite_axioms init run, of 0 "replicate 32 1" sample_vk "[]" 8 att] by auto
  with init run show ?thesis by blast
qed

end
