(* ===== verification/Relay.thy ===== *)
theory Relay
  imports Keyper_Server Ceremony_Http
begin

text \<open>
  The keyper-write relay of \<^verbatim>\<open>services/coordinator/coordinator.py\<close>: the Flask application
  \<open>build_coordinator_app\<close> through which keypers write, and \<open>CoordinatorClient\<close>, the client a keyper
  server takes as its submitter. A request is its path, its \<open>Authorization\<close> header and the decoded JSON
  body. Shown: only the holder of the configured token changes anything, and a keyper that writes
  through the relay does what it does when it writes to the data layer itself.
\<close>

section \<open>The application\<close>

text \<open>\<open>_auth\<close>: \<open>None\<close> lets the request pass to its handler.\<close>

definition relay_auth :: "string option \<Rightarrow> string \<Rightarrow> string \<Rightarrow> int option" where
  "relay_auth api_token path header =
     (if path = ''/health'' then None
      else if api_token = None \<or> api_token = Some [] then Some 503
      else
        let presented = (if take 7 header = ''Bearer '' then drop 7 header else []) in
        if \<not> tokens_equal presented api_token then Some 401 else None)"

definition relay_dkg_result :: "'s ElectionDataLayer \<Rightarrow> json \<Rightarrow> 's \<Rightarrow> 's \<times> response" where
  "relay_dkg_result P body s = answer_write s (
     ebind (body_bytes body ''electionId'') (\<lambda>e. ebind (body_bytes body ''pkElection'') (\<lambda>pk.
     ebind (get_item body ''committeePKs'') (\<lambda>v. ebind (json_iter v) (\<lambda>ps.
     ebind (emap (\<lambda>p. dec_bytes p None) ps) (\<lambda>com.
     ebind (body_bytes body ''keyperSig'') (\<lambda>sig.
     ebind (dl_submit_dkg_result P e pk com sig s) (\<lambda>s'. Inr (s', no_content)))))))))"

definition relay_decryption_share :: "'s ElectionDataLayer \<Rightarrow> int \<Rightarrow> json \<Rightarrow> 's \<Rightarrow> 's \<times> response" where
  "relay_decryption_share P now body s = answer_write s (
     ebind (body_bytes body ''electionId'') (\<lambda>e.
     ebind (get_item body ''share'') (\<lambda>v. ebind (dec_decryption_share v) (\<lambda>sh.
     ebind (body_bytes body ''keyperSig'') (\<lambda>sig.
     ebind (dl_submit_decryption_share P now e sh sig s) (\<lambda>s'. Inr (s', no_content)))))))"

definition relay_aggregate :: "'s ElectionDataLayer \<Rightarrow> int \<Rightarrow> json \<Rightarrow> 's \<Rightarrow> 's \<times> response" where
  "relay_aggregate P now body s = answer_write s (
     ebind (body_bytes body ''electionId'') (\<lambda>e.
     ebind (get_item body ''aggregate'') (\<lambda>v. ebind (dec_aggregate v) (\<lambda>a.
     ebind (body_bytes body ''keyperSig'') (\<lambda>sig.
     ebind (dl_submit_aggregate P now e a sig s) (\<lambda>s'. Inr (s', no_content)))))))"

text \<open>
  A POST request to the application. The open page \<open>/health\<close> knows no POST; \<open>now\<close> is the clock of the
  data layer when the write arrives there.
\<close>

definition relay_serve ::
    "'s ElectionDataLayer \<Rightarrow> string option \<Rightarrow> int \<Rightarrow> string \<Rightarrow> string \<Rightarrow> json \<Rightarrow> 's \<Rightarrow> 's \<times> response" where
  "relay_serve P api_token now path header body s =
     (case relay_auth api_token path header of
        Some status \<Rightarrow> (s, \<lparr>rs_status = status, rs_json = None\<rparr>)
      | None \<Rightarrow>
          if path = ''/dkg-result'' then relay_dkg_result P body s
          else if path = ''/decryption-share'' then relay_decryption_share P now body s
          else if path = ''/aggregate'' then relay_aggregate P now body s
          else (s, \<lparr>rs_status = (if path = ''/health'' then 405 else 404), rs_json = None\<rparr>))"

section \<open>The client\<close>

text \<open>\<open>CoordinatorClient\<close> with the token it holds; \<open>raise_for_status\<close> raises an error with the status.\<close>

definition rc_post ::
    "'s ElectionDataLayer \<Rightarrow> string option \<Rightarrow> string \<Rightarrow> int \<Rightarrow> string \<Rightarrow> json \<Rightarrow> 's \<Rightarrow> 's result" where
  "rc_post P api_token token now path body s =
     (let (s', r) = relay_serve P api_token now path (''Bearer '' @ token) body s in
      ebind (check_status r) (\<lambda>_. Inr s'))"

definition rc_submit_dkg_result where
  "rc_submit_dkg_result P api_token token election_id pk_election committee_pks keyper_sig s =
     rc_post P api_token token 0 ''/dkg-result''
       (JObj [(''electionId'', enc_bytes election_id), (''pkElection'', enc_bytes pk_election),
              (''committeePKs'', JArr (map enc_bytes committee_pks)), (''keyperSig'', enc_bytes keyper_sig)]) s"

definition rc_submit_decryption_share where
  "rc_submit_decryption_share P api_token token now election_id share keyper_sig s =
     rc_post P api_token token now ''/decryption-share''
       (JObj [(''electionId'', enc_bytes election_id), (''share'', enc_decryption_share share), (''keyperSig'', enc_bytes keyper_sig)]) s"

definition rc_submit_aggregate where
  "rc_submit_aggregate P api_token token now election_id aggregate keyper_sig s =
     rc_post P api_token token now ''/aggregate''
       (JObj [(''electionId'', enc_bytes election_id), (''aggregate'', enc_aggregate aggregate), (''keyperSig'', enc_bytes keyper_sig)]) s"

text \<open>
  The submitter of a keyper server: the three writes go through the relay. A keyper calls nothing else
  on it; the other operations are those of the data layer.
\<close>

definition relay_submitter :: "string option \<Rightarrow> string \<Rightarrow> 's ElectionDataLayer \<Rightarrow> 's ElectionDataLayer" where
  "relay_submitter api_token token P =
     P\<lparr>dl_submit_dkg_result := rc_submit_dkg_result P api_token token,
       dl_submit_aggregate := rc_submit_aggregate P api_token token,
       dl_submit_decryption_share := rc_submit_decryption_share P api_token token\<rparr>"

section \<open>The contract of a submitter\<close>

text \<open>
  Two writes are the same to a keyper: both succeed with the same effect, or both fail and the keyper
  takes both failures for a benign race or both for a fault.
\<close>

definition same_write :: "'s result \<Rightarrow> 's result \<Rightarrow> bool" where
  "same_write m n \<longleftrightarrow>
     (case m of
        Inr s \<Rightarrow> n = Inr s
      | Inl d \<Rightarrow> (case n of Inl e \<Rightarrow> benign_write_conflict d = benign_write_conflict e | Inr _ \<Rightarrow> False))"

lemma same_write_Inr [simp]: "same_write (Inr s) n \<longleftrightarrow> n = Inr s"
  by (simp add: same_write_def)

lemma same_write_ebind: "(\<And>x. m = Inr x \<Longrightarrow> same_write (f x) (g x)) \<Longrightarrow> same_write (ebind m f) (ebind m g)"
  by (cases m) (auto simp: same_write_def)

lemma same_write_case:
  "same_write m n \<Longrightarrow> (case n of Inl _ \<Rightarrow> x | Inr s \<Rightarrow> f s) = (case m of Inl _ \<Rightarrow> x | Inr s \<Rightarrow> f s)"
  by (auto simp: same_write_def split: sum.splits)

locale keyper_submitter =
  fixes P Q :: "'s ElectionDataLayer"
  assumes dkg: "same_write (dl_submit_dkg_result P e pk com sig s) (dl_submit_dkg_result Q e pk com sig s)"
    and agg: "same_write (dl_submit_aggregate P now e a sig s) (dl_submit_aggregate Q now e a sig s)"
    and share: "same_write (dl_submit_decryption_share P now e sh sig s) (dl_submit_decryption_share Q now e sh sig s)"
begin

lemma written: "dl_submit_aggregate P now e a sig s = Inr t \<longleftrightarrow> dl_submit_aggregate Q now e a sig s = Inr t"
    "dl_submit_decryption_share P now e sh sig s = Inr t \<longleftrightarrow> dl_submit_decryption_share Q now e sh sig s = Inr t"
  using agg [of now e a sig s] share [of now e sh sig s] by (auto simp: same_write_def split: sum.splits)

lemma refused: "dl_submit_aggregate P now e a sig s = Inl d \<Longrightarrow> dl_submit_aggregate Q now e a sig s = Inl d' \<Longrightarrow>
      benign_write_conflict d \<longleftrightarrow> benign_write_conflict d'"
    "dl_submit_decryption_share P now e sh sig s = Inl d \<Longrightarrow> dl_submit_decryption_share Q now e sh sig s = Inl d' \<Longrightarrow>
      benign_write_conflict d \<longleftrightarrow> benign_write_conflict d'"
    "dl_submit_aggregate P now e a sig s = Inl d \<Longrightarrow> dl_submit_aggregate Q now e a sig s \<noteq> Inr t"
    "dl_submit_decryption_share P now e sh sig s = Inl d \<Longrightarrow> dl_submit_decryption_share Q now e sh sig s \<noteq> Inr t"
  using agg [of now e a sig s] share [of now e sh sig s] by (auto simp: same_write_def)

lemma aggregate_same: "run_aggregate S H R Q now now_dl idx eid sv s = run_aggregate S H R P now now_dl idx eid sv s"
  by (auto simp: run_aggregate_def Let_def written dest: refused split: sum.split)

lemma share_same:
  "sv_publish_decr_share S H R Q now now_dl rnd eid sv s = sv_publish_decr_share S H R P now now_dl rnd eid sv s"
  by (auto simp: sv_publish_decr_share_def Let_def written dest: refused split: sum.split option.split)

lemma publish_same: "sv_publish S H R Q eid sv s = sv_publish S H R P eid sv s"
  unfolding sv_publish_def Let_def
  by (simp cong: if_cong) (intro impI same_write_case same_write_ebind dkg)

end

text \<open>
  The deployed stack: the coordinator writes to the data-layer service with the HTTP client. A decoder
  that rejects an artifact rejects it at the relay already, with the status the service would have given.
\<close>

lemma check_status_answer:
  "check_status (snd (answer_write s (Inl e))) = Inl (HttpStatus (write_status e))"
  "check_status (snd (answer_write s (Inr (s', no_content)))) = Inr ()"
  by (auto simp: check_status_def answer_write_def write_status_def)

lemma benign_status: "benign_write_conflict (HttpStatus (write_status e)) \<longleftrightarrow> on_wire write_status (Inl e) = (Inl ImmutabilityError :: unit result)"
  by (auto simp: benign_write_conflict_def write_status_def on_wire_def raise_for_status_def)

lemma relay_auth_ok: "token \<noteq> [] \<Longrightarrow> relay_auth (Some token) path (''Bearer '' @ token) = None"
  by (simp add: relay_auth_def tokens_equal_def)

lemma posted:
  assumes "token \<noteq> []"
  shows "relay_dkg_result P body s = answer_write s (ebind m (\<lambda>s'. Inr (s', no_content))) \<Longrightarrow>
      rc_post P (Some token) token now ''/dkg-result'' body s = (case m of Inl e \<Rightarrow> Inl (HttpStatus (write_status e)) | Inr s' \<Rightarrow> Inr s')"
    "relay_decryption_share P now body s = answer_write s (ebind m (\<lambda>s'. Inr (s', no_content))) \<Longrightarrow>
      rc_post P (Some token) token now ''/decryption-share'' body s = (case m of Inl e \<Rightarrow> Inl (HttpStatus (write_status e)) | Inr s' \<Rightarrow> Inr s')"
    "relay_aggregate P now body s = answer_write s (ebind m (\<lambda>s'. Inr (s', no_content))) \<Longrightarrow>
      rc_post P (Some token) token now ''/aggregate'' body s = (case m of Inl e \<Rightarrow> Inl (HttpStatus (write_status e)) | Inr s' \<Rightarrow> Inr s')"
proof -
  have a: "(let (s', r) = answer_write s (ebind m (\<lambda>s'. Inr (s', no_content))) in ebind (check_status r) (\<lambda>_. Inr s')) =
     (case m of Inl e \<Rightarrow> Inl (HttpStatus (write_status e)) | Inr s' \<Rightarrow> Inr s')"
    using check_status_answer by (cases m) (simp_all add: answer_write_def)
  show "relay_dkg_result P body s = answer_write s (ebind m (\<lambda>s'. Inr (s', no_content))) \<Longrightarrow>
      rc_post P (Some token) token now ''/dkg-result'' body s = (case m of Inl e \<Rightarrow> Inl (HttpStatus (write_status e)) | Inr s' \<Rightarrow> Inr s')"
    using a by (simp add: rc_post_def relay_serve_def relay_auth_ok [OF assms, simplified])
  show "relay_decryption_share P now body s = answer_write s (ebind m (\<lambda>s'. Inr (s', no_content))) \<Longrightarrow>
      rc_post P (Some token) token now ''/decryption-share'' body s = (case m of Inl e \<Rightarrow> Inl (HttpStatus (write_status e)) | Inr s' \<Rightarrow> Inr s')"
    using a by (simp add: rc_post_def relay_serve_def relay_auth_ok [OF assms, simplified])
  show "relay_aggregate P now body s = answer_write s (ebind m (\<lambda>s'. Inr (s', no_content))) \<Longrightarrow>
      rc_post P (Some token) token now ''/aggregate'' body s = (case m of Inl e \<Rightarrow> Inl (HttpStatus (write_status e)) | Inr s' \<Rightarrow> Inr s')"
    using a by (simp add: rc_post_def relay_serve_def relay_auth_ok [OF assms, simplified])
qed

text \<open>What the keyper sees of a write that failed behind the relay with the error of the HTTP client.\<close>

lemma relayed_status:
  fixes m :: "'s result"
  shows "same_write (on_wire write_status m) (case on_wire write_status m of Inl e \<Rightarrow> Inl (HttpStatus (write_status e)) | Inr s' \<Rightarrow> Inr s')"
proof (cases m)
  case (Inl e)
  have "\<exists>e' \<in> {KeyError, WriteAuthorizationError, ImmutabilityError, VotingWindowError, ValueError}.
      on_wire write_status (Inl e :: 's result) = Inl e'"
    using statuses(2) [of e] by (simp add: on_wire_def raise_for_status_def)
  with Inl show ?thesis
    by (auto simp: same_write_def benign_write_conflict_def write_status_def is_value_error_def)
qed simp

lemma decoder_status: "same_write (on_wire write_status (Inl e)) (Inl (HttpStatus (write_status e)))"
  using statuses(2) [of e]
  by (auto simp: same_write_def on_wire_def raise_for_status_def benign_write_conflict_def)

lemma http_aggregate:
  "dl_submit_aggregate (http_port repr P) now e a sig s =
     on_wire write_status (ebind (dec_aggregate (enc_aggregate a)) (\<lambda>a'. dl_submit_aggregate P now e a' sig s))"
proof (cases "dec_aggregate (enc_aggregate a)")
  case (Inr a')
  then show ?thesis by (cases "dl_submit_aggregate P now e a' sig s") (simp_all add: http_write_simps)
qed (simp add: http_write_simps)

lemma http_share:
  "dl_submit_decryption_share (http_port repr P) now e sh sig s =
     on_wire write_status (ebind (dec_decryption_share (enc_decryption_share sh)) (\<lambda>sh'. dl_submit_decryption_share P now e sh' sig s))"
proof (cases "dec_decryption_share (enc_decryption_share sh)")
  case (Inr sh')
  then show ?thesis by (cases "dl_submit_decryption_share P now e sh' sig s") (simp_all add: http_write_simps)
qed (simp add: http_write_simps)

lemma http_dkg: "dl_submit_dkg_result (http_port repr P) e pk com sig s = on_wire write_status (dl_submit_dkg_result P e pk com sig s)"
  by (cases "dl_submit_dkg_result P e pk com sig s") (simp_all add: http_write_simps)

lemma relayed_dkg:
  assumes "token \<noteq> []"
  shows "same_write (dl_submit_dkg_result (http_port repr P) e pk com sig s)
    (dl_submit_dkg_result (relay_submitter (Some token) token (http_port repr P)) e pk com sig s)"
proof -
  let ?m = "dl_submit_dkg_result (http_port repr P) e pk com sig s"
  have "dl_submit_dkg_result (relay_submitter (Some token) token (http_port repr P)) e pk com sig s =
      (case ?m of Inl e \<Rightarrow> Inl (HttpStatus (write_status e)) | Inr s' \<Rightarrow> Inr s')"
    by (simp add: relay_submitter_def rc_submit_dkg_result_def, rule posted(1) [OF assms])
      (simp add: relay_dkg_result_def body_bytes_def)
  then show ?thesis using relayed_status by (simp add: http_dkg)
qed

lemma relayed_aggregate:
  assumes "token \<noteq> []"
  shows "same_write (dl_submit_aggregate (http_port repr P) now e a sig s)
    (dl_submit_aggregate (relay_submitter (Some token) token (http_port repr P)) now e a sig s)"
proof -
  let ?m = "ebind (dec_aggregate (enc_aggregate a)) (\<lambda>a'. dl_submit_aggregate (http_port repr P) now e a' sig s)"
  have r: "dl_submit_aggregate (relay_submitter (Some token) token (http_port repr P)) now e a sig s =
      (case ?m of Inl e \<Rightarrow> Inl (HttpStatus (write_status e)) | Inr s' \<Rightarrow> Inr s')"
    by (simp add: relay_submitter_def rc_submit_aggregate_def, rule posted(3) [OF assms])
      (cases "dec_aggregate (enc_aggregate a)"; simp add: relay_aggregate_def body_bytes_def)
  show ?thesis
  proof (cases "dec_aggregate (enc_aggregate a)")
    case (Inr a')
    then have "dec_aggregate (enc_aggregate a') = Inr a'" using aggregate_codec.dec_ok aggregate_codec.dec_enc by blast
    with Inr show ?thesis unfolding r using relayed_status by (simp add: http_aggregate)
  qed (use decoder_status in \<open>simp add: r http_aggregate\<close>)
qed

lemma relayed_share:
  assumes "token \<noteq> []"
  shows "same_write (dl_submit_decryption_share (http_port repr P) now e sh sig s)
    (dl_submit_decryption_share (relay_submitter (Some token) token (http_port repr P)) now e sh sig s)"
proof -
  let ?m = "ebind (dec_decryption_share (enc_decryption_share sh)) (\<lambda>sh'. dl_submit_decryption_share (http_port repr P) now e sh' sig s)"
  have r: "dl_submit_decryption_share (relay_submitter (Some token) token (http_port repr P)) now e sh sig s =
      (case ?m of Inl e \<Rightarrow> Inl (HttpStatus (write_status e)) | Inr s' \<Rightarrow> Inr s')"
    by (simp add: relay_submitter_def rc_submit_decryption_share_def, rule posted(2) [OF assms])
      (cases "dec_decryption_share (enc_decryption_share sh)"; simp add: relay_decryption_share_def body_bytes_def)
  show ?thesis
  proof (cases "dec_decryption_share (enc_decryption_share sh)")
    case (Inr sh')
    then have "dec_decryption_share (enc_decryption_share sh') = Inr sh'"
      using decryption_share_codec.dec_ok decryption_share_codec.dec_enc by blast
    with Inr show ?thesis unfolding r using relayed_status by (simp add: http_share)
  qed (use decoder_status in \<open>simp add: r http_share\<close>)
qed

text \<open>A token that is not empty, in a form an interpretation can take.\<close>

interpretation relayed: keyper_submitter "http_port repr P" "relay_submitter (Some (c # cs)) (c # cs) (http_port repr P)" for repr P c cs
  by unfold_locales (simp_all add: relayed_dkg relayed_aggregate relayed_share)

section \<open>Properties\<close>

text \<open>The three writes of a keyper.\<close>

fun keyper_write :: "write_request \<Rightarrow> bool" where
  "keyper_write (SubmitDkg e pk com sig) = True"
| "keyper_write (SubmitAggregate e a sig) = True"
| "keyper_write (SubmitShare e sh sig) = True"
| "keyper_write _ = False"

lemma tokens_equal_iff: "tokens_equal presented expected \<longleftrightarrow> presented \<noteq> [] \<and> expected = Some presented"
  by (auto simp: tokens_equal_def split: option.split)

lemma relay_auth_None:
  assumes "path \<noteq> ''/health''" and "relay_auth api_token path header = None"
  shows "\<exists>t. api_token = Some t \<and> t \<noteq> [] \<and> header = ''Bearer '' @ t"
proof -
  have t: "tokens_equal (if take 7 header = ''Bearer '' then drop 7 header else []) api_token"
    (is ?t)
  proof (rule ccontr)
    assume "\<not> ?t"
    then have "relay_auth api_token path header \<noteq> None" using assms(1) by (simp add: relay_auth_def Let_def del: if_split)
    with assms(2) show False by contradiction
  qed
  then have b: "take 7 header = ''Bearer ''" by (cases "take 7 header = ''Bearer ''") (simp_all only: if_False tokens_equal_iff not_True_eq_False simp_thms)
  then have "header = ''Bearer '' @ drop 7 header" using append_take_drop_id [of 7 header] by metis
  moreover from t b have "drop 7 header \<noteq> []" "api_token = Some (drop 7 header)" by (simp_all only: tokens_equal_iff simp_thms if_True)
  ultimately show ?thesis by blast
qed

lemma answer_write_changed: "answer_write s m = (s', r) \<Longrightarrow> s' \<noteq> s \<Longrightarrow> \<exists>a. m = Inr (s', a)"
  by (auto simp: answer_write_def split: sum.splits)

lemma relay_dkg_result_writes:
  "relay_dkg_result P body s = (s', r) \<Longrightarrow> s' \<noteq> s \<Longrightarrow> \<exists>e pk com sig. dl_submit_dkg_result P e pk com sig s = Inr s'"
  by (auto simp: relay_dkg_result_def dest!: answer_write_changed) (intro exI, assumption)

lemma relay_decryption_share_writes:
  "relay_decryption_share P now body s = (s', r) \<Longrightarrow> s' \<noteq> s \<Longrightarrow>
     \<exists>e sh sig. dl_submit_decryption_share P now e sh sig s = Inr s' \<and> ok_decryption_share sh"
  by (auto simp: relay_decryption_share_def simp del: ex_simps dest!: answer_write_changed)
    (intro exI conjI, assumption, erule decryption_share_codec.dec_ok)

lemma relay_aggregate_writes:
  "relay_aggregate P now body s = (s', r) \<Longrightarrow> s' \<noteq> s \<Longrightarrow> \<exists>e a sig. dl_submit_aggregate P now e a sig s = Inr s' \<and> ok_aggregate a"
  by (auto simp: relay_aggregate_def simp del: ex_simps dest!: answer_write_changed)
    (intro exI conjI, assumption, erule aggregate_codec.dec_ok)

lemma relay_served:
  assumes "relay_serve P api_token now path header body s = (s', r)" and "s' \<noteq> s"
  shows "path \<noteq> ''/health'' \<and> relay_auth api_token path header = None \<and> (\<exists>w. keyper_write w \<and> artifact_ok w \<and> do_write P now w s = Inr s')"
proof -
  have a: "relay_auth api_token path header = None" using assms by (cases "relay_auth api_token path header") (auto simp: relay_serve_def)
  consider "path = ''/dkg-result''" "relay_dkg_result P body s = (s', r)"
    | "path = ''/decryption-share''" "relay_decryption_share P now body s = (s', r)"
    | "path = ''/aggregate''" "relay_aggregate P now body s = (s', r)"
    using assms a by (auto simp: relay_serve_def split: if_splits)
  then show ?thesis
  proof cases
    case 1
    obtain e pk com sig where "dl_submit_dkg_result P e pk com sig s = Inr s'" using relay_dkg_result_writes [OF 1(2) assms(2)] by (elim exE)
    with 1 a show ?thesis by (intro conjI exI [of _ "SubmitDkg e pk com sig"]) simp_all
  next
    case 2
    obtain e sh sig where "dl_submit_decryption_share P now e sh sig s = Inr s'" "ok_decryption_share sh" using relay_decryption_share_writes [OF 2(2) assms(2)] by (elim exE conjE)
    with 2 a show ?thesis by (intro conjI exI [of _ "SubmitShare e sh sig"]) simp_all
  next
    case 3
    obtain e ar sig where "dl_submit_aggregate P now e ar sig s = Inr s'" "ok_aggregate ar" using relay_aggregate_writes [OF 3(2) assms(2)] by (elim exE conjE)
    with 3 a show ?thesis by (intro conjI exI [of _ "SubmitAggregate e ar sig"]) simp_all
  qed
qed

text \<open>
  The relay is open to the holder of the token only. Whatever the request, the data layer behind the
  relay changes only by one of the three keyper writes, with artifacts that passed the decoders, and
  only when a token is configured and the request carries exactly this token; without a configured
  token every request but the health page is answered with 503, with another token with 401.
\<close>

theorem relay_guarded:
  assumes "relay_serve P api_token now path header body s = (s', r)"
  shows "(s' \<noteq> s \<longrightarrow> (\<exists>t w. api_token = Some t \<and> t \<noteq> [] \<and> header = ''Bearer '' @ t \<and> keyper_write w \<and> artifact_ok w \<and>
        do_write P now w s = Inr s')) \<and>
    (path \<noteq> ''/health'' \<and> (api_token = None \<or> api_token = Some []) \<longrightarrow> s' = s \<and> rs_status r = 503) \<and>
    (path \<noteq> ''/health'' \<and> (\<exists>t. api_token = Some t \<and> t \<noteq> [] \<and> header \<noteq> ''Bearer '' @ t) \<longrightarrow> s' = s \<and> rs_status r = 401)"
proof (intro conjI impI)
  assume "s' \<noteq> s"
  note w = relay_served [OF assms this]
  with relay_auth_None show "\<exists>t w. api_token = Some t \<and> t \<noteq> [] \<and> header = ''Bearer '' @ t \<and> keyper_write w \<and> artifact_ok w \<and>
        do_write P now w s = Inr s'"
    by (metis (no_types, lifting))
next
  assume "path \<noteq> ''/health'' \<and> (api_token = None \<or> api_token = Some [])"
  then have "relay_auth api_token path header = Some 503" by (simp add: relay_auth_def)
  with assms show "s' = s" "rs_status r = 503" by (auto simp: relay_serve_def)
next
  assume h: "path \<noteq> ''/health'' \<and> (\<exists>t. api_token = Some t \<and> t \<noteq> [] \<and> header \<noteq> ''Bearer '' @ t)"
  then have "relay_auth api_token path header \<noteq> None" using relay_auth_None by fastforce
  with h have "relay_auth api_token path header = Some 401" by (auto simp: relay_auth_def Let_def split: if_splits)
  with assms show "s' = s" "rs_status r = 401" by (auto simp: relay_serve_def)
qed

text \<open>
  C24: a keyper may write through the relay. With the configured token a keyper server that submits
  through the coordinator, which in turn writes to the data-layer service, ends every aggregation
  worker, every publication of a decryption share and every publication of the joint key in the same
  state of the keyper and of the data layer, with the same answer, as when it writes to the data-layer
  service itself: a race that is benign there, an artifact that is already final, is benign through
  the relay, and an artifact the service would reject is rejected.
\<close>

theorem relay_transparent:
  assumes "token \<noteq> []"
  shows "run_aggregate S H R (relay_submitter (Some token) token (http_port repr P)) now now_dl idx eid sv s =
      run_aggregate S H R (http_port repr P) now now_dl idx eid sv s \<and>
    sv_publish_decr_share S H R (relay_submitter (Some token) token (http_port repr P)) now now_dl rnd eid sv s =
      sv_publish_decr_share S H R (http_port repr P) now now_dl rnd eid sv s \<and>
    sv_publish S H R (relay_submitter (Some token) token (http_port repr P)) eid sv s = sv_publish S H R (http_port repr P) eid sv s"
  using assms by (cases token) (simp_all only: relayed.aggregate_same relayed.share_same relayed.publish_same)

section \<open>Witnesses\<close>

lemma relay_guarded_witness:
  "\<exists>s' r. relay_serve (memory_port sample_host) None 0 ''/aggregate'' ''Bearer x'' JNull InMemory_init = (s', r) \<and> s' = InMemory_init \<and> rs_status r = 503"
proof -
  obtain s' r where "relay_serve (memory_port sample_host) None 0 ''/aggregate'' ''Bearer x'' JNull InMemory_init = (s', r)" by force
  with relay_guarded [OF this] show ?thesis by auto
qed

lemma relay_transparent_witness:
  "sv_publish zq_suite sample_host (memory_port sample_host)
     (relay_submitter (Some ''x'') ''x'' (http_port (\<lambda>j. []) (memory_port sample_host))) (be 32 1) sample_dealer InMemory_init =
   sv_publish zq_suite sample_host (memory_port sample_host) (http_port (\<lambda>j. []) (memory_port sample_host)) (be 32 1) sample_dealer InMemory_init"
  using relay_transparent [of "''x''" zq_suite sample_host "memory_port sample_host" "\<lambda>j. []" "memory_port sample_host" 0 0 0 "be 32 1" sample_dealer InMemory_init]
  by simp

end
