(* ===== verification/Admin.thy ===== *)
theory Admin
  imports Coordinator
begin

text \<open>
  \<^verbatim>\<open>services/admin/admin.py\<close>: registration, cancellation and the retry of a stalled tally, authorized
  by a relayed signature of the administrator, as functions and as routes of the Flask application.
  Shown: the service changes the data layer only by requests the administrator has signed, and what
  each route answers; and that an accepted retry makes the coordinator resume with a fresh budget.
  Not modelled: the command line, the CORS headers and the texts of the answers.
\<close>

section \<open>Operations\<close>

text \<open>The exception \<open>RegistrationError\<close> with its code, a \<open>ValueError\<close> of this module, and all others.\<close>

datatype admin_error = RegistrationError string | Raised error

type_synonym 'a admin_result = "admin_error + 'a"

definition raised :: "'a result \<Rightarrow> 'a admin_result" where
  "raised m = (case m of Inl e \<Rightarrow> Inl (Raised e) | Inr x \<Rightarrow> Inr x)"

text \<open>\<open>now\<close> is the clock of the service, \<open>now_dl\<close> that of the data layer.\<close>

definition register_election ::
    "host \<Rightarrow> 's ElectionDataLayer \<Rightarrow> ElectionConfig \<Rightarrow> bytes \<Rightarrow> bytes \<Rightarrow> int \<Rightarrow> int \<Rightarrow> 's \<Rightarrow> ('s \<times> bytes) admin_result" where
  "register_election H P config admin_sig admin_identity now dkg_lead_time s =
     (if cfg_admin_key config \<noteq> admin_identity then Inl (RegistrationError ''NotAdminWallet'')
      else if \<not> verify_register H (cfg_admin_key config) admin_sig config then Inl (Raised WriteAuthorizationError)
      else
        let lead = cfg_voting_start config - now in
        if lead < dkg_lead_time then Inl (RegistrationError ''InsufficientDkgLeadTime'')
        else raised (dl_register_election P config admin_sig s))"

definition cancel_election ::
    "host \<Rightarrow> 's ElectionDataLayer \<Rightarrow> int \<Rightarrow> bytes \<Rightarrow> bytes \<Rightarrow> bytes \<Rightarrow> 's \<Rightarrow> 's result" where
  "cancel_election H P now_dl election_id admin_sig admin_identity s =
     ebind (dl_get_election P election_id s) (\<lambda>rec.
     let admin_key = cfg_admin_key (er_config rec) in
     if admin_key \<noteq> admin_identity then Inl WriteAuthorizationError
     else if \<not> verify_request H admin_key admin_sig ''cancel'' election_id [] then Inl WriteAuthorizationError
     else dl_cancel_election P now_dl election_id admin_sig s)"

definition retry_tally ::
    "host \<Rightarrow> 's ElectionDataLayer \<Rightarrow> int \<Rightarrow> bytes \<Rightarrow> bytes \<Rightarrow> bytes \<Rightarrow> int \<Rightarrow> 's \<Rightarrow> 's result" where
  "retry_tally H P now_dl election_id admin_sig admin_identity issued_at s =
     ebind (dl_get_election P election_id s) (\<lambda>rec.
     let admin_key = cfg_admin_key (er_config rec) in
     if admin_key \<noteq> admin_identity then Inl WriteAuthorizationError
     else
       ebind (request_nonce_payload issued_at) (\<lambda>payload.
       if \<not> verify_request H admin_key admin_sig ''tally_resume'' election_id payload then Inl WriteAuthorizationError
       else dl_set_tally_stalled P now_dl election_id False admin_sig issued_at s))"

section \<open>Routes\<close>

definition admin_status :: "admin_error \<Rightarrow> int" where
  "admin_status e =
     (case e of
        RegistrationError _ \<Rightarrow> 400
      | Raised e \<Rightarrow>
          if e = KeyError then 404
          else if e = WriteAuthorizationError then 401
          else if e = ImmutabilityError then 409
          else if is_value_error e then 400
          else 500)"

definition admin_answer :: "'s \<Rightarrow> ('s \<times> response) admin_result \<Rightarrow> 's \<times> response" where
  "admin_answer s r =
     (case r of
        Inl e \<Rightarrow> (s, \<lparr>rs_status = admin_status e, rs_json = None\<rparr>)
      | Inr (s', a) \<Rightarrow> (s', a))"

definition register_route ::
    "host \<Rightarrow> 's ElectionDataLayer \<Rightarrow> bytes \<Rightarrow> int \<Rightarrow> json \<Rightarrow> 's \<Rightarrow> 's \<times> response" where
  "register_route H P admin_identity now body s = admin_answer s (
     case ebind (get_item body ''config'') (\<lambda>v. ebind (dec_config (py_repr H) v) (\<lambda>config.
          ebind (body_bytes body ''signature'') (\<lambda>sig.
          ebind (get_opt body ''dkgLeadTime'') (\<lambda>lead. Inr (config, sig, lead))))) of
       Inl e \<Rightarrow> Inl (Raised e)
     | Inr (config, admin_sig, lead) \<Rightarrow>
         if lead = JNull then Inl (RegistrationError ''MissingDkgLeadTime'')
         else
           (case py_int lead of
              Inl e \<Rightarrow> Inl (Raised e)
            | Inr n \<Rightarrow>
                (case register_election H P config admin_sig admin_identity now n s of
                   Inl e \<Rightarrow> Inl e
                 | Inr (s', eid) \<Rightarrow> Inr (s', \<lparr>rs_status = 200, rs_json = Some (JObj [(''electionId'', enc_bytes eid)])\<rparr>))))"

definition cancel_route ::
    "host \<Rightarrow> 's ElectionDataLayer \<Rightarrow> bytes \<Rightarrow> int \<Rightarrow> string \<Rightarrow> json \<Rightarrow> 's \<Rightarrow> 's \<times> response" where
  "cancel_route H P admin_identity now_dl eid body s = admin_answer s (raised (
     ebind (body_bytes body ''signature'') (\<lambda>admin_sig.
     ebind (fromhex eid) (\<lambda>e.
     ebind (cancel_election H P now_dl e admin_sig admin_identity s) (\<lambda>s'. Inr (s', no_content))))))"

definition retry_tally_route ::
    "host \<Rightarrow> 's ElectionDataLayer \<Rightarrow> bytes \<Rightarrow> int \<Rightarrow> string \<Rightarrow> json \<Rightarrow> 's \<Rightarrow> 's \<times> response" where
  "retry_tally_route H P admin_identity now_dl eid body s = admin_answer s (raised (
     ebind (body_bytes body ''signature'') (\<lambda>admin_sig.
     ebind (fromhex eid) (\<lambda>e.
     ebind (get_item body ''issuedAt'') (\<lambda>v. ebind (py_int v) (\<lambda>issued_at.
     ebind (retry_tally H P now_dl e admin_sig admin_identity issued_at s) (\<lambda>s'. Inr (s', no_content))))))))"

text \<open>The POST requests of the application.\<close>

datatype admin_call = PostRegister json | PostCancel string json | PostRetry string json

fun admin_serve :: "host \<Rightarrow> 's ElectionDataLayer \<Rightarrow> bytes \<Rightarrow> int \<Rightarrow> int \<Rightarrow> admin_call \<Rightarrow> 's \<Rightarrow> 's \<times> response" where
  "admin_serve H P admin now now_dl (PostRegister body) s = register_route H P admin now body s"
| "admin_serve H P admin now now_dl (PostCancel eid body) s = cancel_route H P admin now_dl eid body s"
| "admin_serve H P admin now now_dl (PostRetry eid body) s = retry_tally_route H P admin now_dl eid body s"

section \<open>Lemmas\<close>

lemma raised_Inr [simp]: "raised m = Inr x \<longleftrightarrow> m = Inr x" "raised (Inr x) = Inr x" "raised (Inl e) = Inl (Raised e)"
  by (auto simp: raised_def split: sum.splits)

lemma raised_Inl: "raised m = Inl e \<longleftrightarrow> (\<exists>d. m = Inl d \<and> e = Raised d)"
  by (auto simp: raised_def split: sum.splits)

lemma admin_status_error: "400 \<le> admin_status e"
  by (auto simp: admin_status_def split: admin_error.split)

lemma admin_answer_ok: "admin_answer s m = (s', r) \<Longrightarrow> rs_status r < 400 \<Longrightarrow> m = Inr (s', r)"
  using admin_status_error [of "projl m"] by (auto simp: admin_answer_def split: sum.splits)

text \<open>The requests the administrator has signed.\<close>

fun admin_signed :: "host \<Rightarrow> bytes \<Rightarrow> write_request \<Rightarrow> bool" where
  "admin_signed H admin (Register c sig) = (cfg_admin_key c = admin \<and> verify_register H admin sig c)"
| "admin_signed H admin (Cancel e sig) = verify_request H admin sig ''cancel'' e []"
| "admin_signed H admin (SetStalled e b sig t) =
     (\<not> b \<and> (\<exists>p. request_nonce_payload t = Inr p \<and> verify_request H admin sig ''tally_resume'' e p))"
| "admin_signed H admin _ = False"

text \<open>What a call asks for: the write, and the lead time of a registration; \<open>None\<close> when it does not decode.\<close>

definition asked :: "host \<Rightarrow> admin_call \<Rightarrow> (write_request \<times> int) option" where
  "asked H call =
     (case call of
        PostRegister body \<Rightarrow>
          (case ebind (get_item body ''config'') (\<lambda>v. ebind (dec_config (py_repr H) v) (\<lambda>config.
                ebind (body_bytes body ''signature'') (\<lambda>sig.
                ebind (get_opt body ''dkgLeadTime'') (\<lambda>l. if l = JNull then Inl ValueError else
                ebind (py_int l) (\<lambda>lead. Inr (Register config sig, lead)))))) of
             Inl _ \<Rightarrow> None | Inr x \<Rightarrow> Some x)
      | PostCancel eid body \<Rightarrow>
          (case ebind (body_bytes body ''signature'') (\<lambda>sig. ebind (fromhex eid) (\<lambda>e. Inr (Cancel e sig, 0))) of
             Inl _ \<Rightarrow> None | Inr x \<Rightarrow> Some x)
      | PostRetry eid body \<Rightarrow>
          (case ebind (body_bytes body ''signature'') (\<lambda>sig. ebind (fromhex eid) (\<lambda>e.
                ebind (get_item body ''issuedAt'') (\<lambda>v. ebind (py_int v) (\<lambda>t. Inr (SetStalled e False sig t, 0))))) of
             Inl _ \<Rightarrow> None | Inr x \<Rightarrow> Some x))"

text \<open>The gate of the service before the write is relayed.\<close>

fun gate :: "'s ElectionDataLayer \<Rightarrow> bytes \<Rightarrow> int \<Rightarrow> int \<Rightarrow> write_request \<Rightarrow> 's \<Rightarrow> bool" where
  "gate P admin now lead (Register c sig) s = (lead \<le> cfg_voting_start c - now)"
| "gate P admin now lead (Cancel e sig) s = (\<exists>rec. dl_get_election P e s = Inr rec \<and> cfg_admin_key (er_config rec) = admin)"
| "gate P admin now lead (SetStalled e b sig t) s = (\<exists>rec. dl_get_election P e s = Inr rec \<and> cfg_admin_key (er_config rec) = admin)"
| "gate P admin now lead _ s = False"

definition served :: "host \<Rightarrow> 's ElectionDataLayer \<Rightarrow> bytes \<Rightarrow> int \<Rightarrow> int \<Rightarrow> admin_call \<Rightarrow> 's \<Rightarrow> 's \<Rightarrow> bool" where
  "served H P admin now now_dl call s s' \<longleftrightarrow>
     (\<exists>w lead. asked H call = Some (w, lead) \<and> admin_signed H admin w \<and> gate P admin now lead w s \<and> do_write P now_dl w s = Inr s')"

lemma register_exact:
  "register_election H P c sig admin now lead s = Inr (s', e) \<longleftrightarrow>
     cfg_admin_key c = admin \<and> verify_register H admin sig c \<and> lead \<le> cfg_voting_start c - now \<and> dl_register_election P c sig s = Inr (s', e)"
  by (auto simp: register_election_def Let_def)

lemma cancel_exact:
  "cancel_election H P now_dl e sig admin s = Inr s' \<longleftrightarrow>
     (\<exists>rec. dl_get_election P e s = Inr rec \<and> cfg_admin_key (er_config rec) = admin) \<and>
     verify_request H admin sig ''cancel'' e [] \<and> dl_cancel_election P now_dl e sig s = Inr s'"
  by (auto simp: cancel_election_def Let_def)

lemma retry_exact:
  "retry_tally H P now_dl e sig admin t s = Inr s' \<longleftrightarrow>
     (\<exists>rec. dl_get_election P e s = Inr rec \<and> cfg_admin_key (er_config rec) = admin) \<and>
     (\<exists>p. request_nonce_payload t = Inr p \<and> verify_request H admin sig ''tally_resume'' e p) \<and>
     dl_set_tally_stalled P now_dl e False sig t s = Inr s'"
  by (auto simp: retry_tally_def Let_def)

text \<open>A route as an answer to a computation that succeeds exactly on the requests served.\<close>

lemma route_served:
  assumes "admin_serve H P admin now now_dl call s = admin_answer s m"
    and "\<And>t. served H P admin now now_dl call s t \<longleftrightarrow> (\<exists>a. m = Inr (t, a))" and "\<And>t a. m = Inr (t, a) \<Longrightarrow> rs_status a < 400"
    and "admin_serve H P admin now now_dl call s = (s', r)"
  shows "(rs_status r < 400 \<longleftrightarrow> (\<exists>t. served H P admin now now_dl call s t)) \<and>
    (if rs_status r < 400 then served H P admin now now_dl call s s' else s' = s)"
proof (cases m)
  case (Inl e)
  with assms(1,4) have "s' = s" "\<not> rs_status r < 400" using admin_status_error [of e] by (auto simp: admin_answer_def)
  with assms(2) Inl show ?thesis by simp
next
  case (Inr x)
  with assms(1,4) have "m = Inr (s', r)" by (auto simp: admin_answer_def split: prod.splits)
  with assms(2,3) show ?thesis by auto
qed

lemma served_asked:
  "asked H call = None \<Longrightarrow> \<not> served H P admin now now_dl call s t"
  "asked H call = Some (w, lead) \<Longrightarrow>
     served H P admin now now_dl call s t \<longleftrightarrow> admin_signed H admin w \<and> gate P admin now lead w s \<and> do_write P now_dl w s = Inr t"
  by (auto simp: served_def)

lemma not_asked: "asked H call = None \<Longrightarrow> \<exists>e. admin_serve H P admin now now_dl call s = admin_answer s (Inl e)"
  by (cases call)
    (auto simp: asked_def register_route_def cancel_route_def retry_tally_route_def ebind_def raised_def
      split: sum.splits if_splits)

lemma asked_register:
  "asked H (PostRegister body) = Some (w, lead) \<Longrightarrow> \<exists>c sig. w = Register c sig \<and>
     admin_serve H P admin now now_dl (PostRegister body) s = admin_answer s
       (case register_election H P c sig admin now lead s of
          Inl e \<Rightarrow> Inl e
        | Inr (s', eid) \<Rightarrow> Inr (s', \<lparr>rs_status = 200, rs_json = Some (JObj [(''electionId'', enc_bytes eid)])\<rparr>))"
  by (auto simp: asked_def register_route_def split: sum.split_asm if_split_asm)

lemma asked_cancel:
  "asked H (PostCancel eid body) = Some (w, lead) \<Longrightarrow> \<exists>e sig. w = Cancel e sig \<and>
     admin_serve H P admin now now_dl (PostCancel eid body) s = admin_answer s
       (raised (ebind (cancel_election H P now_dl e sig admin s) (\<lambda>s'. Inr (s', no_content))))"
  by (auto simp: asked_def cancel_route_def split: sum.splits)

lemma asked_retry:
  "asked H (PostRetry eid body) = Some (w, lead) \<Longrightarrow> \<exists>e sig t. w = SetStalled e False sig t \<and>
     admin_serve H P admin now now_dl (PostRetry eid body) s = admin_answer s
       (raised (ebind (retry_tally H P now_dl e sig admin t s) (\<lambda>s'. Inr (s', no_content))))"
  by (auto simp: asked_def retry_tally_route_def split: sum.splits)

text \<open>
  C22: the admin service does what the administrator signed, and nothing else. A request is answered
  without an error exactly when it decodes, carries the signature of the configured administrator over
  this very configuration, cancellation or retry, names an election of this administrator, leaves at
  least the stated lead time before voting starts, and the data layer accepts the relayed write; then
  the data layer is as that write leaves it. After every other answer it is unchanged.
\<close>

theorem admin_exact:
  assumes "admin_serve H P admin now now_dl call s = (s', r)"
  shows "(rs_status r < 400 \<longleftrightarrow> (\<exists>t. served H P admin now now_dl call s t)) \<and>
    (if rs_status r < 400 then served H P admin now now_dl call s s' else s' = s)"
proof (cases "asked H call")
  case None
  then obtain e where "admin_serve H P admin now now_dl call s = admin_answer s (Inl e)" using not_asked [OF None, of P admin now now_dl s] by (elim exE)
  from route_served [OF this _ _ assms] show ?thesis by (simp add: served_asked(1) [OF None])
next
  case (Some x)
  obtain w lead where w: "asked H call = Some (w, lead)" using Some by (cases x) simp
  note sv = served_asked(2) [OF w, of P admin now now_dl s]
  show ?thesis
  proof (cases call)
    case (PostRegister body)
    with asked_register [of H body w lead P admin now now_dl s] w obtain c sig where
      c: "w = Register c sig" and a: "admin_serve H P admin now now_dl call s = admin_answer s
       (case register_election H P c sig admin now lead s of
          Inl e \<Rightarrow> Inl e
        | Inr (s', eid) \<Rightarrow> Inr (s', \<lparr>rs_status = 200, rs_json = Some (JObj [(''electionId'', enc_bytes eid)])\<rparr>))" by blast
    show ?thesis
      by (rule route_served [OF a _ _ assms])
        (auto simp: sv c register_election_def Let_def split: if_splits sum.split_asm)
  next
    case (PostCancel eid body)
    with asked_cancel [of H eid body w lead P admin now now_dl s] w obtain e sig where
      c: "w = Cancel e sig" and a: "admin_serve H P admin now now_dl call s = admin_answer s
       (raised (ebind (cancel_election H P now_dl e sig admin s) (\<lambda>s'. Inr (s', no_content))))" by blast
    show ?thesis by (rule route_served [OF a _ _ assms]) (auto simp: sv c cancel_exact)
  next
    case (PostRetry eid body)
    with asked_retry [of H eid body w lead P admin now now_dl s] w obtain e sig t where
      c: "w = SetStalled e False sig t" and a: "admin_serve H P admin now now_dl call s = admin_answer s
       (raised (ebind (retry_tally H P now_dl e sig admin t s) (\<lambda>s'. Inr (s', no_content))))" by blast
    show ?thesis by (rule route_served [OF a _ _ assms]) (auto simp: sv c retry_exact)
  qed
qed

section \<open>Retry and coordinator\<close>

text \<open>An accepted retry on the in-memory data layer.\<close>

lemma retry_clears:
  assumes "retry_tally H (memory_port H) now_dl e sig admin t m = Inr m'" and "im_get m e = Inr st"
  shows "im_get m' e = Inr (st\<lparr>st_tally_stalled := False\<rparr>) \<and> (e, ''tally_resume'', t) \<in> im_used_request_nonces m'"
  using assms by (auto simp: retry_exact memory_port_def im_set_tally_stalled_def stall_op_def split: if_splits)

lemma finalized_key_stalled [simp]: "finalized_key_of (st\<lparr>st_tally_stalled := b\<rparr>) = finalized_key_of st"
  by (simp add: finalized_key_of_def)

lemma resumed_state:
  assumes "im_get m e = Inr st" "im_get m' e = Inr (st\<lparr>st_tally_stalled := False\<rparr>)" "im_get_election e m = Inr rec"
    and "election_state (memory_port H) e now m = Inr TALLY_STALLED"
  shows "im_get_election e m' = Inr (rec\<lparr>er_tally_stalled := False\<rparr>) \<and> election_state (memory_port H) e now m' = Inr TALLYING"
proof -
  have r: "im_get_election e m' = Inr (rec\<lparr>er_tally_stalled := False\<rparr>)"
    using assms(1-3) by (auto simp: im_get_election_def im_get_finalized_key_def)
  have "im_get_result e m' = im_get_result e m" using assms(1,2) by (simp add: im_get_result_def)
  with r assms(3,4) show ?thesis
    by (auto simp: election_state_def memory_port_def derive_state_def split: if_splits)
qed

lemma process_tallying:
  assumes "dl_get_election (en_port E) e w = Inr rec" "election_state (en_port E) e now w = Inr TALLYING"
  shows "process E e rec now (c, w) = drive_tally E e rec (c, w)"
  using assms by (auto simp: process_def election_state_def Let_def)

lemma process_stalled:
  assumes "dl_get_election (en_port E) e w = Inr rec" "election_state (en_port E) e now w = Inr TALLY_STALLED"
  shows "process E e rec now (c, w) = ((c, w), Inr ''tally_stalled'')"
  using assms by (auto simp: process_def election_state_def Let_def)

lemma put_tally_tally [simp]:
  "put_tally h a (put_tally h b c) = put_tally h a c" "ad_tally_attempts (put_tally h a c) h = Some a" "ad_tokens (put_tally h a c) = ad_tokens c"
  by (simp_all add: put_tally_def)

lemma install_put_tally:
  "install_committee E urls ms inst (put_tally h a c, w) = (let ((c', w'), r) = install_committee E urls ms inst (c, w) in ((put_tally h a c', w'), r))"
  by (simp add: install_committee_def put_tally_def Let_def split_def split: sum.split)

lemma committee_tokens_put_tally:
  "committee_tokens E urls ms (put_tally h a c, w) = (let ((c', w'), r) = committee_tokens E urls ms (c, w) in ((put_tally h a c', w'), r))"
proof -
  have f: "ad_store (put_tally h a c) = ad_store c" "ad_tokens (put_tally h a c) = ad_tokens c" by (simp_all add: put_tally_def)
  have g: "(put_tally h a c)\<lparr>ad_tokens := T\<rparr> = put_tally h a (c\<lparr>ad_tokens := T\<rparr>)" for T by (simp add: put_tally_def)
  show ?thesis
    unfolding committee_tokens_def auto_bootstrap_def fst_conv snd_conv f install_put_tally
    by (auto simp: Let_def g split: option.split)
qed

lemma committee_tokens_counter:
  "committee_tokens E urls ms (c, w) = ((c', w'), r) \<Longrightarrow> ad_tally_attempts c' = ad_tally_attempts c"
  by (auto simp: committee_tokens_def auto_bootstrap_def install_committee_def Let_def split_def split: option.splits if_splits sum.splits)

lemma drive_tally_fresh:
  assumes "\<not> isl (snd (committee_tokens E (keyper_urls E (er_config rec)) (member_addrs (er_config rec)) (c, w)))"
    and "au_max_tally_attempts (en_params E) \<le> fst (tally_counter c e) \<or> au_max_tally_attempts (en_params E) \<le> snd (tally_counter c e)"
    and u: "\<not> list_ex (\<lambda>(i, u). u = []) (keyper_urls E (er_config rec))"
  shows "drive_tally E e rec (c, w) = drive_tally E e rec (put_tally (tohex e) (0, 0) c, w)"
proof -
  obtain c1 w1 tokens where t: "committee_tokens E (keyper_urls E (er_config rec)) (member_addrs (er_config rec)) (c, w) = ((c1, w1), Inr tokens)"
    using assms(1) by (cases "committee_tokens E (keyper_urls E (er_config rec)) (member_addrs (er_config rec)) (c, w)") (auto simp: not_isl_iff)
  have t': "committee_tokens E (keyper_urls E (er_config rec)) (member_addrs (er_config rec)) (put_tally (tohex e) (0, 0) c, w) =
      ((put_tally (tohex e) (0, 0) c1, w1), Inr tokens)" by (simp add: committee_tokens_put_tally t)
  have "tally_counter c1 e = tally_counter c e" using committee_tokens_counter [OF t] by (simp add: tally_counter_def)
  then show ?thesis
    unfolding drive_tally_def Let_def tally_counter_def [symmetric]
    using assms(2) by (auto simp: t t' u tally_counter_def [of "put_tally (tohex e) (0, 0) c1"] split: sum.split option.split prod.split)
qed

lemma process_all_append:
  "process_all E now (xs @ ys) cw = (let (cw1, o1) = process_all E now xs cw; (cw2, o2) = process_all E now ys cw1 in (cw2, o1 @ o2))"
proof (induction xs arbitrary: cw)
  case (Cons x xs)
  show ?case by (cases x) (simp add: Cons.IH split_def Let_def)
qed (simp add: split_def)

text \<open>A pass in which one election is to be tallied and no other one is to be driven.\<close>

lemma scan_drives:
  assumes ids: "dl_list_elections (en_port E) None w = Inr ids" "e \<in> set ids" "tohex e \<notin> ad_done c" "tohex e \<notin> ad_failed c"
    and rec: "dl_get_election (en_port E) e w = Inr rec" "election_state (en_port E) e (nw_clock (en_net E) w) w = Inr TALLYING"
    and idle: "\<forall>e' \<in> set ids. e' \<noteq> e \<longrightarrow> tohex e' \<in> ad_done c \<or> tohex e' \<in> ad_failed c \<or>
      election_state (en_port E) e' (nw_clock (en_net E) w) w \<notin> {Inr REGISTERED, Inr TALLYING}"
  shows "\<exists>c1 cw2 outs. scan_once E (c, w) = (cw2, Inr outs) \<and> ad_tally_attempts c1 = ad_tally_attempts c \<and> ad_tokens c1 = ad_tokens c \<and>
    ad_store c1 = ad_store c \<and> (tohex e, case snd (drive_tally E e rec (c1, w)) of Inl _ \<Rightarrow> ''error'' | Inr out \<Rightarrow> out) \<in> set outs"
proof -
  obtain outs pending where cp: "collect_pending (en_port E) c w ids = (outs, pending)" by force
  let ?now = "nw_clock (en_net E) w"
  let ?sorted = "sort_key (\<lambda>(e, rec). cfg_voting_start (er_config rec)) pending"
  have set: "set ?sorted = {(e, rec). e \<in> set ids \<and> tohex e \<notin> ad_done c \<and> tohex e \<notin> ad_failed c \<and> dl_get_election (en_port E) e w = Inr rec}"
    using collect_pending_set [of "en_port E" c w ids] cp by simp
  then have "(e, rec) \<in> set ?sorted" using ids rec(1) by simp
  then obtain xs ys where xs: "?sorted = xs @ (e, rec) # ys" "(e, rec) \<notin> set xs" by (meson split_list_first)
  have "\<forall>(e', rec') \<in> set xs. dl_get_election (en_port E) e' w = Inr rec' \<and> election_state (en_port E) e' ?now w \<notin> {Inr REGISTERED, Inr TALLYING}"
  proof (clarify, rule conjI)
    fix e' rec' assume x: "(e', rec') \<in> set xs"
    then have "(e', rec') \<in> set ?sorted" using xs(1) by simp
    then have m: "e' \<in> set ids" "tohex e' \<notin> ad_done c" "tohex e' \<notin> ad_failed c" and r: "dl_get_election (en_port E) e' w = Inr rec'" using set by auto
    show "dl_get_election (en_port E) e' w = Inr rec'" by (rule r)
    have "e' \<noteq> e" using x xs(2) r rec(1) by auto
    with idle m show "election_state (en_port E) e' ?now w \<notin> {Inr REGISTERED, Inr TALLYING}" by blast
  qed
  from process_all_idle [OF this, of c] obtain c1 o1 where c1: "process_all E ?now xs (c, w) = ((c1, w), o1)"
    "ad_tally_attempts c1 = ad_tally_attempts c" "ad_tokens c1 = ad_tokens c" "ad_store c1 = ad_store c" by blast
  have p: "process E e rec ?now (c1, w) = drive_tally E e rec (c1, w)" by (rule process_tallying [OF rec])
  obtain cw2 o2 where r: "process_all E ?now ((e, rec) # ys) (c1, w) =
      (cw2, (tohex e, case snd (drive_tally E e rec (c1, w)) of Inl _ \<Rightarrow> ''error'' | Inr out \<Rightarrow> out) # o2)"
    by (simp add: p split_def Let_def)
  have "scan_once E (c, w) = (cw2, Inr (outs @ o1 @ (tohex e, case snd (drive_tally E e rec (c1, w)) of Inl _ \<Rightarrow> ''error'' | Inr out \<Rightarrow> out) # o2))"
    using r c1(1) by (simp add: scan_once_def ids(1) cp xs(1) process_all_append Let_def del: process_all.simps)
  with c1(2-4) show ?thesis by (intro exI [of _ c1] exI [of _ cw2]) auto
qed

lemma retry_exact_memory:
  assumes "retry_tally H (memory_port H) now_dl e sig admin t m = Inr m'" and "im_get m e = Inr st"
  shows "m' = im_put e (st\<lparr>st_tally_stalled := False\<rparr>) (m\<lparr>im_used_request_nonces := insert (e, ''tally_resume'', t) (im_used_request_nonces m)\<rparr>) \<and>
    (e, ''tally_resume'', t) \<notin> im_used_request_nonces m"
  using assms by (auto simp: retry_exact memory_port_def im_set_tally_stalled_def stall_op_def Let_def split: if_splits)

lemma resumed_elections:
  assumes "im_get m e = Inr st" and "m' = im_put e (st\<lparr>st_tally_stalled := False\<rparr>) (m\<lparr>im_used_request_nonces := u\<rparr>)"
  shows "e' \<noteq> e \<Longrightarrow> election_state (memory_port H) e' now m' = election_state (memory_port H) e' now m"
    and "im_list_elections None m' = im_list_elections None m" and "\<exists>ids. im_list_elections None m = Inr ids \<and> e \<in> set ids"
proof -
  have "e \<in> fst ` set (im_elections m)" using assms(1) by (force simp: im_get_def split: option.splits dest: map_of_SomeD)
  then show "im_list_elections None m' = im_list_elections None m" "\<exists>ids. im_list_elections None m = Inr ids \<and> e \<in> set ids"
    by (auto simp: assms(2) im_list_elections_def im_put_def update_keys split_def)
  show "election_state (memory_port H) e' now m' = election_state (memory_port H) e' now m" if "e' \<noteq> e"
    using that by (simp add: assms(2) election_state_def memory_port_def im_get_election_def im_get_finalized_key_def im_get_result_def im_get_put)
qed

text \<open>
  C23: the administrator's retry resumes a stalled tally. While the flag is set the coordinator passes
  the election over. A retry the service has answered with 204 clears the flag and spends the request,
  and changes nothing else in the data layer: ballots, aggregates, shares and every other election are
  as they were. A pass that has no other election to drive then drives this tally, and where the
  counter of the coordinator was used up and its tokens can be had, it does so as with a new counter.
  The same request sent again is refused with 401 and changes nothing.
\<close>

theorem retry_resumes_tally:
  assumes "en_port E = memory_port H" and "im_get_election e m = Inr rec" and "election_state (memory_port H) e now m = Inr TALLY_STALLED"
    and "admin_serve H (memory_port H) admin now_admin now_dl (PostRetry (tohex e) body) m = (m', r)" "rs_status r = 204"
    and "now = nw_clock (en_net E) m'" "tohex e \<notin> ad_done c" "tohex e \<notin> ad_failed c"
    and "\<forall>e' \<in> fst ` set (im_elections m). e' \<noteq> e \<longrightarrow> tohex e' \<in> ad_done c \<or> tohex e' \<in> ad_failed c \<or>
      election_state (memory_port H) e' now m \<notin> {Inr REGISTERED, Inr TALLYING}"
  defines "rec' \<equiv> rec\<lparr>er_tally_stalled := False\<rparr>"
  shows "process E e rec now (c, m) = ((c, m), Inr ''tally_stalled'') \<and>
    (\<exists>st v t. im_get m e = Inr st \<and> get_item body ''issuedAt'' = Inr v \<and> py_int v = Inr t \<and> (e, ''tally_resume'', t) \<notin> im_used_request_nonces m \<and>
       m' = im_put e (st\<lparr>st_tally_stalled := False\<rparr>) (m\<lparr>im_used_request_nonces := insert (e, ''tally_resume'', t) (im_used_request_nonces m)\<rparr>)) \<and>
    (\<exists>c1 cw2 outs. scan_once E (c, m') = (cw2, Inr outs) \<and> ad_tally_attempts c1 = ad_tally_attempts c \<and> ad_tokens c1 = ad_tokens c \<and>
       ad_store c1 = ad_store c \<and> (tohex e, case snd (drive_tally E e rec' (c1, m')) of Inl _ \<Rightarrow> ''error'' | Inr out \<Rightarrow> out) \<in> set outs) \<and>
    (\<forall>c2. (au_max_tally_attempts (en_params E) \<le> fst (tally_counter c2 e) \<or> au_max_tally_attempts (en_params E) \<le> snd (tally_counter c2 e)) \<and>
       \<not> list_ex (\<lambda>(i, u). u = []) (keyper_urls E (er_config rec)) \<and>
       \<not> isl (snd (committee_tokens E (keyper_urls E (er_config rec)) (member_addrs (er_config rec)) (c2, m'))) \<longrightarrow>
       drive_tally E e rec' (c2, m') = drive_tally E e rec' (put_tally (tohex e) (0, 0) c2, m')) \<and>
    admin_serve H (memory_port H) admin now_admin' now_dl' (PostRetry (tohex e) body) m' = (m', \<lparr>rs_status = 401, rs_json = None\<rparr>)"
proof -
  have a: "served H (memory_port H) admin now_admin now_dl (PostRetry (tohex e) body) m m'"
    using admin_exact [OF assms(4)] assms(5) by simp
  then obtain w lead where w: "asked H (PostRetry (tohex e) body) = Some (w, lead)" by (auto simp: served_def)
  then obtain sig v t where sig: "w = SetStalled e False sig t" "get_item body ''issuedAt'' = Inr v" "py_int v = Inr t" by (auto simp: asked_def split: sum.splits)
  obtain st where st: "im_get m e = Inr st" using assms(2) by (auto simp: im_get_election_def)
  have r: "retry_tally H (memory_port H) now_dl e sig admin t m = Inr m'" using a w sig by (auto simp: served_def retry_exact)
  note eq = retry_exact_memory [OF r st]
  note m' = retry_clears [OF r st] resumed_state [OF st _ assms(2,3), of m'] and others = resumed_elections [OF st conjunct1 [OF eq]]
  have again: "retry_tally H (memory_port H) now_dl' e sig admin t m' = Inl WriteAuthorizationError"
    using m' r st by (auto simp: retry_tally_def memory_port_def im_get_election_def im_set_tally_stalled_def stall_op_def
        im_get_finalized_key_def Let_def split: if_splits)
  have m1: "im_get_election e m' = Inr rec'" "election_state (memory_port H) e now m' = Inr TALLYING" using m' by (auto simp: rec'_def)
  have port: "dl_get_election (en_port E) e x = im_get_election e x" "dl_list_elections (en_port E) None x = im_list_elections None x" for x
    by (simp_all add: assms(1) memory_port_def)
  obtain ids where ids: "im_list_elections None m' = Inr ids" "e \<in> set ids" "set ids = fst ` set (im_elections m)"
    using others(2,3) by (auto simp: im_list_elections_def split_def) (metis list.set_map)
  have "process E e rec now (c, m) = ((c, m), Inr ''tally_stalled'')"
    using process_stalled [of E e m rec now c] assms(1-3) port by simp
  moreover have "\<exists>c1 cw2 outs. scan_once E (c, m') = (cw2, Inr outs) \<and> ad_tally_attempts c1 = ad_tally_attempts c \<and> ad_tokens c1 = ad_tokens c \<and>
       ad_store c1 = ad_store c \<and> (tohex e, case snd (drive_tally E e rec' (c1, m')) of Inl _ \<Rightarrow> ''error'' | Inr out \<Rightarrow> out) \<in> set outs"
    by (rule scan_drives [where ids = ids]) (use ids m1 assms(1,6-9) port others(1) in \<open>simp_all\<close>)
  moreover have "drive_tally E e rec' (c2, m') = drive_tally E e rec' (put_tally (tohex e) (0, 0) c2, m')"
    if "au_max_tally_attempts (en_params E) \<le> fst (tally_counter c2 e) \<or> au_max_tally_attempts (en_params E) \<le> snd (tally_counter c2 e)"
      "\<not> list_ex (\<lambda>(i, u). u = []) (keyper_urls E (er_config rec))"
      "\<not> isl (snd (committee_tokens E (keyper_urls E (er_config rec)) (member_addrs (er_config rec)) (c2, m')))" for c2
    by (rule drive_tally_fresh) (use that in \<open>simp_all add: rec'_def\<close>)
  moreover have "admin_serve H (memory_port H) admin now_admin' now_dl' (PostRetry (tohex e) body) m' = (m', \<lparr>rs_status = 401, rs_json = None\<rparr>)"
    using asked_retry [OF w, of "memory_port H" admin now_admin' now_dl' m'] sig(1) again by (auto simp: admin_answer_def admin_status_def)
  ultimately show ?thesis using eq st sig(2,3) by blast
qed

section \<open>Witnesses\<close>

definition sample_register_body :: json where
  "sample_register_body = JObj [(''config'', enc_config sample_election), (''signature'', enc_bytes (be 32 5)), (''dkgLeadTime'', JInt 60)]"

lemma sample_asked: "asked sample_host (PostRegister sample_register_body) = Some (Register sample_election (be 32 5), 60)"
  by (simp add: asked_def sample_register_body_def body_bytes_def config_codec.dec_enc [OF sample_election_carried])

lemma admin_exact_witness:
  "\<exists>m r. admin_serve sample_host (memory_port sample_host) (be 32 5) 40 40 (PostRegister sample_register_body) InMemory_init = (m, r) \<and>
     rs_status r < 400 \<and> m = sample_memory []"
proof -
  obtain m r where a: "admin_serve sample_host (memory_port sample_host) (be 32 5) 40 40 (PostRegister sample_register_body) InMemory_init = (m, r)"
    by force
  have reg: "do_write (memory_port sample_host) 40 (Register sample_election (be 32 5)) InMemory_init = Inr (sample_memory [])"
    using sample_register [OF sample_host_plain] by (simp add: memory_port_def)
  have ok: "admin_signed sample_host (be 32 5) (Register sample_election (be 32 5))"
    "gate (memory_port sample_host) (be 32 5) 40 60 (Register sample_election (be 32 5)) InMemory_init"
    by (simp_all add: verify_register_def sample_election_def)
  have sv: "served sample_host (memory_port sample_host) (be 32 5) 40 40 (PostRegister sample_register_body) InMemory_init t \<longleftrightarrow> t = sample_memory []" for t
    using served_asked(2) [OF sample_asked, of "memory_port sample_host" "be 32 5" 40 40 InMemory_init t] ok reg by auto
  have "rs_status r < 400 \<and> m = sample_memory []" using admin_exact [OF a] unfolding sv by (simp split: if_splits)
  with a show ?thesis by (intro exI) (rule conjI)
qed

text \<open>An election whose tally has been marked as stalled after voting, and a coordinator over that data layer.\<close>

definition stalled_memory :: InMemory where
  "stalled_memory = im_put (be 32 1) ((Stored_init sample_election)\<lparr>st_dkg_by_keyper := [(1, sample_dkg 1), (2, sample_dkg 2)], st_tally_stalled := True\<rparr>) InMemory_init"

definition retry_env :: "(int, int, InMemory) coordinator_env" where
  "retry_env =
     \<lparr>en_suite = zq_suite, en_host = sample_host,
      en_box = \<lparr>bx_public = (\<lambda>a. a), bx_exchange = (\<lambda>a b. []), bx_derive = (\<lambda>a b. []), bx_encrypt = (\<lambda>k n p. p), bx_decrypt = (\<lambda>k n p. Some p)\<rparr>,
      en_port = memory_port sample_host,
      en_net = \<lparr>nw_post = (\<lambda>url body token w. (w, Inl RequestException)), nw_get = (\<lambda>url w. (w, Inl RequestException)),
        nw_clock = (\<lambda>w. 250), nw_dl_clock = (\<lambda>w. 250)\<rparr>,
      en_draws = (\<lambda>n. witness_draws ''t''),
      en_params = \<lparr>au_coordinator = \<lparr>private_key = 3, identity = []\<rparr>, au_backoff_base = 10, au_backoff_cap = 300, au_max_tally_attempts = 5,
        au_max_tally_phase = 21600, au_url_overrides = [], au_relay_token = None\<rparr>\<rparr>"

definition sample_retry :: admin_call where
  "sample_retry = PostRetry (tohex (be 32 1)) (JObj [(''signature'', enc_bytes (be 32 5)), (''issuedAt'', JInt 250)])"

lemma stalled_get:
  "im_get stalled_memory (be 32 1) = Inr ((Stored_init sample_election)\<lparr>st_dkg_by_keyper := [(1, sample_dkg 1), (2, sample_dkg 2)], st_tally_stalled := True\<rparr>)"
  by (simp add: stalled_memory_def)

lemma stalled_record: "\<exists>fk. im_get_election (be 32 1) stalled_memory =
    Inr \<lparr>er_config = sample_election, er_cancelled = False, er_finalized_key = Some fk, er_tally_stalled = True\<rparr>"
proof -
  let ?st = "(Stored_init sample_election)\<lparr>st_dkg_by_keyper := [(1, sample_dkg 1), (2, sample_dkg 2)]\<rparr>"
  obtain fk where "finalized_key_of ?st = Inr (Some fk)" using sample_finalized by (auto simp: im_get_finalized_key_def sample_memory_get)
  then have "finalized_key_of (?st\<lparr>st_tally_stalled := True\<rparr>) = Inr (Some fk)" by (simp only: finalized_key_stalled)
  then show ?thesis by (simp add: im_get_election_def im_get_finalized_key_def stalled_get) (simp add: Stored_init_def)
qed

lemma sample_verify_resume: "verify_request sample_host (be 32 5) (be 32 5) ''tally_resume'' (be 32 1) (be 8 250)"
  by (simp add: verify_request_def request_digest_def request_text_def Authorization.frame_def int_to_bytes_def encode_utf8_def)

lemma sample_retried: "\<exists>m' r. admin_serve sample_host (memory_port sample_host) (be 32 5) 250 250 sample_retry stalled_memory = (m', r) \<and> rs_status r = 204"
proof -
  obtain fk where fk: "im_get_election (be 32 1) stalled_memory =
    Inr \<lparr>er_config = sample_election, er_cancelled = False, er_finalized_key = Some fk, er_tally_stalled = True\<rparr>" using stalled_record by blast
  have p: "request_nonce_payload 250 = Inr (be 8 250)" by (simp add: request_nonce_payload_def int_to_bytes_def)
  have k: "cfg_admin_key sample_election = be 32 5" by (simp add: sample_election_def)
  have "\<exists>m'. im_set_tally_stalled sample_host 250 (be 32 1) False (be 32 5) 250 stalled_memory = Inr m'"
    by (simp add: im_set_tally_stalled_def stalled_get request_is_fresh_def REQUEST_FRESHNESS_S_def p stall_op_def Stored_init_def k
        sample_verify_resume stalled_memory_def InMemory_init_def Let_def)
  then obtain m' where "im_set_tally_stalled sample_host 250 (be 32 1) False (be 32 5) 250 stalled_memory = Inr m'" by blast
  then have "retry_tally sample_host (memory_port sample_host) 250 (be 32 1) (be 32 5) (be 32 5) 250 stalled_memory = Inr m'"
    by (simp add: retry_exact p sample_verify_resume memory_port_def fk k)
  then show ?thesis
    by (simp add: sample_retry_def retry_tally_route_def body_bytes_def admin_answer_def no_content_def)
qed

definition spent_auto :: AutoDKG where
  "spent_auto = put_tally (tohex (be 32 1)) (5, 0) quiet_auto"

lemma stalled_only: "fst ` set (im_elections stalled_memory) = {be 32 1}"
  by (simp add: stalled_memory_def im_put_def InMemory_init_def)

lemma spent_auto_facts:
  "ad_done spent_auto = {}" "ad_failed spent_auto = {}" "tally_counter spent_auto (be 32 1) = (5, 0)"
  "keyper_urls retry_env sample_election = [(1, ''u''), (2, ''u''), (3, ''u'')]"
  "ad_tokens spent_auto [(1, ''u''), (2, ''u''), (3, ''u'')] = Some tally_tokens"
  by (simp_all add: spent_auto_def put_tally_def quiet_auto_def AutoDKG_init_def tally_counter_def keyper_urls_def keyper_urls_from_def
      sample_election_def sample_identity_def retry_env_def upto_rec1)

lemma retry_resumes_tally_witness:
  "\<exists>rec st m' r. im_get_election (be 32 1) stalled_memory = Inr rec \<and> im_get stalled_memory (be 32 1) = Inr st \<and>
     admin_serve sample_host (memory_port sample_host) (be 32 5) 250 250 sample_retry stalled_memory = (m', r) \<and> rs_status r = 204 \<and>
     m' = im_put (be 32 1) (st\<lparr>st_tally_stalled := False\<rparr>) (stalled_memory\<lparr>im_used_request_nonces := {(be 32 1, ''tally_resume'', 250)}\<rparr>) \<and>
     drive_tally retry_env (be 32 1) (rec\<lparr>er_tally_stalled := False\<rparr>) (spent_auto, m') =
       drive_tally retry_env (be 32 1) (rec\<lparr>er_tally_stalled := False\<rparr>) (put_tally (tohex (be 32 1)) (0, 0) spent_auto, m') \<and>
     admin_serve sample_host (memory_port sample_host) (be 32 5) 251 251 sample_retry m' = (m', \<lparr>rs_status = 401, rs_json = None\<rparr>)"
proof -
  obtain m' r where a: "admin_serve sample_host (memory_port sample_host) (be 32 5) 250 250 sample_retry stalled_memory = (m', r)" "rs_status r = 204"
    using sample_retried by blast
  obtain rec where rec: "im_get_election (be 32 1) stalled_memory = Inr rec" "er_config rec = sample_election" "er_cancelled rec = False"
      "er_finalized_key rec \<noteq> None" "er_tally_stalled rec"
    using stalled_record by fastforce
  have s: "election_state (memory_port sample_host) (be 32 1) 250 stalled_memory = Inr TALLY_STALLED"
    using rec by (simp add: election_state_def memory_port_def im_get_result_def stalled_get Stored_init_def derive_state_def sample_election_def)
  have e: "en_port retry_env = memory_port sample_host" "250 = nw_clock (en_net retry_env) m'" "au_max_tally_attempts (en_params retry_env) = 5"
    by (simp_all add: retry_env_def)
  have t: "\<not> isl (snd (committee_tokens retry_env (keyper_urls retry_env (er_config rec)) (member_addrs (er_config rec)) (spent_auto, m')))"
    by (simp add: committee_tokens_def committee_key_def rec(2) spent_auto_facts)
  have n: "im_used_request_nonces stalled_memory = {}" by (simp add: stalled_memory_def im_put_def InMemory_init_def)
  note c = retry_resumes_tally [OF e(1) rec(1) s a(1) [unfolded sample_retry_def] a(2) e(2), of spent_auto 251 251,
      folded sample_retry_def, unfolded spent_auto_facts stalled_only n, simplified]
  from c have "drive_tally retry_env (be 32 1) (rec\<lparr>er_tally_stalled := False\<rparr>) (spent_auto, m') =
       drive_tally retry_env (be 32 1) (rec\<lparr>er_tally_stalled := False\<rparr>) (put_tally (tohex (be 32 1)) (0, 0) spent_auto, m')"
    using t by (simp add: e(3) spent_auto_facts rec(2))
  with c a rec(1) show ?thesis by auto
qed

end
