(* ===== verification/Public_Api.thy ===== *)
theory Public_Api
  imports Eligibility
begin

text \<open>
  \<^verbatim>\<open>services/api/api.py\<close>: the public election API. Election ids in its paths and answers are decimal
  numbers; reads go to one data layer, ballots through the gateway to another, both over the same
  state. A handler takes the path segment with the id, the query arguments as text, the decoded body
  and the state. Shown: both spellings of an election id are read back, a client can rebuild every
  artifact from its decimal form, and what the ballot route answers and stores. Not modelled: the help
  texts of a rejection, CORS headers, the body-size limit and start-up; the read surface mounted under
  \<open>/port\<close> is the one of theory \<open>Wire\<close>.
\<close>

section \<open>Election ids\<close>

definition DEFAULT_LIMIT :: int where "DEFAULT_LIMIT = 50"

definition MAX_LIMIT :: int where "MAX_LIMIT = 200"

text \<open>
  \<open>_parse_eid\<close>. \<open>isdigit\<close> also holds of the three superscript digits, which \<open>int\<close> rejects with the same
  \<open>ValueError\<close> as the last line; \<open>int\<close> refuses texts of more than 4300 digits.
\<close>

definition parse_eid :: "string \<Rightarrow> bytes result" where
  "parse_eid seg =
     (let prefixed = (lower (take 2 seg) = ''0x''); hex_part = (if prefixed then drop 2 seg else seg) in
      if length hex_part = 64 then fromhex hex_part
      else if \<not> prefixed \<and> seg \<noteq> [] \<and> list_all is_digit seg then
        (if 4300 < length seg then Inl ValueError
         else
           ebind (int_of_str seg) (\<lambda>n.
           if drop_bit 256 n \<noteq> 0 then Inl ValueError else int_to_bytes n 32))
      else Inl ValueError)"

definition eid_num :: "bytes \<Rightarrow> int" where
  "eid_num election_id = int_from_bytes election_id"

text \<open>\<open>int(v, 16)\<close>: hexadecimal digits with single underscores, an optional prefix and sign.\<close>

fun hexdigits :: "nat \<Rightarrow> bool \<Rightarrow> string \<Rightarrow> nat option" where
  "hexdigits acc ok [] = (if ok then Some acc else None)"
| "hexdigits acc ok (c # cs) =
     (case hex_val c of
        Some d \<Rightarrow> hexdigits (acc * 16 + d) True cs
      | None \<Rightarrow> if c = CHR ''_'' \<and> ok then hexdigits acc False cs else None)"

definition int16 :: "string \<Rightarrow> int result" where
  "int16 s =
     (let t = strip s;
          negative = (take 1 t = ''-'');
          u = (if negative \<or> take 1 t = ''+'' then drop 1 t else t);
          prefixed = (take 2 u = ''0x'' \<or> take 2 u = ''0X'');
          v = (if prefixed then drop 2 u else u)
      in if v = [] then Inl ValueError
         else
           (case hexdigits 0 prefixed v of
              None \<Rightarrow> Inl ValueError
            | Some n \<Rightarrow> Inr (if negative then - int n else int n)))"

text \<open>\<open>_decimalize_election_ids\<close>.\<close>

fun decimalize :: "json \<Rightarrow> json result" where
  "decimalize (JObj kvs) =
     ebind (emap (\<lambda>kv.
       case snd kv of
         JStr v \<Rightarrow> if fst kv = ''electionId'' then ebind (int16 v) (\<lambda>n. Inr (fst kv, JInt n)) else Inr (fst kv, JStr v)
       | _ \<Rightarrow> ebind (decimalize (snd kv)) (\<lambda>w. Inr (fst kv, w))) kvs) (\<lambda>kvs'. Inr (JObj kvs'))"
| "decimalize (JArr xs) = ebind (emap decimalize xs) (\<lambda>ys. Inr (JArr ys))"
| "decimalize v = Inr v"

section \<open>The read routes\<close>

definition api_status :: "error \<Rightarrow> int" where
  "api_status e =
     (if e = KeyError then 404
      else if e = QuorumConflictError then 409
      else if is_value_error e then 400
      else 500)"

definition answer_api :: "json result \<Rightarrow> response" where
  "answer_api r =
     (case r of
        Inl e \<Rightarrow> \<lparr>rs_status = api_status e, rs_json = None\<rparr>
      | Inr j \<Rightarrow> \<lparr>rs_status = 200, rs_json = Some j\<rparr>)"

text \<open>\<open>_int_arg\<close>, and the page arguments of two routes.\<close>

definition int_arg :: "string option \<Rightarrow> int \<Rightarrow> int result" where
  "int_arg raw dflt =
     (case raw of
        None \<Rightarrow> Inr dflt
      | Some t \<Rightarrow> if t = [] then Inr dflt else int_of_str t)"

definition page_args :: "string option \<Rightarrow> string option \<Rightarrow> (int \<times> int) result" where
  "page_args offset limit =
     ebind (int_arg offset 0) (\<lambda>o'.
     ebind (int_arg limit DEFAULT_LIMIT) (\<lambda>l. Inr (max 0 o', min MAX_LIMIT (max 1 l))))"

definition api_list_elections ::
    "'s ElectionDataLayer \<Rightarrow> string option \<Rightarrow> string option \<Rightarrow> string option \<Rightarrow> 's \<Rightarrow> response" where
  "api_list_elections P admin offset limit s = answer_api (
     ebind
       (case admin of
          None \<Rightarrow> Inr None
        | Some a \<Rightarrow> if a = [] then Inr None
            else ebind (fromhex (removeprefix ''0x'' a)) (\<lambda>k. Inr (Some \<lparr>ef_admin_key = Some k\<rparr>))) (\<lambda>filt.
     ebind (dl_list_elections P filt s) (\<lambda>ids.
     ebind (page_args offset limit) (\<lambda>(off, lim).
     Inr (JObj [(''electionIds'', JArr (map (\<lambda>e. JInt (eid_num e)) (take (nat lim) (drop (nat off) ids)))),
                (''total'', JInt (int (length ids))), (''limit'', JInt lim), (''offset'', JInt off)])))))"

definition api_get_election :: "'s ElectionDataLayer \<Rightarrow> string \<Rightarrow> 's \<Rightarrow> response" where
  "api_get_election P eid s = answer_api (
     ebind (parse_eid eid) (\<lambda>e. ebind (dl_get_election P e s) (\<lambda>rec.
     decimalize (JObj [(''electionId'', JInt (eid_num e)), (''config'', enc_config (er_config rec)),
       (''cancelled'', JBool (er_cancelled rec)), (''tallyStalled'', JBool (er_tally_stalled rec)),
       (''finalizedKey'', finalized_key_json (er_finalized_key rec))]))))"

definition api_get_dkg :: "'s ElectionDataLayer \<Rightarrow> string \<Rightarrow> 's \<Rightarrow> response" where
  "api_get_dkg P eid s = answer_api (
     ebind (parse_eid eid) (\<lambda>e. ebind (dl_get_dkg_submissions P e s) (\<lambda>subs.
     decimalize (JObj [(''submissions'', JArr (map enc_dkg_result subs))]))))"

definition api_get_finalized :: "'s ElectionDataLayer \<Rightarrow> string \<Rightarrow> 's \<Rightarrow> response" where
  "api_get_finalized P eid s = answer_api (
     ebind (parse_eid eid) (\<lambda>e. ebind (dl_get_finalized_key P e s) (\<lambda>fk.
     Inr (JObj [(''finalizedKey'', finalized_key_json fk)]))))"

definition api_list_ballots :: "'s ElectionDataLayer \<Rightarrow> string \<Rightarrow> string option \<Rightarrow> string option \<Rightarrow> 's \<Rightarrow> response" where
  "api_list_ballots P eid offset limit s = answer_api (
     ebind (parse_eid eid) (\<lambda>e. ebind (dl_count_ballots P e s) (\<lambda>total.
     ebind (page_args offset limit) (\<lambda>(off, lim).
     ebind (dl_list_ballots P e off lim s) (\<lambda>bs.
     decimalize (JObj [(''ballots'', JArr (map (\<lambda>sb. enc_ballot (sb_envelope sb)) bs)),
       (''total'', JInt total), (''limit'', JInt lim), (''offset'', JInt off)]))))))"

definition api_count_ballots :: "'s ElectionDataLayer \<Rightarrow> string \<Rightarrow> 's \<Rightarrow> response" where
  "api_count_ballots P eid s = answer_api (
     ebind (parse_eid eid) (\<lambda>e. ebind (dl_count_ballots P e s) (\<lambda>n. Inr (JObj [(''count'', JInt n)]))))"

definition api_get_aggregate :: "'s ElectionDataLayer \<Rightarrow> string \<Rightarrow> 's \<Rightarrow> response" where
  "api_get_aggregate P eid s = answer_api (
     ebind (parse_eid eid) (\<lambda>e. ebind (dl_get_aggregate P e s) (\<lambda>agg.
     decimalize (JObj [(''aggregate'', case agg of None \<Rightarrow> JNull | Some a \<Rightarrow> enc_aggregate a)]))))"

definition api_list_shares :: "'s ElectionDataLayer \<Rightarrow> string \<Rightarrow> 's \<Rightarrow> response" where
  "api_list_shares P eid s = answer_api (
     ebind (parse_eid eid) (\<lambda>e. ebind (dl_list_decryption_shares P e s) (\<lambda>shs.
     decimalize (JObj [(''shares'', JArr (map enc_decryption_share shs))]))))"

definition api_get_result :: "'s ElectionDataLayer \<Rightarrow> string \<Rightarrow> 's \<Rightarrow> response" where
  "api_get_result P eid s = answer_api (
     ebind (parse_eid eid) (\<lambda>e. ebind (dl_get_result P e s) (\<lambda>res.
     decimalize (JObj [(''result'', case res of None \<Rightarrow> JNull | Some r \<Rightarrow> enc_result r)]))))"

definition api_capability :: "'s ElectionDataLayer \<Rightarrow> string \<Rightarrow> response" where
  "api_capability P data_store =
     answer_api (Inr (JObj [(''verifiabilityTier'', JInt (dl_verifiability_tier P)), (''dataStore'', JStr data_store)]))"

section \<open>The ballot route\<close>

text \<open>
  \<open>W\<close> is the data layer that receives the ballot; a body that is no JSON is \<open>None\<close>. The gateway's reason
  stays in the answer.
\<close>

definition api_submit_ballot ::
    "('a, 'b) suite \<Rightarrow> host \<Rightarrow> 's ElectionDataLayer \<Rightarrow> int \<Rightarrow> int \<Rightarrow> bool \<Rightarrow> Signer option \<Rightarrow> string \<Rightarrow> json option \<Rightarrow> 's \<Rightarrow> 's \<times> response" where
  "api_submit_ballot S H W now now_dl filter_on gateway_signer eid body s =
     (case parse_eid eid of
        Inl e \<Rightarrow> (s, answer_api (Inl e))
      | Inr election_id \<Rightarrow>
          (case ebind (case body of None \<Rightarrow> Inl ValueError | Some b \<Rightarrow> get_item b ''ballot'') dec_ballot of
             Inl _ \<Rightarrow> (s, \<lparr>rs_status = 400, rs_json = Some (JObj [(''error'', JStr ''MALFORMED'')])\<rparr>)
           | Inr ballot \<Rightarrow>
               (case gateway_submit_ballot S H W now now_dl filter_on gateway_signer election_id ballot s of
                  Inl (GatewayRejection reason) \<Rightarrow>
                    (s, \<lparr>rs_status = 400, rs_json = Some (JObj [(''error'', JStr ''REJECTED''), (''reason'', JStr reason)])\<rparr>)
                | Inl VotingWindowError \<Rightarrow>
                    (s, \<lparr>rs_status = 400, rs_json = Some (JObj [(''error'', JStr ''OUTSIDE_VOTING_WINDOW'')])\<rparr>)
                | Inl KeyError \<Rightarrow> (s, \<lparr>rs_status = 404, rs_json = Some (JObj [(''error'', JStr ''UNKNOWN_ELECTION'')])\<rparr>)
                | Inl e \<Rightarrow> (s, answer_api (Inl e))
                | Inr (s', seq) \<Rightarrow> (s', \<lparr>rs_status = 200, rs_json = Some (JObj [(''sequenceNumber'', JInt seq)])\<rparr>))))"


section \<open>Lemmas\<close>

lemma not_hex: "hex_val c = None \<Longrightarrow> n < 16 \<Longrightarrow> hex_digit n \<noteq> c"
  using hex_val_digit [of n] by auto

lemma uspace_not_hex: "is_uspace c \<Longrightarrow> hex_val c = None"
  by (auto simp: is_uspace_def hex_val_def Let_def)

lemma hex_digit_val: "n < 16 \<Longrightarrow> hex_digit n \<noteq> CHR ''x'' \<and> hex_digit n \<noteq> CHR ''X'' \<and> \<not> is_uspace (hex_digit n)"
  using not_hex [of "CHR ''x''" n] not_hex [of "CHR ''X''" n] not_hex [of "hex_digit n" n] uspace_not_hex [of "hex_digit n"]
  by (auto simp: hex_val_def)

lemma tohex_chars: "list_all (\<lambda>c. c \<noteq> CHR ''x'' \<and> c \<noteq> CHR ''X'' \<and> \<not> is_uspace c) (tohex b)"
  by (induction b) (simp_all add: hex_digit_val unat_byte_split)

lemma hexdigits_tohex: "hexdigits a True (tohex b) = Some (nat (int a * 256 ^ length b + int_from_bytes b))"
proof (induction b arbitrary: a)
  case (Cons x b)
  have u: "(a * 16 + unat x div 16) * 16 + unat x mod 16 = a * 256 + unat x" by simp
  have u': "unat x + 256 * a = a * 256 + unat x" by simp
  have "hexdigits a True (tohex (x # b)) = hexdigits (a * 256 + unat x) True (tohex b)"
    by (simp add: unat_byte_split) (simp only: u')
  also have "\<dots> = Some (nat (int (a * 256 + unat x) * 256 ^ length b + int_from_bytes b))" by (rule Cons.IH)
  also have "int (a * 256 + unat x) * 256 ^ length b + int_from_bytes b = int a * 256 ^ length (x # b) + int_from_bytes (x # b)"
    by (simp add: int_from_bytes_Cons distrib_right mult.assoc add.assoc)
  finally show ?case .
qed simp

lemma strip_hex: "strip (''0x'' @ tohex b) = ''0x'' @ tohex b"
proof (rule strip_no_space)
  have "list_all (\<lambda>c. \<not> is_uspace c) (tohex b)" using tohex_chars [of b] by (auto simp: list_all_iff)
  then show "list_all (\<lambda>c. \<not> is_uspace c) (''0x'' @ tohex b)" by (simp add: is_uspace_def Let_def)
qed

lemma int16_enc: "b \<noteq> [] \<Longrightarrow> int16 (''0x'' @ tohex b) = Inr (int_from_bytes b)"
proof -
  assume "b \<noteq> []"
  then have "tohex b \<noteq> []" by (cases b) simp_all
  with hexdigits_tohex [of 0 b] show ?thesis unfolding int16_def Let_def strip_hex by simp
qed

section \<open>Round trips\<close>

lemma lower_char_x: "lower_char c = CHR ''x'' \<Longrightarrow> c = CHR ''x'' \<or> c = CHR ''X''"
proof -
  assume l: "lower_char c = CHR ''x''"
  let ?n = "of_char c :: nat"
  show ?thesis
  proof (cases "lower_char c = c")
    case False
    then have n: "65 \<le> ?n \<and> ?n \<le> 90 \<or> 192 \<le> ?n \<and> ?n \<le> 222" "lower_char c = char_of (?n + 32)"
      by (auto simp: lower_char_def Let_def split: if_splits)
    have "(of_char (char_of (?n + 32) :: char) :: nat) = of_char (CHR ''x'')" using l n(2) by simp
    then have "(?n + 32) mod 256 = 120" by simp
    then have "?n = 88" using n(1) by auto
    then have "?n = of_char (CHR ''X'')" by simp
    then have "c = CHR ''X''" by (simp only: of_char_eq_iff)
    then show ?thesis by simp
  qed (use l in simp)
qed

lemma lower_prefix: "list_all (\<lambda>c. c \<noteq> CHR ''x'' \<and> c \<noteq> CHR ''X'') s \<Longrightarrow> lower (take 2 s) \<noteq> ''0x''"
  by (cases s; cases "tl s") (auto simp: lower_def dest: lower_char_x)

text \<open>The client's way back: the decimal id of an object as the 32 bytes it stands for.\<close>

fun rehex :: "json \<Rightarrow> json" where
  "rehex (JObj kvs) =
     JObj (map (\<lambda>kv.
       case snd kv of
         JInt n \<Rightarrow> (fst kv, if fst kv = ''electionId'' then enc_bytes (be 32 n) else JInt n)
       | _ \<Rightarrow> (fst kv, rehex (snd kv))) kvs)"
| "rehex (JArr xs) = JArr (map rehex xs)"
| "rehex v = v"

text \<open>Values whose election ids are all the hexadecimal text of 32 bytes.\<close>

fun canonical_ids :: "json \<Rightarrow> bool" where
  "canonical_ids (JObj kvs) =
     list_all (\<lambda>kv. if fst kv = ''electionId'' then (\<exists>e. length e = 32 \<and> snd kv = enc_bytes e) else canonical_ids (snd kv)) kvs"
| "canonical_ids (JArr xs) = list_all canonical_ids xs"
| "canonical_ids v = True"

lemma emap_inverse: "(\<And>x. x \<in> set xs \<Longrightarrow> \<exists>y. f x = Inr y \<and> g y = x) \<Longrightarrow> \<exists>ys. emap f xs = Inr ys \<and> map g ys = xs"
proof (induction xs)
  case (Cons x xs)
  then obtain y ys where "f x = Inr y" "g y = x" "emap f xs = Inr ys" "map g ys = xs" by force
  then show ?case by (intro exI [of _ "y # ys"]) simp
qed simp

lemma rehex_id: "length e = 32 \<Longrightarrow> be 32 (int_from_bytes e) = e"
  using be_int_from_bytes [of e] by simp

lemma decimalize_lossless: "canonical_ids j \<Longrightarrow> \<exists>d. decimalize j = Inr d \<and> rehex d = j"
proof (induction j)
  case (JArr xs)
  then have "\<exists>ys. emap decimalize xs = Inr ys \<and> map rehex ys = xs" by (intro emap_inverse) (auto simp: list_all_iff)
  then show ?case by auto
next
  case (JObj kvs)
  let ?g = "\<lambda>kv. case snd kv of JInt n \<Rightarrow> (fst kv, if fst kv = ''electionId'' then enc_bytes (be 32 n) else JInt n) | _ \<Rightarrow> (fst kv, rehex (snd kv))"
  have kv: "\<exists>y. (case snd x of
         JStr v \<Rightarrow> if fst x = ''electionId'' then ebind (int16 v) (\<lambda>n. Inr (fst x, JInt n)) else Inr (fst x, JStr v)
       | _ \<Rightarrow> ebind (decimalize (snd x)) (\<lambda>w. Inr (fst x, w))) = Inr y \<and> ?g y = x" if x: "x \<in> set kvs" for x
  proof -
    obtain k v where kv: "x = (k, v)" by force
    show ?thesis
    proof (cases "k = ''electionId''")
      case True
      then obtain e where "length e = 32" "v = enc_bytes e" using bspec [OF JObj.prems [simplified list_all_iff canonical_ids.simps] x] kv by auto
      moreover from this have "e \<noteq> []" by auto
      ultimately show ?thesis using True int16_enc [of e] rehex_id [of e]
        by (intro exI [of _ "(k, JInt (int_from_bytes e))"]) (simp add: kv enc_bytes_def)
    next
      case False
      then have c: "canonical_ids v" using bspec [OF JObj.prems [simplified list_all_iff canonical_ids.simps] x] kv by auto
      have "v \<in> Basic_BNFs.snds x" by (simp add: kv)
      from JObj.IH [OF x this c] obtain d where "decimalize v = Inr d" "rehex d = v" by blast
      then show ?thesis using False by (cases v; cases d) (auto simp: kv)
    qed
  qed
  obtain ys where "emap (\<lambda>x. case snd x of
         JStr v \<Rightarrow> if fst x = ''electionId'' then ebind (int16 v) (\<lambda>n. Inr (fst x, JInt n)) else Inr (fst x, JStr v)
       | _ \<Rightarrow> ebind (decimalize (snd x)) (\<lambda>w. Inr (fst x, w))) kvs = Inr ys" "map ?g ys = kvs"
    using emap_inverse [of kvs, OF kv] by blast
  then show ?case by (intro exI [of _ "JObj ys"]) simp
qed auto

lemma canonical_enc_bytes [simp]: "canonical_ids (enc_bytes b)" "canonical_ids (scheme_value sch)"
  by (simp_all add: enc_bytes_def scheme_value_def)

lemma canonical_envelopes:
  "ok_ballot b \<Longrightarrow> canonical_ids (enc_ballot b)"
  "ok_dkg_result d \<Longrightarrow> canonical_ids (enc_dkg_result d)"
  "ok_aggregate a \<Longrightarrow> canonical_ids (enc_aggregate a)"
  "ok_decryption_share sh \<Longrightarrow> canonical_ids (enc_decryption_share sh)"
  "ok_result r \<Longrightarrow> canonical_ids (enc_result r)"
  "ok_config c \<Longrightarrow> canonical_ids (enc_config c)"
  subgoal by (auto simp: enc_ballot_def enc_attestation_def enc_ciphertext_def ok_ballot_def ok_attestation_def list_all_iff)
  subgoal by (auto simp: enc_dkg_result_def ok_dkg_result_def list_all_iff)
  subgoal by (auto simp: enc_aggregate_def enc_ciphertext_def enc_exclusion_def ok_aggregate_def list_all_iff)
  subgoal by (auto simp: enc_decryption_share_def enc_share_entry_def ok_decryption_share_def list_all_iff)
  subgoal by (auto simp: enc_result_def ok_result_def list_all_iff)
  subgoal by (auto simp: enc_config_def enc_keyper_def ok_config_def list_all_iff)
  done

text \<open>A codec whose values the public API may show: the decimal form is decoded back.\<close>

locale public_codec = codec enc dec ok for enc :: "'a \<Rightarrow> json" and dec :: "json \<Rightarrow> 'a result" and ok :: "'a \<Rightarrow> bool" +
  assumes canonical: "ok x \<Longrightarrow> canonical_ids (enc x)"
begin

lemma lossless: "ok x \<Longrightarrow> \<exists>j. decimalize (enc x) = Inr j \<and> dec (rehex j) = Inr x"
  using decimalize_lossless [OF canonical, of x] dec_enc [of x] by auto

end

interpretation ballot_api: public_codec enc_ballot dec_ballot ok_ballot
  by unfold_locales (rule canonical_envelopes)

interpretation dkg_api: public_codec enc_dkg_result dec_dkg_result ok_dkg_result
  by unfold_locales (rule canonical_envelopes)

interpretation aggregate_api: public_codec enc_aggregate dec_aggregate ok_aggregate
  by unfold_locales (rule canonical_envelopes)

interpretation share_api: public_codec enc_decryption_share dec_decryption_share ok_decryption_share
  by unfold_locales (rule canonical_envelopes)

interpretation result_api: public_codec enc_result dec_result ok_result
  by unfold_locales (rule canonical_envelopes)

interpretation config_api: public_codec enc_config "dec_config repr" ok_config for repr
  by unfold_locales (rule canonical_envelopes)

lemma show_nat_digit_count: "n < 10 ^ Suc k \<Longrightarrow> length (show_nat n) \<le> Suc k"
proof (induction k arbitrary: n)
  case 0
  then show ?case by (subst show_nat.simps) simp
next
  case (Suc k)
  show ?case
  proof (cases "n < 10")
    case True
    then show ?thesis by (subst show_nat.simps) simp
  next
    case False
    have "n div 10 < 10 ^ Suc k" using Suc.prems by (simp add: less_mult_imp_div_less)
    with Suc.IH have "length (show_nat (n div 10)) \<le> Suc k" by blast
    with False show ?thesis by (subst show_nat.simps) simp
  qed
qed

lemma parse_hex: "length e = 32 \<Longrightarrow> parse_eid (tohex e) = Inr e \<and> parse_eid (''0x'' @ tohex e) = Inr e"
proof -
  assume e: "length e = 32"
  have "lower (take 2 (tohex e)) \<noteq> ''0x''" using tohex_chars [of e] by (intro lower_prefix) (auto simp: list_all_iff)
  moreover have "lower (take 2 (''0x'' @ tohex e)) = ''0x''" by (simp add: lower_def lower_char_def)
  ultimately show ?thesis using e by (simp add: parse_eid_def Let_def)
qed

lemma parse_decimal: "0 \<le> n \<Longrightarrow> n < 10 ^ 63 \<Longrightarrow> parse_eid (str_int n) = Inr (be 32 n)"
proof -
  assume n: "0 \<le> n" "n < 10 ^ 63"
  let ?s = "show_nat (nat n)"
  have s: "str_int n = ?s" using n by (simp add: str_int_def)
  have d: "list_all is_digit ?s" by (rule show_nat_digits)
  have "nat n < 10 ^ Suc 62" using n by (simp add: nat_less_iff)
  then have l: "length ?s \<le> 63" using show_nat_digit_count [of "nat n" 62] by simp
  have "c \<noteq> CHR ''x'' \<and> c \<noteq> CHR ''X''" if "is_digit c" for c using that by (auto simp: is_digit_def)
  then have p: "lower (take 2 ?s) \<noteq> ''0x''" using d by (intro lower_prefix) (auto simp: list_all_iff)
  have r: "drop_bit 256 n = 0" "n < 256 ^ 32" using n by (simp_all add: drop_bit_eq_div)
  have "int_of_str ?s = Inr n" using int_of_str_all [of n] s by simp
  then show ?thesis using p l d r n by (simp add: parse_eid_def Let_def s)
qed

section \<open>Properties\<close>

text \<open>
  Both spellings of an election id are understood. The bare and the prefixed hexadecimal text of
  32 bytes are read as these bytes, and so is the decimal number the API itself shows, as long as it
  has fewer than 64 digits.
\<close>

theorem election_id_roundtrip:
  assumes "length e = 32"
  shows "parse_eid (tohex e) = Inr e \<and> parse_eid (''0x'' @ tohex e) = Inr e \<and>
    (eid_num e < 10 ^ 63 \<longrightarrow> parse_eid (str_int (eid_num e)) = Inr e)"
  using parse_hex [OF assms] parse_decimal [of "eid_num e"] rehex_id [OF assms] by (simp add: eid_num_def)

text \<open>
  The decimal form of the public API loses nothing. Every artifact that fits its codec is answered
  in a form from which a client that writes each decimal id back as 32 bytes decodes the artifact
  itself: configurations, ballots, key submissions, aggregates, decryption shares and results.
\<close>

theorem decimal_envelopes_lossless:
  "(ok_config c \<longrightarrow> (\<exists>j. decimalize (enc_config c) = Inr j \<and> dec_config repr (rehex j) = Inr c)) \<and>
   (ok_ballot b \<longrightarrow> (\<exists>j. decimalize (enc_ballot b) = Inr j \<and> dec_ballot (rehex j) = Inr b)) \<and>
   (ok_dkg_result d \<longrightarrow> (\<exists>j. decimalize (enc_dkg_result d) = Inr j \<and> dec_dkg_result (rehex j) = Inr d)) \<and>
   (ok_aggregate a \<longrightarrow> (\<exists>j. decimalize (enc_aggregate a) = Inr j \<and> dec_aggregate (rehex j) = Inr a)) \<and>
   (ok_decryption_share sh \<longrightarrow> (\<exists>j. decimalize (enc_decryption_share sh) = Inr j \<and> dec_decryption_share (rehex j) = Inr sh)) \<and>
   (ok_result r \<longrightarrow> (\<exists>j. decimalize (enc_result r) = Inr j \<and> dec_result (rehex j) = Inr r))"
  by (intro conjI impI config_api.lossless ballot_api.lossless dkg_api.lossless aggregate_api.lossless share_api.lossless result_api.lossless)

text \<open>The parser is not as strict as it says: white space in a segment of 64 characters makes a shorter id.\<close>

lemma parse_eid_short: "parse_eid (''  '' @ tohex (be 31 1)) = Inr (be 31 1)"
proof -
  have "lower (take 2 (''  '' @ tohex (be 31 1))) \<noteq> ''0x''" by (simp add: lower_def lower_char_def)
  moreover have "fromhex (''  '' @ tohex (be 31 1)) = Inr (be 31 1)"
  proof -
    obtain c d cs where t: "tohex (be 31 1) = c # d # cs" by (cases "be 31 1") auto
    have "fromhex (''  '' @ tohex (be 31 1)) = fromhex (tohex (be 31 1))" by (simp add: t is_space_def)
    then show ?thesis by simp
  qed
  ultimately show ?thesis by (simp add: parse_eid_def Let_def)
qed

lemma api_ballot_cases:
  assumes "api_submit_ballot S H W now now_dl f g eid body s = (s', r)"
  shows "(rs_status r = 200 \<and> (\<exists>e b seq. parse_eid eid = Inr e \<and> ebind (case body of None \<Rightarrow> Inl ValueError | Some b \<Rightarrow> get_item b ''ballot'') dec_ballot = Inr b \<and>
      gateway_submit_ballot S H W now now_dl f g e b s = Inr (s', seq) \<and> rs_json r = Some (JObj [(''sequenceNumber'', JInt seq)]))) \<or>
    (400 \<le> rs_status r \<and> s' = s)"
  using assms
  by (auto simp: api_submit_ballot_def answer_api_def api_status_def split: sum.splits prod.splits error.splits)

text \<open>
  C21: a ballot the public API accepts counts. When the filtering route answers 200, the body carried a
  ballot that fits its codec, the data layer holds it as its last ballot under the sequence number in
  the answer, and it passes the validation of the tally; after every other answer the data layer is
  unchanged.
\<close>

theorem api_ballot_counts:
  assumes "mem_reachable H m" and "parse_eid eid = Inr e" "im_get m e = Inr st"
    and "api_submit_ballot S H (memory_port H) now now_dl True signer eid body m = (m', r)"
  shows "(rs_status r = 200 \<longrightarrow> (\<exists>j b sb fk mpk. body = Some j \<and> ebind (get_item j ''ballot'') dec_ballot = Inr b \<and> ok_ballot b \<and> sb_envelope sb = b \<and>
      im_get m' e = Inr (st\<lparr>st_ballots := st_ballots st @ [sb]\<rparr>) \<and> rs_json r = Some (JObj [(''sequenceNumber'', JInt (sb_sequence_number sb))]) \<and>
      im_get_finalized_key e m = Inr (Some fk) \<and> g2_from_compressed S (fk_pk_election fk) = Inr mpk \<and>
      validate_ballot S sb (st_config st) mpk = Inr None)) \<and>
    (rs_status r \<noteq> 200 \<longrightarrow> m' = m)"
proof (intro conjI impI)
  assume "rs_status r = 200"
  with api_ballot_cases [OF assms(4)] assms(2) obtain b seq where b: "ebind (case body of None \<Rightarrow> Inl ValueError | Some b \<Rightarrow> get_item b ''ballot'') dec_ballot = Inr b"
    "gateway_submit_ballot S H (memory_port H) now now_dl True signer e b m = Inr (m', seq)" "rs_json r = Some (JObj [(''sequenceNumber'', JInt seq)])"
    by auto
  from b(1) obtain j where j: "body = Some j" "ebind (get_item j ''ballot'') dec_ballot = Inr b" by (cases body) auto
  have ok: "ok_ballot b" using j(2) by (auto dest: ballot_codec.dec_ok)
  obtain sb fk mpk where "im_get m' e = Inr (st\<lparr>st_ballots := st_ballots st @ [sb]\<rparr>)" "sb_envelope sb = b" "sb_sequence_number sb = seq"
    "im_get_finalized_key e m = Inr (Some fk)" "g2_from_compressed S (fk_pk_election fk) = Inr mpk" "validate_ballot S sb (st_config st) mpk = Inr None"
    using gateway_stores_valid [OF assms(1,3) b(2)] by blast
  with j ok b(3) show "\<exists>j b sb fk mpk. body = Some j \<and> ebind (get_item j ''ballot'') dec_ballot = Inr b \<and> ok_ballot b \<and> sb_envelope sb = b \<and>
      im_get m' e = Inr (st\<lparr>st_ballots := st_ballots st @ [sb]\<rparr>) \<and> rs_json r = Some (JObj [(''sequenceNumber'', JInt (sb_sequence_number sb))]) \<and>
      im_get_finalized_key e m = Inr (Some fk) \<and> g2_from_compressed S (fk_pk_election fk) = Inr mpk \<and>
      validate_ballot S sb (st_config st) mpk = Inr None" by blast
qed (use api_ballot_cases [OF assms(4)] in auto)

text \<open>A ballot that passes the validation of the tally fits the codec, so it can reach every service.\<close>

lemma decompressed_sizes: "g1_from_compressed S b = Inr P \<Longrightarrow> length b = 48" "g2_from_compressed S c = Inr Q \<Longrightarrow> length c = 96"
  by (auto simp: g1_from_compressed_def g2_from_compressed_def from_compressed_def G1_BYTES_def G2_BYTES_def split: if_split_asm)

lemma decompressed_ct_sizes: "emap (decompress_ct S) (map (\<lambda>ct. (ct_c1 ct, ct_c2 ct)) cts) = Inr ps \<Longrightarrow> list_all ok_ciphertext cts"
  by (induction cts arbitrary: ps) (auto simp: decompress_ct_def ok_ciphertext_def dest: decompressed_sizes)

lemma verified_sizes:
  assumes "verify_ballot_crypto S mpk eid ps vkb cts zk sig att nc budget = Inr (True, why)"
  shows "length eid = 32 \<and> length ps = 32 \<and> length sig = 80 \<and> (\<exists>vk. g1_from_compressed S vkb = Inr vk) \<and> (\<exists>pts. emap (decompress_ct S) cts = Inr pts)"
proof -
  have "\<exists>R. schnorr_decode S sig = Inr R"
    using assms by (auto simp: verify_ballot_crypto_def Let_def split_def split: if_split_asm sum.split_asm)
  then have "length sig = 80" by (auto simp: schnorr_decode_def SCHNORR_BYTES_def split: if_split_asm)
  with assms show ?thesis by (auto simp: verify_ballot_crypto_def split: if_split_asm sum.split_asm)
qed

lemma valid_ballot_ok:
  assumes "validate_ballot S sb config mpk = Inr None"
  shows "ok_ballot (sb_envelope sb)"
proof -
  note v = validate_accepts_stages [OF assms]
  from v(7) obtain why where "verify_ballot_crypto S mpk (be_election_id (sb_envelope sb)) (be_pseudonym (sb_envelope sb))
       (be_vk (sb_envelope sb)) (map (\<lambda>ct. (ct_c1 ct, ct_c2 ct)) (be_ciphertexts (sb_envelope sb)))
       (be_zk_proof (sb_envelope sb)) (be_voter_signature (sb_envelope sb)) (be_attestation (sb_envelope sb))
       (cfg_num_candidates config) (cfg_budget config) = Inr (True, why)" by blast
  from verified_sizes [OF this] verify_attestation_guard [OF v(6)] v(1,3) show ?thesis
    by (auto simp: ok_ballot_def ok_attestation_def dest: decompressed_sizes decompressed_ct_sizes [simplified])
qed

section \<open>Witnesses\<close>

lemma election_id_roundtrip_witness: "parse_eid (str_int (eid_num (be 32 7))) = Inr (be 32 7) \<and> parse_eid (''0x'' @ tohex (be 32 7)) = Inr (be 32 7)"
proof -
  have "eid_num (be 32 7) = 7" by (simp add: eid_num_def int_from_bytes_be)
  with election_id_roundtrip [of "be 32 7"] show ?thesis by simp
qed

lemma decimal_envelopes_lossless_witness:
  "\<exists>j. decimalize (enc_config sample_election) = Inr j \<and> dec_config (\<lambda>j. []) (rehex j) = Inr sample_election"
  using decimal_envelopes_lossless [of sample_election "\<lambda>j. []"] sample_election_carried by blast

lemma api_ballot_counts_witness:
  "\<exists>b m' r sb st. api_submit_ballot zq_suite sample_host (memory_port sample_host) 150 151 True None (tohex (be 32 1))
       (Some (JObj [(''ballot'', enc_ballot b)])) (sample_memory [(1, sample_dkg 1), (2, sample_dkg 2)]) = (m', r) \<and> rs_status r = 200 \<and>
     im_get m' (be 32 1) = Inr st \<and> st_ballots st = [sb] \<and> sb_envelope sb = b"
proof -
  let ?m = "sample_memory [(1, sample_dkg 1), (2, sample_dkg 2)]"
  obtain b m' where m': "gateway_submit_ballot zq_suite sample_host (memory_port sample_host) 150 151 True None (be 32 1) b ?m = Inr (m', 0)"
    and b: "\<And>seq ts. is_voting_open sample_election ts \<Longrightarrow>
       validate_ballot zq_suite \<lparr>sb_sequence_number = seq, sb_envelope = b, sb_submitted_at = Some ts\<rparr> sample_election 9 = Inr None"
    by (rule sample_gateway_accepts) blast
  have "ok_ballot b" using valid_ballot_ok [OF b [of 150]] by (simp add: is_voting_open_def sample_election_def)
  then have d: "ebind (get_item (JObj [(''ballot'', enc_ballot b)]) ''ballot'') dec_ballot = Inr b"
    by (simp add: get_item_def ballot_codec.dec_enc)
  have e: "parse_eid (tohex (be 32 1)) = Inr (be 32 1)" using parse_hex [of "be 32 1"] by simp
  obtain r where r: "api_submit_ballot zq_suite sample_host (memory_port sample_host) 150 151 True None (tohex (be 32 1))
       (Some (JObj [(''ballot'', enc_ballot b)])) ?m = (m', r)" "rs_status r = 200"
    by (simp only: api_submit_ballot_def e d m' sum.case option.case prod.case) simp
  from api_ballot_counts [OF sample_reachable e sample_memory_get r(1)] r(2) d
  obtain sb where "sb_envelope sb = b" "\<exists>st. im_get m' (be 32 1) = Inr st \<and> st_ballots st = [sb]"
    by (auto simp: Stored_init_def)
  with r show ?thesis by blast
qed

end
