(* ===== verification/Contract.thy ===== *)
theory Contract
  imports Data_Layer
begin

text \<open>
  The Solidity contracts of \<^verbatim>\<open>contracts/src\<close>: \<^verbatim>\<open>KeyperSet.sol\<close>, the bases of \<^verbatim>\<open>Election.sol\<close> under
  \<^verbatim>\<open>election/\<close> and \<^verbatim>\<open>ElectionRegistry.sol\<close>, with the structs of \<^verbatim>\<open>VotingTypes.sol\<close>. Every external
  function is a function of the block timestamp, the sender and the contract's storage that reverts
  with one of the contracts' errors or returns the new storage. A Solidity mapping is a total
  function with its default value. The immutables copied from the parameters stay in one record; the
  keyper set, immutable once deployed, is held by value; an emitted event the adapter reads back is
  appended to a log. An encoded aggregate is kept as the value it encodes.

  The proved part: an invariant of every reachable election, by which a finalized key and a
  published aggregate each rest on the votes of a majority quorum of distinct members.
\<close>

section \<open>Reverts\<close>

datatype revert_error =
    AggregateNotPublished | AlreadyFinalized | AlreadyVoted | AlreadyCancelled | BallotNotFound
  | InvalidCommitteeLength | InvalidConfig | InvalidG1PointLength | InvalidG2PointLength | InvalidPseudonym
  | InvalidResultPayload | InvalidVoteFee | InvalidVotePayload | InvalidAggregatePayload
  | InvalidDecryptionSharePayload | DKGNotFinalized | EtherTransferFailed | DirectETHUnsupported
  | VotingClosed | VotingNotStarted | VotingStillOpen | VotingAlreadyStarted | UnauthorizedKeyper
  | DuplicateMember | InvalidMember | InvalidThreshold | URLsLengthMismatch | InvalidKeyperSet
  | AccessControlUnauthorizedAccount | ECDSAInvalidSignature | Panic

type_synonym 'a tx = "revert_error + 'a"

definition tbind :: "'a tx \<Rightarrow> ('a \<Rightarrow> 'b tx) \<Rightarrow> 'b tx" where
  "tbind m f = (case m of Inl r \<Rightarrow> Inl r | Inr x \<Rightarrow> f x)"

lemma tbind_simps [simp]: "tbind (Inl r) f = Inl r" "tbind (Inr x) f = f x"
  by (simp_all add: tbind_def)

lemma tbind_Inr [simp]: "tbind m f = Inr y \<longleftrightarrow> (\<exists>x. m = Inr x \<and> f x = Inr y)"
  by (cases m) auto

text \<open>
  What the contracts use of OpenZeppelin and of the ABI beyond the host functions of the digests:
  \<open>ECDSA.recover\<close> over the personal-message hash, \<open>None\<close> where it reverts, and \<open>abi.encode\<close> of a key
  with its committee. \<open>json_loads\<close> is the adapter's \<open>json.loads\<close> of UTF-8 bytes.
\<close>

record chain_lib =
  ecdsa_recover :: "bytes \<Rightarrow> bytes \<Rightarrow> bytes option"
  abi_dkg_vote :: "bytes \<Rightarrow> bytes list \<Rightarrow> bytes"
  json_loads :: "bytes \<Rightarrow> json result"

definition ZERO_ADDRESS :: bytes where "ZERO_ADDRESS = replicate 20 0"
definition ZERO_BYTES32 :: bytes where "ZERO_BYTES32 = replicate 32 0"

section \<open>The keyper set\<close>

record KeyperSet =
  ks_threshold :: int
  ks_members :: "bytes list"
  ks_urls :: "string list"
  ks_memberIndexPlusOne :: "bytes \<Rightarrow> int"

text \<open>The loop of the constructor over \<open>initialMembers\<close>.\<close>

fun push_members :: "bytes list \<Rightarrow> bytes list \<Rightarrow> (bytes \<Rightarrow> int) \<Rightarrow> (bytes list \<times> (bytes \<Rightarrow> int)) tx" where
  "push_members [] mem ix = Inr (mem, ix)"
| "push_members (m # ms) mem ix =
     (if m = ZERO_ADDRESS then Inl InvalidMember
      else if ix m \<noteq> 0 then Inl DuplicateMember
      else push_members ms (mem @ [m]) (ix(m := int (length mem) + 1)))"

definition KeyperSet_constructor :: "bytes list \<Rightarrow> string list \<Rightarrow> int \<Rightarrow> KeyperSet tx" where
  "KeyperSet_constructor initialMembers initialURLs initialThreshold =
     (if length initialURLs \<noteq> length initialMembers then Inl URLsLengthMismatch
      else
        tbind (push_members initialMembers [] (\<lambda>_. 0)) (\<lambda>(mem, ix).
        if initialThreshold = 0 \<or> initialThreshold > int (length mem) then Inl InvalidThreshold
        else if initialThreshold * 2 \<ge> 2 ^ 64 then Inl Panic
        else if initialThreshold * 2 \<le> int (length mem) then Inl InvalidThreshold
        else Inr \<lparr>ks_threshold = initialThreshold, ks_members = mem, ks_urls = initialURLs, ks_memberIndexPlusOne = ix\<rparr>))"

definition getNumMembers :: "KeyperSet \<Rightarrow> int" where "getNumMembers ks = int (length (ks_members ks))"

definition getMemberIndex :: "bytes \<Rightarrow> KeyperSet \<Rightarrow> int tx" where
  "getMemberIndex account ks =
     (let indexPlusOne = ks_memberIndexPlusOne ks account in
      if indexPlusOne = 0 then Inl InvalidMember else Inr (indexPlusOne - 1))"

definition isMember :: "bytes \<Rightarrow> KeyperSet \<Rightarrow> bool" where
  "isMember account ks \<longleftrightarrow> ks_memberIndexPlusOne ks account \<noteq> 0"

section \<open>Structs\<close>

record ElectionParams =
  pa_votingStart :: int
  pa_votingEnd :: int
  pa_selfSubmitFee :: int
  pa_numCandidates :: int
  pa_budget :: int
  pa_mode :: int
  pa_variant :: int
  pa_weighted :: bool
  pa_scale :: int
  pa_duplicatePolicy :: int
  pa_protocolVersion :: string
  pa_pkWR :: bytes
  pa_resultPublisher :: bytes
  pa_voteProxy :: bytes

record SolBallot =
  bl_pseudonym :: bytes
  bl_vk :: bytes
  bl_ciphertexts :: "(bytes \<times> bytes) list"
  bl_zkProof :: bytes
  bl_voterSignature :: bytes
  bl_wrAttestation :: bytes

record BallotRecord =
  rc_ballot :: SolBallot
  rc_submittedAt :: int
  rc_submittedBy :: bytes

record EncryptedTally =
  et_aggregates :: "(bytes \<times> bytes) list"
  et_admitted :: "int list"
  et_exclusions :: "(int \<times> int) list"
  et_totalAdmittedWeight :: int
  et_totalScaledWeight :: int

record SolShare =
  sh_keyperIndex :: int
  sh_submittedAt :: int
  sh_shares :: "bytes list"
  sh_proofs :: "(int \<times> int) list"

record ElectionResult =
  rr_tally :: "int list"
  rr_keyperIndices :: "int list"

datatype role = DEFAULT_ADMIN_ROLE | RESULT_PUBLISHER_ROLE | VOTE_PROXY_ROLE

section \<open>An election\<close>

record Election =
  ec_electionId :: int
  ec_keyperSet :: KeyperSet
  ec_params :: ElectionParams
  ec_adminAddr :: bytes
  ec_roles :: "(role \<times> bytes) set"
  ec_balance :: int
  ec_cancelled :: bool
  ec_dkgFinalized :: bool
  ec_electionPublicKey :: bytes
  ec_committeePublicKeys :: "bytes list"
  ec_ballotRecords :: "BallotRecord list"
  ec_ballotIndexPlusOneByPseudonym :: "bytes \<Rightarrow> int"
  ec_encryptedTally :: "EncryptedTally option"
  ec_aggregatePublished :: bool
  ec_decryptionShares :: "SolShare list"
  ec_resultFinalized :: bool
  ec_tallyStalled :: bool
  ec_electionResult :: ElectionResult
  ec_hasVotedForDKG :: "bytes \<Rightarrow> bool"
  ec_dkgVoteCountByResult :: "bytes \<Rightarrow> int"
  ec_aggregateVoteDigestOf :: "bytes \<Rightarrow> bytes"
  ec_aggregateVoteCountByResult :: "bytes \<Rightarrow> int"
  ec_hasSubmittedDecryptionShare :: "bytes \<Rightarrow> bool"
  ec_DKGVoteRegistered :: "(bytes \<times> bytes) list"
  ec_AggregateVoteRegistered :: "(bytes \<times> bytes) list"

definition Election_constructor :: "bytes \<Rightarrow> int \<Rightarrow> KeyperSet \<Rightarrow> ElectionParams \<Rightarrow> Election tx" where
  "Election_constructor admin electionId keyperSet params =
     (if admin = ZERO_ADDRESS \<or> pa_resultPublisher params = ZERO_ADDRESS \<or> pa_voteProxy params = ZERO_ADDRESS \<or>
         pa_votingEnd params \<le> pa_votingStart params \<or> pa_numCandidates params = 0 \<or> pa_budget params = 0 \<or> pa_scale params = 0
      then Inl InvalidConfig
      else Inr \<lparr>ec_electionId = electionId, ec_keyperSet = keyperSet, ec_params = params, ec_adminAddr = admin,
        ec_roles = {(DEFAULT_ADMIN_ROLE, admin), (RESULT_PUBLISHER_ROLE, pa_resultPublisher params), (VOTE_PROXY_ROLE, pa_voteProxy params)},
        ec_balance = 0, ec_cancelled = False, ec_dkgFinalized = False, ec_electionPublicKey = [], ec_committeePublicKeys = [],
        ec_ballotRecords = [], ec_ballotIndexPlusOneByPseudonym = (\<lambda>_. 0), ec_encryptedTally = None, ec_aggregatePublished = False,
        ec_decryptionShares = [], ec_resultFinalized = False, ec_tallyStalled = False,
        ec_electionResult = \<lparr>rr_tally = [], rr_keyperIndices = []\<rparr>, ec_hasVotedForDKG = (\<lambda>_. False),
        ec_dkgVoteCountByResult = (\<lambda>_. 0), ec_aggregateVoteDigestOf = (\<lambda>_. ZERO_BYTES32),
        ec_aggregateVoteCountByResult = (\<lambda>_. 0), ec_hasSubmittedDecryptionShare = (\<lambda>_. False),
        ec_DKGVoteRegistered = [], ec_AggregateVoteRegistered = []\<rparr>)"

definition hasRole :: "role \<Rightarrow> bytes \<Rightarrow> Election \<Rightarrow> bool" where
  "hasRole r account E \<longleftrightarrow> (r, account) \<in> ec_roles E"

definition getPhase :: "int \<Rightarrow> Election \<Rightarrow> int" where
  "getPhase now E =
     (if now \<ge> pa_votingEnd (ec_params E) then 4
      else if now \<ge> pa_votingStart (ec_params E) then 3
      else if ec_dkgFinalized E then 2 else 0)"

definition g2_length :: "bytes \<Rightarrow> bool" where "g2_length point \<longleftrightarrow> length point = 96"

subsection \<open>Key generation\<close>

definition registerDKGVote :: "host \<Rightarrow> chain_lib \<Rightarrow> bytes \<Rightarrow> bytes \<Rightarrow> bytes list \<Rightarrow> Election \<Rightarrow> Election tx" where
  "registerDKGVote H L voter pkElection committeePKs E =
     (if \<not> isMember voter (ec_keyperSet E) then Inl UnauthorizedKeyper
      else if ec_hasVotedForDKG E voter then Inl AlreadyVoted
      else if \<not> g2_length pkElection then Inl InvalidG2PointLength
      else if int (length committeePKs) \<noteq> getNumMembers (ec_keyperSet E) then Inl InvalidCommitteeLength
      else if \<not> list_all g2_length committeePKs then Inl InvalidG2PointLength
      else
        let resultDigest = keccak H (abi_dkg_vote L pkElection committeePKs);
            count = ec_dkgVoteCountByResult E resultDigest + 1;
            E1 = E\<lparr>ec_hasVotedForDKG := (ec_hasVotedForDKG E)(voter := True),
                   ec_dkgVoteCountByResult := (ec_dkgVoteCountByResult E)(resultDigest := count),
                   ec_DKGVoteRegistered := ec_DKGVoteRegistered E @ [(voter, pkElection)]\<rparr> in
        Inr (if count \<ge> ks_threshold (ec_keyperSet E)
             then E1\<lparr>ec_electionPublicKey := pkElection, ec_committeePublicKeys := committeePKs, ec_dkgFinalized := True\<rparr>
             else E1))"

definition voteDKGResult :: "host \<Rightarrow> chain_lib \<Rightarrow> bytes \<Rightarrow> bytes \<Rightarrow> bytes list \<Rightarrow> Election \<Rightarrow> Election tx" where
  "voteDKGResult H L sender pkElection committeePKs E =
     (if ec_cancelled E then Inl AlreadyCancelled
      else if ec_dkgFinalized E then Inl AlreadyFinalized
      else registerDKGVote H L sender pkElection committeePKs E)"

text \<open>\<open>abi.encode\<close> of a value that arrived as calldata cannot fail.\<close>

definition encoded :: "bytes result \<Rightarrow> bytes tx" where
  "encoded r = (case r of Inl _ \<Rightarrow> Inl Panic | Inr b \<Rightarrow> Inr b)"

definition recover_signer :: "chain_lib \<Rightarrow> bytes \<Rightarrow> bytes \<Rightarrow> bytes tx" where
  "recover_signer L digest sig = (case ecdsa_recover L digest sig of None \<Rightarrow> Inl ECDSAInvalidSignature | Some a \<Rightarrow> Inr a)"

definition voteDKGResultSigned :: "host \<Rightarrow> chain_lib \<Rightarrow> bytes \<Rightarrow> bytes list \<Rightarrow> bytes \<Rightarrow> Election \<Rightarrow> Election tx" where
  "voteDKGResultSigned H L pkElection committeePKs keyperSig E =
     (if ec_cancelled E then Inl AlreadyCancelled
      else if ec_dkgFinalized E then Inl AlreadyFinalized
      else
        tbind (encoded (abi_bytes_array H committeePKs)) (\<lambda>enc.
        let digest = keccak H (encode_utf8 ''SHUTTER-GOVERNANCE-PROTOCOL-DKG-RESULT-v1'' @ be 32 (ec_electionId E) @ pkElection @ enc) in
        tbind (recover_signer L digest keyperSig) (\<lambda>signer.
        registerDKGVote H L signer pkElection committeePKs E)))"

subsection \<open>Voting\<close>

text \<open>The new index is returned, as the event carries it.\<close>

definition submitVote :: "int \<Rightarrow> bytes \<Rightarrow> int \<Rightarrow> SolBallot \<Rightarrow> Election \<Rightarrow> (Election \<times> int) tx" where
  "submitVote now sender val ballot E =
     (if ec_cancelled E then Inl AlreadyCancelled
      else if \<not> ec_dkgFinalized E then Inl DKGNotFinalized
      else if now < pa_votingStart (ec_params E) then Inl VotingNotStarted
      else if now \<ge> pa_votingEnd (ec_params E) then Inl VotingClosed
      else if bl_pseudonym ballot = ZERO_BYTES32 then Inl InvalidPseudonym
      else if length (bl_vk ballot) \<noteq> 48 \<or> length (bl_zkProof ballot) = 0 \<or> length (bl_voterSignature ballot) = 0 \<or>
              length (bl_wrAttestation ballot) = 0 \<or> int (length (bl_ciphertexts ballot)) \<noteq> pa_numCandidates (ec_params E)
      then Inl InvalidVotePayload
      else
        let expectedFee = (if hasRole VOTE_PROXY_ROLE sender E then 0 else pa_selfSubmitFee (ec_params E)) in
        if val \<noteq> expectedFee then Inl InvalidVoteFee
        else if \<not> list_all (\<lambda>(c1, c2). g2_length c1 \<and> g2_length c2) (bl_ciphertexts ballot) then Inl InvalidG2PointLength
        else
          let ballotIndex = int (length (ec_ballotRecords E));
              record = \<lparr>rc_ballot = ballot, rc_submittedAt = now mod 2 ^ 64, rc_submittedBy = sender\<rparr> in
          Inr (E\<lparr>ec_ballotRecords := ec_ballotRecords E @ [record], ec_balance := ec_balance E + val,
                 ec_ballotIndexPlusOneByPseudonym := (ec_ballotIndexPlusOneByPseudonym E)(bl_pseudonym ballot := ballotIndex + 1)\<rparr>,
               ballotIndex))"

definition getNumBallots :: "Election \<Rightarrow> int" where "getNumBallots E = int (length (ec_ballotRecords E))"

definition getBallot :: "bytes \<Rightarrow> Election \<Rightarrow> BallotRecord tx" where
  "getBallot pseudonym E =
     (let ballotIndexPlusOne = ec_ballotIndexPlusOneByPseudonym E pseudonym in
      if ballotIndexPlusOne = 0 then Inl BallotNotFound else Inr (ec_ballotRecords E ! nat (ballotIndexPlusOne - 1)))"

text \<open>An index past the end is a panic.\<close>

definition getBallots :: "int \<Rightarrow> int \<Rightarrow> Election \<Rightarrow> BallotRecord list tx" where
  "getBallots startIndex count E =
     (if count > 0 \<and> startIndex + count > int (length (ec_ballotRecords E)) then Inl Panic
      else Inr (take (nat count) (drop (nat startIndex) (ec_ballotRecords E))))"

subsection \<open>Tally\<close>

definition registerAggregate :: "int \<Rightarrow> bytes \<Rightarrow> bytes \<Rightarrow> EncryptedTally \<Rightarrow> Election \<Rightarrow> Election tx" where
  "registerAggregate now voter resultDigest aggregate E =
     (if ec_cancelled E then Inl AlreadyCancelled
      else if \<not> ec_dkgFinalized E then Inl DKGNotFinalized
      else if now < pa_votingEnd (ec_params E) then Inl VotingStillOpen
      else if ec_aggregatePublished E then Inl AlreadyFinalized
      else if \<not> isMember voter (ec_keyperSet E) then Inl UnauthorizedKeyper
      else if int (length (et_aggregates aggregate)) \<noteq> pa_numCandidates (ec_params E) then Inl InvalidAggregatePayload
      else
        let prev = ec_aggregateVoteDigestOf E voter in
        if prev = resultDigest then Inr E
        else if prev \<noteq> ZERO_BYTES32 \<and> ec_aggregateVoteCountByResult E prev < 1 then Inl Panic
        else
          let moved = (if prev \<noteq> ZERO_BYTES32
                       then (ec_aggregateVoteCountByResult E)(prev := ec_aggregateVoteCountByResult E prev - 1)
                       else ec_aggregateVoteCountByResult E);
              count = moved resultDigest + 1;
              E1 = E\<lparr>ec_aggregateVoteDigestOf := (ec_aggregateVoteDigestOf E)(voter := resultDigest),
                     ec_aggregateVoteCountByResult := moved(resultDigest := count),
                     ec_AggregateVoteRegistered := ec_AggregateVoteRegistered E @ [(voter, resultDigest)]\<rparr> in
          Inr (if count \<ge> ks_threshold (ec_keyperSet E)
               then E1\<lparr>ec_encryptedTally := Some aggregate, ec_aggregatePublished := True\<rparr> else E1))"

definition aggregateDigest :: "host \<Rightarrow> EncryptedTally \<Rightarrow> Election \<Rightarrow> bytes tx" where
  "aggregateDigest H aggregate E =
     tbind (encoded (abi_tally H (et_aggregates aggregate) (et_admitted aggregate) (et_exclusions aggregate)
        (et_totalAdmittedWeight aggregate) (et_totalScaledWeight aggregate))) (\<lambda>enc.
     Inr (keccak H (encode_utf8 ''SHUTTER-GOVERNANCE-PROTOCOL-AGGREGATE-v1'' @ be 32 (ec_electionId E) @ enc)))"

definition submitAggregate :: "host \<Rightarrow> int \<Rightarrow> bytes \<Rightarrow> EncryptedTally \<Rightarrow> Election \<Rightarrow> Election tx" where
  "submitAggregate H now sender aggregate E =
     tbind (aggregateDigest H aggregate E) (\<lambda>digest. registerAggregate now sender digest aggregate E)"

definition submitAggregateSigned :: "host \<Rightarrow> chain_lib \<Rightarrow> int \<Rightarrow> EncryptedTally \<Rightarrow> bytes \<Rightarrow> Election \<Rightarrow> Election tx" where
  "submitAggregateSigned H L now aggregate keyperSig E =
     tbind (aggregateDigest H aggregate E) (\<lambda>digest.
     tbind (recover_signer L digest keyperSig) (\<lambda>signer.
     registerAggregate now signer digest aggregate E))"

definition getAggregate :: "Election \<Rightarrow> EncryptedTally tx" where
  "getAggregate E =
     (if \<not> ec_aggregatePublished E then Inl AggregateNotPublished
      else case ec_encryptedTally E of None \<Rightarrow> Inl Panic | Some a \<Rightarrow> Inr a)"

definition publishResult :: "int \<Rightarrow> bytes \<Rightarrow> int list \<Rightarrow> int list \<Rightarrow> Election \<Rightarrow> Election tx" where
  "publishResult now sender totals keyperIndices E =
     (if \<not> hasRole RESULT_PUBLISHER_ROLE sender E then Inl AccessControlUnauthorizedAccount
      else if ec_cancelled E then Inl AlreadyCancelled
      else if \<not> ec_dkgFinalized E then Inl DKGNotFinalized
      else if now < pa_votingEnd (ec_params E) then Inl VotingStillOpen
      else if int (length totals) \<noteq> pa_numCandidates (ec_params E) \<or> keyperIndices = [] then Inl InvalidResultPayload
      else Inr (E\<lparr>ec_resultFinalized := True, ec_electionResult := \<lparr>rr_tally = totals, rr_keyperIndices = keyperIndices\<rparr>\<rparr>))"

definition markTallyStalled :: "int \<Rightarrow> bytes \<Rightarrow> Election \<Rightarrow> Election tx" where
  "markTallyStalled now sender E =
     (if \<not> hasRole RESULT_PUBLISHER_ROLE sender E then Inl AccessControlUnauthorizedAccount
      else if ec_cancelled E then Inl AlreadyCancelled
      else if now < pa_votingEnd (ec_params E) then Inl VotingStillOpen
      else if ec_resultFinalized E then Inl AlreadyFinalized
      else Inr (E\<lparr>ec_tallyStalled := True\<rparr>))"

definition clearTallyStalled :: "bytes \<Rightarrow> Election \<Rightarrow> Election tx" where
  "clearTallyStalled sender E =
     (if \<not> hasRole DEFAULT_ADMIN_ROLE sender E then Inl AccessControlUnauthorizedAccount
      else if ec_cancelled E then Inl AlreadyCancelled
      else Inr (E\<lparr>ec_tallyStalled := False\<rparr>))"

subsection \<open>Decryption shares\<close>

definition registerDecryptionShare :: "int \<Rightarrow> bytes \<Rightarrow> bytes list \<Rightarrow> (int \<times> int) list \<Rightarrow> Election \<Rightarrow> Election tx" where
  "registerDecryptionShare now voter shares proofs E =
     (if \<not> ec_aggregatePublished E then Inl AggregateNotPublished
      else if \<not> isMember voter (ec_keyperSet E) then Inl UnauthorizedKeyper
      else if ec_hasSubmittedDecryptionShare E voter then Inl AlreadyVoted
      else if int (length shares) \<noteq> pa_numCandidates (ec_params E) \<or> length proofs \<noteq> length shares then Inl InvalidDecryptionSharePayload
      else
        tbind (getMemberIndex voter (ec_keyperSet E)) (\<lambda>i.
        if \<not> list_all g2_length shares then Inl InvalidG2PointLength
        else Inr (E\<lparr>ec_hasSubmittedDecryptionShare := (ec_hasSubmittedDecryptionShare E)(voter := True),
                   ec_decryptionShares := ec_decryptionShares E @
                     [\<lparr>sh_keyperIndex = i mod 2 ^ 8, sh_submittedAt = now mod 2 ^ 64, sh_shares = shares, sh_proofs = proofs\<rparr>]\<rparr>)))"

definition submitDecryptionShare :: "int \<Rightarrow> bytes \<Rightarrow> bytes list \<Rightarrow> (int \<times> int) list \<Rightarrow> Election \<Rightarrow> Election tx" where
  "submitDecryptionShare now sender shares proofs E =
     (if ec_cancelled E then Inl AlreadyCancelled
      else if \<not> ec_dkgFinalized E then Inl DKGNotFinalized
      else if now < pa_votingEnd (ec_params E) then Inl VotingStillOpen
      else registerDecryptionShare now sender shares proofs E)"

definition submitDecryptionShareSigned ::
    "host \<Rightarrow> chain_lib \<Rightarrow> int \<Rightarrow> bytes list \<Rightarrow> (int \<times> int) list \<Rightarrow> bytes \<Rightarrow> Election \<Rightarrow> Election tx" where
  "submitDecryptionShareSigned H L now shares proofs keyperSig E =
     (if ec_cancelled E then Inl AlreadyCancelled
      else if \<not> ec_dkgFinalized E then Inl DKGNotFinalized
      else if now < pa_votingEnd (ec_params E) then Inl VotingStillOpen
      else
        tbind (encoded (abi_bytes_array H shares)) (\<lambda>s.
        tbind (encoded (abi_pair_array H proofs)) (\<lambda>p.
        let digest = keccak H (encode_utf8 ''SHUTTER-GOVERNANCE-PROTOCOL-DECRYPT-SHARE-v1'' @ be 32 (ec_electionId E) @ s @ p) in
        tbind (recover_signer L digest keyperSig) (\<lambda>signer.
        registerDecryptionShare now signer shares proofs E))))"

subsection \<open>Administration\<close>

definition cancelElection :: "int \<Rightarrow> bytes \<Rightarrow> Election \<Rightarrow> Election tx" where
  "cancelElection now sender E =
     (if \<not> hasRole DEFAULT_ADMIN_ROLE sender E then Inl AccessControlUnauthorizedAccount
      else if ec_cancelled E then Inl AlreadyCancelled
      else if now \<ge> pa_votingStart (ec_params E) then Inl VotingAlreadyStarted
      else Inr (E\<lparr>ec_cancelled := True\<rparr>))"

text \<open>\<open>sent\<close> tells whether the call that transfers the balance succeeded.\<close>

definition withdrawFees :: "bool \<Rightarrow> bytes \<Rightarrow> bytes \<Rightarrow> Election \<Rightarrow> Election tx" where
  "withdrawFees sent sender recipient E =
     (if \<not> hasRole DEFAULT_ADMIN_ROLE sender E then Inl AccessControlUnauthorizedAccount
      else if recipient = ZERO_ADDRESS then Inl InvalidConfig
      else if \<not> sent then Inl EtherTransferFailed
      else Inr (E\<lparr>ec_balance := 0\<rparr>))"

section \<open>The registry and the chain\<close>

text \<open>
  The registry's storage with the elections it deployed, the accounts of its admin role, and the
  timestamp of the block a transaction is executed in. An address the registry does not know is \<open>None\<close>.
\<close>

record chain =
  ch_admins :: "bytes set"
  ch_electionCount :: int
  ch_elections :: "int \<Rightarrow> Election option"
  ch_timestamp :: int

definition ElectionRegistry_constructor :: "bytes \<Rightarrow> int \<Rightarrow> chain" where
  "ElectionRegistry_constructor admin now =
     \<lparr>ch_admins = {admin}, ch_electionCount = 0, ch_elections = (\<lambda>_. None), ch_timestamp = now\<rparr>"

definition publishElection :: "bytes \<Rightarrow> KeyperSet \<Rightarrow> ElectionParams \<Rightarrow> chain \<Rightarrow> (chain \<times> int) tx" where
  "publishElection sender keyperSet params w =
     (if sender \<notin> ch_admins w then Inl AccessControlUnauthorizedAccount
      else if getNumMembers keyperSet = 0 \<or> ks_threshold keyperSet = 0 \<or> ks_threshold keyperSet > getNumMembers keyperSet
      then Inl InvalidKeyperSet
      else
        let electionId = ch_electionCount w + 1 in
        tbind (Election_constructor sender electionId keyperSet params) (\<lambda>E.
        Inr (w\<lparr>ch_electionCount := electionId, ch_elections := (ch_elections w)(electionId \<mapsto> E)\<rparr>, electionId)))"

definition getElections :: "int \<Rightarrow> int \<Rightarrow> chain \<Rightarrow> Election option list" where
  "getElections startElectionId count w = map (\<lambda>i. ch_elections w (startElectionId + int i)) [0..<nat count]"

section \<open>Runs of an election\<close>

text \<open>
  One transaction on an election, from any account and at any time. OpenZeppelin's own external
  functions can change the role assignments; they are one step that sets any assignment.
\<close>

inductive election_step :: "host \<Rightarrow> chain_lib \<Rightarrow> Election \<Rightarrow> Election \<Rightarrow> bool" for H L where
  vote: "voteDKGResult H L sender pk com E = Inr E' \<Longrightarrow> election_step H L E E'"
| vote_signed: "voteDKGResultSigned H L pk com sig E = Inr E' \<Longrightarrow> election_step H L E E'"
| ballot: "submitVote now sender val b E = Inr (E', i) \<Longrightarrow> election_step H L E E'"
| aggregate: "submitAggregate H now sender a E = Inr E' \<Longrightarrow> election_step H L E E'"
| aggregate_signed: "submitAggregateSigned H L now a sig E = Inr E' \<Longrightarrow> election_step H L E E'"
| publish: "publishResult now sender totals ks E = Inr E' \<Longrightarrow> election_step H L E E'"
| stall: "markTallyStalled now sender E = Inr E' \<Longrightarrow> election_step H L E E'"
| unstall: "clearTallyStalled sender E = Inr E' \<Longrightarrow> election_step H L E E'"
| share: "submitDecryptionShare now sender shs prs E = Inr E' \<Longrightarrow> election_step H L E E'"
| share_signed: "submitDecryptionShareSigned H L now shs prs sig E = Inr E' \<Longrightarrow> election_step H L E E'"
| cancel: "cancelElection now sender E = Inr E' \<Longrightarrow> election_step H L E E'"
| withdraw: "withdrawFees sent sender rcp E = Inr E' \<Longrightarrow> election_step H L E E'"
| roles: "election_step H L E (E\<lparr>ec_roles := R\<rparr>)"

text \<open>The elections the registry deploys over keyper sets, and their runs.\<close>

definition deployed :: "Election \<Rightarrow> bool" where
  "deployed E \<longleftrightarrow> (\<exists>members urls t admin i ks params.
     0 \<le> t \<and> KeyperSet_constructor members urls t = Inr ks \<and> Election_constructor admin i ks params = Inr E)"

lemma deployedI: "0 \<le> t \<Longrightarrow> KeyperSet_constructor members urls t = Inr ks \<Longrightarrow> Election_constructor admin i ks params = Inr E \<Longrightarrow> deployed E"
  unfolding deployed_def by blast

definition election_reachable :: "host \<Rightarrow> chain_lib \<Rightarrow> Election \<Rightarrow> bool" where
  "election_reachable H L E \<longleftrightarrow> (\<exists>E0. deployed E0 \<and> (election_step H L)\<^sup>*\<^sup>* E0 E)"

subsection \<open>Keyper sets\<close>

definition keyper_set_ok :: "KeyperSet \<Rightarrow> bool" where
  "keyper_set_ok ks \<longleftrightarrow> distinct (ks_members ks) \<and> length (ks_urls ks) = length (ks_members ks) \<and>
     (\<forall>v. isMember v ks \<longleftrightarrow> v \<in> set (ks_members ks)) \<and>
     (\<forall>i < length (ks_members ks). ks_memberIndexPlusOne ks (ks_members ks ! i) = int i + 1) \<and>
     0 < ks_threshold ks \<and> ks_threshold ks \<le> getNumMembers ks \<and> getNumMembers ks < 2 * ks_threshold ks"

lemma push_members_ok:
  assumes "push_members ms mem ix = Inr (mem', ix')" "distinct mem" "\<forall>v. ix v \<noteq> 0 \<longleftrightarrow> v \<in> set mem" "\<forall>i < length mem. ix (mem ! i) = int i + 1"
  shows "mem' = mem @ ms \<and> distinct mem' \<and> (\<forall>v. ix' v \<noteq> 0 \<longleftrightarrow> v \<in> set mem') \<and> (\<forall>i < length mem'. ix' (mem' ! i) = int i + 1)"
  using assms
proof (induction ms arbitrary: mem ix)
  case (Cons m ms)
  then have m: "m \<notin> set mem" "push_members ms (mem @ [m]) (ix(m := int (length mem) + 1)) = Inr (mem', ix')"
    by (auto split: if_split_asm)
  have ix: "\<forall>i < length (mem @ [m]). (ix(m := int (length mem) + 1)) ((mem @ [m]) ! i) = int i + 1"
    using Cons.prems(4) m(1) by (auto simp: nth_append less_Suc_eq dest: nth_mem)
  have mem: "\<forall>v. (ix(m := int (length mem) + 1)) v \<noteq> 0 \<longleftrightarrow> v \<in> set (mem @ [m])" using Cons.prems(3) by auto
  have "distinct (mem @ [m])" using Cons.prems(2) m(1) by simp
  from Cons.IH [OF m(2) this mem ix] show ?case by auto
qed auto

lemma KeyperSet_constructor_ok:
  assumes "KeyperSet_constructor members urls t = Inr ks" "0 \<le> t"
  shows "keyper_set_ok ks \<and> ks_members ks = members \<and> ks_urls ks = urls \<and> ks_threshold ks = t"
  using assms push_members_ok [of members "[]" "\<lambda>_. 0"]
  by (auto simp: KeyperSet_constructor_def keyper_set_ok_def isMember_def getNumMembers_def split: if_split_asm)

subsection \<open>The invariant\<close>

definition dkg_votes_of :: "host \<Rightarrow> chain_lib \<Rightarrow> Election \<Rightarrow> (bytes \<times> bytes \<times> bytes list) list \<Rightarrow> bool" where
  "dkg_votes_of H L E votes \<longleftrightarrow> map (\<lambda>(v, pk, com). (v, pk)) votes = ec_DKGVoteRegistered E \<and> distinct (map fst votes) \<and>
     (\<forall>v. ec_hasVotedForDKG E v \<longleftrightarrow> v \<in> fst ` set votes) \<and> fst ` set votes \<subseteq> set (ks_members (ec_keyperSet E)) \<and>
     (\<forall>d. ec_dkgVoteCountByResult E d = int (length (filter (\<lambda>(v, pk, com). keccak H (abi_dkg_vote L pk com) = d) votes)))"

definition dkg_inv :: "host \<Rightarrow> chain_lib \<Rightarrow> Election \<Rightarrow> bool" where
  "dkg_inv H L E \<longleftrightarrow> (\<exists>votes. dkg_votes_of H L E votes) \<and>
     (ec_dkgFinalized E \<longrightarrow> ks_threshold (ec_keyperSet E) \<le>
        ec_dkgVoteCountByResult E (keccak H (abi_dkg_vote L (ec_electionPublicKey E) (ec_committeePublicKeys E))))"

definition agg_voters :: "Election \<Rightarrow> bytes \<Rightarrow> bytes set" where
  "agg_voters E d = {v \<in> set (ks_members (ec_keyperSet E)). ec_aggregateVoteDigestOf E v = d}"

definition agg_inv :: "host \<Rightarrow> Election \<Rightarrow> bool" where
  "agg_inv H E \<longleftrightarrow> (\<forall>d. d \<noteq> ZERO_BYTES32 \<longrightarrow> ec_aggregateVoteCountByResult E d = int (card (agg_voters E d))) \<and>
     (\<forall>v. v \<notin> set (ks_members (ec_keyperSet E)) \<longrightarrow> ec_aggregateVoteDigestOf E v = ZERO_BYTES32) \<and>
     (ec_aggregatePublished E \<longrightarrow> (\<exists>a d. ec_encryptedTally E = Some a \<and> d \<noteq> ZERO_BYTES32 \<and>
        aggregateDigest H a E = Inr d \<and> ks_threshold (ec_keyperSet E) \<le> ec_aggregateVoteCountByResult E d))"

definition election_inv :: "host \<Rightarrow> chain_lib \<Rightarrow> Election \<Rightarrow> bool" where
  "election_inv H L E \<longleftrightarrow> keyper_set_ok (ec_keyperSet E) \<and> dkg_inv H L E \<and> agg_inv H E"

text \<open>
  A keyper whose vote has the zero digest counts as one that has not voted. No aggregate is known to
  hash to 32 zero bytes.
\<close>

definition no_zero_digest :: "host \<Rightarrow> bool" where
  "no_zero_digest H \<longleftrightarrow> (\<forall>m. keccak H (AGGREGATE_DST @ m) \<noteq> ZERO_BYTES32)"

lemma aggregateDigest_nonzero: "no_zero_digest H \<Longrightarrow> aggregateDigest H a E = Inr d \<Longrightarrow> d \<noteq> ZERO_BYTES32"
  by (auto simp: no_zero_digest_def aggregateDigest_def AGGREGATE_DST_def)

lemma registerDKGVote_inv:
  assumes inv: "election_inv H L E" and fin: "\<not> ec_dkgFinalized E" and r: "registerDKGVote H L voter pk com E = Inr E'"
  shows "election_inv H L E'"
proof -
  let ?d = "keccak H (abi_dkg_vote L pk com)"
  obtain votes where v: "dkg_votes_of H L E votes" using inv by (auto simp: election_inv_def dkg_inv_def)
  have ks: "keyper_set_ok (ec_keyperSet E)" using inv by (simp add: election_inv_def)
  have guards: "isMember voter (ec_keyperSet E)" "\<not> ec_hasVotedForDKG E voter"
    using r by (auto simp: registerDKGVote_def split: if_split_asm)
  have upd: "ec_keyperSet E' = ec_keyperSet E" "ec_electionId E' = ec_electionId E"
    "ec_hasVotedForDKG E' = (ec_hasVotedForDKG E)(voter := True)"
    "ec_dkgVoteCountByResult E' = (ec_dkgVoteCountByResult E)(?d := ec_dkgVoteCountByResult E ?d + 1)"
    "ec_DKGVoteRegistered E' = ec_DKGVoteRegistered E @ [(voter, pk)]"
    "ec_aggregateVoteDigestOf E' = ec_aggregateVoteDigestOf E" "ec_aggregateVoteCountByResult E' = ec_aggregateVoteCountByResult E"
    "ec_aggregatePublished E' = ec_aggregatePublished E" "ec_encryptedTally E' = ec_encryptedTally E"
    "ec_dkgFinalized E' \<longrightarrow> ec_electionPublicKey E' = pk \<and> ec_committeePublicKeys E' = com \<and> ks_threshold (ec_keyperSet E) \<le> ec_dkgVoteCountByResult E ?d + 1"
    using r fin by (auto simp: registerDKGVote_def Let_def split: if_split_asm)
  have "dkg_votes_of H L E' (votes @ [(voter, pk, com)])"
    using v guards ks by (auto simp: dkg_votes_of_def upd keyper_set_ok_def)
  moreover have "agg_inv H E'" using inv by (auto simp: election_inv_def agg_inv_def agg_voters_def aggregateDigest_def upd)
  ultimately show ?thesis using ks upd(10) by (auto simp: election_inv_def dkg_inv_def upd(1,4))
qed

lemma moved_voters:
  assumes "voter \<in> set (ks_members (ec_keyperSet E))" "ec_aggregateVoteDigestOf E voter \<noteq> d"
    "ec_keyperSet E' = ec_keyperSet E" "ec_aggregateVoteDigestOf E' = (ec_aggregateVoteDigestOf E)(voter := d)"
  shows "agg_voters E' d' = (if d' = d then insert voter (agg_voters E d) else agg_voters E d' - {voter})"
  using assms by (auto simp: agg_voters_def)

lemma registerAggregate_inv:
  assumes inv: "election_inv H L E" and nz: "no_zero_digest H" and d: "aggregateDigest H a E = Inr d" and r: "registerAggregate now voter d a E = Inr E'"
  shows "election_inv H L E'"
proof (cases "ec_aggregateVoteDigestOf E voter = d")
  case True
  with r inv show ?thesis by (auto simp: registerAggregate_def Let_def split: if_split_asm)
next
  case False
  let ?p = "ec_aggregateVoteDigestOf E voter"
  let ?c = "ec_aggregateVoteCountByResult E"
  have unpub: "\<not> ec_aggregatePublished E" using r by (auto simp: registerAggregate_def split: if_split_asm)
  have mem: "voter \<in> set (ks_members (ec_keyperSet E))"
    using r inv by (auto simp: registerAggregate_def election_inv_def keyper_set_ok_def split: if_split_asm)
  define moved where "moved = (if ?p \<noteq> ZERO_BYTES32 then ?c(?p := ?c ?p - 1) else ?c)"
  have upd: "ec_keyperSet E' = ec_keyperSet E" "ec_electionId E' = ec_electionId E" "ec_hasVotedForDKG E' = ec_hasVotedForDKG E"
    "ec_dkgVoteCountByResult E' = ec_dkgVoteCountByResult E" "ec_DKGVoteRegistered E' = ec_DKGVoteRegistered E"
    "ec_dkgFinalized E' = ec_dkgFinalized E" "ec_electionPublicKey E' = ec_electionPublicKey E" "ec_committeePublicKeys E' = ec_committeePublicKeys E"
    "ec_aggregateVoteDigestOf E' = (ec_aggregateVoteDigestOf E)(voter := d)" "ec_aggregateVoteCountByResult E' = moved(d := moved d + 1)"
    "ec_aggregatePublished E' \<longrightarrow> ec_encryptedTally E' = Some a \<and> ks_threshold (ec_keyperSet E) \<le> moved d + 1"
    using r False unpub by (auto simp: registerAggregate_def Let_def moved_def split: if_split_asm)
  note voters = moved_voters [OF mem False upd(1,9)]
  have fin: "finite (agg_voters E x)" for x by (simp add: agg_voters_def)
  have c: "?c x = int (card (agg_voters E x))" if "x \<noteq> ZERO_BYTES32" for x
    using inv that by (simp add: election_inv_def agg_inv_def)
  have p: "voter \<in> agg_voters E ?p" using mem by (simp add: agg_voters_def)
  have count: "ec_aggregateVoteCountByResult E' x = int (card (agg_voters E' x))" if "x \<noteq> ZERO_BYTES32" for x
  proof (cases "x = d")
    case True
    have "voter \<notin> agg_voters E d" using False by (simp add: agg_voters_def)
    with True False that c [of d] fin show ?thesis by (simp add: upd(10) moved_def voters)
  next
    case x: False
    show ?thesis
    proof (cases "x = ?p")
      case True
      have "0 < card (agg_voters E ?p)" using p fin by (auto simp: card_gt_0_iff)
      with True x that c [of x] fin p show ?thesis by (simp add: upd(10) moved_def voters of_nat_diff)
    next
      case False
      then have "voter \<notin> agg_voters E x" by (simp add: agg_voters_def)
      with False x that c [of x] show ?thesis by (simp add: upd(10) moved_def voters)
    qed
  qed
  have "agg_inv H E'"
    unfolding agg_inv_def using count aggregateDigest_nonzero [OF nz d] upd(11) d mem inv
    by (auto simp: upd(1,2,9,10) aggregateDigest_def election_inv_def agg_inv_def)
  moreover have "dkg_inv H L E'" using inv by (simp add: election_inv_def dkg_inv_def dkg_votes_of_def upd)
  ultimately show ?thesis using inv by (simp add: election_inv_def upd(1))
qed

lemmas election_ops = voteDKGResult_def voteDKGResultSigned_def submitVote_def submitAggregate_def submitAggregateSigned_def
  publishResult_def markTallyStalled_def clearTallyStalled_def submitDecryptionShare_def submitDecryptionShareSigned_def
  registerDecryptionShare_def cancelElection_def withdrawFees_def

text \<open>The invariant reads only the votes, the key and the aggregate.\<close>

lemma election_inv_frame [simp]:
  "election_inv H L (E\<lparr>ec_roles := R\<rparr>) = election_inv H L E" "election_inv H L (E\<lparr>ec_balance := x\<rparr>) = election_inv H L E"
  "election_inv H L (E\<lparr>ec_cancelled := b\<rparr>) = election_inv H L E" "election_inv H L (E\<lparr>ec_ballotRecords := rs\<rparr>) = election_inv H L E"
  "election_inv H L (E\<lparr>ec_ballotIndexPlusOneByPseudonym := f\<rparr>) = election_inv H L E"
  "election_inv H L (E\<lparr>ec_decryptionShares := ss\<rparr>) = election_inv H L E" "election_inv H L (E\<lparr>ec_hasSubmittedDecryptionShare := g\<rparr>) = election_inv H L E"
  "election_inv H L (E\<lparr>ec_resultFinalized := b\<rparr>) = election_inv H L E" "election_inv H L (E\<lparr>ec_electionResult := res\<rparr>) = election_inv H L E"
  "election_inv H L (E\<lparr>ec_tallyStalled := b\<rparr>) = election_inv H L E"
  by (simp_all add: election_inv_def dkg_inv_def dkg_votes_of_def agg_inv_def agg_voters_def aggregateDigest_def)

lemma election_step_inv:
  assumes "election_step H L E E'" "election_inv H L E" "no_zero_digest H"
  shows "election_inv H L E'"
  using assms
  by (induction rule: election_step.induct)
    (auto simp: election_ops Let_def split: if_split_asm intro: registerDKGVote_inv registerAggregate_inv)

lemma deployed_inv: "deployed E \<Longrightarrow> election_inv H L E"
  by (auto simp: deployed_def Election_constructor_def election_inv_def dkg_inv_def dkg_votes_of_def agg_inv_def agg_voters_def
      split: if_split_asm dest!: KeyperSet_constructor_ok intro!: exI [of _ "[]"])

lemma election_reachable_inv: "election_reachable H L E \<Longrightarrow> no_zero_digest H \<Longrightarrow> election_inv H L E"
proof -
  assume "election_reachable H L E" and nz: "no_zero_digest H"
  then obtain E0 where "deployed E0" "(election_step H L)\<^sup>*\<^sup>* E0 E" by (auto simp: election_reachable_def)
  from this(2,1) show ?thesis by (induction rule: rtranclp_induct) (auto intro: deployed_inv election_step_inv [OF _ _ nz])
qed

subsection \<open>What is final\<close>

text \<open>What one transaction keeps: the key, the aggregate, the ballots, the shares.\<close>

definition kept :: "Election \<Rightarrow> Election \<Rightarrow> bool" where
  "kept E E' \<longleftrightarrow> ec_electionId E' = ec_electionId E \<and> ec_keyperSet E' = ec_keyperSet E \<and> ec_params E' = ec_params E \<and> ec_adminAddr E' = ec_adminAddr E \<and>
     (ec_dkgFinalized E \<longrightarrow> ec_dkgFinalized E' \<and> ec_electionPublicKey E' = ec_electionPublicKey E \<and> ec_committeePublicKeys E' = ec_committeePublicKeys E) \<and>
     (ec_aggregatePublished E \<longrightarrow> getAggregate E' = getAggregate E \<and> ec_aggregatePublished E') \<and>
     (\<exists>bs. ec_ballotRecords E' = ec_ballotRecords E @ bs) \<and> (\<exists>ss. ec_decryptionShares E' = ec_decryptionShares E @ ss) \<and>
     (ec_cancelled E \<longrightarrow> ec_cancelled E') \<and> (ec_resultFinalized E \<longrightarrow> ec_resultFinalized E')"

lemma kept_refl: "kept E E"
  by (simp add: kept_def)

lemma kept_trans: "kept E E' \<Longrightarrow> kept E' E'' \<Longrightarrow> kept E E''"
  by (auto simp: kept_def)

lemma registerDKGVote_kept: "registerDKGVote H L v pk com E = Inr E' \<Longrightarrow> \<not> ec_dkgFinalized E \<Longrightarrow> kept E E'"
  by (auto simp: registerDKGVote_def kept_def getAggregate_def Let_def split: if_split_asm)

lemma registerAggregate_kept: "registerAggregate now v d a E = Inr E' \<Longrightarrow> kept E E'"
  by (auto simp: registerAggregate_def kept_def Let_def split: if_split_asm)

lemma election_step_kept: "election_step H L E E' \<Longrightarrow> kept E E'"
proof (induction rule: election_step.induct)
  case (vote_signed pk com sig E E')
  then show ?case by (auto simp: voteDKGResultSigned_def Let_def split: if_split_asm intro: registerDKGVote_kept)
next
  case (vote sender pk com E E')
  then show ?case by (auto simp: voteDKGResult_def split: if_split_asm intro: registerDKGVote_kept)
qed (auto simp: election_ops kept_def getAggregate_def Let_def split: if_split_asm dest!: registerAggregate_kept)

lemma election_run_kept: "(election_step H L)\<^sup>*\<^sup>* E E' \<Longrightarrow> kept E E'"
  by (induction rule: rtranclp_induct) (auto intro: kept_refl kept_trans election_step_kept)

text \<open>Distinct voters of one result are as many as its counter says.\<close>

lemma dkg_voters_counted:
  assumes "dkg_votes_of H L E votes"
  shows "ec_dkgVoteCountByResult E d = int (card {v. \<exists>pk com. (v, pk, com) \<in> set votes \<and> keccak H (abi_dkg_vote L pk com) = d})"
proof -
  let ?vs = "filter (\<lambda>(v, pk, com). keccak H (abi_dkg_vote L pk com) = d) votes"
  have "{v. \<exists>pk com. (v, pk, com) \<in> set votes \<and> keccak H (abi_dkg_vote L pk com) = d} = fst ` set ?vs" by force
  moreover have "distinct (map fst ?vs)" using assms by (auto simp: dkg_votes_of_def intro: distinct_map_filter)
  ultimately show ?thesis using assms by (metis (no_types, lifting) dkg_votes_of_def distinct_card length_map list.set_map)
qed

text \<open>
  C16: on chain every key and every aggregate rests on a majority of the members, and stays. In every
  reachable election with a final key at least the threshold of distinct members voted for a result
  with the digest of that key and committee; where an aggregate is published, at least the threshold
  of distinct members stands by its digest, and no other digest has as many; the threshold is a
  majority. Whatever transactions follow, the key, the aggregate, the ballots and the shares stay.
\<close>

theorem contract_quorums_final:
  assumes "election_reachable H L E" and "no_zero_digest H" and "(election_step H L)\<^sup>*\<^sup>* E E'"
  shows "card (set (ks_members (ec_keyperSet E))) < 2 * nat (ks_threshold (ec_keyperSet E)) \<and>
    (ec_dkgFinalized E \<longrightarrow> (\<exists>V \<subseteq> set (ks_members (ec_keyperSet E)). ks_threshold (ec_keyperSet E) \<le> int (card V) \<and>
       (\<forall>v \<in> V. \<exists>pk com. (v, pk) \<in> set (ec_DKGVoteRegistered E) \<and>
          keccak H (abi_dkg_vote L pk com) = keccak H (abi_dkg_vote L (ec_electionPublicKey E) (ec_committeePublicKeys E))))) \<and>
    (ec_aggregatePublished E \<longrightarrow> (\<exists>a d. getAggregate E = Inr a \<and> aggregateDigest H a E = Inr d \<and>
       ks_threshold (ec_keyperSet E) \<le> int (card (agg_voters E d)) \<and>
       (\<forall>d'. ks_threshold (ec_keyperSet E) \<le> int (card (agg_voters E d')) \<longrightarrow> d' = d))) \<and>
    kept E E'"
proof (intro conjI impI)
  have inv: "keyper_set_ok (ec_keyperSet E)" "dkg_inv H L E" "agg_inv H E"
    using election_reachable_inv [OF assms(1,2)] by (simp_all add: election_inv_def)
  let ?M = "set (ks_members (ec_keyperSet E))" and ?t = "ks_threshold (ec_keyperSet E)"
  have maj: "int (card ?M) < 2 * ?t" using inv(1) by (simp add: keyper_set_ok_def getNumMembers_def distinct_card)
  then show "card ?M < 2 * nat ?t" by simp
  {
    assume "ec_dkgFinalized E"
    let ?d = "keccak H (abi_dkg_vote L (ec_electionPublicKey E) (ec_committeePublicKeys E))"
    obtain votes where v: "dkg_votes_of H L E votes" using inv(2) by (auto simp: dkg_inv_def)
    let ?V = "{v. \<exists>pk com. (v, pk, com) \<in> set votes \<and> keccak H (abi_dkg_vote L pk com) = ?d}"
    have "?t \<le> int (card ?V)" using inv(2) \<open>ec_dkgFinalized E\<close> dkg_voters_counted [OF v, of ?d] by (simp add: dkg_inv_def)
    moreover have "?V \<subseteq> ?M" using v by (force simp: dkg_votes_of_def)
    moreover have "(u, pk) \<in> set (ec_DKGVoteRegistered E)" if "(u, pk, com) \<in> set votes" for u pk com
    proof -
      have l: "ec_DKGVoteRegistered E = map (\<lambda>(v, pk, com). (v, pk)) votes" using v by (simp add: dkg_votes_of_def)
      show ?thesis unfolding l using that by force
    qed
    ultimately show "\<exists>V \<subseteq> ?M. ?t \<le> int (card V) \<and> (\<forall>v \<in> V. \<exists>pk com. (v, pk) \<in> set (ec_DKGVoteRegistered E) \<and>
        keccak H (abi_dkg_vote L pk com) = ?d)" by (intro exI [of _ ?V]) blast
  next
    assume pub: "ec_aggregatePublished E"
    then obtain a d where a: "ec_encryptedTally E = Some a" "aggregateDigest H a E = Inr d" "?t \<le> int (card (agg_voters E d))"
      using inv(3) by (auto simp: agg_inv_def)
    have "d' = d" if d': "?t \<le> int (card (agg_voters E d'))" for d'
    proof (rule ccontr)
      assume "d' \<noteq> d"
      then have "agg_voters E d' \<inter> agg_voters E d = {}" by (auto simp: agg_voters_def)
      moreover have "finite ?M" "agg_voters E d' \<union> agg_voters E d \<subseteq> ?M" by (auto simp: agg_voters_def)
      ultimately have "card (agg_voters E d') + card (agg_voters E d) \<le> card ?M"
        using card_mono [of ?M "agg_voters E d' \<union> agg_voters E d"] card_Un_disjoint [of "agg_voters E d'" "agg_voters E d"]
        by (simp add: finite_subset [OF _ \<open>finite ?M\<close>])
      with a(3) d' maj show False by simp
    qed
    moreover have "getAggregate E = Inr a" using a(1) pub by (simp add: getAggregate_def)
    ultimately show "\<exists>a d. getAggregate E = Inr a \<and> aggregateDigest H a E = Inr d \<and> ?t \<le> int (card (agg_voters E d)) \<and>
       (\<forall>d'. ?t \<le> int (card (agg_voters E d')) \<longrightarrow> d' = d)" using a(2,3) by (intro exI [of _ a] exI [of _ d] conjI allI impI)
  }
  show "kept E E'" by (rule election_run_kept [OF assms(3)])
qed

text \<open>
  The result is the exception: the contract lets its publisher publish again, and the later totals
  replace the earlier ones.
\<close>

lemma result_overwritten:
  assumes "publishResult now sender totals ks E = Inr E'" "hasRole RESULT_PUBLISHER_ROLE sender E'" "now \<le> now'" "length totals' = length totals" "ks' \<noteq> []"
  shows "\<exists>E''. publishResult now' sender totals' ks' E' = Inr E'' \<and> ec_electionResult E'' = \<lparr>rr_tally = totals', rr_keyperIndices = ks'\<rparr>"
proof -
  have E': "E' = E\<lparr>ec_resultFinalized := True, ec_electionResult := \<lparr>rr_tally = totals, rr_keyperIndices = ks\<rparr>\<rparr>"
    "\<not> ec_cancelled E" "ec_dkgFinalized E" "pa_votingEnd (ec_params E) \<le> now" "int (length totals) = pa_numCandidates (ec_params E)"
    using assms(1) by (simp_all add: publishResult_def split: if_split_asm)
  with assms(2-) show ?thesis by (simp add: publishResult_def)
qed

section \<open>A concrete election\<close>

definition sample_lib :: chain_lib where
  "sample_lib = \<lparr>ecdsa_recover = (\<lambda>d sig. Some sig), abi_dkg_vote = (\<lambda>pk com. pk @ concat com), json_loads = (\<lambda>b. Inl ValueError)\<rparr>"

abbreviation sample_member :: "byte \<Rightarrow> bytes" where "sample_member i \<equiv> replicate 20 i"

definition sample_params :: ElectionParams where
  "sample_params = \<lparr>pa_votingStart = 100, pa_votingEnd = 200, pa_selfSubmitFee = 0, pa_numCandidates = 1, pa_budget = 3, pa_mode = 0, pa_variant = 0,
     pa_weighted = True, pa_scale = 1, pa_duplicatePolicy = 1, pa_protocolVersion = ''v1'', pa_pkWR = be 48 5,
     pa_resultPublisher = sample_member 4, pa_voteProxy = sample_member 6\<rparr>"

lemma sample_deployed:
  obtains E where "deployed E" "keyper_set_ok (ec_keyperSet E)" "ks_members (ec_keyperSet E) = [sample_member 1, sample_member 2, sample_member 3]"
    "ks_threshold (ec_keyperSet E) = 2" "ec_params E = sample_params" "\<not> ec_cancelled E" "\<not> ec_dkgFinalized E" "\<not> ec_aggregatePublished E"
    "ec_hasVotedForDKG E = (\<lambda>_. False)" "ec_dkgVoteCountByResult E = (\<lambda>_. 0)" "ec_aggregateVoteDigestOf E = (\<lambda>_. ZERO_BYTES32)"
    "ec_aggregateVoteCountByResult E = (\<lambda>_. 0)" "ec_ballotRecords E = []" "ec_electionId E = 1" "hasRole VOTE_PROXY_ROLE (sample_member 6) E"
    "ec_decryptionShares E = []"
proof -
  have "\<exists>ks. KeyperSet_constructor [sample_member 1, sample_member 2, sample_member 3] [[], [], []] 2 = Inr ks"
    by (simp add: KeyperSet_constructor_def ZERO_ADDRESS_def replicate_eq_replicate)
  then obtain ks where ks: "KeyperSet_constructor [sample_member 1, sample_member 2, sample_member 3] [[], [], []] 2 = Inr ks" by blast
  obtain E where E: "Election_constructor (sample_member 5) 1 ks sample_params = Inr E"
    by (simp add: Election_constructor_def sample_params_def ZERO_ADDRESS_def replicate_eq_replicate)
  have d: "deployed E" by (rule deployedI [OF _ ks E]) simp
  show thesis
    by (rule that [OF d]) (use KeyperSet_constructor_ok [OF ks] E in \<open>simp_all add: Election_constructor_def hasRole_def sample_params_def
      ZERO_ADDRESS_def replicate_eq_replicate, auto\<close>)
qed

lemma sample_isMember:
  "keyper_set_ok ks \<Longrightarrow> ks_members ks = [sample_member 1, sample_member 2, sample_member 3] \<Longrightarrow> i \<in> {1, 2, 3} \<Longrightarrow> isMember (sample_member i) ks"
  by (auto simp: keyper_set_ok_def)

lemma sample_host_nonzero: "no_zero_digest sample_host"
  by (simp add: no_zero_digest_def sample_host_def AGGREGATE_DST_def ZERO_BYTES32_def encode_utf8_def numeral_eq_Suc)

text \<open>Two members agree on a key; after the end of the voting period two of them agree on an aggregate.\<close>

lemma sample_key:
  obtains E where "election_reachable sample_host sample_lib E" "keyper_set_ok (ec_keyperSet E)"
    "ks_members (ec_keyperSet E) = [sample_member 1, sample_member 2, sample_member 3]"
    "ks_threshold (ec_keyperSet E) = 2" "ec_params E = sample_params" "\<not> ec_cancelled E" "ec_dkgFinalized E" "\<not> ec_aggregatePublished E"
    "ec_aggregateVoteDigestOf E = (\<lambda>_. ZERO_BYTES32)" "ec_aggregateVoteCountByResult E = (\<lambda>_. 0)" "ec_ballotRecords E = []" "ec_electionId E = 1"
    "hasRole VOTE_PROXY_ROLE (sample_member 6) E" "ec_decryptionShares E = []"
    "ec_DKGVoteRegistered E \<noteq> []"
proof -
  obtain E where E: "deployed E" "keyper_set_ok (ec_keyperSet E)" "ks_members (ec_keyperSet E) = [sample_member 1, sample_member 2, sample_member 3]"
    "ks_threshold (ec_keyperSet E) = 2" "ec_params E = sample_params" "\<not> ec_cancelled E" "\<not> ec_dkgFinalized E" "\<not> ec_aggregatePublished E"
    "ec_hasVotedForDKG E = (\<lambda>_. False)" "ec_dkgVoteCountByResult E = (\<lambda>_. 0)" "ec_aggregateVoteDigestOf E = (\<lambda>_. ZERO_BYTES32)"
    "ec_aggregateVoteCountByResult E = (\<lambda>_. 0)" "ec_ballotRecords E = []" "ec_electionId E = 1" "hasRole VOTE_PROXY_ROLE (sample_member 6) E"
    "ec_decryptionShares E = []"
    by (rule sample_deployed)
  note m = sample_isMember [OF E(2,3)]
  let ?com = "[be 96 1, be 96 2, be 96 3]"
  let ?d = "keccak sample_host (abi_dkg_vote sample_lib (be 96 9) ?com)"
  define E1 where "E1 = E\<lparr>ec_hasVotedForDKG := (\<lambda>_. False)(sample_member 1 := True), ec_dkgVoteCountByResult := (\<lambda>_. 0)(?d := 1),
    ec_DKGVoteRegistered := ec_DKGVoteRegistered E @ [(sample_member 1, be 96 9)]\<rparr>"
  define E2 where "E2 = E1\<lparr>ec_hasVotedForDKG := (ec_hasVotedForDKG E1)(sample_member 2 := True), ec_dkgVoteCountByResult := (ec_dkgVoteCountByResult E1)(?d := 2),
    ec_DKGVoteRegistered := ec_DKGVoteRegistered E1 @ [(sample_member 2, be 96 9)],
    ec_electionPublicKey := be 96 9, ec_committeePublicKeys := ?com, ec_dkgFinalized := True\<rparr>"
  have "voteDKGResult sample_host sample_lib (sample_member 1) (be 96 9) ?com E = Inr E1"
    using E m [of 1] by (simp add: voteDKGResult_def registerDKGVote_def g2_length_def getNumMembers_def E1_def Let_def)
  moreover have "voteDKGResult sample_host sample_lib (sample_member 2) (be 96 9) ?com E1 = Inr E2"
    using E m [of 2] by (simp add: voteDKGResult_def registerDKGVote_def g2_length_def getNumMembers_def E1_def E2_def Let_def replicate_eq_replicate)
  ultimately have "(election_step sample_host sample_lib)\<^sup>*\<^sup>* E E2"
    by (meson election_step.vote r_into_rtranclp rtranclp.rtrancl_into_rtrancl)
  then have "election_reachable sample_host sample_lib E2" unfolding election_reachable_def using E(1) by blast
  then show thesis by (rule that) (use E in \<open>simp_all add: E1_def E2_def hasRole_def\<close>)
qed

lemma contract_quorums_final_witness:
  "\<exists>E a d. election_reachable sample_host sample_lib E \<and> ec_dkgFinalized E \<and> getAggregate E = Inr a \<and> 2 \<le> card (agg_voters E d)"
proof -
  obtain E where E: "election_reachable sample_host sample_lib E" "keyper_set_ok (ec_keyperSet E)"
    "ks_members (ec_keyperSet E) = [sample_member 1, sample_member 2, sample_member 3]"
    "ks_threshold (ec_keyperSet E) = 2" "ec_params E = sample_params" "\<not> ec_cancelled E" "ec_dkgFinalized E" "\<not> ec_aggregatePublished E"
    "ec_aggregateVoteDigestOf E = (\<lambda>_. ZERO_BYTES32)" "ec_aggregateVoteCountByResult E = (\<lambda>_. 0)"
    by (rule sample_key)
  note m = sample_isMember [OF E(2,3)]
  define a where "a = \<lparr>et_aggregates = [([], [])], et_admitted = [], et_exclusions = [], et_totalAdmittedWeight = 0, et_totalScaledWeight = 0\<rparr>"
  obtain d where d: "\<And>F. ec_electionId F = ec_electionId E \<Longrightarrow> aggregateDigest sample_host a F = Inr d"
    by (simp add: aggregateDigest_def sample_host_def encoded_def)
  then have nz: "d \<noteq> ZERO_BYTES32" using aggregateDigest_nonzero [OF sample_host_nonzero, of a E] by blast
  define E1 where "E1 = E\<lparr>ec_aggregateVoteDigestOf := (\<lambda>_. ZERO_BYTES32)(sample_member 1 := d), ec_aggregateVoteCountByResult := (\<lambda>_. 0)(d := 1),
    ec_AggregateVoteRegistered := ec_AggregateVoteRegistered E @ [(sample_member 1, d)]\<rparr>"
  define E2 where "E2 = E1\<lparr>ec_aggregateVoteDigestOf := (ec_aggregateVoteDigestOf E1)(sample_member 2 := d),
    ec_aggregateVoteCountByResult := (ec_aggregateVoteCountByResult E1)(d := 2),
    ec_AggregateVoteRegistered := ec_AggregateVoteRegistered E1 @ [(sample_member 2, d)], ec_encryptedTally := Some a, ec_aggregatePublished := True\<rparr>"
  have "submitAggregate sample_host 250 (sample_member 1) a E = Inr E1"
    using E m [of 1] nz d [of E] by (simp add: submitAggregate_def registerAggregate_def sample_params_def a_def E1_def Let_def)
  moreover have "submitAggregate sample_host 250 (sample_member 2) a E1 = Inr E2"
    using E m [of 2] nz d [of E1] by (simp add: submitAggregate_def registerAggregate_def sample_params_def a_def E1_def E2_def Let_def replicate_eq_replicate)
  ultimately have "(election_step sample_host sample_lib)\<^sup>*\<^sup>* E E2"
    by (meson election_step.aggregate r_into_rtranclp rtranclp.rtrancl_into_rtrancl)
  then have r: "election_reachable sample_host sample_lib E2" using E(1) by (meson election_reachable_def rtranclp_trans)
  have E2: "ec_dkgFinalized E2" "ec_aggregatePublished E2" "ks_threshold (ec_keyperSet E2) = 2" using E by (simp_all add: E1_def E2_def)
  from contract_quorums_final [OF r sample_host_nonzero rtranclp.rtrancl_refl] E2(2)
  obtain a d where "getAggregate E2 = Inr a" "ks_threshold (ec_keyperSet E2) \<le> int (card (agg_voters E2 d))" by blast
  with E2 r show ?thesis by (intro exI [of _ E2] exI [of _ a] exI [of _ d]) simp
qed

end
