(* ===== verification/Chain_Codec.thy ===== *)
theory Chain_Codec
  imports Contract
begin

text \<open>
  \<^verbatim>\<open>adapters/chain/codec.py\<close>: the envelopes as contract structs and back. Enumerations are one byte
  on chain and looked up in tables, a missing key raising \<open>KeyError\<close>; the credential travels as JSON
  text in \<open>wrAttestation\<close>, read with the JSON parser of the library record. The proved part: the
  round trip of every struct, for the values the structs can hold.
\<close>

section \<open>Tables\<close>

definition MODE_TO_U8 :: "Mode \<Rightarrow> int" where "MODE_TO_U8 m = (case m of EXACT \<Rightarrow> 0 | AT_MOST \<Rightarrow> 1)"
definition U8_TO_MODE :: "int \<Rightarrow> Mode result" where
  "U8_TO_MODE v = (if v = 0 then Inr EXACT else if v = 1 then Inr AT_MOST else Inl KeyError)"

definition VARIANT_TO_U8 :: "Variant \<Rightarrow> int" where "VARIANT_TO_U8 m = (case m of Variant_A \<Rightarrow> 0 | Variant_B \<Rightarrow> 1)"
definition U8_TO_VARIANT :: "int \<Rightarrow> Variant result" where
  "U8_TO_VARIANT v = (if v = 0 then Inr Variant_A else if v = 1 then Inr Variant_B else Inl KeyError)"

definition DUP_TO_U8 :: "DuplicatePolicy \<Rightarrow> int" where "DUP_TO_U8 m = (case m of FIRST_WINS \<Rightarrow> 0 | LAST_WINS \<Rightarrow> 1)"
definition U8_TO_DUP :: "int \<Rightarrow> DuplicatePolicy result" where
  "U8_TO_DUP v = (if v = 0 then Inr FIRST_WINS else if v = 1 then Inr LAST_WINS else Inl KeyError)"

definition REASON_TO_U8 :: "ExclusionReason \<Rightarrow> int" where
  "REASON_TO_U8 r =
     (case r of
        INVALID_PROOF \<Rightarrow> 0 | INVALID_SIGNATURE \<Rightarrow> 1 | INVALID_ATTESTATION \<Rightarrow> 2
      | DUPLICATE_PSEUDONYM \<Rightarrow> 3 | MALFORMED \<Rightarrow> 4 | OUT_OF_WINDOW \<Rightarrow> 5)"

definition U8_TO_REASON :: "int \<Rightarrow> ExclusionReason result" where
  "U8_TO_REASON v =
     (if v = 0 then Inr INVALID_PROOF else if v = 1 then Inr INVALID_SIGNATURE else if v = 2 then Inr INVALID_ATTESTATION
      else if v = 3 then Inr DUPLICATE_PSEUDONYM else if v = 4 then Inr MALFORMED else if v = 5 then Inr OUT_OF_WINDOW
      else Inl KeyError)"

definition eid_to_uint :: "bytes \<Rightarrow> int" where "eid_to_uint election_id = int_from_bytes election_id"
definition uint_to_eid :: "int \<Rightarrow> bytes result" where "uint_to_eid v = int_to_bytes v 32"

section \<open>Ballots\<close>

definition pack_attestation :: "host \<Rightarrow> AttestationCredential \<Rightarrow> bytes" where
  "pack_attestation H att = encode_utf8 (dumps0 (py_repr H) (enc_attestation att))"

definition unpack_attestation :: "chain_lib \<Rightarrow> bytes \<Rightarrow> AttestationCredential result" where
  "unpack_attestation L raw = ebind (json_loads L raw) dec_attestation"

definition ballot_to_tuple :: "host \<Rightarrow> BallotEnvelope \<Rightarrow> SolBallot" where
  "ballot_to_tuple H env =
     \<lparr>bl_pseudonym = be_pseudonym env, bl_vk = be_vk env, bl_ciphertexts = map (\<lambda>ct. (ct_c1 ct, ct_c2 ct)) (be_ciphertexts env),
      bl_zkProof = be_zk_proof env, bl_voterSignature = be_voter_signature env, bl_wrAttestation = pack_attestation H (be_attestation env)\<rparr>"

definition ballot_from_contract :: "chain_lib \<Rightarrow> SolBallot \<Rightarrow> bytes \<Rightarrow> BallotEnvelope result" where
  "ballot_from_contract L raw election_id =
     ebind (unpack_attestation L (bl_wrAttestation raw)) (\<lambda>att.
     Inr \<lparr>be_election_id = election_id, be_pseudonym = bl_pseudonym raw, be_vk = bl_vk raw,
          be_ciphertexts = map (\<lambda>(c1, c2). \<lparr>ct_c1 = c1, ct_c2 = c2\<rparr>) (bl_ciphertexts raw), be_zk_proof = bl_zkProof raw,
          be_voter_signature = bl_voterSignature raw, be_attestation = att\<rparr>)"

definition ballot_record_from_contract :: "chain_lib \<Rightarrow> BallotRecord \<Rightarrow> bytes \<Rightarrow> int \<Rightarrow> StoredBallot result" where
  "ballot_record_from_contract L raw election_id sequence_number =
     ebind (ballot_from_contract L (rc_ballot raw) election_id) (\<lambda>env.
     Inr \<lparr>sb_sequence_number = sequence_number, sb_envelope = env, sb_submitted_at = Some (rc_submittedAt raw)\<rparr>)"

section \<open>Aggregates\<close>

definition aggregate_to_tuple :: "AggregateArtifact \<Rightarrow> EncryptedTally" where
  "aggregate_to_tuple agg =
     \<lparr>et_aggregates = map (\<lambda>ct. (ct_c1 ct, ct_c2 ct)) (agg_aggregates agg), et_admitted = agg_admitted agg,
      et_exclusions = map (\<lambda>x. (ex_sequence_number x, REASON_TO_U8 (ex_reason x))) (agg_exclusions agg),
      et_totalAdmittedWeight = agg_total_admitted_weight agg, et_totalScaledWeight = agg_total_scaled_weight agg\<rparr>"

text \<open>\<open>rest\<close> holds the fields after the fourth: none on a contract older than the scale.\<close>

definition aggregate_from_contract ::
    "(bytes \<times> bytes) list \<Rightarrow> int list \<Rightarrow> (int \<times> int) list \<Rightarrow> int \<Rightarrow> int list \<Rightarrow> bytes \<Rightarrow> AggregateArtifact result" where
  "aggregate_from_contract aggregates admitted exclusions total_weight rest election_id =
     (let scaled_weight_total = (case rest of [] \<Rightarrow> total_weight | s # _ \<Rightarrow> s) in
      ebind (emap (\<lambda>(seq, code). ebind (U8_TO_REASON code) (\<lambda>r. Inr \<lparr>ex_sequence_number = seq, ex_reason = r\<rparr>)) exclusions) (\<lambda>exs.
      Inr \<lparr>agg_election_id = election_id, agg_aggregates = map (\<lambda>(c1, c2). \<lparr>ct_c1 = c1, ct_c2 = c2\<rparr>) aggregates,
           agg_admitted = admitted, agg_exclusions = exs, agg_total_admitted_weight = total_weight,
           agg_total_scaled_weight = scaled_weight_total\<rparr>))"

section \<open>Decryption shares\<close>

definition share_to_contract :: "DecryptionShareEnvelope \<Rightarrow> bytes list \<times> (int \<times> int) list" where
  "share_to_contract share = (map se_sigma (ds_entries share), map proof_ints (ds_entries share))"

definition share_from_contract :: "SolShare \<Rightarrow> bytes \<Rightarrow> DecryptionShareEnvelope result" where
  "share_from_contract raw election_id =
     ebind (emap (\<lambda>(sigma, e_val, z_val).
         ebind (int_to_bytes e_val 32) (\<lambda>e. ebind (int_to_bytes z_val 32) (\<lambda>z. Inr \<lparr>se_sigma = sigma, se_proof = e @ z\<rparr>)))
       (zip (sh_shares raw) (sh_proofs raw))) (\<lambda>entries.
     Inr \<lparr>ds_election_id = election_id, ds_keyper_index = sh_keyperIndex raw + 1, ds_entries = entries\<rparr>)"

section \<open>Round trips\<close>

lemma table_roundtrips [simp]:
  "U8_TO_MODE (MODE_TO_U8 m) = Inr m" "U8_TO_VARIANT (VARIANT_TO_U8 v) = Inr v" "U8_TO_DUP (DUP_TO_U8 p) = Inr p"
  "U8_TO_REASON (REASON_TO_U8 r) = Inr r"
  by (simp_all add: MODE_TO_U8_def U8_TO_MODE_def VARIANT_TO_U8_def U8_TO_VARIANT_def DUP_TO_U8_def U8_TO_DUP_def
      REASON_TO_U8_def U8_TO_REASON_def split: Mode.split Variant.split DuplicatePolicy.split ExclusionReason.split)

lemma ciphertext_eta [simp]: "\<lparr>ct_c1 = ct_c1 x, ct_c2 = ct_c2 x\<rparr> = x"
  by (cases x) simp

lemma int_to_bytes_of: "length b = k \<Longrightarrow> int_to_bytes (int_from_bytes b) k = Inr b"
  using int_from_bytes_bound [of b] be_int_from_bytes [of b] by (auto simp: int_to_bytes_def not_less dest: leD)

text \<open>The chain and the signed digests use the same codes.\<close>

lemma reason_codes_agree: "REASON_TO_U8 = EXCLUSION_CODE"
  by (rule ext) (simp add: REASON_TO_U8_def EXCLUSION_CODE_def split: ExclusionReason.split)

lemma uint_to_eid_inverse: "length e = 32 \<Longrightarrow> uint_to_eid (eid_to_uint e) = Inr e"
  by (simp add: uint_to_eid_def eid_to_uint_def int_to_bytes_of)

lemma eid_to_uint_inverse: "uint_to_eid i = Inr e \<Longrightarrow> eid_to_uint e = i \<and> length e = 32"
  by (auto simp: uint_to_eid_def eid_to_uint_def int_to_bytes_def int_from_bytes_be split: if_split_asm)

text \<open>The JSON parser reads back the text of a credential.\<close>

definition parses :: "host \<Rightarrow> chain_lib \<Rightarrow> AttestationCredential \<Rightarrow> bool" where
  "parses H L att \<longleftrightarrow> json_loads L (pack_attestation H att) = Inr (enc_attestation att)"

lemma unpack_pack: "parses H L att \<Longrightarrow> ok_attestation att \<Longrightarrow> unpack_attestation L (pack_attestation H att) = Inr att"
  by (simp add: parses_def unpack_attestation_def attestation_codec.dec_enc)

lemma ballot_roundtrip:
  "parses H L (be_attestation env) \<Longrightarrow> ok_attestation (be_attestation env) \<Longrightarrow>
     ballot_from_contract L (ballot_to_tuple H env) e = Inr (env\<lparr>be_election_id := e\<rparr>)"
  by (cases env) (simp add: ballot_from_contract_def ballot_to_tuple_def unpack_pack comp_def)

lemma aggregate_roundtrip:
  "(let t = aggregate_to_tuple agg in aggregate_from_contract (et_aggregates t) (et_admitted t) (et_exclusions t)
      (et_totalAdmittedWeight t) [et_totalScaledWeight t] e) = Inr (agg\<lparr>agg_election_id := e\<rparr>)"
proof -
  have "emap ((\<lambda>(seq, code). ebind (U8_TO_REASON code) (\<lambda>r. Inr \<lparr>ex_sequence_number = seq, ex_reason = r\<rparr>)) \<circ>
      (\<lambda>x. (ex_sequence_number x, REASON_TO_U8 (ex_reason x)))) xs = Inr xs" for xs
    by (induction xs) simp_all
  then show ?thesis by (cases agg) (simp add: aggregate_to_tuple_def aggregate_from_contract_def Let_def comp_def)
qed

lemma proof_roundtrip:
  assumes "length (se_proof x) = 64"
  shows "int_to_bytes (fst (proof_ints x)) 32 = Inr (take 32 (se_proof x)) \<and> int_to_bytes (snd (proof_ints x)) 32 = Inr (drop 32 (se_proof x))"
  using assms by (simp add: proof_ints_def int_to_bytes_of)

lemma share_roundtrip:
  assumes "ok_decryption_share sh" "share_to_contract sh = (sigmas, proofs)"
  shows "share_from_contract \<lparr>sh_keyperIndex = ds_keyper_index sh - 1, sh_submittedAt = t, sh_shares = sigmas, sh_proofs = proofs\<rparr> e =
    Inr (sh\<lparr>ds_election_id := e\<rparr>)"
proof -
  have "emap (\<lambda>(sigma, e_val, z_val).
         ebind (int_to_bytes e_val 32) (\<lambda>e. ebind (int_to_bytes z_val 32) (\<lambda>z. Inr \<lparr>se_sigma = sigma, se_proof = e @ z\<rparr>)))
       (zip (map se_sigma xs) (map proof_ints xs)) = Inr xs" if "list_all ok_share_entry xs" for xs
    using that
  proof (induction xs)
    case (Cons x xs)
    then have "length (se_proof x) = 64" by (simp add: ok_share_entry_def)
    from proof_roundtrip [OF this] Cons show ?case by (simp add: case_prod_beta)
  qed simp
  with assms show ?thesis by (auto simp: share_to_contract_def share_from_contract_def ok_decryption_share_def)
qed

end
