(* ===== verification/Chain.thy ===== *)
theory Chain
  imports Chain_Codec Auditor
begin

text \<open>
  \<^verbatim>\<open>adapters/chain/client.py\<close>: \<open>BlockchainDataLayer\<close>, the storage port over the contracts. The state is
  the chain of \<open>Contract\<close>; a write is a transaction of the adapter's account, estimated in the current
  block and mined \<open>lag\<close> seconds later. The contract functions a read calls return values and never
  change the chain. \<open>web3\<close> refuses an argument outside its ABI type before anything is sent; its
  exception is \<open>EncodingError\<close>. A signature from which \<open>eth_account\<close> recovers nothing raises, here
  \<open>ValueError\<close>. The port's time arguments are not used: the chain has its own clock.
\<close>

section \<open>Transactions\<close>

text \<open>The two tables of \<open>_map_revert\<close> name the same errors, as text and as selectors.\<close>

definition map_revert :: "revert_error \<Rightarrow> error" where
  "map_revert r =
     (if r \<in> {VotingNotStarted, VotingClosed, VotingStillOpen, AggregateNotPublished} then VotingWindowError
      else if r \<in> {AlreadyCancelled, VotingAlreadyStarted, AlreadyVoted, AlreadyFinalized} then ImmutabilityError
      else if r \<in> {AccessControlUnauthorizedAccount, UnauthorizedKeyper, InvalidMember} then WriteAuthorizationError
      else ValueError)"

text \<open>Without an account the attribute error of the estimate is mapped like an unknown revert.\<close>

definition send :: "int \<Rightarrow> bytes option \<Rightarrow> (bytes \<Rightarrow> chain \<Rightarrow> (chain \<times> 'a) tx) \<Rightarrow> chain \<Rightarrow> (chain \<times> 'a) result" where
  "send lag account fn w =
     (case account of
        None \<Rightarrow> Inl ValueError
      | Some acct \<Rightarrow>
          (case fn acct w of
             Inl r \<Rightarrow> Inl (map_revert r)
           | Inr _ \<Rightarrow>
               (case fn acct (w\<lparr>ch_timestamp := ch_timestamp w + lag\<rparr>) of
                  Inl _ \<Rightarrow> Inl RuntimeError
                | Inr res \<Rightarrow> Inr res)))"

text \<open>A transaction on the election with id \<open>i\<close>, at the block's time.\<close>

definition at_election :: "int \<Rightarrow> (int \<Rightarrow> bytes \<Rightarrow> Election \<Rightarrow> (Election \<times> 'a) tx) \<Rightarrow> bytes \<Rightarrow> chain \<Rightarrow> (chain \<times> 'a) tx" where
  "at_election i fn sender w =
     (case ch_elections w i of
        None \<Rightarrow> Inl Panic
      | Some E \<Rightarrow> tbind (fn (ch_timestamp w) sender E) (\<lambda>(E', x). Inr (w\<lparr>ch_elections := (ch_elections w)(i \<mapsto> E')\<rparr>, x)))"

definition no_value :: "Election tx \<Rightarrow> (Election \<times> unit) tx" where
  "no_value r = tbind r (\<lambda>E. Inr (E, ()))"

definition abi_uint :: "nat \<Rightarrow> int \<Rightarrow> bool" where "abi_uint bits n \<longleftrightarrow> 0 \<le> n \<and> n < 2 ^ bits"

definition abi_args :: "bool \<Rightarrow> unit result" where "abi_args ok = (if ok then Inr () else Inl EncodingError)"

definition bc_election :: "bytes \<Rightarrow> chain \<Rightarrow> (int \<times> Election) result" where
  "bc_election election_id w =
     (let i = eid_to_uint election_id in
      ebind (abi_args (abi_uint 256 i)) (\<lambda>_.
      case ch_elections w i of None \<Rightarrow> Inl KeyError | Some E \<Rightarrow> Inr (i, E)))"

definition to_checksum_address :: "bytes \<Rightarrow> bytes result" where
  "to_checksum_address a = (if length a = 20 then Inr a else Inl ValueError)"

section \<open>Election lifecycle\<close>

definition config_to_params :: "ElectionConfig \<Rightarrow> ElectionParams result" where
  "config_to_params config =
     (case cfg_gateway_keys config of
        [] \<Rightarrow> Inl ValueError
      | gateway # _ \<Rightarrow>
          ebind (to_checksum_address (cfg_result_publisher_key config)) (\<lambda>publisher.
          ebind (to_checksum_address gateway) (\<lambda>proxy.
          Inr \<lparr>pa_votingStart = cfg_voting_start config, pa_votingEnd = cfg_voting_end config,
               pa_selfSubmitFee = cfg_self_submit_fee_wei config, pa_numCandidates = cfg_num_candidates config,
               pa_budget = cfg_budget config, pa_mode = MODE_TO_U8 (cfg_mode config), pa_variant = VARIANT_TO_U8 (cfg_variant config),
               pa_weighted = cfg_weighted config, pa_scale = cfg_scale config, pa_duplicatePolicy = DUP_TO_U8 (cfg_duplicate_policy config),
               pa_protocolVersion = cfg_protocol_version config, pa_pkWR = cfg_eligibility_key config,
               pa_resultPublisher = publisher, pa_voteProxy = proxy\<rparr>)))"

text \<open>The ABI types of \<open>ElectionParams\<close>.\<close>

definition params_fit :: "ElectionParams \<Rightarrow> bool" where
  "params_fit p \<longleftrightarrow> abi_uint 64 (pa_votingStart p) \<and> abi_uint 64 (pa_votingEnd p) \<and> abi_uint 256 (pa_selfSubmitFee p) \<and>
     abi_uint 32 (pa_numCandidates p) \<and> abi_uint 32 (pa_budget p) \<and> abi_uint 8 (pa_mode p) \<and> abi_uint 8 (pa_variant p) \<and>
     abi_uint 32 (pa_scale p) \<and> abi_uint 8 (pa_duplicatePolicy p)"

text \<open>The view of an election is a copy of its storage and of its keyper set; both constructors run.\<close>

definition config_from_view :: "Election \<Rightarrow> ElectionConfig result" where
  "config_from_view v =
     (let p = ec_params v; ks = ec_keyperSet v in
      ebind (uint_to_eid (ec_electionId v)) (\<lambda>eid.
      ebind (U8_TO_MODE (pa_mode p)) (\<lambda>mode.
      ebind (U8_TO_VARIANT (pa_variant p)) (\<lambda>variant.
      ebind (U8_TO_DUP (pa_duplicatePolicy p)) (\<lambda>dup.
      let threshold = \<lparr>th_t = ks_threshold ks, th_n = getNumMembers ks\<rparr> in
      ebind (Threshold_post_init threshold) (\<lambda>_.
      let config = \<lparr>cfg_election_id = eid, cfg_num_candidates = pa_numCandidates p, cfg_budget = pa_budget p, cfg_mode = mode,
        cfg_variant = variant, cfg_weighted = pa_weighted p, cfg_duplicate_policy = dup, cfg_voting_start = pa_votingStart p,
        cfg_voting_end = pa_votingEnd p, cfg_threshold = threshold,
        cfg_keypers = map (\<lambda>(a, e). \<lparr>ki_signing_key = a, ki_url = e\<rparr>) (zip (ks_members ks) (ks_urls ks)),
        cfg_eligibility_key = pa_pkWR p, cfg_result_publisher_key = pa_resultPublisher p, cfg_gateway_keys = [pa_voteProxy p],
        cfg_admin_key = ec_adminAddr v, cfg_protocol_version = pa_protocolVersion p, cfg_scale = pa_scale p,
        cfg_self_submit_fee_wei = pa_selfSubmitFee p\<rparr> in
      ebind (ElectionConfig_post_init config) (\<lambda>_. Inr config)))))))"

definition deploy_keyper_set :: "int \<Rightarrow> bytes option \<Rightarrow> bytes list \<Rightarrow> string list \<Rightarrow> int \<Rightarrow> chain \<Rightarrow> (chain \<times> KeyperSet) result" where
  "deploy_keyper_set lag account members urls quorum w =
     ebind (abi_args (abi_uint 64 quorum)) (\<lambda>_.
     send lag account (\<lambda>_ w. tbind (KeyperSet_constructor members urls quorum) (\<lambda>ks. Inr (w, ks))) w)"

definition bc_register_election :: "int \<Rightarrow> bytes option \<Rightarrow> ElectionConfig \<Rightarrow> bytes \<Rightarrow> chain \<Rightarrow> (chain \<times> bytes) result" where
  "bc_register_election lag account config admin_sig w =
     ebind (int_to_bytes (ch_electionCount w + 1) 32) (\<lambda>expected.
     if cfg_election_id config \<noteq> expected then Inl ImmutabilityError
     else
       ebind (emap (\<lambda>k. to_checksum_address (ki_signing_key k)) (cfg_keypers config)) (\<lambda>members.
       ebind (deploy_keyper_set lag account members (map ki_url (cfg_keypers config)) (th_quorum (cfg_threshold config)) w) (\<lambda>(w1, ks).
       ebind (config_to_params config) (\<lambda>params.
       ebind (abi_args (params_fit params)) (\<lambda>_.
       ebind (send lag account (\<lambda>sender. publishElection sender ks params) w1) (\<lambda>(w2, i).
       ebind (uint_to_eid i) (\<lambda>eid. Inr (w2, eid))))))))"

definition bc_cancel_election :: "int \<Rightarrow> bytes option \<Rightarrow> bytes \<Rightarrow> bytes \<Rightarrow> chain \<Rightarrow> chain result" where
  "bc_cancel_election lag account election_id admin_sig w =
     ebind (bc_election election_id w) (\<lambda>(i, _).
     ebind (send lag account (at_election i (\<lambda>now sender E. no_value (cancelElection now sender E))) w) (\<lambda>(w', _). Inr w'))"

definition bc_get_finalized_key :: "bytes \<Rightarrow> chain \<Rightarrow> FinalizedKey option result" where
  "bc_get_finalized_key election_id w =
     ebind (bc_election election_id w) (\<lambda>(_, E).
     if \<not> ec_dkgFinalized E then Inr None
     else Inr (Some \<lparr>fk_pk_election = ec_electionPublicKey E, fk_committee_pks = ec_committeePublicKeys E\<rparr>))"

definition bc_get_election :: "bytes \<Rightarrow> chain \<Rightarrow> ElectionRecord result" where
  "bc_get_election election_id w =
     ebind (bc_election election_id w) (\<lambda>(_, E).
     ebind (config_from_view E) (\<lambda>config.
     let finalized = (if ec_dkgFinalized E
                      then Some \<lparr>fk_pk_election = ec_electionPublicKey E, fk_committee_pks = ec_committeePublicKeys E\<rparr> else None) in
     Inr \<lparr>er_config = config, er_cancelled = ec_cancelled E, er_finalized_key = finalized, er_tally_stalled = ec_tallyStalled E\<rparr>))"

definition bc_list_elections :: "ElectionFilter option \<Rightarrow> chain \<Rightarrow> bytes list result" where
  "bc_list_elections flt w =
     (let count = ch_electionCount w in
      if count = 0 then Inr []
      else
        emap (\<lambda>(i, _). uint_to_eid i)
          (filter (\<lambda>(i, a).
             (case a of
                None \<Rightarrow> False
              | Some E \<Rightarrow>
                  (case flt of
                     None \<Rightarrow> True
                   | Some f \<Rightarrow> (case ef_admin_key f of None \<Rightarrow> True | Some k \<Rightarrow> ec_adminAddr E = k))))
            (zip [1..count] (getElections 1 count w))))"

section \<open>Key generation\<close>

definition recover_author :: "host \<Rightarrow> bytes \<Rightarrow> bytes \<Rightarrow> bytes result" where
  "recover_author H digest sig = (case recover_digest H digest sig of None \<Rightarrow> Inl ValueError | Some a \<Rightarrow> Inr a)"

text \<open>The last event of a keyper, \<open>mine[-1]\<close>.\<close>

definition last_of :: "bytes \<Rightarrow> (bytes \<times> bytes) list \<Rightarrow> bytes option" where
  "last_of keyper log = map_of (rev log) keyper"

definition bc_submit_dkg_result ::
    "host \<Rightarrow> chain_lib \<Rightarrow> int \<Rightarrow> bytes option \<Rightarrow> bytes \<Rightarrow> bytes \<Rightarrow> bytes list \<Rightarrow> bytes \<Rightarrow> chain \<Rightarrow> chain result" where
  "bc_submit_dkg_result H L lag account election_id pk committee keyper_sig w =
     ebind (bc_election election_id w) (\<lambda>(i, E).
     ebind (dkg_result_digest H election_id pk committee) (\<lambda>digest.
     ebind (recover_author H digest keyper_sig) (\<lambda>keyper_addr.
     if ec_dkgFinalized E then (if ec_electionPublicKey E = pk then Inr w else Inl ImmutabilityError)
     else
       (case last_of keyper_addr (ec_DKGVoteRegistered E) of
          Some pk' \<Rightarrow> if pk' = pk then Inr w else Inl ImmutabilityError
        | None \<Rightarrow>
            ebind (send lag account (at_election i (\<lambda>now sender E. no_value (voteDKGResultSigned H L pk committee keyper_sig E))) w)
              (\<lambda>(w', _). Inr w')))))"

definition bc_get_dkg_submissions :: "bytes \<Rightarrow> chain \<Rightarrow> DKGResultSubmission list result" where
  "bc_get_dkg_submissions election_id w =
     ebind (bc_election election_id w) (\<lambda>(_, E).
     let committee = (if ec_dkgFinalized E then ec_committeePublicKeys E else []) in
     Inr (map (\<lambda>(keyper, pk). \<lparr>dkg_election_id = election_id, dkg_pk_election = pk, dkg_committee_pks = committee,
                              dkg_keyper_signature = []\<rparr>) (ec_DKGVoteRegistered E)))"

section \<open>Ballots\<close>

definition bc_submit_ballot ::
    "host \<Rightarrow> int \<Rightarrow> bytes option \<Rightarrow> int \<Rightarrow> bytes \<Rightarrow> BallotEnvelope \<Rightarrow> bytes \<Rightarrow> chain \<Rightarrow> (chain \<times> int) result" where
  "bc_submit_ballot H lag account now election_id ballot gateway_sig w =
     ebind (bc_election election_id w) (\<lambda>(i, _).
     let tuple = ballot_to_tuple H ballot in
     ebind (abi_args (length (bl_pseudonym tuple) = 32)) (\<lambda>_.
     send lag account (at_election i (\<lambda>now sender E. submitVote now sender 0 tuple E)) w))"

text \<open>The records of a page are numbered from \<open>start\<close>.\<close>

definition bc_list_ballots :: "chain_lib \<Rightarrow> bytes \<Rightarrow> int \<Rightarrow> int \<Rightarrow> chain \<Rightarrow> StoredBallot list result" where
  "bc_list_ballots L election_id start count w =
     ebind (bc_election election_id w) (\<lambda>(_, E).
     let tot = getNumBallots E; count = min count (max 0 (tot - start)) in
     if count \<le> 0 then Inr []
     else
       ebind (abi_args (abi_uint 256 start \<and> abi_uint 256 count)) (\<lambda>_.
       case getBallots start count E of
         Inl _ \<Rightarrow> Inl ValueError
       | Inr raw \<Rightarrow> emap (\<lambda>(offset, rec). ballot_record_from_contract L rec election_id (start + int offset)) (enumerate 0 raw)))"

definition bc_count_ballots :: "bytes \<Rightarrow> chain \<Rightarrow> int result" where
  "bc_count_ballots election_id w = ebind (bc_election election_id w) (\<lambda>(_, E). Inr (getNumBallots E))"

section \<open>Tally artifacts\<close>

definition read_aggregate :: "Election \<Rightarrow> bytes \<Rightarrow> AggregateArtifact option result" where
  "read_aggregate E election_id =
     (case getAggregate E of
        Inl _ \<Rightarrow> Inr None
      | Inr raw \<Rightarrow>
          ebind (aggregate_from_contract (et_aggregates raw) (et_admitted raw) (et_exclusions raw) (et_totalAdmittedWeight raw)
              [et_totalScaledWeight raw] election_id) (\<lambda>a. Inr (Some a)))"

definition tally_fits :: "EncryptedTally \<Rightarrow> bool" where
  "tally_fits t \<longleftrightarrow> list_all (abi_uint 256) (et_admitted t) \<and> list_all (\<lambda>(s, r). abi_uint 256 s \<and> abi_uint 8 r) (et_exclusions t) \<and>
     abi_uint 256 (et_totalAdmittedWeight t) \<and> abi_uint 256 (et_totalScaledWeight t)"

definition bc_submit_aggregate ::
    "host \<Rightarrow> chain_lib \<Rightarrow> int \<Rightarrow> bytes option \<Rightarrow> int \<Rightarrow> bytes \<Rightarrow> AggregateArtifact \<Rightarrow> bytes \<Rightarrow> chain \<Rightarrow> chain result" where
  "bc_submit_aggregate H L lag account now election_id aggregate keyper_sig w =
     ebind (bc_election election_id w) (\<lambda>(i, E).
     ebind (aggregate_digest_of H election_id aggregate) (\<lambda>digest.
     ebind (recover_author H digest keyper_sig) (\<lambda>keyper_addr.
     ebind (read_aggregate E election_id) (\<lambda>existing.
     case existing of
       Some a \<Rightarrow> if a = aggregate then Inr w else Inl ImmutabilityError
     | None \<Rightarrow>
         if last_of keyper_addr (ec_AggregateVoteRegistered E) = Some digest then Inr w
         else
           let tuple = aggregate_to_tuple aggregate in
           ebind (abi_args (tally_fits tuple)) (\<lambda>_.
           ebind (send lag account (at_election i (\<lambda>now sender E. no_value (submitAggregateSigned H L now tuple keyper_sig E))) w)
             (\<lambda>(w', _). Inr w'))))))"

definition bc_get_aggregate :: "bytes \<Rightarrow> chain \<Rightarrow> AggregateArtifact option result" where
  "bc_get_aggregate election_id w = ebind (bc_election election_id w) (\<lambda>(_, E). read_aggregate E election_id)"

definition bc_list_decryption_shares :: "bytes \<Rightarrow> chain \<Rightarrow> DecryptionShareEnvelope list result" where
  "bc_list_decryption_shares election_id w =
     ebind (bc_election election_id w) (\<lambda>(_, E). emap (\<lambda>s. share_from_contract s election_id) (ec_decryptionShares E))"

definition bc_submit_decryption_share ::
    "host \<Rightarrow> chain_lib \<Rightarrow> int \<Rightarrow> bytes option \<Rightarrow> int \<Rightarrow> bytes \<Rightarrow> DecryptionShareEnvelope \<Rightarrow> bytes \<Rightarrow> chain \<Rightarrow> chain result" where
  "bc_submit_decryption_share H L lag account now election_id share keyper_sig w =
     ebind (bc_election election_id w) (\<lambda>(i, E).
     let (shares, proofs) = share_to_contract share in
     ebind (decryption_share_digest H election_id shares proofs) (\<lambda>digest.
     ebind (recover_author H digest keyper_sig) (\<lambda>keyper_addr.
     case getMemberIndex keyper_addr (ec_keyperSet E) of
       Inl _ \<Rightarrow> Inl WriteAuthorizationError
     | Inr idx0 \<Rightarrow>
         if ds_keyper_index share \<noteq> idx0 + 1 then Inl WriteAuthorizationError
         else
           ebind (bc_list_decryption_shares election_id w) (\<lambda>listed.
           case map_of (rev (map (\<lambda>s. (ds_keyper_index s, s)) listed)) (ds_keyper_index share) of
             Some existing \<Rightarrow> if existing \<noteq> share then Inl ImmutabilityError else Inr w
           | None \<Rightarrow>
               ebind (abi_args (list_all (\<lambda>(e, z). abi_uint 256 e \<and> abi_uint 256 z) proofs)) (\<lambda>_.
               ebind (send lag account (at_election i (\<lambda>now sender E. no_value (submitDecryptionShareSigned H L now shares proofs keyper_sig E))) w)
                 (\<lambda>(w', _). Inr w'))))))"

definition bc_get_result :: "bytes \<Rightarrow> chain \<Rightarrow> ResultArtifact option result" where
  "bc_get_result election_id w =
     ebind (bc_election election_id w) (\<lambda>(_, E).
     if \<not> ec_resultFinalized E then Inr None
     else
       ebind (bc_get_aggregate election_id w) (\<lambda>agg.
       let bound = pa_budget (ec_params E) * (case agg of None \<Rightarrow> 0 | Some a \<Rightarrow> agg_total_scaled_weight a) in
       Inr (Some \<lparr>res_election_id = election_id, res_totals = rr_tally (ec_electionResult E),
                  res_keyper_indices = rr_keyperIndices (ec_electionResult E), res_bsgs_bound = bound\<rparr>)))"

definition bc_publish_result :: "int \<Rightarrow> bytes option \<Rightarrow> bytes \<Rightarrow> ResultArtifact \<Rightarrow> bytes \<Rightarrow> chain \<Rightarrow> chain result" where
  "bc_publish_result lag account election_id res result_publisher_sig w =
     ebind (bc_election election_id w) (\<lambda>(i, E).
     if ec_resultFinalized E then
       ebind (bc_get_result election_id w) (\<lambda>existing.
       case existing of
         Some r \<Rightarrow> if res_totals r \<noteq> res_totals res then Inl ImmutabilityError else Inr w
       | None \<Rightarrow> Inr w)
     else
       ebind (abi_args (list_all (abi_uint 256) (res_totals res) \<and> list_all (abi_uint 8) (res_keyper_indices res))) (\<lambda>_.
       ebind (send lag account (at_election i (\<lambda>now sender E. no_value (publishResult now sender (res_totals res) (res_keyper_indices res) E))) w)
         (\<lambda>(w', _). Inr w')))"

definition bc_set_tally_stalled :: "int \<Rightarrow> bytes option \<Rightarrow> int \<Rightarrow> bytes \<Rightarrow> bool \<Rightarrow> bytes \<Rightarrow> int \<Rightarrow> chain \<Rightarrow> chain result" where
  "bc_set_tally_stalled lag account now election_id stalled sig issued_at w =
     ebind (bc_election election_id w) (\<lambda>(i, _).
     ebind (send lag account (at_election i (\<lambda>now sender E.
       no_value (if stalled then markTallyStalled now sender E else clearTallyStalled sender E))) w) (\<lambda>(w', _). Inr w'))"

definition chain_port :: "host \<Rightarrow> chain_lib \<Rightarrow> int \<Rightarrow> bytes option \<Rightarrow> chain ElectionDataLayer" where
  "chain_port H L lag account =
     \<lparr>dl_register_election = bc_register_election lag account,
      dl_cancel_election = (\<lambda>now. bc_cancel_election lag account),
      dl_get_election = bc_get_election,
      dl_list_elections = bc_list_elections,
      dl_submit_dkg_result = bc_submit_dkg_result H L lag account,
      dl_get_dkg_submissions = bc_get_dkg_submissions,
      dl_get_finalized_key = bc_get_finalized_key,
      dl_submit_ballot = bc_submit_ballot H lag account,
      dl_list_ballots = bc_list_ballots L,
      dl_count_ballots = bc_count_ballots,
      dl_submit_aggregate = bc_submit_aggregate H L lag account,
      dl_get_aggregate = bc_get_aggregate,
      dl_submit_decryption_share = bc_submit_decryption_share H L lag account,
      dl_list_decryption_shares = bc_list_decryption_shares,
      dl_publish_result = bc_publish_result lag account,
      dl_get_result = bc_get_result,
      dl_set_tally_stalled = bc_set_tally_stalled lag account,
      dl_verifiability_tier = 0\<rparr>"

lemma chain_port_sel [simp]:
  "dl_get_election (chain_port H L lag account) = bc_get_election" "dl_get_dkg_submissions (chain_port H L lag account) = bc_get_dkg_submissions"
  "dl_get_finalized_key (chain_port H L lag account) = bc_get_finalized_key" "dl_list_ballots (chain_port H L lag account) = bc_list_ballots L"
  "dl_count_ballots (chain_port H L lag account) = bc_count_ballots" "dl_get_aggregate (chain_port H L lag account) = bc_get_aggregate"
  by (simp_all add: chain_port_def)

section \<open>Reading the ballots\<close>

text \<open>The ballots of an election on chain, when every stored record decodes.\<close>

definition chain_holds :: "chain_lib \<Rightarrow> chain \<Rightarrow> bytes \<Rightarrow> StoredBallot list \<Rightarrow> bool" where
  "chain_holds L w e bs \<longleftrightarrow> (\<exists>i E. bc_election e w = Inr (i, E) \<and> length bs = length (ec_ballotRecords E) \<and> int (length bs) < 2 ^ 256 \<and>
     (\<forall>k < length bs. ballot_record_from_contract L (ec_ballotRecords E ! k) e (int k) = Inr (bs ! k)))"

text \<open>A page is cut to the stored ballots, so the contract never reads past its end.\<close>

lemma list_ballots_unfold:
  assumes "bc_election e w = Inr (j, E)" and "c = min n (max 0 (int (length (ec_ballotRecords E)) - i))"
  shows "bc_list_ballots L e i n w =
    (if c \<le> 0 then Inr []
     else if abi_uint 256 i \<and> abi_uint 256 c
     then emap (\<lambda>(offset, rec). ballot_record_from_contract L rec e (i + int offset)) (enumerate 0 (take (nat c) (drop (nat i) (ec_ballotRecords E))))
     else Inl EncodingError)"
proof -
  have "getBallots i c E = Inr (take (nat c) (drop (nat i) (ec_ballotRecords E)))" if "0 < c"
    using that assms(2) by (auto simp: getBallots_def min_def max_def split: if_split_asm)
  then show ?thesis
    unfolding bc_list_ballots_def assms(1) ebind_Inr case_prod_conv Let_def getNumBallots_def assms(2) [symmetric]
    by (simp add: abi_args_def)
qed

lemma list_ballots_page:
  assumes h: "chain_holds L w e bs" and i: "0 \<le> i" "0 \<le> n"
  shows "bc_list_ballots L e i n w = Inr (take (nat n) (drop (nat i) bs))"
proof -
  obtain j E where E: "bc_election e w = Inr (j, E)" "length bs = length (ec_ballotRecords E)" "int (length bs) < 2 ^ 256"
    "\<And>k. k < length bs \<Longrightarrow> ballot_record_from_contract L (ec_ballotRecords E ! k) e (int k) = Inr (bs ! k)"
    using h by (auto simp: chain_holds_def)
  define c where "c = min n (max 0 (int (length (ec_ballotRecords E)) - i))"
  have t: "take (nat n) (drop (nat i) bs) = take (nat c) (drop (nat i) bs)" unfolding c_def using E(2) by (auto simp: min_def max_def)
  show ?thesis
  proof (cases "c \<le> 0")
    case True
    with t show ?thesis by (simp only: list_ballots_unfold [OF E(1) c_def] if_True) simp
  next
    case False
    then have c: "0 < c" "i + c \<le> int (length bs)" using E(2) by (auto simp: c_def)
    let ?raw = "take (nat c) (drop (nat i) (ec_ballotRecords E))"
    have "ballot_record_from_contract L (?raw ! k) e (i + int k) = Inr (take (nat c) (drop (nat i) bs) ! k)" if "k < length ?raw" for k
    proof -
      have l: "nat i + k < length bs" using that E(2) by auto
      from E(4) [OF this] that i E(2) l show ?thesis by simp
    qed
    then have "emap (\<lambda>(offset, rec). ballot_record_from_contract L rec e (i + int offset)) (enumerate 0 ?raw) = Inr (take (nat c) (drop (nat i) bs))"
      unfolding emap_eq_Inr list_all2_conv_all_nth using E(2) by (simp add: nth_enumerate_eq)
    moreover have "abi_uint 256 i \<and> abi_uint 256 c" using c i E(3) by (simp add: abi_uint_def)
    ultimately show ?thesis unfolding list_ballots_unfold [OF E(1) c_def] using False t by simp
  qed
qed

interpretation chain_ballots: ballot_store "chain_port H L lag account" "chain_holds L" for H L lag account
proof unfold_locales
  fix w e bs
  assume h: "chain_holds L w e bs"
  then show "dl_count_ballots (chain_port H L lag account) e w = Inr (int (length bs))"
    by (auto simp: chain_holds_def chain_port_def bc_count_ballots_def getNumBallots_def)
  show "dl_list_ballots (chain_port H L lag account) e i n w = Inr (take (nat n) (drop (nat i) bs))" if "0 \<le> i" "0 \<le> n" for i n
    using list_ballots_page [OF h that] by (simp add: chain_port_def)
  have "sb_sequence_number (bs ! k) = int k" if "k < length bs" for k
  proof -
    note k = that
    obtain rec where "ballot_record_from_contract L rec e (int k) = Inr (bs ! k)" using h k by (auto simp: chain_holds_def)
    then show ?thesis by (auto simp: ballot_record_from_contract_def dest: arg_cong [where f = sb_sequence_number])
  qed
  then show "map sb_sequence_number bs = map int [0..<length bs]" by (intro nth_equalityI) simp_all
qed

lemma emap_each: "emap f xs = Inr ys \<Longrightarrow> x \<in> set xs \<Longrightarrow> \<exists>y. f x = Inr y"
  by (induction xs arbitrary: ys) auto

text \<open>Every row of a complete read came from a page that covers it.\<close>

lemma read_pages_covers:
  "read_pages page tot start out = Inr res \<Longrightarrow> start \<le> k \<Longrightarrow> k < tot \<Longrightarrow>
     \<exists>s rows. start \<le> s \<and> s \<le> k \<and> k < s + int (length rows) \<and> page s (min BALLOT_PAGE (tot - s)) = Inr rows"
proof (induction page tot start out rule: read_pages.induct)
  case (1 page tot start out)
  obtain rows where rows: "page start (min BALLOT_PAGE (tot - start)) = Inr rows" "rows \<noteq> []"
    "read_pages page tot (start + int (length rows)) (out @ rows) = Inr res"
    using "1.prems" by (subst (asm) read_pages.simps) (auto split: if_split_asm)
  show ?case
  proof (cases "k < start + int (length rows)")
    case True
    with rows(1) "1.prems"(2) show ?thesis by blast
  next
    case False
    with "1.IH" [OF _ rows(1,2,3)] "1.prems" obtain s rws where "start + int (length rows) \<le> s" "s \<le> k" "k < s + int (length rws)"
      "page s (min BALLOT_PAGE (tot - s)) = Inr rws" by auto
    then show ?thesis by (intro exI [of _ s] exI [of _ rws]) simp
  qed
qed

lemma undecodable_ballot_blocks_read:
  assumes e: "bc_election e w = Inr (i, E)" and r: "rec \<in> set (ec_ballotRecords E)" "isl (unpack_attestation L (bl_wrAttestation (rc_ballot rec)))"
  shows "isl (read_all_ballots (chain_port H L lag account) e w)"
proof (rule ccontr)
  assume "\<not> ?thesis"
  then obtain bs where "read_all_ballots (chain_port H L lag account) e w = Inr bs" by (metis isl_def sum.exhaust)
  then obtain out where out: "read_pages (\<lambda>start count. bc_list_ballots L e start count w) (getNumBallots E) 0 [] = Inr out"
    using e by (auto simp: read_all_ballots_def chain_port_def bc_count_ballots_def)
  obtain k where k: "k < length (ec_ballotRecords E)" "ec_ballotRecords E ! k = rec" using r(1) by (auto simp: in_set_conv_nth)
  then obtain s rows where s: "0 \<le> s" "s \<le> int k" "int k < s + int (length rows)"
    "bc_list_ballots L e s (min BALLOT_PAGE (getNumBallots E - s)) w = Inr rows"
    using read_pages_covers [OF out, of "int k"] by (auto simp: getNumBallots_def)
  define c where "c = min (min BALLOT_PAGE (getNumBallots E - s)) (max 0 (int (length (ec_ballotRecords E)) - s))"
  let ?raw = "take (nat c) (drop (nat s) (ec_ballotRecords E))"
  have rows: "emap (\<lambda>(offset, rec). ballot_record_from_contract L rec e (s + int offset)) (enumerate 0 ?raw) = Inr rows"
    using s(2,3,4) unfolding list_ballots_unfold [OF e c_def] by (auto split: if_split_asm)
  have "length rows = length ?raw" using emap_length [OF rows] by simp
  then have "nat (int k - s) < length ?raw" using s by linarith
  moreover have "?raw ! nat (int k - s) = rec"
  proof -
    have "nat s + nat (int k - s) = k" using s(1,2) by simp
    moreover have "nat s \<le> length (ec_ballotRecords E)" using k(1) s(1,2) by simp
    ultimately show ?thesis using k(2) \<open>nat (int k - s) < length ?raw\<close> by (simp add: nth_drop)
  qed
  ultimately have "(nat (int k - s), rec) \<in> set (enumerate 0 ?raw)" by (force simp: in_set_enumerate_eq)
  from emap_each [OF rows this] obtain sb where "ballot_record_from_contract L rec e (s + int (nat (int k - s))) = Inr sb" by auto
  with r(2) show False by (auto simp: ballot_record_from_contract_def ballot_from_contract_def)
qed

section \<open>Runs of the chain\<close>

text \<open>A block with a later time, a new election, or a transaction on one of the elections.\<close>

inductive chain_step :: "host \<Rightarrow> chain_lib \<Rightarrow> chain \<Rightarrow> chain \<Rightarrow> bool" for H L where
  tick: "ch_timestamp w \<le> t \<Longrightarrow> chain_step H L w (w\<lparr>ch_timestamp := t\<rparr>)"
| admins: "chain_step H L w (w\<lparr>ch_admins := A\<rparr>)"
| new: "publishElection sender ks params w = Inr (w', i) \<Longrightarrow> chain_step H L w w'"
| tx: "ch_elections w i = Some E \<Longrightarrow> election_step H L E E' \<Longrightarrow> chain_step H L w (w\<lparr>ch_elections := (ch_elections w)(i \<mapsto> E')\<rparr>)"

definition chain_reachable :: "host \<Rightarrow> chain_lib \<Rightarrow> chain \<Rightarrow> bool" where
  "chain_reachable H L w \<longleftrightarrow> (\<exists>admin now. (chain_step H L)\<^sup>*\<^sup>* (ElectionRegistry_constructor admin now) w)"

text \<open>Ids are given out in order, each once, and an election keeps the id it was deployed with.\<close>

definition chain_inv :: "chain \<Rightarrow> bool" where
  "chain_inv w \<longleftrightarrow> 0 \<le> ch_electionCount w \<and>
     (\<forall>i E. ch_elections w i = Some E \<longrightarrow> 1 \<le> i \<and> i \<le> ch_electionCount w \<and> ec_electionId E = i)"

lemma publishElection_parts:
  assumes "publishElection sender ks params w = Inr (w', i)"
  obtains E where "i = ch_electionCount w + 1" "w' = w\<lparr>ch_electionCount := i, ch_elections := (ch_elections w)(i \<mapsto> E)\<rparr>"
    "Election_constructor sender i ks params = Inr E"
  using assms by (auto simp: publishElection_def Let_def split: if_split_asm)

lemma Election_constructor_id: "Election_constructor a i ks params = Inr E \<Longrightarrow> ec_electionId E = i"
  by (auto simp: Election_constructor_def split: if_split_asm)

lemma chain_inv_fresh: "chain_inv w \<Longrightarrow> ch_elections w (ch_electionCount w + 1) = None"
  by (cases "ch_elections w (ch_electionCount w + 1)") (force simp: chain_inv_def)+

lemma chain_inv_init: "chain_inv (ElectionRegistry_constructor admin now)"
  by (simp add: chain_inv_def ElectionRegistry_constructor_def)

lemma chain_step_inv: "chain_step H L w w' \<Longrightarrow> chain_inv w \<Longrightarrow> chain_inv w'"
proof (induction rule: chain_step.induct)
  case (new sender ks params w w' i)
  from new(1) obtain E where "i = ch_electionCount w + 1" "w' = w\<lparr>ch_electionCount := i, ch_elections := (ch_elections w)(i \<mapsto> E)\<rparr>"
    "ec_electionId E = i" by (rule publishElection_parts) (auto dest: Election_constructor_id)
  then show ?case using new(2) by (fastforce simp: chain_inv_def split: if_split_asm)
next
  case (tx w i E E')
  then show ?case using election_step_kept [OF tx(2)] by (auto simp: chain_inv_def kept_def)
qed (auto simp: chain_inv_def)

lemma chain_reachable_inv: "chain_reachable H L w \<Longrightarrow> chain_inv w"
proof -
  assume "chain_reachable H L w"
  then obtain admin now where "(chain_step H L)\<^sup>*\<^sup>* (ElectionRegistry_constructor admin now) w" by (auto simp: chain_reachable_def)
  then show ?thesis by (induction rule: rtranclp_induct) (auto intro: chain_step_inv chain_inv_init)
qed

lemma chain_step_kept:
  "chain_step H L w w' \<Longrightarrow> chain_inv w \<Longrightarrow> ch_elections w i = Some E \<Longrightarrow> \<exists>E'. ch_elections w' i = Some E' \<and> kept E E'"
proof (induction rule: chain_step.induct)
  case (new sender ks params w w' j)
  from new(1) show ?case by (rule publishElection_parts) (use new(2,3) chain_inv_fresh [of w] in \<open>auto simp: kept_refl\<close>)
next
  case (tx w j F F')
  then show ?case by (auto intro: election_step_kept kept_refl)
qed (auto intro: kept_refl)

lemma chain_run_kept:
  assumes "(chain_step H L)\<^sup>*\<^sup>* w w'" "chain_inv w" "ch_elections w i = Some E"
  shows "\<exists>E'. ch_elections w' i = Some E' \<and> kept E E'"
proof -
  from assms have "chain_inv w' \<and> (\<exists>E'. ch_elections w' i = Some E' \<and> kept E E')"
  proof (induction rule: rtranclp_induct)
    case (step u v)
    then obtain E' where u: "chain_inv u" "ch_elections u i = Some E'" "kept E E'" by blast
    with chain_step_kept [OF step(2)] chain_step_inv [OF step(2)] show ?case by (meson kept_trans)
  qed (auto intro: kept_refl)
  then show ?thesis by blast
qed

lemma bc_election_Some: "bc_election e w = Inr (i, E) \<longleftrightarrow> i = eid_to_uint e \<and> abi_uint 256 i \<and> ch_elections w i = Some E"
  by (auto simp: bc_election_def abi_args_def Let_def split: option.split)

section \<open>Registration\<close>

lemma checksum_members: "emap (\<lambda>k. to_checksum_address (ki_signing_key k)) ks = Inr ms \<Longrightarrow> ms = map ki_signing_key ks"
  by (induction ks arbitrary: ms) (auto simp: to_checksum_address_def split: if_split_asm)

lemma send_parts:
  assumes "send lag account fn w = Inr res"
  obtains acct where "account = Some acct" "fn acct (w\<lparr>ch_timestamp := ch_timestamp w + lag\<rparr>) = Inr res"
  using assms by (auto simp: send_def split: option.splits sum.splits)

lemma post_init_frame: "ElectionConfig_post_init (c\<lparr>cfg_gateway_keys := g, cfg_admin_key := a\<rparr>) = ElectionConfig_post_init c"
  unfolding ElectionConfig_post_init_def check_ballot_bounds_def by simp

text \<open>Reading back an election that was deployed from a configuration.\<close>

lemma config_from_deployed:
  assumes ok: "config_ok config" and params: "config_to_params config = Inr params"
    and ks: "KeyperSet_constructor (map ki_signing_key (cfg_keypers config)) (map ki_url (cfg_keypers config)) (th_quorum (cfg_threshold config)) = Inr ks"
    and E: "Election_constructor acct i ks params = Inr E" and i: "uint_to_eid i = Inr (cfg_election_id config)"
  shows "config_from_view E = Inr (config\<lparr>cfg_gateway_keys := [hd (cfg_gateway_keys config)], cfg_admin_key := acct\<rparr>)"
proof -
  let ?c = "config\<lparr>cfg_gateway_keys := [hd (cfg_gateway_keys config)], cfg_admin_key := acct\<rparr>"
  note k = KeyperSet_constructor_ok [OF ks]
  have q: "0 \<le> th_quorum (cfg_threshold config)" using config_ok_facts(10) [OF ok] by (simp add: th_quorum_def)
  have th: "\<lparr>th_t = ks_threshold ks, th_n = getNumMembers ks\<rparr> = cfg_threshold config"
    using k q config_ok_facts(8) [OF ok] by (cases "cfg_threshold config") (simp add: getNumMembers_def th_quorum_def)
  have kp: "map (\<lambda>(a, e). \<lparr>ki_signing_key = a, ki_url = e\<rparr>) (zip (ks_members ks) (ks_urls ks)) = cfg_keypers config"
    using k q by (intro nth_equalityI) simp_all
  have init: "Threshold_post_init (cfg_threshold config) = Inr ()" "ElectionConfig_post_init ?c = Inr ()"
    using ok post_init_frame [where c = config and g = "[hd (cfg_gateway_keys config)]" and a = acct] by (simp_all add: config_ok_def)
  have E': "ec_electionId E = i" "ec_keyperSet E = ks" "ec_params E = params" "ec_adminAddr E = acct"
    using E by (auto simp: Election_constructor_def split: if_split_asm)
  show ?thesis
    using params init i unfolding config_from_view_def Let_def E' th kp
    by (cases config) (auto simp: config_to_params_def to_checksum_address_def split: list.splits if_split_asm)
qed

text \<open>
  C19: what is registered on chain is what is read back, but for two fields. When registration
  succeeds the id is the one the configuration asserted, every earlier election stays, and reading
  the new one returns the configuration with the first of its gateway keys alone and with the sending
  account as admin, whatever admin key was signed; it is not cancelled, stalled or keyed.
\<close>

theorem chain_registration_roundtrip:
  assumes "config_ok config" and "chain_inv w" and "bc_register_election lag account config admin_sig w = Inr (w', eid)"
  shows "\<exists>acct. account = Some acct \<and> eid = cfg_election_id config \<and> chain_inv w' \<and>
    (\<forall>i E. ch_elections w i = Some E \<longrightarrow> ch_elections w' i = Some E) \<and>
    bc_get_election eid w' = Inr \<lparr>er_config = config\<lparr>cfg_gateway_keys := [hd (cfg_gateway_keys config)], cfg_admin_key := acct\<rparr>,
      er_cancelled = False, er_finalized_key = None, er_tally_stalled = False\<rparr>"
proof -
  obtain members w1 ks params i where r: "int_to_bytes (ch_electionCount w + 1) 32 = Inr (cfg_election_id config)"
    "emap (\<lambda>k. to_checksum_address (ki_signing_key k)) (cfg_keypers config) = Inr members"
    "deploy_keyper_set lag account members (map ki_url (cfg_keypers config)) (th_quorum (cfg_threshold config)) w = Inr (w1, ks)"
    "config_to_params config = Inr params" "send lag account (\<lambda>sender. publishElection sender ks params) w1 = Inr (w', i)" "uint_to_eid i = Inr eid"
    using assms(3) by (auto simp: bc_register_election_def split: if_split_asm)
  from r(3) have d: "send lag account (\<lambda>_ w. tbind (KeyperSet_constructor members (map ki_url (cfg_keypers config)) (th_quorum (cfg_threshold config)))
      (\<lambda>ks. Inr (w, ks))) w = Inr (w1, ks)" by (auto simp: deploy_keyper_set_def abi_args_def split: if_split_asm)
  from d have ks: "KeyperSet_constructor (map ki_signing_key (cfg_keypers config)) (map ki_url (cfg_keypers config)) (th_quorum (cfg_threshold config)) = Inr ks"
    and w1: "w1 = w\<lparr>ch_timestamp := ch_timestamp w + lag\<rparr>"
    using checksum_members [OF r(2)] by (auto elim!: send_parts)
  from r(5) obtain acct where acct: "account = Some acct" "publishElection acct ks params (w1\<lparr>ch_timestamp := ch_timestamp w1 + lag\<rparr>) = Inr (w', i)"
    by (rule send_parts)
  from acct(2) obtain E where E: "i = ch_electionCount w + 1" "Election_constructor acct i ks params = Inr E"
    "ch_elections w' = (ch_elections w)(i \<mapsto> E)" "ch_electionCount w' = i"
    by (rule publishElection_parts) (simp add: w1)
  have eid: "eid = cfg_election_id config" using r(1,6) E(1) by (simp add: uint_to_eid_def)
  have "abi_uint 256 i" using r(6) by (auto simp: uint_to_eid_def int_to_bytes_def abi_uint_def split: if_split_asm)
  then have bc: "bc_election eid w' = Inr (i, E)" using eid_to_uint_inverse [OF r(6)] by (simp add: bc_election_Some E(3))
  have fresh: "\<not> ec_cancelled E" "\<not> ec_dkgFinalized E" "\<not> ec_tallyStalled E" "ec_electionId E = i"
    using E(2) by (auto simp: Election_constructor_def split: if_split_asm)
  have "config_from_view E = Inr (config\<lparr>cfg_gateway_keys := [hd (cfg_gateway_keys config)], cfg_admin_key := acct\<rparr>)"
    by (rule config_from_deployed [OF assms(1) r(4) ks E(2)]) (use r(6) eid in simp)
  then have "bc_get_election eid w' = Inr \<lparr>er_config = config\<lparr>cfg_gateway_keys := [hd (cfg_gateway_keys config)], cfg_admin_key := acct\<rparr>,
      er_cancelled = False, er_finalized_key = None, er_tally_stalled = False\<rparr>"
    using fresh by (simp add: bc_get_election_def bc)
  moreover have "chain_inv w'" using assms(2) E fresh(4) by (fastforce simp: chain_inv_def split: if_split_asm)
  moreover have "\<forall>i E. ch_elections w i = Some E \<longrightarrow> ch_elections w' i = Some E"
    using chain_inv_fresh [OF assms(2)] E(1,3) by auto
  ultimately show ?thesis using acct(1) eid by blast
qed

section \<open>Properties\<close>

text \<open>
  The contract recovers over the digests the keypers sign. For the 32-byte id of an election,
  the text that each signed write of the contract hashes is the one of the write digests, so the
  contract registers the vote, the share or the aggregate of the account that signed the artifact.
\<close>

theorem chain_digests_agree:
  assumes "length e = 32" and "ec_electionId E = eid_to_uint e"
  shows "(dkg_result_digest H e pk com = Inr d \<longrightarrow> \<not> ec_cancelled E \<longrightarrow> \<not> ec_dkgFinalized E \<longrightarrow>
      voteDKGResultSigned H L pk com sig E = tbind (recover_signer L d sig) (\<lambda>signer. registerDKGVote H L signer pk com E)) \<and>
    (aggregate_digest_of H e a = Inr d' \<longrightarrow>
      submitAggregateSigned H L now (aggregate_to_tuple a) sig E =
      tbind (recover_signer L d' sig) (\<lambda>signer. registerAggregate now signer d' (aggregate_to_tuple a) E)) \<and>
    (share_to_contract sh = (shares, proofs) \<longrightarrow> decryption_share_digest H e shares proofs = Inr d'' \<longrightarrow>
      \<not> ec_cancelled E \<longrightarrow> ec_dkgFinalized E \<longrightarrow> pa_votingEnd (ec_params E) \<le> now \<longrightarrow>
      submitDecryptionShareSigned H L now shares proofs sig E =
      tbind (recover_signer L d'' sig) (\<lambda>signer. registerDecryptionShare now signer shares proofs E))"
proof -
  have e: "be 32 (ec_electionId E) = e" using assms be_int_from_bytes [of e] by (simp add: eid_to_uint_def)
  have p: "ct_pair = (\<lambda>ct. (ct_c1 ct, ct_c2 ct))" by (rule ext) (simp add: ct_pair_def)
  have 1: "dkg_result_digest H e pk com = Inr d \<longrightarrow> \<not> ec_cancelled E \<longrightarrow> \<not> ec_dkgFinalized E \<longrightarrow>
      voteDKGResultSigned H L pk com sig E = tbind (recover_signer L d sig) (\<lambda>signer. registerDKGVote H L signer pk com E)"
    by (auto simp: dkg_result_digest_def voteDKGResultSigned_def encoded_def e DKG_RESULT_DST_def)
  have 2: "aggregate_digest_of H e a = Inr d' \<longrightarrow>
      submitAggregateSigned H L now (aggregate_to_tuple a) sig E =
      tbind (recover_signer L d' sig) (\<lambda>signer. registerAggregate now signer d' (aggregate_to_tuple a) E)"
    by (auto simp: aggregate_digest_of_def aggregate_digest_def submitAggregateSigned_def aggregateDigest_def encoded_def e AGGREGATE_DST_def
        aggregate_to_tuple_def reason_codes_agree assert_aggregate_shape_def comp_def p)
  have 3: "share_to_contract sh = (shares, proofs) \<longrightarrow> decryption_share_digest H e shares proofs = Inr d'' \<longrightarrow>
      \<not> ec_cancelled E \<longrightarrow> ec_dkgFinalized E \<longrightarrow> pa_votingEnd (ec_params E) \<le> now \<longrightarrow>
      submitDecryptionShareSigned H L now shares proofs sig E =
      tbind (recover_signer L d'' sig) (\<lambda>signer. registerDecryptionShare now signer shares proofs E)"
    by (auto simp: decryption_share_digest_def submitDecryptionShareSigned_def encoded_def e DECRYPT_SHARE_DST_def)
  show ?thesis by (intro conjI 1 2 3)
qed

text \<open>
  C20: a ballot the adapter submits is read back. When the transaction is mined, the complete read
  returns the earlier ballots and after them this one, under the election's id, numbered with the
  returned index and stamped with the time of its block, if the JSON parser reads back its credential.
\<close>

theorem chain_ballot_stored:
  assumes "chain_holds L w e bs" and "int (length bs) + 1 < 2 ^ 256" and "0 \<le> ch_timestamp w + lag" "ch_timestamp w + lag < 2 ^ 64"
    and "parses H L (be_attestation b)" "ok_attestation (be_attestation b)"
    and "bc_submit_ballot H lag account now e b gsig w = Inr (w', seq)"
  shows "read_all_ballots (chain_port H L lag account) e w' =
    Inr (bs @ [\<lparr>sb_sequence_number = seq, sb_envelope = b\<lparr>be_election_id := e\<rparr>, sb_submitted_at = Some (ch_timestamp w + lag)\<rparr>])"
proof -
  obtain i E where E: "bc_election e w = Inr (i, E)" "length bs = length (ec_ballotRecords E)"
    "\<And>k. k < length bs \<Longrightarrow> ballot_record_from_contract L (ec_ballotRecords E ! k) e (int k) = Inr (bs ! k)"
    using assms(1) by (auto simp: chain_holds_def)
  then have i: "i = eid_to_uint e" "abi_uint 256 i" "ch_elections w i = Some E" unfolding bc_election_Some by blast+
  from assms(7) E(1) have "send lag account (at_election i (\<lambda>now sender E. submitVote now sender 0 (ballot_to_tuple H b) E)) w = Inr (w', seq)"
    by (auto simp: bc_submit_ballot_def Let_def)
  then obtain acct where "at_election i (\<lambda>now sender E. submitVote now sender 0 (ballot_to_tuple H b) E) acct (w\<lparr>ch_timestamp := ch_timestamp w + lag\<rparr>) = Inr (w', seq)"
    by (rule send_parts)
  then obtain E' where s: "submitVote (ch_timestamp w + lag) acct 0 (ballot_to_tuple H b) E = Inr (E', seq)" "ch_elections w' = (ch_elections w)(i \<mapsto> E')"
    by (auto simp: at_election_def i(3))
  then have "\<exists>by. ec_ballotRecords E' = ec_ballotRecords E @ [\<lparr>rc_ballot = ballot_to_tuple H b, rc_submittedAt = ch_timestamp w + lag, rc_submittedBy = by\<rparr>]"
    and seq: "seq = int (length bs)"
    using assms(3,4) E(2) by (auto simp: submitVote_def Let_def split: if_split_asm)
  then obtain acct' where rec: "ec_ballotRecords E' = ec_ballotRecords E @ [\<lparr>rc_ballot = ballot_to_tuple H b, rc_submittedAt = ch_timestamp w + lag, rc_submittedBy = acct'\<rparr>]"
    by blast
  have "bc_election e w' = Inr (i, E')" using i by (simp add: bc_election_Some s(2))
  then have "chain_holds L w' e (bs @ [\<lparr>sb_sequence_number = seq, sb_envelope = b\<lparr>be_election_id := e\<rparr>, sb_submitted_at = Some (ch_timestamp w + lag)\<rparr>])"
    unfolding chain_holds_def using E(2,3) assms(2) rec seq ballot_roundtrip [OF assms(5,6), of e]
    by (intro exI [of _ i] exI [of _ E']) (auto simp: nth_append less_Suc_eq ballot_record_from_contract_def)
  then show ?thesis by (rule chain_ballots.read_all_complete)
qed

text \<open>What the contract asks of a ballot: lengths and counts, nothing about the credential.\<close>

definition ballot_shaped :: "Election \<Rightarrow> SolBallot \<Rightarrow> bool" where
  "ballot_shaped E b \<longleftrightarrow> bl_pseudonym b \<noteq> ZERO_BYTES32 \<and> length (bl_vk b) = 48 \<and> bl_zkProof b \<noteq> [] \<and> bl_voterSignature b \<noteq> [] \<and>
     bl_wrAttestation b \<noteq> [] \<and> int (length (bl_ciphertexts b)) = pa_numCandidates (ec_params E) \<and>
     list_all (\<lambda>(c1, c2). g2_length c1 \<and> g2_length c2) (bl_ciphertexts b)"

text \<open>
  C17: one undecodable credential on chain blocks a tally for good. While an election is open any
  account that pays the self-submission fee gets a ballot stored whose \<open>wrAttestation\<close> is no
  credential, for the contract reads only its length. From then on, whatever transactions follow,
  the complete ballot read of the adapter raises, so no keyper can produce an aggregate and the
  audit raises, although admission would have excluded the ballot.
\<close>

theorem undecodable_ballot_blocks_tally:
  assumes "chain_reachable H L w" and "bc_election e w = Inr (i, E)" and "\<not> ec_cancelled E" "ec_dkgFinalized E"
    and "pa_votingStart (ec_params E) \<le> ch_timestamp w" "ch_timestamp w < pa_votingEnd (ec_params E)"
    and "ballot_shaped E b" and "isl (unpack_attestation L (bl_wrAttestation b))"
    and "fee = (if hasRole VOTE_PROXY_ROLE anyone E then 0 else pa_selfSubmitFee (ec_params E))"
  shows "\<exists>w1 k. at_election i (\<lambda>now sender. submitVote now sender fee b) anyone w = Inr (w1, k) \<and>
    (\<forall>w2. (chain_step H L)\<^sup>*\<^sup>* w1 w2 \<longrightarrow>
       isl (read_all_ballots (chain_port H L lag account) e w2) \<and>
       isl (produce_aggregate S H (chain_port H L lag account) now e kp w2) \<and>
       isl (audit S H (chain_port H L lag account) e w2))"
proof -
  have E: "i = eid_to_uint e" "abi_uint 256 i" "ch_elections w i = Some E" using assms(2) unfolding bc_election_Some by blast+
  define rec where "rec = \<lparr>rc_ballot = b, rc_submittedAt = ch_timestamp w mod 2 ^ 64, rc_submittedBy = anyone\<rparr>"
  have "\<exists>E' k. submitVote (ch_timestamp w) anyone fee b E = Inr (E', k) \<and> rec \<in> set (ec_ballotRecords E') \<and> ec_dkgFinalized E'"
    using assms(3-7,9) by (simp add: submitVote_def ballot_shaped_def Let_def rec_def)
  then obtain E' k where v: "submitVote (ch_timestamp w) anyone fee b E = Inr (E', k)" "rec \<in> set (ec_ballotRecords E')" "ec_dkgFinalized E'"
    by blast
  let ?w1 = "w\<lparr>ch_elections := (ch_elections w)(i \<mapsto> E')\<rparr>"
  have sub: "at_election i (\<lambda>now sender. submitVote now sender fee b) anyone w = Inr (?w1, k)"
    by (simp add: at_election_def E(3) v(1))
  have "chain_step H L w ?w1" by (rule chain_step.tx [OF E(3) election_step.ballot [OF v(1)]])
  then have inv: "chain_inv ?w1" using chain_step_inv chain_reachable_inv [OF assms(1)] by blast
  have blocked: "isl (read_all_ballots (chain_port H L lag account) e w2) \<and>
       isl (produce_aggregate S H (chain_port H L lag account) now e kp w2) \<and>
       isl (audit S H (chain_port H L lag account) e w2)" if run: "(chain_step H L)\<^sup>*\<^sup>* ?w1 w2" for w2
  proof -
    obtain E2 where E2: "ch_elections w2 i = Some E2" "kept E' E2" using chain_run_kept [OF run inv, of i E'] by auto
    have bc: "bc_election e w2 = Inr (i, E2)" using E E2(1) by (simp add: bc_election_Some)
    have "rec \<in> set (ec_ballotRecords E2)" "ec_dkgFinalized E2" using E2(2) v(2,3) by (auto simp: kept_def)
    note r = undecodable_ballot_blocks_read [OF bc this(1)]
    from r have "isl (read_all_ballots (chain_port H L lag account) e w2)" using assms(8) by (simp add: rec_def)
    then obtain err where err: "read_all_ballots (chain_port H L lag account) e w2 = Inl err" by (auto simp: isl_def)
    have key: "dl_get_finalized_key (chain_port H L lag account) e w2 =
        Inr (Some \<lparr>fk_pk_election = ec_electionPublicKey E2, fk_committee_pks = ec_committeePublicKeys E2\<rparr>)"
      using \<open>ec_dkgFinalized E2\<close> by (simp add: chain_port_def bc_get_finalized_key_def bc)
    have "isl (produce_aggregate S H (chain_port H L lag account) now e kp w2)"
      unfolding produce_aggregate_def err by (cases "check_can_aggregate (chain_port H L lag account) now e w2") auto
    moreover have "isl (audit S H (chain_port H L lag account) e w2)"
      unfolding audit_def key err
      by (cases "dl_get_election (chain_port H L lag account) e w2"; cases "dl_get_dkg_submissions (chain_port H L lag account) e w2")
        (auto simp: Let_def split_def)
    ultimately show ?thesis using err by simp
  qed
  show ?thesis by (rule exI [of _ ?w1], rule exI [of _ k], rule conjI [OF sub], intro allI impI) (rule blocked)
qed

text \<open>
  C18: the audit of an election on chain is never clean. The adapter returns the key submissions
  without signatures, so where an empty signature recovers no signer the auditor finds no quorum
  for any key, in every state of the chain and for every election.
\<close>

theorem chain_audit_never_clean:
  assumes "\<And>d. recover_message H d [] = None" and "audit S H (chain_port H L lag account) e w = Inr rep"
  shows "\<not> report_ok rep"
proof
  assume "report_ok rep"
  from audit_stages [OF assms(2) this] obtain rec k subs where a: "bc_get_election e w = Inr rec" "bc_get_dkg_submissions e w = Inr subs"
    "dkg_recount H (er_config rec) e subs = ([], Some k)"
    unfolding chain_port_sel by (elim exE conjE) (rule that, assumption+)
  have "dkg_keyper_signature sub = []" if "sub \<in> set subs" for sub
    using a(2) that by (auto simp: bc_get_dkg_submissions_def Let_def)
  then have none: "submitter_index H (er_config rec) e sub = None" if "sub \<in> set subs" for sub
    using that assms(1) by (simp add: submitter_index_def recover_digest_def split: sum.split)
  have "th_quorum (cfg_threshold (er_config rec)) \<le> 0"
    using dkg_recount_quorum [OF a(3)] none by (simp cong: conj_cong)
  moreover have "1 \<le> th_quorum (cfg_threshold (er_config rec))"
    using a(1) by (auto simp: bc_get_election_def config_from_view_def Let_def Threshold_post_init_def th_quorum_def split: if_split_asm)
  ultimately show False by simp
qed

section \<open>Witnesses\<close>

text \<open>A deployed election and its runs can be put on a chain, at any later time.\<close>

lemma on_chain:
  assumes "KeyperSet_constructor members urls t = Inr ks" "0 \<le> t" "Election_constructor admin 1 ks params = Inr E0"
    and "(election_step H L)\<^sup>*\<^sup>* E0 E"
  shows "\<exists>w. chain_reachable H L w \<and> ch_elections w 1 = Some E \<and> ch_timestamp w = now"
proof -
  let ?init = "ElectionRegistry_constructor admin now"
  let ?w = "\<lambda>F. ?init\<lparr>ch_electionCount := 1, ch_elections := (ch_elections ?init)(1 \<mapsto> F)\<rparr>"
  have "publishElection admin ks params ?init = Inr (?w E0, 1)"
    using KeyperSet_constructor_ok [OF assms(1,2)] assms(3)
    by (simp add: publishElection_def keyper_set_ok_def ElectionRegistry_constructor_def)
  then have "chain_step H L ?init (?w E0)" by (rule chain_step.new)
  moreover have "(chain_step H L)\<^sup>*\<^sup>* (?w E0) (?w E)"
    using assms(4)
  proof (induction rule: rtranclp_induct)
    case (step F G)
    have "chain_step H L (?w F) ((?w F)\<lparr>ch_elections := (ch_elections (?w F))(1 \<mapsto> G)\<rparr>)"
      by (rule chain_step.tx [OF _ step(2)]) simp
    then have "chain_step H L (?w F) (?w G)" by simp
    with step(3) show ?case by (rule rtranclp.rtrancl_into_rtrancl)
  qed (rule rtranclp.rtrancl_refl)
  ultimately have "chain_reachable H L (?w E)" unfolding chain_reachable_def by (meson converse_rtranclp_into_rtranclp)
  then show ?thesis by (intro exI [of _ "?w E"]) (simp add: ElectionRegistry_constructor_def)
qed

lemma sample_on_chain:
  obtains w E where "chain_reachable sample_host sample_lib w" "bc_election (be 32 1) w = Inr (1, E)" "ch_timestamp w = 150" "ec_params E = sample_params"
    "\<not> ec_cancelled E" "ec_dkgFinalized E" "hasRole VOTE_PROXY_ROLE (sample_member 6) E" "ec_ballotRecords E = []"
proof -
  obtain E where E: "election_reachable sample_host sample_lib E" "ec_params E = sample_params" "\<not> ec_cancelled E" "ec_dkgFinalized E"
    "ec_electionId E = 1" "hasRole VOTE_PROXY_ROLE (sample_member 6) E" "ec_ballotRecords E = []"
    by (rule sample_key)
  from E(1) obtain E0 where E0: "deployed E0" "(election_step sample_host sample_lib)\<^sup>*\<^sup>* E0 E" by (auto simp: election_reachable_def)
  from E0(1) obtain members urls t admin i ks params where d: "0 \<le> t" "KeyperSet_constructor members urls t = Inr ks"
    "Election_constructor admin i ks params = Inr E0" by (auto simp: deployed_def)
  have "i = 1" using Election_constructor_id [OF d(3)] election_run_kept [OF E0(2)] E(5) by (simp add: kept_def)
  with on_chain [OF d(2,1) _ E0(2), of admin params 150] d(3) obtain w where w: "chain_reachable sample_host sample_lib w"
    "ch_elections w 1 = Some E" "ch_timestamp w = 150" by blast
  have "bc_election (be 32 1) w = Inr (1, E)" by (simp add: bc_election_Some eid_to_uint_def int_from_bytes_be abi_uint_def w(2))
  with that w E show thesis by blast
qed

text \<open>A ballot of the right lengths whose credential is one zero byte.\<close>

definition sample_garbage :: SolBallot where
  "sample_garbage = \<lparr>bl_pseudonym = replicate 32 1, bl_vk = replicate 48 0, bl_ciphertexts = [(replicate 96 0, replicate 96 0)],
     bl_zkProof = [0], bl_voterSignature = [0], bl_wrAttestation = [0]\<rparr>"

lemma undecodable_ballot_blocks_tally_witness:
  "\<exists>w w1 k. chain_reachable sample_host sample_lib w \<and>
     at_election 1 (\<lambda>now sender. submitVote now sender 0 sample_garbage) (sample_member 7) w = Inr (w1, k) \<and>
     isl (audit zq_suite sample_host (chain_port sample_host sample_lib 0 None) (be 32 1) w1)"
proof -
  obtain w E where w: "chain_reachable sample_host sample_lib w" "bc_election (be 32 1) w = Inr (1, E)" "ch_timestamp w = 150" "ec_params E = sample_params"
    "\<not> ec_cancelled E" "ec_dkgFinalized E"
    by (rule sample_on_chain)
  have "pa_votingStart (ec_params E) \<le> ch_timestamp w" "ch_timestamp w < pa_votingEnd (ec_params E)" using w(3,4) by (simp_all add: sample_params_def)
  moreover have "ballot_shaped E sample_garbage"
    using w(4) by (simp add: ballot_shaped_def sample_garbage_def sample_params_def ZERO_BYTES32_def g2_length_def)
  moreover have "isl (unpack_attestation sample_lib (bl_wrAttestation sample_garbage))" by (simp add: unpack_attestation_def sample_lib_def)
  moreover have "0 = (if hasRole VOTE_PROXY_ROLE (sample_member 7) E then 0 else pa_selfSubmitFee (ec_params E))" using w(4) by (simp add: sample_params_def)
  ultimately obtain w1 k where "at_election 1 (\<lambda>now sender. submitVote now sender 0 sample_garbage) (sample_member 7) w = Inr (w1, k)"
    "isl (audit zq_suite sample_host (chain_port sample_host sample_lib 0 None) (be 32 1) w1)"
    using undecodable_ballot_blocks_tally [OF w(1,2,5,6), of sample_garbage 0 "sample_member 7" 0 None zq_suite] by blast
  with w(1) show ?thesis by blast
qed

definition sample_chain_config :: ElectionConfig where
  "sample_chain_config = sample_election\<lparr>
     cfg_keypers := map (\<lambda>i. \<lparr>ki_signing_key = sample_member i, ki_url = ''u''\<rparr>) [1, 2, 3],
     cfg_result_publisher_key := sample_member 4, cfg_gateway_keys := [sample_member 6, sample_member 8]\<rparr>"

definition sample_registered :: "(chain \<times> bytes) result" where
  "sample_registered = bc_register_election 1 (Some (sample_member 5)) sample_chain_config [] (ElectionRegistry_constructor (sample_member 5) 10)"

lemma sample_registered_ok: "\<exists>w'. sample_registered = Inr (w', be 32 1)"
  by (simp add: sample_registered_def bc_register_election_def sample_chain_config_def sample_election_def ElectionRegistry_constructor_def
      int_to_bytes_def to_checksum_address_def deploy_keyper_set_def abi_args_def abi_uint_def send_def KeyperSet_constructor_def
      ZERO_ADDRESS_def replicate_eq_replicate th_quorum_def config_to_params_def params_fit_def publishElection_def getNumMembers_def
      Election_constructor_def uint_to_eid_def MODE_TO_U8_def VARIANT_TO_U8_def DUP_TO_U8_def Let_def)

lemma sample_chain_config_ok: "config_ok sample_chain_config"
  by (simp add: config_ok_def sample_chain_config_def sample_election_def Threshold_post_init_def ElectionConfig_post_init_def
      check_ballot_bounds_def MAX_NUM_CANDIDATES_def MAX_BUDGET_def MAX_PROOF_BRANCHES_def replicate_eq_replicate)

lemma chain_registration_roundtrip_witness:
  "\<exists>w' rec. sample_registered = Inr (w', be 32 1) \<and> bc_get_election (be 32 1) w' = Inr rec \<and>
     cfg_gateway_keys (er_config rec) = [sample_member 6] \<and> cfg_admin_key (er_config rec) = sample_member 5"
proof -
  obtain w' where w': "sample_registered = Inr (w', be 32 1)" using sample_registered_ok by blast
  from chain_registration_roundtrip [OF sample_chain_config_ok chain_inv_init w' [unfolded sample_registered_def]]
  have "bc_get_election (be 32 1) w' = Inr \<lparr>er_config = sample_chain_config\<lparr>cfg_gateway_keys := [hd (cfg_gateway_keys sample_chain_config)],
      cfg_admin_key := sample_member 5\<rparr>, er_cancelled = False, er_finalized_key = None, er_tally_stalled = False\<rparr>" by auto
  moreover have "hd (cfg_gateway_keys sample_chain_config) = sample_member 6" by (simp add: sample_chain_config_def)
  ultimately show ?thesis using w' by (intro exI [of _ w'] exI conjI) (assumption | simp)+
qed

definition sample_strict_host :: host where
  "sample_strict_host = sample_host\<lparr>recover_message := (\<lambda>d sig. if sig = [] then None else Some sig)\<rparr>"

lemma chain_audit_never_clean_witness:
  "\<exists>w rep. audit zq_suite sample_strict_host (chain_port sample_strict_host sample_lib 0 None) (be 32 1) w = Inr rep \<and> \<not> report_ok rep"
proof -
  obtain w' where w': "sample_registered = Inr (w', be 32 1)" using sample_registered_ok by blast
  from chain_registration_roundtrip [OF sample_chain_config_ok chain_inv_init w' [unfolded sample_registered_def]]
  obtain rec where g: "bc_get_election (be 32 1) w' = Inr rec" "er_finalized_key rec = None" by auto
  then obtain i E where "bc_election (be 32 1) w' = Inr (i, E)" "\<not> ec_dkgFinalized E" by (auto simp: bc_get_election_def Let_def split: if_split_asm)
  then obtain rep where rep: "audit zq_suite sample_strict_host (chain_port sample_strict_host sample_lib 0 None) (be 32 1) w' = Inr rep"
    unfolding audit_def chain_port_sel g(1) by (simp add: bc_get_dkg_submissions_def bc_get_finalized_key_def Let_def case_prod_beta)
  have "recover_message sample_strict_host d [] = None" for d by (simp add: sample_strict_host_def)
  from chain_audit_never_clean [OF this rep] rep show ?thesis by blast
qed

definition sample_empty_aggregate :: AggregateArtifact where
  "sample_empty_aggregate = \<lparr>agg_election_id = be 32 1, agg_aggregates = [], agg_admitted = [],
     agg_exclusions = [\<lparr>ex_sequence_number = 0, ex_reason = MALFORMED\<rparr>], agg_total_admitted_weight = 0, agg_total_scaled_weight = 0\<rparr>"

lemma chain_digests_agree_witness:
  "\<exists>E d. ec_electionId E = 1 \<and> aggregate_digest_of sample_host (be 32 1) sample_empty_aggregate = Inr d \<and>
     submitAggregateSigned sample_host sample_lib 250 (aggregate_to_tuple sample_empty_aggregate) (sample_member 1) E =
     registerAggregate 250 (sample_member 1) d (aggregate_to_tuple sample_empty_aggregate) E"
proof -
  obtain E :: Election where E: "ec_electionId E = 1" by (rule sample_key)
  obtain d where d: "aggregate_digest_of sample_host (be 32 1) sample_empty_aggregate = Inr d"
    by (simp add: aggregate_digest_of_def aggregate_digest_def assert_aggregate_shape_def sample_host_def)
  have "ec_electionId E = eid_to_uint (be 32 1)" by (simp add: E eid_to_uint_def int_from_bytes_be)
  with chain_digests_agree [of "be 32 1" E] d have "submitAggregateSigned sample_host sample_lib 250 (aggregate_to_tuple sample_empty_aggregate) (sample_member 1) E =
     tbind (recover_signer sample_lib d (sample_member 1)) (\<lambda>signer. registerAggregate 250 signer d (aggregate_to_tuple sample_empty_aggregate) E)"
    by simp
  with E d show ?thesis by (intro exI [of _ E] exI [of _ d]) (simp add: recover_signer_def sample_lib_def)
qed

definition sample_chain_ballot :: BallotEnvelope where
  "sample_chain_ballot = \<lparr>be_election_id = be 32 1, be_pseudonym = replicate 32 1, be_vk = replicate 48 0,
     be_ciphertexts = [\<lparr>ct_c1 = replicate 96 0, ct_c2 = replicate 96 0\<rparr>], be_zk_proof = [0], be_voter_signature = [0],
     be_attestation = \<lparr>att_election_id = be 32 1, att_pseudonym = replicate 32 1, att_vk = replicate 48 0, att_weight = 1,
       att_signature = replicate 80 0, att_scheme = ATTESTATION_V1, att_nonce = 1\<rparr>\<rparr>"

definition sample_json_lib :: chain_lib where
  "sample_json_lib = sample_lib\<lparr>json_loads := (\<lambda>b. Inr (enc_attestation (be_attestation sample_chain_ballot)))\<rparr>"

lemma pack_attestation_nonempty: "pack_attestation H att \<noteq> []"
  by (simp add: pack_attestation_def enc_attestation_def encode_utf8_def)

lemma chain_ballot_stored_witness:
  "\<exists>w w' sb. bc_submit_ballot sample_host 1 (Some (sample_member 6)) 0 (be 32 1) sample_chain_ballot [] w = Inr (w', 0) \<and>
     read_all_ballots (chain_port sample_host sample_json_lib 1 (Some (sample_member 6))) (be 32 1) w' = Inr [sb] \<and> sb_submitted_at sb = Some 151"
proof -
  obtain w E where w: "bc_election (be 32 1) w = Inr (1, E)" "ch_timestamp w = 150" "ec_params E = sample_params"
    "\<not> ec_cancelled E" "ec_dkgFinalized E" "hasRole VOTE_PROXY_ROLE (sample_member 6) E" "ec_ballotRecords E = []"
    by (rule sample_on_chain)
  have E: "ch_elections w 1 = Some E" using w(1) unfolding bc_election_Some by blast
  have h: "chain_holds sample_json_lib w (be 32 1) []" using w(1,7) by (simp add: chain_holds_def)
  have "\<exists>E'. submitVote t (sample_member 6) 0 (ballot_to_tuple sample_host sample_chain_ballot) E = Inr (E', 0)" if "t \<in> {150, 151}" for t
    using that w(3-) by (auto simp: submitVote_def ballot_to_tuple_def sample_chain_ballot_def sample_params_def Let_def
      pack_attestation_nonempty ZERO_BYTES32_def g2_length_def)
  from this [of 150] this [of 151] obtain E1 E2 where v: "submitVote 150 (sample_member 6) 0 (ballot_to_tuple sample_host sample_chain_ballot) E = Inr (E1, 0)"
    "submitVote 151 (sample_member 6) 0 (ballot_to_tuple sample_host sample_chain_ballot) E = Inr (E2, 0)" by auto
  have "length (bl_pseudonym (ballot_to_tuple sample_host sample_chain_ballot)) = 32" by (simp add: ballot_to_tuple_def sample_chain_ballot_def)
  with v w(2) obtain w' where s: "bc_submit_ballot sample_host 1 (Some (sample_member 6)) 0 (be 32 1) sample_chain_ballot [] w = Inr (w', 0)"
    by (simp add: bc_submit_ballot_def w(1) abi_args_def send_def at_election_def E Let_def)
  have "parses sample_host sample_json_lib (be_attestation sample_chain_ballot)" by (simp add: parses_def sample_json_lib_def)
  moreover have "ok_attestation (be_attestation sample_chain_ballot)" by (simp add: ok_attestation_def sample_chain_ballot_def)
  ultimately have "read_all_ballots (chain_port sample_host sample_json_lib 1 (Some (sample_member 6))) (be 32 1) w' =
      Inr [\<lparr>sb_sequence_number = 0, sb_envelope = sample_chain_ballot\<lparr>be_election_id := be 32 1\<rparr>, sb_submitted_at = Some (ch_timestamp w + 1)\<rparr>]"
    using chain_ballot_stored [OF h _ _ _ _ _ s] w(2) by simp
  with s w(2) show ?thesis by (intro exI [of _ w] exI [of _ w'] exI conjI) (assumption | simp)+
qed

end
