(* ===== verification/Persistence.thy ===== *)
theory Persistence
  imports Keyper_Server Ceremony_Http Public_Api
begin

text \<open>
  \<^verbatim>\<open>services/keyper/keyper_persistence.py\<close> and \<^verbatim>\<open>services/common/token_store.py\<close>: what a keyper and the
  coordinator keep on disk. A state directory is a map from file names to contents; a save is the
  sequence of file operations the code performs, so that a crash can be placed between and inside
  them. Fernet and \<open>json.loads\<close> are the operations of a record; the encryption nonce is an argument.
  Shown: after a crash at any point of a save a keyper reloads the secrets from before or after it,
  what the service keeps across a restart is what the files give back, and the token store
  implements the map from keyper URLs to credentials that the ceremony driver uses.
\<close>

section \<open>Files\<close>

type_synonym disk = "string \<rightharpoonup> bytes"

datatype file_op = WriteBytes string bytes | Replace string string

fun apply_op :: "file_op \<Rightarrow> disk \<Rightarrow> disk" where
  "apply_op (WriteBytes path data) d = d(path \<mapsto> data)"
| "apply_op (Replace tmp path) d = (case d tmp of None \<Rightarrow> d | Some data \<Rightarrow> d(tmp := None, path \<mapsto> data))"

definition run_ops :: "file_op list \<Rightarrow> disk \<Rightarrow> disk" where
  "run_ops ops d = fold apply_op ops d"

text \<open>The directory a process finds after a crash: a write in progress may be cut at any length.\<close>

inductive crashed :: "file_op list \<Rightarrow> disk \<Rightarrow> disk \<Rightarrow> bool" where
  stop: "crashed ops d d"
| torn: "crashed (WriteBytes path data # ops) d (d(path \<mapsto> take k data))"
| later: "crashed ops (apply_op op d) d' \<Longrightarrow> crashed (op # ops) d d'"

inductive_cases crashed_NilE: "crashed [] d d'"
inductive_cases crashed_ConsE: "crashed (op # ops) d d'"

text \<open>\<open>path.with_suffix(".tmp")\<close> for a name that ends in \<open>.enc\<close>.\<close>

definition with_suffix_tmp :: "string \<Rightarrow> string" where
  "with_suffix_tmp path = take (length path - 4) path @ ''.tmp''"

definition write_atomic :: "string \<Rightarrow> bytes \<Rightarrow> file_op list" where
  "write_atomic path data = [WriteBytes (with_suffix_tmp path) data, Replace (with_suffix_tmp path) path]"

section \<open>Encryption and JSON\<close>

record vault =
  vt_encrypt :: "nat \<Rightarrow> bytes \<Rightarrow> bytes"
  vt_decrypt :: "bytes \<Rightarrow> bytes option"
  vt_loads :: "bytes \<Rightarrow> json result"

text \<open>\<open>json.dumps(v)\<close> with its default separators.\<close>

fun dumps_default :: "json \<Rightarrow> string" where
  "dumps_default (JArr xs) = ''['' @ join '', '' (map dumps_default xs) @ '']''"
| "dumps_default (JObj kvs) = ''{'' @ join '', '' (map (\<lambda>(k, v). dump_str k @ '': '' @ dumps_default v) kvs) @ ''}''"
| "dumps_default v = dumps0 (\<lambda>_. []) v"

text \<open>\<open>mk\<close> is the constructor of \<open>Fernet\<close> on the encoded key.\<close>

definition derive_fernet :: "host \<Rightarrow> (bytes \<Rightarrow> vault) \<Rightarrow> string \<Rightarrow> int \<Rightarrow> vault result" where
  "derive_fernet H mk info signing_sk =
     ebind (int_to_bytes signing_sk 32) (\<lambda>sk. Inr (mk (host.keccak H (encode_utf8 info @ sk))))"

section \<open>Secrets of a keyper\<close>

text \<open>\<open>hex(n)\<close>.\<close>

fun hex_nat :: "nat \<Rightarrow> string" where
  "hex_nat n = (if n < 16 then [hex_digit n] else hex_nat (n div 16) @ [hex_digit (n mod 16)])"

declare hex_nat.simps [simp del]

definition py_hex :: "int \<Rightarrow> string" where
  "py_hex n = (if n < 0 then ''-0x'' @ hex_nat (nat (- n)) else ''0x'' @ hex_nat (nat n))"

definition DKG_SECRETS :: string where "DKG_SECRETS = ''dkg_secrets.enc''"

definition secret_row :: "DkgEntry \<Rightarrow> json" where
  "secret_row entry =
     JObj ((''share'', JStr (py_hex (de_combined_share entry))) #
       (case de_expires_at entry of None \<Rightarrow> [] | Some t \<Rightarrow> [(''expires_at'', JInt t)]))"

definition secrets_json :: "(string \<times> DkgEntry) list \<Rightarrow> json" where
  "secrets_json completed = JObj (map (\<lambda>(eid, entry). (eid, secret_row entry)) completed)"

definition save_dkg_secrets :: "vault \<Rightarrow> nat \<Rightarrow> (string \<times> DkgEntry) list \<Rightarrow> file_op list" where
  "save_dkg_secrets V n completed = write_atomic DKG_SECRETS (vt_encrypt V n (encode_utf8 (dumps_default (secrets_json completed))))"

text \<open>\<open>int(s, 16)\<close> takes text only; a missing share raises.\<close>

definition load_row :: "json \<Rightarrow> DkgEntry result" where
  "load_row raw =
     ebind (get_opt raw ''expires_at'') (\<lambda>exp.
     ebind (get_item raw ''share'') (\<lambda>share.
     ebind (case share of JStr s \<Rightarrow> int16 s | _ \<Rightarrow> Inl TypeError) (\<lambda>x.
     ebind (if exp = JNull then Inr None else ebind (py_int exp) (\<lambda>t. Inr (Some t))) (\<lambda>t.
     Inr \<lparr>de_combined_share = x, de_expires_at = t\<rparr>))))"

text \<open>The loop that fills the dictionary; a row that raises ends it and keeps what was loaded before.\<close>

fun load_rows :: "(string \<times> json) list \<Rightarrow> (string \<times> DkgEntry) list \<Rightarrow> (string \<times> DkgEntry) list" where
  "load_rows [] completed = completed"
| "load_rows ((eid, raw) # rows) completed =
     (case load_row raw of Inl _ \<Rightarrow> completed | Inr entry \<Rightarrow> load_rows rows (AList.update eid entry completed))"

definition load_dkg_secrets :: "vault \<Rightarrow> disk \<Rightarrow> (string \<times> DkgEntry) list \<Rightarrow> (string \<times> DkgEntry) list" where
  "load_dkg_secrets V d completed =
     (case d DKG_SECRETS of
        None \<Rightarrow> completed
      | Some raw \<Rightarrow>
          (case vt_decrypt V raw of
             None \<Rightarrow> completed
           | Some text \<Rightarrow>
               (case vt_loads V text of
                  Inr (JObj rows) \<Rightarrow> load_rows rows completed
                | _ \<Rightarrow> completed)))"

text \<open>\<open>prune_expired\<close> with its save; the removed keys are returned.\<close>

definition prune_and_save :: "vault \<Rightarrow> nat \<Rightarrow> int \<Rightarrow> (string \<times> DkgEntry) list \<Rightarrow> (string \<times> DkgEntry) list \<times> file_op list \<times> string list" where
  "prune_and_save V n now completed =
     (let kept_entries = prune_expired now completed;
          expired = map fst (filter (\<lambda>(e, v). case de_expires_at v of None \<Rightarrow> False | Some t \<Rightarrow> t \<le> now) completed) in
      (kept_entries, if expired = [] then [] else save_dkg_secrets V n kept_entries, expired))"

section \<open>The encryption key and the installed tokens\<close>

definition ENCRYPTION_KEY :: string where "ENCRYPTION_KEY = ''encryption_key.enc''"
definition BOOTSTRAP_TOKENS :: string where "BOOTSTRAP_TOKENS = ''bootstrap_tokens.enc''"

text \<open>\<open>from_private_bytes\<close> raises for other than 32 bytes; \<open>fresh\<close> is the generated key.\<close>

definition load_or_create_x25519 :: "vault \<Rightarrow> nat \<Rightarrow> bytes \<Rightarrow> disk \<Rightarrow> (bytes \<times> file_op list) result" where
  "load_or_create_x25519 V n fresh d =
     (let create = Inr (fresh, write_atomic ENCRYPTION_KEY (vt_encrypt V n fresh)) in
      case d ENCRYPTION_KEY of
        None \<Rightarrow> create
      | Some raw \<Rightarrow>
          (case vt_decrypt V raw of
             None \<Rightarrow> create
           | Some key \<Rightarrow> if length key = 32 then Inr (key, []) else Inl ValueError))"

definition save_bootstrap_tokens :: "vault \<Rightarrow> nat \<Rightarrow> string \<Rightarrow> string \<Rightarrow> json \<Rightarrow> json \<Rightarrow> file_op list" where
  "save_bootstrap_tokens V n api_token peer_token peers relay_token =
     write_atomic BOOTSTRAP_TOKENS (vt_encrypt V n (encode_utf8 (dumps_default
       (JObj [(''api_token'', JStr api_token), (''peer_token'', JStr peer_token), (''peers'', peers), (''relay_token'', relay_token)]))))"

definition load_bootstrap_tokens :: "vault \<Rightarrow> disk \<Rightarrow> json option" where
  "load_bootstrap_tokens V d =
     (case d BOOTSTRAP_TOKENS of
        None \<Rightarrow> None
      | Some raw \<Rightarrow>
          (case vt_decrypt V raw of
             None \<Rightarrow> None
           | Some text \<Rightarrow> (case vt_loads V text of Inl _ \<Rightarrow> None | Inr j \<Rightarrow> Some j)))"

section \<open>The coordinator's token store\<close>

definition KEYPER_TOKENS :: string where "KEYPER_TOKENS = ''keyper_tokens.enc''"

text \<open>What \<open>_load\<close> returns; only decryption and syntax errors are caught.\<close>

definition ts_load :: "vault \<Rightarrow> disk \<Rightarrow> json" where
  "ts_load V d =
     (case d KEYPER_TOKENS of
        None \<Rightarrow> JObj []
      | Some raw \<Rightarrow>
          (case vt_decrypt V raw of
             None \<Rightarrow> JObj []
           | Some text \<Rightarrow> (case vt_loads V text of Inl _ \<Rightarrow> JObj [] | Inr j \<Rightarrow> j)))"

definition ts_get :: "vault \<Rightarrow> disk \<Rightarrow> string \<Rightarrow> json option result" where
  "ts_get V d url =
     ebind (get_opt (ts_load V d) url) (\<lambda>entry.
     if \<not> truthy entry then Inr None
     else case entry of JObj kvs \<Rightarrow> Inr (Some (JObj kvs)) | _ \<Rightarrow> Inl TypeError)"

definition credential_json :: "string \<times> string \<Rightarrow> json" where
  "credential_json c = JObj [(''api_token'', JStr (fst c)), (''peer_token'', JStr (snd c))]"

definition ts_put :: "vault \<Rightarrow> nat \<Rightarrow> disk \<Rightarrow> string \<Rightarrow> string \<times> string \<Rightarrow> file_op list result" where
  "ts_put V n d url c =
     (case ts_load V d of
        JObj data \<Rightarrow>
          Inr (write_atomic KEYPER_TOKENS (vt_encrypt V n (encode_utf8 (dumps_default (JObj (AList.update url (credential_json c) data))))))
      | _ \<Rightarrow> Inl TypeError)"

section \<open>Atomic writes\<close>

lemma tmp_names [simp]:
  "with_suffix_tmp DKG_SECRETS = ''dkg_secrets.tmp''" "with_suffix_tmp KEYPER_TOKENS = ''keyper_tokens.tmp''"
  "with_suffix_tmp ENCRYPTION_KEY = ''encryption_key.tmp''" "with_suffix_tmp BOOTSTRAP_TOKENS = ''bootstrap_tokens.tmp''"
  by (simp_all add: with_suffix_tmp_def DKG_SECRETS_def KEYPER_TOKENS_def ENCRYPTION_KEY_def BOOTSTRAP_TOKENS_def)

lemma write_atomic_run:
  "with_suffix_tmp p \<noteq> p \<Longrightarrow> run_ops (write_atomic p data) d = d(with_suffix_tmp p := None, p \<mapsto> data)"
  by (auto simp: run_ops_def write_atomic_def)

lemma write_atomic_crash:
  assumes "crashed (write_atomic p data) d d'" and "with_suffix_tmp p \<noteq> p"
  shows "(d' p = d p \<or> d' p = Some data) \<and> (\<forall>q. q \<noteq> p \<longrightarrow> q \<noteq> with_suffix_tmp p \<longrightarrow> d' q = d q)"
  using assms by (auto simp: write_atomic_def elim!: crashed_ConsE crashed_NilE split: option.splits)

section \<open>Secrets come back\<close>

lemma hexdigits_append: "hexdigits a ok (xs @ [c]) =
    (case hexdigits a (ok \<or> xs = []) xs of
       Some v \<Rightarrow> (case hex_val c of Some d \<Rightarrow> Some (v * 16 + d) | None \<Rightarrow> None) | None \<Rightarrow> None)"
  if "list_all (\<lambda>c. hex_val c \<noteq> None) xs" "hex_val c \<noteq> None"
  using that by (induction xs arbitrary: a ok) (auto split: option.splits)

lemma hex_nat_chars: "list_all (\<lambda>c. hex_val c \<noteq> None) (hex_nat n)"
proof (induction n rule: hex_nat.induct)
  case (1 n)
  then show ?case by (subst hex_nat.simps) auto
qed

lemma hexdigits_hex_nat: "hexdigits 0 ok (hex_nat n) = Some n"
proof (induction n arbitrary: ok rule: hex_nat.induct)
  case (1 n)
  show ?case
  proof (cases "n < 16")
    case True
    then show ?thesis by (subst hex_nat.simps) simp
  next
    case False
    then have "hexdigits 0 ok (hex_nat n) = hexdigits 0 ok (hex_nat (n div 16) @ [hex_digit (n mod 16)])" by (subst hex_nat.simps) simp
    also have "\<dots> = Some (n div 16 * 16 + n mod 16)" using 1 [OF False] by (subst hexdigits_append [OF hex_nat_chars]) simp_all
    finally show ?thesis by simp
  qed
qed

lemma hex_nat_not_Nil [simp]: "hex_nat n \<noteq> []"
  by (subst hex_nat.simps) simp

lemma hex_char_not_space: "hex_val c \<noteq> None \<Longrightarrow> \<not> is_uspace c"
  by (auto simp: hex_val_def is_uspace_def Let_def split: if_split_asm)

lemma int16_py_hex: "0 \<le> n \<Longrightarrow> int16 (py_hex n) = Inr n"
proof -
  assume n: "0 \<le> n"
  have "list_all (\<lambda>c. \<not> is_uspace c) (hex_nat (nat n))" using hex_nat_chars [of "nat n"] by (auto simp: list_all_iff hex_char_not_space)
  then have "strip (''0x'' @ hex_nat (nat n)) = ''0x'' @ hex_nat (nat n)" by (intro strip_no_space) (simp add: is_uspace_def Let_def)
  with n show ?thesis by (simp add: int16_def py_hex_def hexdigits_hex_nat)
qed

lemma load_row_inverse: "0 \<le> de_combined_share e \<Longrightarrow> load_row (secret_row e) = Inr e"
  by (cases e) (auto simp: load_row_def secret_row_def get_opt_def get_item_def int16_py_hex split: option.split)

lemma update_new: "k \<notin> fst ` set al \<Longrightarrow> AList.update k v al = al @ [(k, v)]"
  by (induction al) auto

lemma load_rows_inverse:
  "distinct (map fst (acc @ completed)) \<Longrightarrow> list_all (\<lambda>(_, e). 0 \<le> de_combined_share e) completed \<Longrightarrow>
     load_rows (map (\<lambda>(eid, entry). (eid, secret_row entry)) completed) acc = acc @ completed"
  by (induction completed arbitrary: acc) (auto simp: load_row_inverse update_new)

text \<open>What a keyper relies on: decryption inverts encryption, and \<open>json.loads\<close> reads the text that was written.\<close>

definition vault_ok :: "vault \<Rightarrow> bool" where
  "vault_ok V \<longleftrightarrow> (\<forall>n p. vt_decrypt V (vt_encrypt V n p) = Some p)"

definition reads_back :: "vault \<Rightarrow> json \<Rightarrow> bool" where
  "reads_back V j \<longleftrightarrow> vt_loads V (encode_utf8 (dumps_default j)) = Inr j"

definition secrets_wf :: "(string \<times> DkgEntry) list \<Rightarrow> bool" where
  "secrets_wf completed \<longleftrightarrow> distinct (map fst completed) \<and> list_all (\<lambda>(_, e). 0 \<le> de_combined_share e) completed"

lemma load_saved_secrets:
  assumes "vault_ok V" "reads_back V (secrets_json completed)" "secrets_wf completed"
    and "d DKG_SECRETS = Some (vt_encrypt V n (encode_utf8 (dumps_default (secrets_json completed))))"
  shows "load_dkg_secrets V d [] = completed"
  using assms load_rows_inverse [of "[]" completed]
  by (simp add: load_dkg_secrets_def vault_ok_def reads_back_def secrets_wf_def secrets_json_def)

text \<open>
  C25: a crash while a keyper saves its secrets loses none of them. Wherever the process stops during
  the save, a write cut at any byte included, the next start loads either exactly the secrets that
  were loadable before or exactly the new ones, and leaves the other files alone; after the completed
  save the next start loads the new ones. A prune loses no secret that has not expired.
\<close>

theorem secrets_survive_crash:
  assumes "vault_ok V" and "reads_back V (secrets_json completed)" and "secrets_wf completed"
    and "reads_back V (secrets_json (prune_expired now completed))"
  shows "(\<forall>d'. crashed (save_dkg_secrets V n completed) d d' \<longrightarrow>
      (load_dkg_secrets V d' [] = load_dkg_secrets V d [] \<or> load_dkg_secrets V d' [] = completed) \<and>
      load_bootstrap_tokens V d' = load_bootstrap_tokens V d) \<and>
    load_dkg_secrets V (run_ops (save_dkg_secrets V n completed) d) [] = completed \<and>
    (load_dkg_secrets V d [] = completed \<longrightarrow> prune_and_save V n now completed = (left, ops, expired) \<longrightarrow> crashed ops d d'' \<longrightarrow>
      (\<forall>(e, v) \<in> set completed. e \<notin> set expired \<longrightarrow> (e, v) \<in> set (load_dkg_secrets V d'' [])))"
proof -
  have tmp: "with_suffix_tmp DKG_SECRETS \<noteq> DKG_SECRETS" "BOOTSTRAP_TOKENS \<noteq> DKG_SECRETS" "BOOTSTRAP_TOKENS \<noteq> with_suffix_tmp DKG_SECRETS"
    by (simp_all add: DKG_SECRETS_def BOOTSTRAP_TOKENS_def with_suffix_tmp_def)
  have crash: "(load_dkg_secrets V d' [] = load_dkg_secrets V d [] \<or> load_dkg_secrets V d' [] = c) \<and> load_bootstrap_tokens V d' = load_bootstrap_tokens V d"
    if c: "crashed (save_dkg_secrets V n c) d d'" "reads_back V (secrets_json c)" "secrets_wf c" for c d'
  proof -
    note w = write_atomic_crash [OF c(1) [unfolded save_dkg_secrets_def] tmp(1)]
    then have "load_bootstrap_tokens V d' = load_bootstrap_tokens V d" using tmp(2,3) by (simp add: load_bootstrap_tokens_def)
    moreover have "load_dkg_secrets V d' [] = load_dkg_secrets V d []" if "d' DKG_SECRETS = d DKG_SECRETS"
      using that by (simp add: load_dkg_secrets_def)
    ultimately show ?thesis using w load_saved_secrets [OF assms(1) c(2,3), of d' n] by blast
  qed
  have wf: "secrets_wf (prune_expired now completed)"
    using assms(3) by (auto simp: secrets_wf_def prune_expired_def list_all_iff intro: distinct_map_filter)
  have run: "load_dkg_secrets V (run_ops (save_dkg_secrets V n completed) d) [] = completed"
    by (rule load_saved_secrets [OF assms(1-3)]) (simp add: save_dkg_secrets_def write_atomic_run tmp(1) del: tmp_names)
  have prune: "(e, v) \<in> set (load_dkg_secrets V d'' [])" if p: "load_dkg_secrets V d [] = completed" "prune_and_save V n now completed = (left, ops, expired)"
    "crashed ops d d''" "(e, v) \<in> set completed" "e \<notin> set expired" for e v
  proof -
    have ex: "expired = map fst (filter (\<lambda>(e, v). case de_expires_at v of None \<Rightarrow> False | Some t \<Rightarrow> t \<le> now) completed)"
      using p(2) by (simp add: prune_and_save_def Let_def)
    have ops: "ops = (if expired = [] then [] else save_dkg_secrets V n (prune_expired now completed))"
      using p(2) by (auto simp: prune_and_save_def Let_def split: if_split_asm)
    have keep: "(e, v) \<in> set (prune_expired now completed)" using p(4,5) by (force simp: ex prune_expired_def)
    show ?thesis
    proof (cases "expired = []")
      case True
      with p(1,3,4) ops show ?thesis by (auto elim: crashed_NilE)
    next
      case False
      with crash [OF _ assms(4) wf] p(1,3) ops have "load_dkg_secrets V d'' [] = completed \<or> load_dkg_secrets V d'' [] = prune_expired now completed" by auto
      with keep p(4) show ?thesis by auto
    qed
  qed
  show ?thesis
  proof (intro conjI allI impI)
    show "load_dkg_secrets V d' [] = load_dkg_secrets V d [] \<or> load_dkg_secrets V d' [] = completed"
      and "load_bootstrap_tokens V d' = load_bootstrap_tokens V d" if "crashed (save_dkg_secrets V n completed) d d'" for d'
      using crash [OF that assms(2,3)] by blast+
  qed (use run prune in auto)
qed

section \<open>The restart of a keyper process\<close>

text \<open>The secrets a restarted process has are those its last save gives back.\<close>

lemma restart_reloads:
  assumes "vault_ok V" "reads_back V (secrets_json (sv_completed sv))" "secrets_wf (sv_completed sv)"
  shows "sv_completed (restart sv) = load_dkg_secrets V (run_ops (save_dkg_secrets V n (sv_completed sv)) d) []"
proof -
  have "with_suffix_tmp DKG_SECRETS \<noteq> DKG_SECRETS" by (simp add: DKG_SECRETS_def with_suffix_tmp_def)
  then have "load_dkg_secrets V (run_ops (save_dkg_secrets V n (sv_completed sv)) d) [] = sv_completed sv"
    by (intro load_saved_secrets [OF assms]) (simp add: save_dkg_secrets_def write_atomic_run del: tmp_names)
  then show ?thesis by simp
qed

section \<open>The token store implements the driver's map\<close>

text \<open>A directory the store has written: an object of credentials under distinct URLs, or nothing yet.\<close>

definition ts_holds :: "vault \<Rightarrow> disk \<Rightarrow> (string \<times> string \<times> string) list \<Rightarrow> bool" where
  "ts_holds V d m \<longleftrightarrow> distinct (map fst m) \<and> ts_load V d = JObj (map (\<lambda>(u, c). (u, credential_json c)) m)"

lemma map_of_credentials: "map_of (map (\<lambda>(u, c). (u, credential_json c)) m) url = map_option credential_json (map_of m url)"
  by (induction m) auto

lemma update_credentials:
  "AList.update url (credential_json c) (map (\<lambda>(u, c). (u, credential_json c)) m) = map (\<lambda>(u, c). (u, credential_json c)) (AList.update url c m)"
  by (induction m) auto

lemma credential_object [simp]:
  "truthy (credential_json c)" "(case credential_json c of JObj kvs \<Rightarrow> Inr (Some (JObj kvs)) | _ \<Rightarrow> Inl e) = Inr (Some (credential_json c))"
  by (simp_all add: credential_json_def)

text \<open>
  The store over files is the map of the ceremony driver. What \<open>get\<close> returns is what the map holds, a
  \<open>put\<close> updates it at one URL, and a crash during the \<open>put\<close> leaves the old map or the new one.
\<close>

theorem token_store_refines:
  assumes "vault_ok V" and "ts_holds V d m" and "reads_back V (JObj (map (\<lambda>(u, c). (u, credential_json c)) (AList.update url c m)))"
  shows "ts_get V d u = Inr (map_option credential_json (store_get (Some (map_of m)) u)) \<and>
    (\<exists>ops. ts_put V n d url c = Inr ops \<and> ts_holds V (run_ops ops d) (AList.update url c m) \<and>
       Some (map_of (AList.update url c m)) = store_put (Some (map_of m)) url c \<and>
       (\<forall>d'. crashed ops d d' \<longrightarrow> ts_holds V d' m \<or> ts_holds V d' (AList.update url c m)))"
proof -
  have tmp: "with_suffix_tmp KEYPER_TOKENS \<noteq> KEYPER_TOKENS" by (simp add: KEYPER_TOKENS_def with_suffix_tmp_def)
  let ?m = "AList.update url c m"
  let ?data = "vt_encrypt V n (encode_utf8 (dumps_default (JObj (map (\<lambda>(u, c). (u, credential_json c)) ?m))))"
  have put: "ts_put V n d url c = Inr (write_atomic KEYPER_TOKENS ?data)"
    using assms(2) by (simp add: ts_put_def ts_holds_def update_credentials)
  have new: "ts_holds V d' ?m" if "d' KEYPER_TOKENS = Some ?data" for d'
    using that assms by (simp add: ts_holds_def ts_load_def vault_ok_def reads_back_def distinct_update)
  have old: "ts_holds V d' m" if "d' KEYPER_TOKENS = d KEYPER_TOKENS" for d'
    using that assms(2) by (simp add: ts_holds_def ts_load_def)
  have get: "ts_get V d u = Inr (map_option credential_json (store_get (Some (map_of m)) u))"
    using assms(2) by (auto simp: ts_get_def ts_holds_def get_opt_def store_get_def map_of_credentials split: option.split)
  have "ts_holds V (run_ops (write_atomic KEYPER_TOKENS ?data) d) ?m" by (rule new) (simp add: write_atomic_run tmp del: tmp_names)
  moreover have "ts_holds V d' m \<or> ts_holds V d' ?m" if "crashed (write_atomic KEYPER_TOKENS ?data) d d'" for d'
    using write_atomic_crash [OF that tmp] new old by blast
  moreover have "Some (map_of ?m) = store_put (Some (map_of m)) url c" by (simp add: store_put_def update_conv')
  ultimately show ?thesis using get put by blast
qed

section \<open>Witnesses\<close>

text \<open>A stop between two operations is one of the crashes.\<close>

lemma crashed_prefix: "crashed ops d (run_ops (take k ops) d)"
proof (induction ops arbitrary: d k)
  case Nil
  show ?case by (simp add: run_ops_def stop)
next
  case (Cons op ops)
  show ?case using later [OF Cons.IH] by (cases k) (auto simp: run_ops_def intro: stop)
qed

text \<open>No encryption, and a parser that knows the two texts of the run.\<close>

definition sample_secrets :: "(string \<times> DkgEntry) list" where
  "sample_secrets = [(''a'', \<lparr>de_combined_share = 7, de_expires_at = Some 50\<rparr>), (''b'', \<lparr>de_combined_share = 300, de_expires_at = None\<rparr>)]"

definition sample_vault :: vault where
  "sample_vault = \<lparr>vt_encrypt = (\<lambda>n p. p), vt_decrypt = Some,
     vt_loads = (\<lambda>b. if b = encode_utf8 (dumps_default (secrets_json sample_secrets)) then Inr (secrets_json sample_secrets)
                      else Inr (secrets_json (prune_expired 60 sample_secrets)))\<rparr>"

lemma secrets_survive_crash_witness:
  "let D = run_ops (save_dkg_secrets sample_vault 0 sample_secrets) Map.empty;
       torn_save = [with_suffix_tmp DKG_SECRETS \<mapsto> take 5 (encode_utf8 (dumps_default (secrets_json sample_secrets)))];
       (left, ops, expired) = prune_and_save sample_vault 1 60 sample_secrets in
   load_dkg_secrets sample_vault D [] = sample_secrets \<and>
   load_dkg_secrets sample_vault torn_save [] \<in> {[], sample_secrets} \<and>
   expired = [''a''] \<and>
   (''b'', \<lparr>de_combined_share = 300, de_expires_at = None\<rparr>) \<in> set (load_dkg_secrets sample_vault (run_ops (take 1 ops) D) [])"
proof -
  let ?D = "run_ops (save_dkg_secrets sample_vault 0 sample_secrets) Map.empty"
  let ?torn = "[with_suffix_tmp DKG_SECRETS \<mapsto> take 5 (encode_utf8 (dumps_default (secrets_json sample_secrets)))]"
  obtain left ops expired where p: "prune_and_save sample_vault 1 60 sample_secrets = (left, ops, expired)"
    by (cases "prune_and_save sample_vault 1 60 sample_secrets")
  have v: "vault_ok sample_vault" by (simp add: vault_ok_def sample_vault_def)
  have r: "reads_back sample_vault (secrets_json sample_secrets)" by (simp add: reads_back_def sample_vault_def)
  have w: "secrets_wf sample_secrets" by (simp add: secrets_wf_def sample_secrets_def)
  have n: "encode_utf8 (dumps_default (secrets_json (prune_expired 60 sample_secrets))) \<noteq> encode_utf8 (dumps_default (secrets_json sample_secrets))"
    by (simp add: prune_expired_def sample_secrets_def secrets_json_def secret_row_def dump_str_def esc_def)
  then have q: "reads_back sample_vault (secrets_json (prune_expired 60 sample_secrets))" by (simp add: reads_back_def sample_vault_def)
  have e: "expired = [''a'']" using p by (auto simp: prune_and_save_def Let_def sample_secrets_def)
  have t: "crashed (save_dkg_secrets sample_vault 0 sample_secrets) Map.empty ?torn"
    unfolding save_dkg_secrets_def write_atomic_def sample_vault_def vault.simps by (rule torn)
  have c: "crashed ops ?D (run_ops (take 1 ops) ?D)"
    by (rule crashed_prefix)
  note base = secrets_survive_crash [OF v r w q, of 0 Map.empty]
  then have l: "load_dkg_secrets sample_vault ?D [] = sample_secrets" by blast
  have "load_dkg_secrets sample_vault Map.empty [] = []" by (simp add: load_dkg_secrets_def)
  with base t have m: "load_dkg_secrets sample_vault ?torn [] \<in> {[], sample_secrets}"
    unfolding insert_iff empty_iff by metis
  have b: "(''b'', \<lparr>de_combined_share = 300, de_expires_at = None\<rparr>) \<in> set sample_secrets" by (simp add: sample_secrets_def)
  have "\<forall>(e, v) \<in> set sample_secrets. e \<notin> set expired \<longrightarrow> (e, v) \<in> set (load_dkg_secrets sample_vault (run_ops (take 1 ops) ?D) [])"
    using secrets_survive_crash [OF v r w q, of 1 ?D left ops expired "run_ops (take 1 ops) ?D"] l p c by blast
  then have "(''b'', \<lparr>de_combined_share = 300, de_expires_at = None\<rparr>) \<in> set (load_dkg_secrets sample_vault (run_ops (take 1 ops) ?D) [])"
    using b by (auto simp: e)
  then show ?thesis using l m e unfolding Let_def p by simp
qed

end
