(* ===== verification/Spec2Isabelle.thy ===== *)
theory Spec2Isabelle
  imports Keyper_Server Coordinator Eligibility Relay Admin Public_Api Chain Persistence
begin

text \<open>
  A verification of \<^verbatim>\<open>shutter_governance_protocol\<close>, the Python implementation of a voting protocol with
  encrypted, weighted ballots: voters encrypt a vote vector under a threshold ElGamal key and prove
  it valid, a committee of keypers that generated the key together sums the admitted ballots under
  encryption and decrypts only the sum, and everybody can audit the stored artifacts. Paths below
  are relative to \<^verbatim>\<open>src/src/shutter_governance_protocol\<close>, those of contracts to \<^verbatim>\<open>src/contracts/src\<close>.

  \<^bold>\<open>The program and its parts.\<close> An election lives in a data layer (\<^verbatim>\<open>ports/data_layer.py\<close>) with
  interchangeable adapters: in memory, relational, remote over HTTP, or a set of contracts. The admin
  service registers, cancels and resumes elections. The coordinator polls the data layer; for a
  registered election it installs tokens on the keypers and drives the key ceremony over HTTP, and
  after the end of voting it triggers aggregation, decryption and publication. Keypers are HTTP
  services that exchange sealed shares and write signed artifacts, directly or through the
  coordinator's relay. Voters get a signed, weighted credential from an eligibility service and post
  ballots to the public API, whose gateway filter validates them before the write. The auditor
  recomputes key, admission, aggregate and result from the data layer alone.

  \<^bold>\<open>How it is modelled.\<close> Pure functions are HOL functions; a Python exception is the left summand of
  \<open>'a result\<close> (\<^verbatim>\<open>Prelude\<close>), with one constructor of \<open>error\<close> per exception class the code distinguishes;
  state is passed explicitly, and a backend is any type \<open>'s\<close> with a record \<open>'s ElectionDataLayer\<close> of
  operations. Integers are unbounded as in Python, with the reductions, byte lengths and ABI widths
  written out where the code has them; bytes are \<open>8 word\<close> lists. Drawn randomness and clock readings
  are arguments. Third-party code is a parameter: the curve and its hash (\<open>suite\<close> with the laws of
  the locale \<open>crypto_suite\<close>), \<open>keccak\<close>, \<open>eth_account\<close> and \<open>eth_abi\<close> (\<open>host\<close>), the AEAD of the
  \<^verbatim>\<open>cryptography\<close> package (\<open>box_ops\<close>, \<open>vault\<close>), the network between services (records of operations on an
  arbitrary world), OpenZeppelin's signature recovery and the JSON parser of the chain adapter
  (\<open>chain_lib\<close>). Loops are recursive functions with termination proofs; no definition needs fuel.
  Loops the source runs forever (the poll loop) are modelled for any number of rounds.

  \<^bold>\<open>Theories.\<close>

  \<^item> Cryptography: \<^verbatim>\<open>Params\<close>, \<^verbatim>\<open>Points\<close>, \<^verbatim>\<open>Transcript\<close>, \<^verbatim>\<open>Elgamal\<close>, \<^verbatim>\<open>Schnorr\<close>, \<^verbatim>\<open>Attestation\<close>, \<^verbatim>\<open>Proofs\<close>, \<^verbatim>\<open>Recovery\<close>,
    \<^verbatim>\<open>Dkg\<close>, \<^verbatim>\<open>Ballot\<close> for the files of the same names under \<^verbatim>\<open>crypto/\<close>. \<^verbatim>\<open>Curve_Order\<close> and
    \<^verbatim>\<open>Curve_Order_Powers\<close> prove the group order prime, \<^verbatim>\<open>Interpolation\<close> the Lagrange facts. Shown:
    completeness and special soundness of the proofs, codec round trips, that the message a voter signs
    determines what it is built from, exact recovery of a plaintext up to its bound by baby steps and giant steps,
    that any quorum of a complete dealing decrypts.
  \<^item> Core: \<^verbatim>\<open>Types\<close> (\<^verbatim>\<open>envelopes/types.py\<close>), \<^verbatim>\<open>Config\<close> (\<^verbatim>\<open>core/config.py\<close>, \<^verbatim>\<open>core/state.py\<close>), \<^verbatim>\<open>Admission\<close>,
    \<^verbatim>\<open>Aggregation\<close> (\<^verbatim>\<open>core/\<close>), \<^verbatim>\<open>Json\<close> and \<^verbatim>\<open>Codecs\<close> (\<^verbatim>\<open>envelopes/codecs.py\<close>), \<^verbatim>\<open>Authorization\<close> (\<^verbatim>\<open>core/authz.py\<close>,
    \<^verbatim>\<open>core/write_auth.py\<close>, \<^verbatim>\<open>core/quorum.py\<close>), \<^verbatim>\<open>Decryption\<close>. Shown: one ballot per pseudonym is admitted, the
    right one; the voter signature binds the whole of a valid ballot; decoders accept only well-formed
    artifacts and read back what was encoded; signed texts bind their content; two weight defects.
  \<^item> Data layers: \<^verbatim>\<open>Data_Layer\<close> (the port), \<^verbatim>\<open>Memory\<close> and \<^verbatim>\<open>Memory_Steps\<close> (\<^verbatim>\<open>adapters/memory.py\<close> and its
    reachable states), \<^verbatim>\<open>Store\<close>, \<^verbatim>\<open>Store_Refinement\<close>, \<^verbatim>\<open>Store_Conformance\<close> (\<^verbatim>\<open>adapters/db/store.py\<close> with the
    tables of \<^verbatim>\<open>schema.py\<close>, and the simulation with the in-memory reference), \<^verbatim>\<open>Wire\<close>
    (\<^verbatim>\<open>services/data_layer/data_layer.py\<close> and its client \<^verbatim>\<open>adapters/db/client.py\<close>), \<^verbatim>\<open>Contract\<close> (the Solidity
    contracts), \<^verbatim>\<open>Chain_Codec\<close> and \<^verbatim>\<open>Chain\<close> (\<^verbatim>\<open>adapters/chain/codec.py\<close>, \<^verbatim>\<open>adapters/chain/client.py\<close>).
    Shown: artifacts are final and quorums never split in memory and on chain, the relational store
    and the HTTP client refine the in-memory reference in answers and errors, up to the differences their
    statements name (a replayed stall request, key submissions of another size), what is written to the chain is read back,
    and three defects of the chain adapter.
  \<^item> Services: \<^verbatim>\<open>Reads\<close> (\<^verbatim>\<open>services/common/reads.py\<close>), \<^verbatim>\<open>Gateway\<close>, \<^verbatim>\<open>Keyper_Service\<close>, \<^verbatim>\<open>Tally\<close>, \<^verbatim>\<open>Auditor\<close>, \<^verbatim>\<open>Ceremony\<close>
    (the in-process ceremony driver), \<^verbatim>\<open>Keyper_Bootstrap\<close> and \<^verbatim>\<open>Keyper_Server\<close> (\<^verbatim>\<open>services/keyper/\<close>),
    \<^verbatim>\<open>Sha256\<close> and \<^verbatim>\<open>Eligibility\<close> (\<^verbatim>\<open>services/eligibility/eligibility.py\<close> and its adapters),
    \<^verbatim>\<open>Persistence\<close> (\<^verbatim>\<open>services/keyper/keyper_persistence.py\<close>, \<^verbatim>\<open>services/common/token_store.py\<close>),
    \<^verbatim>\<open>Ceremony_Http\<close> (\<^verbatim>\<open>services/coordinator/dkg_coordinator.py\<close>), \<^verbatim>\<open>Coordinator\<close> and \<^verbatim>\<open>Relay\<close>
    (\<^verbatim>\<open>services/coordinator/coordinator.py\<close>), \<^verbatim>\<open>Admin\<close> (\<^verbatim>\<open>services/admin/admin.py\<close>), \<^verbatim>\<open>Public_Api\<close>
    (\<^verbatim>\<open>services/api/api.py\<close>). Shown: complete reads, that accepted ballots count, that an honest committee
    takes an election from registration to a published result and a clean audit, that complaints
    cannot veto a ceremony, disclosure and finality of dealings, budgets and back-off of the
    coordinator, exactness of credentials and of the admin service, transparency of the relay, and that a
    crash during a save loses no secret.

  This theory holds the statement that spans them all: the published totals are the weighted sums of
  the votes, and the auditor accepts exactly these.

  \<^bold>\<open>Interfaces.\<close> Contracts between parts are locales, each interpreted on the definitions of the program:
  \<open>prime_group\<close> and \<open>crypto_suite\<close> (with a concrete suite), \<open>codec\<close> and \<open>public_codec\<close> (every artifact codec),
  \<open>ballot_store\<close> (the in-memory, relational, HTTP and blockchain data layers), \<open>nonce_allocator\<close> (SQLite and
  in-memory counters), \<open>sealed_box\<close> (the envelopes between keypers), \<open>keyper_submitter\<close> (the relay),
  \<open>stall_flag\<close> (the in-memory data layer).
  Properties rest on the facts of these interpretations.

  \<^bold>\<open>Bounds.\<close> The discrete logarithm is recovered up to the bound budget times total scaled weight, which
  the theorems assume below the group order. The gateway scans the last 1000 ballots, as the code
  does. Text is limited to code points below 256. Block times and ABI values have the widths of the
  contracts; \<open>lag\<close> is the time between the estimate of a transaction and its block.

  \<^bold>\<open>Not modelled.\<close> Process start-up, environment and command-line parsing, backend selection
  (\<^verbatim>\<open>services/common/backend.py\<close>), logging, CORS headers and Flask's body-size limit, connection
  handling of the database: input and output around the modelled functions. \<^verbatim>\<open>adapters/chain/deploy.py\<close> and \<^verbatim>\<open>adapters/voting_power.py\<close> only call
  \<open>web3\<close>. \<^verbatim>\<open>ports/keyper_p2p.py\<close> is an interface without a deployed implementation. Scripts, benchmarks,
  frontend and tests are no part of the implementation. Computational hardness is outside a logic of
  functions: soundness is stated as special soundness, binding as injectivity of the signed text.
\<close>

section \<open>The whole tally\<close>

text \<open>
  C1: the published result is the weighted tally. Whenever the admitted ballots encrypt vote
  vectors that spend the budget, a quorum of honest keypers has decrypted the aggregate, and the
  bound stays below the group order, recovery returns for every candidate the sum of the votes
  weighted by the scaled weights, and the auditor's check accepts exactly these totals.
\<close>

theorem election_tally_correct:
  assumes "crypto_suite S" and "config_ok config" and "length (cfg_election_id config) = 32" "cfg_mode config = EXACT"
    and enc: "\<And>ab. ab \<in> set (ar_admitted adm) \<Longrightarrow>
      encrypts S (peval f 0) ab (nat (cfg_num_candidates config)) (v ab) (r ab) \<and> 0 \<le> ab_weight ab \<and>
      (\<forall>j. 0 \<le> v ab j) \<and> (\<Sum>j \<leftarrow> [0..<nat (cfg_num_candidates config)]. v ab j) = cfg_budget config"
    and art: "build_aggregate_artifact S config adm = Inr art"
    and bound: "cfg_budget config * (\<Sum>ab \<leftarrow> ar_admitted adm. scaled_weight (ab_weight ab) (cfg_scale config)) < CURVE_ORDER"
    and shares: "\<forall>share \<in> set shares. honest_envelope S config pks f (agg_aggregates art) share" "length pks < 65536"
      "distinct (map ds_keyper_index shares)" "length f \<le> nat quorum" "quorum \<le> int (length shares)"
  shows "\<exists>res. recover_result S config art shares pks quorum None = Inr (Some res) \<and>
    res_totals res = map (\<lambda>j. \<Sum>ab \<leftarrow> ar_admitted adm. scaled_weight (ab_weight ab) (cfg_scale config) * v ab j)
      [0..<nat (cfg_num_candidates config)] \<and>
    check_result S config art shares pks quorum (res_totals res) = Inr (True, None)"
  using tally_recovers [OF assms(1-4) enc art bound shares] by blast

lemma election_tally_correct_witness:
  "\<exists>art shares res. build_aggregate_artifact zq_suite sample_config
       \<lparr>ar_admitted = [sample_admitted], ar_exclusions = [], ar_total_admitted_weight = 7\<rparr> = Inr art \<and>
     length shares = 2 \<and> recover_result zq_suite sample_config art shares sample_pks 2 None = Inr (Some res) \<and> res_totals res = [7, 14]"
proof -
  let ?v = "\<lambda>ab j. if j = 0 then 1 else if j = 1 then 2 else (0::int)" and ?r = "\<lambda>ab j. if j = 0 then 5 else (6::int)"
  let ?adm = "\<lparr>ar_admitted = [sample_admitted], ar_exclusions = [], ar_total_admitted_weight = 7\<rparr> :: AdmissionResult"
  have n: "nat (cfg_num_candidates sample_config) = 2" by (simp add: sample_config_def)
  have "\<And>ab. ab \<in> set (ar_admitted ?adm) \<Longrightarrow> encrypts zq_suite 9 ab (nat (cfg_num_candidates sample_config)) (?v ab) (?r ab)"
    using sample_admitted_encrypts n by simp
  from zq.build_aggregate_Enc [of ?adm 9 sample_config ?v ?r, OF this]
  obtain art pts where art: "build_aggregate_artifact zq_suite sample_config ?adm = Inr art" "decodes zq_suite (agg_aggregates art) pts"
    "length pts = 2" by (auto simp: decodes_emap n)
  have l: "length (agg_aggregates art) = 2" using art(2,3) by (auto simp: decodes_def dest: list_all2_lengthD)
  obtain s1 where s1: "ds_keyper_index s1 = 1" "honest_envelope zq_suite sample_config sample_pks [9, 4] (agg_aggregates art) s1"
    by (rule sample_envelope [OF art(2), of 1]) (simp_all add: l)
  obtain s3 where s3: "ds_keyper_index s3 = 3" "honest_envelope zq_suite sample_config sample_pks [9, 4] (agg_aggregates art) s3"
    by (rule sample_envelope [OF art(2), of 3]) (simp_all add: l)
  have "\<exists>res. recover_result zq_suite sample_config art [s1, s3] sample_pks 2 None = Inr (Some res) \<and>
    res_totals res = map (\<lambda>j. \<Sum>ab \<leftarrow> ar_admitted ?adm. scaled_weight (ab_weight ab) (cfg_scale sample_config) * ?v ab j)
      [0..<nat (cfg_num_candidates sample_config)] \<and>
    check_result zq_suite sample_config art [s1, s3] sample_pks 2 (res_totals res) = Inr (True, None)"
  proof (rule election_tally_correct [OF zq.crypto_suite_axioms sample_config_ok, where f = "[9, 4]" and r = ?r])
    show "build_aggregate_artifact zq_suite sample_config ?adm = Inr art" by (rule art(1))
  next
    fix ab
    assume "ab \<in> set (ar_admitted ?adm)"
    then show "encrypts zq_suite (peval [9, 4] 0) ab (nat (cfg_num_candidates sample_config)) (?v ab) (?r ab) \<and> 0 \<le> ab_weight ab \<and>
      (\<forall>j. 0 \<le> ?v ab j) \<and> (\<Sum>j \<leftarrow> [0..<nat (cfg_num_candidates sample_config)]. ?v ab j) = cfg_budget sample_config"
      using sample_admitted_encrypts n by (simp add: sample_admitted_def sample_config_def upt_rec)
  qed (use s1 s3 in \<open>simp_all add: sample_config_def sample_admitted_def sample_pks_def scaled_weight_one CURVE_ORDER_def\<close>)
  then show ?thesis
    using art(1) by (intro exI [of _ art] exI [of _ "[s1, s3]"]) (auto simp: n sample_admitted_def sample_config_def scaled_weight_one upt_rec)
qed

end
